(* ===== verification/Prelude.thy ===== *)
theory Prelude
  imports Main "HOL-Library.Word"
begin

text \<open>
  Types, error plumbing and generic lemmas shared by every component.

  A Rust \<open>Vec<u8>\<close> is a list of 8-bit words, a Rust \<open>char\<close> its Unicode scalar value (a
  \<open>nat\<close>), a \<open>String\<close> or \<open>&str\<close> the list of its characters. A \<open>Result<T, E>\<close> is a sum with the
  error on the left.
\<close>

unbundle bit_operations_syntax

type_synonym u8 = "8 word"
type_synonym u32 = "32 word"
type_synonym u64 = "64 word"
type_synonym bytes = "u8 list"
type_synonym rchar = nat
type_synonym ustring = "rchar list"

text \<open>String and character literals of the source.\<close>

definition lit :: "string \<Rightarrow> ustring" where
  "lit s = map of_char s"

abbreviation ch :: "char \<Rightarrow> rchar" where
  "ch c \<equiv> of_char c"

lemma lit_Nil [simp]: "lit [] = []"
  by (simp add: lit_def)

lemma lit_Cons [simp]: "lit (c # s) = of_char c # lit s"
  by (simp add: lit_def)

lemma length_lit [simp]: "length (lit s) = length s"
  by (simp add: lit_def)

named_theorems roundtrips \<open>decoding what the matching encoder wrote\<close>
named_theorems bounds \<open>bounds on the results of the operations\<close>

section \<open>Result values\<close>

fun rbind :: "'e + 'a \<Rightarrow> ('a \<Rightarrow> 'e + 'b) \<Rightarrow> 'e + 'b" where
  "rbind (Inl e) f = Inl e"
| "rbind (Inr x) f = f x"

fun rmap :: "('a \<Rightarrow> 'b) \<Rightarrow> 'e + 'a \<Rightarrow> 'e + 'b" where
  "rmap f (Inl e) = Inl e"
| "rmap f (Inr x) = Inr (f x)"

fun rmap_err :: "('e \<Rightarrow> 'f) \<Rightarrow> 'e + 'a \<Rightarrow> 'f + 'a" where
  "rmap_err f (Inl e) = Inl (f e)"
| "rmap_err f (Inr x) = Inr x"

definition ok_or :: "'a option \<Rightarrow> 'e \<Rightarrow> 'e + 'a" where
  "ok_or r e = (case r of None \<Rightarrow> Inl e | Some x \<Rightarrow> Inr x)"

text \<open>Collecting an iterator of results: the first error wins.\<close>

fun rmapM :: "('a \<Rightarrow> 'e + 'b) \<Rightarrow> 'a list \<Rightarrow> 'e + 'b list" where
  "rmapM f [] = Inr []"
| "rmapM f (x # xs) = rbind (f x) (\<lambda>y. rbind (rmapM f xs) (\<lambda>ys. Inr (y # ys)))"

lemma rbind_eq_Inr: "rbind r f = Inr y \<longleftrightarrow> (\<exists>x. r = Inr x \<and> f x = Inr y)"
  by (cases r) auto

lemma rbind_eq_Inl: "rbind r f = Inl e \<longleftrightarrow> r = Inl e \<or> (\<exists>x. r = Inr x \<and> f x = Inl e)"
  by (cases r) auto

lemma rmap_eq_Inr: "rmap f r = Inr y \<longleftrightarrow> (\<exists>x. r = Inr x \<and> y = f x)"
  by (cases r) auto

lemma rmap_err_eq_Inr: "rmap_err f r = Inr y \<longleftrightarrow> r = Inr y"
  by (cases r) auto

lemma ok_or_eq_Inr: "ok_or r e = Inr x \<longleftrightarrow> r = Some x"
  by (cases r) (auto simp: ok_or_def)

lemma ok_or_simps [simp]: "ok_or None e = Inl e" "ok_or (Some x) e = Inr x"
  by (simp_all add: ok_or_def)

lemmas result_inv = rbind_eq_Inr rmap_eq_Inr rmap_err_eq_Inr ok_or_eq_Inr

lemma rbind_assoc: "rbind (rbind r f) g = rbind r (\<lambda>x. rbind (f x) g)"
  by (cases r) auto

lemma rmapM_map_Inr: "(\<And>x. x \<in> set xs \<Longrightarrow> f (g x) = Inr x) \<Longrightarrow> rmapM f (map g xs) = Inr xs"
  by (induction xs) auto

lemma rmapM_length: "rmapM f xs = Inr ys \<Longrightarrow> length ys = length xs"
  by (induction xs arbitrary: ys) (auto simp: result_inv)

text \<open>The outcome of a call that may also panic or never return.\<close>

datatype ('e, 'a) outcome = Returned "'e + 'a" | Panicked | Diverged

text \<open>Calls that return or panic, inside an operation: \<open>None\<close> is a panic, which ends the operation.\<close>

fun pbind :: "('e + 'a) option \<Rightarrow> ('a \<Rightarrow> ('e + 'b) option) \<Rightarrow> ('e + 'b) option" where
  "pbind None f = None"
| "pbind (Some (Inl e)) f = Some (Inl e)"
| "pbind (Some (Inr x)) f = f x"

fun or_panic :: "('e + 'a) option \<Rightarrow> ('e, 'a) outcome" where
  "or_panic None = Panicked"
| "or_panic (Some r) = Returned r"

lemma or_panic_returns [simp]: "or_panic p \<noteq> Diverged"
  by (cases p) auto

lemma pbind_cong [fundef_cong]:
  "p = q \<Longrightarrow> (\<And>x. q = Some (Inr x) \<Longrightarrow> f x = g x) \<Longrightarrow> pbind p f = pbind q g"
  by (cases "(q, f)" rule: pbind.cases) auto

lemma pbind_eq_Inr: "pbind p f = Some (Inr y) \<longleftrightarrow> (\<exists>x. p = Some (Inr x) \<and> f x = Some (Inr y))"
  by (cases "(p, f)" rule: pbind.cases) auto

lemma pbind_None: "pbind p f = None \<longleftrightarrow> p = None \<or> (\<exists>x. p = Some (Inr x) \<and> f x = None)"
  by (cases "(p, f)" rule: pbind.cases) auto

lemma rbind_cong [fundef_cong]:
  "p = q \<Longrightarrow> (\<And>x. q = Inr x \<Longrightarrow> f x = g x) \<Longrightarrow> rbind p f = rbind q g"
  by (cases q) auto

section \<open>Chunks\<close>

text \<open>\<open>slice::chunks\<close>: pieces of \<open>n\<close> elements, the last one possibly shorter.\<close>

function chunks :: "nat \<Rightarrow> 'a list \<Rightarrow> 'a list list" where
  "chunks n xs = (if n = 0 \<or> xs = [] then [] else take n xs # chunks n (drop n xs))"
  by pat_completeness auto
termination
  by (relation "measure (\<lambda>(n, xs). length xs)") auto

declare chunks.simps [simp del]

lemma chunks_Nil [simp]: "chunks n [] = []"
  by (simp add: chunks.simps)

lemma chunks_append: "length c = n \<Longrightarrow> 0 < n \<Longrightarrow> chunks n (c @ xs) = c # chunks n xs"
  by (subst chunks.simps) auto

lemma chunks_concat:
  "0 < n \<Longrightarrow> (\<And>c. c \<in> set cs \<Longrightarrow> length c = n) \<Longrightarrow> chunks n (concat cs) = cs"
  by (induction cs) (auto simp: chunks_append)

lemma chunks_short: "xs \<noteq> [] \<Longrightarrow> length xs \<le> n \<Longrightarrow> chunks n xs = [xs]"
  by (subst chunks.simps) (cases xs, auto)

lemma chunks_step: "xs \<noteq> [] \<Longrightarrow> 0 < n \<Longrightarrow> chunks n xs = take n xs # chunks n (drop n xs)"
  by (subst chunks.simps) auto

lemma concat_chunks: "0 < n \<Longrightarrow> concat (chunks n xs) = xs"
proof (induction n xs rule: chunks.induct)
  case (1 n xs)
  then show ?case
    by (cases "xs = []") (simp_all add: chunks_step)
qed

lemma chunks_lengths: "c \<in> set (chunks n xs) \<Longrightarrow> 0 < length c \<and> length c \<le> n"
proof (induction n xs rule: chunks.induct)
  case (1 n xs)
  then show ?case
    by (cases "n = 0 \<or> xs = []") (auto simp: chunks.simps [of n xs])
qed

lemma chunks_whole:
  "n dvd length xs \<Longrightarrow> c \<in> set (chunks n xs) \<Longrightarrow> length c = n"
proof (induction n xs rule: chunks.induct)
  case (1 n xs)
  show ?case
  proof (cases "n = 0 \<or> xs = []")
    case True
    with "1.prems" show ?thesis by (simp add: chunks.simps [of n xs])
  next
    case False
    with "1.prems"(1) have le: "n \<le> length xs"
      by (auto intro: dvd_imp_le)
    with "1.prems"(1) have d: "n dvd length (drop n xs)"
      by simp
    from "1.prems"(2) False have "c = take n xs \<or> c \<in> set (chunks n (drop n xs))"
      by (simp add: chunks_step)
    with False le d "1.IH" show ?thesis by auto
  qed
qed

section \<open>Words\<close>

lemma unat_u8_lt [bounds]: "unat (b :: u8) < 256"
  using unsigned_less [of b, where 'a = nat] by simp

lemma u8_of_nat_unat: "(of_nat (unat (b :: u8)) :: u8) = b"
  by simp

lemma unat_of_nat_u8: "n < 256 \<Longrightarrow> unat (of_nat n :: u8) = n"
  by (simp add: unat_of_nat)

lemma u8_eq_iff_unat: "(a :: u8) = b \<longleftrightarrow> unat a = unat b"
  by (simp add: word_unat_eq_iff)

lemma of_nat_u8_eq_iff: "m < 256 \<Longrightarrow> n < 256 \<Longrightarrow> (of_nat m :: u8) = of_nat n \<longleftrightarrow> m = n"
  by (metis unat_of_nat_u8)

lemma word_xor_cancel: "(x XOR k) XOR k = (x :: 'a::len word)"
  by (simp add: xor.assoc)

text \<open>Shifts and casts as arithmetic.\<close>

lemma unat_shl: "unat (push_bit n (w :: 'a::len word)) = unat w * 2 ^ n mod 2 ^ LENGTH('a)"
  unfolding unsigned_push_bit_eq by (simp only: take_bit_eq_mod push_bit_eq_mult)

lemma unat_shr: "unat (drop_bit n (w :: 'a::len word)) = unat w div 2 ^ n"
  unfolding unat_drop_bit_eq by (simp only: drop_bit_eq_div)

lemma unat_as: "unat (ucast (w :: 'a::len word) :: 'b::len word) = unat w mod 2 ^ LENGTH('b)"
  by (simp only: unsigned_ucast_eq take_bit_eq_mod)

lemma shl_or_low:
  assumes "LENGTH('b::len) \<le> n"
  shows "push_bit n (v :: 'a::len word) OR ucast (b :: 'b word) = push_bit n v + ucast b"
proof -
  have "push_bit n v AND (ucast b :: 'a word) = 0"
    using assms by (intro bit_word_eqI) (auto simp: bit_simps dest: bit_imp_le_length)
  then show ?thesis
    using word_plus_and_or [of "push_bit n v" "ucast b :: 'a word"] by simp
qed

section \<open>Lists\<close>

lemma zip_map_xor_involutive:
  "length ks \<ge> length xs \<Longrightarrow>
   map (\<lambda>(x, k). x XOR k) (zip (map (\<lambda>(x, k). x XOR k) (zip xs ks)) ks) = (xs :: 'a::len word list)"
proof (induction xs arbitrary: ks)
  case Nil
  then show ?case by simp
next
  case (Cons x xs)
  then obtain k ks' where "ks = k # ks'" by (cases ks) auto
  with Cons show ?case by (simp add: word_xor_cancel)
qed

lemma find_Some_mem: "List.find P xs = Some x \<Longrightarrow> x \<in> set xs \<and> P x"
  by (induction xs) (auto split: if_splits)

lemma takeWhile_replicate_append: "\<not> P x \<Longrightarrow> P z \<Longrightarrow> takeWhile P (replicate n z @ x # xs) = replicate n z"
  by (induction n) auto

lemma takeWhile_all: "(\<And>x. x \<in> set xs \<Longrightarrow> P x) \<Longrightarrow> takeWhile P xs = xs"
  by (induction xs) auto

section \<open>Interfaces\<close>

text \<open>
  The contract between an encoder and its decoder: on the values \<open>ok\<close> accepts, decoding gives
  the value back.
\<close>

locale codec =
  fixes enc :: "'a \<Rightarrow> 'b"
    and dec :: "'b \<Rightarrow> 'e + 'a"
    and ok :: "'a \<Rightarrow> bool"
  assumes dec_enc: "ok x \<Longrightarrow> dec (enc x) = Inr x"
begin

lemma enc_inj: "ok x \<Longrightarrow> ok y \<Longrightarrow> enc x = enc y \<Longrightarrow> x = y"
  using dec_enc by (metis sum.inject(2))

lemma dec_all: "(\<And>x. x \<in> set xs \<Longrightarrow> ok x) \<Longrightarrow> rmapM dec (map enc xs) = Inr xs"
  by (rule rmapM_map_Inr) (rule dec_enc)

lemma dec_then: "ok x \<Longrightarrow> rbind (dec (enc x)) k = k x"
  by (simp add: dec_enc)

end

text \<open>
  A self-delimiting code: the decoder reads one value off the front and hands back the rest, so
  values can be written one after the other.
\<close>

locale prefix_code =
  fixes enc :: "'a \<Rightarrow> 'b list"
    and dec :: "'b list \<Rightarrow> 'e + 'a \<times> 'b list"
    and ok :: "'a \<Rightarrow> bool"
  assumes dec_append: "ok x \<Longrightarrow> dec (enc x @ rest) = Inr (x, rest)"
begin

fun dec_seq :: "nat \<Rightarrow> 'b list \<Rightarrow> 'e + 'a list \<times> 'b list" where
  "dec_seq 0 s = Inr ([], s)"
| "dec_seq (Suc n) s =
     rbind (dec s) (\<lambda>(x, s'). rbind (dec_seq n s') (\<lambda>(xs, s''). Inr (x # xs, s'')))"

lemma dec_seq_concat:
  "(\<And>x. x \<in> set xs \<Longrightarrow> ok x) \<Longrightarrow>
   dec_seq (length xs) (concat (map enc xs) @ rest) = Inr (xs, rest)"
  by (induction xs) (auto simp: dec_append)

lemma enc_prefix_free:
  assumes "ok x" "ok y" "enc y = enc x @ t"
  shows "x = y \<and> t = []"
proof -
  have "dec (enc x @ t) = Inr (x, t)" using assms(1) by (rule dec_append)
  moreover have "dec (enc y @ []) = Inr (y, [])" using assms(2) by (rule dec_append)
  ultimately show ?thesis using assms(3) by simp
qed

lemma concat_inj:
  assumes "\<And>x. x \<in> set xs \<Longrightarrow> ok x" and "\<And>y. y \<in> set ys \<Longrightarrow> ok y"
    and "length xs = length ys" and "concat (map enc xs) = concat (map enc ys)"
  shows "xs = ys"
  using dec_seq_concat [of xs "[]"] dec_seq_concat [of ys "[]"] assms by simp

end

text \<open>
  A keyed transformation that undoes itself when it is applied twice with the same key, as every
  XOR with a key stream does.
\<close>

locale self_inverse =
  fixes f :: "'k \<Rightarrow> 'a \<Rightarrow> 'a"
  assumes f_f: "f k (f k x) = x"
begin

lemma f_inj: "f k x = f k y \<Longrightarrow> x = y"
  by (metis f_f)

lemma f_surj: "\<exists>x. f k x = y"
  by (metis f_f)

lemma f_swap: "f k x = y \<longleftrightarrow> f k y = x"
  by (metis f_f)

end

end
