(* ===== verification/Utf8.thy ===== *)
theory Utf8
  imports Prelude
begin

text \<open>
  UTF-8 as the Rust standard library does it: \<open>String\<close> to bytes, the strict
  \<open>str::from_utf8\<close> and the lossy \<open>String::from_utf8_lossy\<close>. Both decoders are built on one
  step, which reads one character or, on a malformed sequence, skips the maximal invalid prefix
  that the library replaces by a single U+FFFD.
\<close>

definition is_scalar :: "rchar \<Rightarrow> bool" where
  "is_scalar c \<longleftrightarrow> c < 0xD800 \<or> (0xE000 \<le> c \<and> c \<le> 0x10FFFF)"

definition valid_string :: "ustring \<Rightarrow> bool" where
  "valid_string s \<longleftrightarrow> list_all is_scalar s"

definition char_from_u32 :: "nat \<Rightarrow> rchar option" where
  "char_from_u32 n = (if is_scalar n then Some n else None)"

definition utf8_char :: "rchar \<Rightarrow> bytes" where
  "utf8_char c =
     (if c < 0x80 then [of_nat c]
      else if c < 0x800 then [of_nat (0xC0 + c div 64), of_nat (0x80 + c mod 64)]
      else if c < 0x10000 then
        [of_nat (0xE0 + c div 4096), of_nat (0x80 + c div 64 mod 64), of_nat (0x80 + c mod 64)]
      else
        [of_nat (0xF0 + c div 262144), of_nat (0x80 + c div 4096 mod 64),
         of_nat (0x80 + c div 64 mod 64), of_nat (0x80 + c mod 64)])"

definition utf8 :: "ustring \<Rightarrow> bytes" where
  "utf8 s = concat (map utf8_char s)"

definition is_cont :: "u8 \<Rightarrow> bool" where
  "is_cont b \<longleftrightarrow> 128 \<le> unat b \<and> unat b < 192"

text \<open>Which second bytes may follow a three- or four-byte lead.\<close>

definition second3 :: "nat \<Rightarrow> nat \<Rightarrow> bool" where
  "second3 b y \<longleftrightarrow>
     (b = 0xE0 \<and> 0xA0 \<le> y \<and> y < 0xC0) \<or> (b = 0xED \<and> 0x80 \<le> y \<and> y < 0xA0) \<or>
     (b \<noteq> 0xE0 \<and> b \<noteq> 0xED \<and> 0x80 \<le> y \<and> y < 0xC0)"

definition second4 :: "nat \<Rightarrow> nat \<Rightarrow> bool" where
  "second4 b y \<longleftrightarrow>
     (b = 0xF0 \<and> 0x90 \<le> y \<and> y < 0xC0) \<or> (b = 0xF4 \<and> 0x80 \<le> y \<and> y < 0x90) \<or>
     (b \<noteq> 0xF0 \<and> b \<noteq> 0xF4 \<and> 0x80 \<le> y \<and> y < 0xC0)"

definition utf8_step :: "u8 \<Rightarrow> bytes \<Rightarrow> rchar option \<times> bytes" where
  "utf8_step x rest = (let b = unat x in
     if b < 0x80 then (Some b, rest)
     else if 0xC2 \<le> b \<and> b < 0xE0 then
       (case rest of
          y # r1 \<Rightarrow> if is_cont y then (Some ((b - 0xC0) * 64 + (unat y - 0x80)), r1) else (None, rest)
        | [] \<Rightarrow> (None, rest))
     else if 0xE0 \<le> b \<and> b < 0xF0 then
       (case rest of
          y # r1 \<Rightarrow>
            if second3 b (unat y) then
              (case r1 of
                 z # r2 \<Rightarrow>
                   if is_cont z
                   then (Some ((b - 0xE0) * 4096 + (unat y - 0x80) * 64 + (unat z - 0x80)), r2)
                   else (None, r1)
               | [] \<Rightarrow> (None, r1))
            else (None, rest)
        | [] \<Rightarrow> (None, rest))
     else if 0xF0 \<le> b \<and> b < 0xF5 then
       (case rest of
          y # r1 \<Rightarrow>
            if second4 b (unat y) then
              (case r1 of
                 z # r2 \<Rightarrow>
                   if is_cont z then
                     (case r2 of
                        w # r3 \<Rightarrow>
                          if is_cont w
                          then (Some ((b - 0xF0) * 262144 + (unat y - 0x80) * 4096 +
                                      (unat z - 0x80) * 64 + (unat w - 0x80)), r3)
                          else (None, r2)
                      | [] \<Rightarrow> (None, r2))
                   else (None, r1)
               | [] \<Rightarrow> (None, r1))
            else (None, rest)
        | [] \<Rightarrow> (None, rest))
     else (None, rest))"

lemma utf8_step_length: "length (snd (utf8_step x rest)) \<le> length rest"
  by (auto simp: utf8_step_def Let_def split: list.splits)

function utf8_chunks :: "bytes \<Rightarrow> rchar option list" where
  "utf8_chunks [] = []"
| "utf8_chunks (x # rest) = fst (utf8_step x rest) # utf8_chunks (snd (utf8_step x rest))"
  by pat_completeness auto
termination
  by (relation "measure length") (auto simp: le_imp_less_Suc utf8_step_length)

definition from_utf8 :: "bytes \<Rightarrow> ustring option" where
  "from_utf8 bs = (let cs = utf8_chunks bs in
     if None \<in> set cs then None else Some (map the cs))"

definition from_utf8_lossy :: "bytes \<Rightarrow> ustring" where
  "from_utf8_lossy bs = map (\<lambda>c. case c of None \<Rightarrow> 0xFFFD | Some c \<Rightarrow> c) (utf8_chunks bs)"

section \<open>Encoding then decoding\<close>

text \<open>Splitting a scalar value into its six-bit groups.\<close>

lemma six_bits:
  assumes "r < 64" "q < 64"
  shows "(p * 64 + r) div 64 = (p :: nat)" "(p * 64 + r) mod 64 = r"
    "(p * 4096 + q * 64 + r) div 4096 = p"
    "(p * 4096 + q * 64 + r) div 64 mod 64 = q" "(p * 4096 + q * 64 + r) mod 64 = r"
proof -
  show "(p * 64 + r) div 64 = p" "(p * 64 + r) mod 64 = r"
    using assms by simp_all
  have eq: "p * 4096 + q * 64 + r = (p * 64 + q) * 64 + r" by simp
  have d: "(p * 4096 + q * 64 + r) div 64 = p * 64 + q" "(p * 4096 + q * 64 + r) mod 64 = r"
    unfolding eq using assms(1) by (simp, simp only: mod_mult_self3 mod_less)
  from d(2) show "(p * 4096 + q * 64 + r) mod 64 = r" .
  show "(p * 4096 + q * 64 + r) div 64 mod 64 = q"
    using d(1) assms(2) by simp
  have "(p * 4096 + q * 64 + r) div 4096 = (p * 4096 + q * 64 + r) div 64 div 64"
    by (simp flip: div_mult2_eq)
  then show "(p * 4096 + q * 64 + r) div 4096 = p"
    using d(1) assms(2) by simp
qed

lemma six_bits4:
  assumes "t < 64" "r < 64" "q < 64"
  shows "(p * 262144 + q * 4096 + r * 64 + t) div 262144 = (p :: nat)"
    "(p * 262144 + q * 4096 + r * 64 + t) div 4096 mod 64 = q"
    "(p * 262144 + q * 4096 + r * 64 + t) div 64 mod 64 = r"
    "(p * 262144 + q * 4096 + r * 64 + t) mod 64 = t"
proof -
  have eq: "p * 262144 + q * 4096 + r * 64 + t = (p * 64 + q) * 4096 + r * 64 + t" by simp
  note s = six_bits [OF assms(1,2), of "p * 64 + q", folded eq]
  from s(4,5) show "(p * 262144 + q * 4096 + r * 64 + t) div 64 mod 64 = r"
    "(p * 262144 + q * 4096 + r * 64 + t) mod 64 = t" by simp_all
  from s(3) show "(p * 262144 + q * 4096 + r * 64 + t) div 4096 mod 64 = q"
    using assms(3) by simp
  have "(p * 262144 + q * 4096 + r * 64 + t) div 262144 =
      (p * 262144 + q * 4096 + r * 64 + t) div 4096 div 64"
    by (simp flip: div_mult2_eq)
  with s(3) show "(p * 262144 + q * 4096 + r * 64 + t) div 262144 = p"
    using assms(3) by simp
qed

lemma scalar_groups3:
  obtains p q r where "c = p * 4096 + q * 64 + r" "q < 64" "r < (64 :: nat)"
proof
  show "c = c div 4096 * 4096 + c div 64 mod 64 * 64 + c mod 64"
  proof -
    have "c div 4096 = c div 64 div 64" by (simp flip: div_mult2_eq)
    then have "c div 4096 * 64 + c div 64 mod 64 = c div 64" by simp
    moreover have "c div 64 * 64 + c mod 64 = c" by simp
    ultimately show ?thesis by linarith
  qed
qed simp_all

lemma scalar_groups4:
  obtains p q r t where "c = p * 262144 + q * 4096 + r * 64 + t" "q < 64" "r < 64" "t < (64 :: nat)"
proof -
  obtain m r t where c: "c = m * 4096 + r * 64 + t" "r < 64" "t < 64" by (rule scalar_groups3)
  have "c = m div 64 * 262144 + m mod 64 * 4096 + r * 64 + t"
    using c(1) div_mult_mod_eq [of m 64] by linarith
  then show ?thesis by (rule that) (simp_all add: c)
qed

lemma unat_tail: "n < 64 \<Longrightarrow> unat (of_nat (128 + n) :: u8) = 128 + n"
  by (rule unat_of_nat_u8) simp

lemma is_cont_tail: "n < 64 \<Longrightarrow> is_cont (of_nat (128 + n))"
  unfolding is_cont_def by (simp add: unat_tail [simplified])

lemma utf8_char3:
  "p < 16 \<Longrightarrow> q < 64 \<Longrightarrow> r < 64 \<Longrightarrow> c = p * 4096 + q * 64 + r \<Longrightarrow> 0x800 \<le> c \<Longrightarrow>
   utf8_char c = [of_nat (0xE0 + p), of_nat (0x80 + q), of_nat (0x80 + r)]"
  unfolding utf8_char_def by (simp add: six_bits)

lemma utf8_char4:
  "q < 64 \<Longrightarrow> r < 64 \<Longrightarrow> t < 64 \<Longrightarrow> c = p * 262144 + q * 4096 + r * 64 + t \<Longrightarrow> 0x10000 \<le> c \<Longrightarrow>
   utf8_char c = [of_nat (0xF0 + p), of_nat (0x80 + q), of_nat (0x80 + r), of_nat (0x80 + t)]"
  unfolding utf8_char_def by (simp add: six_bits4)

lemma utf8_step3:
  assumes "p < 16" "q < 64" "r < 64" "second3 (224 + p) (128 + q)"
  shows "utf8_step (of_nat (0xE0 + p)) (of_nat (0x80 + q) # of_nat (0x80 + r) # rest) =
    (Some (p * 4096 + q * 64 + r), rest)"
proof -
  have "unat (of_nat (224 + p) :: u8) = 224 + p"
    using assms(1) by (intro unat_of_nat_u8) simp
  with assms show ?thesis
    unfolding utf8_step_def
    by (simp add: Let_def unat_tail [simplified] is_cont_tail [simplified])
qed

lemma utf8_step4:
  assumes "p < 5" "q < 64" "r < 64" "t < 64" "second4 (240 + p) (128 + q)"
  shows "utf8_step (of_nat (0xF0 + p)) (of_nat (0x80 + q) # of_nat (0x80 + r) # of_nat (0x80 + t) # rest) =
    (Some (p * 262144 + q * 4096 + r * 64 + t), rest)"
proof -
  have "unat (of_nat (240 + p) :: u8) = 240 + p"
    using assms(1) by (intro unat_of_nat_u8) simp
  with assms show ?thesis
    unfolding utf8_step_def
    by (simp add: Let_def unat_tail [simplified] is_cont_tail [simplified])
qed

lemma utf8_step2:
  assumes "2 \<le> p" "p < 32" "q < 64"
  shows "utf8_step (of_nat (0xC0 + p)) (of_nat (0x80 + q) # rest) = (Some (p * 64 + q), rest)"
proof -
  have "unat (of_nat (192 + p) :: u8) = 192 + p"
    using assms(2) by (intro unat_of_nat_u8) simp
  with assms show ?thesis
    unfolding utf8_step_def
    by (simp add: Let_def unat_tail [simplified] is_cont_tail [simplified])
qed

lemma utf8_step_char:
  assumes "is_scalar c"
  shows "\<exists>x r. utf8_char c = x # r \<and> (\<forall>rest. utf8_step x (r @ rest) = (Some c, rest))"
proof -
  consider "c < 0x80" | "0x80 \<le> c" "c < 0x800" | "0x800 \<le> c" "c < 0x10000" | "0x10000 \<le> c"
    by linarith
  then show ?thesis
  proof cases
    case 1
    then show ?thesis by (simp add: utf8_char_def utf8_step_def unat_of_nat_u8)
  next
    case 2
    then have "2 \<le> c div 64" "c div 64 < 32" by auto
    with 2 utf8_step2 [of "c div 64" "c mod 64"] show ?thesis
      by (simp add: utf8_char_def)
  next
    case 3
    obtain p q r where c: "c = p * 4096 + q * 64 + r" "q < 64" "r < 64" by (rule scalar_groups3)
    with 3 have p: "p < 16" by simp
    with 3 c assms have "second3 (224 + p) (128 + q)"
      unfolding second3_def is_scalar_def by auto
    then have "\<And>rest. utf8_step (of_nat (0xE0 + p)) ([of_nat (0x80 + q), of_nat (0x80 + r)] @ rest) = (Some c, rest)"
      using utf8_step3 [OF p c(2,3)] by (simp add: c(1))
    with utf8_char3 [OF p c(2,3,1) 3(1)] show ?thesis by blast
  next
    case 4
    obtain p q r t where c: "c = p * 262144 + q * 4096 + r * 64 + t" "q < 64" "r < 64" "t < 64"
      by (rule scalar_groups4)
    with 4 assms have p: "p < 5" by (auto simp: is_scalar_def)
    with 4 c assms have "second4 (240 + p) (128 + q)"
      unfolding second4_def is_scalar_def by auto
    then have "\<And>rest. utf8_step (of_nat (0xF0 + p))
        ([of_nat (0x80 + q), of_nat (0x80 + r), of_nat (0x80 + t)] @ rest) = (Some c, rest)"
      using utf8_step4 [OF p c(2,3,4)] by (simp add: c(1))
    with utf8_char4 [OF c(2,3,4,1) 4] show ?thesis by blast
  qed
qed

lemma utf8_chunks_char: "is_scalar c \<Longrightarrow> utf8_chunks (utf8_char c @ rest) = Some c # utf8_chunks rest"
  using utf8_step_char [of c] by auto

lemma utf8_chunks_utf8: "valid_string s \<Longrightarrow> utf8_chunks (utf8 s) = map Some s"
  by (induction s) (auto simp: utf8_def valid_string_def utf8_chunks_char)

lemma from_utf8_utf8 [simp, roundtrips]: "valid_string s \<Longrightarrow> from_utf8 (utf8 s) = Some s"
  by (auto simp: from_utf8_def utf8_chunks_utf8 comp_def)

lemma from_utf8_lossy_utf8 [simp, roundtrips]: "valid_string s \<Longrightarrow> from_utf8_lossy (utf8 s) = s"
  by (simp add: from_utf8_lossy_def utf8_chunks_utf8 comp_def)

section \<open>Decoding then encoding\<close>

lemma u8_eq_of_nat: "unat (x :: u8) = n \<Longrightarrow> x = of_nat n"
  by auto

lemma utf8_step_Some:
  assumes "utf8_step x rest = (Some c, rest')"
  shows "is_scalar c \<and> x # rest = utf8_char c @ rest'"
proof -
  have x: "unat x < 256" by (rule unat_u8_lt)
  consider "unat x < 0x80" | "0xC2 \<le> unat x" "unat x < 0xE0" | "0xE0 \<le> unat x" "unat x < 0xF0"
    | "0xF0 \<le> unat x" "unat x < 0xF5"
    using assms by (force simp: utf8_step_def Let_def split: if_splits)
  then show ?thesis
  proof cases
    case 1
    with assms show ?thesis
      by (auto simp: utf8_step_def is_scalar_def utf8_char_def)
  next
    case 2
    with assms obtain y where y: "rest = y # rest'" "is_cont y"
      and c: "c = (unat x - 192) * 64 + (unat y - 128)"
      by (auto simp: utf8_step_def Let_def split: list.splits if_splits)
    define p q where "p = unat x - 192" and "q = unat y - 128"
    have xy: "unat x = 192 + p" "unat y = 128 + q" and lt: "2 \<le> p" "p < 32" "q < 64"
      using 2 y(2) by (auto simp: p_def q_def is_cont_def)
    have c': "c = p * 64 + q" using c by (simp add: p_def q_def)
    have "c div 64 = p" "c mod 64 = q" using lt unfolding c' by simp_all
    moreover have "0x80 \<le> c \<and> c < 0x800" using lt unfolding c' by linarith
    ultimately show ?thesis
      using y u8_eq_of_nat [OF xy(1)] u8_eq_of_nat [OF xy(2)] by (simp add: utf8_char_def is_scalar_def)
  next
    case 3
    with assms obtain y z where yz: "rest = y # z # rest'" "second3 (unat x) (unat y)" "is_cont z"
      and c: "c = (unat x - 224) * 4096 + (unat y - 128) * 64 + (unat z - 128)"
      by (auto simp: utf8_step_def Let_def split: list.splits if_splits)
    define p q r where "p = unat x - 224" and "q = unat y - 128" and "r = unat z - 128"
    have y: "128 \<le> unat y" "unat y < 192"
      using yz(2) by (auto simp: second3_def)
    have xyz: "unat x = 224 + p" "unat y = 128 + q" "unat z = 128 + r"
      and lt: "p < 16" "q < 64" "r < 64"
      using 3 y yz(3) by (auto simp: p_def q_def r_def is_cont_def)
    have c': "c = p * 4096 + q * 64 + r" using c by (simp add: p_def q_def r_def)
    have sec: "p = 0 \<longrightarrow> 32 \<le> q" "p = 13 \<longrightarrow> q < 32"
      using yz(2) unfolding second3_def xyz by auto
    have "0x800 \<le> c \<and> is_scalar c"
      using sec lt unfolding c' is_scalar_def by (cases "p = 0"; cases "p < 13"; cases "p = 13") auto
    with lt c' utf8_char3 [of p q r c] show ?thesis
      using yz(1) xyz [THEN u8_eq_of_nat] by simp
  next
    case 4
    with assms obtain y z w where yz: "rest = y # z # w # rest'" "second4 (unat x) (unat y)" "is_cont z" "is_cont w"
      and c: "c = (unat x - 240) * 262144 + (unat y - 128) * 4096 + (unat z - 128) * 64 + (unat w - 128)"
      by (auto simp: utf8_step_def Let_def split: list.splits if_splits)
    define p q r t where "p = unat x - 240" and "q = unat y - 128" and "r = unat z - 128" and "t = unat w - 128"
    have y: "128 \<le> unat y" "unat y < 192"
      using yz(2) by (auto simp: second4_def)
    have xyz: "unat x = 240 + p" "unat y = 128 + q" "unat z = 128 + r" "unat w = 128 + t"
      and lt: "p < 5" "q < 64" "r < 64" "t < 64"
      using 4 y yz(3,4) by (auto simp: p_def q_def r_def t_def is_cont_def)
    have c': "c = p * 262144 + q * 4096 + r * 64 + t" using c by (simp add: p_def q_def r_def t_def)
    have sec: "p = 0 \<longrightarrow> 16 \<le> q" "p = 4 \<longrightarrow> q < 16"
      using yz(2) unfolding second4_def xyz by auto
    have "0x10000 \<le> c \<and> is_scalar c"
      using sec lt unfolding c' is_scalar_def by (cases "p = 0"; cases "p < 4"; cases "p = 4") auto
    with lt c' utf8_char4 [of q r t c p] show ?thesis
      using yz(1) xyz [THEN u8_eq_of_nat] by simp
  qed
qed

lemma utf8_chunks_valid:
  "None \<notin> set (utf8_chunks bs) \<Longrightarrow>
   valid_string (map the (utf8_chunks bs)) \<and> utf8 (map the (utf8_chunks bs)) = bs"
proof (induction bs rule: utf8_chunks.induct)
  case 1
  then show ?case by (simp add: valid_string_def utf8_def)
next
  case (2 x rest)
  obtain c rest' where st: "utf8_step x rest = (Some c, rest')"
    using "2.prems" by (cases "utf8_step x rest"; cases "fst (utf8_step x rest)") auto
  then have "is_scalar c" "x # rest = utf8_char c @ rest'"
    using utf8_step_Some by auto
  with "2.IH" "2.prems" st show ?case
    by (simp add: valid_string_def utf8_def utf8_chunks_char)
qed

lemma from_utf8_Some:
  "from_utf8 bs = Some s \<Longrightarrow> valid_string s \<and> utf8 s = bs"
  using utf8_chunks_valid [of bs] by (auto simp: from_utf8_def Let_def split: if_splits)

lemma from_utf8_iff: "from_utf8 bs = Some s \<longleftrightarrow> valid_string s \<and> utf8 s = bs"
  using from_utf8_Some from_utf8_utf8 by blast

lemma utf8_inj: "valid_string s \<Longrightarrow> valid_string t \<Longrightarrow> utf8 s = utf8 t \<longleftrightarrow> s = t"
  using from_utf8_utf8 by (metis option.inject)

lemma utf8_Nil [simp]: "utf8 [] = []"
  by (simp add: utf8_def)

lemma utf8_append [simp]: "utf8 (s @ t) = utf8 s @ utf8 t"
  by (simp add: utf8_def)

lemma utf8_Cons: "utf8 (c # s) = utf8_char c @ utf8 s"
  by (simp add: utf8_def)

lemma utf8_char_nonempty: "utf8_char c \<noteq> []"
  by (simp add: utf8_char_def)

lemma utf8_eq_Nil [simp]: "utf8 s = [] \<longleftrightarrow> s = []"
  by (cases s) (auto simp: utf8_Cons utf8_char_nonempty)

lemma valid_string_Nil [simp]: "valid_string []"
  by (simp add: valid_string_def)

lemma valid_string_Cons [simp]: "valid_string (c # s) \<longleftrightarrow> is_scalar c \<and> valid_string s"
  by (simp add: valid_string_def)

lemma valid_string_append [simp]: "valid_string (s @ t) \<longleftrightarrow> valid_string s \<and> valid_string t"
  by (simp add: valid_string_def)

lemma valid_string_concat: "valid_string (concat ss) \<longleftrightarrow> (\<forall>s \<in> set ss. valid_string s)"
  by (induction ss) auto

text \<open>ASCII text is its own encoding.\<close>

definition ascii :: "ustring \<Rightarrow> bool" where
  "ascii s \<longleftrightarrow> list_all (\<lambda>c. c < 128) s"

lemma ascii_Nil [simp]: "ascii []"
  by (simp add: ascii_def)

lemma ascii_Cons [simp]: "ascii (c # s) \<longleftrightarrow> c < 128 \<and> ascii s"
  by (simp add: ascii_def)

lemma ascii_append [simp]: "ascii (s @ t) \<longleftrightarrow> ascii s \<and> ascii t"
  by (simp add: ascii_def)

lemma ascii_valid: "ascii s \<Longrightarrow> valid_string s"
  by (induction s) (auto simp: is_scalar_def)

lemma utf8_ascii: "ascii s \<Longrightarrow> utf8 s = map of_nat s"
  by (induction s) (auto simp: utf8_Cons utf8_char_def)

lemma ascii_set: "ascii s \<longleftrightarrow> (\<forall>c \<in> set s. c < 128)"
  by (simp add: ascii_def list_all_iff)

lemma length_utf8_ascii: "ascii s \<Longrightarrow> length (utf8 s) = length s"
  by (simp add: utf8_ascii)

interpretation utf8_code: prefix_code utf8_char
  "\<lambda>bs. case bs of [] \<Rightarrow> Inl () | x # r \<Rightarrow>
     (case utf8_step x r of (Some c, r') \<Rightarrow> Inr (c, r') | (None, r') \<Rightarrow> Inl ())" is_scalar
proof
  fix c :: rchar and rest
  assume "is_scalar c"
  then obtain x r where "utf8_char c = x # r" "utf8_step x (r @ rest) = (Some c, rest)"
    using utf8_step_char by blast
  then show "(case utf8_char c @ rest of [] \<Rightarrow> Inl () | x # r \<Rightarrow>
     (case utf8_step x r of (Some c, r') \<Rightarrow> Inr (c, r') | (None, r') \<Rightarrow> Inl ())) = Inr (c, rest)"
    by simp
qed

end
