(* ===== verification/Rust_Str.thy ===== *)
theory Rust_Str
  imports Utf8
begin

text \<open>
  The parts of the Rust standard library's \<open>char\<close>, \<open>str\<close> and integer parsing and formatting
  that the modelled code calls, over strings as lists of scalar values.
\<close>

section \<open>Character classes\<close>

text \<open>\<open>char::is_whitespace\<close>: the Unicode property White\_Space.\<close>

definition is_whitespace :: "rchar \<Rightarrow> bool" where
  "is_whitespace c \<longleftrightarrow>
     c = 32 \<or> (9 \<le> c \<and> c \<le> 13) \<or> c = 0x85 \<or> c = 0xA0 \<or> c = 0x1680 \<or> (0x2000 \<le> c \<and> c \<le> 0x200A) \<or>
     c = 0x2028 \<or> c = 0x2029 \<or> c = 0x202F \<or> c = 0x205F \<or> c = 0x3000"

definition is_ascii_digit :: "rchar \<Rightarrow> bool" where
  "is_ascii_digit c \<longleftrightarrow> 48 \<le> c \<and> c \<le> 57"

definition is_ascii_upper :: "rchar \<Rightarrow> bool" where
  "is_ascii_upper c \<longleftrightarrow> 65 \<le> c \<and> c \<le> 90"

definition is_ascii_lower :: "rchar \<Rightarrow> bool" where
  "is_ascii_lower c \<longleftrightarrow> 97 \<le> c \<and> c \<le> 122"

definition is_ascii_alphabetic :: "rchar \<Rightarrow> bool" where
  "is_ascii_alphabetic c \<longleftrightarrow> is_ascii_upper c \<or> is_ascii_lower c"

definition is_ascii_alphanumeric :: "rchar \<Rightarrow> bool" where
  "is_ascii_alphanumeric c \<longleftrightarrow> is_ascii_alphabetic c \<or> is_ascii_digit c"

definition is_ascii_hexdigit :: "rchar \<Rightarrow> bool" where
  "is_ascii_hexdigit c \<longleftrightarrow> is_ascii_digit c \<or> (65 \<le> c \<and> c \<le> 70) \<or> (97 \<le> c \<and> c \<le> 102)"

definition is_ascii_graphic :: "rchar \<Rightarrow> bool" where
  "is_ascii_graphic c \<longleftrightarrow> 33 \<le> c \<and> c \<le> 126"

definition to_ascii_upper :: "rchar \<Rightarrow> rchar" where
  "to_ascii_upper c = (if is_ascii_lower c then c - 32 else c)"

definition to_ascii_lower :: "rchar \<Rightarrow> rchar" where
  "to_ascii_lower c = (if is_ascii_upper c then c + 32 else c)"

lemmas char_class_defs = is_ascii_digit_def is_ascii_upper_def is_ascii_lower_def
  is_ascii_alphabetic_def is_ascii_alphanumeric_def is_ascii_hexdigit_def is_ascii_graphic_def

section \<open>Prefixes and trimming\<close>

fun strip_prefix :: "'a list \<Rightarrow> 'a list \<Rightarrow> 'a list option" where
  "strip_prefix [] s = Some s"
| "strip_prefix (p # ps) [] = None"
| "strip_prefix (p # ps) (c # s) = (if p = c then strip_prefix ps s else None)"

lemma strip_prefix_iff: "strip_prefix p s = Some r \<longleftrightarrow> s = p @ r"
  by (induction p s rule: strip_prefix.induct) auto

lemma strip_prefix_append [simp]: "strip_prefix p (p @ r) = Some r"
  by (simp add: strip_prefix_iff)

definition starts_with :: "'a list \<Rightarrow> 'a list \<Rightarrow> bool" where
  "starts_with s p \<longleftrightarrow> strip_prefix p s \<noteq> None"

lemma starts_with_iff: "starts_with s p \<longleftrightarrow> (\<exists>r. s = p @ r)"
  by (auto simp: starts_with_def strip_prefix_iff)

definition trim_start :: "ustring \<Rightarrow> ustring" where
  "trim_start = dropWhile is_whitespace"

definition trim_end_with :: "('a \<Rightarrow> bool) \<Rightarrow> 'a list \<Rightarrow> 'a list" where
  "trim_end_with p s = rev (dropWhile p (rev s))"

definition trim_end :: "ustring \<Rightarrow> ustring" where
  "trim_end = trim_end_with is_whitespace"

definition trim :: "ustring \<Rightarrow> ustring" where
  "trim s = trim_end (trim_start s)"

lemma dropWhile_none: "(\<And>c. c \<in> set s \<Longrightarrow> \<not> p c) \<Longrightarrow> dropWhile p s = s"
  by (cases s) auto

lemma trim_end_with_none: "(\<And>c. c \<in> set s \<Longrightarrow> \<not> p c) \<Longrightarrow> trim_end_with p s = s"
  using dropWhile_none [of "rev s" p] by (simp add: trim_end_with_def)

lemma trim_no_ws: "(\<And>c. c \<in> set s \<Longrightarrow> \<not> is_whitespace c) \<Longrightarrow> trim s = s"
  by (simp add: trim_def trim_start_def trim_end_def dropWhile_none trim_end_with_none)

lemma trim_Nil [simp]: "trim [] = []"
  by (simp add: trim_def trim_start_def trim_end_def trim_end_with_def)

lemma trim_end_with_last: "s \<noteq> [] \<Longrightarrow> \<not> p (last s) \<Longrightarrow> trim_end_with p s = s"
  by (cases s rule: rev_cases) (auto simp: trim_end_with_def)

lemma trim_ends: "s \<noteq> [] \<Longrightarrow> \<not> is_whitespace (hd s) \<Longrightarrow> \<not> is_whitespace (last s) \<Longrightarrow> trim s = s"
  by (cases s) (auto simp: trim_def trim_start_def trim_end_def trim_end_with_last)

text \<open>\<open>trim_start_matches\<close> with a string pattern removes every leading copy of it.\<close>

function trim_start_str :: "'a list \<Rightarrow> 'a list \<Rightarrow> 'a list" where
  "trim_start_str p s =
     (if p = [] then s else case strip_prefix p s of None \<Rightarrow> s | Some r \<Rightarrow> trim_start_str p r)"
  by pat_completeness auto
termination
  by (relation "measure (\<lambda>(p, s). length s)") (auto simp: strip_prefix_iff)

declare trim_start_str.simps [simp del]

definition trim_end_str :: "'a list \<Rightarrow> 'a list \<Rightarrow> 'a list" where
  "trim_end_str p s = rev (trim_start_str (rev p) (rev s))"

lemma trim_start_str_none: "strip_prefix p s = None \<Longrightarrow> trim_start_str p s = s"
  by (simp add: trim_start_str.simps)

lemma trim_start_str_one: "p \<noteq> [] \<Longrightarrow> strip_prefix p s = None \<Longrightarrow> trim_start_str p (p @ s) = s"
  by (subst trim_start_str.simps) (simp add: trim_start_str_none)

section \<open>Splitting and joining\<close>

fun split_pred :: "('a \<Rightarrow> bool) \<Rightarrow> 'a list \<Rightarrow> 'a list list" where
  "split_pred p [] = [[]]"
| "split_pred p (c # s) =
     (if p c then [] # split_pred p s
      else (case split_pred p s of [] \<Rightarrow> [[c]] | w # ws \<Rightarrow> (c # w) # ws))"

lemma split_pred_nonempty [simp]: "split_pred p s \<noteq> []"
  by (induction s) (auto split: list.splits)

lemma split_pred_none: "(\<And>c. c \<in> set s \<Longrightarrow> \<not> p c) \<Longrightarrow> split_pred p s = [s]"
  by (induction s) auto

lemma split_pred_append:
  "(\<And>c. c \<in> set w \<Longrightarrow> \<not> p c) \<Longrightarrow> p d \<Longrightarrow> split_pred p (w @ d # s) = w # split_pred p s"
  by (induction w) auto

lemma split_pred_pieces: "w \<in> set (split_pred p s) \<Longrightarrow> c \<in> set w \<Longrightarrow> \<not> p c \<and> c \<in> set s"
proof (induction s arbitrary: w)
  case Nil
  then show ?case by simp
next
  case (Cons a s)
  show ?case
  proof (cases "p a")
    case True
    with Cons show ?thesis by auto
  next
    case False
    obtain v vs where v: "split_pred p s = v # vs" by (cases "split_pred p s") auto
    with False Cons.prems have "c = a \<or> c \<in> set v \<or> w \<in> set vs" by auto
    with False Cons.IH [of v] Cons.IH [of w] Cons.prems(2) v show ?thesis by auto
  qed
qed

text \<open>\<open>slice::join\<close>.\<close>

fun join :: "'a list \<Rightarrow> 'a list list \<Rightarrow> 'a list" where
  "join sep [] = []"
| "join sep [w] = w"
| "join sep (w # ws) = w @ sep @ join sep ws"

lemma join_Cons: "ws \<noteq> [] \<Longrightarrow> join sep (w # ws) = w @ sep @ join sep ws"
  by (cases ws) auto

lemma join_Nil_sep: "join [] ws = concat ws"
  by (induction "[] :: 'a list" ws rule: join.induct) auto

lemma set_join: "set (join sep ws) \<subseteq> set sep \<union> (\<Union>w \<in> set ws. set w)"
  by (induction sep ws rule: join.induct) auto

lemma split_pred_join:
  "ws \<noteq> [] \<Longrightarrow> (\<And>w c. w \<in> set ws \<Longrightarrow> c \<in> set w \<Longrightarrow> \<not> p c) \<Longrightarrow> p d \<Longrightarrow>
   split_pred p (join [d] ws) = ws"
proof (induction "[d]" ws rule: join.induct)
  case 1
  then show ?case by simp
next
  case (2 w)
  then show ?case by (simp add: split_pred_none)
next
  case (3 w v vs)
  from "3.prems" have "split_pred p (w @ d # join [d] (v # vs)) = w # split_pred p (join [d] (v # vs))"
    by (intro split_pred_append) auto
  with 3 show ?case by auto
qed

lemma join_split_pred: "join [d] (split_pred (\<lambda>c. c = d) s) = s"
proof (induction s)
  case Nil
  then show ?case by simp
next
  case (Cons c s)
  then show ?case
    by (cases "split_pred (\<lambda>c. c = d) s"; cases "tl (split_pred (\<lambda>c. c = d) s)")
      (auto simp: join_Cons)
qed

definition split_whitespace :: "ustring \<Rightarrow> ustring list" where
  "split_whitespace s = filter (\<lambda>w. w \<noteq> []) (split_pred is_whitespace s)"

definition is_word :: "ustring \<Rightarrow> bool" where
  "is_word w \<longleftrightarrow> w \<noteq> [] \<and> (\<forall>c \<in> set w. \<not> is_whitespace c)"

lemma split_whitespace_words: "w \<in> set (split_whitespace s) \<Longrightarrow> is_word w"
  unfolding split_whitespace_def is_word_def using split_pred_pieces by fastforce

lemma split_whitespace_join:
  assumes "\<And>w. w \<in> set ws \<Longrightarrow> is_word w" and "is_whitespace d"
  shows "split_whitespace (join [d] ws) = ws"
proof (cases "ws = []")
  case True
  then show ?thesis by (simp add: split_whitespace_def)
next
  case False
  with assms have "split_pred is_whitespace (join [d] ws) = ws"
    by (intro split_pred_join) (auto simp: is_word_def)
  with assms show ?thesis by (auto simp: split_whitespace_def is_word_def intro!: filter_True)
qed

text \<open>\<open>str::split\<close> with a string pattern; the empty pattern matches at every character boundary.\<close>

function split_ne :: "'a list \<Rightarrow> 'a list \<Rightarrow> 'a list list" where
  "split_ne p s =
     (case s of [] \<Rightarrow> [[]] | c # s' \<Rightarrow>
       if p = [] then [s] else
       (case strip_prefix p s of
          Some r \<Rightarrow> [] # split_ne p r
        | None \<Rightarrow> (case split_ne p s' of [] \<Rightarrow> [[c]] | w # ws \<Rightarrow> (c # w) # ws)))"
  by pat_completeness auto
termination
  by (relation "measure (\<lambda>(p, s). length s)") (auto simp: strip_prefix_iff Cons_eq_append_conv)

declare split_ne.simps [simp del]

definition split_str :: "'a list \<Rightarrow> 'a list \<Rightarrow> 'a list list" where
  "split_str p s = (if p = [] then [] # map (\<lambda>c. [c]) s @ [[]] else split_ne p s)"

lemma split_ne_nonempty: "split_ne p s \<noteq> []"
  by (subst split_ne.simps) (auto split: list.splits option.splits)

lemma split_ne_single: "split_ne [d] s = split_pred (\<lambda>c. c = d) s"
proof (induction s)
  case Nil
  then show ?case by (simp add: split_ne.simps)
next
  case (Cons c s)
  then show ?case by (subst split_ne.simps) auto
qed

lemma split_str_single [simp]: "split_str [d] s = split_pred (\<lambda>c. c = d) s"
  by (simp add: split_str_def split_ne_single)

lemma join_split_ne: "join p (split_ne p s) = s"
proof (induction p s rule: split_ne.induct)
  case (1 p s)
  show ?case
  proof (cases "s = [] \<or> p = []")
    case True
    then show ?thesis by (subst split_ne.simps) (auto split: list.splits)
  next
    case False
    then obtain c s' where s: "s = c # s'" and p: "p \<noteq> []" by (cases s) auto
    show ?thesis
    proof (cases "strip_prefix p s")
      case None
      with 1 s p have "join p (split_ne p s') = s'" by simp
      moreover obtain w ws where "split_ne p s' = w # ws"
        using split_ne_nonempty [of p s'] by (cases "split_ne p s'") auto
      ultimately show ?thesis
        using s p None by (subst split_ne.simps) (cases ws; simp)
    next
      case (Some r)
      with 1 s p have "join p (split_ne p r) = r" by simp
      moreover have "split_ne p s = [] # split_ne p r"
        using s p Some by (subst split_ne.simps) simp
      ultimately show ?thesis
        using Some by (simp add: join_Cons split_ne_nonempty strip_prefix_iff)
    qed
  qed
qed

lemma join_split_str: "p \<noteq> [] \<Longrightarrow> join p (split_str p s) = s"
  by (simp add: split_str_def join_split_ne)

text \<open>Cutting at a separator whose first character occurs in no piece.\<close>

lemma split_ne_append: "d \<notin> set w \<Longrightarrow> split_ne (d # p) (w @ (d # p) @ s) = w # split_ne (d # p) s"
proof (induction w)
  case Nil
  have "strip_prefix (d # p) (d # p @ s) = Some s" using strip_prefix_append [of "d # p" s] by simp
  then show ?case by (subst split_ne.simps) simp
next
  case (Cons c w)
  then have "split_ne (d # p) (w @ d # p @ s) = w # split_ne (d # p) s" by simp
  with Cons.prems show ?case by (subst split_ne.simps) simp
qed

lemma split_ne_whole: "d \<notin> set w \<Longrightarrow> split_ne (d # p) w = [w]"
proof (induction w)
  case (Cons c w)
  then have "split_ne (d # p) w = [w]" by simp
  with Cons.prems show ?case by (subst split_ne.simps) simp
qed (simp add: split_ne.simps)

lemma split_str_join:
  assumes "ws \<noteq> []" "\<And>w. w \<in> set ws \<Longrightarrow> d \<notin> set w"
  shows "split_str (d # p) (join (d # p) ws) = ws"
proof -
  have "split_ne (d # p) (join (d # p) ws) = ws"
    using assms
  proof (induction "d # p" ws rule: join.induct)
    case (3 w v vs)
    then show ?case using split_ne_append [of d w p "join (d # p) (v # vs)"] by simp
  qed (simp_all add: split_ne_whole)
  then show ?thesis by (simp add: split_str_def)
qed

text \<open>\<open>str::replace\<close>: the matches are exactly the cuts \<open>split\<close> makes.\<close>

definition replace_all :: "'a list \<Rightarrow> 'a list \<Rightarrow> 'a list \<Rightarrow> 'a list" where
  "replace_all p t s = join t (split_str p s)"

lemma replace_all_same: "p \<noteq> [] \<Longrightarrow> replace_all p p s = s"
  by (simp add: replace_all_def join_split_str)

lemma replace_all_char: "replace_all [d] [e] s = map (\<lambda>c. if c = d then e else c) s"
proof -
  have "join [e] (split_pred (\<lambda>c. c = d) s) = map (\<lambda>c. if c = d then e else c) s"
  proof (induction s)
    case (Cons c s)
    obtain w ws where w: "split_pred (\<lambda>c. c = d) s = w # ws"
      using split_pred_nonempty by (metis list.exhaust)
    with Cons show ?case by (cases ws) auto
  qed simp
  then show ?thesis by (simp add: replace_all_def)
qed

fun split_once :: "'a list \<Rightarrow> 'a list \<Rightarrow> ('a list \<times> 'a list) option" where
  "split_once p [] = (if p = [] then Some ([], []) else None)"
| "split_once p (c # s) =
     (case strip_prefix p (c # s) of
        Some r \<Rightarrow> Some ([], r)
      | None \<Rightarrow> map_option (\<lambda>(a, b). (c # a, b)) (split_once p s))"

lemma split_once_first: "d \<notin> set w \<Longrightarrow> split_once [d] (w @ d # r) = Some (w, r)"
  by (induction w) auto

lemma split_once_none: "d \<notin> set w \<Longrightarrow> split_once [d] w = None"
  by (induction w) auto

lemma split_once_Some: "split_once p s = Some (a, b) \<Longrightarrow> s = a @ p @ b"
  by (induction p s arbitrary: a b rule: split_once.induct)
    (auto simp: strip_prefix_iff split: option.splits if_splits)

text \<open>\<open>str::replacen(.., 1)\<close>.\<close>

definition replace_first :: "'a list \<Rightarrow> 'a list \<Rightarrow> 'a list \<Rightarrow> 'a list" where
  "replace_first p t s = (case split_once p s of None \<Rightarrow> s | Some (a, b) \<Rightarrow> a @ t @ b)"

definition match_count :: "'a list \<Rightarrow> 'a list \<Rightarrow> nat" where
  "match_count p s = length (split_str p s) - 1"

text \<open>\<open>str::lines\<close>: a trailing empty line is dropped, a \<open>\r\<close> before the \<open>\n\<close> too.\<close>

definition strip_cr :: "ustring \<Rightarrow> ustring" where
  "strip_cr l = (if l \<noteq> [] \<and> last l = 13 then butlast l else l)"

definition lines :: "ustring \<Rightarrow> ustring list" where
  "lines s = (let ps = split_pred (\<lambda>c. c = 10) s in
     map strip_cr (butlast ps) @ (if last ps = [] then [] else [last ps]))"

lemma lines_join:
  assumes "\<And>l c. l \<in> set ls \<Longrightarrow> c \<in> set l \<Longrightarrow> c \<noteq> 10 \<and> c \<noteq> 13" and "\<And>l. l \<in> set ls \<Longrightarrow> l \<noteq> []"
  shows "lines (join [10] ls) = ls"
proof (cases "ls = []")
  case True
  then show ?thesis by (simp add: lines_def)
next
  case False
  with assms have sp: "split_pred (\<lambda>c. c = 10) (join [10] ls) = ls"
    by (intro split_pred_join) auto
  have "map strip_cr (butlast ls) = butlast ls"
    using assms by (intro map_idI) (metis strip_cr_def in_set_butlastD last_in_set)
  with sp False assms(2) show ?thesis
    by (simp add: lines_def Let_def)
qed

section \<open>Integers as text\<close>

definition to_digit :: "nat \<Rightarrow> rchar \<Rightarrow> nat option" where
  "to_digit radix c =
     (let v = (if 48 \<le> c \<and> c \<le> 57 then Some (c - 48)
               else if 97 \<le> c \<and> c \<le> 122 then Some (c - 87)
               else if 65 \<le> c \<and> c \<le> 90 then Some (c - 55) else None)
      in case v of None \<Rightarrow> None | Some d \<Rightarrow> if d < radix then Some d else None)"

datatype int_error = IntEmpty | IntInvalidDigit | IntPosOverflow | IntNegOverflow

fun parse_digits :: "nat \<Rightarrow> nat \<Rightarrow> nat \<Rightarrow> ustring \<Rightarrow> int_error + nat" where
  "parse_digits radix hi acc [] = Inr acc"
| "parse_digits radix hi acc (c # s) =
     (case to_digit radix c of
        None \<Rightarrow> Inl IntInvalidDigit
      | Some d \<Rightarrow>
          if acc * radix + d \<le> hi then parse_digits radix hi (acc * radix + d) s
          else Inl IntPosOverflow)"

text \<open>\<open>u*::from_str_radix\<close> for a type whose largest value is \<open>hi\<close>.\<close>

definition parse_unsigned :: "nat \<Rightarrow> nat \<Rightarrow> ustring \<Rightarrow> int_error + nat" where
  "parse_unsigned hi radix s =
     (if s = [] then Inl IntEmpty
      else if s = [43] \<or> s = [45] then Inl IntInvalidDigit
      else if hd s = 43 then parse_digits radix hi 0 (tl s)
      else parse_digits radix hi 0 s)"

text \<open>\<open>i*::from_str\<close> (decimal) for a type with values from \<open>-(hi + 1)\<close> to \<open>hi\<close>.\<close>

definition parse_signed :: "nat \<Rightarrow> ustring \<Rightarrow> int_error + int" where
  "parse_signed hi s =
     (if s = [] then Inl IntEmpty
      else if s = [43] \<or> s = [45] then Inl IntInvalidDigit
      else if hd s = 43 then rmap int (parse_digits 10 hi 0 (tl s))
      else if hd s = 45 then
        rmap_err (\<lambda>e. if e = IntPosOverflow then IntNegOverflow else e)
          (rmap (\<lambda>n. - int n) (parse_digits 10 (hi + 1) 0 (tl s)))
      else rmap int (parse_digits 10 hi 0 s))"

definition u8_max :: nat where "u8_max = 255"
definition u16_max :: nat where "u16_max = 65535"
definition u32_max :: nat where "u32_max = 4294967295"
definition u64_max :: nat where "u64_max = 18446744073709551615"
definition i64_max :: nat where "i64_max = 9223372036854775807"
definition i128_max :: nat where "i128_max = 170141183460469231731687303715884105727"

lemmas int_max_defs = u8_max_def u16_max_def u32_max_def u64_max_def i64_max_def i128_max_def

definition digit_char :: "nat \<Rightarrow> rchar" where
  "digit_char d = (if d < 10 then 48 + d else 87 + d)"

fun to_digits :: "nat \<Rightarrow> nat \<Rightarrow> ustring" where
  "to_digits r n =
     (if r < 2 \<or> n < r then [digit_char n] else to_digits r (n div r) @ [digit_char (n mod r)])"

declare to_digits.simps [simp del]

definition show_dec :: "nat \<Rightarrow> ustring" where
  "show_dec n = to_digits 10 n"

definition show_int :: "int \<Rightarrow> ustring" where
  "show_int i = (if i < 0 then 45 # show_dec (nat (- i)) else show_dec (nat i))"

definition pad_left :: "nat \<Rightarrow> ustring \<Rightarrow> ustring" where
  "pad_left w s = replicate (w - length s) 48 @ s"

definition hex2 :: "u8 \<Rightarrow> ustring" where
  "hex2 b = pad_left 2 (to_digits 16 (unat b))"

lemma to_digit_digit_char:
  "d < r \<Longrightarrow> r \<le> 36 \<Longrightarrow> to_digit r (digit_char d) = Some d"
  by (auto simp: to_digit_def digit_char_def)

lemma to_digits_nonempty [simp]: "to_digits r n \<noteq> []"
  by (subst to_digits.simps) simp

lemma to_digits_chars:
  "2 \<le> r \<Longrightarrow> c \<in> set (to_digits r n) \<Longrightarrow> \<exists>d < r. c = digit_char d"
proof (induction r n rule: to_digits.induct)
  case (1 r n)
  show ?case
  proof (cases "n < r")
    case True
    with 1 show ?thesis by (subst (asm) (2) to_digits.simps) auto
  next
    case False
    with 1 have "c \<in> set (to_digits r (n div r)) \<or> c = digit_char (n mod r)"
      by (subst (asm) (2) to_digits.simps) auto
    then show ?thesis
    proof
      assume "c \<in> set (to_digits r (n div r))"
      with 1 False show ?thesis by auto
    next
      assume "c = digit_char (n mod r)"
      moreover have "n mod r < r" using "1.prems"(1) by simp
      ultimately show ?thesis by blast
    qed
  qed
qed

lemma parse_digits_append:
  "parse_digits r hi a (s @ t) = rbind (parse_digits r hi a s) (\<lambda>b. parse_digits r hi b t)"
  by (induction s arbitrary: a) (auto split: option.splits)

lemma parse_digits_to_digits [roundtrips]:
  "2 \<le> r \<Longrightarrow> r \<le> 36 \<Longrightarrow> n \<le> hi \<Longrightarrow> parse_digits r hi 0 (to_digits r n) = Inr n"
proof (induction r n rule: to_digits.induct)
  case (1 r n)
  show ?case
  proof (cases "n < r")
    case True
    with 1 show ?thesis by (subst to_digits.simps) (simp add: to_digit_digit_char)
  next
    case False
    have "n div r \<le> hi" using "1.prems"(3) div_le_dividend le_trans by blast
    with 1 False have "parse_digits r hi 0 (to_digits r (n div r)) = Inr (n div r)" by simp
    with 1 False show ?thesis
      by (subst to_digits.simps) (simp add: parse_digits_append to_digit_digit_char)
  qed
qed

lemma parse_digits_zeros: "0 < r \<Longrightarrow> parse_digits r hi 0 (replicate k 48 @ s) = parse_digits r hi 0 s"
  by (induction k) (auto simp: to_digit_def)

lemma parse_digits_pad [roundtrips]:
  "2 \<le> r \<Longrightarrow> r \<le> 36 \<Longrightarrow> n \<le> hi \<Longrightarrow> parse_digits r hi 0 (pad_left w (to_digits r n)) = Inr n"
  by (simp add: pad_left_def parse_digits_zeros parse_digits_to_digits)

lemma digit_char_range: "digit_char d \<ge> 48"
  by (simp add: digit_char_def)

lemma parse_unsigned_digits:
  assumes "s \<noteq> []" and "\<And>c. c \<in> set s \<Longrightarrow> 48 \<le> c"
  shows "parse_unsigned hi r s = parse_digits r hi 0 s"
  using assms(1) assms(2) [of "hd s"] by (auto simp: parse_unsigned_def)

lemma pad_left_nonempty: "s \<noteq> [] \<Longrightarrow> pad_left w s \<noteq> []"
  by (simp add: pad_left_def)

lemma set_pad_left: "set (pad_left w s) \<subseteq> insert 48 (set s)"
  by (auto simp: pad_left_def)

lemma parse_unsigned_pad [roundtrips]:
  assumes "2 \<le> r" "r \<le> 36" "n \<le> hi"
  shows "parse_unsigned hi r (pad_left w (to_digits r n)) = Inr n"
proof -
  have "48 \<le> c" if "c \<in> set (pad_left w (to_digits r n))" for c
    using that set_pad_left [of w "to_digits r n"] to_digits_chars [of r c n] assms(1) digit_char_range by auto
  with assms show ?thesis
    by (simp add: parse_unsigned_digits pad_left_nonempty parse_digits_pad)
qed

lemma parse_unsigned_to_digits [roundtrips]:
  assumes "2 \<le> r" "r \<le> 36" "n \<le> hi"
  shows "parse_unsigned hi r (to_digits r n) = Inr n"
  using parse_unsigned_pad [OF assms, of 0] by (simp add: pad_left_def)

lemma digits_not_ws:
  assumes "2 \<le> r" "r \<le> 36" "c \<in> set (pad_left w (to_digits r n))"
  shows "\<not> is_whitespace c" "c < 128" "is_ascii_alphanumeric c"
proof -
  have "c = 48 \<or> (\<exists>d < 36. c = digit_char d)"
    using assms set_pad_left [of w "to_digits r n"] to_digits_chars [of r c n] less_le_trans by blast
  then have "(48 \<le> c \<and> c \<le> 57) \<or> (97 \<le> c \<and> c \<le> 122)"
    by (auto simp: digit_char_def split: if_splits)
  then show "\<not> is_whitespace c" "c < 128" "is_ascii_alphanumeric c"
    by (auto simp: is_whitespace_def char_class_defs)
qed

lemma to_digits_not_ws:
  assumes "2 \<le> r" "r \<le> 36" "c \<in> set (to_digits r n)"
  shows "\<not> is_whitespace c" "c < 128" "is_ascii_alphanumeric c"
  using digits_not_ws [of r c 0 n] assms by (simp_all add: pad_left_def)

lemma to_digits_word: "2 \<le> r \<Longrightarrow> r \<le> 36 \<Longrightarrow> is_word (to_digits r n)"
  by (simp add: is_word_def to_digits_not_ws)

lemma pad_left_word: "2 \<le> r \<Longrightarrow> r \<le> 36 \<Longrightarrow> is_word (pad_left w (to_digits r n))"
  by (simp add: is_word_def pad_left_nonempty digits_not_ws)

lemma to_digits_ascii: "2 \<le> r \<Longrightarrow> r \<le> 36 \<Longrightarrow> ascii (to_digits r n)"
  by (simp add: ascii_set to_digits_not_ws)

lemma pad_left_ascii: "2 \<le> r \<Longrightarrow> r \<le> 36 \<Longrightarrow> ascii (pad_left w (to_digits r n))"
  by (simp add: ascii_set digits_not_ws)

lemma show_dec_chars: "c \<in> set (show_dec n) \<Longrightarrow> 48 \<le> c \<and> c \<le> 57"
  using to_digits_chars [of 10 c n] by (auto simp: show_dec_def digit_char_def)

lemma to_digits_length: "n < r ^ Suc k \<Longrightarrow> 2 \<le> r \<Longrightarrow> length (to_digits r n) \<le> Suc k"
proof (induction k arbitrary: n)
  case 0
  then show ?case by (subst to_digits.simps) simp
next
  case (Suc k)
  then have "n div r < r ^ Suc k" by (simp add: less_mult_imp_div_less mult.commute)
  with Suc show ?case by (subst to_digits.simps) simp
qed

lemma to_digits_two:
  "n < 256 \<Longrightarrow> pad_left 2 (to_digits 16 n) = [digit_char (n div 16), digit_char (n mod 16)]"
proof (cases "n < 16")
  case True
  then show ?thesis by (simp add: pad_left_def to_digits.simps digit_char_def)
next
  case False
  assume "n < 256"
  then have "n div 16 < 16" by auto
  with False show ?thesis
    by (simp add: pad_left_def to_digits.simps [of 16 n] to_digits.simps [of 16 "n div 16"])
qed

lemma hex2_digits: "hex2 b = [digit_char (unat b div 16), digit_char (unat b mod 16)]"
  unfolding hex2_def by (rule to_digits_two) (rule unat_u8_lt)

end
