(* ===== verification/Chef_Data.thy ===== *)
theory Chef_Data
  imports Rust_Str
begin

text \<open>
  The data model of the algorithm centre (src-tauri/src/services/chef/data.rs): the bytes that flow
  through a recipe, the step arguments, and the hexadecimal, Base64 and format helpers every
  operation shares. An error is the message the code builds, kept as a constructor per message
  template with the values the template interpolates.
\<close>

section \<open>Errors\<close>

text \<open>Messages of data.rs.\<close>

datatype data_error =
    Not_Utf8
  | Not_A_Number ustring ustring \<comment> \<open>argument name, received text\<close>
  | Choice_Rejected ustring "ustring list" ustring \<comment> \<open>argument name, options, received text\<close>
  | Bad_Hex_Char rchar
  | Base64_Failed ustring \<comment> \<open>the engine's own message\<close>
  | Not_In_Alphabet rchar
  | Unknown_Base85_Style ustring
  | Z85_Length
  | Base85_Lone_Char
  | Base85_Bad_Char rchar
  | Bad_Decimal_Byte ustring
  | Unknown_Input_Format ustring
  | Unknown_Param_Format ustring
  | Unknown_Output_Format ustring
  | Wrong_Length ustring nat nat \<comment> \<open>what, expected, actual\<close>

text \<open>Messages of ops/encoding.rs.\<close>

datatype encoding_error =
    Base32_Failed ustring
  | Unknown_Base58_Alphabet ustring
  | Radix_Input_Too_Long ustring nat \<comment> \<open>what, actual length\<close>
  | Not_Radix_Byte nat ustring nat int_error \<comment> \<open>position, token, radix, parse error\<close>
  | Byte_Overflow ustring nat \<comment> \<open>token, value\<close>
  | Url_Truncated
  | Url_Not_Utf8
  | Unknown_Entity_Style ustring
  | Unsupported_Charset ustring
  | Charset_Cannot_Encode ustring
  | Charset_Bad_Bytes ustring
  | No_Morse_Code rchar
  | Unknown_Morse_Code ustring

text \<open>Messages of ops/text.rs.\<close>

datatype text_error =
    Empty_Search
  | Empty_Pattern
  | Empty_Count_Pattern
  | Bad_Regex ustring
  | No_Such_Group nat
  | No_Match
  | No_Words
  | Start_Beyond_End nat nat
  | Tail_Needs_Length
  | Empty_Slice
  | Repeat_Too_Often
  | Repeat_Too_Large nat
  | Unknown_Time_Unit ustring
  | Not_A_Timestamp ustring
  | Date_Out_Of_Range
  | No_Date_Separator
  | Not_Three_Date_Parts ustring
  | Not_A_Date_Number ustring ustring
  | Month_Day_Out_Of_Range nat nat
  | Clock_Out_Of_Range ustring
  | Empty_Pool

text \<open>Messages of ops/cipher.rs.\<close>

datatype cipher_error =
    Unknown_Padding ustring
  | Ciphertext_Not_Whole_Blocks
  | Pkcs7_Invalid
  | Pkcs7_Inconsistent
  | Iso7816_Invalid
  | Ansix923_Invalid
  | Key_Not_Accepted nat
  | Bad_Iv_Length ustring nat nat \<comment> \<open>mode, block size, actual\<close>
  | Unknown_Mode ustring
  | Data_Not_Whole_Blocks nat nat \<comment> \<open>data length, block size\<close>
  | Bad_Key_Length ustring "nat list" nat \<comment> \<open>cipher, accepted lengths, actual\<close>
  | Bad_3des_Key_Length nat
  | Missing_Key ustring
  | Missing_Stream_Key
  | Brute_Empty
  | Brute_None
  | Chacha_Key_Rejected
  | Aead_Too_Short
  | Gcm_192_Unsupported
  | Bad_Gcm_Key_Length nat
  | Gcm_Not_Authentic
  | Poly1305_Not_Authentic
  | Aead_Failed ustring
  | Missing_Public_Key
  | Missing_Private_Key
  | Rsa_Key_Unreadable ustring
  | Rsa_Too_Long ustring nat nat nat \<comment> \<open>padding, key bits, limit, actual\<close>
  | Unknown_Rsa_Padding ustring
  | Rsa_Failed ustring
  | Rsa_Bits_Out_Of_Range
  | Missing_Vigenere_Key

text \<open>Messages of ops/format.rs.\<close>

datatype format_error =
    Nothing_To_Dump
  | Nothing_To_Parse
  | Varint_Truncated
  | Varint_Too_Long
  | Protobuf_Field_Zero
  | Fixed64_Truncated
  | Fixed32_Truncated
  | Length_Prefix_Truncated nat nat \<comment> \<open>announced, remaining\<close>
  | Group_Wire_Type
  | Unknown_Wire_Type nat
  | Der_Too_Deep
  | Der_Ends_Before_Length
  | Der_Bad_Length
  | Der_Truncated nat nat \<comment> \<open>announced, remaining\<close>
  | Uuid_Not_Hex
  | Uuid_Wrong_Length nat
  | Bad_Json ustring \<comment> \<open>the parser's own message\<close>
  | Not_Three_Segments nat
  | Jwt_Not_Json ustring ustring \<comment> \<open>segment, the parser's own message\<close>
  | Hmac_Setup_Failed
  | No_Data_To_Detect

text \<open>Messages of ops/digest.rs and ops/kdf.rs.\<close>

datatype digest_error =
    Crc_Width_Out_Of_Range
  | Hex_Number_Empty ustring
  | Hex_Number_Invalid ustring ustring \<comment> \<open>what, received text\<close>
  | Unknown_Crc_Preset ustring
  | Hash_Empty
  | Digest_Failed ustring

datatype kdf_error =
    Hmac_Key_Empty
  | Hmac_Key_Rejected
  | Unsupported_Hmac ustring
  | Unsupported_Pbkdf2 ustring
  | Unsupported_Hkdf ustring
  | Hkdf_Failed ustring
  | Unknown_Bcrypt_Prefix ustring
  | Bcrypt_Cost_Out_Of_Range nat
  | Bcrypt_Too_Long nat
  | Bcrypt_Failed ustring
  | Bcrypt_Hash_Missing
  | Bcrypt_Hash_Unreadable ustring
  | Iterations_Zero
  | Iterations_Too_Many nat
  | Derived_Length_Out_Of_Range ustring nat

text \<open>Messages of ops/compression.rs; the last argument is the library's own message.\<close>

datatype compression_error =
    Write_Failed ustring ustring \<comment> \<open>format\<close>
  | Finish_Failed ustring
  | Flush_Failed ustring
  | Unpack_Failed ustring ustring \<comment> \<open>format\<close>

datatype service_error =
    Too_Many_Steps nat
  | Unknown_Input_Encoding ustring
  | Input_Too_Large nat
  | Unknown_Operation ustring
  | Step_Too_Large nat nat \<comment> \<open>step number, produced bytes\<close>
  | Internal_Panic

datatype chef_error =
    Data_Error data_error
  | Encoding_Error encoding_error
  | Text_Error text_error
  | Cipher_Error cipher_error
  | Block_Failed ustring ustring chef_error \<comment> \<open>label, mode, the inner message\<close>
  | Format_Error format_error
  | Protobuf_Failed chef_error
  | Der_Failed chef_error
  | Digest_Error digest_error
  | Kdf_Error kdf_error
  | Compression_Error compression_error
  | Jwt_Segment_Failed ustring chef_error \<comment> \<open>segment, the inner message\<close>
  | Service_Error service_error
  | External_Error ustring

type_synonym 'a chef_result = "chef_error + 'a"

section \<open>The bytes that flow through a recipe\<close>

record chef_data =
  data_bytes :: bytes

definition chef_new :: "bytes \<Rightarrow> chef_data" where
  "chef_new bs = \<lparr>data_bytes = bs\<rparr>"

definition from_text :: "ustring \<Rightarrow> chef_data" where
  "from_text s = chef_new (utf8 s)"

definition chef_text :: "chef_data \<Rightarrow> ustring chef_result" where
  "chef_text d = (case from_utf8 (data_bytes d) of
     None \<Rightarrow> Inl (Data_Error Not_Utf8)
   | Some s \<Rightarrow> Inr s)"

definition text_lossy :: "chef_data \<Rightarrow> ustring" where
  "text_lossy d = from_utf8_lossy (data_bytes d)"

definition is_utf8 :: "chef_data \<Rightarrow> bool" where
  "is_utf8 d \<longleftrightarrow> from_utf8 (data_bytes d) \<noteq> None"

definition chef_len :: "chef_data \<Rightarrow> nat" where
  "chef_len d = length (data_bytes d)"

lemma data_bytes_new [simp]: "data_bytes (chef_new bs) = bs"
  by (simp add: chef_new_def)

lemma chef_new_bytes [simp]: "chef_new (data_bytes d) = d"
  by (simp add: chef_new_def)

lemma data_bytes_from_text [simp]: "data_bytes (from_text s) = utf8 s"
  by (simp add: from_text_def)

lemma chef_text_from_text [simp, roundtrips]: "valid_string s \<Longrightarrow> chef_text (from_text s) = Inr s"
  by (simp add: chef_text_def)

lemma text_lossy_from_text [simp]: "valid_string s \<Longrightarrow> text_lossy (from_text s) = s"
  by (simp add: text_lossy_def)

lemma chef_text_Inr: "chef_text d = Inr s \<longleftrightarrow> valid_string s \<and> d = from_text s"
  unfolding chef_text_def from_text_def chef_new_def
  by (cases d) (auto simp: from_utf8_iff utf8_inj split: option.splits dest: from_utf8_Some)

lemma is_utf8_iff: "is_utf8 d \<longleftrightarrow> (\<exists>s. valid_string s \<and> d = from_text s)"
proof
  assume "is_utf8 d"
  then obtain s where "chef_text d = Inr s" by (auto simp: is_utf8_def chef_text_def)
  then show "\<exists>s. valid_string s \<and> d = from_text s" by (auto simp: chef_text_Inr)
qed (auto simp: is_utf8_def)

lemma from_text_inj: "valid_string s \<Longrightarrow> valid_string t \<Longrightarrow> from_text s = from_text t \<longleftrightarrow> s = t"
  by (metis chef_text_from_text sum.inject(2))

section \<open>Step arguments\<close>

type_synonym args = "ustring \<rightharpoonup> ustring"

definition args_text :: "args \<Rightarrow> ustring \<Rightarrow> ustring \<Rightarrow> ustring" where
  "args_text a key dflt = (case a key of None \<Rightarrow> dflt | Some v \<Rightarrow> v)"

definition bool_of :: "args \<Rightarrow> ustring \<Rightarrow> bool" where
  "bool_of a key \<longleftrightarrow> a key = Some (lit ''true'')"

definition args_number :: "args \<Rightarrow> ustring \<Rightarrow> nat \<Rightarrow> nat chef_result" where
  "args_number a key dflt =
     (case a key of
        None \<Rightarrow> Inr dflt
      | Some raw \<Rightarrow>
          if raw = [] then Inr dflt
          else
            (let hex = (case strip_prefix (lit ''0x'') (trim raw) of
                          None \<Rightarrow> None
                        | Some h \<Rightarrow> (case parse_unsigned u64_max 16 h of Inl _ \<Rightarrow> None | Inr n \<Rightarrow> Some n));
                 num = (case hex of
                          Some n \<Rightarrow> Some n
                        | None \<Rightarrow> (case parse_unsigned u64_max 10 (trim raw) of Inl _ \<Rightarrow> None | Inr n \<Rightarrow> Some n))
             in ok_or num (Data_Error (Not_A_Number key raw))))"

definition args_choice :: "args \<Rightarrow> ustring \<Rightarrow> ustring \<Rightarrow> ustring" where
  "args_choice a key dflt = (case a key of None \<Rightarrow> dflt | Some v \<Rightarrow> v)"

definition choice_in :: "args \<Rightarrow> ustring \<Rightarrow> ustring \<Rightarrow> ustring list \<Rightarrow> ustring chef_result" where
  "choice_in a key dflt options =
     (let value = args_choice a key dflt in
      if value \<in> set options then Inr value
      else Inl (Data_Error (Choice_Rejected key options value)))"

lemma choice_in_options [bounds]: "choice_in a key dflt options = Inr v \<Longrightarrow> v \<in> set options"
  by (auto simp: choice_in_def Let_def split: if_splits)

lemma choice_in_default: "a key = None \<Longrightarrow> dflt \<in> set options \<Longrightarrow> choice_in a key dflt options = Inr dflt"
  by (simp add: choice_in_def args_choice_def)

lemma choice_in_given: "a key = Some v \<Longrightarrow> v \<in> set options \<Longrightarrow> choice_in a key dflt options = Inr v"
  by (simp add: choice_in_def args_choice_def)

lemma to_digits_no_0x: "strip_prefix (lit ''0x'') (to_digits 10 n) = None"
proof (rule ccontr)
  assume "strip_prefix (lit ''0x'') (to_digits 10 n) \<noteq> None"
  then obtain r where "to_digits 10 n = lit ''0x'' @ r"
    by (auto simp: strip_prefix_iff)
  then have "(120 :: nat) \<in> set (to_digits 10 n)" by simp
  then obtain d where "d < 10" "(120 :: nat) = digit_char d"
    using to_digits_chars [of 10 120 n] by auto
  then show False by (simp add: digit_char_def)
qed

lemma trim_to_digits: "2 \<le> r \<Longrightarrow> r \<le> 36 \<Longrightarrow> trim (to_digits r n) = to_digits r n"
  by (rule trim_no_ws) (simp add: to_digits_not_ws)

text \<open>The decimal and the \<open>0x\<close> form of a number are both read back.\<close>

lemma args_number_dec [roundtrips]:
  "n \<le> u64_max \<Longrightarrow> args_number [key \<mapsto> show_dec n] key dflt = Inr n"
  unfolding args_number_def show_dec_def
  by (simp add: trim_to_digits to_digits_no_0x [simplified] roundtrips)

lemma args_number_hex [roundtrips]:
  assumes "n \<le> u64_max"
  shows "args_number [key \<mapsto> lit ''0x'' @ to_digits 16 n] key dflt = Inr n"
proof -
  have "trim (lit ''0x'' @ to_digits 16 n) = lit ''0x'' @ to_digits 16 n"
    by (rule trim_no_ws) (use to_digits_not_ws(1) [of 16 _ n] in \<open>auto simp: is_whitespace_def\<close>)
  then show ?thesis
    using assms unfolding args_number_def
    by (simp add: roundtrips)
qed

lemma args_number_bound [bounds]:
  assumes "args_number a key dflt = Inr n" "dflt \<le> u64_max"
  shows "n \<le> u64_max"
proof -
  have digits: "parse_digits r hi acc s = Inr m \<Longrightarrow> acc \<le> hi \<Longrightarrow> m \<le> hi" for r hi acc s m
    by (induction s arbitrary: acc) (auto split: option.splits if_splits)
  have "parse_unsigned u64_max r s = Inr m \<Longrightarrow> m \<le> u64_max" for r s m
    by (auto simp: parse_unsigned_def split: if_splits dest: digits)
  with assms show ?thesis
    by (auto simp: args_number_def Let_def ok_or_def split: option.splits sum.splits if_splits)
qed

section \<open>Hexadecimal\<close>

text \<open>\<open>str::to_uppercase\<close> on hexadecimal digits, which are ASCII.\<close>

definition hex_encode :: "bytes \<Rightarrow> bool \<Rightarrow> ustring \<Rightarrow> ustring" where
  "hex_encode bs upper separator =
     join separator (map (\<lambda>b. if upper then map to_ascii_upper (hex2 b) else hex2 b) bs)"

text \<open>\<open>to_digit(16).expect(..)\<close>: every caller has checked the digits before.\<close>

definition hex_digit :: "rchar \<Rightarrow> nat" where
  "hex_digit c = (case to_digit 16 c of Some d \<Rightarrow> d | None \<Rightarrow> 0)"

fun hex_pairs :: "ustring \<Rightarrow> bytes" where
  "hex_pairs (h # l # s) = of_nat (hex_digit h * 16 + hex_digit l) # hex_pairs s"
| "hex_pairs _ = []"

definition hex_decode :: "ustring \<Rightarrow> bytes chef_result" where
  "hex_decode input =
     (let cleaned = filter (\<lambda>c. \<not> is_whitespace c) input;
          cleaned = (case strip_prefix (lit ''0x'') cleaned of None \<Rightarrow> cleaned | Some r \<Rightarrow> r)
      in if cleaned = [] then Inr []
         else case filter (\<lambda>c. \<not> is_ascii_hexdigit c) cleaned of
             bad # _ \<Rightarrow> Inl (Data_Error (Bad_Hex_Char bad))
           | [] \<Rightarrow> Inr (hex_pairs (if odd (length cleaned) then 48 # cleaned else cleaned)))"

lemma hexdigit_to_digit: "is_ascii_hexdigit c \<longleftrightarrow> to_digit 16 c \<noteq> None"
  by (auto simp: char_class_defs to_digit_def Let_def)

definition hex_char :: "bool \<Rightarrow> nat \<Rightarrow> rchar" where
  "hex_char upper d = (if upper then to_ascii_upper (digit_char d) else digit_char d)"

lemma hex_char_props:
  assumes "d < 16"
  shows "is_ascii_hexdigit (hex_char up d)" "hex_digit (hex_char up d) = d"
    "\<not> is_whitespace (hex_char up d)" "hex_char up d \<noteq> 120" "hex_char up d < 128"
proof -
  consider "d < 10" "hex_char up d = 48 + d" | "10 \<le> d" "up" "hex_char up d = 55 + d"
    | "10 \<le> d" "\<not> up" "hex_char up d = 87 + d"
    using assms by (cases "d < 10"; cases up)
      (auto simp: hex_char_def digit_char_def to_ascii_upper_def is_ascii_lower_def)
  then show "is_ascii_hexdigit (hex_char up d)" "hex_digit (hex_char up d) = d"
    "\<not> is_whitespace (hex_char up d)" "hex_char up d \<noteq> 120" "hex_char up d < 128"
    by (cases; use assms in \<open>simp add: char_class_defs hex_digit_def to_digit_def is_whitespace_def\<close>)+
qed

definition hex_byte :: "bool \<Rightarrow> u8 \<Rightarrow> ustring" where
  "hex_byte up b = [hex_char up (unat b div 16), hex_char up (unat b mod 16)]"

lemma nibbles: "unat (b :: u8) div 16 < 16" "unat b mod 16 < 16" "unat b div 16 * 16 + unat b mod 16 = unat b"
  using unat_u8_lt [of b] by auto

lemma hex_encode_bytes: "hex_encode bs up sep = join sep (map (hex_byte up) bs)"
proof -
  have "(\<lambda>b. if up then map to_ascii_upper (hex2 b) else hex2 b) = hex_byte up"
    by (rule ext) (simp add: hex2_digits hex_byte_def hex_char_def)
  then show ?thesis by (simp add: hex_encode_def)
qed

lemma hex_byte_props:
  "length (hex_byte up b) = 2" "c \<in> set (hex_byte up b) \<Longrightarrow> is_ascii_hexdigit c"
  "c \<in> set (hex_byte up b) \<Longrightarrow> \<not> is_whitespace c" "c \<in> set (hex_byte up b) \<Longrightarrow> c \<noteq> 120"
  "c \<in> set (hex_byte up b) \<Longrightarrow> c < 128"
  using hex_char_props nibbles [of b] by (auto simp: hex_byte_def)

lemma hex_pairs_bytes: "hex_pairs (concat (map (hex_byte up) bs)) = bs"
proof (induction bs)
  case Nil
  then show ?case by simp
next
  case (Cons b bs)
  have "(of_nat (unat b div 16 * 16 + unat b mod 16) :: u8) = b"
    unfolding nibbles by simp
  with Cons show ?case
    by (simp add: hex_byte_def hex_char_props nibbles(1,2))
qed

lemma filter_join_ws:
  assumes "\<And>w c. w \<in> set ws \<Longrightarrow> c \<in> set w \<Longrightarrow> \<not> is_whitespace c"
    and "\<And>c. c \<in> set sep \<Longrightarrow> is_whitespace c"
  shows "filter (\<lambda>c. \<not> is_whitespace c) (join sep ws) = concat ws"
  using assms
proof (induction sep ws rule: join.induct)
  case (3 sep w v vs)
  have "filter (\<lambda>c. \<not> is_whitespace c) sep = []"
    using "3.prems"(2) by (simp add: filter_empty_conv)
  moreover have "filter (\<lambda>c. \<not> is_whitespace c) w = w"
    using "3.prems"(1) [of w] by (simp add: filter_id_conv)
  moreover have "filter (\<lambda>c. \<not> is_whitespace c) (join sep (v # vs)) = concat (v # vs)"
    using "3.prems" by (intro "3.IH") auto
  ultimately show ?case by simp
qed (auto simp: filter_id_conv)

lemma hex_decode_encode [roundtrips]:
  assumes "\<And>c. c \<in> set sep \<Longrightarrow> is_whitespace c"
  shows "hex_decode (hex_encode bs up sep) = Inr bs"
proof -
  let ?s = "concat (map (hex_byte up) bs)"
  have clean: "filter (\<lambda>c. \<not> is_whitespace c) (hex_encode bs up sep) = ?s"
    unfolding hex_encode_bytes using assms hex_byte_props(3) by (intro filter_join_ws) auto
  have "120 \<notin> set ?s" using hex_byte_props(4) by auto
  have noprefix: "strip_prefix (lit ''0x'') ?s = None"
  proof (cases "strip_prefix (lit ''0x'') ?s")
    case (Some r)
    then have "?s = lit ''0x'' @ r" by (simp only: strip_prefix_iff)
    then have "120 \<in> set ?s" by (simp only:) simp
    with \<open>120 \<notin> set ?s\<close> show ?thesis by blast
  qed
  have digits: "filter (\<lambda>c. \<not> is_ascii_hexdigit c) ?s = []"
    using hex_byte_props(2) by (auto simp: filter_empty_conv)
  have "even (length ?s)" by (induction bs) (auto simp: hex_byte_props(1))
  moreover have "hex_pairs ?s = bs" by (rule hex_pairs_bytes)
  moreover have "?s = [] \<longleftrightarrow> bs = []" by (cases bs) (auto simp: hex_byte_def)
  ultimately show ?thesis
    using clean noprefix digits unfolding hex_decode_def Let_def by (simp del: lit_Cons)
qed

lemma hex_encode_ascii: "ascii sep \<Longrightarrow> ascii (hex_encode bs up sep)"
  unfolding hex_encode_bytes ascii_set
  using set_join [of sep "map (hex_byte up) bs"] hex_byte_props(5) by auto

lemma hex_encode_length: "length (hex_encode bs up []) = 2 * length bs"
  unfolding hex_encode_bytes join_Nil_sep by (induction bs) (auto simp: hex_byte_props(1))

lemma length_hex_pairs: "length (hex_pairs s) = length s div 2"
  by (induction s rule: hex_pairs.induct) auto

section \<open>Base64\<close>

text \<open>
  The alphabet, padding and bit packing belong to the \<open>base64\<close> crate, whose four engines are
  parameters: \<open>enc url\<close> encodes with padding, \<open>dec url pad\<close> decodes, \<open>url\<close> choosing the URL-safe
  alphabet and \<open>pad\<close> the padded engine.
\<close>

record b64_engine =
  b64_enc :: "bool \<Rightarrow> bytes \<Rightarrow> ustring"
  b64_dec :: "bool \<Rightarrow> bool \<Rightarrow> ustring \<Rightarrow> ustring + bytes"

definition b64_wrap_width :: nat where
  "b64_wrap_width = 76"

definition wrap_b64 :: "ustring \<Rightarrow> ustring" where
  "wrap_b64 body = join [10] (chunks b64_wrap_width body)"

definition b64_encode :: "b64_engine \<Rightarrow> bytes \<Rightarrow> bool \<Rightarrow> bool \<Rightarrow> ustring" where
  "b64_encode eng bs url_safe no_wrap =
     (let body = b64_enc eng url_safe bs in if no_wrap then body else wrap_b64 body)"

definition fold_alphabet :: "bool \<Rightarrow> rchar \<Rightarrow> rchar" where
  "fold_alphabet url_safe c =
     (if url_safe then (if c = 43 then 45 else if c = 47 then 95 else c)
      else (if c = 45 then 43 else if c = 95 then 47 else c))"

definition b64_decode :: "b64_engine \<Rightarrow> ustring \<Rightarrow> bool \<Rightarrow> bool \<Rightarrow> bytes chef_result" where
  "b64_decode eng input url_safe strict =
     (let cleaned = filter (\<lambda>c. \<not> is_whitespace c) input in
      if cleaned = [] then Inr []
      else
        (let body = (if strict then cleaned
                     else trim_end_with (\<lambda>c. c = 61) (map (fold_alphabet url_safe) cleaned))
         in rmap_err (\<lambda>e. Data_Error (Base64_Failed e)) (b64_dec eng url_safe strict body)))"

text \<open>
  What the crate documents and the code relies on: the text of an encoding is characters of its
  alphabet followed by padding, the URL-safe text is the standard one with \<open>+\<close> and \<open>/\<close> replaced,
  the padded engine decodes its own encodings and the unpadded one decodes them with the padding
  removed.
\<close>

definition b64_char :: "bool \<Rightarrow> rchar \<Rightarrow> bool" where
  "b64_char url c \<longleftrightarrow> is_ascii_alphanumeric c \<or> (if url then c = 45 \<or> c = 95 else c = 43 \<or> c = 47)"

definition b64_laws :: "b64_engine \<Rightarrow> bool" where
  "b64_laws eng \<longleftrightarrow>
     (\<forall>url bs. \<exists>body pad. b64_enc eng url bs = body @ replicate pad 61 \<and> list_all (b64_char url) body \<and>
        (body = [] \<longrightarrow> bs = [] \<and> pad = 0)) \<and>
     (\<forall>bs. b64_enc eng True bs = map (fold_alphabet True) (b64_enc eng False bs)) \<and>
     (\<forall>url bs. b64_dec eng url True (b64_enc eng url bs) = Inr bs) \<and>
     (\<forall>url bs. b64_dec eng url False (trim_end_with (\<lambda>c. c = 61) (b64_enc eng url bs)) = Inr bs)"

lemma fold_alphabet_back:
  "b64_char False c \<or> c = 61 \<Longrightarrow> fold_alphabet False (fold_alphabet True c) = c"
  "b64_char False c \<or> c = 61 \<Longrightarrow> fold_alphabet False c = c"
  "fold_alphabet True (fold_alphabet True c) = fold_alphabet True c"
  by (auto simp: fold_alphabet_def b64_char_def char_class_defs)

lemma b64_text:
  assumes "b64_laws eng" "c \<in> set (b64_enc eng url bs)"
  shows "b64_char url c \<or> c = 61"
proof -
  obtain body pad where "b64_enc eng url bs = body @ replicate pad 61" "list_all (b64_char url) body"
    using assms(1) unfolding b64_laws_def by metis
  with assms(2) show ?thesis by (auto simp: list_all_iff)
qed

lemma b64_char_not_ws: "b64_char url c \<or> c = 61 \<Longrightarrow> \<not> is_whitespace c"
  by (auto simp: b64_char_def char_class_defs is_whitespace_def split: if_splits)

lemma b64_char_ascii: "b64_char url c \<or> c = 61 \<Longrightarrow> c < 128"
  by (auto simp: b64_char_def char_class_defs split: if_splits)

lemma b64_encode_cleaned:
  assumes "b64_laws eng"
  shows "filter (\<lambda>c. \<not> is_whitespace c) (b64_encode eng bs url no_wrap) = b64_enc eng url bs"
proof -
  let ?t = "b64_enc eng url bs"
  have ws: "\<not> is_whitespace c" if "c \<in> set ?t" for c
    using b64_text [OF assms that] b64_char_not_ws by blast
  have "filter (\<lambda>c. \<not> is_whitespace c) (wrap_b64 ?t) = concat (chunks b64_wrap_width ?t)"
    unfolding wrap_b64_def
  proof (rule filter_join_ws)
    fix w c
    assume "w \<in> set (chunks b64_wrap_width ?t)" "c \<in> set w"
    then have "c \<in> set (concat (chunks b64_wrap_width ?t))" by auto
    then show "\<not> is_whitespace c" using ws by (simp add: concat_chunks b64_wrap_width_def)
  qed (simp add: is_whitespace_def)
  with ws show ?thesis
    by (simp add: b64_encode_def Let_def filter_id_conv concat_chunks b64_wrap_width_def)
qed

lemma b64_fold:
  assumes "b64_laws eng"
  shows "map (fold_alphabet url') (b64_enc eng url bs) = b64_enc eng url' bs"
proof -
  have e: "b64_enc eng True bs = map (fold_alphabet True) (b64_enc eng False bs)"
    using assms unfolding b64_laws_def by blast
  have folded: "map (fold_alphabet False) (b64_enc eng False bs) = b64_enc eng False bs"
    "map (fold_alphabet False) (map (fold_alphabet True) (b64_enc eng False bs)) = b64_enc eng False bs"
    using b64_text [OF assms] fold_alphabet_back by (auto simp: map_idI)
  show ?thesis
    by (cases url; cases url') (simp_all only: e folded, simp add: fold_alphabet_back comp_def)
qed

lemma b64_decode_encode [roundtrips]:
  assumes laws: "b64_laws eng" and "strict \<Longrightarrow> url' = url"
  shows "b64_decode eng (b64_encode eng bs url no_wrap) url' strict = Inr bs"
proof (cases "b64_enc eng url bs = []")
  case True
  have "bs = []"
  proof -
    obtain body pad where "b64_enc eng url bs = body @ replicate pad 61" "body = [] \<longrightarrow> bs = [] \<and> pad = 0"
      using laws unfolding b64_laws_def by metis
    with True show ?thesis by simp
  qed
  with True show ?thesis
    by (simp add: b64_decode_def b64_encode_cleaned [OF laws])
next
  case False
  have "b64_dec eng url True (b64_enc eng url bs) = Inr bs"
    "b64_dec eng url' False (trim_end_with (\<lambda>c. c = 61) (b64_enc eng url' bs)) = Inr bs"
    using laws unfolding b64_laws_def by blast+
  with False assms(2) show ?thesis
    by (simp add: b64_decode_def b64_encode_cleaned [OF laws] b64_fold [OF laws] Let_def)
qed

lemma b64_encode_ascii: "b64_laws eng \<Longrightarrow> ascii (b64_encode eng bs url no_wrap)"
proof -
  assume laws: "b64_laws eng"
  have a: "c < 128" if "c \<in> set (b64_enc eng url bs)" for c
    using b64_text [OF laws that] b64_char_ascii by blast
  have "set (wrap_b64 (b64_enc eng url bs)) \<subseteq> insert 10 (set (concat (chunks b64_wrap_width (b64_enc eng url bs))))"
    unfolding wrap_b64_def using set_join by fastforce
  with a show ?thesis
    by (auto simp: ascii_set b64_encode_def Let_def concat_chunks b64_wrap_width_def)
qed

section \<open>Formats\<close>

definition decimal_token :: "ustring \<Rightarrow> u8 chef_result" where
  "decimal_token t =
     (case parse_unsigned u16_max 10 (trim t) of
        Inr v \<Rightarrow> if v < 256 then Inr (of_nat v) else Inl (Data_Error (Bad_Decimal_Byte t))
      | Inl _ \<Rightarrow> Inl (Data_Error (Bad_Decimal_Byte t)))"

definition decimal_sep :: "rchar \<Rightarrow> bool" where
  "decimal_sep c \<longleftrightarrow> c = 32 \<or> c = 44 \<or> c = 10 \<or> c = 9"

definition read_by_format :: "b64_engine \<Rightarrow> chef_data \<Rightarrow> ustring \<Rightarrow> bytes chef_result" where
  "read_by_format eng data format =
     rbind (chef_text data) (\<lambda>t.
       if format = lit ''utf8'' \<or> format = lit ''raw'' then Inr (data_bytes data)
       else if format = lit ''hex'' then hex_decode t
       else if format = lit ''base64'' then b64_decode eng t False False
       else if format = lit ''base64url'' then b64_decode eng t True False
       else if format = lit ''decimal'' then
         rmapM decimal_token (filter (\<lambda>w. w \<noteq> []) (split_pred decimal_sep t))
       else Inl (Data_Error (Unknown_Input_Format format)))"

definition parse_param_bytes :: "b64_engine \<Rightarrow> ustring \<Rightarrow> ustring \<Rightarrow> bytes chef_result" where
  "parse_param_bytes eng t format =
     (if format = lit ''utf8'' \<or> format = lit ''raw'' then Inr (utf8 t)
      else if format = lit ''hex'' then hex_decode t
      else if format = lit ''base64'' then b64_decode eng t False False
      else if format = lit ''base64url'' then b64_decode eng t True False
      else Inl (Data_Error (Unknown_Param_Format format)))"

definition emit_by_format :: "b64_engine \<Rightarrow> bytes \<Rightarrow> ustring \<Rightarrow> chef_data chef_result" where
  "emit_by_format eng bs format =
     (if format = lit ''utf8'' \<or> format = lit ''raw'' \<or> format = lit ''binary'' then Inr (chef_new bs)
      else if format = lit ''hex'' then Inr (from_text (hex_encode bs False []))
      else if format = lit ''base64'' then Inr (from_text (b64_encode eng bs False True))
      else if format = lit ''base64url'' then Inr (from_text (b64_encode eng bs True True))
      else if format = lit ''decimal'' then
        Inr (from_text (join [32] (map (\<lambda>b. show_dec (unat b)) bs)))
      else Inl (Data_Error (Unknown_Output_Format format)))"

definition expect_len :: "bytes \<Rightarrow> nat \<Rightarrow> ustring \<Rightarrow> unit chef_result" where
  "expect_len bs len what =
     (if length bs = len then Inr () else Inl (Data_Error (Wrong_Length what len (length bs))))"

lemma decimal_token_show: "decimal_token (show_dec (unat (b :: u8))) = Inr b"
  using unat_u8_lt [of b]
  by (simp add: decimal_token_def show_dec_def trim_to_digits roundtrips u16_max_def)

lemma decimal_list_back:
  "rmapM decimal_token
     (filter (\<lambda>w. w \<noteq> []) (split_pred decimal_sep (join [32] (map (\<lambda>b. show_dec (unat b)) bs)))) = Inr (bs :: bytes)"
proof (cases "bs = []")
  case True
  then show ?thesis by simp
next
  case False
  let ?ws = "map (\<lambda>b. show_dec (unat b)) bs"
  have nosep: "\<not> decimal_sep c" if "c \<in> set (show_dec n)" for c n
  proof -
    have "is_ascii_alphanumeric c"
      using that to_digits_not_ws(3) [of 10 c n] by (simp add: show_dec_def)
    then show ?thesis by (auto simp: decimal_sep_def char_class_defs)
  qed
  have "split_pred decimal_sep (join [32] ?ws) = ?ws"
    using False nosep by (intro split_pred_join) (auto simp: decimal_sep_def)
  moreover have "filter (\<lambda>w. w \<noteq> []) ?ws = ?ws"
    by (auto simp: filter_id_conv show_dec_def)
  ultimately show ?thesis
    by (simp add: rmapM_map_Inr decimal_token_show)
qed

lemma decimal_text_ascii: "ascii (join [32] (map (\<lambda>b. show_dec (unat b)) bs))"
proof -
  have "set (join [32] (map (\<lambda>b. show_dec (unat b)) bs)) \<subseteq> insert 32 (\<Union>b \<in> set bs. set (show_dec (unat b)))"
    using set_join [of "[32]" "map (\<lambda>b. show_dec (unat b)) bs"] by auto
  moreover have "ascii (show_dec n)" for n by (simp add: show_dec_def to_digits_ascii)
  ultimately show ?thesis by (auto simp: ascii_set)
qed

text \<open>The four formats that are text on the wire.\<close>

definition text_formats :: "ustring list" where
  "text_formats = [lit ''hex'', lit ''base64'', lit ''base64url'', lit ''decimal'']"

end
