(* ===== verification/Chef_Radix.thy ===== *)
theory Chef_Radix
  imports Chef_Data
begin

text \<open>
  \<open>radix_encode\<close> and \<open>radix_decode\<close> of data.rs: Base58 and Base62 as the expansion of one big
  integer. The encoder divides a big-endian byte vector by the radix in place, the decoder
  multiplies one up; both keep leading zero bytes as leading zero digits.
\<close>

text \<open>One division pass: the quotient (without leading zeros) and the remainder.\<close>

fun div_pass :: "nat \<Rightarrow> bytes \<Rightarrow> nat \<Rightarrow> bytes \<Rightarrow> bytes \<times> nat" where
  "div_pass radix nxt rmd [] = (nxt, rmd)"
| "div_pass radix nxt rmd (b # bs) =
     (let acc = rmd * 256 + unat b; q = acc div radix in
      div_pass radix (if nxt \<noteq> [] \<or> q \<noteq> 0 then nxt @ [of_nat q] else nxt) (acc mod radix) bs)"

text \<open>
  The outer loop, least significant digit first. \<open>None\<close> is "does not return" (a radix of one would
  loop for ever); \<open>alphabet ! r\<close> is in range because \<open>r\<close> is a remainder by the alphabet's length.
\<close>

partial_function (option) radix_digits :: "'a list \<Rightarrow> bytes \<Rightarrow> 'a list \<Rightarrow> 'a list option" where
  "radix_digits alphabet number digits =
     (if number = [] then Some digits
      else radix_digits alphabet (fst (div_pass (length alphabet) [] 0 number))
             (digits @ [alphabet ! snd (div_pass (length alphabet) [] 0 number)]))"

definition radix_encode :: "bytes \<Rightarrow> ustring \<Rightarrow> ustring option" where
  "radix_encode bs alphabet =
     (let leading = length (takeWhile (\<lambda>b. b = 0) bs) in
      map_option (\<lambda>digits. replicate leading (alphabet ! 0) @ rev digits)
        (radix_digits alphabet (drop leading bs) []))"

text \<open>\<open>bytes = bytes * radix + value\<close>, from the last slot to the first.\<close>

fun mul_add_rev :: "nat \<Rightarrow> nat \<Rightarrow> bytes \<Rightarrow> bytes \<times> nat" where
  "mul_add_rev radix carry [] = ([], carry)"
| "mul_add_rev radix carry (b # bs) =
     (let acc = unat b * radix + carry; (rest, c) = mul_add_rev radix (acc div 256) bs
      in (of_nat acc # rest, c))"

text \<open>\<open>while carry > 0\<close>: the carry bytes inserted at the front.\<close>

fun carry_bytes :: "nat \<Rightarrow> bytes \<Rightarrow> bytes" where
  "carry_bytes carry bs = (if carry = 0 then bs else carry_bytes (carry div 256) (of_nat carry # bs))"

declare carry_bytes.simps [simp del]

definition mul_add :: "nat \<Rightarrow> bytes \<Rightarrow> nat \<Rightarrow> bytes" where
  "mul_add radix bs value =
     (let (rest, c) = mul_add_rev radix value (rev bs) in carry_bytes c (rev rest))"

fun position :: "'a list \<Rightarrow> 'a \<Rightarrow> nat option" where
  "position [] c = None"
| "position (a # as) c = (if a = c then Some 0 else map_option Suc (position as c))"

fun radix_chars :: "ustring \<Rightarrow> bytes \<Rightarrow> ustring \<Rightarrow> bytes chef_result" where
  "radix_chars alphabet bs [] = Inr bs"
| "radix_chars alphabet bs (c # cs) =
     rbind (ok_or (position alphabet c) (Data_Error (Not_In_Alphabet c)))
       (\<lambda>v. radix_chars alphabet (mul_add (length alphabet) bs v) cs)"

definition radix_decode :: "ustring \<Rightarrow> ustring \<Rightarrow> bytes chef_result" where
  "radix_decode input alphabet =
     (let leading = length (takeWhile (\<lambda>c. c = alphabet ! 0) input) in
      rmap (\<lambda>bs. replicate leading 0 @ bs) (radix_chars alphabet [] (drop leading input)))"

section \<open>The integer a byte vector stands for\<close>

definition be_value :: "bytes \<Rightarrow> nat" where
  "be_value bs = foldl (\<lambda>a b. a * 256 + unat b) 0 bs"

definition no_lead :: "bytes \<Rightarrow> bool" where
  "no_lead bs \<longleftrightarrow> bs = [] \<or> hd bs \<noteq> 0"

lemma be_value_Nil [simp]: "be_value [] = 0"
  by (simp add: be_value_def)

lemma be_value_snoc: "be_value (bs @ [b]) = be_value bs * 256 + unat b"
  by (simp add: be_value_def)

lemma be_value_append: "be_value (xs @ ys) = be_value xs * 256 ^ length ys + be_value ys"
  by (induction ys rule: rev_induct)
    (simp_all add: be_value_snoc algebra_simps flip: append_assoc)

lemma be_value_bound: "be_value bs < 256 ^ length bs"
proof (induction bs rule: rev_induct)
  case Nil
  then show ?case by simp
next
  case (snoc b bs)
  have "be_value (bs @ [b]) < be_value bs * 256 + 256"
    using unat_u8_lt [of b] by (simp add: be_value_snoc)
  also have "\<dots> \<le> 256 ^ length bs * 256" using snoc by simp
  finally show ?case by simp
qed

lemma be_value_Cons: "be_value (b # bs) = unat b * 256 ^ length bs + be_value bs"
  using be_value_append [of "[b]" bs] by (simp add: be_value_def)

lemma be_value_pos: "no_lead bs \<Longrightarrow> bs \<noteq> [] \<Longrightarrow> 256 ^ (length bs - 1) \<le> be_value bs"
proof (cases bs)
  case (Cons b cs)
  assume "no_lead bs" "bs \<noteq> []"
  with Cons have "0 < unat b" by (simp add: no_lead_def unat_gt_0)
  then have "1 * 256 ^ length cs \<le> unat b * 256 ^ length cs"
    by (intro mult_le_mono1) simp
  then have "256 ^ length cs \<le> unat b * 256 ^ length cs + be_value cs" by linarith
  with Cons show ?thesis by (simp add: be_value_Cons)
qed simp

lemma base256_split:
  assumes "a * 256 + unat (x :: u8) = b * 256 + unat y"
  shows "a = b \<and> x = y"
proof -
  have "(a * 256 + unat x) div 256 = a" "(b * 256 + unat y) div 256 = b"
    "(a * 256 + unat x) mod 256 = unat x" "(b * 256 + unat y) mod 256 = unat y"
    using unat_u8_lt [of x] unat_u8_lt [of y] by simp_all
  with assms show ?thesis by (metis u8_eq_iff_unat)
qed

lemma be_value_inj_length: "length xs = length ys \<Longrightarrow> be_value xs = be_value ys \<Longrightarrow> xs = ys"
proof (induction xs arbitrary: ys rule: rev_induct)
  case (snoc x xs)
  then obtain zs z where ys: "ys = zs @ [z]" by (cases ys rule: rev_cases) auto
  with snoc.prems have "be_value xs = be_value zs \<and> x = z"
    by (intro base256_split) (simp add: be_value_snoc)
  with snoc ys show ?case by auto
qed simp

text \<open>Without leading zeros the integer determines the bytes.\<close>

lemma be_value_inj:
  "no_lead xs \<Longrightarrow> no_lead ys \<Longrightarrow> be_value xs = be_value ys \<Longrightarrow> xs = ys"
proof (induction xs arbitrary: ys rule: rev_induct)
  case Nil
  show ?case
  proof (rule ccontr)
    assume "[] \<noteq> ys"
    with Nil be_value_pos [of ys] have "256 ^ (length ys - 1) \<le> (0 :: nat)" by simp
    then show False by simp
  qed
next
  case (snoc x xs)
  show ?case
  proof (cases ys rule: rev_cases)
    case Nil
    with snoc.prems be_value_pos [of "xs @ [x]"] show ?thesis by simp
  next
    case (snoc zs z)
    with snoc.prems have "be_value xs = be_value zs \<and> x = z"
      by (intro base256_split) (simp add: be_value_snoc)
    moreover have "no_lead xs" "no_lead zs"
      using snoc.prems snoc by (auto simp: no_lead_def hd_append split: if_splits)
    ultimately show ?thesis using snoc snoc.IH by blast
  qed
qed

section \<open>Division\<close>

lemma div_pass_value:
  assumes "0 < radix" "rmd < radix" "radix \<le> 256"
  shows "be_value (fst (div_pass radix nxt rmd bs)) * radix + snd (div_pass radix nxt rmd bs) =
      (be_value nxt * radix + rmd) * 256 ^ length bs + be_value bs \<and> snd (div_pass radix nxt rmd bs) < radix"
  using assms
proof (induction bs arbitrary: nxt rmd)
  case Nil
  then show ?case by simp
next
  case (Cons b bs)
  define acc where "acc = rmd * 256 + unat b"
  define nxt' where "nxt' = (if nxt \<noteq> [] \<or> acc div radix \<noteq> 0 then nxt @ [of_nat (acc div radix)] else nxt)"
  have "acc < radix * 256"
  proof -
    have "acc < (rmd + 1) * 256" using unat_u8_lt [of b] by (simp add: acc_def)
    also have "\<dots> \<le> radix * 256" using Cons.prems(2) by (intro mult_le_mono1) simp
    finally show ?thesis .
  qed
  then have q: "acc div radix < 256" using Cons.prems(1) by (simp add: less_mult_imp_div_less mult.commute)
  have val: "be_value nxt' = be_value nxt * 256 + acc div radix"
    using q by (auto simp: nxt'_def be_value_snoc unat_of_nat_u8)
  have step: "div_pass radix nxt rmd (b # bs) = div_pass radix nxt' (acc mod radix) bs"
    by (simp add: acc_def nxt'_def Let_def)
  have "be_value nxt' * radix + acc mod radix = (be_value nxt * radix + rmd) * 256 + unat b"
    using div_mult_mod_eq [of acc radix] by (simp add: val algebra_simps acc_def)
  then have "(be_value nxt' * radix + acc mod radix) * 256 ^ length bs + be_value bs =
      (be_value nxt * radix + rmd) * 256 ^ length (b # bs) + be_value (b # bs)"
    by (simp add: be_value_Cons add_mult_distrib mult.assoc)
  moreover have "acc mod radix < radix" using Cons.prems(1) by simp
  ultimately show ?case
    using Cons.IH [of "acc mod radix" nxt'] Cons.prems unfolding step by metis
qed

lemma div_pass_no_lead:
  "no_lead nxt \<Longrightarrow> 0 < radix \<Longrightarrow> rmd < radix \<Longrightarrow> no_lead (fst (div_pass radix nxt rmd bs))"
proof (induction bs arbitrary: nxt rmd)
  case Nil
  then show ?case by simp
next
  case (Cons b bs)
  let ?q = "(rmd * 256 + unat b) div radix"
  have "rmd * 256 + unat b < radix * 256"
  proof -
    have "rmd * 256 + unat b < (rmd + 1) * 256" using unat_u8_lt [of b] by simp
    also have "\<dots> \<le> radix * 256" using Cons.prems(3) by (intro mult_le_mono1) simp
    finally show ?thesis .
  qed
  then have "?q < 256" using Cons.prems(2) by (simp add: less_mult_imp_div_less mult.commute)
  then have "(of_nat ?q :: u8) = 0 \<longleftrightarrow> ?q = 0" using of_nat_u8_eq_iff [of ?q 0] by simp
  then have "no_lead (if nxt \<noteq> [] \<or> ?q \<noteq> 0 then nxt @ [of_nat ?q] else nxt)"
    using Cons.prems(1) by (auto simp: no_lead_def hd_append)
  with Cons show ?case by (simp add: Let_def)
qed

lemma div_pass_div_mod:
  assumes "0 < radix" "radix \<le> 256"
  shows "be_value (fst (div_pass radix [] 0 bs)) = be_value bs div radix"
    and "snd (div_pass radix [] 0 bs) = be_value bs mod radix"
proof -
  let ?q = "fst (div_pass radix [] 0 bs)" and ?r = "snd (div_pass radix [] 0 bs)"
  have "be_value bs = be_value ?q * radix + ?r" "?r < radix"
    using div_pass_value [of radix 0 "[]" bs] assms by simp_all
  then show "be_value ?q = be_value bs div radix" "?r = be_value bs mod radix"
    by simp_all
qed

text \<open>The digits of a number, most significant first, none for zero.\<close>

fun digits_of :: "nat \<Rightarrow> nat \<Rightarrow> nat list" where
  "digits_of r n = (if r < 2 \<or> n = 0 then [] else digits_of r (n div r) @ [n mod r])"

declare digits_of.simps [simp del]

lemma digits_of_range: "d \<in> set (digits_of r n) \<Longrightarrow> d < r"
proof (induction r n rule: digits_of.induct)
  case (1 r n)
  then show ?case
    by (cases "r < 2 \<or> n = 0") (auto simp: digits_of.simps [of r n])
qed

lemma digits_of_hd: "digits_of r n \<noteq> [] \<Longrightarrow> hd (digits_of r n) \<noteq> 0"
proof (induction r n rule: digits_of.induct)
  case (1 r n)
  then have rn: "\<not> (r < 2 \<or> n = 0)"
    using digits_of.simps [of r n] by (auto split: if_splits)
  show ?case
  proof (cases "digits_of r (n div r) = []")
    case True
    with rn have "n div r = 0" by (auto simp: digits_of.simps [of r "n div r"] split: if_splits)
    then have "n mod r \<noteq> 0" using rn by (metis div_mult_mod_eq mult_0 add_0)
    with True rn show ?thesis by (simp add: digits_of.simps [of r n])
  next
    case False
    with 1 rn show ?thesis by (simp add: digits_of.simps [of r n])
  qed
qed

lemma radix_digits_eq:
  assumes "2 \<le> length alphabet" "length alphabet \<le> 256"
  shows "no_lead number \<Longrightarrow> radix_digits alphabet number acc =
    Some (acc @ rev (map (nth alphabet) (digits_of (length alphabet) (be_value number))))"
proof (induction "be_value number" arbitrary: number acc rule: less_induct)
  case less
  let ?r = "length alphabet"
  show ?case
  proof (cases "number = []")
    case True
    then show ?thesis by (subst radix_digits.simps) (simp add: digits_of.simps)
  next
    case False
    let ?q = "fst (div_pass ?r [] 0 number)"
    have r: "0 < ?r" using assms(1) by linarith
    have pos: "0 < be_value number"
      using be_value_pos [OF less.prems False] by (simp add: less_le_trans [of 0 "256 ^ (length number - 1)"])
    have "be_value ?q < be_value number"
      using pos assms(1) by (simp add: div_pass_div_mod(1) [OF r assms(2)])
    moreover have "no_lead ?q"
      using r by (intro div_pass_no_lead) (simp_all add: no_lead_def)
    ultimately have "radix_digits alphabet ?q (acc @ [alphabet ! (be_value number mod ?r)]) =
        Some ((acc @ [alphabet ! (be_value number mod ?r)]) @
          rev (map (nth alphabet) (digits_of ?r (be_value ?q))))"
      by (rule less.hyps)
    moreover have "digits_of ?r (be_value number) = digits_of ?r (be_value ?q) @ [be_value number mod ?r]"
      using pos assms(1) by (subst digits_of.simps) (simp add: div_pass_div_mod(1) [OF r assms(2)])
    ultimately show ?thesis
      using False by (subst radix_digits.simps) (simp add: div_pass_div_mod(2) [OF r assms(2)])
  qed
qed

section \<open>Multiplication\<close>

definition le_value :: "bytes \<Rightarrow> nat" where
  "le_value bs = be_value (rev bs)"

lemma le_value_Cons: "le_value (b # bs) = unat b + 256 * le_value bs"
  by (simp add: le_value_def be_value_snoc)

lemma mul_add_rev_value:
  "le_value (fst (mul_add_rev radix carry bs)) + 256 ^ length bs * snd (mul_add_rev radix carry bs) =
     le_value bs * radix + carry \<and> length (fst (mul_add_rev radix carry bs)) = length bs"
proof (induction bs arbitrary: carry)
  case Nil
  then show ?case by (simp add: le_value_def)
next
  case (Cons b bs)
  define acc where "acc = unat b * radix + carry"
  let ?r = "mul_add_rev radix (acc div 256) bs"
  have step: "mul_add_rev radix carry (b # bs) = (of_nat acc # fst ?r, snd ?r)"
    by (simp add: acc_def Let_def split_beta)
  have u: "unat (of_nat acc :: u8) = acc mod 256" by (simp add: unat_of_nat)
  have ih: "le_value (fst ?r) + 256 ^ length bs * snd ?r = le_value bs * radix + acc div 256"
    "length (fst ?r) = length bs" using Cons.IH by blast+
  have "le_value (of_nat acc # fst ?r) + 256 ^ length (b # bs) * snd ?r =
      acc mod 256 + 256 * (le_value (fst ?r) + 256 ^ length bs * snd ?r)"
    by (simp add: le_value_Cons u add_mult_distrib2)
  also have "\<dots> = (acc mod 256 + 256 * (acc div 256)) + 256 * (le_value bs * radix)"
    by (simp only: ih add_mult_distrib2 add.assoc add.commute add.left_commute)
  also have "\<dots> = le_value (b # bs) * radix + carry"
    by (simp add: le_value_Cons acc_def add_mult_distrib)
  finally show ?case using step ih(2) by simp
qed

lemma carry_bytes_value: "be_value (carry_bytes c bs) = c * 256 ^ length bs + be_value bs"
proof (induction c bs rule: carry_bytes.induct)
  case (1 c bs)
  show ?case
  proof (cases "c = 0")
    case False
    have "unat (of_nat c :: u8) = c mod 256" by (simp add: unat_of_nat)
    moreover have "c = c div 256 * 256 + c mod 256" by simp
    then have "c * 256 ^ length bs = (c div 256 * 256 + c mod 256) * 256 ^ length bs" by simp
    then have "c * 256 ^ length bs = c div 256 * (256 * 256 ^ length bs) + c mod 256 * 256 ^ length bs"
      by (simp only: add_mult_distrib mult.assoc)
    ultimately show ?thesis
      using 1 False by (simp add: carry_bytes.simps [of c bs] be_value_Cons)
  qed (simp add: carry_bytes.simps)
qed

lemma carry_bytes_no_lead: "c \<noteq> 0 \<or> no_lead bs \<Longrightarrow> no_lead (carry_bytes c bs)"
proof (induction c bs rule: carry_bytes.induct)
  case (1 c bs)
  show ?case
  proof (cases "c = 0")
    case False
    have "c div 256 \<noteq> 0 \<or> no_lead ((of_nat c :: u8) # bs)"
    proof (cases "c div 256 = 0")
      case True
      then have "c < 256" by simp
      then have "unat (of_nat c :: u8) = c" by (rule unat_of_nat_u8)
      with False have "(of_nat c :: u8) \<noteq> 0" by auto
      then show ?thesis by (simp add: no_lead_def)
    qed simp
    with 1 False show ?thesis by (simp add: carry_bytes.simps [of c bs])
  qed (use 1 in \<open>simp add: carry_bytes.simps\<close>)
qed

lemma mul_add_value: "be_value (mul_add radix bs v) = be_value bs * radix + v"
proof -
  obtain rest c where mr: "mul_add_rev radix v (rev bs) = (rest, c)" by fastforce
  then show ?thesis
    using mul_add_rev_value [of radix v "rev bs"]
    by (simp add: mul_add_def carry_bytes_value le_value_def mult.commute add.commute)
qed

lemma mul_add_no_lead:
  assumes "no_lead bs" "0 < radix" "bs = [] \<Longrightarrow> v \<noteq> 0"
  shows "no_lead (mul_add radix bs v)"
proof -
  obtain rest c where mr: "mul_add_rev radix v (rev bs) = (rest, c)" by fastforce
  have val: "le_value rest + 256 ^ length bs * c = be_value bs * radix + v" and len: "length rest = length bs"
    using mul_add_rev_value [of radix v "rev bs"] mr by (simp_all add: le_value_def)
  have "c \<noteq> 0 \<or> no_lead (rev rest)"
  proof (cases "c = 0 \<and> bs \<noteq> []")
    case True
    then have eq: "be_value (rev rest) = be_value bs * radix + v"
      using val by (simp add: le_value_def)
    have "256 ^ (length bs - 1) \<le> be_value bs"
      using True assms(1) by (intro be_value_pos) auto
    also have "\<dots> \<le> be_value bs * radix + v" using assms(2) by (cases radix) auto
    finally have ge: "256 ^ (length bs - 1) \<le> be_value (rev rest)" by (simp add: eq)
    obtain d ds where d: "rev rest = d # ds" using True len by (cases "rev rest") auto
    then have "length ds = length bs - 1" using len by (metis length_Cons length_rev diff_Suc_1)
    with ge d have "be_value ds < be_value (d # ds)"
      using be_value_bound [of ds] by simp
    then have "d \<noteq> 0" by (auto simp: be_value_Cons)
    with d show ?thesis by (simp add: no_lead_def)
  next
    case False
    then show ?thesis
      using val assms(3) len by (auto simp: no_lead_def le_value_def)
  qed
  then show ?thesis
    using carry_bytes_no_lead mr by (simp add: mul_add_def)
qed

section \<open>Decoding what was encoded\<close>

lemma position_nth: "distinct xs \<Longrightarrow> i < length xs \<Longrightarrow> position xs (xs ! i) = Some i"
proof (induction xs arbitrary: i)
  case (Cons a xs)
  then show ?case by (cases i) (auto simp: in_set_conv_nth)
qed simp

lemma position_Some: "position xs c = Some i \<Longrightarrow> i < length xs \<and> xs ! i = c"
  by (induction xs arbitrary: i) (auto split: if_splits)

definition digits_value :: "nat \<Rightarrow> nat \<Rightarrow> nat list \<Rightarrow> nat" where
  "digits_value r a ds = foldl (\<lambda>a d. a * r + d) a ds"

lemma digits_value_of: "2 \<le> r \<Longrightarrow> digits_value r 0 (digits_of r n) = n"
proof (induction r n rule: digits_of.induct)
  case (1 r n)
  then show ?case
    using digits_of.simps [of r n] by (cases "n = 0") (simp_all add: digits_value_def)
qed

lemma radix_chars_digits:
  assumes "distinct alphabet" "0 < length alphabet"
  shows "no_lead bs \<Longrightarrow> (bs = [] \<Longrightarrow> ds \<noteq> [] \<Longrightarrow> hd ds \<noteq> 0) \<Longrightarrow> (\<And>d. d \<in> set ds \<Longrightarrow> d < length alphabet) \<Longrightarrow>
    \<exists>out. radix_chars alphabet bs (map (nth alphabet) ds) = Inr out \<and> no_lead out \<and>
      be_value out = digits_value (length alphabet) (be_value bs) ds"
proof (induction ds arbitrary: bs)
  case Nil
  then show ?case by (simp add: digits_value_def)
next
  case (Cons d ds)
  let ?bs = "mul_add (length alphabet) bs d"
  have nl: "no_lead ?bs" using Cons.prems assms(2) by (intro mul_add_no_lead) auto
  have "?bs \<noteq> []"
  proof
    assume "?bs = []"
    then have "be_value bs * length alphabet + d = 0"
      using mul_add_value [of "length alphabet" bs d] by simp
    then have "be_value bs = 0" "d = 0" using assms(2) by auto
    moreover have "bs = []"
      using be_value_pos [OF Cons.prems(1)] calculation by fastforce
    ultimately show False using Cons.prems(2) by simp
  qed
  with Cons.IH [OF nl] Cons.prems(3) obtain out where
    "radix_chars alphabet ?bs (map (nth alphabet) ds) = Inr out" "no_lead out"
    "be_value out = digits_value (length alphabet) (be_value ?bs) ds" by auto
  then show ?case
    using Cons.prems(3) assms(1) by (simp add: position_nth mul_add_value digits_value_def)
qed

lemma leading_zeros:
  obtains k cs where "bs = replicate k (0 :: u8) @ cs" "no_lead cs" "length (takeWhile (\<lambda>b. b = 0) bs) = k"
proof -
  let ?k = "length (takeWhile (\<lambda>b. b = 0) bs)"
  have "takeWhile (\<lambda>b. b = 0) bs = replicate ?k 0"
    by (metis (full_types) replicate_length_same set_takeWhileD)
  then have "bs = replicate ?k 0 @ dropWhile (\<lambda>b. b = 0) bs"
    by (metis takeWhile_dropWhile_id)
  moreover have "no_lead (dropWhile (\<lambda>b. b = 0) bs)"
    unfolding no_lead_def using hd_dropWhile by blast
  ultimately show ?thesis using that by blast
qed

lemma takeWhile_replicate_other:
  "cs = [] \<or> hd cs \<noteq> z \<Longrightarrow> takeWhile (\<lambda>c. c = z) (replicate k z @ cs) = replicate k z"
  by (induction k) (cases cs; auto)+

lemma radix_encode_eq:
  assumes "2 \<le> length alphabet" "length alphabet \<le> 256" "no_lead cs"
  shows "radix_encode (replicate k 0 @ cs) alphabet =
    Some (replicate k (alphabet ! 0) @ map (nth alphabet) (digits_of (length alphabet) (be_value cs)))"
proof -
  have "takeWhile (\<lambda>b. b = 0) (replicate k 0 @ cs) = replicate k 0"
    using assms(3) by (intro takeWhile_replicate_other) (auto simp: no_lead_def)
  then show ?thesis
    using assms by (simp add: radix_encode_def radix_digits_eq rev_map)
qed

text \<open>The encoder returns for every alphabet of two to 256 characters.\<close>

lemma radix_encode_total:
  assumes "2 \<le> length alphabet" "length alphabet \<le> 256"
  shows "\<exists>s. radix_encode bs alphabet = Some s \<and> set s \<subseteq> set alphabet"
proof -
  obtain k cs where bs: "bs = replicate k 0 @ cs" "no_lead cs" using leading_zeros by metis
  have "alphabet ! 0 \<in> set alphabet" using assms(1) by (intro nth_mem) linarith
  then show ?thesis
    using radix_encode_eq [OF assms bs(2), of k] bs(1) digits_of_range nth_mem by fastforce
qed

lemma radix_decode_encode [roundtrips]:
  assumes "2 \<le> length alphabet" "length alphabet \<le> 256" "distinct alphabet"
    and "radix_encode bs alphabet = Some s"
  shows "radix_decode s alphabet = Inr bs"
proof -
  obtain k cs where bs: "bs = replicate k 0 @ cs" "no_lead cs" using leading_zeros by metis
  let ?ds = "digits_of (length alphabet) (be_value cs)" and ?z = "alphabet ! 0"
  have s: "s = replicate k ?z @ map (nth alphabet) ?ds"
    using radix_encode_eq [OF assms(1,2) bs(2), of k] assms(4) bs(1) by simp
  have r0: "0 < length alphabet" using assms(1) by linarith
  have "map (nth alphabet) ?ds = [] \<or> hd (map (nth alphabet) ?ds) \<noteq> ?z"
  proof (cases "?ds = []")
    case False
    then have "hd ?ds \<noteq> 0" "hd ?ds < length alphabet"
      using digits_of_hd digits_of_range [OF hd_in_set] by blast+
    with assms(3) r0 False show ?thesis by (simp add: hd_map nth_eq_iff_index_eq)
  qed simp
  then have lead: "takeWhile (\<lambda>c. c = ?z) s = replicate k ?z"
    unfolding s by (rule takeWhile_replicate_other)
  obtain out where out: "radix_chars alphabet [] (map (nth alphabet) ?ds) = Inr out" "no_lead out"
    "be_value out = digits_value (length alphabet) 0 ?ds"
    using radix_chars_digits [OF assms(3) r0, of "[]" ?ds] digits_of_hd digits_of_range
    by (auto simp: no_lead_def)
  then have "out = cs"
    using bs(2) digits_value_of [OF assms(1)] by (intro be_value_inj) auto
  with out lead show ?thesis
    by (simp add: radix_decode_def s bs(1))
qed

end
