(* ===== verification/Chef_Base85.thy ===== *)
theory Chef_Base85
  imports Chef_Radix
begin

text \<open>
  The Base85 family of data.rs (\<open>base85_alphabet\<close>, \<open>a85_encode\<close>, \<open>a85_decode\<close>): four bytes as five
  digits on 32-bit words that wrap, with the \<open>z\<close> shortcut and the delimiters of Ascii85 and the
  whole-group rule of Z85.
\<close>

section \<open>The code\<close>

text \<open>The 93 characters from \<open>!\<close> to \<open>}\<close>, and the RFC 1924 alphabet.\<close>

definition adobe_alphabet :: ustring where
  "adobe_alphabet = [33..<126]"

definition rfc1924_alphabet :: ustring where
  "rfc1924_alphabet = [48..<58] @ [65..<91] @ [97..<123] @ lit ''!#$%&()*+-;<=>?@^_`{|}~''"

definition base85_alphabet :: "ustring \<Rightarrow> (ustring \<times> bool) chef_result" where
  "base85_alphabet style =
     (if style = lit ''adobe'' then Inr (adobe_alphabet, True)
      else if style = lit ''base85'' \<or> style = lit ''z85'' then Inr (rfc1924_alphabet, False)
      else Inl (Data_Error (Unknown_Base85_Style style)))"

definition BASE85_STYLES :: "ustring list" where
  "BASE85_STYLES = [lit ''adobe'', lit ''base85'', lit ''z85'']"

text \<open>\<open>value = (value << 8) | b\<close> over the chunk, then \<open>value <<= pad * 8\<close>.\<close>

definition group_word :: "bytes \<Rightarrow> u32" where
  "group_word chunk =
     push_bit ((4 - length chunk) * 8) (foldl (\<lambda>value b. push_bit 8 value OR ucast b) 0 chunk)"

text \<open>The base 85 digits, filled from the last slot; division on \<open>u32\<close> cannot wrap.\<close>

fun digits85 :: "nat \<Rightarrow> nat \<Rightarrow> nat list" where
  "digits85 0 rest = []"
| "digits85 (Suc k) rest = digits85 k (rest div 85) @ [rest mod 85]"

definition encode_group :: "ustring \<Rightarrow> bool \<Rightarrow> bytes \<Rightarrow> ustring" where
  "encode_group alphabet shortcut chunk =
     (if length chunk = 4 \<and> list_all (\<lambda>b. b = 0) chunk \<and> shortcut then [ch CHR ''z'']
      else map (\<lambda>d. alphabet ! d) (take (5 - (4 - length chunk)) (digits85 5 (unat (group_word chunk)))))"

definition a85_encode :: "bytes \<Rightarrow> ustring \<Rightarrow> bool \<Rightarrow> ustring chef_result" where
  "a85_encode bs style delimiters =
     rbind (base85_alphabet style) (\<lambda>(alphabet, shortcut).
       let body = concat (map (encode_group alphabet shortcut) (chunks 4 bs)) in
       Inr (if delimiters \<and> style = lit ''adobe'' then lit ''<~'' @ body @ lit ''~>'' else body))"

text \<open>One digit after the other; the missing ones of a short group count as 84.\<close>

fun group85 :: "ustring \<Rightarrow> ustring \<Rightarrow> nat \<Rightarrow> u32 \<Rightarrow> u32 chef_result" where
  "group85 alphabet g 0 value = Inr value"
| "group85 alphabet [] (Suc n) value = group85 alphabet [] n (value * 85 + 84)"
| "group85 alphabet (c # g) (Suc n) value =
     rbind (ok_or (position alphabet c) (Data_Error (Base85_Bad_Char c)))
       (\<lambda>digit. group85 alphabet g n (value * 85 + of_nat digit))"

definition word_bytes :: "u32 \<Rightarrow> nat \<Rightarrow> bytes" where
  "word_bytes value n = map (\<lambda>k. ucast (drop_bit (24 - 8 * k) value)) [0..<n]"

function decode_groups :: "ustring \<Rightarrow> bool \<Rightarrow> ustring \<Rightarrow> bytes chef_result" where
  "decode_groups alphabet shortcut cs =
     (if cs = [] then Inr []
      else if shortcut \<and> hd cs = ch CHR ''z'' then
        rmap (\<lambda>out. replicate 4 0 @ out) (decode_groups alphabet shortcut (tl cs))
      else
        (let group = take 5 cs in
         if length group < 2 then Inl (Data_Error Base85_Lone_Char)
         else rbind (group85 alphabet group 5 0) (\<lambda>value.
           rmap (\<lambda>out. word_bytes value (length group - 1) @ out)
             (decode_groups alphabet shortcut (drop 5 cs)))))"
  by pat_completeness auto
termination
  by (relation "measure (\<lambda>(a, s, cs). length cs)") auto

declare decode_groups.simps [simp del]

definition a85_decode :: "ustring \<Rightarrow> ustring \<Rightarrow> bytes chef_result" where
  "a85_decode input style =
     rbind (base85_alphabet style) (\<lambda>(alphabet, shortcut).
       let body = filter (\<lambda>c. \<not> is_whitespace c) input in
       if style = lit ''adobe'' then
         decode_groups alphabet shortcut (trim_end_str (lit ''~>'') (trim_start_str (lit ''<~'') body))
       else if style = lit ''z85'' \<and> length (utf8 body) mod 5 \<noteq> 0 then Inl (Data_Error Z85_Length)
       else decode_groups alphabet shortcut body)"

section \<open>A group of bytes as a word\<close>

lemma shift_or_byte:
  assumes "unat (v :: u32) < 2 ^ 24"
  shows "unat (push_bit 8 v OR ucast (b :: u8)) = unat v * 256 + unat b"
proof -
  have "unat (push_bit 8 v) = unat v * 256"
    using assms by (simp add: unat_shl)
  moreover have "unat (ucast b :: u32) = unat b"
    using unat_u8_lt [of b] by (simp add: unat_as)
  ultimately show ?thesis
    using assms unat_u8_lt [of b] by (simp add: shl_or_low unat_word_ariths)
qed

lemma foldl_word: 
  "length bs \<le> 4 \<Longrightarrow> unat (foldl (\<lambda>value b. push_bit 8 value OR ucast b) (0 :: u32) bs) = be_value bs"
proof (induction bs rule: rev_induct)
  case (snoc b bs)
  have "be_value bs < 256 ^ 3"
    using be_value_bound [of bs] snoc.prems power_increasing [of "length bs" 3 "256 :: nat"] by simp
  with snoc show ?case by (simp add: shift_or_byte be_value_snoc)
qed simp

lemma group_word_value:
  assumes "length bs \<le> 4"
  shows "unat (group_word bs) = be_value bs * 256 ^ (4 - length bs)"
proof -
  have "be_value bs * 256 ^ (4 - length bs) < 256 ^ length bs * 256 ^ (4 - length bs)"
    using be_value_bound [of bs] by simp
  also have "\<dots> = 2 ^ 32" using assms by (simp flip: power_add)
  finally have lt: "be_value bs * 256 ^ (4 - length bs) < 2 ^ 32" .
  have "unat (push_bit (n * 8) (w :: u32)) = unat w * 256 ^ n" if "unat w * 256 ^ n < 2 ^ 32" for w n
  proof -
    have "(2 :: nat) ^ (n * 8) = 256 ^ n" by (subst mult.commute) (simp add: power_mult)
    with that show ?thesis
      by (simp add: unat_shl)
  qed
  with lt show ?thesis by (simp add: group_word_def foldl_word assms)
qed

lemma word_bytes_value: "n \<le> 4 \<Longrightarrow> be_value (word_bytes v n) = unat v div 256 ^ (4 - n)"
proof (induction n)
  case 0
  have "unat v < 2 ^ 32" using unsigned_less [of v, where 'a = nat] by simp
  then show ?case by (simp add: word_bytes_def)
next
  case (Suc n)
  have "24 - 8 * n = 8 * (3 - n)" by simp
  then have "unat (drop_bit (24 - 8 * n) v) = unat v div 256 ^ (3 - n)"
    by (simp only: unat_shr power_mult) simp
  then have "unat (ucast (drop_bit (24 - 8 * n) v) :: u8) = unat v div 256 ^ (3 - n) mod 256"
    by (simp only: unat_as) simp
  moreover have "unat v div 256 ^ (4 - n) = unat v div 256 ^ (3 - n) div 256"
  proof -
    have "4 - n = Suc (3 - n)" using Suc.prems by simp
    then show ?thesis by (simp only: power_Suc2 div_mult2_eq)
  qed
  ultimately show ?case
    using Suc by (simp add: word_bytes_def be_value_snoc)
qed

lemma length_word_bytes [simp]: "length (word_bytes v n) = n"
  by (simp add: word_bytes_def)

section \<open>Digits\<close>

lemma length_digits85 [simp]: "length (digits85 k v) = k"
  by (induction k arbitrary: v) auto

lemma digits85_range: "d \<in> set (digits85 k v) \<Longrightarrow> d < 85"
  by (induction k arbitrary: v) auto

lemma digits85_take: "take k (digits85 (k + j) v) = digits85 k (v div 85 ^ j)"
  by (induction j arbitrary: v) (simp_all add: div_mult2_eq)

lemma digits85_value: "v < 85 ^ k \<Longrightarrow> digits_value 85 0 (digits85 k v) = v"
proof (induction k arbitrary: v)
  case (Suc k)
  have "v div 85 < 85 ^ k" using Suc.prems by (simp add: less_mult_imp_div_less mult.commute)
  with Suc.IH show ?case by (simp add: digits_value_def)
qed (simp add: digits_value_def)

lemma group85_fill: "group85 alphabet [] m (of_nat a) = Inr (of_nat (a * 85 ^ m + (85 ^ m - 1)))"
proof (induction m arbitrary: a)
  case (Suc m)
  have "(of_nat a :: u32) * 85 + 84 = of_nat (a * 85 + 84)" by simp
  moreover have "(a * 85 + 84) * 85 ^ m + (85 ^ m - 1) = a * 85 ^ Suc m + (85 ^ Suc m - 1 :: nat)"
  proof -
    have "(1 :: nat) \<le> 85 ^ m" by simp
    then show ?thesis by (simp add: add_mult_distrib)
  qed
  ultimately show ?case using Suc [of "a * 85 + 84"] by (simp only: group85.simps)
qed simp

lemma group85_digits:
  assumes "distinct alphabet" "85 \<le> length alphabet"
  shows "(\<And>d. d \<in> set ds \<Longrightarrow> d < 85) \<Longrightarrow>
    group85 alphabet (map (nth alphabet) ds) (length ds + m) (of_nat a) =
    group85 alphabet [] m (of_nat (digits_value 85 a ds))"
proof (induction ds arbitrary: a)
  case (Cons d ds)
  have "(of_nat a :: u32) * 85 + of_nat d = of_nat (a * 85 + d)" by simp
  moreover have "position alphabet (alphabet ! d) = Some d"
    using Cons.prems [of d] assms by (intro position_nth) auto
  ultimately show ?case
    using Cons.IH [of "a * 85 + d"] Cons.prems by (simp add: digits_value_def del: of_nat_add of_nat_mult)
qed (simp add: digits_value_def)

lemma short_group_value:
  assumes "n \<le> 4" "b < (256 :: nat) ^ n" "m = 4 - n"
    "q = b * 256 ^ m div 85 ^ m" "v = q * 85 ^ m + (85 ^ m - 1)"
  shows "v < 2 ^ 32" "v div 256 ^ m = b"
proof -
  have le: "(85 :: nat) ^ m \<le> 256 ^ m" by (simp add: power_mono)
  have one: "(1 :: nat) \<le> 85 ^ m" by simp
  have "b * 256 ^ m = q * 85 ^ m + b * 256 ^ m mod 85 ^ m" unfolding assms(4) by (simp only: div_mult_mod_eq)
  moreover have "b * 256 ^ m mod 85 ^ m < (85 :: nat) ^ m" by simp
  ultimately have lo: "b * 256 ^ m \<le> v" and hi: "v < b * 256 ^ m + 256 ^ m"
    using le one assms(5) by linarith+
  show "v div 256 ^ m = b" using lo hi by (intro div_nat_eqI) (simp_all add: mult.commute)
  have "v < (b + 1) * 256 ^ m" using hi by (simp add: add_mult_distrib)
  also have "\<dots> \<le> 256 ^ n * 256 ^ m" using assms(2) by (intro mult_le_mono1) simp
  also have "\<dots> = 2 ^ 32" using assms(1,3) by (simp flip: power_add)
  finally show "v < 2 ^ 32" .
qed

section \<open>Decoding what was encoded\<close>

definition good85 :: "ustring \<Rightarrow> bool \<Rightarrow> bool" where
  "good85 alphabet shortcut \<longleftrightarrow> distinct alphabet \<and> 85 \<le> length alphabet \<and>
     (shortcut \<longrightarrow> (\<forall>d < 85. alphabet ! d \<noteq> ch CHR ''z''))"

lemma encode_group_digits:
  assumes "length c \<le> 4" "c \<noteq> []" "\<not> (length c = 4 \<and> list_all (\<lambda>b. b = 0) c \<and> shortcut)"
  shows "encode_group alphabet shortcut c =
    map (nth alphabet) (digits85 (length c + 1) (be_value c * 256 ^ (4 - length c) div 85 ^ (4 - length c)))"
proof -
  have "5 - (4 - length c) = length c + 1" "length c + 1 + (4 - length c) = 5"
    using assms(1,2) by (cases c; simp)+
  then have "take (5 - (4 - length c)) (digits85 5 v) = digits85 (length c + 1) (v div 85 ^ (4 - length c))" for v
    using digits85_take [of "length c + 1" "4 - length c" v] by simp
  moreover have "encode_group alphabet shortcut c =
      map (nth alphabet) (take (5 - (4 - length c)) (digits85 5 (unat (group_word c))))"
    unfolding encode_group_def by (rule if_not_P [OF assms(3)])
  ultimately show ?thesis by (simp only: group_word_value [OF assms(1)])
qed

lemma decode_group:
  assumes good: "good85 alphabet shortcut" and c: "0 < length c" "length c \<le> 4"
    and no_z: "\<not> (length c = 4 \<and> list_all (\<lambda>b. b = 0) c \<and> shortcut)"
  shows "\<exists>v. group85 alphabet (encode_group alphabet shortcut c) 5 0 = Inr v \<and> word_bytes v (length c) = c"
proof -
  define m where "m = 4 - length c"
  define q where "q = be_value c * 256 ^ m div 85 ^ m"
  define v where "v = q * 85 ^ m + (85 ^ m - 1)"
  note v = short_group_value [OF c(2) be_value_bound m_def q_def v_def]
  have "q < 85 ^ (length c + 1)"
  proof -
    have "q * 85 ^ m \<le> v" unfolding v_def by (rule le_add1)
    also have "v < 2 ^ 32" by (rule v)
    also have "2 ^ 32 < (85 :: nat) ^ (length c + 1 + m)"
    proof -
      have "length c + 1 + m = 5" using c(2) by (simp add: m_def)
      then show ?thesis by (simp only:) simp
    qed
    also have "(85 :: nat) ^ (length c + 1 + m) = 85 ^ (length c + 1) * 85 ^ m" by (rule power_add)
    finally show ?thesis by simp
  qed
  then have val: "digits_value 85 0 (digits85 (length c + 1) q) = q" by (rule digits85_value)
  define ds where "ds = digits85 (length c + 1) q"
  have ds: "d \<in> set ds \<Longrightarrow> d < 85" "digits_value 85 0 ds = q" for d
    using val digits85_range unfolding ds_def by blast+
  have five: "length ds + m = 5" using c(2) unfolding ds_def m_def length_digits85 by simp
  have e: "encode_group alphabet shortcut c = map (nth alphabet) ds"
    using encode_group_digits [OF c(2) _ no_z] c(1) unfolding ds_def q_def m_def by blast
  have "group85 alphabet (map (nth alphabet) ds) (length ds + m) (of_nat 0) =
      group85 alphabet [] m (of_nat (digits_value 85 0 ds))"
    by (rule group85_digits) (use good ds(1) in \<open>simp_all add: good85_def\<close>)
  then have "group85 alphabet (encode_group alphabet shortcut c) 5 0 = Inr (of_nat v)"
    unfolding e five ds(2) group85_fill v_def by simp
  moreover have "word_bytes (of_nat v) (length c) = c"
  proof (rule be_value_inj_length)
    have "unat (of_nat v :: u32) = v" using v(1) by (simp add: unat_of_nat)
    then show "be_value (word_bytes (of_nat v) (length c)) = be_value c"
      using v(2) c(2) by (simp add: word_bytes_value m_def)
  qed simp
  ultimately show ?thesis by blast
qed

lemma decode_groups_unfold:
  assumes "cs \<noteq> []" "\<not> (shortcut \<and> hd cs = ch CHR ''z'')" "\<not> length (take 5 cs) < 2"
  shows "decode_groups alphabet shortcut cs =
    rbind (group85 alphabet (take 5 cs) 5 0) (\<lambda>value.
      rmap (\<lambda>out. word_bytes value (length (take 5 cs) - 1) @ out) (decode_groups alphabet shortcut (drop 5 cs)))"
  by (subst decode_groups.simps) (simp only: assms Let_def if_False)

lemma decode_groups_step:
  assumes "good85 alphabet shortcut" "0 < length c" "length c = 4 \<or> length c < 4 \<and> rest = []"
  shows "decode_groups alphabet shortcut (encode_group alphabet shortcut c @ rest) =
    rmap (\<lambda>out. c @ out) (decode_groups alphabet shortcut rest)"
proof (cases "length c = 4 \<and> list_all (\<lambda>b. b = 0) c \<and> shortcut")
  case True
  then have "replicate (length c) 0 = c"
    by (intro replicate_length_same) (simp add: list_all_iff)
  with True have "c = replicate 4 0" by simp
  with True show ?thesis by (subst decode_groups.simps) (simp add: encode_group_def)
next
  case False
  let ?e = "encode_group alphabet shortcut c"
  have c4: "length c \<le> 4" using assms(3) by auto
  obtain q where e: "?e = map (nth alphabet) (digits85 (length c + 1) q)"
    using encode_group_digits [OF c4 _ False] assms(2) by blast
  define ds where "ds = digits85 (length c + 1) q"
  have ds: "length ds = length c + 1" "ds \<noteq> []" "?e = map (nth alphabet) ds"
    unfolding ds_def e by (simp_all only: length_digits85) simp
  have len: "length ?e = length c + 1" using ds by simp
  have "hd ds < 85"
    using digits85_range hd_in_set [OF ds(2)] unfolding ds_def by blast
  then have "shortcut \<Longrightarrow> hd ?e \<noteq> ch CHR ''z''"
    using assms(1) ds(2,3) by (simp add: hd_map good85_def)
  then have hd: "\<not> (shortcut \<and> hd (?e @ rest) = ch CHR ''z'')" using len by (auto simp: hd_append)
  have split: "take 5 (?e @ rest) = ?e" "drop 5 (?e @ rest) = rest" using assms(3) len by auto
  obtain v where v: "group85 alphabet ?e 5 0 = Inr v" "word_bytes v (length c) = c"
    using decode_group [OF assms(1,2) c4 False] by blast
  have "?e @ rest \<noteq> []" "\<not> length (take 5 (?e @ rest)) < 2"
    unfolding split(1) using len assms(2) by auto
  then have "decode_groups alphabet shortcut (?e @ rest) =
      rbind (group85 alphabet ?e 5 0) (\<lambda>value.
        rmap (\<lambda>out. word_bytes value (length ?e - 1) @ out) (decode_groups alphabet shortcut rest))"
    using decode_groups_unfold [OF _ hd, of alphabet] unfolding split by blast
  with v len show ?thesis by simp
qed

lemma decode_groups_encode:
  assumes "good85 alphabet shortcut"
  shows "decode_groups alphabet shortcut (concat (map (encode_group alphabet shortcut) (chunks 4 bs))) = Inr bs"
proof (induction "4 :: nat" bs rule: chunks.induct)
  case (1 bs)
  show ?case
  proof (cases "bs = []")
    case True
    then show ?thesis by (simp add: decode_groups.simps)
  next
    case False
    have "length (take 4 bs) = 4 \<or> length (take 4 bs) < 4 \<and>
        concat (map (encode_group alphabet shortcut) (chunks 4 (drop 4 bs))) = []" by auto
    with False 1 show ?thesis
      by (simp add: chunks_step decode_groups_step [OF assms])
  qed
qed


section \<open>The three styles\<close>

lemma distinct_rfc1924: "distinct rfc1924_alphabet"
  by (code_simp)

lemma good85_styles: "base85_alphabet style = Inr (alphabet, shortcut) \<Longrightarrow> good85 alphabet shortcut"
proof -
  have "good85 adobe_alphabet True"
    by (simp add: good85_def adobe_alphabet_def nth_upt del: upt_rec_numeral)
  moreover have "good85 rfc1924_alphabet False"
    using distinct_rfc1924 by (simp add: good85_def rfc1924_alphabet_def)
  moreover assume "base85_alphabet style = Inr (alphabet, shortcut)"
  ultimately show ?thesis by (auto simp: base85_alphabet_def split: if_splits)
qed

lemma encode_group_chars:
  assumes "85 \<le> length alphabet" "x \<in> set (encode_group alphabet shortcut c)"
  shows "x \<in> set (take 85 alphabet) \<or> shortcut \<and> x = ch CHR ''z''"
proof (cases "length c = 4 \<and> list_all (\<lambda>b. b = 0) c \<and> shortcut")
  case False
  with assms(2) obtain d where d: "d \<in> set (digits85 5 (unat (group_word c)))" "x = alphabet ! d"
    unfolding encode_group_def if_not_P [OF False] by (auto simp del: digits85.simps dest: in_set_takeD)
  from d(1) have "d < 85" by (rule digits85_range)
  with assms(1) d(2) show ?thesis by (auto simp: in_set_conv_nth intro!: exI [of _ d])
qed (use assms in \<open>simp add: encode_group_def\<close>)

lemma base85_body_chars:
  assumes "base85_alphabet style = Inr (alphabet, shortcut)"
    and "x \<in> set (concat (map (encode_group alphabet shortcut) (chunks 4 bs)))"
  shows "33 \<le> x \<and> x < 127 \<and> (style = lit ''adobe'' \<longrightarrow> x \<noteq> 126)"
proof -
  have "85 \<le> length alphabet" using good85_styles [OF assms(1)] by (simp add: good85_def)
  with assms(2) have "x \<in> set (take 85 alphabet) \<or> shortcut \<and> x = ch CHR ''z''"
    using encode_group_chars by fastforce
  then show ?thesis
    using assms(1)
    by (auto simp: base85_alphabet_def adobe_alphabet_def rfc1924_alphabet_def take_upt
        split: if_splits dest: in_set_takeD)
qed

lemma base85_length:
  assumes "base85_alphabet style = Inr (alphabet, False)" "4 dvd length bs"
  shows "5 dvd length (concat (map (encode_group alphabet False) (chunks 4 bs)))"
proof -
  have "length (encode_group alphabet False c) = 5" if "c \<in> set (chunks 4 bs)" for c
    using chunks_whole [OF assms(2) that] by (simp add: encode_group_def del: digits85.simps)
  then have "map length (map (encode_group alphabet False) (chunks 4 bs)) = map (\<lambda>c. 5) (chunks 4 bs)" by simp
  then have "length (concat (map (encode_group alphabet False) (chunks 4 bs))) = length (chunks 4 bs) * 5"
    unfolding length_concat by (simp only: sum_list_triv of_nat_id)
  then show ?thesis by simp
qed

lemma strip_prefix_missing: "x \<in> set p \<Longrightarrow> x \<notin> set s \<Longrightarrow> strip_prefix p s = None"
  by (cases "strip_prefix p s") (auto simp: strip_prefix_iff)

text \<open>A lone \<open><\<close> before the closing delimiter would read as another opening one; no group is that short.\<close>

lemma strip_open_none:
  "126 \<notin> set body \<Longrightarrow> body \<noteq> [60] \<Longrightarrow> strip_prefix (lit ''<~'') (body @ lit ''~>'') = None"
  by (cases body; cases "tl body") auto

lemma a85_decode_encode [roundtrips]:
  assumes "a85_encode bs style delimiters = Inr s" and "style = lit ''z85'' \<Longrightarrow> 4 dvd length bs"
  shows "a85_decode s style = Inr bs"
proof -
  obtain alphabet shortcut where al: "base85_alphabet style = Inr (alphabet, shortcut)"
    using assms(1) by (auto simp: a85_encode_def result_inv)
  define body where "body = concat (map (encode_group alphabet shortcut) (chunks 4 bs))"
  have chars: "33 \<le> x \<and> x < 127 \<and> (style = lit ''adobe'' \<longrightarrow> x \<noteq> 126)" if "x \<in> set body" for x
    using base85_body_chars [OF al] that by (simp add: body_def)
  have ws: "\<not> is_whitespace x" if "33 \<le> x" "x < 127" for x
    using that by (simp add: is_whitespace_def)
  have dec: "decode_groups alphabet shortcut body = Inr bs"
    unfolding body_def by (rule decode_groups_encode) (rule good85_styles [OF al])
  have s: "s = (if delimiters \<and> style = lit ''adobe'' then lit ''<~'' @ body @ lit ''~>'' else body)"
    using assms(1) al by (auto simp: a85_encode_def body_def Let_def simp del: lit_Cons)
  have "33 \<le> x \<and> x < 127" if "x \<in> set s" for x
    using that chars [of x] by (auto simp: s split: if_splits)
  then have keep: "filter (\<lambda>c. \<not> is_whitespace c) s = s"
    using ws by (simp add: filter_id_conv)
  show ?thesis
  proof (cases "style = lit ''adobe''")
    case True
    then have no: "126 \<notin> set body" using chars by blast
    have "body \<noteq> [60]"
    proof
      assume "body = [60]"
      with dec have "decode_groups alphabet shortcut [60] = Inr bs" by simp
      then show False by (subst (asm) decode_groups.simps) (simp split: if_splits)
    qed
    then have start: "strip_prefix (lit ''<~'') (body @ lit ''~>'') = None" "strip_prefix (lit ''<~'') body = None"
      using no by (simp_all add: strip_open_none strip_prefix_missing del: lit_Cons strip_prefix.simps)
        (rule strip_prefix_missing [of 126]; simp)
    have finish: "trim_end_str (lit ''~>'') body = body" "trim_end_str (lit ''~>'') (body @ lit ''~>'') = body"
    proof -
      have none: "strip_prefix (rev (lit ''~>'')) (rev body) = None"
        using no by (intro strip_prefix_missing [of 126]) simp_all
      show "trim_end_str (lit ''~>'') body = body"
        unfolding trim_end_str_def trim_start_str_none [OF none] by simp
      have "trim_start_str (rev (lit ''~>'')) (rev (lit ''~>'') @ rev body) = rev body"
        by (rule trim_start_str_one [OF _ none]) simp
      then show "trim_end_str (lit ''~>'') (body @ lit ''~>'') = body"
        unfolding trim_end_str_def rev_append by (simp only: rev_rev_ident)
    qed
    have "trim_start_str (lit ''<~'') s = (if delimiters then body @ lit ''~>'' else body)"
    proof -
      have "trim_start_str (lit ''<~'') (lit ''<~'' @ body @ lit ''~>'') = body @ lit ''~>''"
        by (rule trim_start_str_one [OF _ start(1)]) simp
      moreover have "trim_start_str (lit ''<~'') body = body" by (rule trim_start_str_none [OF start(2)])
      ultimately show ?thesis unfolding s using True by (cases delimiters) (simp_all del: lit_Cons)
    qed
    then have "trim_end_str (lit ''~>'') (trim_start_str (lit ''<~'') s) = body"
      using finish by (simp del: lit_Cons)
    then show ?thesis
      using True al dec keep by (simp add: a85_decode_def Let_def del: lit_Cons)
  next
    case False
    then have sb: "s = body" by (simp add: s)
    have "ascii body" using chars by (fastforce simp: ascii_set)
    moreover have "style = lit ''z85'' \<Longrightarrow> length body mod 5 = 0"
      using al assms(2) base85_length [of style alphabet bs]
      by (auto simp: base85_alphabet_def body_def split: if_splits)
    ultimately show ?thesis
      using False al dec keep sb by (auto simp: a85_decode_def Let_def length_utf8_ascii)
  qed
qed

lemma a85_encode_ascii:
  assumes "a85_encode bs style delimiters = Inr s"
  shows "ascii s"
proof -
  obtain alphabet shortcut where al: "base85_alphabet style = Inr (alphabet, shortcut)"
    using assms by (auto simp: a85_encode_def result_inv)
  have "ascii (concat (map (encode_group alphabet shortcut) (chunks 4 bs)))"
    using base85_body_chars [OF al] by (fastforce simp: ascii_set)
  with assms al show ?thesis by (auto simp: a85_encode_def Let_def split: if_splits)
qed

end
