(* ===== verification/Chef_Spec.thy ===== *)
theory Chef_Spec
  imports Chef_Data
begin

text \<open>
  The operation registry (src-tauri/src/services/chef/spec.rs) and the IPC records it serves
  (src-tauri/src/models/chef.rs): argument specifications, operation entries, the list shown to the
  front end and the completion of a step's arguments by the registered defaults. The registry's
  content is contributed by the operation groups; the functions here take it as an argument.
\<close>

section \<open>Records\<close>

datatype arg_kind =
    Text ustring
  | Bool bool
  | Number nat
  | Choice ustring "ustring list"

record arg_spec =
  arg_name :: ustring
  arg_kind :: arg_kind

type_synonym chef_outcome = "(chef_error, chef_data) outcome"

record op_entry =
  op_id :: ustring
  op_category :: ustring
  op_args :: "arg_spec list"
  op_run :: "chef_data \<Rightarrow> args \<Rightarrow> chef_outcome"

definition text_arg :: "string \<Rightarrow> string \<Rightarrow> arg_spec" where
  "text_arg name dflt = \<lparr>arg_name = lit name, arg_kind = Text (lit dflt)\<rparr>"

definition bool_arg :: "string \<Rightarrow> bool \<Rightarrow> arg_spec" where
  "bool_arg name dflt = \<lparr>arg_name = lit name, arg_kind = Bool dflt\<rparr>"

definition number :: "string \<Rightarrow> nat \<Rightarrow> arg_spec" where
  "number name dflt = \<lparr>arg_name = lit name, arg_kind = Number dflt\<rparr>"

definition choice :: "string \<Rightarrow> string \<Rightarrow> ustring list \<Rightarrow> arg_spec" where
  "choice name dflt options = \<lparr>arg_name = lit name, arg_kind = Choice (lit dflt) options\<rparr>"

text \<open>
  An entry from its run function; most operations always return, the ones that may panic or run a
  loop without a bound are registered with \<open>op_outcome\<close>.
\<close>

definition op_outcome ::
    "string \<Rightarrow> string \<Rightarrow> arg_spec list \<Rightarrow> (chef_data \<Rightarrow> args \<Rightarrow> chef_outcome) \<Rightarrow> op_entry" where
  "op_outcome i category args run =
     \<lparr>op_id = lit i, op_category = lit category, op_args = args, op_run = run\<rparr>"

definition op ::
    "string \<Rightarrow> string \<Rightarrow> arg_spec list \<Rightarrow> (chef_data \<Rightarrow> args \<Rightarrow> chef_data chef_result) \<Rightarrow> op_entry" where
  "op i category args run = op_outcome i category args (\<lambda>d a. Returned (run d a))"

lemma op_fields [simp]:
  "op_id (op i c ar r) = lit i" "op_category (op i c ar r) = lit c" "op_args (op i c ar r) = ar"
  "op_run (op i c ar r) d a = Returned (r d a)"
  "op_id (op_outcome i c ar q) = lit i" "op_category (op_outcome i c ar q) = lit c"
  "op_args (op_outcome i c ar q) = ar" "op_run (op_outcome i c ar q) = q"
  by (simp_all add: op_def op_outcome_def)

lemma spec_fields [simp]:
  "arg_name (text_arg n s) = lit n" "arg_kind (text_arg n s) = Text (lit s)"
  "arg_name (bool_arg n b) = lit n" "arg_kind (bool_arg n b) = Bool b"
  "arg_name (number n m) = lit n" "arg_kind (number n m) = Number m"
  "arg_name (choice n s os) = lit n" "arg_kind (choice n s os) = Choice (lit s) os"
  by (simp_all add: text_arg_def bool_arg_def number_def choice_def)

text \<open>models/chef.rs.\<close>

record chef_arg_dto =
  dto_name :: ustring
  dto_kind :: ustring
  dto_default :: ustring
  dto_options :: "ustring list"

record chef_operation_dto =
  dto_id :: ustring
  dto_category :: ustring
  dto_args :: "chef_arg_dto list"

record chef_step_input =
  step_id :: ustring
  step_args :: "ustring \<rightharpoonup> ustring"

record chef_bake_request =
  req_input :: ustring
  input_encoding :: "ustring option"
  recipe :: "chef_step_input list"

record chef_step_result =
  res_id :: ustring
  res_ok :: bool
  res_bytes :: nat
  res_utf8 :: bool
  res_preview :: ustring
  res_error :: "chef_error option"

record chef_bake_result =
  bake_ok :: bool
  bake_output :: ustring
  output_bytes :: nat
  output_utf8 :: bool
  output_hex :: ustring
  output_base64 :: ustring
  bake_steps :: "chef_step_result list"
  failed_at :: "nat option"
  input_bytes :: nat

section \<open>The registry\<close>

definition REGISTRY :: "op_entry list list \<Rightarrow> op_entry list" where
  "REGISTRY groups = foldl (\<lambda>all g. all @ g) [] groups"

definition find_op :: "op_entry list \<Rightarrow> ustring \<Rightarrow> op_entry option" where
  "find_op registry i = List.find (\<lambda>entry. op_id entry = i) registry"

definition bool_text :: "bool \<Rightarrow> ustring" where
  "bool_text b = (if b then lit ''true'' else lit ''false'')"

fun arg_default :: "arg_kind \<Rightarrow> ustring" where
  "arg_default (Text d) = d"
| "arg_default (Bool b) = bool_text b"
| "arg_default (Number n) = show_dec n"
| "arg_default (Choice d options) = d"

fun arg_kind_name :: "arg_kind \<Rightarrow> ustring" where
  "arg_kind_name (Text d) = lit ''text''"
| "arg_kind_name (Bool b) = lit ''bool''"
| "arg_kind_name (Number n) = lit ''number''"
| "arg_kind_name (Choice d options) = lit ''choice''"

fun arg_options :: "arg_kind \<Rightarrow> ustring list" where
  "arg_options (Choice d options) = options"
| "arg_options _ = []"

definition arg_dto :: "arg_spec \<Rightarrow> chef_arg_dto" where
  "arg_dto a = \<lparr>dto_name = arg_name a, dto_kind = arg_kind_name (arg_kind a),
     dto_default = arg_default (arg_kind a), dto_options = arg_options (arg_kind a)\<rparr>"

definition operations :: "op_entry list \<Rightarrow> chef_operation_dto list" where
  "operations registry = map (\<lambda>entry. \<lparr>dto_id = op_id entry, dto_category = op_category entry,
     dto_args = map arg_dto (op_args entry)\<rparr>) registry"

definition fill_defaults :: "op_entry \<Rightarrow> (ustring \<rightharpoonup> ustring) \<Rightarrow> args" where
  "fill_defaults entry given =
     foldl (\<lambda>out a. out(arg_name a \<mapsto>
       (case given (arg_name a) of Some provided \<Rightarrow> provided | None \<Rightarrow> arg_default (arg_kind a))))
       Map.empty (op_args entry)"

definition unknown_operation :: "ustring \<Rightarrow> chef_error" where
  "unknown_operation i = Service_Error (Unknown_Operation i)"

section \<open>Lemmas\<close>

lemma REGISTRY_concat: "REGISTRY groups = concat groups"
proof -
  have "foldl (\<lambda>all g. all @ g) acc groups = acc @ concat groups" for acc
    by (induction groups arbitrary: acc) auto
  then show ?thesis by (simp add: REGISTRY_def)
qed

lemma find_op_Some: "find_op registry i = Some e \<Longrightarrow> e \<in> set registry \<and> op_id e = i"
  by (auto simp: find_op_def find_Some_iff)

lemma find_op_None: "find_op registry i = None \<longleftrightarrow> i \<notin> op_id ` set registry"
  by (auto simp: find_op_def find_None_iff)

text \<open>With distinct ids the lookup finds every entry of the registry.\<close>

lemma find_op_registered:
  "distinct (map op_id registry) \<Longrightarrow> e \<in> set registry \<Longrightarrow> find_op registry (op_id e) = Some e"
  by (induction registry) (auto simp: find_op_def)

text \<open>What the loop of \<open>fill_defaults\<close> computes, one lookup per registered argument.\<close>

lemma fill_loop:
  "distinct (map f xs) \<Longrightarrow> foldl (\<lambda>out a. out(f a \<mapsto> g a)) m xs k =
     (case List.find (\<lambda>a. f a = k) xs of Some a \<Rightarrow> Some (g a) | None \<Rightarrow> m k)"
proof (induction xs arbitrary: m)
  case (Cons x xs)
  have "List.find (\<lambda>a. f a = f x) xs = None" using Cons.prems by (simp add: find_None_iff image_iff) metis
  with Cons show ?case by (auto split: option.splits)
qed simp

lemma fill_defaults_lookup:
  assumes "distinct (map arg_name (op_args entry))" "a \<in> set (op_args entry)"
  shows "fill_defaults entry given (arg_name a) =
    Some (case given (arg_name a) of Some v \<Rightarrow> v | None \<Rightarrow> arg_default (arg_kind a))"
proof -
  have "distinct (map arg_name xs) \<Longrightarrow> a \<in> set xs \<Longrightarrow>
      List.find (\<lambda>b. arg_name b = arg_name a) xs = Some a" for xs
    by (induction xs) auto
  with assms show ?thesis by (simp add: fill_defaults_def fill_loop)
qed

lemma fill_defaults_dom: "dom (fill_defaults entry given) = arg_name ` set (op_args entry)"
proof -
  have "dom (foldl (\<lambda>out a. out(arg_name a \<mapsto> g a)) m xs) = dom m \<union> arg_name ` set xs"
    for g :: "arg_spec \<Rightarrow> ustring" and m xs
    by (induction xs arbitrary: m) auto
  then show ?thesis by (simp add: fill_defaults_def)
qed

lemma args_text_filled:
  assumes "distinct (map arg_name (op_args entry))" "a \<in> set (op_args entry)"
  shows "args_text (fill_defaults entry given) (arg_name a) dflt =
    (case given (arg_name a) of Some v \<Rightarrow> v | None \<Rightarrow> arg_default (arg_kind a))"
  by (simp add: args_text_def fill_defaults_lookup [OF assms])

text \<open>Entries that are well formed: no argument twice, every default of a choice among its options.\<close>

fun kind_ok :: "arg_kind \<Rightarrow> bool" where
  "kind_ok (Choice d options) \<longleftrightarrow> d \<in> set options"
| "kind_ok (Number n) \<longleftrightarrow> n \<le> u64_max"
| "kind_ok _ \<longleftrightarrow> True"

definition entry_ok :: "op_entry \<Rightarrow> bool" where
  "entry_ok e \<longleftrightarrow> op_category e \<noteq> [] \<and> distinct (map arg_name (op_args e)) \<and>
     list_all (\<lambda>a. kind_ok (arg_kind a)) (op_args e)"

definition returns :: "op_entry \<Rightarrow> bool" where
  "returns e \<longleftrightarrow> (\<forall>d a. op_run e d a \<noteq> Diverged)"

lemma returns_op [simp]: "returns (op i c ar r)"
  by (simp add: returns_def)

end
