(* ===== verification/Chef_Encoding.thy ===== *)
theory Chef_Encoding
  imports Chef_Base85 Chef_Spec
begin

text \<open>
  The first half of src-tauri/src/services/chef/ops/encoding.rs: Base64, Base32, Base58, Base62,
  Base85, hexadecimal, the number lists and percent encoding. The Base64 and Base32 engines (crates
  base64 and data-encoding) and Unicode upper-casing are parameters, in the record \<open>encoding_ext\<close>
  together with the character sets of encoding_rs that the second half uses.
\<close>

record encoding_ext =
  enc_b64 :: b64_engine
  base32_enc :: "bool \<Rightarrow> bool \<Rightarrow> bytes \<Rightarrow> ustring" \<comment> \<open>hex alphabet, padding\<close>
  base32_dec :: "bool \<Rightarrow> bool \<Rightarrow> bytes \<Rightarrow> ustring + bytes"
  str_to_uppercase :: "ustring \<Rightarrow> ustring"
  charset_for_label :: "bytes \<Rightarrow> ustring option"
  charset_enc :: "ustring \<Rightarrow> ustring \<Rightarrow> bytes \<times> bool" \<comment> \<open>encoding, text; bytes and had-errors\<close>
  charset_dec :: "ustring \<Rightarrow> bytes \<Rightarrow> ustring \<times> bool"

section \<open>Base64 and Base32\<close>

definition base64_encode :: "encoding_ext \<Rightarrow> chef_data \<Rightarrow> args \<Rightarrow> chef_data chef_result" where
  "base64_encode ext data a =
     Inr (from_text (b64_encode (enc_b64 ext) (data_bytes data)
       (bool_of a (lit ''urlSafe'')) (bool_of a (lit ''noWrap''))))"

definition base64_decode :: "encoding_ext \<Rightarrow> chef_data \<Rightarrow> args \<Rightarrow> chef_data chef_result" where
  "base64_decode ext data a =
     rbind (chef_text data) (\<lambda>t.
       rmap chef_new (b64_decode (enc_b64 ext) t (bool_of a (lit ''urlSafe'')) (bool_of a (lit ''strict''))))"

definition base32_encode :: "encoding_ext \<Rightarrow> chef_data \<Rightarrow> args \<Rightarrow> chef_data chef_result" where
  "base32_encode ext data a =
     Inr (from_text (base32_enc ext (bool_of a (lit ''hexAlphabet'')) (bool_of a (lit ''pad'')) (data_bytes data)))"

definition base32_decode :: "encoding_ext \<Rightarrow> chef_data \<Rightarrow> args \<Rightarrow> chef_data chef_result" where
  "base32_decode ext data a =
     rbind (chef_text data) (\<lambda>t.
       let body = trim_end_with (\<lambda>c. c = ch CHR ''='') (str_to_uppercase ext t) in
       rmap_err (\<lambda>e. Encoding_Error (Base32_Failed e))
         (rmap chef_new (base32_dec ext (bool_of a (lit ''hexAlphabet'')) False (utf8 body))))"

section \<open>Base58 and Base62\<close>

definition RIPPLE_ALPHABET :: ustring where
  "RIPPLE_ALPHABET = lit ''rpshnaf39b2UD567GHJTLKOMICjaEVWQBkclMXY89gzxqesAtuivwdsSnoyfFNPZ''"

definition BASE58_ALPHABETS :: "(ustring \<times> ustring) list" where
  "BASE58_ALPHABETS =
     [(lit ''bitcoin'', lit ''123456789ABCDEFGHJKLMNPQRSTUVWXYZabcdefghijkmnopqrstuvwxyz''),
      (lit ''ripple'', RIPPLE_ALPHABET),
      (lit ''flickr'', lit ''123456789abcdefghijkmnopqrstuvwxyzABCDEFGHJKLMNPQRSTUVWXYZ'')]"

definition BASE62_ALPHABET :: ustring where
  "BASE62_ALPHABET = lit ''0123456789ABCDEFGHIJKLMNOPQRSTUVWXYZabcdefghijklmnopqrstuvwxyz''"

definition RADIX_MAX_INPUT :: nat where
  "RADIX_MAX_INPUT = 64 * 1024"

definition radix_guard :: "chef_data \<Rightarrow> ustring \<Rightarrow> unit chef_result" where
  "radix_guard data what =
     (if RADIX_MAX_INPUT < chef_len data
      then Inl (Encoding_Error (Radix_Input_Too_Long what (chef_len data))) else Inr ())"

text \<open>What the callers name: \<open>\<langle>name\<rangle> encode\<close> and \<open>\<langle>name\<rangle> decode\<close>.\<close>

definition base58_alphabet :: "args \<Rightarrow> ustring chef_result" where
  "base58_alphabet a =
     (let name = args_choice a (lit ''alphabet'') (lit ''bitcoin'') in
      ok_or (map_option snd (List.find (\<lambda>(n, _). n = name) BASE58_ALPHABETS))
        (Encoding_Error (Unknown_Base58_Alphabet name)))"

text \<open>The encoder's loop has no bound of its own; \<open>base_encode_returns\<close> shows that it ends.\<close>

definition encode_outcome :: "bytes \<Rightarrow> ustring \<Rightarrow> chef_outcome" where
  "encode_outcome bs alphabet =
     (case radix_encode bs alphabet of None \<Rightarrow> Diverged | Some s \<Rightarrow> Returned (Inr (from_text s)))"

definition base58_encode :: "chef_data \<Rightarrow> args \<Rightarrow> chef_outcome" where
  "base58_encode data a =
     (case rbind (radix_guard data (lit ''Base58 encode'')) (\<lambda>_. base58_alphabet a) of
        Inl e \<Rightarrow> Returned (Inl e)
      | Inr alphabet \<Rightarrow> encode_outcome (data_bytes data) alphabet)"

definition base58_decode :: "chef_data \<Rightarrow> args \<Rightarrow> chef_data chef_result" where
  "base58_decode data a =
     rbind (base58_alphabet a) (\<lambda>alphabet.
     rbind (radix_guard data (lit ''Base58 decode'')) (\<lambda>_.
     rbind (chef_text data) (\<lambda>t. rmap chef_new (radix_decode t alphabet))))"

definition base62_encode :: "chef_data \<Rightarrow> args \<Rightarrow> chef_outcome" where
  "base62_encode data a =
     (case radix_guard data (lit ''Base62 encode'') of
        Inl e \<Rightarrow> Returned (Inl e)
      | Inr _ \<Rightarrow> encode_outcome (data_bytes data) BASE62_ALPHABET)"

definition base62_decode :: "chef_data \<Rightarrow> args \<Rightarrow> chef_data chef_result" where
  "base62_decode data a =
     rbind (radix_guard data (lit ''Base62 decode'')) (\<lambda>_.
     rbind (chef_text data) (\<lambda>t. rmap chef_new (radix_decode t BASE62_ALPHABET)))"

section \<open>Base85 and hexadecimal\<close>

definition base85_encode :: "chef_data \<Rightarrow> args \<Rightarrow> chef_data chef_result" where
  "base85_encode data a =
     rbind (choice_in a (lit ''style'') (lit ''adobe'') BASE85_STYLES) (\<lambda>style.
       rmap from_text (a85_encode (data_bytes data) style (bool_of a (lit ''delimiters''))))"

definition base85_decode :: "chef_data \<Rightarrow> args \<Rightarrow> chef_data chef_result" where
  "base85_decode data a =
     rbind (choice_in a (lit ''style'') (lit ''adobe'') BASE85_STYLES) (\<lambda>style.
     rbind (chef_text data) (\<lambda>t. rmap chef_new (a85_decode t style)))"

definition hex_encode_op :: "chef_data \<Rightarrow> args \<Rightarrow> chef_data chef_result" where
  "hex_encode_op data a =
     Inr (from_text (hex_encode (data_bytes data) (bool_of a (lit ''uppercase''))
       (args_text a (lit ''separator'') [])))"

definition hex_decode_op :: "chef_data \<Rightarrow> args \<Rightarrow> chef_data chef_result" where
  "hex_decode_op data a = rbind (chef_text data) (\<lambda>t. rmap chef_new (hex_decode t))"

section \<open>Number lists\<close>

definition radix_width :: "nat \<Rightarrow> nat" where
  "radix_width radix = (if radix = 2 then 8 else if radix = 8 then 3 else if radix = 16 then 2 else 0)"

definition show_radix :: "nat \<Rightarrow> u8 \<Rightarrow> ustring" where
  "show_radix radix b =
     pad_left (radix_width radix)
       (to_digits (if radix = 2 \<or> radix = 8 \<or> radix = 16 then radix else 10) (unat b))"

definition to_radix :: "chef_data \<Rightarrow> nat \<Rightarrow> ustring \<Rightarrow> chef_data" where
  "to_radix data radix separator = from_text (join separator (map (show_radix radix) (data_bytes data)))"

text \<open>The loop over the tokens, \<open>k\<close> bytes read so far.\<close>

fun radix_tokens :: "nat \<Rightarrow> nat \<Rightarrow> ustring list \<Rightarrow> bytes chef_result" where
  "radix_tokens radix k [] = Inr []"
| "radix_tokens radix k (token # ts) =
     (let trimmed = trim token in
      if trimmed = [] then radix_tokens radix k ts
      else rbind (rmap_err (\<lambda>e. Encoding_Error (Not_Radix_Byte (k + 1) trimmed radix e))
                   (parse_unsigned u32_max radix trimmed)) (\<lambda>value.
             if 255 < value then Inl (Encoding_Error (Byte_Overflow trimmed value))
             else rmap (\<lambda>out. of_nat value # out) (radix_tokens radix (k + 1) ts)))"

definition radix_split :: "ustring \<Rightarrow> ustring \<Rightarrow> ustring list" where
  "radix_split separator t =
     (if separator = [92, 115] \<or> separator = [] then split_whitespace t else split_str separator t)"

definition from_radix :: "chef_data \<Rightarrow> nat \<Rightarrow> ustring \<Rightarrow> chef_data chef_result" where
  "from_radix data radix separator =
     rbind (chef_text data) (\<lambda>t. rmap chef_new (radix_tokens radix 0 (radix_split separator t)))"

definition separator_arg :: "args \<Rightarrow> ustring" where
  "separator_arg a = args_text a (lit ''separator'') [32]"

definition decimal_encode :: "chef_data \<Rightarrow> args \<Rightarrow> chef_data chef_result" where
  "decimal_encode data a = Inr (to_radix data 10 (separator_arg a))"

definition decimal_decode :: "chef_data \<Rightarrow> args \<Rightarrow> chef_data chef_result" where
  "decimal_decode data a = from_radix data 10 (separator_arg a)"

definition octal_encode :: "chef_data \<Rightarrow> args \<Rightarrow> chef_data chef_result" where
  "octal_encode data a = Inr (to_radix data 8 (separator_arg a))"

definition octal_decode :: "chef_data \<Rightarrow> args \<Rightarrow> chef_data chef_result" where
  "octal_decode data a = from_radix data 8 (separator_arg a)"

definition binary_encode :: "chef_data \<Rightarrow> args \<Rightarrow> chef_data chef_result" where
  "binary_encode data a = Inr (to_radix data 2 (separator_arg a))"

definition binary_decode :: "chef_data \<Rightarrow> args \<Rightarrow> chef_data chef_result" where
  "binary_decode data a = from_radix data 2 (separator_arg a)"

section \<open>Percent encoding\<close>

definition is_unreserved :: "rchar \<Rightarrow> bool" where
  "is_unreserved c \<longleftrightarrow> is_ascii_alphanumeric c \<or> c \<in> set (lit ''-_.~'')"

definition is_js_unreserved :: "rchar \<Rightarrow> bool" where
  "is_js_unreserved c \<longleftrightarrow> is_unreserved c \<or> c \<in> set [33, 39, 40, 41, 42, 45]"

definition url_char :: "bool \<Rightarrow> bool \<Rightarrow> rchar \<Rightarrow> ustring" where
  "url_char component uppercase c =
     (if (if component then is_js_unreserved c else is_unreserved c) then [c]
      else concat (map (\<lambda>b. 37 # (if uppercase then map to_ascii_upper (hex2 b) else hex2 b)) (utf8_char c)))"

definition url_encode :: "chef_data \<Rightarrow> args \<Rightarrow> chef_data chef_result" where
  "url_encode data a =
     rbind (chef_text data) (\<lambda>t.
       Inr (from_text (concat (map
         (url_char (bool_of a (lit ''component'')) (bool_of a (lit ''uppercase''))) t))))"

text \<open>The decoder walks over bytes; a \<open>%\<close> that is the last byte is kept.\<close>

fun url_bytes :: "bool \<Rightarrow> bytes \<Rightarrow> bytes chef_result" where
  "url_bytes plus_sp [] = Inr []"
| "url_bytes plus_sp (b # rest) =
     (if b = 37 \<and> rest \<noteq> [] then
        (case rest of
           h # l # tail \<Rightarrow>
             (case (to_digit 16 (unat h), to_digit 16 (unat l)) of
                (Some x, Some y) \<Rightarrow> rmap (\<lambda>out. of_nat (x * 16 + y) # out) (url_bytes plus_sp tail)
              | _ \<Rightarrow> rmap (\<lambda>out. 37 # out) (url_bytes plus_sp rest))
         | _ \<Rightarrow> Inl (Encoding_Error Url_Truncated))
      else rmap (\<lambda>out. (if b = 43 \<and> plus_sp then 32 else b) # out) (url_bytes plus_sp rest))"

definition url_decode :: "chef_data \<Rightarrow> args \<Rightarrow> chef_data chef_result" where
  "url_decode data a =
     rbind (chef_text data) (\<lambda>t.
     rbind (url_bytes (bool_of a (lit ''plusAsSpace'')) (utf8 t)) (\<lambda>out.
       if from_utf8 out = None then Inl (Encoding_Error Url_Not_Utf8) else Inr (chef_new out)))"

section \<open>Round trips\<close>

text \<open>A string of known characters is a valid one.\<close>

lemma valid_join: "valid_string sep \<Longrightarrow> (\<And>w. w \<in> set ws \<Longrightarrow> valid_string w) \<Longrightarrow> valid_string (join sep ws)"
  by (induction sep ws rule: join.induct) auto

lemma digits_of_length: "n < r ^ k \<Longrightarrow> length (digits_of r n) \<le> k"
proof (induction k arbitrary: n)
  case 0
  then show ?case by (simp add: digits_of.simps)
next
  case (Suc k)
  show ?case
  proof (cases "r < 2 \<or> n = 0")
    case True
    then show ?thesis by (auto simp: digits_of.simps [of r n])
  next
    case False
    then have "n div r < r ^ k" using Suc.prems by (simp add: less_mult_imp_div_less mult.commute)
    with Suc.IH False show ?thesis by (simp add: digits_of.simps [of r n])
  qed
qed

lemma radix_encode_length:
  assumes "16 \<le> length alphabet" "length alphabet \<le> 256" "radix_encode bs alphabet = Some s"
  shows "length s \<le> 2 * length bs"
proof -
  obtain k cs where bs: "bs = replicate k 0 @ cs" "no_lead cs" using leading_zeros by metis
  have "be_value cs < 256 ^ length cs" by (rule be_value_bound)
  also have "(256 :: nat) ^ length cs = 16 ^ (2 * length cs)" by (simp add: power_mult)
  also have "\<dots> \<le> length alphabet ^ (2 * length cs)" using assms(1) by (rule power_mono) simp
  finally have "length (digits_of (length alphabet) (be_value cs)) \<le> 2 * length cs"
    by (rule digits_of_length)
  moreover have "2 \<le> length alphabet" using assms(1) by linarith
  ultimately show ?thesis
    using radix_encode_eq [OF _ assms(2) bs(2), of k] assms(3) bs(1) by auto
qed

text \<open>The alphabets that decode what they encode; \<open>ripple\<close> is not one of them.\<close>

lemma alphabets:
  "distinct (lit ''123456789ABCDEFGHJKLMNPQRSTUVWXYZabcdefghijkmnopqrstuvwxyz'')"
  "distinct (lit ''123456789abcdefghijkmnopqrstuvwxyzABCDEFGHJKLMNPQRSTUVWXYZ'')"
  "distinct BASE62_ALPHABET"
  by code_simp+

lemma encode_outcome_decode:
  assumes al: "16 \<le> length alphabet" "length alphabet \<le> 128" "distinct alphabet" "ascii alphabet"
  shows "\<exists>s. encode_outcome bs alphabet = Returned (Inr (from_text s)) \<and> ascii s \<and>
    length s \<le> 2 * length bs \<and> radix_decode s alphabet = Inr bs"
proof -
  obtain s where s: "radix_encode bs alphabet = Some s" "set s \<subseteq> set alphabet"
    using radix_encode_total [of alphabet bs] al by auto
  moreover have "ascii s" using s(2) al(4) by (auto simp: ascii_set)
  moreover have "length s \<le> 2 * length bs" using radix_encode_length [of alphabet] al s(1) by simp
  moreover have "radix_decode s alphabet = Inr bs"
    using radix_decode_encode [of alphabet] al s(1) by simp
  ultimately show ?thesis by (auto simp: encode_outcome_def)
qed

lemma base62_decode_encode:
  assumes "2 * chef_len d \<le> RADIX_MAX_INPUT"
  shows "\<exists>e. base62_encode d a = Returned (Inr e) \<and> base62_decode e b = Inr d"
proof -
  obtain s where s: "encode_outcome (data_bytes d) BASE62_ALPHABET = Returned (Inr (from_text s))" "ascii s"
    "length s \<le> 2 * length (data_bytes d)" "radix_decode s BASE62_ALPHABET = Inr (data_bytes d)"
    using encode_outcome_decode [of BASE62_ALPHABET "data_bytes d"] alphabets(3)
    by (auto simp: BASE62_ALPHABET_def)
  have "base62_encode d a = Returned (Inr (from_text s))"
    using assms s(1) by (simp add: base62_encode_def radix_guard_def)
  moreover have "base62_decode (from_text s) b = Inr d"
    using assms s by (simp add: base62_decode_def radix_guard_def chef_len_def length_utf8_ascii ascii_valid)
  ultimately show ?thesis by blast
qed

lemma base58_decode_encode:
  assumes "2 * chef_len d \<le> RADIX_MAX_INPUT" "a (lit ''alphabet'') = Some al" "b (lit ''alphabet'') = Some al"
    and "al = lit ''bitcoin'' \<or> al = lit ''flickr''"
  shows "\<exists>e. base58_encode d a = Returned (Inr e) \<and> base58_decode e b = Inr d"
proof -
  obtain alphabet where alphabet: "base58_alphabet a = Inr alphabet" "16 \<le> length alphabet"
    "length alphabet \<le> 128" "distinct alphabet" "ascii alphabet"
    using assms(2,4) alphabets(1,2)
    by (auto simp: base58_alphabet_def BASE58_ALPHABETS_def args_choice_def)
  have same: "base58_alphabet b = Inr alphabet"
    using alphabet(1) assms(2,3) by (simp add: base58_alphabet_def args_choice_def)
  obtain s where s: "encode_outcome (data_bytes d) alphabet = Returned (Inr (from_text s))" "ascii s"
    "length s \<le> 2 * length (data_bytes d)" "radix_decode s alphabet = Inr (data_bytes d)"
    using encode_outcome_decode alphabet by blast
  have "base58_encode d a = Returned (Inr (from_text s))"
    using assms(1) s(1) alphabet(1) by (simp add: base58_encode_def radix_guard_def)
  moreover have "base58_decode (from_text s) b = Inr d"
    using assms(1) s same
    by (simp add: base58_decode_def radix_guard_def chef_len_def length_utf8_ascii ascii_valid)
  ultimately show ?thesis by blast
qed

text \<open>
  The \<open>ripple\<close> alphabet of the code has 64 characters and repeats six of them, so the digit 27 is
  written as the character of digit 5 and read back as 5.
\<close>

lemma ripple_loses:
  "encode_outcome [27] RIPPLE_ALPHABET = Returned (Inr (from_text (lit ''a'')))"
  "radix_decode (lit ''a'') RIPPLE_ALPHABET = Inr [5]"
proof -
  have r: "length RIPPLE_ALPHABET = 64" "RIPPLE_ALPHABET ! 27 = 97" "RIPPLE_ALPHABET ! 0 = 114"
    "position RIPPLE_ALPHABET 97 = Some 5"
    by (simp_all add: RIPPLE_ALPHABET_def)
  have "digits_of 64 27 = [27]" by (simp add: digits_of.simps)
  moreover have "be_value [27] = 27" by (simp add: be_value_def)
  ultimately show "encode_outcome [27] RIPPLE_ALPHABET = Returned (Inr (from_text (lit ''a'')))"
    using r radix_encode_eq [of RIPPLE_ALPHABET "[27]" 0]
    by (simp add: encode_outcome_def no_lead_def)
  show "radix_decode (lit ''a'') RIPPLE_ALPHABET = Inr [5]"
    using r by (simp add: radix_decode_def mul_add_def carry_bytes.simps)
qed

lemma base85_decode_encode:
  assumes "base85_encode d a = Inr e" "a (lit ''style'') = b (lit ''style'')"
    and "a (lit ''style'') = Some (lit ''z85'') \<Longrightarrow> 4 dvd chef_len d"
  shows "base85_decode e b = Inr d"
proof -
  obtain style t where style: "choice_in a (lit ''style'') (lit ''adobe'') BASE85_STYLES = Inr style"
    and t: "a85_encode (data_bytes d) style (bool_of a (lit ''delimiters'')) = Inr t" and e: "e = from_text t"
    using assms(1) unfolding base85_encode_def by (auto simp: result_inv simp del: lit_Cons)
  have "style = args_choice a (lit ''style'') (lit ''adobe'')"
    using style by (simp add: choice_in_def Let_def del: lit_Cons split: if_splits)
  then have "style = lit ''z85'' \<Longrightarrow> 4 dvd length (data_bytes d)"
    using assms(3) by (auto simp: args_choice_def chef_len_def split: option.splits)
  with t have "a85_decode t style = Inr (data_bytes d)" by (rule a85_decode_encode)
  moreover have "valid_string t" using a85_encode_ascii [OF t] by (rule ascii_valid)
  moreover have "choice_in b (lit ''style'') (lit ''adobe'') BASE85_STYLES = Inr style"
    using style assms(2) by (simp add: choice_in_def args_choice_def del: lit_Cons)
  ultimately show ?thesis
    unfolding base85_decode_def e by (simp del: lit_Cons)
qed

lemma hex_op_decode_encode:
  assumes "\<And>c. c \<in> set (args_text a (lit ''separator'') []) \<Longrightarrow> is_whitespace c"
    and "valid_string (args_text a (lit ''separator'') [])"
  shows "rbind (hex_encode_op d a) (\<lambda>e. hex_decode_op e b) = Inr d"
proof -
  let ?sep = "args_text a (lit ''separator'') []" and ?up = "bool_of a (lit ''uppercase'')"
  have "valid_string (hex_encode (data_bytes d) ?up ?sep)"
    unfolding hex_encode_bytes using assms(2) hex_byte_props(5)
    by (intro valid_join) (auto simp: ascii_set intro!: ascii_valid)
  then show ?thesis
    unfolding hex_encode_op_def hex_decode_op_def using hex_decode_encode [OF assms(1)]
    by (simp del: lit_Cons)
qed

lemma base64_op_decode_encode:
  assumes "b64_laws (enc_b64 ext)" "bool_of b (lit ''strict'') \<Longrightarrow> bool_of b (lit ''urlSafe'') = bool_of a (lit ''urlSafe'')"
  shows "rbind (base64_encode ext d a) (\<lambda>e. base64_decode ext e b) = Inr d"
  using b64_decode_encode [OF assms] b64_encode_ascii [OF assms(1), THEN ascii_valid]
  by (simp add: base64_encode_def base64_decode_def del: lit_Cons)

text \<open>Number lists: the separator must not start with a digit and must not be the two characters \<open>\s\<close>.\<close>

definition list_radix :: "nat \<Rightarrow> bool" where
  "list_radix radix \<longleftrightarrow> radix = 2 \<or> radix = 8 \<or> radix = 10 \<or> radix = 16"

lemma show_radix_digits: "list_radix radix \<Longrightarrow> show_radix radix b = pad_left (radix_width radix) (to_digits radix (unat b))"
  by (auto simp: list_radix_def show_radix_def)

lemma list_radix_bounds: "list_radix radix \<Longrightarrow> 2 \<le> radix \<and> radix \<le> 36"
  by (auto simp: list_radix_def)

lemma radix_tokens_show:
  assumes "list_radix radix"
  shows "radix_tokens radix k (map (show_radix radix) bs) = Inr bs"
proof (induction bs arbitrary: k)
  case (Cons b bs)
  let ?t = "show_radix radix b"
  have r: "2 \<le> radix" "radix \<le> 36" using list_radix_bounds [OF assms] by auto
  have word: "is_word ?t" unfolding show_radix_digits [OF assms] using r by (rule pad_left_word)
  then have "trim ?t = ?t" "?t \<noteq> []" by (auto simp: is_word_def intro: trim_no_ws)
  moreover have "parse_unsigned u32_max radix ?t = Inr (unat b)"
    unfolding show_radix_digits [OF assms]
    using r unat_u8_lt [of b] by (intro parse_unsigned_pad) (auto simp: u32_max_def)
  ultimately show ?case using Cons unat_u8_lt [of b] by (simp add: Let_def)
qed simp

lemma number_list_decode_encode:
  assumes "list_radix radix" "valid_string sep" "sep \<noteq> []" "sep \<noteq> [92, 115]"
    and "\<not> is_ascii_alphanumeric (hd sep)"
  shows "from_radix (to_radix d radix sep) radix sep = Inr d"
proof -
  have r: "2 \<le> radix" "radix \<le> 36" using list_radix_bounds [OF assms(1)] by auto
  obtain c p where sep: "sep = c # p" using assms(3) by (cases sep) auto
  let ?ws = "map (show_radix radix) (data_bytes d)"
  have chars: "x < 128 \<and> is_ascii_alphanumeric x" if "w \<in> set ?ws" "x \<in> set w" for w x
    using that digits_not_ws [OF r] by (auto simp: show_radix_digits [OF assms(1)])
  then have "ascii w" if "w \<in> set ?ws" for w using that by (auto simp: ascii_set)
  then have "valid_string (join sep ?ws)"
    using assms(2) by (intro valid_join) (auto intro: ascii_valid)
  moreover have "radix_tokens radix 0 (radix_split sep (join sep ?ws)) = Inr (data_bytes d)"
  proof (cases "data_bytes d = []")
    case True
    then show ?thesis
      using assms(4) sep
      by (auto simp: radix_split_def split_str_def split_ne.simps)
  next
    case False
    then have "split_str (c # p) (join (c # p) ?ws) = ?ws"
      using chars assms(5) sep by (intro split_str_join) fastforce+
    then show ?thesis
      using assms(4) sep radix_tokens_show [OF assms(1)] by (auto simp: radix_split_def)
  qed
  ultimately show ?thesis by (simp add: from_radix_def to_radix_def)
qed

lemma number_list_ops:
  assumes "a (lit ''separator'') = b (lit ''separator'')" "valid_string (separator_arg a)"
    and "separator_arg a \<noteq> []" "separator_arg a \<noteq> [92, 115]" "\<not> is_ascii_alphanumeric (hd (separator_arg a))"
  shows "rbind (decimal_encode d a) (\<lambda>e. decimal_decode e b) = Inr d"
    "rbind (octal_encode d a) (\<lambda>e. octal_decode e b) = Inr d"
    "rbind (binary_encode d a) (\<lambda>e. binary_decode e b) = Inr d"
proof -
  have "separator_arg b = separator_arg a"
    using assms(1) by (simp add: separator_arg_def args_text_def)
  then show "rbind (decimal_encode d a) (\<lambda>e. decimal_decode e b) = Inr d"
    "rbind (octal_encode d a) (\<lambda>e. octal_decode e b) = Inr d"
    "rbind (binary_encode d a) (\<lambda>e. binary_decode e b) = Inr d"
    using number_list_decode_encode [OF _ assms(2-5)]
    by (simp_all add: decimal_encode_def decimal_decode_def octal_encode_def octal_decode_def
        binary_encode_def binary_decode_def list_radix_def)
qed

text \<open>Percent encoding.\<close>

lemma hex_char_to_digit: "d < 16 \<Longrightarrow> to_digit 16 (hex_char up d) = Some d"
  using hex_char_props(1,2) [of d up] by (auto simp: hexdigit_to_digit hex_digit_def split: option.splits)

lemma unat_hex_char: "d < 16 \<Longrightarrow> unat (of_nat (hex_char up d) :: u8) = hex_char up d"
  using hex_char_props(5) [of d up] by (simp add: unat_of_nat_u8)

definition url_keep :: "bool \<Rightarrow> rchar \<Rightarrow> bool" where
  "url_keep component c \<longleftrightarrow> (if component then is_js_unreserved c else is_unreserved c)"

lemma url_char_eq:
  "url_char component up c =
     (if url_keep component c then [c] else concat (map (\<lambda>b. 37 # hex_byte up b) (utf8_char c)))"
proof -
  have "(\<lambda>b. 37 # (if up then map to_ascii_upper (hex2 b) else hex2 b)) = (\<lambda>b. 37 # hex_byte up b)"
    by (rule ext) (simp add: hex2_digits hex_byte_def hex_char_def)
  then show ?thesis unfolding url_char_def url_keep_def by (simp only:)
qed

lemma url_keep_ascii: "url_keep component c \<Longrightarrow> c < 128 \<and> c \<noteq> 37 \<and> c \<noteq> 43"
  by (auto simp: url_keep_def is_js_unreserved_def is_unreserved_def char_class_defs split: if_splits)

lemma url_hex_ascii: "ascii (concat (map (\<lambda>b. 37 # hex_byte up b) bs))"
  by (induction bs) (auto simp: ascii_set hex_byte_props(5))

lemma url_bytes_hex:
  "url_bytes plus_sp (concat (map (\<lambda>b. 37 # map of_nat (hex_byte up b)) bs) @ rest) =
     rmap (\<lambda>out. bs @ out) (url_bytes plus_sp rest)"
proof (induction bs)
  case Nil
  then show ?case by (cases "url_bytes plus_sp rest") auto
next
  case (Cons b bs)
  have "(of_nat (unat b div 16 * 16 + unat b mod 16) :: u8) = b"
    unfolding nibbles by simp
  with Cons show ?case
    by (cases "url_bytes plus_sp rest")
      (simp_all add: hex_byte_def unat_hex_char hex_char_to_digit nibbles(1,2))
qed

lemma url_char_bytes:
  assumes "is_scalar c"
  shows "url_bytes plus_sp (utf8 (url_char component up c) @ rest) =
    rmap (\<lambda>out. utf8_char c @ out) (url_bytes plus_sp rest)"
proof (cases "url_keep component c")
  case True
  then have keep: "c < 128" "c \<noteq> 37" "c \<noteq> 43" using url_keep_ascii by auto
  then have "(of_nat c :: u8) \<noteq> 37" "(of_nat c :: u8) \<noteq> 43"
    using of_nat_u8_eq_iff [of c 37] of_nat_u8_eq_iff [of c 43] by simp_all
  with True keep show ?thesis
    by (simp add: url_char_eq utf8_Cons utf8_char_def)
next
  case False
  then have "utf8 (url_char component up c) = concat (map (\<lambda>b. 37 # map of_nat (hex_byte up b)) (utf8_char c))"
    by (simp add: url_char_eq utf8_ascii url_hex_ascii map_concat comp_def)
  then show ?thesis by (simp add: url_bytes_hex)
qed

lemma url_bytes_encode:
  "valid_string s \<Longrightarrow> url_bytes plus_sp (utf8 (concat (map (url_char component up) s))) = Inr (utf8 s)"
  by (induction s) (simp_all add: url_char_bytes utf8_Cons)

lemma url_text_ascii: "ascii (concat (map (url_char component up) s))"
  by (induction s) (auto simp: url_char_eq url_hex_ascii dest: url_keep_ascii)

lemma url_decode_encode:
  assumes "is_utf8 d"
  shows "rbind (url_encode d a) (\<lambda>e. url_decode e b) = Inr d"
proof -
  obtain s where s: "valid_string s" "d = from_text s" using assms by (auto simp: is_utf8_iff)
  let ?t = "concat (map (url_char (bool_of a (lit ''component'')) (bool_of a (lit ''uppercase''))) s)"
  have "valid_string ?t"
    using url_text_ascii by (rule ascii_valid)
  with s show ?thesis
    by (simp add: from_text_def [symmetric] url_encode_def url_decode_def url_bytes_encode del: lit_Cons)
qed

end
