(* ===== verification/Chef_Escapes.thy ===== *)
theory Chef_Escapes
  imports Chef_Encoding
begin

text \<open>
  The second half of src-tauri/src/services/chef/ops/encoding.rs: HTML entities, Unicode escapes,
  character sets (the encodings of encoding_rs are parameters), Morse code, and the table of the
  encoding operations.
\<close>

section \<open>HTML entities\<close>

definition NAMED_ENTITIES :: "(ustring \<times> ustring) list" where
  "NAMED_ENTITIES = [
     (lit ''amp'', [38]), (lit ''lt'', [60]), (lit ''gt'', [62]), (lit ''quot'', [34]),
     (lit ''apos'', [39]), (lit ''nbsp'', [160]), (lit ''copy'', [169]), (lit ''reg'', [174]),
     (lit ''trade'', [8482]), (lit ''hellip'', [8230]), (lit ''mdash'', [8212]), (lit ''ndash'', [8211]),
     (lit ''lsquo'', [8216]), (lit ''rsquo'', [8217]), (lit ''ldquo'', [8220]), (lit ''rdquo'', [8221]),
     (lit ''times'', [215]), (lit ''divide'', [247]), (lit ''middot'', [183]), (lit ''bull'', [8226]),
     (lit ''deg'', [176]), (lit ''plusmn'', [177]), (lit ''frac12'', [189]), (lit ''laquo'', [171]),
     (lit ''raquo'', [187]), (lit ''euro'', [8364]), (lit ''pound'', [163]), (lit ''yen'', [165]),
     (lit ''sect'', [167]), (lit ''para'', [182]), (lit ''dagger'', [8224]), (lit ''permil'', [8240]),
     (lit ''larr'', [8592]), (lit ''rarr'', [8594]), (lit ''uarr'', [8593]), (lit ''darr'', [8595]),
     (lit ''infin'', [8734]), (lit ''ne'', [8800]), (lit ''le'', [8804]), (lit ''ge'', [8805]),
     (lit ''alpha'', [945]), (lit ''beta'', [946]), (lit ''gamma'', [947]), (lit ''delta'', [948]),
     (lit ''pi'', [960]), (lit ''sigma'', [963]), (lit ''omega'', [969]), (lit ''mu'', [956]),
     (lit ''lambda'', [955])]"

definition named_entity :: "rchar \<Rightarrow> ustring option" where
  "named_entity c =
     (if c = 38 then Some (lit ''amp'') else if c = 60 then Some (lit ''lt'')
      else if c = 62 then Some (lit ''gt'') else if c = 34 then Some (lit ''quot'')
      else if c = 39 then Some (lit ''apos'') else None)"

definition entity_dec :: "rchar \<Rightarrow> ustring" where
  "entity_dec c = 38 # 35 # show_dec c @ [59]"

definition entity_hex :: "rchar \<Rightarrow> ustring" where
  "entity_hex c = 38 # 35 # 120 # to_digits 16 c @ [59]"

text \<open>One character in a style; \<open>named\<close> and \<open>all-non-ascii\<close> agree, as in the code.\<close>

definition html_char :: "ustring \<Rightarrow> rchar \<Rightarrow> ustring chef_result" where
  "html_char style c =
     (if style = lit ''named'' then
        Inr (case named_entity c of
               Some entity \<Rightarrow> 38 # entity @ [59]
             | None \<Rightarrow> if \<not> c < 128 then entity_dec c else [c])
      else if style = lit ''decimal'' then
        Inr (if is_ascii_alphanumeric c \<or> c \<in> {32, 10, 9} then [c] else entity_dec c)
      else if style = lit ''hex'' then
        Inr (if is_ascii_alphanumeric c \<or> c \<in> {32, 10, 9} then [c] else entity_hex c)
      else if style = lit ''all-non-ascii'' then
        Inr (case named_entity c of
               Some entity \<Rightarrow> 38 # entity @ [59]
             | None \<Rightarrow> if c < 128 then [c] else entity_dec c)
      else Inl (Encoding_Error (Unknown_Entity_Style style)))"

definition html_entity_encode :: "chef_data \<Rightarrow> args \<Rightarrow> chef_data chef_result" where
  "html_entity_encode data a =
     (let style = args_choice a (lit ''style'') (lit ''named'') in
      rbind (chef_text data) (\<lambda>t.
      rbind (rmapM (html_char style) t) (\<lambda>out. Inr (from_text (concat out)))))"

definition opt_of :: "'e + 'a \<Rightarrow> 'a option" where
  "opt_of r = (case r of Inl _ \<Rightarrow> None | Inr x \<Rightarrow> Some x)"

definition decode_entity :: "ustring \<Rightarrow> ustring option" where
  "decode_entity entity =
     (case (case strip_prefix [35, 120] entity of Some h \<Rightarrow> Some h | None \<Rightarrow> strip_prefix [35, 88] entity) of
        Some hex \<Rightarrow>
          map_option (\<lambda>c. [c]) (Option.bind (opt_of (parse_unsigned u32_max 16 hex)) char_from_u32)
      | None \<Rightarrow>
          (case strip_prefix [35] entity of
             Some dec \<Rightarrow>
               map_option (\<lambda>c. [c]) (Option.bind (opt_of (parse_unsigned u32_max 10 dec)) char_from_u32)
           | None \<Rightarrow> map_option snd (List.find (\<lambda>(name, _). name = entity) NAMED_ENTITIES)))"

text \<open>\<open>split_once [38]\<close> is the search for \<open>&\<close>; the entity ends at the next \<open>;\<close>.\<close>

function decode_entities :: "ustring \<Rightarrow> ustring" where
  "decode_entities rest =
     (case split_once [38] rest of
        None \<Rightarrow> rest
      | Some (before, tail) \<Rightarrow>
          before @
          (case split_once [59] tail of
             Some (entity, after) \<Rightarrow>
               (case decode_entity entity of
                  Some t \<Rightarrow> t @ decode_entities after
                | None \<Rightarrow> 38 # decode_entities tail)
           | None \<Rightarrow> 38 # decode_entities tail))"
  by pat_completeness auto
termination
  by (relation "measure length") (auto dest!: split_once_Some)

declare decode_entities.simps [simp del]

definition html_entity_decode :: "chef_data \<Rightarrow> args \<Rightarrow> chef_data chef_result" where
  "html_entity_decode data a = rbind (chef_text data) (\<lambda>t. Inr (from_text (decode_entities t)))"

section \<open>Unicode escapes\<close>

definition hex4 :: "nat \<Rightarrow> ustring" where
  "hex4 n = pad_left 4 (to_digits 16 n)"

definition escape_char :: "bool \<Rightarrow> rchar \<Rightarrow> ustring" where
  "escape_char non_ascii_only c =
     (let needs_escape = (\<not> c < 128 \<or> c = 92 \<or> c < 0x20) in
      if \<not> non_ascii_only \<or> needs_escape then
        if 0xFFFF < c then
          (let v = c - 0x10000; high = 0xD800 + v div 1024; low = 0xDC00 + v mod 1024
           in [92, 117] @ hex4 high @ [92, 117] @ hex4 low)
        else [92, 117] @ hex4 c
      else [c])"

definition unicode_escape :: "chef_data \<Rightarrow> args \<Rightarrow> chef_data chef_result" where
  "unicode_escape data a =
     rbind (chef_text data) (\<lambda>t.
       Inr (from_text (concat (map (escape_char (bool_of a (lit ''nonAsciiOnly''))) t))))"

text \<open>
  The numeric escape behind a backslash and \<open>u\<close> or \<open>x\<close>: the character, and how much of the rest
  it takes. \<open>None\<close> when the code falls through to the literal backslash.
\<close>

definition hex_run :: "nat \<Rightarrow> ustring \<Rightarrow> ustring" where
  "hex_run width s = filter is_ascii_hexdigit (take width s)"

definition surrogate_pair :: "nat \<Rightarrow> nat \<Rightarrow> ustring \<Rightarrow> rchar option" where
  "surrogate_pair width value rest =
     (if 0xD800 \<le> value \<and> value < 0xDC00 \<and> width + 2 + width \<le> length rest \<and>
         rest ! width = 92 \<and> rest ! (width + 1) = 117
      then (case parse_unsigned u32_max 16 (hex_run width (drop (width + 2) rest)) of
              Inr low \<Rightarrow>
                if 0xDC00 \<le> low \<and> low < 0xE000
                then char_from_u32 (0x10000 + (value - 0xD800) * 1024 + (low - 0xDC00)) else None
            | Inl _ \<Rightarrow> None)
      else None)"

definition hex_escape :: "nat \<Rightarrow> ustring \<Rightarrow> (rchar \<times> nat) option" where
  "hex_escape width rest =
     (let digits = hex_run width rest in
      if length digits = width then
        (case parse_unsigned u32_max 16 digits of
           Inl _ \<Rightarrow> None
         | Inr value \<Rightarrow>
             (case surrogate_pair width value rest of
                Some c \<Rightarrow> Some (c, width + 2 + width)
              | None \<Rightarrow> map_option (\<lambda>c. (c, width)) (char_from_u32 value)))
      else None)"

definition simple_escape :: "rchar \<Rightarrow> ustring" where
  "simple_escape c =
     (if c = ch CHR ''n'' then [10] else if c = ch CHR ''r'' then [13] else if c = ch CHR ''t'' then [9]
      else if c = ch CHR ''0'' then [0] else if c = 92 then [92] else if c = 34 then [34]
      else if c = 39 then [39] else [92, c])"

function unescape :: "ustring \<Rightarrow> ustring" where
  "unescape [] = []"
| "unescape [c] = [c]"
| "unescape (c # d # rest) =
     (if c = 92 then
        if d = ch CHR ''u'' \<or> d = ch CHR ''x'' then
          (case hex_escape (if d = ch CHR ''u'' then 4 else 2) rest of
             Some (x, n) \<Rightarrow> x # unescape (drop n rest)
           | None \<Rightarrow> c # unescape (d # rest))
        else simple_escape d @ unescape rest
      else c # unescape (d # rest))"
  by pat_completeness auto
termination
  by (relation "measure length") auto

definition unicode_unescape :: "chef_data \<Rightarrow> args \<Rightarrow> chef_data chef_result" where
  "unicode_unescape data a = rbind (chef_text data) (\<lambda>t. Inr (from_text (unescape t)))"

section \<open>Character sets\<close>

definition CHARSETS :: "ustring list" where
  "CHARSETS = [
     lit ''utf-8'', lit ''gbk'', lit ''gb18030'', lit ''gb2312'', lit ''big5'', lit ''shift_jis'',
     lit ''euc-jp'', lit ''euc-kr'', lit ''windows-1251'', lit ''windows-1252'', lit ''iso-8859-2'',
     lit ''koi8-r'', lit ''utf-16le'', lit ''utf-16be'', lit ''latin1'']"

definition encoding_for :: "encoding_ext \<Rightarrow> ustring \<Rightarrow> ustring chef_result" where
  "encoding_for ext name =
     ok_or (charset_for_label ext (utf8 name)) (Encoding_Error (Unsupported_Charset name))"

definition charset_encode :: "encoding_ext \<Rightarrow> chef_data \<Rightarrow> args \<Rightarrow> chef_data chef_result" where
  "charset_encode ext data a =
     rbind (choice_in a (lit ''charset'') (lit ''gbk'') CHARSETS) (\<lambda>name.
     rbind (encoding_for ext name) (\<lambda>encoding.
     rbind (chef_text data) (\<lambda>t.
       case charset_enc ext encoding t of (bs, had_errors) \<Rightarrow>
         if had_errors \<and> bool_of a (lit ''strict'') then Inl (Encoding_Error (Charset_Cannot_Encode name))
         else Inr (chef_new bs))))"

definition charset_decode :: "encoding_ext \<Rightarrow> chef_data \<Rightarrow> args \<Rightarrow> chef_data chef_result" where
  "charset_decode ext data a =
     rbind (choice_in a (lit ''charset'') (lit ''gbk'') CHARSETS) (\<lambda>name.
     rbind (encoding_for ext name) (\<lambda>encoding.
       case charset_dec ext encoding (data_bytes data) of (t, had_errors) \<Rightarrow>
         if had_errors \<and> bool_of a (lit ''strict'') then Inl (Encoding_Error (Charset_Bad_Bytes name))
         else Inr (from_text
           (if bool_of a (lit ''stripBom'') \<and> starts_with t [0xFEFF] then tl t else t))))"

section \<open>Morse code\<close>

definition MORSE :: "(ustring \<times> ustring) list" where
  "MORSE = [
     (lit ''A'', lit ''.-''), (lit ''B'', lit ''-...''), (lit ''C'', lit ''-.-.''),
     (lit ''D'', lit ''-..''), (lit ''E'', lit ''.''), (lit ''F'', lit ''..-.''), (lit ''G'', lit ''--.''),
     (lit ''H'', lit ''....''), (lit ''I'', lit ''..''), (lit ''J'', lit ''.---''),
     (lit ''K'', lit ''-.-''), (lit ''L'', lit ''.-..''), (lit ''M'', lit ''--''), (lit ''N'', lit ''-.''),
     (lit ''O'', lit ''---''), (lit ''P'', lit ''.--.''), (lit ''Q'', lit ''--.-''),
     (lit ''R'', lit ''.-.''), (lit ''S'', lit ''...''), (lit ''T'', lit ''-''), (lit ''U'', lit ''..-''),
     (lit ''V'', lit ''...-''), (lit ''W'', lit ''.--''), (lit ''X'', lit ''-..-''),
     (lit ''Y'', lit ''-.--''), (lit ''Z'', lit ''--..''), (lit ''0'', lit ''-----''),
     (lit ''1'', lit ''.----''), (lit ''2'', lit ''..---''), (lit ''3'', lit ''...--''),
     (lit ''4'', lit ''....-''), (lit ''5'', lit ''.....''), (lit ''6'', lit ''-....''),
     (lit ''7'', lit ''--...''), (lit ''8'', lit ''---..''), (lit ''9'', lit ''----.''),
     (lit ''.'', lit ''.-.-.-''), (lit '','', lit ''--..--''), (lit ''?'', lit ''..--..''),
     ([39], lit ''.----.''), (lit ''!'', lit ''-.-.--''), (lit ''/'', lit ''-..-.''),
     (lit ''('', lit ''-.--.''), (lit '')'', lit ''-.--.-''), (lit ''&'', lit ''.-...''),
     (lit '':'', lit ''---...''), (lit '';'', lit ''-.-.-.''), (lit ''='', lit ''-...-''),
     (lit ''+'', lit ''.-.-.''), (lit ''-'', lit ''-....-''), (lit ''_'', lit ''..--.-''),
     ([34], lit ''.-..-.''), (lit ''$'', lit ''...-..-''), (lit ''@'', lit ''.--.-.'')]"

definition morse_char :: "rchar \<Rightarrow> ustring chef_result" where
  "morse_char c =
     ok_or (map_option snd (List.find (\<lambda>(l, _). l = [to_ascii_upper c]) MORSE))
       (Encoding_Error (No_Morse_Code c))"

definition morse_encode :: "chef_data \<Rightarrow> args \<Rightarrow> chef_data chef_result" where
  "morse_encode data a =
     (let letter_sep = args_text a (lit ''letterSeparator'') [32];
          word_sep = args_text a (lit ''wordSeparator'') [47] in
      rbind (chef_text data) (\<lambda>t.
      rbind (rmapM (\<lambda>word. rmap (join letter_sep) (rmapM morse_char word)) (split_whitespace t)) (\<lambda>words.
        Inr (from_text (join ([32] @ word_sep @ [32]) words)))))"

definition morse_code :: "ustring \<Rightarrow> ustring chef_result" where
  "morse_code code =
     ok_or (map_option fst (List.find (\<lambda>(_, c). c = code) MORSE)) (Encoding_Error (Unknown_Morse_Code code))"

text \<open>The words of the decoder: a space before each but the first non-empty prefix.\<close>

fun morse_words :: "ustring \<Rightarrow> ustring list \<Rightarrow> ustring chef_result" where
  "morse_words out [] = Inr out"
| "morse_words out (word # ws) =
     rbind (rmapM morse_code (split_whitespace word)) (\<lambda>decoded.
       morse_words ((if out \<noteq> [] then out @ [32] else out) @ concat decoded) ws)"

definition morse_decode :: "chef_data \<Rightarrow> args \<Rightarrow> chef_data chef_result" where
  "morse_decode data a =
     (let word_sep = args_text a (lit ''wordSeparator'') [47] in
      rbind (chef_text data) (\<lambda>t. rmap from_text (morse_words [] (split_str word_sep t))))"

section \<open>The operations\<close>

definition encoding_OPS :: "encoding_ext \<Rightarrow> op_entry list" where
  "encoding_OPS ext =
    [op ''base64Encode'' ''encoding'' [bool_arg ''urlSafe'' False, bool_arg ''noWrap'' True] (base64_encode ext),
     op ''base64Decode'' ''encoding'' [bool_arg ''urlSafe'' False, bool_arg ''strict'' False] (base64_decode ext),
     op ''base32Encode'' ''encoding'' [bool_arg ''pad'' True, bool_arg ''hexAlphabet'' False] (base32_encode ext),
     op ''base32Decode'' ''encoding'' [bool_arg ''hexAlphabet'' False] (base32_decode ext),
     op_outcome ''base58Encode'' ''encoding''
       [choice ''alphabet'' ''bitcoin'' [lit ''bitcoin'', lit ''ripple'', lit ''flickr'']] base58_encode,
     op ''base58Decode'' ''encoding''
       [choice ''alphabet'' ''bitcoin'' [lit ''bitcoin'', lit ''ripple'', lit ''flickr'']] base58_decode,
     op_outcome ''base62Encode'' ''encoding'' [] base62_encode,
     op ''base62Decode'' ''encoding'' [] base62_decode,
     op ''base85Encode'' ''encoding'' [choice ''style'' ''adobe'' BASE85_STYLES, bool_arg ''delimiters'' True]
       base85_encode,
     op ''base85Decode'' ''encoding'' [choice ''style'' ''adobe'' BASE85_STYLES] base85_decode,
     op ''hexEncode'' ''encoding'' [bool_arg ''uppercase'' False, text_arg ''separator'' []] hex_encode_op,
     op ''hexDecode'' ''encoding'' [] hex_decode_op,
     op ''decimalEncode'' ''encoding'' [text_arg ''separator'' '' ''] decimal_encode,
     op ''decimalDecode'' ''encoding'' [text_arg ''separator'' '' ''] decimal_decode,
     op ''octalEncode'' ''encoding'' [text_arg ''separator'' '' ''] octal_encode,
     op ''octalDecode'' ''encoding'' [text_arg ''separator'' '' ''] octal_decode,
     op ''binaryEncode'' ''encoding'' [text_arg ''separator'' '' ''] binary_encode,
     op ''binaryDecode'' ''encoding'' [text_arg ''separator'' '' ''] binary_decode,
     op ''urlEncode'' ''encoding'' [bool_arg ''component'' False, bool_arg ''uppercase'' True] url_encode,
     op ''urlDecode'' ''encoding'' [bool_arg ''plusAsSpace'' True] url_decode,
     op ''htmlEntityEncode'' ''encoding''
       [choice ''style'' ''named'' [lit ''named'', lit ''decimal'', lit ''hex'', lit ''all-non-ascii'']]
       html_entity_encode,
     op ''htmlEntityDecode'' ''encoding'' [] html_entity_decode,
     op ''unicodeEscape'' ''encoding'' [bool_arg ''nonAsciiOnly'' True] unicode_escape,
     op ''unicodeUnescape'' ''encoding'' [] unicode_unescape,
     op ''charsetEncode'' ''encoding'' [choice ''charset'' ''gbk'' CHARSETS, bool_arg ''strict'' False]
       (charset_encode ext),
     op ''charsetDecode'' ''encoding''
       [choice ''charset'' ''gbk'' CHARSETS, bool_arg ''strict'' False, bool_arg ''stripBom'' True]
       (charset_decode ext),
     op ''morseEncode'' ''encoding'' [text_arg ''letterSeparator'' '' '', text_arg ''wordSeparator'' ''/''] morse_encode,
     op ''morseDecode'' ''encoding'' [text_arg ''wordSeparator'' ''/''] morse_decode]"

section \<open>Decoding HTML entities\<close>

lemma decode_entities_plain: "c \<noteq> 38 \<Longrightarrow> decode_entities (c # s) = c # decode_entities s"
  by (subst (1 2) decode_entities.simps) (auto split: option.splits)

lemma decode_entities_entity:
  assumes "59 \<notin> set e" "decode_entity e = Some t"
  shows "decode_entities (38 # e @ 59 # s) = t @ decode_entities s"
  using assms split_once_first [of 59 e s] by (subst decode_entities.simps) simp

lemma decode_entities_Nil [simp]: "decode_entities [] = []"
  by (subst decode_entities.simps) simp

lemma hex_digits_chars: "c \<in> set (to_digits 16 n) \<Longrightarrow> c \<noteq> 59"
  using to_digits_chars [of 16 c n] by (auto simp: digit_char_def split: if_splits)

lemma scalar_u32: "is_scalar c \<Longrightarrow> c \<le> u32_max"
  by (auto simp: is_scalar_def u32_max_def)

lemma decode_entity_dec:
  assumes "is_scalar c"
  shows "decode_entity (35 # show_dec c) = Some [c]"
proof -
  have ne: "show_dec c \<noteq> []" by (simp add: show_dec_def)
  then obtain x xs where x: "show_dec c = x # xs" by (cases "show_dec c") auto
  then have "48 \<le> x \<and> x \<le> 57" using show_dec_chars [of x c] by simp
  moreover have "parse_unsigned u32_max 10 (show_dec c) = Inr c"
    unfolding show_dec_def by (rule parse_unsigned_to_digits) (use scalar_u32 [OF assms] in simp_all)
  ultimately show ?thesis
    using x assms by (simp add: decode_entity_def opt_of_def char_from_u32_def)
qed

lemma decode_entity_hex:
  assumes "is_scalar c"
  shows "decode_entity (35 # 120 # to_digits 16 c) = Some [c]"
proof -
  have "parse_unsigned u32_max 16 (to_digits 16 c) = Inr c"
    by (rule parse_unsigned_to_digits) (use scalar_u32 [OF assms] in simp_all)
  then show ?thesis
    using assms by (simp add: decode_entity_def opt_of_def char_from_u32_def)
qed

lemma decode_named:
  "named_entity c = Some e \<Longrightarrow> decode_entity e = Some [c] \<and> 59 \<notin> set e \<and> ascii e"
  by (auto simp: named_entity_def decode_entity_def NAMED_ENTITIES_def split: if_splits)

lemma named_entity_amp: "named_entity c = None \<Longrightarrow> c \<noteq> 38"
  by (auto simp: named_entity_def split: if_splits)

lemma html_char_cases:
  assumes "html_char style c = Inr t" "is_scalar c"
  shows "(t = [c] \<and> c \<noteq> 38) \<or> (\<exists>e. t = 38 # e @ [59] \<and> 59 \<notin> set e \<and> decode_entity e = Some [c] \<and> ascii e)"
proof -
  let ?d = "35 # show_dec c" and ?h = "35 # 120 # to_digits 16 c"
  have d: "59 \<notin> set ?d \<and> decode_entity ?d = Some [c] \<and> ascii ?d"
    using show_dec_chars [of _ c] decode_entity_dec [OF assms(2)] by (fastforce simp: ascii_set)
  have h: "59 \<notin> set ?h \<and> decode_entity ?h = Some [c] \<and> ascii ?h"
    using hex_digits_chars [of _ c] decode_entity_hex [OF assms(2)] by (auto simp: to_digits_ascii)
  have plain: "is_ascii_alphanumeric c \<or> c \<in> {32, 10, 9} \<Longrightarrow> c \<noteq> 38" by (auto simp: char_class_defs)
  consider (named) e where "named_entity c = Some e" "t = 38 # e @ [59]"
    | (keep) "t = [c]" "c \<noteq> 38" | (dec) "t = 38 # ?d @ [59]" | (hex) "t = 38 # ?h @ [59]"
    using assms(1) plain named_entity_amp [of c] unfolding html_char_def entity_dec_def entity_hex_def
    by (auto simp del: lit_Cons split: if_splits option.splits)
  then show ?thesis
  proof cases
    case named
    then show ?thesis using decode_named by blast
  next
    case keep
    then show ?thesis by blast
  next
    case dec
    then show ?thesis using d by blast
  next
    case hex
    then show ?thesis using h by blast
  qed
qed

lemma decode_entities_html:
  "rmapM (html_char style) s = Inr ts \<Longrightarrow> valid_string s \<Longrightarrow>
     decode_entities (concat ts) = s \<and> valid_string (concat ts)"
proof (induction s arbitrary: ts)
  case (Cons c s)
  then obtain t us where t: "html_char style c = Inr t" "rmapM (html_char style) s = Inr us" "ts = t # us"
    by (auto simp: result_inv)
  have ih: "decode_entities (concat us) = s" "valid_string (concat us)" using Cons t by auto
  from html_char_cases [OF t(1)] Cons.prems(2)
  consider "t = [c]" "c \<noteq> 38" | e where "t = 38 # e @ [59]" "59 \<notin> set e" "decode_entity e = Some [c]" "ascii e"
    by auto
  then show ?case
  proof cases
    case 1
    then show ?thesis using t ih Cons.prems(2) by (simp add: decode_entities_plain)
  next
    case 2
    then show ?thesis using t ih by (simp add: decode_entities_entity ascii_valid is_scalar_def)
  qed
qed simp

lemma html_decode_encode:
  assumes "html_entity_encode d a = Inr e"
  shows "html_entity_decode e b = Inr d"
proof -
  obtain s ts where "chef_text d = Inr s" "rmapM (html_char (args_choice a (lit ''style'') (lit ''named''))) s = Inr ts"
    "e = from_text (concat ts)"
    using assms by (auto simp: html_entity_encode_def Let_def result_inv simp del: lit_Cons)
  then show ?thesis
    using decode_entities_html by (auto simp: chef_text_Inr html_entity_decode_def)
qed

section \<open>Undoing Unicode escapes\<close>

lemma unescape_plain: "c \<noteq> 92 \<Longrightarrow> unescape (c # s) = c # unescape s"
  by (cases s) simp_all

lemma hex4_props:
  assumes "n < 65536"
  shows "length (hex4 n) = 4" "parse_unsigned u32_max 16 (hex4 n) = Inr n" "ascii (hex4 n)"
    "hex_run 4 (hex4 n @ s) = hex4 n"
proof -
  have "length (to_digits 16 n) \<le> 4" using to_digits_length [of n 16 3] assms by simp
  then show len: "length (hex4 n) = 4" by (simp add: hex4_def pad_left_def)
  show "parse_unsigned u32_max 16 (hex4 n) = Inr n"
    unfolding hex4_def by (rule parse_unsigned_pad) (use assms in \<open>simp_all add: u32_max_def\<close>)
  show "ascii (hex4 n)" unfolding hex4_def by (rule pad_left_ascii) simp_all
  have "is_ascii_hexdigit c" if "c \<in> set (hex4 n)" for c
  proof -
    have "c = 48 \<or> c \<in> set (to_digits 16 n)" using that set_pad_left by (fastforce simp: hex4_def)
    moreover have "is_ascii_hexdigit (digit_char k)" if "k < 16" for k
      using to_digit_digit_char [OF that] by (simp add: hexdigit_to_digit)
    ultimately show ?thesis
      using to_digits_chars [of 16 c n] by (auto simp: char_class_defs)
  qed
  with len show "hex_run 4 (hex4 n @ s) = hex4 n" by (simp add: hex_run_def filter_id_conv)
qed

lemma unescape_bmp:
  assumes "is_scalar c" "c \<le> 0xFFFF"
  shows "unescape (92 # 117 # hex4 c @ s) = c # unescape s"
proof -
  have "c < 65536" using assms(2) by simp
  note h = hex4_props [OF this]
  have "surrogate_pair 4 c (hex4 c @ s) = None"
    using assms(1) by (auto simp: surrogate_pair_def is_scalar_def)
  then have "hex_escape 4 (hex4 c @ s) = Some (c, 4)"
    using h assms(1) by (simp add: hex_escape_def char_from_u32_def)
  with h(1) show ?thesis by simp
qed

lemma unescape_pair:
  assumes "is_scalar c" "0xFFFF < c"
  shows "unescape (92 # 117 # hex4 (0xD800 + (c - 0x10000) div 1024) @
      92 # 117 # hex4 (0xDC00 + (c - 0x10000) mod 1024) @ s) = c # unescape s"
proof -
  define hi lo where "hi = 0xD800 + (c - 0x10000) div 1024" and "lo = 0xDC00 + (c - 0x10000) mod 1024"
  have "c - 0x10000 < 1024 * 1024" using assms by (auto simp: is_scalar_def)
  then have "(c - 0x10000) div 1024 < 1024" by (simp add: less_mult_imp_div_less)
  then have r: "0xD800 \<le> hi" "hi < 0xDC00" "0xDC00 \<le> lo" "lo < 0xE000"
    by (simp_all add: hi_def lo_def)
  have "0x10000 + (hi - 0xD800) * 1024 + (lo - 0xDC00) = 0x10000 + (c - 0x10000)"
    by (simp add: hi_def lo_def)
  also have "\<dots> = c" using assms(2) by simp
  finally have cp: "0x10000 + (hi - 0xD800) * 1024 + (lo - 0xDC00) = c" .
  have hi4: "hi < 65536" and lo4: "lo < 65536" using r by simp_all
  note h = hex4_props [OF hi4] and l = hex4_props [OF lo4]
  have pos: "(hex4 hi @ 92 # 117 # hex4 lo @ s) ! 4 = 92" "(hex4 hi @ 92 # 117 # hex4 lo @ s) ! (4 + 1) = 117"
    "drop (4 + 2) (hex4 hi @ 92 # 117 # hex4 lo @ s) = hex4 lo @ s"
    using h(1) by (simp_all add: nth_append)
  have "surrogate_pair 4 hi (hex4 hi @ 92 # 117 # hex4 lo @ s) = Some c"
    unfolding surrogate_pair_def pos
    using r h(1) l(1,2,4) cp assms(1) by (simp add: char_from_u32_def)
  then have "hex_escape 4 (hex4 hi @ 92 # 117 # hex4 lo @ s) = Some (c, 4 + 2 + 4)"
    using h by (simp add: hex_escape_def)
  then show ?thesis
    using h(1) l(1) unfolding hi_def [symmetric] lo_def [symmetric] by simp
qed

lemma unescape_escape:
  "valid_string s \<Longrightarrow> unescape (concat (map (escape_char only) s)) = s \<and>
     valid_string (concat (map (escape_char only) s))"
proof (induction s)
  case (Cons c s)
  let ?r = "concat (map (escape_char only) s)"
  have c: "is_scalar c" and ih: "unescape ?r = s" "valid_string ?r" using Cons by auto
  consider (keep) "escape_char only c = [c]" "c \<noteq> 92"
    | (bmp) "c \<le> 0xFFFF" "escape_char only c = [92, 117] @ hex4 c"
    | (pair) "0xFFFF < c" "escape_char only c = [92, 117] @ hex4 (0xD800 + (c - 0x10000) div 1024) @
        [92, 117] @ hex4 (0xDC00 + (c - 0x10000) mod 1024)"
  proof (cases "\<not> only \<or> \<not> c < 128 \<or> c = 92 \<or> c < 0x20")
    case True
    then show ?thesis
      using bmp pair by (cases "0xFFFF < c") (simp_all add: escape_char_def Let_def)
  next
    case False
    then show ?thesis using keep by (auto simp: escape_char_def)
  qed
  then show ?case
  proof cases
    case keep
    then show ?thesis using ih c by (simp add: unescape_plain)
  next
    case bmp
    then show ?thesis
      using ih c unescape_bmp [of c ?r] by (simp add: hex4_def ascii_valid pad_left_ascii is_scalar_def)
  next
    case pair
    then show ?thesis
      using ih c unescape_pair [of c ?r] by (simp add: hex4_def ascii_valid pad_left_ascii is_scalar_def)
  qed
qed simp

lemma unicode_decode_encode:
  assumes "is_utf8 d"
  shows "rbind (unicode_escape d a) (\<lambda>e. unicode_unescape e b) = Inr d"
proof -
  obtain s where "valid_string s" "d = from_text s" using assms by (auto simp: is_utf8_iff)
  then show ?thesis
    using unescape_escape [of s "bool_of a (lit ''nonAsciiOnly'')"]
    by (simp add: unicode_escape_def unicode_unescape_def del: lit_Cons)
qed

section \<open>Morse code back to text\<close>

lemma morse_codes_distinct: "distinct (map snd MORSE)"
  by code_simp

lemma morse_codes_chars: "list_all (\<lambda>(l, code). code \<noteq> [] \<and> list_all (\<lambda>c. c = 45 \<or> c = 46) code) MORSE"
  by code_simp

lemma morse_letters_ascii: "list_all (\<lambda>(l, code). ascii l) MORSE"
  by code_simp

lemma morse_char_code:
  assumes "morse_char c = Inr code"
  shows "morse_code code = Inr [to_ascii_upper c]" "is_word code" "47 \<notin> set code" "ascii code"
proof -
  obtain l where l: "List.find (\<lambda>(l, _). l = [to_ascii_upper c]) MORSE = Some (l, code)"
    using assms by (auto simp: morse_char_def result_inv)
  then have mem: "([to_ascii_upper c], code) \<in> set MORSE" using find_Some_mem [OF l] by auto
  have "List.find (\<lambda>(_, c'). c' = code) xs = Some p" if "distinct (map snd xs)" "p \<in> set xs" "snd p = code" for xs p
    using that by (induction xs) (auto split: if_splits)
  from this [OF morse_codes_distinct mem] show "morse_code code = Inr [to_ascii_upper c]"
    by (simp add: morse_code_def)
  have "code \<noteq> [] \<and> list_all (\<lambda>c. c = 45 \<or> c = 46) code"
    using morse_codes_chars mem by (auto simp: list_all_iff)
  then show "is_word code" "47 \<notin> set code" "ascii code"
    by (auto simp: is_word_def list_all_iff ascii_set is_whitespace_def)
qed

text \<open>The words of a Morse text, cut at \<open>/\<close> and then at the spaces.\<close>

lemma split_whitespace_pad:
  "split_whitespace (32 # s) = split_whitespace s" "split_whitespace (w @ [32]) = split_whitespace w"
proof -
  show "split_whitespace (32 # s) = split_whitespace s"
    by (simp add: split_whitespace_def is_whitespace_def)
  have "split_pred is_whitespace (w @ [32]) = split_pred is_whitespace w @ [[]]"
    by (induction w) (auto simp: is_whitespace_def split: list.splits)
  then show "split_whitespace (w @ [32]) = split_whitespace w"
    by (simp add: split_whitespace_def)
qed

lemma morse_pieces:
  assumes "css \<noteq> []" "\<And>cs code. cs \<in> set css \<Longrightarrow> code \<in> set cs \<Longrightarrow> is_word code \<and> 47 \<notin> set code"
  shows "map split_whitespace (split_pred (\<lambda>c. c = 47) (join [32, 47, 32] (map (join [32]) css))) = css"
  using assms
proof (induction css)
  case (Cons cs css)
  let ?w = "join [32] cs"
  have w: "split_whitespace ?w = cs"
    using Cons.prems(2) by (intro split_whitespace_join) (auto simp: is_whitespace_def)
  have no: "47 \<notin> set ?w" using Cons.prems(2) [of cs] set_join [of "[32]" cs] by fastforce
  show ?case
  proof (cases css)
    case Nil
    have "split_pred (\<lambda>c. c = 47) ?w = [?w]" using no by (intro split_pred_none) auto
    then show ?thesis using Nil w by simp
  next
    case (Cons cs' css')
    let ?rest = "join [32, 47, 32] (map (join [32]) css)"
    have ih: "map split_whitespace (split_pred (\<lambda>c. c = 47) ?rest) = css"
      using Cons Cons.prems(2) Cons.IH by auto
    have "join [32, 47, 32] (map (join [32]) (cs # css)) = (?w @ [32]) @ 47 # (32 # ?rest)"
      using Cons by simp
    moreover have "split_pred (\<lambda>c. c = 47) ((?w @ [32]) @ 47 # (32 # ?rest)) =
        (?w @ [32]) # split_pred (\<lambda>c. c = 47) (32 # ?rest)"
      using no by (intro split_pred_append) auto
    moreover have "map split_whitespace (split_pred (\<lambda>c. c = 47) (32 # ?rest)) = css"
      using ih split_pred_nonempty [of "\<lambda>c. c = 47" ?rest]
      by (auto simp: split_whitespace_pad split: list.splits)
    ultimately show ?thesis using w by (simp only: list.map split_whitespace_pad)
  qed
qed simp

lemma morse_words_pieces:
  "list_all2 (\<lambda>w p. rmapM morse_code (split_whitespace p) = Inr (map (\<lambda>c. [c]) w)) ws ps \<Longrightarrow>
   (\<And>w. w \<in> set ws \<Longrightarrow> w \<noteq> []) \<Longrightarrow> out \<noteq> [] \<Longrightarrow>
   morse_words out ps = Inr (join [32] (out # ws))"
proof (induction ws ps arbitrary: out rule: list_all2_induct)
  case (Cons w ws p ps)
  have cc: "concat (map (\<lambda>c. [c]) w) = w" by (induction w) auto
  have "join [32] (out # w # ws) = join [32] ((out @ 32 # w) # ws)" by (cases ws) auto
  with Cons cc show ?case by simp
qed simp

lemma rmapM_morse:
  "rmapM morse_char w = Inr codes \<Longrightarrow>
     rmapM morse_code codes = Inr (map (\<lambda>c. [to_ascii_upper c]) w) \<and>
     (\<forall>code \<in> set codes. is_word code \<and> 47 \<notin> set code \<and> ascii code)"
  by (induction w arbitrary: codes) (auto simp: result_inv morse_char_code)

definition morse_text :: "ustring \<Rightarrow> ustring" where
  "morse_text s = join [32] (map (map to_ascii_upper) (split_whitespace s))"

lemma morse_encode_words:
  assumes "rmapM (\<lambda>word. rmap (join sep) (rmapM morse_char word)) ws = Inr words"
  shows "\<exists>css. words = map (join sep) css \<and> list_all2 (\<lambda>w cs. rmapM morse_char w = Inr cs) ws css"
  using assms
proof (induction ws arbitrary: words)
  case (Cons w ws)
  then obtain cs us where "rmapM morse_char w = Inr cs" "words = join sep cs # us"
    "rmapM (\<lambda>word. rmap (join sep) (rmapM morse_char word)) ws = Inr us"
    by (auto simp: result_inv)
  moreover obtain css where "us = map (join sep) css" "list_all2 (\<lambda>w cs. rmapM morse_char w = Inr cs) ws css"
    using Cons.IH calculation(3) by blast
  ultimately show ?case by (intro exI [of _ "cs # css"]) simp
qed simp

lemma morse_words_text:
  assumes "list_all2 (\<lambda>w cs. rmapM morse_char w = Inr cs) ws css" "\<And>w. w \<in> set ws \<Longrightarrow> w \<noteq> []" "ws \<noteq> []"
  shows "morse_words [] (split_pred (\<lambda>c. c = 47) (join [32, 47, 32] (map (join [32]) css))) =
    Inr (join [32] (map (map to_ascii_upper) ws))"
proof -
  let ?ps = "split_pred (\<lambda>c. c = 47) (join [32, 47, 32] (map (join [32]) css))"
  have codes: "is_word code \<and> 47 \<notin> set code" if "cs \<in> set css" "code \<in> set cs" for cs code
    using that assms(1) rmapM_morse by (fastforce simp: list_all2_conv_all_nth in_set_conv_nth)
  have "css \<noteq> []" using assms(1,3) by auto
  then have pieces: "map split_whitespace ?ps = css" using codes by (rule morse_pieces)
  have "list_all2 (\<lambda>w cs. rmapM morse_code cs = Inr (map (\<lambda>c. [c]) w)) (map (map to_ascii_upper) ws) css"
    using assms(1) by (auto simp: list_all2_conv_all_nth comp_def dest!: rmapM_morse)
  then have "list_all2 (\<lambda>w cs. rmapM morse_code cs = Inr (map (\<lambda>c. [c]) w)) (map (map to_ascii_upper) ws)
      (map split_whitespace ?ps)"
    by (simp only: pieces)
  then have all: "list_all2 (\<lambda>w p. rmapM morse_code (split_whitespace p) = Inr (map (\<lambda>c. [c]) w))
      (map (map to_ascii_upper) ws) ?ps"
    by (simp only: list.rel_map)
  obtain w vs where ws: "map (map to_ascii_upper) ws = w # vs" using assms(3) by (cases ws) auto
  obtain p qs where ps: "?ps = p # qs" using split_pred_nonempty by (metis list.exhaust)
  have ne: "x \<noteq> []" if "x \<in> set (w # vs)" for x using that assms(2) unfolding ws [symmetric] by auto
  have "concat (map (\<lambda>c. [c]) w) = w" by (induction w) auto
  with all show ?thesis
    unfolding ws ps using ne morse_words_pieces [of vs qs w] by simp
qed

lemma morse_decode_encode:
  assumes "morse_encode d a = Inr e" "d = from_text s" "valid_string s"
    and "args_text a (lit ''letterSeparator'') [32] = [32]" "args_text a (lit ''wordSeparator'') [47] = [47]"
    and "args_text b (lit ''wordSeparator'') [47] = [47]"
  shows "morse_decode e b = Inr (from_text (morse_text s))"
proof -
  obtain words where w: "rmapM (\<lambda>word. rmap (join [32]) (rmapM morse_char word)) (split_whitespace s) = Inr words"
    and e: "e = from_text (join [32, 47, 32] words)"
    using assms(1-5) unfolding morse_encode_def Let_def
    by (auto simp: result_inv simp del: lit_Cons)
  obtain css where css: "words = map (join [32]) css"
    "list_all2 (\<lambda>w cs. rmapM morse_char w = Inr cs) (split_whitespace s) css"
    using morse_encode_words [OF w] by blast
  have "ascii x" if x: "x \<in> set words" for x
  proof -
    obtain cs where cs: "cs \<in> set css" "x = join [32] cs" using x css(1) by auto
    then have "\<forall>code \<in> set cs. ascii code"
      using css(2) rmapM_morse by (fastforce simp: list_all2_conv_all_nth in_set_conv_nth)
    then show ?thesis using cs set_join [of "[32]" cs] by (fastforce simp: ascii_set)
  qed
  then have "valid_string (join [32, 47, 32] words)"
    by (intro valid_join) (auto intro: ascii_valid simp: is_scalar_def)
  moreover have "morse_words [] (split_pred (\<lambda>c. c = 47) (join [32, 47, 32] words)) = Inr (morse_text s)"
  proof (cases "split_whitespace s = []")
    case True
    then have "words = []" using w by simp
    then show ?thesis using True by (simp add: morse_text_def split_whitespace_def)
  next
    case False
    then show ?thesis
      unfolding css(1) morse_text_def using css(2) split_whitespace_words
      by (intro morse_words_text) (auto simp: is_word_def)
  qed
  ultimately show ?thesis
    using assms(6) by (simp add: e morse_decode_def del: lit_Cons)
qed

section \<open>The encoding operations return\<close>

lemma encode_outcome_returns:
  assumes "2 \<le> length alphabet" "length alphabet \<le> 256"
  shows "encode_outcome bs alphabet \<noteq> Diverged"
  using radix_encode_total [OF assms, of bs] by (auto simp: encode_outcome_def)

lemma base58_alphabet_length: "base58_alphabet a = Inr al \<Longrightarrow> 58 \<le> length al \<and> length al \<le> 64"
  by (auto simp: base58_alphabet_def BASE58_ALPHABETS_def RIPPLE_ALPHABET_def Let_def split: if_splits)

lemma base_encode_returns: "base58_encode d a \<noteq> Diverged" "base62_encode d a \<noteq> Diverged"
proof -
  have "encode_outcome (data_bytes d) al \<noteq> Diverged" if "base58_alphabet a = Inr al" for al
    using base58_alphabet_length [OF that] by (intro encode_outcome_returns) simp_all
  then show "base58_encode d a \<noteq> Diverged"
    by (auto simp: base58_encode_def rbind_eq_Inr split: sum.splits)
  have "encode_outcome (data_bytes d) BASE62_ALPHABET \<noteq> Diverged"
    by (rule encode_outcome_returns) (simp_all add: BASE62_ALPHABET_def)
  then show "base62_encode d a \<noteq> Diverged"
    by (auto simp: base62_encode_def split: sum.splits)
qed

lemma encoding_OPS_return: "e \<in> set (encoding_OPS ext) \<Longrightarrow> returns e"
  unfolding encoding_OPS_def
  by (auto simp: returns_def base_encode_returns simp del: lit_Cons)

end
