(* ===== verification/Chef_Digest.thy ===== *)
theory Chef_Digest
  imports Chef_Spec
begin

text \<open>
  Digests and checksums (src-tauri/src/services/chef/ops/digest.rs). The hash functions of the
  digest crates, the crc32fast crate, the hex crate and the Unicode lower case table are parameters,
  in the record \<open>digest_ext\<close>; the catalogue CRC, Adler-32, Fletcher and the hash identification are
  the program's own.
\<close>

record digest_ext =
  fn_md4 :: "bytes \<Rightarrow> bytes"
  fn_md5 :: "bytes \<Rightarrow> bytes"
  fn_sha1 :: "bytes \<Rightarrow> bytes"
  fn_sha224 :: "bytes \<Rightarrow> bytes"
  fn_sha256 :: "bytes \<Rightarrow> bytes"
  fn_sha384 :: "bytes \<Rightarrow> bytes"
  fn_sha512 :: "bytes \<Rightarrow> bytes"
  fn_sha3_256 :: "bytes \<Rightarrow> bytes"
  fn_sha3_512 :: "bytes \<Rightarrow> bytes"
  fn_keccak_256 :: "bytes \<Rightarrow> bytes"
  fn_keccak_512 :: "bytes \<Rightarrow> bytes"
  fn_blake2b :: "bytes \<Rightarrow> bytes"
  fn_blake2s :: "bytes \<Rightarrow> bytes"
  fn_ripemd160 :: "bytes \<Rightarrow> bytes"
  fn_sm3 :: "bytes \<Rightarrow> bytes"
  blake3_hex :: "bytes \<Rightarrow> ustring"
  hex_crate_decode :: "ustring \<Rightarrow> ustring + bytes"
  crc32fast :: "bytes \<Rightarrow> u32"
  dig_lower :: "ustring \<Rightarrow> ustring"

section \<open>Hashes\<close>

definition render_digest :: "bytes \<Rightarrow> args \<Rightarrow> chef_data chef_result" where
  "render_digest bs a = Inr (from_text (hex_encode bs (bool_of a (lit ''uppercase'')) []))"

definition digest_with :: "(bytes \<Rightarrow> bytes) \<Rightarrow> chef_data \<Rightarrow> args \<Rightarrow> chef_data chef_result" where
  "digest_with hash data a = render_digest (hash (data_bytes data)) a"

text \<open>The functions of the macro \<open>define_digest_fns!\<close>.\<close>

definition h_md4 :: "digest_ext \<Rightarrow> chef_data \<Rightarrow> args \<Rightarrow> chef_data chef_result" where
  "h_md4 ext = digest_with (fn_md4 ext)"

definition h_md5 :: "digest_ext \<Rightarrow> chef_data \<Rightarrow> args \<Rightarrow> chef_data chef_result" where
  "h_md5 ext = digest_with (fn_md5 ext)"

definition h_sha1 :: "digest_ext \<Rightarrow> chef_data \<Rightarrow> args \<Rightarrow> chef_data chef_result" where
  "h_sha1 ext = digest_with (fn_sha1 ext)"

definition h_sha224 :: "digest_ext \<Rightarrow> chef_data \<Rightarrow> args \<Rightarrow> chef_data chef_result" where
  "h_sha224 ext = digest_with (fn_sha224 ext)"

definition h_sha256 :: "digest_ext \<Rightarrow> chef_data \<Rightarrow> args \<Rightarrow> chef_data chef_result" where
  "h_sha256 ext = digest_with (fn_sha256 ext)"

definition h_sha384 :: "digest_ext \<Rightarrow> chef_data \<Rightarrow> args \<Rightarrow> chef_data chef_result" where
  "h_sha384 ext = digest_with (fn_sha384 ext)"

definition h_sha512 :: "digest_ext \<Rightarrow> chef_data \<Rightarrow> args \<Rightarrow> chef_data chef_result" where
  "h_sha512 ext = digest_with (fn_sha512 ext)"

definition h_sha3_256 :: "digest_ext \<Rightarrow> chef_data \<Rightarrow> args \<Rightarrow> chef_data chef_result" where
  "h_sha3_256 ext = digest_with (fn_sha3_256 ext)"

definition h_sha3_512 :: "digest_ext \<Rightarrow> chef_data \<Rightarrow> args \<Rightarrow> chef_data chef_result" where
  "h_sha3_512 ext = digest_with (fn_sha3_512 ext)"

definition h_keccak_256 :: "digest_ext \<Rightarrow> chef_data \<Rightarrow> args \<Rightarrow> chef_data chef_result" where
  "h_keccak_256 ext = digest_with (fn_keccak_256 ext)"

definition h_keccak_512 :: "digest_ext \<Rightarrow> chef_data \<Rightarrow> args \<Rightarrow> chef_data chef_result" where
  "h_keccak_512 ext = digest_with (fn_keccak_512 ext)"

definition h_blake2b :: "digest_ext \<Rightarrow> chef_data \<Rightarrow> args \<Rightarrow> chef_data chef_result" where
  "h_blake2b ext = digest_with (fn_blake2b ext)"

definition h_blake2s :: "digest_ext \<Rightarrow> chef_data \<Rightarrow> args \<Rightarrow> chef_data chef_result" where
  "h_blake2s ext = digest_with (fn_blake2s ext)"

definition h_ripemd160 :: "digest_ext \<Rightarrow> chef_data \<Rightarrow> args \<Rightarrow> chef_data chef_result" where
  "h_ripemd160 ext = digest_with (fn_ripemd160 ext)"

definition h_sm3 :: "digest_ext \<Rightarrow> chef_data \<Rightarrow> args \<Rightarrow> chef_data chef_result" where
  "h_sm3 ext = digest_with (fn_sm3 ext)"

definition h_blake3 :: "digest_ext \<Rightarrow> chef_data \<Rightarrow> args \<Rightarrow> chef_data chef_result" where
  "h_blake3 ext data a =
     rbind (rmap_err (\<lambda>e. Digest_Error (Digest_Failed e)) (hex_crate_decode ext (blake3_hex ext (data_bytes data))))
       (\<lambda>bs. render_digest bs a)"

text \<open>\<open>str::encode_utf16\<close>, and each unit's two bytes in little endian order.\<close>

definition encode_utf16 :: "ustring \<Rightarrow> nat list" where
  "encode_utf16 s = concat (map (\<lambda>c. if c < 0x10000 then [c]
     else [0xD800 + (c - 0x10000) div 1024, 0xDC00 + (c - 0x10000) mod 1024]) s)"

definition nt_hash :: "digest_ext \<Rightarrow> chef_data \<Rightarrow> args \<Rightarrow> chef_data chef_result" where
  "nt_hash ext data a =
     rbind (chef_text data) (\<lambda>t.
       digest_with (fn_md4 ext) (chef_new (concat (map (\<lambda>w. [of_nat (w mod 256), of_nat (w div 256)]) (encode_utf16 t)))) a)"

definition format_value :: "u64 \<Rightarrow> nat \<Rightarrow> bool \<Rightarrow> ustring" where
  "format_value value width uppercase =
     (let hex = pad_left (width div 4) (to_digits 16 (unat value)) in
      if uppercase then map to_ascii_upper hex else hex)"

definition h_crc32 :: "digest_ext \<Rightarrow> chef_data \<Rightarrow> args \<Rightarrow> chef_data chef_result" where
  "h_crc32 ext data a =
     Inr (from_text (format_value (ucast (crc32fast ext (data_bytes data))) 32 (bool_of a (lit ''uppercase''))))"

definition is_hex_upper :: "ustring \<Rightarrow> bool" where
  "is_hex_upper t \<longleftrightarrow> list_all is_ascii_hexdigit (drop 1 t)"

section \<open>The catalogue CRC\<close>

definition reflect :: "u64 \<Rightarrow> nat \<Rightarrow> u64" where
  "reflect value width =
     foldl (\<lambda>out b. if drop_bit b value AND 1 = 1 then out OR push_bit (width - 1 - b) 1 else out) 0 [0..<width]"

definition crc_mask :: "nat \<Rightarrow> u64" where
  "crc_mask width = (if 64 \<le> width then - 1 else push_bit width 1 - 1)"

definition crc_top :: "nat \<Rightarrow> u64" where
  "crc_top width = push_bit (width - 1) 1"

text \<open>The body of the inner loop, and of the loop over the bytes.\<close>

definition crc_shift :: "nat \<Rightarrow> u64 \<Rightarrow> u64 \<Rightarrow> u64" where
  "crc_shift width poly crc =
     (if crc AND crc_top width \<noteq> 0 then (push_bit 1 crc XOR poly) AND crc_mask width
      else push_bit 1 crc AND crc_mask width)"

definition crc_feed :: "nat \<Rightarrow> bool \<Rightarrow> u8 \<Rightarrow> u64" where
  "crc_feed width refin b =
     (if width = 8 then ucast b
      else push_bit (width - 8) (if refin then reflect (ucast b) 8 else ucast b))"

definition crc_byte :: "nat \<Rightarrow> u64 \<Rightarrow> bool \<Rightarrow> u64 \<Rightarrow> u8 \<Rightarrow> u64" where
  "crc_byte width poly refin crc b =
     (crc_shift width poly ^^ 8) ((crc XOR crc_feed width refin b) AND crc_mask width)"

definition crc_compute :: "bytes \<Rightarrow> nat \<Rightarrow> u64 \<Rightarrow> u64 \<Rightarrow> bool \<Rightarrow> bool \<Rightarrow> u64 \<Rightarrow> u64" where
  "crc_compute bs width poly init refin refout xorout =
     (let crc = foldl (crc_byte width poly refin) (init AND crc_mask width) bs;
          crc = if refout then reflect crc width else crc
      in (crc XOR xorout) AND crc_mask width)"

type_synonym crc_params = "nat \<times> u64 \<times> u64 \<times> bool \<times> bool \<times> u64"

definition CRC_PRESETS :: "(ustring \<times> crc_params) list" where
  "CRC_PRESETS =
    [(lit ''crc8'', (8, 0x07, 0x00, False, False, 0x00)),
     (lit ''crc16-ibm'', (16, 0x8005, 0x0000, True, True, 0x0000)),
     (lit ''crc16-ccitt'', (16, 0x1021, 0xFFFF, False, False, 0x0000)),
     (lit ''crc16-modbus'', (16, 0x8005, 0xFFFF, True, True, 0x0000)),
     (lit ''crc32'', (32, 0x04C11DB7, 0xFFFFFFFF, True, True, 0xFFFFFFFF)),
     (lit ''crc32b'', (32, 0x04C11DB7, 0xFFFFFFFF, False, False, 0xFFFFFFFF)),
     (lit ''crc32c'', (32, 0x1EDC6F41, 0xFFFFFFFF, True, True, 0xFFFFFFFF)),
     (lit ''crc64-ecma'', (64, 0x42F0E1EBA9EA3693, 0, False, False, 0)),
     (lit ''crc64-xz'', (64, 0x42F0E1EBA9EA3693, 0xFFFFFFFFFFFFFFFF, True, True, 0xFFFFFFFFFFFFFFFF))]"

definition CRC_OPTIONS :: "ustring list" where
  "CRC_OPTIONS = [lit ''crc8'', lit ''crc16-ibm'', lit ''crc16-ccitt'', lit ''crc16-modbus'', lit ''crc32'',
     lit ''crc32b'', lit ''crc32c'', lit ''crc64-ecma'', lit ''crc64-xz'', lit ''custom'']"

definition parse_hex_u64 :: "ustring \<Rightarrow> ustring \<Rightarrow> u64 chef_result" where
  "parse_hex_u64 t what =
     (let trimmed = filter (\<lambda>c. c \<noteq> 32) (trim_start_str (lit ''0x'') (trim t)) in
      if trimmed = [] then Inl (Digest_Error (Hex_Number_Empty what))
      else case parse_unsigned u64_max 16 trimmed of
             Inl _ \<Rightarrow> Inl (Digest_Error (Hex_Number_Invalid what t))
           | Inr n \<Rightarrow> Inr (of_nat n))"

definition crc_settings :: "args \<Rightarrow> crc_params chef_result" where
  "crc_settings a =
     rbind (choice_in a (lit ''preset'') (lit ''crc32'') CRC_OPTIONS) (\<lambda>preset.
       if preset = lit ''custom'' then
         rbind (args_number a (lit ''width'') 32) (\<lambda>n.
           let width = n mod 2 ^ 32 in
           if \<not> (8 \<le> width \<and> width \<le> 64) then Inl (Digest_Error Crc_Width_Out_Of_Range)
           else
             rbind (parse_hex_u64 (args_text a (lit ''polynomial'') []) [22810, 39033, 24335]) (\<lambda>poly.
             rbind (parse_hex_u64 (args_text a (lit ''initialValue'') []) [21021, 22987, 20540]) (\<lambda>init.
             rbind (parse_hex_u64 (args_text a (lit ''xorOut'') []) [36755, 20986, 20134, 25110]) (\<lambda>xorout.
               Inr (width, poly, init, bool_of a (lit ''reflectIn''), bool_of a (lit ''reflectOut''), xorout)))))
       else ok_or (map_of CRC_PRESETS preset) (Digest_Error (Unknown_Crc_Preset preset)))"

definition h_crc :: "chef_data \<Rightarrow> args \<Rightarrow> chef_data chef_result" where
  "h_crc data a =
     rbind (crc_settings a) (\<lambda>(width, poly, init, refin, refout, xorout).
       Inr (from_text (format_value (crc_compute (data_bytes data) width poly init refin refout xorout) width
         (bool_of a (lit ''uppercase'')))))"

section \<open>Adler-32 and Fletcher\<close>

text \<open>Both sums stay below their modulus, so the additions never leave 32 (or 16) bits.\<close>

definition running_sums :: "nat \<Rightarrow> nat \<times> nat \<Rightarrow> nat list \<Rightarrow> nat \<times> nat" where
  "running_sums m = foldl (\<lambda>(s1, s2) w. let s1' = (s1 + w) mod m in (s1', (s2 + s1') mod m))"

definition two_halves :: "nat \<Rightarrow> nat \<times> nat \<Rightarrow> u64" where
  "two_halves width = (\<lambda>(s1, s2). push_bit width (of_nat s2) OR of_nat s1)"

definition h_adler32 :: "chef_data \<Rightarrow> args \<Rightarrow> chef_data chef_result" where
  "h_adler32 data a =
     Inr (from_text (format_value (two_halves 16 (running_sums 65521 (1, 0) (map unat (data_bytes data)))) 32
       (bool_of a (lit ''uppercase''))))"

fun le_words :: "bytes \<Rightarrow> nat list" where
  "le_words [] = []"
| "le_words [low] = [unat low]"
| "le_words (low # high # bs) = (unat low + 256 * unat high) # le_words bs"

definition fletcher_value :: "ustring \<Rightarrow> bytes \<Rightarrow> u64" where
  "fletcher_value variant bs =
     (if variant = lit ''fletcher16'' then two_halves 8 (running_sums 255 (0, 0) (map unat bs))
      else two_halves 16 (running_sums 65535 (0, 0) (le_words bs)))"

definition h_fletcher :: "chef_data \<Rightarrow> args \<Rightarrow> chef_data chef_result" where
  "h_fletcher data a =
     rbind (choice_in a (lit ''variant'') (lit ''fletcher16'') [lit ''fletcher16'', lit ''fletcher32'']) (\<lambda>variant.
       Inr (from_text (format_value (fletcher_value variant (data_bytes data))
         (if variant = lit ''fletcher16'' then 16 else 32) (bool_of a (lit ''uppercase'')))))"

section \<open>Identifying a hash\<close>

definition hash_by_length :: "nat \<Rightarrow> ustring list" where
  "hash_by_length n =
    (
     if n = 8 then [lit ''CRC-32'', lit ''Adler-32'', lit ''Fletcher-32'', lit ''Sum-32'']
     else if n = 16 then [lit ''CRC-64'', [77, 68, 53, 32, 21407, 22987, 20540, 25130, 26029, 63], lit ''Snefru-128'', lit ''RIPEMD-128'']
     else if n = 32 then [lit ''MD5'', lit ''MD4'', lit ''RIPEMD-128'', lit ''NTLM (NT hash)'', lit ''Snefru-128'', [77, 121, 83, 81, 76, 32769, 23494, 30721, 40, 51, 46, 50, 51, 21069, 41]]
     else if n = 40 then [lit ''SHA-1'', lit ''HAVAL-160?'', [77, 121, 83, 81, 76, 32, 52, 46, 49, 43, 32, 23494, 30721], lit ''RIPEMD-160'']
     else if n = 56 then [lit ''SHA-224'', lit ''CRC-256?'']
     else if n = 64 then [lit ''SHA-256'', lit ''RIPEMD-256'', lit ''Keccak-256'', lit ''BLAKE-256'', lit ''SM3'', lit ''HAVAL-256'', lit ''Snefru-256'', lit ''GOST R 34.11-94'']
     else if n = 96 then [lit ''SHA-384'', lit ''RIPEMD-384'']
     else if n = 128 then [lit ''SHA-512'', lit ''Keccak-512'', lit ''SHA-3-512'', lit ''RIPEMD-512'']
     else [])"

definition b64_by_length :: "nat \<Rightarrow> ustring list" where
  "b64_by_length n =
    (if n = 22 then [[49, 50, 56, 32, 20301, 21407, 22987, 20540, 32, 66, 97, 115, 101, 54, 52, 117, 114, 108, 65288, 77, 68, 53, 47, 83, 72, 65, 45, 49, 32, 25130, 26029, 65289]]
     else if n = 27 \<or> n = 28 then [[83, 72, 65, 45, 49, 32, 21407, 22987, 20540, 32, 66, 97, 115, 101, 54, 52, 65288, 50, 48, 32, 23383, 33410, 65289]]
     else if n = 43 \<or> n = 44 then [[83, 72, 65, 45, 50, 53, 54, 32, 21407, 22987, 20540, 32, 66, 97, 115, 101, 54, 52, 65288, 51, 50, 32, 23383, 33410, 65289]]
     else if n = 86 \<or> n = 88 then [[83, 72, 65, 45, 53, 49, 50, 32, 21407, 22987, 20540, 32, 66, 97, 115, 101, 54, 52, 65288, 54, 52, 32, 23383, 33410, 65289]]
     else [])"

definition hash_shape :: "ustring \<Rightarrow> ustring \<Rightarrow> ustring list \<times> ustring list" where
  "hash_shape t low =
     (if list_all is_ascii_hexdigit low then
        (hash_by_length (length (utf8 low)),
         if length (utf8 low) = 32 \<and> list_ex is_ascii_upper t then [[20840, 22823, 20889, 21313, 20845, 36827, 21046, 65306, 26356, 20687, 32, 77, 68, 53, 47, 78, 84, 76, 77, 32, 30340, 36755, 20986, 20064, 24815]] else [])
      else if list_all (\<lambda>c. is_ascii_alphanumeric c \<or> c \<in> {43, 47, 61, 45, 95}) t \<and> 32 \<notin> set t then
        (b64_by_length (length (utf8 (trim_end_with (\<lambda>c. c = 61) t))), [])
      else ([], []))"

definition hash_prefix :: "ustring \<Rightarrow> ustring list \<Rightarrow> ustring list" where
  "hash_prefix t candidates =
     (if starts_with t (lit ''$1$'') then [lit ''MD5crypt'']
      else if starts_with t (lit ''$2a$'') \<or> starts_with t (lit ''$2b$'') \<or> starts_with t (lit ''$2y$'') then [lit ''bcrypt'']
      else if starts_with t (lit ''$5$'') then [lit ''sha256crypt'']
      else if starts_with t (lit ''$6$'') then [lit ''sha512crypt'']
      else if starts_with t (lit ''$argon2'') then [lit ''Argon2'']
      else if starts_with t (lit ''$pbkdf2-sha256$'') then [lit ''PBKDF2-HMAC-SHA256'']
      else if length t = 13 \<and> starts_with t (lit ''_'') then [[66, 83, 68, 105, 32, 109, 100, 53, 99, 114, 121, 112, 116, 32, 26087, 24335]]
      else if starts_with t (lit ''*'') \<and> length (utf8 t) = 41 \<and> is_hex_upper t
        then candidates @ [[77, 121, 83, 81, 76, 32, 52, 46, 49, 43, 32, 23494, 30721, 21704, 24076, 65288, 83, 72, 65, 45, 49, 32, 21452, 36718, 65289]]
      else candidates)"

definition identify_hash :: "digest_ext \<Rightarrow> chef_data \<Rightarrow> args \<Rightarrow> chef_data chef_result" where
  "identify_hash ext data a =
     rbind (rmap trim (chef_text data)) (\<lambda>t.
       if t = [] then Inl (Digest_Error Hash_Empty)
       else
         (let (by_shape, notes) = hash_shape t (dig_lower ext t); candidates = hash_prefix t by_shape in
          if candidates = [] then
            Inr (from_text ([35748, 19981, 20986, 26469, 65288] @ show_dec (length t) @
              [32, 20010, 23383, 31526, 65289, 12290, 10, 25552, 31034, 65306, 20505, 36873, 31639, 27861, 38752, 38271, 24230, 19982, 23383, 31526, 38598, 21028, 26029, 65292, 36825, 27573, 20004, 32773, 37117, 19981, 21305, 37197, 24120, 35265, 26684, 24335, 12290]))
          else
            Inr (from_text
              (trim_end_with (\<lambda>c. c = 10) ([21487, 33021, 30340, 31639, 27861, 65288, 25353, 24120, 35265, 31243, 24230, 65292, 19981, 26159, 32467, 35770, 65289, 65306, 10] @
                 concat (map (\<lambda>c. [183, 32] @ c @ [10]) candidates)) @
               concat (map (\<lambda>n. [10, 27880, 24847, 65306] @ n) notes)))))"

definition UPPERCASE_ONLY :: "arg_spec list" where
  "UPPERCASE_ONLY = [bool_arg ''uppercase'' False]"

definition digest_OPS :: "digest_ext \<Rightarrow> op_entry list" where
  "digest_OPS ext =
    [op ''md4'' ''digest'' UPPERCASE_ONLY (h_md4 ext),
     op ''md5'' ''digest'' UPPERCASE_ONLY (h_md5 ext),
     op ''sha1'' ''digest'' UPPERCASE_ONLY (h_sha1 ext),
     op ''sha224'' ''digest'' UPPERCASE_ONLY (h_sha224 ext),
     op ''sha256'' ''digest'' UPPERCASE_ONLY (h_sha256 ext),
     op ''sha384'' ''digest'' UPPERCASE_ONLY (h_sha384 ext),
     op ''sha512'' ''digest'' UPPERCASE_ONLY (h_sha512 ext),
     op ''sha3_256'' ''digest'' UPPERCASE_ONLY (h_sha3_256 ext),
     op ''sha3_512'' ''digest'' UPPERCASE_ONLY (h_sha3_512 ext),
     op ''keccak_256'' ''digest'' UPPERCASE_ONLY (h_keccak_256 ext),
     op ''keccak_512'' ''digest'' UPPERCASE_ONLY (h_keccak_512 ext),
     op ''blake2b'' ''digest'' UPPERCASE_ONLY (h_blake2b ext),
     op ''blake2s'' ''digest'' UPPERCASE_ONLY (h_blake2s ext),
     op ''blake3'' ''digest'' UPPERCASE_ONLY (h_blake3 ext),
     op ''ripemd160'' ''digest'' UPPERCASE_ONLY (h_ripemd160 ext),
     op ''sm3'' ''digest'' UPPERCASE_ONLY (h_sm3 ext),
     op ''ntHash'' ''digest'' UPPERCASE_ONLY (nt_hash ext),
     op ''identifyHash'' ''digest'' [] (identify_hash ext),
     op ''crc32'' ''checksum'' UPPERCASE_ONLY (h_crc32 ext),
     op ''crc'' ''checksum'' [choice ''preset'' ''crc32'' CRC_OPTIONS, number ''width'' 32,
       text_arg ''polynomial'' ''04C11DB7'', text_arg ''initialValue'' ''FFFFFFFF'', bool_arg ''reflectIn'' True,
       bool_arg ''reflectOut'' True, text_arg ''xorOut'' ''FFFFFFFF'', bool_arg ''uppercase'' False] h_crc,
     op ''adler32'' ''checksum'' UPPERCASE_ONLY h_adler32,
     op ''fletcher'' ''checksum'' [choice ''variant'' ''fletcher16'' [lit ''fletcher16'', lit ''fletcher32''],
       bool_arg ''uppercase'' False] h_fletcher]"

lemma digest_OPS_return: "e \<in> set (digest_OPS ext) \<Longrightarrow> returns e"
  unfolding digest_OPS_def by (auto simp: returns_def simp del: lit_Cons)

section \<open>Reflection and the shift register, bit by bit\<close>

lemma bit_probe: "drop_bit b (v :: u64) AND 1 = 1 \<longleftrightarrow> bit v b"
  by (auto simp: and_one_eq bit_iff_odd_drop_bit odd_iff_mod_2_eq_one)

lemma bit_shl: "bit (push_bit n (v :: u64)) i \<longleftrightarrow> n \<le> i \<and> i < 64 \<and> bit v (i - n)"
  by (simp only: bit_push_bit_iff possible_bit_word) auto

lemma bit_shl_1: "n < 64 \<Longrightarrow> bit (push_bit n (1 :: u64)) i \<longleftrightarrow> i = n"
  unfolding bit_shl bit_1_iff by auto

lemma bit_reflect:
  assumes "w \<le> 64"
  shows "bit (reflect v w) i \<longleftrightarrow> i < w \<and> bit v (w - 1 - i)"
proof -
  let ?f = "\<lambda>out b. if drop_bit b v AND 1 = 1 then out OR push_bit (w - 1 - b) 1 else (out :: u64)"
  have "k \<le> w \<Longrightarrow> bit (foldl ?f 0 [0..<k]) i \<longleftrightarrow> i < w \<and> w - 1 - i < k \<and> bit v (w - 1 - i)" for k
  proof (induction k)
    case (Suc k)
    have "bit (push_bit (w - 1 - k) (1 :: u64)) i \<longleftrightarrow> i = w - 1 - k"
      using Suc.prems assms by (intro bit_shl_1) simp
    with Suc show ?case by (auto simp: bit_probe bit_or_iff less_Suc_eq)
  qed simp
  from this [of w] show ?thesis unfolding reflect_def by auto
qed

definition fits :: "nat \<Rightarrow> u64 \<Rightarrow> bool" where
  "fits w v \<longleftrightarrow> (\<forall>i. bit v i \<longrightarrow> i < w)"

lemma bit_crc_mask: "w \<le> 64 \<Longrightarrow> bit (crc_mask w) i \<longleftrightarrow> i < w"
proof (cases "w = 64")
  case False
  assume "w \<le> 64"
  with False have "crc_mask w = mask w"
    by (simp add: crc_mask_def mask_eq_exp_minus_1 push_bit_of_1)
  with \<open>w \<le> 64\<close> show ?thesis by (auto simp: bit_mask_iff)
qed (auto simp: crc_mask_def dest: bit_imp_le_length)

lemma fits_mask [simp]: "w \<le> 64 \<Longrightarrow> fits w (v AND crc_mask w)"
  by (simp add: fits_def bit_and_iff bit_crc_mask)

lemma mask_id: "w \<le> 64 \<Longrightarrow> fits w v \<Longrightarrow> v AND crc_mask w = v"
  by (rule bit_eqI) (auto simp: bit_and_iff bit_crc_mask fits_def)

lemma fits_xor: "fits w a \<Longrightarrow> fits w b \<Longrightarrow> fits w (a XOR b)"
  by (auto simp: fits_def bit_xor_iff)

lemma fits_reflect: "w \<le> 64 \<Longrightarrow> fits w (reflect v w)"
  by (simp add: fits_def bit_reflect)

lemma reflect_reflect:
  assumes "w \<le> 64" "fits w v"
  shows "reflect (reflect v w) w = v"
  by (rule bit_eqI) (use assms in \<open>auto simp: bit_reflect fits_def\<close>)

lemma reflect_inj: "w \<le> 64 \<Longrightarrow> fits w a \<Longrightarrow> fits w b \<Longrightarrow> reflect a w = reflect b w \<Longrightarrow> a = b"
  by (metis reflect_reflect)

lemma bit_crc_top: "0 < w \<Longrightarrow> w \<le> 64 \<Longrightarrow> bit (crc_top w) i \<longleftrightarrow> i = w - 1"
  unfolding crc_top_def by (rule bit_shl_1) simp

lemma top_set: "0 < w \<Longrightarrow> w \<le> 64 \<Longrightarrow> crc AND crc_top w \<noteq> 0 \<longleftrightarrow> bit crc (w - 1)"
  unfolding bit_eq_iff by (auto simp: bit_and_iff bit_crc_top)

lemma bit_crc_shift:
  assumes "0 < w" "w \<le> 64"
  shows "bit (crc_shift w poly c) i \<longleftrightarrow> i < w \<and> ((0 < i \<and> bit c (i - 1)) \<noteq> (bit c (w - 1) \<and> bit poly i))"
proof -
  have sh: "bit (push_bit 1 c) i \<longleftrightarrow> 0 < i \<and> bit c (i - 1)" if "i < w"
    using that assms unfolding bit_shl by auto
  show ?thesis
    unfolding crc_shift_def top_set [OF assms] using assms sh
    by (auto simp: bit_and_iff bit_xor_iff bit_crc_mask)
qed

lemma fits_shift: "0 < w \<Longrightarrow> w \<le> 64 \<Longrightarrow> fits w (crc_shift w poly c)"
  by (simp add: fits_def bit_crc_shift)

lemma crc_shift_xor:
  "0 < w \<Longrightarrow> w \<le> 64 \<Longrightarrow> crc_shift w poly (a XOR b) = crc_shift w poly a XOR crc_shift w poly b"
  by (rule bit_eqI) (auto simp: bit_crc_shift bit_xor_iff)

lemma crc_shift_0 [simp]: "0 < w \<Longrightarrow> w \<le> 64 \<Longrightarrow> crc_shift w poly 0 = 0"
  by (rule bit_eqI) (simp add: bit_crc_shift)

text \<open>A register whose polynomial ends in 1 loses nothing when it is shifted.\<close>

lemma crc_shift_zero:
  assumes "0 < w" "w \<le> 64" "bit poly 0" "fits w c" "crc_shift w poly c = 0"
  shows "c = 0"
proof -
  have b: "\<not> bit (crc_shift w poly c) i" for i using assms(5) by simp
  have top: "\<not> bit c (w - 1)" using b [of 0] assms(1-3) unfolding bit_crc_shift [OF assms(1,2)] by simp
  have "\<not> bit c i" for i
  proof (cases "Suc i < w")
    case True
    then show ?thesis using b [of "Suc i"] top unfolding bit_crc_shift [OF assms(1,2)] by simp
  next
    case False
    then show ?thesis using top assms(1,4) by (metis fits_def Suc_lessI diff_Suc_1)
  qed
  then show ?thesis by (intro bit_eqI) simp
qed

lemma word_xor_eq_0: "(a :: u64) XOR b = 0 \<longleftrightarrow> a = b"
  by (auto simp: bit_eq_iff bit_xor_iff)

lemma crc_shift_inj:
  assumes "0 < w" "w \<le> 64" "bit poly 0" "fits w a" "fits w b" "crc_shift w poly a = crc_shift w poly b"
  shows "a = b"
  using crc_shift_zero [OF assms(1-3) fits_xor [OF assms(4,5)]] assms(1,2,6)
  by (simp add: crc_shift_xor word_xor_eq_0)

lemma fits_shifts: "0 < w \<Longrightarrow> w \<le> 64 \<Longrightarrow> fits w c \<Longrightarrow> fits w ((crc_shift w poly ^^ n) c)"
  by (cases n) (simp_all add: fits_shift)

lemma crc_shifts_inj:
  assumes "0 < w" "w \<le> 64" "bit poly 0"
  shows "fits w a \<Longrightarrow> fits w b \<Longrightarrow> (crc_shift w poly ^^ n) a = (crc_shift w poly ^^ n) b \<Longrightarrow> a = b"
  by (induction n) (auto simp: assms fits_shifts dest: crc_shift_inj [OF assms, rotated 2])

section \<open>The CRC as a shift register\<close>

text \<open>
  The textbook definition, on lists of bits with the highest first: every message bit is compared
  with the bit that leaves the register, and the polynomial is added when they differ.
\<close>

fun lfsr :: "bool list \<Rightarrow> bool list \<Rightarrow> bool list \<Rightarrow> bool list" where
  "lfsr poly r [] = r"
| "lfsr poly r (b # bs) =
     lfsr poly (if hd r \<noteq> b then map2 (\<noteq>) (tl r @ [False]) poly else tl r @ [False]) bs"

definition crc_reg :: "nat \<Rightarrow> u64 \<Rightarrow> bool list" where
  "crc_reg w v = map (bit v) (rev [0..<w])"

definition byte_bits :: "nat \<Rightarrow> bool \<Rightarrow> u8 \<Rightarrow> bool list" where
  "byte_bits w refin b = map (bit b) (if refin \<and> w \<noteq> 8 then [0..<8] else rev [0..<8])"

definition feed_bit :: "nat \<Rightarrow> u64 \<Rightarrow> u64 \<Rightarrow> bool \<Rightarrow> u64" where
  "feed_bit w poly c b = crc_shift w poly (if b then c XOR crc_top w else c)"

lemma length_crc_reg [simp]: "length (crc_reg w v) = w"
  by (simp add: crc_reg_def)

lemma crc_reg_nth: "i < w \<Longrightarrow> crc_reg w v ! i = bit v (w - 1 - i)"
  by (simp add: crc_reg_def rev_nth)

lemma crc_reg_step:
  assumes "0 < w" "w \<le> 64"
  shows "crc_reg w (feed_bit w poly c b) =
    (if hd (crc_reg w c) \<noteq> b then map2 (\<noteq>) (tl (crc_reg w c) @ [False]) (crc_reg w poly) else tl (crc_reg w c) @ [False])"
    (is "_ = ?r")
proof (rule nth_equalityI)
  have ne: "crc_reg w c \<noteq> []" using assms by (auto simp flip: length_0_conv)
  then have hd: "hd (crc_reg w c) = bit c (w - 1)" using assms by (simp add: hd_conv_nth crc_reg_nth)
  show len: "length (crc_reg w (feed_bit w poly c b)) = length ?r" using assms by simp
  fix i assume "i < length (crc_reg w (feed_bit w poly c b))"
  then have i: "i < w" by simp
  let ?c = "if b then c XOR crc_top w else c"
  have tail: "(tl (crc_reg w c) @ [False]) ! i = (0 < w - 1 - i \<and> bit c (w - 1 - i - 1))"
    using i assms by (auto simp: nth_append nth_tl crc_reg_nth)
  have low: "0 < w - 1 - i \<Longrightarrow> bit ?c (w - 1 - i - 1) = bit c (w - 1 - i - 1)"
    using assms by (auto simp: bit_xor_iff bit_crc_top)
  have high: "bit ?c (w - 1) = (bit c (w - 1) \<noteq> b)" using assms by (auto simp: bit_xor_iff bit_crc_top)
  have "crc_reg w (feed_bit w poly c b) ! i =
      ((0 < w - 1 - i \<and> bit ?c (w - 1 - i - 1)) \<noteq> (bit ?c (w - 1) \<and> bit poly (w - 1 - i)))"
    using i unfolding feed_bit_def crc_reg_nth [OF i] bit_crc_shift [OF assms] by simp
  also have "\<dots> = ((tl (crc_reg w c) @ [False]) ! i \<noteq> ((bit c (w - 1) \<noteq> b) \<and> bit poly (w - 1 - i)))"
    unfolding tail high using low by (cases "0 < w - 1 - i") simp_all
  also have "\<dots> = ?r ! i" using i assms by (simp add: hd crc_reg_nth)
  finally show "crc_reg w (feed_bit w poly c b) ! i = ?r ! i" .
qed

lemma crc_reg_run:
  assumes "0 < w" "w \<le> 64"
  shows "crc_reg w (foldl (feed_bit w poly) c bs) = lfsr (crc_reg w poly) (crc_reg w c) bs"
  by (induction bs arbitrary: c) (simp_all add: crc_reg_step [OF assms])

text \<open>Adding a group of bits to the top and shifting is feeding the bits one at a time.\<close>

lemma feed_group:
  assumes "0 < w" "w \<le> 64"
  shows "k \<le> w \<Longrightarrow> fits k B \<Longrightarrow>
    foldl (feed_bit w poly) c (map (bit B) (rev [0..<k])) = (crc_shift w poly ^^ k) (c XOR push_bit (w - k) B)"
proof (induction k arbitrary: c B)
  case 0
  then have "B = 0" by (intro bit_eqI) (simp add: fits_def)
  then show ?case by simp
next
  case (Suc k)
  define B' where "B' = B AND crc_mask k"
  have k: "k \<le> 64" "k < w" using Suc.prems assms by simp_all
  have B': "fits k B'" "map (bit B) (rev [0..<k]) = map (bit B') (rev [0..<k])"
    using k by (auto simp: B'_def bit_and_iff bit_crc_mask)
  have split: "push_bit (w - Suc k) B = (if bit B k then crc_top w else 0) XOR push_bit (w - Suc k) B'"
    (is "?l = ?r")
  proof (rule bit_eqI)
    fix i
    have "bit B j \<longleftrightarrow> (bit B k \<and> j = k) \<or> (j < k \<and> bit B j)" for j
      using Suc.prems(2) by (auto simp: fits_def less_Suc_eq)
    from this [of "i - (w - Suc k)"] show "bit ?l i = bit ?r i"
      unfolding bit_xor_iff bit_shl B'_def bit_and_iff bit_crc_mask [OF k(1)] using k assms
      by (auto simp: bit_crc_top)
  qed
  have up: "crc_shift w poly (push_bit (w - Suc k) B') = push_bit (w - k) B'" (is "?l = ?r")
  proof (rule bit_eqI)
    fix i
    have no_top: "\<not> bit (push_bit (w - Suc k) B') (w - 1)"
      unfolding bit_shl using B'(1) k by (auto simp: fits_def)
    have "bit ?l i \<longleftrightarrow> i < w \<and> 0 < i \<and> w - Suc k \<le> i - 1 \<and> bit B' (i - 1 - (w - Suc k))"
      unfolding bit_crc_shift [OF assms] using no_top assms by (auto simp: bit_shl)
    also have "\<dots> \<longleftrightarrow> bit ?r i"
      unfolding bit_shl using B'(1) k assms by (auto simp: fits_def)
    finally show "bit ?l i = bit ?r i" .
  qed
  have up_to: "rev [0..<Suc k] = k # rev [0..<k]" by simp
  have "foldl (feed_bit w poly) c (map (bit B) (rev [0..<Suc k])) =
      (crc_shift w poly ^^ k) (feed_bit w poly c (bit B k) XOR push_bit (w - k) B')"
    unfolding up_to list.map foldl_Cons B'(2) by (rule Suc.IH [OF less_imp_le [OF k(2)] B'(1)])
  also have "feed_bit w poly c (bit B k) XOR push_bit (w - k) B' = crc_shift w poly (c XOR push_bit (w - Suc k) B)"
    unfolding split up [symmetric] feed_bit_def crc_shift_xor [OF assms, symmetric] by (simp add: ac_simps)
  finally show ?case by (simp add: funpow_swap1)
qed

lemma fits_byte: "fits 8 (ucast (b :: u8))"
  by (auto simp: fits_def bit_simps dest: bit_imp_le_length)

definition fed_byte :: "nat \<Rightarrow> bool \<Rightarrow> u8 \<Rightarrow> u64" where
  "fed_byte w refin b = (if refin \<and> w \<noteq> 8 then reflect (ucast b) 8 else ucast b)"

lemma crc_feed_byte: "crc_feed w refin b = push_bit (w - 8) (fed_byte w refin b)"
  by (simp add: crc_feed_def fed_byte_def)

lemma fits_fed: "fits 8 (fed_byte w refin b)"
  by (simp add: fed_byte_def fits_byte fits_reflect)

lemma fits_feed: "8 \<le> w \<Longrightarrow> w \<le> 64 \<Longrightarrow> fits w (crc_feed w refin b)"
  using fits_fed [of w refin b] unfolding crc_feed_byte fits_def bit_shl by auto

lemma byte_bits_fed: "byte_bits w refin b = map (bit (fed_byte w refin b)) (rev [0..<8])"
proof (cases "refin \<and> w \<noteq> 8")
  case True
  have "map (bit b) [0..<8] = map (bit (reflect (ucast b) 8)) (rev [0..<8])"
    by (rule nth_equalityI) (auto simp: rev_nth bit_reflect bit_simps)
  with True show ?thesis by (simp only: byte_bits_def fed_byte_def) simp
next
  case False
  have "map (bit b) (rev [0..<8]) = map (bit (ucast b :: u64)) (rev [0..<8])"
    by (rule map_cong) (auto simp: bit_simps)
  with False show ?thesis by (simp only: byte_bits_def fed_byte_def) simp
qed

lemma crc_byte_fold:
  assumes "8 \<le> w" "w \<le> 64" "fits w c"
  shows "crc_byte w poly refin c b = foldl (feed_bit w poly) c (byte_bits w refin b)" "fits w (crc_byte w poly refin c b)"
proof -
  have w: "0 < w" using assms(1) by simp
  have m: "(c XOR crc_feed w refin b) AND crc_mask w = c XOR crc_feed w refin b"
    using assms fits_feed by (intro mask_id fits_xor) auto
  show "crc_byte w poly refin c b = foldl (feed_bit w poly) c (byte_bits w refin b)"
    unfolding crc_byte_def m unfolding byte_bits_fed crc_feed_byte
    by (rule feed_group [OF w assms(2,1) fits_fed, symmetric])
  show "fits w (crc_byte w poly refin c b)"
    unfolding crc_byte_def m using w assms fits_feed by (intro fits_shifts fits_xor) auto
qed

lemma crc_bytes_fold:
  assumes "8 \<le> w" "w \<le> 64" "fits w c"
  shows "foldl (crc_byte w poly refin) c bs = foldl (feed_bit w poly) c (concat (map (byte_bits w refin) bs))"
    "fits w (foldl (crc_byte w poly refin) c bs)"
proof -
  have "foldl (crc_byte w poly refin) c bs = foldl (feed_bit w poly) c (concat (map (byte_bits w refin) bs)) \<and>
    fits w (foldl (crc_byte w poly refin) c bs)" using assms(3)
  proof (induction bs arbitrary: c)
    case (Cons b bs)
    note step = crc_byte_fold [OF assms(1,2) Cons.prems, where poly = poly and refin = refin and b = b]
    show ?case
      unfolding list.map concat.simps foldl_append foldl_Cons step(1) [symmetric] by (rule Cons.IH [OF step(2)])
  qed simp
  then show "foldl (crc_byte w poly refin) c bs = foldl (feed_bit w poly) c (concat (map (byte_bits w refin) bs))"
    "fits w (foldl (crc_byte w poly refin) c bs)" by blast+
qed

lemma crc_register:
  assumes "8 \<le> w" "w \<le> 64"
  shows "crc_reg w (crc_compute bs w poly init refin False 0) =
    lfsr (crc_reg w poly) (crc_reg w init) (concat (map (byte_bits w refin) bs))"
proof -
  have w: "0 < w" using assms by simp
  have f: "fits w (init AND crc_mask w)" using assms by simp
  have r: "crc_reg w (v AND crc_mask w) = crc_reg w v" for v
    by (auto simp: crc_reg_def bit_and_iff bit_crc_mask assms)
  show ?thesis
    unfolding crc_compute_def Let_def if_False xor.right_neutral r crc_bytes_fold(1) [OF assms f]
    by (simp add: crc_reg_run [OF w assms(2)] r)
qed

lemma crc_finish:
  assumes "8 \<le> w" "w \<le> 64"
  shows "crc_compute bs w poly init refin refout xorout =
    (let c = crc_compute bs w poly init refin False 0 in
     (if refout then reflect c w else c) XOR (xorout AND crc_mask w))"
proof -
  have f: "fits w (foldl (crc_byte w poly refin) (init AND crc_mask w) bs)"
    using assms by (intro crc_bytes_fold(2)) simp_all
  have d: "(a XOR b) AND m = (a AND m) XOR (b AND m)" for a b m :: u64
    by (rule bit_eqI) (auto simp: bit_and_iff bit_xor_iff)
  show ?thesis
    using f assms by (auto simp: crc_compute_def Let_def d mask_id fits_reflect)
qed

section \<open>What a CRC detects\<close>

lemma crc_fits: "8 \<le> w \<Longrightarrow> w \<le> 64 \<Longrightarrow> fits w (crc_compute bs w poly init refin refout xorout)"
  by (simp add: crc_compute_def Let_def)

lemma crc_byte_inj:
  assumes "8 \<le> w" "w \<le> 64" "bit poly 0" "fits w c" "fits w d"
    "crc_byte w poly refin c a = crc_byte w poly refin d b"
  shows "c XOR crc_feed w refin a = d XOR crc_feed w refin b"
proof -
  have "(c XOR crc_feed w refin a) AND crc_mask w = c XOR crc_feed w refin a"
    "(d XOR crc_feed w refin b) AND crc_mask w = d XOR crc_feed w refin b"
    using assms fits_feed by (auto intro!: mask_id fits_xor)
  then have e: "(crc_shift w poly ^^ 8) (c XOR crc_feed w refin a) = (crc_shift w poly ^^ 8) (d XOR crc_feed w refin b)"
    using assms(6) unfolding crc_byte_def by simp
  have w: "0 < w" using assms(1) by simp
  show ?thesis
    by (rule crc_shifts_inj [OF w assms(2,3) fits_xor [OF assms(4)] fits_xor [OF assms(5)] e]) (rule fits_feed [OF assms(1,2)])+
qed

lemma xor_right_cancel: "(a :: u64) XOR k = b XOR k \<Longrightarrow> a = b"
  by (metis word_xor_cancel)

lemma crc_tail_inj:
  assumes "8 \<le> w" "w \<le> 64" "bit poly 0"
  shows "fits w c \<Longrightarrow> fits w d \<Longrightarrow> foldl (crc_byte w poly refin) c bs = foldl (crc_byte w poly refin) d bs \<Longrightarrow> c = d"
proof (induction bs arbitrary: c d)
  case (Cons b bs)
  then have "crc_byte w poly refin c b = crc_byte w poly refin d b"
    using Cons.IH crc_byte_fold(2) assms(1,2) by simp
  from crc_byte_inj [OF assms Cons.prems(1,2) this] show "c = d"
    by (rule xor_right_cancel)
qed simp

lemma len8: "LENGTH(8) = 8"
  by simp

lemma fed_byte_inj: "fed_byte w refin a = fed_byte w refin b \<Longrightarrow> a = b"
proof -
  assume e: "fed_byte w refin a = fed_byte w refin b"
  have "reflect (reflect (ucast x) 8) 8 = (ucast x :: u64)" for x :: u8
    by (rule reflect_reflect) (simp_all add: fits_byte)
  with e have "(ucast a :: u64) = ucast b" unfolding fed_byte_def by (metis (full_types))
  then have bits: "bit (ucast a :: u64) i = bit (ucast b :: u64) i" for i by simp
  have same: "bit (ucast x :: u64) i = bit x i" if "i < 8" for x :: u8 and i using that by (simp add: bit_simps)
  show "a = b" by (rule bit_eqI) (metis bits same bit_imp_le_length len8)
qed

lemma crc_feed_inj:
  assumes "8 \<le> w" "w \<le> 64" "crc_feed w refin a = crc_feed w refin b"
  shows "a = b"
proof (rule fed_byte_inj)
  show "fed_byte w refin a = fed_byte w refin b"
  proof (rule bit_eqI)
    fix i
    show "bit (fed_byte w refin a) i = bit (fed_byte w refin b) i"
    proof (cases "i < 8")
      case True
      have "bit (push_bit (w - 8) (fed_byte w refin a)) (i + (w - 8)) = bit (push_bit (w - 8) (fed_byte w refin b)) (i + (w - 8))"
        using assms(3) by (simp add: crc_feed_byte)
      moreover have "w - 8 \<le> i + (w - 8)" "i + (w - 8) < 64" using True assms(1,2) by linarith+
      ultimately show ?thesis unfolding bit_shl by simp
    next
      case False
      then show ?thesis using fits_fed unfolding fits_def by blast
    qed
  qed
qed

lemma crc_one_byte:
  assumes w: "8 \<le> w" "w \<le> 64" and poly: "bit poly 0"
    and eq: "crc_compute (xs @ a # ys) w poly init refin refout xorout =
      crc_compute (xs @ b # ys) w poly init refin refout xorout"
  shows "a = b"
proof -
  define c where "c = foldl (crc_byte w poly refin) (init AND crc_mask w) xs"
  have c: "fits w c" using w by (simp add: c_def crc_bytes_fold(2))
  let ?run = "\<lambda>d. foldl (crc_byte w poly refin) (crc_byte w poly refin c d) ys"
  have step: "fits w (crc_byte w poly refin c d)" for d using crc_byte_fold(2) [OF w c] .
  have run: "fits w (?run d)" for d using crc_bytes_fold(2) [OF w step] .
  have plain: "crc_compute (xs @ d # ys) w poly init refin False 0 = ?run d" for d
    using run [of d] w by (simp add: crc_compute_def c_def mask_id)
  have "(if refout then reflect (?run a) w else ?run a) = (if refout then reflect (?run b) w else ?run b)"
    using eq unfolding crc_finish [OF w, of _ poly init refin refout xorout] plain Let_def
    by (rule xor_right_cancel)
  then have "?run a = ?run b"
    using reflect_inj [OF w(2) run run, of a b] by (cases refout) (simp_all only: if_True if_False)
  then have "crc_byte w poly refin c a = crc_byte w poly refin c b"
    using crc_tail_inj [OF w poly step step] by blast
  from crc_byte_inj [OF w poly c c this] have "crc_feed w refin a = crc_feed w refin b"
    unfolding xor.commute [of c] by (rule xor_right_cancel)
  then show ?thesis using w by (intro crc_feed_inj)
qed

lemma presets_odd: "(n, w, poly, init, refin, refout, xorout) \<in> set CRC_PRESETS \<Longrightarrow> 8 \<le> w \<and> w \<le> 64 \<and> bit poly 0"
  unfolding CRC_PRESETS_def by (auto simp: bit_numeral_rec)

text \<open>The width of the printed value, and the sums of Adler-32 and Fletcher.\<close>

lemma to_digits_width: "0 < d \<Longrightarrow> n < 16 ^ d \<Longrightarrow> length (to_digits 16 n) \<le> d"
proof (induction d arbitrary: n)
  case (Suc d)
  show ?case
  proof (cases "n < 16")
    case True
    then show ?thesis by (subst to_digits.simps) simp
  next
    case False
    then have d: "0 < d" using Suc.prems(2) by (cases d) auto
    have "n div 16 < 16 ^ d" using Suc.prems(2) by (simp add: less_mult_imp_div_less)
    from Suc.IH [OF d this] show ?thesis using False by (subst to_digits.simps) simp
  qed
qed simp

lemma fits_less: "w \<le> 64 \<Longrightarrow> fits w v \<Longrightarrow> unat v < 2 ^ w"
proof -
  assume "w \<le> 64" "fits w v"
  then have "take_bit w v = v" by (intro bit_eqI) (auto simp: bit_take_bit_iff fits_def)
  then have "unat v = take_bit w (unat v)" by (metis unsigned_take_bit_eq)
  then show ?thesis by (metis take_bit_nat_less_exp)
qed

lemma format_value_width:
  assumes "4 dvd w" "0 < w" "w \<le> 64" "fits w v"
  shows "length (format_value v w up) = w div 4"
proof -
  obtain d where d: "w = 4 * d" "0 < d" using assms(1,2) by (auto elim: dvdE)
  have "unat v < 16 ^ d" using fits_less [OF assms(3,4)] by (simp add: d(1) power_mult)
  with d(2) have "length (to_digits 16 (unat v)) \<le> d" by (intro to_digits_width)
  then show ?thesis by (simp add: format_value_def Let_def pad_left_def d(1))
qed

lemma running_sums_bound:
  assumes "0 < m" "s1 < m" "s2 < m"
  shows "fst (running_sums m (s1, s2) ws) < m \<and> snd (running_sums m (s1, s2) ws) < m"
  using assms(2,3) unfolding running_sums_def
  by (induction ws arbitrary: s1 s2) (simp_all add: Let_def assms(1))

text \<open>The closed form: the sum of the words, and the sum weighted by the distance to the end.\<close>

fun weighted :: "nat list \<Rightarrow> nat" where
  "weighted [] = 0"
| "weighted (w # ws) = w * (length ws + 1) + weighted ws"

lemma running_sums_closed:
  assumes "0 < m"
  shows "running_sums m (s1 mod m, s2 mod m) ws =
    ((s1 + sum_list ws) mod m, (s2 + s1 * length ws + weighted ws) mod m)"
proof (induction ws arbitrary: s1 s2)
  case (Cons w ws)
  have in_sum: "(s2 + (s1 mod m + w)) mod m = (s2 + (s1 + w)) mod m" by (metis mod_add_left_eq mod_add_right_eq)
  have "running_sums m (s1 mod m, s2 mod m) (w # ws) = running_sums m ((s1 + w) mod m, (s2 + (s1 + w)) mod m) ws"
    by (simp add: running_sums_def Let_def mod_simps in_sum)
  also have "\<dots> = ((s1 + w + sum_list ws) mod m, (s2 + (s1 + w) + (s1 + w) * length ws + weighted ws) mod m)"
    by (rule Cons.IH)
  finally show ?case by (simp add: algebra_simps)
qed (simp add: running_sums_def)

lemma crc8_no_reflection: "crc_compute bs 8 poly init True refout xorout = crc_compute bs 8 poly init False refout xorout"
  by (simp add: crc_compute_def crc_byte_def [abs_def] crc_feed_def)

end
