(* ===== verification/Chef_Kdf.thy ===== *)
theory Chef_Kdf
  imports Chef_Spec
begin

text \<open>
  Message authentication, key derivation and compression: the guards, parameter handling and
  output formats of src-tauri/src/services/chef/ops/kdf.rs and ops/compression.rs. The HMAC, PBKDF2,
  HKDF and bcrypt constructions and the compression libraries are parameters.
\<close>

section \<open>HMAC, PBKDF2, HKDF, bcrypt\<close>

record kdf_ext =
  kdf_b64 :: b64_engine
  hmac_tag :: "ustring \<Rightarrow> bytes \<Rightarrow> bytes \<Rightarrow> bytes option" \<comment> \<open>digest, key, message; \<open>None\<close>: key refused\<close>
  pbkdf2_hmac :: "ustring \<Rightarrow> bytes \<Rightarrow> bytes \<Rightarrow> nat \<Rightarrow> nat \<Rightarrow> bytes" \<comment> \<open>digest, password, salt, rounds, length\<close>
  hkdf_expand :: "ustring \<Rightarrow> bytes \<Rightarrow> bytes \<Rightarrow> bytes \<Rightarrow> nat \<Rightarrow> ustring + bytes" \<comment> \<open>digest, salt, secret, info, length\<close>
  bcrypt_new :: "bytes \<Rightarrow> nat \<Rightarrow> ustring \<Rightarrow> ustring + ustring" \<comment> \<open>password, cost, version prefix\<close>
  bcrypt_check :: "bytes \<Rightarrow> ustring \<Rightarrow> ustring + bool"

definition HMAC_ALGORITHMS :: "ustring list" where
  "HMAC_ALGORITHMS = [lit ''md5'', lit ''sha1'', lit ''sha256'', lit ''sha384'', lit ''sha512'', lit ''sha3_256'',
     lit ''sha3_512'', lit ''ripemd160'', lit ''sm3'']"

definition KEY_FORMATS :: "ustring list" where
  "KEY_FORMATS = [lit ''utf8'', lit ''hex'', lit ''base64'']"

definition OUTPUT_FORMATS :: "ustring list" where
  "OUTPUT_FORMATS = [lit ''hex'', lit ''base64'', lit ''decimal'', lit ''utf8'']"

definition MAX_DERIVED_KEY :: nat where
  "MAX_DERIVED_KEY = 4096"

definition MAX_ITERATIONS :: nat where
  "MAX_ITERATIONS = 2000000"

definition emit_digest :: "kdf_ext \<Rightarrow> bytes \<Rightarrow> args \<Rightarrow> chef_data chef_result" where
  "emit_digest ext bs a =
     rbind (choice_in a (lit ''output'') (lit ''hex'') OUTPUT_FORMATS) (\<lambda>format.
       if format = lit ''hex'' \<and> bool_of a (lit ''uppercase'') then Inr (from_text (hex_encode bs True []))
       else emit_by_format (kdf_b64 ext) bs format)"

definition hmac_with :: "kdf_ext \<Rightarrow> ustring \<Rightarrow> chef_data \<Rightarrow> args \<Rightarrow> bytes \<Rightarrow> chef_data chef_result" where
  "hmac_with ext digest data a key =
     rbind (ok_or (hmac_tag ext digest key (data_bytes data)) (Kdf_Error Hmac_Key_Rejected)) (\<lambda>tag. emit_digest ext tag a)"

definition hmac :: "kdf_ext \<Rightarrow> chef_data \<Rightarrow> args \<Rightarrow> chef_data chef_result" where
  "hmac ext data a =
     rbind (choice_in a (lit ''algorithm'') (lit ''sha256'') HMAC_ALGORITHMS) (\<lambda>algorithm.
     rbind (choice_in a (lit ''keyFormat'') (lit ''utf8'') KEY_FORMATS) (\<lambda>key_format.
       let raw_key = args_text a (lit ''key'') [] in
       if raw_key = [] then Inl (Kdf_Error Hmac_Key_Empty)
       else
         rbind (parse_param_bytes (kdf_b64 ext) raw_key key_format) (\<lambda>key.
           if algorithm \<in> set HMAC_ALGORITHMS then hmac_with ext algorithm data a key
           else Inl (Kdf_Error (Unsupported_Hmac algorithm)))))"

definition guard_iterations :: "args \<Rightarrow> nat chef_result" where
  "guard_iterations a =
     rbind (args_number a (lit ''iterations'') 100000) (\<lambda>iterations.
       if iterations = 0 then Inl (Kdf_Error Iterations_Zero)
       else if MAX_ITERATIONS < iterations then Inl (Kdf_Error (Iterations_Too_Many iterations))
       else Inr iterations)"

definition guard_length :: "args \<Rightarrow> string \<Rightarrow> nat \<Rightarrow> nat chef_result" where
  "guard_length a key dflt =
     rbind (args_number a (lit key) dflt) (\<lambda>length.
       if length = 0 \<or> MAX_DERIVED_KEY < length then Inl (Kdf_Error (Derived_Length_Out_Of_Range (lit key) length))
       else Inr length)"

definition formatted :: "kdf_ext \<Rightarrow> args \<Rightarrow> string \<Rightarrow> string \<Rightarrow> bytes chef_result" where
  "formatted ext a name format_name =
     rbind (choice_in a (lit format_name) (lit ''utf8'') KEY_FORMATS) (\<lambda>format.
       parse_param_bytes (kdf_b64 ext) (args_text a (lit name) []) format)"

definition pbkdf2 :: "kdf_ext \<Rightarrow> chef_data \<Rightarrow> args \<Rightarrow> chef_data chef_result" where
  "pbkdf2 ext data a =
     rbind (choice_in a (lit ''algorithm'') (lit ''sha256'') [lit ''sha1'', lit ''sha256'', lit ''sha512'']) (\<lambda>algorithm.
     rbind (guard_iterations a) (\<lambda>iterations.
     rbind (guard_length a ''keyLength'' 32) (\<lambda>length.
     rbind (formatted ext a ''salt'' ''saltFormat'') (\<lambda>salt.
     rbind (choice_in a (lit ''passwordFormat'') (lit ''utf8'') KEY_FORMATS) (\<lambda>password_format.
     rbind (read_by_format (kdf_b64 ext) data password_format) (\<lambda>password.
       if algorithm \<in> {lit ''sha1'', lit ''sha256'', lit ''sha512''}
       then emit_digest ext (pbkdf2_hmac ext algorithm password salt (iterations mod 2 ^ 32) length) a
       else Inl (Kdf_Error (Unsupported_Pbkdf2 algorithm))))))))"

definition hkdf :: "kdf_ext \<Rightarrow> chef_data \<Rightarrow> args \<Rightarrow> chef_data chef_result" where
  "hkdf ext data a =
     rbind (choice_in a (lit ''algorithm'') (lit ''sha256'') [lit ''sha256'', lit ''sha384'', lit ''sha512'']) (\<lambda>algorithm.
     rbind (guard_length a ''keyLength'' 32) (\<lambda>length.
     rbind (formatted ext a ''salt'' ''saltFormat'') (\<lambda>salt.
     rbind (formatted ext a ''info'' ''infoFormat'') (\<lambda>info.
     rbind (choice_in a (lit ''secretFormat'') (lit ''utf8'') KEY_FORMATS) (\<lambda>secret_format.
     rbind (read_by_format (kdf_b64 ext) data secret_format) (\<lambda>ikm.
     rbind (if algorithm \<in> {lit ''sha256'', lit ''sha384'', lit ''sha512''}
            then rmap_err (\<lambda>e. Kdf_Error (Hkdf_Failed e)) (hkdf_expand ext algorithm salt ikm info length)
            else Inl (Kdf_Error (Unsupported_Hkdf algorithm))) (\<lambda>out.
       emit_digest ext out a)))))))"

definition bcrypt_version :: "ustring \<Rightarrow> ustring chef_result" where
  "bcrypt_version prefix =
     (if prefix \<in> {lit ''$2a$'', lit ''$2b$'', lit ''$2y$'', lit ''$2x$''} then Inr prefix
      else Inl (Kdf_Error (Unknown_Bcrypt_Prefix prefix)))"

definition bcrypt_hash :: "kdf_ext \<Rightarrow> chef_data \<Rightarrow> args \<Rightarrow> chef_data chef_result" where
  "bcrypt_hash ext data a =
     rbind (args_number a (lit ''cost'') 12) (\<lambda>cost.
       if \<not> (4 \<le> cost \<and> cost \<le> 15) then Inl (Kdf_Error (Bcrypt_Cost_Out_Of_Range cost))
       else
         rbind (chef_text data) (\<lambda>password.
           if 72 < length (utf8 password) then Inl (Kdf_Error (Bcrypt_Too_Long (length (utf8 password))))
           else
             rbind (bcrypt_version (args_choice a (lit ''version'') (lit ''$2b$''))) (\<lambda>version.
               rmap from_text (rmap_err (\<lambda>e. Kdf_Error (Bcrypt_Failed e)) (bcrypt_new ext (utf8 password) cost version)))))"

definition bcrypt_verify :: "kdf_ext \<Rightarrow> chef_data \<Rightarrow> args \<Rightarrow> chef_data chef_result" where
  "bcrypt_verify ext data a =
     (let hash = args_text a (lit ''hash'') [] in
      if hash = [] then Inl (Kdf_Error Bcrypt_Hash_Missing)
      else
        rbind (chef_text data) (\<lambda>password.
        rbind (rmap_err (\<lambda>e. Kdf_Error (Bcrypt_Hash_Unreadable e)) (bcrypt_check ext (utf8 password) hash)) (\<lambda>matched.
          Inr (from_text (if matched then [21305, 37197, 65306, 36825, 20010, 21475, 20196, 19982, 32473, 20986, 30340, 21704, 24076, 26159, 21516, 19968, 23545]
            else [19981, 21305, 37197, 65306, 21475, 20196, 19982, 21704, 24076, 19981, 26159, 21516, 19968, 23545])))))"

definition kdf_OPS :: "kdf_ext \<Rightarrow> op_entry list" where
  "kdf_OPS ext =
    [op ''hmac'' ''kdf'' [choice ''algorithm'' ''sha256'' HMAC_ALGORITHMS, text_arg ''key'' [],
       choice ''keyFormat'' ''utf8'' KEY_FORMATS, choice ''output'' ''hex'' OUTPUT_FORMATS, bool_arg ''uppercase'' False] (hmac ext),
     op ''pbkdf2'' ''kdf'' [choice ''algorithm'' ''sha256'' [lit ''sha1'', lit ''sha256'', lit ''sha512''],
       choice ''passwordFormat'' ''utf8'' KEY_FORMATS, text_arg ''salt'' [], choice ''saltFormat'' ''utf8'' KEY_FORMATS,
       number ''iterations'' 100000, number ''keyLength'' 32, choice ''output'' ''hex'' OUTPUT_FORMATS,
       bool_arg ''uppercase'' False] (pbkdf2 ext),
     op ''hkdf'' ''kdf'' [choice ''algorithm'' ''sha256'' [lit ''sha256'', lit ''sha384'', lit ''sha512''],
       choice ''secretFormat'' ''utf8'' KEY_FORMATS, text_arg ''salt'' [], choice ''saltFormat'' ''utf8'' KEY_FORMATS,
       text_arg ''info'' [], choice ''infoFormat'' ''utf8'' KEY_FORMATS, number ''keyLength'' 32,
       choice ''output'' ''hex'' OUTPUT_FORMATS, bool_arg ''uppercase'' False] (hkdf ext),
     op ''bcryptHash'' ''kdf'' [number ''cost'' 12,
       choice ''version'' ''$2b$'' [lit ''$2a$'', lit ''$2b$'', lit ''$2y$'', lit ''$2x$'']] (bcrypt_hash ext),
     op ''bcryptVerify'' ''kdf'' [text_arg ''hash'' []] (bcrypt_verify ext)]"

section \<open>Compression\<close>

text \<open>An encoder is the sink it is created with, the state after writing, and the bytes it leaves.\<close>

record encoder =
  enc_write :: "nat \<Rightarrow> bytes \<Rightarrow> ustring + bytes" \<comment> \<open>level, input; state\<close>
  enc_finish :: "bytes \<Rightarrow> ustring + bytes"

record compression_ext =
  gz_encoder :: encoder
  zlib_encoder :: encoder
  deflate_encoder :: encoder
  brotli_encoder :: encoder
  gz_read :: "bytes \<Rightarrow> ustring + bytes"
  multi_gz_read :: "bytes \<Rightarrow> ustring + bytes"
  zlib_read :: "bytes \<Rightarrow> ustring + bytes"
  deflate_read :: "bytes \<Rightarrow> ustring + bytes"
  brotli_read :: "bytes \<Rightarrow> ustring + bytes"
  bzip2_read :: "bytes \<Rightarrow> ustring + bytes"

definition level :: "args \<Rightarrow> nat" where
  "level a = min (case args_number a (lit ''level'') 6 of Inr n \<Rightarrow> n | Inl _ \<Rightarrow> 6) 9"

definition packed :: "ustring + bytes \<Rightarrow> bytes chef_result" where
  "packed r = rmap_err (\<lambda>e. Compression_Error (Finish_Failed e)) r"

definition unpacked :: "ustring + bytes \<Rightarrow> ustring \<Rightarrow> bytes chef_result" where
  "unpacked r what = rmap_err (\<lambda>e. Compression_Error (Unpack_Failed what e)) r"

definition compress :: "encoder \<Rightarrow> ustring \<Rightarrow> chef_data \<Rightarrow> args \<Rightarrow> chef_data chef_result" where
  "compress enc what data a =
     rbind (rmap_err (\<lambda>e. Compression_Error (Write_Failed what e)) (enc_write enc (level a) (data_bytes data))) (\<lambda>st.
     rbind (packed (enc_finish enc st)) (\<lambda>bs. Inr (chef_new bs)))"

definition gzip :: "compression_ext \<Rightarrow> chef_data \<Rightarrow> args \<Rightarrow> chef_data chef_result" where
  "gzip ext = compress (gz_encoder ext) (lit ''gzip'')"

definition zlib_compress :: "compression_ext \<Rightarrow> chef_data \<Rightarrow> args \<Rightarrow> chef_data chef_result" where
  "zlib_compress ext = compress (zlib_encoder ext) (lit ''zlib'')"

definition deflate :: "compression_ext \<Rightarrow> chef_data \<Rightarrow> args \<Rightarrow> chef_data chef_result" where
  "deflate ext = compress (deflate_encoder ext) (lit ''deflate'')"

definition gunzip :: "compression_ext \<Rightarrow> chef_data \<Rightarrow> args \<Rightarrow> chef_data chef_result" where
  "gunzip ext data a = rmap chef_new (unpacked (gz_read ext (data_bytes data)) (lit ''gzip''))"

definition multi_gunzip :: "compression_ext \<Rightarrow> chef_data \<Rightarrow> args \<Rightarrow> chef_data chef_result" where
  "multi_gunzip ext data a = rmap chef_new (unpacked (multi_gz_read ext (data_bytes data)) [103, 122, 105, 112, 65288, 22810, 27573, 65289])"

definition zlib_decompress :: "compression_ext \<Rightarrow> chef_data \<Rightarrow> args \<Rightarrow> chef_data chef_result" where
  "zlib_decompress ext data a = rmap chef_new (unpacked (zlib_read ext (data_bytes data)) (lit ''zlib''))"

definition inflate :: "compression_ext \<Rightarrow> chef_data \<Rightarrow> args \<Rightarrow> chef_data chef_result" where
  "inflate ext data a = rmap chef_new (unpacked (deflate_read ext (data_bytes data)) (lit ''deflate''))"

definition brotli_compress :: "compression_ext \<Rightarrow> chef_data \<Rightarrow> args \<Rightarrow> chef_data chef_result" where
  "brotli_compress ext data a =
     rbind (args_number a (lit ''level'') 11) (\<lambda>n.
     rbind (rmap_err (\<lambda>e. Compression_Error (Write_Failed (lit ''brotli'') e))
              (enc_write (brotli_encoder ext) (min n 11) (data_bytes data))) (\<lambda>st.
     rbind (rmap_err (\<lambda>e. Compression_Error (Flush_Failed e)) (enc_finish (brotli_encoder ext) st)) (\<lambda>bs.
       Inr (chef_new bs))))"

definition brotli_decompress :: "compression_ext \<Rightarrow> chef_data \<Rightarrow> args \<Rightarrow> chef_data chef_result" where
  "brotli_decompress ext data a = rmap chef_new
     (rmap_err (\<lambda>e. Compression_Error (Unpack_Failed (lit ''brotli'') e)) (brotli_read ext (data_bytes data)))"

definition bzip2_decompress :: "compression_ext \<Rightarrow> chef_data \<Rightarrow> args \<Rightarrow> chef_data chef_result" where
  "bzip2_decompress ext data a = rmap chef_new
     (rmap_err (\<lambda>e. Compression_Error (Unpack_Failed (lit ''bzip2'') e)) (bzip2_read ext (data_bytes data)))"

definition compression_OPS :: "compression_ext \<Rightarrow> op_entry list" where
  "compression_OPS ext =
    [op ''gzip'' ''compression'' [number ''level'' 6] (gzip ext),
     op ''gunzip'' ''compression'' [] (gunzip ext),
     op ''multiGunzip'' ''compression'' [] (multi_gunzip ext),
     op ''zlibCompress'' ''compression'' [number ''level'' 6] (zlib_compress ext),
     op ''zlibDecompress'' ''compression'' [] (zlib_decompress ext),
     op ''deflate'' ''compression'' [number ''level'' 6] (deflate ext),
     op ''inflate'' ''compression'' [] (inflate ext),
     op ''brotliCompress'' ''compression'' [number ''level'' 11] (brotli_compress ext),
     op ''brotliDecompress'' ''compression'' [] (brotli_decompress ext),
     op ''bzip2Decompress'' ''compression'' [] (bzip2_decompress ext)]"

section \<open>The guards hold\<close>

lemma guard_iterations_bound: "guard_iterations a = Inr n \<Longrightarrow> 0 < n \<and> n \<le> MAX_ITERATIONS"
  by (auto simp: guard_iterations_def result_inv split: if_splits)

lemma guard_length_bound: "guard_length a key d = Inr n \<Longrightarrow> 0 < n \<and> n \<le> MAX_DERIVED_KEY"
  by (auto simp: guard_length_def result_inv simp del: lit_Cons split: if_splits)

text \<open>The iteration count the library receives is the one that was asked for: the cast never cuts.\<close>

lemma pbkdf2_iterations:
  assumes "pbkdf2 ext data a = Inr d"
  obtains algorithm password salt iterations len where
    "guard_iterations a = Inr iterations" "guard_length a ''keyLength'' 32 = Inr len"
    "0 < iterations" "iterations \<le> MAX_ITERATIONS" "0 < len" "len \<le> MAX_DERIVED_KEY"
    "emit_digest ext (pbkdf2_hmac ext algorithm password salt iterations len) a = Inr d"
proof -
  obtain algorithm password salt iterations len where
    g: "guard_iterations a = Inr iterations" "guard_length a ''keyLength'' 32 = Inr len"
      "emit_digest ext (pbkdf2_hmac ext algorithm password salt (iterations mod 2 ^ 32) len) a = Inr d"
    using assms by (auto simp: pbkdf2_def result_inv simp del: lit_Cons split: if_splits)
  have "iterations mod 2 ^ 32 = iterations"
    using guard_iterations_bound [OF g(1)] by (simp add: MAX_ITERATIONS_def)
  with g guard_iterations_bound [OF g(1)] guard_length_bound [OF g(2)] show thesis by (auto intro: that)
qed

lemma level_bound: "level a \<le> 9"
  by (simp add: level_def)

lemma kdf_OPS_return: "e \<in> set (kdf_OPS ext) \<Longrightarrow> returns e"
  unfolding kdf_OPS_def by (auto simp: returns_def simp del: lit_Cons)

lemma compression_OPS_return: "e \<in> set (compression_OPS ext) \<Longrightarrow> returns e"
  unfolding compression_OPS_def by (auto simp: returns_def simp del: lit_Cons)

end
