(* ===== verification/Chef_Block.thy ===== *)
theory Chef_Block
  imports Chef_Data
begin

text \<open>
  Block cipher modes and padding of src-tauri/src/services/chef/ops/cipher.rs: \<open>pad\<close>, \<open>unpad\<close>,
  \<open>run_block\<close> with its six modes, and the counter. The block ciphers themselves (crates aes, des and
  sm4) are parameters: a record with the block size and the key set-up, which may reject a key.
\<close>

record block_key =
  encrypt_block :: "bytes \<Rightarrow> bytes"
  decrypt_block :: "bytes \<Rightarrow> bytes"

record block_impl =
  block_size :: nat
  new_from_slice :: "bytes \<Rightarrow> block_key option"

text \<open>
  What the crates document: blocks have a fixed size that fits a byte, both directions map blocks to
  blocks, and decrypting a block undoes encrypting it under the same key.
\<close>

definition block_laws :: "block_impl \<Rightarrow> bool" where
  "block_laws c \<longleftrightarrow> 0 < block_size c \<and> block_size c < 256 \<and>
     (\<forall>key k b. new_from_slice c key = Some k \<longrightarrow> length b = block_size c \<longrightarrow>
        length (encrypt_block k b) = block_size c \<and> length (decrypt_block k b) = block_size c \<and>
        decrypt_block k (encrypt_block k b) = b)"

section \<open>Padding\<close>

definition xor_into :: "bytes \<Rightarrow> bytes \<Rightarrow> bytes" where
  "xor_into target other = map (\<lambda>(t, x). t XOR x) (zip target other) @ drop (length other) target"

definition pad :: "bytes \<Rightarrow> nat \<Rightarrow> ustring \<Rightarrow> bytes chef_result" where
  "pad data block scheme =
     (let need = block - length data mod block in
      if scheme = lit ''none'' then Inr data
      else if scheme = lit ''pkcs7'' then Inr (data @ replicate need (of_nat need))
      else if scheme = lit ''iso7816'' then
        (let out = data @ [0x80] in
         Inr (out @ replicate (if length out mod block = 0 then 0 else block - length out mod block) 0))
      else if scheme = lit ''ansix923'' then Inr (data @ replicate (need - 1) 0 @ [of_nat need])
      else if scheme = lit ''zero'' then
        Inr (if length data mod block = 0 then data else data @ replicate need 0)
      else Inl (Cipher_Error (Unknown_Padding scheme)))"

definition unpad :: "bytes \<Rightarrow> nat \<Rightarrow> ustring \<Rightarrow> bytes chef_result" where
  "unpad data block scheme =
     (if scheme = lit ''zero'' then Inr (trim_end_with (\<lambda>b. b = 0) data)
      else if scheme = lit ''none'' then Inr data
      else if data = [] \<or> length data mod block \<noteq> 0 then Inl (Cipher_Error Ciphertext_Not_Whole_Blocks)
      else if scheme = lit ''pkcs7'' then
        (let n = unat (last data) in
         if n = 0 \<or> block < n \<or> length data < n then Inl (Cipher_Error Pkcs7_Invalid)
         else if \<not> list_all (\<lambda>b. unat b = n) (drop (length data - n) data)
         then Inl (Cipher_Error Pkcs7_Inconsistent)
         else Inr (take (length data - n) data))
      else if scheme = lit ''iso7816'' then
        (let kept = trim_end_with (\<lambda>b. b = 0) data in
         if kept = [] \<or> last kept \<noteq> 0x80 then Inl (Cipher_Error Iso7816_Invalid)
         else Inr (butlast kept))
      else if scheme = lit ''ansix923'' then
        (let n = unat (last data) in
         if n = 0 \<or> block < n then Inl (Cipher_Error Ansix923_Invalid)
         else Inr (take (length data - n) data))
      else Inl (Cipher_Error (Unknown_Padding scheme)))"

definition require_whole_blocks :: "bytes \<Rightarrow> nat \<Rightarrow> unit chef_result" where
  "require_whole_blocks data block =
     (if length data mod block = 0 then Inr ()
      else Inl (Cipher_Error (Data_Not_Whole_Blocks (length data) block)))"

section \<open>Modes\<close>

text \<open>A big-endian counter block: add one to the last byte, carry while a byte becomes zero.\<close>

fun increase_rev :: "bytes \<Rightarrow> bytes" where
  "increase_rev [] = []"
| "increase_rev (b # bs) = (if b + 1 \<noteq> 0 then (b + 1) # bs else (b + 1) # increase_rev bs)"

definition increase_be :: "bytes \<Rightarrow> bytes" where
  "increase_be counter = rev (increase_rev (rev counter))"

definition xor_stream :: "bytes \<Rightarrow> bytes \<Rightarrow> bytes" where
  "xor_stream chunk ks = map (\<lambda>(x, k). x XOR k) (zip chunk ks)"

fun cbc_encrypt :: "(bytes \<Rightarrow> bytes) \<Rightarrow> bytes \<Rightarrow> bytes list \<Rightarrow> bytes" where
  "cbc_encrypt E counter [] = []"
| "cbc_encrypt E counter (c # cs) = (let y = E (xor_into c counter) in y @ cbc_encrypt E y cs)"

fun cbc_decrypt :: "(bytes \<Rightarrow> bytes) \<Rightarrow> bytes \<Rightarrow> bytes list \<Rightarrow> bytes" where
  "cbc_decrypt D counter [] = []"
| "cbc_decrypt D counter (c # cs) = xor_into (D c) counter @ cbc_decrypt D c cs"

fun ctr_mode :: "(bytes \<Rightarrow> bytes) \<Rightarrow> bytes \<Rightarrow> bytes list \<Rightarrow> bytes" where
  "ctr_mode E counter [] = []"
| "ctr_mode E counter (c # cs) = xor_stream c (E counter) @ ctr_mode E (increase_be counter) cs"

fun cfb8_mode :: "(bytes \<Rightarrow> bytes) \<Rightarrow> bool \<Rightarrow> bytes \<Rightarrow> bytes \<Rightarrow> bytes" where
  "cfb8_mode E decrypt register [] = []"
| "cfb8_mode E decrypt register (b # bs) =
     (let produced = b XOR hd (E register)
      in produced # cfb8_mode E decrypt (tl register @ [if decrypt then b else produced]) bs)"

text \<open>\<open>next.resize(block, 0)\<close> on the feedback of a short last chunk.\<close>

definition resize :: "nat \<Rightarrow> bytes \<Rightarrow> bytes" where
  "resize n bs = take n bs @ replicate (n - length bs) 0"

fun cfb_mode :: "(bytes \<Rightarrow> bytes) \<Rightarrow> nat \<Rightarrow> bool \<Rightarrow> bytes \<Rightarrow> bytes list \<Rightarrow> bytes" where
  "cfb_mode E block decrypt register [] = []"
| "cfb_mode E block decrypt register (c # cs) =
     (let produced = xor_stream c (E register)
      in produced @ cfb_mode E block decrypt (resize block (if decrypt then c else produced)) cs)"

fun ofb_mode :: "(bytes \<Rightarrow> bytes) \<Rightarrow> bytes \<Rightarrow> bytes list \<Rightarrow> bytes" where
  "ofb_mode E register [] = []"
| "ofb_mode E register (c # cs) = xor_stream c (E register) @ ofb_mode E (E register) cs"

definition run_block ::
    "block_impl \<Rightarrow> ustring \<Rightarrow> ustring \<Rightarrow> bytes \<Rightarrow> bytes \<Rightarrow> bytes \<Rightarrow> bool \<Rightarrow> bytes chef_result" where
  "run_block c mode padding key iv data decrypt =
     rbind (ok_or (new_from_slice c key) (Cipher_Error (Key_Not_Accepted (length key)))) (\<lambda>k.
     let block = block_size c; E = encrypt_block k; D = decrypt_block k in
     if mode \<noteq> lit ''ecb'' \<and> length iv \<noteq> block then Inl (Cipher_Error (Bad_Iv_Length mode block (length iv)))
     else if mode = lit ''ecb'' then
       (if decrypt then
          rbind (require_whole_blocks data block) (\<lambda>_. unpad (concat (map D (chunks block data))) block padding)
        else
          rbind (pad data block padding) (\<lambda>buf.
          rbind (require_whole_blocks buf block) (\<lambda>_. Inr (concat (map E (chunks block buf))))))
     else if mode = lit ''cbc'' then
       (if decrypt then
          rbind (require_whole_blocks data block) (\<lambda>_. unpad (cbc_decrypt D iv (chunks block data)) block padding)
        else
          rbind (pad data block padding) (\<lambda>buf.
          rbind (require_whole_blocks buf block) (\<lambda>_. Inr (cbc_encrypt E iv (chunks block buf)))))
     else if mode = lit ''ctr'' then Inr (ctr_mode E iv (chunks block data))
     else if mode = lit ''cfb8'' then Inr (cfb8_mode E decrypt iv data)
     else if mode = lit ''cfb128'' then Inr (cfb_mode E block decrypt iv (chunks block data))
     else if mode = lit ''ofb'' then Inr (ofb_mode E iv (chunks block data))
     else Inl (Cipher_Error (Unknown_Mode mode)))"

section \<open>Unpadding what was padded\<close>

text \<open>Paddings that are removed exactly, whatever the data.\<close>

definition exact_padding :: "ustring \<Rightarrow> bool" where
  "exact_padding s \<longleftrightarrow> s = lit ''pkcs7'' \<or> s = lit ''iso7816'' \<or> s = lit ''ansix923''"

text \<open>When a padding gives the data back: always, for whole blocks, or for data without a zero at the end.\<close>

definition recoverable :: "ustring \<Rightarrow> nat \<Rightarrow> bytes \<Rightarrow> bool" where
  "recoverable s block data \<longleftrightarrow> exact_padding s \<or> (s = lit ''none'' \<and> block dvd length data) \<or>
     (s = lit ''zero'' \<and> (data = [] \<or> last data \<noteq> 0))"

lemma need_bounds:
  assumes "0 < (block :: nat)"
  shows "0 < block - n mod block" "block - n mod block \<le> block" "block dvd n + (block - n mod block)"
proof -
  show "0 < block - n mod block" "block - n mod block \<le> block" using assms by simp_all
  have "n mod block \<le> n" "n mod block \<le> block" using assms by (simp_all add: less_imp_le)
  then have e: "n + (block - n mod block) = (n - n mod block) + block" by linarith
  have "block dvd n - n mod block" by (rule dvd_minus_mod)
  then show "block dvd n + (block - n mod block)" unfolding e by (rule dvd_add) (rule dvd_refl)
qed

lemma trim_zeros: "trim_end_with (\<lambda>b. b = 0) (xs @ replicate n 0) = trim_end_with (\<lambda>b. b = 0) xs"
proof -
  have "dropWhile (\<lambda>b. b = 0) (replicate n 0 @ ys) = dropWhile (\<lambda>b. b = 0) ys" for ys :: "'a::zero list"
    by (induction n) auto
  then show ?thesis by (simp add: trim_end_with_def)
qed

lemma pad_exact:
  assumes "exact_padding s" "0 < block" "block < 256"
  shows "\<exists>out. pad data block s = Inr out \<and> block dvd length out \<and> unpad out block s = Inr data"
proof -
  define need where "need = block - length data mod block"
  have need: "0 < need" "need \<le> block" "block dvd length data + need"
    using need_bounds [OF assms(2)] unfolding need_def by blast+
  have u: "unat (of_nat need :: u8) = need" using need(2) assms(3) by (simp add: unat_of_nat_u8)
  consider "s = lit ''pkcs7''" | "s = lit ''iso7816''" | "s = lit ''ansix923''"
    using assms(1) unfolding exact_padding_def by blast
  then show ?thesis
  proof cases
    case 1
    have "pad data block s = Inr (data @ replicate need (of_nat need))"
      unfolding pad_def 1 Let_def need_def [symmetric] by simp
    moreover have "unpad (data @ replicate need (of_nat need)) block s = Inr data"
      unfolding unpad_def 1 Let_def using need u by (simp add: last_append mod_eq_0_iff_dvd list_all_iff)
    ultimately show ?thesis using need(3) by simp
  next
    case 2
    let ?fill = "if length (data @ [0x80]) mod block = 0 then 0 else block - length (data @ [0x80]) mod block"
    have "pad data block s = Inr ((data @ [0x80]) @ replicate ?fill 0)"
      unfolding pad_def 2 Let_def by simp
    moreover have d: "block dvd length ((data @ [0x80]) @ replicate ?fill 0)"
      using need_bounds(3) [OF assms(2), of "length (data @ [0x80])"] by (auto simp: mod_eq_0_iff_dvd)
    moreover have "unpad ((data @ [0x80]) @ replicate ?fill 0) block s = Inr data"
      using d unfolding unpad_def 2 Let_def trim_zeros
      by (simp add: trim_end_with_last mod_eq_0_iff_dvd)
    ultimately show ?thesis by blast
  next
    case 3
    have "pad data block s = Inr (data @ replicate (need - 1) 0 @ [of_nat need])"
      unfolding pad_def 3 Let_def need_def [symmetric] by simp
    moreover have "length (data @ replicate (need - 1) 0 @ [of_nat need :: u8]) = length data + need"
      using need(1) by simp
    moreover have "unpad (data @ replicate (need - 1) 0 @ [of_nat need]) block s = Inr data"
      unfolding unpad_def 3 Let_def calculation(2) using need u by (simp add: mod_eq_0_iff_dvd)
    ultimately show ?thesis using need(3) by auto
  qed
qed

lemma pad_recoverable:
  assumes "recoverable s block data" "0 < block" "block < 256"
  shows "\<exists>out. pad data block s = Inr out \<and> block dvd length out \<and> unpad out block s = Inr data"
proof -
  consider "exact_padding s" | "s = lit ''none''" "block dvd length data"
    | "s = lit ''zero''" "data = [] \<or> last data \<noteq> 0"
    using assms(1) unfolding recoverable_def by blast
  then show ?thesis
  proof cases
    case 1
    then show ?thesis using pad_exact assms(2,3) by blast
  next
    case 2
    then show ?thesis by (simp add: pad_def unpad_def)
  next
    case 3
    have "trim_end_with (\<lambda>b. b = 0) data = data"
      using 3(2) trim_end_with_last [of data "\<lambda>b. b = 0"] by (cases "data = []") (simp_all add: trim_end_with_def)
    then show ?thesis
      using 3(1) need_bounds(3) [OF assms(2), of "length data"]
      by (auto simp: pad_def unpad_def Let_def trim_zeros mod_eq_0_iff_dvd)
  qed
qed

section \<open>The modes undo each other\<close>

lemma length_xor_stream [simp]: "length (xor_stream c k) = min (length c) (length k)"
  by (simp add: xor_stream_def)

lemma xor_stream_twice: "length c \<le> length k \<Longrightarrow> xor_stream (xor_stream c k) k = c"
  unfolding xor_stream_def by (rule zip_map_xor_involutive)

lemma xor_into_stream: "length other = length target \<Longrightarrow> xor_into target other = xor_stream target other"
  by (simp add: xor_into_def xor_stream_def)

lemma length_xor_into [simp]: "length (xor_into t x) = length t"
  by (simp add: xor_into_def min_def)

lemma length_increase_be [simp]: "length (increase_be c) = length c"
proof -
  have "length (increase_rev bs) = length bs" for bs by (induction bs) auto
  then show ?thesis by (simp add: increase_be_def)
qed

text \<open>A keyed pair of block functions of block size \<open>n\<close>.\<close>

definition block_pair :: "nat \<Rightarrow> (bytes \<Rightarrow> bytes) \<Rightarrow> (bytes \<Rightarrow> bytes) \<Rightarrow> bool" where
  "block_pair n E D \<longleftrightarrow> 0 < n \<and> (\<forall>b. length b = n \<longrightarrow> length (E b) = n \<and> length (D b) = n \<and> D (E b) = b)"

lemma ecb_inverse:
  assumes "block_pair n E D" "\<And>c. c \<in> set cs \<Longrightarrow> length c = n"
  shows "concat (map D (chunks n (concat (map E cs)))) = concat cs"
proof -
  have "chunks n (concat (map E cs)) = map E cs"
    using assms by (intro chunks_concat) (auto simp: block_pair_def)
  moreover have "map D (map E cs) = cs"
    using assms by (auto simp: block_pair_def intro!: map_idI)
  ultimately show ?thesis by simp
qed

lemma ecb_length:
  assumes "block_pair n E D" "\<And>c. c \<in> set cs \<Longrightarrow> length c = n"
  shows "length (concat (map E cs)) = length cs * n"
  using assms by (induction cs) (auto simp: block_pair_def)

lemma cbc_inverse:
  assumes "block_pair n E D"
  shows "length iv = n \<Longrightarrow> (\<And>c. c \<in> set cs \<Longrightarrow> length c = n) \<Longrightarrow>
    cbc_decrypt D iv (chunks n (cbc_encrypt E iv cs)) = concat cs \<and> length (cbc_encrypt E iv cs) = length cs * n"
proof (induction cs arbitrary: iv)
  case (Cons c cs)
  let ?y = "E (xor_into c iv)"
  have len: "length c = n" "length (xor_into c iv) = n" "length ?y = n" and n: "0 < n"
    using Cons.prems assms by (simp_all add: block_pair_def)
  have ih: "cbc_decrypt D ?y (chunks n (cbc_encrypt E ?y cs)) = concat cs"
    "length (cbc_encrypt E ?y cs) = length cs * n"
    using Cons.IH [OF len(3)] Cons.prems(2) by auto
  have "D ?y = xor_into c iv" using assms len(2) by (simp add: block_pair_def)
  then have "xor_into (D ?y) iv = c"
    using Cons.prems(1) len(1) by (simp add: xor_into_stream xor_stream_twice)
  then show ?case
    using ih len n by (simp add: Let_def chunks_append)
qed simp

text \<open>The stream modes, where encryption and decryption run the same loop.\<close>

lemma chunks_produced:
  assumes "0 < n" "data \<noteq> []" "length p = length (take n data)" "drop n data = [] \<Longrightarrow> rest = []"
  shows "chunks n (p @ rest) = p # chunks n rest"
proof (cases "length p = n")
  case True
  then show ?thesis using assms(1) by (rule chunks_append)
next
  case False
  then have "drop n data = []" using assms(3) by auto
  then have "rest = []" by (rule assms(4))
  moreover have "take n data \<noteq> []" using assms(1,2) by simp
  then have "p \<noteq> []" using assms(3) by (metis length_0_conv)
  moreover have "length p \<le> n" using assms(3) by simp
  ultimately show ?thesis by (simp add: chunks_short)
qed

lemma first_chunk:
  assumes "length ks = n"
  shows "length (xor_stream (take n data) ks) = length (take n data)"
    "xor_stream (xor_stream (take n data) ks) ks = take n data"
  using assms by (auto intro!: xor_stream_twice)

lemma ctr_inverse:
  assumes "block_pair n E D"
  shows "length iv = n \<Longrightarrow> ctr_mode E iv (chunks n (ctr_mode E iv (chunks n data))) = data"
proof (induction "length data" arbitrary: data iv rule: less_induct)
  case less
  have n: "0 < n" and E: "length (E iv) = n" using assms less.prems by (simp_all add: block_pair_def)
  show ?case
  proof (cases "data = []")
    case False
    let ?p = "xor_stream (take n data) (E iv)" and ?rest = "ctr_mode E (increase_be iv) (chunks n (drop n data))"
    have "chunks n (?p @ ?rest) = ?p # chunks n ?rest"
      using n False first_chunk(1) [OF E] by (rule chunks_produced) simp
    moreover have "ctr_mode E (increase_be iv) (chunks n ?rest) = drop n data"
      by (rule less.hyps) (use n False less.prems in simp_all)
    ultimately show ?thesis
      using n False first_chunk(2) [OF E, of data] by (simp add: chunks_step)
  qed simp
qed

lemma ofb_inverse:
  assumes "block_pair n E D"
  shows "length iv = n \<Longrightarrow> ofb_mode E iv (chunks n (ofb_mode E iv (chunks n data))) = data"
proof (induction "length data" arbitrary: data iv rule: less_induct)
  case less
  have n: "0 < n" and E: "length (E iv) = n" using assms less.prems by (simp_all add: block_pair_def)
  show ?case
  proof (cases "data = []")
    case False
    let ?p = "xor_stream (take n data) (E iv)" and ?rest = "ofb_mode E (E iv) (chunks n (drop n data))"
    have "chunks n (?p @ ?rest) = ?p # chunks n ?rest"
      using n False first_chunk(1) [OF E] by (rule chunks_produced) simp
    moreover have "ofb_mode E (E iv) (chunks n ?rest) = drop n data"
      by (rule less.hyps) (use n False E in simp_all)
    ultimately show ?thesis
      using n False first_chunk(2) [OF E, of data] by (simp add: chunks_step)
  qed simp
qed

lemma cfb_inverse:
  assumes "block_pair n E D"
  shows "length iv = n \<Longrightarrow> cfb_mode E n True iv (chunks n (cfb_mode E n False iv (chunks n data))) = data"
proof (induction "length data" arbitrary: data iv rule: less_induct)
  case less
  have n: "0 < n" and E: "length (E iv) = n" using assms less.prems by (simp_all add: block_pair_def)
  show ?case
  proof (cases "data = []")
    case False
    let ?p = "xor_stream (take n data) (E iv)"
    let ?rest = "cfb_mode E n False (resize n ?p) (chunks n (drop n data))"
    have "chunks n (?p @ ?rest) = ?p # chunks n ?rest"
      using n False first_chunk(1) [OF E] by (rule chunks_produced) simp
    moreover have "cfb_mode E n True (resize n ?p) (chunks n ?rest) = drop n data"
      by (rule less.hyps) (use n False in \<open>simp_all add: resize_def\<close>)
    ultimately show ?thesis
      using n False first_chunk(2) [OF E, of data] by (simp add: chunks_step Let_def)
  qed simp
qed

lemma cfb8_inverse: "cfb8_mode E True iv (cfb8_mode E False iv data) = data"
  by (induction data arbitrary: iv) (simp_all add: Let_def word_xor_cancel)

section \<open>Decryption undoes encryption\<close>

definition stream_mode :: "ustring \<Rightarrow> bool" where
  "stream_mode mode \<longleftrightarrow> mode = lit ''ctr'' \<or> mode = lit ''cfb8'' \<or> mode = lit ''cfb128'' \<or> mode = lit ''ofb''"

definition chain_mode :: "ustring \<Rightarrow> bool" where
  "chain_mode mode \<longleftrightarrow> mode = lit ''ecb'' \<or> mode = lit ''cbc''"

lemma block_laws_pair:
  "block_laws c \<Longrightarrow> new_from_slice c key = Some k \<Longrightarrow> block_pair (block_size c) (encrypt_block k) (decrypt_block k)"
  by (simp add: block_laws_def block_pair_def)

lemma run_block_stream:
  assumes laws: "block_laws c" and k: "new_from_slice c key = Some k"
    and iv: "length iv = block_size c" and mode: "stream_mode mode"
  shows "\<exists>out. run_block c mode padding key iv data False = Inr out \<and>
    run_block c mode padding key iv out True = Inr data"
proof -
  note bp = block_laws_pair [OF laws k]
  consider "mode = lit ''ctr''" | "mode = lit ''cfb8''" | "mode = lit ''cfb128''" | "mode = lit ''ofb''"
    using mode unfolding stream_mode_def by blast
  then show ?thesis
    by cases (simp_all add: run_block_def k iv Let_def ctr_inverse [OF bp] cfb8_inverse cfb_inverse [OF bp]
        ofb_inverse [OF bp])
qed

lemma run_block_chain:
  assumes laws: "block_laws c" and k: "new_from_slice c key = Some k"
    and iv: "mode = lit ''cbc'' \<Longrightarrow> length iv = block_size c" and mode: "chain_mode mode"
    and pad: "recoverable padding (block_size c) data"
  shows "\<exists>out. run_block c mode padding key iv data False = Inr out \<and>
    run_block c mode padding key iv out True = Inr data"
proof -
  let ?n = "block_size c"
  note bp = block_laws_pair [OF laws k]
  have n: "0 < ?n" "?n < 256" using laws by (simp_all add: block_laws_def)
  obtain buf where buf: "pad data ?n padding = Inr buf" "?n dvd length buf" "unpad buf ?n padding = Inr data"
    using pad_recoverable [OF pad n] by blast
  have whole: "require_whole_blocks buf ?n = Inr ()" using buf(2) by (simp add: require_whole_blocks_def)
  have cs: "\<And>x. x \<in> set (chunks ?n buf) \<Longrightarrow> length x = ?n" using chunks_whole [OF buf(2)] .
  have cat: "concat (chunks ?n buf) = buf" using n by (simp add: concat_chunks)
  consider (ecb) "mode = lit ''ecb''" | (cbc) "mode = lit ''cbc''" using mode unfolding chain_mode_def by blast
  then show ?thesis
  proof cases
    case ecb
    have "require_whole_blocks (concat (map (encrypt_block k) (chunks ?n buf))) ?n = Inr ()"
      using ecb_length [OF bp cs] by (simp add: require_whole_blocks_def)
    then show ?thesis
      using ecb_inverse [OF bp cs] by (simp add: run_block_def k ecb Let_def buf whole cat)
  next
    case cbc
    note inv = cbc_inverse [OF bp iv [OF cbc] cs]
    have "require_whole_blocks (cbc_encrypt (encrypt_block k) iv (chunks ?n buf)) ?n = Inr ()"
      using inv by (simp add: require_whole_blocks_def)
    then show ?thesis
      using inv by (simp add: run_block_def k cbc iv [OF cbc] Let_def buf whole cat)
  qed
qed

end
