(* ===== verification/Chef_Cipher.thy ===== *)
theory Chef_Cipher
  imports Chef_Block Chef_Spec Complex_Main "HOL-Library.Multiset" "HOL-Library.Product_Lexorder"
begin

text \<open>
  The operations of src-tauri/src/services/chef/ops/cipher.rs: symmetric ciphers over \<open>run_block\<close>,
  RC4, XOR and its brute force, ChaCha20, the two AEAD constructions, RSA, and the classical ciphers.
  Block ciphers, ChaCha20, the AEADs, RSA and the two-decimal rendering of a floating point number
  are parameters, in the record \<open>cipher_ext\<close>.
\<close>

record cipher_ext =
  cip_b64 :: b64_engine
  aes128 :: block_impl
  aes192 :: block_impl
  aes256 :: block_impl
  des :: block_impl
  tdes :: block_impl
  sm4 :: block_impl
  chacha_accepts :: "bytes \<Rightarrow> bytes \<Rightarrow> bool"
  chacha_apply :: "bytes \<Rightarrow> bytes \<Rightarrow> nat \<Rightarrow> bytes \<Rightarrow> bytes option" \<comment> \<open>key, nonce, position; \<open>None\<close> is a panic\<close>
  gcm_encrypt :: "bytes \<Rightarrow> bytes \<Rightarrow> bytes \<Rightarrow> bytes \<Rightarrow> ustring + bytes" \<comment> \<open>key, nonce, aad, message\<close>
  gcm_decrypt :: "bytes \<Rightarrow> bytes \<Rightarrow> bytes \<Rightarrow> bytes \<Rightarrow> bytes option"
  poly_encrypt :: "bytes \<Rightarrow> bytes \<Rightarrow> bytes \<Rightarrow> bytes \<Rightarrow> ustring + bytes"
  poly_decrypt :: "bytes \<Rightarrow> bytes \<Rightarrow> bytes \<Rightarrow> bytes \<Rightarrow> bytes option"
  rsa_public :: "ustring \<Rightarrow> ustring + ustring" \<comment> \<open>PEM to a key handle\<close>
  rsa_private_pkcs8 :: "ustring \<Rightarrow> ustring + ustring"
  rsa_private_pkcs1 :: "ustring \<Rightarrow> ustring + ustring"
  rsa_size :: "ustring \<Rightarrow> nat"
  rsa_seal :: "ustring \<Rightarrow> ustring \<Rightarrow> bytes \<Rightarrow> ustring + bytes" \<comment> \<open>key, padding, message\<close>
  rsa_open :: "ustring \<Rightarrow> ustring \<Rightarrow> bytes \<Rightarrow> ustring + bytes"
  rsa_new :: "nat \<Rightarrow> ustring + ustring \<times> ustring" \<comment> \<open>bits; private and public PEM\<close>
  two_decimals :: "nat \<Rightarrow> nat \<Rightarrow> ustring" \<comment> \<open>\<open>{:.2}\<close> of a quotient\<close>

definition MODES :: "ustring list" where
  "MODES = [lit ''cbc'', lit ''ecb'', lit ''ctr'', lit ''cfb8'', lit ''cfb128'', lit ''ofb'']"

definition PADDINGS :: "ustring list" where
  "PADDINGS = [lit ''pkcs7'', lit ''none'', lit ''iso7816'', lit ''ansix923'', lit ''zero'']"

definition FORMATS :: "ustring list" where
  "FORMATS = [lit ''utf8'', lit ''hex'', lit ''base64'', lit ''decimal'']"

section \<open>Symmetric ciphers\<close>

type_synonym block_runner = "ustring \<Rightarrow> ustring \<Rightarrow> bytes \<Rightarrow> bytes \<Rightarrow> bytes \<Rightarrow> bool \<Rightarrow> bytes chef_result"

text \<open>The macro \<open>keyed_block!\<close>: the implementation for the key's length.\<close>

definition keyed_block :: "ustring \<Rightarrow> (nat \<times> block_impl) list \<Rightarrow> block_runner" where
  "keyed_block label impls mode padding key iv data decrypt =
     (case map_of impls (length key) of
        Some c \<Rightarrow> run_block c mode padding key iv data decrypt
      | None \<Rightarrow> Inl (Cipher_Error (Bad_Key_Length label (map fst impls) (length key))))"

definition aes_block :: "cipher_ext \<Rightarrow> block_runner" where
  "aes_block ext = keyed_block (lit ''AES'') [(16, aes128 ext), (24, aes192 ext), (32, aes256 ext)]"

definition des_block :: "cipher_ext \<Rightarrow> block_runner" where
  "des_block ext = keyed_block (lit ''DES'') [(8, des ext)]"

definition sm4_block :: "cipher_ext \<Rightarrow> block_runner" where
  "sm4_block ext = keyed_block (lit ''SM4'') [(16, sm4 ext)]"

definition des3_block :: "cipher_ext \<Rightarrow> block_runner" where
  "des3_block ext mode padding key iv data decrypt =
     (if length key = 24 then run_block (tdes ext) mode padding key iv data decrypt
      else if length key = 16 then run_block (tdes ext) mode padding (key @ take 8 key) iv data decrypt
      else Inl (Cipher_Error (Bad_3des_Key_Length (length key))))"

definition param :: "cipher_ext \<Rightarrow> args \<Rightarrow> string \<Rightarrow> string \<Rightarrow> string \<Rightarrow> bytes chef_result" where
  "param ext a name format_name dflt =
     rbind (choice_in a (lit format_name) (lit dflt) FORMATS) (\<lambda>format.
       parse_param_bytes (cip_b64 ext) (args_text a (lit name) []) format)"

definition read_input :: "cipher_ext \<Rightarrow> chef_data \<Rightarrow> args \<Rightarrow> string \<Rightarrow> bytes chef_result" where
  "read_input ext data a dflt =
     rbind (choice_in a (lit ''inputFormat'') (lit dflt) FORMATS) (\<lambda>format. read_by_format (cip_b64 ext) data format)"

definition emit_output :: "cipher_ext \<Rightarrow> bytes \<Rightarrow> args \<Rightarrow> string \<Rightarrow> chef_data chef_result" where
  "emit_output ext bs a dflt =
     rbind (choice_in a (lit ''outputFormat'') (lit dflt) FORMATS) (\<lambda>format. emit_by_format (cip_b64 ext) bs format)"

definition symmetric ::
    "cipher_ext \<Rightarrow> chef_data \<Rightarrow> args \<Rightarrow> bool \<Rightarrow> block_runner \<Rightarrow> ustring \<Rightarrow> chef_data chef_result" where
  "symmetric ext data a decrypt runner label =
     rbind (choice_in a (lit ''mode'') (lit ''cbc'') MODES) (\<lambda>mode.
     rbind (choice_in a (lit ''padding'') (lit ''pkcs7'') PADDINGS) (\<lambda>padding.
     rbind (param ext a ''key'' ''keyFormat'' ''hex'') (\<lambda>key.
     rbind (param ext a ''iv'' ''ivFormat'' ''hex'') (\<lambda>iv.
     if key = [] then Inl (Cipher_Error (Missing_Key label))
     else
       rbind (read_input ext data a (if decrypt then ''base64'' else ''utf8'')) (\<lambda>input.
       rbind (rmap_err (Block_Failed label mode) (runner mode padding key iv input decrypt)) (\<lambda>out.
         emit_output ext out a (if decrypt then ''utf8'' else ''base64'')))))))"

definition aes_encrypt :: "cipher_ext \<Rightarrow> chef_data \<Rightarrow> args \<Rightarrow> chef_data chef_result" where
  "aes_encrypt ext data a = symmetric ext data a False (aes_block ext) (lit ''AES'')"

definition aes_decrypt :: "cipher_ext \<Rightarrow> chef_data \<Rightarrow> args \<Rightarrow> chef_data chef_result" where
  "aes_decrypt ext data a = symmetric ext data a True (aes_block ext) (lit ''AES'')"

definition des_encrypt :: "cipher_ext \<Rightarrow> chef_data \<Rightarrow> args \<Rightarrow> chef_data chef_result" where
  "des_encrypt ext data a = symmetric ext data a False (des_block ext) (lit ''DES'')"

definition des_decrypt :: "cipher_ext \<Rightarrow> chef_data \<Rightarrow> args \<Rightarrow> chef_data chef_result" where
  "des_decrypt ext data a = symmetric ext data a True (des_block ext) (lit ''DES'')"

definition des3_encrypt :: "cipher_ext \<Rightarrow> chef_data \<Rightarrow> args \<Rightarrow> chef_data chef_result" where
  "des3_encrypt ext data a = symmetric ext data a False (des3_block ext) (lit ''3DES'')"

definition des3_decrypt :: "cipher_ext \<Rightarrow> chef_data \<Rightarrow> args \<Rightarrow> chef_data chef_result" where
  "des3_decrypt ext data a = symmetric ext data a True (des3_block ext) (lit ''3DES'')"

definition sm4_encrypt :: "cipher_ext \<Rightarrow> chef_data \<Rightarrow> args \<Rightarrow> chef_data chef_result" where
  "sm4_encrypt ext data a = symmetric ext data a False (sm4_block ext) (lit ''SM4'')"

definition sm4_decrypt :: "cipher_ext \<Rightarrow> chef_data \<Rightarrow> args \<Rightarrow> chef_data chef_result" where
  "sm4_decrypt ext data a = symmetric ext data a True (sm4_block ext) (lit ''SM4'')"

section \<open>RC4 and XOR\<close>

definition swap :: "bytes \<Rightarrow> nat \<Rightarrow> nat \<Rightarrow> bytes" where
  "swap s i j = s[i := s ! j, j := s ! i]"

text \<open>Key scheduling: \<open>i\<close> from 0 to 255.\<close>

definition rc4_ksa :: "bytes \<Rightarrow> bytes" where
  "rc4_ksa key =
     fst (foldl (\<lambda>(state, j) i. let j' = j + state ! i + key ! (i mod length key) in (swap state i (unat j'), j'))
       (map of_nat [0..<256], 0) [0..<256])"

type_synonym rc4_state = "bytes \<times> u8 \<times> u8"

definition rc4_step :: "rc4_state \<Rightarrow> rc4_state" where
  "rc4_step = (\<lambda>(state, i, j).
     let i' = i + 1; j' = j + state ! unat i' in (swap state (unat i') (unat j'), i', j'))"

definition rc4_byte :: "rc4_state \<Rightarrow> u8" where
  "rc4_byte = (\<lambda>(state, i, j). state ! unat (state ! unat i + state ! unat j))"

fun rc4_apply :: "rc4_state \<Rightarrow> bytes \<Rightarrow> bytes" where
  "rc4_apply st [] = []"
| "rc4_apply st (b # bs) = (let st' = rc4_step st in (b XOR rc4_byte st') # rc4_apply st' bs)"

definition rc4_keystream_xor :: "bytes \<Rightarrow> bytes \<Rightarrow> nat \<Rightarrow> bytes" where
  "rc4_keystream_xor key data dropped = rc4_apply ((rc4_step ^^ dropped) (rc4_ksa key, 0, 0)) data"

definition read_key :: "cipher_ext \<Rightarrow> args \<Rightarrow> string \<Rightarrow> bytes chef_result" where
  "read_key ext a dflt =
     rbind (param ext a ''key'' ''keyFormat'' dflt) (\<lambda>key.
       if key = [] then Inl (Cipher_Error Missing_Stream_Key) else Inr key)"

definition rc4 :: "cipher_ext \<Rightarrow> chef_data \<Rightarrow> args \<Rightarrow> chef_data chef_result" where
  "rc4 ext data a =
     rbind (read_key ext a ''utf8'') (\<lambda>key.
     rbind (args_number a (lit ''drop'') 0) (\<lambda>n.
       Inr (chef_new (rc4_keystream_xor key (data_bytes data) n))))"

definition xor_key :: "bytes \<Rightarrow> bytes \<Rightarrow> bytes" where
  "xor_key key data = map (\<lambda>(i, b). b XOR key ! (i mod length key)) (enumerate 0 data)"

definition xor_op :: "cipher_ext \<Rightarrow> chef_data \<Rightarrow> args \<Rightarrow> chef_data chef_result" where
  "xor_op ext data a =
     rbind (read_key ext a ''hex'') (\<lambda>key. Inr (chef_new (xor_key key (data_bytes data))))"

text \<open>
  One candidate of the brute force: key, letters and spaces, printable bytes, all bytes of the
  rendered text, its first 160 characters. The code compares the quotients as \<open>f64\<close>; for lengths
  below \<open>2 ^ 26\<close> different quotients stay different, so the order is that of the rationals.
\<close>

record candidate =
  cand_key :: u8
  cand_word :: nat
  cand_print :: nat
  cand_total :: nat
  cand_text :: ustring

definition candidate_of :: "bytes \<Rightarrow> u8 \<Rightarrow> candidate" where
  "candidate_of data key =
     (let rendered = from_utf8_lossy (map (\<lambda>b. b XOR key) data); bs = map unat (utf8 rendered) in
      \<lparr>cand_key = key,
       cand_word = length (filter (\<lambda>b. is_ascii_alphabetic b \<or> b = 32) bs),
       cand_print = length (filter (\<lambda>b. is_ascii_graphic b \<or> b \<in> {32, 10, 13, 9}) bs),
       cand_total = max (length bs) 1,
       cand_text = take 160 (map (\<lambda>c. if c = 10 then 0x23CE else c) rendered)\<rparr>)"

definition candidate_order :: "candidate \<Rightarrow> rat \<times> rat \<times> nat" where
  "candidate_order c = (- Fract (int (cand_word c)) (int (cand_total c)),
     - Fract (int (cand_print c)) (int (cand_total c)), unat (cand_key c))"

definition brute_candidates :: "bytes \<Rightarrow> bool \<Rightarrow> candidate list" where
  "brute_candidates data printable_only =
     filter (\<lambda>c. \<not> (printable_only \<and> cand_print c * 10 < cand_total c * 9))
       (map (\<lambda>k. candidate_of data (of_nat k)) [0..<256])"

definition brute_line :: "cipher_ext \<Rightarrow> candidate \<Rightarrow> ustring" where
  "brute_line ext c = lit ''0x'' @ hex2 (cand_key c) @ [32, 183, 32] @ two_decimals ext (cand_word c) (cand_total c) @
     [32, 183, 32] @ cand_text c @ [10]"

definition brute_title :: ustring where
  "brute_title = [25353, 12300, 20687, 27491, 24120, 25991, 26412, 30340, 27604, 20363, 12301, 25490, 24207, 30340, 20505, 36873, 65288, 23494, 38053, 32, 183, 32, 27604, 20363, 32, 183, 32, 32467, 26524, 65289, 65306, 10]"

definition xor_brute_force :: "cipher_ext \<Rightarrow> chef_data \<Rightarrow> args \<Rightarrow> chef_data chef_result" where
  "xor_brute_force ext data a =
     (if data_bytes data = [] then Inl (Cipher_Error Brute_Empty)
      else
        rbind (args_number a (lit ''top'') 10) (\<lambda>n.
          let scored = brute_candidates (data_bytes data) (bool_of a (lit ''printableOnly'')) in
          if scored = [] then Inl (Cipher_Error Brute_None)
          else Inr (from_text (trim_end_with (\<lambda>c. c = 10)
            (brute_title @ concat (map (brute_line ext) (take (max n 1) (sort_key candidate_order scored))))))))"

section \<open>ChaCha20 and the AEADs\<close>

text \<open>The position is \<open>counter * 64\<close> in 64 bits; positions the crate cannot seek to make it panic.\<close>

definition chacha20 :: "cipher_ext \<Rightarrow> chef_data \<Rightarrow> args \<Rightarrow> chef_outcome" where
  "chacha20 ext data a =
     (case rbind (read_key ext a ''hex'') (\<lambda>key.
           rbind (expect_len key 32 (lit ''ChaCha20 key'')) (\<lambda>_.
           rbind (param ext a ''iv'' ''ivFormat'' ''hex'') (\<lambda>nonce.
           rbind (expect_len nonce 12 (lit ''ChaCha20 nonce'')) (\<lambda>_.
           rbind (args_number a (lit ''counter'') 0) (\<lambda>counter.
             if chacha_accepts ext key nonce then Inr (key, nonce, counter)
             else Inl (Cipher_Error Chacha_Key_Rejected)))))) of
        Inl e \<Rightarrow> Returned (Inl e)
      | Inr (key, nonce, counter) \<Rightarrow>
          (case chacha_apply ext key nonce (counter * 64 mod 2 ^ 64) (data_bytes data) of
             None \<Rightarrow> Panicked
           | Some out \<Rightarrow> Returned (Inr (chef_new out))))"

definition aead_parts ::
    "cipher_ext \<Rightarrow> chef_data \<Rightarrow> args \<Rightarrow> bool \<Rightarrow> (bytes \<times> bytes \<times> bytes \<times> bytes) chef_result" where
  "aead_parts ext data a decrypt =
     rbind (read_key ext a ''hex'') (\<lambda>key.
     rbind (param ext a ''iv'' ''ivFormat'' ''hex'') (\<lambda>nonce.
     rbind (param ext a ''aad'' ''aadFormat'' ''utf8'') (\<lambda>aad.
     rbind (expect_len nonce 12 (lit ''AEAD nonce'')) (\<lambda>_.
     rbind (read_input ext data a (if decrypt then ''base64'' else ''utf8'')) (\<lambda>input.
       if decrypt \<and> length input < 16 then Inl (Cipher_Error Aead_Too_Short)
       else Inr (key, nonce, aad, input))))))"

definition aead_emit :: "cipher_ext \<Rightarrow> bytes \<Rightarrow> args \<Rightarrow> bool \<Rightarrow> chef_data chef_result" where
  "aead_emit ext bs a decrypt = emit_output ext bs a (if decrypt then ''utf8'' else ''base64'')"

definition aes_gcm :: "cipher_ext \<Rightarrow> chef_data \<Rightarrow> args \<Rightarrow> bool \<Rightarrow> chef_data chef_result" where
  "aes_gcm ext data a decrypt =
     rbind (aead_parts ext data a decrypt) (\<lambda>(key, nonce, aad, input).
     rbind (if length key = 16 \<or> length key = 32 then
              (if decrypt then ok_or (gcm_decrypt ext key nonce aad input) (Cipher_Error Gcm_Not_Authentic)
               else rmap_err (\<lambda>e. Cipher_Error (Aead_Failed e)) (gcm_encrypt ext key nonce aad input))
            else if length key = 24 then Inl (Cipher_Error Gcm_192_Unsupported)
            else Inl (Cipher_Error (Bad_Gcm_Key_Length (length key)))) (\<lambda>bs.
       aead_emit ext bs a decrypt))"

definition chacha20_poly1305 :: "cipher_ext \<Rightarrow> chef_data \<Rightarrow> args \<Rightarrow> bool \<Rightarrow> chef_data chef_result" where
  "chacha20_poly1305 ext data a decrypt =
     rbind (aead_parts ext data a decrypt) (\<lambda>(key, nonce, aad, input).
     rbind (expect_len key 32 (lit ''ChaCha20-Poly1305 key'')) (\<lambda>_.
     rbind (if decrypt then ok_or (poly_decrypt ext key nonce aad input) (Cipher_Error Poly1305_Not_Authentic)
            else rmap_err (\<lambda>e. Cipher_Error (Aead_Failed e)) (poly_encrypt ext key nonce aad input)) (\<lambda>bs.
       aead_emit ext bs a decrypt)))"

section \<open>RSA\<close>

definition RSA_PADDINGS :: "ustring list" where
  "RSA_PADDINGS = [lit ''pkcs1v15'', lit ''oaep-sha1'', lit ''oaep-sha256'', lit ''oaep-sha512'']"

definition rsa_capacity :: "ustring \<Rightarrow> nat \<Rightarrow> nat" where
  "rsa_capacity padding modulus_bytes =
     (if padding = lit ''pkcs1v15'' then modulus_bytes - 11
      else if padding = lit ''oaep-sha1'' then modulus_bytes - 42
      else if padding = lit ''oaep-sha256'' then modulus_bytes - 66
      else if padding = lit ''oaep-sha512'' then modulus_bytes - 130
      else 0)"

definition rsa_case :: "ustring \<Rightarrow> bytes chef_result \<Rightarrow> bytes chef_result" where
  "rsa_case name body =
     (if name \<in> set RSA_PADDINGS then body else Inl (Cipher_Error (Unknown_Rsa_Padding name)))"

definition rsa_encrypt :: "cipher_ext \<Rightarrow> chef_data \<Rightarrow> args \<Rightarrow> chef_data chef_result" where
  "rsa_encrypt ext data a =
     (let pem = args_text a (lit ''publicKey'') [] in
      if trim pem = [] then Inl (Cipher_Error Missing_Public_Key)
      else
        rbind (rmap_err (\<lambda>e. Cipher_Error (Rsa_Key_Unreadable e)) (rsa_public ext pem)) (\<lambda>key.
        rbind (choice_in a (lit ''padding'') (lit ''oaep-sha256'') RSA_PADDINGS) (\<lambda>padding.
        rbind (read_input ext data a ''utf8'') (\<lambda>input.
          let limit = rsa_capacity padding (rsa_size ext key) in
          if limit < length input
          then Inl (Cipher_Error (Rsa_Too_Long padding (rsa_size ext key * 8) limit (length input)))
          else
            rbind (rsa_case padding (rmap_err (\<lambda>e. Cipher_Error (Rsa_Failed e)) (rsa_seal ext key padding input)))
              (\<lambda>bs. emit_output ext bs a ''base64'')))))"

definition rsa_decrypt :: "cipher_ext \<Rightarrow> chef_data \<Rightarrow> args \<Rightarrow> chef_data chef_result" where
  "rsa_decrypt ext data a =
     (let pem = args_text a (lit ''privateKey'') [] in
      if trim pem = [] then Inl (Cipher_Error Missing_Private_Key)
      else
        rbind (rmap_err (\<lambda>e. Cipher_Error (Rsa_Key_Unreadable e))
                (case rsa_private_pkcs8 ext pem of Inr k \<Rightarrow> Inr k | Inl _ \<Rightarrow> rsa_private_pkcs1 ext pem)) (\<lambda>key.
        rbind (choice_in a (lit ''padding'') (lit ''oaep-sha256'') RSA_PADDINGS) (\<lambda>padding.
        rbind (read_input ext data a ''base64'') (\<lambda>input.
        rbind (rsa_case padding (rmap_err (\<lambda>e. Cipher_Error (Rsa_Failed e)) (rsa_open ext key padding input)))
          (\<lambda>bs. emit_output ext bs a ''utf8'')))))"

definition rsa_generate :: "cipher_ext \<Rightarrow> chef_data \<Rightarrow> args \<Rightarrow> chef_data chef_result" where
  "rsa_generate ext data a =
     rbind (args_number a (lit ''bits'') 2048) (\<lambda>bits.
       if \<not> (1024 \<le> bits \<and> bits \<le> 4096) then Inl (Cipher_Error Rsa_Bits_Out_Of_Range)
       else rmap (\<lambda>(priv_pem, pub_pem). from_text ([45, 45, 45, 45, 45, 32, 31169, 38053, 65288, 80, 75, 67, 83, 35, 56, 65289, 45, 45, 45, 45, 45, 10] @ priv_pem @ [45, 45, 45, 45, 45, 32, 20844, 38053, 65288, 83, 80, 75, 73, 65289, 45, 45, 45, 45, 45, 10] @ pub_pem))
              (rmap_err (\<lambda>e. Cipher_Error (Rsa_Failed e)) (rsa_new ext bits)))"

section \<open>Classical ciphers\<close>

text \<open>Signed 32-bit arithmetic of the shift, which wraps in a release build.\<close>

definition w32 :: "int \<Rightarrow> int" where
  "w32 i = (i + 2 ^ 31) mod 2 ^ 32 - 2 ^ 31"

definition shift_letter :: "rchar \<Rightarrow> int \<Rightarrow> rchar" where
  "shift_letter c shift =
     (if is_ascii_lower c then nat (w32 (int c - 97 + shift) mod 26) + 97
      else if is_ascii_upper c then nat (w32 (int c - 65 + shift) mod 26) + 65
      else c)"

definition caesar :: "chef_data \<Rightarrow> args \<Rightarrow> chef_data chef_result" where
  "caesar data a =
     rbind (args_number a (lit ''shift'') 3) (\<lambda>n.
     rbind (chef_text data) (\<lambda>t. Inr (from_text (map (\<lambda>c. shift_letter c (w32 (int n))) t))))"

definition rot13 :: "chef_data \<Rightarrow> args \<Rightarrow> chef_data chef_result" where
  "rot13 data a = rbind (chef_text data) (\<lambda>t. Inr (from_text (map (\<lambda>c. shift_letter c 13) t)))"

fun vigenere_chars :: "ustring \<Rightarrow> bool \<Rightarrow> nat \<Rightarrow> ustring \<Rightarrow> ustring" where
  "vigenere_chars key decrypt index [] = []"
| "vigenere_chars key decrypt index (c # s) =
     (if \<not> is_ascii_alphabetic c then c # vigenere_chars key decrypt index s
      else
        (let shift = int (key ! (index mod length key)) - 97 in
         shift_letter c (if decrypt then - shift else shift) # vigenere_chars key decrypt (index + 1) s))"

definition vigenere :: "chef_data \<Rightarrow> args \<Rightarrow> bool \<Rightarrow> chef_data chef_result" where
  "vigenere data a decrypt =
     (let key = filter is_ascii_alphabetic (map to_ascii_lower (args_text a (lit ''key'') [])) in
      if key = [] then Inl (Cipher_Error Missing_Vigenere_Key)
      else rbind (chef_text data) (\<lambda>t. Inr (from_text (vigenere_chars key decrypt 0 t))))"

section \<open>The operations\<close>

definition ENCRYPT_ARGS :: "arg_spec list" where
  "ENCRYPT_ARGS = [choice ''mode'' ''cbc'' MODES, text_arg ''key'' [], choice ''keyFormat'' ''hex'' FORMATS,
     text_arg ''iv'' [], choice ''ivFormat'' ''hex'' FORMATS, choice ''padding'' ''pkcs7'' PADDINGS,
     choice ''inputFormat'' ''utf8'' FORMATS, choice ''outputFormat'' ''base64'' FORMATS]"

definition DECRYPT_ARGS :: "arg_spec list" where
  "DECRYPT_ARGS = [choice ''mode'' ''cbc'' MODES, text_arg ''key'' [], choice ''keyFormat'' ''hex'' FORMATS,
     text_arg ''iv'' [], choice ''ivFormat'' ''hex'' FORMATS, choice ''padding'' ''pkcs7'' PADDINGS,
     choice ''inputFormat'' ''base64'' FORMATS, choice ''outputFormat'' ''utf8'' FORMATS]"

definition AEAD_ENCRYPT_ARGS :: "arg_spec list" where
  "AEAD_ENCRYPT_ARGS = [text_arg ''key'' [], choice ''keyFormat'' ''hex'' FORMATS, text_arg ''iv'' [],
     choice ''ivFormat'' ''hex'' FORMATS, text_arg ''aad'' [], choice ''aadFormat'' ''utf8'' FORMATS,
     choice ''inputFormat'' ''utf8'' FORMATS, choice ''outputFormat'' ''base64'' FORMATS]"

definition AEAD_DECRYPT_ARGS :: "arg_spec list" where
  "AEAD_DECRYPT_ARGS = [text_arg ''key'' [], choice ''keyFormat'' ''hex'' FORMATS, text_arg ''iv'' [],
     choice ''ivFormat'' ''hex'' FORMATS, text_arg ''aad'' [], choice ''aadFormat'' ''utf8'' FORMATS,
     choice ''inputFormat'' ''base64'' FORMATS, choice ''outputFormat'' ''utf8'' FORMATS]"

definition cipher_OPS :: "cipher_ext \<Rightarrow> op_entry list" where
  "cipher_OPS ext =
    [op ''aesEncrypt'' ''cipher'' ENCRYPT_ARGS (aes_encrypt ext),
     op ''aesDecrypt'' ''cipher'' DECRYPT_ARGS (aes_decrypt ext),
     op ''aesGcmEncrypt'' ''cipher'' AEAD_ENCRYPT_ARGS (\<lambda>d a. aes_gcm ext d a False),
     op ''aesGcmDecrypt'' ''cipher'' AEAD_DECRYPT_ARGS (\<lambda>d a. aes_gcm ext d a True),
     op ''desEncrypt'' ''cipher'' ENCRYPT_ARGS (des_encrypt ext),
     op ''desDecrypt'' ''cipher'' DECRYPT_ARGS (des_decrypt ext),
     op ''des3Encrypt'' ''cipher'' ENCRYPT_ARGS (des3_encrypt ext),
     op ''des3Decrypt'' ''cipher'' DECRYPT_ARGS (des3_decrypt ext),
     op ''sm4Encrypt'' ''cipher'' ENCRYPT_ARGS (sm4_encrypt ext),
     op ''sm4Decrypt'' ''cipher'' DECRYPT_ARGS (sm4_decrypt ext),
     op ''rc4'' ''cipher'' [text_arg ''key'' [], choice ''keyFormat'' ''utf8'' FORMATS, number ''drop'' 0] (rc4 ext),
     op_outcome ''chacha20'' ''cipher'' [text_arg ''key'' [], choice ''keyFormat'' ''hex'' FORMATS, text_arg ''iv'' [],
       choice ''ivFormat'' ''hex'' FORMATS, number ''counter'' 0] (chacha20 ext),
     op ''chacha20Poly1305Encrypt'' ''cipher'' AEAD_ENCRYPT_ARGS (\<lambda>d a. chacha20_poly1305 ext d a False),
     op ''chacha20Poly1305Decrypt'' ''cipher'' AEAD_DECRYPT_ARGS (\<lambda>d a. chacha20_poly1305 ext d a True),
     op ''xor'' ''cipher'' [text_arg ''key'' [], choice ''keyFormat'' ''hex'' FORMATS] (xor_op ext),
     op ''xorBruteForce'' ''cipher'' [bool_arg ''printableOnly'' True, number ''top'' 10] (xor_brute_force ext),
     op ''rsaEncrypt'' ''cipher'' [text_arg ''publicKey'' [], choice ''padding'' ''oaep-sha256'' RSA_PADDINGS,
       choice ''inputFormat'' ''utf8'' FORMATS, choice ''outputFormat'' ''base64'' FORMATS] (rsa_encrypt ext),
     op ''rsaDecrypt'' ''cipher'' [text_arg ''privateKey'' [], choice ''padding'' ''oaep-sha256'' RSA_PADDINGS,
       choice ''inputFormat'' ''base64'' FORMATS, choice ''outputFormat'' ''utf8'' FORMATS] (rsa_decrypt ext),
     op ''rsaGenerate'' ''cipher'' [number ''bits'' 2048] (rsa_generate ext),
     op ''caesar'' ''cipher'' [number ''shift'' 3] caesar,
     op ''rot13'' ''cipher'' [] rot13,
     op ''vigenere'' ''cipher''
       [text_arg ''key'' [], choice ''operation'' ''encrypt'' [lit ''encrypt'', lit ''decrypt'']]
       (\<lambda>d a. vigenere d a (args_choice a (lit ''operation'') (lit ''encrypt'') = lit ''decrypt''))]"

section \<open>RC4 and XOR undo themselves\<close>

lemma length_rc4_apply [simp]: "length (rc4_apply st bs) = length bs"
  by (induction bs arbitrary: st) (simp_all add: Let_def)

lemma rc4_apply_twice: "rc4_apply st (rc4_apply st bs) = bs"
  by (induction bs arbitrary: st) (simp_all add: Let_def word_xor_cancel)

interpretation rc4_stream: self_inverse rc4_apply
  by unfold_locales (rule rc4_apply_twice)

lemma rc4_keystream_twice: "rc4_keystream_xor key (rc4_keystream_xor key bs n) n = bs"
  by (simp add: rc4_keystream_xor_def rc4_stream.f_f)

lemma length_xor_key [simp]: "length (xor_key key bs) = length bs"
  by (simp add: xor_key_def)

lemma xor_key_nth: "i < length bs \<Longrightarrow> xor_key key bs ! i = bs ! i XOR key ! (i mod length key)"
  by (simp add: xor_key_def nth_enumerate_eq)

interpretation repeated_xor: self_inverse xor_key
proof unfold_locales
  fix key bs
  show "xor_key key (xor_key key bs) = bs"
    by (rule nth_equalityI) (simp_all add: xor_key_nth word_xor_cancel)
qed

text \<open>The key schedule and every step keep the state a permutation of the 256 bytes.\<close>

definition rc4_perm :: "bytes \<Rightarrow> bool" where
  "rc4_perm s \<longleftrightarrow> mset s = mset (map of_nat [0..<256])"

lemma swap_perm:
  assumes "i < length s" "j < length s"
  shows "mset (swap s i j) = mset s"
  using mset_swap [OF assms(2) assms(1)] by (simp add: swap_def)

lemma rc4_perm_length: "rc4_perm s \<Longrightarrow> length s = 256"
  unfolding rc4_perm_def by (drule mset_eq_length) simp

lemma swap_unat_perm: "rc4_perm s \<Longrightarrow> i < 256 \<Longrightarrow> rc4_perm (swap s i (unat (j :: u8)))"
  using rc4_perm_length [of s] unat_u8_lt [of j] by (simp add: rc4_perm_def swap_perm)

lemma rc4_ksa_perm: "rc4_perm (rc4_ksa key)"
proof -
  have "rc4_perm (fst acc) \<Longrightarrow> (\<And>i. i \<in> set is \<Longrightarrow> i < 256) \<Longrightarrow>
    rc4_perm (fst (foldl (\<lambda>(state, j) i. let j' = j + state ! i + key ! (i mod length key) in
      (swap state i (unat j'), j')) acc is))" for acc "is"
    by (induction "is" arbitrary: acc) (auto simp: Let_def swap_unat_perm split: prod.split)
  from this [of "(map of_nat [0..<256], 0)" "[0..<256]"] show ?thesis by (simp add: rc4_ksa_def rc4_perm_def)
qed

lemma rc4_step_perm: "rc4_perm (fst st) \<Longrightarrow> rc4_perm (fst (rc4_step st))"
  by (cases st) (simp add: rc4_step_def Let_def swap_unat_perm unat_u8_lt)

lemma rc4_run_perm: "rc4_perm (fst ((rc4_step ^^ n) (rc4_ksa key, 0, 0)))"
  by (induction n) (simp_all add: rc4_ksa_perm rc4_step_perm)

section \<open>The classical ciphers undo themselves\<close>

lemma w32_small: "- (2 ^ 31) \<le> i \<Longrightarrow> i < 2 ^ 31 \<Longrightarrow> w32 i = i"
  by (simp add: w32_def)

lemma shift_letter_cases:
  assumes "\<bar>n\<bar> \<le> 1000"
  shows "shift_letter c n = (if is_ascii_lower c then nat ((int c - 97 + n) mod 26) + 97
    else if is_ascii_upper c then nat ((int c - 65 + n) mod 26) + 65 else c)"
proof -
  have "w32 (int c - 97 + n) = int c - 97 + n" if "is_ascii_lower c"
    using that assms by (intro w32_small) (auto simp: char_class_defs)
  moreover have "w32 (int c - 65 + n) = int c - 65 + n" if "is_ascii_upper c"
    using that assms by (intro w32_small) (auto simp: char_class_defs)
  ultimately show ?thesis by (simp add: shift_letter_def)
qed

lemma shifted_class:
  "is_ascii_lower (nat (i mod 26) + 97)" "is_ascii_upper (nat (i mod 26) + 65)"
  "\<not> is_ascii_lower (nat (i mod 26) + 65)"
  using pos_mod_bound [of 26 i] pos_mod_sign [of 26 i] by (auto simp: char_class_defs)

lemma shift_letter_inverse:
  assumes "\<bar>m\<bar> \<le> 1000" "\<bar>n\<bar> \<le> 1000" "26 dvd m + n"
  shows "shift_letter (shift_letter c m) n = c"
proof -
  have mm: "(x mod 26 + n) mod 26 = y mod 26" if "x = y + m" for x y :: int
  proof -
    have "(x mod 26 + n) mod 26 = (y + (m + n)) mod 26" using that by (simp add: mod_simps ac_simps)
    also have "\<dots> = y mod 26" using assms(3) by (metis mod_add_right_eq dvd_eq_mod_eq_0 add.right_neutral)
    finally show ?thesis .
  qed
  have pos: "int (nat (x mod 26)) = x mod 26" for x :: int by simp
  consider (lower) "is_ascii_lower c" | (upper) "is_ascii_upper c" "\<not> is_ascii_lower c"
    | (other) "\<not> is_ascii_lower c" "\<not> is_ascii_upper c" by blast
  then show ?thesis
  proof cases
    case lower
    then have "0 \<le> int c - 97" "int c - 97 < 26" by (auto simp: char_class_defs)
    then show ?thesis
      using lower mm [of "int c - 97 + m" "int c - 97"]
      by (simp add: shift_letter_cases [OF assms(1)] shift_letter_cases [OF assms(2)] shifted_class pos)
  next
    case upper
    then have "0 \<le> int c - 65" "int c - 65 < 26" by (auto simp: char_class_defs)
    then show ?thesis
      using upper mm [of "int c - 65 + m" "int c - 65"]
      by (simp add: shift_letter_cases [OF assms(1)] shift_letter_cases [OF assms(2)] shifted_class pos)
  next
    case other
    then show ?thesis by (simp add: shift_letter_cases [OF assms(1)] shift_letter_cases [OF assms(2)])
  qed
qed

lemma shift_letter_keeps:
  assumes "\<bar>n\<bar> \<le> 1000"
  shows "is_ascii_alphabetic (shift_letter c n) = is_ascii_alphabetic c"
  using shifted_class by (auto simp: shift_letter_cases [OF assms] is_ascii_alphabetic_def)

lemma shift_letter_valid:
  assumes "valid_string s" "\<And>c. c \<in> set s \<Longrightarrow> f c = c \<or> f c < 128"
  shows "valid_string (map f s)"
proof -
  have "is_scalar (f c)" if "c \<in> set s" for c
    using assms(1) assms(2) [OF that] that by (auto simp: valid_string_def list_all_iff is_scalar_def)
  then show ?thesis by (simp add: valid_string_def list_all_iff)
qed

lemma shift_letter_small: "\<bar>n\<bar> \<le> 1000 \<Longrightarrow> shift_letter c n = c \<or> shift_letter c n < 128"
  using pos_mod_bound [of 26 "int c - 97 + n"] pos_mod_bound [of 26 "int c - 65 + n"]
  by (auto simp: shift_letter_cases)

lemma caesar_back:
  assumes "chef_text data = Inr s" "m \<le> 26"
    and "args_number a (lit ''shift'') 3 = Inr m" "args_number a' (lit ''shift'') 3 = Inr (26 - m)"
  shows "rbind (caesar data a) (\<lambda>d. caesar d a') = Inr data"
proof -
  have v: "valid_string s" "data = from_text s" using assms(1) by (simp_all add: chef_text_Inr)
  have w: "w32 (int m) = int m" "w32 (26 - int m) = 26 - int m"
    using assms(2) by (intro w32_small; simp)+
  have "valid_string (map (\<lambda>c. shift_letter c (int m)) s)"
    using v(1) by (rule shift_letter_valid) (use assms(2) shift_letter_small in auto)
  moreover have "shift_letter (shift_letter c (int m)) (26 - int m) = c" for c
    using assms(2) by (intro shift_letter_inverse) auto
  ultimately show ?thesis
    using assms v by (simp add: caesar_def w comp_def of_nat_diff)
qed

lemma rot13_twice: "chef_text data = Inr s \<Longrightarrow> rbind (rot13 data a) (\<lambda>d. rot13 d a') = Inr data"
proof -
  assume "chef_text data = Inr s"
  then have v: "valid_string s" "data = from_text s" by (simp_all add: chef_text_Inr)
  have "valid_string (map (\<lambda>c. shift_letter c 13) s)"
    using v(1) by (rule shift_letter_valid) (simp add: shift_letter_small)
  moreover have "shift_letter (shift_letter c 13) 13 = c" for c by (rule shift_letter_inverse) simp_all
  ultimately show ?thesis using v by (simp add: rot13_def comp_def)
qed

text \<open>
  Decryption advances through the key in step with encryption, because shifting keeps letters letters.
\<close>

lemma vigenere_chars_back:
  assumes key: "list_all is_ascii_lower key" "key \<noteq> []"
  shows "vigenere_chars key True i (vigenere_chars key False i s) = s \<and>
    (valid_string s \<longrightarrow> valid_string (vigenere_chars key False i s))"
proof (induction s arbitrary: i)
  case Nil
  then show ?case by simp
next
  case (Cons c s)
  let ?n = "int (key ! (i mod length key)) - 97"
  have "is_ascii_lower (key ! (i mod length key))" using key by (simp add: list_all_length)
  then have n: "\<bar>?n\<bar> \<le> 1000" "\<bar>- ?n\<bar> \<le> 1000" by (auto simp: char_class_defs)
  have "shift_letter (shift_letter c ?n) (- ?n) = c" by (rule shift_letter_inverse [OF n]) simp
  moreover have "is_scalar c \<Longrightarrow> is_scalar (shift_letter c ?n)"
    using shift_letter_small [OF n(1), of c] by (auto simp: is_scalar_def)
  ultimately show ?case
    using Cons.IH shift_letter_keeps [OF n(1), of c] by (auto simp: Let_def valid_string_def)
qed

lemma vigenere_back:
  assumes "chef_text data = Inr s" "vigenere data a False = Inr d"
  shows "vigenere d a True = Inr data"
proof -
  let ?key = "filter is_ascii_alphabetic (map to_ascii_lower (args_text a (lit ''key'') []))"
  have v: "valid_string s" "data = from_text s" using assms(1) by (simp_all add: chef_text_Inr)
  have k: "?key \<noteq> []" using assms(2) by (auto simp: vigenere_def Let_def)
  have "is_ascii_lower (to_ascii_lower c)" if "is_ascii_alphabetic (to_ascii_lower c)" for c
    using that by (auto simp: char_class_defs to_ascii_lower_def split: if_splits)
  then have "list_all is_ascii_lower ?key" by (auto simp: list_all_iff)
  from vigenere_chars_back [OF this k, of 0 s] show ?thesis
    using assms v k by (auto simp: vigenere_def Let_def)
qed

section \<open>Symmetric operations\<close>

lemma read_emit:
  assumes "b64_laws eng" "format \<in> set text_formats" "emit_by_format eng bs format = Inr d"
  shows "read_by_format eng d format = Inr bs"
proof -
  consider "format = lit ''hex''" | "format = lit ''base64''" | "format = lit ''base64url''"
    | "format = lit ''decimal''"
    using assms(2) unfolding text_formats_def list.set by blast
  then show ?thesis
  proof cases
    case 1
    then show ?thesis
      using assms(3) ascii_valid [OF hex_encode_ascii [of "[]" bs False]] hex_decode_encode [of "[]" bs False]
      by (auto simp: emit_by_format_def read_by_format_def ascii_set)
  next
    case 2
    then show ?thesis
      using assms(3) ascii_valid [OF b64_encode_ascii [OF assms(1), of bs False True]]
      by (auto simp: emit_by_format_def read_by_format_def b64_decode_encode [OF assms(1)])
  next
    case 3
    then show ?thesis
      using assms(3) ascii_valid [OF b64_encode_ascii [OF assms(1), of bs True True]]
      by (auto simp: emit_by_format_def read_by_format_def b64_decode_encode [OF assms(1)])
  next
    case 4
    then show ?thesis
      using assms(3) ascii_valid [OF decimal_text_ascii [of bs]]
      by (auto simp: emit_by_format_def read_by_format_def decimal_list_back)
  qed
qed

lemma run_block_undo:
  assumes laws: "block_laws c" and enc: "run_block c mode padding key iv data False = Inr out"
    and pad: "chain_mode mode \<Longrightarrow> recoverable padding (block_size c) data"
  shows "run_block c mode padding key iv out True = Inr data"
proof -
  obtain k where k: "new_from_slice c key = Some k"
    using enc by (auto simp: run_block_def ok_or_def split: option.splits)
  have iv: "mode \<noteq> lit ''ecb'' \<Longrightarrow> length iv = block_size c"
    using enc by (auto simp: run_block_def k Let_def simp del: lit_Cons split: if_splits)
  have known: "chain_mode mode \<or> stream_mode mode"
    using enc unfolding chain_mode_def stream_mode_def
    by (auto simp: run_block_def k Let_def simp del: lit_Cons split: if_splits)
  show ?thesis
  proof (cases "chain_mode mode")
    case True
    have "mode = lit ''cbc'' \<Longrightarrow> length iv = block_size c" using iv by simp
    from run_block_chain [OF laws k this True pad [OF True]] show ?thesis using enc by auto
  next
    case False
    with known have st: "stream_mode mode" by simp
    then have "length iv = block_size c" using iv by (auto simp: stream_mode_def)
    from run_block_stream [OF laws k this st, of padding data] show ?thesis using enc by auto
  qed
qed

text \<open>
  A runner that undoes its own encryption, for the data and paddings \<open>pad_ok\<close> admits; the four
  symmetric algorithms are such runners when their block ciphers obey the laws.
\<close>

locale block_runner_laws =
  fixes runner :: block_runner and pad_ok :: "ustring \<Rightarrow> ustring \<Rightarrow> bytes \<Rightarrow> bytes \<Rightarrow> bool"
  assumes undo: "runner mode padding key iv data False = Inr out \<Longrightarrow> pad_ok mode padding key data \<Longrightarrow>
    runner mode padding key iv out True = Inr data"
begin

text \<open>
  Decrypting what was encrypted with the same parameters gives the data back, when the ciphertext
  travels in one of the text formats.
\<close>

lemma symmetric_undo:
  assumes b64: "b64_laws (cip_b64 ext)"
    and enc: "symmetric ext data ea False runner label = Inr c"
    and same: "\<And>n. n \<in> {''mode'', ''padding'', ''key'', ''keyFormat'', ''iv'', ''ivFormat''} \<Longrightarrow> da (lit n) = ea (lit n)"
    and inf: "ea (lit ''inputFormat'') = Some (lit ''utf8'')" and outf: "da (lit ''outputFormat'') = Some (lit ''utf8'')"
    and wire: "choice_in ea (lit ''outputFormat'') (lit ''base64'') FORMATS = Inr wire"
      "choice_in da (lit ''inputFormat'') (lit ''base64'') FORMATS = Inr wire" "wire \<in> set text_formats"
    and ok: "\<And>mode padding key. choice_in ea (lit ''mode'') (lit ''cbc'') MODES = Inr mode \<Longrightarrow>
      choice_in ea (lit ''padding'') (lit ''pkcs7'') PADDINGS = Inr padding \<Longrightarrow>
      param ext ea ''key'' ''keyFormat'' ''hex'' = Inr key \<Longrightarrow> pad_ok mode padding key (data_bytes data)"
  shows "symmetric ext c da True runner label = Inr data"
proof -
  have utf8_format: "choice_in a k d FORMATS = Inr (lit ''utf8'')" if "a k = Some (lit ''utf8'')" for a k d
    using that by (simp add: choice_in_given FORMATS_def del: lit_Cons)
  obtain mode padding key iv input out where
      mode: "choice_in ea (lit ''mode'') (lit ''cbc'') MODES = Inr mode"
      "choice_in ea (lit ''padding'') (lit ''pkcs7'') PADDINGS = Inr padding"
      "param ext ea ''key'' ''keyFormat'' ''hex'' = Inr key" "param ext ea ''iv'' ''ivFormat'' ''hex'' = Inr iv"
    and ne: "key \<noteq> []" and input: "read_input ext data ea ''utf8'' = Inr input"
    and out: "runner mode padding key iv input False = Inr out" and c: "emit_output ext out ea ''base64'' = Inr c"
    using enc by (auto simp: symmetric_def result_inv simp del: lit_Cons split: if_splits)
  have "input = data_bytes data"
    using input unfolding read_input_def utf8_format [where a = ea, OF inf]
    by (auto simp: read_by_format_def result_inv simp del: lit_Cons)
  then have dec: "runner mode padding key iv out True = Inr (data_bytes data)"
    using ok [OF mode(1-3)] undo [OF out] by simp
  have "emit_by_format (cip_b64 ext) out wire = Inr c"
    using c by (simp add: emit_output_def wire del: lit_Cons)
  then have "read_input ext c da ''base64'' = Inr out"
    using read_emit [OF b64 wire(3)] by (simp add: read_input_def wire del: lit_Cons)
  moreover have "choice_in da (lit ''mode'') (lit ''cbc'') MODES = Inr mode"
    "choice_in da (lit ''padding'') (lit ''pkcs7'') PADDINGS = Inr padding"
    "param ext da ''key'' ''keyFormat'' ''hex'' = Inr key" "param ext da ''iv'' ''ivFormat'' ''hex'' = Inr iv"
    using mode same by (simp_all add: param_def choice_in_def args_choice_def args_text_def del: lit_Cons)
  moreover have "emit_output ext (data_bytes data) da ''utf8'' = Inr data"
    by (simp add: emit_output_def utf8_format [where a = da, OF outf] emit_by_format_def del: lit_Cons)
  ultimately show ?thesis using ne dec by (simp add: symmetric_def del: lit_Cons)
qed

end

text \<open>What a cipher with the implementations \<open>impls\<close> asks of padding and data.\<close>

definition keyed_ok :: "(nat \<times> block_impl) list \<Rightarrow> ustring \<Rightarrow> ustring \<Rightarrow> bytes \<Rightarrow> bytes \<Rightarrow> bool" where
  "keyed_ok impls mode padding key data \<longleftrightarrow>
     (\<forall>c \<in> snd ` set impls. block_laws c \<and> (chain_mode mode \<longrightarrow> recoverable padding (block_size c) data))"

interpretation keyed: block_runner_laws "keyed_block label impls" "keyed_ok impls"
proof unfold_locales
  fix mode padding key iv data out
  assume enc: "keyed_block label impls mode padding key iv data False = Inr out"
    and ok: "keyed_ok impls mode padding key data"
  obtain c where c: "map_of impls (length key) = Some c" "run_block c mode padding key iv data False = Inr out"
    using enc by (auto simp: keyed_block_def split: option.splits)
  have "c \<in> snd ` set impls" using map_of_SomeD [OF c(1)] by force
  with ok have "block_laws c" "chain_mode mode \<longrightarrow> recoverable padding (block_size c) data"
    by (auto simp: keyed_ok_def)
  then have "run_block c mode padding key iv out True = Inr data" using c(2) by (intro run_block_undo) auto
  then show "keyed_block label impls mode padding key iv out True = Inr data" by (simp add: keyed_block_def c)
qed

interpretation des3: block_runner_laws "des3_block ext" "keyed_ok [(24, tdes ext)]"
proof unfold_locales
  fix mode padding key iv data out
  assume enc: "des3_block ext mode padding key iv data False = Inr out"
    and ok: "keyed_ok [(24, tdes ext)] mode padding key data"
  have ok: "block_laws (tdes ext)" "chain_mode mode \<Longrightarrow> recoverable padding (block_size (tdes ext)) data"
    using ok by (auto simp: keyed_ok_def)
  show "des3_block ext mode padding key iv out True = Inr data"
    using enc run_block_undo [OF ok(1) _ ok(2)] by (auto simp: des3_block_def split: if_splits)
qed

lemma cipher_OPS_return: "e \<in> set (cipher_OPS ext) \<Longrightarrow> returns e"
proof -
  have "chacha20 ext d a \<noteq> Diverged" for d a
    by (auto simp: chacha20_def split: sum.splits option.splits)
  then show "e \<in> set (cipher_OPS ext) \<Longrightarrow> returns e"
    by (auto simp: cipher_OPS_def returns_def simp del: lit_Cons)
qed

end
