(* ===== verification/Chef_Time.thy ===== *)
theory Chef_Time
  imports Chef_Spec "HOL-Library.Signed_Division"
begin

text \<open>
  The calendar arithmetic of src-tauri/src/services/chef/ops/text.rs: \<open>days_from_civil\<close>,
  \<open>civil_from_days\<close>, \<open>format_unix\<close> and the operations \<open>unixToDate\<close> and \<open>dateToUnix\<close>. An \<open>i64\<close> is an
  integer that every operation wraps (release builds do not check), \<open>as\<close> casts wrap too; \<open>sdiv\<close>
  is Rust's division, truncating towards zero.
\<close>

definition w64 :: "int \<Rightarrow> int" where
  "w64 i = (i + 2 ^ 63) mod 2 ^ 64 - 2 ^ 63"

definition as_u64 :: "int \<Rightarrow> int" where
  "as_u64 i = i mod 2 ^ 64"

definition as_u32 :: "int \<Rightarrow> int" where
  "as_u32 i = i mod 2 ^ 32"

lemma w64_id: "- (2 ^ 63) \<le> i \<Longrightarrow> i < 2 ^ 63 \<Longrightarrow> w64 i = i"
  by (simp add: w64_def)

lemma as_u64_id: "0 \<le> i \<Longrightarrow> i < 2 ^ 64 \<Longrightarrow> as_u64 i = i"
  by (simp add: as_u64_def)

lemma as_u64_small: "0 \<le> i \<Longrightarrow> i < 1000000 \<Longrightarrow> as_u64 i = i"
  by (simp add: as_u64_def)

lemma as_u32_id: "0 \<le> i \<Longrightarrow> i < 2 ^ 32 \<Longrightarrow> as_u32 i = i"
  by (simp add: as_u32_def)

section \<open>Civil dates\<close>

definition days_from_civil :: "int \<Rightarrow> int \<Rightarrow> int \<Rightarrow> int" where
  "days_from_civil year month day =
     (let y = w64 (if month \<le> 2 then year - 1 else year);
          era = w64 (if 0 \<le> y then y else y - 399) sdiv 400;
          yoe = as_u64 (y - era * 400);
          mp = (if 2 < month then month - 3 else month + 9);
          doy = as_u64 ((153 * mp + 2) div 5 + day - 1);
          doe = as_u64 (yoe * 365 + yoe div 4 - yoe div 100 + doy)
      in w64 (era * 146097 + doe - 719468))"

definition civil_from_days :: "int \<Rightarrow> int \<times> int \<times> int" where
  "civil_from_days days =
     (let z = w64 (days + 719468);
          era = w64 (if 0 \<le> z then z else z - 146096) sdiv 146097;
          doe = as_u64 (z - era * 146097);
          yoe = as_u64 (doe - doe div 1460 + doe div 36524 - doe div 146096) div 365;
          y = w64 (yoe + era * 400);
          doy = as_u64 (doe - (365 * yoe + yoe div 4 - yoe div 100));
          mp = as_u64 (5 * doy + 2) div 153;
          day = as_u32 (doy - (153 * mp + 2) div 5 + 1);
          month = as_u32 (if mp < 10 then mp + 3 else mp - 9)
      in (if month \<le> 2 then w64 (y + 1) else y, month, day))"

section \<open>The Gregorian calendar as reference\<close>

definition leap :: "int \<Rightarrow> bool" where
  "leap y \<longleftrightarrow> (4 dvd y \<and> \<not> 100 dvd y) \<or> 400 dvd y"

definition month_days :: "int \<Rightarrow> int \<Rightarrow> int" where
  "month_days y m = (if m = 2 then (if leap y then 29 else 28)
     else if m = 4 \<or> m = 6 \<or> m = 9 \<or> m = 11 then 30 else 31)"

definition valid_date :: "int \<Rightarrow> int \<Rightarrow> int \<Rightarrow> bool" where
  "valid_date y m d \<longleftrightarrow> 1 \<le> m \<and> m \<le> 12 \<and> 1 \<le> d \<and> d \<le> month_days y m"

definition next_date :: "int \<Rightarrow> int \<Rightarrow> int \<Rightarrow> int \<times> int \<times> int" where
  "next_date y m d = (if d < month_days y m then (y, m, d + 1) else if m < 12 then (y, m + 1, 1) else (y + 1, 1, 1))"

text \<open>Years the 64-bit arithmetic handles without wrapping.\<close>

definition safe_year :: "int \<Rightarrow> bool" where
  "safe_year y \<longleftrightarrow> - (10 ^ 15) \<le> y \<and> y \<le> 10 ^ 15"

section \<open>Both conversions without the wrapping\<close>

lemma floor_era: "(if 0 \<le> (y :: int) then y else y - (n - 1)) sdiv n = y div n" if "0 < n" for n
proof (cases "0 \<le> y")
  case True
  with that show ?thesis by (simp add: signed_divide_int_def sgn_if)
next
  case False
  have "y div n = - ((- y + (n - 1)) div n)"
  proof -
    have "(- y + (n - 1)) div n = - (y div n)"
    proof (rule int_div_pos_eq)
      show "- y + (n - 1) = n * - (y div n) + (n - 1 - y mod n)"
        using div_mult_mod_eq [of y n] by (simp add: algebra_simps)
    qed (use that pos_mod_bound [of n y] pos_mod_sign [of n y] in linarith)+
    then show ?thesis by simp
  qed
  with False that show ?thesis by (simp add: signed_divide_int_def sgn_if)
qed

definition march_year :: "int \<Rightarrow> int \<Rightarrow> int" where
  "march_year y m = (if m \<le> 2 then y - 1 else y)"

definition march_month :: "int \<Rightarrow> int" where
  "march_month m = (if 2 < m then m - 3 else m + 9)"

definition day_of_year :: "int \<Rightarrow> int \<Rightarrow> int" where
  "day_of_year mp d = (153 * mp + 2) div 5 + d - 1"

definition civil_days :: "int \<Rightarrow> int \<Rightarrow> int" where
  "civil_days y doy = y div 400 * 146097 + (y mod 400 * 365 + y mod 400 div 4 - y mod 400 div 100 + doy) - 719468"

lemma march_month_range: "1 \<le> m \<Longrightarrow> m \<le> 12 \<Longrightarrow> 0 \<le> march_month m \<and> march_month m \<le> 11"
  by (simp add: march_month_def)

lemma day_of_year_range:
  assumes "0 \<le> mp" "mp \<le> 11" "1 \<le> d" "d \<le> 31"
  shows "0 \<le> day_of_year mp d" "day_of_year mp d \<le> 367"
  using assms unfolding day_of_year_def by linarith+

lemma days_from_civil_eq:
  assumes "safe_year y" "1 \<le> m" "m \<le> 12" "1 \<le> d" "d \<le> 31"
  shows "days_from_civil y m d = civil_days (march_year y m) (day_of_year (march_month m) d)"
proof -
  let ?y = "march_year y m" and ?doy = "day_of_year (march_month m) d"
  have y: "- (10 ^ 15) - 1 \<le> ?y" "?y \<le> 10 ^ 15"
    using assms(1) by (auto simp: safe_year_def march_year_def)
  have w: "w64 ?y = ?y" "w64 (if 0 \<le> ?y then ?y else ?y - 399) = (if 0 \<le> ?y then ?y else ?y - 399)"
    using y by (auto intro!: w64_id)
  have era: "(if 0 \<le> ?y then ?y else ?y - 399) sdiv 400 = ?y div 400"
    using floor_era [of 400 ?y] by (cases "0 \<le> ?y") simp_all
  have yoe: "?y - ?y div 400 * 400 = ?y mod 400" by (simp add: minus_div_mult_eq_mod)
  have yr: "0 \<le> ?y mod 400" "?y mod 400 < 400" by simp_all
  have doy: "0 \<le> ?doy" "?doy \<le> 367"
    using day_of_year_range march_month_range assms by blast+
  have doe: "0 \<le> ?y mod 400 * 365 + ?y mod 400 div 4 - ?y mod 400 div 100 + ?doy"
    "?y mod 400 * 365 + ?y mod 400 div 4 - ?y mod 400 div 100 + ?doy < 200000"
    using yr doy by linarith+
  have "- (10 ^ 13) \<le> ?y div 400" "?y div 400 \<le> 10 ^ 13" 
    using zdiv_mono1 [of "- (10 ^ 15) - 1" ?y 400] zdiv_mono1 [of ?y "10 ^ 15" 400] y by simp_all
  then have "w64 (?y div 400 * 146097 + (?y mod 400 * 365 + ?y mod 400 div 4 - ?y mod 400 div 100 + ?doy) - 719468) =
      ?y div 400 * 146097 + (?y mod 400 * 365 + ?y mod 400 div 4 - ?y mod 400 div 100 + ?doy) - 719468"
    using doe by (intro w64_id) simp_all
  moreover have "as_u64 (?y mod 400) = ?y mod 400" "as_u64 ?doy = ?doy"
    "as_u64 (?y mod 400 * 365 + ?y mod 400 div 4 - ?y mod 400 div 100 + ?doy) =
       ?y mod 400 * 365 + ?y mod 400 div 4 - ?y mod 400 div 100 + ?doy"
    by (intro as_u64_small; use yr doy doe in linarith)+
  ultimately show ?thesis
    unfolding days_from_civil_def Let_def march_year_def [symmetric] march_month_def [symmetric]
      day_of_year_def [symmetric] w era yoe civil_days_def by simp
qed

text \<open>The year of a day within its 400-year era; the last day of an era is the only special case.\<close>

definition doe_year :: "int \<Rightarrow> int" where
  "doe_year doe = (doe - doe div 1460 + doe div 36524 - doe div 146096) div 365"

definition year_start :: "int \<Rightarrow> int" where
  "year_start yoe = 365 * yoe + yoe div 4 - yoe div 100"

definition long_year :: "int \<Rightarrow> bool" where
  "long_year yoe \<longleftrightarrow> yoe mod 4 = 3 \<and> (yoe mod 100 \<noteq> 99 \<or> yoe = 399)"

lemma doe_year_start:
  assumes "0 \<le> yoe" "yoe < 400" "0 \<le> doy" "doy \<le> 365" "doy = 365 \<Longrightarrow> long_year yoe"
  shows "doe_year (year_start yoe + doy) = yoe"
    "0 \<le> year_start yoe + doy" "year_start yoe + doy < 146097"
proof -
  define c q r where "c = yoe div 100" and "q = yoe mod 100 div 4" and "r = yoe mod 4"
  have r4: "yoe mod 100 mod 4 = yoe mod 4" by (simp add: mod_mod_cancel)
  have y: "yoe = 100 * c + 4 * q + r"
    using div_mult_mod_eq [of yoe 100] div_mult_mod_eq [of "yoe mod 100" 4] r4
    unfolding c_def q_def r_def by linarith
  have rng: "0 \<le> c" "c \<le> 3" "0 \<le> q" "q \<le> 24" "0 \<le> r" "r \<le> 3"
    using assms(1,2) by (simp_all add: c_def q_def r_def)
  have d4: "yoe div 4 = 25 * c + q" using y rng by simp
  define doe where "doe = year_start yoe + doy"
  have doe: "doe = 36524 * c + 1461 * q + 365 * r + doy"
    unfolding doe_def year_start_def d4 c_def [symmetric] using y by simp
  have last: "doy = 365 \<Longrightarrow> r = 3 \<and> (q \<noteq> 24 \<or> c = 3)"
    using assms(5) y rng unfolding long_year_def r_def [symmetric] by (auto simp: r_def [symmetric])
  show "0 \<le> year_start yoe + doy" "year_start yoe + doy < 146097"
    unfolding doe_def [symmetric] doe using rng assms(3,4) by linarith+
  show "doe_year (year_start yoe + doy) = yoe"
  proof (cases "doe = 146096")
    case True
    have "\<not> c \<le> 2" using True doe rng assms(4) by linarith
    then have c: "c = 3" using rng by linarith
    have "\<not> q \<le> 23" using True doe rng assms(4) c by linarith
    then have q: "q = 24" using rng by linarith
    have "\<not> r \<le> 2" using True doe rng assms(4) c q by linarith
    then have "yoe = 399" using y c q rng by linarith
    then show ?thesis unfolding doe_def [symmetric] True by (simp add: doe_year_def)
  next
    case False
    have lt: "1461 * q + 365 * r + doy < 36524 \<or> c = 3"
      using rng assms(3,4) last by (cases "doy = 365") auto
    have up: "doe < 146096" using False doe rng assms(4) by linarith
    have "doe div 36524 = c"
    proof (rule int_div_pos_eq)
      show "doe = 36524 * c + (1461 * q + 365 * r + doy)" using doe by simp
      show "0 \<le> 1461 * q + 365 * r + doy" using rng assms(3) by simp
      show "1461 * q + 365 * r + doy < 36524" using lt up doe by auto
    qed
    moreover have "doe div 146096 = 0" using up rng assms(3) doe by (intro div_pos_pos_trivial) simp_all
    moreover define t where "t = 24 * c + q + 365 * r + doy"
    have t: "doe = 1460 * (25 * c + q) + t" using doe by (simp add: t_def)
    have tr: "0 \<le> t" "t < 2 * 1460" using rng assms(3,4) by (simp_all add: t_def)
    have div1: "doe div 1460 = 25 * c + q + (if t < 1460 then 0 else 1)"
    proof (cases "t < 1460")
      case True
      with t tr show ?thesis by (simp add: int_div_pos_eq [of doe 1460 "25 * c + q" t])
    next
      case F: False
      have "doe div 1460 = 25 * c + q + 1"
        by (rule int_div_pos_eq [of _ _ _ "t - 1460"]) (use t tr F in simp_all)
      with F show ?thesis by simp
    qed
    have res: "0 \<le> doy - (if t < 1460 then 0 else 1)" "doy - (if t < 1460 then 0 else 1) < 365"
    proof -
      show "0 \<le> doy - (if t < 1460 then 0 else 1)" using rng assms(3) by (auto simp: t_def)
      show "doy - (if t < 1460 then 0 else 1) < 365"
        using assms(4) last rng by (cases "doy = 365") (auto simp: t_def)
    qed
    have "doe - doe div 1460 + doe div 36524 - doe div 146096 = 365 * yoe + (doy - (if t < 1460 then 0 else 1))"
      unfolding div1 calculation using doe y by simp
    then have "doe_year doe = yoe"
      unfolding doe_year_def by (intro int_div_pos_eq [OF _ res]) simp
    then show ?thesis by (simp add: doe_def)
  qed
qed

text \<open>Months counted from March have lengths 31, 30, 31, 30, 31, 31, 30, 31, 30, 31, 31 and the rest.\<close>

definition march_length :: "int \<Rightarrow> int" where
  "march_length mp = (153 * (mp + 1) + 2) div 5 - (153 * mp + 2) div 5"

lemma march_month_back:
  assumes "0 \<le> mp" "mp \<le> 11" "1 \<le> d" "mp < 11 \<Longrightarrow> d \<le> march_length mp" "mp = 11 \<Longrightarrow> d \<le> 29"
  shows "(5 * day_of_year mp d + 2) div 153 = mp" "day_of_year mp d \<le> 365"
    "mp \<noteq> 11 \<or> d \<noteq> 29 \<Longrightarrow> day_of_year mp d \<noteq> 365"
proof -
  have "mp = 0 \<or> mp = 1 \<or> mp = 2 \<or> mp = 3 \<or> mp = 4 \<or> mp = 5 \<or> mp = 6 \<or> mp = 7 \<or> mp = 8 \<or> mp = 9 \<or> mp = 10 \<or> mp = 11"
    using assms(1,2) by presburger
  then show "(5 * day_of_year mp d + 2) div 153 = mp" "day_of_year mp d \<le> 365"
    "mp \<noteq> 11 \<or> d \<noteq> 29 \<Longrightarrow> day_of_year mp d \<noteq> 365"
    using assms(3-5) by (auto simp: day_of_year_def march_length_def)
qed

lemma valid_march:
  assumes "valid_date y m d"
  shows "march_month m < 11 \<Longrightarrow> d \<le> march_length (march_month m)"
    "march_month m = 11 \<Longrightarrow> d \<le> 29" "march_month m = 11 \<Longrightarrow> d = 29 \<Longrightarrow> leap y \<and> m = 2"
proof -
  have "m = 1 \<or> m = 2 \<or> m = 3 \<or> m = 4 \<or> m = 5 \<or> m = 6 \<or> m = 7 \<or> m = 8 \<or> m = 9 \<or> m = 10 \<or> m = 11 \<or> m = 12"
    using assms unfolding valid_date_def by presburger
  then have "(march_month m < 11 \<longrightarrow> d \<le> march_length (march_month m)) \<and> (march_month m = 11 \<longrightarrow> d \<le> 29) \<and>
      (march_month m = 11 \<longrightarrow> d = 29 \<longrightarrow> leap y \<and> m = 2)"
    by (elim disjE; use assms in \<open>simp add: valid_date_def month_days_def march_month_def march_length_def split: if_splits\<close>)
  then show "march_month m < 11 \<Longrightarrow> d \<le> march_length (march_month m)"
    "march_month m = 11 \<Longrightarrow> d \<le> 29" "march_month m = 11 \<Longrightarrow> d = 29 \<Longrightarrow> leap y \<and> m = 2"
    by blast+
qed

lemma leap_long:
  assumes "leap y"
  shows "long_year ((y - 1) mod 400)"
proof -
  define k where "k = (y - 1) mod 400"
  have k: "y = (y - 1) div 400 * 400 + k + 1" "0 \<le> k" "k < 400"
    using div_mult_mod_eq [of "y - 1" 400] by (simp_all add: k_def)
  define e where "e = (y - 1) div 400"
  have y: "y = 400 * e + (k + 1)" using k(1) by (simp add: e_def)
  have "4 dvd 400 * e" "100 dvd 400 * e" "400 dvd 400 * e" by (simp_all add: dvd_mult2)
  then have "4 dvd y \<longleftrightarrow> 4 dvd (k + 1)" "100 dvd y \<longleftrightarrow> 100 dvd (k + 1)" "400 dvd y \<longleftrightarrow> 400 dvd (k + 1)"
    unfolding y by (simp_all only: dvd_add_right_iff)
  then have or: "(4 dvd (k + 1) \<and> \<not> 100 dvd (k + 1)) \<or> 400 dvd (k + 1)"
    using assms by (simp add: leap_def)
  moreover have "400 dvd (k + 1) \<Longrightarrow> k = 399"
    using k(2,3) zdvd_imp_le [of 400 "k + 1"] by simp
  moreover have "4 dvd (k + 1) \<Longrightarrow> k mod 4 = 3" by presburger
  moreover have "k mod 100 = 99 \<Longrightarrow> 100 dvd (k + 1)" by presburger
  ultimately have "long_year k" unfolding long_year_def by (cases "400 dvd (k + 1)") auto
  then show ?thesis by (simp add: k_def)
qed

section \<open>The conversions are inverse and follow the calendar\<close>

lemma march_doy:
  assumes "valid_date y m d"
  shows "0 \<le> day_of_year (march_month m) d" "day_of_year (march_month m) d \<le> 365"
    "(5 * day_of_year (march_month m) d + 2) div 153 = march_month m"
    "day_of_year (march_month m) d = 365 \<Longrightarrow> long_year (march_year y m mod 400)"
proof -
  have m: "1 \<le> m" "m \<le> 12" "1 \<le> d" "d \<le> 31" and mp: "0 \<le> march_month m" "march_month m \<le> 11"
    using assms march_month_range [of m]
    by (auto simp: valid_date_def month_days_def split: if_splits)
  note v = valid_march [OF assms]
  note bk = march_month_back [OF mp m(3) v(1,2)]
  show "0 \<le> day_of_year (march_month m) d" using day_of_year_range(1) mp m by blast
  show "day_of_year (march_month m) d \<le> 365" "(5 * day_of_year (march_month m) d + 2) div 153 = march_month m"
    using bk by blast+
  show "long_year (march_year y m mod 400)" if "day_of_year (march_month m) d = 365"
  proof -
    have "march_month m = 11 \<and> d = 29" using bk(3) that by blast
    then have "leap y \<and> m = 2" using valid_march(3) [OF assms] by blast
    then show ?thesis using leap_long by (simp add: march_year_def)
  qed
qed

lemma civil_from_days_eq:
  assumes "safe_year y" "valid_date y m d"
  shows "civil_from_days (civil_days (march_year y m) (day_of_year (march_month m) d)) = (y, m, d)"
proof -
  let ?Y = "march_year y m" and ?doy = "day_of_year (march_month m) d"
  define e k where "e = ?Y div 400" and "k = ?Y mod 400"
  have k: "0 \<le> k" "k < 400" by (simp_all add: k_def)
  have Y: "?Y = e * 400 + k" by (simp add: e_def k_def)
  note doy = march_doy [OF assms(2)]
  define doe where "doe = year_start k + ?doy"
  have doe: "doe_year doe = k" "0 \<le> doe" "doe < 146097"
    using doe_year_start [OF k doy(1,2)] doy(4) by (simp_all add: doe_def k_def)
  define z where "z = civil_days ?Y ?doy + 719468"
  have z: "z = e * 146097 + doe"
    unfolding z_def civil_days_def e_def [symmetric] k_def [symmetric] doe_def year_start_def by simp
  have e: "- (10 ^ 13) \<le> e" "e \<le> 10 ^ 13"
  proof -
    have "- (10 ^ 15) - 1 \<le> ?Y" "?Y \<le> 10 ^ 15"
      using assms(1) by (auto simp: safe_year_def march_year_def)
    then show "- (10 ^ 13) \<le> e" "e \<le> 10 ^ 13" using Y k by simp_all
  qed
  have zb: "- (2 ^ 63) + 146096 \<le> z" "z < 2 ^ 63" using z doe e by simp_all
  have era: "(if 0 \<le> z then z else z - 146096) sdiv 146097 = e"
    using floor_era [of 146097 z] doe z by (cases "0 \<le> z") (simp_all add: int_div_pos_eq)
  have wz: "w64 (if 0 \<le> z then z else z - 146096) = (if 0 \<le> z then z else z - 146096)"
    using zb by (auto intro!: w64_id)
  have zdoe: "z - e * 146097 = doe" using z by simp
  have k365: "0 \<le> doe - doe div 1460 + doe div 36524 - doe div 146096"
    "doe - doe div 1460 + doe div 36524 - doe div 146096 < 1000000"
    using doe(2,3) by linarith+
  have mp: "0 \<le> march_month m" "march_month m \<le> 11" and m: "1 \<le> m" "m \<le> 12" "1 \<le> d" "d \<le> 31"
    using assms(2) march_month_range [of m] by (auto simp: valid_date_def month_days_def split: if_splits)
  have dd: "?doy - (153 * march_month m + 2) div 5 + 1 = d" by (simp add: day_of_year_def)
  have mm: "(if march_month m < 10 then march_month m + 3 else march_month m - 9) = m"
    using m by (simp add: march_month_def)
  have yy: "(if m \<le> 2 then w64 (?Y + 1) else ?Y) = y"
    using assms(1) by (auto simp: march_year_def safe_year_def intro!: w64_id)
  have doyk: "doe - year_start k = ?doy" by (simp add: doe_def)
  have wy: "w64 (k + e * 400) = ?Y" using Y e k by (simp add: w64_id)
  have z2: "w64 (civil_days ?Y ?doy + 719468) = z" using zb by (simp add: w64_id flip: z_def)
  have small: "as_u64 doe = doe" "as_u64 ?doy = ?doy" "as_u64 (5 * ?doy + 2) = 5 * ?doy + 2"
    "as_u64 (doe - doe div 1460 + doe div 36524 - doe div 146096) =
       doe - doe div 1460 + doe div 36524 - doe div 146096"
    by (intro as_u64_small; use doe doy k365 in linarith)+
  have small32: "as_u32 d = d" "as_u32 m = m" using m by (simp_all add: as_u32_id)
  show ?thesis
    unfolding civil_from_days_def Let_def z2 wz era zdoe small doe_year_def [symmetric] doe(1) wy
      year_start_def [symmetric] doyk doy(3) dd mm small32 yy ..
qed

lemma civil_round_trip:
  assumes "safe_year y" "valid_date y m d"
  shows "civil_from_days (days_from_civil y m d) = (y, m, d)"
proof -
  have "1 \<le> m" "m \<le> 12" "1 \<le> d" "d \<le> 31"
    using assms(2) by (auto simp: valid_date_def month_days_def split: if_splits)
  then show ?thesis
    using days_from_civil_eq [OF assms(1)] civil_from_days_eq [OF assms] by simp
qed

lemma div_pred:
  assumes "0 < (n :: int)"
  shows "k div n = (k - 1) div n + (if n dvd k then 1 else 0)"
proof (cases "n dvd k")
  case True
  then obtain q where q: "k = n * q" by (auto elim: dvdE)
  have "(k - 1) div n = q - 1"
    by (rule int_div_pos_eq [of _ _ _ "n - 1"]) (use q assms in \<open>simp_all add: algebra_simps\<close>)
  with True q assms show ?thesis by simp
next
  case False
  then have "k mod n \<noteq> 0" by (simp add: dvd_eq_mod_eq_0)
  then have "1 \<le> k mod n" using assms pos_mod_sign [of n k] by linarith
  moreover have "k = n * (k div n) + k mod n" by simp
  ultimately have "(k - 1) div n = k div n"
    using assms pos_mod_bound [of n k] by (intro int_div_pos_eq [of _ _ _ "k mod n - 1"]) linarith+
  with False show ?thesis by simp
qed

lemma year_boundary: "civil_days y 0 = civil_days (y - 1) (if leap y then 365 else 364) + 1"
proof -
  define e k where "e = y div 400" and "k = y mod 400"
  have y: "y = 400 * e + k" and k: "0 \<le> k" "k < 400" by (simp_all add: e_def k_def)
  have dvd: "4 dvd y \<longleftrightarrow> 4 dvd k" "100 dvd y \<longleftrightarrow> 100 dvd k" "400 dvd y \<longleftrightarrow> 400 dvd k"
  proof -
    have "4 dvd 400 * e" "100 dvd 400 * e" "400 dvd 400 * e" by (simp_all add: dvd_mult2)
    then show "4 dvd y \<longleftrightarrow> 4 dvd k" "100 dvd y \<longleftrightarrow> 100 dvd k" "400 dvd y \<longleftrightarrow> 400 dvd k"
      unfolding y by (simp_all only: dvd_add_right_iff)
  qed
  show ?thesis
  proof (cases "k = 0")
    case True
    then have "(y - 1) div 400 = e - 1" "(y - 1) mod 400 = 399"
      using y int_mod_pos_eq [of "y - 1" 400 "e - 1" 399]
      by (simp_all add: int_div_pos_eq [of "y - 1" 400 "e - 1" 399])
    moreover have "leap y" using True dvd by (simp add: leap_def)
    ultimately show ?thesis
      using True unfolding civil_days_def e_def [symmetric] k_def [symmetric] by simp
  next
    case False
    then have d: "(y - 1) div 400 = e" "(y - 1) mod 400 = k - 1"
      using y k int_mod_pos_eq [of "y - 1" 400 e "k - 1"]
      by (simp_all add: int_div_pos_eq [of "y - 1" 400 e "k - 1"])
    have "\<not> 400 dvd k" using False k zdvd_imp_le [of 400 k] by auto
    then have "leap y \<longleftrightarrow> 4 dvd k \<and> \<not> 100 dvd k" using dvd by (simp add: leap_def)
    moreover have "k div 4 = (k - 1) div 4 + (if 4 dvd k then 1 else 0)"
      "k div 100 = (k - 1) div 100 + (if 100 dvd k then 1 else 0)"
      by (rule div_pred; simp)+
    moreover have "100 dvd k \<Longrightarrow> 4 dvd k" by (rule dvd_trans [of 4 100]) simp_all
    ultimately show ?thesis
      unfolding civil_days_def e_def [symmetric] k_def [symmetric] d by auto
  qed
qed

lemma civil_days_succ: "civil_days y (doy + 1) = civil_days y doy + 1"
  by (simp add: civil_days_def)

lemma next_date_valid: "valid_date y m d \<Longrightarrow> next_date y m d = (y', m', d') \<Longrightarrow> valid_date y' m' d'"
  by (auto simp: next_date_def valid_date_def month_days_def split: if_splits)

lemma civil_next:
  assumes "valid_date y m d" "next_date y m d = (y', m', d')"
  shows "civil_days (march_year y' m') (day_of_year (march_month m') d') =
    civil_days (march_year y m) (day_of_year (march_month m) d) + 1"
proof (cases "d < month_days y m")
  case True
  then have "y' = y" "m' = m" "d' = d + 1" using assms(2) by (simp_all add: next_date_def)
  then show ?thesis
    using civil_days_succ [of "march_year y m" "day_of_year (march_month m) d"]
    by (simp add: day_of_year_def algebra_simps)
next
  case False
  then have d: "d = month_days y m" using assms(1) by (simp add: valid_date_def)
  have m12: "m = 1 \<or> m = 2 \<or> m = 3 \<or> m = 4 \<or> m = 5 \<or> m = 6 \<or> m = 7 \<or> m = 8 \<or> m = 9 \<or> m = 10 \<or> m = 11 \<or> m = 12"
    using assms(1) unfolding valid_date_def by presburger
  show ?thesis
  proof (cases "m = 2")
    case True
    then have "y' = y" "m' = 3" "d' = 1" using assms(2) d by (simp_all add: next_date_def)
    then show ?thesis
      using True d year_boundary [of y]
      by (simp add: march_year_def march_month_def day_of_year_def month_days_def)
  next
    case F: False
    have s: "march_year y' m' = march_year y m" "march_month m' = march_month m + 1" "d' = 1"
      "d = march_length (march_month m)"
      using m12 F assms(2) d
      by (auto simp: next_date_def march_year_def march_month_def march_length_def month_days_def)
    have "day_of_year (march_month m + 1) 1 = day_of_year (march_month m) d + 1"
      unfolding day_of_year_def s(4) march_length_def by simp
    then show ?thesis
      unfolding s(1-3) using civil_days_succ by simp
  qed
qed

lemma days_next:
  assumes "safe_year y" "safe_year y'" "valid_date y m d" "next_date y m d = (y', m', d')"
  shows "days_from_civil y' m' d' = days_from_civil y m d + 1"
proof -
  have r: "1 \<le> m \<and> m \<le> 12 \<and> 1 \<le> d \<and> d \<le> 31" if "valid_date y m d" for y m d
    using that by (auto simp: valid_date_def month_days_def split: if_splits)
  show ?thesis
    using civil_next [OF assms(3,4)] days_from_civil_eq assms r [OF assms(3)]
      r [OF next_date_valid [OF assms(3,4)]] by simp
qed

text \<open>The reference calendar: the \<open>n\<close>-th day after 0000-01-01.\<close>

definition next_day :: "int \<times> int \<times> int \<Rightarrow> int \<times> int \<times> int" where
  "next_day = (\<lambda>(y, m, d). next_date y m d)"

lemma calendar_run:
  assumes "\<bar>e\<bar> \<le> 10 ^ 12" "int n \<le> 10 ^ 14" "(next_day ^^ n) (400 * e, 1, 1) = (y, m, d)"
  shows "400 * e \<le> y \<and> y \<le> 400 * e + int n \<and> valid_date y m d \<and>
    days_from_civil y m d = e * 146097 - 719528 + int n"
  using assms(2,3)
proof (induction n arbitrary: y m d)
  case 0
  have s: "safe_year (400 * e)" using assms(1) by (simp add: safe_year_def abs_le_iff)
  have "(400 * e - 1) div 400 = e - 1" "(400 * e - 1) mod 400 = 399"
    using int_mod_pos_eq [of "400 * e - 1" 400 "e - 1" 399]
    by (simp_all add: int_div_pos_eq [of "400 * e - 1" 400 "e - 1" 399])
  then have "civil_days (400 * e - 1) 306 = e * 146097 - 719528" by (simp add: civil_days_def)
  then have "days_from_civil (400 * e) 1 1 = e * 146097 - 719528"
    using days_from_civil_eq [OF s, of 1 1] by (simp add: march_year_def march_month_def day_of_year_def)
  then show ?case using 0 by (auto simp: valid_date_def month_days_def)
next
  case (Suc n)
  obtain y0 m0 d0 where nth: "(next_day ^^ n) (400 * e, 1, 1) = (y0, m0, d0)"
    by (cases "(next_day ^^ n) (400 * e, 1, 1)") auto
  have ih: "400 * e \<le> y0" "y0 \<le> 400 * e + int n" "valid_date y0 m0 d0"
    "days_from_civil y0 m0 d0 = e * 146097 - 719528 + int n"
    using Suc.IH [OF _ nth] Suc.prems(1) by auto
  have nx: "next_date y0 m0 d0 = (y, m, d)" using Suc.prems(2) nth by (simp add: next_day_def)
  have y: "400 * e \<le> y" "y \<le> 400 * e + int (Suc n)"
    using nx ih(1,2) by (auto simp: next_date_def split: if_splits)
  have "safe_year y0" "safe_year y"
    using ih(1,2) y Suc.prems(1) assms(1) unfolding safe_year_def by (simp_all add: abs_le_iff)
  with days_next [OF _ _ ih(3) nx] next_date_valid [OF ih(3) nx] ih(4) y show ?case by simp
qed

lemma civil_from_days_run:
  assumes "\<bar>e\<bar> \<le> 10 ^ 12" "int n \<le> 10 ^ 14"
  shows "civil_from_days (e * 146097 - 719528 + int n) = (next_day ^^ n) (400 * e, 1, 1)"
proof -
  obtain y m d where nth: "(next_day ^^ n) (400 * e, 1, 1) = (y, m, d)"
    by (cases "(next_day ^^ n) (400 * e, 1, 1)") auto
  note run = calendar_run [OF assms nth]
  have "safe_year y" using run assms unfolding safe_year_def by (simp add: abs_le_iff)
  then show ?thesis using civil_round_trip run nth by fastforce
qed

lemma civil_from_days_inverse:
  assumes "\<bar>n\<bar> \<le> 10 ^ 15" "civil_from_days n = (y, m, d)"
  shows "valid_date y m d" "days_from_civil y m d = n"
proof -
  define e k where "e = (n + 719528) div 146097" and "k = nat ((n + 719528) mod 146097)"
  have k: "int k = (n + 719528) mod 146097" "int k < 146097" by (simp_all add: k_def)
  have n: "n = e * 146097 - 719528 + int k"
    unfolding k(1) e_def using div_mult_mod_eq [of "n + 719528" 146097] by linarith
  have "- (10 ^ 15) + 719528 \<le> n + 719528" "n + 719528 \<le> 10 ^ 15 + 719528"
    using assms(1) by (simp_all add: abs_le_iff)
  then have e: "\<bar>e\<bar> \<le> 10 ^ 12"
    using zdiv_mono1 [of "- (10 ^ 15) + 719528" "n + 719528" 146097]
      zdiv_mono1 [of "n + 719528" "10 ^ 15 + 719528" 146097] by (simp add: e_def abs_le_iff)
  have k': "int k \<le> 10 ^ 14" using k(2) by simp
  have "(next_day ^^ k) (400 * e, 1, 1) = (y, m, d)"
    using civil_from_days_run [OF e k'] assms(2) n by simp
  from calendar_run [OF e k' this] show "valid_date y m d" "days_from_civil y m d = n"
    using n by simp_all
qed

section \<open>Timestamps as text\<close>

definition i64_ok :: "int \<Rightarrow> bool" where
  "i64_ok i \<longleftrightarrow> - (2 ^ 63) \<le> i \<and> i < 2 ^ 63"

text \<open>\<open>{:02}\<close> and \<open>{:04}\<close> of a non-negative number.\<close>

definition padded :: "nat \<Rightarrow> int \<Rightarrow> ustring" where
  "padded w i = pad_left w (show_dec (nat i))"

definition zone_text :: "int \<Rightarrow> ustring" where
  "zone_text offset_minutes =
     (if offset_minutes = 0 then [90]
      else (if offset_minutes < 0 then 45 else 43) # padded 2 (\<bar>offset_minutes\<bar> div 60) @ [58] @
        padded 2 (\<bar>offset_minutes\<bar> mod 60))"

definition format_unix :: "int \<Rightarrow> int \<Rightarrow> ustring option" where
  "format_unix seconds offset_minutes =
     (if \<not> i64_ok (offset_minutes * 60) \<or> \<not> i64_ok (seconds + offset_minutes * 60) then None
      else
        (let local = seconds + offset_minutes * 60;
             days = local div 86400;
             second_of_day = local mod 86400
         in case civil_from_days days of (year, month, day) \<Rightarrow>
              if \<not> (0 \<le> year \<and> year \<le> 9999) then None
              else Some (padded 4 year @ [45] @ padded 2 month @ [45] @ padded 2 day @ [84] @
                padded 2 (second_of_day div 3600) @ [58] @ padded 2 (second_of_day mod 3600 div 60) @ [58] @
                padded 2 (second_of_day mod 60) @ zone_text offset_minutes)))"

definition TIME_UNITS :: "ustring list" where
  "TIME_UNITS = [lit ''seconds'', lit ''milliseconds'', lit ''microseconds'', lit ''nanoseconds'']"

definition DATE_TIME_UNITS :: "ustring list" where
  "DATE_TIME_UNITS = [lit ''seconds'', lit ''milliseconds'']"

definition divisor_of :: "ustring \<Rightarrow> int chef_result" where
  "divisor_of unit =
     (if unit = lit ''seconds'' then Inr 1
      else if unit = lit ''milliseconds'' then Inr 1000
      else if unit = lit ''microseconds'' then Inr 1000000
      else if unit = lit ''nanoseconds'' then Inr 1000000000
      else Inl (Text_Error (Unknown_Time_Unit unit)))"

text \<open>The four lines of the report; the labels are the ones of the code.\<close>

definition unix_report :: "ustring \<Rightarrow> ustring \<Rightarrow> int \<Rightarrow> ustring" where
  "unix_report local utc seconds =
     [26412, 22320, 32] @ local @ [10] @ lit ''UTC   '' @ utc @ [10, 31186, 32, 32, 32, 32] @ show_int seconds @
     [10, 27627, 31186, 32, 32] @ show_int (seconds * 1000)"

definition unix_to_date :: "chef_data \<Rightarrow> args \<Rightarrow> chef_data chef_result" where
  "unix_to_date data a =
     rbind (choice_in a (lit ''unit'') (lit ''milliseconds'') TIME_UNITS) (\<lambda>unit.
     rbind (divisor_of unit) (\<lambda>divisor.
     rbind (chef_text data) (\<lambda>t.
       let raw = replace_all [95] [] (trim t) in
       rbind (rmap_err (\<lambda>_. Text_Error (Not_A_Timestamp raw)) (parse_signed i128_max raw)) (\<lambda>number.
       let seconds = w64 (number sdiv divisor) in
       rbind (args_number a (lit ''offsetMinutes'') 0) (\<lambda>offset.
       rbind (ok_or (format_unix seconds (w64 (int offset))) (Text_Error Date_Out_Of_Range)) (\<lambda>local.
       let utc = (case format_unix seconds 0 of None \<Rightarrow> [] | Some u \<Rightarrow> u) in
       Inr (from_text (unix_report local utc seconds))))))))"

text \<open>The digits behind the zone sign: two for the hour, two for the minute, missing ones count as 00.\<close>

definition zone_number :: "ustring \<Rightarrow> int" where
  "zone_number digits = (case parse_signed i64_max digits of Inr n \<Rightarrow> n | Inl _ \<Rightarrow> 0)"

definition zone_offset :: "rchar \<Rightarrow> ustring \<Rightarrow> int" where
  "zone_offset sign tail =
     (let digits = filter is_ascii_digit tail;
          hour = zone_number (if 2 \<le> length digits then take 2 digits else [48, 48]);
          minute = zone_number (if 4 \<le> length digits then take 2 (drop 2 digits) else [48, 48])
      in (if sign = 45 then - 1 else 1) * (hour * 60 + minute))"

definition zone_index :: "ustring \<Rightarrow> nat option" where
  "zone_index rest =
     (let i = length (takeWhile (\<lambda>c. \<not> (c = 43 \<or> c = 45)) rest) in
      if i < length rest \<and> 0 < i then Some i else None)"

definition clock_at :: "ustring list \<Rightarrow> nat \<Rightarrow> int" where
  "clock_at parts i =
     (if i < length parts then (case parse_signed i64_max (parts ! i) of Inr n \<Rightarrow> n | Inl _ \<Rightarrow> 0) else 0)"

definition date_number :: "ustring \<Rightarrow> string \<Rightarrow> int chef_result" where
  "date_number t what = rmap_err (\<lambda>_. Text_Error (Not_A_Date_Number (lit what) t)) (parse_signed i64_max t)"

definition date_clock :: "ustring \<Rightarrow> args \<Rightarrow> (ustring \<times> int) chef_result" where
  "date_clock rest a =
     (case zone_index rest of
        Some i \<Rightarrow> Inr (take i rest, zone_offset (rest ! i) (drop (i + 1) rest))
      | None \<Rightarrow> rmap (\<lambda>offset. (trim_end_with (\<lambda>c. c = 90) rest, w64 (int offset)))
                 (args_number a (lit ''offsetMinutes'') 0))"

definition date_seconds :: "int \<Rightarrow> int \<Rightarrow> int \<Rightarrow> ustring \<Rightarrow> args \<Rightarrow> int chef_result" where
  "date_seconds year month day rest a =
     rbind (date_clock rest a) (\<lambda>(clock, offset).
       let parts = split_str [58] clock;
           hour = clock_at parts 0; minute = clock_at parts 1; second = clock_at parts 2 in
       if \<not> (0 \<le> hour \<and> hour \<le> 23) \<or> \<not> (0 \<le> minute \<and> minute \<le> 59) \<or> \<not> (0 \<le> second \<and> second \<le> 60)
       then Inl (Text_Error (Clock_Out_Of_Range clock))
       else Inr (w64 (days_from_civil year month day * 86400 + hour * 3600 + minute * 60 + second - offset * 60)))"

definition date_to_unix :: "chef_data \<Rightarrow> args \<Rightarrow> chef_data chef_result" where
  "date_to_unix data a =
     rbind (chef_text data) (\<lambda>t.
       let source = replace_all [47] [45] (replace_all [84] [32] (trim t)) in
       case split_once [32] source of
         None \<Rightarrow> Inl (Text_Error No_Date_Separator)
       | Some (date_part, rest) \<Rightarrow>
           let parts = split_str [45] date_part in
           if length parts \<noteq> 3 then Inl (Text_Error (Not_Three_Date_Parts date_part))
           else
             rbind (date_number (parts ! 0) ''year'') (\<lambda>year.
             rbind (date_number (parts ! 1) ''month'') (\<lambda>m.
             rbind (date_number (parts ! 2) ''day'') (\<lambda>d.
               let month = as_u32 m; day = as_u32 d in
               if \<not> (1 \<le> month \<and> month \<le> 12) \<or> \<not> (1 \<le> day \<and> day \<le> 31)
               then Inl (Text_Error (Month_Day_Out_Of_Range (nat month) (nat day)))
               else
                 rbind (date_seconds year month day rest a) (\<lambda>seconds.
                 rbind (choice_in a (lit ''unit'') (lit ''seconds'') DATE_TIME_UNITS) (\<lambda>unit.
                   Inr (from_text (show_int
                     (if unit = lit ''milliseconds'' then w64 (seconds * 1000) else seconds)))))))))"

section \<open>Reading back a formatted timestamp\<close>

lemma padded_props:
  assumes "0 \<le> i"
  shows "c \<in> set (padded w i) \<Longrightarrow> 48 \<le> c \<and> c \<le> 57" "padded w i \<noteq> []"
    "i < 2 ^ 63 \<Longrightarrow> parse_signed i64_max (padded w i) = Inr i"
proof -
  show chars: "c \<in> set (padded w i) \<Longrightarrow> 48 \<le> c \<and> c \<le> 57" for c
    using set_pad_left [of w "show_dec (nat i)"] show_dec_chars [of c "nat i"] by (auto simp: padded_def)
  show ne: "padded w i \<noteq> []" by (simp add: padded_def pad_left_def show_dec_def)
  have hd: "48 \<le> hd (padded w i)" using chars hd_in_set [OF ne] by blast
  show "parse_signed i64_max (padded w i) = Inr i" if "i < 2 ^ 63"
  proof -
    have "nat i \<le> i64_max" using that assms by (simp add: i64_max_def nat_le_iff)
    then have "parse_digits 10 i64_max 0 (padded w i) = Inr (nat i)"
      unfolding padded_def show_dec_def by (intro parse_digits_pad) simp_all
    then show ?thesis using ne hd assms unfolding parse_signed_def by auto
  qed
qed

lemma padded_chars: "0 \<le> i \<Longrightarrow> c \<in> set (padded w i) \<Longrightarrow> 48 \<le> c \<and> c \<le> 58"
  using padded_props(1) [of i c w] by simp

lemma padded_length: "i < 100 \<Longrightarrow> length (padded 2 i) = 2"
proof -
  assume "i < 100"
  then have "nat i < 10 ^ Suc 1" by simp
  then have "length (to_digits 10 (nat i)) \<le> Suc 1" by (rule to_digits_length) simp
  then show ?thesis by (simp add: padded_def pad_left_def show_dec_def)
qed

lemma padded_no: "0 \<le> i \<Longrightarrow> x < 48 \<or> 57 < x \<Longrightarrow> x \<notin> set (padded w i)"
  using padded_props(1) [of i x w] by auto

lemma padded_digits: "0 \<le> i \<Longrightarrow> filter is_ascii_digit (padded w i) = padded w i"
  using padded_props(1) by (auto simp: filter_id_conv is_ascii_digit_def)

lemma split_three:
  assumes "x \<notin> set a" "x \<notin> set b" "x \<notin> set c"
  shows "split_str [x] (a @ [x] @ b @ [x] @ c) = [a, b, c]"
proof -
  have "split_pred (\<lambda>y. y = x) (b @ x # c) = [b, c]"
    using assms split_pred_append [of b "\<lambda>y. y = x" x c] split_pred_none [of c "\<lambda>y. y = x"] by fastforce
  then show ?thesis
    using assms split_pred_append [of a "\<lambda>y. y = x" x "b @ x # c"] by fastforce
qed

lemma zone_offset_text:
  assumes "offset \<noteq> 0" "\<bar>offset\<bar> < 6000"
  shows "zone_offset (hd (zone_text offset)) (tl (zone_text offset)) = offset"
    "hd (zone_text offset) \<in> {43, 45}" "zone_text offset \<noteq> []"
proof -
  let ?h = "padded 2 (\<bar>offset\<bar> div 60)" and ?m = "padded 2 (\<bar>offset\<bar> mod 60)"
  have r: "0 \<le> \<bar>offset\<bar> div 60" "\<bar>offset\<bar> div 60 < 100" "0 \<le> \<bar>offset\<bar> mod 60" "\<bar>offset\<bar> mod 60 < 60"
    using assms(2) by simp_all
  have f: "filter is_ascii_digit (tl (zone_text offset)) = ?h @ ?m"
    using assms(1) padded_digits [OF r(1)] padded_digits [OF r(3)]
    by (simp add: zone_text_def is_ascii_digit_def)
  have l: "length ?h = 2" "length ?m = 2" using r by (simp_all add: padded_length)
  have n: "zone_number ?h = \<bar>offset\<bar> div 60" "zone_number ?m = \<bar>offset\<bar> mod 60"
    using padded_props(3) [OF r(1), of 2] padded_props(3) [OF r(3), of 2] r by (simp_all add: zone_number_def)
  have t: "take 2 (?h @ ?m) = ?h" "take 2 (drop 2 (?h @ ?m)) = ?m" "length (?h @ ?m) = 4"
    using l by simp_all
  have s: "zone_offset sign (tl (zone_text offset)) = (if sign = 45 then - 1 else 1) * \<bar>offset\<bar>" for sign
    unfolding zone_offset_def f Let_def t using n by simp
  have h: "hd (zone_text offset) = (if offset < 0 then 45 else 43)"
    using assms(1) by (simp add: zone_text_def)
  show "zone_offset (hd (zone_text offset)) (tl (zone_text offset)) = offset"
    unfolding s h by simp
  show "hd (zone_text offset) \<in> {43, 45}" "zone_text offset \<noteq> []"
    using assms(1) by (simp_all add: zone_text_def)
qed

text \<open>A clock time and zone, as \<open>dateToUnix\<close> reads them.\<close>

definition clock_text :: "int \<Rightarrow> ustring" where
  "clock_text sod = padded 2 (sod div 3600) @ [58] @ padded 2 (sod mod 3600 div 60) @ [58] @ padded 2 (sod mod 60)"

lemma clock_text_no:
  "0 \<le> sod \<Longrightarrow> c \<in> set (clock_text sod) \<Longrightarrow> 48 \<le> c \<and> c \<le> 58"
  using padded_chars [of "sod div 3600" c 2] padded_chars [of "sod mod 3600 div 60" c 2]
    padded_chars [of "sod mod 60" c 2] by (auto simp: clock_text_def pos_imp_zdiv_nonneg_iff)

lemma clock_text_read:
  assumes "0 \<le> sod" "sod < 86400"
  shows "clock_at (split_str [58] (clock_text sod)) 0 = sod div 3600"
    "clock_at (split_str [58] (clock_text sod)) 1 = sod mod 3600 div 60"
    "clock_at (split_str [58] (clock_text sod)) 2 = sod mod 60"
proof -
  have r: "0 \<le> sod div 3600" "0 \<le> sod mod 3600 div 60" "0 \<le> sod mod 60"
    "sod div 3600 < 2 ^ 63" "sod mod 3600 div 60 < 2 ^ 63" "sod mod 60 < 2 ^ 63"
    using assms pos_mod_bound [of 3600 sod] pos_mod_bound [of 60 sod] by simp_all
  have "split_str [58] (clock_text sod) =
      [padded 2 (sod div 3600), padded 2 (sod mod 3600 div 60), padded 2 (sod mod 60)]"
    unfolding clock_text_def using r(1-3) by (intro split_three padded_no) simp_all
  then show "clock_at (split_str [58] (clock_text sod)) 0 = sod div 3600"
    "clock_at (split_str [58] (clock_text sod)) 1 = sod mod 3600 div 60"
    "clock_at (split_str [58] (clock_text sod)) 2 = sod mod 60"
    by (simp_all only: clock_at_def list.size nth_Cons_0 nth_Cons_Suc One_nat_def numeral_2_eq_2
        padded_props(3) [OF r(1) r(4)] padded_props(3) [OF r(2) r(5)] padded_props(3) [OF r(3) r(6)])
      simp_all
qed

lemma date_clock_zone:
  assumes "0 \<le> sod" "\<bar>offset\<bar> < 6000" "offset = 0 \<Longrightarrow> args_number a (lit ''offsetMinutes'') 0 = Inr 0"
  shows "date_clock (clock_text sod @ zone_text offset) a = Inr (clock_text sod, offset)"
proof -
  let ?c = "clock_text sod"
  have no: "\<not> (c = 43 \<or> c = 45)" "c \<noteq> 90" if "c \<in> set ?c" for c
    using clock_text_no [OF assms(1) that] by auto
  have ne: "?c \<noteq> []" by (simp add: clock_text_def)
  show ?thesis
  proof (cases "offset = 0")
    case True
    then have z: "zone_text offset = [90]" by (simp add: zone_text_def)
    have "takeWhile (\<lambda>c. \<not> (c = 43 \<or> c = 45)) (?c @ [90]) = ?c @ [90]"
      using no by (intro takeWhile_all) auto
    then have "zone_index (?c @ [90]) = None" unfolding zone_index_def Let_def by simp
    moreover have "trim_end_with (\<lambda>c. c = 90) (?c @ [90]) = ?c"
      using trim_end_with_none [of ?c "\<lambda>c. c = 90"] no by (simp add: trim_end_with_def)
    ultimately show ?thesis
      unfolding date_clock_def z using assms(3) [OF True] True by (simp add: w64_def del: lit_Cons)
  next
    case False
    note zt = zone_offset_text [OF False assms(2)]
    obtain s t where st: "zone_text offset = s # t" using zt(3) by (cases "zone_text offset") auto
    then have s: "s = 43 \<or> s = 45" and off: "zone_offset s t = offset" using zt(1,2) by simp_all
    have "takeWhile (\<lambda>c. \<not> (c = 43 \<or> c = 45)) (?c @ s # t) = ?c"
      using no s by (subst takeWhile_append2) auto
    then have "zone_index (?c @ s # t) = Some (length ?c)" using ne by (simp add: zone_index_def)
    then show ?thesis unfolding date_clock_def st using off by simp
  qed
qed

lemma date_seconds_back:
  assumes "days_from_civil y m d = (seconds + offset * 60) div 86400" "i64_ok seconds" "\<bar>offset\<bar> < 6000"
    and "offset = 0 \<Longrightarrow> args_number a (lit ''offsetMinutes'') 0 = Inr 0"
  shows "date_seconds y m d (clock_text ((seconds + offset * 60) mod 86400) @ zone_text offset) a = Inr seconds"
proof -
  define l where "l = seconds + offset * 60"
  define s where "s = l mod 86400"
  have s: "0 \<le> s" "s < 86400" by (simp_all add: s_def)
  have parts: "0 \<le> s div 3600" "s div 3600 \<le> 23" "0 \<le> s mod 3600 div 60" "s mod 3600 div 60 \<le> 59"
    "0 \<le> s mod 60" "s mod 60 \<le> 60"
    using s pos_mod_bound [of 3600 s] pos_mod_bound [of 60 s] pos_mod_sign [of 60 s] by simp_all
  have "s div 3600 * 3600 + s mod 3600 div 60 * 60 + s mod 60 = s"
  proof -
    have "s mod 60 = s mod 3600 mod 60" by (simp add: mod_mod_cancel)
    then show ?thesis using div_mult_mod_eq [of s 3600] div_mult_mod_eq [of "s mod 3600" 60] by linarith
  qed
  then have "l div 86400 * 86400 + s div 3600 * 3600 + s mod 3600 div 60 * 60 + s mod 60 - offset * 60 = seconds"
    using div_mult_mod_eq [of l 86400] s_def l_def by linarith
  moreover have "w64 seconds = seconds" using assms(2) by (simp add: i64_ok_def w64_id)
  ultimately have w: "w64 (l div 86400 * 86400 + s div 3600 * 3600 + s mod 3600 div 60 * 60 + s mod 60 - offset * 60) = seconds"
    by (simp only:)
  have days: "days_from_civil y m d = l div 86400" using assms(1) by (simp only: l_def)
  have clock: "date_clock (clock_text s @ zone_text offset) a = Inr (clock_text s, offset)"
    using s(1) assms(3,4) by (rule date_clock_zone)
  show ?thesis
    unfolding date_seconds_def l_def [symmetric] s_def [symmetric] clock
      rbind.simps prod.case Let_def clock_text_read [OF s] days w
    by (simp only: parts simp_thms if_False)
qed

lemma format_unix_read:
  assumes f: "format_unix seconds offset = Some t" and "i64_ok seconds" "\<bar>offset\<bar> < 6000"
    and off: "offset = 0 \<Longrightarrow> args_number a (lit ''offsetMinutes'') 0 = Inr 0"
    and unit: "choice_in a (lit ''unit'') (lit ''seconds'') DATE_TIME_UNITS = Inr (lit ''seconds'')"
  shows "date_to_unix (from_text t) a = Inr (from_text (show_int seconds))"
proof -
  define l where "l = seconds + offset * 60"
  obtain y m d where ymd: "civil_from_days (l div 86400) = (y, m, d)" by (cases "civil_from_days (l div 86400)") auto
  have "i64_ok l" and y: "0 \<le> y" "y \<le> 9999"
    and t: "t = (padded 4 y @ [45] @ padded 2 m @ [45] @ padded 2 d) @ 84 # clock_text (l mod 86400) @ zone_text offset"
    using f ymd unfolding format_unix_def l_def [symmetric]
    by (auto simp: Let_def clock_text_def split: if_splits)
  have "- (2 ^ 63) div 86400 \<le> l div 86400" "l div 86400 \<le> 2 ^ 63 div 86400"
    using \<open>i64_ok l\<close> unfolding i64_ok_def by (intro zdiv_mono1; simp)+
  then have "\<bar>l div 86400\<bar> \<le> 10 ^ 15" by (simp add: abs_le_iff)
  note civil = civil_from_days_inverse [OF this ymd]
  have md: "1 \<le> m" "m \<le> 12" "1 \<le> d" "d \<le> 31"
    using civil(1) by (auto simp: valid_date_def month_days_def split: if_splits)
  define D where "D = padded 4 y @ [45] @ padded 2 m @ [45] @ padded 2 d"
  define R where "R = clock_text (l mod 86400) @ zone_text offset"
  have D: "c = 45 \<or> 48 \<le> c \<and> c \<le> 57" if "c \<in> set D" for c
    using that padded_props(1) [of y c 4] padded_props(1) [of m c 2] padded_props(1) [of d c 2] y md
    by (auto simp: D_def)
  have R: "c = 43 \<or> c = 45 \<or> c = 90 \<or> 48 \<le> c \<and> c \<le> 58" if "c \<in> set R" for c
    using that clock_text_no [of "l mod 86400" c] padded_chars [of "\<bar>offset\<bar> div 60" c 2]
      padded_chars [of "\<bar>offset\<bar> mod 60" c 2]
    by (auto simp: R_def zone_text_def pos_imp_zdiv_nonneg_iff simp del: abs_if split: if_splits)
  have tDR: "t = D @ 84 # R" by (simp add: t D_def R_def)
  have "c < 128" if "c \<in> set t" for c using that D R by (fastforce simp: tDR)
  then have valid: "valid_string t" by (simp add: ascii_set ascii_valid)
  have "\<not> is_whitespace c" if "c \<in> set t" for c
    using that D [of c] R [of c] by (auto simp: tDR is_whitespace_def)
  then have trim: "trim t = t" by (rule trim_no_ws)
  have keep: "map (\<lambda>c. if c = x then z else c) w = w" if "x \<notin> set w" for x z and w :: ustring
    using that by (intro map_idI) auto
  have "84 \<notin> set D" "84 \<notin> set R" "47 \<notin> set D" "47 \<notin> set R" and D32: "32 \<notin> set D" using D R by fastforce+
  then have source: "replace_all [47] [45] (replace_all [84] [32] t) = D @ 32 # R"
    by (simp add: tDR replace_all_char keep)
  have split: "split_str [45] D = [padded 4 y, padded 2 m, padded 2 d]"
    unfolding D_def using y md by (intro split_three padded_no) simp_all
  have nums: "parse_signed i64_max (padded 4 y) = Inr y" "parse_signed i64_max (padded 2 m) = Inr m"
    "parse_signed i64_max (padded 2 d) = Inr d"
    using y md by (intro padded_props(3); simp)+
  have secs: "date_seconds y m d R a = Inr seconds"
    using date_seconds_back [of y m d seconds offset a] civil(2) assms(2,3) off
    by (simp add: R_def l_def)
  have small: "as_u32 m = m" "as_u32 d = d" using md by (simp_all add: as_u32_id)
  have units: "lit ''seconds'' \<noteq> lit ''milliseconds''" by simp
  show ?thesis
    unfolding date_to_unix_def chef_text_from_text [OF valid] rbind.simps trim source Let_def
      split_once_first [OF D32] option.case prod.case split
    using nums secs small md unit units by (simp add: date_number_def del: lit_Cons)
qed

end
