(* ===== verification/Chef_Format.thy ===== *)
theory Chef_Format
  imports Chef_Spec Chef_Time
begin

text \<open>
  Structured parsers (src-tauri/src/services/chef/ops/format.rs): JSON printing, JWT, hex dump,
  protobuf wire format, DER, UUID and file type detection. The JSON parser and its scalar printing
  (serde_json), HMAC, the hex and uuid crates, the lower case table and the debug form of a string
  are parameters, in the record \<open>format_ext\<close>.
\<close>

section \<open>JSON\<close>

text \<open>\<open>serde_json::Value\<close>; objects in the order the map yields its entries.\<close>

datatype json =
    JObject "(ustring \<times> json) list"
  | JArray "json list"
  | JString ustring
  | JScalar ustring \<comment> \<open>null, booleans and numbers, as text\<close>

record format_ext =
  fmt_b64 :: b64_engine
  json_from_str :: "ustring \<Rightarrow> ustring + json"
  json_from_slice :: "bytes \<Rightarrow> ustring + json"
  json_to_string :: "json \<Rightarrow> ustring"
  json_as_i64 :: "json \<Rightarrow> int option"
  map_insert :: "(ustring \<times> json) list \<Rightarrow> ustring \<Rightarrow> json \<Rightarrow> (ustring \<times> json) list"
  jwt_hmac :: "ustring \<Rightarrow> bytes \<Rightarrow> bytes \<Rightarrow> bytes option" \<comment> \<open>digest, key, message\<close>
  url_safe_no_pad :: "bytes \<Rightarrow> ustring"
  debug_str :: "ustring \<Rightarrow> ustring"
  hex_crate :: "ustring \<Rightarrow> bytes option"
  uuid_display :: "bytes \<Rightarrow> ustring"
  fmt_lower :: "ustring \<Rightarrow> ustring"

definition parse_json :: "format_ext \<Rightarrow> chef_data \<Rightarrow> json chef_result" where
  "parse_json ext data =
     rbind (chef_text data) (\<lambda>t. rmap_err (\<lambda>e. Format_Error (Bad_Json e)) (json_from_str ext (trim t)))"

definition repeated :: "'a list \<Rightarrow> nat \<Rightarrow> 'a list" where
  "repeated s n = concat (replicate n s)"

fun write_pretty :: "format_ext \<Rightarrow> ustring \<Rightarrow> nat \<Rightarrow> json \<Rightarrow> ustring" where
  "write_pretty ext pad depth (JObject kvs) =
     (if kvs = [] then lit ''{}''
      else lit ''{'' @ [10] @
        join [44, 10] (map (\<lambda>(key, child). repeated pad (depth + 1) @ json_to_string ext (JString key) @ lit '': '' @
          write_pretty ext pad (depth + 1) child) kvs) @
        [10] @ repeated pad depth @ lit ''}'')"
| "write_pretty ext pad depth (JArray items) =
     (if items = [] then lit ''[]''
      else lit ''['' @ [10] @
        join [44, 10] (map (\<lambda>child. repeated pad (depth + 1) @ write_pretty ext pad (depth + 1) child) items) @
        [10] @ repeated pad depth @ lit '']'')"
| "write_pretty ext pad depth (JString s) = json_to_string ext (JString s)"
| "write_pretty ext pad depth (JScalar s) = json_to_string ext (JScalar s)"

definition indent_pad :: "args \<Rightarrow> ustring chef_result" where
  "indent_pad a = rbind (args_number a (lit ''indent'') 2) (\<lambda>n. Inr (replicate (max 1 (min n 8)) 32))"

definition json_beautify :: "format_ext \<Rightarrow> chef_data \<Rightarrow> args \<Rightarrow> chef_data chef_result" where
  "json_beautify ext data a =
     rbind (parse_json ext data) (\<lambda>value.
     rbind (indent_pad a) (\<lambda>pad. Inr (from_text (write_pretty ext pad 0 value))))"

definition json_minify :: "format_ext \<Rightarrow> chef_data \<Rightarrow> args \<Rightarrow> chef_data chef_result" where
  "json_minify ext data a = rbind (parse_json ext data) (\<lambda>value. Inr (from_text (json_to_string ext value)))"

section \<open>JWT\<close>

definition split_jwt :: "chef_data \<Rightarrow> (ustring \<times> ustring \<times> ustring) chef_result" where
  "split_jwt data =
     rbind (rmap trim (chef_text data)) (\<lambda>token.
       let token = (case strip_prefix (lit ''Bearer '') token of
                      Some r \<Rightarrow> r
                    | None \<Rightarrow> (case strip_prefix (lit ''bearer '') token of Some r \<Rightarrow> r | None \<Rightarrow> token)) in
       case split_pred (\<lambda>c. c = 46) token of
         [h, p, s] \<Rightarrow> Inr (h, p, s)
       | parts \<Rightarrow> Inl (Format_Error (Not_Three_Segments (length parts))))"

definition jwt_segment_json :: "format_ext \<Rightarrow> ustring \<Rightarrow> ustring \<Rightarrow> json chef_result" where
  "jwt_segment_json ext raw what =
     rbind (rmap_err (Jwt_Segment_Failed what) (b64_decode (fmt_b64 ext) raw True False)) (\<lambda>bs.
       rmap_err (\<lambda>e. Format_Error (Jwt_Not_Json what e)) (json_from_slice ext bs))"

fun json_get :: "json \<Rightarrow> ustring \<Rightarrow> json option" where
  "json_get (JObject kvs) key = map_of kvs key"
| "json_get _ key = None"

fun json_as_str :: "json \<Rightarrow> ustring option" where
  "json_as_str (JString s) = Some s"
| "json_as_str _ = None"

fun object_insert :: "format_ext \<Rightarrow> json \<Rightarrow> ustring \<Rightarrow> json \<Rightarrow> json" where
  "object_insert ext (JObject kvs) key v = JObject (map_insert ext kvs key v)"
| "object_insert ext other key v = other"

definition add_date :: "format_ext \<Rightarrow> json \<Rightarrow> ustring \<Rightarrow> json" where
  "add_date ext payload key =
     (case Option.bind (json_get payload key) (json_as_i64 ext) of
        None \<Rightarrow> payload
      | Some n \<Rightarrow>
          (case format_unix n 0 of
             None \<Rightarrow> payload
           | Some t \<Rightarrow> object_insert ext payload (key @ lit ''Text'') (JString t)))"

definition jwt_text :: "format_ext \<Rightarrow> ustring \<Rightarrow> json \<Rightarrow> json \<Rightarrow> ustring" where
  "jwt_text ext pad header payload =
     lit ''header:'' @ [10] @ write_pretty ext pad 0 header @ [10, 10] @ lit ''payload:'' @ [10] @
     write_pretty ext pad 0 payload"

definition verify_hmac :: "format_ext \<Rightarrow> ustring \<Rightarrow> ustring \<Rightarrow> ustring \<Rightarrow> ustring \<Rightarrow> ustring chef_result" where
  "verify_hmac ext algorithm signing_input signature secret =
     (case map_of [(lit ''HS256'', lit ''sha256''), (lit ''HS384'', lit ''sha384''), (lit ''HS512'', lit ''sha512'')] algorithm of
        None \<Rightarrow> Inr ([36339, 36807, 65288] @ algorithm @ [32, 19981, 26159, 32, 72, 77, 65, 67, 32, 31995, 21015, 65292, 36825, 37324, 21482, 33021, 35299, 20986, 20869, 23481, 65289])
      | Some digest \<Rightarrow>
          rbind (ok_or (jwt_hmac ext digest (utf8 secret) (utf8 signing_input)) (Format_Error Hmac_Setup_Failed)) (\<lambda>tag.
            let expected = url_safe_no_pad ext tag in
            if expected = signature then Inr [36890, 36807, 65306, 36825, 20010, 23494, 38053, 30830, 23454, 31614, 20986, 20102, 36825, 26522, 32, 116, 111, 107, 101, 110]
            else Inr ([19981, 36890, 36807, 65306, 25353, 32] @ signature @ [32, 31639, 20986, 26469, 24212, 35813, 26159, 32] @ expected)))"

definition jwt_decode :: "format_ext \<Rightarrow> chef_data \<Rightarrow> args \<Rightarrow> chef_data chef_result" where
  "jwt_decode ext data a =
     rbind (split_jwt data) (\<lambda>(header_raw, payload_raw, signature).
     rbind (jwt_segment_json ext header_raw [22836]) (\<lambda>header.
     rbind (jwt_segment_json ext payload_raw [36733, 33655]) (\<lambda>payload.
     rbind (indent_pad a) (\<lambda>pad.
       let payload = (if bool_of a (lit ''humanReadableDates'')
                      then foldl (add_date ext) payload [lit ''iat'', lit ''exp'', lit ''nbf''] else payload);
           algorithm = (case Option.bind (json_get header (lit ''alg'')) json_as_str of
                          Some s \<Rightarrow> s | None \<Rightarrow> [40, 32570, 32, 97, 108, 103, 41]);
           out = jwt_text ext pad header payload @ [10, 10] @ lit ''signature:'' @ [10] @ signature @ [10, 10] @
                 [31614, 21517, 31639, 27861, 65306] @ algorithm;
           secret = args_text a (lit ''secret'') [] in
       if secret = [] then Inr (from_text out)
       else
         rbind (split_jwt data) (\<lambda>(header_b64, payload_b64, _).
         rbind (verify_hmac ext algorithm (header_b64 @ lit ''.'' @ payload_b64) signature secret) (\<lambda>verdict.
           Inr (from_text (out @ [10, 39564, 31614, 65306] @ verdict))))))))"

section \<open>Hex dump\<close>

definition ascii_column :: "bytes \<Rightarrow> ustring" where
  "ascii_column chunk = map (\<lambda>b. if is_ascii_graphic (unat b) \<or> unat b = 32 then unat b else 46) chunk"

definition hex8 :: "nat \<Rightarrow> ustring" where
  "hex8 n = pad_left 8 (to_digits 16 n)"

definition hexdump_line :: "nat \<Rightarrow> nat \<Rightarrow> bytes \<Rightarrow> ustring" where
  "hexdump_line width offset chunk =
     hex8 offset @ [32] @
     concat (map (\<lambda>(i, b). hex2 b @ [32] @ (if i + 1 = width div 2 then [32] else [])) (enumerate 0 chunk)) @
     concat (replicate (width - length chunk) [32, 32, 32]) @
     [32, 124] @ ascii_column chunk @ [124, 10]"

definition xxd_line :: "nat \<Rightarrow> nat \<Rightarrow> bytes \<Rightarrow> ustring" where
  "xxd_line width offset chunk =
     (let hex = concat (map (\<lambda>(i, b). hex2 b @ (if i + 1 < length chunk then [32] else []) @
                  (if i + 1 = width div 2 then [32] else [])) (enumerate 0 chunk)) in
      hex8 offset @ [58, 32] @ hex @ replicate (44 - length hex) 32 @ [32, 32] @ ascii_column chunk @ [10])"

definition dump_line :: "ustring \<Rightarrow> nat \<Rightarrow> nat \<Rightarrow> bytes \<Rightarrow> ustring" where
  "dump_line style width index chunk =
     (if style = lit ''plain'' then hex_encode chunk False [] @ [10]
      else if style = lit ''hexdump'' then hexdump_line width (index * width) chunk
      else xxd_line width (index * width) chunk)"

definition hex_dump :: "chef_data \<Rightarrow> args \<Rightarrow> chef_data chef_result" where
  "hex_dump data a =
     rbind (choice_in a (lit ''style'') (lit ''xxd'') [lit ''xxd'', lit ''hexdump'', lit ''plain'']) (\<lambda>style.
     rbind (args_number a (lit ''bytesPerLine'') 16) (\<lambda>n.
       let width = max 4 (min n 64);
           out = concat (map (\<lambda>(index, chunk). dump_line style width index chunk) (enumerate 0 (chunks width (data_bytes data)))) in
       if data_bytes data = [] then Inl (Format_Error Nothing_To_Dump)
       else Inr (from_text (out @ [10, 20849, 32] @ show_dec (length (data_bytes data)) @ [32, 23383, 33410]))))"

section \<open>Protobuf wire format\<close>

text \<open>
  The cursor is kept as what is left of the slice. A varint's bytes are added at rising shifts; the
  tenth byte ends the loop at the latest.
\<close>

function read_varint :: "u64 \<Rightarrow> nat \<Rightarrow> bytes \<Rightarrow> (u64 \<times> bytes) chef_result" where
  "read_varint acc shift [] = Inl (Format_Error Varint_Truncated)"
| "read_varint acc shift (b # rest) =
     (let acc' = acc OR push_bit shift (ucast (b AND 0x7f)) in
      if b AND 0x80 = 0 then Inr (acc', rest)
      else if 64 \<le> shift + 7 then Inl (Format_Error Varint_Too_Long)
      else read_varint acc' (shift + 7) rest)"
  by pat_completeness auto
termination
  by (relation "measure (\<lambda>(acc, shift, bs). length bs)") auto

fun le_value :: "bytes \<Rightarrow> nat" where
  "le_value [] = 0"
| "le_value (b # bs) = unat b + 256 * le_value bs"

definition is_control :: "rchar \<Rightarrow> bool" where
  "is_control c \<longleftrightarrow> c < 32 \<or> (127 \<le> c \<and> c < 160)"

definition clean_text :: "bytes \<Rightarrow> ustring option" where
  "clean_text body =
     (case from_utf8 body of
        None \<Rightarrow> None
      | Some t \<Rightarrow> if t \<noteq> [] \<and> list_all (\<lambda>c. \<not> is_control c \<or> c \<in> {10, 13, 9}) t then Some t else None)"

text \<open>
  A length-delimited body. The addition \<open>cursor + len\<close> wraps at 64 bits: an announced length that
  makes it wrap passes the check, and slicing then panics.
\<close>

definition read_body :: "nat \<Rightarrow> nat \<Rightarrow> bytes \<Rightarrow> (chef_error + bytes \<times> bytes) option" where
  "read_body cursor len rest =
     (if cursor + length rest < (cursor + len) mod 2 ^ 64
      then Some (Inl (Format_Error (Length_Prefix_Truncated len (length rest))))
      else if 2 ^ 64 \<le> cursor + len then None
      else Some (Inr (take len rest, drop len rest)))"

definition MAX_DEPTH :: nat where
  "MAX_DEPTH = 8"

lemma read_varint_shrinks: "read_varint acc shift bs = Inr (v, rest) \<Longrightarrow> length rest < length bs"
  by (induction acc shift bs rule: read_varint.induct) (fastforce simp: Let_def split: if_splits)+

lemma read_body_part:
  "read_body cursor len rest = Some (Inr (body, rest')) \<Longrightarrow> length body \<le> length rest \<and> length rest' \<le> length rest"
  by (auto simp: read_body_def split: if_splits)

text \<open>One pass over the fields; \<open>cursor\<close> is the position of \<open>bs\<close> in the enclosing message.\<close>

function protobuf_fields ::
    "format_ext \<Rightarrow> nat \<Rightarrow> bool \<Rightarrow> nat \<Rightarrow> bytes \<Rightarrow> (chef_error + ustring) option" where
  "protobuf_fields ext depth prefer_text cursor bs =
     (if bs = [] then Some (Inr [])
      else
        pbind (Some (read_varint 0 0 bs)) (\<lambda>(key, rest).
          let field = drop_bit 3 key; wire = unat (key AND 0x07); pad = repeated [32, 32] depth;
              start = pad @ show_dec (unat field) in
          if field = 0 then Some (Inl (Format_Error Protobuf_Field_Zero))
          else if wire = 0 then
            pbind (Some (read_varint 0 0 rest)) (\<lambda>(value, rest).
              pbind (protobuf_fields ext depth prefer_text (cursor + (length bs - length rest)) rest) (\<lambda>out.
                Some (Inr (start @ lit '' varint '' @ show_dec (unat value) @ [10] @ out))))
          else if wire = 1 then
            (if length rest < 8 then Some (Inl (Format_Error Fixed64_Truncated))
             else
               pbind (protobuf_fields ext depth prefer_text (cursor + (length bs - length rest) + 8) (drop 8 rest)) (\<lambda>out.
                 Some (Inr (start @ lit '' fixed64 '' @ show_dec (le_value (take 8 rest)) @ [10] @ out))))
          else if wire = 5 then
            (if length rest < 4 then Some (Inl (Format_Error Fixed32_Truncated))
             else
               pbind (protobuf_fields ext depth prefer_text (cursor + (length bs - length rest) + 4) (drop 4 rest)) (\<lambda>out.
                 Some (Inr (start @ lit '' fixed32 '' @ show_dec (le_value (take 4 rest)) @ [10] @ out))))
          else if wire = 2 then
            pbind (Some (read_varint 0 0 rest)) (\<lambda>(len, rest).
            pbind (read_body (cursor + (length bs - length rest)) (unat len) rest) (\<lambda>(body, rest').
            pbind (let can_nest = depth < MAX_DEPTH \<and> body \<noteq> [] in
                   case clean_text body of
                     Some t \<Rightarrow>
                       if prefer_text \<or> \<not> can_nest
                       then Some (Inr (start @ lit '' string '' @ debug_str ext t))
                       else pbind (protobuf_fields ext (depth + 1) prefer_text 0 body) (\<lambda>inner.
                         Some (Inr (start @ lit '' message('' @ show_dec (unat len) @ [32, 23383, 33410, 41, 10] @ inner)))
                   | None \<Rightarrow>
                       if can_nest
                       then pbind (protobuf_fields ext (depth + 1) prefer_text 0 body) (\<lambda>inner.
                         Some (Inr (start @ lit '' message('' @ show_dec (unat len) @ [32, 23383, 33410, 41, 10] @ inner)))
                       else Some (Inr (start @ lit '' bytes('' @ show_dec (unat len) @ lit ''): '' @ hex_encode body False [32] @ [10])))
              (\<lambda>line.
            pbind (protobuf_fields ext depth prefer_text (cursor + (length bs - length rest')) rest') (\<lambda>out.
              Some (Inr (line @ out))))))
          else if wire = 3 \<or> wire = 4 then Some (Inl (Format_Error Group_Wire_Type))
          else Some (Inl (Format_Error (Unknown_Wire_Type wire)))))"
  by pat_completeness auto
termination
  by (relation "measure (\<lambda>(ext, depth, prefer_text, cursor, bs). length bs)")
    (auto dest!: read_varint_shrinks read_body_part)

declare protobuf_fields.simps [simp del]

definition protobuf_decode :: "format_ext \<Rightarrow> chef_data \<Rightarrow> args \<Rightarrow> chef_outcome" where
  "protobuf_decode ext data a =
     (if data_bytes data = [] then Returned (Inl (Format_Error Nothing_To_Parse))
      else
        or_panic (map_option (\<lambda>r. rmap from_text (rmap_err Protobuf_Failed r))
          (protobuf_fields ext 0 (bool_of a (lit ''preferText'')) 0 (data_bytes data))))"

section \<open>DER\<close>

definition tag_name :: "u8 \<Rightarrow> ustring" where
  "tag_name tag =
     (if unat tag div 64 \<noteq> 0 then lit ''context tag''
      else
        (let t = unat tag mod 32 in
         if t = 0x01 then lit ''BOOLEAN'' else if t = 0x02 then lit ''INTEGER'' else if t = 0x03 then lit ''BIT STRING''
         else if t = 0x04 then lit ''OCTET STRING'' else if t = 0x05 then lit ''NULL''
         else if t = 0x06 then lit ''OBJECT IDENTIFIER'' else if t = 0x0c then lit ''UTF8String''
         else if t = 0x10 then lit ''SEQUENCE'' else if t = 0x11 then lit ''SET''
         else if t = 0x13 then lit ''PrintableString'' else if t = 0x14 then lit ''T61String''
         else if t = 0x16 then lit ''IA5String'' else if t = 0x17 then lit ''UTCTime''
         else if t = 0x18 then lit ''GeneralizedTime'' else lit ''tag''))"

text \<open>The arcs after the first byte, in base 128 with the value kept in 64 bits; \<open>None\<close> when the last arc is unfinished.\<close>

fun oid_arcs :: "u64 \<Rightarrow> bytes \<Rightarrow> ustring list option" where
  "oid_arcs value [] = (if value \<noteq> 0 then None else Some [])"
| "oid_arcs value (b # bs) =
     (let value' = push_bit 7 value OR ucast (b AND 0x7f) in
      if b AND 0x80 = 0 then map_option (\<lambda>arcs. show_dec (unat value') # arcs) (oid_arcs 0 bs)
      else oid_arcs value' bs)"

definition dotted_oid :: "bytes \<Rightarrow> ustring option" where
  "dotted_oid bs =
     (case bs of
        [] \<Rightarrow> None
      | b # rest \<Rightarrow>
          map_option (\<lambda>arcs. join [46] ([show_dec (unat b div 40), show_dec (unat b mod 40)] @ arcs)) (oid_arcs 0 rest))"

definition leaf_value :: "u8 \<Rightarrow> bytes \<Rightarrow> ustring option" where
  "leaf_value tag content =
     (let t = unat tag mod 32 in
      if t = 0x02 then Some (concat (map hex2 content))
      else if t = 0x06 then dotted_oid content
      else if t \<in> {0x0c, 0x13, 0x16, 0x17, 0x18} then from_utf8 content
      else None)"

definition der_line :: "u8 \<Rightarrow> nat \<Rightarrow> bytes \<Rightarrow> nat \<Rightarrow> ustring" where
  "der_line tag len content depth =
     (let cls = unat tag div 64 in
      repeated [32, 32] depth @
      (if cls = 0 then [] else if cls = 1 then lit ''[APPLICATION] '' else if cls = 2 then lit ''[CONTEXT] ''
       else lit ''[PRIVATE] '') @
      tag_name tag @ lit '' ('' @ show_dec len @ [32, 23383, 33410, 41] @
      (if tag AND 0x20 = 0 then (case leaf_value tag content of Some v \<Rightarrow> lit '' = '' @ v | None \<Rightarrow> []) else []) @
      [10])"

definition be_value :: "bytes \<Rightarrow> nat" where
  "be_value bs = foldl (\<lambda>v b. v * 256 + unat b) 0 bs"

text \<open>
  The length field: its short form, or a count of at most eight bytes. The result is the content
  length and what follows the field.
\<close>

definition der_length :: "bytes \<Rightarrow> (nat \<times> bytes) chef_result" where
  "der_length bs =
     (case bs of
        [] \<Rightarrow> Inl (Format_Error Der_Ends_Before_Length)
      | l # rest \<Rightarrow>
          if l AND 0x80 \<noteq> 0 then
            (let n = unat (l AND 0x7f) in
             if n = 0 \<or> 8 < n \<or> length rest < n then Inl (Format_Error Der_Bad_Length)
             else Inr (be_value (take n rest), drop n rest))
          else Inr (unat l, rest))"

text \<open>As in protobuf, \<open>consumed + content_len\<close> wraps at 64 bits and the slice then panics.\<close>

definition der_content :: "nat \<Rightarrow> nat \<Rightarrow> bytes \<Rightarrow> (chef_error + bytes \<times> bytes) option" where
  "der_content consumed len rest =
     (if consumed + length rest < (consumed + len) mod 2 ^ 64
      then Some (Inl (Format_Error (Der_Truncated len (length rest))))
      else if 2 ^ 64 \<le> consumed + len then None
      else Some (Inr (take len rest, drop len rest)))"

lemma der_length_shrinks: "der_length bs = Inr (n, rest) \<Longrightarrow> length rest < length bs"
  by (auto simp: der_length_def Let_def split: list.splits if_splits)

lemma der_content_part:
  "der_content consumed len rest = Some (Inr (inner, rest')) \<Longrightarrow> length inner \<le> length rest \<and> length rest' \<le> length rest"
  by (auto simp: der_content_def split: if_splits)

definition DER_MAX_DEPTH :: nat where
  "DER_MAX_DEPTH = 12"

text \<open>
  The values of one level, each with its nested ones. The depth is tested at every value here and at
  the call in the code, which is the same since the loop does not change it.
\<close>

function der_tree :: "nat \<Rightarrow> nat \<Rightarrow> bytes \<Rightarrow> (chef_error + ustring) option" where
  "der_tree depth consumed bs =
     (if DER_MAX_DEPTH < depth then Some (Inl (Format_Error Der_Too_Deep))
      else
        case bs of
          [] \<Rightarrow> Some (Inr [])
        | tag # after_tag \<Rightarrow>
            pbind (Some (der_length after_tag)) (\<lambda>(len, rest).
            pbind (der_content (consumed + (length bs - length rest)) len rest) (\<lambda>(inner, rest').
            pbind (if tag AND 0x20 \<noteq> 0 then der_tree (depth + 1) 0 inner else Some (Inr [])) (\<lambda>nested.
            pbind (der_tree depth (consumed + (length bs - length rest')) rest') (\<lambda>out.
              Some (Inr (der_line tag len inner depth @ nested @ out)))))))"
  by pat_completeness auto
termination
  by (relation "measure (\<lambda>(depth, consumed, bs). length bs)")
    (auto dest!: der_length_shrinks der_content_part)

declare der_tree.simps [simp del]

definition der_decode :: "chef_data \<Rightarrow> args \<Rightarrow> chef_outcome" where
  "der_decode data a =
     (if data_bytes data = [] then Returned (Inl (Format_Error Nothing_To_Parse))
      else or_panic (map_option (\<lambda>r. rmap from_text (rmap_err Der_Failed r)) (der_tree 0 0 (data_bytes data))))"

section \<open>UUID and file type\<close>

definition uuid_variant :: "u8 \<Rightarrow> ustring" where
  "uuid_variant b =
     (let v = unat b div 32 in
      if v = 6 then lit ''RFC 4122'' else if v = 7 then lit ''Microsoft'' else if v = 3 then lit ''Reserved'' else lit ''NCS'')"

definition uuid_version :: "nat \<Rightarrow> ustring option" where
  "uuid_version v =
     (if v = 1 then Some [22522, 20110, 26102, 38388] else if v = 2 then Some [68, 67, 69, 32, 23433, 20840]
      else if v = 3 then Some [77, 68, 53, 32, 21517, 23383, 31354, 38388]
      else if v = 4 then Some [38543, 26426]
      else if v = 5 then Some [83, 72, 65, 45, 49, 32, 21517, 23383, 31354, 38388]
      else if v = 6 then Some [22522, 20110, 26102, 38388, 65288, 37325, 25490, 65289]
      else if v = 7 then Some [85, 110, 105, 120, 32, 27627, 31186, 26102, 38388, 25139] else None)"

definition parse_uuid :: "format_ext \<Rightarrow> chef_data \<Rightarrow> args \<Rightarrow> chef_data chef_result" where
  "parse_uuid ext data a =
     rbind (chef_text data) (\<lambda>t.
       let t = filter (\<lambda>c. c \<noteq> 45) (fmt_lower ext (trim t)) in
       rbind (ok_or (hex_crate ext t) (Format_Error Uuid_Not_Hex)) (\<lambda>bs.
         if length bs \<noteq> 16 then Inl (Format_Error (Uuid_Wrong_Length (length bs)))
         else
           (let variant = uuid_variant (bs ! 8); version = unat (bs ! 6) div 16 in
            case uuid_version version of
              None \<Rightarrow> Inr (from_text ([26410, 23450, 20041, 30340, 29256, 26412, 21495, 32] @ show_dec version))
            | Some known \<Rightarrow> Inr (from_text (uuid_display ext bs @ [10] @ [29256, 26412, 32] @ show_dec version @
                [65288] @ known @ [65289, 183, 32, 21464, 20307, 32] @ variant)))))"

definition MAGIC_TABLE :: "(bytes \<times> ustring) list" where
  "MAGIC_TABLE =
    [([127, 69, 76, 70], [69, 76, 70, 32, 21487, 25191, 34892, 47, 20849, 20139, 24211, 65288, 46, 115, 111, 12289, 21487, 25191, 34892, 25991, 20214, 65289]),
     ([77, 90], [80, 69, 47, 68, 69, 88, 32, 20043, 31867, 20197, 32, 77, 90, 32, 24320, 22836, 30340, 23481, 22120, 65288, 97, 112, 107, 32, 37324, 30340, 32, 99, 108, 97, 115, 115, 101, 115, 46, 100, 101, 120, 32, 20063, 24120, 20197, 32, 100, 101, 120, 92, 110, 32, 25171, 22836, 65289]),
     ([100, 101, 120, 10], lit ''Android DEX''),
     ([202, 254, 186, 190], lit ''Mach-O fat''),
     ([207, 250, 237, 254], [77, 97, 99, 104, 45, 79, 32, 54, 52, 32, 20301]),
     ([137, 80, 78, 71], lit ''PNG''),
     ([255, 216, 255], lit ''JPEG''),
     ([71, 73, 70, 56], lit ''GIF''),
     ([37, 80, 68, 70], lit ''PDF''),
     ([80, 75, 3, 4], [90, 73, 80, 32, 23481, 22120, 65288, 65, 80, 75, 47, 65, 65, 82, 47, 68, 79, 67, 88, 47, 74, 65, 82, 32, 37117, 26159, 23427, 65289]),
     ([31, 139], lit ''gzip''),
     ([66, 90, 104], lit ''bzip2''),
     ([55, 122, 188, 175], lit ''7z''),
     ([82, 97, 114, 33], lit ''RAR''),
     ([93, 0, 0], lit ''lzma''),
     ([123], [20197, 32, 123, 32, 24320, 22836, 65306, 22823, 27010, 29575, 26159, 32, 74, 83, 79, 78, 32, 25991, 26412]),
     ([87, 65, 83, 77], [87, 65, 83, 77, 32, 27169, 22359, 65288, 26087, 29256, 39764, 25968, 26159, 32, 92, 48, 97, 115, 109, 65289]),
     ([83, 81, 76, 105, 116, 101, 32, 102, 111, 114, 109, 97, 116, 32, 51], [83, 81, 76, 105, 116, 101, 32, 25968, 25454, 24211]),
     ([79, 103, 103, 83], lit ''Ogg''),
     ([102, 116, 121, 112], [77, 80, 52, 47, 77, 79, 86, 32, 23481, 22120, 65288, 20559, 31227, 32, 52, 32, 22788, 65289])]"

text \<open>\<open>windows(n).take(4)\<close>: the first four windows, at offsets 0 to 3.\<close>

definition in_windows :: "bytes \<Rightarrow> bytes \<Rightarrow> bool" where
  "in_windows magic head \<longleftrightarrow>
     length magic \<le> length head \<and>
     list_ex (\<lambda>i. take (length magic) (drop i head) = magic) (take 4 [0..<length head - length magic + 1])"

definition magic_hits :: "bytes \<Rightarrow> ustring list" where
  "magic_hits head =
     concat (map (\<lambda>(magic, label).
       (if starts_with head magic then [label] else []) @
       (if in_windows magic head then [label @ [65288, 20986, 29616, 22312, 21069, 32, 51, 50, 32, 23383, 33410, 20869, 65289]] else [])) MAGIC_TABLE)"

definition detect_file_type :: "chef_data \<Rightarrow> args \<Rightarrow> chef_data chef_result" where
  "detect_file_type data a =
     (if data_bytes data = [] then Inl (Format_Error No_Data_To_Detect)
      else
        (let head = take 32 (data_bytes data);
             printable = filter (\<lambda>b. is_ascii_graphic (unat b) \<or> unat b \<in> {32, 10, 13, 9}) head;
             hits = magic_hits head @ (if length printable = length head then [[21069, 32, 51, 50, 32, 23383, 33410, 20840, 37096, 21487, 25171, 21360, 65306, 20687, 25991, 26412]] else []);
             out = [21069, 32] @ show_dec (length head) @ [32, 23383, 33410, 65306] @
               hex_encode (take (min (length head) 16) head) False [32] @ [10] @
               (if hits = [] then [35748, 19981, 20986, 26469, 65288, 19981, 22312, 20869, 32622, 39764, 25968, 34920, 37324, 65289]
                else concat (map (\<lambda>hit. [183, 32] @ hit @ [10]) hits))
         in Inr (from_text (trim_end_with (\<lambda>c. c = 10) out))))"

definition format_OPS :: "format_ext \<Rightarrow> op_entry list" where
  "format_OPS ext =
    [op ''jsonBeautify'' ''format'' [number ''indent'' 2] (json_beautify ext),
     op ''jsonMinify'' ''format'' [] (json_minify ext),
     op ''jwtDecode'' ''format'' [number ''indent'' 2, bool_arg ''humanReadableDates'' True, text_arg ''secret'' []] (jwt_decode ext),
     op ''hexDump'' ''format'' [choice ''style'' ''xxd'' [lit ''xxd'', lit ''hexdump'', lit ''plain''],
       number ''bytesPerLine'' 16] hex_dump,
     op_outcome ''protobufDecode'' ''format'' [bool_arg ''preferText'' True] (protobuf_decode ext),
     op_outcome ''derDecode'' ''format'' [] der_decode,
     op ''parseUuid'' ''format'' [] (parse_uuid ext),
     op ''detectFileType'' ''format'' [] detect_file_type]"


lemma format_OPS_return: "e \<in> set (format_OPS ext) \<Longrightarrow> returns e"
  by (auto simp: format_OPS_def returns_def protobuf_decode_def der_decode_def simp del: lit_Cons split: if_splits)

section \<open>Varints\<close>

text \<open>The encoder of the format, as documented.\<close>

fun varint :: "nat \<Rightarrow> bytes" where
  "varint n = (if n < 128 then [of_nat n] else of_nat (128 + n mod 128) # varint (n div 128))"

declare varint.simps [simp del]

lemma or_shifted:
  assumes "unat (acc :: u64) < 2 ^ s" "x * 2 ^ s < 2 ^ 64"
  shows "unat (acc OR push_bit s (of_nat x)) = unat acc + x * 2 ^ s"
proof -
  have p: "unat (push_bit s (of_nat x :: u64)) = x * 2 ^ s"
  proof -
    have "x < 2 ^ 64"
      using assms(2) by (metis le_less_trans mult.right_neutral mult_le_mono2 one_le_numeral one_le_power)
    then have "unat (of_nat x :: u64) = x" by (simp add: unat_of_nat)
    then show ?thesis using assms(2) by (simp only: unat_shl) simp
  qed
  have "acc AND push_bit s (of_nat x) = 0"
  proof (rule bit_eqI)
    fix i
    have "\<not> bit acc i" if "s \<le> i"
    proof -
      have "unat acc < 2 ^ i" using assms(1) that by (metis less_le_trans one_le_numeral power_increasing)
      then have "unat acc div 2 ^ i = 0" by simp
      then have "\<not> bit (unat acc) i" by (simp only: bit_iff_odd) simp
      then show ?thesis using bit_imp_le_length [of acc i] by (auto simp: bit_unsigned_iff)
    qed
    then show "bit (acc AND push_bit s (of_nat x)) i = bit 0 i"
      unfolding bit_and_iff bit_push_bit_iff by auto
  qed
  then have "acc OR push_bit s (of_nat x) = acc + push_bit s (of_nat x)"
    using word_plus_and_or [of acc "push_bit s (of_nat x)"] by simp
  moreover have "unat acc + x * 2 ^ s < 2 ^ 64"
  proof -
    show ?thesis
    proof (cases "x = 0")
      case False
      have s: "s < 64"
      proof (rule ccontr)
        assume "\<not> s < 64"
        then have "(2 :: nat) ^ 64 \<le> 2 ^ s" by (intro power_increasing) simp_all
        also have "\<dots> \<le> x * 2 ^ s" using False by simp
        finally show False using assms(2) by simp
      qed
      then have "(2 :: nat) ^ 64 = 2 ^ (64 - s) * 2 ^ s" by (simp flip: power_add)
      with assms(2) have "x * 2 ^ s < 2 ^ (64 - s) * 2 ^ s" by (simp only:)
      then have "x < 2 ^ (64 - s)" by (simp only: mult_less_cancel2)
      then have "(x + 1) * 2 ^ s \<le> 2 ^ (64 - s) * 2 ^ s" by (intro mult_le_mono1) simp
      with \<open>(2 :: nat) ^ 64 = 2 ^ (64 - s) * 2 ^ s\<close> assms(1) show ?thesis by (simp add: distrib_right)
    next
      case True
      then show ?thesis using unsigned_less [of acc] by simp
    qed
  qed
  ultimately show ?thesis using p by (simp add: unat_word_ariths)
qed

text \<open>The masks of the two formats as arithmetic.\<close>

lemma top_bit: "(b :: u8) AND 0x80 = 0 \<longleftrightarrow> unat b < 128"
proof -
  have "b AND 0x80 = b AND 2 ^ 7" by simp
  then have "b AND 0x80 = 0 \<longleftrightarrow> \<not> bit b 7" by (simp only: and_exp_eq_0_iff_not_bit)
  also have "bit b 7 \<longleftrightarrow> odd (unat b div 2 ^ 7)"
    unfolding bit_iff_odd [symmetric] by (simp add: bit_unsigned_iff)
  also have "\<dots> \<longleftrightarrow> \<not> unat b < 128"
  proof (cases "unat b < 128")
    case False
    then have "unat b div 2 ^ 7 = 1" using unat_u8_lt [of b] by (simp add: div_nat_eqI)
    with False show ?thesis by simp
  qed simp
  finally show ?thesis by simp
qed

lemma low_bits: "unat ((b :: u8) AND 0x7f) = unat b mod 128"
proof -
  have "b AND 0x7f = take_bit 7 b" by (simp add: take_bit_eq_mask mask_eq_exp_minus_1)
  then have "unat (b AND 0x7f) = take_bit 7 (unat b)" by (simp only: unsigned_take_bit_eq)
  then show ?thesis by (simp only: take_bit_eq_mod) simp
qed

lemma low_bits_u64: "(ucast ((b :: u8) AND 0x7f) :: u64) = of_nat (unat b mod 128)"
  by (simp add: word_unat_eq_iff unat_as low_bits unat_of_nat)

lemma varint_low: "n < 128 \<Longrightarrow> varint n = [of_nat n]"
  by (simp add: varint.simps)

lemma varint_high: "128 \<le> n \<Longrightarrow> varint n = of_nat (128 + n mod 128) # varint (n div 128)"
  by (subst varint.simps) simp

lemma read_varint_back:
  assumes "n * 2 ^ s < 2 ^ 64" "unat acc < 2 ^ s"
  shows "\<exists>v. read_varint acc s (varint n @ rest) = Inr (v, rest) \<and> unat v = unat acc + n * 2 ^ s"
  using assms
proof (induction n arbitrary: acc s rule: less_induct)
  case (less n)
  show ?case
  proof (cases "n < 128")
    case True
    then have u: "unat (of_nat n :: u8) = n" by (simp add: unat_of_nat_u8)
    show ?thesis
      using or_shifted [OF less.prems(2,1)] True
      by (simp add: varint_low Let_def top_bit u low_bits_u64)
  next
    case False
    let ?b = "of_nat (128 + n mod 128) :: u8"
    have u: "unat ?b = 128 + n mod 128" by (rule unat_of_nat_u8) simp
    have um: "unat ?b mod 128 = n mod 128" unfolding u by simp
    define acc' where "acc' = acc OR push_bit s (ucast (?b AND 0x7f))"
    have pw: "(2 :: nat) ^ (s + 7) = 128 * 2 ^ s" by (simp add: power_add)
    have n: "n = n div 128 * 128 + n mod 128" by simp
    have low: "n mod 128 * 2 ^ s < 2 ^ 64"
      using less.prems(1) by (meson le_less_trans mod_less_eq_dividend mult_le_mono1)
    have acc': "unat acc' = unat acc + n mod 128 * 2 ^ s"
      unfolding acc'_def low_bits_u64 um using or_shifted [OF less.prems(2) low] .
    have "unat acc + n mod 128 * 2 ^ s < 2 ^ s + 127 * 2 ^ s"
      using less.prems(2) by (intro add_less_le_mono mult_le_mono1) simp_all
    then have small: "unat acc' < 2 ^ (s + 7)" by (simp add: acc' pw)
    have high: "n div 128 * 2 ^ (s + 7) < 2 ^ 64"
    proof -
      have "n div 128 * 2 ^ (s + 7) = (n div 128 * 128) * 2 ^ s" by (simp add: pw)
      also have "\<dots> \<le> n * 2 ^ s" by (intro mult_le_mono1) simp
      finally show ?thesis using less.prems(1) by simp
    qed
    have s: "s + 7 < 64"
    proof (rule ccontr)
      assume "\<not> s + 7 < 64"
      then have "(2 :: nat) ^ 64 \<le> 2 ^ (s + 7)" by (intro power_increasing) simp_all
      moreover have "1 \<le> n div 128" using False by simp
      ultimately have "(2 :: nat) ^ 64 \<le> n div 128 * 2 ^ (s + 7)" by (metis mult.left_neutral mult_le_mono)
      with high show False by simp
    qed
    have top: "?b AND 0x80 \<noteq> 0" unfolding top_bit u by simp
    have "read_varint acc s (varint n @ rest) = read_varint acc' (s + 7) (varint (n div 128) @ rest)"
      using False s top unfolding acc'_def by (simp add: varint_high Let_def)
    moreover obtain v where "read_varint acc' (s + 7) (varint (n div 128) @ rest) = Inr (v, rest)"
      "unat v = unat acc' + n div 128 * 2 ^ (s + 7)"
      using less.IH [OF _ high small] False by auto
    moreover have "unat acc' + n div 128 * 2 ^ (s + 7) = unat acc + n * 2 ^ s"
    proof -
      have "n * 2 ^ s = (n div 128 * 128 + n mod 128) * 2 ^ s" using n by simp
      then show ?thesis by (simp only: acc' pw distrib_right)
    qed
    ultimately show ?thesis by simp
  qed
qed

lemma read_varint_enc: "read_varint 0 0 (varint (unat v) @ rest) = Inr (v, rest)"
  using read_varint_back [of "unat v" 0 0 rest] unsigned_less [of v, where 'a = nat] by (auto simp: word_unat_eq_iff)

interpretation varint_code: prefix_code "\<lambda>v. varint (unat v)" "read_varint 0 0" "\<lambda>_. True"
  by unfold_locales (rule read_varint_enc)

section \<open>Messages of the protobuf wire format\<close>

text \<open>
  A message as the wire format documents it, its encoding, the text the decoder should print for it,
  and the messages for which that is unambiguous when text is preferred: a nested message must not
  itself read as text, and nesting stays within the decoder's limit.
\<close>

datatype pb =
    PVarint nat u64
  | PFixed64 nat nat
  | PFixed32 nat nat
  | PText nat ustring
  | PMessage nat "pb list"

fun le_bytes :: "nat \<Rightarrow> nat \<Rightarrow> bytes" where
  "le_bytes 0 n = []"
| "le_bytes (Suc k) n = of_nat (n mod 256) # le_bytes k (n div 256)"

fun pb_encode :: "pb \<Rightarrow> bytes" where
  "pb_encode (PVarint f v) = varint (f * 8) @ varint (unat v)"
| "pb_encode (PFixed64 f n) = varint (f * 8 + 1) @ le_bytes 8 n"
| "pb_encode (PFixed32 f n) = varint (f * 8 + 5) @ le_bytes 4 n"
| "pb_encode (PText f t) = varint (f * 8 + 2) @ varint (length (utf8 t)) @ utf8 t"
| "pb_encode (PMessage f ms) =
     varint (f * 8 + 2) @ varint (length (concat (map pb_encode ms))) @ concat (map pb_encode ms)"

definition pb_start :: "nat \<Rightarrow> nat \<Rightarrow> ustring" where
  "pb_start depth f = repeated [32, 32] depth @ show_dec f"

fun pb_print :: "format_ext \<Rightarrow> nat \<Rightarrow> pb \<Rightarrow> ustring" where
  "pb_print ext depth (PVarint f v) = pb_start depth f @ lit '' varint '' @ show_dec (unat v) @ [10]"
| "pb_print ext depth (PFixed64 f n) = pb_start depth f @ lit '' fixed64 '' @ show_dec n @ [10]"
| "pb_print ext depth (PFixed32 f n) = pb_start depth f @ lit '' fixed32 '' @ show_dec n @ [10]"
| "pb_print ext depth (PText f t) = pb_start depth f @ lit '' string '' @ debug_str ext t"
| "pb_print ext depth (PMessage f ms) =
     pb_start depth f @ lit '' message('' @ show_dec (length (concat (map pb_encode ms))) @ [32, 23383, 33410, 41, 10] @
     concat (map (pb_print ext (depth + 1)) ms)"

definition field_ok :: "nat \<Rightarrow> bool" where
  "field_ok f \<longleftrightarrow> 0 < f \<and> f < 2 ^ 61"

fun pb_ok :: "nat \<Rightarrow> pb \<Rightarrow> bool" where
  "pb_ok depth (PVarint f v) \<longleftrightarrow> field_ok f"
| "pb_ok depth (PFixed64 f n) \<longleftrightarrow> field_ok f \<and> n < 2 ^ 64"
| "pb_ok depth (PFixed32 f n) \<longleftrightarrow> field_ok f \<and> n < 2 ^ 32"
| "pb_ok depth (PText f t) \<longleftrightarrow> field_ok f \<and> clean_text (utf8 t) = Some t"
| "pb_ok depth (PMessage f ms) \<longleftrightarrow> field_ok f \<and> depth < MAX_DEPTH \<and>
     concat (map pb_encode ms) \<noteq> [] \<and> clean_text (concat (map pb_encode ms)) = None \<and>
     list_all (pb_ok (depth + 1)) ms"

lemma length_le_bytes [simp]: "length (le_bytes k n) = k"
  by (induction k arbitrary: n) simp_all

lemma le_value_bytes: "n < 256 ^ k \<Longrightarrow> le_value (le_bytes k n) = n"
proof (induction k arbitrary: n)
  case (Suc k)
  have "n div 256 < 256 ^ k" using Suc.prems by (simp add: less_mult_imp_div_less mult.commute)
  with Suc.IH show ?case by (simp add: unat_of_nat)
qed simp

lemma read_varint_nat: "n < 2 ^ 64 \<Longrightarrow> read_varint 0 0 (varint n @ rest) = Inr (of_nat n, rest)"
  using read_varint_enc [of "of_nat n" rest] by (simp add: unat_of_nat)

lemma varint_ne [simp]: "varint n \<noteq> []"
  by (subst varint.simps) simp

text \<open>A field key gives its number and wire type back.\<close>

lemma key_parts:
  assumes "field_ok f" "w < 8"
  shows "f * 8 + w < 2 ^ 64" "drop_bit 3 (of_nat (f * 8 + w) :: u64) \<noteq> 0"
    "unat (drop_bit 3 (of_nat (f * 8 + w) :: u64)) = f" "unat ((of_nat (f * 8 + w) :: u64) AND 0x07) = w"
proof -
  show k: "f * 8 + w < 2 ^ 64" using assms by (simp add: field_ok_def)
  then have u: "unat (of_nat (f * 8 + w) :: u64) = f * 8 + w" unfolding unat_of_nat by simp
  show d: "unat (drop_bit 3 (of_nat (f * 8 + w) :: u64)) = f"
    unfolding unat_shr u using assms(2) by simp
  then show "drop_bit 3 (of_nat (f * 8 + w) :: u64) \<noteq> 0"
    using assms(1) unfolding field_ok_def by (metis unsigned_0 not_less_zero)
  have "(of_nat (f * 8 + w) :: u64) AND 0x07 = take_bit 3 (of_nat (f * 8 + w))"
    by (simp add: take_bit_eq_mask mask_eq_exp_minus_1)
  then have "unat ((of_nat (f * 8 + w) :: u64) AND 0x07) = take_bit 3 (unat (of_nat (f * 8 + w) :: u64))"
    by (simp only: unsigned_take_bit_eq)
  then show "unat ((of_nat (f * 8 + w) :: u64) AND 0x07) = w"
    unfolding u by (simp only: take_bit_eq_mod) (use assms(2) in simp)
qed

lemma read_body_whole:
  "cursor + length body + length rest < 2 ^ 64 \<Longrightarrow>
   read_body cursor (length body) (body @ rest) = Some (Inr (body, rest))"
  by (simp add: read_body_def)

end
