(* ===== verification/Chef_Text.thy ===== *)
theory Chef_Text
  imports Chef_Time "HOL-Library.Multiset" "HOL-Library.List_Lexorder" "HOL-Library.Product_Lexorder"
begin

text \<open>
  The text operations of src-tauri/src/services/chef/ops/text.rs. Regular expressions (crate
  regex), the Unicode case tables, parsing a line as a floating point number, random numbers and
  UUIDs are parameters, in the record \<open>text_ext\<close>. Strings are compared as Rust compares them: UTF-8
  bytes order like code points.
\<close>

record text_ext =
  str_upper :: "ustring \<Rightarrow> ustring"
  str_lower :: "ustring \<Rightarrow> ustring"
  char_upper :: "rchar \<Rightarrow> ustring"
  char_lower :: "rchar \<Rightarrow> ustring"
  char_alphanumeric :: "rchar \<Rightarrow> bool"
  char_uppercase :: "rchar \<Rightarrow> bool"
  re_new :: "ustring \<Rightarrow> ustring option" \<comment> \<open>the error of compiling a pattern\<close>
  re_replace_all :: "ustring \<Rightarrow> ustring \<Rightarrow> ustring \<Rightarrow> ustring" \<comment> \<open>pattern, source, replacement\<close>
  re_replace :: "ustring \<Rightarrow> ustring \<Rightarrow> ustring \<Rightarrow> ustring"
  re_captures :: "ustring \<Rightarrow> ustring \<Rightarrow> ustring option list list" \<comment> \<open>pattern, source; groups of each match\<close>
  re_find :: "ustring \<Rightarrow> ustring \<Rightarrow> ustring list"
  sort_numbers :: "ustring list \<Rightarrow> ustring list" \<comment> \<open>stable sort by the lines read as numbers\<close>
  uuid_v4 :: "nat \<Rightarrow> ustring" \<comment> \<open>the n-th one drawn\<close>
  gen_range :: "nat \<Rightarrow> nat \<Rightarrow> nat" \<comment> \<open>the n-th draw, below a bound\<close>

text \<open>The constant of mod.rs that \<open>repeatString\<close> shares with the service.\<close>

definition MAX_STEP_BYTES :: nat where
  "MAX_STEP_BYTES = 64 * 1024 * 1024"

definition on_text :: "chef_data \<Rightarrow> (ustring \<Rightarrow> ustring) \<Rightarrow> chef_data chef_result" where
  "on_text data f = rbind (chef_text data) (\<lambda>t. Inr (from_text (f t)))"

section \<open>Case and whitespace\<close>

definition upper :: "text_ext \<Rightarrow> chef_data \<Rightarrow> args \<Rightarrow> chef_data chef_result" where
  "upper ext data a = on_text data (str_upper ext)"

definition lower :: "text_ext \<Rightarrow> chef_data \<Rightarrow> args \<Rightarrow> chef_data chef_result" where
  "lower ext data a = on_text data (str_lower ext)"

definition first_or :: "ustring \<Rightarrow> rchar \<Rightarrow> rchar" where
  "first_or s c = (case s of [] \<Rightarrow> c | x # _ \<Rightarrow> x)"

fun title_chars :: "text_ext \<Rightarrow> bool \<Rightarrow> ustring \<Rightarrow> ustring" where
  "title_chars ext word_start [] = []"
| "title_chars ext word_start (c # s) =
     (if char_alphanumeric ext c then
        first_or (if word_start then char_upper ext c else char_lower ext c) c # title_chars ext False s
      else c # title_chars ext True s)"

definition title_case :: "text_ext \<Rightarrow> chef_data \<Rightarrow> args \<Rightarrow> chef_data chef_result" where
  "title_case ext data a = on_text data (title_chars ext True)"

definition swap_case :: "text_ext \<Rightarrow> chef_data \<Rightarrow> args \<Rightarrow> chef_data chef_result" where
  "swap_case ext data a =
     on_text data (\<lambda>t. concat (map (\<lambda>c. if char_uppercase ext c then char_lower ext c else char_upper ext c) t))"

definition reverse_op :: "chef_data \<Rightarrow> args \<Rightarrow> chef_data chef_result" where
  "reverse_op data a = on_text data rev"

definition trim_whitespace :: "chef_data \<Rightarrow> args \<Rightarrow> chef_data chef_result" where
  "trim_whitespace data a =
     rbind (choice_in a (lit ''where'') (lit ''both'') [lit ''both'', lit ''start'', lit ''end'']) (\<lambda>where'.
       on_text data (\<lambda>t. if where' = lit ''both'' then trim t else if where' = lit ''start'' then trim_start t
         else trim_end t))"

definition remove_whitespace :: "chef_data \<Rightarrow> args \<Rightarrow> chef_data chef_result" where
  "remove_whitespace data a =
     rbind (choice_in a (lit ''where'') (lit ''all'') [lit ''all'', lit ''start'', lit ''end'']) (\<lambda>where'.
       let extra = args_text a (lit ''characters'') [];
           is_target = (\<lambda>c. is_whitespace c \<or> c \<in> set extra)
       in on_text data (\<lambda>t. if where' = lit ''all'' then filter (\<lambda>c. \<not> is_target c) t
         else if where' = lit ''start'' then dropWhile is_target t else trim_end_with is_target t))"

definition clean_whitespace :: "chef_data \<Rightarrow> args \<Rightarrow> chef_data chef_result" where
  "clean_whitespace data a = on_text data (\<lambda>t. join [32] (split_whitespace t))"

section \<open>Replace, extract, count\<close>

definition compile :: "text_ext \<Rightarrow> ustring \<Rightarrow> unit chef_result" where
  "compile ext pattern = (case re_new ext pattern of None \<Rightarrow> Inr () | Some e \<Rightarrow> Inl (Text_Error (Bad_Regex e)))"

definition replace :: "text_ext \<Rightarrow> chef_data \<Rightarrow> args \<Rightarrow> chef_data chef_result" where
  "replace ext data a =
     (let search = args_text a (lit ''search'') [] in
      if search = [] then Inl (Text_Error Empty_Search)
      else
        (let replacement = args_text a (lit ''replacement'') [] in
         rbind (chef_text data) (\<lambda>source.
           if bool_of a (lit ''useRegex'') then
             rbind (compile ext search) (\<lambda>_.
               Inr (from_text (if bool_of a (lit ''global'') then re_replace_all ext search source replacement
                 else re_replace ext search source replacement)))
           else
             Inr (from_text (if bool_of a (lit ''global'') then replace_all search replacement source
               else replace_first search replacement source)))))"

definition regex_extract :: "text_ext \<Rightarrow> chef_data \<Rightarrow> args \<Rightarrow> chef_data chef_result" where
  "regex_extract ext data a =
     (let pattern = args_text a (lit ''pattern'') [] in
      if pattern = [] then Inl (Text_Error Empty_Pattern)
      else
        rbind (compile ext pattern) (\<lambda>_.
        rbind (args_number a (lit ''group'') 0) (\<lambda>group.
        rbind (chef_text data) (\<lambda>source.
        rbind (rmapM (\<lambda>caps. ok_or (if group < length caps then caps ! group else None)
                        (Text_Error (No_Such_Group group)))
                 (re_captures ext pattern source)) (\<lambda>hits.
          if hits = [] then Inl (Text_Error No_Match) else Inr (from_text (join [10] hits)))))))"

definition count_occurrences :: "text_ext \<Rightarrow> chef_data \<Rightarrow> args \<Rightarrow> chef_data chef_result" where
  "count_occurrences ext data a =
     (let pattern = args_text a (lit ''pattern'') [] in
      if pattern = [] then Inl (Text_Error Empty_Count_Pattern)
      else
        rbind (chef_text data) (\<lambda>source.
        rbind (if bool_of a (lit ''useRegex'')
               then rbind (compile ext pattern) (\<lambda>_. Inr (length (re_find ext pattern source)))
               else Inr (match_count pattern source)) (\<lambda>full.
          Inr (from_text (show_dec full)))))"

section \<open>Lines and words\<close>

text \<open>\<open>\n\<close> and \<open>\t\<close> written out in a separator.\<close>

definition unescape_separator :: "ustring \<Rightarrow> ustring" where
  "unescape_separator raw = replace_all [92, 116] [9] (replace_all [92, 110] [10] raw)"

definition sort_lines :: "text_ext \<Rightarrow> chef_data \<Rightarrow> args \<Rightarrow> chef_data chef_result" where
  "sort_lines ext data a =
     rbind (choice_in a (lit ''order'') (lit ''asc'') [lit ''asc'', lit ''desc'']) (\<lambda>order.
     rbind (choice_in a (lit ''by'') (lit ''text'') [lit ''text'', lit ''number'', lit ''length'']) (\<lambda>by'.
       let separator = unescape_separator (args_text a (lit ''separator'') [10]) in
       on_text data (\<lambda>t.
         let ls = filter (\<lambda>l. \<not> (bool_of a (lit ''skipEmpty'') \<and> l = [])) (split_str separator t);
             ls = (if by' = lit ''number'' then sort_numbers ext ls
                   else if by' = lit ''length'' then sort_key length ls else sort ls);
             ls = (if order = lit ''desc'' then rev ls else ls)
         in join separator (if bool_of a (lit ''unique'') then remdups_adj ls else ls))))"

definition keep_first :: "'a list \<Rightarrow> 'a list" where
  "keep_first xs = foldl (\<lambda>out l. if l \<in> set out then out else out @ [l]) [] xs"

definition dedupe_lines :: "chef_data \<Rightarrow> args \<Rightarrow> chef_data chef_result" where
  "dedupe_lines data a =
     on_text data (\<lambda>t. join [10] (if bool_of a (lit ''keepOrder'') then keep_first (lines t)
       else remdups_adj (sort (lines t))))"

text \<open>The counts per word; a \<open>BTreeMap\<close> is walked in key order.\<close>

definition word_counts :: "ustring list \<Rightarrow> (ustring \<rightharpoonup> nat)" where
  "word_counts ws = foldl (\<lambda>m w. m(w \<mapsto> (case m w of None \<Rightarrow> 1 | Some n \<Rightarrow> n + 1))) Map.empty ws"

definition ranked_words :: "ustring list \<Rightarrow> (ustring \<times> nat) list" where
  "ranked_words ws =
     sort_key (\<lambda>(w, n). (- int n, w))
       (map (\<lambda>w. (w, case word_counts ws w of None \<Rightarrow> 0 | Some n \<Rightarrow> n)) (sort (remdups ws)))"

definition word_frequency :: "text_ext \<Rightarrow> chef_data \<Rightarrow> args \<Rightarrow> chef_data chef_result" where
  "word_frequency ext data a =
     rbind (args_number a (lit ''top'') 20) (\<lambda>n.
     rbind (chef_text data) (\<lambda>t.
       let ws = map (\<lambda>w. if bool_of a (lit ''ignoreCase'') then str_lower ext w else w) (split_whitespace t);
           out = map (\<lambda>(w, c). show_dec c @ [9] @ w) (take (max n 1) (ranked_words ws))
       in if out = [] then Inl (Text_Error No_Words) else Inr (from_text (join [10] out))))"

definition text_stats :: "chef_data \<Rightarrow> args \<Rightarrow> chef_data chef_result" where
  "text_stats data a =
     on_text data (\<lambda>t.
       [23383, 31526, 9] @ show_dec (length t) @ [10, 23383, 33410, 9] @ show_dec (length (data_bytes data)) @
       [10, 34892, 9] @ show_dec (if t = [] then 0 else length (lines t)) @
       [10, 35789, 9] @ show_dec (length (split_whitespace t)) @
       [10, 38750, 32, 65, 83, 67, 73, 73, 32, 23383, 31526, 9] @ show_dec (length (filter (\<lambda>c. \<not> c < 128) t)))"

section \<open>Cutting, joining, repeating\<close>

definition truncate_string :: "chef_data \<Rightarrow> args \<Rightarrow> chef_data chef_result" where
  "truncate_string data a =
     rbind (args_number a (lit ''length'') 100) (\<lambda>len.
     rbind (choice_in a (lit ''from'') (lit ''start'') [lit ''start'', lit ''end'']) (\<lambda>from'.
       on_text data (\<lambda>t. if from' = lit ''end'' then rev (take len (rev t)) else take len t)))"

text \<open>The range to cut out, first and end; \<open>start + length\<close> wraps at 64 bits.\<close>

definition slice_range :: "nat \<Rightarrow> nat \<Rightarrow> ustring \<Rightarrow> args \<Rightarrow> (nat \<times> nat) chef_result" where
  "slice_range full len from' a =
     (if from' = lit ''start'' then
        rbind (args_number a (lit ''start'') 0) (\<lambda>start.
          if full \<le> start then Inl (Text_Error (Start_Beyond_End start full))
          else Inr (start, if len = 0 then full else min ((start + len) mod 2 ^ 64) full))
      else if len = 0 then Inl (Text_Error Tail_Needs_Length)
      else Inr (full - min len full, full))"

definition slice_bytes :: "chef_data \<Rightarrow> args \<Rightarrow> chef_data chef_result" where
  "slice_bytes data a =
     rbind (args_number a (lit ''length'') 0) (\<lambda>len.
     rbind (choice_in a (lit ''from'') (lit ''start'') [lit ''start'', lit ''end'']) (\<lambda>from'.
     rbind (slice_range (length (data_bytes data)) len from' a) (\<lambda>(first, last).
       if last \<le> first then Inl (Text_Error Empty_Slice)
       else Inr (chef_new (take (last - first) (drop first (data_bytes data)))))))"

definition split_on_separator :: "chef_data \<Rightarrow> args \<Rightarrow> chef_data chef_result" where
  "split_on_separator data a =
     (let separator = unescape_separator (args_text a (lit ''separator'') [44]) in
      on_text data (\<lambda>t. join [10] (filter (\<lambda>p. \<not> bool_of a (lit ''skipEmpty'') \<or> p \<noteq> []) (split_str separator t))))"

definition join_lines :: "chef_data \<Rightarrow> args \<Rightarrow> chef_data chef_result" where
  "join_lines data a =
     (let separator = unescape_separator (args_text a (lit ''separator'') [44]) in
      on_text data (\<lambda>t. join separator (lines t)))"

definition repeat_string :: "chef_data \<Rightarrow> args \<Rightarrow> chef_data chef_result" where
  "repeat_string data a =
     rbind (args_number a (lit ''count'') 3) (\<lambda>count.
       if 10000000 < count then Inl (Text_Error Repeat_Too_Often)
       else rbind (chef_text data) (\<lambda>source.
         let planned = min (length (utf8 source) * count) u64_max in
         if MAX_STEP_BYTES < planned then Inl (Text_Error (Repeat_Too_Large planned))
         else Inr (from_text (concat (replicate count source)))))"

section \<open>Extraction by kind\<close>

definition EXTRACT_PATTERNS :: "(ustring \<times> ustring) list" where
  "EXTRACT_PATTERNS = [
     (lit ''url'', lit ''https?://[^'' @ [92] @ lit ''s'' @ [39, 34] @ lit '']+''),
     (lit ''email'', lit ''['' @ [92] @ lit ''w.+-]+@['' @ [92] @ lit ''w-]+'' @ [92] @ lit ''.['' @ [92] @ lit ''w.-]+''),
     (lit ''ipv4'', [92] @ lit ''b(?:'' @ [92] @ lit ''d{1,3}'' @ [92] @ lit ''.){3}'' @ [92] @ lit ''d{1,3}'' @ [92] @ lit ''b''),
     (lit ''mac'', lit ''(?:[0-9A-Fa-f]{2}:){5}[0-9A-Fa-f]{2}''),
     (lit ''package'', [92] @ lit ''b(?:[A-Za-z_]'' @ [92] @ lit ''w*'' @ [92] @ lit ''.)+[A-Za-z_]'' @ [92] @ lit ''w*'' @ [92] @ lit ''b''),
     (lit ''uuid'', lit ''[0-9a-fA-F]{8}-[0-9a-fA-F]{4}-[0-9a-fA-F]{4}-[0-9a-fA-F]{4}-[0-9a-fA-F]{12}''),
     (lit ''imei'', [92] @ lit ''b'' @ [92] @ lit ''d{14,16}'' @ [92] @ lit ''b''),
     (lit ''phone-cn'', [92] @ lit ''b1[3-9]'' @ [92] @ lit ''d{9}'' @ [92] @ lit ''b''),
     (lit ''hex32'', [92] @ lit ''b[0-9a-fA-F]{32}'' @ [92] @ lit ''b''),
     (lit ''base64'', [92] @ lit ''b[A-Za-z0-9+/]{16,}={0,2}'' @ [92] @ lit ''b''),
     (lit ''jwt'', lit ''eyJ['' @ [92] @ lit ''w-]{5,}'' @ [92] @ lit ''.['' @ [92] @ lit ''w-]{5,}'' @ [92] @ lit ''.['' @ [92] @ lit ''w-]{5,}''),
     (lit ''log-tag'', [92] @ lit ''b[VDIWEAF]/['' @ [92] @ lit ''w.$/]+(?:'' @ [92] @ lit ''('' @ [92] @ lit ''d+'' @ [92] @ lit ''))?'' @ [92] @ lit ''s*:'')]"

definition EXTRACT_KINDS :: "ustring list" where
  "EXTRACT_KINDS = map fst EXTRACT_PATTERNS"

text \<open>The built-in patterns are compiled with \<open>expect\<close>: an engine that rejects one makes this panic.\<close>

definition extract_op :: "text_ext \<Rightarrow> chef_data \<Rightarrow> args \<Rightarrow> chef_outcome" where
  "extract_op ext data a =
     (case choice_in a (lit ''kind'') (lit ''url'') EXTRACT_KINDS of
        Inl e \<Rightarrow> Returned (Inl e)
      | Inr kind \<Rightarrow>
          (case map_of EXTRACT_PATTERNS kind of
             None \<Rightarrow> Panicked
           | Some pattern \<Rightarrow>
               if re_new ext pattern \<noteq> None then Panicked
               else Returned (rbind (chef_text data) (\<lambda>t.
                 let found = re_find ext pattern t;
                     hits = (if bool_of a (lit ''unique'') then remdups_adj (sort found) else found)
                 in if found = [] then Inl (Text_Error No_Match) else Inr (from_text (join [10] hits))))))"

section \<open>Random values\<close>

definition clamp :: "nat \<Rightarrow> nat \<Rightarrow> nat \<Rightarrow> nat" where
  "clamp lo hi n = max lo (min hi n)"

definition generate_uuid :: "text_ext \<Rightarrow> chef_data \<Rightarrow> args \<Rightarrow> chef_data chef_result" where
  "generate_uuid ext data a =
     rbind (args_number a (lit ''count'') 1) (\<lambda>n.
       Inr (from_text (join [10] (map (\<lambda>k.
         let t = uuid_v4 ext k;
             t = (if bool_of a (lit ''noHyphens'') then replace_all [45] [] t else t)
         in if bool_of a (lit ''uppercase'') then str_upper ext t else t) [0..<clamp 1 1000 n]))))"

definition POOL_ALPHA :: bytes where
  "POOL_ALPHA = map of_nat ([97..<123] @ [65..<91])"

definition POOL_DIGIT :: bytes where
  "POOL_DIGIT = map of_nat [48..<58]"

definition POOL_ALNUM :: bytes where
  "POOL_ALNUM = POOL_ALPHA @ POOL_DIGIT"

definition POOL_HEX :: bytes where
  "POOL_HEX = POOL_DIGIT @ map of_nat [97..<103]"

text \<open>A custom pool is the bytes of the given characters, each taken as a Latin-1 character.\<close>

definition random_pool :: "ustring \<Rightarrow> args \<Rightarrow> bytes chef_result" where
  "random_pool charset a =
     (if charset = lit ''alnum'' then Inr POOL_ALNUM
      else if charset = lit ''alpha'' then Inr POOL_ALPHA
      else if charset = lit ''digit'' then Inr POOL_DIGIT
      else if charset = lit ''hex'' then Inr POOL_HEX
      else
        (let custom = args_text a (lit ''characters'') [] in
         if custom = [] then Inl (Text_Error Empty_Pool) else Inr (utf8 custom)))"

definition random_string :: "text_ext \<Rightarrow> chef_data \<Rightarrow> args \<Rightarrow> chef_data chef_result" where
  "random_string ext data a =
     rbind (args_number a (lit ''length'') 16) (\<lambda>n.
     rbind (choice_in a (lit ''charset'') (lit ''alnum'')
       [lit ''alnum'', lit ''alpha'', lit ''digit'', lit ''hex'', lit ''custom'']) (\<lambda>charset.
     rbind (random_pool charset a) (\<lambda>pool.
       Inr (from_text (map (\<lambda>k. unat (pool ! gen_range ext k (length pool))) [0..<clamp 1 4096 n])))))"

section \<open>The operations\<close>

definition text_OPS :: "text_ext \<Rightarrow> op_entry list" where
  "text_OPS ext =
    [op ''toUpperCase'' ''text'' [] (upper ext),
     op ''toLowerCase'' ''text'' [] (lower ext),
     op ''toTitleCase'' ''text'' [] (title_case ext),
     op ''swapCase'' ''text'' [] (swap_case ext),
     op ''reverseString'' ''text'' [] reverse_op,
     op ''trimWhitespace'' ''text'' [choice ''where'' ''both'' [lit ''both'', lit ''start'', lit ''end'']]
       trim_whitespace,
     op ''removeWhitespace'' ''text''
       [choice ''where'' ''all'' [lit ''all'', lit ''start'', lit ''end''], text_arg ''characters'' []]
       remove_whitespace,
     op ''cleanWhitespace'' ''text'' [] clean_whitespace,
     op ''replace'' ''text'' [text_arg ''search'' [], text_arg ''replacement'' [], bool_arg ''useRegex'' False,
       bool_arg ''global'' True] (replace ext),
     op ''regexExtract'' ''text'' [text_arg ''pattern'' [], number ''group'' 0] (regex_extract ext),
     op ''countOccurrences'' ''text'' [text_arg ''pattern'' [], bool_arg ''useRegex'' False] (count_occurrences ext),
     op ''sortLines'' ''text''
       [choice ''order'' ''asc'' [lit ''asc'', lit ''desc''],
        choice ''by'' ''text'' [lit ''text'', lit ''number'', lit ''length''],
        text_arg ''separator'' [CHR 0x0A], bool_arg ''unique'' False, bool_arg ''skipEmpty'' True] (sort_lines ext),
     op ''dedupeLines'' ''text'' [bool_arg ''keepOrder'' True] dedupe_lines,
     op ''wordFrequency'' ''text'' [number ''top'' 20, bool_arg ''ignoreCase'' True] (word_frequency ext),
     op ''textStats'' ''text'' [] text_stats,
     op ''truncateString'' ''text'' [number ''length'' 100, choice ''from'' ''start'' [lit ''start'', lit ''end'']]
       truncate_string,
     op ''sliceBytes'' ''text''
       [number ''start'' 0, number ''length'' 0, choice ''from'' ''start'' [lit ''start'', lit ''end'']] slice_bytes,
     op ''splitOnSeparator'' ''text'' [text_arg ''separator'' '','', bool_arg ''skipEmpty'' False] split_on_separator,
     op ''joinLines'' ''text'' [text_arg ''separator'' '',''] join_lines,
     op ''repeatString'' ''text'' [number ''count'' 3] repeat_string,
     op_outcome ''extract'' ''text'' [choice ''kind'' ''url'' EXTRACT_KINDS, bool_arg ''unique'' True] (extract_op ext),
     op ''unixToDate'' ''misc'' [choice ''unit'' ''milliseconds'' TIME_UNITS, number ''offsetMinutes'' 0] unix_to_date,
     op ''dateToUnix'' ''misc'' [choice ''unit'' ''seconds'' DATE_TIME_UNITS, number ''offsetMinutes'' 0] date_to_unix,
     op ''generateUuid'' ''misc'' [number ''count'' 1, bool_arg ''uppercase'' False, bool_arg ''noHyphens'' False]
       (generate_uuid ext),
     op ''randomString'' ''misc''
       [number ''length'' 16,
        choice ''charset'' ''alnum'' [lit ''alnum'', lit ''alpha'', lit ''digit'', lit ''hex'', lit ''custom''],
        text_arg ''characters'' []] (random_string ext)]"

section \<open>What the operations compute\<close>

lemma on_text_Inr: "on_text d f = Inr e \<longleftrightarrow> (\<exists>t. valid_string t \<and> d = from_text t \<and> e = from_text (f t))"
  by (auto simp: on_text_def result_inv chef_text_Inr)

lemma args_number_u64: "args_number a key dflt = Inr n \<Longrightarrow> dflt \<le> u64_max \<Longrightarrow> n < 2 ^ 64"
  using args_number_bound [of a key dflt n] by (simp add: u64_max_def)

text \<open>A slice is a non-empty stretch of the input.\<close>

lemma slice_range_bounds:
  assumes "slice_range n len from' a = Inr (first, stop)"
  shows "stop \<le> n"
  using assms by (auto simp: slice_range_def result_inv simp del: lit_Cons split: if_splits)

lemma slice_bytes_infix:
  assumes "slice_bytes d a = Inr e"
  shows "\<exists>before after. data_bytes d = before @ data_bytes e @ after \<and> data_bytes e \<noteq> []"
proof -
  obtain len from' first stop where r: "slice_range (length (data_bytes d)) len from' a = Inr (first, stop)"
    and lt: "\<not> stop \<le> first" and e: "e = chef_new (take (stop - first) (drop first (data_bytes d)))"
    using assms by (auto simp: slice_bytes_def result_inv simp del: lit_Cons split: if_splits prod.splits)
  let ?m = "take (stop - first) (drop first (data_bytes d))"
  have "data_bytes d = take first (data_bytes d) @ ?m @ drop (stop - first) (drop first (data_bytes d))"
    by (metis append_take_drop_id)
  moreover have "?m \<noteq> []" using lt slice_range_bounds [OF r] by simp
  ultimately show ?thesis using e by auto
qed

text \<open>The guard of \<open>repeatString\<close> bounds what it builds.\<close>

lemma repeat_string_bound [bounds]:
  assumes "repeat_string d a = Inr e"
  shows "chef_len e \<le> MAX_STEP_BYTES"
    and "\<exists>n. args_number a (lit ''count'') 3 = Inr n \<and> data_bytes e = concat (replicate n (data_bytes d))"
proof -
  obtain n t where n: "args_number a (lit ''count'') 3 = Inr n" and t: "chef_text d = Inr t"
    and le: "min (length (utf8 t) * n) u64_max \<le> MAX_STEP_BYTES" and e: "e = from_text (concat (replicate n t))"
    using assms by (auto simp: repeat_string_def result_inv Let_def not_less simp del: lit_Cons split: if_splits)
  have rep: "utf8 (concat (replicate k t)) = concat (replicate k (utf8 t))" for k
    by (induction k) auto
  have "length (concat (replicate k (utf8 t))) = k * length (utf8 t)" for k
    by (induction k) auto
  then have "chef_len e = n * length (utf8 t)" by (simp add: e chef_len_def rep)
  moreover have "length (utf8 t) * n \<le> MAX_STEP_BYTES"
    using le by (auto simp: min_def MAX_STEP_BYTES_def u64_max_def split: if_splits)
  ultimately show "chef_len e \<le> MAX_STEP_BYTES" by (simp add: mult.commute)
  have "d = from_text t" using t by (simp add: chef_text_Inr)
  then show "\<exists>n. args_number a (lit ''count'') 3 = Inr n \<and> data_bytes e = concat (replicate n (data_bytes d))"
    using n e rep by auto
qed

text \<open>\<open>keep_first\<close> keeps one copy of each line, in the order of first occurrence.\<close>

lemma keep_first_foldl:
  "foldl (\<lambda>out l. if l \<in> set out then out else out @ [l]) acc xs =
     acc @ filter (\<lambda>x. x \<notin> set acc) (keep_first xs)"
proof (induction xs rule: rev_induct)
  case Nil
  then show ?case by (simp add: keep_first_def)
next
  case (snoc x xs)
  have k: "keep_first (xs @ [x]) = (if x \<in> set (keep_first xs) then keep_first xs else keep_first xs @ [x])"
    by (simp add: keep_first_def)
  show ?case using snoc unfolding k by auto
qed

lemma keep_first_Cons: "keep_first (x # xs) = x # filter (\<lambda>y. y \<noteq> x) (keep_first xs)"
  using keep_first_foldl [of "[x]" xs] by (simp add: keep_first_def)

lemma keep_first_set: "set (keep_first xs) = set xs \<and> distinct (keep_first xs)"
  by (induction xs) (auto simp: keep_first_Cons keep_first_def [of "[]"])

lemma remdups_adj_sort: "set (remdups_adj (sort xs)) = set xs \<and> distinct (remdups_adj (sort xs)) \<and> sorted (remdups_adj (sort xs))"
  for xs :: "'a::linorder list"
proof -
  have "sorted ys \<Longrightarrow> distinct (remdups_adj ys) \<and> sorted (remdups_adj ys)" for ys :: "'a list"
    by (induction ys rule: remdups_adj.induct) (auto simp: remdups_adj_set)
  then show ?thesis by simp
qed

text \<open>Word counts and their ranking.\<close>

lemma word_counts_eq: "word_counts ws w = (if w \<in> set ws then Some (count_list ws w) else None)"
  unfolding word_counts_def
proof (induction ws rule: rev_induct)
  case (snoc x xs)
  have "x \<notin> set xs \<Longrightarrow> count_list xs x = 0" by (simp add: count_list_0_iff)
  with snoc show ?case by (auto split: option.splits if_splits)
qed simp

lemma ranked_words_set: "set (ranked_words ws) = (\<lambda>w. (w, count_list ws w)) ` set ws"
  by (auto simp: ranked_words_def word_counts_eq)

lemma ranked_words_sorted: "sorted (map (\<lambda>(w, n). (- int n, w)) (ranked_words ws))"
  unfolding ranked_words_def by (rule sorted_sort_key)

lemma ranked_words_distinct: "distinct (map fst (ranked_words ws))"
proof -
  have "mset (ranked_words ws) = mset (map (\<lambda>w. (w, case word_counts ws w of None \<Rightarrow> 0 | Some n \<Rightarrow> n)) (sort (remdups ws)))"
    by (simp add: ranked_words_def)
  then have "mset (map fst (ranked_words ws)) = mset (sort (remdups ws))"
    by (metis (no_types, lifting) mset_map map_map comp_def fst_conv list.map_ident list.map_cong)
  then show ?thesis by (metis distinct_remdups distinct_sort mset_eq_imp_distinct_iff)
qed

lemma ranked_words_total: "sum_list (map snd (ranked_words ws)) = length ws"
proof -
  have "sum_list (map snd (ranked_words ws)) =
      sum_list (map snd (map (\<lambda>w. (w, case word_counts ws w of None \<Rightarrow> 0 | Some n \<Rightarrow> n)) (sort (remdups ws))))"
    unfolding ranked_words_def by (metis (no_types, lifting) mset_map mset_sort sum_mset_sum_list)
  also have "\<dots> = sum_list (map (count_list ws) (sort (remdups ws)))"
    by (intro arg_cong [of _ _ sum_list]) (auto simp: word_counts_eq)
  also have "\<dots> = (\<Sum>w \<in> set ws. count_list ws w)"
    by (simp add: sum_list_distinct_conv_sum_set)
  also have "\<dots> = length ws" by (rule sum_count_set) simp_all
  finally show ?thesis .
qed

text \<open>Sorting by text gives the same lines in order.\<close>

lemma text_OPS_return: "e \<in> set (text_OPS ext) \<Longrightarrow> returns e"
proof -
  have "extract_op ext d a \<noteq> Diverged" for d a
    by (auto simp: extract_op_def split: sum.splits option.splits)
  then show "e \<in> set (text_OPS ext) \<Longrightarrow> returns e"
    by (auto simp: text_OPS_def returns_def simp del: lit_Cons)
qed

end
