(* ===== verification/Chef_Service.thy ===== *)
theory Chef_Service
  imports Chef_Escapes Chef_Digest Chef_Kdf Chef_Cipher Chef_Format Chef_Text
begin

text \<open>
  The service of the algorithm centre (src-tauri/src/services/chef/mod.rs and ops/mod.rs): the
  groups of operations, and \<open>bake\<close>, which decodes the input, runs the recipe step by step, catches
  the panics of the operations, enforces the limits and stops at the first failing step.
\<close>

section \<open>The registry of all groups\<close>

record chef_ext =
  ext_b64 :: b64_engine
  ext_encoding :: encoding_ext
  ext_digest :: digest_ext
  ext_kdf :: kdf_ext
  ext_cipher :: cipher_ext
  ext_compression :: compression_ext
  ext_format :: format_ext
  ext_text :: text_ext

definition GROUPS :: "chef_ext \<Rightarrow> op_entry list list" where
  "GROUPS ext =
     [encoding_OPS (ext_encoding ext), digest_OPS (ext_digest ext), kdf_OPS (ext_kdf ext), cipher_OPS (ext_cipher ext),
      compression_OPS (ext_compression ext), format_OPS (ext_format ext), text_OPS (ext_text ext)]"

abbreviation registry :: "chef_ext \<Rightarrow> op_entry list" where
  "registry ext \<equiv> REGISTRY (GROUPS ext)"

section \<open>Baking a recipe\<close>

definition MAX_INPUT_BYTES :: nat where
  "MAX_INPUT_BYTES = 8 * 1024 * 1024"

definition MAX_STEPS :: nat where
  "MAX_STEPS = 128"

definition INPUT_ENCODINGS :: "ustring list" where
  "INPUT_ENCODINGS = [lit ''utf8'', lit ''hex'', lit ''base64'', lit ''base64url'', lit ''decimal'']"

definition seed_input :: "b64_engine \<Rightarrow> ustring \<Rightarrow> ustring \<Rightarrow> chef_data chef_result" where
  "seed_input eng t encoding =
     (if encoding = lit ''utf8'' then Inr (from_text t)
      else if encoding = lit ''hex'' then rmap chef_new (hex_decode t)
      else if encoding = lit ''base64'' then rmap chef_new (b64_decode eng t False False)
      else if encoding = lit ''base64url'' then rmap chef_new (b64_decode eng t True False)
      else if encoding = lit ''decimal'' then rmap chef_new (read_by_format eng (from_text t) (lit ''decimal''))
      else Inl (Service_Error (Unknown_Input_Encoding encoding)))"

definition preview :: "chef_data \<Rightarrow> ustring" where
  "preview data = (let t = text_lossy data in take 160 t @ (if 160 < length t then [0x2026] else []))"

definition ok_step :: "ustring \<Rightarrow> chef_data \<Rightarrow> chef_step_result" where
  "ok_step i next_data = \<lparr>res_id = i, res_ok = True, res_bytes = chef_len next_data, res_utf8 = is_utf8 next_data,
     res_preview = preview next_data, res_error = None\<rparr>"

definition failed_step :: "ustring \<Rightarrow> chef_data \<Rightarrow> chef_error \<Rightarrow> chef_step_result" where
  "failed_step i current e = \<lparr>res_id = i, res_ok = False, res_bytes = chef_len current, res_utf8 = is_utf8 current,
     res_preview = preview current, res_error = Some e\<rparr>"

definition too_large_step :: "ustring \<Rightarrow> nat \<Rightarrow> nat \<Rightarrow> chef_step_result" where
  "too_large_step i index produced = \<lparr>res_id = i, res_ok = False, res_bytes = produced, res_utf8 = False,
     res_preview = [], res_error = Some (Service_Error (Step_Too_Large (index + 1) produced))\<rparr>"

text \<open>The body of the loop: the next data, or why the recipe stops here; \<open>None\<close> when the operation does not return.\<close>

definition run_step :: "op_entry list \<Rightarrow> nat \<Rightarrow> chef_data \<Rightarrow> chef_step_input \<Rightarrow> (chef_step_result + chef_data) option" where
  "run_step reg index current step =
     (case find_op reg (step_id step) of
        None \<Rightarrow> Some (Inl (failed_step (step_id step) current (unknown_operation (step_id step))))
      | Some entry \<Rightarrow>
          (case op_run entry current (fill_defaults entry (step_args step)) of
             Returned (Inr next_data) \<Rightarrow>
               Some (if MAX_STEP_BYTES < chef_len next_data
                     then Inl (too_large_step (step_id step) index (chef_len next_data)) else Inr next_data)
           | Returned (Inl e) \<Rightarrow> Some (Inl (failed_step (step_id step) current e))
           | Panicked \<Rightarrow> Some (Inl (failed_step (step_id step) current (Service_Error Internal_Panic)))
           | Diverged \<Rightarrow> None))"

text \<open>The loop: the data it ends with, the records of the steps it ran, and where it stopped.\<close>

fun run_recipe :: "op_entry list \<Rightarrow> nat \<Rightarrow> chef_data \<Rightarrow> chef_step_input list \<Rightarrow>
    (chef_data \<times> chef_step_result list \<times> nat option) option" where
  "run_recipe reg index current [] = Some (current, [], None)"
| "run_recipe reg index current (step # steps) =
     (case run_step reg index current step of
        None \<Rightarrow> None
      | Some (Inl stopped) \<Rightarrow> Some (current, [stopped], Some index)
      | Some (Inr next_data) \<Rightarrow>
          (case run_recipe reg (index + 1) next_data steps of
             None \<Rightarrow> None
           | Some (final, records, failed) \<Rightarrow> Some (final, ok_step (step_id step) next_data # records, failed)))"

definition bake_result :: "b64_engine \<Rightarrow> nat \<Rightarrow> chef_data \<times> chef_step_result list \<times> nat option \<Rightarrow> chef_bake_result" where
  "bake_result eng seeded = (\<lambda>(final, records, failed).
     \<lparr>bake_ok = (failed = None), bake_output = text_lossy final, output_bytes = chef_len final,
      output_utf8 = is_utf8 final, output_hex = hex_encode (data_bytes final) False [],
      output_base64 = b64_encode eng (data_bytes final) False True, bake_steps = records, failed_at = failed,
      input_bytes = seeded\<rparr>)"

definition bake :: "b64_engine \<Rightarrow> op_entry list \<Rightarrow> chef_bake_request \<Rightarrow> chef_bake_result chef_result option" where
  "bake eng reg request =
     (if MAX_STEPS < length (recipe request) then Some (Inl (Service_Error (Too_Many_Steps (length (recipe request)))))
      else
        (let encoding = (case input_encoding request of Some e \<Rightarrow> e | None \<Rightarrow> lit ''utf8'') in
         if encoding \<notin> set INPUT_ENCODINGS then Some (Inl (Service_Error (Unknown_Input_Encoding encoding)))
         else
           (case seed_input eng (req_input request) encoding of
              Inl e \<Rightarrow> Some (Inl e)
            | Inr seeded \<Rightarrow>
                if MAX_INPUT_BYTES < chef_len seeded then Some (Inl (Service_Error (Input_Too_Large (chef_len seeded))))
                else map_option (\<lambda>r. Inr (bake_result eng (chef_len seeded) r))
                       (run_recipe reg 0 seeded (recipe request)))))"

section \<open>What a recipe means\<close>

text \<open>
  The abstract semantics: a step is a partial function on the data, a recipe their composition, and
  the longest prefix that succeeds decides what is shown when a step fails.
\<close>

definition step_data :: "op_entry list \<Rightarrow> chef_step_input \<Rightarrow> chef_data \<Rightarrow> chef_data option" where
  "step_data reg step current = (case run_step reg 0 current step of Some (Inr d) \<Rightarrow> Some d | _ \<Rightarrow> None)"

fun meaning :: "op_entry list \<Rightarrow> chef_step_input list \<Rightarrow> chef_data \<Rightarrow> chef_data option" where
  "meaning reg [] d = Some d"
| "meaning reg (s # ss) d = Option.bind (step_data reg s d) (meaning reg ss)"

lemma run_step_index: "run_step reg i d s = Some (Inr d') \<longleftrightarrow> step_data reg s d = Some d'"
  by (auto simp: step_data_def run_step_def split: option.splits outcome.splits sum.splits if_splits)

lemma meaning_append: "meaning reg (a @ b) d = Option.bind (meaning reg a d) (meaning reg b)"
  by (induction a arbitrary: d) (auto split: Option.bind_splits)

lemma run_recipe_ok_iff:
  "run_recipe reg i d steps = Some (final, records, None) \<Longrightarrow> meaning reg steps d = Some final"
proof (induction steps arbitrary: i d records)
  case (Cons s steps)
  then obtain d' records' where "run_step reg i d s = Some (Inr d')"
    "run_recipe reg (i + 1) d' steps = Some (final, records', None)"
    by (auto split: option.splits sum.splits)
  with Cons.IH show ?case by (auto simp: run_step_index)
qed simp

lemma run_recipe_complete:
  "meaning reg steps d = Some final \<Longrightarrow> \<exists>records. run_recipe reg i d steps = Some (final, records, None)"
proof (induction steps arbitrary: i d)
  case (Cons s steps)
  then obtain d' where d': "step_data reg s d = Some d'" "meaning reg steps d' = Some final"
    by (auto split: Option.bind_splits)
  then have "run_step reg i d s = Some (Inr d')" by (simp add: run_step_index)
  with Cons.IH [OF d'(2), of "i + 1"] show ?case by auto
qed simp

text \<open>Where a failing recipe stops: all steps before are recorded as done, and the data is theirs.\<close>

lemma run_recipe_failed:
  "run_recipe reg i d steps = Some (final, records, Some k) \<Longrightarrow>
   i \<le> k \<and> k < i + length steps \<and> length records = k - i + 1 \<and> meaning reg (take (k - i) steps) d = Some final \<and>
   meaning reg (take (k - i + 1) steps) d = None \<and> \<not> res_ok (last records) \<and> list_all res_ok (butlast records)"
proof (induction steps arbitrary: i d records)
  case (Cons s steps)
  show ?case
  proof (cases "run_step reg i d s")
    case (Some r)
    show ?thesis
    proof (cases r)
      case (Inl stopped)
      then have "step_data reg s d = None"
        using run_step_index [of reg i d s] Some by (cases "step_data reg s d") auto
      moreover have "\<not> res_ok stopped"
        using Some Inl by (auto simp: run_step_def failed_step_def too_large_step_def
          split: option.splits outcome.splits sum.splits if_splits)
      ultimately show ?thesis using Cons.prems Some Inl by auto
    next
      case (Inr d')
      then obtain rs where run: "run_recipe reg (i + 1) d' steps = Some (final, rs, Some k)"
        and records: "records = ok_step (step_id s) d' # rs"
        using Cons.prems Some by (auto split: option.splits)
      have d': "step_data reg s d = Some d'" using Some Inr by (simp add: run_step_index)
      note ih = Cons.IH [OF run]
      then have ki: "k - i = Suc (k - (i + 1))" and rs: "rs \<noteq> []" by auto
      show ?thesis using ih rs unfolding records ki by (auto simp: d' ok_step_def)
    qed
  qed (use Cons.prems in simp)
qed simp

lemma run_recipe_records:
  "run_recipe reg i d steps = Some (final, records, None) \<Longrightarrow> length records = length steps \<and> list_all res_ok records"
proof (induction steps arbitrary: i d records)
  case (Cons s steps)
  then show ?case by (fastforce simp: ok_step_def split: option.splits sum.splits)
qed simp

text \<open>No data between steps is larger than the step limit, whatever the operations produce.\<close>

lemma step_data_bound: "step_data reg s d = Some d' \<Longrightarrow> chef_len d' \<le> MAX_STEP_BYTES"
  by (auto simp: step_data_def run_step_def split: option.splits outcome.splits sum.splits if_splits)

lemma meaning_bound: "meaning reg steps d = Some d' \<Longrightarrow> chef_len d \<le> MAX_STEP_BYTES \<Longrightarrow> chef_len d' \<le> MAX_STEP_BYTES"
  by (induction steps arbitrary: d) (auto split: Option.bind_splits dest: step_data_bound)

text \<open>An accepted request passed every guard, and what is shown is what the run left.\<close>

lemma bake_accepted:
  assumes "bake eng reg request = Some (Inr r)"
  shows "\<exists>encoding seeded final records failed.
    seed_input eng (req_input request) encoding = Inr seeded \<and> chef_len seeded \<le> MAX_INPUT_BYTES \<and>
    length (recipe request) \<le> MAX_STEPS \<and> run_recipe reg 0 seeded (recipe request) = Some (final, records, failed) \<and>
    r = bake_result eng (chef_len seeded) (final, records, failed)"
  using assms unfolding bake_def Let_def by (force simp del: run_recipe.simps split: if_splits sum.splits)

lemma bake_result_fields [simp]:
  "bake_ok (bake_result eng n (final, records, failed)) \<longleftrightarrow> failed = None"
  "output_hex (bake_result eng n (final, records, failed)) = hex_encode (data_bytes final) False []"
  "output_bytes (bake_result eng n (final, records, failed)) = chef_len final"
  "bake_steps (bake_result eng n (final, records, failed)) = records"
  by (simp_all add: bake_result_def)

lemma run_recipe_total:
  assumes "\<And>e. e \<in> set reg \<Longrightarrow> returns e"
  shows "run_recipe reg i d steps \<noteq> None"
proof (induction steps arbitrary: i d)
  case (Cons s steps)
  have "run_step reg i d s \<noteq> None"
    using assms by (auto simp: run_step_def returns_def dest!: find_op_Some
      split: option.splits outcome.splits sum.splits)
  then obtain r where r: "run_step reg i d s = Some r" by blast
  show ?case
  proof (cases r)
    case (Inr d')
    obtain p where "run_recipe reg (i + 1) d' steps = Some p" using Cons.IH [of "i + 1" d'] by auto
    then show ?thesis by (cases p) (simp add: r Inr)
  qed (simp add: r)
qed simp

lemma registry_returns: "e \<in> set (registry ext) \<Longrightarrow> returns e"
  by (auto simp: REGISTRY_concat GROUPS_def encoding_OPS_return digest_OPS_return kdf_OPS_return cipher_OPS_return
      compression_OPS_return format_OPS_return text_OPS_return)

section \<open>The operation ids\<close>

text \<open>The identifiers the front end's dictionaries key on, in the order of the list.\<close>

definition operation_ids :: "string list" where
  "operation_ids =
    [''base64Encode'', ''base64Decode'', ''base32Encode'', ''base32Decode'', ''base58Encode'', ''base58Decode'',
     ''base62Encode'', ''base62Decode'', ''base85Encode'', ''base85Decode'', ''hexEncode'', ''hexDecode'',
     ''decimalEncode'', ''decimalDecode'', ''octalEncode'', ''octalDecode'', ''binaryEncode'', ''binaryDecode'',
     ''urlEncode'', ''urlDecode'', ''htmlEntityEncode'', ''htmlEntityDecode'', ''unicodeEscape'',
     ''unicodeUnescape'', ''charsetEncode'', ''charsetDecode'', ''morseEncode'', ''morseDecode'', ''md4'', ''md5'',
     ''sha1'', ''sha224'', ''sha256'', ''sha384'', ''sha512'', ''sha3_256'', ''sha3_512'', ''keccak_256'',
     ''keccak_512'', ''blake2b'', ''blake2s'', ''blake3'', ''ripemd160'', ''sm3'', ''ntHash'', ''identifyHash'',
     ''crc32'', ''crc'', ''adler32'', ''fletcher'', ''hmac'', ''pbkdf2'', ''hkdf'', ''bcryptHash'',
     ''bcryptVerify'', ''aesEncrypt'', ''aesDecrypt'', ''aesGcmEncrypt'', ''aesGcmDecrypt'', ''desEncrypt'',
     ''desDecrypt'', ''des3Encrypt'', ''des3Decrypt'', ''sm4Encrypt'', ''sm4Decrypt'', ''rc4'', ''chacha20'',
     ''chacha20Poly1305Encrypt'', ''chacha20Poly1305Decrypt'', ''xor'', ''xorBruteForce'', ''rsaEncrypt'',
     ''rsaDecrypt'', ''rsaGenerate'', ''caesar'', ''rot13'', ''vigenere'', ''gzip'', ''gunzip'', ''multiGunzip'',
     ''zlibCompress'', ''zlibDecompress'', ''deflate'', ''inflate'', ''brotliCompress'', ''brotliDecompress'',
     ''bzip2Decompress'', ''jsonBeautify'', ''jsonMinify'', ''jwtDecode'', ''hexDump'', ''protobufDecode'',
     ''derDecode'', ''parseUuid'', ''detectFileType'', ''toUpperCase'', ''toLowerCase'', ''toTitleCase'',
     ''swapCase'', ''reverseString'', ''trimWhitespace'', ''removeWhitespace'', ''cleanWhitespace'', ''replace'',
     ''regexExtract'', ''countOccurrences'', ''sortLines'', ''dedupeLines'', ''wordFrequency'', ''textStats'',
     ''truncateString'', ''sliceBytes'', ''splitOnSeparator'', ''joinLines'', ''repeatString'', ''extract'',
     ''unixToDate'', ''dateToUnix'', ''generateUuid'', ''randomString'']"

lemma registry_ids: "map op_id (registry ext) = map lit operation_ids"
  unfolding REGISTRY_concat GROUPS_def encoding_OPS_def digest_OPS_def kdf_OPS_def cipher_OPS_def
    compression_OPS_def format_OPS_def text_OPS_def operation_ids_def
  by (simp del: lit_Cons)

lemma inj_lit: "inj lit"
  by (rule injI) (metis lit_def inj_map_eq_map inj_of_char)

lemma distinct_operation_ids: "distinct operation_ids"
  unfolding operation_ids_def by code_simp

lemma registry_distinct: "distinct (map op_id (registry ext))"
  unfolding registry_ids by (simp add: distinct_map inj_on_subset [OF inj_lit] distinct_operation_ids)

section \<open>A recipe that encrypts and decrypts\<close>

lemma find_registered: "e \<in> set (registry ext) \<Longrightarrow> find_op (registry ext) (op_id e) = Some e"
  by (rule find_op_registered [OF registry_distinct])

definition aes_encrypt_entry :: "chef_ext \<Rightarrow> op_entry" where
  "aes_encrypt_entry ext = op ''aesEncrypt'' ''cipher'' ENCRYPT_ARGS (aes_encrypt (ext_cipher ext))"

definition aes_decrypt_entry :: "chef_ext \<Rightarrow> op_entry" where
  "aes_decrypt_entry ext = op ''aesDecrypt'' ''cipher'' DECRYPT_ARGS (aes_decrypt (ext_cipher ext))"

lemma aes_entries:
  "find_op (registry ext) (lit ''aesEncrypt'') = Some (aes_encrypt_entry ext)"
  "find_op (registry ext) (lit ''aesDecrypt'') = Some (aes_decrypt_entry ext)"
proof -
  have m: "aes_encrypt_entry ext \<in> set (cipher_OPS (ext_cipher ext))" "aes_decrypt_entry ext \<in> set (cipher_OPS (ext_cipher ext))"
    unfolding aes_encrypt_entry_def aes_decrypt_entry_def cipher_OPS_def list.set by blast+
  have sub: "set (cipher_OPS (ext_cipher ext)) \<subseteq> set (registry ext)"
    by (auto simp: REGISTRY_concat GROUPS_def)
  show "find_op (registry ext) (lit ''aesEncrypt'') = Some (aes_encrypt_entry ext)"
    using find_registered [OF subsetD [OF sub m(1)]] by (simp add: aes_encrypt_entry_def del: lit_Cons)
  show "find_op (registry ext) (lit ''aesDecrypt'') = Some (aes_decrypt_entry ext)"
    using find_registered [OF subsetD [OF sub m(2)]] by (simp add: aes_decrypt_entry_def del: lit_Cons)
qed

text \<open>Both steps fill the shared arguments the same way, and the formats so that they fit together.\<close>

lemma aes_defaults:
  fixes ext :: chef_ext and g :: args
  assumes "g (lit ''inputFormat'') = None" "g (lit ''outputFormat'') = None"
  defines "ea \<equiv> fill_defaults (aes_encrypt_entry ext) g" and "da \<equiv> fill_defaults (aes_decrypt_entry ext) g"
  shows "n \<in> {''mode'', ''padding'', ''key'', ''keyFormat'', ''iv'', ''ivFormat''} \<Longrightarrow> da (lit n) = ea (lit n)"
    "ea (lit ''inputFormat'') = Some (lit ''utf8'')" "ea (lit ''outputFormat'') = Some (lit ''base64'')"
    "da (lit ''inputFormat'') = Some (lit ''base64'')" "da (lit ''outputFormat'') = Some (lit ''utf8'')"
  using assms by (auto simp: fill_defaults_def aes_encrypt_entry_def aes_decrypt_entry_def ENCRYPT_ARGS_def DECRYPT_ARGS_def)

lemma aes_round_trip:
  assumes b64: "b64_laws (cip_b64 (ext_cipher ext))"
    and blocks: "block_laws (aes128 (ext_cipher ext))" "block_laws (aes192 (ext_cipher ext))" "block_laws (aes256 (ext_cipher ext))"
    and sizes: "block_size (aes128 (ext_cipher ext)) = 16" "block_size (aes192 (ext_cipher ext)) = 16"
      "block_size (aes256 (ext_cipher ext)) = 16"
    and g: "g (lit ''inputFormat'') = None" "g (lit ''outputFormat'') = None"
    and pad: "\<And>mode padding. choice_in (fill_defaults (aes_encrypt_entry ext) g) (lit ''mode'') (lit ''cbc'') MODES = Inr mode \<Longrightarrow>
      choice_in (fill_defaults (aes_encrypt_entry ext) g) (lit ''padding'') (lit ''pkcs7'') PADDINGS = Inr padding \<Longrightarrow>
      chain_mode mode \<Longrightarrow> recoverable padding 16 (data_bytes d)"
    and enc: "step_data (registry ext) \<lparr>step_id = lit ''aesEncrypt'', step_args = g\<rparr> d = Some c"
    and len: "chef_len d \<le> MAX_STEP_BYTES"
  shows "meaning (registry ext) [\<lparr>step_id = lit ''aesEncrypt'', step_args = g\<rparr>,
    \<lparr>step_id = lit ''aesDecrypt'', step_args = g\<rparr>] d = Some d"
proof -
  let ?c = "ext_cipher ext"
  define ea da where "ea = fill_defaults (aes_encrypt_entry ext) g" and "da = fill_defaults (aes_decrypt_entry ext) g"
  note args = aes_defaults [of g, OF g, where ext = ext, folded ea_def da_def]
  have enc': "symmetric ?c d ea False (aes_block ?c) (lit ''AES'') = Inr c"
    using enc by (auto simp: step_data_def run_step_def aes_entries aes_encrypt_entry_def aes_encrypt_def
      ea_def simp del: lit_Cons split: sum.splits if_splits)
  have wire: "choice_in ea (lit ''outputFormat'') (lit ''base64'') FORMATS = Inr (lit ''base64'')"
    "choice_in da (lit ''inputFormat'') (lit ''base64'') FORMATS = Inr (lit ''base64'')" "lit ''base64'' \<in> set text_formats"
    using args by (simp_all add: choice_in_def args_choice_def FORMATS_def text_formats_def)
  have "symmetric ?c c da True (aes_block ?c) (lit ''AES'') = Inr d"
    unfolding aes_block_def
  proof (rule keyed.symmetric_undo [OF b64 enc' [unfolded aes_block_def] _ args(2) args(5) wire])
    show "da (lit n) = ea (lit n)" if "n \<in> {''mode'', ''padding'', ''key'', ''keyFormat'', ''iv'', ''ivFormat''}" for n
      by (rule args(1) [OF that])
    show "keyed_ok [(16, aes128 ?c), (24, aes192 ?c), (32, aes256 ?c)] mode padding key (data_bytes d)"
      if "choice_in ea (lit ''mode'') (lit ''cbc'') MODES = Inr mode"
        "choice_in ea (lit ''padding'') (lit ''pkcs7'') PADDINGS = Inr padding" for mode padding key
      using blocks sizes pad [folded ea_def, OF that] by (auto simp: keyed_ok_def)
  qed
  then have "step_data (registry ext) \<lparr>step_id = lit ''aesDecrypt'', step_args = g\<rparr> c = Some d"
    using len by (auto simp: step_data_def run_step_def aes_entries aes_decrypt_entry_def aes_decrypt_def
      da_def simp del: lit_Cons)
  with enc show ?thesis by simp
qed

end
