(* ===== verification/Config_Service.thy ===== *)
theory Config_Service
  imports Rust_Str Utf8 "HOL-Library.AList"
begin

text \<open>
  The application's settings (\<open>src-tauri/src/services/config_service.rs\<close>) over the key/value table of
  \<open>db/config_repo.rs\<close>: the allowed keys and the values they accept, reading, writing, the secret
  channel and the snapshot that is handed to the front end. The table is the list of its rows; a
  database that cannot be reached is a table with a failure.
\<close>

datatype core_error =
    Core_Io ustring
  | Core_Serialization ustring
  | Core_Database ustring
  | Core_Internal ustring
  | Core_Not_Found ustring
  | Core_Conflict ustring
  | Agent_Unavailable ustring
  | Agent_Incompatible ustring
  | Agent_Transport_Lost ustring
  | Core_Invalid_Input ustring
  | Core_Device_Offline ustring

fun core_error_code :: "core_error \<Rightarrow> ustring" where
  "core_error_code (Core_Io _) = lit ''IO''"
| "core_error_code (Core_Serialization _) = lit ''SERIALIZATION''"
| "core_error_code (Core_Database _) = lit ''DATABASE''"
| "core_error_code (Core_Internal _) = lit ''INTERNAL''"
| "core_error_code (Core_Not_Found _) = lit ''NOT_FOUND''"
| "core_error_code (Core_Conflict _) = lit ''CONFLICT''"
| "core_error_code (Agent_Unavailable _) = lit ''AGENT_UNAVAILABLE''"
| "core_error_code (Agent_Incompatible _) = lit ''AGENT_INCOMPATIBLE''"
| "core_error_code (Agent_Transport_Lost _) = lit ''AGENT_TRANSPORT_LOST''"
| "core_error_code (Core_Invalid_Input _) = lit ''INVALID_INPUT''"
| "core_error_code (Core_Device_Offline _) = lit ''DEVICE_OFFLINE''"

section \<open>The table\<close>

record settings_db =
  rows :: "(ustring \<times> ustring) list"
  failure :: "ustring option"

definition repo_get :: "settings_db \<Rightarrow> ustring \<Rightarrow> core_error + ustring option" where
  "repo_get db key = (case failure db of Some e \<Rightarrow> Inl (Core_Database e) | None \<Rightarrow> Inr (map_of (rows db) key))"

definition repo_set :: "settings_db \<Rightarrow> ustring \<Rightarrow> ustring \<Rightarrow> (core_error + unit) \<times> settings_db" where
  "repo_set db key v =
     (case failure db of Some e \<Rightarrow> (Inl (Core_Database e), db) | None \<Rightarrow> (Inr (), db\<lparr>rows := AList.update key v (rows db)\<rparr>))"

definition repo_remove :: "settings_db \<Rightarrow> ustring \<Rightarrow> (core_error + unit) \<times> settings_db" where
  "repo_remove db key =
     (case failure db of Some e \<Rightarrow> (Inl (Core_Database e), db) | None \<Rightarrow> (Inr (), db\<lparr>rows := AList.delete key (rows db)\<rparr>))"

definition repo_all :: "settings_db \<Rightarrow> core_error + (ustring \<times> ustring) list" where
  "repo_all db = (case failure db of Some e \<Rightarrow> Inl (Core_Database e) | None \<Rightarrow> Inr (rows db))"

section \<open>Values\<close>

definition is_ascii_whitespace :: "rchar \<Rightarrow> bool" where
  "is_ascii_whitespace c \<longleftrightarrow> c \<in> {9, 10, 12, 13, 32}"

definition is_control :: "rchar \<Rightarrow> bool" where
  "is_control c \<longleftrightarrow> c < 32 \<or> (127 \<le> c \<and> c \<le> 159)"

definition LOCALES :: "ustring list" where
  "LOCALES = [lit ''zh-CN'', lit ''en'', lit ''ru'', lit ''pt-BR'', lit ''ja'']"

definition is_valid_locale :: "ustring \<Rightarrow> bool" where
  "is_valid_locale v \<longleftrightarrow> v \<in> set LOCALES"

definition is_valid_theme :: "ustring \<Rightarrow> bool" where
  "is_valid_theme v \<longleftrightarrow> v \<in> {lit ''light'', lit ''dark'', lit ''system''}"

definition is_valid_bool :: "ustring \<Rightarrow> bool" where
  "is_valid_bool v \<longleftrightarrow> v \<in> {lit ''true'', lit ''false''}"

definition is_valid_ai_base_url :: "ustring \<Rightarrow> bool" where
  "is_valid_ai_base_url value =
     (let v = trim value in
      if v = [] then True
      else
        (let lower = map to_ascii_lower v in
         if starts_with lower (lit ''https://'') then
           length (utf8 v) \<le> 512 \<and> \<not> list_ex is_ascii_whitespace v
         else
           (let rest = (case strip_prefix (lit ''http://'') lower of Some r \<Rightarrow> r | None \<Rightarrow> []) in
            starts_with lower (lit ''http://'') \<and>
            (starts_with rest (lit ''127.0.0.1'') \<or> starts_with rest (lit ''localhost'') \<or> starts_with rest (lit ''[::1]'')))))"

definition is_valid_ai_model :: "ustring \<Rightarrow> bool" where
  "is_valid_ai_model value =
     (let v = trim value in v = [] \<or> (length (utf8 v) \<le> 120 \<and> \<not> list_ex is_ascii_whitespace v))"

definition is_valid_proxy :: "ustring \<Rightarrow> bool" where
  "is_valid_proxy value =
     (let v = trim value in
      if v = [] then True
      else if 512 < length (utf8 v) \<or> list_ex (\<lambda>c. is_whitespace c \<or> is_control c) v then False
      else
        (let with_scheme = (if split_once (lit ''://'') v \<noteq> None then v else lit ''http://'' @ v) in
         case split_once (lit ''://'') with_scheme of
           None \<Rightarrow> False
         | Some (scheme, rest) \<Rightarrow>
             map to_ascii_lower scheme \<in> {lit ''http'', lit ''https'', lit ''socks5'', lit ''socks5h''} \<and>
             rest \<noteq> [] \<and> 47 \<notin> set rest \<and> 63 \<notin> set rest \<and> 35 \<notin> set rest))"

definition is_valid_serial_list :: "ustring \<Rightarrow> bool" where
  "is_valid_serial_list value =
     (if 2000 \<le> length (utf8 value) \<or> 10 \<in> set value \<or> 0 \<in> set value then False
      else if value = [] then True
      else list_all (\<lambda>item. let s = trim item in
        s \<noteq> [] \<and> length (utf8 s) \<le> 128 \<and> list_all (\<lambda>c. is_ascii_alphanumeric c \<or> c \<in> set (lit ''-_.:'')) s)
        (split_pred (\<lambda>c. c = 44) value))"

definition is_valid_log_level :: "ustring \<Rightarrow> bool" where
  "is_valid_log_level v \<longleftrightarrow> v \<in> {lit ''trace'', lit ''debug'', lit ''info'', lit ''warn'', lit ''error''}"

definition is_valid_path :: "ustring \<Rightarrow> bool" where
  "is_valid_path v \<longleftrightarrow> length (utf8 v) < 1000 \<and> \<not> list_ex (\<lambda>c. c = 10 \<or> c = 0) v"

definition within :: "int_error + nat \<Rightarrow> nat \<Rightarrow> nat \<Rightarrow> bool" where
  "within r lo hi = (case r of Inl _ \<Rightarrow> False | Inr n \<Rightarrow> lo \<le> n \<and> n \<le> hi)"

definition is_valid_timeout_ms :: "ustring \<Rightarrow> bool" where
  "is_valid_timeout_ms v = within (parse_unsigned u64_max 10 v) 100 600000"

definition is_valid_payload_kb :: "ustring \<Rightarrow> bool" where
  "is_valid_payload_kb v = within (parse_unsigned u64_max 10 v) 1 65536"

definition is_valid_port :: "ustring \<Rightarrow> bool" where
  "is_valid_port v = (case parse_unsigned u16_max 10 v of Inl _ \<Rightarrow> False | Inr _ \<Rightarrow> True)"

section \<open>Keys\<close>

definition KEY_AGENT_PATH :: ustring where "KEY_AGENT_PATH = lit ''app.agent.path''"
definition KEY_AGENT_AUTO_CONNECT :: ustring where "KEY_AGENT_AUTO_CONNECT = lit ''app.agent.auto_connect''"
definition KEY_AGENT_CONSENT_SERIALS :: ustring where "KEY_AGENT_CONSENT_SERIALS = lit ''app.agent.consent_serials''"
definition KEY_AI_API_KEY :: ustring where "KEY_AI_API_KEY = lit ''app.ai.api_key''"

definition RETIRED_KEYS :: "ustring list" where
  "RETIRED_KEYS = [lit ''app.settings.opacity'', lit ''app.settings.click_through'']"

definition ALLOWED_KEYS :: "(ustring \<times> (ustring \<Rightarrow> bool)) list" where
  "ALLOWED_KEYS =
     [(lit ''app.settings.theme'', is_valid_theme), (lit ''app.settings.log_level'', is_valid_log_level),
      (lit ''app.adb.path'', is_valid_path), (KEY_AGENT_PATH, is_valid_path),
      (KEY_AGENT_AUTO_CONNECT, is_valid_bool), (KEY_AGENT_CONSENT_SERIALS, is_valid_serial_list),
      (lit ''app.plugins.call_timeout_ms'', is_valid_timeout_ms), (lit ''app.plugins.max_payload_kb'', is_valid_payload_kb),
      (lit ''app.python.path'', is_valid_path), (lit ''app.node.path'', is_valid_path),
      (lit ''app.tools.ida_mcp_port'', is_valid_port), (lit ''app.tools.jadx_mcp_port'', is_valid_port),
      (lit ''app.settings.locale'', is_valid_locale), (lit ''app.hook.workdir'', is_valid_path),
      (lit ''app.hook.frida_types_dir'', is_valid_path), (lit ''app.net.proxy'', is_valid_proxy),
      (lit ''app.ai.base_url'', is_valid_ai_base_url), (lit ''app.ai.model'', is_valid_ai_model),
      (lit ''app.ai.enabled'', is_valid_bool)]"

section \<open>The service\<close>

definition config_new :: "settings_db \<Rightarrow> settings_db" where
  "config_new db = foldl (\<lambda>db key. snd (repo_remove db key)) db RETIRED_KEYS"

definition check_key_allowed :: "ustring \<Rightarrow> core_error + unit" where
  "check_key_allowed key =
     (if list_ex (\<lambda>(k, _). k = key) ALLOWED_KEYS then Inr () else Inl (Core_Internal ([26410, 27880, 20876, 30340, 37197, 32622, 38190, 58, 32] @ key)))"

definition config_get :: "settings_db \<Rightarrow> ustring \<Rightarrow> ustring \<Rightarrow> core_error + ustring" where
  "config_get db key fallback =
     rbind (check_key_allowed key) (\<lambda>_. rmap (\<lambda>v. case v of None \<Rightarrow> fallback | Some v \<Rightarrow> v) (repo_get db key))"

definition config_set :: "settings_db \<Rightarrow> ustring \<Rightarrow> ustring \<Rightarrow> (core_error + unit) \<times> settings_db" where
  "config_set db key value =
     (case check_key_allowed key of
        Inl e \<Rightarrow> (Inl e, db)
      | Inr _ \<Rightarrow>
          if \<not> (case List.find (\<lambda>(k, _). k = key) ALLOWED_KEYS of None \<Rightarrow> False | Some (_, validator) \<Rightarrow> validator value)
          then (Inl (Core_Internal ([38750, 27861, 30340, 37197, 32622, 20540, 58, 32] @ key @ lit ''='' @ value)), db)
          else repo_set db key value)"

definition set_secret :: "settings_db \<Rightarrow> ustring \<Rightarrow> ustring \<Rightarrow> (core_error + unit) \<times> settings_db" where
  "set_secret db key value =
     (if trim key = [] then (Inl (Core_Internal [25935, 24863, 38190, 21517, 19981, 33021, 20026, 31354]), db) else repo_set db key value)"

definition get_secret :: "settings_db \<Rightarrow> ustring \<Rightarrow> ustring \<Rightarrow> core_error + ustring" where
  "get_secret db key fallback = rmap (\<lambda>v. case v of None \<Rightarrow> fallback | Some v \<Rightarrow> v) (repo_get db key)"

definition snapshot :: "settings_db \<Rightarrow> core_error + (ustring \<times> ustring) list" where
  "snapshot db = rmap (filter (\<lambda>(k, _). k \<in> set (map fst ALLOWED_KEYS))) (repo_all db)"

section \<open>Lemmas\<close>

lemma allowed_keys_distinct: "distinct (map fst ALLOWED_KEYS)"
  unfolding ALLOWED_KEYS_def KEY_AGENT_PATH_def KEY_AGENT_AUTO_CONNECT_def KEY_AGENT_CONSENT_SERIALS_def
  by simp

lemma api_key_not_allowed: "KEY_AI_API_KEY \<notin> set (map fst ALLOWED_KEYS)"
  unfolding ALLOWED_KEYS_def KEY_AGENT_PATH_def KEY_AGENT_AUTO_CONNECT_def KEY_AGENT_CONSENT_SERIALS_def KEY_AI_API_KEY_def
  by simp

lemma check_key_allowed_iff: "check_key_allowed key = Inr () \<longleftrightarrow> key \<in> set (map fst ALLOWED_KEYS)"
  by (force simp: check_key_allowed_def list_ex_iff)

lemma find_validator: "(key, f) \<in> set ALLOWED_KEYS \<Longrightarrow> List.find (\<lambda>(k, _). k = key) ALLOWED_KEYS = Some (key, f)"
proof -
  have "distinct (map fst xs) \<Longrightarrow> (key, f) \<in> set xs \<Longrightarrow> List.find (\<lambda>(k, _). k = key) xs = Some (key, f)" for xs
    by (induction xs) (auto simp: rev_image_eqI)
  with allowed_keys_distinct show "(key, f) \<in> set ALLOWED_KEYS \<Longrightarrow> ?thesis" by blast
qed

lemma config_set_valid:
  "(key, f) \<in> set ALLOWED_KEYS \<Longrightarrow>
   config_set db key v = (if f v then repo_set db key v else (Inl (Core_Internal ([38750, 27861, 30340, 37197, 32622, 20540, 58, 32] @ key @ lit ''='' @ v)), db))"
proof -
  assume k: "(key, f) \<in> set ALLOWED_KEYS"
  then have "check_key_allowed key = Inr ()" by (auto simp: check_key_allowed_iff rev_image_eqI)
  with find_validator [OF k] show ?thesis by (simp add: config_set_def)
qed

lemma config_set_unknown: "key \<notin> set (map fst ALLOWED_KEYS) \<Longrightarrow> snd (config_set db key v) = db"
  using check_key_allowed_iff [of key] by (auto simp: config_set_def split: sum.splits)

lemma consent_key: "(KEY_AGENT_CONSENT_SERIALS, is_valid_serial_list) \<in> set ALLOWED_KEYS"
  "(KEY_AGENT_AUTO_CONNECT, is_valid_bool) \<in> set ALLOWED_KEYS" "(KEY_AGENT_PATH, is_valid_path) \<in> set ALLOWED_KEYS"
  by (simp_all add: ALLOWED_KEYS_def)

lemma config_get_allowed:
  "(key, f) \<in> set ALLOWED_KEYS \<Longrightarrow> failure db = None \<Longrightarrow>
   config_get db key d = Inr (case map_of (rows db) key of None \<Rightarrow> d | Some v \<Rightarrow> v)"
proof -
  assume "(key, f) \<in> set ALLOWED_KEYS" "failure db = None"
  moreover from this(1) have "check_key_allowed key = Inr ()" by (auto simp: check_key_allowed_iff rev_image_eqI)
  ultimately show ?thesis by (simp add: config_get_def repo_get_def)
qed

text \<open>Every key has one row, and every stored value of an allowed key is one its validator accepts.\<close>

definition values_ok :: "settings_db \<Rightarrow> bool" where
  "values_ok db \<longleftrightarrow> (\<forall>key f v. (key, f) \<in> set ALLOWED_KEYS \<longrightarrow> map_of (rows db) key = Some v \<longrightarrow> f v)"

definition settings_ok :: "settings_db \<Rightarrow> bool" where
  "settings_ok db \<longleftrightarrow> distinct (map fst (rows db)) \<and> values_ok db"

lemma allowed_unique: "(key, f) \<in> set ALLOWED_KEYS \<Longrightarrow> (key, g) \<in> set ALLOWED_KEYS \<Longrightarrow> f = g"
  using allowed_keys_distinct by (metis eq_key_imp_eq_value)

lemma update_row: "map_of (AList.update k v xs) x = (if x = k then Some v else map_of xs x)"
  by (simp add: update_conv')

lemma repo_rows_distinct:
  "distinct (map fst (rows db)) \<Longrightarrow> distinct (map fst (rows (snd (repo_set db k v))))"
  "distinct (map fst (rows db)) \<Longrightarrow> distinct (map fst (rows (snd (repo_remove db k))))"
  by (auto simp: repo_set_def repo_remove_def distinct_update distinct_delete split: option.splits)

lemma config_set_ok:
  assumes "settings_ok db"
  shows "settings_ok (snd (config_set db key v))"
proof (cases "key \<in> set (map fst ALLOWED_KEYS)")
  case True
  then obtain f where f: "(key, f) \<in> set ALLOWED_KEYS" by auto
  have "values_ok (snd (config_set db key v))"
    using assms by (auto simp: config_set_valid [OF f] settings_ok_def values_ok_def repo_set_def update_row
      dest: allowed_unique [OF f] simp del: map_of_eq_Some_iff split: option.splits if_splits)
  with assms repo_rows_distinct(1) [of db key v] show ?thesis by (auto simp: settings_ok_def config_set_valid [OF f])
qed (simp add: assms config_set_unknown)

lemma set_secret_ok:
  assumes "settings_ok db" "key \<notin> set (map fst ALLOWED_KEYS)"
  shows "settings_ok (snd (set_secret db key v))"
proof -
  have "k \<noteq> key" if "(k, f) \<in> set ALLOWED_KEYS" for k f using assms(2) that by force
  then have "values_ok (snd (set_secret db key v))"
    using assms(1) by (auto simp: set_secret_def repo_set_def settings_ok_def values_ok_def update_row
      simp del: map_of_eq_Some_iff split: option.splits if_splits)
  with assms(1) repo_rows_distinct(1) [of db key v] show ?thesis by (auto simp: settings_ok_def set_secret_def)
qed

lemma repo_remove_ok: "settings_ok db \<Longrightarrow> settings_ok (snd (repo_remove db key))"
  using repo_rows_distinct(2) [of db key]
  by (auto simp: settings_ok_def values_ok_def repo_remove_def delete_conv' simp del: map_of_eq_Some_iff
      split: option.splits if_splits)

lemma config_new_ok: "settings_ok db \<Longrightarrow> settings_ok (config_new db)"
  by (simp add: config_new_def RETIRED_KEYS_def repo_remove_ok)

text \<open>A snapshot is the stored rows of the allowed keys, and never shows the API key.\<close>

lemma snapshot_rows:
  "snapshot db = Inr shown \<Longrightarrow> set shown = {(k, v) \<in> set (rows db). k \<in> set (map fst ALLOWED_KEYS)}"
  by (auto simp: snapshot_def repo_all_def result_inv split: option.splits)

lemma snapshot_hides_key: "snapshot db = Inr shown \<Longrightarrow> KEY_AI_API_KEY \<notin> fst ` set shown"
  using api_key_not_allowed by (force simp: snapshot_rows)

text \<open>What can happen to the table: a setting or the API key is written, the application starts, the disk fails or recovers.\<close>

datatype settings_call = Write_Setting ustring ustring | Write_Api_Key ustring | Start_Up | Disk "ustring option"

fun settings_step :: "settings_db \<Rightarrow> settings_call \<Rightarrow> settings_db" where
  "settings_step db (Write_Setting key v) = snd (config_set db key v)"
| "settings_step db (Write_Api_Key v) = snd (set_secret db KEY_AI_API_KEY v)"
| "settings_step db Start_Up = config_new db"
| "settings_step db (Disk e) = db\<lparr>failure := e\<rparr>"

lemma disk_ok [simp]: "settings_ok (db\<lparr>failure := e\<rparr>) = settings_ok db"
  by (simp add: settings_ok_def values_ok_def)

lemma settings_calls_ok: "settings_ok db \<Longrightarrow> settings_ok (foldl settings_step db calls)"
proof (induction calls arbitrary: db)
  case (Cons c calls)
  have "settings_ok (settings_step db c)"
    using config_set_ok set_secret_ok [OF _ api_key_not_allowed] config_new_ok Cons.prems by (cases c) auto
  with Cons.IH show ?case by simp
qed simp

lemma snapshot_values:
  assumes "settings_ok db" "snapshot db = Inr shown" "(k, v) \<in> set shown"
  shows "\<exists>f. (k, f) \<in> set ALLOWED_KEYS \<and> f v"
proof -
  from assms(2,3) have kv: "(k, v) \<in> set (rows db)" "k \<in> set (map fst ALLOWED_KEYS)" by (auto simp: snapshot_rows)
  then have row: "map_of (rows db) k = Some v" using assms(1) by (auto simp: settings_ok_def)
  from kv(2) obtain f where f: "(k, f) \<in> set ALLOWED_KEYS" by auto
  with row assms(1) have "f v" unfolding settings_ok_def values_ok_def by blast
  with f show ?thesis by blast
qed

lemma set_then_get:
  assumes "config_set db key v = (Inr (), db')"
  shows "config_get db' key d = Inr v"
proof -
  have "key \<in> set (map fst ALLOWED_KEYS)"
    using assms check_key_allowed_iff [of key] by (auto simp: config_set_def split: sum.splits)
  then obtain f where f: "(key, f) \<in> set ALLOWED_KEYS" by auto
  then have "failure db' = None" "map_of (rows db') key = Some v"
    using assms by (auto simp: config_set_valid [OF f] repo_set_def update_row split: option.splits if_splits)
  with config_get_allowed [OF f] show ?thesis by simp
qed

text \<open>
  Where the validators let more through than they say: port 0, and a plain-text remote address whose
  host only begins like the local one.
\<close>

lemma port_zero_accepted: "is_valid_port (lit ''0'')"
  by (simp add: is_valid_port_def parse_unsigned_def to_digit_def)

lemma remote_plain_url_accepted: "is_valid_ai_base_url (lit ''http://localhost.example.org/v1'')"
proof -
  have t: "trim (lit ''http://localhost.example.org/v1'') = lit ''http://localhost.example.org/v1''"
    by (rule trim_ends) (simp_all add: is_whitespace_def)
  show ?thesis
    unfolding is_valid_ai_base_url_def t Let_def by (simp add: to_ascii_lower_def is_ascii_upper_def starts_with_iff)
qed

end
