(* ===== verification/Rust_Path.thy ===== *)
theory Rust_Path
  imports Rust_Str
begin

text \<open>
  Searching strings at any place and at the end, and the paths of \<open>std::path\<close>: texts that are compared
  and taken apart by their components. Paths are texts of valid characters here.
\<close>

section \<open>Strings\<close>

definition str_contains :: "'a list \<Rightarrow> 'a list \<Rightarrow> bool" where
  "str_contains s p \<longleftrightarrow> split_once p s \<noteq> None"

definition strip_suffix :: "'a list \<Rightarrow> 'a list \<Rightarrow> 'a list option" where
  "strip_suffix p s = map_option rev (strip_prefix (rev p) (rev s))"

definition ends_with :: "'a list \<Rightarrow> 'a list \<Rightarrow> bool" where
  "ends_with s p \<longleftrightarrow> strip_suffix p s \<noteq> None"

lemma strip_suffix_iff: "strip_suffix p s = Some r \<longleftrightarrow> s = r @ p"
  unfolding strip_suffix_def by (auto simp: strip_prefix_iff) (metis rev_append rev_rev_ident)

lemma ends_with_iff: "ends_with s p \<longleftrightarrow> (\<exists>r. s = r @ p)"
  by (auto simp: ends_with_def strip_suffix_iff)

lemma split_once_complete: "split_once p (u @ p @ v) \<noteq> None"
proof (induction u)
  case Nil
  have "split_once p s \<noteq> None" if "strip_prefix p s \<noteq> None" for s :: "'a list"
    using that by (cases s; cases p) auto
  then show ?case by simp
qed (auto split: option.splits)

lemma str_contains_iff: "str_contains s p \<longleftrightarrow> (\<exists>u v. s = u @ p @ v)"
proof
  assume "str_contains s p"
  then obtain x where "split_once p s = Some x" by (auto simp: str_contains_def)
  then show "\<exists>u v. s = u @ p @ v" by (cases x) (auto dest: split_once_Some)
qed (use split_once_complete in \<open>auto simp: str_contains_def simp del: not_None_eq\<close>)

section \<open>Paths\<close>

text \<open>
  The components of an absolute path as \<open>std::path\<close> has them: repeated slashes and \<open>.\<close> do not count.
  \<open>absolute_parent\<close> is the text of \<open>Path::parent\<close>: skipped components are trimmed on both sides of
  the one removed. It is only used on absolute paths; a relative one never is in the staging tree.
\<close>

definition skipped :: "ustring \<Rightarrow> bool" where
  "skipped s \<longleftrightarrow> s = [] \<or> s = (lit ''.'')"

definition components :: "ustring \<Rightarrow> ustring list" where
  "components path = filter (\<lambda>s. \<not> skipped s) (split_pred (\<lambda>c. c = 47) path)"

definition absolute_parent :: "ustring \<Rightarrow> ustring option" where
  "absolute_parent path =
     (case trim_end_with skipped (split_pred (\<lambda>c. c = 47) (tl path)) of
        [] \<Rightarrow> None
      | segs \<Rightarrow> Some (47 # join [47] (trim_end_with skipped (butlast segs))))"

definition is_absolute :: "ustring \<Rightarrow> bool" where
  "is_absolute path \<longleftrightarrow> starts_with path [47]"

text \<open>\<open>Path::starts_with\<close> of absolute paths, \<open>PathBuf::push\<close> of a name, and \<open>Path::file_name\<close>.\<close>

definition path_starts_with :: "ustring \<Rightarrow> ustring \<Rightarrow> bool" where
  "path_starts_with path root \<longleftrightarrow> is_absolute path \<and> is_absolute root \<and> strip_prefix (components root) (components path) \<noteq> None"

definition path_join :: "ustring \<Rightarrow> ustring \<Rightarrow> ustring" where
  "path_join dir name = (if ends_with dir [47] then dir @ name else dir @ [47] @ name)"

definition file_name :: "ustring \<Rightarrow> ustring option" where
  "file_name path = (case rev (components path) of [] \<Rightarrow> None | c # _ \<Rightarrow> if c = (lit ''..'') then None else Some c)"

text \<open>The absolute path of a list of components.\<close>

definition path_from :: "ustring list \<Rightarrow> ustring" where
  "path_from names = foldl path_join [47] names"

end
