(* ===== verification/Plugin_Tree.thy ===== *)
theory Plugin_Tree
  imports Config_Service Rust_Path "HOL-Library.Sublist"
begin

text \<open>
  Directory trees, and the calls of \<open>std::fs\<close> on them that the plugin manager makes. Every call takes one
  entry off a schedule that says how long it takes and whether it fails; an interrupted removal or copy leaves
  anything below its own path. Symbolic links are left out: a path leads to one place.
\<close>

section \<open>Trees\<close>

datatype node = File bytes u32 | Dir "(ustring \<times> node) list"

type_synonym path = "ustring list"

fun node_at :: "path \<Rightarrow> node \<Rightarrow> node option" where
  "node_at [] n = Some n"
| "node_at (c # cs) (File b m) = None"
| "node_at (c # cs) (Dir es) = (case map_of es c of None \<Rightarrow> None | Some n \<Rightarrow> node_at cs n)"

text \<open>Putting a tree at a path, or taking away what is there; the parent has to be a directory.\<close>

fun set_at :: "path \<Rightarrow> node option \<Rightarrow> node \<Rightarrow> node" where
  "set_at [] v n = (case v of None \<Rightarrow> n | Some x \<Rightarrow> x)"
| "set_at (c # cs) v (File b m) = File b m"
| "set_at (c # cs) v (Dir es) =
     (if cs = [] then Dir (case v of None \<Rightarrow> AList.delete c es | Some x \<Rightarrow> AList.update c x es)
      else case map_of es c of None \<Rightarrow> Dir es | Some n \<Rightarrow> Dir (AList.update c (set_at cs v n) es))"

definition dir_at :: "path \<Rightarrow> node \<Rightarrow> bool" where
  "dir_at p t \<longleftrightarrow> (case node_at p t of Some (Dir _) \<Rightarrow> True | _ \<Rightarrow> False)"

definition file_at :: "path \<Rightarrow> node \<Rightarrow> bool" where
  "file_at p t \<longleftrightarrow> (case node_at p t of Some (File _ _) \<Rightarrow> True | _ \<Rightarrow> False)"

lemma dir_at_iff: "dir_at p t \<longleftrightarrow> (\<exists>es. node_at p t = Some (Dir es))"
  by (auto simp: dir_at_def split: option.splits node.splits)

lemma file_at_iff: "file_at p t \<longleftrightarrow> (\<exists>b m. node_at p t = Some (File b m))"
  by (auto simp: file_at_def split: option.splits node.splits)

definition apart :: "path \<Rightarrow> path \<Rightarrow> bool" where
  "apart p q \<longleftrightarrow> \<not> prefix p q \<and> \<not> prefix q p"

lemma apart_sym: "apart p q \<longleftrightarrow> apart q p"
  by (auto simp: apart_def)

lemma apart_Cons: "apart (c # p) (d # q) \<longleftrightarrow> c \<noteq> d \<or> apart p q"
  by (auto simp: apart_def)

lemma apart_below: "apart p q \<Longrightarrow> apart (p @ r) q" "apart p q \<Longrightarrow> apart p (q @ r)"
proof -
  have "apart (p @ r) q" if "apart p q" for p q :: path
  proof -
    have "prefix p q \<or> prefix q p" if "prefix q (p @ r)"
      using prefix_same_cases [OF that, of p] by auto
    with \<open>apart p q\<close> show ?thesis by (auto simp: apart_def dest: append_prefixD)
  qed
  then show "apart p q \<Longrightarrow> apart (p @ r) q" "apart p q \<Longrightarrow> apart p (q @ r)" using apart_sym by blast+
qed

lemma apart_root [simp]: "apart (r @ p) (r @ q) \<longleftrightarrow> apart p q"
  by (simp add: apart_def)

lemma node_at_append: "node_at (p @ q) t = Option.bind (node_at p t) (node_at q)"
  by (induction p t rule: node_at.induct) (auto split: option.split)

lemma set_at_other: "apart p q \<Longrightarrow> node_at q (set_at p v t) = node_at q t"
proof (induction p v t arbitrary: q rule: set_at.induct)
  case (3 c cs v es)
  then obtain d ds where q: "q = d # ds" by (cases q) (auto simp: apart_def)
  show ?case
  proof (cases "c = d")
    case False
    with q show ?thesis by (auto simp: update_conv' delete_conv' split: option.split)
  next
    case True
    with 3(2) q have "apart cs ds" by (simp add: apart_Cons)
    with 3(1) True q show ?thesis by (cases "cs = []") (auto simp: apart_def update_conv' split: option.split)
  qed
qed (auto simp: apart_def)

lemma set_at_cut: "p \<noteq> [] \<Longrightarrow> node_at p (set_at p None t) = None"
proof (induction p "None :: node option" t rule: set_at.induct)
  case (3 c cs es)
  then show ?case by (cases "cs = []") (auto simp: delete_conv' update_conv' split: option.split)
qed auto

lemma set_at_cut_below: "p \<noteq> [] \<Longrightarrow> node_at (p @ q) (set_at p None t) = None"
  by (simp add: node_at_append set_at_cut)

lemma set_at_put: "p = [] \<or> dir_at (butlast p) t \<Longrightarrow> node_at p (set_at p (Some x) t) = Some x"
proof (induction p "Some x" t rule: set_at.induct)
  case (2 c cs b m)
  then show ?case by (cases cs) (auto simp: dir_at_iff)
next
  case (3 c cs es)
  show ?case
  proof (cases "cs = []")
    case False
    with 3(2) obtain n where n: "map_of es c = Some n" "dir_at (butlast cs) n"
      by (auto simp: dir_at_iff split: option.splits)
    with 3(1) False show ?thesis by (simp add: update_conv')
  qed (simp add: update_conv')
qed auto

lemma set_at_put_below: "p = [] \<or> dir_at (butlast p) t \<Longrightarrow> node_at (p @ q) (set_at p (Some x) t) = node_at q x"
  by (simp add: node_at_append set_at_put)

lemma set_at_keeps_dir: "\<not> prefix p q \<Longrightarrow> dir_at q t \<Longrightarrow> dir_at q (set_at p v t)"
proof (induction p v t arbitrary: q rule: set_at.induct)
  case (3 c cs v es)
  show ?case
  proof (cases q)
    case (Cons d ds)
    show ?thesis
    proof (cases "c = d")
      case True
      with 3(2) Cons have "\<not> prefix cs ds" by simp
      then have "cs \<noteq> []" by auto
      with 3(1,3) True Cons \<open>\<not> prefix cs ds\<close> show ?thesis
        by (fastforce simp: dir_at_iff update_conv' split: option.splits)
    qed (use 3 Cons in \<open>auto simp: dir_at_iff update_conv' delete_conv' split: option.splits\<close>)
  qed (auto simp: dir_at_iff split: option.split)
qed (auto simp: dir_at_iff)

fun make_dirs :: "path \<Rightarrow> node \<Rightarrow> node option" where
  "make_dirs p (File b m) = None"
| "make_dirs [] (Dir es) = Some (Dir es)"
| "make_dirs (c # cs) (Dir es) =
     map_option (\<lambda>n. Dir (AList.update c n es)) (make_dirs cs (case map_of es c of None \<Rightarrow> Dir [] | Some n \<Rightarrow> n))"

lemma make_dirs_dir: "make_dirs p t = Some t' \<Longrightarrow> dir_at p t'"
  by (induction p t arbitrary: t' rule: make_dirs.induct) (auto simp: dir_at_iff update_conv')

lemma make_dirs_other: "make_dirs p t = Some t' \<Longrightarrow> \<not> prefix q p \<Longrightarrow> node_at q t' = node_at q t"
proof (induction p t arbitrary: t' q rule: make_dirs.induct)
  case (3 c cs es)
  then obtain n where n: "make_dirs cs (case map_of es c of None \<Rightarrow> Dir [] | Some n \<Rightarrow> n) = Some n" "t' = Dir (AList.update c n es)" by auto
  from 3(3) obtain d ds where q: "q = d # ds" by (cases q) auto
  show ?case
  proof (cases "c = d")
    case True
    with 3(3) q have ds: "\<not> prefix ds cs" by simp
    then obtain e es' where "ds = e # es'" by (cases ds) auto
    with 3(1) [OF n(1) ds] True q n(2) show ?thesis by (auto simp: update_conv' split: option.splits)
  next
    case False
    with q n(2) show ?thesis by (simp add: update_conv')
  qed
qed auto

lemma make_dirs_keeps_dir: "make_dirs p t = Some t' \<Longrightarrow> dir_at q t \<Longrightarrow> dir_at q t'"
proof (induction p t arbitrary: t' q rule: make_dirs.induct)
  case (3 c cs es)
  then obtain n where n: "make_dirs cs (case map_of es c of None \<Rightarrow> Dir [] | Some n \<Rightarrow> n) = Some n" "t' = Dir (AList.update c n es)" by auto
  show ?case
  proof (cases q)
    case (Cons d ds)
    show ?thesis
    proof (cases "c = d")
      case True
      with 3(1) [OF n(1), of ds] 3(3) Cons n(2) show ?thesis by (auto simp: dir_at_iff update_conv' split: option.splits)
    qed (use 3(3) Cons n(2) in \<open>auto simp: dir_at_iff update_conv'\<close>)
  qed (use n(2) in \<open>simp add: dir_at_iff\<close>)
qed auto

text \<open>What a path text adds to a path: an absolute one replaces it, and the kernel follows \<open>..\<close> to the parent.\<close>

definition path_step :: "path \<Rightarrow> ustring \<Rightarrow> path" where
  "path_step p c = (if skipped c then p else if c = (lit ''..'') then butlast p else p @ [c])"

definition resolve :: "path \<Rightarrow> ustring \<Rightarrow> path" where
  "resolve p s = foldl path_step (if starts_with s [47] then [] else p) (split_pred (\<lambda>c. c = 47) s)"

definition plain_name :: "ustring \<Rightarrow> bool" where
  "plain_name s \<longleftrightarrow> 47 \<notin> set s \<and> s \<noteq> [] \<and> s \<noteq> (lit ''.'') \<and> s \<noteq> (lit ''..'')"

lemma resolve_plain: "plain_name s \<Longrightarrow> resolve p s = p @ [s]"
proof -
  assume s: "plain_name s"
  then have "split_pred (\<lambda>c. c = 47) s = [s]" by (intro split_pred_none) (auto simp: plain_name_def)
  moreover have "\<not> starts_with s [47]" using s by (auto simp: plain_name_def starts_with_iff)
  ultimately show ?thesis using s by (simp add: resolve_def path_step_def plain_name_def skipped_def)
qed

definition path_text :: "path \<Rightarrow> ustring" where
  "path_text p = (if p = [] then (lit ''/'') else concat (map (\<lambda>c. 47 # c) p))"

section \<open>The calls\<close>

datatype fs_error = Fs_Not_Found | Fs_Not_Empty | Fs_Not_Directory | Fs_Is_Directory | Fs_Invalid | Fs_Invalid_Data | Fs_Other ustring

text \<open>One entry of the schedule: the milliseconds a call takes, and the error of a failing one with what an interrupted removal or copy leaves.\<close>

datatype tick = Tick nat "(fs_error \<times> node option) option"

record disk =
  w_tree :: node
  w_now :: nat
  w_ticks :: "tick list"

type_synonym ('s, 'e, 'a) act = "'s \<Rightarrow> ('e + 'a) \<times> 's"
type_synonym ('e, 'a) io = "(disk, 'e, 'a) act"

definition io_return :: "'a \<Rightarrow> ('s, 'e, 'a) act" where "io_return x w = (Inr x, w)"
definition io_fail :: "'e \<Rightarrow> ('s, 'e, 'a) act" where "io_fail e w = (Inl e, w)"
definition io_lift :: "'e + 'a \<Rightarrow> ('s, 'e, 'a) act" where "io_lift r w = (r, w)"

definition io_bind :: "('s, 'e, 'a) act \<Rightarrow> ('a \<Rightarrow> ('s, 'e, 'b) act) \<Rightarrow> ('s, 'e, 'b) act" where
  "io_bind m f w = (case m w of (Inl e, w') \<Rightarrow> (Inl e, w') | (Inr x, w') \<Rightarrow> f x w')"

definition io_err :: "('e \<Rightarrow> 'f) \<Rightarrow> ('s, 'e, 'a) act \<Rightarrow> ('s, 'f, 'a) act" where
  "io_err f m w = (case m w of (r, w') \<Rightarrow> (rmap_err f r, w'))"

text \<open>Going on whatever the result is, and looking at the state without a call that can fail.\<close>

definition io_try :: "('s, 'e, 'a) act \<Rightarrow> ('s, 'f, 'e + 'a) act" where
  "io_try m w = (case m w of (r, w') \<Rightarrow> (Inr r, w'))"

definition io_look :: "('s \<Rightarrow> 'b) \<Rightarrow> ('b \<Rightarrow> ('s, 'e, 'a) act) \<Rightarrow> ('s, 'e, 'a) act" where
  "io_look f m w = m (f w) w"

definition next_tick :: "disk \<Rightarrow> (fs_error \<times> node option) option \<times> disk" where
  "next_tick w = (case w_ticks w of [] \<Rightarrow> (None, w) | Tick n f # ts \<Rightarrow> (f, w\<lparr>w_now := w_now w + n, w_ticks := ts\<rparr>))"

definition std_call :: "(node \<Rightarrow> fs_error + node \<times> 'a) \<Rightarrow> (node option \<Rightarrow> node \<Rightarrow> node) \<Rightarrow> (fs_error, 'a) io" where
  "std_call act interrupted w =
     (case next_tick w of
        (None, w') \<Rightarrow> (case act (w_tree w') of Inl e \<Rightarrow> (Inl e, w') | Inr (t, x) \<Rightarrow> (Inr x, w'\<lparr>w_tree := t\<rparr>))
      | (Some (e, rest), w') \<Rightarrow> (Inl e, w'\<lparr>w_tree := interrupted rest (w_tree w')\<rparr>))"

definition untouched_tree :: "node option \<Rightarrow> node \<Rightarrow> node" where
  "untouched_tree rest t = t"

definition left_at :: "path \<Rightarrow> node option \<Rightarrow> node \<Rightarrow> node" where
  "left_at p rest t = (case rest of None \<Rightarrow> t | Some x \<Rightarrow> set_at p (Some x) t)"

definition std_read :: "path \<Rightarrow> (fs_error, bytes) io" where
  "std_read p = std_call (\<lambda>t. case node_at p t of
       None \<Rightarrow> Inl Fs_Not_Found | Some (Dir _) \<Rightarrow> Inl Fs_Is_Directory | Some (File b _) \<Rightarrow> Inr (t, b)) untouched_tree"

definition std_read_text :: "path \<Rightarrow> (fs_error, ustring) io" where
  "std_read_text p = io_bind (std_read p) (\<lambda>b. io_lift (case from_utf8 b of None \<Rightarrow> Inl Fs_Invalid_Data | Some s \<Rightarrow> Inr s))"

definition std_mode :: "path \<Rightarrow> (fs_error, u32) io" where
  "std_mode p = std_call (\<lambda>t. case node_at p t of
       None \<Rightarrow> Inl Fs_Not_Found | Some (Dir _) \<Rightarrow> Inr (t, 0x41ed) | Some (File _ m) \<Rightarrow> Inr (t, m)) untouched_tree"

definition std_list :: "path \<Rightarrow> (fs_error, ustring list) io" where
  "std_list p = std_call (\<lambda>t. case node_at p t of
       None \<Rightarrow> Inl Fs_Not_Found | Some (File _ _) \<Rightarrow> Inl Fs_Not_Directory | Some (Dir es) \<Rightarrow> Inr (t, map fst es)) untouched_tree"

definition std_make_dirs :: "path \<Rightarrow> (fs_error, unit) io" where
  "std_make_dirs p = std_call (\<lambda>t. case make_dirs p t of None \<Rightarrow> Inl Fs_Not_Directory | Some t' \<Rightarrow> Inr (t', ())) untouched_tree"

definition std_remove_all :: "path \<Rightarrow> (fs_error, unit) io" where
  "std_remove_all p = std_call (\<lambda>t. case node_at p t of
       None \<Rightarrow> Inl Fs_Not_Found | Some (File _ _) \<Rightarrow> Inl Fs_Not_Directory
     | Some (Dir _) \<Rightarrow> Inr (set_at p None t, ())) (left_at p)"

text \<open>What may be replaced by a renamed tree: nothing, an empty directory by a directory, a file by a file.\<close>

fun replaces :: "node \<Rightarrow> node option \<Rightarrow> fs_error option" where
  "replaces x None = None"
| "replaces (Dir _) (Some (Dir es)) = (if es = [] then None else Some Fs_Not_Empty)"
| "replaces (Dir _) (Some (File _ _)) = Some Fs_Not_Directory"
| "replaces (File _ _) (Some (Dir _)) = Some Fs_Is_Directory"
| "replaces (File _ _) (Some (File _ _)) = None"

definition rename_tree :: "path \<Rightarrow> path \<Rightarrow> node \<Rightarrow> fs_error + node \<times> unit" where
  "rename_tree a b t =
     (case node_at a t of
        None \<Rightarrow> Inl Fs_Not_Found
      | Some x \<Rightarrow>
          if a = b then Inr (t, ())
          else if prefix a b then Inl Fs_Invalid
          else if \<not> dir_at (butlast b) t then Inl (if node_at (butlast b) t = None then Fs_Not_Found else Fs_Not_Directory)
          else (case replaces x (node_at b t) of
              Some e \<Rightarrow> Inl e
            | None \<Rightarrow> if prefix b a then Inl Fs_Not_Empty else Inr (set_at b (Some x) (set_at a None t), ())))"

definition std_rename :: "path \<Rightarrow> path \<Rightarrow> (fs_error, unit) io" where
  "std_rename a b = std_call (rename_tree a b) untouched_tree"

text \<open>Copying a directory into another: what is there already is merged with.\<close>

fun merge_node :: "node \<Rightarrow> node option \<Rightarrow> fs_error + node" and
  merge_entries :: "(ustring \<times> node) list \<Rightarrow> (ustring \<times> node) list \<Rightarrow> fs_error + (ustring \<times> node) list" where
  "merge_node (File b m) old = (case old of Some (Dir _) \<Rightarrow> Inl Fs_Is_Directory | _ \<Rightarrow> Inr (File b m))"
| "merge_node (Dir es) old =
     (case old of
        None \<Rightarrow> rmap Dir (merge_entries es [])
      | Some (Dir there) \<Rightarrow> rmap Dir (merge_entries es there)
      | Some (File _ _) \<Rightarrow> Inl Fs_Not_Directory)"
| "merge_entries [] there = Inr there"
| "merge_entries ((c, n) # es) there = rbind (merge_node n (map_of there c)) (\<lambda>n'. merge_entries es (AList.update c n' there))"

definition copy_tree :: "path \<Rightarrow> path \<Rightarrow> node \<Rightarrow> fs_error + node \<times> unit" where
  "copy_tree a b t =
     (case make_dirs b t of
        None \<Rightarrow> Inl Fs_Not_Directory
      | Some t' \<Rightarrow>
          (case node_at a t' of
             None \<Rightarrow> Inl Fs_Not_Found
           | Some (File _ _) \<Rightarrow> Inl Fs_Not_Directory
           | Some (Dir es) \<Rightarrow> rbind (merge_node (Dir es) (node_at b t')) (\<lambda>n. Inr (set_at b (Some n) t', ()))))"

definition copy_dir_recursive :: "path \<Rightarrow> path \<Rightarrow> (fs_error, unit) io" where
  "copy_dir_recursive a b = std_call (copy_tree a b) (left_at b)"

section \<open>What a call leaves alone\<close>

named_theorems keeping \<open>paths that an action leaves as they are\<close>

definition keeps :: "path \<Rightarrow> ('e, 'a) io \<Rightarrow> bool" where
  "keeps q m \<longleftrightarrow> (\<forall>w r w'. m w = (r, w') \<longrightarrow> node_at q (w_tree w') = node_at q (w_tree w))"

definition keeps_dir :: "path \<Rightarrow> ('e, 'a) io \<Rightarrow> bool" where
  "keeps_dir q m \<longleftrightarrow> (\<forall>w r w'. m w = (r, w') \<longrightarrow> dir_at q (w_tree w) \<longrightarrow> dir_at q (w_tree w'))"

lemma keepsD: "keeps q m \<Longrightarrow> m w = (r, w') \<Longrightarrow> node_at q (w_tree w') = node_at q (w_tree w)"
  by (auto simp: keeps_def)

lemma keeps_dirD: "keeps_dir q m \<Longrightarrow> m w = (r, w') \<Longrightarrow> dir_at q (w_tree w) \<Longrightarrow> dir_at q (w_tree w')"
  by (auto simp: keeps_dir_def)

lemma keeps_io [keeping]:
  "keeps q (io_return x)" "keeps q (io_fail e)" "keeps q (io_lift r)"
  "keeps q m \<Longrightarrow> (\<And>x. keeps q (f x)) \<Longrightarrow> keeps q (io_bind m f)"
  "keeps q m \<Longrightarrow> keeps q (io_err g m)" "keeps q m \<Longrightarrow> keeps q (io_try m)"
  "(\<And>x. keeps q (h x)) \<Longrightarrow> keeps q (io_look v h)"
  by (auto simp: keeps_def io_return_def io_fail_def io_lift_def io_bind_def io_err_def io_try_def io_look_def
      split: prod.splits sum.splits)

lemma keeps_dir_io [keeping]:
  "keeps_dir q (io_return x)" "keeps_dir q (io_fail e)" "keeps_dir q (io_lift r)"
  "keeps_dir q m \<Longrightarrow> (\<And>x. keeps_dir q (f x)) \<Longrightarrow> keeps_dir q (io_bind m f)"
  "keeps_dir q m \<Longrightarrow> keeps_dir q (io_err g m)" "keeps_dir q m \<Longrightarrow> keeps_dir q (io_try m)"
  "(\<And>x. keeps_dir q (h x)) \<Longrightarrow> keeps_dir q (io_look v h)"
  by (auto simp: keeps_dir_def io_return_def io_fail_def io_lift_def io_bind_def io_err_def io_try_def io_look_def
      split: prod.splits sum.splits)

lemma keeps_split [keeping]:
  "keeps q m \<Longrightarrow> keeps q n \<Longrightarrow> keeps q (if b then m else n)"
  "keeps q m \<Longrightarrow> (\<And>x. keeps q (f x)) \<Longrightarrow> keeps q (case z of None \<Rightarrow> m | Some x \<Rightarrow> f x)"
  "(\<And>e. keeps q (g e)) \<Longrightarrow> (\<And>x. keeps q (f x)) \<Longrightarrow> keeps q (case r of Inl e \<Rightarrow> g e | Inr x \<Rightarrow> f x)"
  by (auto split: option.split sum.split)

lemma keeps_dir_split [keeping]:
  "keeps_dir q m \<Longrightarrow> keeps_dir q n \<Longrightarrow> keeps_dir q (if b then m else n)"
  "keeps_dir q m \<Longrightarrow> (\<And>x. keeps_dir q (f x)) \<Longrightarrow> keeps_dir q (case z of None \<Rightarrow> m | Some x \<Rightarrow> f x)"
  "(\<And>e. keeps_dir q (g e)) \<Longrightarrow> (\<And>x. keeps_dir q (f x)) \<Longrightarrow> keeps_dir q (case r of Inl e \<Rightarrow> g e | Inr x \<Rightarrow> f x)"
  by (auto split: option.split sum.split)

lemma next_tick_tree: "next_tick w = (f, w') \<Longrightarrow> w_tree w' = w_tree w"
  by (auto simp: next_tick_def split: list.splits tick.splits)

text \<open>A call ends with its result, or with an error and what the interruption leaves.\<close>

lemma std_call_ends:
  "std_call act interrupted w = (r, w') \<Longrightarrow>
     (\<exists>t x. act (w_tree w) = Inr (t, x) \<and> r = Inr x \<and> w_tree w' = t) \<or>
     (\<exists>e. act (w_tree w) = Inl e \<and> r = Inl e \<and> w_tree w' = w_tree w) \<or>
     (\<exists>e rest. r = Inl e \<and> w_tree w' = interrupted rest (w_tree w))"
  by (auto simp: std_call_def dest!: next_tick_tree split: prod.splits option.splits sum.splits)

lemma std_call_keeps:
  assumes "\<And>t t' x. act t = Inr (t', x) \<Longrightarrow> node_at q t' = node_at q t" "\<And>rest t. node_at q (interrupted rest t) = node_at q t"
  shows "keeps q (std_call act interrupted)"
  unfolding keeps_def by (intro allI impI, drule std_call_ends) (auto dest: assms(1) simp: assms(2))

lemma std_call_keeps_dir:
  assumes "\<And>t t' x. act t = Inr (t', x) \<Longrightarrow> dir_at q t \<Longrightarrow> dir_at q t'" "\<And>rest t. dir_at q t \<Longrightarrow> dir_at q (interrupted rest t)"
  shows "keeps_dir q (std_call act interrupted)"
  unfolding keeps_dir_def by (intro allI impI, drule std_call_ends) (auto dest: assms(1) simp: assms(2))

lemma keeps_reading [keeping]:
  "keeps q (std_read p)" "keeps q (std_read_text p)" "keeps q (std_mode p)" "keeps q (std_list p)"
  "keeps_dir q (std_read p)" "keeps_dir q (std_read_text p)" "keeps_dir q (std_mode p)" "keeps_dir q (std_list p)"
proof -
  show r: "keeps q (std_read p)" "keeps_dir q (std_read p)"
    unfolding std_read_def by (rule std_call_keeps std_call_keeps_dir; auto simp: untouched_tree_def split: option.splits node.splits)+
  show "keeps q (std_read_text p)" "keeps_dir q (std_read_text p)"
    unfolding std_read_text_def by (intro keeping r)+
  show "keeps q (std_mode p)" "keeps_dir q (std_mode p)"
    unfolding std_mode_def by (rule std_call_keeps std_call_keeps_dir; auto simp: untouched_tree_def split: option.splits node.splits)+
  show "keeps q (std_list p)" "keeps_dir q (std_list p)"
    unfolding std_list_def by (rule std_call_keeps std_call_keeps_dir; auto simp: untouched_tree_def split: option.splits node.splits)+
qed

lemma keeps_make_dirs [keeping]:
  "\<not> prefix q p \<Longrightarrow> keeps q (std_make_dirs p)" "keeps_dir q (std_make_dirs p)"
  unfolding std_make_dirs_def
  by (rule std_call_keeps std_call_keeps_dir; auto simp: untouched_tree_def make_dirs_other intro: make_dirs_keeps_dir split: option.splits)+

lemma keeps_remove [keeping]:
  "apart p q \<Longrightarrow> keeps q (std_remove_all p)" "\<not> prefix p q \<Longrightarrow> keeps_dir q (std_remove_all p)"
  unfolding std_remove_all_def
  by (rule std_call_keeps std_call_keeps_dir;
      auto simp: left_at_def set_at_other intro: set_at_keeps_dir split: option.splits node.splits)+

lemma rename_tree_ok:
  assumes "rename_tree a b t = Inr (t', u)"
  shows "\<exists>x. node_at a t = Some x \<and> node_at b t' = Some x \<and> (a = b \<and> t' = t \<or> apart a b \<and> t' = set_at b (Some x) (set_at a None t))"
proof -
  from assms obtain x where x: "node_at a t = Some x" by (auto simp: rename_tree_def split: option.splits)
  show ?thesis
  proof (cases "a = b")
    case True
    with assms x show ?thesis by (simp add: rename_tree_def)
  next
    case False
    with assms x have s: "apart a b" "dir_at (butlast b) t" "t' = set_at b (Some x) (set_at a None t)"
      by (auto simp: rename_tree_def apart_def split: if_splits option.splits)
    have "\<not> prefix a (butlast b)" using s(1) by (auto simp: apart_def dest: prefix_order.trans [OF _ prefixeq_butlast])
    with s(2) have "dir_at (butlast b) (set_at a None t)" by (intro set_at_keeps_dir)
    with s x show ?thesis by (simp add: set_at_put)
  qed
qed

lemma keeps_rename [keeping]:
  "apart a q \<Longrightarrow> apart b q \<Longrightarrow> keeps q (std_rename a b)" "\<not> prefix a q \<Longrightarrow> \<not> prefix b q \<Longrightarrow> keeps_dir q (std_rename a b)"
  unfolding std_rename_def
  by (rule std_call_keeps std_call_keeps_dir;
      auto simp: untouched_tree_def set_at_other intro!: set_at_keeps_dir dest!: rename_tree_ok)+

lemma renamed:
  assumes "std_rename a b w = (Inr u, w')"
  shows "\<exists>x. node_at a (w_tree w) = Some x \<and> node_at b (w_tree w') = Some x"
proof -
  from std_call_ends [OF assms [unfolded std_rename_def]] have "rename_tree a b (w_tree w) = Inr (w_tree w', u)" by auto
  from rename_tree_ok [OF this] show ?thesis by blast
qed

lemma renamed_away: "std_rename a b w = (Inr u, w') \<Longrightarrow> a \<noteq> b \<Longrightarrow> node_at a (w_tree w') = None"
proof -
  assume r: "std_rename a b w = (Inr u, w')" and "a \<noteq> b"
  from std_call_ends [OF r [unfolded std_rename_def]] have "rename_tree a b (w_tree w) = Inr (w_tree w', u)" by auto
  from rename_tree_ok [OF this] \<open>a \<noteq> b\<close> obtain x where "apart a b" "w_tree w' = set_at b (Some x) (set_at a None (w_tree w))" by blast
  moreover from this have "apart b a" "a \<noteq> []" by (auto simp: apart_def)
  ultimately show ?thesis by (simp add: set_at_other set_at_cut)
qed

lemma not_renamed: "std_rename a b w = (Inl e, w') \<Longrightarrow> w_tree w' = w_tree w"
  using std_call_ends [of "rename_tree a b" untouched_tree w "Inl e" w'] by (auto simp: std_rename_def untouched_tree_def)

lemma moved_or_stayed:
  "std_rename a b w = (r, w') \<Longrightarrow> node_at a (w_tree w) = Some x \<Longrightarrow> node_at b (w_tree w') = Some x \<or> node_at a (w_tree w') = Some x"
  using renamed [of a b w _ w'] not_renamed [of a b w _ w'] by (cases r) fastforce+

lemma removed:
  assumes "std_remove_all p w = (Inr u, w')" "p \<noteq> []"
  shows "node_at p (w_tree w') = None"
proof -
  have "w_tree w' = set_at p None (w_tree w)"
    using std_call_ends [OF assms(1) [unfolded std_remove_all_def]] by (auto split: option.splits node.splits)
  with assms(2) show ?thesis by (simp add: set_at_cut)
qed

lemma keeps_copy [keeping]: "apart b q \<Longrightarrow> keeps q (copy_dir_recursive a b)"
proof -
  assume "apart b q"
  moreover from this have "\<not> prefix q b" by (simp add: apart_def)
  ultimately show ?thesis
    unfolding copy_dir_recursive_def
    by (intro std_call_keeps) (auto simp: copy_tree_def left_at_def set_at_other rbind_eq_Inr make_dirs_other split: option.splits node.splits)
qed
end
