(* ===== verification/Plugin_Manifest.thy ===== *)
theory Plugin_Manifest
  imports Rust_Str Rust_Path "HOL-Library.List_Lexorder" "HOL-Library.Product_Lexorder"
begin

text \<open>
  The manifest of a plugin (\<open>src-tauri/src/plugins/manifest.rs\<close>) and the comparison of versions
  (\<open>version_gt\<close> of \<open>plugins/install.rs\<close>), shown to be the lexicographic order of the padded_parts parts.
\<close>

section \<open>The manifest\<close>

definition HOST_ABI_VERSION :: nat where "HOST_ABI_VERSION = 1"

definition PLUGIN_TYPES :: "ustring list" where
  "PLUGIN_TYPES = [(lit ''device''), (lit ''tool''), (lit ''crypto''), (lit ''parser''), (lit ''workflow'')]"

definition TRANSPORT_IN_PROCESS :: ustring where "TRANSPORT_IN_PROCESS = (lit ''in-process'')"
definition TRANSPORT_PROCESS :: ustring where "TRANSPORT_PROCESS = (lit ''process'')"

record plugin_manifest =
  pm_id :: ustring
  pm_name :: ustring
  pm_version :: ustring
  pm_abi :: nat
  pm_type :: ustring
  pm_entry :: "(ustring \<times> ustring) list"
  pm_capabilities :: "ustring list"
  pm_transport :: "ustring option"
  pm_integrity :: "(ustring \<times> ustring) list"

datatype manifest_error =
    Empty_Field ustring
  | Bad_Id ustring
  | Abi_Mismatch nat nat
  | Unknown_Type ustring
  | Unknown_Transport ustring
  | Missing_Platform_Entry ustring
  | Path_Escape

fun manifest_error_text :: "manifest_error \<Rightarrow> ustring" where
  "manifest_error_text (Empty_Field k) = (lit ''manifest '' @ [23383, 27573, 32] @ k @ [32, 20026, 31354])"
| "manifest_error_text (Bad_Id k) = ([25554, 20214] @ lit '' id '' @ [38750, 27861, 65288, 38656] @ lit '' [a-z0-9._-]'' @ [65292, 24418, 22914] @ lit '' crypto.base64'' @ [65289, 58, 32] @ k)"
| "manifest_error_text (Abi_Mismatch got want) = (lit ''ABI '' @ [29256, 26412, 19981, 20860, 23481, 65306, 25554, 20214, 35201, 27714, 32] @ show_dec got @ [65292] @ lit ''host '' @ [25903, 25345, 32] @ show_dec want)"
| "manifest_error_text (Unknown_Type t) = ([26410, 30693, 25554, 20214, 31867, 22411, 58, 32] @ t @ [65288, 20801, 35768, 32] @ join [47] PLUGIN_TYPES @ [65289])"
| "manifest_error_text (Unknown_Transport t) = ([26410, 30693] @ lit '' transport: '' @ t @ [65288, 20801, 35768, 32] @ TRANSPORT_IN_PROCESS @ lit ''/'' @ TRANSPORT_PROCESS @ [65289])"
| "manifest_error_text (Missing_Platform_Entry p) = (lit ''manifest '' @ [32570, 23569, 24403, 21069, 24179, 21488, 20135, 29289, 58, 32] @ p)"
| "manifest_error_text Path_Escape = (lit ''manifest '' @ [20135, 29289, 36335, 24452, 36234, 20986, 25554, 20214, 30446, 24405])"

definition id_char :: "rchar \<Rightarrow> bool" where
  "id_char c \<longleftrightarrow> is_ascii_lower c \<or> is_ascii_digit c \<or> c \<in> set (lit ''._-'')"

definition is_valid_id :: "ustring \<Rightarrow> bool" where
  "is_valid_id k \<longleftrightarrow> k \<noteq> [] \<and> list_all id_char k"

definition platform_key :: "ustring \<Rightarrow> ustring \<Rightarrow> ustring" where
  "platform_key os arch =
     (let os = (if os = (lit ''macos'') then (lit ''macos'') else if os = (lit ''windows'') then (lit ''windows'') else (lit ''linux''));
          arch = (if arch = (lit ''x86_64'') then (lit ''x64'') else if arch = (lit ''aarch64'') then (lit ''arm64'') else arch)
      in (os @ lit ''-'' @ arch))"

text \<open>A relative path that may leave its directory: absolute, or with a component \<open>..\<close>.\<close>

definition escapes :: "ustring \<Rightarrow> bool" where
  "escapes rel \<longleftrightarrow> starts_with rel [47] \<or> (lit ''..'') \<in> set (split_pred (\<lambda>c. c = 47) rel)"

definition validate_manifest :: "plugin_manifest \<Rightarrow> ustring \<Rightarrow> manifest_error + unit" where
  "validate_manifest m platform =
     (if trim (pm_id m) = [] then Inl (Empty_Field (lit ''id''))
      else if \<not> is_valid_id (pm_id m) then Inl (Bad_Id (pm_id m))
      else if trim (pm_name m) = [] then Inl (Empty_Field (lit ''name''))
      else if trim (pm_version m) = [] then Inl (Empty_Field (lit ''version''))
      else if pm_abi m \<noteq> HOST_ABI_VERSION then Inl (Abi_Mismatch (pm_abi m) HOST_ABI_VERSION)
      else if pm_type m \<notin> set PLUGIN_TYPES then Inl (Unknown_Type (pm_type m))
      else rbind (case pm_transport m of
          Some t \<Rightarrow> if t \<noteq> TRANSPORT_IN_PROCESS \<and> t \<noteq> TRANSPORT_PROCESS then Inl (Unknown_Transport t) else Inr ()
        | None \<Rightarrow> Inr ()) (\<lambda>_.
        case map_of (pm_entry m) platform of
          None \<Rightarrow> Inl (Missing_Platform_Entry platform)
        | Some entry \<Rightarrow> if escapes entry then Inl Path_Escape else Inr ()))"

definition entry_for :: "plugin_manifest \<Rightarrow> ustring \<Rightarrow> ustring option" where
  "entry_for m platform = map_of (pm_entry m) platform"

definition transport_of :: "plugin_manifest \<Rightarrow> ustring" where
  "transport_of m = (if pm_transport m = Some TRANSPORT_PROCESS then TRANSPORT_PROCESS else TRANSPORT_IN_PROCESS)"

definition is_process :: "plugin_manifest \<Rightarrow> bool" where
  "is_process m \<longleftrightarrow> transport_of m = TRANSPORT_PROCESS"

lemma validated:
  assumes "validate_manifest m platform = Inr ()"
  shows "is_valid_id (pm_id m)" "trim (pm_version m) \<noteq> []" "pm_abi m = HOST_ABI_VERSION" "pm_type m \<in> set PLUGIN_TYPES"
    "\<exists>entry. entry_for m platform = Some entry \<and> \<not> escapes entry"
  using assms
  by (auto simp: validate_manifest_def entry_for_def rbind_eq_Inr simp del: lit_Cons split: if_splits option.splits)

section \<open>Versions\<close>

definition version_parts :: "ustring \<Rightarrow> (nat \<times> ustring) list" where
  "version_parts v =
     map (\<lambda>s. (case parse_unsigned u64_max 10 s of Inr n \<Rightarrow> n | Inl _ \<Rightarrow> 0, s))
       (split_pred (\<lambda>c. c = 46 \<or> c = 45) (dropWhile (\<lambda>c. c = 118) (trim v)))"

definition part_at :: "(nat \<times> ustring) list \<Rightarrow> nat \<Rightarrow> nat \<times> ustring" where
  "part_at ps i = (if i < length ps then ps ! i else (0, []))"

fun gt_from :: "(nat \<times> ustring) list \<Rightarrow> (nat \<times> ustring) list \<Rightarrow> nat list \<Rightarrow> bool" where
  "gt_from a b [] = False"
| "gt_from a b (i # is) =
     (if part_at b i < part_at a i then True
      else if part_at a i < part_at b i then False
      else gt_from a b is)"

definition version_gt :: "ustring \<Rightarrow> ustring \<Rightarrow> bool" where
  "version_gt new current =
     (let a = version_parts new; b = version_parts current in gt_from a b [0..<max (length a) (length b)])"

text \<open>The reference: parts padded_parts to one length, compared as words of a dictionary.\<close>

definition padded_parts :: "nat \<Rightarrow> ustring \<Rightarrow> (nat \<times> ustring) list" where
  "padded_parts n v = map (part_at (version_parts v)) [0..<n]"

lemma gt_from_less: "gt_from a b is \<longleftrightarrow> map (part_at b) is < map (part_at a) is"
  by (induction "is") auto

lemma less_append_same: "length xs = length ys \<Longrightarrow> xs @ zs < ys @ zs \<longleftrightarrow> xs < (ys :: 'a :: linorder list)"
  by (induction xs ys rule: list_induct2) auto

lemma padded_parts_more:
  assumes "length (version_parts v) \<le> m" "m \<le> n"
  shows "padded_parts n v = padded_parts m v @ replicate (n - m) (0, [])"
proof -
  have "[0..<n] = [0..<m] @ [m..<n]" using assms(2) upt_add_eq_append [of 0 m "n - m"] by simp
  moreover have "map (part_at (version_parts v)) [m..<n] = replicate (n - m) (0, [])"
    using assms(1) by (simp add: map_replicate_trivial part_at_def map_eq_conv flip: map_replicate_const length_upt)
  ultimately show ?thesis by (simp add: padded_parts_def)
qed

lemma version_gt_padded:
  assumes "length (version_parts x) \<le> n" "length (version_parts y) \<le> n"
  shows "version_gt x y \<longleftrightarrow> padded_parts n y < padded_parts n x"
proof -
  let ?m = "max (length (version_parts x)) (length (version_parts y))"
  have "padded_parts n v = padded_parts ?m v @ replicate (n - ?m) (0, [])" if "v \<in> {x, y}" for v
    using that assms by (intro padded_parts_more) auto
  moreover have "length (padded_parts ?m y) = length (padded_parts ?m x)" by (simp add: padded_parts_def)
  ultimately have "padded_parts n y < padded_parts n x \<longleftrightarrow> padded_parts ?m y < padded_parts ?m x" by (simp add: less_append_same)
  then show ?thesis by (simp add: version_gt_def Let_def gt_from_less padded_parts_def)
qed

lemma version_gt_strict:
  "\<not> version_gt x x" "version_gt x y \<Longrightarrow> version_gt y z \<Longrightarrow> version_gt x z" "version_gt x y \<Longrightarrow> \<not> version_gt y x"
proof -
  let ?n = "max (length (version_parts x)) (max (length (version_parts y)) (length (version_parts z)))"
  have b: "length (version_parts v) \<le> ?n" if "v \<in> {x, y, z}" for v using that by auto
  have p: "version_gt u v \<longleftrightarrow> padded_parts ?n v < padded_parts ?n u" if "u \<in> {x, y, z}" "v \<in> {x, y, z}" for u v
    using version_gt_padded [OF b [OF that(1)] b [OF that(2)]] .
  show "\<not> version_gt x x" by (simp add: p)
  show "version_gt x y \<Longrightarrow> version_gt y z \<Longrightarrow> version_gt x z" by (simp add: p)
  show "version_gt x y \<Longrightarrow> \<not> version_gt y x" by (simp add: p)
qed

text \<open>What the comparison does with a missing part, and with a pre-release.\<close>

lemma version_parts_examples:
  "version_parts (lit ''1.0'') = [(1, (lit ''1'')), (0, (lit ''0''))]"
  "version_parts (lit ''1.0.0'') = [(1, (lit ''1'')), (0, (lit ''0'')), (0, (lit ''0''))]"
  "version_parts (lit ''1.0.0-beta'') = [(1, (lit ''1'')), (0, (lit ''0'')), (0, (lit ''0'')), (0, (lit ''beta''))]"
  "version_parts (lit ''v1.10.2'') = [(1, (lit ''1'')), (10, (lit ''10'')), (2, (lit ''2''))]"
  by (simp_all add: version_parts_def trim_def trim_start_def trim_end_def trim_end_with_def is_whitespace_def
      parse_unsigned_def to_digit_def u64_max_def)

lemma missing_part_is_less: "version_gt (lit ''1.0.0'') (lit ''1.0'')" and prerelease_is_newer: "version_gt (lit ''1.0.0-beta'') (lit ''1.0.0'')"
proof -
  have "[] < (lit ''0'')" "[] < (lit ''beta'')" by simp_all
  then show "version_gt (lit ''1.0.0'') (lit ''1.0'')" "version_gt (lit ''1.0.0-beta'') (lit ''1.0.0'')"
    by (simp_all add: version_gt_def version_parts_examples upt_rec part_at_def del: lit_Cons)
qed
end
