(* ===== verification/Plugin_Install.thy ===== *)
theory Plugin_Install
  imports Plugin_Tree Plugin_Manifest
begin

text \<open>
  Installing plugins (\<open>src-tauri/src/plugins/install.rs\<close>): checking a source, staging a copy of it, the swap
  with the version that is there, going back, and removing. \<open>serde_json\<close> and SHA-256 are parameters.
\<close>

section \<open>Errors and parameters\<close>

datatype install_error =
    Source_Not_Dir ustring
  | No_Manifest ustring
  | Invalid_Manifest ustring
  | Plugin_Artifact_Missing ustring
  | Integrity_Mismatch ustring
  | Downgrade ustring ustring
  | No_Backup ustring
  | Install_Io fs_error

record plugin_host =
  ph_parse :: "ustring \<Rightarrow> ustring + plugin_manifest"
  ph_sha256 :: "bytes \<Rightarrow> ustring"
  ph_platform :: ustring
  ph_pid :: nat
  ph_io_text :: "fs_error \<Rightarrow> ustring"

fun install_error_text :: "'h plugin_host_scheme \<Rightarrow> install_error \<Rightarrow> ustring" where
  "install_error_text host (Source_Not_Dir p) = ([28304, 30446, 24405, 19981, 23384, 22312, 25110, 19981, 26159, 30446, 24405, 58, 32] @ p)"
| "install_error_text host (No_Manifest p) = ([28304, 30446, 24405, 32570, 23569] @ lit '' manifest.json: '' @ p)"
| "install_error_text host (Invalid_Manifest e) = ([26657, 39564, 22833, 36133, 58, 32] @ e)"
| "install_error_text host (Plugin_Artifact_Missing p) = ([24179, 21488, 20135, 29289, 32570, 22833, 58, 32] @ p)"
| "install_error_text host (Integrity_Mismatch e) = ([23436, 25972, 24615, 26657, 39564, 22833, 36133, 65288] @ lit ''sha256 '' @ [19981, 31526, 65289, 58, 32] @ e)"
| "install_error_text host (Downgrade current new) = ([29256, 26412, 19981, 20801, 35768, 65306, 24403, 21069, 32] @ current @ [65292, 26032, 32] @ new @ [65288, 21319, 32423, 24517, 39035, 26356, 39640, 29256, 26412, 65289])"
| "install_error_text host (No_Backup k) = ([27809, 26377, 21487, 22238, 28378, 30340, 22791, 20221, 58, 32] @ k)"
| "install_error_text host (Install_Io e) = ([25991, 20214, 25805, 20316, 22833, 36133, 58, 32] @ ph_io_text host e)"

definition BACKUPS_DIR :: ustring where "BACKUPS_DIR = (lit ''.backups'')"
definition STAGING_DIR :: ustring where "STAGING_DIR = (lit ''.staging'')"

definition parse_manifest :: "'h plugin_host_scheme \<Rightarrow> ustring \<Rightarrow> ustring + plugin_manifest" where
  "parse_manifest host t = rmap_err (\<lambda>e. (lit ''manifest JSON '' @ [35299, 26512, 22833, 36133, 58, 32] @ e)) (ph_parse host t)"

definition manifest_path :: "path \<Rightarrow> path" where
  "manifest_path dir = dir @ [(lit ''manifest.json'')]"

definition read_manifest_of :: "'h plugin_host_scheme \<Rightarrow> path \<Rightarrow> (install_error, plugin_manifest) io" where
  "read_manifest_of host dir =
     io_bind (io_err (\<lambda>_. No_Manifest (path_text dir)) (std_read_text (manifest_path dir))) (\<lambda>t.
     io_lift (rmap_err Invalid_Manifest (parse_manifest host t)))"

section \<open>Checking a source\<close>

definition check_executable :: "path \<Rightarrow> (install_error, unit) io" where
  "check_executable artifact =
     io_bind (io_err Install_Io (std_mode artifact)) (\<lambda>mode.
     if mode AND 0x49 = 0 then io_fail (Invalid_Manifest (lit ''process '' @ [25554, 20214, 20135, 29289, 32570, 23569, 21487, 25191, 34892, 26435, 38480, 58, 32] @ path_text artifact)) else io_return ())"

definition check_integrity :: "'h plugin_host_scheme \<Rightarrow> path \<Rightarrow> ustring \<Rightarrow> (install_error, unit) io" where
  "check_integrity host artifact expect =
     io_bind (io_err Install_Io (std_read artifact)) (\<lambda>b.
     let actual = ph_sha256 host b in
     if map to_ascii_lower actual = map to_ascii_lower expect then io_return ()
     else io_fail (Integrity_Mismatch (path_text artifact @ [32, 26399, 26395, 32] @ expect @ [32, 23454, 38469, 32] @ actual)))"

definition check_artifact :: "'h plugin_host_scheme \<Rightarrow> path \<Rightarrow> plugin_manifest \<Rightarrow> ustring \<Rightarrow> (install_error, plugin_manifest) io" where
  "check_artifact host artifact m platform =
     io_look (\<lambda>w. file_at artifact (w_tree w)) (\<lambda>there.
     if \<not> there then io_fail (Plugin_Artifact_Missing (path_text artifact))
     else io_bind (if is_process m then check_executable artifact else io_return ()) (\<lambda>_.
       io_bind (case map_of (pm_integrity m) platform of
           None \<Rightarrow> io_return ()
         | Some expect \<Rightarrow> check_integrity host artifact expect) (\<lambda>_. io_return m)))"

definition validate_source :: "'h plugin_host_scheme \<Rightarrow> path \<Rightarrow> ustring \<Rightarrow> (install_error, plugin_manifest) io" where
  "validate_source host src platform =
     io_look (\<lambda>w. dir_at src (w_tree w)) (\<lambda>there.
     if \<not> there then io_fail (Source_Not_Dir (path_text src))
     else io_bind (read_manifest_of host src) (\<lambda>m.
       case validate_manifest m platform of
         Inl e \<Rightarrow> io_fail (Invalid_Manifest (manifest_error_text e))
       | Inr _ \<Rightarrow>
           (case entry_for m platform of
              None \<Rightarrow> io_fail (Invalid_Manifest [])
            | Some rel \<Rightarrow> check_artifact host (resolve src rel) m platform)))"

section \<open>Staging, swapping, going back\<close>

definition plugin_dir :: "path \<Rightarrow> ustring \<Rightarrow> path" where
  "plugin_dir root k = resolve root k"

definition backups_of :: "path \<Rightarrow> ustring \<Rightarrow> path" where
  "backups_of root k = resolve (root @ [BACKUPS_DIR]) k"

definition stage_copy :: "'h plugin_host_scheme \<Rightarrow> path \<Rightarrow> path \<Rightarrow> (install_error, path) io" where
  "stage_copy host src root =
     io_bind (io_err Install_Io (std_make_dirs (root @ [STAGING_DIR]))) (\<lambda>_.
     io_look (\<lambda>w. root @ [STAGING_DIR, (show_dec (ph_pid host) @ lit ''-'' @ show_dec (w_now w))]) (\<lambda>dst.
     io_bind (io_err Install_Io (copy_dir_recursive src dst)) (\<lambda>_. io_return dst)))"

text \<open>The old version goes to its place among the backups, if there is one.\<close>

definition swap_out :: "'h plugin_host_scheme \<Rightarrow> path \<Rightarrow> ustring \<Rightarrow> (install_error, path option) io" where
  "swap_out host root k =
     (let target = plugin_dir root k in
      io_look (\<lambda>w. node_at target (w_tree w) \<noteq> None) (\<lambda>there.
      if \<not> there then io_return None
      else io_bind (read_manifest_of host target) (\<lambda>old.
        io_look (\<lambda>w. resolve (backups_of root k) (show_dec (w_now w div 1000) @ lit ''-'' @ pm_version old)) (\<lambda>dst.
        io_bind (io_err Install_Io (std_make_dirs (butlast dst))) (\<lambda>_.
        io_bind (io_err Install_Io (std_rename target dst)) (\<lambda>_. io_return (Some dst)))))))"

definition commit_swap :: "'h plugin_host_scheme \<Rightarrow> path \<Rightarrow> plugin_manifest \<Rightarrow> path \<Rightarrow> (install_error, path option) io" where
  "commit_swap host root m staging =
     (let target = plugin_dir root (pm_id m) in
      io_bind (swap_out host root (pm_id m)) (\<lambda>backup.
      io_bind (io_err Install_Io (std_make_dirs (butlast target))) (\<lambda>_.
      io_bind (io_try (std_rename staging target)) (\<lambda>r.
      case r of
        Inr _ \<Rightarrow> io_return backup
      | Inl e \<Rightarrow>
          io_bind (case backup of None \<Rightarrow> io_return () | Some b \<Rightarrow> io_bind (io_try (std_rename b target)) (\<lambda>_. io_return ())) (\<lambda>_.
          io_fail (Install_Io e))))))"

fun remove_each :: "path option \<Rightarrow> path list \<Rightarrow> ('e, unit) io" where
  "remove_each keep [] = io_return ()"
| "remove_each keep (p # ps) =
     (if Some p = keep then remove_each keep ps
      else io_bind (io_try (std_remove_all p)) (\<lambda>_. remove_each keep ps))"

definition prune_backups :: "path \<Rightarrow> ustring \<Rightarrow> path option \<Rightarrow> ('e, unit) io" where
  "prune_backups root k keep =
     io_bind (io_try (std_list (backups_of root k))) (\<lambda>r.
     case r of
       Inl _ \<Rightarrow> io_return ()
     | Inr names \<Rightarrow> remove_each keep (map (\<lambda>n. backups_of root k @ [n]) names))"

definition latest_backup :: "path \<Rightarrow> ustring \<Rightarrow> ('e, path option) io" where
  "latest_backup root k =
     io_bind (io_try (std_list (backups_of root k))) (\<lambda>r.
     io_look (\<lambda>w. case r of
         Inl _ \<Rightarrow> None
       | Inr names \<Rightarrow>
           (let dirs = sort (filter (\<lambda>p. dir_at p (w_tree w)) (map (\<lambda>n. backups_of root k @ [n]) names)) in
            if dirs = [] then None else Some (last dirs))) io_return)"

definition rollback_undo :: "path \<Rightarrow> path \<Rightarrow> ('e, unit) io" where
  "rollback_undo target trash =
     io_look (\<lambda>w. node_at target (w_tree w) \<noteq> None) (\<lambda>there.
     io_bind (if there then io_bind (io_try (std_remove_all target)) (\<lambda>_. io_return ()) else io_return ()) (\<lambda>_.
     io_look (\<lambda>w. node_at trash (w_tree w) \<noteq> None) (\<lambda>there.
     if there then io_bind (io_try (std_rename trash target)) (\<lambda>_. io_return ()) else io_return ())))"

text \<open>Moving what is installed out of the way; putting the backup in its place and cleaning up.\<close>

definition set_aside :: "path \<Rightarrow> path \<Rightarrow> (install_error, unit) io" where
  "set_aside target trash =
     io_bind (io_err Install_Io (std_make_dirs (butlast trash))) (\<lambda>_.
     io_look (\<lambda>w. node_at target (w_tree w) \<noteq> None) (\<lambda>there.
     if there then io_err Install_Io (std_rename target trash) else io_return ()))"

definition bring_back :: "'h plugin_host_scheme \<Rightarrow> path \<Rightarrow> path \<Rightarrow> path \<Rightarrow> path \<Rightarrow> (install_error, plugin_manifest) io" where
  "bring_back host backup target trash backups =
     io_bind (io_try (std_rename backup target)) (\<lambda>r.
     case r of
       Inl e \<Rightarrow> io_bind (rollback_undo target trash) (\<lambda>_. io_fail (Install_Io e))
     | Inr _ \<Rightarrow>
         io_bind (read_manifest_of host target) (\<lambda>m.
         io_bind (io_try (std_remove_all trash)) (\<lambda>_.
         io_bind (io_try (std_remove_all backups)) (\<lambda>_. io_return m))))"

definition plugin_rollback :: "'h plugin_host_scheme \<Rightarrow> path \<Rightarrow> ustring \<Rightarrow> (install_error, plugin_manifest) io" where
  "plugin_rollback host root k =
     io_bind (latest_backup root k) (\<lambda>latest.
     case latest of
       None \<Rightarrow> io_fail (No_Backup k)
     | Some backup \<Rightarrow>
         (let target = plugin_dir root k;
              trash = resolve (root @ [STAGING_DIR]) (lit ''rollback-trash-'' @ k @ lit ''-'' @ show_dec (ph_pid host))
          in io_bind (set_aside target trash) (\<lambda>_. bring_back host backup target trash (backups_of root k))))"

definition remove_if_there :: "'h plugin_host_scheme \<Rightarrow> path \<Rightarrow> (core_error, unit) io" where
  "remove_if_there host p =
     io_look (\<lambda>w. node_at p (w_tree w) \<noteq> None) (\<lambda>there.
     if there then io_err (\<lambda>e. Core_Io (ph_io_text host e)) (std_remove_all p) else io_return ())"

definition plugin_uninstall :: "'h plugin_host_scheme \<Rightarrow> path \<Rightarrow> ustring \<Rightarrow> (core_error, unit) io" where
  "plugin_uninstall host root k =
     io_bind (remove_if_there host (plugin_dir root k)) (\<lambda>_. remove_if_there host (backups_of root k))"

section \<open>The swap\<close>

text \<open>An id that is one directory below the root and none of the managed ones.\<close>

definition plain_id :: "ustring \<Rightarrow> bool" where
  "plain_id k \<longleftrightarrow> plain_name k \<and> k \<noteq> BACKUPS_DIR \<and> k \<noteq> STAGING_DIR"

lemma plain_paths:
  "plain_id k \<Longrightarrow> plugin_dir root k = root @ [k]" "plain_id k \<Longrightarrow> backups_of root k = root @ [BACKUPS_DIR, k]"
  by (simp_all add: plain_id_def plugin_dir_def backups_of_def resolve_plain)

lemma plain_apart:
  assumes "plain_id k"
  shows "apart (root @ [k]) (root @ BACKUPS_DIR # p)" "apart (root @ [k]) (root @ STAGING_DIR # p)"
    "apart (root @ BACKUPS_DIR # p) (root @ STAGING_DIR # q)"
  using assms by (auto simp: plain_id_def apart_Cons BACKUPS_DIR_def STAGING_DIR_def)

lemma keeps_manifest [keeping]: "keeps q (read_manifest_of host dir)" "keeps_dir q (read_manifest_of host dir)"
  unfolding read_manifest_of_def by (intro keeping)+

text \<open>The version that the manifest of a directory gives.\<close>

definition version_at :: "'h plugin_host_scheme \<Rightarrow> path \<Rightarrow> node \<Rightarrow> ustring option" where
  "version_at host dir t =
     (case node_at (manifest_path dir) t of
        Some (File b _) \<Rightarrow> Option.bind (from_utf8 b) (\<lambda>s. case parse_manifest host s of Inl _ \<Rightarrow> None | Inr m \<Rightarrow> Some (pm_version m))
      | _ \<Rightarrow> None)"

lemma read_manifest_version: "read_manifest_of host dir w = (Inr m, w') \<Longrightarrow> version_at host dir (w_tree w) = Some (pm_version m)"
proof -
  assume r: "read_manifest_of host dir w = (Inr m, w')"
  then obtain s w1 where s: "std_read_text (manifest_path dir) w = (Inr s, w1)" "rmap_err Invalid_Manifest (parse_manifest host s) = Inr m"
    by (auto simp: read_manifest_of_def io_bind_def io_err_def io_lift_def rmap_err_eq_Inr split: prod.splits sum.splits)
  then obtain b w2 where b: "std_read (manifest_path dir) w = (Inr b, w2)" "from_utf8 b = Some s"
    by (auto simp: std_read_text_def io_bind_def io_lift_def split: prod.splits sum.splits option.splits)
  from std_call_ends [OF b(1) [unfolded std_read_def]] have "\<exists>mode. node_at (manifest_path dir) (w_tree w) = Some (File b mode)"
    by (auto split: option.splits node.splits)
  with b(2) s(2) show ?thesis by (auto simp: version_at_def rmap_err_eq_Inr)
qed

lemma backup_name_plain: "47 \<notin> set v \<Longrightarrow> plain_name ((show_dec n @ lit ''-'') @ v)"
proof -
  assume v: "47 \<notin> set v"
  let ?name = "(show_dec n @ lit ''-'') @ v"
  have "47 \<notin> set (show_dec n)" using show_dec_chars [of 47 n] by auto
  moreover have d: "45 \<in> set ?name" by simp
  have "?name \<noteq> x" if "45 \<notin> set x" for x using d that by metis
  then have "?name \<noteq> []" "?name \<noteq> [46]" "?name \<noteq> [46, 46]" by simp_all
  ultimately show ?thesis using v by (simp add: plain_name_def)
qed

lemma swap_out_result:
  assumes "swap_out host root k w = (r, w')" "plain_id k"
    and slash: "\<And>v. version_at host (root @ [k]) (w_tree w) = Some v \<Longrightarrow> 47 \<notin> set v"
  shows "(\<forall>e. r = Inl e \<longrightarrow> node_at (root @ [k]) (w_tree w') = node_at (root @ [k]) (w_tree w)) \<and>
    (r = Inr None \<longrightarrow> node_at (root @ [k]) (w_tree w) = None \<and> w' = w) \<and>
    (\<forall>b. r = Inr (Some b) \<longrightarrow> (\<exists>name. b = root @ [BACKUPS_DIR, k, name]) \<and> node_at (root @ [k]) (w_tree w') = None \<and>
       node_at (root @ [k]) (w_tree w) \<noteq> None \<and> node_at b (w_tree w') = node_at (root @ [k]) (w_tree w)) \<and>
    (\<forall>q. node_at (root @ STAGING_DIR # q) (w_tree w') = node_at (root @ STAGING_DIR # q) (w_tree w))"
proof -
  let ?t = "root @ [k]"
  note paths = plain_paths [OF assms(2)] plain_apart [OF assms(2)]
  show ?thesis
  proof (cases "node_at ?t (w_tree w)")
    case None
    with assms(1) show ?thesis by (auto simp: swap_out_def paths io_look_def io_return_def Let_def)
  next
    case (Some x)
    obtain r1 w1 where read: "read_manifest_of host ?t w = (r1, w1)" by fastforce
    note w1 = keepsD [OF keeps_manifest(1) read]
    have sep: "apart ?t (root @ STAGING_DIR # q)" "apart (root @ BACKUPS_DIR # p) (root @ STAGING_DIR # q)" for p q
      using paths(4,5) by auto
    show ?thesis
    proof (cases r1)
      case (Inl e)
      with assms(1) Some read w1 show ?thesis by (auto simp: swap_out_def paths io_look_def io_bind_def Let_def)
    next
      case (Inr old)
      let ?name = "(show_dec (w_now w1 div 1000) @ lit ''-'') @ pm_version old"
      let ?dst = "root @ [BACKUPS_DIR, k, ?name]"
      have "47 \<notin> set (pm_version old)" using slash read_manifest_version [OF read [unfolded Inr]] by blast
      from resolve_plain [OF backup_name_plain [OF this]]
      have dst: "resolve (root @ [BACKUPS_DIR, k]) ?name = ?dst" by simp
      obtain r2 w2 where dirs: "std_make_dirs (butlast ?dst) w1 = (r2, w2)" by fastforce
      have "\<not> prefix ?t (butlast ?dst)" using paths(3) [of root "[k]"] by (simp add: apart_def butlast_append)
      note w2 = keepsD [OF keeps_make_dirs(1) [OF this] dirs]
      have "\<not> prefix (root @ STAGING_DIR # q) (butlast ?dst)" for q
        using sep(2) [of "[k]" q] by (simp add: apart_def butlast_append)
      note s2 = keepsD [OF keeps_make_dirs(1) [OF this] dirs]
      obtain r3 w3 where moved: "std_rename ?t ?dst w2 = (r3, w3)" by fastforce
      note s3 = keepsD [OF keeps_rename(1) [OF sep(1) sep(2)] moved]
      have m: "swap_out host root k w = (case r2 of Inl e \<Rightarrow> (Inl (Install_Io e), w2)
          | Inr _ \<Rightarrow> (case r3 of Inl e \<Rightarrow> (Inl (Install_Io e), w3) | Inr _ \<Rightarrow> (Inr (Some ?dst), w3)))"
        using Some read Inr dirs moved dst
        by (auto simp: swap_out_def paths io_look_def io_bind_def io_err_def io_return_def Let_def split: sum.splits)
      show ?thesis
      proof (cases r2)
        case (Inl e)
        with assms(1) m w1 w2 s2 show ?thesis by auto
      next
        case r2: (Inr u)
        show ?thesis
        proof (cases r3)
          case (Inl e)
          with assms(1) m r2 w1 w2 s2 not_renamed [OF moved [unfolded Inl]] show ?thesis by auto
        next
          case (Inr v)
          have "?t \<noteq> ?dst" by simp
          with assms(1) m r2 Inr w1 w2 s2 s3 Some renamed [OF moved [unfolded Inr]] renamed_away [OF moved [unfolded Inr]] show ?thesis by auto
        qed
      qed
    qed
  qed
qed

text \<open>
  Whatever call fails at whatever point: a swap that succeeds has the staged tree in place and the old one
  among the backups, and one that fails has lost nothing.
\<close>

lemma commit_swap_result:
  assumes "commit_swap host root m staging w = (r, w')" "plain_id (pm_id m)" "staging = root @ [STAGING_DIR, n]"
    and slash: "\<And>v. version_at host (root @ [pm_id m]) (w_tree w) = Some v \<Longrightarrow> 47 \<notin> set v"
  shows "(\<forall>backup. r = Inr backup \<longrightarrow>
      node_at (root @ [pm_id m]) (w_tree w') = node_at staging (w_tree w) \<and> node_at staging (w_tree w) \<noteq> None \<and>
      (backup = None \<longleftrightarrow> node_at (root @ [pm_id m]) (w_tree w) = None) \<and>
      (\<forall>b. backup = Some b \<longrightarrow> (\<exists>name. b = root @ [BACKUPS_DIR, pm_id m, name]) \<and>
         node_at b (w_tree w') = node_at (root @ [pm_id m]) (w_tree w))) \<and>
    (\<forall>e old. r = Inl e \<longrightarrow> node_at (root @ [pm_id m]) (w_tree w) = Some old \<longrightarrow>
      node_at (root @ [pm_id m]) (w_tree w') = Some old \<or>
      (\<exists>name. node_at (root @ [BACKUPS_DIR, pm_id m, name]) (w_tree w') = Some old))"
proof -
  let ?k = "pm_id m"
  let ?t = "root @ [?k]"
  note paths = plain_paths [OF assms(2)] plain_apart [OF assms(2)]
  obtain r1 w1 where out: "swap_out host root ?k w = (r1, w1)" by fastforce
  note res = swap_out_result [OF out assms(2) slash]
  show ?thesis
  proof (cases r1)
    case (Inl e)
    with assms(1) out have "r = Inl e" "w' = w1" by (auto simp: commit_swap_def io_bind_def Let_def paths)
    with res Inl show ?thesis by auto
  next
    case r1: (Inr backup)
    obtain r2 w2 where dirs: "std_make_dirs root w1 = (r2, w2)" by fastforce
    have below: "node_at (root @ c # q) (w_tree w2) = node_at (root @ c # q) (w_tree w1)" for c q
      by (rule keepsD [OF keeps_make_dirs(1) dirs]) simp
    obtain r3 w3 where moved: "std_rename staging ?t w2 = (r3, w3)" by fastforce
    have sep: "apart staging (root @ BACKUPS_DIR # q)" "apart ?t (root @ BACKUPS_DIR # q)" for q
      using paths(3,5) by (simp_all add: assms(3) apart_sym)
    have old: "node_at ?t (w_tree w) = Some old \<Longrightarrow> \<exists>b name. backup = Some b \<and> b = root @ [BACKUPS_DIR, ?k, name] \<and> node_at b (w_tree w2) = Some old" for old
      using res r1 below by (cases backup) auto
    have stg: "node_at staging (w_tree w2) = node_at staging (w_tree w)" using res below by (simp add: assms(3))
    have m: "commit_swap host root m staging w = (case r2 of Inl e \<Rightarrow> (Inl (Install_Io e), w2)
        | Inr _ \<Rightarrow> (case r3 of Inr _ \<Rightarrow> (Inr backup, w3)
            | Inl e \<Rightarrow> (Inl (Install_Io e), case backup of None \<Rightarrow> w3 | Some b \<Rightarrow> snd (std_rename b ?t w3))))"
      using out r1 dirs moved
      by (auto simp: commit_swap_def io_bind_def io_err_def io_try_def io_return_def io_fail_def Let_def paths split: sum.splits option.splits prod.splits)
    show ?thesis
    proof (cases r2)
      case (Inl e)
      with m assms(1) old show ?thesis by fastforce
    next
      case r2: (Inr u)
      show ?thesis
      proof (cases r3)
        case (Inr v)
        have kept: "node_at (root @ BACKUPS_DIR # q) (w_tree w3) = node_at (root @ BACKUPS_DIR # q) (w_tree w2)" for q
          by (rule keepsD [OF keeps_rename(1) moved]) (use sep in auto)
        from renamed [OF moved [unfolded Inr]] stg have "node_at ?t (w_tree w3) = node_at staging (w_tree w)" "node_at staging (w_tree w) \<noteq> None" by auto
        with m assms(1) r2 Inr res r1 below kept show ?thesis by (cases backup) auto
      next
        case (Inl e)
        note same = not_renamed [OF moved [unfolded Inl]]
        have "node_at ?t (w_tree w') = Some old \<or> (\<exists>name. node_at (root @ [BACKUPS_DIR, ?k, name]) (w_tree w') = Some old)"
          if "node_at ?t (w_tree w) = Some old" for old
        proof -
          from old [OF that] obtain b name where b: "backup = Some b" "b = root @ [BACKUPS_DIR, ?k, name]" "node_at b (w_tree w3) = Some old"
            by (auto simp: same)
          obtain r4 w4 where restored: "std_rename b ?t w3 = (r4, w4)" by fastforce
          with m assms(1) r2 Inl b(1) have "w' = w4" by simp
          moreover from moved_or_stayed [OF restored b(3)] have "node_at ?t (w_tree w4) = Some old \<or> node_at b (w_tree w4) = Some old" .
          ultimately show ?thesis using b(2) by blast
        qed
        with m assms(1) r2 Inl show ?thesis by auto
      qed
    qed
  qed
qed

section \<open>Going back\<close>

lemma last_of_sorted: "x \<in> set xs \<Longrightarrow> x \<le> last (sort (xs :: 'a :: linorder list))"
proof -
  assume x: "x \<in> set xs"
  have "sorted ys \<Longrightarrow> x \<in> set ys \<Longrightarrow> x \<le> last ys" for ys :: "'a list" by (induction ys) auto
  with x show ?thesis by simp
qed

lemma same_root_le: "p @ xs \<le> p @ ys \<longleftrightarrow> xs \<le> (ys :: 'a :: linorder list)"
  by (induction p) auto

lemma latest_backup_is_last:
  assumes "latest_backup root k w = (r, w')" "plain_id k"
  shows "w_tree w' = w_tree w \<and> (\<exists>b. r = Inr b) \<and>
    (\<forall>b. r = Inr (Some b) \<longrightarrow> (\<exists>es name. node_at (root @ [BACKUPS_DIR, k]) (w_tree w) = Some (Dir es) \<and>
       b = root @ [BACKUPS_DIR, k, name] \<and> name \<in> fst ` set es \<and> dir_at b (w_tree w) \<and>
       (\<forall>n \<in> fst ` set es. dir_at (root @ [BACKUPS_DIR, k, n]) (w_tree w) \<longrightarrow> n \<le> name)))"
proof -
  let ?p = "root @ [BACKUPS_DIR, k]"
  obtain r1 w1 where ls: "std_list ?p w = (r1, w1)" by fastforce
  note ends = std_call_ends [OF ls [unfolded std_list_def]]
  have tree: "w_tree w1 = w_tree w" using ends by (auto simp: untouched_tree_def split: option.splits node.splits)
  let ?dirs = "\<lambda>names. sort (filter (\<lambda>p. dir_at p (w_tree w)) (map (\<lambda>n. ?p @ [n]) names))"
  have m: "r = Inr (case r1 of Inl _ \<Rightarrow> None | Inr names \<Rightarrow> if ?dirs names = [] then None else Some (last (?dirs names)))" "w' = w1"
    using assms ls tree by (auto simp: latest_backup_def plain_paths io_bind_def io_try_def io_look_def io_return_def Let_def split: sum.splits)
  have "\<exists>es name. node_at ?p (w_tree w) = Some (Dir es) \<and> b = root @ [BACKUPS_DIR, k, name] \<and> name \<in> fst ` set es \<and>
      dir_at b (w_tree w) \<and> (\<forall>n \<in> fst ` set es. dir_at (root @ [BACKUPS_DIR, k, n]) (w_tree w) \<longrightarrow> n \<le> name)" if b: "r = Inr (Some b)" for b
  proof -
    from m(1) b obtain names where names: "r1 = Inr names" "?dirs names \<noteq> []" "b = last (?dirs names)"
      by (auto split: sum.splits if_splits)
    with ends obtain es where es: "node_at ?p (w_tree w) = Some (Dir es)" "names = map fst es"
      by (auto split: option.splits node.splits)
    have "b \<in> set (?dirs names)" unfolding names(3) by (rule last_in_set [OF names(2)])
    then obtain name where name: "b = root @ [BACKUPS_DIR, k, name]" "name \<in> set names" "dir_at b (w_tree w)" by auto
    have "n \<le> name" if "n \<in> set names" "dir_at (root @ [BACKUPS_DIR, k, n]) (w_tree w)" for n
    proof -
      have "root @ [BACKUPS_DIR, k, n] \<le> b" unfolding names(3) by (intro last_of_sorted) (use that in auto)
      then show ?thesis unfolding name(1) same_root_le by (auto simp: order.order_iff_strict)
    qed
    with es name show ?thesis by auto
  qed
  with m tree show ?thesis by simp
qed

lemma keeps_remove_each: "(\<And>p. p \<in> set ps \<Longrightarrow> apart p q) \<Longrightarrow> keeps q (remove_each keep ps)"
  by (induction ps) (auto intro!: keeping)

definition backup_at :: "path \<Rightarrow> ustring \<Rightarrow> ustring \<Rightarrow> path" where
  "backup_at root k name = root @ [BACKUPS_DIR, k, name]"

definition trash_at :: "'h plugin_host_scheme \<Rightarrow> path \<Rightarrow> ustring \<Rightarrow> path" where
  "trash_at host root k = root @ [STAGING_DIR, (lit ''rollback-trash-'' @ k @ lit ''-'' @ show_dec (ph_pid host))]"

lemma trash_path: "plain_id k \<Longrightarrow> resolve (root @ [STAGING_DIR]) (lit ''rollback-trash-'' @ k @ lit ''-'' @ show_dec (ph_pid host)) = trash_at host root k"
proof -
  assume k: "plain_id k"
  let ?name = "(lit ''rollback-trash-'' @ k @ lit ''-'' @ show_dec (ph_pid host))"
  have "47 \<notin> set (show_dec (ph_pid host))" using show_dec_chars [of 47 "ph_pid host"] by auto
  moreover have d: "45 \<in> set ?name" by simp
  have "?name \<noteq> x" if "45 \<notin> set x" for x using d that by metis
  then have "?name \<noteq> []" "?name \<noteq> [46]" "?name \<noteq> [46, 46]" by simp_all
  ultimately have "plain_name ?name" using k by (simp add: plain_name_def plain_id_def)
  then show ?thesis by (simp add: resolve_plain trash_at_def)
qed

text \<open>The three moves of a rollback: what is installed and what is backed up are somewhere after each of them.\<close>

lemma rollback_undo_result:
  assumes "rollback_undo target trash w = (r, w')" "node_at target (w_tree w) = None"
  shows "node_at trash (w_tree w) = Some cur \<longrightarrow> node_at trash (w_tree w') = Some cur \<or> node_at target (w_tree w') = Some cur"
proof (cases "node_at trash (w_tree w)")
  case (Some x)
  obtain r1 w1 where moved: "std_rename trash target w = (r1, w1)" by fastforce
  have w': "w' = w1" using assms moved Some by (auto simp: rollback_undo_def io_look_def io_bind_def io_try_def io_return_def)
  with moved_or_stayed [OF moved Some] Some show ?thesis by auto
qed simp

lemma keeps_undo: "apart target q \<Longrightarrow> apart trash q \<Longrightarrow> keeps q (rollback_undo target trash)"
  unfolding rollback_undo_def by (intro keeping)

lemma set_aside_result:
  assumes "set_aside target trash w = (r, w')" "apart target trash"
  shows "(\<forall>e. r = Inl e \<longrightarrow> node_at target (w_tree w') = node_at target (w_tree w)) \<and>
    (\<forall>u. r = Inr u \<longrightarrow> node_at target (w_tree w') = None \<and>
      (\<forall>cur. node_at target (w_tree w) = Some cur \<longrightarrow> node_at trash (w_tree w') = Some cur))"
proof -
  obtain r1 w1 where dirs: "std_make_dirs (butlast trash) w = (r1, w1)" by fastforce
  have "\<not> prefix target (butlast trash)"
    using assms(2) by (auto simp: apart_def dest: prefix_order.trans [OF _ prefixeq_butlast])
  note same = keepsD [OF keeps_make_dirs(1) [OF this] dirs]
  obtain r2 w2 where moved: "std_rename target trash w1 = (r2, w2)" by fastforce
  have "target \<noteq> trash" using assms(2) by (auto simp: apart_def)
  with moved have ok: "r2 = Inr u \<Longrightarrow> node_at trash (w_tree w2) = node_at target (w_tree w1) \<and> node_at target (w_tree w2) = None" for u
    using renamed [of target trash w1 u w2] renamed_away [of target trash w1 u w2] by auto
  have no: "r2 = Inl e \<Longrightarrow> w_tree w2 = w_tree w1" for e using moved not_renamed by blast
  have m: "(r, w') = (case r1 of Inl e \<Rightarrow> (Inl (Install_Io e), w1)
      | Inr _ \<Rightarrow> if node_at target (w_tree w1) \<noteq> None then (rmap_err Install_Io r2, w2) else (Inr (), w1))"
    using assms(1) dirs moved by (auto simp: set_aside_def io_bind_def io_err_def io_look_def io_return_def split: sum.splits)
  show ?thesis using m same ok no by (cases r1; cases r2) (auto split: if_splits)
qed

lemma keeps_set_aside: "\<not> prefix q (butlast trash) \<Longrightarrow> apart target q \<Longrightarrow> apart trash q \<Longrightarrow> keeps q (set_aside target trash)"
  unfolding set_aside_def by (intro keeping)

lemma bring_back_result:
  assumes "bring_back host backup target trash backups w = (r, w')" "node_at target (w_tree w) = None"
    "apart target trash" "apart backup trash" "apart trash target" "apart backups target" "apart backup target"
  shows "(\<forall>m. r = Inr m \<longrightarrow> node_at target (w_tree w') = node_at backup (w_tree w) \<and> version_at host target (w_tree w') = Some (pm_version m)) \<and>
    (\<forall>e cur. r = Inl e \<longrightarrow> node_at trash (w_tree w) = Some cur \<longrightarrow> node_at trash (w_tree w') = Some cur \<or> node_at target (w_tree w') = Some cur) \<and>
    (\<forall>e. r = Inl e \<longrightarrow> node_at backup (w_tree w') = node_at backup (w_tree w) \<or> node_at target (w_tree w') = node_at backup (w_tree w)) \<and>
    (\<forall>e q. r = Inl e \<longrightarrow> apart backup q \<longrightarrow> apart target q \<longrightarrow> apart trash q \<longrightarrow> node_at q (w_tree w') = node_at q (w_tree w))"
proof -
  obtain r1 w1 where moved: "std_rename backup target w = (r1, w1)" by fastforce
  show ?thesis
  proof (cases r1)
    case (Inl e)
    obtain r2 :: "install_error + unit" and w2 where undo: "rollback_undo target trash w1 = (r2, w2)" by fastforce
    have tree: "w_tree w1 = w_tree w" using not_renamed [OF moved [unfolded Inl]] .
    have "\<exists>e'. r = Inl e'" "w' = w2"
      using assms(1) moved Inl undo by (auto simp: bring_back_def io_bind_def io_try_def io_fail_def split: sum.splits)
    moreover have "node_at backup (w_tree w2) = node_at backup (w_tree w)"
      using keepsD [OF keeps_undo undo, of backup] assms(4,7) tree by (simp add: apart_sym)
    moreover have "apart target q \<Longrightarrow> apart trash q \<Longrightarrow> node_at q (w_tree w2) = node_at q (w_tree w)" for q
      using keepsD [OF keeps_undo undo, of q] tree by simp
    ultimately show ?thesis using rollback_undo_result [OF undo] assms(2) tree by auto
  next
    case r1: (Inr u)
    obtain r2 w2 where read: "read_manifest_of host target w1 = (r2, w2)" by fastforce
    have same: "node_at q (w_tree w2) = node_at q (w_tree w1)" for q by (rule keepsD [OF keeps_manifest(1) read])
    have new: "node_at target (w_tree w1) = node_at backup (w_tree w)" using renamed [OF moved [unfolded r1]] by auto
    show ?thesis
    proof (cases r2)
      case (Inl e)
      with assms(1) moved r1 read have "r = Inl e" "w' = w2" by (auto simp: bring_back_def io_bind_def io_try_def)
      moreover have "node_at trash (w_tree w1) = node_at trash (w_tree w)"
        by (rule keepsD [OF keeps_rename(1) moved]) (use assms in \<open>auto simp: apart_sym\<close>)
      moreover have "apart backup q \<Longrightarrow> apart target q \<Longrightarrow> node_at q (w_tree w1) = node_at q (w_tree w)" for q
        by (rule keepsD [OF keeps_rename(1) moved])
      ultimately show ?thesis using same new by simp
    next
      case (Inr m)
      obtain r3 w3 where rm: "std_remove_all trash w2 = (r3, w3)" by fastforce
      obtain r4 w4 where rm': "std_remove_all backups w3 = (r4, w4)" by fastforce
      have "r = Inr m" "w' = w4" using assms(1) moved r1 read Inr rm rm' by (auto simp: bring_back_def io_bind_def io_try_def io_return_def)
      moreover have kept: "node_at (target @ q) (w_tree w4) = node_at (target @ q) (w_tree w1)" for q
        using keepsD [OF keeps_remove(1) rm, of "target @ q"] keepsD [OF keeps_remove(1) rm', of "target @ q"] assms(5,6) same
        by (simp add: apart_below)
      then have "version_at host target (w_tree w4) = version_at host target (w_tree w1)" by (simp add: version_at_def manifest_path_def)
      ultimately show ?thesis using kept [of "[]"] new read_manifest_version [OF read [unfolded Inr]] by simp
    qed
  qed
qed

lemma rollback_apart:
  assumes "plain_id k"
  shows "apart (root @ [k]) (trash_at host root k)" "apart (backup_at root k name) (trash_at host root k)"
    "apart (backup_at root k name) (root @ [k])" "apart (root @ [BACKUPS_DIR, k]) (root @ [k])"
    "name \<noteq> other \<Longrightarrow> apart (backup_at root k name) (backup_at root k other)"
  using assms by (auto simp: plain_id_def trash_at_def backup_at_def apart_Cons BACKUPS_DIR_def STAGING_DIR_def)

lemma plugin_rollback_plain:
  "plain_id k \<Longrightarrow> plugin_rollback host root k = io_bind (latest_backup root k) (\<lambda>latest.
     case latest of
       None \<Rightarrow> io_fail (No_Backup k)
     | Some b \<Rightarrow> io_bind (set_aside (root @ [k]) (trash_at host root k)) (\<lambda>_.
         bring_back host b (root @ [k]) (trash_at host root k) (root @ [BACKUPS_DIR, k])))"
  by (simp only: plugin_rollback_def plain_paths trash_path Let_def)

lemma rollback_result:
  assumes "plugin_rollback host root k w = (r, w')" "plain_id k"
  shows "(\<forall>m. r = Inr m \<longrightarrow> (\<exists>es name. node_at (root @ [BACKUPS_DIR, k]) (w_tree w) = Some (Dir es) \<and> name \<in> fst ` set es \<and>
      (\<forall>n \<in> fst ` set es. dir_at (backup_at root k n) (w_tree w) \<longrightarrow> n \<le> name) \<and>
      node_at (root @ [k]) (w_tree w') = node_at (backup_at root k name) (w_tree w) \<and>
      version_at host (root @ [k]) (w_tree w') = Some (pm_version m))) \<and>
    (\<forall>e. r = Inl e \<longrightarrow>
      (\<forall>cur. node_at (root @ [k]) (w_tree w) = Some cur \<longrightarrow>
         node_at (root @ [k]) (w_tree w') = Some cur \<or> node_at (trash_at host root k) (w_tree w') = Some cur) \<and>
      (\<exists>b. \<forall>name. node_at (backup_at root k name) (w_tree w') = node_at (backup_at root k name) (w_tree w) \<or>
         name = b \<and> node_at (root @ [k]) (w_tree w') = node_at (backup_at root k name) (w_tree w)))"
proof -
  let ?t = "root @ [k]" and ?trash = "trash_at host root k"
  note m = assms(1) [unfolded plugin_rollback_plain [OF assms(2)]]
  note sep = rollback_apart [OF assms(2)]
  obtain r0 :: "install_error + path option" and w0 where latest: "latest_backup root k w = (r0, w0)" by fastforce
  note last = latest_backup_is_last [OF latest assms(2)]
  show ?thesis
  proof (cases "r0 = Inr None")
    case True
    with m latest have "r = Inl (No_Backup k)" "w' = w0" by (auto simp: io_bind_def io_fail_def)
    with last show ?thesis by auto
  next
    case False
    with last obtain es name where b: "r0 = Inr (Some (backup_at root k name))" "node_at (root @ [BACKUPS_DIR, k]) (w_tree w) = Some (Dir es)"
      "name \<in> fst ` set es" "\<forall>n \<in> fst ` set es. dir_at (backup_at root k n) (w_tree w) \<longrightarrow> n \<le> name"
      unfolding backup_at_def by (metis option.exhaust)
    let ?b = "backup_at root k name"
    obtain r1 w1 where aside: "set_aside ?t ?trash w0 = (r1, w1)" by fastforce
    note out = set_aside_result [OF aside sep(1)]
    have sep': "apart ?trash (backup_at root k n)" "apart ?t (backup_at root k n)" "apart ?trash ?t" for n
      using sep(1,2,3) apart_sym by blast+
    have kept: "node_at (backup_at root k n) (w_tree w1) = node_at (backup_at root k n) (w_tree w)" for n
    proof -
      have "\<not> prefix (backup_at root k n) (butlast ?trash)" by (simp add: trash_at_def backup_at_def butlast_append BACKUPS_DIR_def STAGING_DIR_def)
      from keepsD [OF keeps_set_aside [OF this] aside] show ?thesis using sep' last by simp
    qed
    show ?thesis
    proof (cases r1)
      case (Inl e)
      with m latest b(1) aside have "r = Inl e" "w' = w1" by (auto simp: io_bind_def)
      with Inl out last kept show ?thesis by auto
    next
      case (Inr u)
      obtain r2 w2 where brought: "bring_back host ?b ?t ?trash (root @ [BACKUPS_DIR, k]) w1 = (r2, w2)" by fastforce
      with m latest b(1) aside Inr have same: "r = r2" "w' = w2" by (auto simp: io_bind_def)
      have gone: "node_at ?t (w_tree w1) = None" using out Inr by simp
      note res = bring_back_result [OF brought gone sep(1,2) sep'(3) sep(4,3)]
      have "\<exists>n. \<forall>name. node_at (backup_at root k name) (w_tree w2) = node_at (backup_at root k name) (w_tree w) \<or>
         name = n \<and> node_at ?t (w_tree w2) = node_at (backup_at root k name) (w_tree w)" if "r2 = Inl e" for e
      proof (rule exI [of _ name], rule allI)
        fix n
        show "node_at (backup_at root k n) (w_tree w2) = node_at (backup_at root k n) (w_tree w) \<or>
          n = name \<and> node_at ?t (w_tree w2) = node_at (backup_at root k n) (w_tree w)"
          using res that kept [of n] sep(5) [of name n] sep'(1,2) [of n] by (cases "n = name") auto
      qed
      then have "\<forall>e. r2 = Inl e \<longrightarrow> (\<exists>n. \<forall>name. node_at (backup_at root k name) (w_tree w2) = node_at (backup_at root k name) (w_tree w) \<or>
         name = n \<and> node_at ?t (w_tree w2) = node_at (backup_at root k name) (w_tree w))" by blast
      moreover have "\<forall>e cur. r2 = Inl e \<longrightarrow> node_at ?t (w_tree w) = Some cur \<longrightarrow> node_at ?t (w_tree w2) = Some cur \<or> node_at ?trash (w_tree w2) = Some cur"
        using res out Inr last by metis
      moreover have "\<forall>m. r2 = Inr m \<longrightarrow> node_at ?t (w_tree w2) = node_at ?b (w_tree w) \<and> version_at host ?t (w_tree w2) = Some (pm_version m)"
        using res kept [of name] by simp
      ultimately show ?thesis unfolding same using b(2-4) by blast
    qed
  qed
qed
end
