(* ===== verification/Plugin_Service.thy ===== *)
theory Plugin_Service
  imports Plugin_Install
begin

text \<open>
  The plugin service (\<open>src-tauri/src/services/plugin_service.rs\<close>) with the loader (\<open>plugins/loader.rs\<close>)
  and the table of plugins (\<open>plugins/plugin_repo.rs\<close>). A handle is a number with its manifest; the trace
  says which handles were initialised and shut down. A call is two steps, so that anything may happen while
  a plugin works on it; what a library, a child process or the database answers is a parameter.
\<close>

section \<open>Loading\<close>

datatype load_error =
    Manifest_Io ustring
  | Load_Manifest manifest_error
  | Load_Open ustring
  | Missing_Symbol ustring
  | Init_Failed int
  | Bad_Abi nat

fun load_error_text :: "load_error \<Rightarrow> ustring" where
  "load_error_text (Manifest_Io e) = ([35835, 21462] @ lit '' manifest '' @ [22833, 36133, 58, 32] @ e)"
| "load_error_text (Load_Manifest e) = manifest_error_text e"
| "load_error_text (Load_Open e) = ([25171, 24320, 21160, 24577, 24211, 22833, 36133, 58, 32] @ e)"
| "load_error_text (Missing_Symbol e) = ([32570, 23569, 23548, 20986, 31526, 21495, 58, 32] @ e)"
| "load_error_text (Init_Failed c) = (lit ''at_plugin_init '' @ [22833, 36133, 65292, 25554, 20214, 36820, 22238, 38169, 35823, 30721, 32] @ show_int c)"
| "load_error_text (Bad_Abi v) = (lit ''abi '' @ [31526, 21495, 29256, 26412, 38750, 27861, 58, 32] @ show_dec v)"

record abi_info =
  ai_abi :: nat
  ai_id :: ustring
  ai_name :: ustring
  ai_version :: ustring
  ai_type :: ustring

text \<open>
  What the outside answers: whether a directory leads below the root, what the library or the child process
  that is opened with a number says, and the result of its \<open>at_plugin_init\<close>.
\<close>

record plugin_env = plugin_host +
  pe_inside :: "path \<Rightarrow> bool"
  pe_library :: "nat \<Rightarrow> path \<Rightarrow> load_error + abi_info"
  pe_init :: "nat \<Rightarrow> int"
  pe_spawn :: "nat \<Rightarrow> path \<Rightarrow> ustring + unit"

record plugin_handle =
  hd_no :: nat
  hd_manifest :: plugin_manifest
  hd_process :: bool
  hd_info :: abi_info

record plugin_row =
  pr_version :: ustring
  pr_type :: ustring
  pr_path :: path
  pr_enabled :: bool
  pr_abi :: nat
  pr_transport :: ustring

datatype trace = Initialised nat | Shut_Down nat | Stopped nat

record open_call =
  oc_no :: nat
  oc_id :: ustring
  oc_handle :: plugin_handle
  oc_timeout :: nat
  oc_max :: nat

record plugin_service =
  ps_world :: disk
  ps_root :: path
  ps_config :: settings_db
  ps_table :: "(ustring \<times> plugin_row) list"
  ps_faults :: "core_error option list"
  ps_loaded :: "(ustring \<times> plugin_handle) list"
  ps_quarantined :: "plugin_handle list"
  ps_open :: "open_call list"
  ps_errors :: "(ustring \<times> ustring) list"
  ps_events :: "(ustring \<times> ustring \<times> ustring option) list"
  ps_trace :: "trace list"
  ps_next :: nat

type_synonym ('e, 'a) ps_act = "(plugin_service, 'e, 'a) act"

definition ps_do :: "(plugin_service \<Rightarrow> plugin_service) \<Rightarrow> ('e, unit) ps_act" where
  "ps_do f s = (Inr (), f s)"

definition ps_files :: "('e, 'a) io \<Rightarrow> ('e, 'a) ps_act" where
  "ps_files m s = (case m (ps_world s) of (r, w') \<Rightarrow> (r, s\<lparr>ps_world := w'\<rparr>))"

definition safe_join :: "path \<Rightarrow> ustring \<Rightarrow> load_error + path" where
  "safe_join dir rel = (if escapes rel then Inl (Load_Manifest Path_Escape) else Inr (resolve dir rel))"

text \<open>The manifest of a directory, read and checked.\<close>

definition checked_manifest :: "plugin_env \<Rightarrow> path \<Rightarrow> (load_error, plugin_manifest) io" where
  "checked_manifest env dir =
     io_bind (io_err (\<lambda>e. Manifest_Io (ph_io_text env e)) (std_read_text (manifest_path dir))) (\<lambda>t.
     io_bind (io_lift (rmap_err Manifest_Io (parse_manifest env t))) (\<lambda>m.
     io_bind (io_lift (rmap_err Load_Manifest (validate_manifest m (ph_platform env)))) (\<lambda>_. io_return m)))"

definition artifact_path :: "plugin_env \<Rightarrow> path \<Rightarrow> plugin_manifest \<Rightarrow> load_error + path" where
  "artifact_path env dir m =
     safe_join dir (case entry_for m (ph_platform env) of None \<Rightarrow> [] | Some rel \<Rightarrow> rel)"

definition inspect :: "plugin_env \<Rightarrow> path \<Rightarrow> (load_error, plugin_manifest) io" where
  "inspect env dir =
     io_bind (checked_manifest env dir) (\<lambda>m.
     io_bind (io_lift (artifact_path env dir m)) (\<lambda>artifact.
     io_look (\<lambda>w. file_at artifact (w_tree w)) (\<lambda>there.
     if there then io_return m else io_fail (Load_Open ([24179, 21488, 20135, 29289, 19981, 23384, 22312, 58, 32] @ path_text artifact)))))"

definition opened :: "(nat \<Rightarrow> ('e, 'a) ps_act) \<Rightarrow> ('e, 'a) ps_act" where
  "opened f = io_look ps_next (\<lambda>n. io_bind (ps_do (\<lambda>s. s\<lparr>ps_next := n + 1\<rparr>)) (\<lambda>_. f n))"

definition log_trace :: "trace \<Rightarrow> plugin_service \<Rightarrow> plugin_service" where
  "log_trace x s = s\<lparr>ps_trace := ps_trace s @ [x]\<rparr>"

definition load_one :: "plugin_env \<Rightarrow> path \<Rightarrow> (load_error, plugin_handle) ps_act" where
  "load_one env dir =
     io_bind (ps_files (checked_manifest env dir)) (\<lambda>m.
     io_bind (io_lift (artifact_path env dir m)) (\<lambda>lib.
     opened (\<lambda>n.
     io_bind (io_lift (pe_library env n lib)) (\<lambda>info.
     if ai_abi info \<noteq> HOST_ABI_VERSION then io_fail (Bad_Abi (ai_abi info))
     else if ai_id info \<noteq> pm_id m then io_fail (Load_Manifest (Bad_Id (lit ''manifest='' @ pm_id m @ [32, 23454, 38469, 61] @ ai_id info)))
     else io_bind (ps_do (log_trace (Initialised n))) (\<lambda>_.
       if pe_init env n \<noteq> 0 then io_fail (Init_Failed (pe_init env n))
       else io_return \<lparr>hd_no = n, hd_manifest = m, hd_process = False, hd_info = info\<rparr>)))))"

text \<open>A child process is started by the handshake; its information is the one of the manifest.\<close>

definition process_info :: "plugin_manifest \<Rightarrow> abi_info" where
  "process_info m = \<lparr>ai_abi = 1, ai_id = pm_id m, ai_name = pm_name m, ai_version = pm_version m, ai_type = pm_type m\<rparr>"

definition load_dir :: "plugin_env \<Rightarrow> path \<Rightarrow> (ustring, plugin_handle) ps_act" where
  "load_dir env dir =
     io_bind (io_err load_error_text (ps_files (inspect env dir))) (\<lambda>m.
     case entry_for m (ph_platform env) of
       None \<Rightarrow> io_fail (lit ''manifest '' @ [32570, 23569, 24403, 21069, 24179, 21488, 20135, 29289, 58, 32] @ ph_platform env)
     | Some rel \<Rightarrow>
         if is_process m then
           io_bind (io_lift (rmap_err load_error_text (safe_join dir rel))) (\<lambda>exe.
           opened (\<lambda>n. io_bind (io_lift (pe_spawn env n exe)) (\<lambda>_.
             io_return \<lparr>hd_no = n, hd_manifest = m, hd_process = True, hd_info = process_info m\<rparr>)))
         else io_err load_error_text (load_one env dir))"

section \<open>The table\<close>

definition db_do :: "((ustring \<times> plugin_row) list \<Rightarrow> (ustring \<times> plugin_row) list) \<Rightarrow>
    ((ustring \<times> plugin_row) list \<Rightarrow> 'a) \<Rightarrow> (core_error, 'a) ps_act" where
  "db_do change answer s =
     (let s' = s\<lparr>ps_faults := tl (ps_faults s)\<rparr> in
      case (case ps_faults s of [] \<Rightarrow> None | f # _ \<Rightarrow> f) of
        Some e \<Rightarrow> (Inl e, s')
      | None \<Rightarrow> (Inr (answer (ps_table s)), s'\<lparr>ps_table := change (ps_table s)\<rparr>))"

definition row_upsert :: "ustring \<Rightarrow> plugin_row \<Rightarrow> (core_error, unit) ps_act" where
  "row_upsert k row = db_do
     (\<lambda>t. AList.update k (case map_of t k of None \<Rightarrow> row | Some old \<Rightarrow> row\<lparr>pr_enabled := pr_enabled old\<rparr>) t) (\<lambda>_. ())"

definition row_set_enabled :: "ustring \<Rightarrow> bool \<Rightarrow> (core_error, unit) ps_act" where
  "row_set_enabled k b = db_do (map (\<lambda>(x, row). (x, if x = k then row\<lparr>pr_enabled := b\<rparr> else row))) (\<lambda>_. ())"

definition row_get :: "ustring \<Rightarrow> (core_error, plugin_row option) ps_act" where
  "row_get k = db_do id (\<lambda>t. map_of t k)"

definition row_remove :: "ustring \<Rightarrow> (core_error, unit) ps_act" where
  "row_remove k = db_do (filter (\<lambda>(x, _). x \<noteq> k)) (\<lambda>_. ())"

definition row_list :: "(core_error, (ustring \<times> plugin_row) list) ps_act" where
  "row_list = db_do id (sort_key fst)"

definition row_remove_except :: "ustring list \<Rightarrow> (core_error, unit) ps_act" where
  "row_remove_except keep = db_do (filter (\<lambda>(x, _). x \<in> set keep)) (\<lambda>_. ())"

section \<open>Handles\<close>

text \<open>A handle lives while the map, the quarantine or a call refers to it; what is dropped then is shut down.\<close>

definition alive :: "plugin_service \<Rightarrow> nat set" where
  "alive s = hd_no ` (snd ` set (ps_loaded s) \<union> set (ps_quarantined s) \<union> oc_handle ` set (ps_open s))"

definition release :: "plugin_handle \<Rightarrow> plugin_service \<Rightarrow> plugin_service" where
  "release h s =
     (if hd_no h \<in> alive s then s else log_trace (if hd_process h then Stopped (hd_no h) else Shut_Down (hd_no h)) s)"

definition unload_handle :: "ustring \<Rightarrow> plugin_service \<Rightarrow> plugin_service" where
  "unload_handle k s =
     (case map_of (ps_loaded s) k of
        None \<Rightarrow> s
      | Some h \<Rightarrow>
          (let s' = s\<lparr>ps_loaded := AList.delete k (ps_loaded s)\<rparr>
           in if hd_process h then log_trace (Stopped (hd_no h)) s' else release h s'))"

definition put_loaded :: "ustring \<Rightarrow> plugin_handle \<Rightarrow> plugin_service \<Rightarrow> plugin_service" where
  "put_loaded k h s =
     (let s' = s\<lparr>ps_loaded := AList.update k h (ps_loaded s)\<rparr>
      in case map_of (ps_loaded s) k of None \<Rightarrow> s' | Some old \<Rightarrow> release old s')"

text \<open>Replacing the whole map; leaving the program, when the lock of the calls is free.\<close>

definition replace_loaded :: "(ustring \<times> plugin_handle) list \<Rightarrow> plugin_service \<Rightarrow> plugin_service" where
  "replace_loaded new s = fold (release \<circ> snd) (ps_loaded s) (s\<lparr>ps_loaded := new\<rparr>)"

definition unload_all :: "bool \<Rightarrow> plugin_service \<Rightarrow> plugin_service" where
  "unload_all lock_free s = (if lock_free then replace_loaded [] s else s)"

definition set_last_error :: "ustring \<Rightarrow> ustring option \<Rightarrow> plugin_service \<Rightarrow> plugin_service" where
  "set_last_error k msg s =
     s\<lparr>ps_errors := (case msg of Some m \<Rightarrow> AList.update k m (ps_errors s) | None \<Rightarrow> AList.delete k (ps_errors s))\<rparr>"

definition emit_change :: "ustring \<Rightarrow> ustring \<Rightarrow> ustring option \<Rightarrow> plugin_service \<Rightarrow> plugin_service" where
  "emit_change k phase version s = s\<lparr>ps_events := ps_events s @ [(k, phase, version)]\<rparr>"

section \<open>Scanning and listing\<close>

record plugin_view =
  pv_id :: ustring
  pv_name :: ustring
  pv_version :: ustring
  pv_type :: ustring
  pv_abi :: nat
  pv_transport :: ustring
  pv_enabled :: bool
  pv_loaded :: bool
  pv_dir :: path
  pv_capabilities :: "ustring list"
  pv_info :: "abi_info option"
  pv_rollback :: bool
  pv_error :: "ustring option"

definition list_candidate_dirs :: "plugin_env \<Rightarrow> path \<Rightarrow> ('e, (ustring \<times> path) list \<times> (ustring \<times> ustring) list) io" where
  "list_candidate_dirs env root =
     io_bind (io_try (std_list root)) (\<lambda>r.
     io_look (\<lambda>w. case r of
         Inl _ \<Rightarrow> ([], [])
       | Inr names \<Rightarrow>
           (let dirs = filter (\<lambda>n. dir_at (root @ [n]) (w_tree w) \<and> \<not> starts_with n [46]) names
            in (map (\<lambda>n. (n, root @ [n])) (sort (filter (\<lambda>n. pe_inside env (root @ [n])) dirs)),
                map (\<lambda>n. (n, load_error_text (Load_Manifest Path_Escape))) (filter (\<lambda>n. \<not> pe_inside env (root @ [n])) dirs)))) io_return)"

definition db_enabled :: "ustring \<Rightarrow> ('e, bool) ps_act" where
  "db_enabled k = io_bind (io_try (row_get k)) (\<lambda>r. io_return (case r of Inr (Some row) \<Rightarrow> pr_enabled row | _ \<Rightarrow> True))"

definition row_of :: "plugin_manifest \<Rightarrow> path \<Rightarrow> bool \<Rightarrow> plugin_row" where
  "row_of m dir enabled =
     \<lparr>pr_version = pm_version m, pr_type = pm_type m, pr_path = dir, pr_enabled = enabled, pr_abi = pm_abi m, pr_transport = transport_of m\<rparr>"

text \<open>What is loaded is collected on the side; a database that fails leaves early and drops it again.\<close>

definition put_new :: "ustring \<Rightarrow> plugin_handle \<Rightarrow> (ustring \<times> plugin_handle) list \<Rightarrow> (core_error, (ustring \<times> plugin_handle) list) ps_act" where
  "put_new k h new =
     io_bind (ps_do (case map_of new k of None \<Rightarrow> (\<lambda>s. s) | Some old \<Rightarrow> release old)) (\<lambda>_. io_return (AList.update k h new))"

definition or_drop :: "(ustring \<times> plugin_handle) list \<Rightarrow> (core_error, 'a) ps_act \<Rightarrow> (core_error, 'a) ps_act" where
  "or_drop new m =
     io_bind (io_try m) (\<lambda>r. case r of
       Inr x \<Rightarrow> io_return x
     | Inl e \<Rightarrow> io_bind (ps_do (fold (release \<circ> snd) new)) (\<lambda>_. io_fail e))"

fun scan_each :: "plugin_env \<Rightarrow> (ustring \<times> path) list \<Rightarrow> (ustring \<times> ustring) list \<Rightarrow> (ustring \<times> plugin_handle) list \<Rightarrow> ustring list \<Rightarrow>
    (core_error, (ustring \<times> ustring) list \<times> (ustring \<times> plugin_handle) list \<times> ustring list) ps_act" where
  "scan_each env [] errors new ids = io_return (errors, new, ids)"
| "scan_each env ((name, dir) # dirs) errors new ids =
     io_bind (io_try (ps_files (inspect env dir))) (\<lambda>r.
     case r of
       Inl e \<Rightarrow> scan_each env dirs (errors @ [(name, load_error_text e)]) new ids
     | Inr m \<Rightarrow>
         (let k = pm_id m in
          io_bind (db_enabled k) (\<lambda>enabled.
          io_bind (or_drop new (row_upsert k (row_of m dir enabled))) (\<lambda>_.
          if \<not> enabled then scan_each env dirs errors new (ids @ [k])
          else io_bind (io_try (load_dir env dir)) (\<lambda>r.
            case r of
              Inr h \<Rightarrow> io_bind (put_new k h new) (\<lambda>new. scan_each env dirs errors new (ids @ [k]))
            | Inl e \<Rightarrow> io_bind (ps_do (set_last_error k (Some e))) (\<lambda>_.
                scan_each env dirs (errors @ [(name, e)]) new (ids @ [k])))))))"

definition plugin_scan :: "plugin_env \<Rightarrow> (core_error, ustring list \<times> (ustring \<times> ustring) list) ps_act" where
  "plugin_scan env =
     io_look ps_root (\<lambda>root.
     io_bind (ps_files (list_candidate_dirs env root)) (\<lambda>(dirs, errors).
     io_bind (scan_each env dirs errors [] []) (\<lambda>(errors, new, ids).
     io_bind (ps_do (replace_loaded new)) (\<lambda>_.
     io_bind (row_remove_except ids) (\<lambda>_.
     io_look (\<lambda>s. map fst (ps_loaded s)) (\<lambda>loaded. io_return (loaded, errors)))))))"

definition view_of :: "plugin_service \<Rightarrow> ustring \<Rightarrow> plugin_row \<Rightarrow> bool \<Rightarrow> plugin_view" where
  "view_of s k row rollback =
     (let h = map_of (ps_loaded s) k
      in \<lparr>pv_id = k, pv_name = (case h of None \<Rightarrow> [] | Some h \<Rightarrow> pm_name (hd_manifest h)), pv_version = pr_version row,
          pv_type = pr_type row, pv_abi = pr_abi row, pv_transport = pr_transport row, pv_enabled = pr_enabled row,
          pv_loaded = (h \<noteq> None), pv_dir = pr_path row,
          pv_capabilities = (case h of None \<Rightarrow> [] | Some h \<Rightarrow> pm_capabilities (hd_manifest h)),
          pv_info = map_option hd_info h, pv_rollback = rollback, pv_error = map_of (ps_errors s) k\<rparr>)"

fun views_of :: "(ustring \<times> plugin_row) list \<Rightarrow> ('e, plugin_view list) ps_act" where
  "views_of [] = io_return []"
| "views_of ((k, row) # rs) =
     io_look ps_root (\<lambda>root.
     io_bind (ps_files (latest_backup root k)) (\<lambda>b.
     io_look (\<lambda>s. view_of s k row (b \<noteq> None)) (\<lambda>v.
     io_bind (views_of rs) (\<lambda>vs. io_return (v # vs)))))"

definition plugin_list :: "(core_error, plugin_view list) ps_act" where
  "plugin_list = io_bind row_list views_of"

definition view_or :: "ustring \<Rightarrow> ustring \<Rightarrow> (core_error, plugin_view) ps_act" where
  "view_or k msg =
     io_bind plugin_list (\<lambda>vs. case List.find (\<lambda>v. pv_id v = k) vs of
       None \<Rightarrow> io_fail (Core_Internal msg) | Some v \<Rightarrow> io_return v)"

definition manifest_of :: "ustring \<Rightarrow> plugin_service \<Rightarrow> plugin_manifest option" where
  "manifest_of k s = map_option hd_manifest (map_of (ps_loaded s) k)"

section \<open>Calls\<close>

definition DEFAULT_CALL_TIMEOUT_MS :: nat where "DEFAULT_CALL_TIMEOUT_MS = 30000"
definition DEFAULT_MAX_PAYLOAD_KB :: nat where "DEFAULT_MAX_PAYLOAD_KB = 8192"

definition setting_within :: "settings_db \<Rightarrow> ustring \<Rightarrow> nat \<Rightarrow> nat \<Rightarrow> nat \<Rightarrow> nat" where
  "setting_within db key d lo hi =
     (case config_get db key (show_dec d) of
        Inl _ \<Rightarrow> d
      | Inr v \<Rightarrow> (case parse_unsigned u64_max 10 v of Inl _ \<Rightarrow> d | Inr n \<Rightarrow> if lo \<le> n \<and> n \<le> hi then n else d))"

text \<open>The milliseconds a call may take, and the bytes it may get or give.\<close>

definition call_limits :: "settings_db \<Rightarrow> nat \<times> nat" where
  "call_limits db =
     (setting_within db (lit ''app.plugins.call_timeout_ms'') DEFAULT_CALL_TIMEOUT_MS 100 600000,
      setting_within db (lit ''app.plugins.max_payload_kb'') DEFAULT_MAX_PAYLOAD_KB 1 65536 * 1024)"

text \<open>How \<open>Duration\<close> prints a number of milliseconds.\<close>

definition duration_text :: "nat \<Rightarrow> ustring" where
  "duration_text ms =
     (if 1000 \<le> ms then
        (let fraction = rev (dropWhile (\<lambda>c. c = 48) (rev (pad_left 3 (show_dec (ms mod 1000)))))
         in show_dec (ms div 1000) @ (if ms mod 1000 = 0 then [] else 46 # fraction) @ (lit ''s''))
      else if ms = 0 then (lit ''0ns'') else show_dec ms @ (lit ''ms''))"

datatype call_error = Call_Timeout nat | Plugin_Input_Too_Large nat | Plugin_Output_Too_Large nat | Worker_Gone

fun call_error_text :: "call_error \<Rightarrow> ustring" where
  "call_error_text (Call_Timeout t) = ([25554, 20214, 35843, 29992, 36229, 26102, 65288] @ duration_text t @ [65289, 65292, 24050, 20572, 27490, 35813, 25554, 20214])"
| "call_error_text (Plugin_Input_Too_Large n) = ([36755, 20837, 36229, 36807, 19978, 38480, 32] @ show_dec n @ [32, 23383, 33410])"
| "call_error_text (Plugin_Output_Too_Large n) = ([25554, 20214, 36755, 20986, 36229, 36807, 19978, 38480, 32] @ show_dec n @ [32, 23383, 33410, 65292, 24050, 20002, 24323])"
| "call_error_text Worker_Gone = [25554, 20214, 35843, 29992, 32447, 31243, 24322, 24120, 36864, 20986]"

datatype process_error =
    Spawn_Failed ustring ustring
  | Handshake_Failed ustring
  | Process_Crashed "int option"
  | Process_Timeout nat
  | Bad_Protocol ustring
  | Process_Io ustring

fun process_error_text :: "process_error \<Rightarrow> ustring" where
  "process_error_text (Spawn_Failed p e) = ([26080, 27861, 21551, 21160, 25554, 20214, 36827, 31243, 32] @ p @ lit '': '' @ e)"
| "process_error_text (Handshake_Failed e) = ([25554, 20214, 25569, 25163, 22833, 36133, 58, 32] @ e)"
| "process_error_text (Process_Crashed c) =
     ([25554, 20214, 36827, 31243, 23849, 28291, 65288, 36864, 20986, 30721, 32] @ (case c of None \<Rightarrow> lit ''None'' | Some c \<Rightarrow> lit ''Some('' @ show_int c @ lit '')'') @ [65289])"
| "process_error_text (Process_Timeout t) = ([25554, 20214, 35843, 29992, 36229, 26102, 65288] @ duration_text t @ [65289, 65292, 36827, 31243, 24050, 32456, 27490])"
| "process_error_text (Bad_Protocol e) = ([25554, 20214, 21709, 24212, 21327, 35758, 38169, 35823, 58, 32] @ e)"
| "process_error_text (Process_Io e) = ([73, 79, 32, 38169, 35823, 58, 32] @ e)"

text \<open>The first half of a call: it may be refused; else it holds the handle.\<close>

definition call_begin :: "ustring \<Rightarrow> bytes \<Rightarrow> (core_error, nat) ps_act" where
  "call_begin k input =
     io_bind (row_get k) (\<lambda>row.
     if (case row of Some r \<Rightarrow> \<not> pr_enabled r | None \<Rightarrow> False)
     then io_fail (Core_Internal ([25554, 20214, 24050, 31105, 29992, 58, 32] @ k @ [65288, 22312, 25554, 20214, 20013, 24515, 21551, 29992, 21518, 20877, 35843, 29992, 65289]))
     else io_look (\<lambda>s. (map_of (ps_loaded s) k, call_limits (ps_config s))) (\<lambda>(h, timeout, most).
       case h of
         None \<Rightarrow> io_fail (Core_Internal ([25554, 20214, 26410, 21152, 36733, 25110, 19981, 23384, 22312, 58, 32] @ k @ [65288, 21487, 33021, 34987, 31105, 29992, 25110, 19978, 27425, 21152, 36733, 22833, 36133, 65292, 35831, 21047, 26032, 25195, 25551, 65289]))
       | Some h \<Rightarrow>
           if \<not> hd_process h \<and> 0 < most \<and> most < length input
           then io_fail (Core_Internal (call_error_text (Plugin_Input_Too_Large most)))
           else opened (\<lambda>n. io_bind (ps_do (\<lambda>s. s\<lparr>ps_open := \<lparr>oc_no = n, oc_id = k, oc_handle = h, oc_timeout = timeout, oc_max = most\<rparr> # ps_open s\<rparr>)) (\<lambda>_.
             io_return n))))"

definition close_call :: "open_call \<Rightarrow> plugin_service \<Rightarrow> plugin_service" where
  "close_call c s = s\<lparr>ps_open := filter (\<lambda>x. oc_no x \<noteq> oc_no c) (ps_open s)\<rparr>"

definition leave_call :: "open_call \<Rightarrow> plugin_service \<Rightarrow> plugin_service" where
  "leave_call c s = release (oc_handle c) (close_call c s)"

text \<open>What a library answers: its code and output, nothing in time, or a thread that could not be had.\<close>

datatype library_reply = Answered int bytes | No_Answer | No_Worker

text \<open>The handle of a call without an answer is put away for good; what the map holds under its id is dropped.\<close>

definition quarantine :: "open_call \<Rightarrow> plugin_service \<Rightarrow> plugin_service" where
  "quarantine c s =
     (let s1 = (close_call c s)\<lparr>ps_quarantined := ps_quarantined s @ [oc_handle c]\<rparr>;
          s2 = s1\<lparr>ps_loaded := AList.delete (oc_id c) (ps_loaded s1)\<rparr>
      in case map_of (ps_loaded s1) (oc_id c) of None \<Rightarrow> s2 | Some h \<Rightarrow> release h s2)"

definition finish_library :: "open_call \<Rightarrow> library_reply \<Rightarrow> (core_error, int \<times> bytes) ps_act" where
  "finish_library c reply =
     (case reply of
        Answered code out \<Rightarrow>
          io_bind (ps_do (leave_call c)) (\<lambda>_.
          if 0 < oc_max c \<and> oc_max c < length out then io_fail (Core_Internal (call_error_text (Plugin_Output_Too_Large (oc_max c))))
          else io_return (code, out))
      | No_Worker \<Rightarrow> io_bind (ps_do (leave_call c)) (\<lambda>_. io_fail (Core_Internal (call_error_text Worker_Gone)))
      | No_Answer \<Rightarrow>
          (let t = duration_text (oc_timeout c); k = oc_id c
           in io_bind (ps_do (quarantine c)) (\<lambda>_.
              io_bind (io_try (row_set_enabled k False)) (\<lambda>_.
              io_bind (ps_do (set_last_error k (Some ([35843, 29992, 36229, 26102, 65288] @ t @ [65289, 65292, 24050, 20572, 27490, 24182, 31105, 29992, 35813, 25554, 20214, 65307, 22914, 38656, 24674, 22797, 35831, 37325, 26032, 21551, 29992])))) (\<lambda>_.
              io_bind (ps_do (emit_change k (lit ''faulted'') None)) (\<lambda>_.
              io_fail (Core_Internal ([25554, 20214, 32] @ k @ [32, 35843, 29992, 36229, 26102, 65288] @ t @ [65289, 65292, 24050, 20572, 27490, 24182, 31105, 29992, 65307, 21487, 23581, 35797, 37325, 26032, 21551, 29992]))))))))"

definition finish_process :: "open_call \<Rightarrow> process_error + int \<times> bytes \<Rightarrow> (core_error, int \<times> bytes) ps_act" where
  "finish_process c reply =
     io_bind (ps_do (leave_call c)) (\<lambda>_.
     case reply of
       Inr pair \<Rightarrow> io_return pair
     | Inl e \<Rightarrow>
         if (case e of Process_Crashed _ \<Rightarrow> True | Process_Timeout _ \<Rightarrow> True | _ \<Rightarrow> False) then
           io_bind (ps_do (set_last_error (oc_id c) (Some (process_error_text e)))) (\<lambda>_.
           io_bind (ps_do (emit_change (oc_id c) (lit ''faulted'') None)) (\<lambda>_.
           io_fail (Core_Internal ([36827, 31243, 25554, 20214, 32] @ oc_id c @ lit '': '' @ process_error_text e))))
         else io_fail (Core_Internal (process_error_text e)))"

section \<open>Installing and going back\<close>

definition checked_upgrade :: "plugin_env \<Rightarrow> path \<Rightarrow> plugin_manifest \<Rightarrow> (core_error, bool) io" where
  "checked_upgrade env target m =
     io_look (\<lambda>w. node_at target (w_tree w) \<noteq> None) (\<lambda>existed.
     if \<not> existed then io_return False
     else io_bind (io_err (\<lambda>e. Core_Internal ([24050, 23433, 35013, 25554, 20214, 30340] @ lit '' manifest '' @ [19981, 21487, 35835, 65292, 25298, 32477, 35206, 30422, 58, 32] @ install_error_text env e)) (read_manifest_of env target)) (\<lambda>old.
       if version_gt (pm_version m) (pm_version old) then io_return True
       else io_fail (Core_Internal ([21319, 32423, 29256, 26412, 24517, 39035, 39640, 20110, 24403, 21069, 29256, 26412, 65288, 24403, 21069, 32] @ pm_version old @ [65292, 26032, 32] @ pm_version m @ [65289]))))"

definition core_of :: "plugin_env \<Rightarrow> install_error \<Rightarrow> core_error" where
  "core_of env e = Core_Internal (install_error_text env e)"

definition old_version_of :: "plugin_env \<Rightarrow> path \<Rightarrow> ustring \<Rightarrow> ('e, ustring) io" where
  "old_version_of env root k =
     io_bind (io_try (read_manifest_of env (plugin_dir root k))) (\<lambda>r.
     io_return (case r of Inr m \<Rightarrow> pm_version m | Inl _ \<Rightarrow> [26410, 30693]))"

text \<open>A copy of the source takes the place of what is installed; a swap that fails removes the copy.\<close>

definition place :: "plugin_env \<Rightarrow> path \<Rightarrow> path \<Rightarrow> plugin_manifest \<Rightarrow> (core_error, path option) io" where
  "place env root src m =
     io_bind (io_err (core_of env) (stage_copy env src root)) (\<lambda>staged.
     io_bind (io_try (commit_swap env root m staged)) (\<lambda>r.
     case r of
       Inr b \<Rightarrow> io_return b
     | Inl e \<Rightarrow> io_bind (io_try (std_remove_all staged)) (\<lambda>_. io_fail (core_of env e))))"

text \<open>A new version that does not load is replaced by the old one.\<close>

definition restore_old :: "plugin_env \<Rightarrow> path \<Rightarrow> ustring \<Rightarrow> path option \<Rightarrow> ('e, ustring) ps_act" where
  "restore_old env root k backup =
     (let target = plugin_dir root k in
      io_bind (io_try (ps_files (std_remove_all target))) (\<lambda>_.
      case backup of
        None \<Rightarrow> io_return [39318, 27425, 23433, 35013, 22833, 36133, 65292, 24050, 28165, 29702, 27531, 30041]
      | Some b \<Rightarrow>
          io_bind (io_try (ps_files (std_rename b target))) (\<lambda>r.
          case r of
            Inl _ \<Rightarrow> io_return [26087, 29256, 26412, 24674, 22797, 22833, 36133, 65292, 35831, 25163, 21160, 26816, 26597, 25554, 20214, 30446, 24405]
          | Inr _ \<Rightarrow>
              io_bind (io_try (load_dir env target)) (\<lambda>r.
              case r of
                Inr h \<Rightarrow>
                  io_bind (ps_do (put_loaded k h)) (\<lambda>_.
                  io_bind (ps_files (prune_backups root k None)) (\<lambda>_.
                  io_bind (ps_files (old_version_of env root k)) (\<lambda>v. io_return ([24050, 33258, 21160, 22238, 28378, 21040, 26087, 29256, 26412, 32] @ v))))
              | Inl e \<Rightarrow> io_return ([26087, 29256, 26412, 24674, 22797, 21518, 21152, 36733, 20063, 22833, 36133, 65288] @ e @ [65289, 65292, 25554, 20214, 24050, 31105, 29992, 65292, 35831, 26816, 26597, 25554, 20214, 30446, 24405])))))"

definition finish_install :: "plugin_env \<Rightarrow> path \<Rightarrow> plugin_manifest \<Rightarrow> bool \<Rightarrow> path option \<Rightarrow> plugin_handle \<Rightarrow> (core_error, unit) ps_act" where
  "finish_install env root m existed backup h =
     (let k = pm_id m in
      io_bind (db_enabled k) (\<lambda>enabled.
      io_bind (io_try (row_upsert k (row_of m (plugin_dir root k) enabled))) (\<lambda>r.
      case r of
        Inl e \<Rightarrow> io_bind (ps_do (release h)) (\<lambda>_. io_fail e)
      | Inr _ \<Rightarrow>
          io_bind (ps_do (put_loaded k h)) (\<lambda>_.
          io_bind (ps_do (set_last_error k None)) (\<lambda>_.
          io_bind (ps_files (prune_backups root k backup)) (\<lambda>_.
          ps_do (emit_change k (if existed then (lit ''upgraded'') else (lit ''installed'')) (Some (pm_version m)))))))))"

definition plugin_install :: "plugin_env \<Rightarrow> path \<Rightarrow> (core_error, plugin_view) ps_act" where
  "plugin_install env src =
     io_look ps_root (\<lambda>root.
     io_bind (io_err (core_of env) (ps_files (validate_source env src (ph_platform env)))) (\<lambda>m.
     let k = pm_id m; target = plugin_dir root k in
     io_bind (ps_files (checked_upgrade env target m)) (\<lambda>existed.
     io_bind (ps_do (unload_handle k)) (\<lambda>_.
     io_bind (ps_files (place env root src m)) (\<lambda>backup.
     io_bind (io_try (load_dir env target)) (\<lambda>r.
     case r of
       Inr h \<Rightarrow> io_bind (finish_install env root m existed backup h) (\<lambda>_. view_or k [23433, 35013, 21518, 21015, 34920, 26597, 35810, 22833, 36133])
     | Inl e \<Rightarrow>
         io_bind (restore_old env root k backup) (\<lambda>note_text.
         io_bind (ps_do (set_last_error k (Some e))) (\<lambda>_.
         io_bind (ps_do (emit_change k (lit ''install-failed'') (Some (pm_version m)))) (\<lambda>_.
         io_fail (Core_Internal ([25554, 20214, 32] @ pm_version m @ [32, 21152, 36733, 39564, 35777, 22833, 36133, 58, 32] @ e @ [65307] @ note_text)))))))))))"

definition service_rollback :: "plugin_env \<Rightarrow> ustring \<Rightarrow> (core_error, plugin_view) ps_act" where
  "service_rollback env k =
     io_look ps_root (\<lambda>root.
     io_bind (ps_do (unload_handle k)) (\<lambda>_.
     io_bind (io_err (core_of env) (ps_files (plugin_rollback env root k))) (\<lambda>m.
     io_bind (io_try (load_dir env (plugin_dir root k))) (\<lambda>r.
     case r of
       Inl e \<Rightarrow>
         io_bind (ps_do (set_last_error k (Some e))) (\<lambda>_.
         io_fail (Core_Internal ([22238, 28378, 23436, 25104, 20294, 21152, 36733, 22833, 36133, 58, 32] @ e @ [65307, 35831, 21047, 26032, 25195, 25551, 25110, 26816, 26597, 25554, 20214, 30446, 24405])))
     | Inr h \<Rightarrow>
         io_bind (db_enabled k) (\<lambda>enabled.
         io_bind (io_try (row_upsert k (row_of m (plugin_dir root k) enabled))) (\<lambda>r.
         case r of
           Inl e \<Rightarrow> io_bind (ps_do (release h)) (\<lambda>_. io_fail e)
         | Inr _ \<Rightarrow>
             io_bind (ps_do (put_loaded k h)) (\<lambda>_.
             io_bind (ps_do (set_last_error k None)) (\<lambda>_.
             io_bind (ps_do (emit_change k (lit ''rolled-back'') (Some (pm_version m)))) (\<lambda>_.
             view_or k [22238, 28378, 21518, 21015, 34920, 26597, 35810, 22833, 36133])))))))))"

definition service_uninstall :: "plugin_env \<Rightarrow> ustring \<Rightarrow> (core_error, unit) ps_act" where
  "service_uninstall env k =
     io_look ps_root (\<lambda>root.
     io_bind (ps_do (unload_handle k)) (\<lambda>_.
     io_bind (ps_files (plugin_uninstall env root k)) (\<lambda>_.
     io_bind (row_remove k) (\<lambda>_.
     io_bind (ps_do (set_last_error k None)) (\<lambda>_.
     ps_do (emit_change k (lit ''uninstalled'') None))))))"

definition plugin_set_enabled :: "plugin_env \<Rightarrow> ustring \<Rightarrow> bool \<Rightarrow> (core_error, plugin_view) ps_act" where
  "plugin_set_enabled env k enabled =
     io_bind (row_get k) (\<lambda>row.
     case row of
       None \<Rightarrow> io_fail (Core_Internal ([25554, 20214, 19981, 23384, 22312, 65288, 26410, 27880, 20876, 65289, 58, 32] @ k @ [65292, 35831, 20808, 21047, 26032, 25195, 25551]))
     | Some row \<Rightarrow>
         if \<not> enabled then
           io_bind (ps_do (unload_handle k)) (\<lambda>_.
           io_bind (row_set_enabled k False) (\<lambda>_.
           io_bind (ps_do (emit_change k (lit ''disabled'') (Some (pr_version row)))) (\<lambda>_. view_or k [21551, 20572, 21518, 21015, 34920, 26597, 35810, 22833, 36133])))
         else
           io_bind (io_try (load_dir env (pr_path row))) (\<lambda>r.
           case r of
             Inr h \<Rightarrow>
               io_bind (io_try (row_set_enabled k True)) (\<lambda>r.
               case r of
                 Inl e \<Rightarrow> io_bind (ps_do (release h)) (\<lambda>_. io_fail e)
               | Inr _ \<Rightarrow>
                   io_bind (ps_do (put_loaded k h)) (\<lambda>_.
                   io_bind (ps_do (set_last_error k None)) (\<lambda>_.
                   io_bind (ps_do (emit_change k (lit ''enabled'') (Some (pr_version row)))) (\<lambda>_. view_or k [21551, 20572, 21518, 21015, 34920, 26597, 35810, 22833, 36133]))))
           | Inl e \<Rightarrow>
               io_bind (row_set_enabled k False) (\<lambda>_.
               io_bind (ps_do (set_last_error k (Some e))) (\<lambda>_.
               io_bind (ps_do (emit_change k (lit ''faulted'') None)) (\<lambda>_.
               io_fail (Core_Internal ([21551, 29992, 22833, 36133, 58, 32] @ e)))))))"
end
