(* ===== verification/Plugin_Safety.thy ===== *)
theory Plugin_Safety
  imports Plugin_Service
begin

text \<open>
  What holds of the plugin service whatever the order of its operations: a library is shut down at most once
  and never while anything refers to it, a plugin that did not answer is put away for good, and an
  installation loses neither the old version nor the new one.
\<close>

section \<open>Rules for actions\<close>

definition valid :: "('s \<Rightarrow> bool) \<Rightarrow> ('s, 'e, 'a) act \<Rightarrow> ('s \<Rightarrow> bool) \<Rightarrow> ('a \<Rightarrow> 's \<Rightarrow> bool) \<Rightarrow> bool" where
  "valid P m E Q \<longleftrightarrow> (\<forall>s e s'. P s \<longrightarrow> m s = (Inl e, s') \<longrightarrow> E s') \<and> (\<forall>s x s'. P s \<longrightarrow> m s = (Inr x, s') \<longrightarrow> Q x s')"

named_theorems rules \<open>rules for \<open>valid\<close>\<close>

lemma validI: "(\<And>s e s'. P s \<Longrightarrow> m s = (Inl e, s') \<Longrightarrow> E s') \<Longrightarrow> (\<And>s x s'. P s \<Longrightarrow> m s = (Inr x, s') \<Longrightarrow> Q x s') \<Longrightarrow> valid P m E Q"
  by (auto simp: valid_def)

lemma validD:
  "valid P m E Q \<Longrightarrow> P s \<Longrightarrow> m s = (Inl e, s') \<Longrightarrow> E s'"
  "valid P m E Q \<Longrightarrow> P s \<Longrightarrow> m s = (Inr x, s') \<Longrightarrow> Q x s'"
  by (auto simp: valid_def)

lemma valid_weak: "valid P m E Q \<Longrightarrow> (\<And>s. P' s \<Longrightarrow> P s) \<Longrightarrow> (\<And>s. E s \<Longrightarrow> E' s) \<Longrightarrow> (\<And>x s. Q x s \<Longrightarrow> Q' x s) \<Longrightarrow> valid P' m E' Q'"
  unfolding valid_def by blast

lemma valid_return [rules]: "(\<And>s. P s \<Longrightarrow> Q x s) \<Longrightarrow> valid P (io_return x) E Q"
  by (auto simp: valid_def io_return_def)

lemma valid_fail [rules]: "(\<And>s. P s \<Longrightarrow> E s) \<Longrightarrow> valid P (io_fail e) E Q"
  by (auto simp: valid_def io_fail_def)

lemma valid_lift [rules]: "(\<And>s. P s \<Longrightarrow> E s) \<Longrightarrow> (\<And>x s. r = Inr x \<Longrightarrow> P s \<Longrightarrow> Q x s) \<Longrightarrow> valid P (io_lift r) E Q"
  by (auto simp: valid_def io_lift_def)

lemma valid_do [rules]: "(\<And>s. P s \<Longrightarrow> Q () (f s)) \<Longrightarrow> valid P (ps_do f) E Q"
  by (auto simp: valid_def ps_do_def)

lemma valid_bind: "valid P m E R \<Longrightarrow> (\<And>x. valid (R x) (f x) E Q) \<Longrightarrow> valid P (io_bind m f) E Q"
  by (fastforce simp: valid_def io_bind_def split: prod.splits sum.splits)

lemma valid_err [rules]: "valid P m E Q \<Longrightarrow> valid P (io_err g m) E Q"
proof (rule validI)
  fix s x s' assume v: "valid P m E Q" "P s"
  { fix e assume "io_err g m s = (Inl e, s')"
    then obtain e' where "m s = (Inl e', s')" by (cases "m s"; cases "fst (m s)") (auto simp: io_err_def)
    with validD(1) [OF v] show "E s'" by blast }
  assume "io_err g m s = (Inr x, s')"
  then have "m s = (Inr x, s')" by (cases "m s"; cases "fst (m s)") (auto simp: io_err_def)
  with validD(2) [OF v] show "Q x s'" by blast
qed

lemma valid_try: "valid P m (\<lambda>s. \<forall>e. Q (Inl e) s) (\<lambda>x. Q (Inr x)) \<Longrightarrow> valid P (io_try m) E Q"
proof (rule validI)
  fix s x s' assume v: "valid P m (\<lambda>s. \<forall>e. Q (Inl e) s) (\<lambda>x. Q (Inr x))" "P s" and r: "io_try m s = (Inr x, s')"
  show "Q x s'"
  proof (cases x)
    case (Inl e)
    with r have "m s = (Inl e, s')" by (auto simp: io_try_def split: prod.splits)
    with validD(1) [OF v] Inl show ?thesis by blast
  next
    case (Inr y)
    with r have "m s = (Inr y, s')" by (auto simp: io_try_def split: prod.splits)
    with validD(2) [OF v] Inr show ?thesis by blast
  qed
qed (auto simp: io_try_def split: prod.splits)

lemma valid_look: "(\<And>x. valid (\<lambda>s. P s \<and> f s = x) (m x) E Q) \<Longrightarrow> valid P (io_look f m) E Q"
  by (auto simp: valid_def io_look_def)

lemma valid_split [rules]:
  "(b \<Longrightarrow> valid P m E Q) \<Longrightarrow> (\<not> b \<Longrightarrow> valid P n E Q) \<Longrightarrow> valid P (if b then m else n) E Q"
  "(z = None \<Longrightarrow> valid P m E Q) \<Longrightarrow> (\<And>x. z = Some x \<Longrightarrow> valid P (h x) E Q) \<Longrightarrow> valid P (case z of None \<Rightarrow> m | Some x \<Rightarrow> h x) E Q"
  "(\<And>e. r = Inl e \<Longrightarrow> valid P (g e) E Q) \<Longrightarrow> (\<And>x. r = Inr x \<Longrightarrow> valid P (j x) E Q) \<Longrightarrow> valid P (case r of Inl e \<Rightarrow> g e | Inr x \<Rightarrow> j x) E Q"
  by (auto split: option.split sum.split)

section \<open>Handles\<close>

text \<open>The handles that were shut down, in order.\<close>

definition shut_downs :: "plugin_service \<Rightarrow> nat list" where
  "shut_downs s = List.map_filter (\<lambda>x. case x of Shut_Down n \<Rightarrow> Some n | _ \<Rightarrow> None) (ps_trace s)"

text \<open>
  No handle is shut down twice, none that is referred to is shut down, and those of a set on the way to the
  map are referred to by nothing else.
\<close>

definition held :: "nat set \<Rightarrow> plugin_service \<Rightarrow> bool" where
  "held H s \<longleftrightarrow> distinct (shut_downs s) \<and> set (shut_downs s) \<inter> (alive s \<union> H) = {} \<and> H \<inter> alive s = {} \<and>
     (\<forall>n \<in> alive s \<union> H \<union> set (shut_downs s). n < ps_next s) \<and>
     distinct (map fst (ps_loaded s)) \<and> distinct (map (hd_no \<circ> snd) (ps_loaded s))"

definition handles_ok :: "plugin_service \<Rightarrow> bool" where
  "handles_ok s \<longleftrightarrow> held {} s"

lemma held_less: "held H s \<Longrightarrow> H' \<subseteq> H \<Longrightarrow> held H' s"
  by (auto simp: held_def)

text \<open>The invariant is not about the files, the table, the errors and the events.\<close>

lemma held_fields [simp]:
  "held H (s\<lparr>ps_world := a\<rparr>) = held H s" "held H (s\<lparr>ps_table := b\<rparr>) = held H s" "held H (s\<lparr>ps_faults := c\<rparr>) = held H s"
  "held H (s\<lparr>ps_errors := d\<rparr>) = held H s" "held H (s\<lparr>ps_events := e\<rparr>) = held H s"
  by (simp_all add: held_def alive_def shut_downs_def)

lemma shut_downs_log: "shut_downs (log_trace x s) = shut_downs s @ (case x of Shut_Down n \<Rightarrow> [n] | _ \<Rightarrow> [])"
  by (auto simp: shut_downs_def log_trace_def map_filter_def split: trace.split)

lemma alive_log [simp]: "alive (log_trace x s) = alive s" "ps_next (log_trace x s) = ps_next s" "ps_loaded (log_trace x s) = ps_loaded s"
  by (simp_all add: alive_def log_trace_def)

lemma held_log: "held H s \<Longrightarrow> (\<And>n. x \<noteq> Shut_Down n) \<Longrightarrow> held H (log_trace x s)"
  by (cases x) (auto simp: held_def shut_downs_log)

lemma held_release: "held (insert (hd_no h) H) s \<Longrightarrow> hd_no h \<notin> H \<Longrightarrow> held H (release h s)"
  by (auto simp: held_def release_def shut_downs_log)

text \<open>What is taken away is on the way until it is dropped.\<close>

lemma held_taken:
  assumes "held H s" "alive s' \<subseteq> alive s" "ps_trace s' = ps_trace s" "ps_next s' = ps_next s"
    "distinct (map fst (ps_loaded s'))" "distinct (map (hd_no \<circ> snd) (ps_loaded s'))" "N \<subseteq> alive s"
  shows "held (H \<union> (N - alive s')) s'"
  using assms by (auto simp: held_def shut_downs_def)

lemma release_taken:
  assumes "held H s" "alive s' \<subseteq> alive s" "ps_trace s' = ps_trace s" "ps_next s' = ps_next s"
    "distinct (map fst (ps_loaded s'))" "distinct (map (hd_no \<circ> snd) (ps_loaded s'))" "hd_no h \<in> alive s"
  shows "held H (release h s')"
proof (cases "hd_no h \<in> alive s'")
  case True
  with held_less [OF held_taken [OF assms(1-6), of "{}"], of H] show ?thesis by (simp add: release_def)
next
  case False
  with held_taken [OF assms(1-6), of "{hd_no h}"] assms(7) have "held (insert (hd_no h) H) s'" by (simp add: insert_Diff_if)
  moreover have "hd_no h \<notin> H" using assms(1,7) by (auto simp: held_def)
  ultimately show ?thesis by (rule held_release)
qed

lemma held_release_list:
  "held (H \<union> (hd_no ` set hs - alive s)) s \<Longrightarrow> hd_no ` set hs \<inter> H = {} \<Longrightarrow> distinct (map hd_no hs) \<Longrightarrow>
   held H (fold release hs s) \<and> alive (fold release hs s) = alive s"
proof (induction hs arbitrary: s)
  case (Cons h hs)
  show ?case
  proof (cases "hd_no h \<in> alive s")
    case True
    with Cons show ?thesis by (simp add: release_def insert_Diff_if)
  next
    case False
    let ?H = "H \<union> (hd_no ` set hs - alive s)"
    have a: "alive (release h s) = alive s" by (simp add: release_def)
    have "held ?H (release h s)"
      by (rule held_release) (use Cons.prems False in \<open>auto simp: insert_Diff_if elim: held_less\<close>)
    with Cons.IH [of "release h s"] Cons.prems a show ?thesis by simp
  qed
qed simp

lemma fold_snd: "fold (f \<circ> g) xs = fold f (map g xs)"
  by (simp add: fold_map)

lemma distinct_values_delete: "distinct (map (f \<circ> snd) xs) \<Longrightarrow> distinct (map (f \<circ> snd) (AList.delete k xs))"
  by (auto simp: AList.delete_eq distinct_map inj_on_def)

lemma delete_alive: "alive (s\<lparr>ps_loaded := AList.delete k (ps_loaded s)\<rparr>) \<subseteq> alive s"
  by (auto simp: alive_def AList.delete_eq)

lemma loaded_alive: "map_of (ps_loaded s) k = Some h \<Longrightarrow> hd_no h \<in> alive s"
  by (force simp: alive_def dest: map_of_SomeD)

lemma held_unload: "held H s \<Longrightarrow> held H (unload_handle k s)"
proof (cases "map_of (ps_loaded s) k")
  case (Some h)
  assume h: "held H s"
  let ?s = "s\<lparr>ps_loaded := AList.delete k (ps_loaded s)\<rparr>"
  have d: "distinct (map fst (ps_loaded ?s))" "distinct (map (hd_no \<circ> snd) (ps_loaded ?s))"
    using h by (auto simp: held_def distinct_delete intro: distinct_values_delete)
  note t = held_taken [OF h delete_alive, of k "{}"]
  from t d have "held H ?s" by simp
  moreover have "held H (release h ?s)" by (rule release_taken [OF h delete_alive]) (use d loaded_alive [OF Some] in auto)
  ultimately show ?thesis using Some by (auto simp: unload_handle_def Let_def intro: held_log)
qed (simp add: unload_handle_def)

lemma update_values: "f ` snd ` set (AList.update k h xs) \<subseteq> insert (f h) (f ` snd ` set xs)"
  by (induction xs) auto

lemma distinct_values_update:
  "distinct (map (f \<circ> snd) xs) \<Longrightarrow> f h \<notin> f ` snd ` set xs \<Longrightarrow> distinct (map (f \<circ> snd) (AList.update k h xs))"
proof (induction xs)
  case (Cons x xs)
  have "f (snd x) \<notin> f ` snd ` set (AList.update k h xs)"
  proof -
    have "f (snd x) \<noteq> f h" "f (snd x) \<notin> f ` snd ` set xs" using Cons.prems by (auto simp: image_comp)
    with update_values [of f k h xs] show ?thesis by blast
  qed
  with Cons show ?case by (auto simp: image_comp)
qed simp

lemma held_put: "held (insert (hd_no h) H) s \<Longrightarrow> hd_no h \<notin> H \<Longrightarrow> held H (put_loaded k h s)"
proof -
  assume h: "held (insert (hd_no h) H) s" "hd_no h \<notin> H"
  let ?s = "s\<lparr>ps_loaded := AList.update k h (ps_loaded s)\<rparr>"
  have sub: "alive ?s \<subseteq> insert (hd_no h) (alive s)"
    using update_values [of hd_no k h "ps_loaded s"] by (simp add: alive_def image_Un) blast
  have "map_of (ps_loaded ?s) k = Some h" by (simp add: update_conv')
  then have "hd_no h \<in> alive ?s" by (rule loaded_alive)
  have d: "distinct (map fst (ps_loaded ?s))" "distinct (map (hd_no \<circ> snd) (ps_loaded ?s))"
    using h(1) by (auto simp: held_def distinct_update alive_def image_iff intro!: distinct_values_update)
  have ok: "held H ?s" using h sub d by (auto simp: held_def shut_downs_def)
  show ?thesis
  proof (cases "map_of (ps_loaded s) k")
    case None
    with ok show ?thesis by (simp add: put_loaded_def)
  next
    case (Some old)
    have "held H (release old ?s)"
    proof (cases "hd_no old \<in> alive ?s")
      case False
      have "hd_no old \<in> alive s" using loaded_alive [OF Some] .
      then have "held (insert (hd_no old) H) ?s" "hd_no old \<notin> H"
        using ok h(1) False by (auto simp: held_def shut_downs_def)
      then show ?thesis by (rule held_release)
    qed (simp add: release_def ok)
    with Some show ?thesis by (simp add: put_loaded_def Let_def)
  qed
qed

text \<open>An action that leaves the invariant as it is, and one that ends with a handle that was on the way.\<close>

definition stays :: "('e, 'a) ps_act \<Rightarrow> bool" where
  "stays m \<longleftrightarrow> (\<forall>H. valid (held H) m (held H) (\<lambda>_. held H))"

definition takes :: "plugin_handle \<Rightarrow> ('e, 'a) ps_act \<Rightarrow> bool" where
  "takes h m \<longleftrightarrow> (\<forall>H. hd_no h \<notin> H \<longrightarrow> valid (held (insert (hd_no h) H)) m (held H) (\<lambda>_. held H))"

named_theorems staying \<open>actions that leave the invariant as it is\<close>

lemma stays_basic [staying]: "stays (io_return x)" "stays (io_fail e)" "stays (io_lift r)"
  by (auto simp: stays_def intro!: rules)

lemma stays_bind [staying]: "stays m \<Longrightarrow> (\<And>x. stays (f x)) \<Longrightarrow> stays (io_bind m f)"
  by (auto simp: stays_def intro: valid_bind)

lemma stays_err [staying]: "stays m \<Longrightarrow> stays (io_err g m)"
  by (auto simp: stays_def intro: valid_err)

lemma stays_try [staying]: "stays m \<Longrightarrow> stays (io_try m)"
  by (auto simp: stays_def intro: valid_try)

lemma stays_look [staying]: "(\<And>x. stays (m x)) \<Longrightarrow> stays (io_look f m)"
  unfolding stays_def io_look_def valid_def by blast

lemma stays_split [staying]:
  "(b \<Longrightarrow> stays m) \<Longrightarrow> (\<not> b \<Longrightarrow> stays n) \<Longrightarrow> stays (if b then m else n)"
  "stays m \<Longrightarrow> (\<And>x. stays (h x)) \<Longrightarrow> stays (case z of None \<Rightarrow> m | Some x \<Rightarrow> h x)"
  "(\<And>e. stays (g e)) \<Longrightarrow> (\<And>x. stays (j x)) \<Longrightarrow> stays (case r of Inl e \<Rightarrow> g e | Inr x \<Rightarrow> j x)"
  "(\<And>a b. stays (p a b)) \<Longrightarrow> stays (case y of (a, b) \<Rightarrow> p a b)"
  by (auto split: option.split sum.split prod.split)

lemma stays_files [staying]: "stays (ps_files m)"
  by (auto simp: stays_def valid_def ps_files_def split: prod.splits)

lemma stays_db [staying]: "stays (db_do change answer)"
  by (auto simp: stays_def valid_def db_do_def Let_def split: option.splits list.splits)

lemma stays_table [staying]:
  "stays (row_upsert k row)" "stays (row_set_enabled k b)" "stays (row_get k)" "stays (row_remove k)" "stays row_list" "stays (row_remove_except ks)"
  unfolding row_upsert_def row_set_enabled_def row_get_def row_remove_def row_list_def row_remove_except_def by (rule stays_db)+

lemma stays_do: "(\<And>H s. held H s \<Longrightarrow> held H (f s)) \<Longrightarrow> stays (ps_do f)"
  by (auto simp: stays_def intro!: valid_do)

lemma stays_notes [staying]: "stays (ps_do (set_last_error k msg))" "stays (ps_do (emit_change k phase version))" "stays (ps_do (unload_handle k))"
  by (rule stays_do; simp add: set_last_error_def emit_change_def held_unload)+

lemma takes_put [staying]: "takes h (ps_do (put_loaded k h))" "takes h (ps_do (release h))"
  by (auto simp: takes_def intro!: valid_do held_put held_release)

lemma takes_first [staying]: "takes h m \<Longrightarrow> (\<And>x. stays (f x)) \<Longrightarrow> takes h (io_bind m f)"
  unfolding takes_def stays_def by (blast intro: valid_bind)

lemma takes_then: "stays m \<Longrightarrow> (\<And>x. takes h (f x)) \<Longrightarrow> takes h (io_bind m f)"
proof -
  assume "stays m" and f: "\<And>x. takes h (f x)"
  have "valid (held (insert (hd_no h) H)) (io_bind m f) (held H) (\<lambda>_. held H)" if H: "hd_no h \<notin> H" for H
  proof (rule valid_bind)
    from \<open>stays m\<close> have "valid (held (insert (hd_no h) H)) m (held (insert (hd_no h) H)) (\<lambda>_. held (insert (hd_no h) H))"
      by (simp add: stays_def)
    then show "valid (held (insert (hd_no h) H)) m (held H) (\<lambda>_. held (insert (hd_no h) H))"
      by (rule valid_weak) (auto elim: held_less)
    show "valid (held (insert (hd_no h) H)) (f x) (held H) (\<lambda>_. held H)" for x using f H by (simp add: takes_def)
  qed
  then show ?thesis by (simp add: takes_def)
qed

lemma takes_split [staying]:
  "takes h m \<Longrightarrow> (\<And>x. takes h (p x)) \<Longrightarrow> takes h (case z of None \<Rightarrow> m | Some x \<Rightarrow> p x)"
  "(\<And>e. takes h (g e)) \<Longrightarrow> (\<And>x. takes h (j x)) \<Longrightarrow> takes h (case r of Inl e \<Rightarrow> g e | Inr x \<Rightarrow> j x)"
  by (auto split: option.split sum.split)

section \<open>The operations keep the invariant\<close>

text \<open>A number that was not given out yet belongs to no handle.\<close>

lemma opened_valid:
  assumes "\<And>n. n \<notin> H \<Longrightarrow> valid (held (insert n H)) (f n) E Q"
  shows "valid (held H) (opened f) E Q"
proof -
  have new: "ps_next s \<notin> H \<and> held (insert (ps_next s) H) (s\<lparr>ps_next := ps_next s + 1\<rparr>)" if h: "held H s" for s
  proof -
    let ?s = "s\<lparr>ps_next := ps_next s + 1\<rparr>"
    have same: "alive ?s = alive s" "shut_downs ?s = shut_downs s" by (simp_all add: alive_def shut_downs_def)
    from h have "ps_next s \<notin> H" "ps_next s \<notin> alive s" "ps_next s \<notin> set (shut_downs s)" unfolding held_def by blast+
    with h same show ?thesis unfolding held_def by (auto simp: less_Suc_eq)
  qed
  have run_it: "opened f s = f (ps_next s) (s\<lparr>ps_next := ps_next s + 1\<rparr>)" for s
    by (simp add: opened_def io_look_def io_bind_def ps_do_def)
  show ?thesis
  proof (rule validI)
    fix s e s' assume h: "held H s" and "opened f s = (Inl e, s')"
    with validD(1) [OF assms [OF conjunct1 [OF new [OF h]]] conjunct2 [OF new [OF h]]] show "E s'" unfolding run_it by blast
  next
    fix s x s' assume h: "held H s" and "opened f s = (Inr x, s')"
    with validD(2) [OF assms [OF conjunct1 [OF new [OF h]]] conjunct2 [OF new [OF h]]] show "Q x s'" unfolding run_it by blast
  qed
qed

lemma files_valid: "valid (held H) (ps_files m) (held H) (\<lambda>_. held H)"
  using stays_files [of m] by (simp add: stays_def)

lemma load_one_valid: "valid (held H) (load_one env dir) (held H) (\<lambda>h s. hd_no h \<notin> H \<and> held (insert (hd_no h) H) s)"
  unfolding load_one_def
proof (rule valid_bind [OF files_valid], rule valid_bind [where R = "\<lambda>_. held H"], rule rules, assumption, assumption, rule opened_valid)
  fix m lib n assume n: "n \<notin> H"
  have less: "held (insert n H) s \<Longrightarrow> held H s" for s by (auto elim: held_less)
  have init: "valid (held (insert n H)) (ps_do (log_trace (Initialised n))) (held H) (\<lambda>_. held (insert n H))"
    by (rule valid_do) (simp add: held_log)
  show "valid (held (insert n H))
    (io_bind (io_lift (pe_library env n lib)) (\<lambda>info.
     if ai_abi info \<noteq> HOST_ABI_VERSION then io_fail (Bad_Abi (ai_abi info))
     else if ai_id info \<noteq> pm_id m then io_fail (Load_Manifest (Bad_Id (lit ''manifest='' @ pm_id m @ [32, 23454, 38469, 61] @ ai_id info)))
     else io_bind (ps_do (log_trace (Initialised n))) (\<lambda>_.
       if pe_init env n \<noteq> 0 then io_fail (Init_Failed (pe_init env n))
       else io_return \<lparr>hd_no = n, hd_manifest = m, hd_process = False, hd_info = info\<rparr>)))
    (held H) (\<lambda>h s. hd_no h \<notin> H \<and> held (insert (hd_no h) H) s)"
    by (intro valid_bind [where R = "\<lambda>_. held (insert n H)"] rules init; auto simp: n less)
qed

lemma load_dir_valid: "valid (held H) (load_dir env dir) (held H) (\<lambda>h s. hd_no h \<notin> H \<and> held (insert (hd_no h) H) s)"
  unfolding load_dir_def
proof (rule valid_bind [OF valid_err [OF files_valid]])
  fix m
  have "valid (held (insert n H)) (io_bind (io_lift (pe_spawn env n exe)) (\<lambda>_.
      io_return \<lparr>hd_no = n, hd_manifest = m, hd_process = True, hd_info = process_info m\<rparr>)) (held H)
      (\<lambda>h s. hd_no h \<notin> H \<and> held (insert (hd_no h) H) s)"
      if n: "n \<notin> H" for n exe
    by (intro valid_bind [where R = "\<lambda>_. held (insert n H)"] rules; auto simp: n elim: held_less)
  then show "valid (held H)
     (case entry_for m (ph_platform env) of
       None \<Rightarrow> io_fail (lit ''manifest '' @ [32570, 23569, 24403, 21069, 24179, 21488, 20135, 29289, 58, 32] @ ph_platform env)
     | Some rel \<Rightarrow>
         if is_process m then
           io_bind (io_lift (rmap_err load_error_text (safe_join dir rel))) (\<lambda>exe.
           opened (\<lambda>n. io_bind (io_lift (pe_spawn env n exe)) (\<lambda>_.
             io_return \<lparr>hd_no = n, hd_manifest = m, hd_process = True, hd_info = process_info m\<rparr>)))
         else io_err load_error_text (load_one env dir)) (held H) (\<lambda>h s. hd_no h \<notin> H \<and> held (insert (hd_no h) H) s)"
    by (intro rules valid_bind [where R = "\<lambda>_. held H" and P = "held H"] opened_valid load_one_valid) auto
qed

text \<open>What is loaded is handed to what follows.\<close>

lemma stays_load [staying]:
  assumes "\<And>h. takes h (f h)" "\<And>e. stays (g e)"
  shows "stays (io_bind (io_try (load_dir env dir)) (\<lambda>r. case r of Inr h \<Rightarrow> f h | Inl e \<Rightarrow> g e))"
  unfolding stays_def
proof (intro allI valid_bind [where R = "\<lambda>r s. case r of Inl e \<Rightarrow> held H s | Inr h \<Rightarrow> hd_no h \<notin> H \<and> held (insert (hd_no h) H) s" for H] valid_try)
  fix H and r :: "ustring + plugin_handle"
  show "valid (held H) (load_dir env dir) (\<lambda>s. \<forall>e. case Inl e of Inl e \<Rightarrow> held H s | Inr h \<Rightarrow> hd_no h \<notin> H \<and> held (insert (hd_no h) H) s)
    (\<lambda>x s. case Inr x of Inl e \<Rightarrow> held H s | Inr h \<Rightarrow> hd_no h \<notin> H \<and> held (insert (hd_no h) H) s)"
    using load_dir_valid [of H env dir] by simp
  show "valid (\<lambda>s. case r of Inl e \<Rightarrow> held H s | Inr h \<Rightarrow> hd_no h \<notin> H \<and> held (insert (hd_no h) H) s)
    (case r of Inr h \<Rightarrow> f h | Inl e \<Rightarrow> g e) (held H) (\<lambda>_. held H)"
  proof (cases r)
    case (Inl e)
    with assms(2) show ?thesis by (simp add: stays_def)
  next
    case (Inr h)
    show ?thesis
    proof (cases "hd_no h \<in> H")
      case False
      with assms(1) [of h] Inr show ?thesis by (simp add: takes_def)
    qed (simp add: valid_def Inr)
  qed
qed

lemma stays_views [staying]: "stays (views_of rs)" "stays plugin_list" "stays (view_or k msg)" "stays (db_enabled k)"
proof -
  show v: "stays (views_of rs)" for rs by (induction rs rule: views_of.induct) (auto intro!: staying)
  show l: "stays plugin_list" unfolding plugin_list_def by (intro staying v)
  show "stays (view_or k msg)" unfolding view_or_def by (intro staying l)
  show "stays (db_enabled k)" unfolding db_enabled_def by (intro staying)
qed

lemma takes_finish: "takes h (finish_install env root m existed backup h)"
  unfolding finish_install_def Let_def by (intro takes_then staying)

lemma stays_install: "stays (plugin_install env src)"
  unfolding plugin_install_def restore_old_def Let_def by (intro staying takes_finish)

lemma stays_rollback: "stays (service_rollback env k)"
  unfolding service_rollback_def by (intro staying takes_then [OF stays_views(4)] takes_then [OF stays_try [OF stays_table(1)]])

lemma stays_uninstall: "stays (service_uninstall env k)"
  unfolding service_uninstall_def by (intro staying)

lemma stays_set_enabled: "stays (plugin_set_enabled env k b)"
  unfolding plugin_set_enabled_def by (intro staying takes_then [OF stays_try [OF stays_table(2)]])

section \<open>Calls\<close>

lemma replaced_sets:
  "S \<inter> (P \<union> R \<union> (H \<union> N)) = {} \<Longrightarrow> S \<inter> (N \<union> R \<union> (H \<union> (P - (N \<union> R)))) = {}"
  "(H \<union> N) \<inter> (P \<union> R) = {} \<Longrightarrow> H \<inter> N = {} \<Longrightarrow> (H \<union> (P - (N \<union> R))) \<inter> (N \<union> R) = {}"
  "\<forall>n \<in> P \<union> R \<union> (H \<union> N) \<union> S. q n \<Longrightarrow> \<forall>n \<in> N \<union> R \<union> (H \<union> (P - (N \<union> R))) \<union> S. q n"
  "(H \<union> N) \<inter> (P \<union> R) = {} \<Longrightarrow> P \<inter> H = {}"
  "M \<subseteq> insert x N \<Longrightarrow> x \<notin> H \<Longrightarrow> H \<inter> N = {} \<Longrightarrow> H \<inter> M = {}"
  "(H \<union> N) \<inter> P = {} \<Longrightarrow> H \<union> (N - P) = H \<union> N"
  by blast+

lemma held_replace:
  assumes h: "held (H \<union> hd_no ` snd ` set new) s" and new: "H \<inter> hd_no ` snd ` set new = {}"
    "distinct (map fst new)" "distinct (map (hd_no \<circ> snd) new)"
  shows "held H (replace_loaded new s)"
proof -
  let ?s = "s\<lparr>ps_loaded := new\<rparr>" and ?old = "map snd (ps_loaded s)"
  let ?N = "hd_no ` snd ` set new" and ?O = "hd_no ` snd ` set (ps_loaded s)"
  let ?R = "hd_no ` (set (ps_quarantined s) \<union> oc_handle ` set (ps_open s))"
  have a: "alive s = ?O \<union> ?R" "alive ?s = ?N \<union> ?R" "shut_downs ?s = shut_downs s" by (auto simp: alive_def shut_downs_def)
  have "held (H \<union> (?O - (?N \<union> ?R))) ?s"
    unfolding held_def a
  proof (intro conjI)
    note rest = h [unfolded held_def a, THEN conjunct2]
    note h1 = rest [THEN conjunct1] and h2 = rest [THEN conjunct2, THEN conjunct1]
    note h3 = rest [THEN conjunct2, THEN conjunct2, THEN conjunct1]
    show "set (shut_downs s) \<inter> (?N \<union> ?R \<union> (H \<union> (?O - (?N \<union> ?R)))) = {}" by (rule replaced_sets(1) [OF h1])
    show "(H \<union> (?O - (?N \<union> ?R))) \<inter> (?N \<union> ?R) = {}" by (rule replaced_sets(2) [OF h2 new(1)])
    show "\<forall>n \<in> ?N \<union> ?R \<union> (H \<union> (?O - (?N \<union> ?R))) \<union> set (shut_downs s). n < ps_next ?s" using replaced_sets(3) [OF h3] by simp
  qed (use h new in \<open>simp_all add: held_def\<close>)
  moreover have "hd_no ` set ?old \<inter> H = {}"
  proof -
    have "(H \<union> ?N) \<inter> (?O \<union> ?R) = {}" using h [unfolded held_def a, THEN conjunct2, THEN conjunct2, THEN conjunct1] .
    then have "?O \<inter> H = {}" by (rule replaced_sets(4))
    then show ?thesis by simp
  qed
  moreover have "distinct (map hd_no ?old)" using h by (simp add: held_def)
  ultimately show ?thesis using held_release_list [of H ?old ?s] a(2) by (simp add: replace_loaded_def fold_snd)
qed

lemma close_alive: "alive (close_call c s) \<subseteq> alive s" "ps_loaded (close_call c s) = ps_loaded s"
  "ps_trace (close_call c s) = ps_trace s" "ps_next (close_call c s) = ps_next s"
  by (auto simp: alive_def close_call_def)

lemma held_leave_call: "held H s \<Longrightarrow> c \<in> set (ps_open s) \<Longrightarrow> held H (leave_call c s)"
  unfolding leave_call_def
  by (rule release_taken [OF _ close_alive(1)]) (auto simp: close_alive held_def alive_def)

lemma held_quarantine:
  assumes "held H s" "c \<in> set (ps_open s)"
  shows "held H (quarantine c s)"
proof -
  let ?s1 = "(close_call c s)\<lparr>ps_quarantined := ps_quarantined s @ [oc_handle c]\<rparr>"
  let ?s2 = "?s1\<lparr>ps_loaded := AList.delete (oc_id c) (ps_loaded ?s1)\<rparr>"
  have same: "ps_loaded ?s1 = ps_loaded s" "ps_trace ?s1 = ps_trace s" "ps_next ?s1 = ps_next s" by (simp_all add: close_call_def)
  have sub: "alive ?s1 \<subseteq> alive s" using assms(2) by (auto simp: alive_def close_call_def)
  have sub2: "alive ?s2 \<subseteq> alive s" using delete_alive sub by blast
  have d: "distinct (map fst (ps_loaded ?s2))" "distinct (map (hd_no \<circ> snd) (ps_loaded ?s2))"
    using assms(1) same by (auto simp: held_def distinct_delete intro: distinct_values_delete)
  have "held H ?s2" using held_taken [OF assms(1) sub2, of "{}"] d same by simp
  moreover have "held H (release h ?s2)" if "map_of (ps_loaded ?s1) (oc_id c) = Some h" for h
    by (rule release_taken [OF assms(1) sub2]) (use d same that loaded_alive in auto)
  ultimately show ?thesis by (auto simp: quarantine_def Let_def split: option.split)
qed

lemma held_open:
  assumes "held H s" "map_of (ps_loaded s) k = Some h"
  shows "held H (s\<lparr>ps_next := Suc (ps_next s), ps_open := \<lparr>oc_no = n, oc_id = k, oc_handle = h, oc_timeout = t, oc_max = x\<rparr> # ps_open s\<rparr>)" (is "held H ?s")
proof -
  have "alive ?s = alive s" "shut_downs ?s = shut_downs s"
    using loaded_alive [OF assms(2)] by (auto simp: alive_def shut_downs_def)
  with assms(1) show ?thesis by (auto simp: held_def less_Suc_eq)
qed

lemma call_begin_held: "held H s \<Longrightarrow> held H (snd (call_begin k input s))"
proof -
  assume h: "held H s"
  obtain r s1 where g: "row_get k s = (r, s1)" by fastforce
  have h1: "held H s1" using stays_table(3) [of k] h g unfolding stays_def valid_def by (cases r) blast+
  show ?thesis
    using g h1 by (auto simp: call_begin_def opened_def io_bind_def io_look_def io_fail_def io_return_def ps_do_def
        intro!: held_open split: sum.split option.split prod.split)
qed

text \<open>A call is ended by an answer to it while it is open.\<close>

lemma stays_then: "stays m \<Longrightarrow> held H s \<Longrightarrow> held H (snd (m s))"
proof -
  assume m: "stays m" "held H s"
  obtain r s' where "m s = (r, s')" by fastforce
  moreover have "valid (held H) m (held H) (\<lambda>_. held H)" using m(1) by (simp add: stays_def)
  note validD [OF this m(2)]
  ultimately show ?thesis by (cases r) auto
qed

lemma after_do: "io_bind (ps_do f) g s = g () (f s)"
  by (simp add: io_bind_def ps_do_def)

lemma finish_library_held: "held H s \<Longrightarrow> c \<in> set (ps_open s) \<Longrightarrow> held H (snd (finish_library c reply s))"
  unfolding finish_library_def
  by (cases reply; simp only: library_reply.case Let_def after_do; rule stays_then; (intro staying | simp add: held_leave_call held_quarantine))

lemma finish_process_held: "held H s \<Longrightarrow> c \<in> set (ps_open s) \<Longrightarrow> held H (snd (finish_process c reply s))"
  unfolding finish_process_def
  by (simp only: after_do; rule stays_then; (intro staying | simp add: held_leave_call))

section \<open>Scanning\<close>

abbreviation nums :: "(ustring \<times> plugin_handle) list \<Rightarrow> nat set" where
  "nums new \<equiv> hd_no ` snd ` set new"

text \<open>The handles of a list are on the way, each of them once.\<close>

definition on_side :: "nat set \<Rightarrow> (ustring \<times> plugin_handle) list \<Rightarrow> plugin_service \<Rightarrow> bool" where
  "on_side H new s \<longleftrightarrow> held (H \<union> nums new) s \<and> H \<inter> nums new = {} \<and> distinct (map fst new) \<and> distinct (map (hd_no \<circ> snd) new)"

lemma on_side_held: "on_side H new s \<Longrightarrow> held H s"
  by (auto simp: on_side_def elim: held_less)

lemma on_side_stays: "stays m \<Longrightarrow> valid (on_side H new) m (on_side H new) (\<lambda>_. on_side H new)"
proof -
  assume "stays m"
  then have "valid (held (H \<union> nums new)) m (held (H \<union> nums new)) (\<lambda>_. held (H \<union> nums new))" by (simp add: stays_def)
  note v = validD [OF this]
  show ?thesis
  proof (rule validI)
    fix s e s' assume "on_side H new s" "m s = (Inl e, s')"
    with v(1) show "on_side H new s'" unfolding on_side_def by blast
  next
    fix s x s' assume "on_side H new s" "m s = (Inr x, s')"
    with v(2) show "on_side H new s'" unfolding on_side_def by blast
  qed
qed

lemma drop_side: "on_side H new s \<Longrightarrow> held H (fold (release \<circ> snd) new s)"
proof -
  assume h: "on_side H new s"
  then have "(H \<union> nums new) \<inter> alive s = {}" by (simp add: on_side_def held_def)
  then have "H \<union> (nums new - alive s) = H \<union> nums new" by (rule replaced_sets(6))
  with h have "held H (fold release (map snd new) s)"
    by (intro held_release_list [THEN conjunct1]) (simp_all add: on_side_def Int_commute)
  then show ?thesis by (simp add: fold_snd)
qed

lemma or_drop_valid: "stays m \<Longrightarrow> valid (on_side H new) (or_drop new m) (held H) (\<lambda>_. on_side H new)"
  unfolding or_drop_def
proof (rule valid_bind [where R = "\<lambda>_. on_side H new"])
  assume "stays m"
  from on_side_stays [OF this, of H new] show "valid (on_side H new) (io_try m) (held H) (\<lambda>_. on_side H new)"
    by (intro valid_try) (auto elim: valid_weak)
  show "valid (on_side H new) (case r of Inr x \<Rightarrow> io_return x | Inl e \<Rightarrow> io_bind (ps_do (fold (release \<circ> snd) new)) (\<lambda>_. io_fail e))
    (held H) (\<lambda>_. on_side H new)" for r
    by (intro rules valid_bind [where R = "\<lambda>_. held H"]) (auto intro: drop_side)
qed

lemma update_drops:
  "distinct (map fst xs) \<Longrightarrow> distinct (map (f \<circ> snd) xs) \<Longrightarrow> map_of xs k = Some old \<Longrightarrow> f h \<noteq> f old \<Longrightarrow>
   f old \<notin> f ` snd ` set (AList.update k h xs)"
proof (induction xs)
  case (Cons x xs)
  show ?case
  proof (cases "fst x = k")
    case True
    with Cons.prems have "snd x = old" by simp
    with Cons.prems have "f old \<notin> f ` snd ` set xs" by (simp add: image_comp comp_def)
    with True Cons.prems show ?thesis by auto
  next
    case False
    with Cons.prems have o: "map_of xs k = Some old" by simp
    then have "f old \<in> f ` snd ` set xs" by (force dest: map_of_SomeD)
    moreover have "f (snd x) \<notin> f ` snd ` set xs" using Cons.prems(2) by (simp add: image_image comp_def)
    ultimately have "f (snd x) \<noteq> f old" by metis
    moreover have "f old \<notin> f ` snd ` set (AList.update k h xs)" by (rule Cons.IH) (use Cons.prems o in auto)
    ultimately show ?thesis using False by simp
  qed
qed simp

lemma put_new_valid:
  "valid (\<lambda>s. hd_no h \<notin> H \<union> nums new \<and> held (insert (hd_no h) (H \<union> nums new)) s \<and> on_side H new s) (put_new k h new) (held H) (\<lambda>new. on_side H new)"
  unfolding put_new_def
proof (rule valid_bind [OF valid_do [where Q = "\<lambda>_. on_side H (AList.update k h new)"]])
  fix s assume h: "hd_no h \<notin> H \<union> nums new \<and> held (insert (hd_no h) (H \<union> nums new)) s \<and> on_side H new s"
  let ?new = "AList.update k h new"
  have sub: "nums ?new \<subseteq> insert (hd_no h) (nums new)" using update_values [of hd_no k h new] .
  have d: "distinct (map fst ?new)" "distinct (map (hd_no \<circ> snd) ?new)" "H \<inter> nums ?new = {}"
  proof -
    have "hd_no h \<notin> H" "H \<inter> nums new = {}" using h by (simp_all add: on_side_def)
    then show "H \<inter> nums ?new = {}" by (rule replaced_sets(5) [OF sub])
  qed (use h in \<open>simp_all add: on_side_def distinct_update distinct_values_update\<close>)
  show "on_side H ?new ((case map_of new k of None \<Rightarrow> (\<lambda>s. s) | Some old \<Rightarrow> release old) s)"
  proof (cases "map_of new k")
    case None
    have "held (H \<union> nums ?new) s" using h sub by (auto elim!: held_less)
    with None d show ?thesis by (simp add: on_side_def)
  next
    case (Some old)
    have "hd_no old \<in> nums new" using map_of_SomeD [OF Some] by force
    have gone: "hd_no old \<notin> nums ?new"
    proof (rule update_drops [OF _ _ Some])
      have "hd_no h \<notin> nums new" using h by simp
      with \<open>hd_no old \<in> nums new\<close> show "hd_no h \<noteq> hd_no old" by force
    qed (use h in \<open>simp_all add: on_side_def\<close>)
    have "held (insert (hd_no old) (H \<union> nums ?new)) s" using h sub \<open>hd_no old \<in> nums new\<close> by (auto elim!: held_less)
    moreover have "hd_no old \<notin> H"
      using h \<open>hd_no old \<in> nums new\<close> unfolding on_side_def by (metis IntI emptyE)
    with gone have "hd_no old \<notin> H \<union> nums ?new" by simp
    ultimately have "held (H \<union> nums ?new) (release old s)" by (rule held_release)
    with Some d show ?thesis by (simp add: on_side_def)
  qed
qed (intro rules)

lemma side_load_valid:
  "valid (on_side H new) (io_try (load_dir env dir)) E
     (\<lambda>r s. on_side H new s \<and> (\<forall>h. r = Inr h \<longrightarrow> hd_no h \<notin> H \<union> nums new \<and> held (insert (hd_no h) (H \<union> nums new)) s))"
proof (rule valid_try, rule validI)
  note v = validD [OF load_dir_valid [of "H \<union> nums new" env dir]]
  fix s e s' assume s: "on_side H new s" "load_dir env dir s = (Inl e, s')"
  have "held (H \<union> nums new) s'" by (rule v(1) [OF _ s(2)]) (use s(1) in \<open>simp add: on_side_def\<close>)
  with s(1) show "\<forall>e. on_side H new s' \<and> (\<forall>h. Inl e = Inr h \<longrightarrow> hd_no h \<notin> H \<union> nums new \<and> held (insert (hd_no h) (H \<union> nums new)) s')"
    by (simp add: on_side_def)
next
  note v = validD [OF load_dir_valid [of "H \<union> nums new" env dir]]
  fix s h s' assume s: "on_side H new s" "load_dir env dir s = (Inr h, s')"
  have n: "hd_no h \<notin> H \<union> nums new \<and> held (insert (hd_no h) (H \<union> nums new)) s'"
    by (rule v(2) [OF _ s(2)]) (use s(1) in \<open>simp add: on_side_def\<close>)
  then have "held (H \<union> nums new) s'" by (blast intro: held_less)
  with s(1) n show "on_side H new s' \<and> (\<forall>g. Inr h = Inr g \<longrightarrow> hd_no g \<notin> H \<union> nums new \<and> held (insert (hd_no g) (H \<union> nums new)) s')"
    by (simp add: on_side_def)
qed

lemma on_side_step: "stays m \<Longrightarrow> valid (on_side H new) m (held H) (\<lambda>_. on_side H new)"
  by (rule valid_weak [OF on_side_stays]) (auto intro: on_side_held)

lemma scan_each_valid:
  "valid (on_side H new) (scan_each env dirs errors new ids) (held H) (\<lambda>(_, new, _). on_side H new)"
proof (induction dirs arbitrary: errors new ids)
  case (Cons d dirs)
  obtain name dir where d: "d = (name, dir)" by fastforce
  have loaded: "valid (\<lambda>s. on_side H new s \<and> (\<forall>h. r = Inr h \<longrightarrow> hd_no h \<notin> H \<union> nums new \<and> held (insert (hd_no h) (H \<union> nums new)) s))
      (case r of Inr h \<Rightarrow> io_bind (put_new k h new) (\<lambda>new. scan_each env dirs errors new (ids @ [k]))
       | Inl e \<Rightarrow> io_bind (ps_do (set_last_error k (Some e))) (\<lambda>_. scan_each env dirs (errors @ [(name, e)]) new (ids @ [k])))
      (held H) (\<lambda>(_, new, _). on_side H new)" for k r
  proof (cases r)
    case (Inl e)
    from valid_bind [OF on_side_step [OF stays_notes(1)] Cons.IH] Inl show ?thesis
      by (auto elim: valid_weak)
  next
    case (Inr h)
    have "valid (\<lambda>s. on_side H new s \<and> hd_no h \<notin> H \<union> nums new \<and> held (insert (hd_no h) (H \<union> nums new)) s)
       (put_new k h new) (held H) (\<lambda>new. on_side H new)"
      by (rule valid_weak [OF put_new_valid]) simp_all
    from valid_bind [OF this Cons.IH] Inr show ?thesis by (auto elim: valid_weak)
  qed
  show ?case
    unfolding d scan_each.simps Let_def
    by (intro valid_bind [OF on_side_step] valid_bind [OF or_drop_valid] valid_bind [OF side_load_valid] valid_split(3) valid_split(1)
        loaded Cons.IH staying)
qed (simp add: valid_return)

lemma stays_scan: "stays (plugin_scan env)"
  unfolding stays_def
proof
  fix H
  have side: "valid (held H) (ps_files (list_candidate_dirs env root)) (held H) (\<lambda>_. on_side H [])" for root
    by (rule valid_weak [OF files_valid]) (auto simp: on_side_def)
  have rest: "valid (on_side H new)
      (io_bind (ps_do (replace_loaded new)) (\<lambda>_. io_bind (row_remove_except ids) (\<lambda>_.
        io_look (\<lambda>s. map fst (ps_loaded s)) (\<lambda>loaded. io_return (loaded, errors))))) (held H) (\<lambda>_. held H)" for new ids and errors :: "(ustring \<times> ustring) list"
  proof (rule valid_bind [OF valid_do])
    show "held H (replace_loaded new s)" if "on_side H new s" for s
      using that by (intro held_replace) (simp_all add: on_side_def)
    have "stays (io_bind (row_remove_except ids) (\<lambda>_. io_look (\<lambda>s. map fst (ps_loaded s)) (\<lambda>loaded. io_return (loaded, errors))))"
      by (intro staying)
    then show "valid (held H) (io_bind (row_remove_except ids) (\<lambda>_. io_look (\<lambda>s. map fst (ps_loaded s)) (\<lambda>loaded. io_return (loaded, errors))))
        (held H) (\<lambda>_. held H)" by (simp add: stays_def)
  qed
  have "valid (on_side H []) (io_bind (scan_each env dirs errors [] []) (\<lambda>(errors, new, ids).
      io_bind (ps_do (replace_loaded new)) (\<lambda>_. io_bind (row_remove_except ids) (\<lambda>_.
        io_look (\<lambda>s. map fst (ps_loaded s)) (\<lambda>loaded. io_return (loaded, errors)))))) (held H) (\<lambda>_. held H)" for dirs errors
  proof (rule valid_bind [OF scan_each_valid])
    show "valid (case x of (_, new, _) \<Rightarrow> on_side H new) (case x of (errors, new, ids) \<Rightarrow>
      io_bind (ps_do (replace_loaded new)) (\<lambda>_. io_bind (row_remove_except ids) (\<lambda>_.
        io_look (\<lambda>s. map fst (ps_loaded s)) (\<lambda>loaded. io_return (loaded, errors))))) (held H) (\<lambda>_. held H)"
      for x :: "(ustring \<times> ustring) list \<times> (ustring \<times> plugin_handle) list \<times> ustring list"
      using rest by (cases x) simp
  qed
  then show "valid (held H) (plugin_scan env) (held H) (\<lambda>_. held H)"
    unfolding plugin_scan_def
    by (intro valid_look valid_weak [OF valid_bind [OF side]]) (auto split: prod.split)
qed

section \<open>Whatever happens\<close>

text \<open>
  What the commands do, in any order; a call ends when its answer comes, and the files, the settings and the
  database change from outside.
\<close>

datatype plugin_op =
    Op_Scan
  | Op_Install path
  | Op_Rollback ustring
  | Op_Uninstall ustring
  | Op_Set_Enabled ustring bool
  | Op_Begin ustring bytes
  | Op_Library_Ends nat library_reply
  | Op_Process_Ends nat "process_error + int \<times> bytes"
  | Op_Leave bool
  | Op_Outside disk settings_db "core_error option list"

definition open_with :: "(open_call \<Rightarrow> bool) \<Rightarrow> (open_call \<Rightarrow> plugin_service \<Rightarrow> plugin_service) \<Rightarrow> plugin_service \<Rightarrow> plugin_service" where
  "open_with p f s = (case List.find p (ps_open s) of None \<Rightarrow> s | Some c \<Rightarrow> f c s)"

fun plugin_step :: "plugin_env \<Rightarrow> plugin_service \<Rightarrow> plugin_op \<Rightarrow> plugin_service" where
  "plugin_step env s Op_Scan = snd (plugin_scan env s)"
| "plugin_step env s (Op_Install src) = snd (plugin_install env src s)"
| "plugin_step env s (Op_Rollback k) = snd (service_rollback env k s)"
| "plugin_step env s (Op_Uninstall k) = snd (service_uninstall env k s)"
| "plugin_step env s (Op_Set_Enabled k b) = snd (plugin_set_enabled env k b s)"
| "plugin_step env s (Op_Begin k input) = snd (call_begin k input s)"
| "plugin_step env s (Op_Library_Ends n r) =
     open_with (\<lambda>c. oc_no c = n \<and> \<not> hd_process (oc_handle c)) (\<lambda>c s. snd (finish_library c r s)) s"
| "plugin_step env s (Op_Process_Ends n r) =
     open_with (\<lambda>c. oc_no c = n \<and> hd_process (oc_handle c)) (\<lambda>c s. snd (finish_process c r s)) s"
| "plugin_step env s (Op_Leave lock_free) = unload_all lock_free s"
| "plugin_step env s (Op_Outside w db faults) = s\<lparr>ps_world := w, ps_config := db, ps_faults := faults\<rparr>"

definition plugin_new :: "path \<Rightarrow> disk \<Rightarrow> settings_db \<Rightarrow> (ustring \<times> plugin_row) list \<Rightarrow> plugin_service" where
  "plugin_new root w db table =
     \<lparr>ps_world = w, ps_root = root, ps_config = db, ps_table = table, ps_faults = [], ps_loaded = [], ps_quarantined = [],
      ps_open = [], ps_errors = [], ps_events = [], ps_trace = [], ps_next = 0\<rparr>"

lemma find_in: "List.find p xs = Some x \<Longrightarrow> x \<in> set xs"
  by (induction xs) (auto split: if_splits)

lemma step_handles: "handles_ok s \<Longrightarrow> handles_ok (plugin_step env s x)"
  unfolding handles_ok_def
proof (cases x)
  case (Op_Outside w db faults)
  moreover assume "held {} s"
  ultimately show "held {} (plugin_step env s x)" by (simp add: held_def alive_def shut_downs_def)
next
  case (Op_Leave b)
  assume h: "held {} s"
  have "held {} (replace_loaded [] s)" by (rule held_replace) (use h in simp_all)
  with h Op_Leave show "held {} (plugin_step env s x)" by (simp add: unload_all_def)
qed (auto simp: open_with_def call_begin_held finish_library_held finish_process_held find_in split: option.split
      intro!: stays_then [OF stays_scan] stays_then [OF stays_install] stays_then [OF stays_rollback] stays_then [OF stays_uninstall]
        stays_then [OF stays_set_enabled])

lemma new_handles: "handles_ok (plugin_new root w db table)"
  by (simp add: handles_ok_def held_def alive_def shut_downs_def plugin_new_def map_filter_def)

lemma steps_handles: "handles_ok s \<Longrightarrow> handles_ok (foldl (plugin_step env) s ops)"
  by (induction ops arbitrary: s) (auto intro: step_handles)
end
