(* ===== verification/Plugin_Upgrade.thy ===== *)
theory Plugin_Upgrade
  imports Plugin_Safety
begin

text \<open>
  What an installation does to the files: the old version of an upgraded plugin is among the backups when it
  succeeds, and in its place or among the backups when it fails, at whatever point that is. The properties
  of the plugin service and their witnesses.
\<close>

section \<open>What only reads\<close>

definition tree_of :: "plugin_service \<Rightarrow> node" where "tree_of s = w_tree (ps_world s)"

definition silent :: "('e, 'a) ps_act \<Rightarrow> bool" where
  "silent m \<longleftrightarrow> (\<forall>s r s'. m s = (r, s') \<longrightarrow> tree_of s' = tree_of s \<and> ps_root s' = ps_root s)"

named_theorems silently \<open>actions that change no file\<close>

lemma silent_files [silently]: "keeps [] m \<Longrightarrow> silent (ps_files m)"
  by (auto simp: silent_def ps_files_def keeps_def tree_of_def split: prod.splits)

lemma silent_basic [silently]: "silent (io_return x)" "silent (io_fail e)" "silent (io_lift r)"
  by (auto simp: silent_def io_return_def io_fail_def io_lift_def)

lemma silent_bind [silently]: "silent m \<Longrightarrow> (\<And>x. silent (f x)) \<Longrightarrow> silent (io_bind m f)"
  by (fastforce simp: silent_def io_bind_def split: prod.splits sum.splits)

lemma silent_rest [silently]: "silent m \<Longrightarrow> silent (io_err g m)" "silent m \<Longrightarrow> silent (io_try m)" "(\<And>x. silent (p x)) \<Longrightarrow> silent (io_look f p)"
  by (auto simp: silent_def io_err_def io_try_def io_look_def split: prod.splits)

lemma silent_split [silently]:
  "silent m \<Longrightarrow> silent n \<Longrightarrow> silent (if b then m else n)"
  "silent m \<Longrightarrow> (\<And>x. silent (h x)) \<Longrightarrow> silent (case z of None \<Rightarrow> m | Some x \<Rightarrow> h x)"
  "(\<And>e. silent (g e)) \<Longrightarrow> (\<And>x. silent (j x)) \<Longrightarrow> silent (case r of Inl e \<Rightarrow> g e | Inr x \<Rightarrow> j x)"
  by (auto split: option.split sum.split)

lemma silent_do: "(\<And>s. tree_of (f s) = tree_of s \<and> ps_root (f s) = ps_root s) \<Longrightarrow> silent (ps_do f)"
  by (auto simp: silent_def ps_do_def)

lemma silent_db [silently]: "silent (db_do change answer)"
  by (auto simp: silent_def db_do_def Let_def tree_of_def split: option.splits)

lemma silent_table [silently]: "silent (row_upsert k row)" "silent (row_get k)" "silent row_list" "silent (db_enabled k)"
  unfolding row_upsert_def row_get_def row_list_def db_enabled_def by (intro silently)+

lemma released_files [simp]: "ps_world (release h s) = ps_world s" "ps_root (release h s) = ps_root s"
  "ps_world (log_trace x s) = ps_world s" "ps_root (log_trace x s) = ps_root s"
  by (simp_all add: release_def log_trace_def)

lemma silent_notes [silently]: "silent (ps_do (set_last_error k msg))" "silent (ps_do (emit_change k phase version))"
  "silent (ps_do (unload_handle k))" "silent (ps_do (put_loaded k h))" "silent (ps_do (release h))" "silent (ps_do (log_trace x))"
  by (rule silent_do;
      auto simp: tree_of_def set_last_error_def emit_change_def unload_handle_def put_loaded_def Let_def log_trace_def split: option.split)+

lemma silent_opened [silently]: "(\<And>n. silent (f n)) \<Longrightarrow> silent (opened f)"
  unfolding opened_def by (intro silently silent_do) (auto simp: tree_of_def)

lemma keeps_checking [keeping]: "keeps q (checked_manifest env dir)" "keeps q (inspect env dir)" "keeps q (checked_upgrade env t m)"
  unfolding inspect_def checked_manifest_def checked_upgrade_def by (intro keeping)+

lemma silent_load [silently]: "silent (load_dir env dir)"
  unfolding load_dir_def load_one_def by (intro silently keeping)

lemma keeps_latest [keeping]: "keeps q (latest_backup root k)"
  unfolding latest_backup_def by (intro keeping)

lemma silent_views [silently]: "silent (views_of rs)" "silent plugin_list" "silent (view_or k msg)"
proof -
  show v: "silent (views_of rs)" for rs by (induction rs rule: views_of.induct) (auto intro!: silently keeping)
  show l: "silent plugin_list" unfolding plugin_list_def by (intro silently v)
  show "silent (view_or k msg)" unfolding view_or_def by (intro silently l)
qed

text \<open>A fact about the files survives them.\<close>

lemma silent_valid: "silent m \<Longrightarrow> valid (\<lambda>s. P (ps_root s) (tree_of s)) m (\<lambda>s. P (ps_root s) (tree_of s)) (\<lambda>_ s. P (ps_root s) (tree_of s))"
  unfolding silent_def valid_def by metis

lemma keeps_source [keeping]: "keeps q (validate_source host src platform)"
  unfolding validate_source_def check_artifact_def check_executable_def check_integrity_def Let_def
  by (intro keeping)

section \<open>Placing a new version\<close>

lemma version_at_node: "node_at t tree = Some old \<Longrightarrow> version_at host t tree = version_at host [] old"
  by (simp add: version_at_def manifest_path_def node_at_append)

lemma keeps_look: "(\<And>w. keeps q (h (f w))) \<Longrightarrow> keeps q (io_look f h)"
  by (simp add: keeps_def io_look_def)

lemma staging_result:
  assumes "stage_copy host src root w = (r, w')" "plain_id k"
  shows "node_at (root @ [k]) (w_tree w') = node_at (root @ [k]) (w_tree w)" "r = Inr d \<Longrightarrow> \<exists>n. d = root @ [STAGING_DIR, n]"
proof -
  have a: "apart (root @ [STAGING_DIR, n]) (root @ [k])" "\<not> prefix (root @ [k]) (root @ [STAGING_DIR])" for n
    using assms(2) by (auto simp: plain_id_def apart_Cons)
  have "keeps (root @ [k]) (stage_copy host src root)" 
    unfolding stage_copy_def by (intro keeps_look keeps_io(1,4,5) keeps_make_dirs(1) keeps_copy a)
  then show "node_at (root @ [k]) (w_tree w') = node_at (root @ [k]) (w_tree w)" using keepsD assms(1) by blast
  show "r = Inr d \<Longrightarrow> \<exists>n. d = root @ [STAGING_DIR, n]"
    using assms(1) by (auto simp: stage_copy_def io_bind_def io_look_def io_return_def split: prod.splits sum.splits)
qed

lemma place_result:
  assumes "place env root src m w = (r, w')" "plain_id (pm_id m)" "node_at (root @ [pm_id m]) (w_tree w) = Some old"
    and slash: "\<And>v. version_at env [] old = Some v \<Longrightarrow> 47 \<notin> set v"
  shows "(\<forall>b. r = Inr b \<longrightarrow> (\<exists>name. b = Some (backup_at root (pm_id m) name) \<and> node_at (backup_at root (pm_id m) name) (w_tree w') = Some old) \<and>
       node_at (root @ [pm_id m]) (w_tree w') \<noteq> None) \<and>
    (\<forall>e. r = Inl e \<longrightarrow> node_at (root @ [pm_id m]) (w_tree w') = Some old \<or> (\<exists>name. node_at (backup_at root (pm_id m) name) (w_tree w') = Some old))"
proof -
  obtain r1 w1 where st: "stage_copy env src root w = (r1, w1)" by fastforce
  note st1 = staging_result [OF st assms(2)]
  show ?thesis
  proof (cases r1)
    case (Inl e)
    with assms(1) st have "\<exists>e. r = Inl e" "w' = w1" by (auto simp: place_def io_bind_def io_err_def)
    with st1 assms(3) show ?thesis by auto
  next
    case (Inr d)
    then obtain n where d: "d = root @ [STAGING_DIR, n]" using st1 by blast
    obtain r2 w2 where swap: "commit_swap env root m d w1 = (r2, w2)" by fastforce
    have t: "node_at (root @ [pm_id m]) (w_tree w1) = Some old" using st1 assms(3) by simp
    note res = commit_swap_result [OF swap assms(2) d] 
    have res: "(\<forall>b. r2 = Inr b \<longrightarrow> node_at (root @ [pm_id m]) (w_tree w2) \<noteq> None \<and> (\<exists>name. b = Some (backup_at root (pm_id m) name) \<and>
        node_at (backup_at root (pm_id m) name) (w_tree w2) = Some old)) \<and>
      (\<forall>e. r2 = Inl e \<longrightarrow> node_at (root @ [pm_id m]) (w_tree w2) = Some old \<or> (\<exists>name. node_at (backup_at root (pm_id m) name) (w_tree w2) = Some old))"
      using res slash t version_at_node [OF t] unfolding backup_at_def by (metis not_None_eq)
    show ?thesis
    proof (cases r2)
      case r2: (Inr b)
      with assms(1) st Inr swap have "r = Inr b" "w' = w2" by (auto simp: place_def io_bind_def io_err_def io_try_def io_return_def)
      with res r2 show ?thesis by auto
    next
      case r2: (Inl e)
      obtain r3 w3 where rm: "std_remove_all d w2 = (r3, w3)" by fastforce
      with assms(1) st Inr swap r2 have "\<exists>e. r = Inl e" "w' = w3" by (auto simp: place_def io_bind_def io_err_def io_try_def io_fail_def)
      moreover have "apart d (root @ [pm_id m])" "apart d (backup_at root (pm_id m) name)" for name
        using assms(2) by (auto simp: d backup_at_def plain_id_def apart_Cons STAGING_DIR_def BACKUPS_DIR_def)
      then have "node_at (root @ [pm_id m]) (w_tree w3) = node_at (root @ [pm_id m]) (w_tree w2)"
        "node_at (backup_at root (pm_id m) name) (w_tree w3) = node_at (backup_at root (pm_id m) name) (w_tree w2)" for name
        using keepsD [OF keeps_remove(1) rm] by blast+
      ultimately show ?thesis using res r2 by auto
    qed
  qed
qed

section \<open>Installing\<close>

lemma keeps_prune:
  assumes "plain_id k" "\<And>n. Some (backup_at root k n) \<noteq> keep \<Longrightarrow> apart (backup_at root k n) q"
  shows "keeps q (prune_backups root k keep)"
proof -
  have each: "keeps q (remove_each keep (map (\<lambda>n. root @ [BACKUPS_DIR, k, n]) names))" for names
    by (induction names) (auto intro!: keeping assms(2) [unfolded backup_at_def])
  show ?thesis
    unfolding prune_backups_def plain_paths [OF assms(1)] by (intro keeping) (use each in simp)
qed

text \<open>The places of the old version: its own, or among the backups.\<close>

definition survives :: "path \<Rightarrow> ustring \<Rightarrow> node \<Rightarrow> node \<Rightarrow> bool" where
  "survives root k old tree \<longleftrightarrow> node_at (root @ [k]) tree = Some old \<or> (\<exists>name. node_at (backup_at root k name) tree = Some old)"

definition backed_up :: "path \<Rightarrow> ustring \<Rightarrow> node \<Rightarrow> path option \<Rightarrow> node \<Rightarrow> bool" where
  "backed_up root k old b tree \<longleftrightarrow> (\<exists>name. b = Some (backup_at root k name) \<and> node_at (backup_at root k name) tree = Some old)"

definition upgraded :: "path \<Rightarrow> ustring \<Rightarrow> node \<Rightarrow> path option \<Rightarrow> node \<Rightarrow> bool" where
  "upgraded root k old b tree \<longleftrightarrow> node_at (root @ [k]) tree \<noteq> None \<and> backed_up root k old b tree"

lemma backed_up_survives: "backed_up root k old b tree \<Longrightarrow> survives root k old tree"
  by (auto simp: backed_up_def survives_def)

lemma silent_step:
  "silent m \<Longrightarrow> (\<And>r t. P r t \<Longrightarrow> E r t) \<Longrightarrow> valid (\<lambda>s. P (ps_root s) (tree_of s)) m (\<lambda>s. E (ps_root s) (tree_of s)) (\<lambda>_ s. P (ps_root s) (tree_of s))"
  by (rule valid_weak [OF silent_valid [of m P]]) auto

lemma files_keep:
  "keeps q m \<Longrightarrow> (\<And>s. node_at q (tree_of s) = x \<Longrightarrow> E s) \<Longrightarrow>
   valid (\<lambda>s. node_at q (tree_of s) = x) (ps_files m) E (\<lambda>_ s. node_at q (tree_of s) = x)"
  unfolding valid_def ps_files_def tree_of_def keeps_def by (fastforce split: prod.splits)

lemma silent_old:
  "silent m \<Longrightarrow> valid (\<lambda>s. node_at (root @ [k]) (tree_of s) = Some old) m (\<lambda>s. survives root k old (tree_of s))
     (\<lambda>_ s. node_at (root @ [k]) (tree_of s) = Some old)"
  using silent_step [of m "\<lambda>_ t. node_at (root @ [k]) t = Some old" "\<lambda>_. survives root k old"] by (simp add: survives_def)

lemma silent_upgraded:
  "silent m \<Longrightarrow> valid (\<lambda>s. upgraded root k old b (tree_of s)) m (\<lambda>s. survives root k old (tree_of s)) (\<lambda>_ s. upgraded root k old b (tree_of s))"
  using silent_step [of m "\<lambda>_. upgraded root k old b" "\<lambda>_. survives root k old"]
  by (metis upgraded_def backed_up_survives)

lemma prune_upgraded:
  assumes "upgraded root k old b (w_tree w)" "prune_backups root k b w = (r, w')" "plain_id k"
  shows "upgraded root k old b (w_tree w')"
proof -
  from assms(1) obtain name where b: "b = Some (backup_at root k name)" "node_at (backup_at root k name) (w_tree w) = Some old"
    by (auto simp: upgraded_def backed_up_def)
  have "keeps (root @ [k]) (prune_backups root k b)" by (rule keeps_prune [OF assms(3)]) (rule rollback_apart(3) [OF assms(3)])
  moreover have "keeps (backup_at root k name) (prune_backups root k b)"
    by (rule keeps_prune [OF assms(3)]) (auto simp: b(1) intro!: rollback_apart(5) [OF assms(3)])
  ultimately show ?thesis using keepsD assms(1,2) b by (fastforce simp: upgraded_def backed_up_def)
qed

lemma keeps_old_version [keeping]: "keeps q (old_version_of env root k)"
  unfolding old_version_of_def by (intro keeping)

lemma restore_old_valid:
  assumes "plain_id k"
  shows "valid (\<lambda>s. upgraded root k old b (tree_of s)) (restore_old env root k b) (\<lambda>s. survives root k old (tree_of s))
    (\<lambda>_ s. survives root k old (tree_of s))"
proof (cases b)
  case None
  then show ?thesis by (simp add: valid_def upgraded_def backed_up_def)
next
  case (Some p)
  let ?t = "root @ [k]"
  have rm: "valid (\<lambda>s. upgraded root k old b (tree_of s)) (io_try (ps_files (std_remove_all ?t))) E (\<lambda>_ s. backed_up root k old b (tree_of s))" for E
  proof -
    have "apart ?t (backup_at root k name)" for name using assms by (auto simp: backup_at_def plain_id_def apart_Cons)
    then have "keeps (backup_at root k name) (std_remove_all ?t)" for name by (intro keeping)
    then show ?thesis
      unfolding valid_def io_try_def ps_files_def upgraded_def backed_up_def tree_of_def keeps_def
      by (fastforce split: prod.splits)
  qed
  have mv: "valid (\<lambda>s. backed_up root k old b (tree_of s)) (io_try (ps_files (std_rename p ?t))) E
    (\<lambda>r s. case r of Inl _ \<Rightarrow> survives root k old (tree_of s) | Inr _ \<Rightarrow> node_at ?t (tree_of s) = Some old)" for E
  proof (rule valid_try, rule validI)
    fix s e s' assume s: "backed_up root k old b (tree_of s)" "ps_files (std_rename p ?t) s = (Inl e, s')"
    then have "tree_of s' = tree_of s" using not_renamed by (auto simp: ps_files_def tree_of_def split: prod.splits)
    with s(1) show "\<forall>e. case Inl e of Inl _ \<Rightarrow> survives root k old (tree_of s') | Inr _ \<Rightarrow> node_at ?t (tree_of s') = Some old"
      by (simp add: backed_up_survives)
  next
    fix s x s' assume s: "backed_up root k old b (tree_of s)" "ps_files (std_rename p ?t) s = (Inr x, s')"
    then have "node_at ?t (tree_of s') = node_at p (tree_of s)" using renamed by (fastforce simp: ps_files_def tree_of_def split: prod.splits)
    with s(1) Some show "case Inr x of Inl _ \<Rightarrow> survives root k old (tree_of s') | Inr _ \<Rightarrow> node_at ?t (tree_of s') = Some old"
      by (auto simp: backed_up_def)
  qed
  have kept: "keeps ?t (prune_backups root k None)"
    by (rule keeps_prune [OF assms]) (use assms in \<open>auto simp: backup_at_def plain_id_def apart_Cons\<close>)
  note old = silent_old [of _ root k old]
  have reload: "valid (\<lambda>s. node_at ?t (tree_of s) = Some old)
     (io_bind (io_try (load_dir env ?t)) (\<lambda>r. case r of
        Inr h \<Rightarrow> io_bind (ps_do (put_loaded k h)) (\<lambda>_. io_bind (ps_files (prune_backups root k None)) (\<lambda>_.
          io_bind (ps_files (old_version_of env root k)) (\<lambda>v. io_return ([24050, 33258, 21160, 22238, 28378, 21040, 26087, 29256, 26412, 32] @ v))))
      | Inl e \<Rightarrow> io_return ([26087, 29256, 26412, 24674, 22797, 21518, 21152, 36733, 20063, 22833, 36133, 65288] @ e @ [65289, 65292, 25554, 20214, 24050, 31105, 29992, 65292, 35831, 26816, 26597, 25554, 20214, 30446, 24405])))
     (\<lambda>s. survives root k old (tree_of s)) (\<lambda>_ s. survives root k old (tree_of s))"
    apply (rule valid_bind [OF silent_old [OF silent_rest(2) [OF silent_load]]])
    apply (rule valid_split(3))
    apply (rule valid_return) apply (simp add: survives_def)
    apply (rule valid_bind [OF silent_old [OF silent_notes(4)]])
    apply (rule valid_bind [OF files_keep [OF kept]]) apply (simp add: survives_def)
    apply (rule valid_bind [OF silent_old [OF silent_files [OF keeps_old_version]]])
    apply (rule valid_return)
    apply (simp add: survives_def)
    done
  show ?thesis
    unfolding restore_old_def Let_def plain_paths [OF assms] Some option.case
  proof (rule valid_bind [OF rm [unfolded Some]], rule valid_bind [OF mv [unfolded Some]])
    fix r :: "fs_error + unit"
    show "valid (\<lambda>s. case r of Inl _ \<Rightarrow> survives root k old (tree_of s) | Inr _ \<Rightarrow> node_at ?t (tree_of s) = Some old)
      (case r of Inl _ \<Rightarrow> io_return [26087, 29256, 26412, 24674, 22797, 22833, 36133, 65292, 35831, 25163, 21160, 26816, 26597, 25554, 20214, 30446, 24405] | Inr _ \<Rightarrow>
        io_bind (io_try (load_dir env ?t)) (\<lambda>r. case r of
          Inr h \<Rightarrow> io_bind (ps_do (put_loaded k h)) (\<lambda>_. io_bind (ps_files (prune_backups root k None)) (\<lambda>_.
            io_bind (ps_files (old_version_of env root k)) (\<lambda>v. io_return ([24050, 33258, 21160, 22238, 28378, 21040, 26087, 29256, 26412, 32] @ v))))
        | Inl e \<Rightarrow> io_return ([26087, 29256, 26412, 24674, 22797, 21518, 21152, 36733, 20063, 22833, 36133, 65288] @ e @ [65289, 65292, 25554, 20214, 24050, 31105, 29992, 65292, 35831, 26816, 26597, 25554, 20214, 30446, 24405])))
      (\<lambda>s. survives root k old (tree_of s)) (\<lambda>_ s. survives root k old (tree_of s))"
      by (cases r) (simp_all only: sum.case reload, intro valid_return)
  qed
qed

lemma finish_install_valid:
  assumes "plain_id (pm_id m)"
  shows "valid (\<lambda>s. upgraded root (pm_id m) old b (tree_of s)) (finish_install env root m existed b h) (\<lambda>s. survives root (pm_id m) old (tree_of s))
    (\<lambda>_ s. upgraded root (pm_id m) old b (tree_of s))"
proof -
  let ?k = "pm_id m"
  have f: "valid (\<lambda>s. upgraded root ?k old b (tree_of s)) (ps_files (prune_backups root ?k b)) (\<lambda>s. survives root ?k old (tree_of s))
    (\<lambda>_ s. upgraded root ?k old b (tree_of s))"
  proof -
    have "upgraded root ?k old b (tree_of s')" if u: "upgraded root ?k old b (tree_of s)" and p: "ps_files (prune_backups root ?k b) s = (r, s')" for s r s'
    proof -
      obtain w' where w': "prune_backups root ?k b (ps_world s) = (r, w')" "s' = s\<lparr>ps_world := w'\<rparr>"
        using p by (auto simp: ps_files_def split: prod.splits)
      from prune_upgraded [OF u [unfolded tree_of_def] w'(1) assms] w'(2) show ?thesis by (simp add: tree_of_def)
    qed
    then show ?thesis by (intro validI) (blast intro: backed_up_survives [OF conjunct2 [OF upgraded_def [THEN iffD1]]])+
  qed
  show ?thesis
    unfolding finish_install_def Let_def
    by (intro valid_bind [OF f] valid_bind [OF silent_upgraded] valid_split(3) silent_upgraded silently valid_fail)
qed

lemma upgrade_check:
  assumes "checked_upgrade env t m w = (Inr b, w')" "node_at t (w_tree w) = Some old"
  shows "\<exists>v. version_at env [] old = Some v \<and> version_gt (pm_version m) v"
proof -
  from assms obtain m' w1 where r: "read_manifest_of env t w = (Inr m', w1)" "version_gt (pm_version m) (pm_version m')"
    by (auto simp: checked_upgrade_def io_look_def io_bind_def io_err_def io_fail_def io_return_def rmap_err_eq_Inr split: prod.splits sum.splits if_splits)
  then show ?thesis using read_manifest_version [OF r(1)] version_at_node [OF assms(2), of env] by auto
qed

lemma view_or_id: "view_or k msg s = (Inr v, s') \<Longrightarrow> pv_id v = k"
  by (auto simp: view_or_def io_bind_def io_return_def io_fail_def find_Some_iff split: prod.splits sum.splits option.splits)

text \<open>After the source is read, whatever happens.\<close>

definition install_rest :: "plugin_env \<Rightarrow> path \<Rightarrow> path \<Rightarrow> plugin_manifest \<Rightarrow> (core_error, plugin_view) ps_act" where
  "install_rest env root src m =
     io_bind (ps_files (checked_upgrade env (root @ [pm_id m]) m)) (\<lambda>existed.
     io_bind (ps_do (unload_handle (pm_id m))) (\<lambda>_.
     io_bind (ps_files (place env root src m)) (\<lambda>backup.
     io_bind (io_try (load_dir env (root @ [pm_id m]))) (\<lambda>r.
     case r of
       Inr h \<Rightarrow> io_bind (finish_install env root m existed backup h) (\<lambda>_. view_or (pm_id m) [23433, 35013, 21518, 21015, 34920, 26597, 35810, 22833, 36133])
     | Inl e \<Rightarrow>
         io_bind (restore_old env root (pm_id m) backup) (\<lambda>note_text.
         io_bind (ps_do (set_last_error (pm_id m) (Some e))) (\<lambda>_.
         io_bind (ps_do (emit_change (pm_id m) (lit ''install-failed'') (Some (pm_version m)))) (\<lambda>_.
         io_fail (Core_Internal ([25554, 20214, 32] @ pm_version m @ [32, 21152, 36733, 39564, 35777, 22833, 36133, 58, 32] @ e @ [65307] @ note_text)))))))))"

lemma install_splits:
  assumes "validate_source env src (ph_platform env) (ps_world s) = (Inr m, w1)" "plain_id (pm_id m)"
  shows "plugin_install env src s = install_rest env (ps_root s) src m (s\<lparr>ps_world := w1\<rparr>)"
proof -
  have "io_err (core_of env) (ps_files (validate_source env src (ph_platform env))) s = (Inr m, s\<lparr>ps_world := w1\<rparr>)"
    using assms(1) by (simp add: io_err_def ps_files_def)
  then show ?thesis
    by (simp only: plugin_install_def io_look_def io_bind_def [of "io_err _ _"] prod.case sum.case Let_def plain_paths [OF assms(2)] install_rest_def)
qed

lemma valid_pure: "(C \<Longrightarrow> valid P m E Q) \<Longrightarrow> valid (\<lambda>s. P s \<and> C) m E Q"
  by (auto simp: valid_def)

lemma place_valid:
  assumes "plain_id (pm_id m)" "\<And>v. version_at env [] old = Some v \<Longrightarrow> 47 \<notin> set v"
  shows "valid (\<lambda>s. node_at (root @ [pm_id m]) (tree_of s) = Some old) (ps_files (place env root src m))
    (\<lambda>s. survives root (pm_id m) old (tree_of s)) (\<lambda>b s. upgraded root (pm_id m) old b (tree_of s))"
proof (rule validI)
  fix s e s' assume s: "node_at (root @ [pm_id m]) (tree_of s) = Some old" and r: "ps_files (place env root src m) s = (Inl e, s')"
  obtain w' where w': "place env root src m (ps_world s) = (Inl e, w')" "s' = s\<lparr>ps_world := w'\<rparr>"
    using r by (auto simp: ps_files_def split: prod.splits)
  from place_result [OF w'(1) assms(1) s [unfolded tree_of_def] assms(2)] w'(2)
  show "survives root (pm_id m) old (tree_of s')" by (simp add: survives_def tree_of_def)
next
  fix s b s' assume s: "node_at (root @ [pm_id m]) (tree_of s) = Some old" and r: "ps_files (place env root src m) s = (Inr b, s')"
  obtain w' where w': "place env root src m (ps_world s) = (Inr b, w')" "s' = s\<lparr>ps_world := w'\<rparr>"
    using r by (auto simp: ps_files_def split: prod.splits)
  from place_result [OF w'(1) assms(1) s [unfolded tree_of_def] assms(2)] w'(2)
  show "upgraded root (pm_id m) old b (tree_of s')" by (simp add: upgraded_def backed_up_def tree_of_def)
qed

lemma check_valid:
  "valid (\<lambda>s. node_at t (tree_of s) = Some old) (ps_files (checked_upgrade env t m)) (\<lambda>s. node_at t (tree_of s) = Some old)
     (\<lambda>_ s. node_at t (tree_of s) = Some old \<and> (\<exists>v. version_at env [] old = Some v \<and> version_gt (pm_version m) v))"
proof (rule validI)
  note keep = keepsD [OF keeps_checking(3)]
  { fix s e s' assume "node_at t (tree_of s) = Some old" "ps_files (checked_upgrade env t m) s = (Inl e, s')"
    then show "node_at t (tree_of s') = Some old" using keep by (fastforce simp: ps_files_def tree_of_def split: prod.splits) }
  fix s b s' assume s: "node_at t (tree_of s) = Some old" and r: "ps_files (checked_upgrade env t m) s = (Inr b, s')"
  obtain w' where w': "checked_upgrade env t m (ps_world s) = (Inr b, w')" "s' = s\<lparr>ps_world := w'\<rparr>"
    using r by (auto simp: ps_files_def split: prod.splits)
  from upgrade_check [OF w'(1) s [unfolded tree_of_def]] keep [OF w'(1), of t] s w'(2)
  show "node_at t (tree_of s') = Some old \<and> (\<exists>v. version_at env [] old = Some v \<and> version_gt (pm_version m) v)"
    by (simp add: tree_of_def)
qed

lemma silent_survives:
  "silent m \<Longrightarrow> valid (\<lambda>s. survives root k old (tree_of s)) m (\<lambda>s. survives root k old (tree_of s)) (\<lambda>_ s. survives root k old (tree_of s))"
  using silent_valid [of m "\<lambda>_. survives root k old"] .

lemma view_valid:
  "valid (\<lambda>s. upgraded root k old b (tree_of s)) (view_or k msg) (\<lambda>s. survives root k old (tree_of s))
     (\<lambda>v s. pv_id v = k \<and> upgraded root k old b (tree_of s))"
proof (rule validI)
  note v = validD [OF silent_upgraded [OF silent_views(3), of root k old b k msg]]
  fix s e s' assume "upgraded root k old b (tree_of s)" "view_or k msg s = (Inl e, s')"
  with v(1) show "survives root k old (tree_of s')" by blast
next
  note v = validD [OF silent_upgraded [OF silent_views(3), of root k old b k msg]]
  fix s x s' assume "upgraded root k old b (tree_of s)" "view_or k msg s = (Inr x, s')"
  with v(2) view_or_id show "pv_id x = k \<and> upgraded root k old b (tree_of s')" by blast
qed

lemma install_rest_valid:
  assumes "plain_id (pm_id m)" "\<And>v. version_at env [] old = Some v \<Longrightarrow> 47 \<notin> set v"
  shows "valid (\<lambda>s. node_at (root @ [pm_id m]) (tree_of s) = Some old) (install_rest env root src m)
    (\<lambda>s. survives root (pm_id m) old (tree_of s))
    (\<lambda>v s. (\<exists>v. version_at env [] old = Some v \<and> version_gt (pm_version m) v) \<and> pv_id v = pm_id m \<and> (\<exists>b. upgraded root (pm_id m) old b (tree_of s)))"
proof -
  let ?k = "pm_id m" and ?U = "\<exists>v. version_at env [] old = Some v \<and> version_gt (pm_version m) v"
  let ?E = "\<lambda>s. survives root (pm_id m) old (tree_of s)"
  have ok: "valid (\<lambda>s. upgraded root ?k old b (tree_of s))
      (io_bind (finish_install env root m existed b h) (\<lambda>_. view_or ?k msg)) ?E
      (\<lambda>v s. ?U \<and> pv_id v = ?k \<and> (\<exists>b. upgraded root ?k old b (tree_of s)))" if ?U for b existed h msg
    by (rule valid_weak [OF valid_bind [OF finish_install_valid [OF assms(1)] view_valid]]) (use that in auto)
  have bad: "valid (\<lambda>s. upgraded root ?k old b (tree_of s)) (io_bind (restore_old env root ?k b) (\<lambda>t.
      io_bind (ps_do (set_last_error ?k e)) (\<lambda>_. io_bind (ps_do (emit_change ?k ph v)) (\<lambda>_. io_fail (msg t))))) ?E Q" for b e ph v Q and msg :: "ustring \<Rightarrow> core_error"
    by (rule valid_bind [OF restore_old_valid [OF assms(1)]], rule valid_bind [OF silent_survives [OF silent_notes(1)]],
        rule valid_bind [OF silent_survives [OF silent_notes(2)]], rule valid_fail)
  show ?thesis
    unfolding install_rest_def
  proof (rule valid_bind [OF valid_weak [OF check_valid]], assumption, simp add: survives_def, assumption, rule valid_pure)
    fix existed assume u: ?U
    show "valid (\<lambda>s. node_at (root @ [?k]) (tree_of s) = Some old) (io_bind (ps_do (unload_handle ?k)) (\<lambda>_.
      io_bind (ps_files (place env root src m)) (\<lambda>backup.
      io_bind (io_try (load_dir env (root @ [?k]))) (\<lambda>r.
      case r of
        Inr h \<Rightarrow> io_bind (finish_install env root m existed backup h) (\<lambda>_. view_or ?k [23433, 35013, 21518, 21015, 34920, 26597, 35810, 22833, 36133])
      | Inl e \<Rightarrow>
          io_bind (restore_old env root ?k backup) (\<lambda>note_text.
          io_bind (ps_do (set_last_error ?k (Some e))) (\<lambda>_.
          io_bind (ps_do (emit_change ?k (lit ''install-failed'') (Some (pm_version m)))) (\<lambda>_.
          io_fail (Core_Internal ([25554, 20214, 32] @ pm_version m @ [32, 21152, 36733, 39564, 35777, 22833, 36133, 58, 32] @ e @ [65307] @ note_text)))))))))
      ?E (\<lambda>v s. ?U \<and> pv_id v = ?k \<and> (\<exists>b. upgraded root ?k old b (tree_of s)))"
      by (rule valid_bind [OF silent_old [OF silent_notes(3)]], rule valid_bind [OF place_valid [OF assms]], assumption,
          rule valid_bind [OF silent_upgraded [OF silent_rest(2) [OF silent_load]]], rule valid_split(3), rule bad, rule ok, rule u)
  qed
qed

lemma install_loses_nothing:
  assumes "validate_source env src (ph_platform env) (ps_world s) = (Inr m, w1)" "plugin_install env src s = (r, s')"
    "plain_id (pm_id m)" "node_at (ps_root s @ [pm_id m]) (w_tree (ps_world s)) = Some old"
    "\<forall>v. version_at env [] old = Some v \<longrightarrow> 47 \<notin> set v"
  shows "(case r of
      Inl _ \<Rightarrow> node_at (ps_root s @ [pm_id m]) (w_tree (ps_world s')) = Some old \<or>
        (\<exists>name. node_at (backup_at (ps_root s) (pm_id m) name) (w_tree (ps_world s')) = Some old)
    | Inr v \<Rightarrow> pv_id v = pm_id m \<and> node_at (ps_root s @ [pm_id m]) (w_tree (ps_world s')) \<noteq> None \<and>
        (\<exists>name. node_at (backup_at (ps_root s) (pm_id m) name) (w_tree (ps_world s')) = Some old) \<and>
        (\<exists>v. version_at env [] old = Some v \<and> version_gt (pm_version m) v))"
proof -
  let ?s = "s\<lparr>ps_world := w1\<rparr>"
  have t: "node_at (ps_root s @ [pm_id m]) (tree_of ?s) = Some old"
    using keepsD [OF keeps_source assms(1)] assms(4) by (simp add: tree_of_def)
  have run_it: "install_rest env (ps_root s) src m ?s = (r, s')" using install_splits [OF assms(1,3)] assms(2) by simp
  note v = validD [OF install_rest_valid [OF assms(3), of env old "ps_root s" src]]
  show ?thesis
  proof (cases r)
    case (Inl e)
    have "survives (ps_root s) (pm_id m) old (tree_of s')"
      by (rule v(1) [OF _ t run_it [unfolded Inl]]) (use assms(5) in blast)
    with Inl show ?thesis by (simp add: survives_def tree_of_def)
  next
    case (Inr x)
    have "(\<exists>v. version_at env [] old = Some v \<and> version_gt (pm_version m) v) \<and> pv_id x = pm_id m \<and> (\<exists>b. upgraded (ps_root s) (pm_id m) old b (tree_of s'))"
      by (rule v(2) [OF _ t run_it [unfolded Inr]]) (use assms(5) in blast)
    with Inr show ?thesis by (auto simp: upgraded_def backed_up_def tree_of_def)
  qed
qed

section \<open>A plugin that does not answer\<close>

lemma released_fields [simp]: "ps_loaded (release h s) = ps_loaded s" "ps_quarantined (release h s) = ps_quarantined s"
  "ps_table (release h s) = ps_table s" "ps_faults (release h s) = ps_faults s"
  by (simp_all add: release_def log_trace_def)

lemma quarantine_fields:
  "ps_loaded (quarantine c s) = AList.delete (oc_id c) (ps_loaded s)" "ps_quarantined (quarantine c s) = ps_quarantined s @ [oc_handle c]"
  "ps_table (quarantine c s) = ps_table s" "ps_faults (quarantine c s) = ps_faults s"
  by (auto simp: quarantine_def close_call_def Let_def split: option.split)

lemma map_of_set_enabled:
  "map_of (map (\<lambda>(x, row). (x, if x = k then row\<lparr>pr_enabled := b\<rparr> else row)) t) k = map_option (\<lambda>row. row\<lparr>pr_enabled := b\<rparr>) (map_of t k)"
  by (induction t) auto

text \<open>What the service is like once a call was given up.\<close>

lemma timeout_effect:
  assumes "finish_library c No_Answer s = (r, s')" "ps_faults s = []"
  shows "ps_loaded s' = AList.delete (oc_id c) (ps_loaded s)" "ps_quarantined s' = ps_quarantined s @ [oc_handle c]" "ps_faults s' = []"
    "map_of (ps_table s') (oc_id c) = map_option (\<lambda>row. row\<lparr>pr_enabled := False\<rparr>) (map_of (ps_table s) (oc_id c))" "\<exists>e. r = Inl e"
  using assms
  by (auto simp: finish_library_def Let_def after_do io_bind_def [of "io_try _"] io_try_def row_set_enabled_def db_do_def
      quarantine_fields set_last_error_def emit_change_def io_fail_def map_of_set_enabled)

lemma given_up_is_refused:
  assumes "finish_library c No_Answer s = (r, s')" "ps_faults s = []" "map_of (ps_table s) (oc_id c) = Some row"
  shows "oc_handle c \<in> set (ps_quarantined s') \<and> map_of (ps_loaded s') (oc_id c) = None \<and>
    (\<forall>input. fst (call_begin (oc_id c) input s') = Inl (Core_Internal ([25554, 20214, 24050, 31105, 29992, 58, 32] @ oc_id c @ [65288, 22312, 25554, 20214, 20013, 24515, 21551, 29992, 21518, 20877, 35843, 29992, 65289])))"
  using timeout_effect [OF assms(1,2)] assms(3)
  by (simp add: delete_conv' call_begin_def io_bind_def row_get_def db_do_def Let_def io_fail_def)

text \<open>No library is shut down twice, or while the map, the quarantine or a call refers to it.\<close>

lemma libraries_close_once:
  "distinct (shut_downs (foldl (plugin_step env) (plugin_new root w db table) ops)) \<and>
   set (shut_downs (foldl (plugin_step env) (plugin_new root w db table) ops)) \<inter> alive (foldl (plugin_step env) (plugin_new root w db table) ops) = {}"
  using steps_handles [OF new_handles, of env root w db table ops] by (simp add: handles_ok_def held_def)
end
