(* ===== verification/Plugin_World.thy ===== *)
theory Plugin_World
  imports Plugin_Upgrade
begin

text \<open>
  A directory of plugins with one installed version and a source with a newer one, and what the service does
  with them: the facts that the concrete instances of its properties rest on.
\<close>

definition demo_manifest :: plugin_manifest where
  "demo_manifest = \<lparr>pm_id = (lit ''tool.x''), pm_name = (lit ''X''), pm_version = (lit ''1.0.0''), pm_abi = 1, pm_type = (lit ''tool''),
     pm_entry = [((lit ''linux-x64''), (lit ''x.so''))], pm_capabilities = [], pm_transport = None, pm_integrity = []\<rparr>"

definition demo_newer :: plugin_manifest where "demo_newer = demo_manifest\<lparr>pm_version := (lit ''1.1.0'')\<rparr>"

definition demo_env :: plugin_env where
  "demo_env = \<lparr>ph_parse = (\<lambda>t. if t = (lit ''1'') then Inr demo_manifest else if t = (lit ''2'') then Inr demo_newer else Inl (lit ''bad'')),
     ph_sha256 = (\<lambda>_. []), ph_platform = (lit ''linux-x64''), ph_pid = 7, ph_io_text = (\<lambda>_. (lit ''io'')), pe_inside = (\<lambda>_. True),
     pe_library = (\<lambda>_ _. Inr (process_info demo_manifest)), pe_init = (\<lambda>_. 0), pe_spawn = (\<lambda>_ _. Inr ())\<rparr>"

definition demo_plugin :: "ustring \<Rightarrow> node" where
  "demo_plugin t = Dir [((lit ''manifest.json''), File (utf8 t) 0x1a4), ((lit ''x.so''), File [] 0x1ed)]"

definition demo_world :: disk where
  "demo_world = \<lparr>w_tree = Dir [((lit ''p''), Dir [((lit ''tool.x''), demo_plugin (lit ''1''))]), ((lit ''src''), demo_plugin (lit ''2''))], w_now = 5000, w_ticks = []\<rparr>"

definition demo_service :: plugin_service where
  "demo_service = plugin_new [(lit ''p'')] demo_world \<lparr>rows = [], failure = None\<rparr> []"


lemma demo_fields [simp]:
  "w_tree demo_world = Dir [((lit ''p''), Dir [((lit ''tool.x''), demo_plugin (lit ''1''))]), ((lit ''src''), demo_plugin (lit ''2''))]" "w_ticks demo_world = []" "w_now demo_world = 5000"
  "ph_platform demo_env = (lit ''linux-x64'')" "pe_inside demo_env d" "pe_library demo_env n q = Inr (process_info demo_manifest)" "pe_init demo_env n = 0"
  by (simp_all add: demo_world_def demo_env_def)

lemma demo_parse: "parse_manifest demo_env (lit ''1'') = Inr demo_manifest" "parse_manifest demo_env (lit ''2'') = Inr demo_newer"
  by (simp_all add: parse_manifest_def demo_env_def)

lemma demo_valid: "validate_manifest demo_manifest (lit ''linux-x64'') = Inr ()"
  "validate_manifest demo_newer (lit ''linux-x64'') = Inr ()"
  by (simp_all add: validate_manifest_def demo_newer_def demo_manifest_def trim_def trim_start_def trim_end_def trim_end_with_def is_whitespace_def
      is_valid_id_def id_char_def is_ascii_lower_def is_ascii_digit_def HOST_ABI_VERSION_def PLUGIN_TYPES_def escapes_def starts_with_iff)

lemma silent_call: "w_ticks w = [] \<Longrightarrow> std_call act interrupted w =
    (case act (w_tree w) of Inl e \<Rightarrow> (Inl e, w) | Inr (t, x) \<Rightarrow> (Inr x, w\<lparr>w_tree := t\<rparr>))"
  by (simp add: std_call_def next_tick_def split: sum.split)

lemma demo_text [simp]: "from_utf8 (utf8 [49]) = Some [49]" "from_utf8 (utf8 [50]) = Some [50]"
  by (rule from_utf8_utf8; simp add: valid_string_def is_scalar_def)+

lemma demo_read: "std_read_text (manifest_path [(lit ''p''), (lit ''tool.x'')]) demo_world = (Inr (lit ''1''), demo_world)"
  "std_read_text (manifest_path [(lit ''src'')]) demo_world = (Inr (lit ''2''), demo_world)"
  by (simp_all add: std_read_text_def std_read_def silent_call manifest_path_def demo_plugin_def io_bind_def io_lift_def)

text \<open>Both versions have their manifest and their library.\<close>

lemma demo_there: "dir_at [(lit ''src'')] (w_tree demo_world)" "dir_at [(lit ''p'')] (w_tree demo_world)" "dir_at [(lit ''p''), (lit ''tool.x'')] (w_tree demo_world)"
  "file_at [(lit ''src''), (lit ''x.so'')] (w_tree demo_world)" "file_at [(lit ''p''), (lit ''tool.x''), (lit ''x.so'')] (w_tree demo_world)"
  by (simp_all add: dir_at_iff file_at_iff demo_plugin_def)

lemma demo_entry: "entry_for demo_manifest (lit ''linux-x64'') = Some (lit ''x.so'')" "entry_for demo_newer (lit ''linux-x64'') = Some (lit ''x.so'')"
  "pm_integrity demo_manifest = []" "pm_integrity demo_newer = []" "\<not> is_process demo_manifest" "\<not> is_process demo_newer"
  "pm_id demo_manifest = (lit ''tool.x'')" "pm_id demo_newer = (lit ''tool.x'')" "pm_version demo_newer = (lit ''1.1.0'')"
  by (simp_all add: entry_for_def demo_newer_def demo_manifest_def is_process_def transport_of_def TRANSPORT_PROCESS_def TRANSPORT_IN_PROCESS_def)

lemma demo_resolve: "resolve d (lit ''x.so'') = d @ [(lit ''x.so'')]"
  by (rule resolve_plain) (simp add: plain_name_def)

lemma demo_plain: "plain_id (lit ''tool.x'')"
  by (simp add: plain_id_def plain_name_def BACKUPS_DIR_def STAGING_DIR_def)

lemma demo_source: "validate_source demo_env [(lit ''src'')] (ph_platform demo_env) demo_world = (Inr demo_newer, demo_world)"
  by (simp add: validate_source_def io_look_def io_bind_def io_err_def io_lift_def io_return_def read_manifest_of_def demo_read demo_parse
      demo_valid demo_there demo_entry demo_resolve check_artifact_def del: lit_Cons demo_fields(1))

lemma demo_lib: "artifact_path demo_env d demo_manifest = Inr (d @ [(lit ''x.so'')])"
proof -
  have "\<not> escapes (lit ''x.so'')" by (simp add: escapes_def starts_with_iff)
  then show ?thesis by (simp add: artifact_path_def safe_join_def demo_entry demo_resolve del: lit_Cons)
qed

text \<open>Loading what is installed.\<close>

definition demo_handle :: "nat \<Rightarrow> plugin_handle" where
  "demo_handle n = \<lparr>hd_no = n, hd_manifest = demo_manifest, hd_process = False, hd_info = process_info demo_manifest\<rparr>"

lemma demo_inspect: "checked_manifest demo_env [(lit ''p''), (lit ''tool.x'')] demo_world = (Inr demo_manifest, demo_world)"
  "inspect demo_env [(lit ''p''), (lit ''tool.x'')] demo_world = (Inr demo_manifest, demo_world)"
proof -
  show c: "checked_manifest demo_env [(lit ''p''), (lit ''tool.x'')] demo_world = (Inr demo_manifest, demo_world)"
    by (simp add: checked_manifest_def io_bind_def io_err_def io_lift_def io_return_def demo_read demo_parse demo_valid del: lit_Cons)
  show "inspect demo_env [(lit ''p''), (lit ''tool.x'')] demo_world = (Inr demo_manifest, demo_world)"
    by (simp add: inspect_def io_bind_def io_look_def io_lift_def io_return_def c demo_lib demo_there del: lit_Cons demo_fields(1))
qed

lemma demo_load: "ps_world s = demo_world \<Longrightarrow> load_dir demo_env [(lit ''p''), (lit ''tool.x'')] s =
    (Inr (demo_handle (ps_next s)), s\<lparr>ps_next := ps_next s + 1, ps_trace := ps_trace s @ [Initialised (ps_next s)]\<rparr>)"
  by (simp add: load_dir_def load_one_def opened_def ps_files_def io_bind_def io_err_def io_look_def io_lift_def io_return_def ps_do_def log_trace_def
      demo_inspect demo_entry demo_lib process_info_def demo_handle_def HOST_ABI_VERSION_def del: lit_Cons)


lemma demo_candidates: "list_candidate_dirs demo_env [(lit ''p'')] demo_world = (Inr ([((lit ''tool.x''), [(lit ''p''), (lit ''tool.x'')])], []), demo_world)"
proof -
  have ls: "std_list [(lit ''p'')] demo_world = (Inr [(lit ''tool.x'')], demo_world)"
    by (simp add: std_list_def silent_call)
  have "\<not> starts_with (lit ''tool.x'') [46]" by (simp add: starts_with_iff)
  with demo_there(3) show ?thesis
    by (simp add: list_candidate_dirs_def io_bind_def io_try_def io_look_def io_return_def ls Let_def del: lit_Cons demo_fields(1))
qed

definition demo_row :: plugin_row where "demo_row = row_of demo_manifest [(lit ''p''), (lit ''tool.x'')] True"

lemma demo_row_enabled [simp]: "pr_enabled demo_row" "row_of demo_manifest [(lit ''p''), (lit ''tool.x'')] True = demo_row" "demo_row\<lparr>pr_enabled := True\<rparr> = demo_row"
  by (simp_all add: demo_row_def row_of_def)

lemma demo_scan:
  assumes "ps_world s = demo_world" "ps_root s = [(lit ''p'')]" "ps_faults s = []" "ps_table s \<in> {[], [((lit ''tool.x''), demo_row)]}"
  shows "snd (plugin_scan demo_env s) = snd (row_remove_except [(lit ''tool.x'')] (replace_loaded [((lit ''tool.x''), demo_handle (ps_next s))]
    (s\<lparr>ps_table := [((lit ''tool.x''), demo_row)], ps_next := ps_next s + 1, ps_trace := ps_trace s @ [Initialised (ps_next s)]\<rparr>)))"
proof -
  have en: "db_enabled (lit ''tool.x'') s = (Inr True, s)"
    using assms by (auto simp: db_enabled_def row_get_def db_do_def io_bind_def io_try_def io_return_def Let_def simp del: lit_Cons)
  have up: "or_drop [] (row_upsert (lit ''tool.x'') demo_row) s = (Inr (), s\<lparr>ps_table := [((lit ''tool.x''), demo_row)]\<rparr>)"
    using assms by (auto simp: or_drop_def row_upsert_def db_do_def io_bind_def io_try_def io_return_def Let_def simp del: lit_Cons)
  let ?s = "s\<lparr>ps_table := [((lit ''tool.x''), demo_row)]\<rparr>"
  let ?s' = "?s\<lparr>ps_next := ps_next s + 1, ps_trace := ps_trace s @ [Initialised (ps_next s)]\<rparr>"
  have ld: "load_dir demo_env [(lit ''p''), (lit ''tool.x'')] ?s = (Inr (demo_handle (ps_next s)), ?s')"
    using assms(1) by (simp add: demo_load del: lit_Cons)
  have w: "s\<lparr>ps_world := demo_world\<rparr> = s" using assms(1) by simp
  have ins: "ps_files (inspect demo_env [(lit ''p''), (lit ''tool.x'')]) s = (Inr demo_manifest, s)"
    using assms(1) w by (simp add: ps_files_def demo_inspect del: lit_Cons)
  have each: "scan_each demo_env [((lit ''tool.x''), [(lit ''p''), (lit ''tool.x'')])] [] [] [] s = (Inr ([], [((lit ''tool.x''), demo_handle (ps_next s))], [(lit ''tool.x'')]), ?s')"
    by (simp add: io_bind_def io_try_def io_return_def ps_do_def ins demo_entry en up ld put_new_def Let_def del: lit_Cons)
  have cand: "ps_files (list_candidate_dirs demo_env [(lit ''p'')]) s = (Inr ([((lit ''tool.x''), [(lit ''p''), (lit ''tool.x'')])], []), s)"
    using assms(1) w by (simp add: ps_files_def demo_candidates del: lit_Cons)
  obtain r t where rm: "row_remove_except [(lit ''tool.x'')] (replace_loaded [((lit ''tool.x''), demo_handle (ps_next s))] ?s') = (r, t)" by fastforce
  have "snd (plugin_scan demo_env s) = t"
    using assms(2) rm by (cases r) (simp_all add: plugin_scan_def io_look_def io_bind_def io_return_def ps_do_def cand each del: lit_Cons scan_each.simps)
  with rm show ?thesis by simp
qed

lemma demo_trace: "ps_trace (foldl (plugin_step demo_env) demo_service [Op_Scan, Op_Scan]) = [Initialised 0, Initialised 1, Shut_Down 0]"
proof -
  have b: "ps_world demo_service = demo_world" "ps_root demo_service = [(lit ''p'')]" "ps_faults demo_service = []" "ps_table demo_service = []"
    "ps_next demo_service = 0" "ps_trace demo_service = []" "ps_loaded demo_service = []" "ps_open demo_service = []" "ps_quarantined demo_service = []"
    by (simp_all add: demo_service_def plugin_new_def)
  define s1 where "s1 = snd (plugin_scan demo_env demo_service)"
  have s1: "ps_world s1 = demo_world" "ps_root s1 = [(lit ''p'')]" "ps_faults s1 = []" "ps_table s1 = [((lit ''tool.x''), demo_row)]" "ps_next s1 = 1"
    "ps_trace s1 = [Initialised 0]" "ps_loaded s1 = [((lit ''tool.x''), demo_handle 0)]" "ps_open s1 = []" "ps_quarantined s1 = []"
    using demo_scan [of demo_service] b
    by (simp_all add: s1_def replace_loaded_def row_remove_except_def db_do_def Let_def del: lit_Cons)
  have "ps_trace (snd (plugin_scan demo_env s1)) = [Initialised 0, Initialised 1, Shut_Down 0]"
    using demo_scan [of s1] s1
    by (simp add: replace_loaded_def row_remove_except_def db_do_def Let_def release_def alive_def log_trace_def demo_handle_def del: lit_Cons)
  then show ?thesis by (simp add: s1_def)
qed

text \<open>The newer version installed, with the older one among the backups.\<close>

definition demo_upgraded :: disk where
  "demo_upgraded = \<lparr>w_tree = Dir [((lit ''p''), Dir [((lit ''tool.x''), demo_plugin (lit ''2'')),
     ((lit ''.backups''), Dir [((lit ''tool.x''), Dir [((lit ''4-0.9.0''), Dir []), ((lit ''5-1.0.0''), demo_plugin (lit ''1''))])])])], w_now = 6000, w_ticks = []\<rparr>"

lemma demo_backups: "node_at [(lit ''p''), (lit ''.backups''), (lit ''tool.x'')] (w_tree demo_upgraded) = Some (Dir [((lit ''4-0.9.0''), Dir []), ((lit ''5-1.0.0''), demo_plugin (lit ''1''))])"
  "node_at [(lit ''p''), (lit ''tool.x'')] (w_tree demo_upgraded) = Some (demo_plugin (lit ''2''))"
  by (simp_all add: demo_upgraded_def)

lemma demo_latest: "latest_backup [(lit ''p'')] (lit ''tool.x'') demo_upgraded = (Inr (Some [(lit ''p''), (lit ''.backups''), (lit ''tool.x''), (lit ''5-1.0.0'')]), demo_upgraded)"
proof -
  let ?b = "[(lit ''p''), (lit ''.backups''), (lit ''tool.x'')]"
  have "backups_of [(lit ''p'')] (lit ''tool.x'') = ?b" using plain_paths(2) [OF demo_plain, of "[(lit ''p'')]"] by (simp add: BACKUPS_DIR_def)
  moreover have "std_list ?b demo_upgraded = (Inr [(lit ''4-0.9.0''), (lit ''5-1.0.0'')], demo_upgraded)"
    using demo_backups(1) by (simp add: std_list_def silent_call demo_upgraded_def)
  moreover have "dir_at (?b @ [n]) (w_tree demo_upgraded)" if "n \<in> {(lit ''4-0.9.0''), (lit ''5-1.0.0'')}" for n
    using that by (auto simp: dir_at_iff demo_upgraded_def demo_plugin_def)
  moreover have "sort [?b @ [(lit ''4-0.9.0'')], ?b @ [(lit ''5-1.0.0'')]] = [?b @ [(lit ''4-0.9.0'')], ?b @ [(lit ''5-1.0.0'')]]" by simp
  ultimately show ?thesis
    by (simp add: latest_backup_def io_bind_def io_try_def io_look_def io_return_def Let_def del: lit_Cons append.simps)
qed

definition demo_aside :: "ustring \<Rightarrow> disk" where
  "demo_aside q = demo_upgraded\<lparr>w_tree := Dir [((lit ''p''), Dir [
     ((lit ''.backups''), Dir [((lit ''tool.x''), Dir [((lit ''4-0.9.0''), Dir []), ((lit ''5-1.0.0''), demo_plugin (lit ''1''))])]), ((lit ''.staging''), Dir [(q, demo_plugin (lit ''2''))])])]\<rparr>"

lemma demo_sets_aside: "set_aside [(lit ''p''), (lit ''tool.x'')] [(lit ''p''), (lit ''.staging''), q] demo_upgraded = (Inr (), demo_aside q)"
  by (simp add: set_aside_def io_bind_def io_err_def io_look_def io_return_def std_make_dirs_def std_rename_def silent_call rename_tree_def dir_at_def
      demo_upgraded_def demo_aside_def demo_plugin_def)

lemma demo_brings_back: "\<exists>w. bring_back demo_env [(lit ''p''), (lit ''.backups''), (lit ''tool.x''), (lit ''5-1.0.0'')] [(lit ''p''), (lit ''tool.x'')] [(lit ''p''), (lit ''.staging''), q] [(lit ''p''), (lit ''.backups''), (lit ''tool.x'')] (demo_aside q) =
    (Inr demo_manifest, w)"
proof -
  let ?d = "(demo_aside q)\<lparr>w_tree := Dir [((lit ''p''), Dir [
     ((lit ''.backups''), Dir [((lit ''tool.x''), Dir [((lit ''4-0.9.0''), Dir [])])]), ((lit ''.staging''), Dir [(q, demo_plugin (lit ''2''))]), ((lit ''tool.x''), demo_plugin (lit ''1''))])]\<rparr>"
  have moved: "std_rename [(lit ''p''), (lit ''.backups''), (lit ''tool.x''), (lit ''5-1.0.0'')] [(lit ''p''), (lit ''tool.x'')] (demo_aside q) = (Inr (), ?d)"
    by (simp add: std_rename_def silent_call rename_tree_def dir_at_def demo_upgraded_def demo_aside_def demo_plugin_def)
  have "std_read_text (manifest_path [(lit ''p''), (lit ''tool.x'')]) ?d = (Inr (lit ''1''), ?d)"
    by (simp add: std_read_text_def std_read_def silent_call manifest_path_def demo_plugin_def demo_aside_def demo_upgraded_def io_bind_def io_lift_def)
  then have read: "read_manifest_of demo_env [(lit ''p''), (lit ''tool.x'')] ?d = (Inr demo_manifest, ?d)"
    by (simp add: read_manifest_of_def io_bind_def io_err_def io_lift_def demo_parse del: lit_Cons)
  obtain r1 w1 where a: "std_remove_all [(lit ''p''), (lit ''.staging''), q] ?d = (r1, w1)" by fastforce
  obtain r2 w2 where b: "std_remove_all [(lit ''p''), (lit ''.backups''), (lit ''tool.x'')] w1 = (r2, w2)" by fastforce
  show ?thesis
    by (simp add: bring_back_def io_bind_def io_try_def io_return_def moved read a b del: lit_Cons)
qed

lemma demo_rolls_back: "\<exists>w. plugin_rollback demo_env [(lit ''p'')] (lit ''tool.x'') demo_upgraded = (Inr demo_manifest, w)"
proof -
  obtain q where q: "trash_at demo_env [(lit ''p'')] (lit ''tool.x'') = [(lit ''p''), (lit ''.staging''), q]" by (simp add: trash_at_def STAGING_DIR_def)
  have b: "[(lit ''p'')] @ [BACKUPS_DIR, (lit ''tool.x'')] = [(lit ''p''), (lit ''.backups''), (lit ''tool.x'')]" by (simp add: BACKUPS_DIR_def)
  show ?thesis
    unfolding plugin_rollback_plain [OF demo_plain] q b
    using demo_brings_back [of q] by (simp add: io_bind_def demo_latest demo_sets_aside del: lit_Cons)
qed

lemma demo_installed: "node_at [(lit ''p''), (lit ''tool.x'')] (w_tree demo_world) = Some (demo_plugin (lit ''1''))"
  by simp

lemma demo_version: "version_at demo_env [] (demo_plugin (lit ''1'')) = Some (lit ''1.0.0'')"
  by (simp add: version_at_def manifest_path_def demo_plugin_def demo_parse [simplified]) (simp add: demo_manifest_def)

text \<open>A call of the installed plugin that waits for its answer.\<close>

definition waiting_call :: open_call where
  "waiting_call = \<lparr>oc_no = 1, oc_id = (lit ''tool.x''), oc_handle = demo_handle 0, oc_timeout = 30000, oc_max = 8388608\<rparr>"

definition demo_waiting :: plugin_service where
  "demo_waiting = demo_service\<lparr>ps_table := [((lit ''tool.x''), demo_row)], ps_loaded := [((lit ''tool.x''), demo_handle 0)], ps_open := [waiting_call], ps_next := 2\<rparr>"

lemma demo_versions: "version_parts (lit ''1.10.0'') = [(1, (lit ''1'')), (10, (lit ''10'')), (0, (lit ''0''))]" "version_parts (lit ''1.9'') = [(1, (lit ''1'')), (9, (lit ''9''))]"
  by (simp_all add: version_parts_def trim_def trim_start_def trim_end_def trim_end_with_def is_whitespace_def
      parse_unsigned_def to_digit_def u64_max_def)
end
