(* ===== verification/Agent_Frame.thy ===== *)
theory Agent_Frame
  imports Rust_Str
begin

text \<open>
  The wire format between the desktop and the agent (\<open>agent-protocol/src/frame.rs\<close>): a payload of
  at most \<open>MAX_FRAME_SIZE\<close> bytes behind its length as four big-endian bytes; and the two readers of
  that format, \<open>read_message\<close> of \<open>android-agent/src/server.rs\<close> and of
  \<open>src-tauri/src/adapters/agent_transport.rs\<close>.

  A byte source is the bytes it still delivers and the I/O error it ends with; a byte sink what it
  has taken and how much it still takes before it fails. The JSON library is a parameter.
\<close>

datatype io_kind = Unexpected_Eof | Broken_Pipe | Connection_Reset | Invalid_Data | Io_Other ustring

datatype frame_error = Frame_Too_Large nat nat | Frame_Io io_kind | Frame_Json ustring

definition MAX_FRAME_SIZE :: nat where
  "MAX_FRAME_SIZE = 8 * 1024 * 1024"

definition LENGTH_PREFIX_SIZE :: nat where
  "LENGTH_PREFIX_SIZE = 4"

section \<open>Sources, sinks and the length prefix\<close>

type_synonym source = "bytes \<times> io_kind"

definition read_exact :: "nat \<Rightarrow> source \<Rightarrow> (io_kind + bytes) \<times> source" where
  "read_exact n = (\<lambda>(bs, e). if n \<le> length bs then (Inr (take n bs), drop n bs, e) else (Inl e, [], e))"

record sink =
  written :: bytes
  room :: "nat option" \<comment> \<open>bytes taken before the next write fails; \<open>None\<close> when it never does\<close>
  sink_error :: io_kind

definition write_all :: "bytes \<Rightarrow> sink \<Rightarrow> (io_kind + unit) \<times> sink" where
  "write_all bs k =
     (case room k of
        None \<Rightarrow> (Inr (), k\<lparr>written := written k @ bs\<rparr>)
      | Some n \<Rightarrow>
          if length bs \<le> n then (Inr (), k\<lparr>written := written k @ bs, room := Some (n - length bs)\<rparr>)
          else (Inl (sink_error k), k\<lparr>written := written k @ take n bs, room := Some 0\<rparr>))"

definition to_be_bytes :: "u32 \<Rightarrow> bytes" where
  "to_be_bytes w = [ucast (drop_bit 24 w), ucast (drop_bit 16 w), ucast (drop_bit 8 w), ucast w]"

fun from_be_bytes :: "bytes \<Rightarrow> u32" where
  "from_be_bytes bs = foldl (\<lambda>w b. push_bit 8 w OR ucast b) 0 bs"

definition u32_try_from :: "nat \<Rightarrow> u32 option" where
  "u32_try_from n = (if n < 2 ^ 32 then Some (of_nat n) else None)"

section \<open>Frames\<close>

definition validate_size :: "nat \<Rightarrow> frame_error + unit" where
  "validate_size n = (if MAX_FRAME_SIZE < n then Inl (Frame_Too_Large n MAX_FRAME_SIZE) else Inr ())"

definition encode_frame :: "bytes \<Rightarrow> frame_error + bytes" where
  "encode_frame payload =
     rbind (validate_size (length payload)) (\<lambda>_.
     rbind (ok_or (u32_try_from (length payload)) (Frame_Too_Large (length payload) MAX_FRAME_SIZE)) (\<lambda>n.
     Inr (to_be_bytes n @ payload)))"

definition encode_json :: "('a \<Rightarrow> ustring + bytes) \<Rightarrow> 'a \<Rightarrow> frame_error + bytes" where
  "encode_json to_vec v = rbind (rmap_err Frame_Json (to_vec v)) encode_frame"

definition write_frame :: "bytes \<Rightarrow> sink \<Rightarrow> (frame_error + unit) \<times> sink" where
  "write_frame payload k =
     (case rbind (validate_size (length payload)) (\<lambda>_.
             ok_or (u32_try_from (length payload)) (Frame_Too_Large (length payload) MAX_FRAME_SIZE)) of
        Inl e \<Rightarrow> (Inl e, k)
      | Inr n \<Rightarrow>
          (case write_all (to_be_bytes n) k of
             (Inl e, k') \<Rightarrow> (Inl (Frame_Io e), k')
           | (Inr _, k') \<Rightarrow>
               (case write_all payload k' of
                  (Inl e, k'') \<Rightarrow> (Inl (Frame_Io e), k'')
                | (Inr _, k'') \<Rightarrow> (Inr (), k''))))"

definition write_json :: "('a \<Rightarrow> ustring + bytes) \<Rightarrow> 'a \<Rightarrow> sink \<Rightarrow> (frame_error + unit) \<times> sink" where
  "write_json to_vec v k =
     (case to_vec v of Inl e \<Rightarrow> (Inl (Frame_Json e), k) | Inr payload \<Rightarrow> write_frame payload k)"

definition read_frame :: "source \<Rightarrow> (frame_error + bytes) \<times> source" where
  "read_frame s =
     (case read_exact LENGTH_PREFIX_SIZE s of
        (Inl e, s') \<Rightarrow> (Inl (Frame_Io e), s')
      | (Inr prefix, s') \<Rightarrow>
          (let n = unat (from_be_bytes prefix) in
           case validate_size n of
             Inl e \<Rightarrow> (Inl e, s')
           | Inr _ \<Rightarrow>
               (case read_exact n s' of
                  (Inl e, s'') \<Rightarrow> (Inl (Frame_Io e), s'')
                | (Inr payload, s'') \<Rightarrow> (Inr payload, s''))))"

definition read_json :: "(bytes \<Rightarrow> ustring + 'a) \<Rightarrow> source \<Rightarrow> (frame_error + 'a) \<times> source" where
  "read_json from_slice s =
     (case read_frame s of
        (Inl e, s') \<Rightarrow> (Inl e, s')
      | (Inr payload, s') \<Rightarrow> (rmap_err Frame_Json (from_slice payload), s'))"

text \<open>The reader of the agent's server: every failure is an I/O error.\<close>

definition server_read_message :: "(bytes \<Rightarrow> ustring + 'a) \<Rightarrow> source \<Rightarrow> (io_kind + 'a) \<times> source" where
  "server_read_message from_slice s =
     (case read_exact 4 s of
        (Inl e, s') \<Rightarrow> (Inl e, s')
      | (Inr prefix, s') \<Rightarrow>
          (let n = unat (from_be_bytes prefix) in
           if MAX_FRAME_SIZE < n then (Inl Invalid_Data, s')
           else (case read_exact n s' of
                   (Inl e, s'') \<Rightarrow> (Inl e, s'')
                 | (Inr payload, s'') \<Rightarrow> (rmap_err (\<lambda>_. Invalid_Data) (from_slice payload), s''))))"

text \<open>The reader of the desktop's transport.\<close>

datatype transport_error = Closed | Transport_Io io_kind | Frame_Over_Limit nat nat | Invalid_Frame ustring

definition map_io_error :: "io_kind \<Rightarrow> transport_error" where
  "map_io_error e = (if e \<in> {Unexpected_Eof, Broken_Pipe, Connection_Reset} then Closed else Transport_Io e)"

definition transport_read_message :: "(bytes \<Rightarrow> ustring + 'a) \<Rightarrow> source \<Rightarrow> (transport_error + 'a) \<times> source" where
  "transport_read_message from_slice s =
     (case read_exact 4 s of
        (Inl e, s') \<Rightarrow> (Inl (map_io_error e), s')
      | (Inr prefix, s') \<Rightarrow>
          (let n = unat (from_be_bytes prefix) in
           if MAX_FRAME_SIZE < n then (Inl (Frame_Over_Limit n MAX_FRAME_SIZE), s')
           else (case read_exact n s' of
                   (Inl e, s'') \<Rightarrow> (Inl (map_io_error e), s'')
                 | (Inr payload, s'') \<Rightarrow> (rmap_err Invalid_Frame (from_slice payload), s''))))"

text \<open>The text of an I/O error is that of the standard library.\<close>

definition frame_error_display :: "(io_kind \<Rightarrow> ustring) \<Rightarrow> frame_error \<Rightarrow> ustring" where
  "frame_error_display io_text e =
     (case e of
        Frame_Too_Large n m \<Rightarrow> lit ''frame payload is '' @ show_dec n @ lit '' bytes, maximum is '' @ show_dec m
      | Frame_Io k \<Rightarrow> lit ''frame I/O failed: '' @ io_text k
      | Frame_Json t \<Rightarrow> lit ''frame JSON failed: '' @ t)"

definition transport_encode_error :: "(io_kind \<Rightarrow> ustring) \<Rightarrow> frame_error \<Rightarrow> transport_error" where
  "transport_encode_error io_text e =
     (case e of Frame_Too_Large n m \<Rightarrow> Frame_Over_Limit n m | other \<Rightarrow> Invalid_Frame (frame_error_display io_text other))"

definition transport_send ::
  "(io_kind \<Rightarrow> ustring) \<Rightarrow> ('a \<Rightarrow> ustring + bytes) \<Rightarrow> 'a \<Rightarrow> sink \<Rightarrow> (transport_error + unit) \<times> sink" where
  "transport_send io_text to_vec request k =
     (case rmap_err (transport_encode_error io_text) (encode_json to_vec request) of
        Inl e \<Rightarrow> (Inl e, k)
      | Inr frame \<Rightarrow> (case write_all frame k of (r, k') \<Rightarrow> (rmap_err map_io_error r, k')))"

section \<open>Lemmas\<close>

lemma read_exact_enough: "length p = n \<Longrightarrow> read_exact n (p @ rest, e) = (Inr p, rest, e)"
  by (auto simp: read_exact_def)

lemma read_exact_short: "length bs < n \<Longrightarrow> read_exact n (bs, e) = (Inl e, [], e)"
  by (simp add: read_exact_def)

lemma length_to_be_bytes [simp]: "length (to_be_bytes w) = LENGTH_PREFIX_SIZE"
  by (simp add: to_be_bytes_def LENGTH_PREFIX_SIZE_def)

lemma from_to_be_bytes [simp, roundtrips]: "from_be_bytes (to_be_bytes w) = w"
proof (rule bit_word_eqI)
  fix n assume "n < LENGTH(32)"
  then show "bit (from_be_bytes (to_be_bytes w)) n = bit w n"
    by (cases "24 \<le> n"; cases "16 \<le> n"; cases "8 \<le> n") (simp_all add: to_be_bytes_def bit_simps, linarith+)
qed

declare from_be_bytes.simps [simp del]

lemma frame_sizes: "n \<le> MAX_FRAME_SIZE \<Longrightarrow> u32_try_from n = Some (of_nat n) \<and> unat (of_nat n :: u32) = n"
  by (simp add: u32_try_from_def MAX_FRAME_SIZE_def unat_of_nat)

lemma encode_frame_ok: "length p \<le> MAX_FRAME_SIZE \<Longrightarrow> encode_frame p = Inr (to_be_bytes (of_nat (length p)) @ p)"
  using frame_sizes [of "length p"] by (simp add: encode_frame_def validate_size_def)

lemma encode_frame_too_large: "MAX_FRAME_SIZE < length p \<Longrightarrow> encode_frame p = Inl (Frame_Too_Large (length p) MAX_FRAME_SIZE)"
  by (simp add: encode_frame_def validate_size_def)

lemma encode_frame_iff: "encode_frame p = Inr f \<longleftrightarrow> length p \<le> MAX_FRAME_SIZE \<and> f = to_be_bytes (of_nat (length p)) @ p"
  using encode_frame_ok [of p] encode_frame_too_large [of p] by (cases "length p \<le> MAX_FRAME_SIZE") auto

lemma read_frame_encoded:
  assumes "length p \<le> MAX_FRAME_SIZE"
  shows "read_frame (to_be_bytes (of_nat (length p)) @ p @ rest, e) = (Inr p, rest, e)"
  using assms frame_sizes [of "length p"]
  by (simp add: read_frame_def read_exact_enough validate_size_def)

text \<open>Reading the frames of a finished stream one after the other.\<close>

definition next_frame :: "bytes \<Rightarrow> frame_error + bytes \<times> bytes" where
  "next_frame bs = (case read_frame (bs, Unexpected_Eof) of (Inl e, _) \<Rightarrow> Inl e | (Inr p, rest, _) \<Rightarrow> Inr (p, rest))"

definition frame_of :: "bytes \<Rightarrow> bytes" where
  "frame_of p = to_be_bytes (of_nat (length p)) @ p"

interpretation frame_code: prefix_code frame_of next_frame "\<lambda>p. length p \<le> MAX_FRAME_SIZE"
  by unfold_locales (simp add: next_frame_def frame_of_def read_frame_encoded)

lemma encode_frame_of: "encode_frame p = Inr f \<Longrightarrow> f = frame_of p \<and> length p \<le> MAX_FRAME_SIZE"
  by (simp add: encode_frame_iff frame_of_def)

text \<open>A frame that is cut short is an I/O error, at whatever byte it is cut.\<close>

lemma read_frame_cut:
  assumes "length p \<le> MAX_FRAME_SIZE" "k < length (frame_of p)"
  shows "fst (read_frame (take k (frame_of p), e)) = Inl (Frame_Io e)"
proof (cases "k < LENGTH_PREFIX_SIZE")
  case True
  then show ?thesis by (simp add: read_frame_def read_exact_short)
next
  case False
  then obtain j where k: "k = LENGTH_PREFIX_SIZE + j" by (auto simp: not_less le_iff_add)
  with assms(2) have j: "j < length p" by (simp add: frame_of_def)
  have t: "take k (frame_of p) = to_be_bytes (of_nat (length p)) @ take j p" by (simp add: frame_of_def k)
  show ?thesis
    using frame_sizes [OF assms(1)] assms(1) j unfolding t
    by (simp add: read_frame_def read_exact_enough read_exact_short validate_size_def)
qed

text \<open>An announced length over the limit is refused before a byte of the payload is read.\<close>

lemma read_frame_oversized:
  "MAX_FRAME_SIZE < unat n \<Longrightarrow>
   read_frame (to_be_bytes n @ rest, e) = (Inl (Frame_Too_Large (unat n) MAX_FRAME_SIZE), rest, e)"
  by (simp add: read_frame_def read_exact_enough validate_size_def)

lemma read_frame_bound: "fst (read_frame s) = Inr p \<Longrightarrow> length p \<le> MAX_FRAME_SIZE"
  by (cases s) (auto simp: read_frame_def read_exact_def validate_size_def Let_def split: if_splits)

text \<open>Writing a frame puts exactly the encoded frame on the wire, or nothing when it is refused.\<close>

lemma write_frame_unlimited:
  "room k = None \<Longrightarrow>
   write_frame p k = (case encode_frame p of
      Inl e \<Rightarrow> (Inl e, k) | Inr f \<Rightarrow> (Inr (), k\<lparr>written := written k @ f\<rparr>))"
  using encode_frame_ok [of p] encode_frame_too_large [of p] frame_sizes [of "length p"]
  by (cases "length p \<le> MAX_FRAME_SIZE") (simp_all add: write_frame_def validate_size_def write_all_def)

lemma write_frame_refused: "MAX_FRAME_SIZE < length p \<Longrightarrow> snd (write_frame p k) = k"
  by (simp add: write_frame_def validate_size_def)

text \<open>Several frames, written one after the other and read back one after the other.\<close>

fun write_frames :: "bytes list \<Rightarrow> sink \<Rightarrow> (frame_error + unit) \<times> sink" where
  "write_frames [] k = (Inr (), k)"
| "write_frames (p # ps) k = (case write_frame p k of (Inl e, k') \<Rightarrow> (Inl e, k') | (Inr _, k') \<Rightarrow> write_frames ps k')"

fun read_frames :: "nat \<Rightarrow> source \<Rightarrow> (frame_error + bytes list) \<times> source" where
  "read_frames 0 s = (Inr [], s)"
| "read_frames (Suc n) s =
     (case read_frame s of
        (Inl e, s') \<Rightarrow> (Inl e, s')
      | (Inr p, s') \<Rightarrow> (case read_frames n s' of (r, s'') \<Rightarrow> (rmap ((#) p) r, s'')))"

lemma write_frames_all:
  "room k = None \<Longrightarrow> list_all (\<lambda>p. length p \<le> MAX_FRAME_SIZE) ps \<Longrightarrow>
   write_frames ps k = (Inr (), k\<lparr>written := written k @ concat (map frame_of ps)\<rparr>)"
proof (induction ps arbitrary: k)
  case (Cons p ps)
  then have "write_frame p k = (Inr (), k\<lparr>written := written k @ frame_of p\<rparr>)"
    by (simp add: write_frame_unlimited encode_frame_ok frame_of_def)
  with Cons show ?case by simp
qed simp

lemma read_frame_source: "next_frame bs = Inr (p, rest) \<Longrightarrow> read_frame (bs, e) = (Inr p, rest, e)"
  by (auto simp: next_frame_def read_frame_def read_exact_def validate_size_def Let_def split: if_splits)

lemma read_frames_seq: "frame_code.dec_seq n bs = Inr (ps, rest) \<Longrightarrow> read_frames n (bs, e) = (Inr ps, rest, e)"
proof (induction n arbitrary: bs ps)
  case (Suc n)
  then obtain p bs' ps' where "next_frame bs = Inr (p, bs')" "frame_code.dec_seq n bs' = Inr (ps', rest)" "ps = p # ps'"
    by (auto simp: frame_code.dec_seq.simps result_inv)
  with read_frame_source Suc.IH show ?case by simp
qed (simp add: frame_code.dec_seq.simps)

text \<open>The three readers are the same reader up to the names of the errors.\<close>

definition as_server_error :: "frame_error \<Rightarrow> io_kind" where
  "as_server_error e = (case e of Frame_Io k \<Rightarrow> k | _ \<Rightarrow> Invalid_Data)"

definition as_transport_error :: "frame_error \<Rightarrow> transport_error" where
  "as_transport_error e =
     (case e of Frame_Too_Large n m \<Rightarrow> Frame_Over_Limit n m | Frame_Io k \<Rightarrow> map_io_error k | Frame_Json t \<Rightarrow> Invalid_Frame t)"

lemma rmap_err_comp: "rmap_err f (rmap_err g r) = rmap_err (\<lambda>e. f (g e)) r"
  by (cases r) auto

lemma server_reads: "server_read_message dec s = apfst (rmap_err as_server_error) (read_json dec s)"
  by (cases s)
    (simp add: server_read_message_def read_json_def read_frame_def read_exact_def validate_size_def Let_def
      as_server_error_def LENGTH_PREFIX_SIZE_def rmap_err_comp)

lemma transport_reads: "transport_read_message dec s = apfst (rmap_err as_transport_error) (read_json dec s)"
  by (cases s)
    (simp add: transport_read_message_def read_json_def read_frame_def read_exact_def validate_size_def Let_def
      as_transport_error_def LENGTH_PREFIX_SIZE_def rmap_err_comp)

end
