(* ===== verification/Agent_Protocol.thy ===== *)
theory Agent_Protocol
  imports Agent_Frame
begin

text \<open>
  The messages of the agent protocol: \<open>agent-protocol/src/error.rs\<close> (stable error codes),
  \<open>envelope.rs\<close> (request, response and event envelopes and the hand-written reader of a response)
  and \<open>capability.rs\<close> (the hello exchange). A \<open>serde_json::Value\<close> is a tree whose objects are
  association lists in key order; the numbers are left to the JSON library. What \<open>derive\<close> generates
  for a struct accepts an object with unknown fields and the sequence of its fields.
\<close>

datatype 'n jvalue =
    VNull
  | VBool bool
  | VNumber 'n
  | VString ustring
  | VArray "'n jvalue list"
  | VObject "(ustring \<times> 'n jvalue) list"

definition PROTOCOL_VERSION :: nat where
  "PROTOCOL_VERSION = 1"

section \<open>Error codes\<close>

datatype error_code =
    Invalid_Request
  | Unsupported_Method
  | Permission_Denied
  | Not_Found
  | Precondition_Failed
  | Busy
  | Deadline_Exceeded
  | Cancelled
  | Transport_Lost
  | Incompatible_Version
  | Provider_Unavailable
  | Internal
  | Unknown_Code ustring

fun as_str :: "error_code \<Rightarrow> ustring" where
  "as_str Invalid_Request = lit ''invalid_request''"
| "as_str Unsupported_Method = lit ''unsupported_method''"
| "as_str Permission_Denied = lit ''permission_denied''"
| "as_str Not_Found = lit ''not_found''"
| "as_str Precondition_Failed = lit ''precondition_failed''"
| "as_str Busy = lit ''busy''"
| "as_str Deadline_Exceeded = lit ''deadline_exceeded''"
| "as_str Cancelled = lit ''cancelled''"
| "as_str Transport_Lost = lit ''transport_lost''"
| "as_str Incompatible_Version = lit ''incompatible_version''"
| "as_str Provider_Unavailable = lit ''provider_unavailable''"
| "as_str Internal = lit ''internal''"
| "as_str (Unknown_Code code) = code"

definition error_code_from :: "ustring \<Rightarrow> error_code" where
  "error_code_from code =
     (if code = lit ''invalid_request'' then Invalid_Request
      else if code = lit ''unsupported_method'' then Unsupported_Method
      else if code = lit ''permission_denied'' then Permission_Denied
      else if code = lit ''not_found'' then Not_Found
      else if code = lit ''precondition_failed'' then Precondition_Failed
      else if code = lit ''busy'' then Busy
      else if code = lit ''deadline_exceeded'' then Deadline_Exceeded
      else if code = lit ''cancelled'' then Cancelled
      else if code = lit ''transport_lost'' then Transport_Lost
      else if code = lit ''incompatible_version'' then Incompatible_Version
      else if code = lit ''provider_unavailable'' then Provider_Unavailable
      else if code = lit ''internal'' then Internal
      else Unknown_Code code)"

text \<open>The codes the reader produces: an unknown code never carries the name of a known one.\<close>

definition canonical_code :: "error_code \<Rightarrow> bool" where
  "canonical_code c \<longleftrightarrow> error_code_from (as_str c) = c"

lemma as_str_from: "as_str (error_code_from s) = s"
  by (simp add: error_code_from_def del: lit_Cons)

lemma canonical_from [simp]: "canonical_code (error_code_from s)"
  by (simp add: canonical_code_def as_str_from)

text \<open>The named codes are canonical: each name is read back as the code it stands for.\<close>

lemma canonical_names: "(\<And>s. c \<noteq> Unknown_Code s) \<Longrightarrow> canonical_code c"
  by (cases c) (simp_all add: canonical_code_def error_code_from_def)

interpretation error_names: codec as_str "\<lambda>s. Inr (error_code_from s)" canonical_code
  by unfold_locales (simp add: canonical_code_def)

section \<open>Agent errors\<close>

record 'n agent_error =
  err_code :: error_code
  err_message :: ustring
  err_details :: "'n jvalue option"

definition agent_error_new :: "error_code \<Rightarrow> ustring \<Rightarrow> 'n agent_error" where
  "agent_error_new code message = \<lparr>err_code = code, err_message = message, err_details = None\<rparr>"

definition with_details :: "'n agent_error \<Rightarrow> 'n jvalue \<Rightarrow> 'n agent_error" where
  "with_details e details = e\<lparr>err_details := Some details\<rparr>"

datatype de_error = Missing_Field ustring | Invalid_Type | Invalid_Length | Custom_Error ustring

fun string_from :: "'n jvalue \<Rightarrow> de_error + ustring" where
  "string_from (VString s) = Inr s"
| "string_from _ = Inl Invalid_Type"

fun optional_from :: "'n jvalue \<Rightarrow> 'n jvalue option" where
  "optional_from VNull = None"
| "optional_from v = Some v"

definition field_from :: "('n jvalue \<Rightarrow> de_error + 'b) \<Rightarrow> 'n jvalue option \<Rightarrow> de_error + 'b option" where
  "field_from f v = (case v of None \<Rightarrow> Inr None | Some x \<Rightarrow> rmap Some (f x))"

definition agent_error_to_value :: "'n agent_error \<Rightarrow> 'n jvalue" where
  "agent_error_to_value e =
     VObject ((lit ''code'', VString (as_str (err_code e))) #
       (case err_details e of None \<Rightarrow> [] | Some d \<Rightarrow> [(lit ''details'', d)]) @
       [(lit ''message'', VString (err_message e))])"

fun agent_error_from_value :: "'n jvalue \<Rightarrow> de_error + 'n agent_error" where
  "agent_error_from_value (VObject obj) =
     rbind (field_from string_from (map_of obj (lit ''code''))) (\<lambda>code.
     rbind (field_from string_from (map_of obj (lit ''message''))) (\<lambda>message.
     rbind (ok_or code (Missing_Field (lit ''code''))) (\<lambda>c.
     rbind (ok_or message (Missing_Field (lit ''message''))) (\<lambda>m.
     Inr \<lparr>err_code = error_code_from c, err_message = m,
       err_details = Option.bind (map_of obj (lit ''details'')) optional_from\<rparr>))))"
| "agent_error_from_value (VArray (code # message # others)) =
     rbind (string_from code) (\<lambda>c. rbind (string_from message) (\<lambda>m.
       if 1 < length others then Inl Invalid_Length
       else Inr \<lparr>err_code = error_code_from c, err_message = m,
         err_details = (case others of [] \<Rightarrow> None | d # _ \<Rightarrow> optional_from d)\<rparr>))"
| "agent_error_from_value (VArray _) = Inl Invalid_Length"
| "agent_error_from_value _ = Inl Invalid_Type"

definition canonical_error :: "'n agent_error \<Rightarrow> bool" where
  "canonical_error e \<longleftrightarrow> canonical_code (err_code e) \<and> err_details e \<noteq> Some VNull"

lemma optional_from_id: "v \<noteq> VNull \<Longrightarrow> optional_from v = Some v"
  by (cases v) auto

lemma agent_error_read_back: "canonical_error e \<Longrightarrow> agent_error_from_value (agent_error_to_value e) = Inr e"
  by (cases "err_details e")
    (auto simp: agent_error_to_value_def canonical_error_def canonical_code_def field_from_def optional_from_id)

section \<open>Envelopes\<close>

record 'n request_envelope =
  request_id :: ustring
  req_method :: ustring
  req_params :: "'n jvalue"
  timeout_ms :: nat
  protocol_version :: nat

datatype 'n response_payload = Success "'n jvalue" | Failure "'n agent_error"

record 'n response_envelope =
  response_id :: ustring
  payload :: "'n response_payload"

definition response_success :: "ustring \<Rightarrow> 'n jvalue \<Rightarrow> 'n response_envelope" where
  "response_success i v = \<lparr>response_id = i, payload = Success v\<rparr>"

definition response_failure :: "ustring \<Rightarrow> 'n agent_error \<Rightarrow> 'n response_envelope" where
  "response_failure i e = \<lparr>response_id = i, payload = Failure e\<rparr>"

definition is_response_to :: "'n response_envelope \<Rightarrow> 'n request_envelope \<Rightarrow> bool" where
  "is_response_to r q \<longleftrightarrow> response_id r = request_id q"

record 'n event_envelope =
  subscription_id :: ustring
  event_seq :: nat
  event_name :: ustring
  event_payload :: "'n jvalue"

text \<open>The payload is flattened into the object of the envelope, whose keys are kept in order.\<close>

definition response_to_value :: "'n response_envelope \<Rightarrow> 'n jvalue" where
  "response_to_value r =
     (case payload r of
        Success v \<Rightarrow> VObject [(lit ''request_id'', VString (response_id r)), (lit ''result'', v)]
      | Failure e \<Rightarrow> VObject [(lit ''error'', agent_error_to_value e), (lit ''request_id'', VString (response_id r))])"

fun response_from_value :: "'n jvalue \<Rightarrow> de_error + 'n response_envelope" where
  "response_from_value (VObject obj) =
     rbind (rbind (ok_or (map_of obj (lit ''request_id'')) (Missing_Field (lit ''request_id''))) string_from) (\<lambda>i.
     case (map_of obj (lit ''result''), map_of obj (lit ''error'')) of
       (Some v, None) \<Rightarrow> Inr \<lparr>response_id = i, payload = Success v\<rparr>
     | (None, Some e) \<Rightarrow> rbind (agent_error_from_value e) (\<lambda>e. Inr \<lparr>response_id = i, payload = Failure e\<rparr>)
     | (Some _, Some _) \<Rightarrow> Inl (Custom_Error (lit ''response must not contain both result and error''))
     | (None, None) \<Rightarrow> Inl (Custom_Error (lit ''response must contain exactly one of result or error'')))"
| "response_from_value _ = Inl Invalid_Type"

definition canonical_response :: "'n response_envelope \<Rightarrow> bool" where
  "canonical_response r \<longleftrightarrow> (\<forall>e. payload r = Failure e \<longrightarrow> canonical_error e)"

lemma response_read_back:
  "canonical_response r \<Longrightarrow> response_from_value (response_to_value r) = Inr r"
  by (cases "payload r")
    (simp_all add: response_to_value_def canonical_response_def agent_error_read_back)

interpretation responses: codec response_to_value response_from_value canonical_response
  by unfold_locales (rule response_read_back)

text \<open>What is read is canonical again, so reading, writing and reading changes nothing more.\<close>

lemma optional_from_not_null: "optional_from v \<noteq> Some VNull"
  by (cases v) auto

lemma agent_error_from_canonical: "agent_error_from_value v = Inr e \<Longrightarrow> canonical_error e"
  by (induction v rule: agent_error_from_value.induct)
    (auto simp: result_inv canonical_error_def optional_from_not_null split: if_splits list.splits Option.bind_splits)

lemma response_from_canonical: "response_from_value v = Inr r \<Longrightarrow> canonical_response r"
  by (cases v)
    (auto simp: result_inv canonical_response_def dest!: agent_error_from_canonical split: option.splits)

text \<open>A response is accepted only with exactly one of the two payloads.\<close>

lemma response_payload_exclusive:
  "response_from_value (VObject obj) = Inr r \<Longrightarrow>
   (map_of obj (lit ''result'') = None) \<noteq> (map_of obj (lit ''error'') = None)"
  by (auto simp: result_inv simp del: lit_Cons split: option.splits)

section \<open>The hello exchange\<close>

record hello_params =
  auth_token :: ustring
  desktop_version :: ustring
  supported_protocol_versions :: "nat list"

definition hello_v1 :: "ustring \<Rightarrow> ustring \<Rightarrow> hello_params" where
  "hello_v1 token version =
     \<lparr>auth_token = token, desktop_version = version, supported_protocol_versions = [PROTOCOL_VERSION]\<rparr>"

definition negotiate_protocol :: "nat list \<Rightarrow> nat option" where
  "negotiate_protocol supported = (if PROTOCOL_VERSION \<in> set supported then Some PROTOCOL_VERSION else None)"

datatype provider_health = Health_Ready | Health_Degraded | Health_Unavailable | Health_Incompatible | Health_Faulted

record permission_info =
  perm_shell :: bool
  perm_root :: bool
  selinux_enforcing :: bool

record provider_info =
  prov_name :: ustring
  prov_version :: ustring
  prov_health :: provider_health
  required_permissions :: "ustring list"
  last_error :: "ustring option"

record capability_info =
  cap_method :: ustring
  cap_version :: nat
  cap_provider :: ustring
  cap_available :: bool
  unavailable_reason :: "ustring option"
  probe_pending :: bool

record hello_result =
  hello_protocol :: nat
  hello_agent_version :: ustring
  hello_permissions :: permission_info
  hello_providers :: "provider_info list"
  hello_capabilities :: "capability_info list"

datatype health_status = Status_Ready | Status_Degraded

record health_result =
  health_status :: health_status
  health_agent_version :: ustring
  health_protocol :: nat
  uptime_ms :: nat

lemma negotiate_v1 [simp]: "negotiate_protocol (supported_protocol_versions (hello_v1 t v)) = Some PROTOCOL_VERSION"
  by (simp add: negotiate_protocol_def hello_v1_def)

end
