(* ===== verification/Agent_Ledger.thy ===== *)
theory Agent_Ledger
  imports Agent_Protocol Rust_Str "HOL-Library.AList" "HOL-Library.Multiset"
begin

text \<open>
  The idempotence ledger of the write operations (\<open>android-agent/src/provider/operations.rs\<close>): the
  results of the last operations by their id, dropped after \<open>LEDGER_TTL\<close> and kept to
  \<open>LEDGER_CAP\<close> entries. A hash map is the list of its entries, whose keys are distinct; where the
  code iterates over it the order is a parameter \<open>order\<close>, any rearrangement. Instants are
  nanoseconds.
\<close>

type_synonym instant = nat

definition LEDGER_TTL :: nat where
  "LEDGER_TTL = 10 * 60 * 10 ^ 9"

definition LEDGER_CAP :: nat where
  "LEDGER_CAP = 256"

type_synonym 'v ledger = "(ustring \<times> instant \<times> 'v) list"

text \<open>\<open>std::cmp::Reverse\<close>: the order of the wrapped values, turned around.\<close>

datatype 'a rev_order = Reverse 'a

instantiation rev_order :: (linorder) linorder
begin

fun less_eq_rev_order :: "'a rev_order \<Rightarrow> 'a rev_order \<Rightarrow> bool" where
  "less_eq_rev_order (Reverse a) (Reverse b) = (b \<le> a)"

definition less_rev_order :: "'a rev_order \<Rightarrow> 'a rev_order \<Rightarrow> bool" where
  "less_rev_order x y \<longleftrightarrow> x \<le> y \<and> \<not> y \<le> (x :: 'a rev_order)"

instance
proof
  fix x y z :: "'a rev_order"
  show "x < y \<longleftrightarrow> x \<le> y \<and> \<not> y \<le> x" by (rule less_rev_order_def)
  show "x \<le> x" by (cases x) simp
  show "x \<le> z" if "x \<le> y" "y \<le> z" using that by (cases x; cases y; cases z) auto
  show "x = y" if "x \<le> y" "y \<le> x" using that by (cases x; cases y) auto
  show "x \<le> y \<or> y \<le> x" by (cases x; cases y) auto
qed

end

section \<open>Operations\<close>

definition is_valid_operation_id :: "ustring \<Rightarrow> bool" where
  "is_valid_operation_id raw \<longleftrightarrow> raw \<noteq> [] \<and> length (utf8 raw) \<le> 64 \<and>
     list_all (\<lambda>c. is_ascii_alphanumeric c \<or> c \<in> set (lit ''-_.:'')) raw"

definition expired :: "instant \<Rightarrow> instant \<Rightarrow> bool" where
  "expired now at \<longleftrightarrow> LEDGER_TTL < now - at"

definition lookup_at :: "'v ledger \<Rightarrow> instant \<Rightarrow> ustring \<Rightarrow> 'v option" where
  "lookup_at es now operation_id =
     (case map_of es operation_id of
        None \<Rightarrow> None
      | Some (at, v) \<Rightarrow> if expired now at then None else Some v)"

type_synonym 'v iteration = "'v ledger \<Rightarrow> 'v ledger"

definition prune :: "'v iteration \<Rightarrow> 'v ledger \<Rightarrow> instant \<Rightarrow> 'v ledger" where
  "prune order es now =
     (let kept = filter (\<lambda>(_, at, _). \<not> expired now at) es in
      if length kept \<le> LEDGER_CAP then kept
      else
        (let ordered = sort_key (\<lambda>(at, _). Reverse at) (map (\<lambda>(operation_id, at, _). (at, operation_id)) (order kept))
         in foldl (\<lambda>es (_, operation_id). AList.delete operation_id es) kept (drop LEDGER_CAP ordered)))"

text \<open>The clock is read once for the answer and once more for the clean-up.\<close>

definition lookup :: "'v iteration \<Rightarrow> 'v ledger \<Rightarrow> instant \<Rightarrow> instant \<Rightarrow> ustring \<Rightarrow> 'v option \<times> 'v ledger" where
  "lookup order es now now' operation_id = (lookup_at es now operation_id, prune order es now')"

definition remember :: "'v iteration \<Rightarrow> 'v ledger \<Rightarrow> instant \<Rightarrow> ustring \<Rightarrow> 'v \<Rightarrow> 'v ledger" where
  "remember order es now operation_id v = prune order (AList.update operation_id (now, v) es) now"

fun mark_replayed :: "'n jvalue \<Rightarrow> 'n jvalue" where
  "mark_replayed (VObject obj) = VObject (AList.update (lit ''outcome'') (VString (lit ''replayed'')) obj)"
| "mark_replayed v = v"

section \<open>What pruning keeps\<close>

definition rearranges :: "'v iteration \<Rightarrow> bool" where
  "rearranges order \<longleftrightarrow> (\<forall>es. mset (order es) = mset es)"

definition ledger_ok :: "'v ledger \<Rightarrow> bool" where
  "ledger_ok es \<longleftrightarrow> distinct (map fst es) \<and> length es \<le> LEDGER_CAP"

abbreviation at_of :: "ustring \<times> instant \<times> 'v \<Rightarrow> instant" where
  "at_of e \<equiv> fst (snd e)"

lemma length_filter_sub: "length (filter P (filter Q xs)) \<le> length (filter P xs)"
  by (induction xs) auto

lemma delete_all: "foldl (\<lambda>es (_, k). AList.delete k es) es ks = filter (\<lambda>e. fst e \<notin> snd ` set ks) es"
  by (induction ks arbitrary: es) (auto simp: AList.delete_eq case_prod_unfold intro!: filter_cong)

text \<open>The entries in the order they would be dropped: newest first.\<close>

definition newest_first :: "'v iteration \<Rightarrow> 'v ledger \<Rightarrow> (instant \<times> ustring) list" where
  "newest_first order es = sort_key (\<lambda>(at, _). Reverse at) (map (\<lambda>(k, at, _). (at, k)) (order es))"

lemma newest_first_mset:
  "rearranges order \<Longrightarrow> mset (newest_first order es) = mset (map (\<lambda>e. (at_of e, fst e)) es)"
proof -
  assume r: "rearranges order"
  have "mset (newest_first order es) = image_mset (\<lambda>e. (at_of e, fst e)) (mset (order es))"
    by (simp add: newest_first_def case_prod_unfold)
  with r show ?thesis by (simp add: rearranges_def)
qed

lemma newest_first_sorted:
  assumes "i \<le> j" "j < length (newest_first order es)"
  shows "fst (newest_first order es ! j) \<le> fst (newest_first order es ! i)"
proof -
  have "sorted (map (\<lambda>(at, _). Reverse at) (newest_first order es))" by (simp add: newest_first_def)
  from sorted_nth_mono [OF this assms(1)] assms show ?thesis
    by (cases "newest_first order es ! i"; cases "newest_first order es ! j") simp
qed

text \<open>An old entry survives when fewer than the cap of the others are at least as new.\<close>

lemma not_dropped:
  assumes r: "rearranges order" and d: "distinct (map fst es)" and e: "(k, at, v) \<in> set es"
    and few: "length (filter (\<lambda>e. fst e \<noteq> k \<and> at \<le> at_of e) es) < LEDGER_CAP"
  shows "k \<notin> snd ` set (drop LEDGER_CAP (newest_first order es))"
proof
  let ?L = "newest_first order es"
  assume "k \<in> snd ` set (drop LEDGER_CAP ?L)"
  then obtain i where i: "i < length (drop LEDGER_CAP ?L)" "snd (drop LEDGER_CAP ?L ! i) = k"
    by (auto simp: in_set_conv_nth simp del: length_drop)
  define j where "j = LEDGER_CAP + i"
  with i have j: "LEDGER_CAP \<le> j" "j < length ?L" "snd (?L ! j) = k" by simp_all
  have m: "mset ?L = mset (map (\<lambda>e. (at_of e, fst e)) es)" by (rule newest_first_mset [OF r])
  have keys: "distinct (map snd ?L)"
  proof -
    have "mset (map snd ?L) = mset (map fst es)" using arg_cong [OF m, of "image_mset snd"] by (simp add: image_mset.compositionality comp_def)
    with d show ?thesis by (metis mset_eq_imp_distinct_iff)
  qed
  have "?L ! j \<in> set ?L" using j(2) by simp
  then have "?L ! j \<in> set (map (\<lambda>e. (at_of e, fst e)) es)" using m by (metis set_mset_mset)
  then obtain e' where e': "e' \<in> set es" "?L ! j = (at_of e', fst e')" by auto
  with j(3) have "fst e' = k" by simp
  with d e e'(1) have "e' = (k, at, v)" by (metis eq_key_imp_eq_value prod.collapse)
  with e' have Lj: "?L ! j = (at, k)" by simp
  let ?P = "\<lambda>(a, i). i \<noteq> k \<and> at \<le> a"
  have "list_all ?P (take LEDGER_CAP ?L)"
  proof (rule list_all_length [THEN iffD2], intro allI impI)
    fix n assume n: "n < length (take LEDGER_CAP ?L)"
    then have lt: "n < j" "n < length ?L" using j by auto
    have "snd (?L ! n) \<noteq> snd (?L ! j)"
      using keys lt j(2) by (metis distinct_conv_nth length_map nat_neq_iff nth_map)
    moreover have "at \<le> fst (?L ! n)" using newest_first_sorted [of n j order es] lt j Lj by simp
    ultimately show "?P (take LEDGER_CAP ?L ! n)" using n Lj by (simp add: case_prod_beta)
  qed
  then have "filter ?P (take LEDGER_CAP ?L) = take LEDGER_CAP ?L" by (simp add: list_all_iff)
  then have "filter ?P ?L = take LEDGER_CAP ?L @ filter ?P (drop LEDGER_CAP ?L)" by (metis append_take_drop_id filter_append)
  then have "length (filter ?P ?L) = length (take LEDGER_CAP ?L) + length (filter ?P (drop LEDGER_CAP ?L))" by simp
  then have "LEDGER_CAP \<le> length (filter ?P ?L)" using j by simp
  also have "\<dots> = size (filter_mset ?P (mset ?L))" by (metis mset_filter size_mset)
  also have "\<dots> = length (filter (\<lambda>e. fst e \<noteq> k \<and> at \<le> at_of e) es)"
    unfolding m by (simp add: filter_map comp_def del: mset_map flip: mset_filter)
  finally show False using few by simp
qed

lemma prune_eq:
  "prune order es now =
     (let kept = filter (\<lambda>e. \<not> expired now (at_of e)) es in
      if length kept \<le> LEDGER_CAP then kept
      else filter (\<lambda>e. fst e \<notin> snd ` set (drop LEDGER_CAP (newest_first order kept))) kept)"
  by (simp add: prune_def newest_first_def delete_all [unfolded case_prod_unfold] case_prod_unfold Let_def)

lemma prune_subset: "set (prune order es now) \<subseteq> {e \<in> set es. \<not> expired now (at_of e)}"
  by (auto simp: prune_eq Let_def split: if_splits)

lemma prune_distinct: "distinct (map fst es) \<Longrightarrow> distinct (map fst (prune order es now))"
  by (simp add: prune_eq Let_def distinct_map_filter)

lemma prune_keeps:
  assumes "rearranges order" "distinct (map fst es)" "(k, at, v) \<in> set es" "\<not> expired now at"
    and "length (filter (\<lambda>e. fst e \<noteq> k \<and> at \<le> at_of e) es) < LEDGER_CAP"
  shows "(k, at, v) \<in> set (prune order es now)"
proof -
  let ?kept = "filter (\<lambda>e. \<not> expired now (at_of e)) es"
  have "length (filter (\<lambda>e. fst e \<noteq> k \<and> at \<le> at_of e) ?kept) \<le> length (filter (\<lambda>e. fst e \<noteq> k \<and> at \<le> at_of e) es)"
    by (rule length_filter_sub)
  then have few: "length (filter (\<lambda>e. fst e \<noteq> k \<and> at \<le> at_of e) ?kept) < LEDGER_CAP" using assms(5) by simp
  have d: "distinct (map fst ?kept)" using assms(2) by (rule distinct_map_filter)
  have "(k, at, v) \<in> set ?kept" using assms(3,4) by simp
  with not_dropped [OF assms(1) d _ few] show ?thesis by (auto simp: prune_eq Let_def)
qed

lemma prune_length:
  assumes "rearranges order" "distinct (map fst es)"
  shows "length (prune order es now) \<le> LEDGER_CAP"
proof -
  let ?kept = "filter (\<lambda>e. \<not> expired now (at_of e)) es"
  let ?L = "newest_first order ?kept"
  have d: "distinct (map fst ?kept)" using assms(2) by (rule distinct_map_filter)
  have m: "mset ?L = mset (map (\<lambda>e. (at_of e, fst e)) ?kept)" by (rule newest_first_mset [OF assms(1)])
  have "mset (map snd ?L) = mset (map fst ?kept)"
    using arg_cong [OF m, of "image_mset snd"] by (simp add: image_mset.compositionality comp_def)
  from mset_eq_setD [OF this] have s: "set (map fst ?kept) = snd ` set ?L" by simp
  have "length (filter (\<lambda>e. fst e \<notin> snd ` set (drop LEDGER_CAP ?L)) ?kept) \<le> LEDGER_CAP"
  proof -
    let ?F = "filter (\<lambda>e. fst e \<notin> snd ` set (drop LEDGER_CAP ?L)) ?kept"
    have "snd ` set ?L = snd ` set (take LEDGER_CAP ?L) \<union> snd ` set (drop LEDGER_CAP ?L)"
      by (metis append_take_drop_id image_Un set_append)
    then have "set (map fst ?F) \<subseteq> snd ` set (take LEDGER_CAP ?L)" using s by auto
    then have "card (set (map fst ?F)) \<le> card (snd ` set (take LEDGER_CAP ?L))" by (intro card_mono) auto
    also have "\<dots> \<le> length (take LEDGER_CAP ?L)" using card_length [of "map snd (take LEDGER_CAP ?L)"] by simp
    also have "\<dots> \<le> LEDGER_CAP" by simp
    finally show ?thesis using distinct_card [OF distinct_map_filter [OF d]] by (metis length_map)
  qed
  then show ?thesis by (simp add: prune_eq Let_def)
qed

section \<open>The ledger over time\<close>

lemma update_distinct: "distinct (map fst es) \<Longrightarrow> distinct (map fst (AList.update k e es))"
  by (rule distinct_update)

lemma remember_ok: "rearranges order \<Longrightarrow> ledger_ok es \<Longrightarrow> ledger_ok (remember order es now k v)"
  by (simp add: ledger_ok_def remember_def prune_length prune_distinct distinct_update)

lemma lookup_ok: "rearranges order \<Longrightarrow> ledger_ok es \<Longrightarrow> ledger_ok (snd (lookup order es now now' k))"
  by (simp add: ledger_ok_def lookup_def prune_length prune_distinct)

lemma lookup_at_entry:
  "distinct (map fst es) \<Longrightarrow> lookup_at es now k = Some v \<longleftrightarrow> (\<exists>at. (k, at, v) \<in> set es \<and> \<not> expired now at)"
  by (auto simp: lookup_at_def split: option.splits dest: map_of_SomeD)
    (use map_of_is_SomeI in fastforce)+

text \<open>The clients' view of the ledger: a history of calls, each with the instants it reads.\<close>

datatype 'v ledger_call = Remember instant ustring 'v | Lookup instant instant ustring

fun ledger_step :: "'v iteration \<Rightarrow> 'v ledger \<Rightarrow> 'v ledger_call \<Rightarrow> 'v ledger" where
  "ledger_step order es (Remember now k v) = remember order es now k v"
| "ledger_step order es (Lookup now now' k) = snd (lookup order es now now' k)"

lemma calls_ok: "rearranges order \<Longrightarrow> ledger_ok es \<Longrightarrow> ledger_ok (foldl (ledger_step order) es calls)"
proof (induction calls arbitrary: es)
  case (Cons c calls)
  then show ?case by (cases c) (simp_all add: remember_ok lookup_ok)
qed simp

fun call_within :: "instant \<Rightarrow> 'v ledger_call \<Rightarrow> bool" where
  "call_within at (Remember now k v) = (\<not> expired now at)"
| "call_within at (Lookup now now' k) = (\<not> expired now' at)"

fun remembered :: "'v ledger_call \<Rightarrow> ustring set" where
  "remembered (Remember now k v) = {k}"
| "remembered (Lookup now now' k) = {}"

text \<open>
  An entry is kept while it is fresh and fewer than \<open>LEDGER_CAP\<close> other ids are at least as new:
  those already there, and those remembered since.
\<close>

definition rivals :: "ustring \<Rightarrow> instant \<Rightarrow> 'v ledger \<Rightarrow> ustring set" where
  "rivals k at es = fst ` {e \<in> set es. fst e \<noteq> k \<and> at \<le> at_of e}"

lemma rivals_length:
  assumes "distinct (map fst es)"
  shows "length (filter (\<lambda>e. fst e \<noteq> k \<and> at \<le> at_of e) es) = card (rivals k at es)"
proof -
  have "rivals k at es = set (map fst (filter (\<lambda>e. fst e \<noteq> k \<and> at \<le> at_of e) es))" by (auto simp: rivals_def)
  then show ?thesis using distinct_card [OF distinct_map_filter [OF assms, of "\<lambda>e. fst e \<noteq> k \<and> at \<le> at_of e"]] by simp
qed

lemma finite_rivals [simp]: "finite (rivals k at es)"
  by (simp add: rivals_def)

lemma rivals_mono: "set es \<subseteq> set es' \<Longrightarrow> rivals k at es \<subseteq> rivals k at es'"
  by (auto simp: rivals_def)

lemma prune_rivals: "rivals k at (prune order es now) \<subseteq> rivals k at es"
  using prune_subset by (intro rivals_mono) blast

lemma update_entries: "distinct (map fst es) \<Longrightarrow> set (AList.update k e es) = insert (k, e) {x \<in> set es. fst x \<noteq> k}"
proof (induction es)
  case (Cons p es)
  then show ?case by (cases p) force
qed simp

lemma call_keeps:
  assumes "rearranges order" "ledger_ok es" "(k, at, v) \<in> set es" "call_within at c" "k \<notin> remembered c"
    and few: "card (rivals k at es \<union> remembered c) < LEDGER_CAP"
  shows "(k, at, v) \<in> set (ledger_step order es c) \<and> rivals k at (ledger_step order es c) \<subseteq> rivals k at es \<union> remembered c"
proof -
  have d: "distinct (map fst es)" using assms(2) by (simp add: ledger_ok_def)
  have step: "(k, at, v) \<in> set (prune order es' now) \<and> rivals k at (prune order es' now) \<subseteq> rivals k at es \<union> remembered c"
    if "(k, at, v) \<in> set es'" "rivals k at es' \<subseteq> rivals k at es \<union> remembered c" "distinct (map fst es')" "\<not> expired now at" for es' now
  proof -
    have fin: "finite (remembered c)" by (cases c) auto
    have "card (rivals k at es') \<le> card (rivals k at es \<union> remembered c)"
      using that(2) fin by (intro card_mono) auto
    with few have "length (filter (\<lambda>e. fst e \<noteq> k \<and> at \<le> at_of e) es') < LEDGER_CAP"
      by (simp add: rivals_length [OF that(3)])
    from prune_keeps [OF assms(1) that(3) that(1) that(4) this] prune_rivals [of k at order es' now] that(2) show ?thesis by blast
  qed
  show ?thesis
  proof (cases c)
    case (Remember now k' v')
    have "rivals k at (AList.update k' (now, v') es) \<subseteq> rivals k at es \<union> remembered c"
      using update_entries [OF d] by (auto simp: rivals_def Remember)
    moreover have "(k, at, v) \<in> set (AList.update k' (now, v') es)"
      using update_entries [OF d, of k' "(now, v')"] assms(3,5) by (auto simp: Remember)
    ultimately show ?thesis
      using step [of "AList.update k' (now, v') es" now] distinct_update [OF d] assms(4) by (simp add: Remember remember_def)
  next
    case (Lookup now now' k')
    then show ?thesis using step [of es now'] assms(3,4) d by (simp add: lookup_def)
  qed
qed

lemma calls_keep:
  assumes "rearranges order"
  shows "ledger_ok es \<Longrightarrow> (k, at, v) \<in> set es \<Longrightarrow> list_all (call_within at) calls \<Longrightarrow> k \<notin> \<Union> (remembered ` set calls) \<Longrightarrow>
    card (rivals k at es \<union> \<Union> (remembered ` set calls)) < LEDGER_CAP \<Longrightarrow>
    (k, at, v) \<in> set (foldl (ledger_step order) es calls)"
proof (induction calls arbitrary: es)
  case (Cons c calls)
  let ?later = "\<Union> (remembered ` set calls)"
  have fin: "finite (remembered c' )" for c' :: "'a ledger_call" by (cases c') auto
  have "card (rivals k at es \<union> remembered c) \<le> card (rivals k at es \<union> \<Union> (remembered ` set (c # calls)))"
    using fin by (intro card_mono) auto
  with Cons.prems(5) have "card (rivals k at es \<union> remembered c) < LEDGER_CAP" by linarith
  from call_keeps [OF assms Cons.prems(1,2) _ _ this] Cons.prems(3,4)
  have kept: "(k, at, v) \<in> set (ledger_step order es c)"
    and rivals: "rivals k at (ledger_step order es c) \<subseteq> rivals k at es \<union> remembered c" by auto
  have "card (rivals k at (ledger_step order es c) \<union> ?later) \<le> card (rivals k at es \<union> \<Union> (remembered ` set (c # calls)))"
    using rivals fin by (intro card_mono) auto
  with Cons.prems(5) have "card (rivals k at (ledger_step order es c) \<union> ?later) < LEDGER_CAP" by linarith
  moreover have "ledger_ok (ledger_step order es c)" using calls_ok [OF assms Cons.prems(1), of "[c]"] by simp
  ultimately show ?case using Cons.IH [OF _ kept] Cons.prems(3,4) by simp
qed simp

text \<open>The result of an operation is still there when it is asked for again.\<close>

lemma remembered_result:
  assumes "rearranges order" "ledger_ok es"
    and "\<forall>e \<in> set es. at_of e < at" "list_all (call_within at) calls"
    and "k \<notin> \<Union> (remembered ` set calls)" "card (\<Union> (remembered ` set calls)) < LEDGER_CAP" "\<not> expired now at"
  shows "lookup_at (foldl (ledger_step order) (remember order es at k v) calls) now k = Some v"
proof -
  have d: "distinct (map fst es)" using assms(2) by (simp add: ledger_ok_def)
  let ?es = "AList.update k (at, v) es"
  have entries: "set ?es = insert (k, at, v) {x \<in> set es. fst x \<noteq> k}" by (rule update_entries [OF d])
  have none: "rivals k at ?es = {}" unfolding rivals_def entries using assms(3) by force
  have "(k, at, v) \<in> set (prune order ?es at)"
  proof (rule prune_keeps [OF assms(1) distinct_update [OF d]])
    show "length (filter (\<lambda>e. fst e \<noteq> k \<and> at \<le> at_of e) ?es) < LEDGER_CAP"
      using none by (simp add: rivals_length [OF distinct_update [OF d]] LEDGER_CAP_def)
  qed (simp_all add: entries expired_def)
  moreover have "rivals k at (remember order es at k v) = {}"
    using prune_rivals [of k at order ?es at] none by (simp add: remember_def)
  ultimately have "(k, at, v) \<in> set (foldl (ledger_step order) (remember order es at k v) calls)"
    using calls_keep [OF assms(1) remember_ok [OF assms(1,2)] _ assms(4,5)] assms(6) by (simp add: remember_def)
  moreover have "ledger_ok (foldl (ledger_step order) (remember order es at k v) calls)"
    by (rule calls_ok [OF assms(1) remember_ok [OF assms(1,2)]])
  ultimately show ?thesis using assms(7) by (auto simp: lookup_at_entry ledger_ok_def)
qed

end
