(* ===== verification/Agent_Activity.thy ===== *)
theory Agent_Activity
  imports Agent_Ledger
begin

text \<open>
  The activity provider of the agent (\<open>android-agent/src/provider/activity.rs\<close>): the foreground
  window, and the two write operations \<open>launch\<close> and \<open>force_stop\<close> with their guards, the idempotence
  ledger and the check of what they did.

  The device is a parameter: what a command answers, what a file holds, the clock and how a sleep
  moves it. An action passes the device state and the ledger on and ends with a value or an
  \<open>AgentError\<close>; \<open>None\<close> is an action that never ends.
\<close>

datatype json_number = Pos_Int nat | Neg_Int int | Float_Bits nat

type_synonym avalue = "json_number jvalue"
type_synonym aerror = "json_number agent_error"

section \<open>The device\<close>

record command_output =
  success :: bool
  exit_code :: "int option"
  stdout :: bytes
  stderr :: bytes

record 'd device_env =
  command :: "ustring \<Rightarrow> ustring list \<Rightarrow> 'd \<Rightarrow> (ustring + command_output) \<times> 'd"
  timed_command :: "nat \<Rightarrow> ustring \<Rightarrow> ustring list \<Rightarrow> 'd \<Rightarrow> (ustring + command_output) option \<times> 'd"
  read_file :: "ustring \<Rightarrow> 'd \<Rightarrow> bytes option"
  clock :: "'d \<Rightarrow> instant"
  pause :: "nat \<Rightarrow> 'd \<Rightarrow> 'd"
  entries_order :: "avalue iteration"
  de_text :: "de_error \<Rightarrow> ustring"
  fmt_debug :: "ustring \<Rightarrow> ustring"

record 'd agent_state =
  device :: 'd
  ledger :: "avalue ledger"

type_synonym ('d, 'a) action = "'d agent_state \<Rightarrow> ((aerror + 'a) \<times> 'd agent_state) option"

definition areturn :: "'a \<Rightarrow> ('d, 'a) action" where
  "areturn x s = Some (Inr x, s)"

definition athrow :: "aerror \<Rightarrow> ('d, 'a) action" where
  "athrow e s = Some (Inl e, s)"

definition alift :: "aerror + 'a \<Rightarrow> ('d, 'a) action" where
  "alift r s = Some (r, s)"

definition abind :: "('d, 'a) action \<Rightarrow> ('a \<Rightarrow> ('d, 'b) action) \<Rightarrow> ('d, 'b) action" where
  "abind m f s =
     (case m s of
        None \<Rightarrow> None
      | Some (Inl e, s') \<Rightarrow> Some (Inl e, s')
      | Some (Inr x, s') \<Rightarrow> f x s')"

text \<open>An action whose error the caller handles itself.\<close>

definition attempt :: "('d, 'a) action \<Rightarrow> ('d, aerror + 'a) action" where
  "attempt m s = (case m s of None \<Rightarrow> None | Some (r, s') \<Rightarrow> Some (Inr r, s'))"

definition on_device :: "('d \<Rightarrow> 'a \<times> 'd) \<Rightarrow> ('d, 'a) action" where
  "on_device f s = (case f (device s) of (x, d) \<Rightarrow> Some (Inr x, s\<lparr>device := d\<rparr>))"

section \<open>Commands\<close>

definition MONKEY :: ustring where "MONKEY = lit ''/system/bin/monkey''"
definition AM :: ustring where "AM = lit ''/system/bin/am''"
definition DUMPSYS :: ustring where "DUMPSYS = lit ''/system/bin/dumpsys''"
definition PIDOF :: ustring where "PIDOF = lit ''/system/bin/pidof''"
definition PM :: ustring where "PM = lit ''/system/bin/pm''"

definition WRITE_VERIFY :: nat where "WRITE_VERIFY = 2000 * 10 ^ 6"
definition WRITE_VERIFY_POLL :: nat where "WRITE_VERIFY_POLL = 100 * 10 ^ 6"
definition COMMAND_TIMEOUT :: nat where "COMMAND_TIMEOUT = 6 * 10 ^ 9"
definition MAX_CMDLINE_CHARS :: nat where "MAX_CMDLINE_CHARS = 120"
definition STATUS_HEAD_LINES :: nat where "STATUS_HEAD_LINES = 4"

definition reason_details :: "ustring \<Rightarrow> avalue" where
  "reason_details t = VObject [(lit ''reason'', VString t)]"

definition command_unavailable :: "ustring \<Rightarrow> ustring \<Rightarrow> aerror" where
  "command_unavailable program reason =
     with_details (agent_error_new Provider_Unavailable (lit ''activity command unavailable: '' @ program)) (reason_details reason)"

definition run :: "'d device_env \<Rightarrow> ustring \<Rightarrow> ustring list \<Rightarrow> ('d, ustring) action" where
  "run env program args =
     abind (on_device (timed_command env COMMAND_TIMEOUT program args)) (\<lambda>out.
     case out of
       None \<Rightarrow> athrow (agent_error_new Deadline_Exceeded (lit ''activity command timeout''))
     | Some (Inl reason) \<Rightarrow> athrow (command_unavailable program reason)
     | Some (Inr res) \<Rightarrow>
         if success res then areturn (from_utf8_lossy (stdout res))
         else athrow (agent_error_new Provider_Unavailable (lit ''activity command failed: '' @ program)))"

definition show_code :: "int option \<Rightarrow> ustring" where
  "show_code c = show_int (case c of None \<Rightarrow> 0 | Some i \<Rightarrow> i)"

definition run_ok :: "'d device_env \<Rightarrow> ustring \<Rightarrow> ustring list \<Rightarrow> ('d, ustring) action" where
  "run_ok env program args =
     abind (on_device (timed_command env COMMAND_TIMEOUT program args)) (\<lambda>out.
     case out of
       None \<Rightarrow> athrow (agent_error_new Deadline_Exceeded [21629, 20196, 36229, 26102])
     | Some (Inl reason) \<Rightarrow> athrow (command_unavailable program reason)
     | Some (Inr res) \<Rightarrow>
         if success res then areturn (from_utf8_lossy (stdout res) @ from_utf8_lossy (stderr res))
         else athrow (agent_error_new Provider_Unavailable (program @ [32, 36864, 20986, 30721, 32] @ show_code (exit_code res))))"

definition exit_details :: "int option \<Rightarrow> avalue" where
  "exit_details c =
     VObject [(lit ''exit_code'', case c of None \<Rightarrow> VNull
       | Some i \<Rightarrow> VNumber (if 0 \<le> i then Pos_Int (nat i) else Neg_Int i))]"

definition checked_stdout :: "command_output \<Rightarrow> ustring \<Rightarrow> aerror + ustring" where
  "checked_stdout res label =
     (if success res then Inr (from_utf8_lossy (stdout res))
      else Inl (with_details (agent_error_new Provider_Unavailable (lit ''activity command failed: '' @ label))
             (exit_details (exit_code res))))"

section \<open>Reading what the commands print\<close>

definition foreground_token :: "ustring \<Rightarrow> (ustring \<times> ustring) option" where
  "foreground_token line =
     (let trimmed = trim line in
      if \<not> (starts_with trimmed (lit ''mCurrentFocus'') \<or> starts_with trimmed (lit ''mFocusedWindow'')) then None
      else (case split_once (lit ''{'') trimmed of
              None \<Rightarrow> None
            | Some (_, rest) \<Rightarrow>
                (case List.find (\<lambda>w. 47 \<in> set w) (split_whitespace (trim_end_with (\<lambda>c. c = 125) rest)) of
                   None \<Rightarrow> None
                 | Some token \<Rightarrow>
                     (case split_once (lit ''/'') token of
                        None \<Rightarrow> None
                      | Some (package, activity) \<Rightarrow> if package \<noteq> [] \<and> activity \<noteq> [] then Some (package, activity) else None))))"

fun first_some :: "('a \<Rightarrow> 'b option) \<Rightarrow> 'a list \<Rightarrow> 'b option" where
  "first_some f [] = None"
| "first_some f (x # xs) = (case f x of None \<Rightarrow> first_some f xs | Some y \<Rightarrow> Some y)"

definition parse_foreground_window :: "ustring \<Rightarrow> (ustring \<times> ustring) option" where
  "parse_foreground_window out = first_some foreground_token (lines out)"

definition ok_value :: "'e + 'a \<Rightarrow> 'a option" where
  "ok_value r = (case r of Inl _ \<Rightarrow> None | Inr x \<Rightarrow> Some x)"

definition parse_u32 :: "ustring \<Rightarrow> nat option" where
  "parse_u32 s = ok_value (parse_unsigned u32_max 10 s)"

definition parse_pidof :: "ustring \<Rightarrow> nat option" where
  "parse_pidof out =
     (case split_whitespace out of
        [] \<Rightarrow> None
      | w # _ \<Rightarrow> if w \<noteq> [] \<and> list_all is_ascii_digit w then parse_u32 w else None)"

definition legacy_native_lib_line :: "ustring \<Rightarrow> ustring option" where
  "legacy_native_lib_line line =
     (case split_once (lit ''legacyNativeLibraryDir='') line of
        None \<Rightarrow> None
      | Some (_, rest) \<Rightarrow> (let v = trim rest in if v \<noteq> [] then Some v else None))"

definition parse_legacy_native_lib :: "ustring \<Rightarrow> ustring option" where
  "parse_legacy_native_lib out = first_some legacy_native_lib_line (lines out)"

datatype package_kind = Third_Party | System_Package | Unknown_Kind

definition classify_package_kind :: "ustring \<Rightarrow> ustring \<Rightarrow> package_kind" where
  "classify_package_kind out package =
     (let wanted = lit ''package:'' @ package in
      if list_ex (\<lambda>line. trim (trim_end_with (\<lambda>c. c = 13) line) = wanted) (lines out)
      then Third_Party else System_Package)"

definition is_safe_package_name :: "ustring \<Rightarrow> bool" where
  "is_safe_package_name package \<longleftrightarrow> package \<noteq> [] \<and> length (utf8 package) \<le> 256 \<and>
     list_all (\<lambda>c. is_ascii_alphanumeric c \<or> c \<in> set (lit ''._-'')) package"

section \<open>The foreground window\<close>

record proc_entry_summary =
  entry_name :: ustring
  entry_path :: ustring
  entry_summary :: "ustring option"
  readable :: bool
  read_on_demand :: bool

definition read_to_string_lossy :: "'d device_env \<Rightarrow> ustring \<Rightarrow> 'd \<Rightarrow> ustring option" where
  "read_to_string_lossy env path d = map_option from_utf8_lossy (read_file env path d)"

definition read_head_lines :: "'d device_env \<Rightarrow> ustring \<Rightarrow> nat \<Rightarrow> 'd \<Rightarrow> ustring option" where
  "read_head_lines env path n d = map_option (\<lambda>t. join [10] (take n (lines t))) (read_to_string_lossy env path d)"

definition cmdline_summary :: "ustring \<Rightarrow> ustring" where
  "cmdline_summary raw =
     (let t = trim (replace_all [0] [32] raw) in
      if MAX_CMDLINE_CHARS < length t then take MAX_CMDLINE_CHARS t @ [8230] else t)"

definition proc_summary :: "'d device_env \<Rightarrow> nat \<Rightarrow> 'd \<Rightarrow> proc_entry_summary list" where
  "proc_summary env pid d =
     (let dir = lit ''/proc/'' @ show_dec pid;
          maps_path = dir @ lit ''/maps'';
          cmdline_path = dir @ lit ''/cmdline'';
          status_path = dir @ lit ''/status'';
          cmdline = read_to_string_lossy env cmdline_path d;
          status = read_head_lines env status_path STATUS_HEAD_LINES d
      in [\<lparr>entry_name = lit ''maps'', entry_path = maps_path, entry_summary = None, readable = False, read_on_demand = True\<rparr>,
          \<lparr>entry_name = lit ''cmdline'', entry_path = cmdline_path, entry_summary = map_option cmdline_summary cmdline,
            readable = cmdline \<noteq> None, read_on_demand = False\<rparr>,
          \<lparr>entry_name = lit ''status'', entry_path = status_path, entry_summary = map_option trim status,
            readable = status \<noteq> None, read_on_demand = False\<rparr>])"

record foreground_result =
  found :: bool
  package_name :: "ustring option"
  activity :: "ustring option"
  fg_pid :: "nat option"
  fg_kind :: package_kind
  native_lib_dir :: "ustring option"
  proc_entries :: "proc_entry_summary list"
  fg_hint :: "ustring option"

definition parse_params :: "'d device_env \<Rightarrow> (avalue \<Rightarrow> de_error + 'p) \<Rightarrow> avalue \<Rightarrow> aerror + 'p" where
  "parse_params env from v =
     rmap_err (\<lambda>e. with_details (agent_error_new Invalid_Request (lit ''invalid activity parameters''))
        (reason_details (de_text env e))) (from v)"

fun empty_params_from :: "avalue \<Rightarrow> de_error + unit" where
  "empty_params_from (VObject _) = Inr ()"
| "empty_params_from (VArray []) = Inr ()"
| "empty_params_from (VArray _) = Inl Invalid_Length"
| "empty_params_from _ = Inl Invalid_Type"

definition opt_field :: "string \<Rightarrow> ('a \<Rightarrow> avalue) \<Rightarrow> 'a option \<Rightarrow> (ustring \<times> avalue) list" where
  "opt_field k f v = (case v of None \<Rightarrow> [] | Some x \<Rightarrow> [(lit k, f x)])"

fun kind_name :: "package_kind \<Rightarrow> ustring" where
  "kind_name Third_Party = lit ''third_party''"
| "kind_name System_Package = lit ''system''"
| "kind_name Unknown_Kind = lit ''unknown''"

definition proc_entry_value :: "proc_entry_summary \<Rightarrow> avalue" where
  "proc_entry_value e =
     VObject ([(lit ''name'', VString (entry_name e)), (lit ''path'', VString (entry_path e)),
       (lit ''read_on_demand'', VBool (read_on_demand e)), (lit ''readable'', VBool (readable e))] @
       opt_field ''summary'' VString (entry_summary e))"

definition foreground_value :: "foreground_result \<Rightarrow> avalue" where
  "foreground_value r =
     VObject (opt_field ''activity'' VString (activity r) @ [(lit ''found'', VBool (found r))] @
       opt_field ''hint'' VString (fg_hint r) @ opt_field ''native_lib_dir'' VString (native_lib_dir r) @
       [(lit ''package_kind'', VString (kind_name (fg_kind r)))] @
       opt_field ''package_name'' VString (package_name r) @
       opt_field ''pid'' (\<lambda>p. VNumber (Pos_Int p)) (fg_pid r) @
       (if proc_entries r = [] then [] else [(lit ''proc'', VArray (map proc_entry_value (proc_entries r)))]))"

definition foreground_of :: "'d device_env \<Rightarrow> ustring \<Rightarrow> ('d, foreground_result) action" where
  "foreground_of env window =
     (case parse_foreground_window window of
        None \<Rightarrow> areturn \<lparr>found = False, package_name = None, activity = None, fg_pid = None, fg_kind = Unknown_Kind,
          native_lib_dir = None, proc_entries = [], fg_hint = Some [26410, 35299, 26512, 21040, 21069, 21488, 31383, 21475, 65288, 21487, 33021, 38145, 23631, 12289, 24377, 31383, 25110, 31995, 32479, 29256, 26412, 36755, 20986, 24046, 24322, 65289]\<rparr>
      | Some (package, name) \<Rightarrow>
          if \<not> is_safe_package_name package then
            athrow (agent_error_new Internal ([100, 117, 109, 112, 115, 121, 115, 32, 36755, 20986, 20102, 38750, 27861, 21253, 21517, 58, 32] @ package))
          else
            abind (attempt (run env PIDOF [package])) (\<lambda>pid_out.
            abind (attempt (run env DUMPSYS [lit ''package'', package])) (\<lambda>lib_out.
            abind (attempt (run env PM [lit ''list'', lit ''packages'', lit ''-3'', package])) (\<lambda>kind_out s.
              let pid = Option.bind (ok_value pid_out) parse_pidof in
              Some (Inr \<lparr>found = True, package_name = Some package, activity = Some name, fg_pid = pid,
                fg_kind = (case kind_out of Inr out \<Rightarrow> classify_package_kind out package | Inl _ \<Rightarrow> Unknown_Kind),
                native_lib_dir = Option.bind (ok_value lib_out) parse_legacy_native_lib,
                proc_entries = (case pid of None \<Rightarrow> [] | Some p \<Rightarrow> proc_summary env p (device s)), fg_hint = None\<rparr>, s)))))"

definition foreground :: "'d device_env \<Rightarrow> avalue \<Rightarrow> ('d, avalue) action" where
  "foreground env params =
     abind (alift (parse_params env empty_params_from params)) (\<lambda>_.
     abind (on_device (command env DUMPSYS [lit ''window''])) (\<lambda>out.
     case out of
       Inl reason \<Rightarrow> athrow (command_unavailable (lit ''dumpsys'') reason)
     | Inr res \<Rightarrow>
         abind (alift (checked_stdout res (lit ''dumpsys window''))) (\<lambda>window.
         abind (foreground_of env window) (\<lambda>r. areturn (foreground_value r)))))"

section \<open>Write operations\<close>

text \<open>What \<open>derive\<close> reads: an object with at least the two fields, or the sequence of the two.\<close>

fun write_params_from :: "avalue \<Rightarrow> de_error + ustring \<times> ustring" where
  "write_params_from (VObject obj) =
     rbind (field_from string_from (map_of obj (lit ''operation_id''))) (\<lambda>res.
     rbind (field_from string_from (map_of obj (lit ''package''))) (\<lambda>p.
     rbind (ok_or p (Missing_Field (lit ''package''))) (\<lambda>p.
     rbind (ok_or res (Missing_Field (lit ''operation_id''))) (\<lambda>res. Inr (p, res)))))"
| "write_params_from (VArray [p, res]) = rbind (string_from p) (\<lambda>p. rbind (string_from res) (\<lambda>res. Inr (p, res)))"
| "write_params_from (VArray _) = Inl Invalid_Length"
| "write_params_from _ = Inl Invalid_Type"

definition begin_write :: "'d device_env \<Rightarrow> ustring \<Rightarrow> ustring \<Rightarrow> ustring \<Rightarrow> aerror + unit" where
  "begin_write env meth package operation_id =
     (if \<not> is_safe_package_name package then
        Inl (with_details (agent_error_new Invalid_Request ([21253, 21517, 38750, 27861, 58, 32] @ package)) (reason_details (lit ''invalid_package_name'')))
      else if \<not> is_valid_operation_id operation_id then
        Inl (with_details (agent_error_new Invalid_Request (meth @ [32, 38656, 35201, 21512, 27861, 19988, 21807, 19968, 30340, 32, 111, 112, 101, 114, 97, 116, 105, 111, 110, 95, 105, 100, 65292, 25910, 21040, 32] @ fmt_debug env operation_id))
          (reason_details (lit ''invalid_operation_id'')))
      else Inr ())"

definition ledger_lookup :: "'d device_env \<Rightarrow> ustring \<Rightarrow> ('d, avalue option) action" where
  "ledger_lookup env operation_id s =
     (case lookup (entries_order env) (ledger s) (clock env (device s)) (clock env (device s)) operation_id of
        (r, es) \<Rightarrow> Some (Inr r, s\<lparr>ledger := es\<rparr>))"

definition finish_write :: "'d device_env \<Rightarrow> ustring \<Rightarrow> avalue \<Rightarrow> ('d, unit) action" where
  "finish_write env operation_id v s =
     Some (Inr (), s\<lparr>ledger := remember (entries_order env) (ledger s) (clock env (device s)) operation_id v\<rparr>)"

definition pm_path_present :: "'d device_env \<Rightarrow> ustring \<Rightarrow> ('d, bool) action" where
  "pm_path_present env package =
     abind (attempt (run env PM [lit ''path'', package])) (\<lambda>r.
     areturn (case r of
        Inl _ \<Rightarrow> False
      | Inr paths \<Rightarrow> list_ex (\<lambda>line. starts_with (trim_start (trim_end_with (\<lambda>c. c = 13) line)) (lit ''package:'')) (lines paths)))"

definition guard_writable_package :: "'d device_env \<Rightarrow> ustring \<Rightarrow> ('d, unit) action" where
  "guard_writable_package env package =
     abind (pm_path_present env package) (\<lambda>present.
     if \<not> present then
       athrow (with_details (agent_error_new Not_Found (package @ [32, 26410, 23433, 35013])) (reason_details (lit ''package_not_installed'')))
     else
       abind (run env PM [lit ''list'', lit ''packages'', lit ''-3'', package]) (\<lambda>listing.
       if classify_package_kind listing package \<noteq> Third_Party then
         athrow (with_details (agent_error_new Precondition_Failed (package @ [32, 19981, 26159, 31532, 19977, 26041, 24212, 29992, 65292, 65, 103, 101, 110, 116, 32, 25298, 32477, 23545, 31995, 32479, 21253, 25191, 34892, 20889, 25805, 20316]))
           (reason_details (lit ''system_package_protected'')))
       else areturn ()))"

definition current_pid :: "'d device_env \<Rightarrow> ustring \<Rightarrow> ('d, nat option) action" where
  "current_pid env package =
     abind (attempt (run env PIDOF [package])) (\<lambda>r.
     areturn (case r of
        Inl _ \<Rightarrow> None
      | Inr out \<Rightarrow> (case split_whitespace out of [] \<Rightarrow> None | w # _ \<Rightarrow> parse_u32 w)))"

text \<open>The loop that polls until the process is there (or gone) or the window is over.\<close>

partial_function (option) poll_pid :: "'d device_env \<Rightarrow> ustring \<Rightarrow> bool \<Rightarrow> instant \<Rightarrow> ('d, nat option) action" where
  "poll_pid env package want_some started s =
     (case current_pid env package s of
        None \<Rightarrow> None
      | Some (Inl e, s') \<Rightarrow> Some (Inl e, s')
      | Some (Inr observed, s') \<Rightarrow>
          if want_some \<and> observed \<noteq> None then Some (Inr observed, s')
          else if \<not> want_some \<and> observed = None then Some (Inr None, s')
          else if WRITE_VERIFY \<le> clock env (device s') - started then Some (Inr observed, s')
          else poll_pid env package want_some started (s'\<lparr>device := pause env WRITE_VERIFY_POLL (device s')\<rparr>))"

definition wait_for_pid :: "'d device_env \<Rightarrow> ustring \<Rightarrow> bool \<Rightarrow> ('d, nat option) action" where
  "wait_for_pid env package want_some s = poll_pid env package want_some (clock env (device s)) s"

datatype write_action = Launch | Force_Stop | Uninstall
datatype write_outcome = Executed | Replayed | No_Op

record write_result =
  wr_action :: write_action
  wr_package :: ustring
  wr_operation :: ustring
  wr_outcome :: write_outcome
  wr_verified :: bool
  wr_pid :: "nat option"
  wr_detail :: "ustring option"
  ran_as_root :: bool

fun action_name :: "write_action \<Rightarrow> ustring" where
  "action_name Launch = lit ''launch''"
| "action_name Force_Stop = lit ''force_stop''"
| "action_name Uninstall = lit ''uninstall''"

fun outcome_name :: "write_outcome \<Rightarrow> ustring" where
  "outcome_name Executed = lit ''executed''"
| "outcome_name Replayed = lit ''replayed''"
| "outcome_name No_Op = lit ''no_op''"

definition write_result_value :: "write_result \<Rightarrow> avalue" where
  "write_result_value r =
     VObject ((lit ''action'', VString (action_name (wr_action r))) #
       opt_field ''detail'' VString (wr_detail r) @
       [(lit ''operation_id'', VString (wr_operation r)), (lit ''outcome'', VString (outcome_name (wr_outcome r))),
        (lit ''package'', VString (wr_package r))] @
       opt_field ''pid'' (\<lambda>p. VNumber (Pos_Int p)) (wr_pid r) @
       [(lit ''ran_as_root'', VBool (ran_as_root r)), (lit ''verified'', VBool (wr_verified r))])"

definition no_launcher :: "ustring \<Rightarrow> aerror" where
  "no_launcher package =
     with_details (agent_error_new Not_Found (package @ [32, 27809, 26377, 21487, 21551, 21160, 30340, 32, 76, 65, 85, 78, 67, 72, 69, 82, 32, 20837, 21475])) (reason_details (lit ''no_launcher_activity''))"

text \<open>The frame of a write operation: check, look the ledger up, and only then act.\<close>

definition write_begin ::
  "'d device_env \<Rightarrow> ustring \<Rightarrow> avalue \<Rightarrow> ('d, ustring \<times> ustring \<times> avalue option) action" where
  "write_begin env meth params =
     abind (alift (parse_params env write_params_from params)) (\<lambda>(package, operation_id).
     abind (alift (begin_write env meth package operation_id)) (\<lambda>_.
     abind (ledger_lookup env operation_id) (\<lambda>cached. areturn (package, operation_id, cached))))"

definition write_operation ::
  "'d device_env \<Rightarrow> ustring \<Rightarrow> (ustring \<Rightarrow> ustring \<Rightarrow> ('d, avalue) action) \<Rightarrow> avalue \<Rightarrow> ('d, avalue) action" where
  "write_operation env meth act params =
     abind (write_begin env meth params) (\<lambda>(package, operation_id, cached).
     case cached of
       Some v \<Rightarrow> areturn (mark_replayed v)
     | None \<Rightarrow> act package operation_id)"

definition launch_now :: "'d device_env \<Rightarrow> ustring \<Rightarrow> ustring \<Rightarrow> ('d, avalue) action" where
  "launch_now env package operation_id =
     abind (guard_writable_package env package) (\<lambda>_.
     abind (attempt (run_ok env MONKEY [lit ''-p'', package, lit ''-c'', lit ''android.intent.category.LAUNCHER'', lit ''1''])) (\<lambda>r.
     abind (alift (rmap_err (\<lambda>e. if err_code e = Provider_Unavailable then no_launcher package else e) r)) (\<lambda>out.
     if split_once (lit ''No activities found to run'') out \<noteq> None \<or> split_once (lit ''** Error'') out \<noteq> None then
       athrow (no_launcher package)
     else
       abind (wait_for_pid env package True) (\<lambda>found.
       let pid = (case found of Some p \<Rightarrow> if p \<noteq> 0 then Some p else None | None \<Rightarrow> None);
           v = write_result_value \<lparr>wr_action = Launch, wr_package = package, wr_operation = operation_id,
             wr_outcome = Executed, wr_verified = pid \<noteq> None, wr_pid = pid,
             wr_detail = Some (if pid \<noteq> None then lit ''pid_seen'' else lit ''pid_not_seen''), ran_as_root = False\<rparr>
       in abind (finish_write env operation_id v) (\<lambda>_. areturn v)))))"

definition launch :: "'d device_env \<Rightarrow> avalue \<Rightarrow> ('d, avalue) action" where
  "launch env = write_operation env (lit ''activity.launch'') (launch_now env)"

definition force_stop_now :: "'d device_env \<Rightarrow> ustring \<Rightarrow> ustring \<Rightarrow> ('d, avalue) action" where
  "force_stop_now env package operation_id =
     abind (guard_writable_package env package) (\<lambda>_.
     abind (wait_for_pid env package False) (\<lambda>before.
     if before = None then
       (let v = write_result_value \<lparr>wr_action = Force_Stop, wr_package = package, wr_operation = operation_id,
          wr_outcome = No_Op, wr_verified = True, wr_pid = None, wr_detail = Some (lit ''not_running''), ran_as_root = False\<rparr>
        in abind (finish_write env operation_id v) (\<lambda>_. areturn v))
     else
       abind (run_ok env AM [lit ''force-stop'', package]) (\<lambda>_.
       abind (wait_for_pid env package False) (\<lambda>after.
       let v = write_result_value \<lparr>wr_action = Force_Stop, wr_package = package, wr_operation = operation_id,
          wr_outcome = Executed, wr_verified = after = None, wr_pid = before,
          wr_detail = Some (if after = None then lit ''pid_gone'' else lit ''pid_still_present''), ran_as_root = False\<rparr>
       in abind (finish_write env operation_id v) (\<lambda>_. areturn v)))))"

definition force_stop :: "'d device_env \<Rightarrow> avalue \<Rightarrow> ('d, avalue) action" where
  "force_stop env = write_operation env (lit ''activity.force_stop'') (force_stop_now env)"

definition ACTIVITY_METHODS :: "ustring list" where
  "ACTIVITY_METHODS = [lit ''activity.foreground'', lit ''activity.launch'', lit ''activity.force_stop'']"

definition activity_handle :: "'d device_env \<Rightarrow> ustring \<Rightarrow> avalue \<Rightarrow> ('d, avalue) action" where
  "activity_handle env meth params =
     (if meth = lit ''activity.foreground'' then foreground env params
      else if meth = lit ''activity.launch'' then launch env params
      else if meth = lit ''activity.force_stop'' then force_stop env params
      else athrow (agent_error_new Unsupported_Method (lit ''unsupported activity method: '' @ meth)))"

section \<open>Actions that return\<close>

definition ends :: "('d, 'a) action \<Rightarrow> bool" where
  "ends m \<longleftrightarrow> (\<forall>s. m s \<noteq> None)"

named_theorems ending \<open>actions that return\<close>

lemma ends_basic [ending]:
  "ends (areturn x)" "ends (athrow e)" "ends (alift r)" "ends (on_device f)"
  by (auto simp: ends_def areturn_def athrow_def alift_def on_device_def split: prod.splits)

lemma ends_abind [ending]: "ends m \<Longrightarrow> (\<And>x. ends (f x)) \<Longrightarrow> ends (abind m f)"
  by (auto simp: ends_def abind_def split: option.splits sum.splits)

lemma ends_attempt [ending]: "ends m \<Longrightarrow> ends (attempt m)"
  by (auto simp: ends_def attempt_def split: option.splits)

lemma ends_inspect [ending]: "ends (\<lambda>s. Some (f s, s))"
  by (simp add: ends_def)

lemma ends_run [ending]: "ends (run env p args)" "ends (run_ok env p args)"
  unfolding run_def run_ok_def by (auto intro!: ending split: option.splits sum.splits)

lemma ends_pids [ending]: "ends (current_pid env package)" "ends (pm_path_present env package)"
  "ends (guard_writable_package env package)"
  unfolding current_pid_def pm_path_present_def guard_writable_package_def by (auto intro!: ending)

lemma ends_ledger [ending]: "ends (ledger_lookup env k)" "ends (finish_write env k v)"
  by (auto simp: ends_def ledger_lookup_def finish_write_def split: prod.splits)

lemma ends_begin [ending]: "ends (write_begin env meth params)"
  unfolding write_begin_def by (auto intro!: ending split: prod.splits)

text \<open>The clock never runs backwards, and a sleep lasts at least as long as asked.\<close>

definition clock_ok :: "'d device_env \<Rightarrow> bool" where
  "clock_ok env \<longleftrightarrow> (\<forall>n d. clock env d + n \<le> clock env (pause env n d)) \<and>
     (\<forall>t p args d. clock env d \<le> clock env (snd (timed_command env t p args d)))"

lemma current_pid_clock:
  "clock_ok env \<Longrightarrow> current_pid env package s = Some (r, s') \<Longrightarrow> clock env (device s) \<le> clock env (device s')"
  by (auto simp: clock_ok_def current_pid_def run_def abind_def attempt_def on_device_def areturn_def athrow_def
      split: option.splits sum.splits prod.splits if_splits) (metis snd_conv)+

lemma poll_pid_ends:
  assumes "clock_ok env" "started + WRITE_VERIFY \<le> clock env (device s) + k * WRITE_VERIFY_POLL"
  shows "poll_pid env package want_some started s \<noteq> None"
  using assms(2)
proof (induction k arbitrary: s)
  case 0
  obtain r s' where cur: "current_pid env package s = Some (r, s')"
    using ends_pids(1) [of env package] by (auto simp: ends_def) (metis not_None_eq surj_pair)
  with current_pid_clock [OF assms(1) cur] 0 show ?case
    by (subst poll_pid.simps) (auto split: sum.splits)
next
  case (Suc k)
  obtain r s' where cur: "current_pid env package s = Some (r, s')"
    using ends_pids(1) [of env package] by (auto simp: ends_def) (metis not_None_eq surj_pair)
  have "clock env (device s') + WRITE_VERIFY_POLL \<le> clock env (pause env WRITE_VERIFY_POLL (device s'))"
    using assms(1) by (auto simp: clock_ok_def)
  with current_pid_clock [OF assms(1) cur] Suc.prems
  have "poll_pid env package want_some started (s'\<lparr>device := pause env WRITE_VERIFY_POLL (device s')\<rparr>) \<noteq> None"
    by (intro Suc.IH) simp
  with cur show ?case by (subst poll_pid.simps) (auto split: sum.splits)
qed

lemma wait_for_pid_ends [ending]: "clock_ok env \<Longrightarrow> ends (wait_for_pid env package want_some)"
  unfolding ends_def wait_for_pid_def
  by (intro allI poll_pid_ends [where k = 20]) (simp_all add: WRITE_VERIFY_def WRITE_VERIFY_POLL_def)

lemma launch_ends: "clock_ok env \<Longrightarrow> ends (launch env params)"
  unfolding launch_def write_operation_def launch_now_def
  by (auto intro!: ending simp: Let_def split: option.splits prod.splits)

lemma force_stop_ends: "clock_ok env \<Longrightarrow> ends (force_stop env params)"
  unfolding force_stop_def write_operation_def force_stop_now_def
  by (auto intro!: ending simp: Let_def split: option.splits prod.splits)

section \<open>Nothing is done before the checks\<close>

lemma write_begin_rejects:
  assumes "parse_params env write_params_from params = Inl e \<or>
    (\<exists>package operation_id. parse_params env write_params_from params = Inr (package, operation_id) \<and>
       begin_write env meth package operation_id = Inl e)"
  shows "write_operation env meth act params s = Some (Inl e, s)"
  using assms by (auto simp: write_operation_def write_begin_def abind_def alift_def)

lemma write_begin_looks_up:
  assumes "parse_params env write_params_from params = Inr (package, operation_id)"
    and "begin_write env meth package operation_id = Inr ()"
  shows "write_begin env meth params s =
    Some (Inr (package, operation_id, lookup_at (ledger s) (clock env (device s)) operation_id),
      s\<lparr>ledger := prune (entries_order env) (ledger s) (clock env (device s))\<rparr>)"
  using assms by (simp add: write_begin_def abind_def alift_def ledger_lookup_def lookup_def areturn_def)

text \<open>A known operation is answered from the ledger and the device is left alone.\<close>

lemma write_operation_replays:
  assumes "parse_params env write_params_from params = Inr (package, operation_id)"
    and "begin_write env meth package operation_id = Inr ()"
    and "lookup_at (ledger s) (clock env (device s)) operation_id = Some v"
  shows "\<exists>s'. write_operation env meth act params s = Some (Inr (mark_replayed v), s') \<and> device s' = device s"
  using assms by (simp add: write_operation_def write_begin_looks_up abind_def areturn_def)

text \<open>
  Looking the ledger up reserves nothing: of two submissions of one operation that both look it up
  before the first has finished, both go on to act.
\<close>

lemma pruned_lookup:
  "distinct (map fst es) \<Longrightarrow> lookup_at es now k = None \<Longrightarrow> lookup_at (prune order es now) now k = None"
proof (rule ccontr)
  assume d: "distinct (map fst es)" and none: "lookup_at es now k = None" and "lookup_at (prune order es now) now k \<noteq> None"
  then obtain v where "lookup_at (prune order es now) now k = Some v" by blast
  with prune_distinct [OF d] obtain at where "(k, at, v) \<in> set (prune order es now)" "\<not> expired now at"
    by (auto simp: lookup_at_entry)
  with prune_subset [of order es now] have "lookup_at es now k = Some v" by (auto simp: lookup_at_entry [OF d])
  with none show False by simp
qed

lemma duplicates_both_act:
  assumes "parse_params env write_params_from params = Inr (package, operation_id)"
    and "begin_write env meth package operation_id = Inr ()"
    and "lookup_at (ledger s) (clock env (device s)) operation_id = None" "distinct (map fst (ledger s))"
    and "write_begin env meth params s = Some (r, s')"
  shows "r = Inr (package, operation_id, None) \<and> (\<exists>s''. write_begin env meth params s' = Some (Inr (package, operation_id, None), s''))"
  using assms(3-5) pruned_lookup by (auto simp: write_begin_looks_up [OF assms(1,2)])

section \<open>The commands of a write operation\<close>

text \<open>The device with a log of the commands it ran and what they answered.\<close>

type_synonym log_entry = "ustring \<times> ustring list \<times> (ustring + command_output) option"

definition logged :: "'d device_env \<Rightarrow> ('d \<times> log_entry list) device_env" where
  "logged env = \<lparr>
     command = (\<lambda>p args (d, l). case command env p args d of (r, d') \<Rightarrow> (r, d', l @ [(p, args, Some r)])),
     timed_command = (\<lambda>t p args (d, l). case timed_command env t p args d of (r, d') \<Rightarrow> (r, d', l @ [(p, args, r)])),
     read_file = (\<lambda>path (d, l). read_file env path d),
     clock = (\<lambda>(d, l). clock env d), pause = (\<lambda>n (d, l). (pause env n d, l)),
     entries_order = entries_order env, de_text = de_text env, fmt_debug = fmt_debug env\<rparr>"

definition emits :: "('d \<times> 'l list, 'a) action \<Rightarrow> (aerror + 'a \<Rightarrow> 'l list \<Rightarrow> bool) \<Rightarrow> bool" where
  "emits m A \<longleftrightarrow> (\<forall>s r s'. m s = Some (r, s') \<longrightarrow>
     (\<exists>w. snd (device s') = snd (device s) @ w \<and> A r w))"

lemma emits_weaken: "emits m A \<Longrightarrow> (\<And>r w. A r w \<Longrightarrow> B r w) \<Longrightarrow> emits m B"
  unfolding emits_def by meson

lemma emits_basic:
  "A (Inr x) [] \<Longrightarrow> emits (areturn x) A" "B (Inl e) [] \<Longrightarrow> emits (athrow e) B" "C r [] \<Longrightarrow> emits (alift r) C"
  by (auto simp: emits_def areturn_def athrow_def alift_def)

lemma emits_abind:
  assumes "emits m A" "\<And>x. emits (f x) (B x)"
    and "\<And>e w. A (Inl e) w \<Longrightarrow> C (Inl e) w" "\<And>x r v w. A (Inr x) v \<Longrightarrow> B x r w \<Longrightarrow> C r (v @ w)"
  shows "emits (abind m f) C"
  unfolding emits_def
proof (intro allI impI)
  fix s r s' assume run: "abind m f s = Some (r, s')"
  then obtain r1 s1 where m: "m s = Some (r1, s1)" by (auto simp: abind_def split: option.splits)
  with assms(1) obtain v where v: "snd (device s1) = snd (device s) @ v" "A r1 v" unfolding emits_def by blast
  show "\<exists>w. snd (device s') = snd (device s) @ w \<and> C r w"
  proof (cases r1)
    case (Inl e)
    with run m v assms(3) show ?thesis by (auto simp: abind_def)
  next
    case (Inr x)
    with run m have "f x s1 = Some (r, s')" by (simp add: abind_def)
    with assms(2) [of x] obtain w where "snd (device s') = snd (device s1) @ w" "B x r w" unfolding emits_def by blast
    with v Inr assms(4) show ?thesis by auto
  qed
qed

lemma emits_attempt: "emits m A \<Longrightarrow> emits (attempt m) (\<lambda>r w. \<exists>r'. r = Inr r' \<and> A r' w)"
  by (auto simp: emits_def attempt_def split: option.splits prod.splits)

text \<open>One command is one entry of the log, and its text is that of the answer.\<close>

definition answered :: "log_entry \<Rightarrow> ustring \<Rightarrow> bool" where
  "answered e out \<longleftrightarrow> (\<exists>res. snd (snd e) = Some (Inr res) \<and> success res \<and> out = from_utf8_lossy (stdout res))"

lemma emits_run:
  "emits (run (logged env) p args) (\<lambda>r w. \<exists>a. w = [(p, args, a)] \<and> (\<forall>out. r = Inr out \<longrightarrow> answered (p, args, a) out))"
  by (auto simp: emits_def run_def abind_def on_device_def logged_def athrow_def areturn_def answered_def
      split: prod.splits option.splits sum.splits if_splits)

lemma emits_run_ok: "emits (run_ok (logged env) p args) (\<lambda>r w. \<exists>a. w = [(p, args, a)])"
  by (auto simp: emits_def run_ok_def abind_def on_device_def logged_def athrow_def areturn_def
      split: prod.splits option.splits sum.splits if_splits)

text \<open>A command that changes the device, and the answer that shows a package is a third-party one.\<close>

definition changes :: "log_entry \<Rightarrow> bool" where
  "changes e \<longleftrightarrow> fst e \<in> {AM, MONKEY}"

definition shows_third_party :: "ustring \<Rightarrow> log_entry \<Rightarrow> bool" where
  "shows_third_party package e \<longleftrightarrow> fst e = PM \<and> fst (snd e) = [lit ''list'', lit ''packages'', lit ''-3'', package] \<and>
     (\<exists>out. answered e out \<and> classify_package_kind out package = Third_Party)"

definition quiet :: "log_entry list \<Rightarrow> bool" where
  "quiet w \<longleftrightarrow> list_all (\<lambda>e. \<not> changes e) w"

lemma quiet_append [simp]: "quiet (v @ w) \<longleftrightarrow> quiet v \<and> quiet w"
  by (simp add: quiet_def)

lemma quiet_Nil [simp]: "quiet []"
  by (simp add: quiet_def)

lemma programs_differ [simp]: "PIDOF \<noteq> AM" "PIDOF \<noteq> MONKEY" "PM \<noteq> AM" "PM \<noteq> MONKEY" "DUMPSYS \<noteq> AM" "DUMPSYS \<noteq> MONKEY"
  by (simp_all add: PIDOF_def AM_def MONKEY_def PM_def DUMPSYS_def)

lemma quiet_read: "p \<in> {PIDOF, PM, DUMPSYS} \<Longrightarrow> quiet [(p, args, a)]"
  by (auto simp: quiet_def changes_def)

lemma current_pid_quiet: "emits (current_pid (logged env) package) (\<lambda>r. quiet)"
  unfolding current_pid_def
  by (rule emits_abind [OF emits_attempt [OF emits_run] emits_basic(1) [where A = "\<lambda>r w. w = []"]])
    (auto intro: quiet_read)

lemma poll_pid_quiet:
  assumes "poll_pid (logged env) package want_some started s = Some y"
  shows "\<exists>w. snd (device (snd y)) = snd (device s) @ w \<and> quiet w"
proof -
  have "logged env = logged env \<longrightarrow> (\<exists>w. snd (device (snd y)) = snd (device s) @ w \<and> quiet w)"
  proof (rule poll_pid.raw_induct [OF _ assms, where P = "\<lambda>e package want_some started s y.
      e = logged env \<longrightarrow> (\<exists>w. snd (device (snd y)) = snd (device s) @ w \<and> quiet w)"], intro impI)
    fix poll e package want_some started s y
    assume IH: "\<And>e package want_some started s y. poll e package want_some started s = Some y \<Longrightarrow>
        e = logged env \<longrightarrow> (\<exists>w. snd (device (snd y)) = snd (device s) @ w \<and> quiet w)"
      and step: "(case current_pid e package s of None \<Rightarrow> None | Some (Inl x, s') \<Rightarrow> Some (Inl x, s')
        | Some (Inr observed, s') \<Rightarrow>
            if want_some \<and> observed \<noteq> None then Some (Inr observed, s')
            else if \<not> want_some \<and> observed = None then Some (Inr None, s')
            else if WRITE_VERIFY \<le> clock e (device s') - started then Some (Inr observed, s')
            else poll e package want_some started (s'\<lparr>device := pause e WRITE_VERIFY_POLL (device s')\<rparr>)) = Some y"
      and e: "e = logged env"
    from step obtain r s' where cur: "current_pid e package s = Some (r, s')" by (auto split: option.splits)
    with current_pid_quiet [of env package] e obtain v where v: "snd (device s') = snd (device s) @ v" "quiet v"
      unfolding emits_def by blast
    have p: "snd (pause e n d) = snd d" for n d by (simp add: e logged_def split: prod.splits)
    consider "snd y = s'" | "poll e package want_some started (s'\<lparr>device := pause e WRITE_VERIFY_POLL (device s')\<rparr>) = Some y"
      using step cur by (auto split: sum.splits if_splits)
    then show "\<exists>w. snd (device (snd y)) = snd (device s) @ w \<and> quiet w"
    proof cases
      case 1
      with v show ?thesis by auto
    next
      case 2
      from IH [OF this] e p v show ?thesis by auto
    qed
  qed
  then show ?thesis by simp
qed

lemma wait_for_pid_quiet: "emits (wait_for_pid (logged env) package want_some) (\<lambda>r. quiet)"
  unfolding emits_def wait_for_pid_def using poll_pid_quiet by fastforce

lemma finish_write_quiet: "emits (finish_write env k v) (\<lambda>r w. w = [])"
  by (auto simp: emits_def finish_write_def)

lemma pm_path_quiet: "emits (pm_path_present (logged env) package) (\<lambda>r. quiet)"
  unfolding pm_path_present_def
  by (rule emits_abind [OF emits_attempt [OF emits_run] emits_basic(1) [where A = "\<lambda>r w. w = []"]])
    (auto intro: quiet_read)

text \<open>The guard only reads, and lets a package pass only after the listing has shown it.\<close>

lemma guard_shows:
  "emits (guard_writable_package (logged env) package)
     (\<lambda>r w. quiet w \<and> (r = Inr () \<longrightarrow> (\<exists>e \<in> set w. shows_third_party package e)))"
  unfolding guard_writable_package_def
proof (rule emits_abind [OF pm_path_quiet, where B = "\<lambda>present r w. quiet w \<and> (r = Inr () \<longrightarrow> (\<exists>e \<in> set w. shows_third_party package e))"])
  fix present
  let ?B = "\<lambda>r w. quiet w \<and> (r = Inr () \<longrightarrow> (\<exists>e \<in> set w. shows_third_party package e))"
  let ?args = "[lit ''list'', lit ''packages'', lit ''-3'', package]"
  have "emits (abind (run (logged env) PM ?args) (\<lambda>listing. if classify_package_kind listing package \<noteq> Third_Party
      then athrow x else areturn ())) ?B" for x
    by (rule emits_abind [OF emits_run, where B = "\<lambda>listing r w. w = [] \<and> (r = Inr () \<longrightarrow> classify_package_kind listing package = Third_Party)"])
      (auto simp: shows_third_party_def intro: quiet_read emits_basic)
  then show "emits (if \<not> present then athrow (with_details (agent_error_new Not_Found (package @ [32, 26410, 23433, 35013]))
        (reason_details (lit ''package_not_installed'')))
      else abind (run (logged env) PM ?args) (\<lambda>listing. if classify_package_kind listing package \<noteq> Third_Party
        then athrow (with_details (agent_error_new Precondition_Failed (package @ [32, 19981, 26159, 31532, 19977, 26041, 24212, 29992, 65292, 65, 103, 101, 110, 116, 32, 25298, 32477, 23545, 31995, 32479, 21253, 25191, 34892, 20889, 25805, 20316])) (reason_details (lit ''system_package_protected'')))
        else areturn ())) ?B"
    by (auto intro: emits_basic)
qed auto

text \<open>
  Every command that changes the device comes after the listing that showed its package to be a
  third-party one, and names that package.
\<close>

definition writes_guarded :: "ustring \<Rightarrow> log_entry list \<Rightarrow> bool" where
  "writes_guarded package w \<longleftrightarrow> (\<forall>u e v. w = u @ e # v \<longrightarrow> changes e \<longrightarrow>
     package \<in> set (fst (snd e)) \<and> (\<exists>x \<in> set u. shows_third_party package x))"

lemma quiet_guarded: "quiet w \<Longrightarrow> writes_guarded package w"
  by (auto simp: quiet_def writes_guarded_def)

lemma guarded_append:
  assumes "quiet u" "quiet w" "x \<in> set u" "shows_third_party package x" "package \<in> set (fst (snd e))"
  shows "writes_guarded package (u @ e # w)"
  unfolding writes_guarded_def
proof (intro allI impI)
  fix a y b assume eq: "u @ e # w = a @ y # b" and "changes y"
  then have "y \<notin> set u" "y \<notin> set w" using assms(1,2) by (auto simp: quiet_def list_all_iff)
  have "u = a \<and> e = y"
  proof -
    from eq consider c where "a = u @ c" "e # w = c @ y # b" | c where "u = a @ c" "c @ e # w = y # b"
      by (auto simp: append_eq_append_conv2)
    then show ?thesis
    proof cases
      case 1
      with \<open>y \<notin> set w\<close> show ?thesis by (cases c) auto
    next
      case 2
      with \<open>y \<notin> set u\<close> show ?thesis by (cases c) auto
    qed
  qed
  with assms(3-5) show "package \<in> set (fst (snd y)) \<and> (\<exists>x \<in> set a. shows_third_party package x)" by blast
qed

definition one_change :: "ustring \<Rightarrow> log_entry list \<Rightarrow> bool" where
  "one_change package w \<longleftrightarrow> quiet w \<or> (\<exists>u e v. w = u @ e # v \<and> quiet u \<and> quiet v \<and> package \<in> set (fst (snd e)))"

lemma one_change_quiet: "quiet w \<Longrightarrow> one_change package w"
  by (simp add: one_change_def)

lemma one_change_first: "quiet w \<Longrightarrow> package \<in> set args \<Longrightarrow> one_change package ([(p, args, a)] @ w)"
  unfolding one_change_def by (rule disjI2, rule exI [of _ "[]"]) auto

lemma one_change_after:
  assumes "quiet u" "one_change package w"
  shows "one_change package (u @ w)"
proof (cases "quiet w")
  case False
  with assms(2) obtain a e b where "w = a @ e # b" "quiet a" "quiet b" "package \<in> set (fst (snd e))"
    by (auto simp: one_change_def)
  with assms(1) show ?thesis unfolding one_change_def by (intro disjI2 exI [of _ "u @ a"]) auto
qed (simp add: assms(1) one_change_def)

lemma guard_then:
  assumes "emits rest (\<lambda>r. one_change package)"
  shows "emits (abind (guard_writable_package (logged env) package) (\<lambda>_. rest)) (\<lambda>r. writes_guarded package)"
proof (rule emits_abind [OF guard_shows assms])
  fix x :: unit and r v w
  assume v: "quiet v \<and> (Inr x = Inr () \<longrightarrow> (\<exists>e \<in> set v. shows_third_party package e))" and w: "one_change package w"
  then obtain e where e: "e \<in> set v" "shows_third_party package e" by auto
  show "writes_guarded package (v @ w)"
  proof (cases "quiet w")
    case False
    with w obtain a y b where "w = a @ y # b" "quiet a" "quiet b" "package \<in> set (fst (snd y))"
      by (auto simp: one_change_def)
    with guarded_append [of "v @ a" b e package y] v e show ?thesis by simp
  qed (use v in \<open>simp add: quiet_guarded\<close>)
qed (simp add: quiet_guarded)

lemma record_quiet: "emits (abind (finish_write env k v) (\<lambda>_. areturn v')) (\<lambda>r. quiet)"
  by (rule emits_abind [OF finish_write_quiet emits_basic(1) [where A = "\<lambda>r w. w = []"]]) auto

lemma launch_guarded: "emits (launch_now (logged env) package k) (\<lambda>r. writes_guarded package)"
  unfolding launch_now_def
proof (rule guard_then, rule emits_abind [OF emits_attempt [OF emits_run_ok], where B = "\<lambda>_ r. quiet"])
  fix r
  show "emits (abind (alift (rmap_err (\<lambda>e. if err_code e = Provider_Unavailable then no_launcher package else e) r)) (\<lambda>out.
      if split_once (lit ''No activities found to run'') out \<noteq> None \<or> split_once (lit ''** Error'') out \<noteq> None then
        athrow (no_launcher package)
      else abind (wait_for_pid (logged env) package True) (\<lambda>found.
        let pid = (case found of Some p \<Rightarrow> if p \<noteq> 0 then Some p else None | None \<Rightarrow> None);
            v = write_result_value \<lparr>wr_action = Launch, wr_package = package, wr_operation = k,
              wr_outcome = Executed, wr_verified = pid \<noteq> None, wr_pid = pid,
              wr_detail = Some (if pid \<noteq> None then lit ''pid_seen'' else lit ''pid_not_seen''), ran_as_root = False\<rparr>
        in abind (finish_write (logged env) k v) (\<lambda>_. areturn v)))) (\<lambda>r. quiet)"
    unfolding Let_def
    by (rule emits_abind [OF emits_basic(3) [where C = "\<lambda>r w. w = []"], where B = "\<lambda>_ r. quiet"])
      (auto intro!: emits_basic emits_abind [OF wait_for_pid_quiet record_quiet])
qed (auto intro: one_change_first simp: one_change_quiet)

lemma force_stop_guarded: "emits (force_stop_now (logged env) package k) (\<lambda>r. writes_guarded package)"
  unfolding force_stop_now_def
proof (rule guard_then, rule emits_abind [OF wait_for_pid_quiet, where B = "\<lambda>_ r. one_change package"])
  fix before :: "nat option"
  have rest: "emits (abind (wait_for_pid (logged env) package False) (\<lambda>after.
      let v = f after in abind (finish_write (logged env) k v) (\<lambda>_. areturn v))) (\<lambda>r. quiet)" for f
    unfolding Let_def by (rule emits_abind [OF wait_for_pid_quiet record_quiet]) auto
  show "emits (if before = None then
      (let v = write_result_value \<lparr>wr_action = Force_Stop, wr_package = package, wr_operation = k,
         wr_outcome = No_Op, wr_verified = True, wr_pid = None, wr_detail = Some (lit ''not_running''), ran_as_root = False\<rparr>
       in abind (finish_write (logged env) k v) (\<lambda>_. areturn v))
    else abind (run_ok (logged env) AM [lit ''force-stop'', package]) (\<lambda>_.
      abind (wait_for_pid (logged env) package False) (\<lambda>after.
      let v = write_result_value \<lparr>wr_action = Force_Stop, wr_package = package, wr_operation = k,
         wr_outcome = Executed, wr_verified = after = None, wr_pid = before,
         wr_detail = Some (if after = None then lit ''pid_gone'' else lit ''pid_still_present''), ran_as_root = False\<rparr>
      in abind (finish_write (logged env) k v) (\<lambda>_. areturn v)))) (\<lambda>r. one_change package)"
  proof (cases "before = None")
    case True
    then show ?thesis unfolding Let_def by (auto intro!: emits_weaken [OF record_quiet] one_change_quiet)
  next
    case False
    show ?thesis unfolding if_not_P [OF False]
      by (rule emits_abind [OF emits_run_ok rest])
        (use one_change_first [of "[]"] one_change_first in \<open>auto simp del: lit_Cons\<close>)
  qed
qed (auto intro: one_change_after one_change_quiet)

lemma write_begin_quiet: "emits (write_begin env meth params) (\<lambda>r w. w = [] \<and>
    (\<forall>package k c. r = Inr (package, k, c) \<longrightarrow> parse_params env write_params_from params = Inr (package, k) \<and>
       begin_write env meth package k = Inr ()))"
  by (auto simp: emits_def write_begin_def abind_def alift_def ledger_lookup_def areturn_def lookup_def
      split: option.splits sum.splits prod.splits)

lemma write_operation_guarded:
  assumes "\<And>package k. emits (act package k) (\<lambda>r. writes_guarded package)"
  shows "emits (write_operation env meth act params) (\<lambda>r w. w = [] \<or>
    (\<exists>package k. parse_params env write_params_from params = Inr (package, k) \<and> begin_write env meth package k = Inr () \<and>
       writes_guarded package w))"
  unfolding write_operation_def
proof (rule emits_abind [OF write_begin_quiet, where B = "\<lambda>(package, k, c) r w. w = [] \<or> writes_guarded package w"])
  fix x
  show "emits (case x of (package, k, None) \<Rightarrow> act package k | (package, k, Some v) \<Rightarrow> areturn (mark_replayed v))
    (case x of (package, k, c) \<Rightarrow> \<lambda>r w. w = [] \<or> writes_guarded package w)"
    by (auto split: prod.splits option.splits intro: emits_basic emits_weaken [OF assms])
qed (auto split: prod.splits)

section \<open>What a retry gets\<close>

text \<open>Actions that leave the ledger alone.\<close>

definition spares :: "('d, 'a) action \<Rightarrow> bool" where
  "spares m \<longleftrightarrow> (\<forall>s r s'. m s = Some (r, s') \<longrightarrow> ledger s' = ledger s)"

named_theorems sparing \<open>actions that leave the ledger alone\<close>

lemma spares_basic [sparing]:
  "spares (areturn x)" "spares (athrow e)" "spares (alift r)" "spares (on_device f)"
  by (auto simp: spares_def areturn_def athrow_def alift_def on_device_def split: prod.splits)

lemma spares_abind [sparing]: "spares m \<Longrightarrow> (\<And>x. spares (f x)) \<Longrightarrow> spares (abind m f)"
  unfolding spares_def abind_def by (fastforce split: option.splits sum.splits prod.splits)

lemma spares_attempt [sparing]: "spares m \<Longrightarrow> spares (attempt m)"
  by (auto simp: spares_def attempt_def split: option.splits)

lemma spares_run [sparing]: "spares (run env p args)" "spares (run_ok env p args)"
  unfolding run_def run_ok_def by (auto intro!: sparing split: option.splits sum.splits)

lemma spares_reads [sparing]: "spares (current_pid env package)" "spares (pm_path_present env package)"
  "spares (guard_writable_package env package)"
  unfolding current_pid_def pm_path_present_def guard_writable_package_def by (auto intro!: sparing)

lemma poll_pid_spares:
  assumes "poll_pid env package want_some started s = Some y"
  shows "ledger (snd y) = ledger s"
proof (rule poll_pid.raw_induct [OF _ assms, where P = "\<lambda>env package want_some started s y. ledger (snd y) = ledger s"])
  fix poll env package want_some started and s :: "'a agent_state" and y
  assume IH: "\<And>e package want_some started (s :: 'a agent_state) y. poll e package want_some started s = Some y \<Longrightarrow> ledger (snd y) = ledger s"
    and step: "(case current_pid env package s of None \<Rightarrow> None | Some (Inl x, s') \<Rightarrow> Some (Inl x, s')
        | Some (Inr observed, s') \<Rightarrow>
            if want_some \<and> observed \<noteq> None then Some (Inr observed, s')
            else if \<not> want_some \<and> observed = None then Some (Inr None, s')
            else if WRITE_VERIFY \<le> clock env (device s') - started then Some (Inr observed, s')
            else poll env package want_some started (s'\<lparr>device := pause env WRITE_VERIFY_POLL (device s')\<rparr>)) = Some y"
  from step obtain r s' where cur: "current_pid env package s = Some (r, s')" by (auto split: option.splits)
  with spares_reads(1) [of env package] have s': "ledger s' = ledger s" by (auto simp: spares_def)
  consider "snd y = s'" | "poll env package want_some started (s'\<lparr>device := pause env WRITE_VERIFY_POLL (device s')\<rparr>) = Some y"
    using step cur by (auto split: sum.splits if_splits)
  then show "ledger (snd y) = ledger s"
  proof cases
    case 2
    from IH [OF this] s' show ?thesis by simp
  qed (simp add: s')
qed

lemma spares_wait [sparing]: "spares (wait_for_pid env package want_some)"
  unfolding spares_def wait_for_pid_def using poll_pid_spares by fastforce

text \<open>An action whose success is remembered, at the time and with the value it ends with.\<close>

definition leaves_result :: "'d device_env \<Rightarrow> ustring \<Rightarrow> ('d, avalue) action \<Rightarrow> bool" where
  "leaves_result env k m \<longleftrightarrow> (\<forall>s v s'. m s = Some (Inr v, s') \<longrightarrow>
     ledger s' = remember (entries_order env) (ledger s) (clock env (device s')) k v)"

lemma records_finish: "leaves_result env k (abind (finish_write env k v) (\<lambda>_. areturn v))"
  by (auto simp: leaves_result_def abind_def finish_write_def areturn_def)

lemma records_abind: "spares m \<Longrightarrow> (\<And>x. leaves_result env k (f x)) \<Longrightarrow> leaves_result env k (abind m f)"
  unfolding leaves_result_def spares_def abind_def by (fastforce split: option.splits sum.splits prod.splits)

lemma records_throw: "leaves_result env k (athrow e)"
  by (simp add: leaves_result_def athrow_def)

lemma launch_records: "leaves_result env k (launch_now env package k)"
  unfolding launch_now_def Let_def
  by (intro records_abind sparing) (auto intro!: records_abind records_throw records_finish sparing)

lemma force_stop_records: "leaves_result env k (force_stop_now env package k)"
  unfolding force_stop_now_def Let_def
  by (intro records_abind sparing) (auto intro!: records_abind records_throw records_finish sparing)

lemma mark_replayed_again [simp]: "mark_replayed (mark_replayed v) = mark_replayed v"
proof (cases v)
  case (VObject obj)
  have "AList.update k b (AList.update k a xs) = AList.update k b xs" for k a b and xs :: "('c \<times> 'd) list"
    by (induction xs) auto
  with VObject show ?thesis by simp
qed simp_all

lemma pruned_keeps_fresh:
  assumes "ledger_ok es" "lookup_at es now k = Some v"
  shows "lookup_at (prune order es now) now k = Some v"
proof -
  have d: "distinct (map fst es)" using assms(1) by (simp add: ledger_ok_def)
  have "length (filter (\<lambda>e. \<not> expired now (at_of e)) es) \<le> LEDGER_CAP"
    using assms(1) le_trans [OF length_filter_le] by (auto simp: ledger_ok_def)
  then have p: "prune order es now = filter (\<lambda>e. \<not> expired now (at_of e)) es" by (simp add: prune_eq Let_def)
  from assms(2) obtain at where "(k, at, v) \<in> set es" "\<not> expired now at" by (auto simp: lookup_at_entry [OF d])
  then show ?thesis unfolding p lookup_at_entry [OF distinct_map_filter [OF d]] by auto
qed

text \<open>
  The frame every write operation of a provider has: the parameters are read and checked, the ledger
  is asked, and only an unknown operation acts. \<open>launch\<close> and \<open>force_stop\<close> spell it with their two
  fields, other providers with records of their own.
\<close>

definition submit ::
  "'d device_env \<Rightarrow> ustring \<Rightarrow> (avalue \<Rightarrow> aerror + 'p) \<Rightarrow> ('p \<Rightarrow> ustring) \<Rightarrow> ('p \<Rightarrow> ustring) \<Rightarrow>
   ('p \<Rightarrow> ('d, avalue) action) \<Rightarrow> avalue \<Rightarrow> ('d, avalue) action" where
  "submit env meth parse package operation act params =
     abind (alift (parse params)) (\<lambda>p.
     abind (alift (begin_write env meth (package p) (operation p))) (\<lambda>_.
     abind (ledger_lookup env (operation p)) (\<lambda>cached.
     case cached of
       Some v \<Rightarrow> areturn (mark_replayed v)
     | None \<Rightarrow> act p)))"

lemma write_operation_submit:
  "write_operation env meth act =
     submit env meth (parse_params env write_params_from) fst snd (\<lambda>(package, k). act package k)"
  by (auto simp: fun_eq_iff write_operation_def write_begin_def submit_def abind_def alift_def areturn_def
      split: option.splits sum.splits prod.splits)

text \<open>
  What makes a retry safe: an action that ends well leaves its result in the ledger under the
  operation it was asked for.
\<close>

locale remembered_write =
  fixes env :: "'d device_env" and meth :: ustring and parse :: "avalue \<Rightarrow> aerror + 'p"
    and package operation :: "'p \<Rightarrow> ustring" and act :: "'p \<Rightarrow> ('d, avalue) action"
  assumes leaves: "leaves_result env (operation p) (act p)"
begin

lemma rejects:
  assumes "parse params = Inl e \<or> (\<exists>p. parse params = Inr p \<and> begin_write env meth (package p) (operation p) = Inl e)"
  shows "submit env meth parse package operation act params s = Some (Inl e, s)"
  using assms by (auto simp: submit_def abind_def alift_def)

lemma proceeds:
  assumes "parse params = Inr p" "begin_write env meth (package p) (operation p) = Inr ()"
  shows "submit env meth parse package operation act params s =
    (let s' = s\<lparr>ledger := prune (entries_order env) (ledger s) (clock env (device s))\<rparr> in
     case lookup_at (ledger s) (clock env (device s)) (operation p) of
       Some v \<Rightarrow> Some (Inr (mark_replayed v), s') | None \<Rightarrow> act p s')"
  using assms by (auto simp: submit_def abind_def alift_def ledger_lookup_def lookup_def areturn_def Let_def split: option.splits)

text \<open>
  The same submission again, right after a success: the answer is the first one, marked as
  replayed, and the device is left as it is.
\<close>

lemma retried:
  assumes order: "rearranges (entries_order env)" and ok: "ledger_ok (ledger s)"
    and older: "\<forall>e \<in> set (ledger s). at_of e < clock env (device s1)"
    and first: "submit env meth parse package operation act params s = Some (Inr v, s1)"
  shows "\<exists>s2. submit env meth parse package operation act params s1 = Some (Inr (mark_replayed v), s2) \<and> device s2 = device s1"
proof -
  obtain p where p: "parse params = Inr p" "begin_write env meth (package p) (operation p) = Inr ()"
    using first by (auto simp: submit_def abind_def alift_def split: sum.splits)
  let ?k = "operation p"
  let ?s = "s\<lparr>ledger := prune (entries_order env) (ledger s) (clock env (device s))\<rparr>"
  have hit: "\<exists>u. lookup_at (ledger s1) (clock env (device s1)) ?k = Some u \<and> mark_replayed u = mark_replayed v"
  proof (cases "lookup_at (ledger s) (clock env (device s)) ?k")
    case (Some u)
    then have "v = mark_replayed u" "s1 = ?s" using first by (auto simp: proceeds [OF p])
    with pruned_keeps_fresh [OF ok Some, of "entries_order env"] show ?thesis by simp
  next
    case None
    then have "act p ?s = Some (Inr v, s1)" using first by (simp add: proceeds [OF p])
    with leaves have s1: "ledger s1 = remember (entries_order env) (ledger ?s) (clock env (device s1)) ?k v" by (auto simp: leaves_result_def)
    have ok': "ledger_ok (ledger ?s)"
      unfolding ledger_ok_def using ok prune_length [OF order, of "ledger s"] prune_distinct [of "ledger s"]
      by (simp add: ledger_ok_def)
    have "\<forall>e \<in> set (ledger ?s). at_of e < clock env (device s1)" using older prune_subset by fastforce
    from remembered_result [OF order ok' this, of "[]" ?k "clock env (device s1)" v]
    have "lookup_at (ledger s1) (clock env (device s1)) ?k = Some v" by (simp add: s1 expired_def LEDGER_CAP_def)
    then show ?thesis by blast
  qed
  then obtain u where u: "lookup_at (ledger s1) (clock env (device s1)) ?k = Some u" "mark_replayed u = mark_replayed v" by blast
  then show ?thesis by (simp add: proceeds [OF p] Let_def)
qed

end

interpretation launch_write: remembered_write env "lit ''activity.launch''" "parse_params env write_params_from" fst snd
    "\<lambda>(package, k). launch_now env package k" for env :: "'d device_env"
  by unfold_locales (simp add: launch_records split: prod.split)

interpretation force_stop_write: remembered_write env "lit ''activity.force_stop''" "parse_params env write_params_from" fst snd
    "\<lambda>(package, k). force_stop_now env package k" for env :: "'d device_env"
  by unfold_locales (simp add: force_stop_records split: prod.split)

lemma launch_retried: "rearranges (entries_order env) \<Longrightarrow> ledger_ok (ledger s) \<Longrightarrow>
    \<forall>e \<in> set (ledger s). at_of e < clock env (device s1) \<Longrightarrow> launch env params s = Some (Inr v, s1) \<Longrightarrow>
    \<exists>s2. launch env params s1 = Some (Inr (mark_replayed v), s2) \<and> device s2 = device s1"
  unfolding launch_def write_operation_submit by (rule launch_write.retried)

lemma force_stop_retried: "rearranges (entries_order env) \<Longrightarrow> ledger_ok (ledger s) \<Longrightarrow>
    \<forall>e \<in> set (ledger s). at_of e < clock env (device s1) \<Longrightarrow> force_stop env params s = Some (Inr v, s1) \<Longrightarrow>
    \<exists>s2. force_stop env params s1 = Some (Inr (mark_replayed v), s2) \<and> device s2 = device s1"
  unfolding force_stop_def write_operation_submit by (rule force_stop_write.retried)

section \<open>The whole provider\<close>

lemma activity_returns: "clock_ok env \<Longrightarrow> activity_handle env meth params s \<noteq> None"
proof -
  assume ck: "clock_ok env"
  have f: "ends (foreground_of env window)" for window
    unfolding foreground_of_def Let_def by (auto intro!: ending split: option.splits prod.splits)
  have "ends (foreground env params)"
    unfolding foreground_def by (auto intro!: ending f split: sum.splits)
  then show ?thesis
    using launch_ends [OF ck] force_stop_ends [OF ck] by (auto simp: activity_handle_def ends_def athrow_def)
qed

lemma emits_inspect: "(\<And>s. A (f s) []) \<Longrightarrow> emits (\<lambda>s. Some (f s, s)) A"
  by (auto simp: emits_def)

lemma emits_command: "emits (on_device (command (logged env) p args)) (\<lambda>r w. \<exists>a. w = [(p, args, a)])"
  by (auto simp: emits_def on_device_def logged_def split: prod.splits)

lemma quiet_then:
  assumes "emits m A" "\<And>r w. A r w \<Longrightarrow> quiet w" "\<And>x. emits (f x) (\<lambda>r. quiet)"
  shows "emits (abind m f) (\<lambda>r. quiet)"
  by (rule emits_abind [OF assms(1,3)]) (use assms(2) in auto)

lemma quiet_basic:
  "emits (areturn x) (\<lambda>r. quiet)" "emits (athrow e) (\<lambda>r. quiet)" "emits (alift r) (\<lambda>r. quiet)"
  by (simp_all add: emits_basic)

lemma foreground_quiet: "emits (foreground (logged env) params) (\<lambda>r. quiet)"
proof -
  have read: "emits (attempt (run (logged env) p args)) (\<lambda>r. quiet)" if "p \<in> {PIDOF, PM, DUMPSYS}" for p args
    by (rule emits_weaken [OF emits_attempt [OF emits_run]]) (use that quiet_read in blast)
  have f: "emits (foreground_of (logged env) window) (\<lambda>r. quiet)" for window
    unfolding foreground_of_def Let_def
    by (auto intro!: quiet_basic quiet_then [OF read] emits_inspect split: option.splits prod.splits)
  have "quiet [(DUMPSYS, args, a)]" for args a by (rule quiet_read) simp
  then show ?thesis
    unfolding foreground_def
    by (auto intro!: quiet_then [OF emits_command] quiet_then [OF emits_basic(3) [where C = "\<lambda>r w. w = []"]]
      quiet_then [OF f] quiet_basic split: sum.splits)
qed

lemma begin_write_checks: "begin_write env meth package k = Inr () \<Longrightarrow> is_safe_package_name package \<and> is_valid_operation_id k"
  by (simp add: begin_write_def split: if_splits)

lemma activity_guarded:
  "emits (activity_handle (logged env) meth params) (\<lambda>r w. quiet w \<or>
     (\<exists>package k. parse_params (logged env) write_params_from params = Inr (package, k) \<and>
        is_safe_package_name package \<and> is_valid_operation_id k \<and> writes_guarded package w))"
proof -
  have launch: "emits (launch (logged env) params) (\<lambda>r w. quiet w \<or>
     (\<exists>package k. parse_params (logged env) write_params_from params = Inr (package, k) \<and>
        is_safe_package_name package \<and> is_valid_operation_id k \<and> writes_guarded package w))"
    unfolding launch_def
    by (rule emits_weaken [OF write_operation_guarded [OF launch_guarded]]) (use begin_write_checks in fastforce)
  have stop: "emits (force_stop (logged env) params) (\<lambda>r w. quiet w \<or>
     (\<exists>package k. parse_params (logged env) write_params_from params = Inr (package, k) \<and>
        is_safe_package_name package \<and> is_valid_operation_id k \<and> writes_guarded package w))"
    unfolding force_stop_def
    by (rule emits_weaken [OF write_operation_guarded [OF force_stop_guarded]]) (use begin_write_checks in fastforce)
  have fore: "emits (foreground (logged env) params) (\<lambda>r w. quiet w \<or> B w)" for B
    by (rule emits_weaken [OF foreground_quiet]) simp
  show ?thesis
    unfolding activity_handle_def by (simp add: launch stop fore emits_basic del: lit_Cons)
qed

end
