(* ===== verification/Agent_Params.thy ===== *)
theory Agent_Params
  imports Agent_Activity
begin

text \<open>
  What the providers of the agent share: reading their parameters, actions that look at the device
  without a command, and the rules by which the calculi of the activity provider (actions that
  return, spare the ledger, leave their result there, and what they log) go through case splits.
\<close>

section \<open>Reading parameters\<close>

definition opt_u32_from :: "avalue \<Rightarrow> de_error + nat option" where
  "opt_u32_from v =
     (case v of
        VNull \<Rightarrow> Inr None
      | VNumber (Pos_Int n) \<Rightarrow> if n \<le> u32_max then Inr (Some n) else Inl Invalid_Type
      | _ \<Rightarrow> Inl Invalid_Type)"

definition opt_string_from :: "avalue \<Rightarrow> de_error + ustring option" where
  "opt_string_from v = (case v of VNull \<Rightarrow> Inr None | VString s \<Rightarrow> Inr (Some s) | _ \<Rightarrow> Inl Invalid_Type)"

fun bool_from :: "avalue \<Rightarrow> de_error + bool" where
  "bool_from (VBool b) = Inr b"
| "bool_from _ = Inl Invalid_Type"

text \<open>An element of a sequence that has to be there, and one that has a default.\<close>

definition elem_from :: "(avalue \<Rightarrow> de_error + 'b) \<Rightarrow> avalue list \<Rightarrow> nat \<Rightarrow> de_error + 'b" where
  "elem_from f vs i = (if i < length vs then f (vs ! i) else Inl Invalid_Length)"

definition elem_or :: "'b \<Rightarrow> (avalue \<Rightarrow> de_error + 'b) \<Rightarrow> avalue list \<Rightarrow> nat \<Rightarrow> de_error + 'b" where
  "elem_or d f vs i = (if i < length vs then f (vs ! i) else Inr d)"

definition at_most :: "nat \<Rightarrow> avalue list \<Rightarrow> 'b \<Rightarrow> de_error + 'b" where
  "at_most n vs x = (if n < length vs then Inl Invalid_Length else Inr x)"

definition or_default :: "'b \<Rightarrow> 'b option \<Rightarrow> 'b" where
  "or_default d x = (case x of None \<Rightarrow> d | Some v \<Rightarrow> v)"

text \<open>An integer as \<open>serde_json\<close> holds it.\<close>

definition json_int :: "int \<Rightarrow> avalue" where
  "json_int i = VNumber (if 0 \<le> i then Pos_Int (nat i) else Neg_Int i)"

section \<open>Looking at the device\<close>

text \<open>An action that depends on what the device shows without a command.\<close>

definition asking :: "('d \<Rightarrow> 'b) \<Rightarrow> ('b \<Rightarrow> ('d, 'a) action) \<Rightarrow> ('d, 'a) action" where
  "asking f m s = m (f (device s)) s"

definition reading :: "('d \<Rightarrow> aerror + 'a) \<Rightarrow> ('d, 'a) action" where
  "reading f s = Some (f (device s), s)"

lemma abind_alift [simp]: "abind (alift (Inl e)) f = athrow e" "abind (alift (Inr x)) f = f x"
  by (auto simp: abind_def alift_def athrow_def)

lemma abind_reading:
  "abind (reading f) g s = (case f (device s) of Inl e \<Rightarrow> Some (Inl e, s) | Inr x \<Rightarrow> g x s)"
  by (simp add: abind_def reading_def split: sum.split)

section \<open>The calculi\<close>

lemma ends_split [ending]:
  "(\<And>e. ends (f e)) \<Longrightarrow> (\<And>x. ends (g x)) \<Longrightarrow> ends (case r of Inl e \<Rightarrow> f e | Inr x \<Rightarrow> g x)"
  "ends m \<Longrightarrow> (\<And>x. ends (h x)) \<Longrightarrow> ends (case q of None \<Rightarrow> m | Some x \<Rightarrow> h x)"
  "(\<And>a b. ends (j a b)) \<Longrightarrow> ends (case p of (a, b) \<Rightarrow> j a b)"
  "ends m \<Longrightarrow> ends n \<Longrightarrow> ends (if c then m else n)"
  by (auto split: sum.split option.split prod.split)

lemma spares_split [sparing]:
  "(\<And>e. spares (f e)) \<Longrightarrow> (\<And>x. spares (g x)) \<Longrightarrow> spares (case r of Inl e \<Rightarrow> f e | Inr x \<Rightarrow> g x)"
  "spares m \<Longrightarrow> (\<And>x. spares (h x)) \<Longrightarrow> spares (case q of None \<Rightarrow> m | Some x \<Rightarrow> h x)"
  "(\<And>a b. spares (j a b)) \<Longrightarrow> spares (case p of (a, b) \<Rightarrow> j a b)"
  "spares m \<Longrightarrow> spares n \<Longrightarrow> spares (if c then m else n)"
  by (auto split: sum.split option.split prod.split)

lemma asking_moves [ending, sparing]: "(\<And>x. ends (m x)) \<Longrightarrow> ends (asking f m)" "(\<And>x. spares (m x)) \<Longrightarrow> spares (asking f m)"
  by (simp_all add: asking_def ends_def spares_def)

lemma reading_moves [ending, sparing]: "ends (reading f)" "spares (reading f)"
  by (simp_all add: reading_def ends_def spares_def)

lemma submit_ends [ending]: "(\<And>p. ends (act p)) \<Longrightarrow> ends (submit env meth parse package operation act params)"
  unfolding submit_def by (intro ending)

lemma records_split:
  "(\<And>e. leaves_result env k (f e)) \<Longrightarrow> (\<And>x. leaves_result env k (g x)) \<Longrightarrow> leaves_result env k (case r of Inl e \<Rightarrow> f e | Inr x \<Rightarrow> g x)"
  "leaves_result env k m \<Longrightarrow> leaves_result env k n \<Longrightarrow> leaves_result env k (if c then m else n)"
  by (auto split: sum.split)

lemma records_asking: "(\<And>x. leaves_result env k (m x)) \<Longrightarrow> leaves_result env k (asking f m)"
  by (simp add: asking_def leaves_result_def)

lemma records_unless: "leaves_result env k (abind (finish_write env k v) (\<lambda>_. if b then athrow e else areturn v))"
  by (cases b) (use records_finish [of env k v] in \<open>simp_all add: leaves_result_def abind_def finish_write_def athrow_def\<close>)

lemma emits_submit:
  assumes "\<And>p. parse params = Inr p \<Longrightarrow> begin_write env meth (package p) (operation p) = Inr () \<Longrightarrow> emits (act p) (A p)"
  shows "emits (submit env meth parse package operation act params) (\<lambda>r w. w = [] \<or>
    (\<exists>p. parse params = Inr p \<and> begin_write env meth (package p) (operation p) = Inr () \<and> A p r w))"
  unfolding emits_def submit_def abind_def alift_def ledger_lookup_def areturn_def
  by (auto split: sum.splits option.splits prod.splits simp: lookup_def) (use assms in \<open>fastforce simp: emits_def\<close>)+

lemma emits_asking: "(\<And>x. emits (m x) A) \<Longrightarrow> emits (asking f m) A"
  by (simp add: asking_def emits_def)

lemma emits_reading: "(\<And>d. A (f d) []) \<Longrightarrow> emits (reading f) A"
  by (simp add: reading_def emits_def)

lemma emits_on_device:
  "emits (on_device (timed_command (logged env) t p args)) (\<lambda>r w. \<exists>a. r = Inr a \<and> w = [(p, args, a)])"
  by (auto simp: emits_def on_device_def logged_def split: prod.splits)

end
