(* ===== verification/Agent_Privileged.thy ===== *)
theory Agent_Privileged
  imports Agent_Params Rust_Path
begin

text \<open>
  The privileged layer of the agent (\<open>android-agent/src/provider/privileged.rs\<close>): the checks of
  everything that is put into a script, the fixed script templates, and the one function that hands
  a script to \<open>su\<close>. The last section shows that a checked argument adds no shell metacharacter to a
  template, and that only scripts given to \<open>run_privileged\<close> reach \<open>su\<close>.
\<close>

section \<open>The checks\<close>

definition SU :: ustring where "SU = (lit ''su'')"
definition SU_TIMEOUT :: nat where "SU_TIMEOUT = 20 * 10 ^ 9"

definition ALLOWED_PREFIXES :: "ustring list" where
  "ALLOWED_PREFIXES = [(lit ''/data/app/''), (lit ''/data/local/tmp/''), (lit ''/data/adb/modules/'')]"

definition FORBIDDEN_IN_PATH :: "rchar list" where
  "FORBIDDEN_IN_PATH = [39, 34, 96] @ lit ''$;&|<>(){}*? '' @ [9, 10, 92] @ lit ''!#[]^'' @ [0]"

definition reject :: "string \<Rightarrow> ustring \<Rightarrow> aerror" where
  "reject reason message = with_details (agent_error_new Invalid_Request message) (reason_details (lit reason))"

definition check_shape :: "ustring \<Rightarrow> aerror + unit" where
  "check_shape path =
     (if path = [] \<or> 512 < length (utf8 path) then Inl (reject ''path_length'' [36335, 24452, 38271, 24230, 19981, 21512, 27861])
      else if \<not> list_ex (\<lambda>prefix. starts_with path prefix) ALLOWED_PREFIXES then
        Inl (reject ''path_prefix_denied'' ([29305, 26435, 33050, 26412, 21482, 20801, 35768, 25805, 20316, 32, 91, 34] @ lit ''/data/app/'' @ [34, 44, 32, 34] @ lit ''/data/local/tmp/'' @ [34, 44, 32, 34] @ lit ''/data/adb/modules/'' @ [34, 93, 32, 19979, 30340, 36335, 24452, 58, 32] @ path))
      else if str_contains path (lit ''..'') then Inl (reject ''path_traversal'' ([36335, 24452, 19981, 24471, 21253, 21547] @ lit '' ..: '' @ path))
      else if list_ex (\<lambda>c. c \<in> set FORBIDDEN_IN_PATH) path then Inl (reject ''path_charset'' ([36335, 24452, 21547, 20250, 30772, 22351] @ lit '' su '' @ [21253, 35065, 30340, 23383, 31526, 58, 32] @ path))
      else Inr ())"

definition validate_path :: "ustring \<Rightarrow> aerror + unit" where
  "validate_path path =
     rbind (check_shape path) (\<lambda>_.
     if \<not> ends_with path (lit ''.so'') \<and> \<not> ends_with path (lit ''.artbak'') \<and> \<not> ends_with path (lit ''.arttmp'') then
       Inl (reject ''path_suffix'' ([21482, 20801, 35768] @ lit '' .so/.artbak/.arttmp: '' @ path))
     else Inr ())"

definition validate_dir :: "ustring \<Rightarrow> aerror + unit" where
  "validate_dir path =
     rbind (check_shape path) (\<lambda>_.
     if ends_with path (lit ''/'') then Inl (reject ''path_dir_slash'' ([30446, 24405, 21442, 25968, 19981, 24212, 20197, 32, 47, 32, 32467, 23614, 58, 32] @ path)) else Inr ())"

definition comm_char :: "rchar \<Rightarrow> bool" where
  "comm_char c \<longleftrightarrow> is_ascii_alphanumeric c \<or> c \<in> set (lit ''_.-'')"

definition validate_comm :: "(ustring \<Rightarrow> ustring) \<Rightarrow> ustring \<Rightarrow> aerror + unit" where
  "validate_comm debug comm =
     (if comm = [] \<or> 15 < length (utf8 comm) then Inl (reject ''comm_length'' ([36827, 31243, 21517, 38271, 24230, 20026] @ lit '' 1..=15 '' @ [23383, 33410]))
      else if \<not> list_all comm_char comm then Inl (reject ''comm_charset'' ([36827, 31243, 21517, 21547, 30333, 21517, 21333, 22806, 30340, 23383, 31526, 58, 32] @ debug comm))
      else Inr ())"

definition name_char :: "rchar \<Rightarrow> bool" where
  "name_char c \<longleftrightarrow> is_ascii_alphanumeric c \<or> c \<in> set (lit ''_.-+'')"

definition validate_binary_name :: "ustring \<Rightarrow> aerror + unit" where
  "validate_binary_name name =
     (if name \<noteq> [] \<and> length (utf8 name) \<le> 64 \<and> \<not> starts_with name (lit ''.'') \<and> \<not> str_contains name (lit ''/'') \<and> list_all name_char name
      then Inr ()
      else Inl (reject ''invalid_binary_name'' ([20108, 36827, 21046, 21517, 21482, 33021, 26159, 23383, 27597, 25968, 23383, 19982] @ lit '' _.-+'' @ [65292, 19981, 21547, 36335, 24452, 20998, 38548, 58, 32] @ name)))"

definition validate_listen :: "ustring \<Rightarrow> nat \<Rightarrow> aerror + unit" where
  "validate_listen addr port =
     (if addr \<noteq> (lit ''127.0.0.1'') \<and> addr \<noteq> (lit ''0.0.0.0'') then
        Inl (reject ''invalid_bind_address'' ([32465, 23450, 22320, 22336, 21482, 20801, 35768] @ lit '' 127.0.0.1 '' @ [25110] @ lit '' 0.0.0.0: '' @ addr))
      else if port < 1024 then Inl (reject ''privileged_port'' ([31471, 21475, 24517, 39035, 32, 8805] @ lit '' 1024'' @ [65292, 25910, 21040, 32] @ show_dec port))
      else Inr ())"

section \<open>The scripts\<close>

definition install_script :: "ustring \<Rightarrow> ustring \<Rightarrow> ustring \<Rightarrow> ustring \<Rightarrow> ustring" where
  "install_script staged target tmp dir =
     (lit ''set -e; MODE=$(stat -c %a '' @ target @ lit '' 2>/dev/null || echo 644); OWNER=$(stat -c %U:%G '' @ target @ lit '' 2>/dev/null || echo root:root); CONTEXT=$(stat -c %C '' @ target @ lit '' 2>/dev/null || stat -c %C '' @ dir @ lit '' 2>/dev/null || echo '' @ [39, 39] @ lit ''); cp -f '' @ staged @ lit '' '' @ tmp @ lit ''; chmod $MODE '' @ tmp @ lit ''; chown $OWNER '' @ tmp @ lit '' 2>/dev/null || true; if [ -n '' @ [34] @ lit ''$CONTEXT'' @ [34] @ lit '' ]; then chcon '' @ [34] @ lit ''$CONTEXT'' @ [34, 32] @ tmp @ lit '' 2>/dev/null || restorecon '' @ tmp @ lit '' 2>/dev/null || true; fi; mv -f '' @ tmp @ lit '' '' @ target @ lit ''; sync; echo INSTALLED'')"

definition rollback_script :: "ustring \<Rightarrow> ustring \<Rightarrow> bool \<Rightarrow> ustring" where
  "rollback_script backup target restore_backup =
     (if restore_backup then
        (lit ''if [ -f '' @ backup @ lit '' ]; then MODE=$(stat -c %a '' @ target @ lit '' 2>/dev/null || echo 644); CONTEXT=$(stat -c %C '' @ target @ lit '' 2>/dev/null || echo '' @ [39, 39] @ lit ''); cp -f '' @ backup @ lit '' '' @ target @ lit ''.arttmp && chmod $MODE '' @ target @ lit ''.arttmp && if [ -n '' @ [34] @ lit ''$CONTEXT'' @ [34] @ lit '' ]; then chcon '' @ [34] @ lit ''$CONTEXT'' @ [34, 32] @ target @ lit ''.arttmp 2>/dev/null || true; fi; sync && mv -f '' @ target @ lit ''.arttmp '' @ target @ lit '' && echo ROLLED_BACK; else echo NO_BACKUP; fi'')
      else (lit ''rm -f '' @ target @ lit ''; sync; echo REMOVED''))"

definition backup_script :: "ustring \<Rightarrow> ustring \<Rightarrow> ustring" where
  "backup_script target backup = (lit ''cp -f '' @ target @ lit '' '' @ backup @ lit ''; chmod 644 '' @ backup @ lit ''; sync; echo BACKED_UP'')"

definition KILL_SENTINEL :: ustring where "KILL_SENTINEL = (lit ''ARTKILL_DONE'')"
definition PROC_READ_SENTINEL :: ustring where "PROC_READ_SENTINEL = (lit ''ARTPROC_END'')"

definition kill_verified_script :: "nat \<Rightarrow> ustring \<Rightarrow> ustring" where
  "kill_verified_script pid_number comm =
     (let pid = show_dec pid_number in
     (lit ''if [ ! -d /proc/'' @ pid @ lit '' ]; then echo KILL_GONE; echo '' @ KILL_SENTINEL @ lit ''; exit 0; fi; C=$(cut -d '' @ [34, 32, 34] @ lit '' -f2 /proc/'' @ pid @ lit ''/stat 2>/dev/null | tr -d '' @ [34, 40, 41, 34] @ lit ''); if [ '' @ [34, 36, 67, 34] @ lit '' != '' @ [34] @ comm @ [34] @ lit '' ]; then echo '' @ [34] @ lit ''KILL_MISMATCH $C'' @ [34] @ lit ''; echo '' @ KILL_SENTINEL @ lit ''; exit 0; fi; kill '' @ pid @ lit '' 2>/dev/null; attempt=0; while kill -0 '' @ pid @ lit '' 2>/dev/null && [ '' @ [34] @ lit ''$attempt'' @ [34] @ lit '' -lt 20 ]; do sleep 0.05; attempt=$((attempt + 1)); done; if kill -0 '' @ pid @ lit '' 2>/dev/null; then kill -9 '' @ pid @ lit '' 2>/dev/null; fi; attempt=0; while kill -0 '' @ pid @ lit '' 2>/dev/null && [ '' @ [34] @ lit ''$attempt'' @ [34] @ lit '' -lt 20 ]; do sleep 0.05; attempt=$((attempt + 1)); done; if kill -0 '' @ pid @ lit '' 2>/dev/null; then echo STILL_ALIVE; else echo KILLED; fi; echo '' @ KILL_SENTINEL))"

definition proc_read_script :: "nat \<Rightarrow> ustring \<Rightarrow> nat \<Rightarrow> nat \<Rightarrow> ustring" where
  "proc_read_script pid_number file line_limit byte_limit =
     (let pid = show_dec pid_number; max_lines = show_dec line_limit; max_bytes = show_dec byte_limit;
          path = (lit ''/proc/'' @ pid @ lit ''/'' @ file) in
     (lit ''if [ ! -d /proc/'' @ pid @ lit '' ]; then echo ARTPROC_TOTAL; echo ARTPROC_GONE; echo ARTPROC_END; exit 0; fi; if [ ! -e '' @ path @ lit '' ]; then echo ARTPROC_TOTAL; echo ARTPROC_MISSING; echo ARTPROC_END; exit 0; fi; echo ARTPROC_TOTAL; awk '' @ [39] @ lit ''END{print NR}'' @ [39, 32] @ path @ lit '' 2>/dev/null || echo -1; echo ARTPROC_BODY; head -c '' @ max_bytes @ lit '' '' @ path @ lit '' 2>/dev/null | sed -n '' @ [39, 49, 44] @ max_lines @ [112, 39] @ lit ''; printf '' @ [39, 10, 39] @ lit ''; echo ARTPROC_END''))"

definition frida_start_script :: "ustring \<Rightarrow> ustring \<Rightarrow> nat \<Rightarrow> ustring \<Rightarrow> ustring" where
  "frida_start_script name addr port log =
     (lit ''cd /data/local/tmp; : > '' @ log @ lit ''; chmod 666 '' @ log @ lit ''; test -x ./'' @ name @ lit ''; nohup setsid ./'' @ name @ lit '' -l '' @ addr @ lit '':'' @ show_dec port @ lit '' > '' @ log @ lit '' 2>&1 & sleep 1; echo FRIDA_STARTED'')"

definition frida_stop_script :: "ustring \<Rightarrow> ustring" where
  "frida_stop_script name =
     (lit ''FOUND=0; DENIED=0; for P in $(pidof '' @ name @ lit '' 2>/dev/null); do FOUND=1; A=$(tr '' @ [39, 92, 48, 39, 32, 39, 32, 39] @ lit '' < /proc/$P/cmdline 2>/dev/null | cut -d'' @ [39, 32, 39] @ lit '' -f1); A=${A##*/}; if [ '' @ [34, 36, 65, 34, 32, 61, 32, 34] @ name @ [34] @ lit '' ]; then kill $P 2>/dev/null || DENIED=1; else DENIED=1; fi; done; if [ $FOUND = 0 ]; then echo FRIDA_NOT_RUNNING; elif [ $DENIED = 1 ]; then echo FRIDA_KILL_DENIED; else echo FRIDA_STOPPED; fi'')"

section \<open>Running a script\<close>

definition su_answer :: "ustring \<Rightarrow> ustring \<Rightarrow> command_output \<Rightarrow> aerror + ustring" where
  "su_answer step expect res =
     (let out = trim (from_utf8_lossy (stdout res)); err = trim (from_utf8_lossy (stderr res)) in
      if \<not> success res then
        Inl (with_details (agent_error_new Permission_Denied (step @ [32, 25552, 26435, 25191, 34892, 22833, 36133, 58, 32] @ (if err = [] then out else err)))
          (VObject [((lit ''exit''), case exit_code res of None \<Rightarrow> VNull | Some i \<Rightarrow> json_int i), ((lit ''reason''), VString (lit ''su_failed''))]))
      else if \<not> list_ex (\<lambda>line. trim line = expect) (lines out) then
        Inl (with_details (agent_error_new Internal (step @ [32, 26410, 22238] @ lit '' expected '' @ [21736, 20853, 32] @ expect @ [65292, 23454, 38469, 58, 32] @ out)) (reason_details (lit ''sentinel_missing'')))
      else Inr out)"

definition run_privileged :: "'d device_env \<Rightarrow> ustring \<Rightarrow> ustring \<Rightarrow> ustring \<Rightarrow> ('d, ustring) action" where
  "run_privileged env step script expect =
     abind (on_device (timed_command env SU_TIMEOUT SU [(lit ''-c''), script])) (\<lambda>out.
     case out of
       None \<Rightarrow> athrow (agent_error_new Deadline_Exceeded (step @ [32, 36229, 26102, 65288, 115, 117, 32, 25480, 26435, 26410, 24212, 31572, 25110, 21345, 20303, 65289]))
     | Some (Inl reason) \<Rightarrow>
         athrow (with_details (agent_error_new Permission_Denied (step @ [32, 26080, 27861, 25191, 34892] @ lit '' su: '' @ reason)) (reason_details (lit ''su_unavailable'')))
     | Some (Inr res) \<Rightarrow> alift (su_answer step expect res))"

section \<open>What a checked argument can do to a script\<close>

text \<open>
  The characters that can end a word or start anything in a POSIX shell (an assignment and a tilde
  count only at the start of a word, and what is checked starts with a slash). An argument without
  them leaves the sequence of these characters in a script as the template has it.
\<close>

definition SHELL_METACHARACTERS :: "rchar list" where
  "SHELL_METACHARACTERS = lit ''|&;<>()$'' @ [96, 92, 34, 39, 32, 9, 10] @ lit ''*?[]#!{}^''"

lemma metacharacters_forbidden: "c \<in> set SHELL_METACHARACTERS \<Longrightarrow> c \<in> set FORBIDDEN_IN_PATH"
  by (auto simp: SHELL_METACHARACTERS_def FORBIDDEN_IN_PATH_def)

definition inert :: "ustring \<Rightarrow> bool" where
  "inert s \<longleftrightarrow> list_all (\<lambda>c. c \<notin> set SHELL_METACHARACTERS) s"

definition shell_frame :: "ustring \<Rightarrow> ustring" where
  "shell_frame s = filter (\<lambda>c. c \<in> set SHELL_METACHARACTERS) s"

definition shell_safe :: "ustring \<Rightarrow> bool" where
  "shell_safe path \<longleftrightarrow> inert path \<and> \<not> str_contains path (lit ''..'') \<and> (\<exists>prefix \<in> set ALLOWED_PREFIXES. starts_with path prefix)"

lemma shell_frame_append [simp]: "shell_frame (s @ t) = shell_frame s @ shell_frame t"
  by (simp add: shell_frame_def)

lemma shell_frame_Cons [simp]: "shell_frame (c # s) = (if c \<in> set SHELL_METACHARACTERS then [c] else []) @ shell_frame s"
  by (simp add: shell_frame_def)

lemma shell_frame_inert [simp]: "inert s \<Longrightarrow> shell_frame s = []"
  by (simp add: shell_frame_def inert_def filter_empty_conv list_all_iff)

lemma inert_append [simp]: "inert (s @ t) \<longleftrightarrow> inert s \<and> inert t"
  by (simp add: inert_def)

lemma inert_Nil [simp]: "inert []"
  by (simp add: inert_def)

lemma alphanumeric_inert: "is_ascii_alphanumeric c \<Longrightarrow> c \<notin> set SHELL_METACHARACTERS"
  by (auto simp: is_ascii_alphanumeric_def is_ascii_alphabetic_def is_ascii_upper_def is_ascii_lower_def is_ascii_digit_def
      SHELL_METACHARACTERS_def)

lemma comm_char_inert: "comm_char c \<Longrightarrow> c \<notin> set SHELL_METACHARACTERS"
  using alphanumeric_inert by (auto simp: comm_char_def SHELL_METACHARACTERS_def)

lemma name_char_inert: "name_char c \<Longrightarrow> c \<notin> set SHELL_METACHARACTERS"
  using alphanumeric_inert by (auto simp: name_char_def SHELL_METACHARACTERS_def)

lemma show_dec_inert [simp]: "inert (show_dec n)"
  unfolding inert_def list_all_iff using show_dec_chars alphanumeric_inert
  by (fastforce simp: is_ascii_alphanumeric_def is_ascii_digit_def)

lemma check_shape_safe: "check_shape path = Inr () \<Longrightarrow> shell_safe path \<and> length (utf8 path) \<le> 512"
  using metacharacters_forbidden
  by (auto simp: check_shape_def shell_safe_def inert_def list_ex_iff list_all_iff simp del: lit_Cons split: if_splits)

lemma validate_path_safe: "validate_path path = Inr () \<Longrightarrow> shell_safe path"
  using check_shape_safe [of path] by (cases "check_shape path") (auto simp: validate_path_def)

lemma validate_path_suffix: "validate_path path = Inr () \<Longrightarrow> path \<noteq> [] \<and> last path \<noteq> 46"
  by (cases "check_shape path") (auto simp: validate_path_def ends_with_iff split: if_splits)

lemma validate_dir_safe: "validate_dir path = Inr () \<Longrightarrow> shell_safe path"
  using check_shape_safe [of path] by (cases "check_shape path") (auto simp: validate_dir_def)

lemma validate_comm_inert: "validate_comm debug comm = Inr () \<Longrightarrow> inert comm"
  using comm_char_inert by (auto simp: validate_comm_def inert_def list_all_iff split: if_splits)

lemma validate_binary_name_inert: "validate_binary_name name = Inr () \<Longrightarrow> inert name \<and> 47 \<notin> set name"
  using name_char_inert
  by (auto simp: validate_binary_name_def inert_def list_all_iff str_contains_iff in_set_conv_decomp split: if_splits)

lemma validate_listen_inert: "validate_listen addr port = Inr () \<Longrightarrow> inert addr \<and> 1024 \<le> port"
  by (auto simp: validate_listen_def inert_def SHELL_METACHARACTERS_def split: if_splits)

text \<open>The temporary name next to a checked path is as harmless as the path itself.\<close>

lemma shell_safe_tmp:
  assumes "shell_safe path" "path \<noteq> []" "last path \<noteq> 46"
  shows "shell_safe (path @ (lit ''.arttmp''))"
proof -
  have "\<not> str_contains (path @ (lit ''.arttmp'')) (lit ''..'')"
  proof
    assume "str_contains (path @ (lit ''.arttmp'')) (lit ''..'')"
    then obtain u v where "path @ (lit ''.arttmp'') = u @ (lit ''..'') @ v" by (auto simp: str_contains_iff simp del: lit_Cons)
    then consider c where "path = u @ c" "c @ (lit ''.arttmp'') = (lit ''..'') @ v" | c where "u = path @ c" "(lit ''.arttmp'') = c @ (lit ''..'') @ v"
      by (auto simp: append_eq_append_conv2 simp del: lit_Cons)
    then show False
    proof cases
      case 1
      with assms(1) have "\<not> (\<exists>c'. c = (lit ''..'') @ c')" by (auto simp: shell_safe_def str_contains_iff simp del: lit_Cons)
      with 1(2) have "c = [] \<or> c = [46]" by (cases c; cases "tl c") auto
      with 1 assms(2,3) show False by auto
    next
      case 2
      then show False by (cases c; cases "tl c"; cases "tl (tl c)"; cases "tl (tl (tl c))"; cases "tl (tl (tl (tl c)))";
        cases "tl (tl (tl (tl (tl c))))") auto
    qed
  qed
  moreover have "inert (lit ''.arttmp'')" by (simp add: inert_def SHELL_METACHARACTERS_def)
  ultimately show ?thesis using assms(1) by (fastforce simp: shell_safe_def starts_with_iff simp del: lit_Cons)
qed

lemma install_script_structure:
  "inert staged \<Longrightarrow> inert target \<Longrightarrow> inert tmp \<Longrightarrow> inert dir \<Longrightarrow>
    shell_frame (install_script staged target tmp dir) = shell_frame (install_script [] [] [] [])"
  by (simp add: install_script_def del: lit_Cons)

lemma rollback_script_structure:
  "inert backup \<Longrightarrow> inert target \<Longrightarrow> shell_frame (rollback_script backup target b) = shell_frame (rollback_script [] [] b)"
  by (simp add: rollback_script_def del: lit_Cons)

lemma backup_script_structure:
  "inert target \<Longrightarrow> inert backup \<Longrightarrow> shell_frame (backup_script target backup) = shell_frame (backup_script [] [])"
  by (simp add: backup_script_def del: lit_Cons)

lemma kill_script_structure: "inert comm \<Longrightarrow> shell_frame (kill_verified_script pid comm) = shell_frame (kill_verified_script 0 [])"
  by (simp add: kill_verified_script_def Let_def del: lit_Cons)

lemma frida_script_structure:
  "inert name \<Longrightarrow> inert addr \<Longrightarrow> inert log \<Longrightarrow> shell_frame (frida_start_script name addr port log) = shell_frame (frida_start_script [] [] 0 [])"
  "inert name \<Longrightarrow> shell_frame (frida_stop_script name) = shell_frame (frida_stop_script [])"
  by (simp_all add: frida_start_script_def frida_stop_script_def del: lit_Cons)

section \<open>The log of a privileged run\<close>

definition su_scripts :: "log_entry list \<Rightarrow> ustring list" where
  "su_scripts w = map (\<lambda>e. last (fst (snd e))) (filter (\<lambda>e. fst e = SU) w)"

lemma su_scripts_append [simp]: "su_scripts (v @ w) = su_scripts v @ su_scripts w"
  by (simp add: su_scripts_def)

lemma su_scripts_Nil [simp]: "su_scripts [] = []"
  by (simp add: su_scripts_def)

lemma su_scripts_su [simp]: "su_scripts [(SU, [c, script], a)] = [script]"
  by (simp add: su_scripts_def)

lemma su_scripts_other [simp]: "p \<noteq> SU \<Longrightarrow> su_scripts [(p, args, a)] = []"
  by (simp add: su_scripts_def)

lemma emits_privileged:
  "emits (run_privileged (logged env) step script expect) (\<lambda>r w. \<exists>a. w = [(SU, [(lit ''-c''), script], a)] \<and>
     (\<forall>out. r = Inr out \<longrightarrow> (\<exists>res. a = Some (Inr res) \<and> success res \<and> out = trim (from_utf8_lossy (stdout res)) \<and>
        list_ex (\<lambda>line. trim line = expect) (lines out))))"
  by (auto simp: emits_def run_privileged_def su_answer_def abind_def on_device_def logged_def athrow_def alift_def Let_def
      split: prod.splits option.splits sum.splits if_splits)

lemma run_privileged_ends [ending]: "ends (run_privileged env step script expect)"
  unfolding run_privileged_def by (auto intro!: ending split: option.splits sum.splits)

lemma run_privileged_spares [sparing]: "spares (run_privileged env step script expect)"
  unfolding run_privileged_def by (auto intro!: sparing split: option.splits sum.splits)

end
