(* ===== verification/Agent_Net.thy ===== *)
theory Agent_Net
  imports Agent_Params Agent_Privileged Rust_Path
begin

text \<open>
  The reading half of the process provider (\<open>android-agent/src/provider/process.rs\<close>): the socket tables
  of \<open>/proc/net\<close>, the sockets a process holds, the ports of a process and the processes of a port.
  What \<open>/proc\<close> shows is a parameter, a record with one field per system call.
\<close>

section \<open>What is read\<close>

record 'd proc_env =
  p_device :: "'d device_env"
  p_read :: "ustring \<Rightarrow> 'd \<Rightarrow> ustring + bytes"
  p_head :: "ustring \<Rightarrow> nat \<Rightarrow> 'd \<Rightarrow> bytes option"
  p_dir :: "ustring \<Rightarrow> 'd \<Rightarrow> ustring + ustring list"
  p_link :: "ustring \<Rightarrow> 'd \<Rightarrow> ustring option"
  p_exists :: "ustring \<Rightarrow> 'd \<Rightarrow> bool"
  p_self :: nat
  p_kill :: "nat \<Rightarrow> nat \<Rightarrow> 'd \<Rightarrow> int option option \<times> 'd"

text \<open>\<open>read_to_string\<close>: the error is the text of its kind.\<close>

definition read_text :: "'d proc_env \<Rightarrow> ustring \<Rightarrow> 'd \<Rightarrow> ustring + ustring" where
  "read_text env path d =
     rbind (p_read env path d) (\<lambda>bytes. case from_utf8 bytes of None \<Rightarrow> Inl (lit ''invalid data'') | Some t \<Rightarrow> Inr t)"

definition read_trimmed :: "'d proc_env \<Rightarrow> ustring \<Rightarrow> 'd \<Rightarrow> ustring option" where
  "read_trimmed env path d =
     (case read_text env path d of
        Inl _ \<Rightarrow> None
      | Inr t \<Rightarrow> if trim t \<noteq> [] then Some (trim t) else None)"

definition read_cmdline :: "'d proc_env \<Rightarrow> ustring \<Rightarrow> 'd \<Rightarrow> ustring option" where
  "read_cmdline env path d =
     (case p_read env path d of
        Inl _ \<Rightarrow> None
      | Inr bytes \<Rightarrow>
          (let t = join [32] (map from_utf8_lossy (filter (\<lambda>part. part \<noteq> []) (split_pred (\<lambda>b. b = 0) bytes))) in
           if t \<noteq> [] then Some t else None))"

definition MAX_SOCKET_ROWS :: nat where "MAX_SOCKET_ROWS = 200000"
definition MAX_SCANNED_PIDS :: nat where "MAX_SCANNED_PIDS = 4000"

datatype socket_family = Ipv4 | Ipv6

definition NET_FILES :: "(ustring \<times> socket_family) list" where
  "NET_FILES = [((lit ''/proc/net/tcp''), Ipv4), ((lit ''/proc/net/tcp6''), Ipv6)]"

record net_entry =
  ne_inode :: nat
  ne_port :: nat
  ne_address :: ustring
  ne_remote_port :: nat
  ne_state :: ustring
  ne_uid :: nat
  ne_family :: socket_family

section \<open>Addresses\<close>

definition ipv4_text :: "nat \<Rightarrow> nat \<Rightarrow> nat \<Rightarrow> nat \<Rightarrow> ustring" where
  "ipv4_text a b c d = (show_dec a @ lit ''.'' @ show_dec b @ lit ''.'' @ show_dec c @ lit ''.'' @ show_dec d)"

text \<open>
  \<open>Ipv6Addr::to_string\<close> of the eight segments: the first longest run of zeros is written \<open>::\<close> when it
  is longer than one, and a mapped IPv4 address in dotted form.
\<close>

fun zero_run :: "nat list \<Rightarrow> nat" where
  "zero_run (s # segs) = (if s = 0 then Suc (zero_run segs) else 0)"
| "zero_run [] = 0"

fun longest_zeros :: "nat \<Rightarrow> nat list \<Rightarrow> nat \<times> nat" where
  "longest_zeros i [] = (i, 0)"
| "longest_zeros i (s # segs) =
     (let here = zero_run (s # segs); later = longest_zeros (Suc i) segs in if here \<ge> snd later then (i, here) else later)"

definition segments_text :: "nat list \<Rightarrow> ustring" where
  "segments_text segs = join [58] (map (to_digits 16) segs)"

definition ipv6_text :: "nat list \<Rightarrow> ustring" where
  "ipv6_text segs =
     (if take 6 segs = [0, 0, 0, 0, 0, 65535] then
        (lit ''::ffff:'') @ ipv4_text (segs ! 6 div 256) (segs ! 6 mod 256) (segs ! 7 div 256) (segs ! 7 mod 256)
      else
        (case longest_zeros 0 segs of (start, n) \<Rightarrow>
           if 1 < n then segments_text (take start segs) @ (lit ''::'') @ segments_text (drop (start + n) segs)
           else segments_text segs))"

text \<open>The four groups of \<open>/proc/net/tcp6\<close> are little-endian words.\<close>

definition word_segments :: "nat \<Rightarrow> nat list" where
  "word_segments v = [v mod 256 * 256 + v div 256 mod 256, v div 2 ^ 16 mod 256 * 256 + v div 2 ^ 24 mod 256]"

definition parse_group :: "bytes \<Rightarrow> nat option" where
  "parse_group grp =
     (case from_utf8 grp of None \<Rightarrow> None | Some t \<Rightarrow> ok_value (parse_unsigned u32_max 16 t))"

definition format_ipv6 :: "ustring \<Rightarrow> ustring option" where
  "format_ipv6 raw =
     (if length (utf8 raw) \<noteq> 32 then None
      else map_option (\<lambda>words. ipv6_text (concat (map word_segments words))) (those (map parse_group (chunks 8 (utf8 raw)))))"

definition parse_endpoint :: "ustring \<Rightarrow> socket_family \<Rightarrow> (ustring \<times> nat) option" where
  "parse_endpoint v family =
     (case split_once (lit '':'') v of
        None \<Rightarrow> None
      | Some (raw, port) \<Rightarrow>
          (case ok_value (parse_unsigned u16_max 16 port) of
             None \<Rightarrow> None
           | Some port \<Rightarrow>
               (case family of
                  Ipv4 \<Rightarrow>
                    (case ok_value (parse_unsigned u32_max 16 raw) of
                       None \<Rightarrow> None
                     | Some w \<Rightarrow> Some (ipv4_text (w mod 256) (w div 2 ^ 8 mod 256) (w div 2 ^ 16 mod 256) (w div 2 ^ 24 mod 256), port))
                | Ipv6 \<Rightarrow> map_option (\<lambda>a. (a, port)) (format_ipv6 raw))))"

definition state_name :: "nat \<Rightarrow> ustring" where
  "state_name v =
     (if v = 1 then (lit ''established'') else if v = 2 then (lit ''syn_sent'') else if v = 3 then (lit ''syn_recv'') else if v = 4 then (lit ''fin_wait1'')
      else if v = 5 then (lit ''fin_wait2'') else if v = 6 then (lit ''time_wait'') else if v = 7 then (lit ''close_wait'') else if v = 8 then (lit ''last_ack'')
      else if v = 9 then (lit ''closing'') else if v = 10 then (lit ''listen'') else if v = 11 then (lit ''closing'') else if v = 12 then (lit ''closed'')
      else (lit ''unknown''))"

text \<open>\<open>rsplit_once\<close> on a character.\<close>

definition rsplit_once_char :: "rchar \<Rightarrow> ustring \<Rightarrow> (ustring \<times> ustring) option" where
  "rsplit_once_char c s =
     (if c \<in> set s then Some (rev (tl (dropWhile (\<lambda>x. x \<noteq> c) (rev s))), rev (takeWhile (\<lambda>x. x \<noteq> c) (rev s))) else None)"

definition remote_port_of :: "ustring \<Rightarrow> nat" where
  "remote_port_of remote =
     (case rsplit_once_char 58 remote of
        None \<Rightarrow> 0
      | Some (_, port) \<Rightarrow> or_default 0 (ok_value (parse_unsigned u16_max 16 port)))"

definition parse_net_line :: "ustring \<Rightarrow> socket_family \<Rightarrow> net_entry option" where
  "parse_net_line line family =
     (case split_whitespace line of
        _ # local # remote # st # _ # _ # _ # uid # _ # inode # _ \<Rightarrow>
          (case (ok_value (parse_unsigned u8_max 16 st), parse_u32 uid, ok_value (parse_unsigned u64_max 10 inode), parse_endpoint local family) of
             (Some st, Some uid, Some inode, Some (address, port)) \<Rightarrow>
               Some \<lparr>ne_inode = inode, ne_port = port, ne_address = address, ne_remote_port = remote_port_of remote,
                 ne_state = state_name st, ne_uid = uid, ne_family = family\<rparr>
           | _ \<Rightarrow> None)
      | _ \<Rightarrow> None)"

section \<open>The snapshot of the tables\<close>

record net_snapshot =
  sn_entries :: "net_entry list"
  sn_truncated :: bool
  sn_unreadable :: "ustring list"

fun add_rows :: "socket_family \<Rightarrow> ustring list \<Rightarrow> net_entry list \<Rightarrow> net_entry list \<times> bool" where
  "add_rows family [] entries = (entries, False)"
| "add_rows family (line # rows) entries =
     (if MAX_SOCKET_ROWS \<le> length entries then (entries, True)
      else add_rows family rows (entries @ (case parse_net_line line family of None \<Rightarrow> [] | Some e \<Rightarrow> [e])))"

definition add_table :: "'d proc_env \<Rightarrow> 'd \<Rightarrow> ustring \<times> socket_family \<Rightarrow> net_snapshot \<Rightarrow> net_snapshot" where
  "add_table env d table sn =
     (case table of (path, family) \<Rightarrow>
      case read_text env path d of
        Inl kind \<Rightarrow> sn\<lparr>sn_unreadable := sn_unreadable sn @ [(path @ lit '': '' @ kind)]\<rparr>
      | Inr t \<Rightarrow>
          (case add_rows family (drop 1 (lines t)) (sn_entries sn) of (entries, over) \<Rightarrow>
             sn\<lparr>sn_entries := entries, sn_truncated := sn_truncated sn \<or> over\<rparr>))"

definition load_snapshot :: "'d proc_env \<Rightarrow> 'd \<Rightarrow> net_snapshot" where
  "load_snapshot env d = fold (add_table env d) NET_FILES \<lparr>sn_entries = [], sn_truncated = False, sn_unreadable = []\<rparr>"

section \<open>Sockets and their owners\<close>

definition PROC :: ustring where "PROC = (lit ''/proc'')"

definition proc_of :: "nat \<Rightarrow> string \<Rightarrow> ustring" where
  "proc_of pid file = (PROC @ lit ''/'' @ show_dec pid @ lit ''/'' @ lit file)"

definition socket_inode_of_link :: "ustring option \<Rightarrow> nat option" where
  "socket_inode_of_link link =
     (case link of
        None \<Rightarrow> None
      | Some t \<Rightarrow>
          (case strip_prefix (lit ''socket:['') t of
             None \<Rightarrow> None
           | Some r \<Rightarrow>
               (case strip_suffix (lit '']'') r of None \<Rightarrow> None | Some n \<Rightarrow> ok_value (parse_unsigned u64_max 10 n))))"

definition read_socket_inodes :: "'d proc_env \<Rightarrow> ustring \<Rightarrow> 'd \<Rightarrow> ustring + nat list" where
  "read_socket_inodes env dir d =
     rmap (List.map_filter (\<lambda>name. socket_inode_of_link (p_link env (path_join dir name) d))) (p_dir env dir d)"

definition socket_inodes_of :: "'d proc_env \<Rightarrow> nat \<Rightarrow> 'd \<Rightarrow> ustring + nat list" where
  "socket_inodes_of env pid d = read_socket_inodes env (proc_of pid ''fd'') d"

record owner_scan =
  os_owners :: "nat \<rightharpoonup> nat"
  os_unreadable :: nat
  os_truncated :: bool

definition claim_inode :: "nat set \<Rightarrow> nat \<Rightarrow> nat \<Rightarrow> (nat \<rightharpoonup> nat) \<Rightarrow> (nat \<rightharpoonup> nat)" where
  "claim_inode wanted pid inode owners =
     (if inode \<in> wanted \<and> owners inode = None then owners(inode \<mapsto> pid) else owners)"

text \<open>The directory entries of \<open>/proc\<close>; the scan ends early once every wanted inode has an owner.\<close>

fun scan_pids :: "'d proc_env \<Rightarrow> 'd \<Rightarrow> nat list \<Rightarrow> ustring list \<Rightarrow> nat \<Rightarrow> owner_scan \<Rightarrow> owner_scan" where
  "scan_pids env d wanted [] scanned sc = sc"
| "scan_pids env d wanted (name # names) scanned sc =
     (case parse_u32 name of
        None \<Rightarrow> scan_pids env d wanted names scanned sc
      | Some pid \<Rightarrow>
          if pid = 0 then scan_pids env d wanted names scanned sc
          else if MAX_SCANNED_PIDS \<le> scanned then sc\<lparr>os_truncated := True\<rparr>
          else (case socket_inodes_of env pid d of
                  Inl _ \<Rightarrow> scan_pids env d wanted names (Suc scanned) (sc\<lparr>os_unreadable := os_unreadable sc + 1\<rparr>)
                | Inr inodes \<Rightarrow>
                    (let owners = fold (claim_inode (set wanted) pid) inodes (os_owners sc); sc' = sc\<lparr>os_owners := owners\<rparr> in
                     if length wanted \<le> length (filter (\<lambda>i. owners i \<noteq> None) wanted) then sc'
                     else scan_pids env d wanted names (Suc scanned) sc')))"

definition no_owners :: owner_scan where
  "no_owners = \<lparr>os_owners = Map.empty, os_unreadable = 0, os_truncated = False\<rparr>"

text \<open>\<open>wanted\<close> lists every inode once.\<close>

definition scan_socket_owners :: "'d proc_env \<Rightarrow> nat list \<Rightarrow> 'd \<Rightarrow> owner_scan" where
  "scan_socket_owners env wanted d =
     (case p_dir env PROC d of
        Inl _ \<Rightarrow> no_owners\<lparr>os_unreadable := 1\<rparr>
      | Inr names \<Rightarrow> scan_pids env d wanted names 0 no_owners)"

section \<open>Requests\<close>

definition process_params :: "'d proc_env \<Rightarrow> (avalue \<Rightarrow> de_error + 'p) \<Rightarrow> avalue \<Rightarrow> aerror + 'p" where
  "process_params env from v =
     rmap_err (\<lambda>e. with_details (agent_error_new Invalid_Request (lit ''invalid process parameters'')) (reason_details (de_text (p_device env) e))) (from v)"

definition uint_from :: "nat \<Rightarrow> avalue \<Rightarrow> de_error + nat" where
  "uint_from hi v =
     (case v of
        VNumber (Pos_Int n) \<Rightarrow> if n \<le> hi then Inr n else Inl Invalid_Type
      | _ \<Rightarrow> Inl Invalid_Type)"

fun one_uint_from :: "string \<Rightarrow> nat \<Rightarrow> avalue \<Rightarrow> de_error + nat" where
  "one_uint_from name hi (VObject obj) =
     rbind (field_from (uint_from hi) (map_of obj (lit name))) (\<lambda>n. ok_or n (Missing_Field (lit name)))"
| "one_uint_from name hi (VArray vs) = rbind (elem_from (uint_from hi) vs 0) (at_most 1 vs)"
| "one_uint_from name hi _ = Inl Invalid_Type"

fun family_name :: "socket_family \<Rightarrow> ustring" where
  "family_name Ipv4 = (lit ''ipv4'')"
| "family_name Ipv6 = (lit ''ipv6'')"

definition json_count :: "nat \<Rightarrow> avalue" where
  "json_count n = VNumber (Pos_Int n)"

definition flag_field :: "string \<Rightarrow> bool \<Rightarrow> (ustring \<times> avalue) list" where
  "flag_field name b = (if b then [(lit name, VBool True)] else [])"

definition texts_field :: "string \<Rightarrow> ustring list \<Rightarrow> (ustring \<times> avalue) list" where
  "texts_field name ts = (if ts = [] then [] else [(lit name, VArray (map VString ts))])"

definition listening_port_value :: "net_entry \<Rightarrow> avalue" where
  "listening_port_value e =
     VObject [((lit ''address''), VString (ne_address e)), ((lit ''family''), VString (family_name (ne_family e))), ((lit ''inode''), json_count (ne_inode e)),
       ((lit ''port''), json_count (ne_port e)), ((lit ''state''), VString (ne_state e)), ((lit ''uid''), json_count (ne_uid e))]"

record ports_result =
  po_pid :: nat
  po_comm :: "ustring option"
  po_cmdline :: "ustring option"
  po_ports :: "net_entry list"
  po_unreadable :: "ustring list"
  po_truncated :: bool

definition ports_value :: "ports_result \<Rightarrow> avalue" where
  "ports_value r =
     VObject (opt_field ''cmdline'' VString (po_cmdline r) @ opt_field ''comm'' VString (po_comm r) @
       [((lit ''pid''), json_count (po_pid r)), ((lit ''ports''), VArray (map listening_port_value (po_ports r)))] @
       flag_field ''truncated'' (po_truncated r) @ texts_field ''unreadable'' (po_unreadable r))"

definition ports_of :: "'d proc_env \<Rightarrow> nat \<Rightarrow> 'd \<Rightarrow> ports_result" where
  "ports_of env pid d =
     (let sn = load_snapshot env d;
          (owned, more) =
            (case socket_inodes_of env pid d of
               Inr inodes \<Rightarrow> (inodes, [])
             | Inl reason \<Rightarrow> ([], [(lit ''/proc/'' @ show_dec pid @ lit ''/fd: '' @ reason)]))
      in \<lparr>po_pid = pid, po_comm = read_trimmed env (proc_of pid ''comm'') d, po_cmdline = read_cmdline env (proc_of pid ''cmdline'') d,
           po_ports = filter (\<lambda>e. ne_inode e \<in> set owned) (sn_entries sn), po_unreadable = sn_unreadable sn @ more,
           po_truncated = sn_truncated sn\<rparr>)"

definition ports :: "'d proc_env \<Rightarrow> avalue \<Rightarrow> 'd \<Rightarrow> aerror + avalue" where
  "ports env params d =
     rbind (process_params env (one_uint_from ''pid'' u32_max) params) (\<lambda>pid. Inr (ports_value (ports_of env pid d)))"

record holder =
  ho_pid :: nat
  ho_entry :: net_entry
  ho_comm :: "ustring option"

definition holder_value :: "holder \<Rightarrow> avalue" where
  "holder_value h =
     VObject ([((lit ''address''), VString (ne_address (ho_entry h)))] @ opt_field ''comm'' VString (ho_comm h) @
       [((lit ''family''), VString (family_name (ne_family (ho_entry h)))), ((lit ''inode''), json_count (ne_inode (ho_entry h))), ((lit ''pid''), json_count (ho_pid h)),
        ((lit ''state''), VString (ne_state (ho_entry h))), ((lit ''uid''), json_count (ne_uid (ho_entry h)))])"

record by_port_result =
  bp_port :: nat
  bp_sockets :: "holder list"
  bp_unowned :: "holder list"
  bp_truncated :: bool
  bp_skipped :: "ustring list"

definition by_port_value :: "by_port_result \<Rightarrow> avalue" where
  "by_port_value r =
     VObject ([((lit ''port''), json_count (bp_port r))] @ texts_field ''skipped'' (bp_skipped r) @ [((lit ''sockets''), VArray (map holder_value (bp_sockets r)))] @
       flag_field ''truncated'' (bp_truncated r) @
       (if bp_unowned r = [] then [] else [((lit ''unowned''), VArray (map holder_value (bp_unowned r)))]))"

text \<open>Every inode is reported once, with its owner when one was found.\<close>

fun place_sockets ::
  "'d proc_env \<Rightarrow> 'd \<Rightarrow> (nat \<rightharpoonup> nat) \<Rightarrow> net_entry list \<Rightarrow> nat list \<Rightarrow> holder list \<times> holder list" where
  "place_sockets env d owners [] placed = ([], [])"
| "place_sockets env d owners (e # entries) placed =
     (if ne_inode e \<in> set placed then place_sockets env d owners entries placed
      else case place_sockets env d owners entries (ne_inode e # placed) of (sockets, unowned) \<Rightarrow>
        (case owners (ne_inode e) of
           Some pid \<Rightarrow> (\<lparr>ho_pid = pid, ho_entry = e, ho_comm = read_trimmed env (proc_of pid ''comm'') d\<rparr> # sockets, unowned)
         | None \<Rightarrow> (sockets, \<lparr>ho_pid = 0, ho_entry = e, ho_comm = None\<rparr> # unowned)))"

definition matching_port :: "nat \<Rightarrow> net_entry \<Rightarrow> bool" where
  "matching_port port e \<longleftrightarrow> ne_port e = port \<and> ne_remote_port e = 0"

definition by_port_of :: "'d proc_env \<Rightarrow> nat \<Rightarrow> 'd \<Rightarrow> by_port_result" where
  "by_port_of env port d =
     (let sn = load_snapshot env d; matching = filter (matching_port port) (sn_entries sn);
          wanted = remdups (filter (\<lambda>i. i \<noteq> 0) (map ne_inode matching));
          sc = (if wanted = [] then no_owners else scan_socket_owners env wanted d);
          (sockets, unowned) = place_sockets env d (os_owners sc) matching [];
          skipped = sn_unreadable sn @
            (if 0 < os_unreadable sc then [(lit ''fd_unreadable_processes='' @ show_dec (os_unreadable sc) @ [65288, 38750] @ lit '' root '' @ [26102, 23646, 20027, 21487, 33021, 19981, 20840, 65289])] else []) @
            (if os_truncated sc then [(lit ''fd_scan_truncated_at='' @ show_dec MAX_SCANNED_PIDS)] else [])
      in \<lparr>bp_port = port, bp_sockets = sockets, bp_unowned = unowned, bp_truncated = sn_truncated sn \<or> os_truncated sc, bp_skipped = skipped\<rparr>)"

definition by_port :: "'d proc_env \<Rightarrow> avalue \<Rightarrow> 'd \<Rightarrow> aerror + avalue" where
  "by_port env params d =
     rbind (process_params env (one_uint_from ''port'' u16_max) params) (\<lambda>port.
     if port = 0 then Inl (agent_error_new Invalid_Request (lit ''port '' @ [19981, 33021, 20026, 32, 48])) else Inr (by_port_value (by_port_of env port d)))"

section \<open>Who holds a socket\<close>

definition holds :: "'d proc_env \<Rightarrow> 'd \<Rightarrow> nat \<Rightarrow> nat \<Rightarrow> bool" where
  "holds env d pid inode \<longleftrightarrow> (\<exists>inodes. socket_inodes_of env pid d = Inr inodes \<and> inode \<in> set inodes)"

definition listed_pid :: "ustring list \<Rightarrow> nat \<Rightarrow> bool" where
  "listed_pid names pid \<longleftrightarrow> pid \<noteq> 0 \<and> (\<exists>name \<in> set names. parse_u32 name = Some pid)"

lemma claims_owner:
  "fold (claim_inode wanted pid) inodes owners i =
     (case owners i of Some p \<Rightarrow> Some p | None \<Rightarrow> if i \<in> wanted \<and> i \<in> set inodes then Some pid else None)"
  by (induction inodes arbitrary: owners) (auto simp: claim_inode_def split: option.splits)

lemma scan_pids_sound:
  assumes "os_owners (scan_pids env d wanted names scanned sc) i = Some pid"
  shows "os_owners sc i = Some pid \<or> pid \<noteq> 0 \<and> listed_pid names pid \<and> i \<in> set wanted \<and> holds env d pid i"
  using assms
proof (induction env d wanted names scanned sc rule: scan_pids.induct)
  case (2 env d wanted name names scanned sc)
  show ?case
  proof (cases "parse_u32 name")
    case None
    with 2 show ?thesis by (auto simp: listed_pid_def)
  next
    case (Some p)
    consider "p = 0" | "p \<noteq> 0" "MAX_SCANNED_PIDS \<le> scanned" | e where "p \<noteq> 0" "\<not> MAX_SCANNED_PIDS \<le> scanned" "socket_inodes_of env p d = Inl e"
      | inodes where "p \<noteq> 0" "\<not> MAX_SCANNED_PIDS \<le> scanned" "socket_inodes_of env p d = Inr inodes"
      by (cases "socket_inodes_of env p d") blast+
    then show ?thesis
    proof cases
      case 1
      with 2 Some show ?thesis by (auto simp: listed_pid_def)
    next
      case (4 inodes)
      let ?owners = "fold (claim_inode (set wanted) p) inodes (os_owners sc)"
      have here: "?owners i = Some pid \<Longrightarrow> os_owners sc i = Some pid \<or> pid \<noteq> 0 \<and> listed_pid (name # names) pid \<and> i \<in> set wanted \<and> holds env d pid i"
        using 4 Some by (auto simp: claims_owner listed_pid_def holds_def split: option.splits if_splits)
      show ?thesis
      proof (cases "length wanted \<le> length (filter (\<lambda>i. ?owners i \<noteq> None) wanted)")
        case True
        with 2 4 Some here show ?thesis by (simp add: Let_def)
      next
        case False
        with 4 Some "2.prems" have "os_owners (scan_pids env d wanted names (Suc scanned) (sc\<lparr>os_owners := ?owners\<rparr>)) i = Some pid" by (simp add: Let_def)
        with "2.IH"(4) [OF Some 4(1,2,3) refl refl False] here show ?thesis by (auto simp: listed_pid_def)
      qed
    qed (use 2 Some in \<open>auto simp: listed_pid_def\<close>)
  qed
qed simp

lemma scan_pids_keeps: "os_owners sc i = Some pid \<Longrightarrow> os_owners (scan_pids env d wanted names scanned sc) i = Some pid"
  by (induction env d wanted names scanned sc rule: scan_pids.induct)
    (auto simp: Let_def claims_owner split: option.splits sum.splits)

lemma scan_pids_counts: "os_unreadable sc \<le> os_unreadable (scan_pids env d wanted names scanned sc)"
  by (induction env d wanted names scanned sc rule: scan_pids.induct)
    (auto simp: Let_def split: option.splits sum.splits intro: Suc_leD)

text \<open>A scan that was not cut off and met nothing unreadable has found an owner wherever there is one.\<close>

lemma scan_pids_complete:
  assumes "listed_pid names pid" "holds env d pid i" "i \<in> set wanted"
    and "\<not> os_truncated (scan_pids env d wanted names scanned sc)" "os_unreadable (scan_pids env d wanted names scanned sc) = os_unreadable sc"
  shows "os_owners (scan_pids env d wanted names scanned sc) i \<noteq> None"
  using assms
proof (induction env d wanted names scanned sc rule: scan_pids.induct)
  case (2 env d wanted name names scanned sc)
  show ?case
  proof (cases "parse_u32 name")
    case None
    with 2 show ?thesis by (auto simp: listed_pid_def)
  next
    case (Some p)
    consider "p = 0" | "p \<noteq> 0" "MAX_SCANNED_PIDS \<le> scanned" | e where "p \<noteq> 0" "\<not> MAX_SCANNED_PIDS \<le> scanned" "socket_inodes_of env p d = Inl e"
      | inodes where "p \<noteq> 0" "\<not> MAX_SCANNED_PIDS \<le> scanned" "socket_inodes_of env p d = Inr inodes"
      by (cases "socket_inodes_of env p d") blast+
    then show ?thesis
    proof cases
      case 1
      with 2 Some show ?thesis by (auto simp: listed_pid_def)
    next
      case 2
      with "2.prems" Some show ?thesis by simp
    next
      case (3 e)
      with "2.prems" Some scan_pids_counts [of "sc\<lparr>os_unreadable := os_unreadable sc + 1\<rparr>" env d wanted names "Suc scanned"]
      show ?thesis by simp
    next
      case (4 inodes)
      let ?owners = "fold (claim_inode (set wanted) p) inodes (os_owners sc)"
      show ?thesis
      proof (cases "length wanted \<le> length (filter (\<lambda>i. ?owners i \<noteq> None) wanted)")
        case True
        have "?owners i \<noteq> None"
        proof (rule ccontr)
          assume "\<not> ?owners i \<noteq> None"
          then have "length (filter (\<lambda>i. ?owners i \<noteq> None) wanted) < length wanted"
            using length_filter_less [of i wanted "\<lambda>i. ?owners i \<noteq> None"] "2.prems"(3) by simp
          with True show False by simp
        qed
        moreover from 4 Some True have "scan_pids env d wanted (name # names) scanned sc = sc\<lparr>os_owners := ?owners\<rparr>"
          by (simp add: Let_def)
        ultimately show ?thesis by simp
      next
        case False
        with 4 Some have step: "scan_pids env d wanted (name # names) scanned sc =
            scan_pids env d wanted names (Suc scanned) (sc\<lparr>os_owners := ?owners\<rparr>)" by (simp add: Let_def)
        show ?thesis
        proof (cases "p = pid")
          case True
          with 4 "2.prems" have "?owners i \<noteq> None" by (auto simp: claims_owner holds_def split: option.splits)
          then obtain q where "os_owners (sc\<lparr>os_owners := ?owners\<rparr>) i = Some q" by auto
          from scan_pids_keeps [OF this, of env d wanted names "Suc scanned"] show ?thesis unfolding step by simp
        next
          case other: False
          with Some "2.prems"(1) have "listed_pid names pid" by (auto simp: listed_pid_def)
          let ?sc = "sc\<lparr>os_owners := ?owners\<rparr>"
          have not_cut: "\<not> os_truncated (scan_pids env d wanted names (Suc scanned) ?sc)"
            using "2.prems"(4) unfolding step .
          have readable: "os_unreadable (scan_pids env d wanted names (Suc scanned) ?sc) = os_unreadable ?sc"
            using "2.prems"(5) unfolding step by simp
          show ?thesis unfolding step
            by (rule "2.IH"(4) [OF Some 4 refl refl False \<open>listed_pid names pid\<close> "2.prems"(2,3) not_cut readable])
        qed
      qed
    qed
  qed
qed (simp add: listed_pid_def)

lemma scan_owners_sound:
  assumes "os_owners (scan_socket_owners env wanted d) i = Some pid"
  shows "pid \<noteq> 0 \<and> i \<in> set wanted \<and> holds env d pid i"
  using assms scan_pids_sound [of env d wanted _ 0 no_owners i pid]
  by (auto simp: scan_socket_owners_def no_owners_def split: sum.splits)

lemma scan_owners_complete:
  assumes "p_dir env PROC d = Inr names" "listed_pid names pid" "holds env d pid i" "i \<in> set wanted"
    and "\<not> os_truncated (scan_socket_owners env wanted d)" "os_unreadable (scan_socket_owners env wanted d) = 0"
  shows "os_owners (scan_socket_owners env wanted d) i \<noteq> None"
  using assms scan_pids_complete [of names pid env d i wanted 0 no_owners]
  by (simp add: scan_socket_owners_def no_owners_def)

text \<open>The entries that are placed: the first one of every inode.\<close>

fun firsts :: "net_entry list \<Rightarrow> nat list \<Rightarrow> net_entry list" where
  "firsts [] placed = []"
| "firsts (e # entries) placed =
     (if ne_inode e \<in> set placed then firsts entries placed else e # firsts entries (ne_inode e # placed))"

lemma firsts_inodes: "ne_inode ` set (firsts entries placed) = ne_inode ` set entries - set placed"
  by (induction entries placed rule: firsts.induct) auto

lemma firsts_distinct: "distinct (map ne_inode (firsts entries placed))"
proof (induction entries placed rule: firsts.induct)
  case (2 e entries placed)
  then show ?case using firsts_inodes [of entries "ne_inode e # placed"] by auto
qed simp

lemma firsts_subset: "set (firsts entries placed) \<subseteq> set entries"
  by (induction entries placed rule: firsts.induct) auto

lemma place_sockets_firsts:
  "place_sockets env d owners entries placed =
    (map (\<lambda>e. \<lparr>ho_pid = the (owners (ne_inode e)), ho_entry = e, ho_comm = read_trimmed env (proc_of (the (owners (ne_inode e))) ''comm'') d\<rparr>)
       (filter (\<lambda>e. owners (ne_inode e) \<noteq> None) (firsts entries placed)),
     map (\<lambda>e. \<lparr>ho_pid = 0, ho_entry = e, ho_comm = None\<rparr>) (filter (\<lambda>e. owners (ne_inode e) = None) (firsts entries placed)))"
  by (induction env d owners entries placed rule: place_sockets.induct) (auto split: option.splits)

lemma distinct_partition: "distinct (map f xs) \<Longrightarrow> distinct (map f (filter P xs) @ map f (filter (\<lambda>x. \<not> P x) xs))"
  by (induction xs) auto

lemma place_exact:
  assumes "place_sockets env d owners entries [] = (sockets, unowned)"
  shows "distinct (map (ne_inode \<circ> ho_entry) (sockets @ unowned))" (is ?d)
    and "(ne_inode \<circ> ho_entry) ` set (sockets @ unowned) = ne_inode ` set entries" (is ?s)
    and "h \<in> set (sockets @ unowned) \<Longrightarrow> ho_entry h \<in> set entries"
    and "h \<in> set sockets \<Longrightarrow> owners (ne_inode (ho_entry h)) = Some (ho_pid h)"
    and "h \<in> set unowned \<Longrightarrow> owners (ne_inode (ho_entry h)) = None"
proof -
  let ?f = "firsts entries []" and ?P = "\<lambda>e. owners (ne_inode e) \<noteq> None"
  have so: "sockets = map (\<lambda>e. \<lparr>ho_pid = the (owners (ne_inode e)), ho_entry = e, ho_comm = read_trimmed env (proc_of (the (owners (ne_inode e))) ''comm'') d\<rparr>)
       (filter ?P ?f)"
    and un: "unowned = map (\<lambda>e. \<lparr>ho_pid = 0, ho_entry = e, ho_comm = None\<rparr>) (filter (\<lambda>e. \<not> ?P e) ?f)"
    using assms by (simp_all add: place_sockets_firsts)
  have m: "map (ne_inode \<circ> ho_entry) (sockets @ unowned) = map ne_inode (filter ?P ?f) @ map ne_inode (filter (\<lambda>e. \<not> ?P e) ?f)"
    by (simp add: so un comp_def)
  show ?d unfolding m by (rule distinct_partition [OF firsts_distinct])
  have "set (filter ?P ?f) \<union> set (filter (\<lambda>e. \<not> ?P e) ?f) = set ?f" by auto
  then have "set (map (ne_inode \<circ> ho_entry) (sockets @ unowned)) = ne_inode ` set ?f"
    unfolding m by (simp only: set_append set_map image_Un [symmetric])
  then show ?s using firsts_inodes [of entries "[]"] by (simp only: set_map set_empty list.set Diff_empty)
  show "h \<in> set (sockets @ unowned) \<Longrightarrow> ho_entry h \<in> set entries" using firsts_subset [of entries "[]"] by (auto simp: so un)
  show "h \<in> set sockets \<Longrightarrow> owners (ne_inode (ho_entry h)) = Some (ho_pid h)" by (auto simp: so)
  show "h \<in> set unowned \<Longrightarrow> owners (ne_inode (ho_entry h)) = None" by (auto simp: un)
qed

text \<open>The rows a port is asked for: the listening or unconnected sockets of that local port.\<close>

definition rows_of_port :: "'d proc_env \<Rightarrow> nat \<Rightarrow> 'd \<Rightarrow> net_entry list" where
  "rows_of_port env port d = filter (matching_port port) (sn_entries (load_snapshot env d))"

definition owners_of_port :: "'d proc_env \<Rightarrow> nat \<Rightarrow> 'd \<Rightarrow> owner_scan" where
  "owners_of_port env port d =
     (let wanted = remdups (filter (\<lambda>i. i \<noteq> 0) (map ne_inode (rows_of_port env port d)))
      in if wanted = [] then no_owners else scan_socket_owners env wanted d)"

definition port_skips :: "'d proc_env \<Rightarrow> owner_scan \<Rightarrow> 'd \<Rightarrow> ustring list" where
  "port_skips env sc d = sn_unreadable (load_snapshot env d) @
     (if 0 < os_unreadable sc then [(lit ''fd_unreadable_processes='' @ show_dec (os_unreadable sc) @ [65288, 38750] @ lit '' root '' @ [26102, 23646, 20027, 21487, 33021, 19981, 20840, 65289])] else []) @
     (if os_truncated sc then [(lit ''fd_scan_truncated_at='' @ show_dec MAX_SCANNED_PIDS)] else [])"

lemma by_port_parts:
  assumes "place_sockets env d (os_owners (owners_of_port env port d)) (rows_of_port env port d) [] = (sockets, unowned)"
  shows "by_port_of env port d = \<lparr>bp_port = port, bp_sockets = sockets, bp_unowned = unowned,
    bp_truncated = sn_truncated (load_snapshot env d) \<or> os_truncated (owners_of_port env port d),
    bp_skipped = port_skips env (owners_of_port env port d) d\<rparr>"
proof -
  note pl = assms [unfolded owners_of_port_def rows_of_port_def Let_def]
  show ?thesis
    unfolding by_port_of_def port_skips_def owners_of_port_def rows_of_port_def Let_def by (simp only: pl prod.case)
qed

lemma owner_holds:
  assumes "os_owners (owners_of_port env port d) i = Some pid"
  shows "pid \<noteq> 0 \<and> i \<noteq> 0 \<and> holds env d pid i"
  using assms scan_owners_sound [of env "remdups (filter (\<lambda>i. i \<noteq> 0) (map ne_inode (rows_of_port env port d)))" d i pid]
  by (auto simp: owners_of_port_def Let_def no_owners_def split: if_splits)

lemma unowned_unheld:
  assumes "os_owners (owners_of_port env port d) i = None" "i \<noteq> 0" "i \<in> ne_inode ` set (rows_of_port env port d)"
    and "\<not> os_truncated (owners_of_port env port d)" "os_unreadable (owners_of_port env port d) = 0"
  obtains names where "p_dir env PROC d = Inr names" "\<And>pid. listed_pid names pid \<Longrightarrow> \<not> holds env d pid i"
proof -
  let ?wanted = "remdups (filter (\<lambda>i. i \<noteq> 0) (map ne_inode (rows_of_port env port d)))"
  have "i \<in> set ?wanted" using assms(2,3) by auto
  then have "?wanted \<noteq> []" by (metis empty_iff list.set(1))
  then have sc: "owners_of_port env port d = scan_socket_owners env ?wanted d"
    unfolding owners_of_port_def Let_def by (rule if_not_P)
  obtain names where names: "p_dir env PROC d = Inr names"
    using assms(5) unfolding sc by (auto simp: scan_socket_owners_def no_owners_def split: sum.splits)
  have "\<not> holds env d pid i" if "listed_pid names pid" for pid
    using scan_owners_complete [OF names that _ \<open>i \<in> set ?wanted\<close>] assms(1,4,5) unfolding sc by blast
  with names show thesis by (rule that)
qed

lemma port_holders:
  fixes env port d
  defines "r \<equiv> by_port_of env port d"
  shows "distinct (map (ne_inode \<circ> ho_entry) (bp_sockets r @ bp_unowned r))"
    and "(ne_inode \<circ> ho_entry) ` set (bp_sockets r @ bp_unowned r) = ne_inode ` set (rows_of_port env port d)"
    and "h \<in> set (bp_sockets r @ bp_unowned r) \<Longrightarrow> ho_entry h \<in> set (rows_of_port env port d)"
    and "h \<in> set (bp_sockets r) \<Longrightarrow> ho_pid h \<noteq> 0 \<and> holds env d (ho_pid h) (ne_inode (ho_entry h))"
    and "\<lbrakk>bp_skipped r = []; \<not> bp_truncated r; h \<in> set (bp_unowned r); ne_inode (ho_entry h) \<noteq> 0\<rbrakk>
      \<Longrightarrow> \<exists>names. p_dir env PROC d = Inr names \<and> (\<forall>pid. listed_pid names pid \<longrightarrow> \<not> holds env d pid (ne_inode (ho_entry h)))"
proof -
  obtain sockets unowned where pl:
    "place_sockets env d (os_owners (owners_of_port env port d)) (rows_of_port env port d) [] = (sockets, unowned)" by fastforce
  note parts = by_port_parts [OF pl]
  have p: "place_sockets env d (os_owners (owners_of_port env port d)) (rows_of_port env port d) [] = (bp_sockets r, bp_unowned r)"
    and sk: "bp_skipped r = port_skips env (owners_of_port env port d) d"
    and tr: "bp_truncated r \<longleftrightarrow> sn_truncated (load_snapshot env d) \<or> os_truncated (owners_of_port env port d)"
    unfolding r_def parts pl by simp_all
  note pe = place_exact [OF p]
  show "distinct (map (ne_inode \<circ> ho_entry) (bp_sockets r @ bp_unowned r))" by (rule pe(1))
  show "(ne_inode \<circ> ho_entry) ` set (bp_sockets r @ bp_unowned r) = ne_inode ` set (rows_of_port env port d)" by (rule pe(2))
  show rows: "h \<in> set (bp_sockets r @ bp_unowned r) \<Longrightarrow> ho_entry h \<in> set (rows_of_port env port d)" by (rule pe(3))
  show "h \<in> set (bp_sockets r) \<Longrightarrow> ho_pid h \<noteq> 0 \<and> holds env d (ho_pid h) (ne_inode (ho_entry h))"
    by (drule pe(4)) (drule owner_holds, simp)
  assume "bp_skipped r = []" "\<not> bp_truncated r" and h: "h \<in> set (bp_unowned r)" and "ne_inode (ho_entry h) \<noteq> 0"
  from \<open>bp_skipped r = []\<close> have unreadable: "os_unreadable (owners_of_port env port d) = 0"
    unfolding sk port_skips_def by (simp split: if_splits)
  from \<open>\<not> bp_truncated r\<close> have cut: "\<not> os_truncated (owners_of_port env port d)" unfolding tr by simp
  have row: "ne_inode (ho_entry h) \<in> ne_inode ` set (rows_of_port env port d)" using rows h by simp
  obtain names where "p_dir env PROC d = Inr names" "\<And>pid. listed_pid names pid \<Longrightarrow> \<not> holds env d pid (ne_inode (ho_entry h))"
    by (rule unowned_unheld [OF pe(5) [OF h] \<open>ne_inode (ho_entry h) \<noteq> 0\<close> row cut unreadable]) blast
  then show "\<exists>names. p_dir env PROC d = Inr names \<and> (\<forall>pid. listed_pid names pid \<longrightarrow> \<not> holds env d pid (ne_inode (ho_entry h)))"
    by blast
qed

section \<open>The rows the kernel prints\<close>

text \<open>
  The kernel prints an address as one \<open>%08X\<close> per little-endian word of its bytes in network order, and the
  ports in \<open>%04X\<close>.
\<close>

definition upper_hex :: "nat \<Rightarrow> nat \<Rightarrow> ustring" where
  "upper_hex width n = map to_ascii_upper (pad_left width (to_digits 16 n))"

fun le_word :: "nat list \<Rightarrow> nat" where
  "le_word [] = 0"
| "le_word (b # bs) = b + 256 * le_word bs"

definition kernel_address :: "nat list list \<Rightarrow> ustring" where
  "kernel_address grps = concat (map (\<lambda>g. upper_hex 8 (le_word g)) grps)"

definition kernel_endpoint :: "nat list list \<Rightarrow> nat \<Rightarrow> ustring" where
  "kernel_endpoint grps port = kernel_address grps @ 58 # upper_hex 4 port"

definition pairs_of :: "nat list \<Rightarrow> nat list" where
  "pairs_of g = [g ! 0 * 256 + g ! 1, g ! 2 * 256 + g ! 3]"

definition address_groups :: "socket_family \<Rightarrow> nat list list \<Rightarrow> bool" where
  "address_groups family grps \<longleftrightarrow>
     length grps = (case family of Ipv4 \<Rightarrow> 1 | Ipv6 \<Rightarrow> 4) \<and> (\<forall>g \<in> set grps. length g = 4 \<and> (\<forall>b \<in> set g. b < 256))"

definition address_text :: "socket_family \<Rightarrow> nat list list \<Rightarrow> ustring" where
  "address_text family grps =
     (case family of
        Ipv4 \<Rightarrow> ipv4_text (grps ! 0 ! 0) (grps ! 0 ! 1) (grps ! 0 ! 2) (grps ! 0 ! 3)
      | Ipv6 \<Rightarrow> ipv6_text (concat (map pairs_of grps)))"

lemma to_digit_upper: "to_digit 16 (to_ascii_upper c) = to_digit 16 c"
  by (auto simp: to_digit_def to_ascii_upper_def is_ascii_lower_def Let_def)

lemma parse_digits_upper: "parse_digits 16 hi acc (map to_ascii_upper s) = parse_digits 16 hi acc s"
  by (induction s arbitrary: acc) (auto simp: to_digit_upper split: option.splits)

lemma upper_hex_plain: "c \<in> set (upper_hex w n) \<Longrightarrow> 48 \<le> c \<and> c < 128 \<and> c \<noteq> 58 \<and> \<not> is_whitespace c"
proof -
  assume "c \<in> set (upper_hex w n)"
  then obtain b where b: "b \<in> set (pad_left w (to_digits 16 n))" "c = to_ascii_upper b" by (auto simp: upper_hex_def)
  have "b = 48 \<or> (\<exists>d < 16. b = digit_char d)"
    using b(1) set_pad_left [of w "to_digits 16 n"] to_digits_chars [of 16 b n] by auto
  then have "(48 \<le> b \<and> b \<le> 57) \<or> (97 \<le> b \<and> b \<le> 102)" by (auto simp: digit_char_def split: if_splits)
  with b(2) show ?thesis by (auto simp: to_ascii_upper_def is_ascii_lower_def is_whitespace_def)
qed

lemma upper_hex_nonempty: "upper_hex w n \<noteq> []"
  by (simp add: upper_hex_def pad_left_nonempty)

lemma parse_upper_hex: "n \<le> hi \<Longrightarrow> parse_unsigned hi 16 (upper_hex w n) = Inr n"
  using upper_hex_plain [of _ w n]
  by (subst parse_unsigned_digits) (auto simp: upper_hex_nonempty, simp add: upper_hex_def parse_digits_upper parse_digits_pad)

lemma length_upper_hex: "n < 16 ^ Suc k \<Longrightarrow> length (upper_hex (Suc k) n) = Suc k"
  using to_digits_length [of n 16 k] by (simp add: upper_hex_def pad_left_def)

lemma le_word_bound: "\<forall>b \<in> set g. b < 256 \<Longrightarrow> le_word g < 256 ^ length g"
  by (induction g) auto

lemma le_word_bytes:
  assumes "length g = 4" "\<forall>b \<in> set g. b < 256"
  shows "le_word g < 2 ^ 32"
    and "le_word g mod 256 = g ! 0" "le_word g div 2 ^ 8 mod 256 = g ! 1" "le_word g div 2 ^ 16 mod 256 = g ! 2"
      "le_word g div 2 ^ 24 mod 256 = g ! 3"
proof -
  obtain a b c e where g: "g = [a, b, c, e]" using assms(1) by (auto simp: length_Suc_conv numeral_eq_Suc)
  then have lt: "a < 256" "b < 256" "c < 256" "e < 256" using assms(2) by auto
  have w: "le_word g = a + 256 * (b + 256 * (c + 256 * e))" by (simp add: g)
  show "le_word g < 2 ^ 32" using le_word_bound [OF assms(2)] assms(1) by simp
  show "le_word g mod 256 = g ! 0" unfolding w mod_mult_self2 using lt by (simp add: g)
  have d1: "le_word g div 256 = b + 256 * (c + 256 * e)" unfolding w using lt by simp
  have d2: "le_word g div 65536 = c + 256 * e"
  proof -
    have "le_word g div 65536 = le_word g div 256 div 256" by (simp add: div_mult2_eq [symmetric])
    with d1 lt show ?thesis by simp
  qed
  have d3: "le_word g div 16777216 = e"
  proof -
    have "le_word g div 16777216 = le_word g div 65536 div 256" by (simp add: div_mult2_eq [symmetric])
    with d2 lt show ?thesis by simp
  qed
  show "le_word g div 2 ^ 8 mod 256 = g ! 1" using d1 mod_mult_self2 [of b 256 "c + 256 * e"] lt by (simp add: g)
  show "le_word g div 2 ^ 16 mod 256 = g ! 2" using d2 lt by (simp add: g)
  show "le_word g div 2 ^ 24 mod 256 = g ! 3" using d3 lt by (simp add: g)
qed

lemma kernel_group:
  assumes "length g = 4" "\<forall>b \<in> set g. b < 256"
  shows "parse_group (utf8 (upper_hex 8 (le_word g))) = Some (le_word g)"
    and "word_segments (le_word g) = pairs_of g" and "length (utf8 (upper_hex 8 (le_word g))) = 8"
proof -
  note w = le_word_bytes [OF assms]
  have a: "ascii (upper_hex 8 (le_word g))" using upper_hex_plain by (auto simp: ascii_set)
  then have "valid_string (upper_hex 8 (le_word g))" by (rule ascii_valid)
  then show "parse_group (utf8 (upper_hex 8 (le_word g))) = Some (le_word g)"
    using w(1) by (simp add: parse_group_def parse_upper_hex ok_value_def u32_max_def)
  show "length (utf8 (upper_hex 8 (le_word g))) = 8"
    using length_upper_hex [of "le_word g" 7] w(1) by (simp add: length_utf8_ascii [OF a])
  show "word_segments (le_word g) = pairs_of g"
    using w(2-5) by (simp add: word_segments_def pairs_of_def)
qed

lemma utf8_concat: "utf8 (concat ss) = concat (map utf8 ss)"
  by (induction ss) simp_all

lemma format_kernel_ipv6:
  assumes "address_groups Ipv6 grps"
  shows "format_ipv6 (kernel_address grps) = Some (ipv6_text (concat (map pairs_of grps)))"
proof -
  let ?hex = "map (\<lambda>g. upper_hex 8 (le_word g)) grps"
  have g: "length grps = 4" "\<And>g. g \<in> set grps \<Longrightarrow> length g = 4 \<and> (\<forall>b \<in> set g. b < 256)"
    using assms by (auto simp: address_groups_def)
  have u: "utf8 (kernel_address grps) = concat (map utf8 ?hex)" by (simp add: kernel_address_def utf8_concat)
  have eights: "length c = 8" if "c \<in> set (map utf8 ?hex)" for c using that g(2) kernel_group(3) by auto
  have "length (concat (map utf8 ?hex)) = sum_list (map (\<lambda>_. 8) grps)"
    unfolding length_concat map_map using eights by (intro arg_cong [where f = sum_list] map_cong) auto
  then have len: "length (utf8 (kernel_address grps)) = 32" using g(1) by (simp add: u sum_list_triv)
  have "chunks 8 (utf8 (kernel_address grps)) = map utf8 ?hex" unfolding u using eights by (intro chunks_concat) auto
  moreover have "map parse_group (map utf8 ?hex) = map Some (map le_word grps)" using g(2) kernel_group(1) by simp
  moreover have "those (map Some ws) = Some ws" for ws :: "nat list" by (induction ws) auto
  moreover have "map word_segments (map le_word grps) = map pairs_of grps" using g(2) kernel_group(2) by simp
  ultimately show ?thesis by (simp only: format_ipv6_def len option.map if_False simp_thms)
qed

lemma kernel_endpoint_read:
  assumes "address_groups family grps" "port \<le> u16_max"
  shows "parse_endpoint (kernel_endpoint grps port) family = Some (address_text family grps, port)"
proof -
  have "58 \<notin> set (kernel_address grps)" using upper_hex_plain by (fastforce simp: kernel_address_def)
  then have sp: "split_once (lit '':'') (kernel_endpoint grps port) = Some (kernel_address grps, upper_hex 4 port)"
    by (simp add: kernel_endpoint_def split_once_first)
  have p: "ok_value (parse_unsigned u16_max 16 (upper_hex 4 port)) = Some port"
    using assms(2) by (simp add: parse_upper_hex ok_value_def)
  show ?thesis
  proof (cases family)
    case Ipv4
    with assms(1) obtain g where g: "grps = [g]" "length g = 4" "\<forall>b \<in> set g. b < 256"
      by (auto simp: address_groups_def length_Suc_conv)
    note w = le_word_bytes [OF g(2,3)]
    have "ok_value (parse_unsigned u32_max 16 (kernel_address grps)) = Some (le_word g)"
      using w(1) by (simp add: g(1) kernel_address_def parse_upper_hex ok_value_def u32_max_def)
    then show ?thesis
      unfolding parse_endpoint_def sp [unfolded g(1)] g(1) Ipv4
      by (simp only: option.case prod.case p socket_family.case w(2-5) address_text_def nth_Cons_0)
  next
    case Ipv6
    with assms(1) have "format_ipv6 (kernel_address grps) = Some (ipv6_text (concat (map pairs_of grps)))"
      by (simp add: format_kernel_ipv6)
    then show ?thesis
      unfolding parse_endpoint_def sp Ipv6
      by (simp only: option.case prod.case p socket_family.case address_text_def option.map)
  qed
qed

lemma kernel_remote_port:
  "port \<le> u16_max \<Longrightarrow> remote_port_of (kernel_endpoint grps port) = port"
proof -
  assume port: "port \<le> u16_max"
  have c: "58 \<notin> set (upper_hex 4 port)" using upper_hex_plain by fastforce
  then have "takeWhile (\<lambda>x. x \<noteq> 58) (rev (kernel_endpoint grps port)) = rev (upper_hex 4 port)"
    by (auto simp: kernel_endpoint_def takeWhile_tail)
  then have "\<exists>a. rsplit_once_char 58 (kernel_endpoint grps port) = Some (a, upper_hex 4 port)"
    by (simp add: rsplit_once_char_def kernel_endpoint_def)
  with port show ?thesis by (auto simp: remote_port_of_def parse_upper_hex ok_value_def or_default_def)
qed

text \<open>The words of one row, whatever the padding between them is.\<close>

definition kernel_words ::
  "nat list list \<Rightarrow> nat \<Rightarrow> nat list list \<Rightarrow> nat \<Rightarrow> nat \<Rightarrow> nat \<Rightarrow> nat \<Rightarrow> ustring list \<Rightarrow> ustring list" where
  "kernel_words here port there remote_port st uid inode others =
     [others ! 0, kernel_endpoint here port, kernel_endpoint there remote_port, upper_hex 2 st, others ! 1, others ! 2, others ! 3,
      show_dec uid, others ! 4, show_dec inode] @ drop 5 others"

lemma kernel_row_read:
  assumes "split_whitespace line = kernel_words here port there remote_port st uid inode others"
    and "address_groups family here" "port \<le> u16_max" "remote_port \<le> u16_max" "st \<le> u8_max" "uid \<le> u32_max" "inode \<le> u64_max"
  shows "parse_net_line line family = Some \<lparr>ne_inode = inode, ne_port = port, ne_address = address_text family here,
    ne_remote_port = remote_port, ne_state = state_name st, ne_uid = uid, ne_family = family\<rparr>"
  using assms kernel_endpoint_read [OF assms(2,3)] kernel_remote_port [OF assms(4)]
  by (simp add: parse_net_line_def kernel_words_def parse_upper_hex parse_u32_def ok_value_def show_dec_def parse_unsigned_to_digits)
end
