(* ===== verification/Agent_Processes.thy ===== *)
theory Agent_Processes
  imports Agent_Net
begin

text \<open>
  The other half of the process provider (\<open>android-agent/src/provider/process.rs\<close>): reading a file of a
  process, ending a process, and the handler. The audit lines go to standard error and are left out.
\<close>

section \<open>Parameters\<close>

text \<open>\<open>serde\<close>'s reading of an enumeration without fields: its name, or an object with the name and \<open>null\<close>.\<close>

definition expected_names :: "ustring list \<Rightarrow> ustring" where
  "expected_names names =
     (case names of
        [a] \<Rightarrow> ([96] @ a @ [96])
      | [a, b] \<Rightarrow> ([96] @ a @ [96] @ lit '' or '' @ [96] @ b @ [96])
      | _ \<Rightarrow> (lit ''one of '') @ join (lit '', '') (map (\<lambda>a. ([96] @ a @ [96])) names))"

definition variant_named :: "(ustring \<times> 'v) list \<Rightarrow> ustring \<Rightarrow> de_error + 'v" where
  "variant_named vs s =
     (case map_of vs s of
        Some v \<Rightarrow> Inr v
      | None \<Rightarrow> Inl (Custom_Error (lit ''unknown variant '' @ [96] @ s @ [96] @ lit '', expected '' @ expected_names (map fst vs))))"

fun variant_from :: "(ustring \<times> 'v) list \<Rightarrow> avalue \<Rightarrow> de_error + 'v" where
  "variant_from vs (VString s) = variant_named vs s"
| "variant_from vs (VObject [(k, x)]) = rbind (variant_named vs k) (\<lambda>v. if x = VNull then Inr v else Inl Invalid_Type)"
| "variant_from vs _ = Inl Invalid_Type"

datatype kill_signal = Term_Signal | Kill_Signal

definition KILL_SIGNALS :: "(ustring \<times> kill_signal) list" where
  "KILL_SIGNALS = [((lit ''term''), Term_Signal), ((lit ''kill''), Kill_Signal)]"

fun signal_number :: "kill_signal \<Rightarrow> nat" where
  "signal_number Term_Signal = 15"
| "signal_number Kill_Signal = 9"

fun signal_name :: "kill_signal \<Rightarrow> ustring" where
  "signal_name Term_Signal = (lit ''term'')"
| "signal_name Kill_Signal = (lit ''kill'')"

datatype proc_file = Maps | Cmdline | Status

definition PROC_FILES :: "(ustring \<times> proc_file) list" where
  "PROC_FILES = [((lit ''maps''), Maps), ((lit ''cmdline''), Cmdline), ((lit ''status''), Status)]"

fun proc_file_name :: "proc_file \<Rightarrow> ustring" where
  "proc_file_name Maps = (lit ''maps'')"
| "proc_file_name Cmdline = (lit ''cmdline'')"
| "proc_file_name Status = (lit ''status'')"

record kill_params =
  kp_pid :: nat
  kp_expected_comm :: "ustring option"
  kp_signal :: kill_signal
  kp_require_root :: bool

fun kill_params_from :: "avalue \<Rightarrow> de_error + kill_params" where
  "kill_params_from (VObject obj) =
     rbind (field_from opt_string_from (map_of obj (lit ''expected_comm''))) (\<lambda>comm.
     rbind (field_from (uint_from u32_max) (map_of obj (lit ''pid''))) (\<lambda>pid.
     rbind (field_from bool_from (map_of obj (lit ''require_root''))) (\<lambda>root.
     rbind (field_from (variant_from KILL_SIGNALS) (map_of obj (lit ''signal''))) (\<lambda>signal.
     rbind (ok_or pid (Missing_Field (lit ''pid''))) (\<lambda>pid.
     Inr \<lparr>kp_pid = pid, kp_expected_comm = or_default None comm, kp_signal = or_default Term_Signal signal,
       kp_require_root = or_default False root\<rparr>)))))"
| "kill_params_from (VArray vs) =
     rbind (elem_from (uint_from u32_max) vs 0) (\<lambda>pid.
     rbind (elem_or None opt_string_from vs 1) (\<lambda>comm.
     rbind (elem_or Term_Signal (variant_from KILL_SIGNALS) vs 2) (\<lambda>signal.
     rbind (elem_or False bool_from vs 3) (\<lambda>root.
     at_most 4 vs \<lparr>kp_pid = pid, kp_expected_comm = comm, kp_signal = signal, kp_require_root = root\<rparr>))))"
| "kill_params_from _ = Inl Invalid_Type"

fun proc_read_params_from :: "avalue \<Rightarrow> de_error + nat \<times> proc_file \<times> nat option" where
  "proc_read_params_from (VObject obj) =
     rbind (field_from (variant_from PROC_FILES) (map_of obj (lit ''file''))) (\<lambda>file.
     rbind (field_from opt_u32_from (map_of obj (lit ''max_lines''))) (\<lambda>max_lines.
     rbind (field_from (uint_from u32_max) (map_of obj (lit ''pid''))) (\<lambda>pid.
     rbind (ok_or pid (Missing_Field (lit ''pid''))) (\<lambda>pid.
     rbind (ok_or file (Missing_Field (lit ''file''))) (\<lambda>file.
     Inr (pid, file, or_default None max_lines))))))"
| "proc_read_params_from (VArray vs) =
     rbind (elem_from (uint_from u32_max) vs 0) (\<lambda>pid.
     rbind (elem_from (variant_from PROC_FILES) vs 1) (\<lambda>file.
     rbind (elem_or None opt_u32_from vs 2) (\<lambda>max_lines. at_most 3 vs (pid, file, max_lines))))"
| "proc_read_params_from _ = Inl Invalid_Type"

section \<open>Reading a file of a process\<close>

definition DEFAULT_PROC_LINES :: nat where "DEFAULT_PROC_LINES = 20000"
definition MAX_PROC_LINES :: nat where "MAX_PROC_LINES = 100000"
definition MAX_PROC_BYTES :: nat where "MAX_PROC_BYTES = 32 * 1024 * 1024"

definition proc_path :: "nat \<Rightarrow> proc_file \<Rightarrow> aerror + ustring" where
  "proc_path pid file =
     (if pid = 0 then Inl (agent_error_new Invalid_Request (lit ''pid '' @ [19981, 33021, 26159, 32, 48, 65288, 48, 32, 22312] @ lit '' /proc '' @ [37324, 26159] @ lit '' swapper'' @ [65292, 27809, 26377, 21487, 35835, 30340] @ lit '' maps'' @ [65289]))
      else Inr (PROC @ lit ''/'' @ show_dec pid @ lit ''/'' @ proc_file_name file))"

definition decode_proc_bytes :: "proc_file \<Rightarrow> bytes \<Rightarrow> ustring" where
  "decode_proc_bytes file raw =
     (let t = from_utf8_lossy raw in
      case file of Cmdline \<Rightarrow> trim (map (\<lambda>c. if c = 0 then 32 else c) t) | _ \<Rightarrow> t)"

definition take_lines :: "ustring \<Rightarrow> nat \<Rightarrow> nat \<times> ustring \<times> bool" where
  "take_lines body max_lines =
     (let kept = take max_lines (lines body) in
      (length (lines body), join [10] kept, length kept < length (lines body)))"

record proc_head =
  hd_total :: nat
  hd_returned :: nat
  hd_truncated :: bool
  hd_text :: ustring

datatype shell_read = Shell_Readable proc_head | Shell_Empty proc_head | Shell_Unreadable

definition returned_lines :: "ustring \<Rightarrow> nat" where
  "returned_lines t = (if t = [] then 0 else length (lines t))"

text \<open>\<open>p_head path n\<close> is what opening the file and reading at most \<open>n\<close> bytes of it gives.\<close>

definition read_proc_head :: "'d proc_env \<Rightarrow> ustring \<Rightarrow> proc_file \<Rightarrow> nat \<Rightarrow> 'd \<Rightarrow> shell_read" where
  "read_proc_head env path file max_lines d =
     (case p_head env path (MAX_PROC_BYTES + 1) d of
        None \<Rightarrow> Shell_Unreadable
      | Some raw \<Rightarrow>
          (case take_lines (decode_proc_bytes file (take MAX_PROC_BYTES raw)) max_lines of (counted, t, by_lines) \<Rightarrow>
             let r = \<lparr>hd_total = counted, hd_returned = returned_lines t, hd_truncated = by_lines \<or> MAX_PROC_BYTES < length raw, hd_text = t\<rparr>
             in if raw = [] then Shell_Empty r else Shell_Readable r))"

record proc_output =
  pr_total :: nat
  pr_body :: ustring
  pr_body_truncated :: bool

definition first_index :: "ustring \<Rightarrow> ustring list \<Rightarrow> nat option" where
  "first_index x ls = (let i = length (takeWhile (\<lambda>l. l \<noteq> x) ls) in if i < length ls then Some i else None)"

definition last_index :: "ustring \<Rightarrow> ustring list \<Rightarrow> nat option" where
  "last_index x ls = map_option (\<lambda>i. length ls - 1 - i) (first_index x (rev ls))"

fun int_error_text :: "int_error \<Rightarrow> ustring" where
  "int_error_text IntEmpty = (lit ''cannot parse integer from empty string'')"
| "int_error_text IntInvalidDigit = (lit ''invalid digit found in string'')"
| "int_error_text IntPosOverflow = (lit ''number too large to fit in target type'')"
| "int_error_text IntNegOverflow = (lit ''number too small to fit in target type'')"

definition proc_gone :: aerror where
  "proc_gone = with_details (agent_error_new Not_Found ([36827, 31243, 24050, 32463, 19981, 22312, 20102, 65288] @ lit ''/proc '' @ [19979, 27809, 26377, 36825, 20010] @ lit '' pid'' @ [65289, 65292, 35831, 21047, 26032, 21518, 37325, 35797])) (reason_details (lit ''proc_gone''))"

definition proc_file_missing :: aerror where
  "proc_file_missing = with_details (agent_error_new Not_Found ([36827, 31243, 22312, 65292, 20294] @ lit '' /proc '' @ [19979, 27809, 26377, 36825, 20010, 25991, 20214, 65288, 21487, 33021, 26159, 35813, 36827, 31243, 31867, 22411, 27809, 26377, 36825, 39033, 20869, 23481, 65289]))
     (reason_details (lit ''proc_file_missing''))"

definition parse_proc_read_output :: "'d proc_env \<Rightarrow> ustring \<Rightarrow> aerror + proc_output" where
  "parse_proc_read_output env out =
     (let ls = map trim_end (lines out) in
      case first_index (lit ''ARTPROC_TOTAL'') ls of
        None \<Rightarrow> Inl (agent_error_new Internal ([25552, 26435, 35835, 21462, 30340, 24212, 31572, 24418, 29366, 19981, 23545, 58, 32] @ out))
      | Some i \<Rightarrow>
          let after = drop (i + 1) ls; mark = (if after = [] then [] else hd after) in
          if mark = (lit ''ARTPROC_GONE'') then Inl proc_gone
          else if mark = (lit ''ARTPROC_MISSING'') then Inl proc_file_missing
          else (case parse_signed i64_max (trim mark) of
                  Inl e \<Rightarrow> Inl (agent_error_new Internal ([34892, 25968, 26080, 27861, 35299, 26512, 32] @ fmt_debug (p_device env) (trim mark) @ lit '': '' @ int_error_text e))
                | Inr counted \<Rightarrow>
                    (case first_index (lit ''ARTPROC_BODY'') ls of
                       None \<Rightarrow> Inl (agent_error_new Internal [25552, 26435, 35835, 21462, 27809, 26377, 27491, 25991, 26631, 35760])
                     | Some b \<Rightarrow>
                         (case last_index (lit ''ARTPROC_END'') ls of
                            None \<Rightarrow> Inl (agent_error_new Internal [25552, 26435, 35835, 21462, 27809, 26377, 32467, 26463, 26631, 35760, 65288, 21487, 33021, 34987, 25130, 26029, 65289])
                          | Some e \<Rightarrow>
                              if e < b then Inl (agent_error_new Internal [25552, 26435, 35835, 21462, 30340, 26631, 35760, 39034, 24207, 19981, 23545])
                              else (let raw = join [10] (drop (b + 1) (take e ls)); body = trim_end_with (\<lambda>c. c = 10) raw in
                                    Inr \<lparr>pr_total = nat counted, pr_body = body,
                                      pr_body_truncated = body = [] \<and> length (utf8 raw) \<noteq> length (utf8 body)\<rparr>)))))"

definition proc_read_value :: "ustring \<Rightarrow> proc_file \<Rightarrow> proc_head \<Rightarrow> string \<Rightarrow> avalue" where
  "proc_read_value path file r via =
     VObject [((lit ''file''), VString (proc_file_name file)), ((lit ''path''), VString path), ((lit ''read_via''), VString (lit via)),
       ((lit ''returned_lines''), json_count (hd_returned r)), ((lit ''text''), VString (hd_text r)), ((lit ''total_lines''), json_count (hd_total r)),
       ((lit ''truncated''), VBool (hd_truncated r))]"

definition root_head :: "nat \<Rightarrow> proc_output \<Rightarrow> proc_head" where
  "root_head max_lines r =
     \<lparr>hd_total = pr_total r, hd_returned = returned_lines (pr_body r), hd_truncated = max_lines < pr_total r \<or> pr_body_truncated r,
      hd_text = pr_body r\<rparr>"

definition clamp_lines :: "nat option \<Rightarrow> nat" where
  "clamp_lines wanted = min MAX_PROC_LINES (max 1 (or_default DEFAULT_PROC_LINES wanted))"

definition proc_read_as_root :: "'d proc_env \<Rightarrow> nat \<Rightarrow> proc_file \<Rightarrow> ustring \<Rightarrow> nat \<Rightarrow> ('d, avalue) action" where
  "proc_read_as_root env pid file path max_lines =
     abind (run_privileged (p_device env) ([35835, 21462] @ lit '' /proc '' @ [35814, 24773]) (proc_read_script pid (proc_file_name file) max_lines MAX_PROC_BYTES)
       PROC_READ_SENTINEL) (\<lambda>out.
     abind (alift (parse_proc_read_output env out)) (\<lambda>r.
     areturn (proc_read_value path file (root_head max_lines r) ''root'')))"

definition proc_read :: "'d proc_env \<Rightarrow> avalue \<Rightarrow> ('d, avalue) action" where
  "proc_read env params =
     abind (alift (process_params env proc_read_params_from params)) (\<lambda>(pid, file, wanted).
     abind (alift (proc_path pid file)) (\<lambda>path.
     let max_lines = clamp_lines wanted in
     asking (read_proc_head env path file max_lines) (\<lambda>seen.
     case seen of
       Shell_Readable r \<Rightarrow> areturn (proc_read_value path file r ''shell'')
     | Shell_Empty r \<Rightarrow> if file \<noteq> Maps then areturn (proc_read_value path file r ''shell'') else proc_read_as_root env pid file path max_lines
     | Shell_Unreadable \<Rightarrow> proc_read_as_root env pid file path max_lines)))"

section \<open>Who a process is\<close>

record identity =
  id_comm :: "ustring option"
  id_cmdline :: "ustring option"
  id_uid :: "nat option"

fun find_map :: "('a \<Rightarrow> 'b option) \<Rightarrow> 'a list \<Rightarrow> 'b option" where
  "find_map f [] = None"
| "find_map f (x # xs) = (case f x of None \<Rightarrow> find_map f xs | Some y \<Rightarrow> Some y)"

definition uid_of_line :: "ustring \<Rightarrow> nat option" where
  "uid_of_line line =
     (case strip_prefix (lit ''Uid:'') line of
        None \<Rightarrow> None
      | Some rest \<Rightarrow> (case split_whitespace rest of [] \<Rightarrow> None | w # _ \<Rightarrow> parse_u32 (trim w)))"

definition parse_status_uid :: "ustring \<Rightarrow> nat option" where
  "parse_status_uid status = find_map uid_of_line (lines status)"

definition effective_uid :: "'d proc_env \<Rightarrow> 'd \<Rightarrow> nat option" where
  "effective_uid env d =
     Option.bind (ok_value (read_text env (PROC @ lit ''/self/status'') d)) parse_status_uid"

definition read_process_identity :: "'d proc_env \<Rightarrow> nat \<Rightarrow> 'd \<Rightarrow> identity option" where
  "read_process_identity env pid d =
     (let comm = read_trimmed env (proc_of pid ''comm'') d;
          cmdline = read_cmdline env (proc_of pid ''cmdline'') d;
          uid = Option.bind (ok_value (read_text env (proc_of pid ''status'') d)) parse_status_uid
      in if comm = None \<and> cmdline = None \<and> uid = None then None
         else Some \<lparr>id_comm = comm, id_cmdline = cmdline, id_uid = uid\<rparr>)"

text \<open>The file name of the program of a command line.\<close>

definition program_of :: "identity \<Rightarrow> ustring" where
  "program_of ident =
     (case id_cmdline ident of
        None \<Rightarrow> []
      | Some line \<Rightarrow> (case split_whitespace line of [] \<Rightarrow> [] | w # _ \<Rightarrow> rev (takeWhile (\<lambda>c. c \<noteq> 47) (rev w))))"

definition guard_identity :: "kill_params \<Rightarrow> identity option \<Rightarrow> aerror + unit" where
  "guard_identity p ident =
     (case kp_expected_comm p of
        None \<Rightarrow> Inr ()
      | Some raw \<Rightarrow>
          if trim raw = [] then Inr ()
          else (case ident of
                  None \<Rightarrow> Inr ()
                | Some ident \<Rightarrow>
                    let actual = or_default [] (id_comm ident); program = program_of ident in
                    if actual = trim raw \<or> program = trim raw then Inr ()
                    else Inl (with_details (agent_error_new Precondition_Failed (lit ''pid='' @ show_dec (kp_pid p) @ [32, 30340, 36523, 20221, 19982, 39044, 26399, 19981, 31526, 65292, 24050, 25298, 32477, 32456, 27490]))
                      (VObject [((lit ''actual_comm''), VString actual), ((lit ''actual_program''), VString program), ((lit ''expected''), VString (trim raw)),
                        ((lit ''reason''), VString (lit ''identity_mismatch''))]))))"

section \<open>Ending a process\<close>

datatype signal_result = Signal_Sent | Signal_Gone | Signal_Denied | Signal_Failed int

definition EPERM :: int where "EPERM = 1"
definition ESRCH :: int where "ESRCH = 3"
definition EACCES :: int where "EACCES = 13"
definition EINVAL :: int where "EINVAL = 22"
definition i32_max :: nat where "i32_max = 2147483647"

text \<open>\<open>p_kill\<close> is the system call: nothing when it returned zero, else what \<open>errno\<close> holds.\<close>

definition send_signal :: "'d proc_env \<Rightarrow> nat \<Rightarrow> kill_signal \<Rightarrow> 'd \<Rightarrow> signal_result \<times> 'd" where
  "send_signal env pid signal d =
     (if i32_max < pid \<or> pid = 0 then (Signal_Failed EINVAL, d)
      else case p_kill env pid (signal_number signal) d of
          (None, d') \<Rightarrow> (Signal_Sent, d')
        | (Some None, d') \<Rightarrow> (Signal_Failed (-1), d')
        | (Some (Some errno), d') \<Rightarrow>
            (if errno = ESRCH then Signal_Gone else if errno = EPERM \<or> errno = EACCES then Signal_Denied else Signal_Failed errno, d'))"

definition KILL_VERIFY_TIMEOUT :: nat where "KILL_VERIFY_TIMEOUT = 1500 * 10 ^ 6"
definition KILL_VERIFY_POLL :: nat where "KILL_VERIFY_POLL = 50 * 10 ^ 6"

definition proc_dir_of :: "nat \<Rightarrow> ustring" where
  "proc_dir_of pid = (PROC @ lit ''/'' @ show_dec pid)"

definition is_zombie :: "'d proc_env \<Rightarrow> nat \<Rightarrow> 'd \<Rightarrow> bool" where
  "is_zombie env pid d =
     (case read_text env (proc_of pid ''status'') d of
        Inl _ \<Rightarrow> False
      | Inr status \<Rightarrow> list_ex (\<lambda>line. starts_with line (lit ''State:'' @ [9, 90])) (lines status))"

partial_function (option) confirm_dead :: "'d proc_env \<Rightarrow> nat \<Rightarrow> instant \<Rightarrow> ('d, bool) action" where
  "confirm_dead env pid started s =
     (if \<not> p_exists env (proc_dir_of pid) (device s) then Some (Inr True, s)
      else if is_zombie env pid (device s) then Some (Inr True, s)
      else if KILL_VERIFY_TIMEOUT \<le> clock (p_device env) (device s) - started then Some (Inr False, s)
      else confirm_dead env pid started (s\<lparr>device := pause (p_device env) KILL_VERIFY_POLL (device s)\<rparr>))"

datatype kill_outcome = Signaled | Already_Gone

fun kill_outcome_name :: "kill_outcome \<Rightarrow> ustring" where
  "kill_outcome_name Signaled = (lit ''signaled'')"
| "kill_outcome_name Already_Gone = (lit ''already_gone'')"

record kill_report =
  kr_outcome :: kill_outcome
  kr_identity :: "identity option"
  kr_root :: bool
  kr_dead :: bool
  kr_detail :: ustring

definition kill_value :: "kill_params \<Rightarrow> kill_report \<Rightarrow> avalue" where
  "kill_value p r =
     VObject (opt_field ''cmdline'' VString (Option.bind (kr_identity r) id_cmdline) @
       opt_field ''comm'' VString (Option.bind (kr_identity r) id_comm) @
       [((lit ''detail''), VString (kr_detail r)), ((lit ''outcome''), VString (kill_outcome_name (kr_outcome r))), ((lit ''pid''), json_count (kp_pid p)),
        ((lit ''ran_as_root''), VBool (kr_root r)), ((lit ''signal''), VString (signal_name (kp_signal p)))] @
       opt_field ''uid'' json_count (Option.bind (kr_identity r) id_uid) @ flag_field ''verified_dead'' (kr_dead r))"

fun kill_detail :: "kill_outcome \<Rightarrow> bool \<Rightarrow> ustring" where
  "kill_detail Signaled False = (lit ''signal_sent_not_confirmed'')"
| "kill_detail Signaled True = (lit ''signal_sent_confirmed'')"
| "kill_detail Already_Gone _ = (lit ''process_not_running'')"

definition direct_report :: "identity option \<Rightarrow> bool \<Rightarrow> kill_outcome \<Rightarrow> bool \<Rightarrow> kill_report" where
  "direct_report ident as_root res dead =
     \<lparr>kr_outcome = res, kr_identity = ident, kr_root = as_root, kr_dead = dead, kr_detail = kill_detail res dead\<rparr>"

definition opt_value :: "('a \<Rightarrow> avalue) \<Rightarrow> 'a option \<Rightarrow> avalue" where
  "opt_value f x = (case x of None \<Rightarrow> VNull | Some v \<Rightarrow> f v)"

definition kill_denied :: "kill_params \<Rightarrow> identity option \<Rightarrow> nat option \<Rightarrow> aerror" where
  "kill_denied p ident own =
     with_details (agent_error_new Permission_Denied ([26080, 26435, 38480, 32456, 27490] @ lit '' pid='' @ show_dec (kp_pid p)))
       (VObject [((lit ''agent_uid''), json_count (or_default u32_max own)), ((lit ''reason''), VString (lit ''not_owner'')),
         ((lit ''target_uid''), opt_value json_count (Option.bind ident id_uid))])"

definition kill_failed :: "kill_params \<Rightarrow> identity option \<Rightarrow> int \<Rightarrow> aerror" where
  "kill_failed p ident errno =
     with_details (agent_error_new Internal (lit ''kill '' @ [22833, 36133] @ lit '' pid='' @ show_dec (kp_pid p) @ lit '' errno='' @ show_int errno))
       (VObject [((lit ''comm''), VString (or_default [] (Option.bind ident id_comm))), ((lit ''uid''), opt_value json_count (Option.bind ident id_uid))])"

definition kill_directly :: "'d proc_env \<Rightarrow> kill_params \<Rightarrow> bool \<Rightarrow> identity option \<Rightarrow> ('d, kill_report) action" where
  "kill_directly env p as_root ident =
     abind (on_device (send_signal env (kp_pid p) (kp_signal p))) (\<lambda>r.
     case r of
       Signal_Gone \<Rightarrow> areturn (direct_report ident as_root Already_Gone True)
     | Signal_Denied \<Rightarrow> asking (effective_uid env) (\<lambda>own. athrow (kill_denied p ident own))
     | Signal_Failed errno \<Rightarrow> athrow (kill_failed p ident errno)
     | Signal_Sent \<Rightarrow>
         asking (clock (p_device env)) (\<lambda>started.
         abind (confirm_dead env (kp_pid p) started) (\<lambda>dead. areturn (direct_report ident as_root Signaled dead))))"

text \<open>What the script of a root kill concluded.\<close>

definition is_verdict :: "ustring \<Rightarrow> bool" where
  "is_verdict line \<longleftrightarrow> starts_with line (lit ''KILLED'') \<or> starts_with line (lit ''STILL_ALIVE'') \<or> starts_with line (lit ''KILL_GONE'') \<or> starts_with line (lit ''KILL_MISMATCH'')"

definition verdict_of :: "ustring \<Rightarrow> ustring" where
  "verdict_of out = or_default [] (List.find is_verdict (map trim (lines out)))"

definition judge_verdict :: "'d proc_env \<Rightarrow> kill_params \<Rightarrow> ustring \<Rightarrow> ustring \<Rightarrow> aerror + kill_outcome \<times> bool" where
  "judge_verdict env p comm out =
     (let verdict = verdict_of out in
      if verdict = (lit ''KILL_GONE'') then Inr (Already_Gone, True)
      else if verdict = (lit ''KILLED'') then Inr (Signaled, True)
      else if verdict = (lit ''STILL_ALIVE'') then Inr (Signaled, False)
      else case strip_prefix (lit ''KILL_MISMATCH'') verdict of
          Some actual \<Rightarrow>
            Inl (with_details (agent_error_new Precondition_Failed
              (lit ''pid='' @ show_dec (kp_pid p) @ [32, 29616, 22312, 30340, 36827, 31243, 21517, 26159, 32] @ fmt_debug (p_device env) (trim actual) @ [65292, 19982, 26399, 26395, 30340, 32] @ fmt_debug (p_device env) comm @ [32, 19981, 19968, 33268, 65288] @ lit ''PID '' @ [21487, 33021, 24050, 34987, 22797, 29992, 65289, 65307, 27809, 26377, 21457, 36865, 20219, 20309, 20449, 21495]))
              (VObject [((lit ''actual_comm''), VString (trim actual)), ((lit ''expected_comm''), VString comm), ((lit ''reason''), VString (lit ''identity_mismatch''))]))
        | None \<Rightarrow> Inl (agent_error_new Internal ([25552, 26435, 32456, 27490, 27809, 26377, 22238, 26377, 25928, 32467, 35770, 58, 32] @ out)))"

definition kill_via_su :: "'d proc_env \<Rightarrow> kill_params \<Rightarrow> identity option \<Rightarrow> ('d, kill_report) action" where
  "kill_via_su env p ident =
     (case ident of
        None \<Rightarrow> areturn \<lparr>kr_outcome = Already_Gone, kr_identity = None, kr_root = True, kr_dead = True, kr_detail = (lit ''process_not_running'')\<rparr>
      | Some who \<Rightarrow>
          abind (alift (guard_identity p ident)) (\<lambda>_.
          let comm = or_default [] (id_comm who) in
          abind (alift (validate_comm (fmt_debug (p_device env)) comm)) (\<lambda>_.
          abind (run_privileged (p_device env) [32456, 27490, 36827, 31243] (kill_verified_script (kp_pid p) comm) KILL_SENTINEL) (\<lambda>out.
          abind (alift (judge_verdict env p comm out)) (\<lambda>(res, dead).
          areturn \<lparr>kr_outcome = res, kr_identity = Some (who\<lparr>id_comm := Some comm\<rparr>), kr_root = True, kr_dead = dead,
            kr_detail = (lit ''su_script:'' @ verdict_of out)\<rparr>)))))"

definition check_pid :: "'d proc_env \<Rightarrow> kill_params \<Rightarrow> aerror + unit" where
  "check_pid env p =
     (if kp_pid p = 0 then Inl (agent_error_new Invalid_Request (lit ''pid=0 '' @ [20250, 21629, 20013, 25972, 20010, 36827, 31243, 32452, 65292, 31105, 27490, 36890, 36807] @ lit '' Agent '' @ [32456, 27490]))
      else if kp_pid p = 1 then Inl (agent_error_new Invalid_Request ([31105, 27490, 32456, 27490] @ lit '' init'' @ [65288] @ lit ''pid=1'' @ [65289]))
      else if kp_pid p = p_self env then Inl (agent_error_new Invalid_Request ([31105, 27490, 32456, 27490] @ lit '' Agent '' @ [33258, 36523, 65292, 35831, 20351, 29992] @ lit '' Agent '' @ [31649, 29702, 20837, 21475, 20572, 27490, 20250, 35805]))
      else Inr ())"

definition end_process :: "'d proc_env \<Rightarrow> kill_params \<Rightarrow> ('d, kill_report) action" where
  "end_process env p =
     abind (alift (check_pid env p)) (\<lambda>_.
     asking (\<lambda>d. effective_uid env d = Some 0) (\<lambda>as_root.
     asking (read_process_identity env (kp_pid p)) (\<lambda>ident.
     if kp_require_root p \<and> \<not> as_root then kill_via_su env p ident
     else abind (alift (guard_identity p ident)) (\<lambda>_. kill_directly env p as_root ident))))"

definition kill :: "'d proc_env \<Rightarrow> avalue \<Rightarrow> ('d, avalue) action" where
  "kill env params =
     abind (alift (process_params env kill_params_from params)) (\<lambda>p.
     abind (end_process env p) (\<lambda>r. areturn (kill_value p r)))"

section \<open>The handler\<close>

definition PROCESS_METHODS :: "ustring list" where
  "PROCESS_METHODS = [(lit ''process.ports''), (lit ''process.by_port''), (lit ''process.kill''), (lit ''process.proc_read'')]"

definition process_handle :: "'d proc_env \<Rightarrow> ustring \<Rightarrow> avalue \<Rightarrow> ('d, avalue) action" where
  "process_handle env meth params =
     (if meth = (lit ''process.ports'') then reading (ports env params)
      else if meth = (lit ''process.by_port'') then reading (by_port env params)
      else if meth = (lit ''process.kill'') then kill env params
      else if meth = (lit ''process.proc_read'') then proc_read env params
      else athrow (agent_error_new Unsupported_Method (lit ''unsupported process method: '' @ meth)))"

section \<open>Every request returns\<close>

lemma confirm_dead_ends:
  assumes "clock_ok (p_device env)" "started + KILL_VERIFY_TIMEOUT \<le> clock (p_device env) (device s) + k * KILL_VERIFY_POLL"
  shows "confirm_dead env pid started s \<noteq> None"
  using assms(2)
proof (induction k arbitrary: s)
  case 0
  then show ?case by (subst confirm_dead.simps) auto
next
  case (Suc k)
  have "clock (p_device env) (device s) + KILL_VERIFY_POLL \<le> clock (p_device env) (pause (p_device env) KILL_VERIFY_POLL (device s))"
    using assms(1) by (auto simp: clock_ok_def)
  with Suc.prems have "confirm_dead env pid started (s\<lparr>device := pause (p_device env) KILL_VERIFY_POLL (device s)\<rparr>) \<noteq> None"
    by (intro Suc.IH) simp
  then show ?case by (subst confirm_dead.simps) auto
qed

lemma asking_started_ends [ending]:
  assumes "clock_ok (p_device env)" "\<And>dead. ends (f dead)"
  shows "ends (asking (clock (p_device env)) (\<lambda>started. abind (confirm_dead env pid started) f))"
  unfolding ends_def asking_def
proof
  fix s
  have "confirm_dead env pid (clock (p_device env) (device s)) s \<noteq> None"
    by (rule confirm_dead_ends [OF assms(1), where k = 30]) (simp add: KILL_VERIFY_TIMEOUT_def KILL_VERIFY_POLL_def)
  with assms(2) show "abind (confirm_dead env pid (clock (p_device env) (device s))) f s \<noteq> None"
    by (auto simp: abind_def ends_def split: sum.splits)
qed

lemma process_returns:
  assumes "clock_ok (p_device env)"
  shows "process_handle env meth params s \<noteq> None"
proof -
  have direct: "ends (kill_directly env p as_root ident)" for p as_root ident
  proof -
    have sent: "ends (asking (clock (p_device env)) (\<lambda>started. abind (confirm_dead env (kp_pid p) started)
        (\<lambda>dead. areturn (direct_report ident as_root Signaled dead))))"
      by (rule asking_started_ends [OF assms]) (intro ending)
    have "ends (case r of Signal_Gone \<Rightarrow> areturn (direct_report ident as_root Already_Gone True)
       | Signal_Denied \<Rightarrow> asking (effective_uid env) (\<lambda>own. athrow (kill_denied p ident own))
       | Signal_Failed errno \<Rightarrow> athrow (kill_failed p ident errno)
       | Signal_Sent \<Rightarrow> asking (clock (p_device env)) (\<lambda>started. abind (confirm_dead env (kp_pid p) started)
           (\<lambda>dead. areturn (direct_report ident as_root Signaled dead))))" for r
      using sent by (cases r) (simp_all, (intro ending)+)
    then show ?thesis unfolding kill_directly_def by (intro ending)
  qed
  have su: "ends (kill_via_su env p ident)" for p ident
    unfolding kill_via_su_def Let_def by (intro ending)
  have "ends (kill env params)"
    unfolding kill_def end_process_def by (intro ending direct su)
  moreover have "ends (proc_read_as_root env pid f path max_lines)" for pid f path max_lines
    unfolding proc_read_as_root_def by (intro ending)
  then have "ends (proc_read env params)"
    unfolding proc_read_def Let_def by (auto intro!: ending split: shell_read.split)
  ultimately have "ends (process_handle env meth params)" unfolding process_handle_def by (intro ending)
  then show ?thesis by (simp add: ends_def)
qed

section \<open>What a kill does to the device\<close>

datatype proc_call = Signal_Call nat nat | Command_Call ustring "ustring list"

definition noting_command :: "'d device_env \<Rightarrow> ('d \<times> proc_call list) device_env" where
  "noting_command env = \<lparr>
     command = (\<lambda>p args (d, l). case command env p args d of (r, d') \<Rightarrow> (r, d', l @ [Command_Call p args])),
     timed_command = (\<lambda>t p args (d, l). case timed_command env t p args d of (r, d') \<Rightarrow> (r, d', l @ [Command_Call p args])),
     read_file = (\<lambda>path (d, l). read_file env path d),
     clock = (\<lambda>(d, l). clock env d), pause = (\<lambda>n (d, l). (pause env n d, l)),
     entries_order = entries_order env, de_text = de_text env, fmt_debug = fmt_debug env\<rparr>"

definition proc_logged :: "'d proc_env \<Rightarrow> ('d \<times> proc_call list) proc_env" where
  "proc_logged env = \<lparr>
     p_device = noting_command (p_device env),
     p_read = (\<lambda>path (d, l). p_read env path d), p_head = (\<lambda>path n (d, l). p_head env path n d),
     p_dir = (\<lambda>path (d, l). p_dir env path d), p_link = (\<lambda>path (d, l). p_link env path d),
     p_exists = (\<lambda>path (d, l). p_exists env path d), p_self = p_self env,
     p_kill = (\<lambda>pid sig (d, l). case p_kill env pid sig d of (r, d') \<Rightarrow> (r, d', l @ [Signal_Call pid sig]))\<rparr>"

lemma proc_logged_reads:
  "read_text (proc_logged env) path dl = read_text env path (fst dl)"
  "read_trimmed (proc_logged env) path dl = read_trimmed env path (fst dl)"
  "read_cmdline (proc_logged env) path dl = read_cmdline env path (fst dl)"
  "read_process_identity (proc_logged env) pid dl = read_process_identity env pid (fst dl)"
  "effective_uid (proc_logged env) dl = effective_uid env (fst dl)"
  "process_params (proc_logged env) from v = process_params env from v"
  "check_pid (proc_logged env) p = check_pid env p"
  by (cases dl; simp add: read_text_def read_trimmed_def read_cmdline_def read_process_identity_def effective_uid_def
      proc_logged_def process_params_def check_pid_def noting_command_def)+

lemma confirm_dead_result:
  assumes "confirm_dead env pid started s = Some y"
  shows "\<exists>b. fst y = Inr b \<and> (b \<longrightarrow> \<not> p_exists env (proc_dir_of pid) (device (snd y)) \<or> is_zombie env pid (device (snd y)))"
proof (rule confirm_dead.raw_induct [OF _ assms, where P = "\<lambda>env pid started s y.
    \<exists>b. fst y = Inr b \<and> (b \<longrightarrow> \<not> p_exists env (proc_dir_of pid) (device (snd y)) \<or> is_zombie env pid (device (snd y)))"])
  fix f env pid started and s :: "'a agent_state" and y
  assume IH: "\<And>env pid started (s :: 'a agent_state) y. f env pid started s = Some y \<Longrightarrow>
      \<exists>b. fst y = Inr b \<and> (b \<longrightarrow> \<not> p_exists env (proc_dir_of pid) (device (snd y)) \<or> is_zombie env pid (device (snd y)))"
    and step: "(if \<not> p_exists env (proc_dir_of pid) (device s) then Some (Inr True, s)
      else if is_zombie env pid (device s) then Some (Inr True, s)
      else if KILL_VERIFY_TIMEOUT \<le> clock (p_device env) (device s) - started then Some (Inr False, s)
      else f env pid started (s\<lparr>device := pause (p_device env) KILL_VERIFY_POLL (device s)\<rparr>)) = Some y"
  from step IH show "\<exists>b. fst y = Inr b \<and> (b \<longrightarrow> \<not> p_exists env (proc_dir_of pid) (device (snd y)) \<or> is_zombie env pid (device (snd y)))"
    by (auto split: if_splits)
qed

lemma confirm_dead_quiet:
  assumes "confirm_dead (proc_logged env) pid started s = Some y"
  shows "snd (device (snd y)) = snd (device s)"
proof -
  have "proc_logged env = proc_logged env \<longrightarrow> snd (device (snd y)) = snd (device s)"
  proof (rule confirm_dead.raw_induct [OF _ assms, where P = "\<lambda>e pid started s y.
      e = proc_logged env \<longrightarrow> snd (device (snd y)) = snd (device s)"], intro impI)
    fix f e pid started and s :: "('a \<times> proc_call list) agent_state" and y
    assume IH: "\<And>e pid started (s :: ('a \<times> proc_call list) agent_state) y. f e pid started s = Some y \<Longrightarrow>
        e = proc_logged env \<longrightarrow> snd (device (snd y)) = snd (device s)"
      and step: "(if \<not> p_exists e (proc_dir_of pid) (device s) then Some (Inr True, s)
        else if is_zombie e pid (device s) then Some (Inr True, s)
        else if KILL_VERIFY_TIMEOUT \<le> clock (p_device e) (device s) - started then Some (Inr False, s)
        else f e pid started (s\<lparr>device := pause (p_device e) KILL_VERIFY_POLL (device s)\<rparr>)) = Some y"
      and e: "e = proc_logged env"
    have "snd (pause (p_device e) KILL_VERIFY_POLL (device s)) = snd (device s)"
      by (cases "device s") (simp add: e proc_logged_def noting_command_def)
    then have "f e pid started (s\<lparr>device := pause (p_device e) KILL_VERIFY_POLL (device s)\<rparr>) = Some y \<Longrightarrow>
        snd (device (snd y)) = snd (device s)"
      using IH [of e pid started "s\<lparr>device := pause (p_device e) KILL_VERIFY_POLL (device s)\<rparr>" y] e by simp
    with step show "snd (device (snd y)) = snd (device s)" by (auto split: if_splits)
  qed
  then show ?thesis by simp
qed

definition identity_agrees :: "kill_params \<Rightarrow> identity option \<Rightarrow> bool" where
  "identity_agrees p ident \<longleftrightarrow>
     (\<forall>wanted who. kp_expected_comm p = Some wanted \<longrightarrow> trim wanted \<noteq> [] \<longrightarrow> ident = Some who \<longrightarrow>
        id_comm who = Some (trim wanted) \<or> program_of who = trim wanted)"

lemma guard_identity_agrees: "guard_identity p ident = Inr u \<Longrightarrow> identity_agrees p ident"
  by (auto simp: guard_identity_def identity_agrees_def or_default_def Let_def split: option.splits if_splits)

lemma check_pid_ok: "check_pid env p = Inr u \<Longrightarrow> kp_pid p \<noteq> 0 \<and> kp_pid p \<noteq> 1 \<and> kp_pid p \<noteq> p_self env"
  by (auto simp: check_pid_def split: if_splits)

lemma send_signal_calls:
  "on_device (send_signal (proc_logged env) pid sig) s = Some (r, s') \<Longrightarrow>
     pid \<noteq> 0 \<Longrightarrow> device s' = device s \<or> snd (device s') = snd (device s) @ [Signal_Call pid (signal_number sig)]"
  by (cases "device s") (auto simp: on_device_def send_signal_def proc_logged_def split: if_splits option.splits prod.splits)

lemma run_privileged_calls:
  "run_privileged (p_device (proc_logged env)) step script expect s = Some (r, s') \<Longrightarrow>
     snd (device s') = snd (device s) @ [Command_Call SU [(lit ''-c''), script]]"
  by (cases "device s") (auto simp: run_privileged_def on_device_def proc_logged_def noting_command_def abind_def athrow_def alift_def
      split: option.splits sum.splits prod.splits)

definition one_call :: "('d \<times> proc_call list) agent_state \<Rightarrow> ('d \<times> proc_call list) agent_state \<Rightarrow> (proc_call \<Rightarrow> bool) \<Rightarrow> bool" where
  "one_call s s' P \<longleftrightarrow> snd (device s') = snd (device s) \<or> (\<exists>c. snd (device s') = snd (device s) @ [c] \<and> P c)"

lemma kill_directly_calls:
  assumes "kill_directly (proc_logged env) p as_root ident s = Some (r, s')" "kp_pid p \<noteq> 0"
  shows "one_call s s' (\<lambda>c. c = Signal_Call (kp_pid p) (signal_number (kp_signal p)))"
proof -
  obtain r1 s1 where sent: "on_device (send_signal (proc_logged env) (kp_pid p) (kp_signal p)) s = Some (Inr r1, s1)"
    by (cases "send_signal (proc_logged env) (kp_pid p) (kp_signal p) (device s)") (auto simp: on_device_def)
  have "snd (device s') = snd (device s1)"
    using assms(1) sent confirm_dead_quiet [of env "kp_pid p"]
    by (cases r1) (fastforce simp: kill_directly_def abind_def asking_def areturn_def athrow_def split: option.splits sum.splits)+
  with send_signal_calls [OF sent assms(2)] show ?thesis by (auto simp: one_call_def)
qed

lemma kill_via_su_calls:
  assumes "kill_via_su (proc_logged env) p ident s = Some (r, s')"
  shows "one_call s s' (\<lambda>c. \<exists>who comm. ident = Some who \<and> identity_agrees p ident \<and> comm = or_default [] (id_comm who) \<and> comm \<noteq> [] \<and>
    inert comm \<and> c = Command_Call SU [(lit ''-c''), kill_verified_script (kp_pid p) comm])"
proof (cases ident)
  case None
  with assms show ?thesis by (simp add: kill_via_su_def areturn_def one_call_def)
next
  case (Some who)
  let ?comm = "or_default [] (id_comm who)"
  show ?thesis
  proof (cases "guard_identity p ident = Inr () \<and> validate_comm (fmt_debug (p_device (proc_logged env))) ?comm = Inr ()")
    case False
    with assms Some show ?thesis
      by (cases "guard_identity p ident"; cases "validate_comm (fmt_debug (p_device (proc_logged env))) ?comm")
        (auto simp: kill_via_su_def abind_def alift_def athrow_def one_call_def Let_def)
  next
    case True
    let ?run = "run_privileged (p_device (proc_logged env)) [32456, 27490, 36827, 31243] (kill_verified_script (kp_pid p) ?comm) KILL_SENTINEL"
    obtain r1 s1 where su: "?run s = Some (r1, s1)" using run_privileged_ends by (metis ends_def not_None_eq surj_pair)
    have "device s' = device s1"
      using assms True Some su
      by (auto simp: kill_via_su_def abind_def alift_def areturn_def Let_def split: sum.splits)
    with run_privileged_calls [OF su] True Some guard_identity_agrees [of p ident] validate_comm_inert show ?thesis
      by (auto simp: one_call_def validate_comm_def split: if_splits)
  qed
qed

text \<open>
  A kill makes at most one call that changes anything, never for the process group, for \<open>init\<close> or for the
  agent itself, and only when the identity that can be read is the expected one.
\<close>

definition allowed_kill :: "'d proc_env \<Rightarrow> kill_params \<Rightarrow> 'd \<Rightarrow> proc_call \<Rightarrow> bool" where
  "allowed_kill env p d c \<longleftrightarrow>
     kp_pid p \<noteq> 0 \<and> kp_pid p \<noteq> 1 \<and> kp_pid p \<noteq> p_self env \<and> identity_agrees p (read_process_identity env (kp_pid p) d) \<and>
     (c = Signal_Call (kp_pid p) (signal_number (kp_signal p)) \<and> (kp_require_root p \<longrightarrow> effective_uid env d = Some 0) \<or>
      (\<exists>comm. c = Command_Call SU [(lit ''-c''), kill_verified_script (kp_pid p) comm] \<and> kp_require_root p \<and> effective_uid env d \<noteq> Some 0 \<and>
         Option.bind (read_process_identity env (kp_pid p) d) id_comm = Some comm \<and>
         shell_frame (kill_verified_script (kp_pid p) comm) = shell_frame (kill_verified_script 0 [])))"

lemma one_call_weaken: "one_call s s' P \<Longrightarrow> (\<And>c. P c \<Longrightarrow> Q c) \<Longrightarrow> one_call s s' Q"
  by (auto simp: one_call_def)

lemma end_process_calls:
  assumes "end_process (proc_logged env) p s = Some (r, s')"
  shows "one_call s s' (allowed_kill env p (fst (device s)))"
proof (cases "check_pid env p")
  case (Inl e)
  with assms show ?thesis by (simp add: end_process_def proc_logged_reads athrow_def one_call_def)
next
  case (Inr u)
  then have pid: "kp_pid p \<noteq> 0" "kp_pid p \<noteq> 1" "kp_pid p \<noteq> p_self env" by (auto dest: check_pid_ok)
  let ?root = "effective_uid env (fst (device s)) = Some 0" and ?ident = "read_process_identity env (kp_pid p) (fst (device s))"
  show ?thesis
  proof (cases "kp_require_root p \<and> \<not> ?root")
    case True
    with assms Inr have "kill_via_su (proc_logged env) p ?ident s = Some (r, s')"
      by (simp add: end_process_def proc_logged_reads asking_def)
    from kill_via_su_calls [OF this] show ?thesis
    proof (rule one_call_weaken)
      fix c
      assume "\<exists>who comm. ?ident = Some who \<and> identity_agrees p ?ident \<and> comm = or_default [] (id_comm who) \<and> comm \<noteq> [] \<and>
        inert comm \<and> c = Command_Call SU [(lit ''-c''), kill_verified_script (kp_pid p) comm]"
      then obtain who comm where who: "?ident = Some who" "identity_agrees p ?ident" "comm = or_default [] (id_comm who)" "comm \<noteq> []"
        "c = Command_Call SU [(lit ''-c''), kill_verified_script (kp_pid p) comm]" and "inert comm" by blast
      from this(6) have frame: "shell_frame (kill_verified_script (kp_pid p) comm) = shell_frame (kill_verified_script 0 [])"
        by (rule kill_script_structure)
      have named: "Option.bind ?ident id_comm = Some comm" using who(1,3,4) by (simp add: or_default_def split: option.splits)
      from True have asked: "kp_require_root p" and own: "effective_uid env (fst (device s)) \<noteq> Some 0" by simp_all
      show "allowed_kill env p (fst (device s)) c"
        unfolding allowed_kill_def by (intro conjI disjI2 exI [of _ comm]) (fact pid who(2,5) asked own named frame)+
    qed
  next
    case False
    with assms Inr have m: "abind (alift (guard_identity p ?ident)) (\<lambda>_. kill_directly (proc_logged env) p ?root ?ident) s = Some (r, s')"
      by (simp add: end_process_def proc_logged_reads asking_def)
    show ?thesis
    proof (cases "guard_identity p ?ident")
      case (Inl e)
      with m show ?thesis by (simp add: athrow_def one_call_def)
    next
      case guard: (Inr u)
      with m have "kill_directly (proc_logged env) p ?root ?ident s = Some (r, s')" by simp
      from kill_directly_calls [OF this pid(1)] show ?thesis
        by (rule one_call_weaken) (use False pid guard_identity_agrees [OF guard] in \<open>auto simp: allowed_kill_def\<close>)
    qed
  qed
qed

section \<open>What a report of a kill says is so\<close>

definition report_true :: "'d proc_env \<Rightarrow> kill_params \<Rightarrow> 'd \<Rightarrow> 'd \<Rightarrow> kill_report \<Rightarrow> bool" where
  "report_true env p d d' r \<longleftrightarrow>
     (kr_root r \<longrightarrow> effective_uid env d = Some 0 \<or> kp_require_root p) \<and>
     (kr_dead r \<longrightarrow>
        read_process_identity env (kp_pid p) d = None \<and> d' = d \<or>
        \<not> p_exists env (proc_dir_of (kp_pid p)) d' \<or> is_zombie env (kp_pid p) d' \<or>
        send_signal env (kp_pid p) (kp_signal p) d = (Signal_Gone, d') \<or>
        (\<exists>comm res. timed_command (p_device env) SU_TIMEOUT SU [(lit ''-c''), kill_verified_script (kp_pid p) comm] d = (Some (Inr res), d') \<and>
           success res \<and> verdict_of (trim (from_utf8_lossy (stdout res))) \<in> {(lit ''KILLED''), (lit ''KILL_GONE'')}))"

lemma kill_directly_true:
  assumes "kill_directly env p as_root ident s = Some (Inr r, s')"
  shows "kr_root r = as_root \<and> (kr_dead r \<longrightarrow> \<not> p_exists env (proc_dir_of (kp_pid p)) (device s') \<or> is_zombie env (kp_pid p) (device s') \<or>
    send_signal env (kp_pid p) (kp_signal p) (device s) = (Signal_Gone, device s'))"
proof -
  obtain r1 d1 where sent: "send_signal env (kp_pid p) (kp_signal p) (device s) = (r1, d1)" by fastforce
  then have m: "on_device (send_signal env (kp_pid p) (kp_signal p)) s = Some (Inr r1, s\<lparr>device := d1\<rparr>)"
    by (simp add: on_device_def)
  show ?thesis
  proof (cases r1)
    case Signal_Sent
    with assms m obtain y where y: "confirm_dead env (kp_pid p) (clock (p_device env) d1) (s\<lparr>device := d1\<rparr>) = Some y"
      by (auto simp: kill_directly_def abind_def asking_def split: option.splits)
    from confirm_dead_result [OF y] obtain b where b: "fst y = Inr b"
      "b \<longrightarrow> \<not> p_exists env (proc_dir_of (kp_pid p)) (device (snd y)) \<or> is_zombie env (kp_pid p) (device (snd y))" by blast
    from assms m y b(1) Signal_Sent have "r = direct_report ident as_root Signaled b" "s' = snd y"
      by (cases y; auto simp: kill_directly_def abind_def asking_def areturn_def)+
    with b(2) show ?thesis by (auto simp: direct_report_def)
  qed (use assms m sent in \<open>auto simp: kill_directly_def abind_def asking_def areturn_def athrow_def direct_report_def\<close>)
qed

lemma judge_dead:
  "judge_verdict env p comm out = Inr (res, True) \<Longrightarrow> verdict_of out \<in> {(lit ''KILLED''), (lit ''KILL_GONE'')}"
  by (auto simp: judge_verdict_def Let_def simp del: lit_Cons split: if_splits option.splits)

lemma run_privileged_answer:
  assumes "run_privileged env step script expect s = Some (Inr out, s')"
  shows "\<exists>res. timed_command env SU_TIMEOUT SU [(lit ''-c''), script] (device s) = (Some (Inr res), device s') \<and> success res \<and>
    out = trim (from_utf8_lossy (stdout res))"
  using assms by (auto simp: run_privileged_def su_answer_def abind_def on_device_def athrow_def alift_def Let_def
      split: prod.splits option.splits sum.splits if_splits)

lemma kill_via_su_true:
  assumes "kill_via_su env p ident s = Some (Inr r, s')"
  shows "ident = None \<and> device s' = device s \<or> (kr_dead r \<longrightarrow>
    (\<exists>comm res. timed_command (p_device env) SU_TIMEOUT SU [(lit ''-c''), kill_verified_script (kp_pid p) comm] (device s) = (Some (Inr res), device s') \<and>
       success res \<and> verdict_of (trim (from_utf8_lossy (stdout res))) \<in> {(lit ''KILLED''), (lit ''KILL_GONE'')}))"
proof (cases ident)
  case None
  with assms show ?thesis by (simp add: kill_via_su_def areturn_def)
next
  case (Some who)
  let ?comm = "or_default [] (id_comm who)"
  let ?run = "run_privileged (p_device env) [32456, 27490, 36827, 31243] (kill_verified_script (kp_pid p) ?comm) KILL_SENTINEL"
  from assms Some obtain out s1 res dead where su: "?run s = Some (Inr out, s1)" "judge_verdict env p ?comm out = Inr (res, dead)"
    "s' = s1" "kr_dead r = dead"
    by (cases "guard_identity p ident"; cases "validate_comm (fmt_debug (p_device env)) ?comm"; cases "?run s")
      (auto simp: kill_via_su_def abind_def alift_def areturn_def athrow_def Let_def simp del: lit_Cons split: sum.splits prod.splits)
  show ?thesis
  proof (intro disjI2 impI)
    assume "kr_dead r"
    with su have "verdict_of out \<in> {(lit ''KILLED''), (lit ''KILL_GONE'')}" by (intro judge_dead [of env p ?comm out res]) simp
    with run_privileged_answer [OF su(1)] su(3)
    show "\<exists>comm res. timed_command (p_device env) SU_TIMEOUT SU [(lit ''-c''), kill_verified_script (kp_pid p) comm] (device s) = (Some (Inr res), device s') \<and>
       success res \<and> verdict_of (trim (from_utf8_lossy (stdout res))) \<in> {(lit ''KILLED''), (lit ''KILL_GONE'')}" by blast
  qed
qed

lemma kill_via_su_root: "kill_via_su env p ident s = Some (Inr r, s') \<Longrightarrow> kr_root r"
  by (auto simp: kill_via_su_def abind_def areturn_def Let_def split: option.splits sum.splits prod.splits)

lemma end_process_true:
  assumes "end_process env p s = Some (Inr r, s')"
  shows "report_true env p (device s) (device s') r"
proof -
  let ?root = "effective_uid env (device s) = Some 0" and ?ident = "read_process_identity env (kp_pid p) (device s)"
  from assms consider "kp_require_root p" "kill_via_su env p ?ident s = Some (Inr r, s')"
    | "kill_directly env p ?root ?ident s = Some (Inr r, s')"
    by (cases "check_pid env p"; cases "guard_identity p ?ident") (auto simp: end_process_def asking_def athrow_def split: if_splits)
  then show ?thesis
  proof cases
    case 1
    with kill_via_su_true [OF 1(2)] show ?thesis unfolding report_true_def by blast
  next
    case 2
    from kill_directly_true [OF this] show ?thesis unfolding report_true_def by blast
  qed
qed

section \<open>The answer of the reading script\<close>

lemma lines_join_last:
  assumes "ls \<noteq> []" "last ls \<noteq> []" "\<And>l. l \<in> set ls \<Longrightarrow> 10 \<notin> set l \<and> 13 \<notin> set l"
  shows "lines (join [10] ls) = ls"
proof -
  have sp: "split_pred (\<lambda>c. c = 10) (join [10] ls) = ls"
    using assms(1,3) by (intro split_pred_join) auto
  have "map strip_cr (butlast ls) = butlast ls"
    using assms(3) by (intro map_idI) (metis strip_cr_def in_set_butlastD last_in_set)
  with sp assms(1,2) show ?thesis by (simp add: lines_def Let_def)
qed

lemma join_blank_lines: "ls \<noteq> [] \<Longrightarrow> join [10] (ls @ replicate k []) = join [10] ls @ replicate k 10"
proof (induction ls rule: induct_list012)
  case (2 x)
  show ?case by (induction k arbitrary: x) simp_all
qed auto

lemma last_join: "ls \<noteq> [] \<Longrightarrow> last ls \<noteq> [] \<Longrightarrow> join [d] ls \<noteq> [] \<and> last (join [d] ls) = last (last ls)"
  by (induction ls rule: induct_list012) auto

lemma trim_blank_lines:
  assumes "ls \<noteq> []" "last ls \<noteq> []" "10 \<notin> set (last ls)"
  shows "trim_end_with (\<lambda>c. c = 10) (join [10] (ls @ replicate k [])) = join [10] ls"
proof -
  have "last (join [10] ls) \<noteq> 10" "join [10] ls \<noteq> []" using assms last_join [of ls 10] last_in_set [of "last ls"] by metis+
  then have "trim_end_with (\<lambda>c. c = 10) (join [10] ls @ replicate k 10) = join [10] ls"
    by (cases "join [10] ls" rule: rev_cases) (auto simp: trim_end_with_def dropWhile_append3 dropWhile_append)
  then show ?thesis by (simp add: join_blank_lines [OF assms(1)])
qed

lemma last_index_end: "last_index x (ls @ [x]) = Some (length ls)"
  by (simp add: last_index_def first_index_def)

text \<open>
  The script's answer is read back whatever the lines between its markers are, the markers themselves
  included: only the first \<open>ARTPROC_TOTAL\<close>, the first \<open>ARTPROC_BODY\<close> and the last \<open>ARTPROC_END\<close> count.
\<close>

lemma proc_answer_read:
  assumes "ls \<noteq> []" "last ls \<noteq> []" "\<And>l. l \<in> set ls \<Longrightarrow> 10 \<notin> set l \<and> 13 \<notin> set l \<and> trim_end l = l" "n \<le> i64_max"
  shows "parse_proc_read_output env (join [10] ([(lit ''ARTPROC_TOTAL''), show_dec n, (lit ''ARTPROC_BODY'')] @ ls @ replicate k [] @ [PROC_READ_SENTINEL])) =
    Inr \<lparr>pr_total = n, pr_body = join [10] ls, pr_body_truncated = False\<rparr>"
proof -
  let ?head = "[(lit ''ARTPROC_TOTAL''), show_dec n, (lit ''ARTPROC_BODY'')]"
  let ?ls = "?head @ ls @ replicate k [] @ [PROC_READ_SENTINEL]"
  have digits: "c \<in> set (show_dec n) \<Longrightarrow> 48 \<le> c \<and> c \<le> 57" for c using show_dec_chars by blast
  have ws: "\<not> is_whitespace c" if "c \<in> set (show_dec n)" for c using digits [OF that] by (auto simp: is_whitespace_def)
  have tn: "trim_end (show_dec n) = show_dec n" "trim (show_dec n) = show_dec n"
    using ws by (simp_all add: trim_end_def trim_end_with_none trim_no_ws)
  have marks: "trim_end (lit ''ARTPROC_TOTAL'') = (lit ''ARTPROC_TOTAL'')" "trim_end (lit ''ARTPROC_BODY'') = (lit ''ARTPROC_BODY'')"
      "trim_end PROC_READ_SENTINEL = PROC_READ_SENTINEL" "trim_end [] = []"
    by (simp_all add: trim_end_def trim_end_with_def is_whitespace_def PROC_READ_SENTINEL_def)
  have "lines (join [10] ?ls) = ?ls"
    using assms(3) digits by (intro lines_join_last) (fastforce simp: PROC_READ_SENTINEL_def)+
  moreover have "map trim_end ls = ls" using assms(3) by (intro map_idI) auto
  ultimately have lines: "map trim_end (lines (join [10] ?ls)) = ?ls" using tn marks by simp
  have total: "first_index (lit ''ARTPROC_TOTAL'') ?ls = Some 0" by (simp add: first_index_def)
  have differ: "show_dec n \<noteq> (lit ''ARTPROC_BODY'')" "show_dec n \<noteq> (lit ''ARTPROC_GONE'')" "show_dec n \<noteq> (lit ''ARTPROC_MISSING'')"
    using digits [of 65] by (auto simp: show_dec_def intro: notI)
  have body: "first_index (lit ''ARTPROC_BODY'') ?ls = Some 2" using differ by (simp add: first_index_def)
  have fin: "last_index (lit ''ARTPROC_END'') ?ls = Some (3 + length ls + k)"
    using last_index_end [of PROC_READ_SENTINEL "?head @ ls @ replicate k []"] by (simp add: PROC_READ_SENTINEL_def)
  have number: "parse_signed i64_max (show_dec n) = Inr (int n)"
  proof -
    have "show_dec n \<noteq> []" by (simp add: show_dec_def)
    moreover have "hd (show_dec n) \<noteq> 43" "hd (show_dec n) \<noteq> 45" "show_dec n \<noteq> [43]" "show_dec n \<noteq> [45]"
      using digits calculation by (fastforce dest: hd_in_set)+
    ultimately show ?thesis
      using assms(4) by (simp add: parse_signed_def) (simp add: show_dec_def parse_digits_to_digits)
  qed
  have cut: "drop 3 (take (3 + length ls + k) ((lit ''ARTPROC_TOTAL'') # show_dec n # (lit ''ARTPROC_BODY'') # ls @ replicate k [] @ [PROC_READ_SENTINEL])) = ls @ replicate k []" by (simp add: numeral_3_eq_3)
  have "trim_end_with (\<lambda>c. c = 10) (join [10] (ls @ replicate k [])) = join [10] ls" "join [10] ls \<noteq> []"
    using trim_blank_lines [OF assms(1,2)] last_join [OF assms(1,2)] assms(1,3) by auto
  with differ show ?thesis
    unfolding parse_proc_read_output_def Let_def lines total body fin
    by (simp add: tn number cut del: lit_Cons)
qed
section \<open>The two methods that act\<close>

lemma kill_calls:
  assumes "kill (proc_logged env) params s = Some (r, s')"
  shows "snd (device s') = snd (device s) \<or> (\<exists>p c. snd (device s') = snd (device s) @ [c] \<and>
    process_params env kill_params_from params = Inr p \<and> allowed_kill env p (fst (device s)) c)"
proof (cases "process_params env kill_params_from params")
  case (Inl e)
  with assms show ?thesis by (simp add: kill_def proc_logged_reads athrow_def)
next
  case (Inr p)
  with assms obtain r1 where "end_process (proc_logged env) p s = Some (r1, s')"
    by (auto simp: kill_def proc_logged_reads abind_def areturn_def split: option.splits sum.splits)
  from end_process_calls [OF this] Inr show ?thesis by (auto simp: one_call_def)
qed

lemma proc_read_as_root_calls:
  assumes "proc_read_as_root (proc_logged env) pid f path n s = Some (r, s')"
  shows "snd (device s') = snd (device s) @ [Command_Call SU [(lit ''-c''), proc_read_script pid (proc_file_name f) n MAX_PROC_BYTES]]"
proof -
  let ?run = "run_privileged (p_device (proc_logged env)) ([35835, 21462] @ lit '' /proc '' @ [35814, 24773]) (proc_read_script pid (proc_file_name f) n MAX_PROC_BYTES) PROC_READ_SENTINEL"
  obtain r1 s1 where su: "?run s = Some (r1, s1)" using run_privileged_ends by (metis ends_def not_None_eq surj_pair)
  with assms have "device s' = device s1"
    by (auto simp: proc_read_as_root_def abind_def alift_def areturn_def simp del: lit_Cons split: sum.splits)
  with run_privileged_calls [OF su] show ?thesis by simp
qed

lemma clamp_bounds: "1 \<le> clamp_lines wanted \<and> clamp_lines wanted \<le> MAX_PROC_LINES"
  by (simp add: clamp_lines_def MAX_PROC_LINES_def)

lemma proc_read_calls:
  assumes "proc_read (proc_logged env) params s = Some (r, s')"
  shows "snd (device s') = snd (device s) \<or> (\<exists>pid f n. pid \<noteq> 0 \<and> 1 \<le> n \<and> n \<le> MAX_PROC_LINES \<and>
    snd (device s') = snd (device s) @ [Command_Call SU [(lit ''-c''), proc_read_script pid (proc_file_name f) n MAX_PROC_BYTES]])"
proof (cases "process_params env proc_read_params_from params")
  case (Inl e)
  with assms show ?thesis by (simp add: proc_read_def proc_logged_reads athrow_def)
next
  case (Inr q)
  obtain pid f wanted where q: "q = (pid, f, wanted)" by (cases q)
  show ?thesis
  proof (cases "proc_path pid f")
    case (Inl e)
    with assms Inr q show ?thesis by (simp add: proc_read_def proc_logged_reads athrow_def)
  next
    case path: (Inr path)
    then have "pid \<noteq> 0" by (auto simp: proc_path_def split: if_splits)
    have "device s' = device s \<or> proc_read_as_root (proc_logged env) pid f path (clamp_lines wanted) s = Some (r, s')"
      using assms Inr q path
      by (auto simp: proc_read_def proc_logged_reads asking_def areturn_def Let_def split: shell_read.splits if_splits)
    with proc_read_as_root_calls [of env pid f path "clamp_lines wanted" s r s'] clamp_bounds [of wanted] \<open>pid \<noteq> 0\<close>
    show ?thesis by auto
  qed
qed

end
