(* ===== verification/Agent_Package.thy ===== *)
theory Agent_Package
  imports Agent_Privileged
begin

text \<open>
  The package provider of the agent (\<open>android-agent/src/provider/package.rs\<close>): where the native
  libraries of a package are, uninstalling it, and replacing one of its libraries with backup,
  check and rollback. Each phase of the replacement is a definition of its own, the steps taken so
  far being its argument; \<open>lstat\<close> says whether the agent can see a path.
\<close>

section \<open>What \<open>dumpsys\<close> says of a package\<close>

definition SHA_TIMEOUT :: nat where "SHA_TIMEOUT = 10 * 10 ^ 9"
definition DUMPSYS_TIMEOUT :: nat where "DUMPSYS_TIMEOUT = 8 * 10 ^ 9"
definition STAGED_DIR :: ustring where "STAGED_DIR = (lit ''/data/local/tmp/app-reverse-tools-so'')"

definition package_params :: "'d device_env \<Rightarrow> (avalue \<Rightarrow> de_error + 'p) \<Rightarrow> avalue \<Rightarrow> aerror + 'p" where
  "package_params env from v =
     rmap_err (\<lambda>e. with_details (agent_error_new Invalid_Request (lit ''invalid package parameters'')) (reason_details (de_text env e))) (from v)"

record package_dump =
  legacy_native_lib_dir :: "ustring option"
  primary_cpu_abi :: "ustring option"
  code_path :: "ustring option"
  splits :: "ustring list"

definition value_after :: "ustring \<Rightarrow> ustring \<Rightarrow> ustring option" where
  "value_after line key = map_option (\<lambda>(_, rest). trim rest) (split_once key line)"

definition dump_splits :: "ustring \<Rightarrow> ustring list" where
  "dump_splits value = filter (\<lambda>entry. entry \<noteq> []) (map trim (split_pred (\<lambda>c. c = 44) (trim_end_with (\<lambda>c. c = 93) value)))"

text \<open>One line of the text: each field keeps its first value, the directories are collected.\<close>

definition dump_line :: "ustring \<Rightarrow> package_dump \<times> ustring list \<Rightarrow> package_dump \<times> ustring list" where
  "dump_line raw st =
     (case st of (dump, seen_dirs) \<Rightarrow>
      let line = trim_end_with (\<lambda>c. c = 13) raw;
          lib = value_after line (lit ''legacyNativeLibraryDir='');
          dump = (if legacy_native_lib_dir dump = None then dump\<lparr>legacy_native_lib_dir := lib\<rparr> else dump);
          dump = (if primary_cpu_abi dump = None then
                    (case value_after line (lit ''primaryCpuAbi='') of None \<Rightarrow> dump
                     | Some v \<Rightarrow> dump\<lparr>primary_cpu_abi := if v = [] \<or> v = (lit ''null'') then None else Some v\<rparr>)
                  else dump);
          dump = (if code_path dump = None then
                    (case value_after line (lit ''codePath='') of None \<Rightarrow> dump
                     | Some v \<Rightarrow> dump\<lparr>code_path := if v = [] then None else Some v\<rparr>)
                  else dump);
          dump = (if splits dump = [] then
                    (case value_after line (lit ''splits=['') of None \<Rightarrow> dump | Some v \<Rightarrow> dump\<lparr>splits := dump_splits v\<rparr>)
                  else dump)
      in (dump, case lib of None \<Rightarrow> seen_dirs | Some v \<Rightarrow> if v \<in> set seen_dirs then seen_dirs else seen_dirs @ [v]))"

text \<open>The dump, and how many different directories were named.\<close>

definition parse_package_dump :: "ustring \<Rightarrow> package_dump \<times> nat" where
  "parse_package_dump out =
     (case foldl (\<lambda>st line. dump_line line st)
        (\<lparr>legacy_native_lib_dir = None, primary_cpu_abi = None, code_path = None, splits = []\<rparr>, []) (lines out) of
        (dump, seen_dirs) \<Rightarrow> (dump, length seen_dirs))"

definition ARM64 :: ustring where "ARM64 = (lit ''arm64'')"
definition ARM :: ustring where "ARM = (lit ''arm'')"

definition abi_from_primary :: "ustring option \<Rightarrow> ustring" where
  "abi_from_primary primary =
     (case primary of
        Some v \<Rightarrow> if str_contains v (lit ''armeabi'') \<and> \<not> str_contains v (lit ''arm64'') then ARM else ARM64
      | None \<Rightarrow> ARM64)"

datatype substituted = Exact ustring | Unsubstituted ustring

definition substitute_abi :: "ustring \<Rightarrow> ustring \<Rightarrow> substituted" where
  "substitute_abi legacy_dir abi =
     (let dir = trim_end_with (\<lambda>c. c = 47) legacy_dir in
      if abi \<noteq> ARM64 \<and> abi \<noteq> ARM then Unsubstituted dir
      else if ends_with dir (lit ''/lib'') then Exact (dir @ lit ''/'' @ abi)
      else (case strip_suffix (lit ''/lib/arm64'') dir of
              Some base \<Rightarrow> Exact (base @ lit ''/lib/'' @ abi)
            | None \<Rightarrow>
                (case strip_suffix (lit ''/lib/arm'') dir of
                   Some base \<Rightarrow> Exact (base @ lit ''/lib/'' @ abi)
                 | None \<Rightarrow> Unsubstituted dir)))"

definition validate_package :: "ustring \<Rightarrow> aerror + unit" where
  "validate_package package =
     (if is_safe_package_name package then Inr () else Inl (reject ''invalid_package_name'' ([21253, 21517, 38750, 27861, 58, 32] @ package)))"

definition user_args :: "nat option \<Rightarrow> ustring list" where
  "user_args user = (case user of None \<Rightarrow> [] | Some n \<Rightarrow> [(lit ''--user''), show_dec n])"

definition dumpsys_package :: "'d device_env \<Rightarrow> ustring \<Rightarrow> nat option \<Rightarrow> ('d, ustring) action" where
  "dumpsys_package env package user =
     abind (on_device (timed_command env DUMPSYS_TIMEOUT DUMPSYS ([(lit ''package''), package] @ user_args user))) (\<lambda>res.
     case res of
       None \<Rightarrow> athrow (agent_error_new Deadline_Exceeded (lit ''dumpsys package '' @ package @ [32, 36229, 26102]))
     | Some (Inl reason) \<Rightarrow> athrow (agent_error_new Internal (lit ''dumpsys '' @ [25191, 34892, 22833, 36133, 58, 32] @ reason))
     | Some (Inr out) \<Rightarrow>
         (let t = from_utf8_lossy (stdout out) in
          if \<not> success out \<and> \<not> str_contains t (lit ''Packages'') then
            athrow (agent_error_new Internal (lit ''dumpsys package '' @ [36864, 20986, 30721, 32] @ show_code (exit_code out)))
          else areturn t))"

datatype native_lib_dir_source = Framework_Field | Derived_From_Code_Path

record native_lib_dir_result =
  nd_package :: ustring
  nd_dir :: ustring
  nd_abi :: ustring
  nd_primary :: "ustring option"
  nd_code_path :: "ustring option"
  nd_splits :: "ustring list"
  nd_user :: "nat option"
  nd_source :: native_lib_dir_source
  nd_detail :: "ustring option"

definition native_of_dump ::
  "ustring \<Rightarrow> ustring option \<Rightarrow> nat option \<Rightarrow> package_dump \<times> nat \<Rightarrow> aerror + native_lib_dir_result" where
  "native_of_dump package requested user parsed =
     (case parsed of (dump, distinct_dirs) \<Rightarrow>
      if legacy_native_lib_dir dump = None \<and> code_path dump = None then
        Inl (with_details (agent_error_new Not_Found ([26410, 25214, 21040, 32] @ package @ [32, 30340, 23433, 35013, 20449, 24687, 65288, 26410, 23433, 35013, 25110, 26080, 26435, 38480, 65289])) (reason_details (lit ''package_not_found'')))
      else
        let abi = (case requested of Some a \<Rightarrow> a | None \<Rightarrow> abi_from_primary (primary_cpu_abi dump));
            (dir, source, detail) =
              (case legacy_native_lib_dir dump of
                 Some legacy \<Rightarrow>
                   (case substitute_abi legacy abi of
                      Exact path \<Rightarrow> (path, Framework_Field, None)
                    | Unsubstituted path \<Rightarrow> (path, Framework_Field, Some (lit ''native_lib_dir_not_substitutable'')))
               | None \<Rightarrow>
                   (let base = (case code_path dump of None \<Rightarrow> [] | Some p \<Rightarrow> p) in
                    ((base @ lit ''/lib/'' @ abi), Derived_From_Code_Path, Some (lit ''derived_from_code_path''))));
            detail =
              (if 1 < distinct_dirs then
                 Some (case detail of Some existing \<Rightarrow> (existing @ lit '';multiple_package_blocks='' @ show_dec distinct_dirs)
                                    | None \<Rightarrow> (lit ''multiple_package_blocks='' @ show_dec distinct_dirs))
               else detail)
        in Inr \<lparr>nd_package = package, nd_dir = dir, nd_abi = abi, nd_primary = primary_cpu_abi dump,
             nd_code_path = code_path dump, nd_splits = splits dump, nd_user = user, nd_source = source, nd_detail = detail\<rparr>)"

definition resolve_native_lib_dir ::
  "'d device_env \<Rightarrow> ustring \<Rightarrow> ustring option \<Rightarrow> nat option \<Rightarrow> ('d, native_lib_dir_result) action" where
  "resolve_native_lib_dir env package abi user =
     abind (alift (validate_package package)) (\<lambda>_.
     abind (alift (case abi of None \<Rightarrow> Inr None
        | Some v \<Rightarrow> if v = ARM64 \<or> v = ARM then Inr (Some v)
            else Inl (agent_error_new Invalid_Request (lit ''ABI '' @ [21482, 25903, 25345] @ lit '' arm64/arm'' @ [65292, 25910, 21040, 32] @ v)))) (\<lambda>requested.
     abind (dumpsys_package env package user) (\<lambda>out.
     alift (native_of_dump package requested user (parse_package_dump out)))))"

section \<open>Parameters and results\<close>

fun native_params_from :: "avalue \<Rightarrow> de_error + ustring \<times> ustring option \<times> nat option" where
  "native_params_from (VObject obj) =
     rbind (field_from opt_string_from (map_of obj (lit ''abi''))) (\<lambda>abi.
     rbind (field_from string_from (map_of obj (lit ''package''))) (\<lambda>package.
     rbind (field_from opt_u32_from (map_of obj (lit ''user''))) (\<lambda>user.
     rbind (ok_or package (Missing_Field (lit ''package''))) (\<lambda>package.
     Inr (package, or_default None abi, or_default None user)))))"
| "native_params_from (VArray vs) =
     rbind (elem_from string_from vs 0) (\<lambda>package.
     rbind (elem_or None opt_string_from vs 1) (\<lambda>abi.
     rbind (elem_or None opt_u32_from vs 2) (\<lambda>user. at_most 3 vs (package, abi, user))))"
| "native_params_from _ = Inl Invalid_Type"

record uninstall_params =
  up_package :: ustring
  up_operation :: ustring
  keep_data :: bool
  up_user :: "nat option"

fun uninstall_params_from :: "avalue \<Rightarrow> de_error + uninstall_params" where
  "uninstall_params_from (VObject obj) =
     rbind (field_from bool_from (map_of obj (lit ''keep_data''))) (\<lambda>keep.
     rbind (field_from string_from (map_of obj (lit ''operation_id''))) (\<lambda>operation.
     rbind (field_from string_from (map_of obj (lit ''package''))) (\<lambda>package.
     rbind (field_from opt_u32_from (map_of obj (lit ''user''))) (\<lambda>user.
     rbind (ok_or package (Missing_Field (lit ''package''))) (\<lambda>package.
     rbind (ok_or operation (Missing_Field (lit ''operation_id''))) (\<lambda>operation.
     Inr \<lparr>up_package = package, up_operation = operation, keep_data = or_default False keep, up_user = or_default None user\<rparr>))))))"
| "uninstall_params_from (VArray vs) =
     rbind (elem_from string_from vs 0) (\<lambda>package.
     rbind (elem_from string_from vs 1) (\<lambda>operation.
     rbind (elem_or False bool_from vs 2) (\<lambda>keep.
     rbind (elem_or None opt_u32_from vs 3) (\<lambda>user.
     at_most 4 vs \<lparr>up_package = package, up_operation = operation, keep_data = keep, up_user = user\<rparr>))))"
| "uninstall_params_from _ = Inl Invalid_Type"

record replace_params =
  rp_package :: ustring
  rp_abi :: ustring
  so_name :: ustring
  staged_path :: ustring
  rp_operation :: ustring

fun replace_params_from :: "avalue \<Rightarrow> de_error + replace_params" where
  "replace_params_from (VObject obj) =
     rbind (field_from string_from (map_of obj (lit ''abi''))) (\<lambda>abi.
     rbind (field_from string_from (map_of obj (lit ''operation_id''))) (\<lambda>operation.
     rbind (field_from string_from (map_of obj (lit ''package''))) (\<lambda>package.
     rbind (field_from string_from (map_of obj (lit ''so_name''))) (\<lambda>so.
     rbind (field_from string_from (map_of obj (lit ''staged_path''))) (\<lambda>staged.
     rbind (ok_or package (Missing_Field (lit ''package''))) (\<lambda>package.
     rbind (ok_or abi (Missing_Field (lit ''abi''))) (\<lambda>abi.
     rbind (ok_or so (Missing_Field (lit ''so_name''))) (\<lambda>so.
     rbind (ok_or staged (Missing_Field (lit ''staged_path''))) (\<lambda>staged.
     rbind (ok_or operation (Missing_Field (lit ''operation_id''))) (\<lambda>operation.
     Inr \<lparr>rp_package = package, rp_abi = abi, so_name = so, staged_path = staged, rp_operation = operation\<rparr>))))))))))"
| "replace_params_from (VArray vs) =
     rbind (elem_from string_from vs 0) (\<lambda>package.
     rbind (elem_from string_from vs 1) (\<lambda>abi.
     rbind (elem_from string_from vs 2) (\<lambda>so.
     rbind (elem_from string_from vs 3) (\<lambda>staged.
     rbind (elem_from string_from vs 4) (\<lambda>operation.
     at_most 5 vs \<lparr>rp_package = package, rp_abi = abi, so_name = so, staged_path = staged, rp_operation = operation\<rparr>)))))"
| "replace_params_from _ = Inl Invalid_Type"

record operation_step =
  step_name :: ustring
  step_ok :: bool
  step_detail :: "ustring option"

definition step_of :: "string \<Rightarrow> bool \<Rightarrow> ustring option \<Rightarrow> operation_step" where
  "step_of name ok detail = \<lparr>step_name = lit name, step_ok = ok, step_detail = detail\<rparr>"

definition step_value :: "operation_step \<Rightarrow> avalue" where
  "step_value s = VObject (opt_field ''detail'' VString (step_detail s) @
     [((lit ''name''), VString (step_name s)), ((lit ''ok''), VBool (step_ok s))])"

definition steps_value :: "operation_step list \<Rightarrow> avalue" where
  "steps_value steps = VArray (map step_value steps)"

definition with_steps :: "aerror \<Rightarrow> operation_step list \<Rightarrow> aerror" where
  "with_steps e steps =
     (let details = (case err_details e of None \<Rightarrow> VObject [] | Some d \<Rightarrow> d) in
      with_details e (case details of
          VObject obj \<Rightarrow> VObject (AList.update (lit ''steps'') (steps_value steps) obj)
        | d \<Rightarrow> d))"

record uninstall_result =
  ur_package :: ustring
  ur_operation :: ustring
  ur_outcome :: write_outcome
  ur_verified :: bool
  ur_keep_data :: bool
  ur_steps :: "operation_step list"
  ur_detail :: "ustring option"

definition uninstall_value :: "uninstall_result \<Rightarrow> avalue" where
  "uninstall_value r =
     VObject (opt_field ''detail'' VString (ur_detail r) @
       [((lit ''keep_data''), VBool (ur_keep_data r)), ((lit ''operation_id''), VString (ur_operation r)),
        ((lit ''outcome''), VString (outcome_name (ur_outcome r))), ((lit ''package''), VString (ur_package r)),
        ((lit ''steps''), steps_value (ur_steps r)), ((lit ''verified''), VBool (ur_verified r))])"

record replace_result =
  rr_package :: ustring
  rr_target :: ustring
  rr_staged :: ustring
  rr_operation :: ustring
  rr_outcome :: write_outcome
  rr_verified :: bool
  replaced_existing :: bool
  rr_steps :: "operation_step list"
  rolled_back :: "bool option"
  backup_path :: "ustring option"
  rr_detail :: "ustring option"

definition replace_value :: "replace_result \<Rightarrow> avalue" where
  "replace_value r =
     VObject (opt_field ''backup_path'' VString (backup_path r) @ opt_field ''detail'' VString (rr_detail r) @
       [((lit ''operation_id''), VString (rr_operation r)), ((lit ''outcome''), VString (outcome_name (rr_outcome r))),
        ((lit ''package''), VString (rr_package r)), ((lit ''replaced_existing''), VBool (replaced_existing r))] @
       opt_field ''rolled_back'' VBool (rolled_back r) @
       [((lit ''staged_path''), VString (rr_staged r)), ((lit ''steps''), steps_value (rr_steps r)),
        ((lit ''target_path''), VString (rr_target r)), ((lit ''verified''), VBool (rr_verified r))])"

fun source_name :: "native_lib_dir_source \<Rightarrow> ustring" where
  "source_name Framework_Field = (lit ''framework_field'')"
| "source_name Derived_From_Code_Path = (lit ''derived_from_code_path'')"

definition native_value :: "native_lib_dir_result \<Rightarrow> avalue" where
  "native_value r =
     VObject ([((lit ''abi''), VString (nd_abi r))] @ opt_field ''code_path'' VString (nd_code_path r) @
       opt_field ''detail'' VString (nd_detail r) @
       [((lit ''native_lib_dir''), VString (nd_dir r)), ((lit ''package''), VString (nd_package r))] @
       opt_field ''primary_cpu_abi'' VString (nd_primary r) @
       [((lit ''source''), VString (source_name (nd_source r))), ((lit ''splits''), VArray (map VString (nd_splits r)))] @
       opt_field ''user'' (\<lambda>n. VNumber (Pos_Int n)) (nd_user r))"

definition native_lib_dir_of :: "'d device_env \<Rightarrow> avalue \<Rightarrow> ('d, avalue) action" where
  "native_lib_dir_of env params =
     abind (alift (package_params env native_params_from params)) (\<lambda>(package, abi, user).
     abind (resolve_native_lib_dir env package abi user) (\<lambda>r. areturn (native_value r)))"

section \<open>Uninstalling\<close>

definition uninstall_args :: "uninstall_params \<Rightarrow> ustring list" where
  "uninstall_args p =
     [(lit ''uninstall'')] @ (if keep_data p then [(lit ''-k'')] else []) @ user_args (up_user p) @ [up_package p]"

definition uninstall_verified ::
  "'d device_env \<Rightarrow> uninstall_params \<Rightarrow> operation_step list \<Rightarrow> ('d, avalue) action" where
  "uninstall_verified env p steps =
     abind (pm_path_present env (up_package p)) (\<lambda>still.
     let gone = \<not> still;
         steps = steps @ [step_of ''verify_removed'' gone None];
         v = uninstall_value \<lparr>ur_package = up_package p, ur_operation = up_operation p, ur_outcome = Executed,
           ur_verified = gone, ur_keep_data = keep_data p, ur_steps = steps,
           ur_detail = Some (if gone then (lit ''path_gone'') else (lit ''path_still_present''))\<rparr>
     in abind (finish_write env (up_operation p) v) (\<lambda>_.
        if \<not> gone then
          athrow (with_steps (with_details (agent_error_new Internal ([21368, 36733, 21518, 32] @ up_package p @ [32, 30340] @ lit '' pm path '' @ [20173, 22312]))
            (reason_details (lit ''verify_failed''))) steps)
        else areturn v))"

definition uninstall_now :: "'d device_env \<Rightarrow> uninstall_params \<Rightarrow> ('d, avalue) action" where
  "uninstall_now env p =
     (let steps = [step_of ''guard_target'' True None] in
      abind (attempt (guard_writable_package env (up_package p))) (\<lambda>guarded.
      case guarded of
        Inl e \<Rightarrow> athrow (with_steps e steps)
      | Inr _ \<Rightarrow>
          abind (attempt (run env PM (uninstall_args p))) (\<lambda>ran.
          case ran of
            Inl e \<Rightarrow> athrow (with_steps e (steps @ [step_of ''pm_uninstall'' False (Some (err_message e))]))
          | Inr out \<Rightarrow>
              (let rejected = str_contains out (lit ''Failure'') \<or> str_contains out (lit ''DELETE_FAILED'');
                   steps = steps @ [step_of ''pm_uninstall'' (\<not> rejected) (Some (take 160 (trim out)))]
               in if rejected then
                    athrow (with_steps (with_details (agent_error_new Precondition_Failed ([112, 109, 32, 25298, 32477, 21368, 36733, 32] @ up_package p @ lit '': '' @ trim out))
                      (reason_details (lit ''pm_rejected''))) steps)
                  else uninstall_verified env p steps))))"

definition uninstall :: "'d device_env \<Rightarrow> avalue \<Rightarrow> ('d, avalue) action" where
  "uninstall env =
     submit env (lit ''package.uninstall'') (package_params env uninstall_params_from) up_package up_operation (uninstall_now env)"

section \<open>Replacing a native library\<close>

definition is_safe_so_name :: "ustring \<Rightarrow> bool" where
  "is_safe_so_name name \<longleftrightarrow> name \<noteq> [] \<and> length (utf8 name) \<le> 96 \<and> ends_with name (lit ''.so'') \<and> \<not> starts_with name (lit ''.'') \<and>
     list_all name_char name"

definition is_staged_in_own_dir :: "ustring \<Rightarrow> bool" where
  "is_staged_in_own_dir path \<longleftrightarrow> starts_with path [47] \<and> components path \<noteq> [] \<and>
     (case strip_prefix (components STAGED_DIR) (butlast (components path)) of
        Some [name] \<Rightarrow> name \<noteq> [] \<and> \<not> starts_with name (lit ''.'') \<and> list_all name_char name
      | _ \<Rightarrow> False)"

definition is_elf_file :: "'d device_env \<Rightarrow> ustring \<Rightarrow> 'd \<Rightarrow> bool" where
  "is_elf_file env path d =
     (case read_file env path d of
        None \<Rightarrow> False
      | Some content \<Rightarrow> 5 \<le> length content \<and> take 4 content = [0x7f, 69, 76, 70] \<and> content ! 4 \<in> {1, 2})"

definition sha_of_output :: "command_output \<Rightarrow> ustring option" where
  "sha_of_output res =
     (case split_whitespace (from_utf8_lossy (stdout res)) of
        [] \<Rightarrow> None
      | w # _ \<Rightarrow> if length (utf8 w) = 64 \<and> list_all is_ascii_hexdigit w then Some (map to_ascii_lower w) else None)"

definition sha_answer :: "(ustring + command_output) option \<Rightarrow> ustring option" where
  "sha_answer a =
     (case a of
        Some (Inr res) \<Rightarrow> if success res then sha_of_output res else None
      | _ \<Rightarrow> None)"

definition sha_candidates :: "ustring \<Rightarrow> (ustring \<times> ustring list) list" where
  "sha_candidates path = [((lit ''/system/bin/sha256sum''), [path]), ((lit ''/system/bin/toybox''), [(lit ''sha256sum''), path])]"

fun try_sha :: "'d device_env \<Rightarrow> aerror \<Rightarrow> (ustring \<times> ustring list) list \<Rightarrow> ('d, ustring) action" where
  "try_sha env e [] = athrow e"
| "try_sha env e ((program, args) # rest) =
     abind (on_device (timed_command env SHA_TIMEOUT program args)) (\<lambda>a.
     case sha_answer a of Some sha \<Rightarrow> areturn sha | None \<Rightarrow> try_sha env e rest)"

definition file_sha256 :: "'d device_env \<Rightarrow> ustring \<Rightarrow> ('d, ustring) action" where
  "file_sha256 env path =
     try_sha env (with_details (agent_error_new Internal ([31639, 19981, 20986, 32] @ path @ [32, 30340] @ lit '' sha256'' @ [65288, 35774, 22791, 32570] @ lit '' sha256sum'' @ [65311, 65289])) (reason_details (lit ''sha256_unavailable'')))
       (sha_candidates path)"

definition rollback :: "'d device_env \<Rightarrow> ustring \<Rightarrow> ustring \<Rightarrow> bool \<Rightarrow> ('d, bool) action" where
  "rollback env backup target restore_backup =
     abind (attempt (run_privileged env (lit ''rollback'') (rollback_script backup target restore_backup)
       (if restore_backup then (lit ''ROLLED_BACK'') else (lit ''REMOVED'')))) (\<lambda>r.
     areturn (case r of Inl _ \<Rightarrow> False | Inr _ \<Rightarrow> True))"

text \<open>What the phases share: the request and what the earlier phases have found out.\<close>

record replacement =
  asked :: replace_params
  target_dir :: ustring
  target_path :: ustring
  had_target :: bool
  staged_sha :: ustring
  backup_file :: ustring

definition replace_checked :: "replace_params \<Rightarrow> aerror + unit" where
  "replace_checked p =
     (if rp_abi p \<noteq> ARM64 \<and> rp_abi p \<noteq> ARM then Inl (reject ''invalid_abi'' (lit ''ABI '' @ [21482, 25903, 25345] @ lit '' arm64/arm'' @ [65292, 25910, 21040, 32] @ rp_abi p))
      else if \<not> is_safe_so_name (so_name p) then Inl (reject ''invalid_so_name'' ([38750, 27861] @ lit '' so '' @ [25991, 20214, 21517, 58, 32] @ so_name p))
      else rbind (validate_path (staged_path p)) (\<lambda>_.
        if \<not> is_staged_in_own_dir (staged_path p) then
          Inl (reject ''staged_dir_denied'' ([26242, 23384, 20214, 24517, 39035, 20301, 20110, 32] @ STAGED_DIR @ [47, 60, 26412, 27425, 25805, 20316, 30446, 24405, 62, 47, 32, 19979, 65288, 19968, 27425, 25805, 20316, 19968, 20010, 30446, 24405, 65292, 22791, 20221, 19982, 21407, 20214, 19981, 20114, 30456, 35206, 30422, 65289, 58, 32] @ staged_path p))
        else Inr ()))"

definition fails_at :: "string \<Rightarrow> operation_step list \<Rightarrow> aerror \<Rightarrow> ('d, 'a) action" where
  "fails_at name steps e = athrow (with_steps e (steps @ [step_of name False (Some (err_message e))]))"

definition replace_verify :: "'d device_env \<Rightarrow> replacement \<Rightarrow> operation_step list \<Rightarrow> ('d, avalue) action" where
  "replace_verify env x steps =
     abind (attempt (file_sha256 env (target_path x))) (\<lambda>r.
     let (verified, detail) =
           (case r of
              Inr sha \<Rightarrow> (sha = staged_sha x,
                if sha = staged_sha x then (lit ''sha256='' @ take 12 (staged_sha x) @ [8230, 32, 19968, 33268]) else ([30446, 26631] @ lit '' sha256='' @ take 12 sha @ [8230, 32, 19982, 26242, 23384, 20214, 19981, 19968, 33268]))
            | Inl e \<Rightarrow> (False, ([22797, 26680, 22833, 36133, 58, 32] @ err_message e)));
         steps = steps @ [step_of ''verify_installed'' verified (Some detail)]
     in abind (if verified then areturn None
          else abind (rollback env (backup_file x) (target_path x) (had_target x)) (\<lambda>done. areturn (Some done))) (\<lambda>undone.
        let steps = (case undone of
              None \<Rightarrow> steps
            | Some done \<Rightarrow> steps @ [step_of ''rollback'' done (Some (if done then [22797, 26680, 19981, 36807, 65292, 24050, 24674, 22797, 21407, 29366] else [22797, 26680, 19981, 36807, 19988, 24674, 22797, 22833, 36133, 65292, 38656, 35201, 20154, 24037, 22788, 29702]))]);
            v = replace_value \<lparr>rr_package = rp_package (asked x), rr_target = target_path x, rr_staged = staged_path (asked x),
              rr_operation = rp_operation (asked x), rr_outcome = Executed, rr_verified = verified,
              replaced_existing = had_target x, rr_steps = steps, rolled_back = undone,
              backup_path = if had_target x then Some (backup_file x) else None,
              rr_detail = Some (if verified then (lit ''sha256_matched'') else (lit ''verify_failed_rolled_back''))\<rparr>
        in abind (finish_write env (rp_operation (asked x)) v) (\<lambda>_.
           if \<not> verified then
             athrow (with_steps (with_details (agent_error_new Internal ([83, 79, 32, 26367, 25442, 22797, 26680, 26410, 36890, 36807, 58, 32] @ target_path x)) (reason_details (lit ''verify_failed''))) steps)
           else areturn v)))"

definition replace_install :: "'d device_env \<Rightarrow> replacement \<Rightarrow> operation_step list \<Rightarrow> ('d, avalue) action" where
  "replace_install env x steps =
     (case validate_dir (target_dir x) of
        Inl e \<Rightarrow> fails_at ''install'' steps e
      | Inr _ \<Rightarrow>
          abind (attempt (run_privileged env (lit ''install'')
            (install_script (staged_path (asked x)) (target_path x) (target_path x @ lit ''.arttmp'') (target_dir x)) (lit ''INSTALLED''))) (\<lambda>r.
          case r of
            Inl e \<Rightarrow>
              abind (rollback env (backup_file x) (target_path x) (had_target x)) (\<lambda>undone.
              athrow (with_steps e (steps @ [step_of ''install'' False (Some (err_message e)),
                step_of ''rollback'' undone (Some (if undone then [24050, 24674, 22797, 21407, 29366] else [24674, 22797, 22833, 36133, 65292, 38656, 35201, 20154, 24037, 22788, 29702]))])))
          | Inr _ \<Rightarrow> replace_verify env x (steps @ [step_of ''install'' True (Some (target_path x))])))"

definition replace_backup :: "'d device_env \<Rightarrow> replacement \<Rightarrow> operation_step list \<Rightarrow> ('d, avalue) action" where
  "replace_backup env x steps =
     abind (alift (validate_path (backup_file x))) (\<lambda>_.
     if had_target x then
       abind (attempt (run_privileged env (lit ''backup_original'') (backup_script (target_path x) (backup_file x)) (lit ''BACKED_UP''))) (\<lambda>r.
       case r of
         Inl e \<Rightarrow> fails_at ''backup_original'' steps e
       | Inr _ \<Rightarrow> replace_install env x (steps @ [step_of ''backup_original'' True (Some (backup_file x))]))
     else replace_install env x (steps @ [step_of ''backup_original'' True (Some [30446, 26631, 21407, 26412, 19981, 23384, 22312, 65292, 26080, 38656, 22791, 20221])]))"

definition backup_of :: "replace_params \<Rightarrow> ustring" where
  "backup_of p = (let dir = (case absolute_parent (staged_path p) of Some d \<Rightarrow> d | None \<Rightarrow> STAGED_DIR) in (dir @ lit ''/'' @ so_name p @ lit ''.artbak''))"

definition replace_staged ::
  "'d device_env \<Rightarrow> replace_params \<Rightarrow> ustring \<Rightarrow> ustring \<Rightarrow> bool \<Rightarrow> operation_step list \<Rightarrow> ('d, avalue) action" where
  "replace_staged env p dir path exists steps =
     abind (attempt (file_sha256 env (staged_path p))) (\<lambda>r.
     case r of
       Inl e \<Rightarrow> fails_at ''verify_staged'' steps e
     | Inr sha \<Rightarrow> asking (is_elf_file env (staged_path p)) (\<lambda>elf.
         if \<not> elf then
           athrow (with_steps (reject ''staged_not_elf'' ([26242, 23384, 20214, 19981, 26159, 26377, 25928, 30340] @ lit '' ELF '' @ [20849, 20139, 24211, 58, 32] @ staged_path p))
             (steps @ [step_of ''verify_staged'' False (Some (lit ''ELF magic '' @ [19981, 23545]))]))
         else replace_backup env \<lparr>asked = p, target_dir = dir, target_path = path, had_target = exists, staged_sha = sha, backup_file = backup_of p\<rparr>
           (steps @ [step_of ''verify_staged'' True (Some (lit ''sha256='' @ take 12 sha @ [8230]))])))"

definition replace_resolve ::
  "'d device_env \<Rightarrow> (ustring \<Rightarrow> 'd \<Rightarrow> bool) \<Rightarrow> replace_params \<Rightarrow> operation_step list \<Rightarrow> ('d, avalue) action" where
  "replace_resolve env lstat p steps =
     abind (attempt (resolve_native_lib_dir env (rp_package p) (Some (rp_abi p)) None)) (\<lambda>r.
     case r of
       Inl e \<Rightarrow> fails_at ''resolve_target'' steps e
     | Inr native \<Rightarrow>
         (let dir = (if ends_with (nd_dir native) (lit ''/lib'') then (nd_dir native @ lit ''/'' @ nd_abi native) else nd_dir native);
              path = (dir @ lit ''/'' @ so_name p)
          in case validate_path path of
               Inl e \<Rightarrow> fails_at ''resolve_target'' steps e
             | Inr _ \<Rightarrow> asking (lstat path) (\<lambda>exists.
                 replace_staged env p dir path exists (steps @ [step_of ''resolve_target'' True (Some path)]))))"

definition replace_now ::
  "'d device_env \<Rightarrow> (ustring \<Rightarrow> 'd \<Rightarrow> bool) \<Rightarrow> replace_params \<Rightarrow> ('d, avalue) action" where
  "replace_now env lstat p =
     abind (alift (replace_checked p)) (\<lambda>_.
     let steps = [step_of ''validate_input'' True None] in
     abind (attempt (guard_writable_package env (rp_package p))) (\<lambda>r.
     case r of
       Inl e \<Rightarrow> fails_at ''guard_target'' steps e
     | Inr _ \<Rightarrow> replace_resolve env lstat p (steps @ [step_of ''guard_target'' True None])))"

definition replace_native_library ::
  "'d device_env \<Rightarrow> (ustring \<Rightarrow> 'd \<Rightarrow> bool) \<Rightarrow> avalue \<Rightarrow> ('d, avalue) action" where
  "replace_native_library env lstat =
     submit env (lit ''package.replace_native_library'') (package_params env replace_params_from) rp_package rp_operation (replace_now env lstat)"

definition PACKAGE_METHODS :: "ustring list" where
  "PACKAGE_METHODS = [(lit ''package.native_lib_dir''), (lit ''package.uninstall''), (lit ''package.replace_native_library'')]"

definition package_handle ::
  "'d device_env \<Rightarrow> (ustring \<Rightarrow> 'd \<Rightarrow> bool) \<Rightarrow> ustring \<Rightarrow> avalue \<Rightarrow> ('d, avalue) action" where
  "package_handle env lstat meth params =
     (if meth = (lit ''package.native_lib_dir'') then native_lib_dir_of env params
      else if meth = (lit ''package.uninstall'') then uninstall env params
      else if meth = (lit ''package.replace_native_library'') then replace_native_library env lstat params
      else athrow (agent_error_new Unsupported_Method (lit ''unsupported package method: '' @ meth)))"

section \<open>Every request returns, and a retry is safe\<close>

lemma dumpsys_moves [ending, sparing]: "ends (dumpsys_package env package user)" "spares (dumpsys_package env package user)"
  unfolding dumpsys_package_def Let_def by (intro ending sparing)+

lemma try_sha_moves [ending, sparing]: "ends (try_sha env e cs)" "spares (try_sha env e cs)"
proof (induction cs)
  case (Cons c cs)
  obtain program args where c: "c = (program, args)" by (cases c)
  { case 1 show ?case unfolding c try_sha.simps by (intro ending Cons.IH) }
  { case 2 show ?case unfolding c try_sha.simps by (intro sparing Cons.IH) }
qed (simp_all add: ending sparing)

lemma parts_move [ending, sparing]:
  "ends (resolve_native_lib_dir env package abi user)" "spares (resolve_native_lib_dir env package abi user)"
  "ends (file_sha256 env path)" "spares (file_sha256 env path)"
  "ends (rollback env b t e)" "spares (rollback env b t e)"
  "ends (fails_at name steps err)" "spares (fails_at name steps err)"
  unfolding resolve_native_lib_dir_def file_sha256_def rollback_def fails_at_def by (intro ending sparing)+

lemma uninstall_ends [ending]: "ends (uninstall_now env p)"
  unfolding uninstall_now_def uninstall_verified_def Let_def by (intro ending)

lemma phases_end [ending]:
  "ends (replace_verify env x steps)" "ends (replace_install env x steps)" "ends (replace_backup env x steps)"
  "ends (replace_staged env p dir path exists steps)" "ends (replace_resolve env lstat p steps)" "ends (replace_now env lstat p)"
proof -
  show v: "ends (replace_verify env x steps)" for x steps
    unfolding replace_verify_def Let_def by (intro ending)
  show i: "ends (replace_install env x steps)" for x steps
    unfolding replace_install_def by (intro ending v)
  show b: "ends (replace_backup env x steps)" for x steps
    unfolding replace_backup_def by (intro ending i)
  show g: "ends (replace_staged env p dir path exists steps)" for dir path exists steps
    unfolding replace_staged_def by (intro ending b)
  show r: "ends (replace_resolve env lstat p steps)" for steps
    unfolding replace_resolve_def Let_def by (intro ending g)
  show "ends (replace_now env lstat p)"
    unfolding replace_now_def Let_def by (intro ending r)
qed

lemma package_returns: "package_handle env lstat meth params s \<noteq> None"
proof -
  have "ends (package_handle env lstat meth params)"
    unfolding package_handle_def native_lib_dir_of_def uninstall_def replace_native_library_def by (intro ending)
  then show ?thesis by (simp add: ends_def)
qed

lemma records_fails: "leaves_result env k (fails_at name steps e)"
  by (simp add: fails_at_def records_throw)

lemmas recording = records_unless records_abind records_throw records_fails records_split records_asking sparing

lemma uninstall_records: "leaves_result env (up_operation p) (uninstall_now env p)"
  unfolding uninstall_now_def uninstall_verified_def Let_def by (intro recording)

lemma replace_records: "leaves_result env (rp_operation p) (replace_now env lstat p)"
proof -
  have v: "leaves_result env (rp_operation (asked x)) (replace_verify env x steps)" for x steps
    unfolding replace_verify_def Let_def case_prod_unfold by (intro recording)
  have i: "leaves_result env (rp_operation (asked x)) (replace_install env x steps)" for x steps
    unfolding replace_install_def by (intro recording v)
  have b: "leaves_result env (rp_operation (asked x)) (replace_backup env x steps)" for x steps
    unfolding replace_backup_def by (intro recording i)
  have g: "leaves_result env (rp_operation p) (replace_staged env p dir path exists steps)" for dir path exists steps
    unfolding replace_staged_def
    by (intro recording) (use b [of "\<lparr>asked = p, target_dir = dir, target_path = path, had_target = exists, staged_sha = _, backup_file = backup_of p\<rparr>"] in simp)
  have r: "leaves_result env (rp_operation p) (replace_resolve env lstat p steps)" for steps
    unfolding replace_resolve_def Let_def by (intro recording g)
  show ?thesis
    unfolding replace_now_def Let_def by (intro recording r)
qed

interpretation uninstall_write: remembered_write env "(lit ''package.uninstall'')" "package_params env uninstall_params_from"
    up_package up_operation "uninstall_now env" for env :: "'d device_env"
  by unfold_locales (rule uninstall_records)

interpretation replace_write: remembered_write env "(lit ''package.replace_native_library'')" "package_params env replace_params_from"
    rp_package rp_operation "replace_now env lstat" for env :: "'d device_env" and lstat
  by unfold_locales (rule replace_records)

section \<open>What reaches the device\<close>

text \<open>The two kinds of commands of this provider that change the device.\<close>

definition alters :: "log_entry \<Rightarrow> bool" where
  "alters e \<longleftrightarrow> fst e = SU \<or> fst e = PM \<and> (\<exists>args. fst (snd e) = (lit ''uninstall'') # args)"

definition untouched :: "log_entry list \<Rightarrow> bool" where
  "untouched w \<longleftrightarrow> list_all (\<lambda>e. \<not> alters e) w"

lemma untouched_simps [simp]: "untouched []" "untouched (v @ w) \<longleftrightarrow> untouched v \<and> untouched w"
  "untouched (e # w) \<longleftrightarrow> \<not> alters e \<and> untouched w"
  by (simp_all add: untouched_def)

lemma programs_not_su [simp]: "PM \<noteq> SU" "DUMPSYS \<noteq> SU" "DUMPSYS \<noteq> PM" "SU \<noteq> PM" "SU \<noteq> DUMPSYS" "PM \<noteq> DUMPSYS"
  "(lit ''/system/bin/sha256sum'') \<noteq> SU" "(lit ''/system/bin/toybox'') \<noteq> SU" "(lit ''/system/bin/sha256sum'') \<noteq> PM" "(lit ''/system/bin/toybox'') \<noteq> PM"
  by (simp_all add: PM_def SU_def DUMPSYS_def)

lemma words_not_uninstall [simp]: "(lit ''path'') \<noteq> (lit ''uninstall'')" "(lit ''list'') \<noteq> (lit ''uninstall'')"
  by simp_all

lemma untouched_no_su: "untouched w \<Longrightarrow> su_scripts w = []"
  by (auto simp: untouched_def su_scripts_def alters_def list_all_iff filter_empty_conv)

definition lists_path :: "log_entry \<Rightarrow> bool" where
  "lists_path e \<longleftrightarrow> (\<exists>out. answered e out \<and>
     list_ex (\<lambda>line. starts_with (trim_start (trim_end_with (\<lambda>c. c = 13) line)) (lit ''package:'')) (lines out))"

lemma emits_path_present:
  "emits (pm_path_present (logged env) package) (\<lambda>r w. \<exists>a b. r = Inr b \<and> w = [(PM, [(lit ''path''), package], a)] \<and>
     (b \<longleftrightarrow> lists_path (PM, [(lit ''path''), package], a)))"
  unfolding pm_path_present_def
  by (auto simp: emits_def attempt_def run_def abind_def on_device_def logged_def athrow_def areturn_def lists_path_def answered_def
      simp del: lit_Cons split: prod.splits option.splits sum.splits if_splits)

text \<open>The guard asks \<open>pm\<close> twice at most, and passes only what the listing shows to be a third-party package.\<close>

lemma emits_listing:
  "emits (if \<not> there then athrow x
      else abind (run (logged env) PM [(lit ''list''), (lit ''packages''), (lit ''-3''), package]) (\<lambda>listing.
        if classify_package_kind listing package \<noteq> Third_Party then athrow y else areturn ()))
     (\<lambda>r w. untouched w \<and> (r = Inr () \<longrightarrow> (\<exists>e \<in> set w. shows_third_party package e)))"
proof -
  have "emits (abind (run (logged env) PM [(lit ''list''), (lit ''packages''), (lit ''-3''), package]) (\<lambda>listing.
        if classify_package_kind listing package \<noteq> Third_Party then athrow y else areturn ()))
     (\<lambda>r w. untouched w \<and> (r = Inr () \<longrightarrow> (\<exists>e \<in> set w. shows_third_party package e)))"
    by (rule emits_abind [OF emits_run, where B = "\<lambda>listing r w. w = [] \<and> (r = Inr () \<longrightarrow> classify_package_kind listing package = Third_Party)"])
      (auto simp: shows_third_party_def alters_def simp del: lit_Cons intro: emits_basic)
  then show ?thesis by (auto intro: emits_basic simp del: lit_Cons)
qed

lemma emits_guard:
  "emits (guard_writable_package (logged env) package)
     (\<lambda>r w. untouched w \<and> (r = Inr () \<longrightarrow> (\<exists>e \<in> set w. shows_third_party package e)))"
  unfolding guard_writable_package_def
  by (rule emits_abind [OF emits_path_present emits_listing]) (auto simp: alters_def simp del: lit_Cons)

text \<open>An uninstall: nothing is changed, or exactly one \<open>pm uninstall\<close> runs after the guard.\<close>

definition pm_accepted :: "log_entry \<Rightarrow> bool" where
  "pm_accepted e \<longleftrightarrow> (\<exists>out. answered e out \<and> \<not> str_contains out (lit ''Failure'') \<and> \<not> str_contains out (lit ''DELETE_FAILED''))"

definition uninstall_log :: "uninstall_params \<Rightarrow> aerror + avalue \<Rightarrow> log_entry list \<Rightarrow> bool" where
  "uninstall_log p r w \<longleftrightarrow> untouched w \<and> (\<exists>e. r = Inl e) \<or>
     (\<exists>u x v. w = u @ (PM, uninstall_args p, x) # v \<and> untouched u \<and> untouched v \<and>
        (\<exists>e \<in> set u. shows_third_party (up_package p) e) \<and>
        ((\<exists>value. r = Inr value) \<longrightarrow> pm_accepted (PM, uninstall_args p, x) \<and>
           (\<exists>y. v = [(PM, [(lit ''path''), up_package p], y)] \<and> \<not> lists_path (PM, [(lit ''path''), up_package p], y))))"

lemma emits_recorded:
  "emits (abind (finish_write env k v) (\<lambda>_. if \<not> b then athrow e else areturn v)) (\<lambda>r w. w = [] \<and> ((\<exists>value. r = Inr value) \<longrightarrow> b))"
  by (cases b) (auto simp: emits_def abind_def finish_write_def athrow_def areturn_def)

lemma emits_verified: "emits (uninstall_verified (logged env) p steps) (\<lambda>r w. \<exists>y. w = [(PM, [(lit ''path''), up_package p], y)] \<and>
    ((\<exists>value. r = Inr value) \<longrightarrow> \<not> lists_path (PM, [(lit ''path''), up_package p], y)))"
  unfolding uninstall_verified_def Let_def
  by (rule emits_abind [OF emits_path_present emits_recorded]) auto

lemma emits_uninstall: "emits (uninstall_now (logged env) p) (uninstall_log p)"
  unfolding uninstall_now_def Let_def
proof (rule emits_abind [OF emits_attempt [OF emits_guard]])
  let ?ran = "\<lambda>r w. \<exists>x v. w = (PM, uninstall_args p, x) # v \<and> untouched v \<and>
    ((\<exists>value. r = Inr value) \<longrightarrow> pm_accepted (PM, uninstall_args p, x) \<and>
       (\<exists>y. v = [(PM, [(lit ''path''), up_package p], y)] \<and> \<not> lists_path (PM, [(lit ''path''), up_package p], y)))"
  fix guarded
  have check: "emits (case ran of Inl e \<Rightarrow> athrow (f e) | Inr out \<Rightarrow>
      if str_contains out (lit ''Failure'') \<or> str_contains out (lit ''DELETE_FAILED'') then athrow (g out) else uninstall_verified (logged env) p (h out))
    (\<lambda>r v. untouched v \<and> ((\<exists>value. r = Inr value) \<longrightarrow>
       (\<exists>out. ran = Inr out \<and> \<not> str_contains out (lit ''Failure'') \<and> \<not> str_contains out (lit ''DELETE_FAILED'')) \<and>
       (\<exists>y. v = [(PM, [(lit ''path''), up_package p], y)] \<and> \<not> lists_path (PM, [(lit ''path''), up_package p], y))))" for ran f g h
    by (cases ran) (auto intro!: emits_basic emits_weaken [OF emits_verified] simp: alters_def simp del: lit_Cons)
  show "emits (case guarded of Inl e \<Rightarrow> athrow (with_steps e [step_of ''guard_target'' True None]) | Inr _ \<Rightarrow>
      abind (attempt (run (logged env) PM (uninstall_args p))) (\<lambda>ran. case ran of
        Inl e \<Rightarrow> athrow (with_steps e ([step_of ''guard_target'' True None] @ [step_of ''pm_uninstall'' False (Some (err_message e))]))
      | Inr out \<Rightarrow>
          if str_contains out (lit ''Failure'') \<or> str_contains out (lit ''DELETE_FAILED'') then
            athrow (with_steps (with_details (agent_error_new Precondition_Failed ([112, 109, 32, 25298, 32477, 21368, 36733, 32] @ up_package p @ lit '': '' @ trim out))
              (reason_details (lit ''pm_rejected''))) ([step_of ''guard_target'' True None] @
                [step_of ''pm_uninstall'' (\<not> (str_contains out (lit ''Failure'') \<or> str_contains out (lit ''DELETE_FAILED''))) (Some (take 160 (trim out)))]))
          else uninstall_verified (logged env) p ([step_of ''guard_target'' True None] @
                [step_of ''pm_uninstall'' (\<not> (str_contains out (lit ''Failure'') \<or> str_contains out (lit ''DELETE_FAILED''))) (Some (take 160 (trim out)))])))
     (\<lambda>r w. (\<exists>e. guarded = Inl e) \<and> w = [] \<and> (\<exists>e. r = Inl e) \<or> guarded = Inr () \<and> ?ran r w)"
  proof (cases guarded)
    case (Inr u)
    show ?thesis unfolding Inr sum.case
      by (rule emits_weaken [OF emits_abind [OF emits_attempt [OF emits_run] check, where C = ?ran]])
        (auto simp: pm_accepted_def simp del: lit_Cons)
  qed (auto intro: emits_basic)
next
  fix x and r :: "aerror + avalue" and v w
  assume "\<exists>r'. Inr x = Inr r' \<and> untouched v \<and> (r' = Inr () \<longrightarrow> (\<exists>e \<in> set v. shows_third_party (up_package p) e))"
    and "(\<exists>e. x = Inl e) \<and> w = [] \<and> (\<exists>e. r = Inl e) \<or> x = Inr () \<and>
      (\<exists>x v. w = (PM, uninstall_args p, x) # v \<and> untouched v \<and> ((\<exists>value. r = Inr value) \<longrightarrow> pm_accepted (PM, uninstall_args p, x) \<and>
       (\<exists>y. v = [(PM, [(lit ''path''), up_package p], y)] \<and> \<not> lists_path (PM, [(lit ''path''), up_package p], y))))"
  then show "uninstall_log p r (v @ w)" unfolding uninstall_log_def by fastforce
qed (auto simp: uninstall_log_def)

section \<open>What a replacement does\<close>

definition shows_sha :: "ustring \<Rightarrow> ustring \<Rightarrow> log_entry list \<Rightarrow> bool" where
  "shows_sha path sha w \<longleftrightarrow>
     (\<exists>e \<in> set w. (fst e, fst (snd e)) \<in> set (sha_candidates path) \<and> sha_answer (snd (snd e)) = Some sha)"

lemma shows_sha_append: "shows_sha path sha v \<Longrightarrow> shows_sha path sha (v @ w)" "shows_sha path sha w \<Longrightarrow> shows_sha path sha (v @ w)"
  by (auto simp: shows_sha_def)

definition only_scripts :: "log_entry list \<Rightarrow> bool" where
  "only_scripts w \<longleftrightarrow> list_all (\<lambda>e. alters e \<longrightarrow> fst e = SU) w"

lemma only_scripts_simps [simp]: "only_scripts []" "only_scripts (v @ w) \<longleftrightarrow> only_scripts v \<and> only_scripts w"
  "only_scripts [(SU, args, a)]"
  by (simp_all add: only_scripts_def)

lemma untouched_only_scripts: "untouched w \<Longrightarrow> only_scripts w"
  by (auto simp: untouched_def only_scripts_def list_all_iff)

lemma emits_try_sha:
  assumes "set cs \<subseteq> set (sha_candidates path)"
  shows "emits (try_sha (logged env) e cs) (\<lambda>r w. untouched w \<and> (\<forall>sha. r = Inr sha \<longrightarrow> shows_sha path sha w))"
  using assms
proof (induction cs)
  case (Cons c cs)
  let ?A = "\<lambda>r w. untouched w \<and> (\<forall>sha. r = Inr sha \<longrightarrow> shows_sha path sha w)"
  obtain program args where c: "c = (program, args)" by (cases c)
  with Cons.prems have mem: "(program, args) \<in> set (sha_candidates path)" by simp
  then have quiet: "\<not> alters (program, args, a)" for a by (auto simp: sha_candidates_def alters_def simp del: lit_Cons)
  have rest: "emits (case sha_answer a of Some sha \<Rightarrow> areturn sha | None \<Rightarrow> try_sha (logged env) e cs)
      (\<lambda>r w. untouched w \<and> (\<forall>sha. r = Inr sha \<longrightarrow> sha_answer a = Some sha \<or> shows_sha path sha w))" for a
    using Cons.IH Cons.prems by (cases "sha_answer a") (auto intro!: emits_basic elim!: emits_weaken)
  show ?case
    unfolding c try_sha.simps
    by (rule emits_abind [OF emits_on_device rest]) (use mem quiet in \<open>auto simp: shows_sha_def\<close>)
qed (simp add: emits_basic)

lemma emits_sha: "emits (file_sha256 (logged env) path) (\<lambda>r w. untouched w \<and> (\<forall>sha. r = Inr sha \<longrightarrow> shows_sha path sha w))"
  unfolding file_sha256_def by (rule emits_try_sha) simp

lemma emits_rollback:
  "emits (rollback (logged env) b t e) (\<lambda>r w. only_scripts w \<and> su_scripts w = [rollback_script b t e] \<and> (\<exists>done. r = Inr done))"
  unfolding rollback_def
  by (rule emits_abind [OF emits_attempt [OF emits_privileged] emits_basic(1) [where A = "\<lambda>r w. w = [] \<and> (\<exists>done. r = Inr done)"]]) auto

lemma emits_replace_verify:
  "emits (replace_verify (logged env) x steps) (\<lambda>r w. only_scripts w \<and>
     ((\<exists>value. r = Inr value) \<and> su_scripts w = [] \<and> shows_sha (target_path x) (staged_sha x) w \<or>
      (\<exists>e. r = Inl e) \<and> su_scripts w = [rollback_script (backup_file x) (target_path x) (had_target x)]))"
  unfolding replace_verify_def Let_def
proof (rule emits_abind [OF emits_attempt [OF emits_sha]])
  fix r
  let ?ok = "r = Inr (staged_sha x)"
  let ?B = "\<lambda>r' w. only_scripts w \<and> (if ?ok then w = [] \<and> (\<exists>value. r' = Inr value)
    else (\<exists>e. r' = Inl e) \<and> su_scripts w = [rollback_script (backup_file x) (target_path x) (had_target x)])"
  have undo: "emits (if v then areturn None
      else abind (rollback (logged env) (backup_file x) (target_path x) (had_target x)) (\<lambda>done. areturn (Some done)))
    (\<lambda>r w. only_scripts w \<and> (if v then w = [] \<and> r = Inr None else
       su_scripts w = [rollback_script (backup_file x) (target_path x) (had_target x)] \<and> (\<exists>done. r = Inr done)))" for v
    by (cases v)
      (simp add: emits_basic, simp, rule emits_abind [OF emits_rollback emits_basic(1) [where A = "\<lambda>r w. w = [] \<and> (\<exists>done. r = Inr done)"]], auto)
  have all: "emits (abind (if v then areturn None
        else abind (rollback (logged env) (backup_file x) (target_path x) (had_target x)) (\<lambda>done. areturn (Some done))) (\<lambda>undone.
      abind (finish_write (logged env) k (f undone)) (\<lambda>_. if \<not> v then athrow (g undone) else areturn (f undone))))
    (\<lambda>r w. only_scripts w \<and> (if v then w = [] \<and> (\<exists>value. r = Inr value)
      else (\<exists>e. r = Inl e) \<and> su_scripts w = [rollback_script (backup_file x) (target_path x) (had_target x)]))" for v k f g
  proof (rule emits_abind [OF undo, where B = "\<lambda>_ r w. w = [] \<and> (if v then \<exists>value. r = Inr value else \<exists>e. r = Inl e)"])
    show "emits (abind (finish_write (logged env) k (f undone)) (\<lambda>_. if \<not> v then athrow (g undone) else areturn (f undone)))
      (\<lambda>r w. w = [] \<and> (if v then \<exists>value. r = Inr value else \<exists>e. r = Inl e))" for undone
      by (cases v) (auto simp: emits_def abind_def finish_write_def athrow_def areturn_def)
  qed auto
  show "emits (case case r of Inl e \<Rightarrow> (False, a e) | Inr sha \<Rightarrow> (sha = staged_sha x, b sha) of (verified, detail) \<Rightarrow>
     abind (if verified then areturn None
          else abind (rollback (logged env) (backup_file x) (target_path x) (had_target x)) (\<lambda>done. areturn (Some done))) (\<lambda>undone.
      abind (finish_write (logged env) k (c verified detail undone)) (\<lambda>_.
         if \<not> verified then athrow (d verified detail undone) else areturn (c verified detail undone)))) ?B" for a b c d k
  proof (cases r)
    case (Inl e)
    from all [of False k "c False (a e)" "d False (a e)"] show ?thesis by (simp add: Inl)
  next
    case (Inr sha)
    from all [of "sha = staged_sha x" k "c (sha = staged_sha x) (b sha)" "d (sha = staged_sha x) (b sha)"]
    show ?thesis by (simp add: Inr)
  qed
qed (auto dest: untouched_no_su untouched_only_scripts shows_sha_append(1) split: if_splits)

definition the_install :: "replacement \<Rightarrow> ustring" where
  "the_install x = install_script (staged_path (asked x)) (target_path x) (target_path x @ lit ''.arttmp'') (target_dir x)"

definition the_rollback :: "replacement \<Rightarrow> ustring" where
  "the_rollback x = rollback_script (backup_file x) (target_path x) (had_target x)"

definition the_backup :: "replacement \<Rightarrow> ustring list" where
  "the_backup x = (if had_target x then [backup_script (target_path x) (backup_file x)] else [])"

text \<open>
  The scripts that run once the target is known: none, or the backup alone, or the install. After an
  install the operation either succeeds, the installed file having shown the digest of the staged
  one, or fails after the rollback script as the last one.
\<close>

definition install_log :: "replacement \<Rightarrow> aerror + avalue \<Rightarrow> log_entry list \<Rightarrow> bool" where
  "install_log x r w \<longleftrightarrow> only_scripts w \<and>
     ((\<exists>e. r = Inl e) \<and> su_scripts w = [] \<or>
      validate_dir (target_dir x) = Inr () \<and>
        ((\<exists>value. r = Inr value) \<and> su_scripts w = [the_install x] \<and> shows_sha (target_path x) (staged_sha x) w \<or>
         (\<exists>e. r = Inl e) \<and> su_scripts w = [the_install x, the_rollback x]))"

definition backup_log :: "replacement \<Rightarrow> aerror + avalue \<Rightarrow> log_entry list \<Rightarrow> bool" where
  "backup_log x r w \<longleftrightarrow> only_scripts w \<and>
     ((\<exists>e. r = Inl e) \<and> su_scripts w = [] \<or>
      validate_path (backup_file x) = Inr () \<and>
        ((\<exists>e. r = Inl e) \<and> su_scripts w = the_backup x \<or>
         validate_dir (target_dir x) = Inr () \<and>
           ((\<exists>value. r = Inr value) \<and> su_scripts w = the_backup x @ [the_install x] \<and> shows_sha (target_path x) (staged_sha x) w \<or>
            (\<exists>e. r = Inl e) \<and> su_scripts w = the_backup x @ [the_install x, the_rollback x])))"

lemma emits_fails: "emits (fails_at name steps e) (\<lambda>r w. w = [] \<and> (\<exists>e. r = Inl e))"
  by (simp add: fails_at_def emits_basic)

lemma emits_replace_install: "emits (replace_install (logged env) x steps) (install_log x)"
proof (cases "validate_dir (target_dir x)")
  case (Inl e)
  show ?thesis unfolding replace_install_def Inl sum.case
    by (rule emits_weaken [OF emits_fails]) (auto simp: install_log_def)
next
  case (Inr u)
  have tail: "emits (case r of
      Inl e \<Rightarrow> abind (rollback (logged env) (backup_file x) (target_path x) (had_target x)) (\<lambda>undone. athrow (f e undone))
    | Inr _ \<Rightarrow> replace_verify (logged env) x steps')
    (\<lambda>r w. only_scripts w \<and> ((\<exists>value. r = Inr value) \<and> su_scripts w = [] \<and> shows_sha (target_path x) (staged_sha x) w \<or>
      (\<exists>e. r = Inl e) \<and> su_scripts w = [the_rollback x]))" for r :: "aerror + 'b" and f steps'
  proof (cases r)
    case (Inl e)
    show ?thesis unfolding Inl sum.case the_rollback_def
      by (rule emits_abind [OF emits_rollback emits_basic(2) [where B = "\<lambda>r w. w = [] \<and> (\<exists>e. r = Inl e)"]]) auto
  next
    case (Inr y)
    show ?thesis unfolding Inr sum.case the_rollback_def by (rule emits_weaken [OF emits_replace_verify]) auto
  qed
  show ?thesis unfolding replace_install_def Inr sum.case
    by (rule emits_abind [OF emits_attempt [OF emits_privileged] tail])
      (use Inr shows_sha_append(2) in \<open>auto simp: install_log_def the_install_def\<close>)
qed

lemma emits_replace_backup: "emits (replace_backup (logged env) x steps) (backup_log x)"
proof (cases "validate_path (backup_file x)")
  case (Inl e)
  show ?thesis unfolding replace_backup_def Inl abind_alift
    by (rule emits_basic) (simp add: backup_log_def)
next
  case (Inr u)
  have tail: "emits (case r of Inl e \<Rightarrow> fails_at name steps e | Inr _ \<Rightarrow> replace_install (logged env) x steps')
    (\<lambda>r w. w = [] \<and> (\<exists>e. r = Inl e) \<or> install_log x r w)" for r :: "aerror + 'b" and name steps'
    by (cases r) (auto intro: emits_weaken [OF emits_fails] emits_weaken [OF emits_replace_install])
  have "emits (if had_target x then
       abind (attempt (run_privileged (logged env) label (backup_script (target_path x) (backup_file x)) expect)) (\<lambda>r.
       case r of Inl e \<Rightarrow> fails_at name steps e | Inr _ \<Rightarrow> replace_install (logged env) x (f r))
     else replace_install (logged env) x steps') (backup_log x)" for label expect name f steps'
  proof (cases "had_target x")
    case True
    show ?thesis unfolding if_P [OF True]
      by (rule emits_abind [OF emits_attempt [OF emits_privileged] tail])
        (use Inr True shows_sha_append(2) in \<open>auto simp: backup_log_def install_log_def the_backup_def\<close>)
  next
    case False
    show ?thesis unfolding if_not_P [OF False]
      by (rule emits_weaken [OF emits_replace_install]) (use Inr False in \<open>auto simp: backup_log_def install_log_def the_backup_def\<close>)
  qed
  then show ?thesis unfolding replace_backup_def Inr abind_alift .
qed

text \<open>The whole operation: nothing is changed, or only the scripts above run, after the guard and the checks.\<close>

definition replace_log :: "replace_params \<Rightarrow> aerror + avalue \<Rightarrow> log_entry list \<Rightarrow> bool" where
  "replace_log p r w \<longleftrightarrow> untouched w \<and> (\<exists>e. r = Inl e) \<or>
     (\<exists>u v x. w = u @ v \<and> untouched u \<and> (\<exists>e \<in> set u. shows_third_party (rp_package p) e) \<and>
        shows_sha (staged_path p) (staged_sha x) u \<and> asked x = p \<and> backup_file x = backup_of p \<and>
        replace_checked p = Inr () \<and> validate_path (target_path x) = Inr () \<and>
        target_path x = (target_dir x @ lit ''/'' @ so_name p) \<and> backup_log x r v)"

definition staged_log :: "replace_params \<Rightarrow> aerror + avalue \<Rightarrow> log_entry list \<Rightarrow> bool" where
  "staged_log p r w \<longleftrightarrow> untouched w \<and> (\<exists>e. r = Inl e) \<or>
     (\<exists>u v x. w = u @ v \<and> untouched u \<and> shows_sha (staged_path p) (staged_sha x) u \<and> asked x = p \<and> backup_file x = backup_of p \<and>
        validate_path (target_path x) = Inr () \<and> target_path x = (target_dir x @ lit ''/'' @ so_name p) \<and> backup_log x r v)"

lemma staged_log_after:
  assumes "untouched v" "staged_log p r w"
  shows "staged_log p r (v @ w)"
  using assms(2) unfolding staged_log_def
proof (elim disjE exE conjE)
  fix a b x
  assume "w = a @ b" "untouched a" "shows_sha (staged_path p) (staged_sha x) a" "asked x = p" "backup_file x = backup_of p"
    "validate_path (target_path x) = Inr ()" "target_path x = (target_dir x @ lit ''/'' @ so_name p)" "backup_log x r b"
  then have "v @ w = (v @ a) @ b \<and> untouched (v @ a) \<and> shows_sha (staged_path p) (staged_sha x) (v @ a) \<and> asked x = p \<and>
      backup_file x = backup_of p \<and> validate_path (target_path x) = Inr () \<and>
      target_path x = (target_dir x @ lit ''/'' @ so_name p) \<and> backup_log x r b"
    using assms(1) shows_sha_append(2) by simp
  then show "untouched (v @ w) \<and> (\<exists>e. r = Inl e) \<or> (\<exists>u va x. v @ w = u @ va \<and> untouched u \<and>
      shows_sha (staged_path p) (staged_sha x) u \<and> asked x = p \<and> backup_file x = backup_of p \<and>
      validate_path (target_path x) = Inr () \<and> target_path x = (target_dir x @ lit ''/'' @ so_name p) \<and> backup_log x r va)"
    by blast
qed (use assms(1) in simp)

lemma emits_replace_staged:
  assumes "validate_path path = Inr ()" "path = (dir @ lit ''/'' @ so_name p)"
  shows "emits (replace_staged (logged env) p dir path exists steps) (staged_log p)"
  unfolding replace_staged_def
proof (rule emits_abind [OF emits_attempt [OF emits_sha]])
  fix r
  show "emits (case r of Inl e \<Rightarrow> fails_at name steps e
    | Inr sha \<Rightarrow> asking f (\<lambda>elf. if \<not> elf then athrow (g elf) else
        replace_backup (logged env) \<lparr>asked = p, target_dir = dir, target_path = path, had_target = exists, staged_sha = sha,
          backup_file = backup_of p\<rparr> (h sha)))
    (\<lambda>r' w. w = [] \<and> (\<exists>e. r' = Inl e) \<or> (\<exists>x. r = Inr (staged_sha x) \<and> asked x = p \<and> backup_file x = backup_of p \<and>
        target_path x = path \<and> target_dir x = dir \<and> backup_log x r' w))" for name f g h
  proof (cases r)
    case (Inl e)
    show ?thesis unfolding Inl sum.case by (rule emits_weaken [OF emits_fails]) auto
  next
    case (Inr sha)
    show ?thesis unfolding Inr sum.case
      by (rule emits_asking) (auto intro!: emits_basic emits_weaken [OF emits_replace_backup])
  qed
qed (use assms in \<open>auto simp: staged_log_def\<close>)

lemma dumpsys_untouched: "emits (dumpsys_package (logged env) package user) (\<lambda>r. untouched)"
  by (auto simp: emits_def dumpsys_package_def abind_def on_device_def logged_def athrow_def areturn_def alters_def Let_def
      split: prod.splits option.splits sum.splits if_splits)

lemma resolve_untouched: "emits (resolve_native_lib_dir (logged env) package abi user) (\<lambda>r. untouched)"
  unfolding resolve_native_lib_dir_def
  by (rule emits_abind [OF emits_basic(3) [where C = "\<lambda>r w. w = []"]], simp,
      rule emits_abind [OF emits_basic(3) [where C = "\<lambda>r w. w = []"]], simp,
      rule emits_abind [OF dumpsys_untouched emits_basic(3) [where C = "\<lambda>r w. w = []"]]) auto

lemma emits_replace: "emits (replace_now (logged env) lstat p) (replace_log p)"
proof (cases "replace_checked p")
  case (Inl e)
  show ?thesis unfolding replace_now_def Inl abind_alift by (rule emits_basic) (simp add: replace_log_def)
next
  case (Inr u)
  have resolve: "emits (replace_resolve (logged env) lstat p steps) (staged_log p)" for steps
    unfolding replace_resolve_def Let_def
  proof (rule emits_abind [OF emits_attempt [OF resolve_untouched], where B = "\<lambda>_. (staged_log p)"])
    have fails: "emits (fails_at name steps e) (staged_log p)" for name steps e
      by (rule emits_weaken [OF emits_fails]) (auto simp: staged_log_def)
    have "emits (case validate_path (dir @ (lit ''/'' @ so_name p)) of Inl e \<Rightarrow> fails_at name steps e
        | Inr _ \<Rightarrow> asking f (\<lambda>exists. replace_staged (logged env) p dir (dir @ (lit ''/'' @ so_name p)) exists steps')) (staged_log p)" for dir name f steps'
      by (cases "validate_path (dir @ (lit ''/'' @ so_name p))") (auto simp: fails simp del: lit_Cons intro!: emits_asking emits_replace_staged)
    with fails show "emits (case r of Inl e \<Rightarrow> fails_at name steps e
        | Inr native \<Rightarrow> (case validate_path (d native @ (lit ''/'' @ so_name p)) of Inl e \<Rightarrow> fails_at name' steps e
          | Inr _ \<Rightarrow> asking (lstat (d native @ (lit ''/'' @ so_name p)))
              (\<lambda>exists. replace_staged (logged env) p (d native) (d native @ (lit ''/'' @ so_name p)) exists (g native)))) (staged_log p)"
      for r :: "aerror + native_lib_dir_result" and d g name name'
      by (cases r) simp_all
    fix x r v w assume "\<exists>r'. Inr x = Inr r' \<and> untouched v" "staged_log p r w"
    then show "staged_log p r (v @ w)" by (auto intro: staged_log_after)
  qed (auto simp: staged_log_def)
  show ?thesis
    unfolding replace_now_def Inr abind_alift Let_def
  proof (rule emits_abind [OF emits_attempt [OF emits_guard], where B = "\<lambda>guarded r w. case guarded of
      Inl e \<Rightarrow> w = [] \<and> (\<exists>e. r = Inl e) | Inr _ \<Rightarrow> staged_log p r w"])
    show "emits (case guarded of Inl e \<Rightarrow> fails_at name steps e | Inr _ \<Rightarrow> replace_resolve (logged env) lstat p steps')
      (\<lambda>r w. case guarded of Inl e \<Rightarrow> w = [] \<and> (\<exists>e. r = Inl e) | Inr _ \<Rightarrow> staged_log p r w)" for guarded :: "aerror + unit" and name steps steps'
      by (cases guarded) (simp_all add: emits_fails resolve)
    fix x r v w
    assume v: "\<exists>r'. Inr x = Inr r' \<and> untouched v \<and> (r' = Inr () \<longrightarrow> (\<exists>e \<in> set v. shows_third_party (rp_package p) e))"
      and w: "case x of Inl e \<Rightarrow> w = [] \<and> (\<exists>e. r = Inl e) | Inr _ \<Rightarrow> staged_log p r w"
    show "replace_log p r (v @ w)"
    proof (cases x)
      case (Inr y)
      with v have t: "untouched v" "\<exists>e \<in> set v. shows_third_party (rp_package p) e" by auto
      from w Inr consider "untouched w" "\<exists>e. r = Inl e"
        | a b x where "w = a @ b" "untouched a" "shows_sha (staged_path p) (staged_sha x) a" "asked x = p" "backup_file x = backup_of p"
            "validate_path (target_path x) = Inr ()" "target_path x = (target_dir x @ lit ''/'' @ so_name p)" "backup_log x r b"
        by (auto simp: staged_log_def)
      then show ?thesis
      proof cases
        case 2
        with t \<open>replace_checked p = Inr u\<close> show ?thesis
          unfolding replace_log_def
          by (intro disjI2 exI [of _ "v @ a"] exI [of _ b] exI [of _ x]) (auto intro: shows_sha_append(2))
      qed (use t in \<open>simp add: replace_log_def\<close>)
    qed (use v w in \<open>auto simp: replace_log_def\<close>)
  qed (auto simp: replace_log_def)
qed

section \<open>The provider as a whole\<close>

definition altered_after_listing :: "ustring \<Rightarrow> log_entry list \<Rightarrow> bool" where
  "altered_after_listing package w \<longleftrightarrow>
     (\<forall>u e v. w = u @ e # v \<longrightarrow> alters e \<longrightarrow> (\<exists>x \<in> set u. shows_third_party package x) \<and>
        (fst e = PM \<longrightarrow> last (fst (snd e)) = package))"

lemma altered_later:
  assumes "untouched a" "\<exists>x \<in> set a. shows_third_party package x"
    and "\<And>e. e \<in> set b \<Longrightarrow> alters e \<Longrightarrow> fst e = PM \<Longrightarrow> last (fst (snd e)) = package"
  shows "altered_after_listing package (a @ b)"
  unfolding altered_after_listing_def
proof (intro allI impI)
  fix u e v assume "a @ b = u @ e # v" "alters e"
  then consider c where "u = a @ c" "e \<in> set b" | c where "a = u @ e # c" by (auto simp: append_eq_append_conv2 append_eq_Cons_conv Cons_eq_append_conv)
  then show "(\<exists>x \<in> set u. shows_third_party package x) \<and> (fst e = PM \<longrightarrow> last (fst (snd e)) = package)"
  proof cases
    case 2
    with assms(1) \<open>alters e\<close> show ?thesis by simp
  qed (use assms(2,3) \<open>alters e\<close> in auto)
qed

lemma untouched_after_listing: "untouched w \<Longrightarrow> altered_after_listing package w"
  by (auto simp: altered_after_listing_def)

lemma uninstall_log_guarded: "uninstall_log p r w \<Longrightarrow> altered_after_listing (up_package p) w"
  unfolding uninstall_log_def
proof (elim disjE exE conjE)
  fix u x v
  assume "w = u @ (PM, uninstall_args p, x) # v" "untouched u" "untouched v" "\<exists>e \<in> set u. shows_third_party (up_package p) e"
  moreover have "last (uninstall_args p) = up_package p" by (simp add: uninstall_args_def)
  ultimately have "altered_after_listing (up_package p) (u @ (PM, uninstall_args p, x) # v)"
    by (intro altered_later) (auto simp: untouched_def list_all_iff)
  then show ?thesis using \<open>w = _\<close> by simp
qed (rule untouched_after_listing)

lemma replace_log_guarded: "replace_log p r w \<Longrightarrow> altered_after_listing (rp_package p) w"
  unfolding replace_log_def
proof (elim disjE exE conjE)
  fix u v x
  assume "w = u @ v" "untouched u" "\<exists>e \<in> set u. shows_third_party (rp_package p) e" "backup_log x r v"
  then show ?thesis using altered_later [of u "rp_package p" v]
    by (auto simp: backup_log_def only_scripts_def list_all_iff)
qed (rule untouched_after_listing)

lemma uninstall_exact: "emits (uninstall (logged env) params) (\<lambda>r w. w = [] \<or>
    (\<exists>p. package_params (logged env) uninstall_params_from params = Inr p \<and> is_safe_package_name (up_package p) \<and>
       is_valid_operation_id (up_operation p) \<and> uninstall_log p r w))"
  unfolding uninstall_def by (rule emits_weaken [OF emits_submit [OF emits_uninstall]]) (use begin_write_checks in fastforce)

lemma replace_exact: "emits (replace_native_library (logged env) lstat params) (\<lambda>r w. w = [] \<or>
    (\<exists>p. package_params (logged env) replace_params_from params = Inr p \<and> is_safe_package_name (rp_package p) \<and>
       is_valid_operation_id (rp_operation p) \<and> replace_log p r w))"
  unfolding replace_native_library_def
  by (rule emits_weaken [OF emits_submit [OF emits_replace]]) (use begin_write_checks in fastforce)

lemma native_lib_dir_untouched: "emits (native_lib_dir_of (logged env) params) (\<lambda>r. untouched)"
proof (cases "package_params (logged env) native_params_from params")
  case (Inr x)
  show ?thesis unfolding native_lib_dir_of_def Inr abind_alift case_prod_unfold
    by (rule emits_abind [OF resolve_untouched emits_basic(1) [where A = "\<lambda>r w. w = []"]]) auto
qed (simp add: native_lib_dir_of_def emits_basic)

lemma package_guarded:
  "emits (package_handle (logged env) lstat meth params) (\<lambda>r w. untouched w \<or>
     (\<exists>package. is_safe_package_name package \<and> altered_after_listing package w))"
proof -
  let ?A = "\<lambda>r w. untouched w \<or> (\<exists>package. is_safe_package_name package \<and> altered_after_listing package w)"
  have "emits (uninstall (logged env) params) ?A"
    by (rule emits_weaken [OF uninstall_exact]) (use uninstall_log_guarded in auto)
  moreover have "emits (replace_native_library (logged env) lstat params) ?A"
    by (rule emits_weaken [OF replace_exact]) (use replace_log_guarded in auto)
  moreover have "emits (native_lib_dir_of (logged env) params) ?A"
    by (rule emits_weaken [OF native_lib_dir_untouched]) simp
  ultimately show ?thesis unfolding package_handle_def by (auto intro: emits_basic simp del: lit_Cons)
qed

text \<open>Every script is one of the three templates, filled with checked paths only.\<close>

definition checked_script :: "ustring \<Rightarrow> bool" where
  "checked_script script \<longleftrightarrow> (\<exists>staged target backup dir had. shell_safe staged \<and> shell_safe target \<and> shell_safe (target @ lit ''.arttmp'') \<and>
     shell_safe backup \<and> shell_safe dir \<and>
     script \<in> {backup_script target backup, install_script staged target (target @ lit ''.arttmp'') dir, rollback_script backup target had})"

lemma checked_script_frame:
  assumes "checked_script script"
  shows "shell_frame script \<in> {shell_frame (backup_script [] []), shell_frame (install_script [] [] [] []),
    shell_frame (rollback_script [] [] True), shell_frame (rollback_script [] [] False)}"
proof -
  from assms obtain staged target backup dir had where safe: "inert staged" "inert target" "inert (target @ lit ''.arttmp'')" "inert backup" "inert dir"
    and s: "script \<in> {backup_script target backup, install_script staged target (target @ lit ''.arttmp'') dir, rollback_script backup target had}"
    unfolding checked_script_def shell_safe_def by blast
  from s backup_script_structure [OF safe(2,4)] install_script_structure [OF safe(1,2,3,5)] rollback_script_structure [OF safe(4,2), of had]
  show ?thesis by (cases had) auto
qed

lemma replace_checked_staged: "replace_checked p = Inr () \<Longrightarrow> validate_path (staged_path p) = Inr () \<and> is_safe_so_name (so_name p)"
  by (auto simp: replace_checked_def split: if_splits) (cases "validate_path (staged_path p)"; simp)+

lemma backup_log_scripts:
  assumes "backup_log x r w" "replace_checked (asked x) = Inr ()" "validate_path (target_path x) = Inr ()"
    and dir: "target_path x = (target_dir x @ lit ''/'' @ so_name (asked x))"
    and "script \<in> set (su_scripts w)"
  shows "checked_script script"
proof -
  from replace_checked_staged [OF assms(2)] have st: "shell_safe (staged_path (asked x))" using validate_path_safe by blast
  have t: "shell_safe (target_path x)" "shell_safe (target_path x @ lit ''.arttmp'')"
    using validate_path_safe [OF assms(3)] validate_path_suffix [OF assms(3)] shell_safe_tmp by auto
  from assms(1,5) have ok: "validate_path (backup_file x) = Inr ()" by (auto simp: backup_log_def)
  then have b: "shell_safe (backup_file x)" by (rule validate_path_safe)
  show ?thesis
  proof (cases "validate_dir (target_dir x) = Inr ()")
    case True
    then have d: "shell_safe (target_dir x)" by (rule validate_dir_safe)
    from assms(1,5) have "script \<in> {backup_script (target_path x) (backup_file x), the_install x, the_rollback x}"
      by (auto simp: backup_log_def the_backup_def split: if_splits)
    with st t b d show ?thesis unfolding checked_script_def the_install_def the_rollback_def by blast
  next
    case False
    with assms(1,5) have "script = backup_script (target_path x) (backup_file x)"
      by (auto simp: backup_log_def the_backup_def split: if_splits)
    with t b show ?thesis unfolding checked_script_def by blast
  qed
qed

lemma replace_log_scripts: "replace_log p r w \<Longrightarrow> script \<in> set (su_scripts w) \<Longrightarrow> checked_script script"
  unfolding replace_log_def using backup_log_scripts untouched_no_su
  by (fastforce simp del: lit_Cons)

lemma uninstall_log_scripts: "uninstall_log p r w \<Longrightarrow> su_scripts w = []"
  unfolding uninstall_log_def using untouched_no_su by (auto simp: su_scripts_def)

lemma package_scripts_checked:
  "emits (package_handle (logged env) lstat meth params) (\<lambda>r w. \<forall>script \<in> set (su_scripts w). checked_script script)"
proof -
  let ?A = "\<lambda>r w. \<forall>script \<in> set (su_scripts w). checked_script script"
  have "emits (uninstall (logged env) params) ?A"
    by (rule emits_weaken [OF uninstall_exact]) (use uninstall_log_scripts in auto)
  moreover have "emits (replace_native_library (logged env) lstat params) ?A"
    by (rule emits_weaken [OF replace_exact]) (use replace_log_scripts in auto)
  moreover have "emits (native_lib_dir_of (logged env) params) ?A"
    by (rule emits_weaken [OF native_lib_dir_untouched]) (simp add: untouched_no_su)
  ultimately show ?thesis unfolding package_handle_def by (auto intro: emits_basic simp del: lit_Cons)
qed

end
