(* ===== verification/Agent_Files.thy ===== *)
theory Agent_Files
  imports Agent_Params Rust_Path Chef_Data "HOL-Library.List_Lexorder"
begin

text \<open>
  The reading side of the filesystem provider (\<open>android-agent/src/provider/filesystem.rs\<close>): listing a
  directory, the metadata of a path, and a bounded preview of a file. What the kernel answers is a
  parameter, a record with one field per system call; names are valid texts.
\<close>

section \<open>Kinds and permission bits\<close>

datatype file_kind = Kind_Dir | Kind_File | Kind_Symlink | Kind_Socket | Kind_Fifo | Kind_Block | Kind_Char | Kind_Other

definition S_IFMT :: u32 where "S_IFMT = 0xf000"
definition S_IFDIR :: u32 where "S_IFDIR = 0x4000"
definition S_IFREG :: u32 where "S_IFREG = 0x8000"
definition S_IFLNK :: u32 where "S_IFLNK = 0xa000"
definition S_IFSOCK :: u32 where "S_IFSOCK = 0xc000"
definition S_IFIFO :: u32 where "S_IFIFO = 0x1000"
definition S_IFBLK :: u32 where "S_IFBLK = 0x6000"
definition S_IFCHR :: u32 where "S_IFCHR = 0x2000"
definition S_ISUID :: u32 where "S_ISUID = 0x800"
definition S_ISGID :: u32 where "S_ISGID = 0x400"
definition S_ISVTX :: u32 where "S_ISVTX = 0x200"
definition PERMISSION_BITS :: u32 where "PERMISSION_BITS = 0xfff"

fun type_char :: "file_kind \<Rightarrow> rchar" where
  "type_char Kind_Dir = ch CHR ''d''"
| "type_char Kind_File = ch CHR ''-''"
| "type_char Kind_Symlink = ch CHR ''l''"
| "type_char Kind_Socket = ch CHR ''s''"
| "type_char Kind_Fifo = ch CHR ''p''"
| "type_char Kind_Block = ch CHR ''b''"
| "type_char Kind_Char = ch CHR ''c''"
| "type_char Kind_Other = ch CHR ''?''"

definition kind_from_mode :: "u32 \<Rightarrow> file_kind" where
  "kind_from_mode mode =
     (let t = mode AND S_IFMT in
      if t = S_IFDIR then Kind_Dir else if t = S_IFREG then Kind_File else if t = S_IFLNK then Kind_Symlink
      else if t = S_IFSOCK then Kind_Socket else if t = S_IFIFO then Kind_Fifo else if t = S_IFBLK then Kind_Block
      else if t = S_IFCHR then Kind_Char else Kind_Other)"

definition render_triplet :: "u32 \<Rightarrow> bool \<Rightarrow> rchar \<Rightarrow> rchar list" where
  "render_triplet triplet special marker =
     [if triplet AND 4 \<noteq> 0 then ch CHR ''r'' else ch CHR ''-'', if triplet AND 2 \<noteq> 0 then ch CHR ''w'' else ch CHR ''-'',
      if triplet AND 1 \<noteq> 0 then (if special then marker else ch CHR ''x'')
      else (if special then to_ascii_upper marker else ch CHR ''-'')]"

definition render_mode_text :: "file_kind \<Rightarrow> u32 \<Rightarrow> ustring" where
  "render_mode_text kind mode =
     type_char kind # render_triplet (drop_bit 6 mode AND 7) (mode AND S_ISUID \<noteq> 0) (ch (CHR ''s'')) @
       render_triplet (drop_bit 3 mode AND 7) (mode AND S_ISGID \<noteq> 0) (ch (CHR ''s'')) @
       render_triplet (mode AND 7) (mode AND S_ISVTX \<noteq> 0) (ch (CHR ''t''))"

fun file_kind_name :: "file_kind \<Rightarrow> ustring" where
  "file_kind_name Kind_Dir = (lit ''dir'')"
| "file_kind_name Kind_File = (lit ''file'')"
| "file_kind_name Kind_Symlink = (lit ''symlink'')"
| "file_kind_name Kind_Socket = (lit ''socket'')"
| "file_kind_name Kind_Fifo = (lit ''fifo'')"
| "file_kind_name Kind_Block = (lit ''block'')"
| "file_kind_name Kind_Char = (lit ''char'')"
| "file_kind_name Kind_Other = (lit ''other'')"

section \<open>The system calls\<close>

datatype os_kind = Os_Not_Found | Os_Permission_Denied | Os_Other ustring

record os_error =
  errno :: "int option"
  os_kind_of :: os_kind
  os_text :: ustring

record metadata =
  md_mode :: u32
  md_uid :: nat
  md_gid :: nat
  md_size :: nat
  md_mtime :: int

record 'd fs_env =
  fs_lstat :: "ustring \<Rightarrow> 'd \<Rightarrow> os_error + metadata"
  fs_stat :: "ustring \<Rightarrow> 'd \<Rightarrow> os_error + metadata"
  fs_canonical :: "ustring \<Rightarrow> 'd \<Rightarrow> os_error + ustring"
  fs_read_dir :: "ustring \<Rightarrow> 'd \<Rightarrow> os_error + (os_error + ustring) list"
  fs_read_link :: "ustring \<Rightarrow> 'd \<Rightarrow> os_error + ustring"
  fs_access :: "ustring \<Rightarrow> bool \<Rightarrow> 'd \<Rightarrow> bool"
  fs_open :: "ustring \<Rightarrow> 'd \<Rightarrow> os_error + unit"
  fs_seek :: "ustring \<Rightarrow> nat \<Rightarrow> 'd \<Rightarrow> os_error + unit"
  fs_read :: "ustring \<Rightarrow> nat \<Rightarrow> nat \<Rightarrow> 'd \<Rightarrow> os_error + bytes"
  fs_create_dir :: "ustring \<Rightarrow> 'd \<Rightarrow> (os_error + unit) \<times> 'd"
  fs_rename :: "ustring \<Rightarrow> ustring \<Rightarrow> 'd \<Rightarrow> (os_error + unit) \<times> 'd"
  fs_remove_file :: "ustring \<Rightarrow> 'd \<Rightarrow> (os_error + unit) \<times> 'd"
  fs_remove_dir :: "ustring \<Rightarrow> 'd \<Rightarrow> (os_error + unit) \<times> 'd"
  fs_remove_dir_all :: "ustring \<Rightarrow> 'd \<Rightarrow> (os_error + unit) \<times> 'd"
  fs_set_mode :: "ustring \<Rightarrow> u32 \<Rightarrow> 'd \<Rightarrow> (os_error + unit) \<times> 'd"
  fs_roots_var :: "ustring option"
  fs_write_roots_var :: "ustring option"
  fs_de_text :: "de_error \<Rightarrow> ustring"

definition is_dir :: "metadata \<Rightarrow> bool" where
  "is_dir m \<longleftrightarrow> kind_from_mode (md_mode m) = Kind_Dir"

section \<open>Errors\<close>

fun os_kind_text :: "os_kind \<Rightarrow> ustring" where
  "os_kind_text Os_Not_Found = (lit ''NotFound'')"
| "os_kind_text Os_Permission_Denied = (lit ''PermissionDenied'')"
| "os_kind_text (Os_Other t) = t"

definition ENOENT :: int where "ENOENT = 2"
definition EPERM :: int where "EPERM = 1"
definition EACCES :: int where "EACCES = 13"
definition ENOTDIR :: int where "ENOTDIR = 20"
definition ENAMETOOLONG :: int where "ENAMETOOLONG = 36"
definition ELOOP :: int where "ELOOP = 40"

definition classify_os_error :: "os_error \<Rightarrow> error_code \<times> ustring" where
  "classify_os_error e =
     (if errno e = Some ENOENT then (Not_Found, (lit ''not_found''))
      else if errno e = Some ENOTDIR then (Not_Found, (lit ''not_a_directory''))
      else if errno e = Some EACCES \<or> errno e = Some EPERM then (Permission_Denied, (lit ''permission_denied''))
      else if errno e = Some ELOOP then (Invalid_Request, (lit ''symlink_loop''))
      else if errno e = Some ENAMETOOLONG then (Invalid_Request, (lit ''name_too_long''))
      else (case os_kind_of e of
              Os_Not_Found \<Rightarrow> (Not_Found, (lit ''not_found''))
            | Os_Permission_Denied \<Rightarrow> (Permission_Denied, (lit ''permission_denied''))
            | Os_Other _ \<Rightarrow> (Internal, (lit ''io_error''))))"

definition io_error :: "string \<Rightarrow> ustring \<Rightarrow> os_error \<Rightarrow> aerror" where
  "io_error operation path e =
     (case classify_os_error e of (code, why) \<Rightarrow>
        with_details (agent_error_new code (lit operation @ [32, 22833, 36133, 32] @ path @ lit '': '' @ os_text e))
          (VObject [((lit ''errno''), case errno e of None \<Rightarrow> VNull | Some i \<Rightarrow> json_int i),
            ((lit ''io_kind''), VString (os_kind_text (os_kind_of e))), ((lit ''op''), VString (lit operation)),
            ((lit ''path''), VString path), ((lit ''reason''), VString why)]))"

definition reason_of :: "os_error \<Rightarrow> ustring" where
  "reason_of e = (os_kind_text (os_kind_of e) @ lit '' errno='' @ (case errno e of None \<Rightarrow> lit ''None'' | Some i \<Rightarrow> lit ''Some('' @ show_int i @ lit '')''))"

definition invalid_request :: "string \<Rightarrow> ustring \<Rightarrow> aerror" where
  "invalid_request why message = with_details (agent_error_new Invalid_Request message) (reason_details (lit why))"

definition fs_params :: "'d fs_env \<Rightarrow> (avalue \<Rightarrow> de_error + 'p) \<Rightarrow> avalue \<Rightarrow> aerror + 'p" where
  "fs_params env from v =
     rmap_err (\<lambda>e. with_details (agent_error_new Invalid_Request (lit ''invalid filesystem parameters'')) (reason_details (fs_de_text env e))) (from v)"

section \<open>Paths\<close>

definition normalize :: "ustring \<Rightarrow> ustring" where
  "normalize path = path_from (filter (\<lambda>c. c \<noteq> (lit ''..'')) (components path))"

definition validate_fs_path :: "ustring \<Rightarrow> aerror + ustring" where
  "validate_fs_path raw =
     (if raw = [] then Inl (invalid_request ''empty_path'' [36335, 24452, 19981, 33021, 20026, 31354])
      else if 0 \<in> set raw then Inl (invalid_request ''nul_in_path'' ([36335, 24452, 19981, 24471, 21253, 21547] @ lit '' NUL '' @ [23383, 33410]))
      else if \<not> is_absolute raw then Inl (invalid_request ''not_absolute'' ([36335, 24452, 24517, 39035, 26159, 32477, 23545, 36335, 24452, 58, 32] @ raw))
      else if (lit ''..'') \<in> set (components raw) then Inl (invalid_request ''parent_escape'' ([36335, 24452, 19981, 24471, 21253, 21547, 32, 96, 46, 46, 96, 32, 27573, 58, 32] @ raw))
      else Inr (normalize raw))"

definition split_last :: "ustring \<Rightarrow> ustring \<times> ustring option" where
  "split_last path =
     (case file_name path of
        Some name \<Rightarrow> (case absolute_parent path of Some p \<Rightarrow> p | None \<Rightarrow> [47], Some name)
      | None \<Rightarrow> (path, None))"

definition parse_allowed_roots :: "ustring \<Rightarrow> ustring list" where
  "parse_allowed_roots raw =
     filter (\<lambda>v. starts_with v [47] \<and> 1 < length (utf8 v)) (map trim (split_pred (\<lambda>c. c = 44) raw))"

definition allowed_roots :: "'d fs_env \<Rightarrow> ustring list" where
  "allowed_roots env = parse_allowed_roots (case fs_roots_var env of None \<Rightarrow> [] | Some v \<Rightarrow> v)"

definition check_allowed_roots_with :: "ustring \<Rightarrow> ustring list \<Rightarrow> aerror + unit" where
  "check_allowed_roots_with canonical roots =
     (if roots = [] \<or> list_ex (path_starts_with canonical) roots then Inr ()
      else Inl (with_details (agent_error_new Permission_Denied ([36335, 24452, 19981, 22312, 20801, 35768, 33539, 22260, 20869, 58, 32] @ canonical))
        (VObject [((lit ''allowed_roots''), VArray (map VString roots)), ((lit ''path''), VString canonical), ((lit ''reason''), VString (lit ''path_not_allowed''))])))"

definition canonicalize :: "'d fs_env \<Rightarrow> ustring \<Rightarrow> 'd \<Rightarrow> aerror + ustring" where
  "canonicalize env path d =
     rbind (rmap_err (io_error ''canonicalize'' path) (fs_canonical env path d)) (\<lambda>canonical.
     rbind (check_allowed_roots_with canonical (allowed_roots env)) (\<lambda>_. Inr canonical))"

definition metadata_of :: "'d fs_env \<Rightarrow> ustring \<Rightarrow> bool \<Rightarrow> 'd \<Rightarrow> aerror + metadata" where
  "metadata_of env path follow d =
     rmap_err (io_error (if follow then ''stat'' else ''lstat'') path) (if follow then fs_stat env path d else fs_lstat env path d)"

definition kind_of :: "'d fs_env \<Rightarrow> ustring \<Rightarrow> bool \<Rightarrow> 'd \<Rightarrow> aerror + file_kind" where
  "kind_of env path follow d = rmap (\<lambda>m. kind_from_mode (md_mode m)) (metadata_of env path follow d)"

section \<open>Listing\<close>

record file_stat =
  st_name :: ustring
  st_kind :: file_kind
  st_mode :: u32
  st_mode_text :: ustring
  st_uid :: nat
  st_gid :: nat
  st_size :: nat
  st_mtime :: nat
  st_target :: "ustring option"
  st_readable :: bool

definition is_readable :: "'d fs_env \<Rightarrow> ustring \<Rightarrow> file_kind \<Rightarrow> 'd \<Rightarrow> bool" where
  "is_readable env path kind d \<longleftrightarrow> 0 \<notin> set path \<and> fs_access env path (kind = Kind_Dir) d"

definition file_stat_of :: "'d fs_env \<Rightarrow> ustring \<Rightarrow> metadata \<Rightarrow> ustring \<Rightarrow> 'd \<Rightarrow> file_stat" where
  "file_stat_of env name m path d =
     (let kind = kind_from_mode (md_mode m); mode = md_mode m AND PERMISSION_BITS in
      \<lparr>st_name = name, st_kind = kind, st_mode = mode, st_mode_text = render_mode_text kind mode, st_uid = md_uid m, st_gid = md_gid m,
        st_size = md_size m, st_mtime = nat (max (md_mtime m) 0),
        st_target = (if kind = Kind_Symlink then ok_value (fs_read_link env path d) else None),
        st_readable = is_readable env path kind d\<rparr>)"

definition json_nat :: "nat \<Rightarrow> avalue" where
  "json_nat n = VNumber (Pos_Int n)"

definition json_mode :: "u32 \<Rightarrow> avalue" where
  "json_mode m = json_nat (unat m)"

definition file_stat_value :: "file_stat \<Rightarrow> avalue" where
  "file_stat_value s =
     VObject ([((lit ''gid''), json_nat (st_gid s)), ((lit ''kind''), VString (file_kind_name (st_kind s))), ((lit ''mode''), json_mode (st_mode s)),
       ((lit ''mode_text''), VString (st_mode_text s)), ((lit ''mtime_unix''), json_nat (st_mtime s)), ((lit ''name''), VString (st_name s)),
       ((lit ''readable''), VBool (st_readable s)), ((lit ''size''), json_nat (st_size s))] @
       opt_field ''symlink_target'' VString (st_target s) @ [((lit ''uid''), json_nat (st_uid s))])"

definition MAX_LIST_ENTRIES :: nat where "MAX_LIST_ENTRIES = 20000"

definition truncate_sorted :: "ustring list \<Rightarrow> nat \<Rightarrow> ustring list \<times> bool" where
  "truncate_sorted names limit = (take limit (sort names), limit < length names)"

definition visible :: "bool \<Rightarrow> ustring \<Rightarrow> bool" where
  "visible include_hidden name \<longleftrightarrow> name \<noteq> (lit ''.'') \<and> name \<noteq> (lit ''..'') \<and> (include_hidden \<or> \<not> starts_with name (lit ''.''))"

fun dirent_names :: "bool \<Rightarrow> (os_error + ustring) list \<Rightarrow> ustring list \<times> ustring list" where
  "dirent_names hidden [] = ([], [])"
| "dirent_names hidden (Inl e # items) = (case dirent_names hidden items of (names, bad) \<Rightarrow> (names, (lit ''<dirent>: '' @ reason_of e) # bad))"
| "dirent_names hidden (Inr name # items) =
     (case dirent_names hidden items of (names, bad) \<Rightarrow> (if visible hidden name then name # names else names, bad))"

fun stat_entries :: "'d fs_env \<Rightarrow> ustring \<Rightarrow> ustring list \<Rightarrow> 'd \<Rightarrow> file_stat list \<times> ustring list" where
  "stat_entries env dir [] d = ([], [])"
| "stat_entries env dir (name # names) d =
     (case stat_entries env dir names d of (entries, bad) \<Rightarrow>
       (case fs_lstat env (path_join dir name) d of
          Inr m \<Rightarrow> (file_stat_of env name m (path_join dir name) d # entries, bad)
        | Inl e \<Rightarrow> (entries, (name @ lit '': '' @ reason_of e) # bad)))"

definition scan :: "'d fs_env \<Rightarrow> ustring \<Rightarrow> bool \<Rightarrow> 'd \<Rightarrow> file_stat list \<times> bool \<times> ustring list" where
  "scan env dir include_hidden d =
     (case fs_read_dir env dir d of
        Inl e \<Rightarrow> ([], False, [(dir @ lit '': '' @ reason_of e)])
      | Inr items \<Rightarrow>
          (case dirent_names include_hidden items of (names, unreadable) \<Rightarrow>
           case truncate_sorted names MAX_LIST_ENTRIES of (kept, truncated) \<Rightarrow>
           case stat_entries env dir kept d of (entries, failed) \<Rightarrow> (entries, truncated, unreadable @ failed)))"

definition path_flag_from :: "string \<Rightarrow> avalue \<Rightarrow> de_error + ustring \<times> bool" where
  "path_flag_from flag v =
     (case v of
        VObject obj \<Rightarrow>
          (let read_flag = field_from bool_from (map_of obj (lit flag)); read_path = field_from string_from (map_of obj (lit ''path'')) in
           if lit flag < (lit ''path'') then
             rbind read_flag (\<lambda>f. rbind read_path (\<lambda>p. rbind (ok_or p (Missing_Field (lit ''path''))) (\<lambda>p. Inr (p, or_default False f))))
           else rbind read_path (\<lambda>p. rbind read_flag (\<lambda>f. rbind (ok_or p (Missing_Field (lit ''path''))) (\<lambda>p. Inr (p, or_default False f)))))
      | VArray vs \<Rightarrow> rbind (elem_from string_from vs 0) (\<lambda>p. rbind (elem_or False bool_from vs 1) (\<lambda>f. at_most 2 vs (p, f)))
      | _ \<Rightarrow> Inl Invalid_Type)"

definition wrong_kind :: "string \<Rightarrow> file_kind \<Rightarrow> ustring \<Rightarrow> ustring \<Rightarrow> aerror" where
  "wrong_kind why kind path message =
     with_details (agent_error_new Invalid_Request message)
       (VObject [((lit ''kind''), VString (file_kind_name kind)), ((lit ''path''), VString path), ((lit ''reason''), VString (lit why))])"

record list_result =
  lr_path :: ustring
  lr_entries :: "file_stat list"
  lr_truncated :: bool
  lr_unreadable :: "ustring list"

definition list_value :: "list_result \<Rightarrow> avalue" where
  "list_value r =
     VObject ([((lit ''entries''), VArray (map file_stat_value (lr_entries r))), ((lit ''path''), VString (lr_path r))] @
       (if lr_truncated r then [((lit ''truncated''), VBool True)] else []) @
       (if lr_unreadable r = [] then [] else [((lit ''unreadable''), VArray (map VString (lr_unreadable r)))]))"

definition fs_list_of :: "'d fs_env \<Rightarrow> ustring \<Rightarrow> bool \<Rightarrow> 'd \<Rightarrow> aerror + list_result" where
  "fs_list_of env path include_hidden d =
     rbind (validate_fs_path path) (\<lambda>requested.
     rbind (canonicalize env requested d) (\<lambda>resolved.
     rbind (kind_of env resolved True d) (\<lambda>kind.
     if kind \<noteq> Kind_Dir then Inl (wrong_kind ''not_a_directory'' kind resolved ([19981, 26159, 30446, 24405, 58, 32] @ resolved))
     else (case scan env resolved include_hidden d of (entries, truncated, unreadable) \<Rightarrow>
       Inr \<lparr>lr_path = resolved, lr_entries = entries, lr_truncated = truncated, lr_unreadable = unreadable\<rparr>))))"

definition fs_list :: "'d fs_env \<Rightarrow> avalue \<Rightarrow> 'd \<Rightarrow> aerror + avalue" where
  "fs_list env params d =
     rbind (fs_params env (path_flag_from ''include_hidden'') params) (\<lambda>(path, include_hidden).
     rmap list_value (fs_list_of env path include_hidden d))"

section \<open>Metadata of one path\<close>

definition with_dangling_evidence :: "'d fs_env \<Rightarrow> aerror \<Rightarrow> ustring \<Rightarrow> 'd \<Rightarrow> aerror" where
  "with_dangling_evidence env e path d =
     (if err_code e \<noteq> Not_Found then e
      else (case fs_lstat env path d of
              Inl _ \<Rightarrow> e
            | Inr m \<Rightarrow>
                if kind_from_mode (md_mode m) \<noteq> Kind_Symlink then e
                else let goal = or_default [] (ok_value (fs_read_link env path d));
                         details = (case err_details e of None \<Rightarrow> VObject [] | Some x \<Rightarrow> x);
                         details = (case details of
                             VObject obj \<Rightarrow> VObject (AList.update (lit ''symlink_target'') (VString goal) (AList.update (lit ''dangling_symlink'') (VBool True) obj))
                           | x \<Rightarrow> x)
                     in with_details (agent_error_new (err_code e) ([31526, 21495, 38142, 25509, 30446, 26631, 19981, 23384, 22312, 58, 32] @ path @ lit '' -> '' @ goal)) details))"

record stat_result =
  sr_requested :: ustring
  sr_path :: ustring
  sr_stat :: file_stat

definition stat_value :: "stat_result \<Rightarrow> avalue" where
  "stat_value r = VObject [((lit ''path''), VString (sr_path r)), ((lit ''requested_path''), VString (sr_requested r)), ((lit ''stat''), file_stat_value (sr_stat r))]"

definition fs_stat_of :: "'d fs_env \<Rightarrow> ustring \<Rightarrow> bool \<Rightarrow> 'd \<Rightarrow> aerror + stat_result" where
  "fs_stat_of env path follow d =
     rbind (validate_fs_path path) (\<lambda>requested.
     case split_last requested of (parent, name) \<Rightarrow>
     rbind (canonicalize env parent d) (\<lambda>resolved_parent.
     let resolved = (case name of Some n \<Rightarrow> path_join resolved_parent n | None \<Rightarrow> resolved_parent) in
     rbind (if follow then rmap_err (\<lambda>e. with_dangling_evidence env e resolved d) (canonicalize env resolved d) else Inr resolved) (\<lambda>target.
     rbind (metadata_of env target follow d) (\<lambda>m.
     Inr \<lparr>sr_requested = path, sr_path = target, sr_stat = file_stat_of env (or_default [47] name) m target d\<rparr>))))"

definition fs_stat_handler :: "'d fs_env \<Rightarrow> avalue \<Rightarrow> 'd \<Rightarrow> aerror + avalue" where
  "fs_stat_handler env params d =
     rbind (fs_params env (path_flag_from ''follow_symlink'') params) (\<lambda>(path, follow). rmap stat_value (fs_stat_of env path follow d))"

section \<open>Preview\<close>

definition DEFAULT_PREVIEW_BYTES :: nat where "DEFAULT_PREVIEW_BYTES = 64 * 1024"
definition MAX_PREVIEW_BYTES :: nat where "MAX_PREVIEW_BYTES = 256 * 1024"

definition hex_encode_bytes :: "bytes \<Rightarrow> ustring" where
  "hex_encode_bytes bs = concat (map (\<lambda>b. [lit ''0123456789abcdef'' ! unat (drop_bit 4 b), lit ''0123456789abcdef'' ! unat (b AND 0x0f)]) bs)"

definition read_slice :: "'d fs_env \<Rightarrow> ustring \<Rightarrow> nat \<Rightarrow> nat \<Rightarrow> 'd \<Rightarrow> aerror + bytes" where
  "read_slice env path offset limit d =
     rbind (rmap_err (io_error ''open'' path) (fs_open env path d)) (\<lambda>_.
     rbind (if 0 < offset then rmap_err (io_error ''seek'' path) (fs_seek env path offset d) else Inr ()) (\<lambda>_.
     rmap_err (io_error ''read'' path) (fs_read env path offset limit d)))"

datatype preview_encoding = Enc_Utf8 | Enc_Hex

record preview_params =
  pp_path :: ustring
  max_bytes :: "nat option"
  from_end :: bool

record preview_result =
  pv_path :: ustring
  pv_size :: nat
  pv_offset :: nat
  pv_returned :: nat
  pv_encoding :: preview_encoding
  pv_text :: "ustring option"
  pv_hex :: "ustring option"
  pv_truncated :: bool
  pv_detail :: "ustring option"

fun preview_params_from :: "avalue \<Rightarrow> de_error + preview_params" where
  "preview_params_from (VObject obj) =
     rbind (field_from bool_from (map_of obj (lit ''from_end''))) (\<lambda>tail.
     rbind (field_from opt_u32_from (map_of obj (lit ''max_bytes''))) (\<lambda>limit.
     rbind (field_from string_from (map_of obj (lit ''path''))) (\<lambda>path.
     rbind (ok_or path (Missing_Field (lit ''path''))) (\<lambda>path.
     Inr \<lparr>pp_path = path, max_bytes = or_default None limit, from_end = or_default False tail\<rparr>))))"
| "preview_params_from (VArray vs) =
     rbind (elem_from string_from vs 0) (\<lambda>path.
     rbind (elem_or None opt_u32_from vs 1) (\<lambda>limit.
     rbind (elem_or False bool_from vs 2) (\<lambda>tail.
     at_most 3 vs \<lparr>pp_path = path, max_bytes = limit, from_end = tail\<rparr>)))"
| "preview_params_from _ = Inl Invalid_Type"

fun encoding_name :: "preview_encoding \<Rightarrow> ustring" where
  "encoding_name Enc_Utf8 = (lit ''utf8'')"
| "encoding_name Enc_Hex = (lit ''hex'')"

definition preview_value :: "preview_result \<Rightarrow> avalue" where
  "preview_value r =
     VObject (opt_field ''detail'' VString (pv_detail r) @ [((lit ''encoding''), VString (encoding_name (pv_encoding r)))] @
       opt_field ''hex'' VString (pv_hex r) @
       [((lit ''offset''), json_nat (pv_offset r)), ((lit ''path''), VString (pv_path r)), ((lit ''returned_bytes''), json_nat (pv_returned r)), ((lit ''size''), json_nat (pv_size r))] @
       opt_field ''text'' VString (pv_text r) @ (if pv_truncated r then [((lit ''truncated''), VBool True)] else []))"

definition preview_body :: "bytes \<Rightarrow> preview_encoding \<times> ustring option \<times> ustring option" where
  "preview_body bytes =
     (case from_utf8 bytes of
        Some text \<Rightarrow> if 0 \<notin> set bytes then (Enc_Utf8, Some text, None) else (Enc_Hex, None, Some (hex_encode_bytes bytes))
      | None \<Rightarrow> (Enc_Hex, None, Some (hex_encode_bytes bytes)))"

definition preview_limit :: "preview_params \<Rightarrow> nat" where
  "preview_limit p = min (or_default DEFAULT_PREVIEW_BYTES (max_bytes p)) MAX_PREVIEW_BYTES"

definition preview_result_of :: "preview_params \<Rightarrow> ustring \<Rightarrow> nat \<Rightarrow> nat \<Rightarrow> bytes \<Rightarrow> preview_result" where
  "preview_result_of p resolved full offset bytes =
     (let clamped = (case max_bytes p of None \<Rightarrow> False | Some v \<Rightarrow> MAX_PREVIEW_BYTES < v);
          returned = (if length bytes \<le> u32_max then length bytes else MAX_PREVIEW_BYTES);
          (encoding, text, hex) = preview_body bytes
      in \<lparr>pv_path = resolved, pv_size = full, pv_offset = offset, pv_returned = returned, pv_encoding = encoding,
           pv_text = text, pv_hex = hex, pv_truncated = returned < full,
           pv_detail = if clamped then Some (lit ''max_bytes_clamped_to_'' @ show_dec MAX_PREVIEW_BYTES) else None\<rparr>)"

definition preview_of :: "'d fs_env \<Rightarrow> preview_params \<Rightarrow> 'd \<Rightarrow> aerror + preview_result" where
  "preview_of env p d =
     rbind (validate_fs_path (pp_path p)) (\<lambda>requested.
     rbind (canonicalize env requested d) (\<lambda>resolved.
     rbind (kind_of env resolved True d) (\<lambda>kind.
     if kind \<noteq> Kind_File then Inl (wrong_kind ''not_a_regular_file'' kind resolved ([39044, 35272, 21482, 25903, 25345, 26222, 36890, 25991, 20214, 58, 32] @ resolved))
     else
       rbind (metadata_of env resolved True d) (\<lambda>m.
       let full = md_size m; offset = (if from_end p then full - preview_limit p else 0) in
       rbind (read_slice env resolved offset (preview_limit p) d) (\<lambda>bytes.
       Inr (preview_result_of p resolved full offset bytes))))))"

definition fs_preview :: "'d fs_env \<Rightarrow> avalue \<Rightarrow> 'd \<Rightarrow> aerror + avalue" where
  "fs_preview env params d =
     rbind (fs_params env preview_params_from params) (\<lambda>p. rmap preview_value (preview_of env p d))"


section \<open>What a mode text says\<close>

fun kind_of_char :: "rchar \<Rightarrow> file_kind" where
  "kind_of_char c = (if c = ch CHR ''d'' then Kind_Dir else if c = ch CHR ''-'' then Kind_File else if c = ch CHR ''l'' then Kind_Symlink
     else if c = ch CHR ''s'' then Kind_Socket else if c = ch CHR ''p'' then Kind_Fifo else if c = ch CHR ''b'' then Kind_Block
     else if c = ch CHR ''c'' then Kind_Char else Kind_Other)"

lemma kind_of_type_char [simp]: "kind_of_char (type_char k) = k"
  by (cases k) simp_all

lemma length_triplet [simp]: "length (render_triplet t b m) = 3"
  by (simp add: render_triplet_def)

lemma triplet_says:
  assumes "render_triplet t b m = render_triplet t' b' m" "m \<in> {ch (CHR ''s''), ch (CHR ''t'')}"
  shows "(t AND 4 = 0) = (t' AND 4 = 0) \<and> (t AND 2 = 0) = (t' AND 2 = 0) \<and> (t AND 1 = 0) = (t' AND 1 = 0) \<and> b = b'"
  using assms by (auto simp: render_triplet_def to_ascii_upper_def is_ascii_lower_def split: if_splits)

lemma and_bit:
  "(w :: u32) AND 1 = 0 \<longleftrightarrow> \<not> bit w 0" "w AND 2 = 0 \<longleftrightarrow> \<not> bit w 1" "w AND 4 = 0 \<longleftrightarrow> \<not> bit w 2"
  "w AND 0x200 = 0 \<longleftrightarrow> \<not> bit w 9" "w AND 0x400 = 0 \<longleftrightarrow> \<not> bit w 10" "w AND 0x800 = 0 \<longleftrightarrow> \<not> bit w 11"
  using and_exp_eq_0_iff_not_bit [of w 0] and_exp_eq_0_iff_not_bit [of w 1] and_exp_eq_0_iff_not_bit [of w 2]
    and_exp_eq_0_iff_not_bit [of w 9] and_exp_eq_0_iff_not_bit [of w 10] and_exp_eq_0_iff_not_bit [of w 11]
  by simp_all

lemma bit_low_mask: "bit (7 :: u32) n \<longleftrightarrow> n < 3" "bit PERMISSION_BITS n \<longleftrightarrow> n < 12"
  using bit_mask_iff [where 'a = u32, of 3 n] bit_mask_iff [where 'a = u32, of 12 n] by (auto simp: mask_eq_exp_minus_1 PERMISSION_BITS_def)

lemma less_12: "(n :: nat) < 12 \<longleftrightarrow> n \<in> {0, 1, 2, 3, 4, 5, 6, 7, 8, 9, 10, 11}"
  by (simp only: insert_iff empty_iff) presburger

lemma mode_text_says:
  assumes "render_mode_text kind mode = render_mode_text kind' mode'"
  shows "kind = kind' \<and> mode AND PERMISSION_BITS = mode' AND PERMISSION_BITS"
proof
  from assms have "type_char kind = type_char kind'" by (simp add: render_mode_text_def)
  then show "kind = kind'" by (metis kind_of_type_char)
  from assms have "render_triplet (drop_bit 6 mode AND 7) (mode AND S_ISUID \<noteq> 0) (ch (CHR ''s'')) =
      render_triplet (drop_bit 6 mode' AND 7) (mode' AND S_ISUID \<noteq> 0) (ch (CHR ''s''))"
    and "render_triplet (drop_bit 3 mode AND 7) (mode AND S_ISGID \<noteq> 0) (ch (CHR ''s'')) =
      render_triplet (drop_bit 3 mode' AND 7) (mode' AND S_ISGID \<noteq> 0) (ch (CHR ''s''))"
    and "render_triplet (mode AND 7) (mode AND S_ISVTX \<noteq> 0) (ch (CHR ''t'')) =
      render_triplet (mode' AND 7) (mode' AND S_ISVTX \<noteq> 0) (ch (CHR ''t''))"
    by (simp_all add: render_mode_text_def)
  from this [THEN triplet_says] have "\<forall>n < 12. bit mode n = bit mode' n"
    unfolding less_12 by (simp add: and_bit bit_and_iff bit_low_mask bit_drop_bit_eq S_ISUID_def S_ISGID_def S_ISVTX_def)
  then show "mode AND PERMISSION_BITS = mode' AND PERMISSION_BITS"
    by (auto intro!: bit_word_eqI simp: bit_and_iff bit_low_mask)
qed

section \<open>What a listing holds\<close>

definition entry_names :: "(os_error + ustring) list \<Rightarrow> ustring list" where
  "entry_names items = concat (map (case_sum (\<lambda>_. []) (\<lambda>n. [n])) items)"

definition entry_errors :: "(os_error + ustring) list \<Rightarrow> os_error list" where
  "entry_errors items = concat (map (case_sum (\<lambda>e. [e]) (\<lambda>_. [])) items)"

definition seen :: "'d fs_env \<Rightarrow> ustring \<Rightarrow> 'd \<Rightarrow> ustring \<Rightarrow> bool" where
  "seen env dir d name \<longleftrightarrow> (\<exists>m. fs_lstat env (path_join dir name) d = Inr m)"

lemma dirent_names_exact:
  "dirent_names hidden items = (filter (visible hidden) (entry_names items), map (\<lambda>e. (lit ''<dirent>: '' @ reason_of e)) (entry_errors items))"
  by (induction hidden items rule: dirent_names.induct) (simp_all add: entry_names_def entry_errors_def)

lemma stat_entries_exact:
  "map st_name (fst (stat_entries env dir names d)) = filter (seen env dir d) names"
  "length (fst (stat_entries env dir names d)) + length (snd (stat_entries env dir names d)) = length names"
  by (induction names) (auto simp: seen_def file_stat_of_def Let_def split: prod.splits sum.splits)

lemma scan_exact:
  assumes "fs_read_dir env dir d = Inr items" "scan env dir hidden d = (entries, truncated, unreadable)"
  shows "map st_name entries = filter (seen env dir d) (take MAX_LIST_ENTRIES (sort (filter (visible hidden) (entry_names items)))) \<and>
    (truncated \<longleftrightarrow> MAX_LIST_ENTRIES < length (filter (visible hidden) (entry_names items))) \<and>
    length entries + length unreadable =
      length (entry_errors items) + min MAX_LIST_ENTRIES (length (filter (visible hidden) (entry_names items)))"
proof -
  let ?names = "filter (visible hidden) (entry_names items)"
  obtain e f where stats: "stat_entries env dir (take MAX_LIST_ENTRIES (sort ?names)) d = (e, f)" by force
  from stat_entries_exact [of env dir "take MAX_LIST_ENTRIES (sort ?names)" d] stats
  have "map st_name e = filter (seen env dir d) (take MAX_LIST_ENTRIES (sort ?names))"
    and "length e + length f = min MAX_LIST_ENTRIES (length ?names)" by (simp_all add: min.commute)
  with assms stats show ?thesis
    by (auto simp: scan_def dirent_names_exact truncate_sorted_def simp del: lit_Cons)
qed

lemma listing_exact:
  assumes "fs_list_of env path hidden d = Inr r" "fs_read_dir env (lr_path r) d = Inr items"
  shows "map st_name (lr_entries r) =
      filter (seen env (lr_path r) d) (take MAX_LIST_ENTRIES (sort (filter (visible hidden) (entry_names items)))) \<and>
    (lr_truncated r \<longleftrightarrow> MAX_LIST_ENTRIES < length (filter (visible hidden) (entry_names items))) \<and>
    length (lr_entries r) + length (lr_unreadable r) =
      length (entry_errors items) + min MAX_LIST_ENTRIES (length (filter (visible hidden) (entry_names items)))"
proof -
  from assms(1) have "scan env (lr_path r) hidden d = (lr_entries r, lr_truncated r, lr_unreadable r)"
    by (auto simp: fs_list_of_def result_inv split: if_splits prod.splits)
  with assms(2) show ?thesis by (rule scan_exact)
qed

text \<open>Names come back in order, so what is cut off is what comes last.\<close>

lemma listing_sorted:
  assumes "fs_list_of env path hidden d = Inr r"
  shows "sorted (map st_name (lr_entries r)) \<and> length (lr_entries r) \<le> MAX_LIST_ENTRIES"
proof (cases "fs_read_dir env (lr_path r) d")
  case (Inl e)
  with assms have "lr_entries r = []" by (auto simp: fs_list_of_def scan_def result_inv split: if_splits sum.splits prod.splits)
  then show ?thesis by simp
next
  case (Inr items)
  from listing_exact [OF assms this] show ?thesis
    by (metis length_filter_le length_map length_take min.cobounded2 order_trans sorted_sort sorted_wrt_filter sorted_wrt_take)
qed

section \<open>What a preview holds\<close>

text \<open>Either rendering determines the bytes that were read.\<close>

lemma less_16: "(d :: nat) < 16 \<longleftrightarrow> d \<in> {0, 1, 2, 3, 4, 5, 6, 7, 8, 9, 10, 11, 12, 13, 14, 15}"
  by (simp only: insert_iff empty_iff) presburger

lemma hex_chars: "d < 16 \<Longrightarrow> lit ''0123456789abcdef'' ! d = digit_char d"
  unfolding less_16 by (auto simp: digit_char_def lit_def)

lemma nibble_values: "unat (drop_bit 4 (b :: u8)) = unat b div 16" "unat (b AND 0x0f) = unat b mod 16"
proof -
  have "b AND 0x0f = take_bit 4 b" using take_bit_eq_mask [of 4 b] by (simp add: mask_eq_exp_minus_1)
  then show "unat (b AND 0x0f) = unat b mod 16" by (simp add: unsigned_take_bit_eq take_bit_eq_mod unat_mod_distrib)
qed (simp add: drop_bit_eq_div unat_div_distrib)

lemma hex_agrees: "hex_encode_bytes bs = hex_encode bs False []"
proof -
  have "join [] ws = concat ws" for ws :: "ustring list" by (induction "[] :: ustring" ws rule: join.induct) simp_all
  then show ?thesis
    unfolding hex_encode_bytes_def Chef_Data.hex_encode_bytes
    by (simp add: hex_byte_def [abs_def] hex_char_def nibble_values hex_chars nibbles del: lit_Cons)
qed

lemma preview_body_exact:
  assumes "preview_body bytes = (encoding, text, hex)"
  shows "encoding = Enc_Utf8 \<and> (\<exists>t. text = Some t \<and> utf8 t = bytes) \<and> hex = None \<or>
    encoding = Enc_Hex \<and> text = None \<and> (\<exists>h. hex = Some h \<and> hex_decode h = Inr bytes)"
  using assms by (auto simp: preview_body_def hex_agrees hex_decode_encode [of "[]", simplified] from_utf8_iff split: option.splits if_splits)

lemma preview_exact:
  assumes "preview_of env p d = Inr r"
  shows "\<exists>bytes. read_slice env (pv_path r) (pv_offset r) (preview_limit p) d = Inr bytes \<and>
    preview_body bytes = (pv_encoding r, pv_text r, pv_hex r)"
proof -
  from assms obtain path total offset bytes where "read_slice env path offset (preview_limit p) d = Inr bytes"
    and "r = preview_result_of p path total offset bytes"
    by (auto simp: preview_of_def result_inv Let_def simp del: lit_Cons split: if_splits)
  then show ?thesis
    by (cases "preview_body bytes") (auto simp: preview_result_of_def Let_def intro: exI [of _ bytes])
qed

end
