(* ===== verification/Agent_Frida.thy ===== *)
theory Agent_Frida
  imports Agent_Processes Agent_Package Agent_Files
begin

text \<open>
  The frida provider of the agent (\<open>android-agent/src/provider/frida.rs\<close>): which frida-server runs and as
  whom, starting one as root with verification and clean-up, and stopping it. What the files of the device
  show is a parameter, as in the process provider.
\<close>

record 'd frida_env =
  f_proc :: "'d proc_env"
  f_lstat :: "ustring \<Rightarrow> 'd \<Rightarrow> metadata option"
  f_is_file :: "ustring \<Rightarrow> 'd \<Rightarrow> bool"

abbreviation f_device :: "'d frida_env \<Rightarrow> 'd device_env" where
  "f_device env \<equiv> p_device (f_proc env)"

definition DEFAULT_BINARY :: ustring where "DEFAULT_BINARY = (lit ''frida-server'')"
definition DEFAULT_PORT :: nat where "DEFAULT_PORT = 27042"
definition DEFAULT_BIND :: ustring where "DEFAULT_BIND = (lit ''127.0.0.1'')"
definition HOSTED_DIR :: ustring where "HOSTED_DIR = (lit ''/data/local/tmp'')"
definition START_LOG :: ustring where "START_LOG = (lit ''/data/local/tmp/frida-server.artool.log'')"
definition PROBE_TIMEOUT :: nat where "PROBE_TIMEOUT = 3 * 10 ^ 9"
definition FRIDA_MAX_PIDS :: nat where "FRIDA_MAX_PIDS = 8192"

section \<open>Parameters and results\<close>

definition frida_params :: "'d frida_env \<Rightarrow> (avalue \<Rightarrow> de_error + 'p) \<Rightarrow> avalue \<Rightarrow> aerror + 'p" where
  "frida_params env from v =
     rmap_err (\<lambda>e. agent_error_new Invalid_Request ([21442, 25968, 19981, 21512, 27861, 58, 32] @ de_text (f_device env) e)) (from v)"

definition frida_with_steps :: "aerror \<Rightarrow> operation_step list \<Rightarrow> aerror" where
  "frida_with_steps e steps =
     (let reason = (case err_details e of
          Some (VObject obj) \<Rightarrow> (case map_of obj (lit ''reason'') of Some (VString r) \<Rightarrow> r | _ \<Rightarrow> (lit ''failed''))
        | _ \<Rightarrow> (lit ''failed''))
      in with_details e (VObject [((lit ''reason''), VString reason), ((lit ''steps''), steps_value steps)]))"

definition name_of :: "ustring option \<Rightarrow> aerror + ustring" where
  "name_of wanted =
     (let name = or_default DEFAULT_BINARY wanted in rbind (validate_binary_name name) (\<lambda>_. Inr name))"

fun no_params_from :: "avalue \<Rightarrow> de_error + unit" where
  "no_params_from (VObject _) = Inr ()"
| "no_params_from (VArray vs) = at_most 0 vs ()"
| "no_params_from _ = Inl Invalid_Type"

definition opt_u16_from :: "avalue \<Rightarrow> de_error + nat option" where
  "opt_u16_from v = (case v of VNull \<Rightarrow> Inr None | _ \<Rightarrow> rmap Some (uint_from u16_max v))"

record start_params =
  sq_operation :: ustring
  sq_name :: ustring
  sq_port :: nat
  sq_bind :: ustring

fun start_fields_from :: "avalue \<Rightarrow> de_error + ustring \<times> ustring option \<times> nat option \<times> ustring option" where
  "start_fields_from (VObject obj) =
     rbind (field_from opt_string_from (map_of obj (lit ''binary_name''))) (\<lambda>name.
     rbind (field_from opt_string_from (map_of obj (lit ''bind''))) (\<lambda>bind.
     rbind (field_from string_from (map_of obj (lit ''operation_id''))) (\<lambda>k.
     rbind (field_from opt_u16_from (map_of obj (lit ''port''))) (\<lambda>port.
     rbind (ok_or k (Missing_Field (lit ''operation_id''))) (\<lambda>k.
     Inr (k, or_default None name, or_default None port, or_default None bind))))))"
| "start_fields_from (VArray vs) =
     rbind (elem_from string_from vs 0) (\<lambda>k.
     rbind (elem_or None opt_string_from vs 1) (\<lambda>name.
     rbind (elem_or None opt_u16_from vs 2) (\<lambda>port.
     rbind (elem_or None opt_string_from vs 3) (\<lambda>bind. at_most 4 vs (k, name, port, bind)))))"
| "start_fields_from _ = Inl Invalid_Type"

definition start_checked :: "'d frida_env \<Rightarrow> avalue \<Rightarrow> aerror + start_params" where
  "start_checked env params =
     rbind (frida_params env start_fields_from params) (\<lambda>(k, name, port, bind).
     rbind (name_of name) (\<lambda>name.
     let port = or_default DEFAULT_PORT port; bind = or_default DEFAULT_BIND bind in
     rbind (validate_listen bind port) (\<lambda>_.
     Inr \<lparr>sq_operation = k, sq_name = name, sq_port = port, sq_bind = bind\<rparr>)))"

fun stop_fields_from :: "avalue \<Rightarrow> de_error + ustring \<times> ustring option" where
  "stop_fields_from (VObject obj) =
     rbind (field_from opt_string_from (map_of obj (lit ''binary_name''))) (\<lambda>name.
     rbind (field_from string_from (map_of obj (lit ''operation_id''))) (\<lambda>k.
     rbind (ok_or k (Missing_Field (lit ''operation_id''))) (\<lambda>k. Inr (k, or_default None name))))"
| "stop_fields_from (VArray vs) =
     rbind (elem_from string_from vs 0) (\<lambda>k. rbind (elem_or None opt_string_from vs 1) (\<lambda>name. at_most 2 vs (k, name)))"
| "stop_fields_from _ = Inl Invalid_Type"

definition stop_checked :: "'d frida_env \<Rightarrow> avalue \<Rightarrow> aerror + ustring \<times> ustring" where
  "stop_checked env params =
     rbind (frida_params env stop_fields_from params) (\<lambda>(k, name). rbind (name_of name) (\<lambda>name. Inr (k, name)))"

datatype server_state = Not_Running | Running_As_Root | Running_As_Shell | Indeterminate

fun server_state_name :: "server_state \<Rightarrow> ustring" where
  "server_state_name Not_Running = (lit ''not_running'')"
| "server_state_name Running_As_Root = (lit ''running_as_root'')"
| "server_state_name Running_As_Shell = (lit ''running_as_shell'')"
| "server_state_name Indeterminate = (lit ''indeterminate'')"

record status_result =
  ss_state :: server_state
  ss_running :: bool
  ss_as_root :: bool
  ss_binary :: ustring
  ss_pid :: "nat option"
  ss_uid :: "nat option"
  ss_address :: "ustring option"
  ss_port :: "nat option"
  ss_listening :: bool
  ss_version :: "ustring option"
  ss_detail :: "ustring option"

definition status_value :: "status_result \<Rightarrow> avalue" where
  "status_value r =
     VObject ([((lit ''as_root''), VBool (ss_as_root r)), ((lit ''binary_name''), VString (ss_binary r))] @
       opt_field ''detail'' VString (ss_detail r) @ opt_field ''listen_address'' VString (ss_address r) @
       [((lit ''listening''), VBool (ss_listening r))] @ opt_field ''pid'' json_count (ss_pid r) @ opt_field ''port'' json_count (ss_port r) @
       [((lit ''running''), VBool (ss_running r)), ((lit ''state''), VString (server_state_name (ss_state r)))] @
       opt_field ''uid'' json_count (ss_uid r) @ opt_field ''version'' VString (ss_version r))"

record start_result =
  sr_operation :: ustring
  sr_outcome :: write_outcome
  sr_verified :: bool
  sr_binary :: ustring
  sr_bind :: ustring
  sr_port :: nat
  sr_pid :: "nat option"
  sr_uid :: "nat option"
  sr_version :: "ustring option"
  sr_steps :: "operation_step list"
  sr_detail :: "ustring option"

definition start_value :: "start_result \<Rightarrow> avalue" where
  "start_value r =
     VObject ([((lit ''binary_name''), VString (sr_binary r)), ((lit ''bind''), VString (sr_bind r))] @ opt_field ''detail'' VString (sr_detail r) @
       [((lit ''operation_id''), VString (sr_operation r)), ((lit ''outcome''), VString (outcome_name (sr_outcome r)))] @
       opt_field ''pid'' json_count (sr_pid r) @ [((lit ''port''), json_count (sr_port r)), ((lit ''steps''), steps_value (sr_steps r))] @
       opt_field ''uid'' json_count (sr_uid r) @ [((lit ''verified''), VBool (sr_verified r))] @ opt_field ''version'' VString (sr_version r))"

record stop_result =
  so_operation :: ustring
  so_outcome :: write_outcome
  so_verified :: bool
  so_binary :: ustring
  so_pid :: "nat option"
  so_uid :: "nat option"
  so_steps :: "operation_step list"
  so_detail :: "ustring option"

definition stop_value :: "stop_result \<Rightarrow> avalue" where
  "stop_value r =
     VObject ([((lit ''binary_name''), VString (so_binary r))] @ opt_field ''detail'' VString (so_detail r) @
       [((lit ''operation_id''), VString (so_operation r)), ((lit ''outcome''), VString (outcome_name (so_outcome r)))] @
       opt_field ''pid'' json_count (so_pid r) @ [((lit ''steps''), steps_value (so_steps r))] @ opt_field ''uid'' json_count (so_uid r) @
       [((lit ''verified''), VBool (so_verified r))])"


section \<open>Which servers run\<close>

record server_fact =
  sv_pid :: nat
  sv_uid :: "nat option"
  sv_args :: "ustring list"

definition matches_server :: "ustring \<Rightarrow> ustring \<Rightarrow> bool" where
  "matches_server argv0 name \<longleftrightarrow> file_name argv0 = Some name"

definition cmdline_args :: "bytes \<Rightarrow> ustring list" where
  "cmdline_args raw = map from_utf8_lossy (filter (\<lambda>part. part \<noteq> []) (split_pred (\<lambda>b. b = 0) raw))"

definition uid_in_status :: "ustring \<Rightarrow> nat option" where
  "uid_in_status status =
     find_map (\<lambda>line. Option.bind (strip_prefix (lit ''Uid:'') line)
       (\<lambda>rest. case split_whitespace rest of [] \<Rightarrow> None | w # _ \<Rightarrow> parse_u32 w)) (lines status)"

text \<open>The server that one process is, if it is one.\<close>

definition server_at :: "'d frida_env \<Rightarrow> ustring \<Rightarrow> 'd \<Rightarrow> nat \<Rightarrow> server_fact option" where
  "server_at env name d pid =
     (case p_read (f_proc env) (proc_of pid ''cmdline'') d of
        Inl _ \<Rightarrow> None
      | Inr raw \<Rightarrow>
          (case cmdline_args raw of
             [] \<Rightarrow> None
           | argv0 # args \<Rightarrow>
               if \<not> matches_server argv0 name then None
               else Some \<lparr>sv_pid = pid,
                 sv_uid = Option.bind (ok_value (read_text (f_proc env) (proc_of pid ''status'') d)) uid_in_status,
                 sv_args = argv0 # args\<rparr>))"

fun scan_servers :: "'d frida_env \<Rightarrow> ustring \<Rightarrow> 'd \<Rightarrow> ustring list \<Rightarrow> nat \<Rightarrow> server_fact list" where
  "scan_servers env name d [] scanned = []"
| "scan_servers env name d (t # ts) scanned =
     (case parse_u32 t of
        None \<Rightarrow> scan_servers env name d ts scanned
      | Some pid \<Rightarrow>
          if pid = 0 \<or> pid = p_self (f_proc env) then scan_servers env name d ts scanned
          else if FRIDA_MAX_PIDS \<le> scanned then []
          else (case server_at env name d pid of None \<Rightarrow> [] | Some sv \<Rightarrow> [sv]) @ scan_servers env name d ts (scanned + 1))"

definition find_server :: "'d frida_env \<Rightarrow> ustring \<Rightarrow> 'd \<Rightarrow> server_fact list" where
  "find_server env name d =
     (case p_dir (f_proc env) PROC d of Inl _ \<Rightarrow> [] | Inr names \<Rightarrow> sort_key sv_pid (scan_servers env name d names 0))"

definition listen_value :: "ustring \<Rightarrow> (ustring \<times> nat) option" where
  "listen_value v =
     Option.bind (rsplit_once_char 58 v) (\<lambda>(addr, port). map_option (Pair addr) (ok_value (parse_unsigned u16_max 10 port)))"

definition inline_listen :: "ustring \<Rightarrow> ustring option" where
  "inline_listen arg =
     (case strip_prefix (lit ''--listen='') arg of
        Some rest \<Rightarrow> Some rest
      | None \<Rightarrow> (case strip_prefix (lit ''-l'') arg of Some rest \<Rightarrow> if rest = [] then None else Some rest | None \<Rightarrow> None))"

fun parse_listen :: "ustring list \<Rightarrow> (ustring \<times> nat) option" where
  "parse_listen [] = None"
| "parse_listen (arg # rest) =
     (case inline_listen arg of
        Some v \<Rightarrow> listen_value v
      | None \<Rightarrow>
          if (arg = (lit ''-l'') \<or> arg = (lit ''--listen'')) \<and> rest \<noteq> [] then listen_value (hd rest) else parse_listen rest)"

definition text_has_listening_port :: "ustring \<Rightarrow> nat \<Rightarrow> bool" where
  "text_has_listening_port t port \<longleftrightarrow>
     list_ex (\<lambda>line. let fields = split_whitespace line in
       4 \<le> length fields \<and> ends_with (fields ! 1) (58 # upper_hex 4 port) \<and> fields ! 3 = (lit ''0A'')) (drop 1 (lines t))"

definition is_listening :: "'d frida_env \<Rightarrow> nat \<Rightarrow> 'd \<Rightarrow> bool" where
  "is_listening env port d \<longleftrightarrow>
     list_ex (\<lambda>path. case read_text (f_proc env) path d of Inl _ \<Rightarrow> False | Inr t \<Rightarrow> text_has_listening_port t port)
       [(lit ''/proc/net/tcp''), (lit ''/proc/net/tcp6'')]"

fun classify_state :: "nat option \<Rightarrow> server_state" where
  "classify_state (Some 0) = Running_As_Root"
| "classify_state (Some _) = Running_As_Shell"
| "classify_state None = Indeterminate"

definition binary_ready :: "'d frida_env \<Rightarrow> ustring \<Rightarrow> 'd \<Rightarrow> bool \<times> ustring option" where
  "binary_ready env name d =
     (case f_lstat env (path_join HOSTED_DIR name) d of
        None \<Rightarrow> (False, Some (HOSTED_DIR @ lit ''/'' @ name @ [32, 19981, 23384, 22312, 65292, 35831, 20808, 29992, 35774, 22791, 39029, 30340, 25991, 20214, 47, 25176, 31649, 21151, 33021, 25918, 20837]))
      | Some meta \<Rightarrow>
          if kind_from_mode (md_mode meta) \<noteq> Kind_File then (False, Some (HOSTED_DIR @ lit ''/'' @ name @ [32, 19981, 26159, 26222, 36890, 25991, 20214]))
          else if md_mode meta AND 0x49 \<noteq> 0 then (True, None)
          else (False, Some (HOSTED_DIR @ lit ''/'' @ name @ [32, 27809, 26377, 25191, 34892, 26435, 38480, 65288, 20808] @ lit '' chmod +x'' @ [65289])))"

definition version_of_output :: "bytes \<Rightarrow> ustring option" where
  "version_of_output out =
     (case lines (trim (from_utf8_lossy out)) of
        [] \<Rightarrow> None
      | line # _ \<Rightarrow> if trim line = [] then None else Some (trim line))"

definition probe_version :: "'d frida_env \<Rightarrow> ustring \<Rightarrow> ('d, ustring option) action" where
  "probe_version env name =
     (case validate_binary_name name of
        Inl _ \<Rightarrow> areturn None
      | Inr _ \<Rightarrow>
          (let path = path_join HOSTED_DIR name in
           asking (f_is_file env path) (\<lambda>there.
           if \<not> there then areturn None
           else abind (on_device (timed_command (f_device env) PROBE_TIMEOUT path [(lit ''--version'')])) (\<lambda>res.
             areturn (case res of
               Some (Inr out) \<Rightarrow> if success out then version_of_output (stdout out) else None
             | _ \<Rightarrow> None)))))"

section \<open>The state of the server\<close>

definition uid_detail :: "nat option \<Rightarrow> ustring option" where
  "uid_detail uid =
     (case uid of
        None \<Rightarrow> Some ([35835, 19981, 21040, 35813, 36827, 31243, 30340] @ lit '' uid'' @ [65292, 19981, 29468, 23427, 26159] @ lit '' root '' @ [36824, 26159] @ lit '' shell'')
      | Some n \<Rightarrow>
          if n = 0 then None
          else Some (lit ''frida-server '' @ [20197] @ lit '' uid='' @ show_dec n @ [32, 36816, 34892, 65306, 36830, 24471, 19978, 20294, 27880, 20837, 19981, 20102, 20854, 23427, 36827, 31243, 65292, 38656, 35201, 20197] @ lit '' root '' @ [37325, 21551, 65288] @ lit ''frida.server.stop '' @ [21518] @ lit '' start'' @ [65289]))"

definition status_of :: "'d frida_env \<Rightarrow> ustring \<Rightarrow> server_fact list \<Rightarrow> ustring option \<Rightarrow> 'd \<Rightarrow> status_result" where
  "status_of env name facts version d =
     (case facts of
        [] \<Rightarrow> \<lparr>ss_state = Not_Running, ss_running = False, ss_as_root = False, ss_binary = name, ss_pid = None, ss_uid = None,
          ss_address = None, ss_port = None, ss_listening = False, ss_version = version, ss_detail = None\<rparr>
      | sv # _ \<Rightarrow>
          (let listen = parse_listen (sv_args sv); state = classify_state (sv_uid sv) in
           \<lparr>ss_state = state, ss_running = True, ss_as_root = state = Running_As_Root, ss_binary = name,
             ss_pid = Some (sv_pid sv), ss_uid = sv_uid sv, ss_address = map_option fst listen, ss_port = map_option snd listen,
             ss_listening = (case listen of None \<Rightarrow> False | Some (_, port) \<Rightarrow> is_listening env port d),
             ss_version = version, ss_detail = uid_detail (sv_uid sv)\<rparr>))"

definition frida_status :: "'d frida_env \<Rightarrow> avalue \<Rightarrow> ('d, avalue) action" where
  "frida_status env params =
     abind (alift (frida_params env no_params_from params)) (\<lambda>_.
     asking (find_server env DEFAULT_BINARY) (\<lambda>facts.
     abind (probe_version env DEFAULT_BINARY) (\<lambda>version.
     asking (\<lambda>d. status_value (status_of env DEFAULT_BINARY facts version d)) areturn)))"

section \<open>Starting\<close>

definition debug_uid :: "nat option \<Rightarrow> ustring" where
  "debug_uid uid = (case uid of None \<Rightarrow> (lit ''None'') | Some n \<Rightarrow> (lit ''Some('' @ show_dec n @ lit '')''))"

definition fact_text :: "server_fact \<Rightarrow> ustring" where
  "fact_text sv = (lit ''pid='' @ show_dec (sv_pid sv) @ lit '' uid='' @ debug_uid (sv_uid sv))"

definition read_log_tail :: "'d frida_env \<Rightarrow> 'd \<Rightarrow> ustring option" where
  "read_log_tail env d =
     (case read_text (f_proc env) START_LOG d of
        Inl _ \<Rightarrow> None
      | Inr t \<Rightarrow>
          (let tail = rev (take 3 (rev (filter (\<lambda>line. trim line \<noteq> []) (lines t)))) in
           if tail = [] then None else Some (join (lit '' / '') tail)))"

definition start_result_of ::
  "start_params \<Rightarrow> write_outcome \<Rightarrow> server_fact \<Rightarrow> ustring option \<Rightarrow> operation_step list \<Rightarrow> ustring \<Rightarrow> start_result" where
  "start_result_of p res sv version steps detail =
     \<lparr>sr_operation = sq_operation p, sr_outcome = res, sr_verified = sv_uid sv = Some 0, sr_binary = sq_name p, sr_bind = sq_bind p,
       sr_port = sq_port p, sr_pid = Some (sv_pid sv), sr_uid = sv_uid sv, sr_version = version, sr_steps = steps,
       sr_detail = Some detail\<rparr>"

definition facts_listening :: "'d frida_env \<Rightarrow> server_fact list \<Rightarrow> 'd \<Rightarrow> bool" where
  "facts_listening env facts d =
     (case facts of
        [] \<Rightarrow> False
      | sv # _ \<Rightarrow> (case parse_listen (sv_args sv) of None \<Rightarrow> False | Some (_, port) \<Rightarrow> is_listening env port d))"

definition show_bool :: "bool \<Rightarrow> ustring" where
  "show_bool b = (if b then (lit ''true'') else (lit ''false''))"

definition start_failed :: "ustring \<Rightarrow> operation_step list \<Rightarrow> aerror" where
  "start_failed reason steps =
     frida_with_steps (with_details (agent_error_new Internal (lit ''frida-server '' @ [21551, 21160, 22797, 26680, 26410, 36890, 36807, 58, 32] @ reason))
       (VObject [((lit ''reason''), VString reason), ((lit ''steps''), steps_value steps)])) steps"

definition start_undo :: "'d frida_env \<Rightarrow> start_params \<Rightarrow> ustring \<Rightarrow> operation_step list \<Rightarrow> ('d, avalue) action" where
  "start_undo env p reason steps =
     abind (attempt (run_privileged (f_device env) (lit ''stop'') (frida_stop_script (sq_name p)) (lit ''FRIDA_STOPPED''))) (\<lambda>r.
     let stopped = (case r of Inl _ \<Rightarrow> False | Inr _ \<Rightarrow> True) in
     athrow (start_failed reason (steps @ [step_of ''rollback_stop'' stopped
       (Some (if stopped then [24050, 20572, 25481, 19981, 21487, 29992, 30340, 23454, 20363] else [28165, 29702, 22833, 36133, 65292, 38656, 35201, 20154, 24037, 30830, 35748, 27531, 30041, 36827, 31243]))])))"

definition failure_reason :: "server_fact list \<Rightarrow> ustring" where
  "failure_reason facts =
     (case facts of
        [] \<Rightarrow> (lit ''start_failed_process_gone'')
      | sv # _ \<Rightarrow> if sv_uid sv \<noteq> Some 0 then (lit ''started_without_root'') else (lit ''port_not_listening''))"

definition start_verified :: "'d frida_env \<Rightarrow> start_params \<Rightarrow> operation_step list \<Rightarrow> ('d, avalue) action" where
  "start_verified env p steps =
     asking (find_server env (sq_name p)) (\<lambda>facts.
     asking (facts_listening env facts) (\<lambda>listening.
     let steps = steps @
           [step_of ''verify_running'' (facts \<noteq> []) (case facts of [] \<Rightarrow> None | sv # _ \<Rightarrow> Some (fact_text sv)),
            step_of ''verify_listening'' listening (Some (sq_bind p @ lit '':'' @ show_dec (sq_port p) @ lit '' LISTEN='' @ show_bool listening))]
     in case facts of
          sv # _ \<Rightarrow>
            if sv_uid sv = Some 0 \<and> listening then
              abind (probe_version env (sq_name p)) (\<lambda>version.
              let v = start_value (start_result_of p Executed sv version steps (lit ''root_listening''))
              in abind (finish_write (f_device env) (sq_operation p) v) (\<lambda>_. areturn v))
            else start_undo env p (failure_reason facts) steps
        | [] \<Rightarrow> start_undo env p (failure_reason facts) steps))"

definition start_server :: "'d frida_env \<Rightarrow> start_params \<Rightarrow> operation_step list \<Rightarrow> ('d, avalue) action" where
  "start_server env p steps =
     abind (attempt (run_privileged (f_device env) (lit ''start'') (frida_start_script (sq_name p) (sq_bind p) (sq_port p) START_LOG)
       (lit ''FRIDA_STARTED''))) (\<lambda>r.
     case r of
       Inl e \<Rightarrow>
         asking (read_log_tail env) (\<lambda>log.
         athrow (frida_with_steps e (steps @ [step_of ''start'' False (Some (err_message e))] @
           (case log of None \<Rightarrow> [] | Some t \<Rightarrow> [step_of ''read_start_log'' True (Some t)]))))
     | Inr _ \<Rightarrow> start_verified env p (steps @ [step_of ''start'' True None]))"

definition start_now :: "'d frida_env \<Rightarrow> start_params \<Rightarrow> ('d, avalue) action" where
  "start_now env p =
     asking (binary_ready env (sq_name p)) (\<lambda>(ok, detail).
     let steps = [step_of ''validate_input'' True None, step_of ''locate_binary'' ok detail] in
     if \<not> ok then athrow (frida_with_steps (reject ''binary_unavailable'' (or_default [] detail)) steps)
     else asking (find_server env (sq_name p)) (\<lambda>existing.
       case existing of
         sv # _ \<Rightarrow>
           (let v = start_value (start_result_of p No_Op sv None
                  (steps @ [step_of ''guard_already_running'' True (Some (fact_text sv))])
                  (if sv_uid sv = Some 0 then (lit ''already_running_as_root'') else (lit ''already_running_needs_root_restart'')))
            in abind (finish_write (f_device env) (sq_operation p) v) (\<lambda>_. areturn v))
       | [] \<Rightarrow> start_server env p (steps @ [step_of ''guard_already_running'' True None])))"

definition frida_start :: "'d frida_env \<Rightarrow> avalue \<Rightarrow> ('d, avalue) action" where
  "frida_start env = submit (f_device env) (lit ''frida.server.start'') (start_checked env) sq_name sq_operation (start_now env)"

section \<open>Stopping\<close>

definition STOP_CHECKS :: nat where "STOP_CHECKS = 10"
definition STOP_PAUSE :: nat where "STOP_PAUSE = 300 * 10 ^ 6"
definition STOP_TIMEOUT :: nat where "STOP_TIMEOUT = 5 * 10 ^ 9"

text \<open>Looking again after each pause: \<open>tokio\<close>'s time limit, checked when the pause is over, makes the answer \<open>False\<close>.\<close>

fun confirm_gone :: "'d frida_env \<Rightarrow> ustring \<Rightarrow> instant \<Rightarrow> nat \<Rightarrow> ('d, bool) action" where
  "confirm_gone env name started 0 s = Some (Inr (find_server env name (device s) = []), s)"
| "confirm_gone env name started (Suc n) s =
     (if find_server env name (device s) = [] then Some (Inr True, s)
      else let s' = s\<lparr>device := pause (f_device env) STOP_PAUSE (device s)\<rparr> in
        if STOP_TIMEOUT \<le> clock (f_device env) (device s') - started then Some (Inr False, s')
        else confirm_gone env name started n s')"

definition stop_signal :: "'d frida_env \<Rightarrow> nat \<Rightarrow> ('d, unit) action" where
  "stop_signal env pid =
     abind (on_device (send_signal (f_proc env) pid Term_Signal)) (\<lambda>r.
     case r of
       Signal_Sent \<Rightarrow> areturn ()
     | Signal_Gone \<Rightarrow> areturn ()
     | Signal_Denied \<Rightarrow> athrow (agent_error_new Permission_Denied ([26080, 26435, 32456, 27490, 35813, 36827, 31243, 65292, 19988, 23427, 19981, 23646, 20110] @ lit '' root'' @ [65288, 19981, 35813, 21457, 29983, 65289]))
     | Signal_Failed code \<Rightarrow> athrow (agent_error_new Internal (lit ''kill '' @ [22833, 36133, 65292] @ lit ''errno='' @ show_int code)))"

definition stop_process :: "'d frida_env \<Rightarrow> ustring \<Rightarrow> server_fact \<Rightarrow> ('d, unit) action" where
  "stop_process env name sv =
     (if sv_uid sv = Some 0 then
        abind (run_privileged (f_device env) (lit ''stop'') (frida_stop_script name) (lit ''FRIDA_STOPPED'')) (\<lambda>_. areturn ())
      else stop_signal env (sv_pid sv))"

definition stop_result_of ::
  "ustring \<Rightarrow> ustring \<Rightarrow> write_outcome \<Rightarrow> server_fact option \<Rightarrow> operation_step list \<Rightarrow> ustring \<Rightarrow> stop_result" where
  "stop_result_of k name res sv steps detail =
     \<lparr>so_operation = k, so_outcome = res, so_verified = True, so_binary = name, so_pid = map_option sv_pid sv,
       so_uid = Option.bind sv sv_uid, so_steps = steps, so_detail = Some detail\<rparr>"

definition still_running :: "operation_step list \<Rightarrow> aerror" where
  "still_running steps =
     frida_with_steps (with_details (agent_error_new Internal (lit ''frida-server '' @ [26410, 33021, 20572, 27490, 65292, 20173, 22312, 36816, 34892])) (reason_details (lit ''still_running''))) steps"

definition stop_confirmed ::
  "'d frida_env \<Rightarrow> ustring \<Rightarrow> ustring \<Rightarrow> server_fact \<Rightarrow> operation_step list \<Rightarrow> ('d, avalue) action" where
  "stop_confirmed env k name sv steps =
     asking (clock (f_device env)) (\<lambda>started.
     abind (confirm_gone env name started STOP_CHECKS) (\<lambda>gone.
     let steps = steps @ [step_of ''confirm_gone'' gone (Some (if gone then [36827, 31243, 24050, 28040, 22833] else [20173, 22312, 36816, 34892]))] in
     if \<not> gone then athrow (still_running steps)
     else let v = stop_value (stop_result_of k name Executed (Some sv) steps (lit ''stopped''))
       in abind (finish_write (f_device env) k v) (\<lambda>_. areturn v)))"

definition stop_now :: "'d frida_env \<Rightarrow> ustring \<times> ustring \<Rightarrow> ('d, avalue) action" where
  "stop_now env p =
     (case p of (k, name) \<Rightarrow>
      asking (find_server env name) (\<lambda>facts.
      case facts of
        [] \<Rightarrow>
          (let v = stop_value (stop_result_of k name No_Op None
                 [step_of ''find_server'' False (Some ([27809, 26377, 36816, 34892, 20013, 30340] @ lit '' frida-server''))] (lit ''not_running''))
           in abind (finish_write (f_device env) k v) (\<lambda>_. areturn v))
      | sv # _ \<Rightarrow>
          (let steps = [step_of ''find_server'' True (Some (fact_text sv))] in
           abind (attempt (stop_process env name sv)) (\<lambda>r.
           case r of
             Inl e \<Rightarrow> athrow (frida_with_steps e (steps @ [step_of ''stop'' False (Some (err_message e))]))
           | Inr _ \<Rightarrow> stop_confirmed env k name sv (steps @ [step_of ''stop'' True None])))))"

definition frida_stop :: "'d frida_env \<Rightarrow> avalue \<Rightarrow> ('d, avalue) action" where
  "frida_stop env = submit (f_device env) (lit ''frida.server.stop'') (stop_checked env) snd fst (stop_now env)"

section \<open>The handler\<close>

definition FRIDA_METHODS :: "ustring list" where
  "FRIDA_METHODS = [(lit ''frida.server.status''), (lit ''frida.server.start''), (lit ''frida.server.stop'')]"

definition frida_handle :: "'d frida_env \<Rightarrow> ustring \<Rightarrow> avalue \<Rightarrow> ('d, avalue) action" where
  "frida_handle env meth params =
     (if meth = (lit ''frida.server.status'') then frida_status env params
      else if meth = (lit ''frida.server.start'') then frida_start env params
      else if meth = (lit ''frida.server.stop'') then frida_stop env params
      else athrow (agent_error_new Unsupported_Method (lit ''unsupported frida method: '' @ meth)))"

section \<open>Every request returns, and what succeeded is remembered\<close>

lemma confirm_gone_ends [ending]: "ends (confirm_gone env name started n)"
proof -
  have "confirm_gone env name started n s \<noteq> None" for s by (induction n arbitrary: s) (simp_all add: Let_def)
  then show ?thesis by (simp add: ends_def)
qed

lemma confirm_gone_spares [sparing]: "spares (confirm_gone env name started n)"
proof -
  have "\<And>r s'. confirm_gone env name started n s = Some (r, s') \<Longrightarrow> ledger s' = ledger s" for s
    by (induction n arbitrary: s) (auto simp: Let_def split: if_splits)
  then show ?thesis by (auto simp: spares_def)
qed

lemma probe_version_moves [ending, sparing]: "ends (probe_version env name)" "spares (probe_version env name)"
  unfolding probe_version_def Let_def by (intro ending, intro sparing)

lemma stop_signal_moves [ending, sparing]: "ends (stop_signal env pid)" "spares (stop_signal env pid)"
proof -
  let ?f = "\<lambda>r. case r of Signal_Sent \<Rightarrow> areturn () | Signal_Gone \<Rightarrow> areturn ()
     | Signal_Denied \<Rightarrow> athrow (agent_error_new Permission_Denied ([26080, 26435, 32456, 27490, 35813, 36827, 31243, 65292, 19988, 23427, 19981, 23646, 20110] @ lit '' root'' @ [65288, 19981, 35813, 21457, 29983, 65289]))
     | Signal_Failed code \<Rightarrow> athrow (agent_error_new Internal (lit ''kill '' @ [22833, 36133, 65292] @ lit ''errno='' @ show_int code))"
  have f: "ends (?f r)" "spares (?f r)" for r by (cases r; simp add: ends_def spares_def areturn_def athrow_def)+
  show "ends (stop_signal env pid)" "spares (stop_signal env pid)"
    unfolding stop_signal_def by (intro ending f, intro sparing f)
qed

lemma stop_process_moves [ending, sparing]: "ends (stop_process env name sv)" "spares (stop_process env name sv)"
  unfolding stop_process_def by (intro ending, intro sparing)

lemma ends_list [ending]: "ends m \<Longrightarrow> (\<And>x xs. ends (f x xs)) \<Longrightarrow> ends (case l of [] \<Rightarrow> m | x # xs \<Rightarrow> f x xs)"
  by (cases l) auto

lemma records_list: "leaves_result env k m \<Longrightarrow> (\<And>x xs. leaves_result env k (f x xs)) \<Longrightarrow>
    leaves_result env k (case l of [] \<Rightarrow> m | x # xs \<Rightarrow> f x xs)"
  by (cases l) auto

lemma records_pair: "(\<And>a b. leaves_result env k (f a b)) \<Longrightarrow> leaves_result env k (case p of (a, b) \<Rightarrow> f a b)"
  by (cases p) auto

lemma start_ends [ending]: "ends (start_now env p)"
proof -
  have v: "ends (start_verified env p steps)" for steps
    unfolding start_verified_def start_undo_def Let_def by (intro ending)
  have "ends (start_server env p steps)" for steps
    unfolding start_server_def by (intro ending v)
  then show ?thesis unfolding start_now_def Let_def by (intro ending)
qed

lemma stop_ends [ending]: "ends (stop_now env p)"
  unfolding stop_now_def stop_confirmed_def Let_def by (intro ending)

lemma frida_returns: "frida_handle env meth params s \<noteq> None"
proof -
  have "ends (frida_handle env meth params)"
    unfolding frida_handle_def frida_status_def frida_start_def frida_stop_def by (intro ending)
  then show ?thesis by (simp add: ends_def)
qed

lemmas frida_recording = records_finish records_list records_pair recording sparing

lemma start_records: "leaves_result (f_device env) (sq_operation p) (start_now env p)"
proof -
  have u: "leaves_result (f_device env) k (start_undo env p reason steps)" for k reason steps
    unfolding start_undo_def Let_def by (intro frida_recording)
  have v: "leaves_result (f_device env) (sq_operation p) (start_verified env p steps)" for steps
    unfolding start_verified_def Let_def by (intro frida_recording u)
  have "leaves_result (f_device env) (sq_operation p) (start_server env p steps)" for steps
    unfolding start_server_def by (intro frida_recording v)
  then show ?thesis unfolding start_now_def Let_def by (intro frida_recording)
qed

lemma stop_records: "leaves_result (f_device env) (fst p) (stop_now env p)"
  by (cases p; simp only: fst_conv stop_now_def stop_confirmed_def Let_def prod.case) (intro frida_recording)

interpretation frida_start_write: remembered_write "f_device env" "(lit ''frida.server.start'')" "start_checked env" sq_name sq_operation
    "start_now env" for env :: "'d frida_env"
  by unfold_locales (rule start_records)

interpretation frida_stop_write: remembered_write "f_device env" "(lit ''frida.server.stop'')" "stop_checked env" snd fst "stop_now env"
    for env :: "'d frida_env"
  by unfold_locales (rule stop_records)

section \<open>The servers that are found\<close>

definition server_listed :: "'d frida_env \<Rightarrow> ustring \<Rightarrow> 'd \<Rightarrow> ustring list \<Rightarrow> server_fact \<Rightarrow> bool" where
  "server_listed env name d names sv \<longleftrightarrow>
     (\<exists>t \<in> set names. parse_u32 t = Some (sv_pid sv)) \<and> sv_pid sv \<noteq> 0 \<and> sv_pid sv \<noteq> p_self (f_proc env) \<and>
     server_at env name d (sv_pid sv) = Some sv"

lemma server_at_fields: "server_at env name d pid = Some sv \<Longrightarrow>
    sv_pid sv = pid \<and> (\<exists>argv0 args. sv_args sv = argv0 # args \<and> file_name argv0 = Some name)"
  by (auto simp: server_at_def matches_server_def split: sum.splits list.splits if_splits)

lemma scan_servers_sound: "sv \<in> set (scan_servers env name d names scanned) \<Longrightarrow> server_listed env name d names sv"
proof (induction names arbitrary: scanned)
  case (Cons t ts)
  show ?case
  proof (cases "parse_u32 t")
    case None
    with Cons show ?thesis by (auto simp: server_listed_def)
  next
    case (Some pid)
    with Cons.prems consider "sv \<in> set (scan_servers env name d ts scanned)" | "sv \<in> set (scan_servers env name d ts (scanned + 1))"
      | "pid \<noteq> 0" "pid \<noteq> p_self (f_proc env)" "server_at env name d pid = Some sv"
      by (auto split: if_splits option.splits)
    then show ?thesis
      by cases (use Cons.IH Some server_at_fields [of env name d pid sv] in \<open>auto simp: server_listed_def\<close>)
  qed
qed simp

definition pid_count :: "ustring list \<Rightarrow> nat" where
  "pid_count names = length (filter (\<lambda>t. parse_u32 t \<noteq> None) names)"

lemma scan_servers_complete:
  "pid_count names + scanned \<le> FRIDA_MAX_PIDS \<Longrightarrow> server_listed env name d names sv \<Longrightarrow>
     sv \<in> set (scan_servers env name d names scanned)"
proof (induction names arbitrary: scanned)
  case Nil
  then show ?case by (simp add: server_listed_def)
next
  case (Cons t ts)
  show ?case
  proof (cases "parse_u32 t")
    case None
    with Cons show ?thesis by (auto simp: server_listed_def pid_count_def)
  next
    case (Some pid)
    with Cons.prems(1) have "pid_count ts + scanned < FRIDA_MAX_PIDS" by (simp add: pid_count_def)
    moreover have "pid = sv_pid sv \<or> server_listed env name d ts sv" using Cons.prems(2) Some by (auto simp: server_listed_def)
    ultimately show ?thesis using Cons.IH [of scanned] Cons.IH [of "scanned + 1"] Cons.prems(2) Some by (auto simp: server_listed_def)
  qed
qed

lemma scan_servers_distinct:
  "distinct (List.map_filter parse_u32 names) \<Longrightarrow> distinct (map sv_pid (scan_servers env name d names scanned))"
proof (induction names arbitrary: scanned)
  case (Cons t ts)
  have sub: "sv_pid sv \<in> set (List.map_filter parse_u32 ts)" if "sv \<in> set (scan_servers env name d ts k)" for sv k
    using scan_servers_sound [OF that] by (force simp: server_listed_def map_filter_def)
  show ?case
  proof (cases "parse_u32 t")
    case None
    with Cons show ?thesis by (simp add: map_filter_def)
  next
    case (Some pid)
    then have "distinct (map sv_pid (scan_servers env name d ts k))" "pid \<notin> set (List.map_filter parse_u32 ts)" for k
      using Cons by (auto simp: map_filter_def)
    with sub Some show ?thesis by (fastforce dest: server_at_fields split: option.split)
  qed
qed simp

text \<open>With at most \<open>FRIDA_MAX_PIDS\<close> processes: exactly the servers there are, by ascending process id.\<close>

lemma find_server_exact:
  assumes "p_dir (f_proc env) PROC d = Inr names" "pid_count names \<le> FRIDA_MAX_PIDS"
  shows "sv \<in> set (find_server env name d) \<longleftrightarrow> server_listed env name d names sv"
  using assms scan_servers_sound [of sv env name d names 0] scan_servers_complete [of names 0 env name d sv]
  by (auto simp: find_server_def)

lemma find_server_sorted: "sorted (map sv_pid (find_server env name d))"
  by (simp add: find_server_def split: sum.split)

section \<open>The address a server was told to listen on, and the table of the kernel\<close>

lemma rsplit_once_last: "58 \<notin> set t \<Longrightarrow> rsplit_once_char 58 (s @ 58 # t) = Some (s, t)"
proof -
  assume t: "58 \<notin> set t"
  then have "takeWhile (\<lambda>x. x \<noteq> 58) (rev (s @ 58 # t)) = rev t" "dropWhile (\<lambda>x. x \<noteq> 58) (rev (s @ 58 # t)) = 58 # rev s"
    by (auto simp: takeWhile_tail dropWhile_append3)
  then show ?thesis by (simp add: rsplit_once_char_def del: takeWhile_append dropWhile_append)
qed

lemma listen_value_read: "port \<le> u16_max \<Longrightarrow> listen_value (addr @ 58 # show_dec port) = Some (addr, port)"
proof -
  assume port: "port \<le> u16_max"
  have "58 \<notin> set (show_dec port)" using show_dec_chars [of 58 port] by auto
  from rsplit_once_last [OF this, of addr] port show ?thesis
    by (simp add: listen_value_def) (simp add: show_dec_def parse_unsigned_to_digits ok_value_def)
qed

text \<open>The three ways in which an address is given, after arguments that give none.\<close>

definition gives_none :: "ustring list \<Rightarrow> bool" where
  "gives_none args \<longleftrightarrow> list_all (\<lambda>a. inline_listen a = None \<and> a \<noteq> (lit ''-l'') \<and> a \<noteq> (lit ''--listen'')) args"

lemma parse_listen_skips: "gives_none args \<Longrightarrow> parse_listen (args @ rest) = parse_listen rest"
  by (induction args) (auto simp: gives_none_def simp del: lit_Cons)

lemma started_arguments_read:
  assumes "gives_none args" "port \<le> u16_max" "addr \<noteq> []" "hd addr \<noteq> 45"
  shows "parse_listen (args @ [(lit ''-l''), addr @ 58 # show_dec port] @ rest) = Some (addr, port)"
    "parse_listen (args @ [(lit ''--listen''), addr @ 58 # show_dec port] @ rest) = Some (addr, port)"
    "parse_listen (args @ [(lit ''--listen='') @ addr @ 58 # show_dec port] @ rest) = Some (addr, port)"
    "parse_listen (args @ [(lit ''-l'') @ addr @ 58 # show_dec port] @ rest) = Some (addr, port)"
proof -
  obtain a as where addr: "addr = a # as" "a \<noteq> 45" using assms(3,4) by (cases addr) auto
  have v: "listen_value (a # as @ 58 # show_dec port) = Some (a # as, port)" using listen_value_read [OF assms(2), of addr] addr by simp
  have skip: "parse_listen (args @ r) = parse_listen r" for r using assms(1) by (rule parse_listen_skips)
  show "parse_listen (args @ [(lit ''-l''), addr @ 58 # show_dec port] @ rest) = Some (addr, port)"
    "parse_listen (args @ [(lit ''--listen''), addr @ 58 # show_dec port] @ rest) = Some (addr, port)"
    "parse_listen (args @ [(lit ''--listen='') @ addr @ 58 # show_dec port] @ rest) = Some (addr, port)"
    "parse_listen (args @ [(lit ''-l'') @ addr @ 58 # show_dec port] @ rest) = Some (addr, port)"
    unfolding skip addr(1) by (simp_all add: inline_listen_def v addr(2))
qed

lemma upper_hex_inj: "m \<le> hi \<Longrightarrow> n \<le> hi \<Longrightarrow> upper_hex k m = upper_hex k n \<longleftrightarrow> m = n"
  using parse_upper_hex [of m hi k] parse_upper_hex [of n hi k] by (metis sum.inject(2))

lemma ends_with_port:
  assumes "port \<le> u16_max" "wanted \<le> u16_max"
  shows "ends_with (kernel_endpoint grps port) (58 # upper_hex 4 wanted) \<longleftrightarrow> port = wanted"
proof -
  have "length (upper_hex 4 n) = 4" if "n \<le> u16_max" for n
  proof -
    have "n < 16 ^ Suc 3" using that by (simp add: u16_max_def)
    from length_upper_hex [OF this] show ?thesis by simp
  qed
  with assms have "length (58 # upper_hex 4 port) = length (58 # upper_hex 4 wanted)" by simp
  then have "kernel_address grps @ 58 # upper_hex 4 port = u @ 58 # upper_hex 4 wanted \<longleftrightarrow>
      kernel_address grps = u \<and> upper_hex 4 port = upper_hex 4 wanted" for u by simp
  then have "ends_with (kernel_endpoint grps port) (58 # upper_hex 4 wanted) \<longleftrightarrow> upper_hex 4 port = upper_hex 4 wanted"
    unfolding ends_with_iff kernel_endpoint_def by blast
  with upper_hex_inj [OF assms] show ?thesis by simp
qed

lemma listening_state: "st \<le> u8_max \<Longrightarrow> upper_hex 2 st = (lit ''0A'') \<longleftrightarrow> st = 10"
proof -
  assume "st \<le> u8_max"
  moreover have "upper_hex 2 10 = (lit ''0A'')"
    by (simp add: upper_hex_def to_digits.simps digit_char_def pad_left_def to_ascii_upper_def is_ascii_lower_def)
  ultimately show ?thesis using upper_hex_inj [of st u8_max 10 2] by (auto simp: u8_max_def)
qed

text \<open>One row of the kernel as the reader of the start takes it.\<close>

definition row_listens :: "ustring \<Rightarrow> nat \<Rightarrow> bool" where
  "row_listens line port \<longleftrightarrow>
     (let fields = split_whitespace line in
      4 \<le> length fields \<and> ends_with (fields ! 1) (58 # upper_hex 4 port) \<and> fields ! 3 = (lit ''0A''))"

lemma kernel_row_listens:
  assumes "split_whitespace line = kernel_words here port there remote_port st uid inode others"
    "port \<le> u16_max" "st \<le> u8_max" "wanted \<le> u16_max"
  shows "row_listens line wanted \<longleftrightarrow> port = wanted \<and> st = 10"
  using assms ends_with_port [OF assms(2,4)] listening_state [OF assms(3)]
  by (simp add: row_listens_def kernel_words_def numeral_3_eq_3 del: lit_Cons)

lemma text_listening_rows: "text_has_listening_port t port \<longleftrightarrow> (\<exists>line \<in> set (drop 1 (lines t)). row_listens line port)"
  by (simp add: text_has_listening_port_def row_listens_def list_ex_iff)

text \<open>
  On the rows the kernel writes, the check of the start finds a port listening exactly when the reader of the
  process provider has an entry for it in the state \<open>listen\<close>.
\<close>

definition kernel_row :: "socket_family \<Rightarrow> ustring \<Rightarrow> bool" where
  "kernel_row family line \<longleftrightarrow>
     (\<exists>here port there remote_port st uid inode others.
        split_whitespace line = kernel_words here port there remote_port st uid inode others \<and> address_groups family here \<and>
        port \<le> u16_max \<and> remote_port \<le> u16_max \<and> st \<le> u8_max \<and> uid \<le> u32_max \<and> inode \<le> u64_max)"

lemma state_name_listen: "state_name st = (lit ''listen'') \<longleftrightarrow> st = 10"
  by (simp add: state_name_def)

lemma row_listens_entry:
  assumes "kernel_row family line" "wanted \<le> u16_max"
  shows "row_listens line wanted \<longleftrightarrow>
    (\<exists>e. parse_net_line line family = Some e \<and> ne_port e = wanted \<and> ne_state e = (lit ''listen''))"
proof -
  from assms(1) obtain here port there remote_port st uid inode others where
    row: "split_whitespace line = kernel_words here port there remote_port st uid inode others" "address_groups family here"
      "port \<le> u16_max" "remote_port \<le> u16_max" "st \<le> u8_max" "uid \<le> u32_max" "inode \<le> u64_max"
    unfolding kernel_row_def by blast
  show ?thesis
    using kernel_row_read [OF row] kernel_row_listens [OF row(1,3,5) assms(2)] by (simp add: state_name_listen del: lit_Cons)
qed

section \<open>What the provider does to the device\<close>

definition frida_logged :: "'d frida_env \<Rightarrow> ('d \<times> proc_call list) frida_env" where
  "frida_logged env = \<lparr>f_proc = proc_logged (f_proc env), f_lstat = (\<lambda>path (d, l). f_lstat env path d),
     f_is_file = (\<lambda>path (d, l). f_is_file env path d)\<rparr>"

lemma frida_logged_fields [simp]:
  "f_proc (frida_logged env) = proc_logged (f_proc env)"
  "f_lstat (frida_logged env) path dl = f_lstat env path (fst dl)"
  "f_is_file (frida_logged env) path dl = f_is_file env path (fst dl)"
  "p_self (proc_logged penv) = p_self penv" "p_dir (proc_logged penv) path dl = p_dir penv path (fst dl)"
  "p_read (proc_logged penv) path dl = p_read penv path (fst dl)"
  "de_text (p_device (proc_logged penv)) = de_text (p_device penv)"
  by (cases dl; simp add: frida_logged_def proc_logged_def noting_command_def)+

lemma frida_logged_reads [simp]:
  "server_at (frida_logged env) name dl pid = server_at env name (fst dl) pid"
  "scan_servers (frida_logged env) name dl names scanned = scan_servers env name (fst dl) names scanned"
  "find_server (frida_logged env) name dl = find_server env name (fst dl)"
  "binary_ready (frida_logged env) name dl = binary_ready env name (fst dl)"
  "start_checked (frida_logged env) params = start_checked env params"
  "stop_checked (frida_logged env) params = stop_checked env params"
proof -
  show at: "server_at (frida_logged env) name dl pid = server_at env name (fst dl) pid" for pid
    by (simp add: server_at_def proc_logged_reads split: sum.split list.split)
  show scan: "scan_servers (frida_logged env) name dl names scanned = scan_servers env name (fst dl) names scanned" for names scanned
    by (induction names arbitrary: scanned) (simp_all add: at split: option.split)
  show "find_server (frida_logged env) name dl = find_server env name (fst dl)"
    by (simp add: find_server_def scan split: sum.split)
  show "binary_ready (frida_logged env) name dl = binary_ready env name (fst dl)"
    by (simp add: binary_ready_def)
  show "start_checked (frida_logged env) params = start_checked env params" "stop_checked (frida_logged env) params = stop_checked env params"
    by (simp_all add: start_checked_def stop_checked_def frida_params_def)
qed

definition version_call :: "ustring \<Rightarrow> proc_call" where
  "version_call name = Command_Call (path_join HOSTED_DIR name) [(lit ''--version'')]"

definition start_call :: "start_params \<Rightarrow> proc_call" where
  "start_call p = Command_Call SU [(lit ''-c''), frida_start_script (sq_name p) (sq_bind p) (sq_port p) START_LOG]"

definition stop_call :: "ustring \<Rightarrow> proc_call" where
  "stop_call name = Command_Call SU [(lit ''-c''), frida_stop_script name]"

lemma emits_su: "emits (run_privileged (p_device (proc_logged env)) step script expect) (\<lambda>r w. w = [Command_Call SU [(lit ''-c''), script]])"
  using run_privileged_calls unfolding emits_def by blast

lemma emits_probe: "emits (probe_version (frida_logged env) name) (\<lambda>r w. w = [] \<or> w = [version_call name] \<and> validate_binary_name name = Inr ())"
proof -
  have cmd: "emits (abind (on_device (timed_command (p_device (proc_logged penv)) t path args)) (\<lambda>res. areturn (f res)))
      (\<lambda>r w. w = [Command_Call path args])" for penv :: "'a proc_env" and t path args and f :: "_ \<Rightarrow> ustring option"
    by (auto simp: emits_def abind_def on_device_def areturn_def proc_logged_def noting_command_def split: prod.splits)
  show ?thesis
  proof (cases "validate_binary_name name")
    case (Inl e)
    then show ?thesis by (simp add: probe_version_def emits_basic)
  next
    case (Inr u)
    have "emits (if \<not> there then areturn None
           else abind (on_device (timed_command (f_device (frida_logged env)) PROBE_TIMEOUT (path_join HOSTED_DIR name) [(lit ''--version'')])) (\<lambda>res.
             areturn (case res of
               Some (Inr out) \<Rightarrow> if success out then version_of_output (stdout out) else None
             | _ \<Rightarrow> None))) (\<lambda>r w. w = [] \<or> w = [version_call name] \<and> validate_binary_name name = Inr ())" for there
      unfolding frida_logged_fields version_call_def
      by (cases there) (auto simp: Inr simp del: lit_Cons intro: emits_basic emits_weaken [OF cmd])
    then show ?thesis unfolding probe_version_def Let_def Inr sum.case by (intro emits_asking)
  qed
qed

lemma emits_note: "emits (abind (finish_write env k v) (\<lambda>_. areturn v')) (\<lambda>r w. w = [])"
  by (auto simp: emits_def abind_def finish_write_def areturn_def)

lemma emits_undo: "emits (start_undo (frida_logged env) p reason steps) (\<lambda>r w. w = [stop_call (sq_name p)] \<and> (\<exists>e. r = Inl e))"
  unfolding start_undo_def Let_def frida_logged_fields
  by (rule emits_abind [OF emits_attempt [OF emits_su] emits_basic(2) [where B = "\<lambda>r w. w = [] \<and> (\<exists>e. r = Inl e)"]])
    (auto simp: stop_call_def)

definition started_log :: "start_params \<Rightarrow> aerror + avalue \<Rightarrow> proc_call list \<Rightarrow> bool" where
  "started_log p r w \<longleftrightarrow> w = [] \<or> w = [version_call (sq_name p)] \<or> w = [stop_call (sq_name p)] \<and> (\<exists>e. r = Inl e)"

lemma emits_verifying: "emits (start_verified (frida_logged env) p steps) (started_log p)"
proof -
  have undo: "emits (start_undo (frida_logged env) p reason st) (started_log p)" for reason st
    by (rule emits_weaken [OF emits_undo]) (simp add: started_log_def)
  have fin: "emits (abind (probe_version (frida_logged env) (sq_name p)) (\<lambda>version. abind (finish_write e k (f version)) (\<lambda>_. areturn (f version))))
      (started_log p)" for e k f
    by (rule emits_abind [OF emits_probe emits_note]) (auto simp: started_log_def)
  show ?thesis
    unfolding start_verified_def Let_def
    by (intro emits_asking) (auto intro!: undo fin split: list.split)
qed

lemma emits_starting: "emits (start_server (frida_logged env) p steps) (\<lambda>r w. \<exists>v. w = start_call p # v \<and> started_log p r v)"
  unfolding start_server_def frida_logged_fields
proof (rule emits_abind [OF emits_attempt [OF emits_su]])
  fix r :: "aerror + ustring"
  show "emits (case r of Inl e \<Rightarrow> asking (read_log_tail (frida_logged env)) (\<lambda>log.
       athrow (frida_with_steps e (steps @ [step_of ''start'' False (Some (err_message e))] @
         (case log of None \<Rightarrow> [] | Some t \<Rightarrow> [step_of ''read_start_log'' True (Some t)]))))
     | Inr _ \<Rightarrow> start_verified (frida_logged env) p (steps @ [step_of ''start'' True None])) (started_log p)"
    by (cases r) (auto intro!: emits_asking emits_basic emits_verifying simp: started_log_def)
qed (auto simp: start_call_def)

lemma start_now_calls:
  assumes "start_now (frida_logged env) p s = Some (r, s')"
  shows "device s' = device s \<or> find_server env (sq_name p) (fst (device s)) = [] \<and> fst (binary_ready env (sq_name p) (fst (device s))) \<and>
    (\<exists>v. snd (device s') = snd (device s) @ start_call p # v \<and> started_log p r v)"
proof -
  obtain ok detail where ready: "binary_ready env (sq_name p) (fst (device s)) = (ok, detail)" by fastforce
  consider "\<not> ok" | sv rest where "ok" "find_server env (sq_name p) (fst (device s)) = sv # rest"
    | "ok" "find_server env (sq_name p) (fst (device s)) = []" by (cases "find_server env (sq_name p) (fst (device s))") auto
  then show ?thesis
  proof cases
    case 3
    with assms ready obtain steps where "start_server (frida_logged env) p steps s = Some (r, s')"
      by (auto simp: start_now_def asking_def Let_def)
    with 3 ready emits_starting [of env p steps] show ?thesis unfolding emits_def by auto
  qed (use assms ready in \<open>auto simp: start_now_def asking_def Let_def athrow_def abind_def finish_write_def areturn_def\<close>)
qed

lemma confirm_gone_quiet:
  "confirm_gone (frida_logged env) name started n s = Some (r, s') \<Longrightarrow> snd (device s') = snd (device s)"
proof (induction n arbitrary: s)
  case (Suc n)
  have "snd (pause (p_device (proc_logged penv)) m dl) = snd dl" for penv :: "'a proc_env" and m dl
    by (cases dl) (simp add: proc_logged_def noting_command_def)
  with Suc show ?case by (fastforce simp: Let_def split: if_splits)
qed simp

lemma stop_process_root:
  assumes "stop_process (frida_logged env) name sv s = Some (r, s')" "sv_uid sv = Some 0"
  shows "snd (device s') = snd (device s) @ [stop_call name]"
proof -
  from assms obtain r1 where "run_privileged (p_device (proc_logged (f_proc env))) (lit ''stop'') (frida_stop_script name) (lit ''FRIDA_STOPPED'') s = Some (r1, s')"
    by (auto simp: stop_process_def abind_def areturn_def split: option.splits sum.splits)
  from run_privileged_calls [OF this] show ?thesis by (simp add: stop_call_def)
qed

lemma stop_process_calls:
  assumes "stop_process (frida_logged env) name sv s = Some (r, s')" "sv_pid sv \<noteq> 0"
  shows "device s' = device s \<and> (\<exists>e. r = Inl e) \<or>
    snd (device s') = snd (device s) @ [if sv_uid sv = Some 0 then stop_call name else Signal_Call (sv_pid sv) 15]"
proof (cases "sv_uid sv = Some 0")
  case True
  with stop_process_root [OF assms(1)] show ?thesis by simp
next
  case False
  obtain r1 d1 where sent: "send_signal (proc_logged (f_proc env)) (sv_pid sv) Term_Signal (device s) = (r1, d1)"
    by (rule prod.exhaust)
  with assms(1) False have s': "device s' = d1" and r: "r1 = Signal_Failed EINVAL \<Longrightarrow> \<exists>e. r = Inl e"
    by (cases r1; auto simp: stop_process_def stop_signal_def abind_def on_device_def areturn_def athrow_def)+
  from sent assms(2) have "d1 = device s \<and> r1 = Signal_Failed EINVAL \<or> snd d1 = snd (device s) @ [Signal_Call (sv_pid sv) 15]"
    by (cases "device s") (auto simp: send_signal_def proc_logged_def split: if_splits option.splits prod.splits)
  with False s' r show ?thesis by auto
qed

lemma found_pid: "find_server env name d = sv # rest \<Longrightarrow> sv_pid sv \<noteq> 0 \<and> sv_pid sv \<noteq> p_self (f_proc env) \<and>
    (\<exists>argv0 args. sv_args sv = argv0 # args \<and> file_name argv0 = Some name)"
proof -
  assume f: "find_server env name d = sv # rest"
  then obtain names where n: "sv \<in> set (scan_servers env name d names 0)"
    by (auto simp: find_server_def simp flip: set_sort split: sum.splits) (metis list.set_intros(1) set_sort)
  from scan_servers_sound [OF this] show ?thesis by (auto simp: server_listed_def dest: server_at_fields)
qed

lemma stop_now_log:
  assumes "stop_now (frida_logged env) (k, name) s = Some (r, s')" "find_server env name (fst (device s)) = sv # rest"
  shows "\<exists>r1 s1. stop_process (frida_logged env) name sv s = Some (r1, s1) \<and> snd (device s') = snd (device s1)"
proof -
  obtain r1 s1 where ended: "stop_process (frida_logged env) name sv s = Some (r1, s1)"
    using stop_process_moves(1) [of "frida_logged env" name sv] by (auto simp: ends_def) (metis not_None_eq surj_pair)
  have "snd (device s') = snd (device s1)"
  proof (cases r1)
    case (Inl e)
    with assms ended show ?thesis
      by (simp add: stop_now_def asking_def Let_def abind_def attempt_def athrow_def)
  next
    case (Inr u)
    obtain steps where "stop_confirmed (frida_logged env) k name sv steps s1 = Some (r, s')"
      using assms ended Inr by (simp add: stop_now_def asking_def Let_def abind_def attempt_def)
    then show ?thesis
      using confirm_gone_quiet [of env name]
      by (fastforce simp: stop_confirmed_def asking_def abind_def Let_def athrow_def finish_write_def areturn_def
          split: option.splits sum.splits prod.splits if_splits)
  qed
  with ended show ?thesis by blast
qed

lemma stop_now_calls:
  assumes "stop_now (frida_logged env) (k, name) s = Some (r, s')"
  shows "snd (device s') = snd (device s) \<or> (\<exists>sv rest. find_server env name (fst (device s)) = sv # rest \<and>
    snd (device s') = snd (device s) @ [if sv_uid sv = Some 0 then stop_call name else Signal_Call (sv_pid sv) 15])"
proof (cases "find_server env name (fst (device s))")
  case Nil
  with assms show ?thesis by (simp add: stop_now_def asking_def Let_def abind_def finish_write_def areturn_def) auto
next
  case (Cons sv rest)
  from stop_now_log [OF assms Cons] obtain r1 s1 where
    ended: "stop_process (frida_logged env) name sv s = Some (r1, s1)" "snd (device s') = snd (device s1)" by blast
  with stop_process_calls [OF ended(1)] found_pid [OF Cons] Cons show ?thesis by auto
qed

lemma status_calls:
  assumes "frida_status (frida_logged env) params s = Some (r, s')"
  shows "snd (device s') = snd (device s) \<or> snd (device s') = snd (device s) @ [version_call DEFAULT_BINARY]"
proof -
  have "emits (frida_status (frida_logged env) params) (\<lambda>r w. w = [] \<or> w = [version_call DEFAULT_BINARY])"
    unfolding frida_status_def
    by (rule emits_abind [OF emits_basic(3) [where C = "\<lambda>r w. w = []"]], simp)
      (auto intro!: emits_asking emits_abind [OF emits_probe, where B = "\<lambda>x r w. w = []"] emits_basic)
  with assms show ?thesis unfolding emits_def by fastforce
qed

section \<open>What a success means\<close>

lemma start_verified_true:
  assumes "start_verified env p steps s = Some (Inr v, s')"
  shows "\<exists>sv rest version steps' addr port. find_server env (sq_name p) (device s) = sv # rest \<and> sv_uid sv = Some 0 \<and>
    parse_listen (sv_args sv) = Some (addr, port) \<and> is_listening env port (device s) \<and>
    v = start_value (start_result_of p Executed sv version steps' (lit ''root_listening''))"
proof -
  have undo: "start_undo env p reason st s \<noteq> Some (Inr v, s')" for reason st
    by (auto simp: start_undo_def abind_def attempt_def Let_def athrow_def split: option.splits prod.splits)
  from assms obtain sv rest where f: "find_server env (sq_name p) (device s) = sv # rest" "sv_uid sv = Some 0"
      "facts_listening env (sv # rest) (device s)"
    by (auto simp: start_verified_def asking_def Let_def undo split: list.splits if_splits)
  then obtain addr port where l: "parse_listen (sv_args sv) = Some (addr, port)" "is_listening env port (device s)"
    by (auto simp: facts_listening_def split: option.splits)
  from assms f obtain version steps' where "v = start_value (start_result_of p Executed sv version steps' (lit ''root_listening''))"
    by (auto simp: start_verified_def asking_def Let_def abind_def areturn_def finish_write_def split: option.splits prod.splits sum.splits)
  with f l show ?thesis by blast
qed

lemma start_now_true:
  assumes "start_now env p s = Some (Inr v, s')"
  shows "(\<exists>sv rest steps detail. find_server env (sq_name p) (device s) = sv # rest \<and> device s' = device s \<and>
      v = start_value (start_result_of p No_Op sv None steps detail)) \<or>
    find_server env (sq_name p) (device s) = [] \<and>
    (\<exists>out s1 sv rest version steps addr port.
      run_privileged (f_device env) (lit ''start'') (frida_start_script (sq_name p) (sq_bind p) (sq_port p) START_LOG) (lit ''FRIDA_STARTED'') s = Some (Inr out, s1) \<and>
      find_server env (sq_name p) (device s1) = sv # rest \<and> sv_uid sv = Some 0 \<and>
      parse_listen (sv_args sv) = Some (addr, port) \<and> is_listening env port (device s1) \<and>
      v = start_value (start_result_of p Executed sv version steps (lit ''root_listening'')))"
proof (cases "find_server env (sq_name p) (device s)")
  case (Cons sv rest)
  with assms show ?thesis
    by (auto simp: start_now_def asking_def Let_def athrow_def abind_def areturn_def finish_write_def split: prod.splits if_splits)
next
  case Nil
  with assms obtain steps where "start_server env p steps s = Some (Inr v, s')"
    by (auto simp: start_now_def asking_def Let_def athrow_def split: prod.splits if_splits)
  then obtain out s1 steps' where
    "run_privileged (f_device env) (lit ''start'') (frida_start_script (sq_name p) (sq_bind p) (sq_port p) START_LOG) (lit ''FRIDA_STARTED'') s = Some (Inr out, s1)"
    "start_verified env p steps' s1 = Some (Inr v, s')"
    by (auto simp: start_server_def abind_def attempt_def asking_def athrow_def split: option.splits prod.splits sum.splits)
  with start_verified_true [OF this(2)] Nil show ?thesis by blast
qed

lemma confirm_gone_true: "confirm_gone env name started n s = Some (Inr True, s') \<Longrightarrow> find_server env name (device s') = []"
  by (induction n arbitrary: s) (auto simp: Let_def split: if_splits)

lemma stop_now_true:
  assumes "stop_now env (k, name) s = Some (Inr v, s')"
  shows "find_server env name (device s') = [] \<and> (\<exists>steps.
    v = (case find_server env name (device s) of
       [] \<Rightarrow> stop_value (stop_result_of k name No_Op None steps (lit ''not_running''))
     | sv # _ \<Rightarrow> stop_value (stop_result_of k name Executed (Some sv) steps (lit ''stopped''))))"
proof (cases "find_server env name (device s)")
  case Nil
  with assms show ?thesis
    by (auto simp: stop_now_def asking_def Let_def abind_def finish_write_def areturn_def)
next
  case (Cons sv rest)
  with assms obtain steps s1 where "stop_confirmed env k name sv steps s1 = Some (Inr v, s')"
    by (auto simp: stop_now_def asking_def Let_def abind_def attempt_def athrow_def split: option.splits prod.splits sum.splits)
  then obtain started s2 steps' where "confirm_gone env name started STOP_CHECKS s1 = Some (Inr True, s2)" "device s' = device s2"
      "v = stop_value (stop_result_of k name Executed (Some sv) steps' (lit ''stopped''))"
    by (auto simp: stop_confirmed_def asking_def abind_def Let_def athrow_def areturn_def finish_write_def
        split: option.splits prod.splits sum.splits if_splits)
  with confirm_gone_true [OF this(1)] Cons show ?thesis by auto
qed

lemma frida_start_true:
  assumes "frida_start env params s = Some (Inr v, s')" "start_checked env params = Inr p"
    and fresh: "lookup_at (ledger s) (clock (f_device env) (device s)) (sq_operation p) = None"
  shows "\<exists>t. device t = device s \<and> start_now env p t = Some (Inr v, s')"
proof -
  have b: "begin_write (f_device env) (lit ''frida.server.start'') (sq_name p) (sq_operation p) = Inr ()"
    using assms(1,2) by (cases "begin_write (f_device env) (lit ''frida.server.start'') (sq_name p) (sq_operation p)")
      (auto simp: frida_start_def submit_def athrow_def)
  from assms(1) have "start_now env p (s\<lparr>ledger := prune (entries_order (f_device env)) (ledger s) (clock (f_device env) (device s))\<rparr>) = Some (Inr v, s')"
    unfolding frida_start_def frida_start_write.proceeds [OF assms(2) b] Let_def fresh by simp
  then show ?thesis by (intro exI conjI) simp_all
qed

lemma frida_stop_true:
  assumes "frida_stop env params s = Some (Inr v, s')" "stop_checked env params = Inr (k, name)"
    and fresh: "lookup_at (ledger s) (clock (f_device env) (device s)) k = None"
  shows "\<exists>t. device t = device s \<and> stop_now env (k, name) t = Some (Inr v, s')"
proof -
  have b: "begin_write (f_device env) (lit ''frida.server.stop'') (snd (k, name)) (fst (k, name)) = Inr ()"
    using assms(1,2) by (cases "begin_write (f_device env) (lit ''frida.server.stop'') name k")
      (auto simp: frida_stop_def submit_def athrow_def)
  from assms(1) have "stop_now env (k, name) (s\<lparr>ledger := prune (entries_order (f_device env)) (ledger s) (clock (f_device env) (device s))\<rparr>) = Some (Inr v, s')"
    unfolding frida_stop_def frida_stop_write.proceeds [OF assms(2) b] Let_def fst_conv fresh by simp
  then show ?thesis by (intro exI conjI) simp_all
qed

lemma submit_calls:
  assumes "submit env meth parse package operation act params s = Some (r, s')"
  shows "device s' = device s \<or> (\<exists>p t. parse params = Inr p \<and> device t = device s \<and> act p t = Some (r, s'))"
proof (cases "parse params")
  case (Inl e)
  with assms show ?thesis by (simp add: submit_def athrow_def)
next
  case (Inr p)
  then show ?thesis
    using assms by (cases "begin_write env meth (package p) (operation p)")
      (auto simp: submit_def abind_def ledger_lookup_def athrow_def areturn_def split: prod.splits option.splits)
qed

lemma start_checked_valid: "start_checked env params = Inr p \<Longrightarrow>
    validate_binary_name (sq_name p) = Inr () \<and> validate_listen (sq_bind p) (sq_port p) = Inr ()"
  by (auto simp: start_checked_def name_of_def Let_def rbind_eq_Inr split: prod.splits)

lemma stop_checked_valid: "stop_checked env params = Inr (k, name) \<Longrightarrow> validate_binary_name name = Inr ()"
  by (auto simp: stop_checked_def name_of_def Let_def rbind_eq_Inr split: prod.splits)

lemma start_log_inert: "inert START_LOG"
  by (simp add: START_LOG_def inert_def SHELL_METACHARACTERS_def)

text \<open>The calls one request makes, as far as they can change anything: what its method allows on this device.\<close>

definition allowed_start :: "'d frida_env \<Rightarrow> start_params \<Rightarrow> 'd \<Rightarrow> aerror + avalue \<Rightarrow> proc_call list \<Rightarrow> bool" where
  "allowed_start env p d r w \<longleftrightarrow>
     find_server env (sq_name p) d = [] \<and> fst (binary_ready env (sq_name p) d) \<and> (\<exists>v. w = start_call p # v \<and> started_log p r v) \<and>
     sq_bind p \<in> {(lit ''127.0.0.1''), (lit ''0.0.0.0'')} \<and> 1024 \<le> sq_port p \<and>
     shell_frame (frida_start_script (sq_name p) (sq_bind p) (sq_port p) START_LOG) = shell_frame (frida_start_script [] [] 0 []) \<and>
     shell_frame (frida_stop_script (sq_name p)) = shell_frame (frida_stop_script [])"

definition allowed_stop :: "'d frida_env \<Rightarrow> ustring \<Rightarrow> 'd \<Rightarrow> proc_call list \<Rightarrow> bool" where
  "allowed_stop env name d w \<longleftrightarrow>
     (\<exists>sv rest. find_server env name d = sv # rest \<and> sv_pid sv \<noteq> 0 \<and> sv_pid sv \<noteq> p_self (f_proc env) \<and>
        (\<exists>argv0 args. sv_args sv = argv0 # args \<and> file_name argv0 = Some name) \<and>
        w = [if sv_uid sv = Some 0 then stop_call name else Signal_Call (sv_pid sv) 15]) \<and>
     shell_frame (frida_stop_script name) = shell_frame (frida_stop_script [])"

lemma frida_start_calls:
  assumes "frida_start (frida_logged env) params s = Some (r, s')"
  shows "\<exists>w. snd (device s') = snd (device s) @ w \<and>
    (w = [] \<or> (\<exists>p. start_checked env params = Inr p \<and> allowed_start env p (fst (device s)) r w))"
proof -
  from submit_calls [OF assms [unfolded frida_start_def]] consider "device s' = device s"
    | p t where "start_checked env params = Inr p" "device t = device s" "start_now (frida_logged env) p t = Some (r, s')" by auto
  then show ?thesis
  proof cases
    case 2
    from start_checked_valid [OF 2(1)] have "inert (sq_name p)" "inert (sq_bind p)" "1024 \<le> sq_port p" "sq_bind p \<in> {(lit ''127.0.0.1''), (lit ''0.0.0.0'')}"
      using validate_binary_name_inert [of "sq_name p"] validate_listen_inert [of "sq_bind p" "sq_port p"]
      by (auto simp: validate_listen_def simp del: lit_Cons split: if_splits)
    note checked = this
    note frames = frida_script_structure(1) [OF checked(1,2) start_log_inert, of "sq_port p"] frida_script_structure(2) [OF checked(1)]
    from start_now_calls [OF 2(3)] consider "device s' = device s"
      | v where "find_server env (sq_name p) (fst (device s)) = []" "fst (binary_ready env (sq_name p) (fst (device s)))"
        "snd (device s') = snd (device s) @ start_call p # v" "started_log p r v"
      by (auto simp: 2(2))
    then show ?thesis
    proof cases
      case (2 v)
      with checked frames have "allowed_start env p (fst (device s)) r (start_call p # v)"
        unfolding allowed_start_def by blast
      with 2(3) \<open>start_checked env params = Inr p\<close> show ?thesis by blast
    qed auto
  qed auto
qed

lemma frida_stop_calls:
  assumes "frida_stop (frida_logged env) params s = Some (r, s')"
  shows "\<exists>w. snd (device s') = snd (device s) @ w \<and>
    (w = [] \<or> (\<exists>k name. stop_checked env params = Inr (k, name) \<and> allowed_stop env name (fst (device s)) w))"
proof -
  from submit_calls [OF assms [unfolded frida_stop_def]] consider "device s' = device s"
    | k name t where "stop_checked env params = Inr (k, name)" "device t = device s" "stop_now (frida_logged env) (k, name) t = Some (r, s')"
    by auto
  then show ?thesis
  proof cases
    case 2
    from validate_binary_name_inert [OF stop_checked_valid [OF 2(1)]] have "inert name" ..
    note frame = frida_script_structure(2) [OF this]
    from stop_now_calls [OF 2(3)] consider "snd (device s') = snd (device s)"
      | sv rest where "find_server env name (fst (device s)) = sv # rest"
        "snd (device s') = snd (device s) @ [if sv_uid sv = Some 0 then stop_call name else Signal_Call (sv_pid sv) 15]"
      by (auto simp: 2(2))
    then show ?thesis
    proof cases
      case (2 sv rest)
      with found_pid [OF 2(1)] frame \<open>stop_checked env params = Inr (k, name)\<close> show ?thesis
        unfolding allowed_stop_def by (intro exI [of _ "[_]"] conjI disjI2 exI [of _ k] exI [of _ name]) auto
    qed auto
  qed auto
qed
end
