(* ===== verification/Agent_Router.thy ===== *)
theory Agent_Router
  imports Agent_Activity "HOL-Library.List_Lexorder"
begin

text \<open>
  Routing in the agent (\<open>android-agent/src/router.rs\<close>) and the system provider
  (\<open>android-agent/src/provider/system.rs\<close>), which authenticates a client. A provider is a record of
  what the \<open>Provider\<close> trait asks of it; the method table is a map.
\<close>

record request_context =
  ctx_providers :: "provider_info list"
  ctx_capabilities :: "capability_info list"

record 'd provider =
  info :: "'d agent_state \<Rightarrow> provider_info"
  methods :: "ustring list"
  probing :: "'d agent_state \<Rightarrow> bool"
  reason :: "ustring \<Rightarrow> 'd agent_state \<Rightarrow> ustring option"
  handle :: "request_context \<Rightarrow> ustring \<Rightarrow> avalue \<Rightarrow> ('d, avalue) action"

record 'd router =
  providers :: "'d provider list"
  table :: "ustring \<rightharpoonup> 'd provider"

section \<open>The router\<close>

definition router_new :: "'d router" where
  "router_new = \<lparr>providers = [], table = Map.empty\<rparr>"

definition register_provider :: "'d provider \<Rightarrow> 'd router \<Rightarrow> (aerror + unit) \<times> 'd router" where
  "register_provider p r =
     (case List.find (\<lambda>m. table r m \<noteq> None) (methods p) of
        Some m \<Rightarrow> (Inl (agent_error_new Internal (lit ''duplicate provider method registration: '' @ m)), r)
      | None \<Rightarrow> (Inr (), \<lparr>providers = providers r @ [p], table = foldl (\<lambda>t m. t(m \<mapsto> p)) (table r) (methods p)\<rparr>))"

definition router_provider_info :: "'d router \<Rightarrow> 'd agent_state \<Rightarrow> provider_info list" where
  "router_provider_info r s = map (\<lambda>p. info p s) (providers r)"

definition capability_of :: "'d provider \<Rightarrow> 'd agent_state \<Rightarrow> ustring \<Rightarrow> capability_info" where
  "capability_of p s m =
     \<lparr>cap_method = m, cap_version = 1, cap_provider = prov_name (info p s), cap_available = reason p m s = None,
      unavailable_reason = reason p m s, probe_pending = probing p s\<rparr>"

definition capabilities :: "'d router \<Rightarrow> 'd agent_state \<Rightarrow> capability_info list" where
  "capabilities r s = sort_key cap_method (concat (map (\<lambda>p. map (capability_of p s) (methods p)) (providers r)))"

definition context_of :: "'d router \<Rightarrow> 'd agent_state \<Rightarrow> request_context" where
  "context_of r s = \<lparr>ctx_providers = router_provider_info r s, ctx_capabilities = capabilities r s\<rparr>"

definition dispatch :: "'d router \<Rightarrow> ustring \<Rightarrow> avalue \<Rightarrow> ('d, avalue) action" where
  "dispatch r m params s =
     (case table r m of
        None \<Rightarrow> athrow (agent_error_new Unsupported_Method (lit ''unsupported method: '' @ m)) s
      | Some p \<Rightarrow> handle p (context_of r s) m params s)"

section \<open>The system provider\<close>

definition constant_time_eq :: "bytes \<Rightarrow> bytes \<Rightarrow> bool" where
  "constant_time_eq left right =
     (foldl (\<lambda>difference i. difference OR ucast ((if i < length left then left ! i else 0) XOR (if i < length right then right ! i else 0)))
        (of_nat (length left) XOR of_nat (length right) :: u64) [0..<max (length left) (length right)] = 0)"

fun version_from :: "avalue \<Rightarrow> de_error + nat" where
  "version_from (VNumber (Pos_Int n)) = (if n \<le> u32_max then Inr n else Inl Invalid_Type)"
| "version_from _ = Inl Invalid_Type"

fun versions_from :: "avalue \<Rightarrow> de_error + nat list" where
  "versions_from (VArray vs) = rmapM version_from vs"
| "versions_from _ = Inl Invalid_Type"

fun hello_params_from :: "avalue \<Rightarrow> de_error + hello_params" where
  "hello_params_from (VObject obj) =
     rbind (field_from string_from (map_of obj (lit ''auth_token''))) (\<lambda>t.
     rbind (field_from string_from (map_of obj (lit ''desktop_version''))) (\<lambda>v.
     rbind (field_from versions_from (map_of obj (lit ''supported_protocol_versions''))) (\<lambda>ps.
     rbind (ok_or t (Missing_Field (lit ''auth_token''))) (\<lambda>t.
     rbind (ok_or v (Missing_Field (lit ''desktop_version''))) (\<lambda>v.
     rbind (ok_or ps (Missing_Field (lit ''supported_protocol_versions''))) (\<lambda>ps.
     Inr \<lparr>auth_token = t, desktop_version = v, supported_protocol_versions = ps\<rparr>))))))"
| "hello_params_from (VArray [t, v, ps]) =
     rbind (string_from t) (\<lambda>t. rbind (string_from v) (\<lambda>v. rbind (versions_from ps) (\<lambda>ps.
     Inr \<lparr>auth_token = t, desktop_version = v, supported_protocol_versions = ps\<rparr>)))"
| "hello_params_from (VArray _) = Inl Invalid_Length"
| "hello_params_from _ = Inl Invalid_Type"

definition system_params :: "'d device_env \<Rightarrow> (avalue \<Rightarrow> de_error + 'p) \<Rightarrow> avalue \<Rightarrow> aerror + 'p" where
  "system_params env from v =
     rmap_err (\<lambda>e. with_details (agent_error_new Invalid_Request (lit ''invalid method parameters''))
        (reason_details (de_text env e))) (from v)"

fun health_name :: "provider_health \<Rightarrow> ustring" where
  "health_name Health_Ready = lit ''ready''"
| "health_name Health_Degraded = lit ''degraded''"
| "health_name Health_Unavailable = lit ''unavailable''"
| "health_name Health_Incompatible = lit ''incompatible''"
| "health_name Health_Faulted = lit ''faulted''"

definition permission_value :: "permission_info \<Rightarrow> avalue" where
  "permission_value p =
     VObject [(lit ''root'', VBool (perm_root p)), (lit ''selinux_enforcing'', VBool (selinux_enforcing p)),
       (lit ''shell'', VBool (perm_shell p))]"

definition provider_value :: "provider_info \<Rightarrow> avalue" where
  "provider_value p =
     VObject ([(lit ''health'', VString (health_name (prov_health p)))] @ opt_field ''last_error'' VString (last_error p) @
       [(lit ''name'', VString (prov_name p))] @
       (if required_permissions p = [] then [] else [(lit ''required_permissions'', VArray (map VString (required_permissions p)))]) @
       [(lit ''version'', VString (prov_version p))])"

definition capability_value :: "capability_info \<Rightarrow> avalue" where
  "capability_value c =
     VObject ([(lit ''available'', VBool (cap_available c)), (lit ''method'', VString (cap_method c)),
         (lit ''probe_pending'', VBool (probe_pending c)), (lit ''provider'', VString (cap_provider c))] @
       opt_field ''unavailable_reason'' VString (unavailable_reason c) @
       [(lit ''version'', VNumber (Pos_Int (cap_version c)))])"

definition hello_value :: "hello_result \<Rightarrow> avalue" where
  "hello_value h =
     VObject [(lit ''agent_version'', VString (hello_agent_version h)),
       (lit ''capabilities'', VArray (map capability_value (hello_capabilities h))),
       (lit ''permissions'', permission_value (hello_permissions h)),
       (lit ''protocol_version'', VNumber (Pos_Int (hello_protocol h))),
       (lit ''providers'', VArray (map provider_value (hello_providers h)))]"

definition health_value :: "health_result \<Rightarrow> avalue" where
  "health_value h =
     VObject [(lit ''agent_version'', VString (health_agent_version h)),
       (lit ''protocol_version'', VNumber (Pos_Int (health_protocol h))),
       (lit ''status'', VString (case health_status h of Status_Ready \<Rightarrow> lit ''ready'' | Status_Degraded \<Rightarrow> lit ''degraded'')),
       (lit ''uptime_ms'', VNumber (Pos_Int (uptime_ms h)))]"

record system_provider =
  sys_token :: ustring
  sys_permissions :: permission_info
  started_at :: instant
  sys_version :: ustring

definition system_hello :: "'d device_env \<Rightarrow> system_provider \<Rightarrow> request_context \<Rightarrow> avalue \<Rightarrow> aerror + avalue" where
  "system_hello env sys ctx params =
     rbind (system_params env hello_params_from params) (\<lambda>p.
     if \<not> constant_time_eq (utf8 (auth_token p)) (utf8 (sys_token sys)) then
       Inl (agent_error_new Permission_Denied (lit ''agent authentication failed''))
     else
       rbind (ok_or (negotiate_protocol (supported_protocol_versions p))
           (agent_error_new Incompatible_Version (lit ''no mutually supported protocol version''))) (\<lambda>v.
       Inr (hello_value \<lparr>hello_protocol = v, hello_agent_version = sys_version sys,
         hello_permissions = sys_permissions sys, hello_providers = ctx_providers ctx,
         hello_capabilities = ctx_capabilities ctx\<rparr>)))"

definition system_health :: "'d device_env \<Rightarrow> system_provider \<Rightarrow> avalue \<Rightarrow> 'd agent_state \<Rightarrow> aerror + avalue" where
  "system_health env sys params s =
     rbind (system_params env empty_params_from params) (\<lambda>_.
     Inr (health_value \<lparr>health_status = Status_Ready, health_agent_version = sys_version sys, health_protocol = PROTOCOL_VERSION,
       uptime_ms = min ((clock env (device s) - started_at sys) div 10 ^ 6) u64_max\<rparr>))"

definition system_capabilities :: "'d device_env \<Rightarrow> request_context \<Rightarrow> avalue \<Rightarrow> aerror + avalue" where
  "system_capabilities env ctx params =
     rbind (system_params env empty_params_from params) (\<lambda>_.
     Inr (VObject [(lit ''capabilities'', VArray (map capability_value (ctx_capabilities ctx)))]))"

definition SYSTEM_HELLO :: ustring where "SYSTEM_HELLO = lit ''system.hello''"
definition SYSTEM_HEALTH :: ustring where "SYSTEM_HEALTH = lit ''system.health''"
definition CAPABILITY_LIST :: ustring where "CAPABILITY_LIST = lit ''capability.list''"

definition system_handle ::
  "'d device_env \<Rightarrow> system_provider \<Rightarrow> request_context \<Rightarrow> ustring \<Rightarrow> avalue \<Rightarrow> ('d, avalue) action" where
  "system_handle env sys ctx m params s =
     alift (if m = SYSTEM_HELLO then system_hello env sys ctx params
       else if m = SYSTEM_HEALTH then system_health env sys params s
       else if m = CAPABILITY_LIST then system_capabilities env ctx params
       else Inl (agent_error_new Unsupported_Method (lit ''unsupported system method: '' @ m))) s"

definition static_info :: "string \<Rightarrow> ustring \<Rightarrow> ustring list \<Rightarrow> provider_info" where
  "static_info name version needs =
     \<lparr>prov_name = lit name, prov_version = version, prov_health = Health_Ready, required_permissions = needs, last_error = None\<rparr>"

definition system_as_provider :: "'d device_env \<Rightarrow> system_provider \<Rightarrow> 'd provider" where
  "system_as_provider env sys =
     \<lparr>info = (\<lambda>_. static_info ''system'' (sys_version sys) []), methods = [SYSTEM_HELLO, SYSTEM_HEALTH, CAPABILITY_LIST],
      probing = (\<lambda>_. False), reason = (\<lambda>_ _. None), handle = system_handle env sys\<rparr>"

definition activity_as_provider :: "'d device_env \<Rightarrow> ustring \<Rightarrow> 'd provider" where
  "activity_as_provider env version =
     \<lparr>info = (\<lambda>_. static_info ''activity'' version [lit ''shell'']), methods = ACTIVITY_METHODS,
      probing = (\<lambda>_. False), reason = (\<lambda>_ _. None), handle = (\<lambda>_. activity_handle env)\<rparr>"

text \<open>
  The router of the agent: the system provider first, then the others in the order of \<open>lib.rs\<close>. A
  second registration of a method stops the agent at start-up (\<open>expect\<close>): no router.
\<close>

fun register_all :: "'d provider list \<Rightarrow> 'd router \<Rightarrow> 'd router option" where
  "register_all [] r = Some r"
| "register_all (p # ps) r = (case register_provider p r of (Inl _, _) \<Rightarrow> None | (Inr _, r') \<Rightarrow> register_all ps r')"

definition system_router_with :: "'d device_env \<Rightarrow> system_provider \<Rightarrow> 'd provider list \<Rightarrow> 'd router option" where
  "system_router_with env sys others = register_all (system_as_provider env sys # others) router_new"

section \<open>Comparing tokens\<close>

lemma or_zero: "(a OR b = (0 :: 'a::len word)) \<longleftrightarrow> a = 0 \<and> b = 0"
  by (auto simp: bit_eq_iff bit_simps)

lemma foldl_or_zero: "foldl (\<lambda>d i. d OR f i) (z :: 'a::len word) is = 0 \<longleftrightarrow> z = 0 \<and> (\<forall>i \<in> set is. f i = 0)"
  by (induction "is" arbitrary: z) (auto simp: or_zero)

lemma xor_zero: "(a XOR b = (0 :: 'a::len word)) \<longleftrightarrow> a = b"
  by (metis word_xor_cancel xor.left_neutral xor_self_eq xor.commute)

lemma ucast_u8_zero: "(ucast (b :: u8) :: u64) = 0 \<longleftrightarrow> b = 0"
proof -
  have "unat (ucast b :: u64) = unat b" using unat_as [of b, where 'b = 64] unat_u8_lt [of b] by simp
  then show ?thesis by (metis unsigned_0 unsigned_eq_0_iff)
qed

lemma of_nat_u64_eq: "m < 2 ^ 64 \<Longrightarrow> n < 2 ^ 64 \<Longrightarrow> (of_nat m :: u64) = of_nat n \<longleftrightarrow> m = n"
proof -
  have "unat (of_nat k :: u64) = k" if "k < 2 ^ 64" for k using that by (simp add: unat_of_nat)
  then show "m < 2 ^ 64 \<Longrightarrow> n < 2 ^ 64 \<Longrightarrow> (of_nat m :: u64) = of_nat n \<longleftrightarrow> m = n" by metis
qed

text \<open>Comparing in constant time decides equality, for all lengths a machine can hold.\<close>

lemma constant_time_eq_iff:
  assumes "length left < 2 ^ 64" "length right < 2 ^ 64"
  shows "constant_time_eq left right \<longleftrightarrow> left = right"
proof -
  have "constant_time_eq left right \<longleftrightarrow> length left = length right \<and>
    (\<forall>i < max (length left) (length right). (if i < length left then left ! i else 0) = (if i < length right then right ! i else 0))"
    unfolding constant_time_eq_def foldl_or_zero xor_zero ucast_u8_zero using of_nat_u64_eq [OF assms] by auto
  also have "\<dots> \<longleftrightarrow> left = right" by (auto simp: list_eq_iff_nth_eq)
  finally show ?thesis .
qed

lemma system_hello_token:
  assumes "system_hello env sys ctx params = Inr v" "length (utf8 (sys_token sys)) < 2 ^ 64"
    and "\<And>p. hello_params_from params = Inr p \<Longrightarrow> length (utf8 (auth_token p)) < 2 ^ 64"
  shows "\<exists>p. hello_params_from params = Inr p \<and> utf8 (auth_token p) = utf8 (sys_token sys) \<and>
    PROTOCOL_VERSION \<in> set (supported_protocol_versions p)"
  using assms(1) constant_time_eq_iff [OF assms(3,2)]
  by (auto simp: system_hello_def system_params_def result_inv negotiate_protocol_def split: if_splits)

section \<open>What the router holds\<close>

text \<open>Each method has exactly one provider, one of the registered ones that lists it.\<close>

definition router_ok :: "'d router \<Rightarrow> bool" where
  "router_ok r \<longleftrightarrow> distinct (concat (map methods (providers r))) \<and>
     (\<forall>m p. table r m = Some p \<longleftrightarrow> p \<in> set (providers r) \<and> m \<in> set (methods p))"

lemma router_new_ok: "router_ok router_new"
  by (simp add: router_ok_def router_new_def)

lemma table_updates: "foldl (\<lambda>t m. t(m \<mapsto> p)) t ms m = (if m \<in> set ms then Some p else t m)"
  by (induction ms arbitrary: t) auto

lemma find_None: "List.find P xs = None \<longleftrightarrow> (\<forall>x \<in> set xs. \<not> P x)"
  by (auto simp: find_None_iff)

lemma register_provider_cases:
  "(\<exists>m \<in> set (methods p). table r m \<noteq> None \<and>
      register_provider p r = (Inl (agent_error_new Internal (lit ''duplicate provider method registration: '' @ m)), r)) \<or>
   (\<forall>m \<in> set (methods p). table r m = None) \<and>
      register_provider p r = (Inr (), \<lparr>providers = providers r @ [p], table = foldl (\<lambda>t m. t(m \<mapsto> p)) (table r) (methods p)\<rparr>)"
proof (cases "List.find (\<lambda>m. table r m \<noteq> None) (methods p)")
  case None
  then have "\<forall>m \<in> set (methods p). table r m = None" by (simp add: find_None)
  then show ?thesis unfolding register_provider_def None by simp
next
  case (Some m)
  with find_Some_mem [OF Some] show ?thesis by (auto simp: register_provider_def simp del: lit_Cons)
qed

lemma register_provider_ok:
  assumes ok: "router_ok r" and d: "distinct (methods p)" and reg: "register_provider p r = (res, r')"
  shows "router_ok r'"
  using register_provider_cases [of p r]
proof (elim disjE bexE conjE)
  assume free: "\<forall>m \<in> set (methods p). table r m = None"
    and new: "register_provider p r = (Inr (), \<lparr>providers = providers r @ [p], table = foldl (\<lambda>t m. t(m \<mapsto> p)) (table r) (methods p)\<rparr>)"
  have t: "table r m = Some q \<longleftrightarrow> q \<in> set (providers r) \<and> m \<in> set (methods q)" for m q using ok by (simp add: router_ok_def)
  have apart: "q \<in> set (providers r) \<Longrightarrow> m \<in> set (methods q) \<Longrightarrow> m \<notin> set (methods p)" for q m
    using free t by (metis option.distinct(1))
  have "distinct (concat (map methods (providers r @ [p])))" using ok d apart by (auto simp: router_ok_def)
  moreover have "foldl (\<lambda>t m. t(m \<mapsto> p)) (table r) (methods p) m = Some q \<longleftrightarrow>
      q \<in> set (providers r @ [p]) \<and> m \<in> set (methods q)" for m q
    using t apart by (auto simp: table_updates)
  ultimately show ?thesis using new reg by (auto simp: router_ok_def)
qed (use ok reg in auto)

lemma register_all_ok:
  "router_ok r \<Longrightarrow> (\<And>p. p \<in> set ps \<Longrightarrow> distinct (methods p)) \<Longrightarrow> register_all ps r = Some r' \<Longrightarrow> router_ok r'"
proof (induction ps arbitrary: r)
  case (Cons p ps)
  then obtain r'' where "register_provider p r = (Inr (), r'')" "register_all ps r'' = Some r'"
    by (auto split: prod.splits sum.splits)
  with register_provider_ok [OF Cons.prems(1), of p] Cons.prems(2) have "router_ok r''" by simp
  from Cons.IH [OF this] Cons.prems(2) \<open>register_all ps r'' = Some r'\<close> show ?case by simp
qed simp

lemma register_all_table:
  assumes "register_all ps r = Some r'" "table r m = Some p"
  shows "table r' m = Some p"
  using assms
proof (induction ps arbitrary: r)
  case (Cons q ps)
  then obtain r'' where step: "register_provider q r = (Inr (), r'')" "register_all ps r'' = Some r'"
    by (auto split: prod.splits sum.splits)
  with register_provider_cases [of q r] Cons.prems(2) have "table r'' m = Some p" by (auto simp: table_updates)
  with Cons.IH [OF step(2)] show ?case by simp
qed simp

lemma map_sort_key: "map f (sort_key f xs) = sort (map f xs)"
  by (rule properties_for_sort [symmetric]) simp_all

text \<open>What a hello announces is, in order, exactly what the router can dispatch.\<close>

lemma announced_methods:
  assumes "router_ok r"
  shows "sorted (map cap_method (capabilities r s)) \<and> distinct (map cap_method (capabilities r s)) \<and>
    set (map cap_method (capabilities r s)) = dom (table r)"
proof -
  have m: "map cap_method (capabilities r s) = sort (concat (map methods (providers r)))"
    by (simp add: capabilities_def map_sort_key map_concat comp_def capability_of_def)
  show ?thesis unfolding m using assms by (fastforce simp: router_ok_def dom_def)
qed

lemma system_hello_dispatched:
  assumes "system_router_with env sys others = Some r" "m \<in> {SYSTEM_HELLO, SYSTEM_HEALTH, CAPABILITY_LIST}"
  shows "dispatch r m params s = system_handle env sys (context_of r s) m params s"
proof -
  obtain r0 where r0: "register_provider (system_as_provider env sys) router_new = (Inr (), r0)" "register_all others r0 = Some r"
    using assms(1) by (auto simp: system_router_with_def split: prod.splits sum.splits)
  with register_provider_cases [of "system_as_provider env sys" router_new] assms(2)
  have "table r0 m = Some (system_as_provider env sys)"
    by (auto simp: table_updates system_as_provider_def)
  from register_all_table [OF r0(2) this] show ?thesis by (simp add: dispatch_def system_as_provider_def)
qed

end
