(* ===== verification/Agent_Server.thy ===== *)
theory Agent_Server
  imports Agent_Router
begin

text \<open>
  The agent's server (\<open>android-agent/src/server.rs\<close>) as a transition system: any number of
  connections, each waiting for its hello, serving requests in concurrent tasks, or ended; and the
  count of the clients that are present (\<open>ClientPresence\<close> of \<open>presence.rs\<close>). A handler's work is one
  step; which task finishes next, what arrives, and whether a write succeeds is up to the
  environment. A deadline that fires before the handler has answered leaves the state that
  \<open>srv_late\<close> gives, and closing a connection aborts its running tasks where they are, which leaves
  the state that \<open>srv_abort\<close> gives.
\<close>

type_synonym request = "json_number request_envelope"
type_synonym response = "json_number response_envelope"

record 'd server =
  srv_env :: "'d device_env"
  srv_system :: system_provider
  srv_others :: "'d provider list"
  srv_router :: "'d router"
  srv_late :: "request \<Rightarrow> 'd agent_state \<Rightarrow> 'd agent_state option"
  srv_abort :: "request list \<Rightarrow> 'd agent_state \<Rightarrow> 'd agent_state"

section \<open>One request\<close>

definition execute_request :: "'d server \<Rightarrow> request \<Rightarrow> 'd agent_state \<Rightarrow> (response \<times> 'd agent_state) option" where
  "execute_request srv q s =
     (if protocol_version q \<noteq> PROTOCOL_VERSION then
        Some (response_failure (request_id q) (agent_error_new Incompatible_Version
          (lit ''request protocol version '' @ show_dec (protocol_version q) @
           lit '' is incompatible with agent version '' @ show_dec PROTOCOL_VERSION)), s)
      else if timeout_ms q = 0 then
        Some (response_failure (request_id q) (agent_error_new Invalid_Request (lit ''timeout_ms must be greater than zero'')), s)
      else
        (case srv_late srv q s of
           Some s' \<Rightarrow> Some (response_failure (request_id q) (agent_error_new Deadline_Exceeded (lit ''request deadline exceeded'')), s')
         | None \<Rightarrow>
             (case dispatch (srv_router srv) (req_method q) (req_params q) s of
                None \<Rightarrow> None
              | Some (Inr v, s') \<Rightarrow> Some (response_success (request_id q) v, s')
              | Some (Inl e, s') \<Rightarrow> Some (response_failure (request_id q) e, s'))))"

text \<open>The answer to the first message: the response, and whether the client is let in.\<close>

definition greet :: "'d server \<Rightarrow> request \<Rightarrow> 'd agent_state \<Rightarrow> (response \<times> bool \<times> 'd agent_state) option" where
  "greet srv q s =
     (if req_method q \<noteq> SYSTEM_HELLO then
        Some (response_failure (request_id q) (agent_error_new Permission_Denied (lit ''system.hello must be the first request'')), False, s)
      else
        (case execute_request srv q s of
           None \<Rightarrow> None
         | Some (r, s') \<Rightarrow> Some (r, (case payload r of Success _ \<Rightarrow> True | Failure _ \<Rightarrow> False), s')))"

text \<open>The task of a later request.\<close>

definition answer :: "'d server \<Rightarrow> request \<Rightarrow> 'd agent_state \<Rightarrow> (response \<times> 'd agent_state) option" where
  "answer srv q s =
     (if req_method q = SYSTEM_HELLO then
        Some (response_failure (request_id q) (agent_error_new Invalid_Request (lit ''system.hello is only allowed as the first request'')), s)
      else execute_request srv q s)"

section \<open>Connections\<close>

datatype phase = Awaiting | Serving | Ended

record conn =
  phase :: phase
  received :: "request list"
  active :: "request list"
  sent :: "response list"

definition new_conn :: conn where
  "new_conn = \<lparr>phase = Awaiting, received = [], active = [], sent = []\<rparr>"

text \<open>A response reaches the client unless the write fails.\<close>

definition send :: "bool \<Rightarrow> response \<Rightarrow> conn \<Rightarrow> conn" where
  "send delivered r c = (if delivered then c\<lparr>sent := sent c @ [r]\<rparr> else c)"

text \<open>The count of present clients: \<open>attend\<close> when one is let in, the guard's \<open>drop\<close> when it leaves.\<close>

definition attend :: "nat \<Rightarrow> nat" where "attend live = live + 1"
definition leave :: "nat \<Rightarrow> nat" where "leave live = live - 1"

record 'd agent =
  state :: "'d agent_state"
  present :: nat
  conns :: "nat \<rightharpoonup> conn"

definition put_conn :: "nat \<Rightarrow> conn \<Rightarrow> 'd agent \<Rightarrow> 'd agent" where
  "put_conn i c a = a\<lparr>conns := (conns a)(i \<mapsto> c)\<rparr>"

inductive agent_step :: "'d server \<Rightarrow> 'd agent \<Rightarrow> 'd agent \<Rightarrow> bool" for srv where
  Accept: "conns a i = None \<Longrightarrow> agent_step srv a (put_conn i new_conn a)"
| Hello_Unreadable: "conns a i = Some c \<Longrightarrow> phase c = Awaiting \<Longrightarrow> agent_step srv a (put_conn i (c\<lparr>phase := Ended\<rparr>) a)"
| Refuse: "conns a i = Some c \<Longrightarrow> phase c = Awaiting \<Longrightarrow> greet srv q (state a) = Some (r, welcome, s') \<Longrightarrow>
    \<not> (delivered \<and> welcome) \<Longrightarrow>
    agent_step srv a (put_conn i (send delivered r (c\<lparr>phase := Ended, received := [q]\<rparr>)) (a\<lparr>state := s'\<rparr>))"
| Welcome: "conns a i = Some c \<Longrightarrow> phase c = Awaiting \<Longrightarrow> greet srv q (state a) = Some (r, True, s') \<Longrightarrow>
    agent_step srv a (put_conn i (send True r (c\<lparr>phase := Serving, received := [q]\<rparr>)) (a\<lparr>state := s', present := attend (present a)\<rparr>))"
| Receive: "conns a i = Some c \<Longrightarrow> phase c = Serving \<Longrightarrow>
    agent_step srv a (put_conn i (c\<lparr>received := received c @ [q], active := active c @ [q]\<rparr>) a)"
| Finish: "conns a i = Some c \<Longrightarrow> phase c = Serving \<Longrightarrow> q \<in> set (active c) \<Longrightarrow> answer srv q (state a) = Some (r, s') \<Longrightarrow>
    agent_step srv a (put_conn i (send delivered r (c\<lparr>active := remove1 q (active c)\<rparr>)) (a\<lparr>state := s'\<rparr>))"
| Close: "conns a i = Some c \<Longrightarrow> phase c = Serving \<Longrightarrow>
    agent_step srv a (put_conn i (c\<lparr>phase := Ended, active := []\<rparr>) (a\<lparr>state := srv_abort srv (active c) (state a), present := leave (present a)\<rparr>))"

definition agent_start :: "'d agent_state \<Rightarrow> 'd agent" where
  "agent_start s = \<lparr>state = s, present = 0, conns = Map.empty\<rparr>"

inductive reachable :: "'d server \<Rightarrow> 'd agent_state \<Rightarrow> 'd agent \<Rightarrow> bool" for srv s0 where
  Start: "reachable srv s0 (agent_start s0)"
| Step: "reachable srv s0 a \<Longrightarrow> agent_step srv a a' \<Longrightarrow> reachable srv s0 a'"

inductive_cases agent_stepE: "agent_step srv a a'"

section \<open>Invariants\<close>

text \<open>
  What the server rests on: its router is the one the agent builds, and the hello handler, which
  has nothing to wait for, answers before any deadline. Lengths fit a machine word.
\<close>

definition server_ok :: "'d server \<Rightarrow> bool" where
  "server_ok srv \<longleftrightarrow> system_router_with (srv_env srv) (srv_system srv) (srv_others srv) = Some (srv_router srv) \<and>
     (\<forall>q s. req_method q = SYSTEM_HELLO \<longrightarrow> srv_late srv q s = None) \<and>
     length (utf8 (sys_token (srv_system srv))) < 2 ^ 64"

definition machine_sized :: "request \<Rightarrow> bool" where
  "machine_sized q \<longleftrightarrow> (\<forall>p. hello_params_from (req_params q) = Inr p \<longrightarrow> length (utf8 (auth_token p)) < 2 ^ 64)"

definition good_hello :: "'d server \<Rightarrow> request \<Rightarrow> bool" where
  "good_hello srv q \<longleftrightarrow> req_method q = SYSTEM_HELLO \<and> protocol_version q = PROTOCOL_VERSION \<and>
     (machine_sized q \<longrightarrow> (\<exists>p. hello_params_from (req_params q) = Inr p \<and>
        utf8 (auth_token p) = utf8 (sys_token (srv_system srv)) \<and> PROTOCOL_VERSION \<in> set (supported_protocol_versions p)))"

lemma response_ids [simp]: "response_id (response_failure i e) = i" "response_id (response_success i v) = i"
  "payload (response_failure i e) = Failure e" "payload (response_success i v) = Success v"
  by (simp_all add: response_failure_def response_success_def)

lemma execute_request_id: "execute_request srv q s = Some (r, s') \<Longrightarrow> response_id r = request_id q"
  by (auto simp: execute_request_def simp del: lit_Cons split: if_splits option.splits prod.splits sum.splits)

lemma greet_id: "greet srv q s = Some (r, w, s') \<Longrightarrow> response_id r = request_id q"
  by (auto simp: greet_def simp del: lit_Cons split: if_splits option.splits prod.splits dest: execute_request_id)

lemma answer_id: "answer srv q s = Some (r, s') \<Longrightarrow> response_id r = request_id q"
  by (auto simp: answer_def simp del: lit_Cons split: if_splits dest: execute_request_id)

lemma hello_keeps_state:
  assumes "server_ok srv" "req_method q = SYSTEM_HELLO" "execute_request srv q s = Some (r, s')"
  shows "s' = s"
  using assms system_hello_dispatched [of "srv_env srv" "srv_system srv" "srv_others srv" "srv_router srv" SYSTEM_HELLO]
  by (auto simp: execute_request_def server_ok_def system_handle_def alift_def simp del: lit_Cons
      split: if_splits option.splits prod.splits sum.splits)

lemma greet_keeps_state: "server_ok srv \<Longrightarrow> greet srv q s = Some (r, w, s') \<Longrightarrow> s' = s"
  by (auto simp: greet_def simp del: lit_Cons split: if_splits option.splits prod.splits dest: hello_keeps_state)

lemma welcomed_hello:
  assumes "server_ok srv" "greet srv q s = Some (r, True, s')"
  shows "good_hello srv q \<and> (\<exists>v. payload r = Success v)"
proof -
  have hello: "req_method q = SYSTEM_HELLO" and ex: "execute_request srv q s = Some (r, s')" and r: "\<exists>v. payload r = Success v"
    using assms(2) by (auto simp: greet_def simp del: lit_Cons split: if_splits option.splits prod.splits response_payload.splits)
  have late: "srv_late srv q s = None" using assms(1) hello by (simp add: server_ok_def)
  have d: "dispatch (srv_router srv) SYSTEM_HELLO (req_params q) s =
      Some (system_hello (srv_env srv) (srv_system srv) (context_of (srv_router srv) s) (req_params q), s)"
    using system_hello_dispatched [of "srv_env srv" "srv_system srv" "srv_others srv" "srv_router srv" SYSTEM_HELLO] assms(1)
    by (simp add: server_ok_def system_handle_def alift_def)
  from ex r obtain v where v: "system_hello (srv_env srv) (srv_system srv) (context_of (srv_router srv) s) (req_params q) = Inr v"
    and ver: "protocol_version q = PROTOCOL_VERSION"
    using late d hello by (auto simp: execute_request_def simp del: lit_Cons split: if_splits sum.splits)
  have "\<exists>p. hello_params_from (req_params q) = Inr p \<and> utf8 (auth_token p) = utf8 (sys_token (srv_system srv)) \<and>
      PROTOCOL_VERSION \<in> set (supported_protocol_versions p)" if "machine_sized q"
    using system_hello_token [OF v] assms(1) that by (auto simp: server_ok_def machine_sized_def)
  with hello ver r show ?thesis by (simp add: good_hello_def)
qed

text \<open>A connection: what it may have received, sent and still have running.\<close>

definition requests :: "conn \<Rightarrow> ustring multiset" where
  "requests c = image_mset request_id (mset (received c))"

definition answers :: "conn \<Rightarrow> ustring multiset" where
  "answers c = image_mset response_id (mset (sent c))"

definition running :: "conn \<Rightarrow> ustring multiset" where
  "running c = image_mset request_id (mset (active c))"

definition conn_ok :: "'d server \<Rightarrow> conn \<Rightarrow> bool" where
  "conn_ok srv c \<longleftrightarrow> answers c + running c \<subseteq># requests c \<and>
     (phase c = Awaiting \<longrightarrow> received c = [] \<and> sent c = []) \<and>
     (phase c \<noteq> Serving \<longrightarrow> active c = []) \<and>
     (phase c = Serving \<or> 1 < length (sent c) \<longrightarrow> received c \<noteq> [] \<and> good_hello srv (hd (received c)))"

definition serving :: "'d agent \<Rightarrow> nat set" where
  "serving a = {i. \<exists>c. conns a i = Some c \<and> phase c = Serving}"

definition agent_ok :: "'d server \<Rightarrow> 'd agent \<Rightarrow> bool" where
  "agent_ok srv a \<longleftrightarrow> (\<forall>i c. conns a i = Some c \<longrightarrow> conn_ok srv c) \<and> finite (dom (conns a)) \<and> present a = card (serving a)"

lemma serving_put: "serving (put_conn i c a) = (if phase c = Serving then insert i (serving a) else serving a - {i})"
  by (auto simp: serving_def put_conn_def)

lemma conns_put [simp]: "conns (put_conn i c a) = (conns a)(i \<mapsto> c)" "present (put_conn i c a) = present a" "state (put_conn i c a) = state a"
  by (simp_all add: put_conn_def)

lemma serving_finite: "finite (dom (conns a)) \<Longrightarrow> finite (serving a)"
  by (rule finite_subset [of _ "dom (conns a)"]) (auto simp: serving_def)

lemma send_fields [simp]: "phase (send w r c) = phase c" "received (send w r c) = received c" "active (send w r c) = active c"
  by (simp_all add: send_def)

lemma answers_send: "answers (send w r c) = answers c + (if w then {#response_id r#} else {#})"
  by (simp add: answers_def send_def)

lemma serving_fields [simp]: "serving (a\<lparr>state := s\<rparr>) = serving a" "serving (a\<lparr>present := n\<rparr>) = serving a"
  by (simp_all add: serving_def)

lemma put_conn_ok:
  assumes "\<And>j d. conns a j = Some d \<Longrightarrow> conn_ok srv d" "finite (dom (conns a))" "conn_ok srv c"
    and "present a = card (serving (put_conn i c a))"
  shows "agent_ok srv (put_conn i c a)"
  using assms by (auto simp: agent_ok_def)

lemma in_serving: "conns a i = Some c \<Longrightarrow> i \<in> serving a \<longleftrightarrow> phase c = Serving"
  by (simp add: serving_def)

lemma new_conn_ok: "conn_ok srv new_conn"
  by (simp add: conn_ok_def new_conn_def answers_def running_def requests_def)

lemma new_conn_phase: "phase new_conn = Awaiting"
  by (simp add: new_conn_def)

lemma awaiting_empty: "conn_ok srv c \<Longrightarrow> phase c = Awaiting \<Longrightarrow> received c = [] \<and> sent c = [] \<and> active c = []"
  by (simp add: conn_ok_def)

lemma sub_left: "A + B \<subseteq># C \<Longrightarrow> A \<subseteq># (C :: 'a multiset)"
  by (metis mset_subset_eq_add_left subset_mset.order_trans)

lemma sub_add: "add_mset x A \<subseteq># C \<Longrightarrow> A \<subseteq># C"
  by (metis mset_subset_eq_insertD subset_mset.less_imp_le)

lemma first_answer_ok:
  assumes "conn_ok srv c" "phase c = Awaiting" "response_id r = request_id q" "p \<noteq> Awaiting" "p = Serving \<longrightarrow> good_hello srv q"
  shows "conn_ok srv (send w r (c\<lparr>phase := p, received := [q]\<rparr>))"
  using awaiting_empty [OF assms(1,2)] assms(3-5)
  by (auto simp: conn_ok_def answers_send) (auto simp: answers_def running_def requests_def send_def)

lemma receive_ok:
  assumes "conn_ok srv c" "phase c = Serving"
  shows "conn_ok srv (c\<lparr>received := received c @ [q], active := active c @ [q]\<rparr>)"
  using assms by (auto simp: conn_ok_def answers_def running_def requests_def hd_append)

lemma finish_ok:
  assumes "conn_ok srv c" "phase c = Serving" "q \<in> set (active c)" "response_id r = request_id q"
  shows "conn_ok srv (send w r (c\<lparr>active := remove1 q (active c)\<rparr>))"
proof -
  have m: "running c = add_mset (request_id q) (running (c\<lparr>active := remove1 q (active c)\<rparr>))"
    using assms(3) by (simp add: running_def image_mset_add_mset [symmetric] insert_DiffM del: image_mset_add_mset)
  have "answers c + running c \<subseteq># requests c" using assms(1) by (simp add: conn_ok_def)
  then have "answers (send w r (c\<lparr>active := remove1 q (active c)\<rparr>)) + running (send w r (c\<lparr>active := remove1 q (active c)\<rparr>)) \<subseteq># requests c"
    using m assms(4) unfolding answers_send
    by (cases w) (auto simp: answers_def send_def running_def dest: sub_add)
  with assms(1,2) show ?thesis by (auto simp: conn_ok_def requests_def)
qed

lemma close_ok:
  assumes "conn_ok srv c" "phase c = Serving"
  shows "conn_ok srv (c\<lparr>phase := Ended, active := []\<rparr>)"
  using assms by (auto simp: conn_ok_def answers_def running_def requests_def dest: sub_left)

lemma agent_step_ok:
  assumes "server_ok srv" "agent_ok srv a" "agent_step srv a a'"
  shows "agent_ok srv a'"
proof -
  have ok: "\<And>i c. conns a i = Some c \<Longrightarrow> conn_ok srv c" and fin: "finite (dom (conns a))" and live: "present a = card (serving a)"
    using assms(2) by (auto simp: agent_ok_def)
  have fs: "finite (serving a)" by (rule serving_finite [OF fin])
  from assms(3) show ?thesis
  proof (cases rule: agent_step.cases)
    case (Accept i)
    then have "i \<notin> serving a" by (simp add: serving_def)
    with Accept ok fin live show ?thesis by (auto intro!: put_conn_ok new_conn_ok simp: serving_put new_conn_phase)
  next
    case (Hello_Unreadable i c)
    then have "conn_ok srv (c\<lparr>phase := Ended\<rparr>)" using ok by (auto simp: conn_ok_def answers_def running_def requests_def)
    with Hello_Unreadable ok fin live show ?thesis by (auto intro!: put_conn_ok simp: serving_put in_serving)
  next
    case (Refuse i c q r wel s' delivered)
    with greet_id have "conn_ok srv (send delivered r (c\<lparr>phase := Ended, received := [q]\<rparr>))"
      by (intro first_answer_ok ok) auto
    with Refuse ok fin live show ?thesis by (auto intro!: put_conn_ok simp: serving_put in_serving)
  next
    case (Welcome i c q r s')
    with greet_id welcomed_hello [OF assms(1)] have c: "conn_ok srv (send True r (c\<lparr>phase := Serving, received := [q]\<rparr>))"
      by (intro first_answer_ok ok) auto
    have "i \<notin> serving a" using Welcome by (simp add: in_serving)
    with Welcome c ok fin live fs show ?thesis by (auto intro!: put_conn_ok simp: serving_put attend_def)
  next
    case (Receive i c q)
    with receive_ok [OF ok] have c: "conn_ok srv (c\<lparr>received := received c @ [q], active := active c @ [q]\<rparr>)" by blast
    have "insert i (serving a) = serving a" using Receive by (auto simp: in_serving)
    with Receive c ok fin live show ?thesis by (auto intro!: put_conn_ok simp: serving_put)
  next
    case (Finish i c q r s' delivered)
    with answer_id finish_ok [OF ok] have c: "conn_ok srv (send delivered r (c\<lparr>active := remove1 q (active c)\<rparr>))" by blast
    have "insert i (serving a) = serving a" using Finish by (auto simp: in_serving)
    with Finish c ok fin live show ?thesis by (auto intro!: put_conn_ok simp: serving_put)
  next
    case (Close i c)
    with close_ok [OF ok] have c: "conn_ok srv (c\<lparr>phase := Ended, active := []\<rparr>)" by blast
    have "i \<in> serving a" using Close by (simp add: in_serving)
    with Close c ok fin live fs show ?thesis by (auto intro!: put_conn_ok simp: serving_put leave_def)
  qed
qed

lemma agent_start_ok: "agent_ok srv (agent_start s)"
  by (simp add: agent_ok_def agent_start_def serving_def)

lemma reachable_ok: "reachable srv s0 a \<Longrightarrow> server_ok srv \<Longrightarrow> agent_ok srv a"
  by (induction rule: reachable.induct) (auto intro: agent_start_ok agent_step_ok)

text \<open>Only the task of an authenticated client ever changes the device or the ledger.\<close>

lemma state_changes:
  assumes "server_ok srv" "agent_ok srv a" "agent_step srv a a'" "state a' \<noteq> state a"
  shows "\<exists>i c. conns a i = Some c \<and> phase c = Serving \<and> received c \<noteq> [] \<and> good_hello srv (hd (received c))"
  using assms(3)
proof (cases rule: agent_step.cases)
  case (Finish i c q r s' delivered)
  with assms(2) show ?thesis by (auto simp: agent_ok_def conn_ok_def)
next
  case (Close i c)
  with assms(2) show ?thesis by (auto simp: agent_ok_def conn_ok_def)
qed (use assms(1,4) greet_keeps_state in fastforce)+

text \<open>Every task of a client can be finished when its handler returns or its deadline fires.\<close>

lemma answer_total:
  assumes "\<And>m params. ends (dispatch (srv_router srv) m params)"
  shows "\<exists>r s'. answer srv q s = Some (r, s')"
  using assms by (auto simp: answer_def execute_request_def ends_def simp del: lit_Cons split: option.splits prod.splits sum.splits)
    (metis not_None_eq surj_pair)+

end
