(* ===== verification/Agent_Presence.thy ===== *)
theory Agent_Presence
  imports Agent_Server
begin

text \<open>
  When the agent ends itself (\<open>android-agent/src/presence.rs\<close>): the state machine \<open>IdleExit\<close>, the loop
  that feeds it, and both together with the connections of the server.
\<close>

type_synonym idle_exit = "instant option"

definition observe :: "idle_exit \<Rightarrow> nat \<Rightarrow> nat \<Rightarrow> instant \<Rightarrow> bool \<times> idle_exit" where
  "observe zero_since live grace now =
     (if 0 < live then (False, None)
      else (let since = (case zero_since of None \<Rightarrow> now | Some t \<Rightarrow> t) in (grace \<le> now - since, Some since)))"

definition idle_for :: "idle_exit \<Rightarrow> instant \<Rightarrow> nat option" where
  "idle_for zero_since now = map_option (\<lambda>since. now - since) zero_since"

definition IDLE_POLL :: nat where
  "IDLE_POLL = 250 * 10 ^ 6"

text \<open>The polling loop over what it sees, poll after poll; the poll at which it returns.\<close>

fun wait_until_should_exit :: "nat \<Rightarrow> idle_exit \<Rightarrow> (nat \<times> instant) list \<Rightarrow> nat option" where
  "wait_until_should_exit grace machine [] = None"
| "wait_until_should_exit grace machine ((live, now) # polls) =
     (case observe machine live grace now of
        (True, _) \<Rightarrow> Some 0
      | (False, machine') \<Rightarrow> map_option Suc (wait_until_should_exit grace machine' polls))"

text \<open>
  What it should do: return at the first poll that ends a stretch of polls, all seeing nobody, that
  began at least \<open>grace\<close> earlier.
\<close>

definition idle_stretch :: "nat \<Rightarrow> (nat \<times> instant) list \<Rightarrow> nat \<Rightarrow> nat \<Rightarrow> bool" where
  "idle_stretch grace polls j k \<longleftrightarrow> j \<le> k \<and> (\<forall>i \<in> {j..k}. fst (polls ! i) = 0) \<and> grace \<le> snd (polls ! k) - snd (polls ! j)"

definition should_exit :: "nat \<Rightarrow> (nat \<times> instant) list \<Rightarrow> nat \<Rightarrow> bool" where
  "should_exit grace polls k \<longleftrightarrow> k < length polls \<and> (\<exists>j. idle_stretch grace polls j k)"

text \<open>The machine remembers since when nobody was seen: the first poll of the current stretch.\<close>

definition tracks :: "(nat \<times> instant) list \<Rightarrow> idle_exit \<Rightarrow> bool" where
  "tracks seen machine \<longleftrightarrow>
     (case machine of
        None \<Rightarrow> seen = [] \<or> 0 < fst (last seen)
      | Some since \<Rightarrow> \<exists>j < length seen. since = snd (seen ! j) \<and> (\<forall>i. j \<le> i \<and> i < length seen \<longrightarrow> fst (seen ! i) = 0) \<and>
          (j = 0 \<or> 0 < fst (seen ! (j - 1))))"

lemma observe_tracks:
  assumes "tracks seen machine" "observe machine live grace now = (b, machine')"
  shows "tracks (seen @ [(live, now)]) machine'"
proof (cases "0 < live")
  case True
  with assms(2) show ?thesis by (auto simp: observe_def tracks_def)
next
  case idle: False
  show ?thesis
  proof (cases machine)
    case None
    with assms idle show ?thesis
      by (cases "seen = []") (auto simp: observe_def tracks_def nth_append last_conv_nth intro!: exI [of _ "length seen"])
  next
    case (Some since)
    with assms(1) obtain j where "j < length seen" "since = snd (seen ! j)"
      "\<forall>i. j \<le> i \<and> i < length seen \<longrightarrow> fst (seen ! i) = 0" "j = 0 \<or> 0 < fst (seen ! (j - 1))"
      by (auto simp: tracks_def)
    with assms(2) idle Some show ?thesis
      by (auto simp: observe_def tracks_def nth_append Let_def less_Suc_eq intro!: exI [of _ j])
  qed
qed

lemma observe_exits:
  assumes "tracks seen machine" "sorted (map snd (seen @ [(live, now)]))"
  shows "fst (observe machine live grace now) \<longleftrightarrow> (\<exists>j. idle_stretch grace (seen @ [(live, now)]) j (length seen))"
proof (cases "0 < live")
  case True
  then show ?thesis by (auto simp: observe_def idle_stretch_def nth_append)
next
  case idle: False
  show ?thesis
  proof (cases machine)
    case None
    have "j = length seen" if "idle_stretch grace (seen @ [(live, now)]) j (length seen)" for j
    proof (rule ccontr)
      assume "j \<noteq> length seen"
      with that have "j \<le> length seen - 1" "length seen - 1 < length seen" by (auto simp: idle_stretch_def)
      with that have "fst (seen ! (length seen - 1)) = 0" by (auto simp: idle_stretch_def nth_append dest!: bspec [of _ _ "length seen - 1"])
      moreover have "seen \<noteq> []" using \<open>length seen - 1 < length seen\<close> by auto
      ultimately show False using assms(1) None by (simp add: tracks_def last_conv_nth)
    qed
    moreover have "idle_stretch grace (seen @ [(live, now)]) (length seen) (length seen) \<longleftrightarrow> grace = 0"
      using idle by (simp add: idle_stretch_def)
    ultimately show ?thesis using idle None by (auto simp: observe_def)
  next
    case (Some since)
    with assms(1) obtain j where j: "j < length seen" "since = snd (seen ! j)"
      "\<forall>i. j \<le> i \<and> i < length seen \<longrightarrow> fst (seen ! i) = 0" "j = 0 \<or> 0 < fst (seen ! (j - 1))"
      by (auto simp: tracks_def)
    have "grace \<le> now - since" if st: "idle_stretch grace (seen @ [(live, now)]) i (length seen)" for i
    proof -
      have "j \<le> i"
      proof (rule ccontr)
        assume "\<not> j \<le> i"
        then have "i \<le> j - 1" "j \<noteq> 0" by auto
        with j(1) have m: "j - 1 \<in> {i..length seen}" "j - 1 < length seen" by auto
        with st have "fst ((seen @ [(live, now)]) ! (j - 1)) = 0" unfolding idle_stretch_def by blast
        with m(2) have "fst (seen ! (j - 1)) = 0" by (simp add: nth_append)
        with j(4) \<open>\<not> j \<le> i\<close> show False by simp
      qed
      with sorted_nth_mono [OF assms(2), of j i] st
      have "snd ((seen @ [(live, now)]) ! j) \<le> snd ((seen @ [(live, now)]) ! i)"
        by (auto simp: idle_stretch_def simp del: map_append)
      with st j(1,2) show ?thesis by (auto simp: idle_stretch_def nth_append)
    qed
    moreover have "idle_stretch grace (seen @ [(live, now)]) j (length seen)" if "grace \<le> now - since"
      using that j idle by (auto simp: idle_stretch_def nth_append)
    ultimately show ?thesis using idle Some by (auto simp: observe_def Let_def)
  qed
qed

lemma stretch_prefix:
  "k < length xs \<Longrightarrow> idle_stretch grace (xs @ ys) j k \<longleftrightarrow> idle_stretch grace xs j k"
  by (auto simp: idle_stretch_def nth_append)

lemma wait_until_exact:
  assumes "tracks seen machine" "sorted (map snd (seen @ polls))"
  shows "wait_until_should_exit grace machine polls = Some k \<longleftrightarrow>
    k < length polls \<and> (\<exists>j. idle_stretch grace (seen @ polls) j (length seen + k)) \<and>
    (\<forall>i < k. \<nexists>j. idle_stretch grace (seen @ polls) j (length seen + i))"
  using assms
proof (induction polls arbitrary: seen machine k)
  case (Cons p polls)
  obtain live now where p: "p = (live, now)" by (cases p)
  obtain b machine' where ob: "observe machine live grace now = (b, machine')" by (cases "observe machine live grace now")
  have tr: "tracks (seen @ [p]) machine'" using observe_tracks [OF Cons.prems(1) ob] p by simp
  have b: "b \<longleftrightarrow> (\<exists>j. idle_stretch grace (seen @ p # polls) j (length seen))"
    using observe_exits [OF Cons.prems(1), of live now grace] Cons.prems(2) ob p
      stretch_prefix [of "length seen" "seen @ [p]" grace polls] by (simp add: sorted_append)
  show ?case
  proof (cases b)
    case True
    then have at0: "\<exists>j. idle_stretch grace (seen @ p # polls) j (length seen + 0)" using b by simp
    have now: "wait_until_should_exit grace machine (p # polls) = Some 0" using ob p True by simp
    show ?thesis
    proof (cases k)
      case 0
      then show ?thesis unfolding now using at0 by simp
    next
      case (Suc m)
      then show ?thesis unfolding now using at0 by blast
    qed
  next
    case False
    have ih: "wait_until_should_exit grace machine' polls = Some m \<longleftrightarrow> m < length polls \<and>
        (\<exists>j. idle_stretch grace (seen @ p # polls) j (length seen + Suc m)) \<and>
        (\<forall>i < m. \<nexists>j. idle_stretch grace (seen @ p # polls) j (length seen + Suc i))" for m
      using Cons.IH [OF tr, of m] Cons.prems(2) by simp
    have none: "\<nexists>j. idle_stretch grace (seen @ p # polls) j (length seen)" using False b by simp
    show ?thesis
    proof (cases k)
      case 0
      with ob p False none show ?thesis by auto
    next
      case (Suc m)
      have "(\<forall>i < Suc m. \<nexists>j. idle_stretch grace (seen @ p # polls) j (length seen + i)) \<longleftrightarrow>
          (\<forall>i < m. \<nexists>j. idle_stretch grace (seen @ p # polls) j (length seen + Suc i))"
        using none by (auto simp: less_Suc_eq_0_disj)
      with ob p False ih [of m] Suc show ?thesis by auto
    qed
  qed
qed simp

lemma wait_until_first:
  assumes "sorted (map snd polls)"
  shows "wait_until_should_exit grace None polls = Some k \<longleftrightarrow>
    should_exit grace polls k \<and> (\<forall>i < k. \<not> should_exit grace polls i)"
  using wait_until_exact [of "[]" None polls grace k] assms by (auto simp: tracks_def should_exit_def)

text \<open>
  Once nobody comes any more, polls at least \<open>IDLE_POLL\<close> apart end the agent within
  \<open>grace / IDLE_POLL\<close> polls, rounded up.
\<close>

lemma wait_until_returns:
  assumes "sorted (map snd polls)" "\<forall>i \<in> {j..<length polls}. fst (polls ! i) = 0"
    and "\<forall>i. j \<le> i \<and> Suc i < length polls \<longrightarrow> snd (polls ! i) + IDLE_POLL \<le> snd (polls ! Suc i)"
    and "grace \<le> n * IDLE_POLL" "j + n < length polls"
  shows "\<exists>k \<le> j + n. wait_until_should_exit grace None polls = Some k"
proof -
  have "snd (polls ! j) + m * IDLE_POLL \<le> snd (polls ! (j + m))" if "j + m < length polls" for m
    using that
  proof (induction m)
    case (Suc m)
    then have "snd (polls ! (j + m)) + IDLE_POLL \<le> snd (polls ! Suc (j + m))" using assms(3) by simp
    with Suc show ?case by simp
  qed simp
  from this [OF assms(5)] assms(2,4,5) have "idle_stretch grace polls j (j + n)" by (auto simp: idle_stretch_def)
  then have ex: "should_exit grace polls (j + n)" using assms(5) by (auto simp: should_exit_def)
  define k where "k = (LEAST k. should_exit grace polls k)"
  have "should_exit grace polls k" "k \<le> j + n" unfolding k_def using ex by (auto intro: LeastI Least_le)
  moreover have "\<not> should_exit grace polls i" if "i < k" for i using not_less_Least that unfolding k_def by blast
  ultimately show ?thesis using wait_until_first [OF assms(1)] by blast
qed

section \<open>The agent process\<close>

text \<open>The server's steps interleaved with the polls of the idle watch, until the process exits.\<close>

record 'd agent_process =
  agent :: "'d agent"
  idle :: idle_exit
  exited :: bool

inductive process_step :: "'d server \<Rightarrow> nat \<Rightarrow> 'd agent_process \<Rightarrow> 'd agent_process \<Rightarrow> bool" for srv grace where
  Work: "\<not> exited p \<Longrightarrow> agent_step srv (agent p) a \<Longrightarrow> process_step srv grace p (p\<lparr>agent := a\<rparr>)"
| Poll: "\<not> exited p \<Longrightarrow> observe (idle p) (present (agent p)) grace now = (b, idle') \<Longrightarrow>
    process_step srv grace p (p\<lparr>idle := idle', exited := b\<rparr>)"

inductive_simps process_work: "process_step srv grace p (p\<lparr>agent := a\<rparr>)"
inductive_cases process_stepE: "process_step srv grace p p'"

inductive process_reachable :: "'d server \<Rightarrow> nat \<Rightarrow> 'd agent_state \<Rightarrow> 'd agent_process \<Rightarrow> bool" for srv grace s0 where
  Boot: "process_reachable srv grace s0 \<lparr>agent = agent_start s0, idle = None, exited = False\<rparr>"
| Run: "process_reachable srv grace s0 p \<Longrightarrow> process_step srv grace p p' \<Longrightarrow> process_reachable srv grace s0 p'"

lemma observe_exit_empty: "observe machine live grace now = (True, m) \<Longrightarrow> live = 0"
  by (auto simp: observe_def split: if_splits)

lemma process_ok:
  "process_reachable srv grace s0 p \<Longrightarrow> server_ok srv \<Longrightarrow>
   agent_ok srv (agent p) \<and> (exited p \<longrightarrow> present (agent p) = 0)"
proof (induction rule: process_reachable.induct)
  case (Run p p')
  from Run.hyps(2) show ?case
  proof (cases rule: process_step.cases)
    case (Work a)
    with Run.IH [OF Run.prems] agent_step_ok [OF Run.prems] show ?thesis by auto
  next
    case (Poll now b idle')
    with Run.IH [OF Run.prems] show ?thesis by (cases b) (auto dest: observe_exit_empty)
  qed
qed (simp add: agent_start_ok)

text \<open>The agent never exits under a client it is serving.\<close>

lemma no_exit_while_serving:
  assumes "server_ok srv" "process_reachable srv grace s0 p" "exited p"
  shows "serving (agent p) = {}"
proof -
  have "finite (serving (agent p))" "card (serving (agent p)) = 0"
    using process_ok [OF assms(2,1)] assms(3) serving_finite by (auto simp: agent_ok_def)
  then show ?thesis by simp
qed

end
