(* ===== verification/Agent_Client.thy ===== *)
theory Agent_Client
  imports Agent_Activity
begin

text \<open>
  The desktop's client of the agent (\<open>src-tauri/src/services/agent_client.rs\<close>): many calls share one
  connection, each waits for the response with its id, and losing the transport wakes them all. The
  calls, the reader task and the clock interleave; every step below holds the lock of the shared
  state once. Request ids come from a 64-bit counter, and runs of fewer than \<open>2 ^ 64\<close> calls are
  considered.
\<close>

type_synonym response = "json_number response_envelope"

datatype client_error =
    Transport_Gone ustring
  | Client_Deadline
  | Client_Cancelled
  | Client_Protocol ustring
  | Remote aerror

datatype stage = Registered | Waiting | Done "client_error + avalue"

record call =
  call_id :: ustring
  stage :: stage
  slot :: "(client_error + response) option" \<comment> \<open>what its \<open>oneshot\<close> channel holds\<close>

record client =
  pending :: "ustring \<rightharpoonup> nat"
  terminal_error :: "client_error option"
  next_id :: nat
  calls :: "nat \<rightharpoonup> call"
  reading :: bool
  arrived :: "response list" \<comment> \<open>what the reader has received so far\<close>

section \<open>Operations\<close>

definition id_of :: "nat \<Rightarrow> ustring" where
  "id_of n = lit ''desktop-'' @ show_dec n"

definition client_new :: client where
  "client_new = \<lparr>pending = Map.empty, terminal_error = None, next_id = 1, calls = Map.empty, reading = True, arrived = []\<rparr>"

text \<open>A call starts: its id, and its entry in the table unless the connection is already lost.\<close>

definition begin_call :: "nat \<Rightarrow> bool \<Rightarrow> client \<Rightarrow> client" where
  "begin_call i timeout_is_zero cl =
     (if timeout_is_zero then
        cl\<lparr>calls := (calls cl)(i \<mapsto> \<lparr>call_id = [], stage = Done (Inl Client_Deadline), slot = None\<rparr>)\<rparr>
      else
        (let k = id_of (next_id cl); cl' = cl\<lparr>next_id := next_id cl + 1\<rparr> in
         case terminal_error cl of
           Some e \<Rightarrow> cl'\<lparr>calls := (calls cl)(i \<mapsto> \<lparr>call_id = k, stage = Done (Inl e), slot = None\<rparr>)\<rparr>
         | None \<Rightarrow> cl'\<lparr>calls := (calls cl)(i \<mapsto> \<lparr>call_id = k, stage = Registered, slot = None\<rparr>), pending := (pending cl)(k \<mapsto> i)\<rparr>))"

text \<open>Every waiter gets the error, and no call can register any more.\<close>

definition fail_all :: "client_error \<Rightarrow> client \<Rightarrow> client" where
  "fail_all e cl =
     cl\<lparr>terminal_error := Some e, pending := Map.empty,
        calls := (\<lambda>i. case calls cl i of
           None \<Rightarrow> None
         | Some c \<Rightarrow> Some (if i \<in> ran (pending cl) then c\<lparr>slot := Some (Inl e)\<rparr> else c))\<rparr>"

text \<open>A call ends; the guard takes its entry out of the table if it is still there.\<close>

definition end_call :: "nat \<Rightarrow> call \<Rightarrow> client_error + avalue \<Rightarrow> client \<Rightarrow> client" where
  "end_call i c res cl =
     cl\<lparr>calls := (calls cl)(i \<mapsto> c\<lparr>stage := Done res\<rparr>), pending := (pending cl)(call_id c := None)\<rparr>"

definition response_result :: "client_error + response \<Rightarrow> client_error + avalue" where
  "response_result r =
     rbind r (\<lambda>resp. case payload resp of Success v \<Rightarrow> Inr v | Failure e \<Rightarrow> Inl (Remote e))"

text \<open>
  A call takes what its channel holds. After a response the guard is disarmed: the reader has taken
  the entry out already.
\<close>

definition take_response :: "nat \<Rightarrow> call \<Rightarrow> client_error + response \<Rightarrow> client \<Rightarrow> client" where
  "take_response i c r cl =
     (case r of
        Inl _ \<Rightarrow> end_call i c (response_result r) cl
      | Inr _ \<Rightarrow> cl\<lparr>calls := (calls cl)(i \<mapsto> c\<lparr>stage := Done (response_result r)\<rparr>)\<rparr>)"

text \<open>The reader hands a response to the waiter with its id, if there is one.\<close>

definition deliver :: "response \<Rightarrow> client \<Rightarrow> client" where
  "deliver r cl =
     (let cl' = cl\<lparr>pending := (pending cl)(response_id r := None), arrived := arrived cl @ [r]\<rparr> in
      case pending cl (response_id r) of
        None \<Rightarrow> cl'
      | Some i \<Rightarrow> (case calls cl i of None \<Rightarrow> cl' | Some c \<Rightarrow> cl'\<lparr>calls := (calls cl)(i \<mapsto> c\<lparr>slot := Some (Inr r)\<rparr>)\<rparr>))"

inductive client_step :: "client \<Rightarrow> client \<Rightarrow> bool" where
  Begin: "calls cl i = None \<Longrightarrow> client_step cl (begin_call i zero cl)"
| Sent: "calls cl i = Some c \<Longrightarrow> stage c = Registered \<Longrightarrow>
    client_step cl (cl\<lparr>calls := (calls cl)(i \<mapsto> c\<lparr>stage := Waiting\<rparr>)\<rparr>)"
| Send_Failed: "calls cl i = Some c \<Longrightarrow> stage c = Registered \<Longrightarrow> cl' = fail_all e cl \<Longrightarrow> calls cl' i = Some c' \<Longrightarrow>
    client_step cl (end_call i c' (Inl e) cl')"
| Answered: "calls cl i = Some c \<Longrightarrow> stage c = Waiting \<Longrightarrow> slot c = Some r \<Longrightarrow> client_step cl (take_response i c r cl)"
| Timed_Out: "calls cl i = Some c \<Longrightarrow> stage c = Waiting \<Longrightarrow> client_step cl (end_call i c (Inl Client_Deadline) cl)"
| Cancel: "calls cl i = Some c \<Longrightarrow> stage c = Waiting \<Longrightarrow> client_step cl (end_call i c (Inl Client_Cancelled) cl)"
| Dropped: "calls cl i = Some c \<Longrightarrow> stage c = Registered \<Longrightarrow> client_step cl (end_call i c (Inl Client_Cancelled) cl)"
| Read: "reading cl \<Longrightarrow> client_step cl (deliver r cl)"
| Read_Failed: "reading cl \<Longrightarrow> client_step cl (fail_all e cl\<lparr>reading := False\<rparr>)"
| Disconnect: "client_step cl (fail_all (Transport_Gone why) cl\<lparr>reading := False\<rparr>)"

inductive client_reachable :: "client \<Rightarrow> bool" where
  New: "client_reachable client_new"
| Step: "client_reachable cl \<Longrightarrow> client_step cl cl' \<Longrightarrow> next_id cl' < 2 ^ 64 \<Longrightarrow> client_reachable cl'"

section \<open>Invariants\<close>

definition live :: "call \<Rightarrow> bool" where
  "live c \<longleftrightarrow> stage c = Registered \<or> stage c = Waiting"

definition slot_ok :: "response list \<Rightarrow> call \<Rightarrow> bool" where
  "slot_ok rs c \<longleftrightarrow> (\<forall>r. slot c = Some (Inr r) \<longrightarrow> response_id r = call_id c \<and> r \<in> set rs) \<and>
     (\<forall>v. stage c = Done (Inr v) \<longrightarrow> (\<exists>r \<in> set rs. response_id r = call_id c \<and> payload r = Success v))"

text \<open>
  The table holds exactly the calls that are still waiting for an answer, each under its own id, and
  it is empty once the connection is lost.
\<close>

definition waits :: "(nat \<rightharpoonup> call) \<Rightarrow> nat \<Rightarrow> ustring \<Rightarrow> bool" where
  "waits cs i k \<longleftrightarrow> (\<exists>c. cs i = Some c \<and> live c \<and> slot c = None \<and> call_id c = k)"

definition numbered :: "nat \<Rightarrow> call \<Rightarrow> bool" where
  "numbered m c \<longleftrightarrow> (live c \<longrightarrow> (\<exists>n < m. call_id c = id_of n))"

definition client_ok :: "client \<Rightarrow> bool" where
  "client_ok cl \<longleftrightarrow>
     (\<forall>k i. pending cl k = Some i \<longleftrightarrow> waits (calls cl) i k) \<and>
     (terminal_error cl \<noteq> None \<longrightarrow> pending cl = Map.empty) \<and>
     (\<forall>i c. calls cl i = Some c \<longrightarrow> slot_ok (arrived cl) c \<and> numbered (next_id cl) c) \<and>
     (\<forall>i j c d. calls cl i = Some c \<longrightarrow> calls cl j = Some d \<longrightarrow> live c \<longrightarrow> live d \<longrightarrow> call_id c = call_id d \<longrightarrow> i = j)"

lemma client_okD:
  assumes "client_ok cl"
  shows "pending cl k = Some i \<longleftrightarrow> waits (calls cl) i k" "terminal_error cl \<noteq> None \<Longrightarrow> pending cl = Map.empty"
    "calls cl i = Some c \<Longrightarrow> slot_ok (arrived cl) c \<and> numbered (next_id cl) c"
    "calls cl i = Some c \<Longrightarrow> calls cl j = Some d \<Longrightarrow> live c \<Longrightarrow> live d \<Longrightarrow> call_id c = call_id d \<Longrightarrow> i = j"
  using assms unfolding client_ok_def by blast+

lemma client_okI:
  assumes "\<And>k i. pending cl k = Some i \<longleftrightarrow> waits (calls cl) i k" "terminal_error cl \<noteq> None \<Longrightarrow> pending cl = Map.empty"
    "\<And>i c. calls cl i = Some c \<Longrightarrow> slot_ok (arrived cl) c \<and> numbered (next_id cl) c"
    "\<And>i j c d. calls cl i = Some c \<Longrightarrow> calls cl j = Some d \<Longrightarrow> live c \<Longrightarrow> live d \<Longrightarrow> call_id c = call_id d \<Longrightarrow> i = j"
  shows "client_ok cl"
  using assms unfolding client_ok_def by blast

lemma show_dec_inj: "m \<le> u64_max \<Longrightarrow> n \<le> u64_max \<Longrightarrow> show_dec m = show_dec n \<Longrightarrow> m = n"
proof -
  assume m: "m \<le> u64_max" and n: "n \<le> u64_max" and eq: "show_dec m = show_dec n"
  have p: "parse_unsigned u64_max 10 (show_dec k) = Inr k" if "k \<le> u64_max" for k
    unfolding show_dec_def by (rule parse_unsigned_to_digits) (use that in simp_all)
  have "Inr m = (Inr n :: int_error + nat)" using p [OF m] p [OF n] unfolding eq by (rule trans [OF sym])
  then show "m = n" by (rule sum.inject(2) [THEN iffD1])
qed

lemma id_of_inj: "m < 2 ^ 64 \<Longrightarrow> n < 2 ^ 64 \<Longrightarrow> id_of m = id_of n \<Longrightarrow> m = n"
proof -
  assume "m < 2 ^ 64" "n < 2 ^ 64"
  then have le: "m \<le> u64_max" "n \<le> u64_max" by (simp_all add: u64_max_def)
  assume "id_of m = id_of n"
  then have "show_dec m = show_dec n" by (simp add: id_of_def)
  with le show "m = n" by (rule show_dec_inj)
qed

lemma live_stage [simp]:
  "live (c\<lparr>stage := Registered\<rparr>)" "live (c\<lparr>stage := Waiting\<rparr>)" "\<not> live (c\<lparr>stage := Done r\<rparr>)" "live (c\<lparr>slot := x\<rparr>) = live c"
  "\<not> live \<lparr>call_id = k, stage = Done r, slot = x\<rparr>" "live \<lparr>call_id = k, stage = Registered, slot = x\<rparr>"
  by (simp_all add: live_def)

lemma client_new_ok: "client_ok client_new"
  by (simp add: client_ok_def client_new_def waits_def)

text \<open>Replacing one call.\<close>

lemma waits_update [simp]:
  "waits (cs(i \<mapsto> c)) j k \<longleftrightarrow> (if j = i then live c \<and> slot c = None \<and> call_id c = k else waits cs j k)"
  by (simp add: waits_def)

lemma waits_call: "cs i = Some c \<Longrightarrow> waits cs i k \<longleftrightarrow> live c \<and> slot c = None \<and> call_id c = k"
  by (simp add: waits_def)

lemma numbered_mono: "numbered m c \<Longrightarrow> m \<le> m' \<Longrightarrow> numbered m' c"
  by (force simp: numbered_def)

lemma slot_ok_mono: "slot_ok rs c \<Longrightarrow> slot_ok (rs @ rs') c"
  by (auto simp: slot_ok_def)

lemma begin_call_ok:
  assumes ok: "client_ok cl" and new: "calls cl i = None" and small: "next_id cl < 2 ^ 64"
  shows "client_ok (begin_call i zero cl)"
proof -
  note D = client_okD [OF ok]
  have free: "\<not> waits (calls cl) i k" for k using new by (simp add: waits_def)
  have fresh: "call_id c \<noteq> id_of (next_id cl)" if "calls cl j = Some c" "live c" for j c
  proof -
    from D(3) [OF that(1)] that(2) obtain n where n: "n < next_id cl" "call_id c = id_of n" by (auto simp: numbered_def)
    show ?thesis
    proof
      assume "call_id c = id_of (next_id cl)"
      with n have "id_of n = id_of (next_id cl)" by simp
      from id_of_inj [OF _ small this] n(1) small show False by simp
    qed
  qed
  then have unused: "\<not> waits (calls cl) j (id_of (next_id cl))" for j by (auto simp: waits_def)
  have later: "numbered (Suc (next_id cl)) c" if "calls cl j = Some c" for j c
    using D(3) [OF that] numbered_mono [of "next_id cl"] by simp
  consider "zero" | e where "\<not> zero" "terminal_error cl = Some e" | "\<not> zero" "terminal_error cl = None"
    by (cases "terminal_error cl") auto
  then show ?thesis
  proof cases
    case 1
    show ?thesis
      by (rule client_okI; use 1 D free in \<open>auto simp: begin_call_def slot_ok_def numbered_def split: if_splits\<close>)
  next
    case 2
    show ?thesis
      by (rule client_okI; use 2 D free later in \<open>auto simp: begin_call_def Let_def slot_ok_def numbered_def split: if_splits\<close>)
  next
    case 3
    show ?thesis
    proof (rule client_okI)
      show "pending (begin_call i zero cl) k = Some j \<longleftrightarrow> waits (calls (begin_call i zero cl)) j k" for k j
        using 3 D(1) free unused by (auto simp: begin_call_def Let_def)
      show "slot_ok (arrived (begin_call i zero cl)) c \<and> numbered (next_id (begin_call i zero cl)) c"
        if "calls (begin_call i zero cl) j = Some c" for j c
        using 3 that later D(3) by (auto simp: begin_call_def Let_def slot_ok_def numbered_def split: if_splits)
      show "j = j'" if "calls (begin_call i zero cl) j = Some c" "calls (begin_call i zero cl) j' = Some d" "live c" "live d"
        "call_id c = call_id d" for j j' c d
        using 3 that D(4) [of j c j' d] fresh [of j c] fresh [of j' d] by (auto simp: begin_call_def Let_def split: if_splits)
    qed (use 3 in \<open>simp add: begin_call_def Let_def\<close>)
  qed
qed

text \<open>A step that only changes one call, and at most takes its id out of the table.\<close>

lemma change_call_ok:
  assumes ok: "client_ok cl" and c: "calls cl i = Some c"
    and d: "live d \<Longrightarrow> live c" "call_id d = call_id c" "slot_ok (arrived cl) d"
    and p: "\<And>k j. p k = Some j \<longleftrightarrow> (if j = i then live d \<and> slot d = None \<and> call_id d = k else waits (calls cl) j k)"
    and t: "terminal_error cl \<noteq> None \<Longrightarrow> p = Map.empty"
  shows "client_ok (cl\<lparr>calls := (calls cl)(i \<mapsto> d), pending := p\<rparr>)"
proof -
  note D = client_okD [OF ok]
  show ?thesis
  proof (rule client_okI)
    show "slot_ok (arrived (cl\<lparr>calls := (calls cl)(i \<mapsto> d), pending := p\<rparr>)) e \<and>
        numbered (next_id (cl\<lparr>calls := (calls cl)(i \<mapsto> d), pending := p\<rparr>)) e"
      if "calls (cl\<lparr>calls := (calls cl)(i \<mapsto> d), pending := p\<rparr>) j = Some e" for j e
      using that D(3) [OF c] D(3) [of j e] d by (auto simp: numbered_def split: if_splits)
    show "j = j'" if "calls (cl\<lparr>calls := (calls cl)(i \<mapsto> d), pending := p\<rparr>) j = Some e"
      "calls (cl\<lparr>calls := (calls cl)(i \<mapsto> d), pending := p\<rparr>) j' = Some e'" "live e" "live e'" "call_id e = call_id e'" for j j' e e'
    proof -
      note prems = that
      have e: "if j = i then e = d else calls cl j = Some e" "if j' = i then e' = d else calls cl j' = Some e'"
        using that(1,2) by (auto split: if_splits)
      then obtain f f' where f: "calls cl j = Some f" "live f" "call_id f = call_id e"
        and f': "calls cl j' = Some f'" "live f'" "call_id f' = call_id e'"
        using prems(3,4) c d(1,2) by (cases "j = i"; cases "j' = i") auto
      from D(4) [OF f(1) f'(1) f(2) f'(2)] f(3) f'(3) prems(5) show ?thesis by simp
    qed
  qed (use p t in auto)
qed

text \<open>No other waiting call has the id of a live one.\<close>

lemma other_id: "client_ok cl \<Longrightarrow> calls cl i = Some c \<Longrightarrow> live c \<Longrightarrow> j \<noteq> i \<Longrightarrow> \<not> waits (calls cl) j (call_id c)"
  using client_okD(4) [of cl i c j] by (auto simp: waits_def)

lemma pending_lost: "client_ok cl \<Longrightarrow> terminal_error cl \<noteq> None \<Longrightarrow> (pending cl)(k := None) = Map.empty"
  using client_okD(2) [of cl] by auto

lemma end_call_ok:
  assumes ok: "client_ok cl" and c: "calls cl i = Some c" and l: "live c"
    and r: "\<And>v. res = Inr v \<Longrightarrow> \<exists>x \<in> set (arrived cl). response_id x = call_id c \<and> payload x = Success v"
  shows "client_ok (end_call i c res cl)"
proof -
  note D = client_okD [OF ok]
  have "client_ok (cl\<lparr>calls := (calls cl)(i \<mapsto> c\<lparr>stage := Done res\<rparr>), pending := (pending cl)(call_id c := None)\<rparr>)"
  proof (rule change_call_ok [OF ok c])
    show "slot_ok (arrived cl) (c\<lparr>stage := Done res\<rparr>)" using D(3) [OF c] r by (auto simp: slot_ok_def)
    show "((pending cl)(call_id c := None)) k = Some j \<longleftrightarrow> (if j = i then live (c\<lparr>stage := Done res\<rparr>) \<and>
        slot (c\<lparr>stage := Done res\<rparr>) = None \<and> call_id (c\<lparr>stage := Done res\<rparr>) = k else waits (calls cl) j k)" for k j
      using D(1) other_id [OF ok c l] waits_call [where cs = "calls cl", OF c] l by auto
  qed (use pending_lost [OF ok] in auto)
  then show ?thesis by (simp add: end_call_def)
qed

lemma take_response_ok:
  assumes ok: "client_ok cl" and c: "calls cl i = Some c" and l: "live c" and r: "slot c = Some r"
  shows "client_ok (take_response i c r cl)"
proof -
  note D = client_okD [OF ok]
  have res: "\<exists>x \<in> set (arrived cl). response_id x = call_id c \<and> payload x = Success v" if "response_result r = Inr v" for v
    using that D(3) [OF c] r by (cases r) (auto simp: response_result_def slot_ok_def split: response_payload.splits)
  show ?thesis
  proof (cases r)
    case (Inl e)
    then show ?thesis using end_call_ok [OF ok c l res] by (simp add: take_response_def)
  next
    case (Inr x)
    have "client_ok (cl\<lparr>calls := (calls cl)(i \<mapsto> c\<lparr>stage := Done (response_result r)\<rparr>), pending := pending cl\<rparr>)"
    proof (rule change_call_ok [OF ok c])
      show "slot_ok (arrived cl) (c\<lparr>stage := Done (response_result r)\<rparr>)" using D(3) [OF c] res by (auto simp: slot_ok_def)
      show "pending cl k = Some j \<longleftrightarrow> (if j = i then live (c\<lparr>stage := Done (response_result r)\<rparr>) \<and>
          slot (c\<lparr>stage := Done (response_result r)\<rparr>) = None \<and> call_id (c\<lparr>stage := Done (response_result r)\<rparr>) = k
        else waits (calls cl) j k)" for k j
        using D(1) waits_call [where cs = "calls cl", OF c] r by auto
    qed (use D(2) in auto)
    then show ?thesis using Inr by (simp add: take_response_def)
  qed
qed

lemma sent_ok:
  assumes ok: "client_ok cl" and c: "calls cl i = Some c" and s: "stage c = Registered"
  shows "client_ok (cl\<lparr>calls := (calls cl)(i \<mapsto> c\<lparr>stage := Waiting\<rparr>)\<rparr>)"
proof -
  note D = client_okD [OF ok]
  have "client_ok (cl\<lparr>calls := (calls cl)(i \<mapsto> c\<lparr>stage := Waiting\<rparr>), pending := pending cl\<rparr>)"
  proof (rule change_call_ok [OF ok c])
    show "slot_ok (arrived cl) (c\<lparr>stage := Waiting\<rparr>)" using D(3) [OF c] by (auto simp: slot_ok_def)
    show "pending cl k = Some j \<longleftrightarrow> (if j = i then live (c\<lparr>stage := Waiting\<rparr>) \<and> slot (c\<lparr>stage := Waiting\<rparr>) = None \<and>
        call_id (c\<lparr>stage := Waiting\<rparr>) = k else waits (calls cl) j k)" for k j
      using D(1) waits_call [where cs = "calls cl", OF c] s by (auto simp: live_def)
  qed (use D(2) s in \<open>auto simp: live_def\<close>)
  then show ?thesis by simp
qed

text \<open>Losing the connection answers every waiting call with the error.\<close>

lemma fail_all_calls:
  "calls (fail_all e cl) i = map_option (\<lambda>c. if i \<in> ran (pending cl) then c\<lparr>slot := Some (Inl e)\<rparr> else c) (calls cl i)"
  by (auto simp: fail_all_def split: option.splits)

lemma fail_all_ok:
  assumes ok: "client_ok cl"
  shows "client_ok (fail_all e cl)"
proof -
  note D = client_okD [OF ok]
  have ran: "i \<in> ran (pending cl) \<longleftrightarrow> (\<exists>k. waits (calls cl) i k)" for i using D(1) by (auto simp: ran_def)
  have fields: "pending (fail_all e cl) = Map.empty" "arrived (fail_all e cl) = arrived cl" "next_id (fail_all e cl) = next_id cl"
    by (simp_all add: fail_all_def)
  have none: "\<not> waits (calls (fail_all e cl)) i k" for i k
    by (auto simp: waits_def fail_all_calls ran split: if_splits)
  show ?thesis
  proof (rule client_okI)
    show "slot_ok (arrived (fail_all e cl)) c \<and> numbered (next_id (fail_all e cl)) c" if "calls (fail_all e cl) i = Some c" for i c
    proof -
      from that obtain c0 where c0: "calls cl i = Some c0" "c = c0 \<or> c = c0\<lparr>slot := Some (Inl e)\<rparr>"
        by (auto simp: fail_all_calls split: if_splits)
      with D(3) [OF c0(1)] show ?thesis by (auto simp: fields slot_ok_def numbered_def)
    qed
    show "i = j" if "calls (fail_all e cl) i = Some c" "calls (fail_all e cl) j = Some d" "live c" "live d" "call_id c = call_id d"
      for i j c d
    proof -
      have origin: "\<exists>b0. calls cl a = Some b0 \<and> live b0 \<and> call_id b0 = call_id b" if "calls (fail_all e cl) a = Some b" "live b" for a b
        using that by (auto simp: fail_all_calls split: if_splits)
      from origin [OF that(1,3)] origin [OF that(2,4)] D(4) [of i _ j] that(5) show ?thesis by metis
    qed
  qed (simp_all add: fields none)
qed

lemma reading_ok: "client_ok cl \<Longrightarrow> client_ok (cl\<lparr>reading := b\<rparr>)"
  by (simp add: client_ok_def)

lemma arrived_ok: "client_ok cl \<Longrightarrow> client_ok (cl\<lparr>arrived := arrived cl @ rs\<rparr>)"
  using slot_ok_mono by (fastforce simp: client_ok_def)

lemma deliver_ok:
  assumes ok: "client_ok cl"
  shows "client_ok (deliver r cl)"
proof -
  let ?cl = "cl\<lparr>arrived := arrived cl @ [r]\<rparr>"
  have ok': "client_ok ?cl" by (rule arrived_ok [OF ok])
  note D = client_okD [OF ok]
  show ?thesis
  proof (cases "pending cl (response_id r)")
    case None
    then have "(pending cl)(response_id r := None) = pending cl" by auto
    with None ok' show ?thesis by (simp add: deliver_def)
  next
    case (Some i)
    with D(1) obtain c where c: "calls cl i = Some c" "live c" "slot c = None" "call_id c = response_id r" by (auto simp: waits_def)
    have c': "calls ?cl i = Some c" using c(1) by simp
    have "client_ok (?cl\<lparr>calls := (calls ?cl)(i \<mapsto> c\<lparr>slot := Some (Inr r)\<rparr>), pending := (pending cl)(response_id r := None)\<rparr>)"
    proof (rule change_call_ok [OF ok' c'])
      show "slot_ok (arrived ?cl) (c\<lparr>slot := Some (Inr r)\<rparr>)"
        using D(3) [OF c(1)] c(4) by (auto simp: slot_ok_def)
      show "((pending cl)(response_id r := None)) k = Some j \<longleftrightarrow> (if j = i then live (c\<lparr>slot := Some (Inr r)\<rparr>) \<and>
          slot (c\<lparr>slot := Some (Inr r)\<rparr>) = None \<and> call_id (c\<lparr>slot := Some (Inr r)\<rparr>) = k else waits (calls ?cl) j k)" for k j
        using D(1) other_id [OF ok c(1,2)] waits_call [where cs = "calls cl", OF c(1)] c(4) by auto
    qed (use pending_lost [OF ok] in auto)
    moreover have "deliver r cl =
        ?cl\<lparr>calls := (calls ?cl)(i \<mapsto> c\<lparr>slot := Some (Inr r)\<rparr>), pending := (pending cl)(response_id r := None)\<rparr>"
      using Some c(1) by (cases cl) (simp add: deliver_def Let_def)
    ultimately show ?thesis by simp
  qed
qed

lemma client_step_ok:
  assumes "client_ok cl" "client_step cl cl'" "next_id cl < 2 ^ 64"
  shows "client_ok cl'"
  using assms(2)
proof (cases rule: client_step.cases)
  case (Begin i z)
  with begin_call_ok [OF assms(1) _ assms(3)] show ?thesis by simp
next
  case (Send_Failed i c cl1 e c')
  then have "live c'" by (auto simp: fail_all_calls live_def split: if_splits)
  with Send_Failed end_call_ok [OF fail_all_ok [OF assms(1)]] show ?thesis by auto
next
  case (Answered i c r)
  with take_response_ok [OF assms(1)] show ?thesis by (auto simp: live_def)
qed (use assms(1) in \<open>auto intro: sent_ok end_call_ok deliver_ok fail_all_ok reading_ok simp: live_def\<close>)

lemma next_id_mono: "client_step cl cl' \<Longrightarrow> next_id cl \<le> next_id cl'"
  by (cases rule: client_step.cases)
    (auto simp: begin_call_def Let_def fail_all_def end_call_def take_response_def deliver_def split: option.splits sum.splits)

lemma client_reachable_ok: "client_reachable cl \<Longrightarrow> client_ok cl \<and> next_id cl < 2 ^ 64"
proof (induction rule: client_reachable.induct)
  case (Step cl cl')
  with client_step_ok show ?case by blast
qed (simp add: client_new_ok, simp add: client_new_def)

section \<open>What a call gets\<close>

text \<open>A result is the payload of a response that carried the id of the call.\<close>

lemma result_from_response:
  assumes "client_reachable cl" "calls cl i = Some c" "stage c = Done (Inr v)"
  shows "\<exists>r \<in> set (arrived cl). response_id r = call_id c \<and> payload r = Success v"
  using client_okD(3) [OF conjunct1 [OF client_reachable_ok [OF assms(1)]] assms(2)] assms(3) by (auto simp: slot_ok_def)

text \<open>
  No call is left waiting on a lost connection: each already holds its answer or the error. And
  without an answer it has its entry in the table, so that a response can reach it.
\<close>

lemma no_lost_waiter:
  assumes "client_reachable cl" "calls cl i = Some c" "live c"
  shows "slot c \<noteq> None \<or> terminal_error cl = None \<and> pending cl (call_id c) = Some i"
proof (cases "slot c")
  case None
  note D = client_okD [OF conjunct1 [OF client_reachable_ok [OF assms(1)]]]
  from D(1) [of "call_id c" i] assms(2,3) None have "pending cl (call_id c) = Some i" by (simp add: waits_def)
  with D(2) show ?thesis by (cases "terminal_error cl") auto
qed simp

text \<open>A call that starts on a lost connection fails at once, and nothing is sent.\<close>

lemma begin_on_lost:
  "terminal_error cl = Some e \<Longrightarrow>
   \<exists>c. calls (begin_call i False cl) i = Some c \<and> stage c = Done (Inl e) \<and> pending (begin_call i False cl) = pending cl"
  by (simp add: begin_call_def Let_def)

end
