(* ===== verification/Agent_Auto.thy ===== *)
theory Agent_Auto
  imports Config_Service
begin

text \<open>
  Bringing the agent up when a device appears: which binary is used
  (\<open>src-tauri/src/services/agent_artifact.rs\<close>), what the desktop may do on its own and what needs the
  user's consent (\<open>agent_auto.rs\<close>). What \<open>adb\<close> and the file system answer is a parameter; a probe
  only reads the world, \<open>connect_resolved\<close> may change it.
\<close>

section \<open>The agent binary\<close>

datatype device_abi = Arm64_V8a | Armeabi_V7a | X86_64 | X86

fun abi_str :: "device_abi \<Rightarrow> ustring" where
  "abi_str Arm64_V8a = lit ''arm64-v8a''"
| "abi_str Armeabi_V7a = lit ''armeabi-v7a''"
| "abi_str X86_64 = lit ''x86_64''"
| "abi_str X86 = lit ''x86''"

definition abi_parse :: "ustring \<Rightarrow> device_abi option" where
  "abi_parse value =
     (let v = trim value in
      if v = lit ''arm64-v8a'' then Some Arm64_V8a
      else if v = lit ''armeabi-v7a'' then Some Armeabi_V7a
      else if v = lit ''x86_64'' then Some X86_64
      else if v = lit ''x86'' then Some X86
      else None)"

datatype artifact_source = From_Config | From_Environment | From_Resource | From_Development | From_Explicit

record agent_artifact =
  art_path :: ustring
  art_abi :: device_abi
  art_sha256 :: ustring
  art_expected_version :: ustring
  art_source :: artifact_source

datatype artifact_error =
    Artifact_Abi ustring
  | Explicit_Path_Unavailable artifact_source ustring
  | Artifact_Not_Found
  | Artifact_Read ustring ustring

fun source_name :: "artifact_source \<Rightarrow> ustring" where
  "source_name From_Config = lit ''Config''"
| "source_name From_Environment = lit ''Environment''"
| "source_name From_Resource = lit ''Resource''"
| "source_name From_Development = lit ''Development''"
| "source_name From_Explicit = lit ''Explicit''"

fun artifact_display :: "artifact_error \<Rightarrow> ustring" where
  "artifact_display (Artifact_Abi abi) = lit ''Agent artifact discovery only supports arm64-v8a, got '' @ abi"
| "artifact_display (Explicit_Path_Unavailable src path) =
     lit ''configured Agent artifact from '' @ source_name src @ lit '' is unavailable: '' @ path"
| "artifact_display Artifact_Not_Found = lit ''no Agent artifact was found; checked Tauri resource and workspace target''"
| "artifact_display (Artifact_Read path detail) = lit ''failed to read Agent artifact '' @ path @ lit '': '' @ detail"

record 'd file_env =
  is_file :: "ustring \<Rightarrow> 'd \<Rightarrow> bool"
  sha256_file :: "ustring \<Rightarrow> 'd \<Rightarrow> ustring + ustring" \<comment> \<open>the hexadecimal digest of the content, or why it cannot be read\<close>
  env_agent_path :: "ustring option"
  resource_arm64 :: "ustring option"
  development_arm64 :: ustring
  package_version :: ustring \<comment> \<open>\<open>CARGO_PKG_VERSION\<close> of the build\<close>

definition build_artifact :: "'d file_env \<Rightarrow> 'd \<Rightarrow> ustring \<Rightarrow> device_abi \<Rightarrow> artifact_source \<Rightarrow> artifact_error + agent_artifact" where
  "build_artifact fe w path abi src =
     rbind (rmap_err (Artifact_Read path) (sha256_file fe path w)) (\<lambda>sha.
     Inr \<lparr>art_path = path, art_abi = abi, art_sha256 = sha, art_expected_version = package_version fe, art_source = src\<rparr>)"

definition explicit_candidate :: "'d file_env \<Rightarrow> 'd \<Rightarrow> ustring \<Rightarrow> device_abi \<Rightarrow> artifact_source \<Rightarrow> artifact_error + agent_artifact" where
  "explicit_candidate fe w path abi src =
     (if \<not> is_file fe path w then Inl (Explicit_Path_Unavailable src path) else build_artifact fe w path abi src)"

definition resolve_artifact :: "'d file_env \<Rightarrow> settings_db \<Rightarrow> 'd \<Rightarrow> device_abi \<Rightarrow> artifact_error + agent_artifact" where
  "resolve_artifact fe db w abi =
     (if abi \<noteq> Arm64_V8a then Inl (Artifact_Abi (abi_str abi))
      else
        (let configured = trim (case config_get db KEY_AGENT_PATH [] of Inl _ \<Rightarrow> [] | Inr v \<Rightarrow> v) in
         if configured \<noteq> [] then explicit_candidate fe w configured abi From_Config
         else
           (case env_agent_path fe of
              Some path \<Rightarrow>
                if path \<noteq> [] then explicit_candidate fe w path abi From_Environment
                else (case resource_arm64 fe of
                    Some r \<Rightarrow> if is_file fe r w then build_artifact fe w r abi From_Resource
                      else if is_file fe (development_arm64 fe) w then build_artifact fe w (development_arm64 fe) abi From_Development
                      else Inl Artifact_Not_Found
                  | None \<Rightarrow> if is_file fe (development_arm64 fe) w then build_artifact fe w (development_arm64 fe) abi From_Development
                      else Inl Artifact_Not_Found)
            | None \<Rightarrow>
                (case resource_arm64 fe of
                    Some r \<Rightarrow> if is_file fe r w then build_artifact fe w r abi From_Resource
                      else if is_file fe (development_arm64 fe) w then build_artifact fe w (development_arm64 fe) abi From_Development
                      else Inl Artifact_Not_Found
                  | None \<Rightarrow> if is_file fe (development_arm64 fe) w then build_artifact fe w (development_arm64 fe) abi From_Development
                      else Inl Artifact_Not_Found))))"

section \<open>What a probe concludes\<close>

datatype probe_failure =
    Artifact_Missing ustring
  | Unsupported_Abi ustring
  | Device_Offline ustring
  | Probe_Failed ustring

datatype probe_decision =
    In_Session
  | Idle_Artifact_Current
  | Stale_Artifact
  | Not_Installed
  | Running_Elsewhere
  | Decision_Artifact_Missing
  | Decision_Unsupported_Abi
  | Decision_Device_Offline
  | Decision_Probe_Failed

datatype auto_action = No_Action | Ask_Consent | Connecting_Allowed | Explicit_Takeover | Blocked

fun failure_decision :: "probe_failure \<Rightarrow> probe_decision" where
  "failure_decision (Artifact_Missing _) = Decision_Artifact_Missing"
| "failure_decision (Unsupported_Abi _) = Decision_Unsupported_Abi"
| "failure_decision (Device_Offline _) = Decision_Device_Offline"
| "failure_decision (Probe_Failed _) = Decision_Probe_Failed"

fun failure_detail :: "probe_failure \<Rightarrow> ustring" where
  "failure_detail (Artifact_Missing t) = t"
| "failure_detail (Unsupported_Abi t) = t"
| "failure_detail (Device_Offline t) = t"
| "failure_detail (Probe_Failed t) = t"

record probe_facts =
  session_ready :: bool
  auto_on :: bool
  consent_granted :: bool
  facts_abi :: "ustring option"
  expected_sha256 :: "ustring option"
  installed_sha256 :: "ustring option"
  agent_running :: bool
  probe_failure :: "probe_failure option"

definition decide :: "probe_facts \<Rightarrow> probe_decision \<times> auto_action \<times> ustring option" where
  "decide facts =
     (if session_ready facts then (In_Session, No_Action, None)
      else (case probe_failure facts of
        Some f \<Rightarrow> (failure_decision f, Blocked, Some (failure_detail f))
      | None \<Rightarrow>
          (case (if agent_running facts then Some Running_Elsewhere
             else (case (installed_sha256 facts, expected_sha256 facts) of
               (Some i, Some e) \<Rightarrow> if i = e then Some Idle_Artifact_Current else Some Stale_Artifact
             | (None, Some _) \<Rightarrow> Some Not_Installed
             | _ \<Rightarrow> None)) of
             None \<Rightarrow> (Decision_Probe_Failed, Blocked, Some [25506, 27979, 32467, 26524, 19981, 23436, 25972, 65306, 25343, 19981, 21040, 26412, 27425, 35201, 29992, 30340, 20135, 29289, 25688, 35201, 65292, 25110, 35774, 22791, 19978, 37027, 20221, 30340, 25688, 35201])
           | Some d \<Rightarrow>
               if \<not> auto_on facts then (d, No_Action, Some [33258, 21160, 36830, 25509, 24050, 20851, 38381, 65288, 35774, 32622, 32, 8594, 32, 35774, 22791, 19978, 32447, 21518, 33258, 21160, 36830, 25509, 32, 65, 103, 101, 110, 116, 65289, 65292, 38656, 35201, 25163, 21160, 28857, 12300, 23433, 35013, 24182, 36830, 25509, 12301])
               else if d = Running_Elsewhere then (d, Explicit_Takeover, Some [35774, 22791, 19978, 24050, 26377, 32, 65, 103, 101, 110, 116, 32, 22312, 36305, 65292, 20294, 19981, 26159, 26412, 31243, 24207, 36830, 19978, 30340, 65307, 37325, 21551, 20250, 36830, 24102, 25171, 25481, 25176, 31649, 36827, 31243, 19982, 32, 102, 114, 105, 100, 97, 45, 115, 101, 114, 118, 101, 114])
               else (d, if consent_granted facts then Connecting_Allowed else Ask_Consent, None))))"

section \<open>The service\<close>

datatype session_state = Disconnected | Adb_Online | Installing | Starting | Handshaking | Session_Ready | Session_Degraded | Incompatible

datatype bootstrap_error =
    Adb_Unavailable ustring
  | Boot_Device_Offline ustring ustring
  | Boot_Unsupported_Abi ustring ustring
  | Boot_Other ustring \<comment> \<open>every other variant, by its text\<close>

record 'd adb_env =
  session_of :: "ustring \<Rightarrow> 'd \<Rightarrow> session_state"
  ensure_online :: "ustring \<Rightarrow> 'd \<Rightarrow> bootstrap_error + unit"
  abi_of :: "ustring \<Rightarrow> 'd \<Rightarrow> bootstrap_error + device_abi"
  installed_of :: "ustring \<Rightarrow> 'd \<Rightarrow> bootstrap_error + ustring option"
  is_running :: "ustring \<Rightarrow> 'd \<Rightarrow> bootstrap_error + bool"
  connect_resolved :: "ustring \<Rightarrow> 'd \<Rightarrow> (ustring + unit) \<times> 'd"
  unix_time :: "'d \<Rightarrow> nat"
  files :: "'d file_env"

record probe =
  probe_serial :: ustring
  decision :: probe_decision
  action :: auto_action
  probe_abi :: "ustring option"
  probe_expected :: "ustring option"
  probe_installed :: "ustring option"
  probe_running :: bool
  probe_consent :: bool
  probe_auto :: bool
  probe_detail :: "ustring option"
  probed_at :: nat

datatype auto_outcome = Already_Connected | Connected | Awaited_Consent | Deferred_Takeover | Skipped | In_Flight | Connect_Failed

record auto_run =
  run_serial :: ustring
  outcome :: auto_outcome
  run_probe :: probe
  run_error :: "ustring option"

record 'd auto_state =
  config :: settings_db
  probes :: "ustring \<rightharpoonup> probe"
  inflight :: "ustring set"
  world :: 'd

definition auto_enabled :: "settings_db \<Rightarrow> bool" where
  "auto_enabled db = (case config_get db KEY_AGENT_AUTO_CONNECT (lit ''true'') of Inl _ \<Rightarrow> True | Inr v \<Rightarrow> v = lit ''true'')"

definition consent_list :: "settings_db \<Rightarrow> ustring list" where
  "consent_list db =
     filter (\<lambda>s. s \<noteq> []) (map trim (split_pred (\<lambda>c. c = 44)
       (case config_get db KEY_AGENT_CONSENT_SERIALS [] of Inl _ \<Rightarrow> [] | Inr v \<Rightarrow> v)))"

definition has_consent :: "settings_db \<Rightarrow> ustring \<Rightarrow> bool" where
  "has_consent db serial = (let s = trim serial in s \<noteq> [] \<and> list_ex (\<lambda>x. x = s) (consent_list db))"

definition set_consent :: "settings_db \<Rightarrow> ustring \<Rightarrow> bool \<Rightarrow> (core_error + unit) \<times> settings_db" where
  "set_consent db serial granted =
     (let s = trim serial in
      if s = [] then (Inl (Core_Internal [35774, 22791, 24207, 21015, 21495, 20026, 31354, 65292, 19981, 33021, 35760, 25480, 26435]), db)
      else config_set db KEY_AGENT_CONSENT_SERIALS
        (join [44] (filter (\<lambda>x. x \<noteq> s) (consent_list db) @ (if granted then [s] else []))))"

definition artifact_error_text :: "artifact_error \<Rightarrow> ustring" where
  "artifact_error_text e = (case e of Artifact_Not_Found \<Rightarrow> [26412, 26426, 27809, 26377, 21487, 29992, 30340, 32, 65, 103, 101, 110, 116, 32, 20135, 29289, 65288, 26410, 26500, 24314, 65292, 25110, 26410, 38543, 23433, 35013, 21253, 21457, 24067, 65289] | _ \<Rightarrow> artifact_display e)"

fun bootstrap_failure :: "bootstrap_error \<Rightarrow> probe_failure" where
  "bootstrap_failure (Boot_Device_Offline _ detail) = Device_Offline detail"
| "bootstrap_failure (Adb_Unavailable detail) = Device_Offline detail"
| "bootstrap_failure (Boot_Unsupported_Abi _ abi) = Unsupported_Abi ([35774, 22791, 32, 65, 66, 73, 32, 26159, 32] @ abi @ [65292, 24403, 21069, 21482, 25903, 25345, 32, 97, 114, 109, 54, 52, 45, 118, 56, 97])"
| "bootstrap_failure (Boot_Other t) = Probe_Failed t"

definition gather_facts :: "'d adb_env \<Rightarrow> settings_db \<Rightarrow> ustring \<Rightarrow> 'd \<Rightarrow> probe_facts" where
  "gather_facts env db serial w =
     (let base = \<lparr>session_ready = session_of env serial w \<in> {Session_Ready, Session_Degraded}, auto_on = auto_enabled db,
        consent_granted = has_consent db serial, facts_abi = None, expected_sha256 = None, installed_sha256 = None,
        agent_running = False, probe_failure = None\<rparr> in
      if session_ready base then base
      else (case resolve_artifact (files env) db w Arm64_V8a of
        Inl e \<Rightarrow> base\<lparr>probe_failure := Some (Artifact_Missing (artifact_error_text e))\<rparr>
      | Inr art \<Rightarrow>
          (case ensure_online env serial w of
             Inl e \<Rightarrow> base\<lparr>probe_failure := Some (bootstrap_failure e)\<rparr>
           | Inr _ \<Rightarrow>
               (case abi_of env serial w of
                  Inl e \<Rightarrow> base\<lparr>probe_failure := Some (bootstrap_failure e)\<rparr>
                | Inr abi \<Rightarrow>
                    if abi \<noteq> Arm64_V8a then
                      base\<lparr>facts_abi := Some (abi_str abi), probe_failure := Some (Unsupported_Abi ([26412, 26426, 32, 65, 103, 101, 110, 116, 32, 20135, 29289, 21482, 25552, 20379, 32, 97, 114, 109, 54, 52, 45, 118, 56, 97, 65292, 36825, 21488, 35774, 22791, 26159, 32] @ abi_str abi))\<rparr>
                    else
                      (let base = base\<lparr>facts_abi := Some (abi_str abi), expected_sha256 := Some (art_sha256 art)\<rparr> in
                       case installed_of env serial w of
                         Inl e \<Rightarrow> base\<lparr>probe_failure := Some (bootstrap_failure e)\<rparr>
                       | Inr installed \<Rightarrow>
                           (let base = base\<lparr>installed_sha256 := installed\<rparr> in
                            case is_running env serial w of
                              Inl e \<Rightarrow> base\<lparr>probe_failure := Some (bootstrap_failure e)\<rparr>
                            | Inr running \<Rightarrow> base\<lparr>agent_running := running\<rparr>))))))"

definition build_probe :: "'d adb_env \<Rightarrow> ustring \<Rightarrow> probe_facts \<Rightarrow> 'd \<Rightarrow> probe" where
  "build_probe env serial facts w =
     (case decide facts of (d, a, detail) \<Rightarrow>
        \<lparr>probe_serial = serial, decision = d, action = a, probe_abi = facts_abi facts, probe_expected = expected_sha256 facts,
         probe_installed = installed_sha256 facts, probe_running = agent_running facts, probe_consent = consent_granted facts,
         probe_auto = auto_on facts, probe_detail = detail, probed_at = unix_time env w\<rparr>)"

definition probe_device :: "'d adb_env \<Rightarrow> ustring \<Rightarrow> 'd auto_state \<Rightarrow> probe \<times> 'd auto_state" where
  "probe_device env serial st =
     (let p = build_probe env serial (gather_facts env (config st) serial (world st)) (world st)
      in (p, st\<lparr>probes := (probes st)(serial \<mapsto> p)\<rparr>))"

definition offline_facts :: "bool \<Rightarrow> bool \<Rightarrow> probe_facts" where
  "offline_facts auto consent =
     \<lparr>session_ready = False, auto_on = auto, consent_granted = consent, facts_abi = None, expected_sha256 = None,
      installed_sha256 = None, agent_running = False, probe_failure = None\<rparr>"

definition auto_run_of :: "auto_outcome \<Rightarrow> probe \<Rightarrow> ustring option \<Rightarrow> auto_run" where
  "auto_run_of res p e = \<lparr>run_serial = probe_serial p, outcome = res, run_probe = p, run_error = e\<rparr>"

text \<open>Claiming the device, connecting, and giving the claim back.\<close>

definition claim :: "ustring \<Rightarrow> 'd auto_state \<Rightarrow> 'd auto_state option" where
  "claim serial st = (if serial \<in> inflight st then None else Some (st\<lparr>inflight := insert serial (inflight st)\<rparr>))"

definition connect_now :: "'d adb_env \<Rightarrow> probe \<Rightarrow> 'd auto_state \<Rightarrow> auto_run \<times> 'd auto_state" where
  "connect_now env p st =
     (case claim (probe_serial p) st of
        None \<Rightarrow> (auto_run_of In_Flight p None, st)
      | Some st' \<Rightarrow>
          (case connect_resolved env (probe_serial p) (world st') of
             (res, w) \<Rightarrow>
               (let st'' = st'\<lparr>world := w, inflight := inflight st' - {probe_serial p}\<rparr> in
                case probe_device env (probe_serial p) st'' of
                  (fresh, stx) \<Rightarrow>
                    (case res of
                       Inr _ \<Rightarrow> (auto_run_of Connected fresh None, stx)
                     | Inl e \<Rightarrow> (auto_run_of Connect_Failed fresh (Some e), stx)))))"

definition auto_connect :: "'d adb_env \<Rightarrow> ustring \<Rightarrow> 'd auto_state \<Rightarrow> auto_run \<times> 'd auto_state" where
  "auto_connect env serial st =
     (if \<not> auto_enabled (config st) then
        (\<lparr>run_serial = serial, outcome = Skipped,
          run_probe = (case probes st serial of
             Some p \<Rightarrow> p | None \<Rightarrow> build_probe env serial (offline_facts False (has_consent (config st) serial)) (world st)),
          run_error = None\<rparr>, st)
      else
        (case probe_device env serial st of
           (p, st') \<Rightarrow>
             (case action p of
                Ask_Consent \<Rightarrow> (auto_run_of Awaited_Consent p None, st')
              | Explicit_Takeover \<Rightarrow> (auto_run_of Deferred_Takeover p None, st')
              | Connecting_Allowed \<Rightarrow> connect_now env p st'
              | _ \<Rightarrow> (auto_run_of (if decision p = In_Session then Already_Connected else Skipped) p None, st'))))"

section \<open>Lemmas\<close>

text \<open>An explicit path decides alone: when it names no file there is no other candidate.\<close>

lemma explicit_path_decides:
  assumes "config_get db KEY_AGENT_PATH [] = Inr v" "trim v \<noteq> []"
  shows "resolve_artifact fe db w Arm64_V8a = explicit_candidate fe w (trim v) Arm64_V8a From_Config"
  using assms by (simp add: resolve_artifact_def)

lemma artifact_is_arm64: "resolve_artifact fe db w abi = Inr a \<Longrightarrow> abi = Arm64_V8a \<and> art_abi a = Arm64_V8a"
  by (auto simp: resolve_artifact_def explicit_candidate_def build_artifact_def result_inv Let_def
      split: if_splits option.splits sum.splits)

lemma abi_round_trip: "abi_parse (abi_str a) = Some a"
proof -
  have t: "trim (abi_str a) = abi_str a" by (cases a) (auto intro!: trim_ends simp: is_whitespace_def)
  show ?thesis unfolding abi_parse_def t Let_def by (cases a) simp_all
qed

lemma decide_allows:
  "fst (snd (decide facts)) = Connecting_Allowed \<longleftrightarrow>
     \<not> session_ready facts \<and> probe_failure facts = None \<and> \<not> agent_running facts \<and> expected_sha256 facts \<noteq> None \<and>
     auto_on facts \<and> consent_granted facts"
  by (auto simp: decide_def split: option.splits)

lemma probe_action: "action (build_probe env serial facts w) = fst (snd (decide facts))"
  by (simp add: build_probe_def split: prod.splits)

lemma probe_serial_of: "probe_serial (build_probe env serial facts w) = serial"
  by (simp add: build_probe_def split: prod.splits)

lemma probe_device_keeps:
  "probe_device env serial st = (p, st') \<Longrightarrow>
   world st' = world st \<and> config st' = config st \<and> inflight st' = inflight st \<and> probe_serial p = serial"
  by (auto simp: probe_device_def Let_def probe_serial_of)

lemma gather_fields:
  "auto_on (gather_facts env db serial w) = auto_enabled db"
  "consent_granted (gather_facts env db serial w) = has_consent db serial"
  "session_ready (gather_facts env db serial w) \<longleftrightarrow> session_of env serial w \<in> {Session_Ready, Session_Degraded}"
  "\<not> session_ready (gather_facts env db serial w) \<Longrightarrow> probe_failure (gather_facts env db serial w) = None \<Longrightarrow>
   \<not> agent_running (gather_facts env db serial w) \<Longrightarrow> is_running env serial w = Inr False"
  by (auto simp: gather_facts_def Let_def split: sum.splits if_splits)

lemma connect_now_cases:
  assumes "connect_now env p st = (r, st2)"
  shows "probe_serial p \<in> inflight st \<and> st2 = st \<and> outcome r = In_Flight \<or>
    probe_serial p \<notin> inflight st \<and> inflight st2 = inflight st \<and> outcome r \<in> {Connected, Connect_Failed}"
proof (cases "probe_serial p \<in> inflight st")
  case True
  with assms show ?thesis by (auto simp: connect_now_def claim_def auto_run_of_def)
next
  case False
  obtain res w where c: "connect_resolved env (probe_serial p) (world st) = (res, w)"
    by (cases "connect_resolved env (probe_serial p) (world st)")
  let ?st = "st\<lparr>inflight := insert (probe_serial p) (inflight st) - {probe_serial p}, world := w\<rparr>"
  obtain fresh st3 where f: "probe_device env (probe_serial p) ?st = (fresh, st3)"
    by (cases "probe_device env (probe_serial p) ?st")
  have "?st = st\<lparr>inflight := inflight st, world := w\<rparr>" using False by simp
  have "st2 = st3 \<and> outcome r \<in> {Connected, Connect_Failed}"
    using assms False c f by (cases res) (auto simp: connect_now_def claim_def auto_run_of_def)
  with probe_device_keeps [OF f] False show ?thesis by auto
qed

lemma auto_connect_cases:
  assumes "auto_connect env serial st = (r, st2)"
  obtains "st2 = st"
  | p st1 where "auto_enabled (config st)" "probe_device env serial st = (p, st1)" "action p \<noteq> Connecting_Allowed" "st2 = st1"
  | p st1 where "auto_enabled (config st)" "probe_device env serial st = (p, st1)" "action p = Connecting_Allowed"
      "connect_now env p st1 = (r, st2)"
proof -
  obtain p st1 where p: "probe_device env serial st = (p, st1)" by (cases "probe_device env serial st")
  show thesis
  proof (cases "auto_enabled (config st)")
    case on: True
    show thesis
    proof (cases "action p = Connecting_Allowed")
      case True
      with on assms p show thesis by (intro that(3)) (auto simp: auto_connect_def)
    next
      case False
      then have "st2 = st1" using on assms p by (cases "action p") (auto simp: auto_connect_def)
      with on p False show thesis by (rule that(2))
    qed
  next
    case False
    with assms show thesis by (intro that(1)) (simp add: auto_connect_def)
  qed
qed

text \<open>
  The world is only changed for a device the user has allowed, with automatic connection on, when no
  session exists, no agent is running on it, and no other connection to it is under way.
\<close>

lemma auto_connect_writes:
  assumes "auto_connect env serial st = (r, st2)" "world st2 \<noteq> world st"
  shows "auto_enabled (config st) \<and> has_consent (config st) serial \<and> is_running env serial (world st) = Inr False \<and>
    session_of env serial (world st) \<notin> {Session_Ready, Session_Degraded} \<and> serial \<notin> inflight st \<and>
    outcome r \<in> {Connected, Connect_Failed}"
  using assms(1)
proof (cases rule: auto_connect_cases)
  case (3 p st1)
  note keeps = probe_device_keeps [OF 3(2)]
  have "fst (snd (decide (gather_facts env (config st) serial (world st)))) = Connecting_Allowed"
    using 3(2,3) by (auto simp: probe_device_def Let_def probe_action)
  then have facts: "\<not> session_ready (gather_facts env (config st) serial (world st))"
    "probe_failure (gather_facts env (config st) serial (world st)) = None"
    "\<not> agent_running (gather_facts env (config st) serial (world st))"
    "consent_granted (gather_facts env (config st) serial (world st))"
    by (simp_all add: decide_allows)
  have "serial \<notin> inflight st \<and> outcome r \<in> {Connected, Connect_Failed}"
    using connect_now_cases [OF 3(4)] assms(2) keeps by auto
  with 3(1) facts(4) gather_fields(4) [OF facts(1-3)] gather_fields(2) [of env "config st" serial "world st"]
    gather_fields(3) [of env "config st" serial "world st"] facts(1)
  show ?thesis by simp
qed (use assms(2) in \<open>auto dest: probe_device_keeps\<close>)

lemma auto_connect_releases: "auto_connect env serial st = (r, st2) \<Longrightarrow> inflight st2 = inflight st"
  by (erule auto_connect_cases) (auto dest: probe_device_keeps connect_now_cases)

text \<open>Granting and withdrawing consent change the answer for that device only.\<close>

lemma trim_ends_of: "trim s \<noteq> [] \<Longrightarrow> \<not> is_whitespace (hd (trim s)) \<and> \<not> is_whitespace (last (trim s))"
proof -
  assume ne: "trim s \<noteq> []"
  let ?d = "dropWhile is_whitespace s"
  have t: "trim s = rev (dropWhile is_whitespace (rev ?d))" by (simp add: trim_def trim_start_def trim_end_def trim_end_with_def)
  obtain k where k: "?d = trim s @ k"
    unfolding t by (metis rev_append rev_rev_ident takeWhile_dropWhile_id)
  have "hd (trim s) = hd ?d" using ne k by (metis hd_append2)
  moreover have "\<not> is_whitespace (hd ?d)" using ne k by (intro hd_dropWhile) auto
  moreover have "\<not> is_whitespace (last (trim s))" using ne unfolding t by (simp add: last_rev hd_dropWhile)
  ultimately show ?thesis by simp
qed

lemma trim_trim [simp]: "trim (trim s) = trim s"
  using trim_ends_of [of s] by (cases "trim s = []") (auto intro: trim_ends)


lemma trimmed_list:
  assumes "\<And>x. x \<in> set xs \<Longrightarrow> x \<noteq> [] \<and> trim x = x \<and> 44 \<notin> set x"
  shows "filter (\<lambda>s. s \<noteq> []) (map trim (split_pred (\<lambda>c. c = 44) (join [44] xs))) = xs"
proof (cases "xs = []")
  case False
  have "split_pred (\<lambda>c. c = 44) (join [44] xs) = xs" by (rule split_pred_join [OF False]) (use assms in auto)
  moreover have "map trim xs = xs" using assms by (simp add: map_idI)
  ultimately show ?thesis using assms by (simp add: filter_id_conv)
qed (simp add: trim_def trim_start_def trim_end_def trim_end_with_def)

lemma set_trim: "set (trim s) \<subseteq> set s"
  unfolding trim_def trim_start_def trim_end_def trim_end_with_def
  by (auto dest!: set_dropWhileD)

lemma consent_items: "x \<in> set (consent_list db) \<Longrightarrow> x \<noteq> [] \<and> trim x = x \<and> 44 \<notin> set x"
  using set_trim split_pred_pieces by (fastforce simp: consent_list_def)

lemma consent_list_set:
  assumes "set_consent db serial granted = (Inr (), db')" "44 \<notin> set serial"
  shows "consent_list db' = filter (\<lambda>x. x \<noteq> trim serial) (consent_list db) @ (if granted then [trim serial] else [])"
proof -
  let ?xs = "filter (\<lambda>x. x \<noteq> trim serial) (consent_list db) @ (if granted then [trim serial] else [])"
  have ne: "trim serial \<noteq> []" and stored: "config_set db KEY_AGENT_CONSENT_SERIALS (join [44] ?xs) = (Inr (), db')"
    using assms(1) by (auto simp: set_consent_def Let_def split: if_splits)
  have "x \<noteq> [] \<and> trim x = x \<and> 44 \<notin> set x" if "x \<in> set ?xs" for x
    using that ne assms(2) set_trim consent_items by (auto split: if_splits)
  from trimmed_list [of ?xs, OF this] show ?thesis
    unfolding consent_list_def [of db'] set_then_get [OF stored] by simp
qed

lemma consent_set:
  assumes "set_consent db serial granted = (Inr (), db')" "44 \<notin> set serial"
  shows "has_consent db' other = (if trim other = trim serial then granted else has_consent db other)"
proof -
  have "trim serial \<noteq> []" using assms(1) by (auto simp: set_consent_def Let_def)
  then show ?thesis by (auto simp: has_consent_def Let_def list_ex_iff consent_list_set [OF assms])
qed

text \<open>A serial with a comma in it is stored as two, and does not get what was granted to it.\<close>

lemma comma_serial_lost: "44 \<in> set (trim serial) \<Longrightarrow> \<not> has_consent db serial"
  using consent_items by (fastforce simp: has_consent_def Let_def list_ex_iff)

end
