(* ===== verification/Agent_Instances.thy ===== *)
theory Agent_Instances
  imports Agent_Presence Agent_Client Agent_Auto
begin

text \<open>
  A concrete device, a server on it and a desktop environment: they show that the hypotheses the
  theorems of the agent put on their surroundings can hold.
\<close>

section \<open>A device\<close>

text \<open>
  Its state is the clock. Every command answers with the line that shows \<open>com.x\<close> to be installed and
  a third-party package, except \<open>pidof\<close>, which answers 77.
\<close>

definition phone_text :: "ustring \<Rightarrow> ustring" where
  "phone_text p = (if p = PIDOF then lit ''77'' else lit ''package:com.x'')"

definition phone_output :: "ustring \<Rightarrow> command_output" where
  "phone_output p = \<lparr>success = True, exit_code = Some 0, stdout = utf8 (phone_text p), stderr = []\<rparr>"

definition phone :: "nat device_env" where
  "phone = \<lparr>command = (\<lambda>p args d. (Inr (phone_output p), d)),
     timed_command = (\<lambda>t p args d. (Some (Inr (phone_output p)), d + 1)),
     read_file = (\<lambda>path d. None), clock = (\<lambda>d. d), pause = (\<lambda>n d. d + n), entries_order = (\<lambda>es. es),
     de_text = (\<lambda>e. []), fmt_debug = (\<lambda>t. t)\<rparr>"

definition phone_params :: avalue where
  "phone_params = VObject [(lit ''operation_id'', VString (lit ''op-1'')), (lit ''package'', VString (lit ''com.x''))]"

definition phone_idle :: "nat agent_state" where
  "phone_idle = \<lparr>device = 0, ledger = []\<rparr>"

lemma phone_clock: "clock_ok phone"
  by (simp add: clock_ok_def phone_def)

lemma phone_order: "rearranges (entries_order phone)"
  by (simp add: rearranges_def phone_def)

text \<open>Launching \<open>com.x\<close> on it, with the commands it ran.\<close>

lemma phone_text_valid: "from_utf8_lossy (utf8 (phone_text p)) = phone_text p"
  by (rule from_utf8_lossy_utf8) (simp add: phone_text_def valid_string_def is_scalar_def)

lemma lossy_Nil: "from_utf8_lossy [] = []"
  using from_utf8_lossy_utf8 [of "[]"] by (simp add: utf8_def valid_string_def)

abbreviation phone_entry :: "ustring \<Rightarrow> ustring list \<Rightarrow> log_entry" where
  "phone_entry p args \<equiv> (p, args, Some (Inr (phone_output p)))"

lemma phone_run:
  "run (logged phone) p args s = Some (Inr (phone_text p), s\<lparr>device := (fst (device s) + 1, snd (device s) @ [phone_entry p args])\<rparr>)"
  "run_ok (logged phone) p args s = Some (Inr (phone_text p), s\<lparr>device := (fst (device s) + 1, snd (device s) @ [phone_entry p args])\<rparr>)"
  by (cases "device s"; simp add: run_def run_ok_def abind_def on_device_def logged_def phone_def phone_output_def
      areturn_def phone_text_valid lossy_Nil)+

lemmas trim_defs = trim_def trim_start_def trim_end_def trim_end_with_def is_whitespace_def

lemma phone_texts: "phone_text PM = lit ''package:com.x''" "phone_text MONKEY = lit ''package:com.x''" "phone_text PIDOF = lit ''77''"
  by (simp_all add: phone_text_def PM_def MONKEY_def PIDOF_def)

lemma phone_line: "lines (lit ''package:com.x'') = [lit ''package:com.x'']"
  by (simp add: lines_def Let_def)

lemma phone_lists:
  "list_ex (\<lambda>line. starts_with (trim_start (trim_end_with (\<lambda>c. c = 13) line)) (lit ''package:'')) (lines (phone_text PM))"
  unfolding phone_texts phone_line by (simp add: trim_defs starts_with_iff)

lemma phone_third_party: "classify_package_kind (phone_text PM) (lit ''com.x'') = Third_Party"
  unfolding phone_texts classify_package_kind_def phone_line by (simp add: trim_defs)

lemma phone_no_activities: "split_once (lit ''No activities found to run'') (phone_text MONKEY) = None"
  unfolding phone_texts by simp

lemma phone_no_error: "split_once (lit ''** Error'') (phone_text MONKEY) = None"
  unfolding phone_texts by simp

lemma phone_pid: "split_whitespace (phone_text PIDOF) = [lit ''77'']"
  unfolding phone_texts by (simp add: split_whitespace_def is_whitespace_def)

lemmas phone_facts = phone_lists phone_third_party phone_no_activities phone_no_error phone_pid

lemma parse_77: "parse_u32 (lit ''77'') = Some 77"
  by (simp add: parse_u32_def parse_unsigned_def to_digit_def ok_value_def u32_max_def)

definition phone_log :: "log_entry list" where
  "phone_log = [phone_entry PM [lit ''path'', lit ''com.x''], phone_entry PM [lit ''list'', lit ''packages'', lit ''-3'', lit ''com.x''],
     phone_entry MONKEY [lit ''-p'', lit ''com.x'', lit ''-c'', lit ''android.intent.category.LAUNCHER'', lit ''1''],
     phone_entry PIDOF [lit ''com.x'']]"

lemma phone_launch:
  "\<exists>v s'. launch_now (logged phone) (lit ''com.x'') k s = Some (Inr v, s') \<and> snd (device s') = snd (device s) @ phone_log"
  unfolding launch_now_def guard_writable_package_def pm_path_present_def current_pid_def wait_for_pid_def
  by (subst poll_pid.simps)
    (simp add: abind_def attempt_def alift_def areturn_def phone_run phone_facts parse_77 current_pid_def finish_write_def Let_def phone_log_def
      del: lit_Cons)

lemma phone_submits:
  "parse_params (logged phone) write_params_from phone_params = Inr (lit ''com.x'', lit ''op-1'')"
  by code_simp

lemma phone_begins: "begin_write (logged phone) (lit ''activity.launch'') (lit ''com.x'') (lit ''op-1'') = Inr ()"
  by code_simp

definition phone_start :: "(nat \<times> log_entry list) agent_state" where
  "phone_start = \<lparr>device = (5, []), ledger = []\<rparr>"

lemma phone_activity:
  "\<exists>v s'. activity_handle (logged phone) (lit ''activity.launch'') phone_params phone_start = Some (Inr v, s') \<and>
     snd (device s') = phone_log"
proof -
  have "write_begin (logged phone) (lit ''activity.launch'') phone_params phone_start =
      Some (Inr (lit ''com.x'', lit ''op-1'', None), phone_start)"
    using write_begin_looks_up [OF phone_submits phone_begins, of phone_start]
    by (simp add: phone_start_def lookup_at_def prune_def del: lit_Cons)
  moreover have "activity_handle (logged phone) (lit ''activity.launch'') = launch (logged phone)"
    by (auto simp: activity_handle_def fun_eq_iff)
  ultimately show ?thesis
    using phone_launch [of "lit ''op-1''" phone_start]
    by (auto simp: launch_def write_operation_def abind_def phone_start_def simp del: lit_Cons)
qed

section \<open>A server\<close>

definition demo_system :: system_provider where
  "demo_system = \<lparr>sys_token = lit ''t'', sys_permissions = \<lparr>perm_shell = True, perm_root = False, selinux_enforcing = True\<rparr>,
     started_at = 0, sys_version = lit ''1''\<rparr>"

definition demo_router :: "nat router" where
  "demo_router = the (system_router_with phone demo_system [activity_as_provider phone (lit ''1'')])"

definition demo_server :: "nat server" where
  "demo_server = \<lparr>srv_env = phone, srv_system = demo_system, srv_others = [activity_as_provider phone (lit ''1'')],
     srv_router = demo_router, srv_late = (\<lambda>q s. None), srv_abort = (\<lambda>qs s. s)\<rparr>"

lemma demo_router_built: "system_router_with phone demo_system [activity_as_provider phone (lit ''1'')] = Some demo_router"
proof -
  have "system_router_with phone demo_system [activity_as_provider phone (lit ''1'')] \<noteq> None"
    by (simp add: system_router_with_def register_provider_def router_new_def system_as_provider_def
        activity_as_provider_def ACTIVITY_METHODS_def SYSTEM_HELLO_def SYSTEM_HEALTH_def CAPABILITY_LIST_def)
  then show ?thesis by (auto simp: demo_router_def)
qed

lemma demo_methods_distinct: "distinct (methods (activity_as_provider phone v))"
  by (simp add: activity_as_provider_def ACTIVITY_METHODS_def)

lemma demo_server_ok: "server_ok demo_server"
proof -
  have "length (utf8 (sys_token demo_system)) < 2 ^ 64" by (simp add: demo_system_def utf8_def utf8_char_def)
  then show ?thesis by (simp add: server_ok_def demo_server_def demo_router_built del: lit_Cons)
qed

section \<open>The clients of an exited agent\<close>

lemma demo_idle_exit:
  "process_reachable demo_server 5 s0 \<lparr>agent = agent_start s0, idle = Some 1, exited = True\<rparr>"
proof -
  let ?p = "\<lambda>i b. \<lparr>agent = agent_start s0, idle = i, exited = b\<rparr> :: nat agent_process"
  have first: "process_step demo_server 5 (?p None False) (?p (Some 1) False)"
    using process_step.Poll [of "?p None False" 5 1 False "Some 1" demo_server] by (simp add: observe_def agent_start_def)
  have second: "process_step demo_server 5 (?p (Some 1) False) (?p (Some 1) True)"
    using process_step.Poll [of "?p (Some 1) False" 5 6 True "Some 1" demo_server] by (simp add: observe_def agent_start_def)
  show ?thesis by (rule process_reachable.Run [OF process_reachable.Run [OF process_reachable.Boot first] second])
qed

section \<open>An answered call\<close>

definition demo_response :: Agent_Client.response where
  "demo_response = \<lparr>response_id = id_of 1, payload = Success VNull\<rparr>"

definition demo_call :: call where
  "demo_call = \<lparr>call_id = id_of 1, stage = Done (Inr VNull), slot = Some (Inr demo_response)\<rparr>"

lemma demo_answered: "\<exists>cl. client_reachable cl \<and> calls cl 0 = Some demo_call"
proof -
  let ?c = "\<lambda>st sl. \<lparr>call_id = id_of 1, stage = st, slot = sl\<rparr> :: call"
  let ?cl = "\<lambda>p st sl a. \<lparr>pending = p, terminal_error = None, next_id = 2, calls = [0 \<mapsto> ?c st sl], reading = True, arrived = a\<rparr>"
  let ?p = "[id_of 1 \<mapsto> 0]"
  have s1: "client_step client_new (?cl ?p Registered None [])"
    using client_step.Begin [of client_new 0 False] by (simp add: client_new_def begin_call_def Let_def numeral_2_eq_2)
  have s2: "client_step (?cl ?p Registered None []) (?cl ?p Waiting None [])"
    using client_step.Sent [of "?cl ?p Registered None []" 0 "?c Registered None"] by simp
  have s3: "client_step (?cl ?p Waiting None []) (?cl Map.empty Waiting (Some (Inr demo_response)) [demo_response])"
    using client_step.Read [of "?cl ?p Waiting None []" demo_response] by (simp add: deliver_def Let_def demo_response_def)
  have s4: "client_step (?cl Map.empty Waiting (Some (Inr demo_response)) [demo_response])
      (?cl Map.empty (Done (Inr VNull)) (Some (Inr demo_response)) [demo_response])"
    using client_step.Answered [of "?cl Map.empty Waiting (Some (Inr demo_response)) [demo_response]" 0
        "?c Waiting (Some (Inr demo_response))" "Inr demo_response"]
    by (simp add: take_response_def response_result_def demo_response_def)
  have "client_reachable (?cl Map.empty (Done (Inr VNull)) (Some (Inr demo_response)) [demo_response])"
    by (rule client_reachable.Step [OF client_reachable.Step [OF client_reachable.Step [OF client_reachable.Step
          [OF client_reachable.New s1] s2] s3] s4]) simp_all
  then show ?thesis by (auto simp: demo_call_def)
qed

section \<open>Settings\<close>

definition empty_db :: settings_db where
  "empty_db = \<lparr>rows = [], failure = None\<rparr>"

lemma empty_db_ok: "settings_ok empty_db"
  by (simp add: empty_db_def settings_ok_def values_ok_def)

lemma demo_snapshot:
  "snapshot (foldl settings_step empty_db [Write_Api_Key (lit ''k''), Write_Setting (lit ''app.settings.theme'') (lit ''dark'')]) =
     Inr [(lit ''app.settings.theme'', lit ''dark'')]"
proof -
  have t: "(lit ''app.settings.theme'', is_valid_theme) \<in> set ALLOWED_KEYS" by (simp add: ALLOWED_KEYS_def)
  have k: "trim KEY_AI_API_KEY \<noteq> []" by (simp add: KEY_AI_API_KEY_def trim_defs)
  have n: "KEY_AI_API_KEY \<noteq> lit ''app.settings.theme''" by (simp add: KEY_AI_API_KEY_def)
  have m: "lit ''app.settings.theme'' \<in> fst ` set ALLOWED_KEYS" using t by force
  have a: "KEY_AI_API_KEY \<notin> fst ` set ALLOWED_KEYS" using api_key_not_allowed by simp
  show ?thesis using k n m a
    by (simp add: empty_db_def config_set_valid [OF t] set_secret_def repo_set_def is_valid_theme_def snapshot_def repo_all_def
      del: lit_Cons)
qed

lemma demo_consent: "\<exists>db'. set_consent empty_db (lit '' ab:5 '') True = (Inr (), db')"
proof -
  have t: "trim (lit '' ab:5 '') = lit ''ab:5''" by (simp add: trim_defs)
  have t': "trim (lit ''ab:5'') = lit ''ab:5''" by (simp add: trim_defs)
  have u: "length (utf8 (lit ''ab:5'')) = 4" by (simp add: utf8_def utf8_char_def)
  have c: "list_all (\<lambda>c. is_ascii_alphanumeric c \<or> c \<in> set (lit ''-_.:'')) (lit ''ab:5'')"
    by (simp add: char_class_defs)
  have p: "split_pred (\<lambda>c. c = 44) (lit ''ab:5'') = [lit ''ab:5'']" "10 \<notin> set (lit ''ab:5'')" "0 \<notin> set (lit ''ab:5'')" by simp_all
  have "is_valid_serial_list (lit ''ab:5'')"
    unfolding is_valid_serial_list_def u p(1) Let_def list.pred_inject t' using p(2,3) c by simp
  moreover have "consent_list empty_db = []"
    by (simp add: consent_list_def config_get_allowed [OF consent_key(1)] empty_db_def trim_defs)
  moreover have "lit ''ab:5'' \<noteq> []" by simp
  ultimately have "fst (set_consent empty_db (lit '' ab:5 '') True) = Inr ()"
    unfolding set_consent_def t Let_def by (simp add: config_set_valid [OF consent_key(1)] repo_set_def empty_db_def del: lit_Cons)
  then show ?thesis by (metis fst_conv surj_pair)
qed

end
