(* ===== verification/Agent_Process_World.thy ===== *)
theory Agent_Process_World
  imports Agent_Processes Agent_Instances
begin

text \<open>
  A small device with one process, its name, its socket and the table of the kernel, on which the process
  provider is run: the instances that show its theorems apply.
\<close>

text \<open>The device is the time and whether process 77 runs.\<close>

type_synonym little = "nat \<times> bool"

definition little_device :: "little device_env" where
  "little_device = \<lparr>command = (\<lambda>p args d. (Inl (lit ''not found''), d)), timed_command = (\<lambda>t p args d. (Some (Inl (lit ''not found'')), d)),
     read_file = (\<lambda>path d. None), clock = fst, pause = (\<lambda>n (t, b). (t + n, b)), entries_order = (\<lambda>es. es),
     de_text = (\<lambda>e. []), fmt_debug = (\<lambda>t. t)\<rparr>"

definition frida_words :: "ustring list" where
  "frida_words = kernel_words [[127, 0, 0, 1]] 27042 [[0, 0, 0, 0]] 0 10 2000 4242 [(lit ''0:''), (lit ''00000000:00000000''), (lit ''00:00000000''), (lit ''00000000''), (lit ''0''), (lit ''1'')]"

definition little_tcp :: ustring where
  "little_tcp = join [10] [(lit ''sl local_address rem_address st''), join [32] frida_words]"

definition little_read :: "ustring \<Rightarrow> little \<Rightarrow> ustring + bytes" where
  "little_read path d =
     (if path = (lit ''/proc/net/tcp'') then Inr (utf8 little_tcp)
      else if path = (lit ''/proc/net/tcp6'') then Inr (utf8 (lit ''header''))
      else if snd d \<and> path = (lit ''/proc/77/comm'') then Inr (utf8 (lit ''frida-server''))
      else Inl (lit ''entity not found''))"

definition little_env :: "little proc_env" where
  "little_env = \<lparr>p_device = little_device, p_read = little_read, p_head = (\<lambda>path n d. None),
     p_dir = (\<lambda>path d. if path = (lit ''/proc'') then Inr [(lit ''self''), (lit ''77'')] else if path = (lit ''/proc/77/fd'') then Inr [(lit ''3'')] else Inl (lit ''entity not found'')),
     p_link = (\<lambda>path d. if path = (lit ''/proc/77/fd/3'') then Some (lit ''socket:[4242]'') else None),
     p_exists = (\<lambda>path d. snd d), p_self = 500,
     p_kill = (\<lambda>pid sig d. if pid = 77 \<and> snd d then (None, (fst d, False)) else (Some (Some ESRCH), d))\<rparr>"

definition little_kill :: avalue where
  "little_kill = VObject [((lit ''expected_comm''), VString (lit ''frida-server'')), ((lit ''pid''), VNumber (Pos_Int 77))]"

definition little_target :: kill_params where
  "little_target = \<lparr>kp_pid = 77, kp_expected_comm = Some (lit ''frida-server''), kp_signal = Term_Signal, kp_require_root = False\<rparr>"

lemma little_fields [simp]:
  "p_device little_env = little_device" "p_read little_env = little_read" "p_head little_env path n d = None"
  "p_dir little_env path d = (if path = (lit ''/proc'') then Inr [(lit ''self''), (lit ''77'')] else if path = (lit ''/proc/77/fd'') then Inr [(lit ''3'')] else Inl (lit ''entity not found''))"
  "p_link little_env path d = (if path = (lit ''/proc/77/fd/3'') then Some (lit ''socket:[4242]'') else None)"
  "p_exists little_env path d = snd d" "p_self little_env = 500"
  "p_kill little_env pid sig d = (if pid = 77 \<and> snd d then (None, (fst d, False)) else (Some (Some ESRCH), d))"
  by (simp_all add: little_env_def)

lemma little_target_fields [simp]:
  "kp_pid little_target = 77" "kp_expected_comm little_target = Some (lit ''frida-server'')" "kp_signal little_target = Term_Signal"
  "\<not> kp_require_root little_target"
  by (simp_all add: little_target_def)

lemma little_clock: "clock_ok (p_device little_env)"
  by (auto simp: clock_ok_def little_device_def)

lemma little_kill_parsed: "process_params env kill_params_from little_kill = Inr little_target"
  by (simp add: process_params_def little_kill_def little_target_def field_from_def opt_string_from_def uint_from_def u32_max_def
      or_default_def ok_or_def del: lit_Cons) (simp add: u32_max_def)?

lemma show_77: "show_dec 77 = (lit ''77'')"
  by (simp add: show_dec_def to_digits.simps digit_char_def)

lemma little_identity: "read_process_identity little_env 77 (t, True) = Some \<lparr>id_comm = Some (lit ''frida-server''), id_cmdline = None, id_uid = None\<rparr>"
proof -
  have "trim (lit ''frida-server'') = (lit ''frida-server'')" by (simp add: trim_defs)
  moreover have "from_utf8 (utf8 (lit ''frida-server'')) = Some (lit ''frida-server'')" by (rule from_utf8_utf8) (simp add: valid_string_def is_scalar_def)
  ultimately have comm: "read_trimmed little_env (proc_of 77 ''comm'') (t, True) = Some (lit ''frida-server'')"
    by (simp add: read_trimmed_def read_text_def little_read_def proc_of_def PROC_def show_77)
  show ?thesis
    unfolding read_process_identity_def comm Let_def
    by (simp add: read_text_def read_cmdline_def little_read_def proc_of_def PROC_def show_77 ok_value_def)
qed

definition little_idle :: "(little \<times> proc_call list) agent_state" where
  "little_idle = \<lparr>device = ((0, True), []), ledger = []\<rparr>"

lemma little_root: "effective_uid little_env (t, b) = None"
  by (simp add: effective_uid_def read_text_def little_read_def PROC_def ok_value_def)

text \<open>The signal is sent and the process is gone at the first look.\<close>

lemma little_kills:
  "kill (proc_logged little_env) little_kill little_idle = Some (Inr (kill_value little_target \<lparr>kr_outcome = Signaled,
     kr_identity = Some \<lparr>id_comm = Some (lit ''frida-server''), id_cmdline = None, id_uid = None\<rparr>, kr_root = False, kr_dead = True,
     kr_detail = (lit ''signal_sent_confirmed'')\<rparr>), \<lparr>device = ((0, False), [Signal_Call 77 15]), ledger = []\<rparr>)"
  (is "_ = Some (Inr (kill_value _ ?r), ?after)")
proof -
  let ?ident = "Some \<lparr>id_comm = Some (lit ''frida-server''), id_cmdline = None, id_uid = None\<rparr>"
  have "trim (lit ''frida-server'') = (lit ''frida-server'')" by (simp add: trim_defs)
  then have guard: "guard_identity little_target ?ident = Inr ()"
    by (simp add: guard_identity_def or_default_def Let_def)
  have pid: "check_pid little_env little_target = Inr ()" by (simp add: check_pid_def)
  have "send_signal (proc_logged little_env) 77 Term_Signal ((0, True), []) = (Signal_Sent, ((0, False), [Signal_Call 77 15]))"
    by (simp add: send_signal_def proc_logged_def i32_max_def)
  then have sent: "on_device (send_signal (proc_logged little_env) 77 Term_Signal) little_idle = Some (Inr Signal_Sent, ?after)"
    by (simp add: on_device_def little_idle_def)
  have dead: "confirm_dead (proc_logged little_env) 77 started ?after = Some (Inr True, ?after)" for started
    by (subst confirm_dead.simps) (simp add: proc_logged_def)
  have "kill_directly (proc_logged little_env) little_target False ?ident little_idle = Some (Inr ?r, ?after)"
    using sent dead by (simp add: kill_directly_def abind_def asking_def areturn_def direct_report_def)
  then have "end_process (proc_logged little_env) little_target little_idle = Some (Inr ?r, ?after)"
    using guard by (simp add: end_process_def proc_logged_reads pid asking_def little_idle_def little_root little_identity)
  then show ?thesis by (simp add: kill_def proc_logged_reads little_kill_parsed abind_def areturn_def)
qed

section \<open>The port it listens on\<close>

definition frida_entry :: net_entry where
  "frida_entry = \<lparr>ne_inode = 4242, ne_port = 27042, ne_address = address_text Ipv4 [[127, 0, 0, 1]], ne_remote_port = 0,
     ne_state = (lit ''listen''), ne_uid = 2000, ne_family = Ipv4\<rparr>"

lemma frida_words_plain: "w \<in> set frida_words \<Longrightarrow> is_word w \<and> (\<forall>c \<in> set w. 48 \<le> c \<and> c \<le> 70)"
proof -
  have hex: "48 \<le> c \<and> c \<le> 70" if "c \<in> set (upper_hex k n)" for c k n
  proof -
    from that obtain b where b: "b \<in> set (pad_left k (to_digits 16 n))" "c = to_ascii_upper b" by (auto simp: upper_hex_def)
    have "b = 48 \<or> (\<exists>d < 16. b = digit_char d)"
      using b(1) set_pad_left [of k "to_digits 16 n"] to_digits_chars [of 16 b n] by auto
    with b(2) show ?thesis by (auto simp: digit_char_def to_ascii_upper_def is_ascii_lower_def split: if_splits)
  qed
  have endpoint: "48 \<le> c \<and> c \<le> 70" if "c \<in> set (kernel_endpoint grps port)" for c grps port
    using that hex by (auto simp: kernel_endpoint_def kernel_address_def)
  have decimal: "48 \<le> c \<and> c \<le> 70" if "c \<in> set (show_dec n)" for c n using show_dec_chars [OF that] by auto
  have endpoint_ne: "kernel_endpoint grps port \<noteq> []" for grps port by (simp add: kernel_endpoint_def)
  have decimal_ne: "show_dec n \<noteq> []" for n by (simp add: show_dec_def)
  assume w: "w \<in> set frida_words"
  then have plain: "\<forall>c \<in> set w. 48 \<le> c \<and> c \<le> 70" "w \<noteq> []"
    using hex endpoint decimal upper_hex_nonempty [THEN not_sym] endpoint_ne [THEN not_sym] decimal_ne [THEN not_sym]
    by (auto simp: frida_words_def kernel_words_def)
  then have "\<not> is_whitespace c" if "c \<in> set w" for c using that by (auto simp: is_whitespace_def)
  with plain show ?thesis by (simp add: is_word_def)
qed

lemma frida_line: "split_whitespace (join [32] frida_words) = frida_words"
  using frida_words_plain by (intro split_whitespace_join) (auto simp: is_whitespace_def)

lemma frida_row: "parse_net_line (join [32] frida_words) Ipv4 = Some frida_entry"
proof -
  have "parse_net_line (join [32] frida_words) Ipv4 = Some \<lparr>ne_inode = 4242, ne_port = 27042, ne_address = address_text Ipv4 [[127, 0, 0, 1]],
      ne_remote_port = 0, ne_state = state_name 10, ne_uid = 2000, ne_family = Ipv4\<rparr>"
    by (rule kernel_row_read [OF trans [OF frida_line frida_words_def]])
      (simp_all add: address_groups_def int_max_defs)
  then show ?thesis by (simp add: frida_entry_def state_name_def)
qed

lemma little_tcp_lines: "lines little_tcp = [(lit ''sl local_address rem_address st''), join [32] frida_words]" and little_tcp_valid: "valid_string little_tcp"
proof -
  have chars: "32 \<le> c \<and> c \<le> 70" if "c \<in> set (join [32] frida_words)" for c
  proof -
    have "set (join [32] ws) \<subseteq> insert 32 (\<Union> (set ` set ws))" for ws :: "ustring list"
      by (induction ws rule: induct_list012) auto
    with that have "c = 32 \<or> (\<exists>w \<in> set frida_words. c \<in> set w)" by blast
    with frida_words_plain show ?thesis by fastforce
  qed
  have ne: "join [32] frida_words \<noteq> []" using last_join [of frida_words 32] by (simp add: frida_words_def kernel_words_def)
  show "lines little_tcp = [(lit ''sl local_address rem_address st''), join [32] frida_words]"
    unfolding little_tcp_def using chars ne by (intro lines_join) fastforce+
  show "valid_string little_tcp"
    using chars by (force simp: little_tcp_def valid_string_def is_scalar_def list_all_iff)
qed

lemma little_snapshot: "load_snapshot little_env d = \<lparr>sn_entries = [frida_entry], sn_truncated = False, sn_unreadable = []\<rparr>"
proof -
  have tcp: "read_text little_env (lit ''/proc/net/tcp'') d = Inr little_tcp"
    using little_tcp_valid by (simp add: read_text_def little_read_def)
  have "from_utf8 (utf8 (lit ''header'')) = Some (lit ''header'')" by (rule from_utf8_utf8) (simp add: valid_string_def is_scalar_def)
  then have tcp6: "read_text little_env (lit ''/proc/net/tcp6'') d = Inr (lit ''header'')" by (simp add: read_text_def little_read_def)
  have "lines (join [10] [(lit ''header'')]) = [(lit ''header'')]" by (rule lines_join) auto
  then have "lines (lit ''header'') = [(lit ''header'')]" by simp
  then show ?thesis
    unfolding load_snapshot_def NET_FILES_def
    by (simp add: add_table_def tcp tcp6 little_tcp_lines frida_row MAX_SOCKET_ROWS_def del: lit_Cons)
qed

definition little_by_port :: avalue where
  "little_by_port = VObject [((lit ''port''), VNumber (Pos_Int 27042))]"

lemma little_port_parsed: "process_params little_env (one_uint_from ''port'' u16_max) little_by_port = Inr 27042"
  by (simp add: process_params_def little_by_port_def field_from_def uint_from_def u16_max_def ok_or_def)

lemma little_port_rows: "rows_of_port little_env 27042 d = [frida_entry]"
  by (simp add: rows_of_port_def little_snapshot matching_port_def frida_entry_def)

lemma little_parse_names: "parse_u32 (lit ''self'') = None" "parse_u32 (lit ''77'') = Some 77"
  by (simp_all add: parse_u32_def parse_unsigned_def to_digit_def ok_value_def u32_max_def)

lemma little_sockets: "socket_inodes_of little_env 77 d = Inr [4242]"
proof -
  have "path_join (lit ''/proc/77/fd'') (lit ''3'') = (lit ''/proc/77/fd/3'')"
    by (simp add: path_join_def ends_with_def strip_suffix_def)
  moreover have "socket_inode_of_link (Some (lit ''socket:[4242]'')) = Some 4242"
    by (simp add: socket_inode_of_link_def strip_suffix_def parse_unsigned_def to_digit_def ok_value_def u64_max_def)
  ultimately show ?thesis
    by (simp add: socket_inodes_of_def read_socket_inodes_def proc_of_def PROC_def show_77 List.map_filter_def)
qed

lemma little_owners: "owners_of_port little_env 27042 d = \<lparr>os_owners = [4242 \<mapsto> 77], os_unreadable = 0, os_truncated = False\<rparr>"
proof -
  have "p_dir little_env PROC d = Inr [(lit ''self''), (lit ''77'')]" by (simp add: PROC_def)
  then have "scan_socket_owners little_env [4242] d = \<lparr>os_owners = [4242 \<mapsto> 77], os_unreadable = 0, os_truncated = False\<rparr>"
    by (simp add: scan_socket_owners_def little_parse_names little_sockets MAX_SCANNED_PIDS_def claim_inode_def no_owners_def Let_def del: lit_Cons)
  then show ?thesis by (simp add: owners_of_port_def little_port_rows frida_entry_def)
qed

lemma little_holder:
  "by_port_of little_env 27042 (t, True) = \<lparr>bp_port = 27042,
     bp_sockets = [\<lparr>ho_pid = 77, ho_entry = frida_entry, ho_comm = Some (lit ''frida-server'')\<rparr>], bp_unowned = [],
     bp_truncated = False, bp_skipped = []\<rparr>"
proof -
  have comm: "read_trimmed little_env (proc_of 77 ''comm'') (t, True) = Some (lit ''frida-server'')"
    using little_identity [of t] by (simp add: read_process_identity_def Let_def split: if_splits)
  have "place_sockets little_env (t, True) (os_owners (owners_of_port little_env 27042 (t, True))) (rows_of_port little_env 27042 (t, True)) [] =
      ([\<lparr>ho_pid = 77, ho_entry = frida_entry, ho_comm = Some (lit ''frida-server'')\<rparr>], [])"
    by (simp add: little_owners little_port_rows comm) (simp add: frida_entry_def)
  from by_port_parts [OF this] show ?thesis by (simp add: little_owners little_snapshot port_skips_def)
qed
end
