(* ===== verification/Agent_Frida_World.thy ===== *)
theory Agent_Frida_World
  imports Agent_Frida Agent_Process_World
begin

text \<open>
  A device on which the frida server can be started and stopped as root: its state is the time and whether the
  server, process 77, runs. The instances that show the theorems of the frida provider apply.
\<close>

text \<open>The arguments of a process as the kernel shows them.\<close>

definition kernel_cmdline :: "ustring list \<Rightarrow> bytes" where
  "kernel_cmdline args = concat (map (\<lambda>a. utf8 a @ [0]) args)"

definition plain_argument :: "ustring \<Rightarrow> bool" where
  "plain_argument a \<longleftrightarrow> a \<noteq> [] \<and> list_all (\<lambda>c. c \<noteq> 0 \<and> c < 128) a"

lemma plain_argument_bytes: "plain_argument a \<Longrightarrow> utf8 a \<noteq> [] \<and> 0 \<notin> set (utf8 a) \<and> from_utf8_lossy (utf8 a) = a"
proof -
  assume a: "plain_argument a"
  then have "ascii a" "valid_string a"
    by (auto simp: plain_argument_def ascii_set valid_string_def is_scalar_def list_all_iff)
  moreover have "(of_nat c :: u8) \<noteq> 0" if "c \<in> set a" for c
  proof -
    have "0 < c" "c < 256" using a that by (auto simp: plain_argument_def list_all_iff)
    then show ?thesis by (simp add: word_of_nat_eq_0_iff nat_dvd_not_less)
  qed
  ultimately have "utf8 a \<noteq> []" "0 \<notin> set (utf8 a)" and "from_utf8_lossy (utf8 a) = a"
    using a by (force simp: utf8_ascii plain_argument_def, force simp: utf8_ascii, simp)
  then show ?thesis by blast
qed

lemma cmdline_read: "(\<And>a. a \<in> set args \<Longrightarrow> plain_argument a) \<Longrightarrow> cmdline_args (kernel_cmdline args) = args"
proof (induction args)
  case (Cons a args)
  then have a: "utf8 a \<noteq> []" "0 \<notin> set (utf8 a)" "from_utf8_lossy (utf8 a) = a" using plain_argument_bytes by auto
  have "split_pred (\<lambda>b. b = 0) (utf8 a @ 0 # kernel_cmdline args) = utf8 a # split_pred (\<lambda>b. b = 0) (kernel_cmdline args)"
    using a(2) by (intro split_pred_append) auto
  with Cons a show ?case by (simp add: cmdline_args_def kernel_cmdline_def)
qed (simp add: cmdline_args_def kernel_cmdline_def)

definition server_args :: "ustring list" where
  "server_args = [(lit ''./frida-server''), (lit ''-l''), (lit ''127.0.0.1:27042'')]"

definition rooted_read :: "ustring \<Rightarrow> little \<Rightarrow> ustring + bytes" where
  "rooted_read path d =
     (if path = (lit ''/proc/77/cmdline'') \<and> snd d then Inr (kernel_cmdline server_args)
      else if path = (lit ''/proc/77/status'') \<and> snd d then Inr (utf8 ((lit ''Uid:'') @ [9, 48]))
      else little_read path d)"

definition su_reply :: "ustring list \<Rightarrow> little \<Rightarrow> (ustring + command_output) option \<times> little" where
  "su_reply args d =
     (let starts = (args \<noteq> [(lit ''-c''), frida_stop_script DEFAULT_BINARY]) in
      (Some (Inr \<lparr>success = True, exit_code = Some 0, stdout = utf8 (if starts then (lit ''FRIDA_STARTED'') else (lit ''FRIDA_STOPPED'')), stderr = []\<rparr>),
       (fst d, starts)))"

definition rooted_device :: "little device_env" where
  "rooted_device = little_device\<lparr>timed_command := (\<lambda>t program args d. if program = SU then su_reply args d else (Some (Inl (lit ''not found'')), d))\<rparr>"

definition rooted :: "little frida_env" where
  "rooted = \<lparr>f_proc = little_env\<lparr>p_device := rooted_device, p_read := rooted_read\<rparr>,
     f_lstat = (\<lambda>path d. Some \<lparr>md_mode = 0x81ed, md_uid = 0, md_gid = 0, md_size = 1, md_mtime = 0\<rparr>),
     f_is_file = (\<lambda>path d. False)\<rparr>"

lemma rooted_fields [simp]:
  "p_device (f_proc rooted) = rooted_device" "p_read (f_proc rooted) = rooted_read" "p_dir (f_proc rooted) = p_dir little_env"
  "p_self (f_proc rooted) = 500"
  "f_lstat rooted path d = Some \<lparr>md_mode = 0x81ed, md_uid = 0, md_gid = 0, md_size = 1, md_mtime = 0\<rparr>" "\<not> f_is_file rooted path d"
  "timed_command rooted_device t program args d = (if program = SU then su_reply args d else (Some (Inl (lit ''not found'')), d))"
  "clock rooted_device = fst" "pause rooted_device n d = (fst d + n, snd d)"
  by (cases d; simp add: rooted_def rooted_device_def little_device_def)+

definition the_server :: server_fact where
  "the_server = \<lparr>sv_pid = 77, sv_uid = Some 0, sv_args = server_args\<rparr>"

lemma rooted_server: "find_server rooted DEFAULT_BINARY (t, b) = (if b then [the_server] else [])"
proof -
  have args: "cmdline_args (kernel_cmdline server_args) = server_args"
    by (rule cmdline_read) (auto simp: server_args_def plain_argument_def)
  have name: "matches_server (lit ''./frida-server'') DEFAULT_BINARY"
    by (simp add: matches_server_def file_name_def components_def skipped_def DEFAULT_BINARY_def)
  have uid: "uid_in_status ((lit ''Uid:'') @ [9, 48]) = Some 0"
    by (simp add: uid_in_status_def lines_def split_whitespace_def is_whitespace_def parse_u32_def parse_unsigned_def to_digit_def
        ok_value_def u32_max_def strip_cr_def Let_def)
  have status: "from_utf8 (utf8 ((lit ''Uid:'') @ [9, 48])) = Some ((lit ''Uid:'') @ [9, 48])"
    by (rule from_utf8_utf8) (simp add: valid_string_def is_scalar_def)
  have paths: "proc_of 77 ''cmdline'' = (lit ''/proc/77/cmdline'')" "proc_of 77 ''status'' = (lit ''/proc/77/status'')"
    by (simp_all add: proc_of_def PROC_def show_77)
  have at: "server_at rooted DEFAULT_BINARY (t, b) 77 = (if b then Some the_server else None)"
    unfolding server_at_def paths
    using args name uid status
    by (simp add: rooted_read_def read_text_def the_server_def ok_value_def server_args_def little_read_def)
  show ?thesis
    by (simp add: find_server_def PROC_def little_parse_names at FRIDA_MAX_PIDS_def del: lit_Cons)
qed

section \<open>A start and a stop\<close>

lemma show_27042: "show_dec 27042 = (lit ''27042'')"
  by (simp add: show_dec_def to_digits.simps digit_char_def)

lemma rooted_listening: "facts_listening rooted [the_server] (t, b)"
proof -
  have "parse_listen ([(lit ''./frida-server'')] @ [(lit ''-l''), (lit ''127.0.0.1'') @ 58 # show_dec 27042] @ []) = Some ((lit ''127.0.0.1''), 27042)"
    by (rule started_arguments_read) (simp_all add: gives_none_def inline_listen_def u16_max_def)
  then have listen: "parse_listen (sv_args the_server) = Some ((lit ''127.0.0.1''), 27042)"
    by (simp add: the_server_def server_args_def show_27042)
  have "row_listens (join [32] frida_words) 27042"
    by (subst kernel_row_listens [OF trans [OF frida_line frida_words_def]]) (simp_all add: int_max_defs)
  then have "text_has_listening_port little_tcp 27042"
    by (simp add: text_listening_rows little_tcp_lines)
  moreover have "read_text (f_proc rooted) (lit ''/proc/net/tcp'') (t, b) = Inr little_tcp"
    using little_tcp_valid by (simp add: read_text_def rooted_read_def little_read_def)
  ultimately show ?thesis by (simp add: facts_listening_def listen is_listening_def del: lit_Cons)
qed

definition rooted_idle :: "bool \<Rightarrow> little agent_state" where
  "rooted_idle b = \<lparr>device = (0, b), ledger = []\<rparr>"

definition plain_request :: avalue where
  "plain_request = VObject [((lit ''operation_id''), VString (lit ''op-1''))]"

definition plain_start :: start_params where
  "plain_start = \<lparr>sq_operation = (lit ''op-1''), sq_name = DEFAULT_BINARY, sq_port = DEFAULT_PORT, sq_bind = DEFAULT_BIND\<rparr>"

lemma default_name_valid: "validate_binary_name DEFAULT_BINARY = Inr ()"
  by (simp add: validate_binary_name_def DEFAULT_BINARY_def name_char_def starts_with_def str_contains_def is_ascii_alphanumeric_def
      is_ascii_alphabetic_def is_ascii_upper_def is_ascii_lower_def is_ascii_digit_def utf8_def utf8_char_def)

lemma plain_start_checked: "start_checked env plain_request = Inr plain_start"
  using default_name_valid
  by (simp add: start_checked_def frida_params_def plain_request_def field_from_def or_default_def ok_or_def name_of_def plain_start_def
      validate_listen_def DEFAULT_BIND_def DEFAULT_PORT_def Let_def)

lemma plain_stop_checked: "stop_checked env plain_request = Inr ((lit ''op-1''), DEFAULT_BINARY)"
  using default_name_valid
  by (simp add: stop_checked_def frida_params_def plain_request_def field_from_def or_default_def ok_or_def name_of_def Let_def)

lemma plain_begin: "begin_write env meth DEFAULT_BINARY (lit ''op-1'') = Inr ()"
  by (simp add: begin_write_def is_safe_package_name_def DEFAULT_BINARY_def is_valid_operation_id_def is_ascii_alphanumeric_def
      is_ascii_alphabetic_def is_ascii_upper_def is_ascii_lower_def is_ascii_digit_def utf8_def utf8_char_def)

lemma su_word:
  assumes "word = (lit ''FRIDA_STARTED'') \<or> word = (lit ''FRIDA_STOPPED'')"
  shows "su_answer step word \<lparr>success = True, exit_code = Some 0, stdout = utf8 word, stderr = []\<rparr> = Inr word"
proof -
  have v: "valid_string word" using assms by (auto simp: valid_string_def is_scalar_def)
  have t: "trim word = word" using assms by (auto simp: trim_defs)
  have "lines (join [10] [word]) = [word]" using assms by (intro lines_join) auto
  with v t show ?thesis by (simp add: su_answer_def Let_def lossy_Nil)
qed

lemma rooted_runs:
  "script \<noteq> frida_stop_script DEFAULT_BINARY \<Longrightarrow> run_privileged rooted_device step script (lit ''FRIDA_STARTED'') s =
     Some (Inr (lit ''FRIDA_STARTED''), s\<lparr>device := (fst (device s), True)\<rparr>)"
  "run_privileged rooted_device step (frida_stop_script DEFAULT_BINARY) (lit ''FRIDA_STOPPED'') s =
     Some (Inr (lit ''FRIDA_STOPPED''), s\<lparr>device := (fst (device s), False)\<rparr>)"
  by (simp_all add: run_privileged_def abind_def on_device_def su_reply_def Let_def alift_def su_word del: lit_Cons)

lemma start_differs: "frida_start_script name addr port log \<noteq> frida_stop_script name'"
  by (simp add: frida_start_script_def frida_stop_script_def)

lemma rooted_start: "\<exists>v s'. frida_start rooted plain_request (rooted_idle False) = Some (Inr v, s') \<and> device s' = (0, True)"
proof -
  have ready: "binary_ready rooted name d = (True, None)" for name d
    by (simp add: binary_ready_def kind_from_mode_def S_IFMT_def S_IFDIR_def S_IFREG_def Let_def)
  have "probe_version rooted name s = Some (Inr None, s)" for name s
    by (cases "validate_binary_name name") (simp_all add: probe_version_def asking_def areturn_def Let_def)
  then have verified: "\<exists>v s'. start_verified rooted plain_start steps s = Some (Inr v, s') \<and> device s' = device s"
    if "device s = (t, True)" for steps s t
    using that rooted_listening [of t True]
    by (simp add: start_verified_def asking_def plain_start_def rooted_server Let_def abind_def finish_write_def areturn_def)
      (simp add: the_server_def)
  have "\<exists>v s'. start_server rooted plain_start steps s = Some (Inr v, s') \<and> device s' = (t, True)" if "device s = (t, False)" for steps s t
    using that verified [of "s\<lparr>device := (t, True)\<rparr>" t]
    by (simp add: start_server_def abind_def attempt_def rooted_runs(1) start_differs del: lit_Cons)
  then have "\<exists>v s'. start_now rooted plain_start s = Some (Inr v, s') \<and> device s' = (t, True)" if "device s = (t, False)" for s t
    using that by (simp add: start_now_def asking_def ready plain_start_def rooted_server Let_def)
  note started = this
  have b: "begin_write (f_device rooted) meth (sq_name plain_start) (sq_operation plain_start) = Inr ()" for meth
    by (simp add: plain_start_def plain_begin del: lit_Cons)
  show ?thesis
    unfolding frida_start_def frida_start_write.proceeds [OF plain_start_checked b]
    using started by (simp add: rooted_idle_def lookup_at_def)
qed

lemma rooted_stop: "\<exists>v s'. frida_stop rooted plain_request (rooted_idle True) = Some (Inr v, s') \<and> device s' = (0, False)"
proof -
  have gone: "confirm_gone rooted DEFAULT_BINARY started STOP_CHECKS s = Some (Inr True, s)" if "device s = (t, False)" for started s t
  proof -
    have n: "STOP_CHECKS = Suc 9" by (simp add: STOP_CHECKS_def)
    show ?thesis unfolding n confirm_gone.simps that rooted_server by simp
  qed
  have confirmed: "\<exists>v s'. stop_confirmed rooted k DEFAULT_BINARY sv steps s = Some (Inr v, s') \<and> device s' = (t, False)"
    if "device s = (t, False)" for k sv steps s t
    using that by (simp add: stop_confirmed_def asking_def abind_def gone Let_def finish_write_def areturn_def)
  have "\<exists>v s'. stop_now rooted (k, DEFAULT_BINARY) s = Some (Inr v, s') \<and> device s' = (t, False)" if "device s = (t, True)" for k s t
    using that confirmed [of "s\<lparr>device := (t, False)\<rparr>" t]
    by (simp add: stop_now_def asking_def rooted_server Let_def abind_def attempt_def stop_process_def the_server_def rooted_runs(2) areturn_def
        del: lit_Cons)
  note stopped = this
  have b: "begin_write (f_device rooted) meth (snd ((lit ''op-1''), DEFAULT_BINARY)) (fst ((lit ''op-1''), DEFAULT_BINARY)) = Inr ()" for meth
    by (simp add: plain_begin del: lit_Cons)
  show ?thesis
    unfolding frida_stop_def frida_stop_write.proceeds [OF plain_stop_checked b]
    using stopped by (simp add: rooted_idle_def lookup_at_def)
qed

section \<open>The stop, logged\<close>

definition logged_idle :: "(little \<times> proc_call list) agent_state" where
  "logged_idle = \<lparr>device = ((0, True), []), ledger = []\<rparr>"

lemma logged_stop: "\<exists>r s'. frida_handle (frida_logged rooted) (lit ''frida.server.stop'') plain_request logged_idle = Some (r, s') \<and>
    snd (device s') = [stop_call DEFAULT_BINARY]"
proof -
  obtain r s' where go: "frida_stop (frida_logged rooted) plain_request logged_idle = Some (r, s')"
    using frida_returns [of "frida_logged rooted" "(lit ''frida.server.stop'')" plain_request logged_idle] by (auto simp: frida_handle_def)
  have b: "begin_write (f_device (frida_logged rooted)) meth (snd ((lit ''op-1''), DEFAULT_BINARY)) (fst ((lit ''op-1''), DEFAULT_BINARY)) = Inr ()" for meth
    by (simp add: plain_begin del: lit_Cons)
  let ?s = "logged_idle\<lparr>ledger := prune (entries_order (f_device (frida_logged rooted))) (ledger logged_idle) (clock (f_device (frida_logged rooted)) (device logged_idle))\<rparr>"
  have "stop_now (frida_logged rooted) ((lit ''op-1''), DEFAULT_BINARY) ?s = Some (r, s')"
    using go unfolding frida_stop_def frida_stop_write.proceeds [OF plain_stop_checked b] by (simp add: logged_idle_def lookup_at_def)
  moreover have "find_server rooted DEFAULT_BINARY (fst (device ?s)) = [the_server]" by (simp add: logged_idle_def rooted_server)
  ultimately obtain r1 s1 where "stop_process (frida_logged rooted) DEFAULT_BINARY the_server ?s = Some (r1, s1)" "snd (device s') = snd (device s1)"
    using stop_now_log by blast
  with stop_process_root [OF this(1)] have "snd (device s') = [stop_call DEFAULT_BINARY]" by (simp add: the_server_def logged_idle_def)
  with go show ?thesis by (simp add: frida_handle_def)
qed

lemma frida_kernel_row: "kernel_row Ipv4 (join [32] frida_words)"
  unfolding kernel_row_def
  by (intro exI conjI) (rule trans [OF frida_line frida_words_def], simp_all add: address_groups_def int_max_defs)
end
