(* ===== verification/Agent_File_Writes.thy ===== *)
theory Agent_File_Writes
  imports Agent_Files
begin

text \<open>
  The writing side of the filesystem provider (\<open>android-agent/src/provider/filesystem_write.rs\<close>): which
  paths may be changed, and \<open>mkdir\<close>, \<open>rename\<close>, \<open>remove\<close> and \<open>chmod\<close>, each of which reads back what it
  did. The audit lines the functions print are left out.
\<close>

section \<open>Where writes may go\<close>

definition DEFAULT_WRITE_ROOTS :: ustring where "DEFAULT_WRITE_ROOTS = (lit ''/sdcard,/data/local/tmp'')"
definition MAX_REMOVE_ENTRIES :: nat where "MAX_REMOVE_ENTRIES = 20000"

definition bad_request :: "ustring \<Rightarrow> string \<Rightarrow> ustring \<Rightarrow> aerror" where
  "bad_request message why path =
     with_details (agent_error_new Invalid_Request message) (VObject [((lit ''path''), VString path), ((lit ''reason''), VString (lit why))])"

definition internal_error :: "ustring \<Rightarrow> aerror" where
  "internal_error message = agent_error_new Internal message"

text \<open>\<open>..\<close> goes up one component and stops at the root.\<close>

definition lexical_step :: "ustring list \<Rightarrow> ustring \<Rightarrow> ustring list" where
  "lexical_step parts c = (if c = (lit ''..'') then butlast parts else parts @ [c])"

definition normalize_lexically :: "ustring \<Rightarrow> ustring" where
  "normalize_lexically path = path_from (foldl lexical_step [] (components path))"

definition parse_write_roots :: "ustring \<Rightarrow> ustring list" where
  "parse_write_roots raw =
     (let roots = filter (\<lambda>v. starts_with v [47] \<and> 1 < length (utf8 v)) (map trim (split_pred (\<lambda>c. c = 44) raw)) in
      if roots = [] then split_pred (\<lambda>c. c = 44) DEFAULT_WRITE_ROOTS else roots)"

definition configured_roots :: "'d fs_env \<Rightarrow> ustring list" where
  "configured_roots env = parse_write_roots (or_default DEFAULT_WRITE_ROOTS (fs_write_roots_var env))"

definition write_roots :: "'d fs_env \<Rightarrow> 'd \<Rightarrow> ustring list" where
  "write_roots env d = map (\<lambda>path. case fs_canonical env path d of Inr p \<Rightarrow> p | Inl _ \<Rightarrow> path) (configured_roots env)"

definition fs_check_writable :: "'d fs_env \<Rightarrow> ustring \<Rightarrow> 'd \<Rightarrow> aerror + unit" where
  "fs_check_writable env path d =
     (if list_ex (path_starts_with path) (configured_roots env) \<or> list_ex (path_starts_with path) (write_roots env d) then Inr ()
      else Inl (with_details (agent_error_new Permission_Denied ([20889, 25805, 20316, 19981, 22312, 20801, 35768, 30340, 30446, 24405, 33539, 22260, 20869, 58, 32] @ path))
        (VObject [((lit ''allowed_write_roots''), VArray (map VString (configured_roots env))), ((lit ''path''), VString path),
          ((lit ''reason''), VString (lit ''write_path_not_allowed''))])))"

definition resolve_for_write :: "'d fs_env \<Rightarrow> ustring \<Rightarrow> 'd \<Rightarrow> aerror + ustring" where
  "resolve_for_write env raw d =
     (if raw = [] \<or> \<not> is_absolute raw then Inl (bad_request [24517, 39035, 26159, 35774, 22791, 19978, 30340, 32477, 23545, 36335, 24452] ''path_not_absolute'' raw)
      else
        let lexical = normalize_lexically raw in
        rbind (fs_check_writable env lexical d) (\<lambda>_.
        case split_last lexical of (parent, name) \<Rightarrow>
        rbind (rmap_err (io_error ''canonicalize'' parent) (fs_canonical env parent d)) (\<lambda>parent.
        let resolved = (case name of Some n \<Rightarrow> path_join parent n | None \<Rightarrow> parent) in
        rbind (fs_check_writable env resolved d) (\<lambda>_. Inr resolved))))"

text \<open>\<open>PathBuf\<close> values are equal when their components are.\<close>

definition path_eq :: "ustring \<Rightarrow> ustring \<Rightarrow> bool" where
  "path_eq a b \<longleftrightarrow> is_absolute a = is_absolute b \<and> components a = components b"

definition is_protected_root :: "'d fs_env \<Rightarrow> ustring \<Rightarrow> 'd \<Rightarrow> bool" where
  "is_protected_root env path d =
     (case fs_canonical env path d of
        Inl _ \<Rightarrow> False
      | Inr canonical \<Rightarrow> list_ex (path_eq canonical) (write_roots env d))"

section \<open>Counting what a removal takes\<close>

definition count_entries :: "'d fs_env \<Rightarrow> ustring \<Rightarrow> 'd \<Rightarrow> aerror + nat" where
  "count_entries env path d =
     rbind (rmap_err (io_error ''read_dir'' path) (fs_read_dir env path d)) (\<lambda>items.
     rmap length (rmapM (rmap_err (io_error ''read_dir'' path)) (take (MAX_REMOVE_ENTRIES + 1) items)))"

definition saturating_add_u64 :: "nat \<Rightarrow> nat \<Rightarrow> nat" where
  "saturating_add_u64 a b = min u64_max (a + b)"

text \<open>The items of one directory; the flag is the early return over the limit.\<close>

fun measure_items :: "'d fs_env \<Rightarrow> 'd \<Rightarrow> ustring \<Rightarrow> (os_error + ustring) list \<Rightarrow> nat \<Rightarrow> nat \<Rightarrow> ustring list \<Rightarrow>
    aerror + bool \<times> nat \<times> nat \<times> ustring list" where
  "measure_items env d dir [] bytes entries stack = Inr (False, bytes, entries, stack)"
| "measure_items env d dir (item # items) bytes entries stack =
     (case item of
        Inl e \<Rightarrow> Inl (io_error ''read_dir'' dir e)
      | Inr name \<Rightarrow>
          if MAX_REMOVE_ENTRIES < entries + 1 then Inr (True, bytes, entries + 1, stack)
          else (case metadata_of env (path_join dir name) False d of
                  Inl e \<Rightarrow> Inl e
                | Inr m \<Rightarrow> measure_items env d dir items (saturating_add_u64 bytes (md_size m)) (entries + 1)
                    (if is_dir m then path_join dir name # stack else stack)))"

lemma measure_items_grows:
  "measure_items env d dir items bytes entries stack = Inr (False, b, n, st) \<Longrightarrow>
    n = entries + length items \<and> length st \<le> length stack + length items \<and> (items \<noteq> [] \<longrightarrow> n \<le> MAX_REMOVE_ENTRIES)"
proof (induction items arbitrary: bytes entries stack)
  case (Cons item items)
  then show ?case by (cases "items = []") (auto split: sum.splits if_splits; fastforce)+
qed simp

text \<open>The stack of directories still to read. It ends on its own: every push is paid for by an entry.\<close>

function measure_loop :: "'d fs_env \<Rightarrow> 'd \<Rightarrow> nat \<Rightarrow> nat \<Rightarrow> ustring list \<Rightarrow> aerror + nat \<times> nat" where
  "measure_loop env d bytes entries [] = Inr (bytes, entries)"
| "measure_loop env d bytes entries (dir # stack) =
     (case fs_read_dir env dir d of
        Inl e \<Rightarrow> Inl (io_error ''read_dir'' dir e)
      | Inr items \<Rightarrow>
          (case measure_items env d dir items bytes entries stack of
             Inl e \<Rightarrow> Inl e
           | Inr (over, b, n, st) \<Rightarrow> if over then Inr (b, n) else measure_loop env d b n st))"
  by pat_completeness auto
termination
  by (relation "measure (\<lambda>(env, d, bytes, entries, stack). 2 * (MAX_REMOVE_ENTRIES - entries) + length stack)")
    (auto dest!: measure_items_grows; fastforce)+

definition measure_tree :: "'d fs_env \<Rightarrow> ustring \<Rightarrow> 'd \<Rightarrow> aerror + nat \<times> nat" where
  "measure_tree env path d =
     rbind (metadata_of env path False d) (\<lambda>m.
     if \<not> is_dir m then Inr (md_size m, 1) else measure_loop env d (md_size m) 1 [path])"

section \<open>Parameters and results\<close>

definition json_mode_from :: "avalue \<Rightarrow> de_error + u32" where
  "json_mode_from v =
     (case v of
        VNumber (Pos_Int n) \<Rightarrow> if n \<le> u32_max then Inr (of_nat n) else Inl Invalid_Type
      | _ \<Rightarrow> Inl Invalid_Type)"

fun mkdir_params_from :: "avalue \<Rightarrow> de_error + ustring" where
  "mkdir_params_from (VObject obj) =
     rbind (field_from string_from (map_of obj (lit ''path''))) (\<lambda>p. ok_or p (Missing_Field (lit ''path'')))"
| "mkdir_params_from (VArray vs) = rbind (elem_from string_from vs 0) (\<lambda>p. at_most 1 vs p)"
| "mkdir_params_from _ = Inl Invalid_Type"

fun rename_params_from :: "avalue \<Rightarrow> de_error + ustring \<times> ustring" where
  "rename_params_from (VObject obj) =
     rbind (field_from string_from (map_of obj (lit ''from''))) (\<lambda>a.
     rbind (field_from string_from (map_of obj (lit ''to''))) (\<lambda>b.
     rbind (ok_or a (Missing_Field (lit ''from''))) (\<lambda>a.
     rbind (ok_or b (Missing_Field (lit ''to''))) (\<lambda>b. Inr (a, b)))))"
| "rename_params_from (VArray vs) =
     rbind (elem_from string_from vs 0) (\<lambda>a. rbind (elem_from string_from vs 1) (\<lambda>b. at_most 2 vs (a, b)))"
| "rename_params_from _ = Inl Invalid_Type"

fun chmod_params_from :: "avalue \<Rightarrow> de_error + ustring \<times> u32" where
  "chmod_params_from (VObject obj) =
     rbind (field_from json_mode_from (map_of obj (lit ''mode''))) (\<lambda>m.
     rbind (field_from string_from (map_of obj (lit ''path''))) (\<lambda>p.
     rbind (ok_or p (Missing_Field (lit ''path''))) (\<lambda>p.
     rbind (ok_or m (Missing_Field (lit ''mode''))) (\<lambda>m. Inr (p, m)))))"
| "chmod_params_from (VArray vs) =
     rbind (elem_from string_from vs 0) (\<lambda>p. rbind (elem_from json_mode_from vs 1) (\<lambda>m. at_most 2 vs (p, m)))"
| "chmod_params_from _ = Inl Invalid_Type"

definition mkdir_value :: "ustring \<Rightarrow> bool \<Rightarrow> u32 \<Rightarrow> avalue" where
  "mkdir_value path created mode =
     VObject [((lit ''created''), VBool created), ((lit ''mode''), json_mode mode), ((lit ''mode_text''), VString (render_mode_text Kind_Dir mode)),
       ((lit ''path''), VString path)]"

definition rename_value :: "ustring \<Rightarrow> ustring \<Rightarrow> metadata \<Rightarrow> bool \<Rightarrow> avalue" where
  "rename_value source goal m no_op =
     (let kind = kind_from_mode (md_mode m); mode = md_mode m AND PERMISSION_BITS in
      VObject [((lit ''from''), VString source), ((lit ''kind''), VString (file_kind_name kind)), ((lit ''mode''), json_mode mode),
        ((lit ''mode_text''), VString (render_mode_text kind mode)), ((lit ''no_op''), VBool no_op), ((lit ''to''), VString goal)])"

definition remove_value :: "ustring \<Rightarrow> bool \<Rightarrow> bool \<Rightarrow> nat \<Rightarrow> avalue" where
  "remove_value path was_dir was_recursive freed =
     VObject [((lit ''freed_bytes''), json_nat freed), ((lit ''path''), VString path), ((lit ''removed''), VBool True), ((lit ''was_dir''), VBool was_dir),
       ((lit ''was_recursive''), VBool was_recursive)]"

definition chmod_value :: "ustring \<Rightarrow> file_kind \<Rightarrow> u32 \<Rightarrow> file_kind \<Rightarrow> u32 \<Rightarrow> bool \<Rightarrow> avalue" where
  "chmod_value path kind actual previous_kind previous_mode verified =
     VObject [((lit ''mode''), json_mode actual), ((lit ''mode_text''), VString (render_mode_text kind actual)), ((lit ''path''), VString path),
       ((lit ''previous_mode''), json_mode previous_mode), ((lit ''previous_mode_text''), VString (render_mode_text previous_kind previous_mode)),
       ((lit ''verified''), VBool verified)]"

section \<open>The four operations\<close>

definition sys_call :: "string \<Rightarrow> ustring \<Rightarrow> ('d \<Rightarrow> (os_error + unit) \<times> 'd) \<Rightarrow> ('d, unit) action" where
  "sys_call name path f = abind (on_device f) (\<lambda>r. alift (rmap_err (io_error name path) r))"

definition read_back :: "'d fs_env \<Rightarrow> ustring \<Rightarrow> 'd \<Rightarrow> aerror + metadata" where
  "read_back env path d = rmap_err (io_error ''stat'' path) (fs_lstat env path d)"

definition mkdir_at :: "'d fs_env \<Rightarrow> ustring \<Rightarrow> ('d, avalue) action" where
  "mkdir_at env target =
     asking (fs_lstat env target) (\<lambda>seen.
     case seen of
       Inr m \<Rightarrow>
         if is_dir m then areturn (mkdir_value target False (md_mode m AND PERMISSION_BITS))
         else athrow (bad_request [21516, 36335, 24452, 19978, 24050, 32463, 26377, 19968, 20010, 19981, 26159, 30446, 24405, 30340, 19996, 35199] ''path_exists_not_dir'' target)
     | Inl _ \<Rightarrow>
         abind (sys_call ''mkdir'' target (fs_create_dir env target)) (\<lambda>_.
         abind (reading (read_back env target)) (\<lambda>m.
         if \<not> is_dir m then athrow (internal_error (lit ''mkdir '' @ [20043, 21518, 35835, 22238, 26469, 19981, 26159, 30446, 24405, 58, 32] @ target))
         else areturn (mkdir_value target True (md_mode m AND PERMISSION_BITS)))))"

definition fs_mkdir :: "'d fs_env \<Rightarrow> avalue \<Rightarrow> ('d, avalue) action" where
  "fs_mkdir env params =
     abind (alift (fs_params env mkdir_params_from params)) (\<lambda>path.
     abind (reading (resolve_for_write env path)) (\<lambda>target. mkdir_at env target))"

definition rename_to :: "'d fs_env \<Rightarrow> ustring \<Rightarrow> metadata \<Rightarrow> ustring \<Rightarrow> ('d, avalue) action" where
  "rename_to env source m goal =
     (if path_eq source goal then areturn (rename_value source goal m True)
      else
        asking (fs_lstat env goal) (\<lambda>seen.
        case seen of
          Inr _ \<Rightarrow> athrow (bad_request [30446, 26631, 20301, 32622, 24050, 32463, 26377, 19996, 35199, 65292, 19981, 20250, 34987, 35206, 30422] ''target_exists'' goal)
        | Inl _ \<Rightarrow>
            abind (reading (fs_check_writable env goal)) (\<lambda>_.
            abind (sys_call ''rename'' source (fs_rename env source goal)) (\<lambda>_.
            abind (reading (read_back env goal)) (\<lambda>moved.
            asking (fs_lstat env source) (\<lambda>old.
            case old of
              Inr _ \<Rightarrow> athrow (internal_error (lit ''rename '' @ [20043, 21518, 26087, 36335, 24452, 20173, 28982, 23384, 22312, 58, 32] @ source))
            | Inl _ \<Rightarrow> areturn (rename_value source goal moved False)))))))"

definition fs_rename_handler :: "'d fs_env \<Rightarrow> avalue \<Rightarrow> ('d, avalue) action" where
  "fs_rename_handler env params =
     abind (alift (fs_params env rename_params_from params)) (\<lambda>(a, b).
     abind (reading (resolve_for_write env a)) (\<lambda>source.
     abind (reading (metadata_of env source False)) (\<lambda>m.
     abind (reading (resolve_for_write env b)) (\<lambda>goal. rename_to env source m goal))))"

definition not_empty :: "ustring \<Rightarrow> nat \<Rightarrow> aerror" where
  "not_empty target amount =
     with_details (agent_error_new Invalid_Request ([30446, 24405, 38750, 31354, 65288, 37324, 38754, 26377, 32] @ show_dec amount @ [32, 39033, 65289, 65292, 38656, 35201, 26174, 24335, 36873, 25321, 36882, 24402, 21024, 38500]))
       (VObject [((lit ''entries''), json_nat amount), ((lit ''path''), VString target), ((lit ''reason''), VString (lit ''directory_not_empty''))])"

definition protected_root :: "ustring \<Rightarrow> aerror" where
  "protected_root target =
     with_details (agent_error_new Permission_Denied ([36825, 26159, 20801, 35768, 30340, 26681, 30446, 24405, 26412, 36523, 65292, 19981, 33021, 21024, 38500, 58, 32] @ target))
       (VObject [((lit ''path''), VString target), ((lit ''reason''), VString (lit ''protected_root''))])"

text \<open>What has to hold before anything is removed; the result is the number of bytes it frees.\<close>

definition may_remove :: "'d fs_env \<Rightarrow> ustring \<Rightarrow> file_kind \<Rightarrow> bool \<Rightarrow> 'd \<Rightarrow> aerror + nat" where
  "may_remove env target kind recursive d =
     (if is_protected_root env target d then Inl (protected_root target)
      else
        rbind (if \<not> recursive \<and> kind = Kind_Dir then
                 rbind (count_entries env target d) (\<lambda>amount. if 0 < amount then Inl (not_empty target amount) else Inr ())
               else Inr ()) (\<lambda>_.
        rbind (measure_tree env target d) (\<lambda>(freed, entries).
        if MAX_REMOVE_ENTRIES < entries then
          Inl (bad_request ([26465, 30446, 36229, 36807, 32] @ show_dec MAX_REMOVE_ENTRIES @ [32, 20010, 65292, 19981, 25954, 36882, 24402, 21024, 38500]) ''too_many_entries'' target)
        else Inr freed)))"

definition remove_call :: "'d fs_env \<Rightarrow> ustring \<Rightarrow> file_kind \<Rightarrow> bool \<Rightarrow> 'd \<Rightarrow> (os_error + unit) \<times> 'd" where
  "remove_call env target kind recursive =
     (if kind = Kind_Dir then (if recursive then fs_remove_dir_all env target else fs_remove_dir env target)
      else fs_remove_file env target)"

definition remove_at :: "'d fs_env \<Rightarrow> ustring \<Rightarrow> bool \<Rightarrow> ('d, avalue) action" where
  "remove_at env target recursive =
     abind (reading (kind_of env target False)) (\<lambda>kind.
     abind (reading (may_remove env target kind recursive)) (\<lambda>freed.
     abind (sys_call ''remove'' target (remove_call env target kind recursive)) (\<lambda>_.
     asking (fs_lstat env target) (\<lambda>after.
     case after of
       Inr _ \<Rightarrow> athrow (internal_error ([21024, 38500, 21518, 20173, 33021, 22312, 35774, 22791, 19978, 30475, 21040, 35813, 36335, 24452, 58, 32] @ target))
     | Inl _ \<Rightarrow> areturn (remove_value target (kind = Kind_Dir) recursive freed)))))"

definition fs_remove :: "'d fs_env \<Rightarrow> avalue \<Rightarrow> ('d, avalue) action" where
  "fs_remove env params =
     abind (alift (fs_params env (path_flag_from ''recursive'') params)) (\<lambda>(path, recursive).
     abind (reading (resolve_for_write env path)) (\<lambda>target. remove_at env target recursive))"

definition after_kind :: "metadata \<Rightarrow> file_kind \<Rightarrow> file_kind" where
  "after_kind m fallback = (if is_dir m then Kind_Dir else fallback)"

definition chmod_at :: "'d fs_env \<Rightarrow> ustring \<Rightarrow> u32 \<Rightarrow> ('d, avalue) action" where
  "chmod_at env target mode =
     abind (reading (metadata_of env target False)) (\<lambda>previous.
     let previous_mode = md_mode previous AND PERMISSION_BITS; previous_kind = kind_from_mode (md_mode previous) in
     if previous_kind = Kind_Symlink then
       athrow (bad_request [31526, 21495, 38142, 25509, 19981, 25903, 25345, 25913, 26435, 38480, 65292, 35831, 23545, 23427, 30340, 30446, 26631, 25805, 20316] ''chmod_on_symlink'' target)
     else
       abind (if previous_mode AND 0x1ff \<noteq> mode then sys_call ''chmod'' target (fs_set_mode env target mode) else areturn ()) (\<lambda>_.
       abind (reading (read_back env target)) (\<lambda>after.
       let actual = md_mode after AND PERMISSION_BITS in
       areturn (chmod_value target (after_kind after previous_kind) actual previous_kind previous_mode (actual AND 0x1ff = mode)))))"

definition fs_chmod :: "'d fs_env \<Rightarrow> avalue \<Rightarrow> ('d, avalue) action" where
  "fs_chmod env params =
     abind (alift (fs_params env chmod_params_from params)) (\<lambda>(path, mode).
     if mode AND NOT 0x1ff \<noteq> 0 then
       athrow (bad_request ([26435, 38480, 20301, 21482, 25903, 25345] @ lit '' 0o000-0o777'' @ [65292, 29305, 27530, 20301, 19981, 22312, 26412, 33021, 21147, 33539, 22260, 20869]) ''mode_bits_not_allowed'' path)
     else abind (reading (resolve_for_write env path)) (\<lambda>target. chmod_at env target mode))"

section \<open>The provider\<close>

definition FILESYSTEM_METHODS :: "ustring list" where
  "FILESYSTEM_METHODS = [(lit ''filesystem.list''), (lit ''filesystem.stat''), (lit ''filesystem.preview''), (lit ''filesystem.mkdir''), (lit ''filesystem.rename''),
     (lit ''filesystem.remove''), (lit ''filesystem.chmod'')]"

definition filesystem_handle :: "'d fs_env \<Rightarrow> ustring \<Rightarrow> avalue \<Rightarrow> ('d, avalue) action" where
  "filesystem_handle env meth params =
     (if meth = (lit ''filesystem.list'') then reading (fs_list env params)
      else if meth = (lit ''filesystem.stat'') then reading (fs_stat_handler env params)
      else if meth = (lit ''filesystem.preview'') then reading (fs_preview env params)
      else if meth = (lit ''filesystem.mkdir'') then fs_mkdir env params
      else if meth = (lit ''filesystem.rename'') then fs_rename_handler env params
      else if meth = (lit ''filesystem.remove'') then fs_remove env params
      else if meth = (lit ''filesystem.chmod'') then fs_chmod env params
      else athrow (agent_error_new Unsupported_Method (lit ''unsupported filesystem method: '' @ meth)))"

section \<open>Every request returns\<close>

lemma sys_call_ends [ending]: "ends (sys_call name path f)"
  unfolding sys_call_def by (intro ending)

lemma filesystem_returns: "filesystem_handle env meth params s \<noteq> None"
proof -
  have "ends (filesystem_handle env meth params)"
    unfolding filesystem_handle_def fs_mkdir_def mkdir_at_def fs_rename_handler_def rename_to_def fs_remove_def remove_at_def
      fs_chmod_def chmod_at_def Let_def by (intro ending)
  then show ?thesis by (simp add: ends_def)
qed

section \<open>What is changed\<close>

text \<open>The system calls that change something, with the paths they name.\<close>

datatype fs_call = Create_Dir ustring | Rename ustring ustring | Remove_File ustring | Remove_Dir ustring | Remove_Tree ustring
  | Set_Mode ustring u32

fun call_paths :: "fs_call \<Rightarrow> ustring list" where
  "call_paths (Create_Dir p) = [p]"
| "call_paths (Rename p q) = [p, q]"
| "call_paths (Remove_File p) = [p]"
| "call_paths (Remove_Dir p) = [p]"
| "call_paths (Remove_Tree p) = [p]"
| "call_paths (Set_Mode p m) = [p]"

definition noting :: "fs_call \<Rightarrow> ('d \<Rightarrow> 'r \<times> 'd) \<Rightarrow> 'd \<times> fs_call list \<Rightarrow> 'r \<times> 'd \<times> fs_call list" where
  "noting c f x = (case f (fst x) of (r, d) \<Rightarrow> (r, d, snd x @ [c]))"

definition fs_logged :: "'d fs_env \<Rightarrow> ('d \<times> fs_call list) fs_env" where
  "fs_logged env = \<lparr>
     fs_lstat = (\<lambda>p x. fs_lstat env p (fst x)), fs_stat = (\<lambda>p x. fs_stat env p (fst x)), fs_canonical = (\<lambda>p x. fs_canonical env p (fst x)),
     fs_read_dir = (\<lambda>p x. fs_read_dir env p (fst x)), fs_read_link = (\<lambda>p x. fs_read_link env p (fst x)),
     fs_access = (\<lambda>p b x. fs_access env p b (fst x)), fs_open = (\<lambda>p x. fs_open env p (fst x)), fs_seek = (\<lambda>p n x. fs_seek env p n (fst x)),
     fs_read = (\<lambda>p n m x. fs_read env p n m (fst x)), fs_create_dir = (\<lambda>p. noting (Create_Dir p) (fs_create_dir env p)),
     fs_rename = (\<lambda>p q. noting (Rename p q) (fs_rename env p q)), fs_remove_file = (\<lambda>p. noting (Remove_File p) (fs_remove_file env p)),
     fs_remove_dir = (\<lambda>p. noting (Remove_Dir p) (fs_remove_dir env p)),
     fs_remove_dir_all = (\<lambda>p. noting (Remove_Tree p) (fs_remove_dir_all env p)),
     fs_set_mode = (\<lambda>p m. noting (Set_Mode p m) (fs_set_mode env p m)),
     fs_roots_var = fs_roots_var env, fs_write_roots_var = fs_write_roots_var env, fs_de_text = fs_de_text env\<rparr>"

text \<open>The places writes may go to, in a state of the device.\<close>

definition accepted_roots :: "'d fs_env \<Rightarrow> 'd \<Rightarrow> ustring set" where
  "accepted_roots env d = set (configured_roots env) \<union> set (write_roots env d)"

definition inside :: "'d fs_env \<Rightarrow> 'd \<Rightarrow> ustring \<Rightarrow> bool" where
  "inside env d path \<longleftrightarrow> (\<exists>root \<in> accepted_roots env d. path_starts_with path root)"

lemma check_writable_inside: "fs_check_writable env path d = Inr () \<longleftrightarrow> inside env d path"
  by (auto simp: fs_check_writable_def inside_def accepted_roots_def list_ex_iff)

lemma resolve_inside: "resolve_for_write env raw d = Inr target \<Longrightarrow> inside env d target"
  by (auto simp: resolve_for_write_def Let_def result_inv check_writable_inside split: if_splits prod.splits)

text \<open>The log changes nothing of what is read.\<close>

lemma logged_reads [simp]:
  "fs_lstat (fs_logged env) p x = fs_lstat env p (fst x)" "fs_canonical (fs_logged env) p x = fs_canonical env p (fst x)"
  "fs_read_dir (fs_logged env) p x = fs_read_dir env p (fst x)" "fs_stat (fs_logged env) p x = fs_stat env p (fst x)"
  "fs_write_roots_var (fs_logged env) = fs_write_roots_var env" "fs_de_text (fs_logged env) = fs_de_text env"
  "fs_create_dir (fs_logged env) p = noting (Create_Dir p) (fs_create_dir env p)"
  "fs_rename (fs_logged env) p q = noting (Rename p q) (fs_rename env p q)"
  "fs_remove_file (fs_logged env) p = noting (Remove_File p) (fs_remove_file env p)"
  "fs_remove_dir (fs_logged env) p = noting (Remove_Dir p) (fs_remove_dir env p)"
  "fs_remove_dir_all (fs_logged env) p = noting (Remove_Tree p) (fs_remove_dir_all env p)"
  "fs_set_mode (fs_logged env) p m = noting (Set_Mode p m) (fs_set_mode env p m)"
  by (simp_all add: fs_logged_def)

lemma logged_roots [simp]: "configured_roots (fs_logged env) = configured_roots env" "write_roots (fs_logged env) x = write_roots env (fst x)"
  by (simp_all add: configured_roots_def write_roots_def)

lemma logged_checks [simp]:
  "fs_check_writable (fs_logged env) p x = fs_check_writable env p (fst x)"
  "resolve_for_write (fs_logged env) p x = resolve_for_write env p (fst x)"
  "metadata_of (fs_logged env) p b x = metadata_of env p b (fst x)"
  "kind_of (fs_logged env) p b x = kind_of env p b (fst x)"
  "is_protected_root (fs_logged env) p x = is_protected_root env p (fst x)"
  "read_back (fs_logged env) p x = read_back env p (fst x)"
  "fs_params (fs_logged env) f v = fs_params env f v"
  by (simp_all add: fs_check_writable_def resolve_for_write_def metadata_of_def kind_of_def is_protected_root_def read_back_def fs_params_def
      Let_def cong: option.case_cong sum.case_cong if_cong)

lemma logged_items [simp]:
  "measure_items (fs_logged env) x dir items b n st = measure_items env (fst x) dir items b n st"
  by (induction items arbitrary: b n st) (auto split: sum.split)

lemma logged_measure [simp]: "measure_loop (fs_logged env) x b n st = measure_loop env (fst x) b n st"
  by (induction env "fst x" b n st rule: measure_loop.induct) (auto split: sum.split)

lemma logged_may_remove [simp]: "may_remove (fs_logged env) p k b x = may_remove env p k b (fst x)"
  by (simp add: may_remove_def count_entries_def measure_tree_def del: measure_loop.simps cong: if_cong)

text \<open>
  What one operation may have done: nothing, or one call that was allowed in the state it was made in.
\<close>

definition allowed_call :: "'d fs_env \<Rightarrow> 'd \<Rightarrow> fs_call \<Rightarrow> bool" where
  "allowed_call env d c \<longleftrightarrow> (\<forall>p \<in> set (call_paths c). inside env d p) \<and>
     (case c of
        Create_Dir p \<Rightarrow> \<exists>e. fs_lstat env p d = Inl e
      | Rename p q \<Rightarrow> (\<exists>e. fs_lstat env q d = Inl e) \<and> \<not> path_eq p q
      | Remove_File p \<Rightarrow> \<not> is_protected_root env p d \<and> (\<exists>k. kind_of env p False d = Inr k \<and> k \<noteq> Kind_Dir)
      | Remove_Dir p \<Rightarrow> \<not> is_protected_root env p d \<and> count_entries env p d = Inr 0
      | Remove_Tree p \<Rightarrow> \<not> is_protected_root env p d \<and> (\<exists>b n. measure_tree env p d = Inr (b, n) \<and> n \<le> MAX_REMOVE_ENTRIES)
      | Set_Mode p m \<Rightarrow> m AND NOT 0x1ff = 0 \<and> (\<exists>k. kind_of env p False d = Inr k \<and> k \<noteq> Kind_Symlink))"

definition one_allowed :: "'d fs_env \<Rightarrow> ('d \<times> fs_call list) agent_state \<Rightarrow> ('d \<times> fs_call list) agent_state \<Rightarrow> bool" where
  "one_allowed env s s' \<longleftrightarrow> snd (device s') = snd (device s) \<or>
     (\<exists>c. snd (device s') = snd (device s) @ [c] \<and> allowed_call env (fst (device s)) c)"

lemma one_allowed_refl [simp]: "one_allowed env s s"
  by (simp add: one_allowed_def)

lemma abind_areturn: "abind (areturn x) f s = f x s"
  by (simp add: abind_def areturn_def)

lemma noting_device:
  "on_device (noting c f) s = Some (r, s') \<Longrightarrow> snd (device s') = snd (device s) @ [c]"
  by (auto simp: on_device_def noting_def split: prod.splits)

lemma sys_call_notes:
  "sys_call name path (noting c f) s = Some (r, s') \<Longrightarrow> snd (device s') = snd (device s) @ [c]"
  by (auto simp: sys_call_def abind_def on_device_def alift_def noting_def split: prod.splits sum.splits)

lemma sys_call_then:
  assumes "abind (sys_call name path (noting c f)) g s = Some (r, s')" "allowed_call env (fst (device s)) c"
    and "\<And>t r s'. g () t = Some (r, s') \<Longrightarrow> snd (device s') = snd (device t)"
  shows "one_allowed env s s'"
proof -
  from assms(1) obtain r1 s1 where c: "sys_call name path (noting c f) s = Some (r1, s1)" by (auto simp: abind_def split: option.splits)
  then have log: "snd (device s1) = snd (device s) @ [c]" by (rule sys_call_notes)
  have "snd (device s') = snd (device s1)"
  proof (cases r1)
    case (Inl e)
    with assms(1) c show ?thesis by (simp add: abind_def)
  next
    case (Inr u)
    with assms(1) c have "g () s1 = Some (r, s')" by (simp add: abind_def)
    then show ?thesis by (rule assms(3))
  qed
  with log assms(2) show ?thesis by (simp add: one_allowed_def)
qed

lemma mkdir_allowed:
  assumes "inside env (fst (device s)) target" "mkdir_at (fs_logged env) target s = Some (r, s')"
  shows "one_allowed env s s'"
proof (cases "fs_lstat env target (fst (device s))")
  case (Inr m)
  with assms(2) show ?thesis by (auto simp: mkdir_at_def asking_def areturn_def athrow_def split: if_splits)
next
  case (Inl e)
  with assms(2) have "abind (sys_call ''mkdir'' target (noting (Create_Dir target) (fs_create_dir env target)))
      (\<lambda>_. abind (reading (read_back (fs_logged env) target)) (\<lambda>m.
         if \<not> is_dir m then athrow (internal_error (lit ''mkdir '' @ [20043, 21518, 35835, 22238, 26469, 19981, 26159, 30446, 24405, 58, 32] @ target))
         else areturn (mkdir_value target True (md_mode m AND PERMISSION_BITS)))) s = Some (r, s')"
    by (simp add: mkdir_at_def asking_def)
  then show ?thesis
    by (rule sys_call_then) (use Inl assms(1) in \<open>auto simp: allowed_call_def abind_def reading_def athrow_def areturn_def split: sum.splits if_splits\<close>)
qed

lemma rename_allowed:
  assumes "inside env (fst (device s)) source" "rename_to (fs_logged env) source m goal s = Some (r, s')"
  shows "one_allowed env s s'"
proof (cases "path_eq source goal \<or> (\<exists>x. fs_lstat env goal (fst (device s)) = Inr x) \<or> (\<exists>x. fs_check_writable env goal (fst (device s)) = Inl x)")
  case True
  with assms(2) show ?thesis
    by (auto simp: rename_to_def asking_def areturn_def athrow_def abind_def reading_def split: if_splits sum.splits)
next
  case False
  then obtain e where e: "\<not> path_eq source goal" "fs_lstat env goal (fst (device s)) = Inl e" "fs_check_writable env goal (fst (device s)) = Inr ()"
    by (metis old.unit.exhaust sum.exhaust)
  with assms(2) have "abind (sys_call ''rename'' source (noting (Rename source goal) (fs_rename env source goal)))
      (\<lambda>_. abind (reading (read_back (fs_logged env) goal)) (\<lambda>moved.
         asking (fs_lstat (fs_logged env) source) (\<lambda>old. case old of
            Inr _ \<Rightarrow> athrow (internal_error (lit ''rename '' @ [20043, 21518, 26087, 36335, 24452, 20173, 28982, 23384, 22312, 58, 32] @ source))
          | Inl _ \<Rightarrow> areturn (rename_value source goal moved False)))) s = Some (r, s')"
    by (simp add: rename_to_def asking_def abind_reading del: lit_Cons append.simps)
  then show ?thesis
    by (rule sys_call_then)
      (use e assms(1) in \<open>auto simp: allowed_call_def check_writable_inside abind_def reading_def asking_def athrow_def areturn_def split: sum.splits if_splits\<close>)
qed

lemma remove_allowed:
  assumes "inside env (fst (device s)) target" "remove_at (fs_logged env) target recursive s = Some (r, s')"
  shows "one_allowed env s s'"
proof (cases "\<exists>kind freed. kind_of env target False (fst (device s)) = Inr kind \<and> may_remove env target kind recursive (fst (device s)) = Inr freed")
  case True
  then obtain kind freed where k: "kind_of env target False (fst (device s)) = Inr kind"
    and f: "may_remove env target kind recursive (fst (device s)) = Inr freed" by blast
  define c where "c = (if kind = Kind_Dir then (if recursive then Remove_Tree target else Remove_Dir target) else Remove_File target)"
  have "\<exists>f'. remove_call (fs_logged env) target kind recursive = noting c f'"
    by (cases "kind = Kind_Dir"; cases recursive) (simp_all add: remove_call_def c_def, blast+)
  then obtain f' where call: "remove_call (fs_logged env) target kind recursive = noting c f'" by blast
  from assms(2) k f have "abind (sys_call ''remove'' target (noting c f')) (\<lambda>_.
      asking (fs_lstat (fs_logged env) target) (\<lambda>after. case after of
         Inr _ \<Rightarrow> athrow (internal_error ([21024, 38500, 21518, 20173, 33021, 22312, 35774, 22791, 19978, 30475, 21040, 35813, 36335, 24452, 58, 32] @ target))
       | Inl _ \<Rightarrow> areturn (remove_value target (kind = Kind_Dir) recursive freed))) s = Some (r, s')"
    by (simp add: remove_at_def abind_reading call del: lit_Cons append.simps)
  then show ?thesis
    by (rule sys_call_then)
      (use k f assms(1) in \<open>auto simp: c_def allowed_call_def may_remove_def result_inv asking_def athrow_def areturn_def split: sum.splits if_splits\<close>)
next
  case False
  with assms(2) show ?thesis by (auto simp: remove_at_def abind_reading split: sum.splits)
qed

lemma chmod_allowed:
  assumes "inside env (fst (device s)) target" "mode AND NOT 0x1ff = 0" "chmod_at (fs_logged env) target mode s = Some (r, s')"
  shows "one_allowed env s s'"
proof (cases "metadata_of env target False (fst (device s))")
  case (Inl e)
  with assms(3) show ?thesis by (auto simp: chmod_at_def abind_reading)
next
  case (Inr m)
  let ?kind = "kind_from_mode (md_mode m)" and ?before = "md_mode m AND PERMISSION_BITS"
  let ?rest = "\<lambda>_ :: unit. abind (reading (read_back (fs_logged env) target)) (\<lambda>after. let actual = md_mode after AND PERMISSION_BITS in
      areturn (chmod_value target (after_kind after ?kind) actual ?kind ?before (actual AND 0x1ff = mode)))"
  have quiet: "snd (device s') = snd (device t)" if "?rest () t = Some (r, s')" for t r s'
    using that by (auto simp: abind_reading areturn_def Let_def split: sum.splits)
  consider "?kind = Kind_Symlink" | "?kind \<noteq> Kind_Symlink" "?before AND 0x1ff = mode" | "?kind \<noteq> Kind_Symlink" "?before AND 0x1ff \<noteq> mode" by blast
  then show ?thesis
  proof cases
    case 1
    with assms(3) Inr show ?thesis by (auto simp: chmod_at_def abind_reading athrow_def Let_def)
  next
    case 2
    with assms(3) Inr have "?rest () s = Some (r, s')" by (simp add: chmod_at_def abind_reading Let_def abind_areturn)
    from quiet [OF this] show ?thesis by (simp add: one_allowed_def)
  next
    case 3
    with assms(3) Inr have "abind (sys_call ''chmod'' target (noting (Set_Mode target mode) (fs_set_mode env target mode))) ?rest s = Some (r, s')"
      by (simp add: chmod_at_def abind_reading Let_def)
    then show ?thesis
      by (rule sys_call_then) (use 3 Inr assms(1,2) quiet in \<open>auto simp: allowed_call_def kind_of_def\<close>)
  qed
qed

lemma reading_same: "reading f s = Some (r, s') \<Longrightarrow> s' = s"
  by (simp add: reading_def)

lemma filesystem_allowed:
  assumes "filesystem_handle (fs_logged env) meth params s = Some (r, s')"
  shows "one_allowed env s s'"
proof -
  have go: "one_allowed env s s'" if "abind (alift x) f s = Some (r, s')" "\<And>p. x = Inr p \<Longrightarrow> f p s = Some (r, s') \<Longrightarrow> one_allowed env s s'"
    for x :: "aerror + 'b" and f
    using that by (cases x) (auto simp: athrow_def)
  have at: "one_allowed env s s'" if "abind (reading (resolve_for_write (fs_logged env) p)) f s = Some (r, s')"
    "\<And>target. inside env (fst (device s)) target \<Longrightarrow> f target s = Some (r, s') \<Longrightarrow> one_allowed env s s'" for p f
    using that by (cases "resolve_for_write env p (fst (device s))") (auto simp: abind_reading dest: resolve_inside)
  have mk: "fs_mkdir (fs_logged env) params s = Some (r, s') \<Longrightarrow> one_allowed env s s'"
    unfolding fs_mkdir_def by (erule go, erule at, erule (1) mkdir_allowed)
  have rm: "fs_remove (fs_logged env) params s = Some (r, s') \<Longrightarrow> one_allowed env s s'"
    unfolding fs_remove_def case_prod_unfold by (erule go, erule at, erule (1) remove_allowed)
  have rn: "fs_rename_handler (fs_logged env) params s = Some (r, s') \<Longrightarrow> one_allowed env s s'"
    unfolding fs_rename_handler_def case_prod_unfold
    by (erule go, erule at) (auto simp: abind_reading split: sum.splits intro: rename_allowed)
  have ch: "fs_chmod (fs_logged env) params s = Some (r, s') \<Longrightarrow> one_allowed env s s'"
    unfolding fs_chmod_def case_prod_unfold
  proof (erule go)
    fix p assume "(if snd p AND NOT 0x1ff \<noteq> 0 then athrow (bad_request ([26435, 38480, 20301, 21482, 25903, 25345] @ lit '' 0o000-0o777'' @ [65292, 29305, 27530, 20301, 19981, 22312, 26412, 33021, 21147, 33539, 22260, 20869]) ''mode_bits_not_allowed'' (fst p))
      else abind (reading (resolve_for_write (fs_logged env) (fst p))) (\<lambda>target. chmod_at (fs_logged env) target (snd p))) s = Some (r, s')"
    then show "one_allowed env s s'"
      by (cases "snd p AND NOT 0x1ff = 0") (auto simp: athrow_def simp del: lit_Cons elim!: at intro: chmod_allowed)
  qed
  from assms show ?thesis
    unfolding filesystem_handle_def using mk rm rn ch
    by (auto simp: athrow_def dest!: reading_same simp del: lit_Cons split: if_splits)
qed


section \<open>A success is read back from the device\<close>

lemma sys_call_states:
  assumes "abind (sys_call name path f) g s = Some (Inr v, s')"
  obtains s1 where "g () s1 = Some (Inr v, s')"
  using assms that by (auto simp: abind_def split: option.splits prod.splits sum.splits)

lemma mkdir_read_back:
  assumes "mkdir_at env target s = Some (Inr v, s')"
  shows "\<exists>m. fs_lstat env target (device s') = Inr m \<and> is_dir m \<and>
    v = mkdir_value target (\<exists>e. fs_lstat env target (device s) = Inl e) (md_mode m AND PERMISSION_BITS)"
proof (cases "fs_lstat env target (device s)")
  case (Inr m)
  with assms show ?thesis by (auto simp: mkdir_at_def asking_def areturn_def athrow_def split: if_splits)
next
  case (Inl e)
  with assms have "abind (sys_call ''mkdir'' target (fs_create_dir env target))
      (\<lambda>_. abind (reading (read_back env target)) (\<lambda>m.
         if \<not> is_dir m then athrow (internal_error (lit ''mkdir '' @ [20043, 21518, 35835, 22238, 26469, 19981, 26159, 30446, 24405, 58, 32] @ target))
         else areturn (mkdir_value target True (md_mode m AND PERMISSION_BITS)))) s = Some (Inr v, s')"
    by (simp add: mkdir_at_def asking_def del: lit_Cons append.simps)
  then obtain s1 where "abind (reading (read_back env target)) (\<lambda>m.
         if \<not> is_dir m then athrow (internal_error (lit ''mkdir '' @ [20043, 21518, 35835, 22238, 26469, 19981, 26159, 30446, 24405, 58, 32] @ target))
         else areturn (mkdir_value target True (md_mode m AND PERMISSION_BITS))) s1 = Some (Inr v, s')"
    by (rule sys_call_states)
  with Inl show ?thesis
    by (auto simp: abind_reading read_back_def result_inv areturn_def athrow_def simp del: lit_Cons split: sum.splits if_splits)
qed

lemma rename_read_back:
  assumes "rename_to env source m goal s = Some (Inr v, s')"
  shows "path_eq source goal \<and> s' = s \<and> v = rename_value source goal m True \<or>
    (\<exists>moved e. fs_lstat env goal (device s') = Inr moved \<and> fs_lstat env source (device s') = Inl e \<and> v = rename_value source goal moved False)"
proof (cases "path_eq source goal")
  case True
  with assms show ?thesis by (simp add: rename_to_def areturn_def)
next
  case False
  with assms obtain e where "fs_lstat env goal (device s) = Inl e"
    by (auto simp: rename_to_def asking_def athrow_def split: sum.splits)
  with False assms have "abind (reading (fs_check_writable env goal)) (\<lambda>_.
      abind (sys_call ''rename'' source (fs_rename env source goal)) (\<lambda>_. abind (reading (read_back env goal)) (\<lambda>moved.
         asking (fs_lstat env source) (\<lambda>old. case old of
            Inr _ \<Rightarrow> athrow (internal_error (lit ''rename '' @ [20043, 21518, 26087, 36335, 24452, 20173, 28982, 23384, 22312, 58, 32] @ source))
          | Inl _ \<Rightarrow> areturn (rename_value source goal moved False))))) s = Some (Inr v, s')"
    by (simp add: rename_to_def asking_def del: lit_Cons append.simps)
  then have "abind (sys_call ''rename'' source (fs_rename env source goal)) (\<lambda>_. abind (reading (read_back env goal)) (\<lambda>moved.
         asking (fs_lstat env source) (\<lambda>old. case old of
            Inr _ \<Rightarrow> athrow (internal_error (lit ''rename '' @ [20043, 21518, 26087, 36335, 24452, 20173, 28982, 23384, 22312, 58, 32] @ source))
          | Inl _ \<Rightarrow> areturn (rename_value source goal moved False)))) s = Some (Inr v, s')"
    by (subst (asm) abind_reading) (auto simp del: lit_Cons append.simps split: sum.splits)
  then obtain s1 where "abind (reading (read_back env goal)) (\<lambda>moved.
         asking (fs_lstat env source) (\<lambda>old. case old of
            Inr _ \<Rightarrow> athrow (internal_error (lit ''rename '' @ [20043, 21518, 26087, 36335, 24452, 20173, 28982, 23384, 22312, 58, 32] @ source))
          | Inl _ \<Rightarrow> areturn (rename_value source goal moved False))) s1 = Some (Inr v, s')"
    by (rule sys_call_states)
  then show ?thesis
    by (auto simp: abind_reading asking_def read_back_def result_inv areturn_def athrow_def simp del: lit_Cons split: sum.splits if_splits)
qed

lemma remove_read_back:
  assumes "remove_at env target recursive s = Some (Inr v, s')"
  shows "\<exists>kind freed e. kind_of env target False (device s) = Inr kind \<and> may_remove env target kind recursive (device s) = Inr freed \<and>
    fs_lstat env target (device s') = Inl e \<and> v = remove_value target (kind = Kind_Dir) recursive freed"
proof -
  from assms obtain kind freed where k: "kind_of env target False (device s) = Inr kind" "may_remove env target kind recursive (device s) = Inr freed"
    by (auto simp: remove_at_def abind_reading split: sum.splits)
  with assms have "abind (sys_call ''remove'' target (remove_call env target kind recursive)) (\<lambda>_.
      asking (fs_lstat env target) (\<lambda>after. case after of
         Inr _ \<Rightarrow> athrow (internal_error ([21024, 38500, 21518, 20173, 33021, 22312, 35774, 22791, 19978, 30475, 21040, 35813, 36335, 24452, 58, 32] @ target))
       | Inl _ \<Rightarrow> areturn (remove_value target (kind = Kind_Dir) recursive freed))) s = Some (Inr v, s')"
    by (simp add: remove_at_def abind_reading del: lit_Cons append.simps)
  then obtain s1 where "asking (fs_lstat env target) (\<lambda>after. case after of
         Inr _ \<Rightarrow> athrow (internal_error ([21024, 38500, 21518, 20173, 33021, 22312, 35774, 22791, 19978, 30475, 21040, 35813, 36335, 24452, 58, 32] @ target))
       | Inl _ \<Rightarrow> areturn (remove_value target (kind = Kind_Dir) recursive freed)) s1 = Some (Inr v, s')"
    by (rule sys_call_states)
  with k show ?thesis by (auto simp: asking_def areturn_def athrow_def simp del: lit_Cons split: sum.splits)
qed

lemma chmod_read_back:
  assumes "chmod_at env target mode s = Some (Inr v, s')"
  shows "\<exists>before m. metadata_of env target False (device s) = Inr before \<and> kind_from_mode (md_mode before) \<noteq> Kind_Symlink \<and>
    fs_lstat env target (device s') = Inr m \<and>
    v = chmod_value target (after_kind m (kind_from_mode (md_mode before))) (md_mode m AND PERMISSION_BITS)
          (kind_from_mode (md_mode before)) (md_mode before AND PERMISSION_BITS) ((md_mode m AND PERMISSION_BITS) AND 0x1ff = mode)"
proof -
  from assms obtain before where b: "metadata_of env target False (device s) = Inr before" "kind_from_mode (md_mode before) \<noteq> Kind_Symlink"
    by (auto simp: chmod_at_def abind_reading athrow_def Let_def split: sum.splits if_splits)
  let ?rest = "\<lambda>_ :: unit. abind (reading (read_back env target)) (\<lambda>after. let actual = md_mode after AND PERMISSION_BITS in
      areturn (chmod_value target (after_kind after (kind_from_mode (md_mode before))) actual (kind_from_mode (md_mode before))
        (md_mode before AND PERMISSION_BITS) (actual AND 0x1ff = mode)))"
  have "\<exists>s1. ?rest () s1 = Some (Inr v, s')"
  proof (cases "(md_mode before AND PERMISSION_BITS) AND 0x1ff = mode")
    case True
    with assms b show ?thesis by (auto simp: chmod_at_def abind_reading abind_areturn Let_def)
  next
    case False
    with assms b have "abind (sys_call ''chmod'' target (fs_set_mode env target mode)) ?rest s = Some (Inr v, s')"
      by (simp add: chmod_at_def abind_reading Let_def)
    then show ?thesis by (rule sys_call_states) blast
  qed
  then obtain s1 where "?rest () s1 = Some (Inr v, s')" ..
  with b show ?thesis
    by (cases "fs_lstat env target (device s1)") (auto simp: abind_reading read_back_def areturn_def Let_def)
qed

text \<open>What the value of a method says is what the device shows afterwards.\<close>

definition true_of :: "'d fs_env \<Rightarrow> 'd \<Rightarrow> ustring \<Rightarrow> avalue \<Rightarrow> bool" where
  "true_of env d meth v \<longleftrightarrow>
     (if meth = (lit ''filesystem.mkdir'') then
        \<exists>target created m. v = mkdir_value target created (md_mode m AND PERMISSION_BITS) \<and> fs_lstat env target d = Inr m \<and> is_dir m
      else if meth = (lit ''filesystem.rename'') then
        \<exists>source goal m. v = rename_value source goal m True \<and> path_eq source goal \<or>
          v = rename_value source goal m False \<and> fs_lstat env goal d = Inr m \<and> (\<exists>e. fs_lstat env source d = Inl e)
      else if meth = (lit ''filesystem.remove'') then
        \<exists>target was_dir recursive freed e. v = remove_value target was_dir recursive freed \<and> fs_lstat env target d = Inl e
      else if meth = (lit ''filesystem.chmod'') then
        \<exists>target kind m old_kind old mode. v = chmod_value target kind (md_mode m AND PERMISSION_BITS) old_kind old
            ((md_mode m AND PERMISSION_BITS) AND 0x1ff = mode) \<and> fs_lstat env target d = Inr m
      else True)"

lemma filesystem_read_back:
  assumes "filesystem_handle env meth params s = Some (Inr v, s')"
  shows "true_of env (device s') meth v"
proof -
  have mk: "\<exists>target. mkdir_at env target s = Some (Inr v, s')" if "fs_mkdir env params s = Some (Inr v, s')"
    using that by (cases "fs_params env mkdir_params_from params") (auto simp: fs_mkdir_def abind_reading athrow_def split: sum.splits)
  have rn: "\<exists>source m goal. rename_to env source m goal s = Some (Inr v, s')" if "fs_rename_handler env params s = Some (Inr v, s')"
    using that by (cases "fs_params env rename_params_from params")
      (auto simp: fs_rename_handler_def abind_reading athrow_def split: sum.splits prod.splits)
  have rm: "\<exists>target recursive. remove_at env target recursive s = Some (Inr v, s')" if "fs_remove env params s = Some (Inr v, s')"
    using that by (cases "fs_params env (path_flag_from ''recursive'') params")
      (auto simp: fs_remove_def abind_reading athrow_def split: sum.splits prod.splits)
  have ch: "\<exists>target mode. chmod_at env target mode s = Some (Inr v, s')" if "fs_chmod env params s = Some (Inr v, s')"
    using that by (cases "fs_params env chmod_params_from params")
      (auto simp: fs_chmod_def abind_reading athrow_def simp del: lit_Cons split: sum.splits prod.splits if_splits)
  consider "meth = (lit ''filesystem.mkdir'')" | "meth = (lit ''filesystem.rename'')" | "meth = (lit ''filesystem.remove'')" | "meth = (lit ''filesystem.chmod'')"
    | "meth \<notin> {(lit ''filesystem.mkdir''), (lit ''filesystem.rename''), (lit ''filesystem.remove''), (lit ''filesystem.chmod'')}" by blast
  then show ?thesis
  proof cases
    case 1
    with assms have "fs_mkdir env params s = Some (Inr v, s')" by (simp add: filesystem_handle_def)
    from mk [OF this] mkdir_read_back show ?thesis unfolding true_of_def 1 by (auto simp del: lit_Cons) blast
  next
    case 2
    with assms have "fs_rename_handler env params s = Some (Inr v, s')" by (simp add: filesystem_handle_def)
    from rn [OF this] rename_read_back have "\<exists>source goal m. v = rename_value source goal m True \<and> path_eq source goal \<or>
        v = rename_value source goal m False \<and> fs_lstat env goal (device s') = Inr m \<and> (\<exists>e. fs_lstat env source (device s') = Inl e)" by blast
    then show ?thesis by (simp add: true_of_def 2)
  next
    case 3
    with assms have "fs_remove env params s = Some (Inr v, s')" by (simp add: filesystem_handle_def)
    from rm [OF this] remove_read_back have "\<exists>target was_dir recursive freed e. v = remove_value target was_dir recursive freed \<and>
        fs_lstat env target (device s') = Inl e" by blast
    then show ?thesis by (simp add: true_of_def 3)
  next
    case 4
    with assms have "fs_chmod env params s = Some (Inr v, s')" by (simp add: filesystem_handle_def)
    from ch [OF this] chmod_read_back have "\<exists>target kind m old_kind old mode. v = chmod_value target kind (md_mode m AND PERMISSION_BITS) old_kind old
        ((md_mode m AND PERMISSION_BITS) AND 0x1ff = mode) \<and> fs_lstat env target (device s') = Inr m" by blast
    then show ?thesis by (simp add: true_of_def 4)
  qed (simp add: true_of_def del: lit_Cons)
qed

lemma filesystem_confined:
  assumes "filesystem_handle (fs_logged env) meth params s = Some (r, s')"
  shows "\<exists>w. snd (device s') = snd (device s) @ w \<and> length w \<le> 1 \<and> (\<forall>c \<in> set w. allowed_call env (fst (device s)) c)"
  using filesystem_allowed [OF assms] unfolding one_allowed_def by fastforce

section \<open>What a removal counts\<close>

text \<open>
  The bytes and the entries of a tree, by recursion over the directories: the reference the stack of
  \<open>measure_tree\<close> is compared with.
\<close>

inductive sized :: "'d fs_env \<Rightarrow> 'd \<Rightarrow> ustring \<Rightarrow> nat \<Rightarrow> nat \<Rightarrow> bool"
  and all_sized :: "'d fs_env \<Rightarrow> 'd \<Rightarrow> ustring \<Rightarrow> (os_error + ustring) list \<Rightarrow> nat \<Rightarrow> nat \<Rightarrow> bool"
  for env d where
  a_file: "fs_lstat env p d = Inr m \<Longrightarrow> \<not> is_dir m \<Longrightarrow> md_size m \<le> u64_max \<Longrightarrow> sized env d p (md_size m) 1"
| a_dir: "fs_lstat env p d = Inr m \<Longrightarrow> is_dir m \<Longrightarrow> md_size m \<le> u64_max \<Longrightarrow> fs_read_dir env p d = Inr items \<Longrightarrow>
    all_sized env d p items b n \<Longrightarrow> sized env d p (md_size m + b) (1 + n)"
| no_items: "all_sized env d p [] 0 0"
| an_item: "sized env d (path_join p name) b n \<Longrightarrow> all_sized env d p items b' n' \<Longrightarrow>
    all_sized env d p (Inr name # items) (b + b') (n + n')"

inductive_cases sized_cases: "sized env d p b n"
inductive_cases items_cases: "all_sized env d p (item # items) b n"
inductive_simps no_items_iff [simp]: "all_sized env d p [] b n"

text \<open>Directories that wait on the stack, with what lies below them.\<close>

fun waiting :: "'d fs_env \<Rightarrow> 'd \<Rightarrow> ustring list \<Rightarrow> nat \<Rightarrow> nat \<Rightarrow> bool" where
  "waiting env d [] b n \<longleftrightarrow> b = 0 \<and> n = 0"
| "waiting env d (p # stack) b n \<longleftrightarrow>
     (\<exists>items b1 n1 b2 n2. fs_read_dir env p d = Inr items \<and> all_sized env d p items b1 n1 \<and> waiting env d stack b2 n2 \<and>
        b = b1 + b2 \<and> n = n1 + n2)"

lemma saturating_twice [simp]: "saturating_add_u64 (saturating_add_u64 a b) c = saturating_add_u64 a (b + c)"
  by (simp add: saturating_add_u64_def)

lemma saturating_0: "a \<le> u64_max \<Longrightarrow> saturating_add_u64 a 0 = a"
  by (simp add: saturating_add_u64_def)

lemma measure_items_sized:
  assumes "all_sized env d p items b n" "waiting env d stack sb sn"
  shows "(\<exists>c e st. measure_items env d p items B E stack = Inr (True, c, e, st) \<and> MAX_REMOVE_ENTRIES < e \<and> MAX_REMOVE_ENTRIES < E + n) \<or>
    (\<exists>c e st b' n'. measure_items env d p items B E stack = Inr (False, c, e, st) \<and> waiting env d st b' n' \<and> E + n + sn = e + n' \<and>
       saturating_add_u64 c b' = saturating_add_u64 B (b + sb))"
  using assms
proof (induction items arbitrary: b n B E stack sb sn)
  case Nil
  then show ?case by auto
next
  case (Cons item items)
  from Cons.prems(1) obtain name b1 n1 b2 n2 where item: "item = Inr name" and one: "sized env d (path_join p name) b1 n1"
    and rest: "all_sized env d p items b2 n2" and sums: "b = b1 + b2" "n = n1 + n2"
    by (auto elim: items_cases)
  show ?case
  proof (cases "MAX_REMOVE_ENTRIES < E + 1")
    case True
    moreover have "0 < n1" using one by (auto elim: sized_cases)
    ultimately show ?thesis using item sums by auto
  next
    case False
    from one show ?thesis
    proof (cases rule: sized.cases)
      case (a_file m)
      from Cons.IH [OF rest Cons.prems(2), of "saturating_add_u64 B (md_size m)" "E + 1"] show ?thesis
        using False item sums a_file by (elim disjE exE conjE) (auto simp: metadata_of_def ac_simps)
    next
      case (a_dir m below b0 n0)
      then have "waiting env d (path_join p name # stack) (b0 + sb) (n0 + sn)" using Cons.prems(2) by auto
      from Cons.IH [OF rest this, of "saturating_add_u64 B (md_size m)" "E + 1"] show ?thesis
        using False item sums a_dir by (elim disjE exE conjE) (auto simp: metadata_of_def ac_simps)
    qed
  qed
qed

lemma measure_items_bytes:
  "measure_items env d p items B E stack = Inr (over, c, e, st) \<Longrightarrow> B \<le> u64_max \<Longrightarrow> c \<le> u64_max"
proof (induction items arbitrary: B E stack)
  case (Cons item items)
  then show ?case by (auto simp: saturating_add_u64_def split: sum.splits if_splits)
qed simp

lemma measure_loop_sized:
  assumes "waiting env d stack b n" "B \<le> u64_max"
  shows "\<exists>c e. measure_loop env d B E stack = Inr (c, e) \<and>
    (if E + n \<le> MAX_REMOVE_ENTRIES then e = E + n \<and> c = saturating_add_u64 B b else MAX_REMOVE_ENTRIES < e)"
  using assms
proof (induction env d B E stack arbitrary: b n rule: measure_loop.induct)
  case (1 env d B E)
  then show ?case by (simp add: saturating_0)
next
  case (2 env d B E dir stack)
  from "2.prems"(1) obtain items b1 n1 b2 n2 where r: "fs_read_dir env dir d = Inr items" and i: "all_sized env d dir items b1 n1"
    and w: "waiting env d stack b2 n2" and sums: "b = b1 + b2" "n = n1 + n2" by auto
  from measure_items_sized [OF i w, of B E] show ?case
  proof (elim disjE exE conjE)
    fix c e st
    assume "measure_items env d dir items B E stack = Inr (True, c, e, st)" "MAX_REMOVE_ENTRIES < e" "MAX_REMOVE_ENTRIES < E + n1"
    with r sums show ?thesis by simp
  next
    fix c e st b' n'
    assume m: "measure_items env d dir items B E stack = Inr (False, c, e, st)" and w': "waiting env d st b' n'" "E + n1 + n2 = e + n'"
      "saturating_add_u64 c b' = saturating_add_u64 B (b1 + b2)"
    have "c \<le> u64_max" using measure_items_bytes [OF m "2.prems"(2)] .
    have totals: "E + n = e + n'" "saturating_add_u64 B b = saturating_add_u64 c b'" using w' sums by simp_all
    from "2.IH" [OF r m refl refl refl _ w'(1) \<open>c \<le> u64_max\<close>] show ?thesis unfolding totals by (simp add: r m)
  qed
qed

lemma measure_tree_sized:
  assumes "sized env d p b n"
  shows "(n \<le> MAX_REMOVE_ENTRIES \<longrightarrow> measure_tree env p d = Inr (min u64_max b, n)) \<and>
    (MAX_REMOVE_ENTRIES < n \<longrightarrow> (\<exists>c e. measure_tree env p d = Inr (c, e) \<and> MAX_REMOVE_ENTRIES < e))"
  using assms
proof (cases rule: sized.cases)
  case (a_file m)
  then show ?thesis by (simp add: measure_tree_def metadata_of_def MAX_REMOVE_ENTRIES_def)
next
  case (a_dir m items b0 n0)
  then have "waiting env d [p] b0 n0" by auto
  from measure_loop_sized [OF this a_dir(5), of 1] show ?thesis
    using a_dir by (auto simp: measure_tree_def metadata_of_def saturating_add_u64_def split: if_splits)
qed


end
