(* ===== verification/Agent_Fs_World.thy ===== *)
theory Agent_Fs_World
  imports Agent_File_Writes Agent_Instances
begin

text \<open>
  A small file system, a list of paths with their metadata, on which the filesystem provider is run:
  the instances that show its theorems apply.
\<close>

type_synonym world = "(ustring \<times> metadata) list"

definition no_entry :: os_error where
  "no_entry = \<lparr>errno = Some 2, os_kind_of = Os_Not_Found, os_text = (lit ''No such file or directory (os error 2)'')\<rparr>"

definition is_there :: os_error where
  "is_there = \<lparr>errno = Some 17, os_kind_of = Os_Other (lit ''AlreadyExists''), os_text = (lit ''File exists (os error 17)'')\<rparr>"

definition world_lstat :: "ustring \<Rightarrow> world \<Rightarrow> os_error + metadata" where
  "world_lstat p w = (case map_of w p of None \<Rightarrow> Inl no_entry | Some m \<Rightarrow> Inr m)"

definition child_of :: "ustring \<Rightarrow> ustring \<Rightarrow> ustring option" where
  "child_of dir p = (case strip_prefix (dir @ [47]) p of None \<Rightarrow> None | Some n \<Rightarrow> if n = [] \<or> 47 \<in> set n then None else Some n)"

definition below :: "ustring \<Rightarrow> ustring \<Rightarrow> bool" where
  "below dir p \<longleftrightarrow> p = dir \<or> starts_with p (dir @ [47])"

definition moved :: "ustring \<Rightarrow> ustring \<Rightarrow> ustring \<Rightarrow> ustring" where
  "moved a b p = (if below a p then b @ drop (length a) p else p)"

definition a_dir :: metadata where
  "a_dir = \<lparr>md_mode = 0x41ff, md_uid = 2000, md_gid = 2000, md_size = 4096, md_mtime = 1700000000\<rparr>"

definition a_file :: "nat \<Rightarrow> metadata" where
  "a_file n = \<lparr>md_mode = 0x81a4, md_uid = 2000, md_gid = 2000, md_size = n, md_mtime = 1700000000\<rparr>"

definition world_env :: "world fs_env" where
  "world_env = \<lparr>
     fs_lstat = world_lstat, fs_stat = world_lstat, fs_canonical = (\<lambda>p w. rmap (\<lambda>_. p) (world_lstat p w)),
     fs_read_dir = (\<lambda>p w. rmap (\<lambda>_. map Inr (List.map_filter (child_of p \<circ> fst) w)) (world_lstat p w)),
     fs_read_link = (\<lambda>_ _. Inl no_entry), fs_access = (\<lambda>_ _ _. True), fs_open = (\<lambda>p w. rmap (\<lambda>_. ()) (world_lstat p w)),
     fs_seek = (\<lambda>_ _ _. Inr ()), fs_read = (\<lambda>_ from n _. Inr (take n (drop from [0x68, 0x69, 0xff]))),
     fs_create_dir = (\<lambda>p w. if map_of w p = None then (Inr (), w @ [(p, a_dir)]) else (Inl is_there, w)),
     fs_rename = (\<lambda>a b w. (Inr (), map (\<lambda>(p, m). (moved a b p, m)) w)),
     fs_remove_file = (\<lambda>p w. (Inr (), filter (\<lambda>x. fst x \<noteq> p) w)), fs_remove_dir = (\<lambda>p w. (Inr (), filter (\<lambda>x. fst x \<noteq> p) w)),
     fs_remove_dir_all = (\<lambda>p w. (Inr (), filter (\<lambda>x. \<not> below p (fst x)) w)),
     fs_set_mode = (\<lambda>p m w. (Inr (), map (\<lambda>(q, x). (q, if q = p then x\<lparr>md_mode := (md_mode x AND S_IFMT) OR m\<rparr> else x)) w)),
     fs_roots_var = None, fs_write_roots_var = None, fs_de_text = (\<lambda>_. (lit ''invalid type''))\<rparr>"

definition small_world :: world where
  "small_world = [((lit ''/''), a_dir), ((lit ''/sdcard''), a_dir), ((lit ''/data/local''), a_dir), ((lit ''/data/local/tmp''), a_dir),
     ((lit ''/data/local/tmp/d''), a_dir),
     ((lit ''/data/local/tmp/d/b''), a_file 5), ((lit ''/data/local/tmp/d/a''), a_file 3)]"

definition idle_world :: "(world \<times> fs_call list) agent_state" where
  "idle_world = \<lparr>device = (small_world, []), ledger = []\<rparr>"

lemma world_fields [simp]:
  "fs_lstat world_env = world_lstat" "fs_stat world_env = world_lstat" "fs_canonical world_env p w = rmap (\<lambda>_. p) (world_lstat p w)"
  "fs_read_dir world_env p w = rmap (\<lambda>_. map Inr (List.map_filter (child_of p \<circ> fst) w)) (world_lstat p w)"
  "fs_remove_dir_all world_env p w = (Inr (), filter (\<lambda>x. \<not> below p (fst x)) w)" "fs_roots_var world_env = None"
  "fs_rename world_env a b w = (Inr (), map (\<lambda>(p, m). (moved a b p, m)) w)" "fs_write_roots_var world_env = None"
  "fs_access world_env p x w = True" "fs_open world_env p w = rmap (\<lambda>_. ()) (world_lstat p w)" "fs_seek world_env p n w = Inr ()"
  "fs_read world_env p from n w = Inr (take n (drop from [0x68, 0x69, 0xff]))"
  by (simp_all add: world_env_def)

lemma world_roots: "configured_roots world_env = [(lit ''/sdcard''), (lit ''/data/local/tmp'')]"
proof -
  have "map trim (split_pred (\<lambda>c. c = 44) DEFAULT_WRITE_ROOTS) = [(lit ''/sdcard''), (lit ''/data/local/tmp'')]"
    by (simp add: DEFAULT_WRITE_ROOTS_def trim_defs is_whitespace_def)
  then show ?thesis
    by (simp add: configured_roots_def parse_write_roots_def or_default_def starts_with_def utf8_def utf8_char_def)
qed

lemma world_present: "world_lstat (lit ''/data/local/tmp/d'') small_world = Inr a_dir" "world_lstat (lit ''/data/local/tmp'') small_world = Inr a_dir"
    "world_lstat (lit ''/sdcard'') small_world = Inr a_dir" "world_lstat (lit ''/data/local/tmp/d/a'') small_world = Inr (a_file 3)"
    "world_lstat (lit ''/data/local/tmp/d/b'') small_world = Inr (a_file 5)" "world_lstat (lit ''/sdcard/t'') small_world = Inl no_entry"
    "world_lstat (lit ''/data/local'') small_world = Inr a_dir"
  by (simp_all add: small_world_def world_lstat_def)

lemma world_items: "fs_read_dir world_env (lit ''/data/local/tmp/d'') small_world = Inr [Inr (lit ''b''), Inr (lit ''a'')]"
  by code_simp

lemma world_kinds: "is_dir a_dir" "\<not> is_dir (a_file n)"
  by (simp_all add: is_dir_def a_dir_def a_file_def kind_from_mode_def S_IFMT_def S_IFDIR_def)

lemma world_sizes: "md_size a_dir = 4096" "md_size (a_file n) = n"
  by (simp_all add: a_dir_def a_file_def)

lemma world_paths: "path_join (lit ''/data/local/tmp/d'') (lit ''a'') = (lit ''/data/local/tmp/d/a'')" "path_join (lit ''/data/local/tmp/d'') (lit ''b'') = (lit ''/data/local/tmp/d/b'')"
  by code_simp+

lemma a_file_sized:
  assumes "world_lstat p small_world = Inr (a_file n)" "n \<le> 5"
  shows "sized world_env small_world p n 1"
  using sized_all_sized.a_file [of world_env p small_world "a_file n"] assms world_kinds by (simp add: world_sizes u64_max_def)

lemma world_sized: "sized world_env small_world (lit ''/data/local/tmp/d'') 4104 3"
proof -
  have "sized world_env small_world (path_join (lit ''/data/local/tmp/d'') (lit ''a'')) 3 1" "sized world_env small_world (path_join (lit ''/data/local/tmp/d'') (lit ''b'')) 5 1"
    unfolding world_paths by (rule a_file_sized, rule world_present, simp)+
  then have "all_sized world_env small_world (lit ''/data/local/tmp/d'') [Inr (lit ''b''), Inr (lit ''a'')] (5 + (3 + 0)) (1 + (1 + 0))"
    by (intro an_item no_items)
  from sized_all_sized.a_dir [OF _ world_kinds(1) _ world_items this] show ?thesis
    by (simp add: world_present world_sizes u64_max_def numeral_3_eq_3 del: lit_Cons)
qed

section \<open>A removal and a rename\<close>

lemma world_writable:
  "fs_check_writable world_env (lit ''/data/local/tmp/d'') small_world = Inr ()" "fs_check_writable world_env (lit ''/data/local/tmp'') small_world = Inr ()"
  "fs_check_writable world_env (lit ''/sdcard/t'') small_world = Inr ()"
proof -
  have starts: "path_starts_with (lit ''/data/local/tmp/d'') (lit ''/data/local/tmp'')" "path_starts_with (lit ''/data/local/tmp'') (lit ''/data/local/tmp'')"
    "path_starts_with (lit ''/sdcard/t'') (lit ''/sdcard'')" by code_simp+
  show "fs_check_writable world_env (lit ''/data/local/tmp/d'') small_world = Inr ()" "fs_check_writable world_env (lit ''/data/local/tmp'') small_world = Inr ()"
    "fs_check_writable world_env (lit ''/sdcard/t'') small_world = Inr ()"
    unfolding check_writable_inside inside_def accepted_roots_def world_roots using starts by (auto simp del: lit_Cons)
qed

definition remove_request :: avalue where "remove_request = VObject [((lit ''path''), VString (lit ''/data/local/tmp/d'')), ((lit ''recursive''), VBool True)]"
definition rename_request :: avalue where "rename_request = VObject [((lit ''from''), VString (lit ''/data/local/tmp'')), ((lit ''to''), VString (lit ''/sdcard/t''))]"

lemma requests_read: "path_flag_from ''recursive'' remove_request = Inr ((lit ''/data/local/tmp/d''), True)"
    "rename_params_from rename_request = Inr ((lit ''/data/local/tmp''), (lit ''/sdcard/t''))"
  by code_simp+

lemma world_splits: "normalize_lexically (lit ''/data/local/tmp/d'') = (lit ''/data/local/tmp/d'')" "split_last (lit ''/data/local/tmp/d'') = ((lit ''/data/local/tmp''), Some (lit ''d''))"
    "normalize_lexically (lit ''/sdcard/t'') = (lit ''/sdcard/t'')" "split_last (lit ''/sdcard/t'') = ((lit ''/sdcard''), Some (lit ''t''))"
    "normalize_lexically (lit ''/data/local/tmp'') = (lit ''/data/local/tmp'')" "split_last (lit ''/data/local/tmp'') = ((lit ''/data/local''), Some (lit ''tmp''))"
    "path_join (lit ''/data/local/tmp'') (lit ''d'') = (lit ''/data/local/tmp/d'')" "path_join (lit ''/sdcard'') (lit ''t'') = (lit ''/sdcard/t'')" "path_join (lit ''/data/local'') (lit ''tmp'') = (lit ''/data/local/tmp'')"
  by code_simp+

lemma not_empty_paths: "is_absolute (lit ''/data/local/tmp/d'')" "is_absolute (lit ''/data/local/tmp'')" "is_absolute (lit ''/sdcard/t'')"
    "(lit ''/data/local/tmp/d'') \<noteq> []" "(lit ''/data/local/tmp'') \<noteq> []" "(lit ''/sdcard/t'') \<noteq> []"
  by code_simp+

lemma world_resolved: "resolve_for_write world_env (lit ''/data/local/tmp/d'') small_world = Inr (lit ''/data/local/tmp/d'')"
    "resolve_for_write world_env (lit ''/data/local/tmp'') small_world = Inr (lit ''/data/local/tmp'')"
    "resolve_for_write world_env (lit ''/sdcard/t'') small_world = Inr (lit ''/sdcard/t'')"
  unfolding resolve_for_write_def Let_def world_splits
  by (simp_all add: world_splits world_writable world_present not_empty_paths del: lit_Cons)

lemma world_protected: "\<not> is_protected_root world_env (lit ''/data/local/tmp/d'') small_world" "is_protected_root world_env (lit ''/data/local/tmp'') small_world"
proof -
  have "write_roots world_env small_world = [(lit ''/sdcard''), (lit ''/data/local/tmp'')]"
    by (simp add: write_roots_def world_roots world_present del: lit_Cons)
  moreover have "\<not> path_eq (lit ''/data/local/tmp/d'') (lit ''/sdcard'')" "\<not> path_eq (lit ''/data/local/tmp/d'') (lit ''/data/local/tmp'')" "path_eq (lit ''/data/local/tmp'') (lit ''/data/local/tmp'')"
    by code_simp+
  ultimately show "\<not> is_protected_root world_env (lit ''/data/local/tmp/d'') small_world" "is_protected_root world_env (lit ''/data/local/tmp'') small_world"
    by (simp_all add: is_protected_root_def world_present del: lit_Cons)
qed

lemma world_kind: "kind_of world_env (lit ''/data/local/tmp/d'') False small_world = Inr Kind_Dir"
  by (simp add: kind_of_def metadata_of_def world_present a_dir_def kind_from_mode_def S_IFMT_def S_IFDIR_def del: lit_Cons)

lemma world_measured: "measure_tree world_env (lit ''/data/local/tmp/d'') small_world = Inr (4104, 3)"
  using measure_tree_sized [OF world_sized] by (simp add: MAX_REMOVE_ENTRIES_def u64_max_def del: lit_Cons)

lemma world_may_remove: "may_remove world_env (lit ''/data/local/tmp/d'') Kind_Dir True small_world = Inr 4104"
  by (simp add: may_remove_def world_protected world_measured MAX_REMOVE_ENTRIES_def del: lit_Cons)

definition after_removal :: world where
  "after_removal = [((lit ''/''), a_dir), ((lit ''/sdcard''), a_dir), ((lit ''/data/local''), a_dir), ((lit ''/data/local/tmp''), a_dir)]"

lemma removal_runs: "filter (\<lambda>x. \<not> below (lit ''/data/local/tmp/d'') (fst x)) small_world = after_removal"
    "world_lstat (lit ''/data/local/tmp/d'') after_removal = Inl no_entry"
  by (code_simp, simp add: after_removal_def world_lstat_def)

lemma sys_call_runs: "f (device s) = (Inr (), d) \<Longrightarrow> abind (sys_call name path f) g s = g () (s\<lparr>device := d\<rparr>)"
  by (simp add: sys_call_def abind_def on_device_def alift_def)

lemma world_removes:
  "filesystem_handle (fs_logged world_env) (lit ''filesystem.remove'') remove_request idle_world =
     Some (Inr (remove_value (lit ''/data/local/tmp/d'') True True 4104), \<lparr>device = (after_removal, [Remove_Tree (lit ''/data/local/tmp/d'')]), ledger = []\<rparr>)"
proof -
  have "fs_remove (fs_logged world_env) remove_request idle_world =
     Some (Inr (remove_value (lit ''/data/local/tmp/d'') True True 4104), \<lparr>device = (after_removal, [Remove_Tree (lit ''/data/local/tmp/d'')]), ledger = []\<rparr>)"
    by (simp add: fs_remove_def fs_params_def requests_read abind_reading world_resolved remove_at_def idle_world_def world_kind world_may_remove
        sys_call_runs remove_call_def noting_def removal_runs asking_def areturn_def del: lit_Cons)
  then show ?thesis by (simp add: filesystem_handle_def)
qed

text \<open>The root itself is protected from removal only: here it is moved away.\<close>

definition after_rename :: world where
  "after_rename = [((lit ''/''), a_dir), ((lit ''/sdcard''), a_dir), ((lit ''/data/local''), a_dir), ((lit ''/sdcard/t''), a_dir), ((lit ''/sdcard/t/d''), a_dir),
     ((lit ''/sdcard/t/d/b''), a_file 5), ((lit ''/sdcard/t/d/a''), a_file 3)]"

lemma rename_runs: "map (\<lambda>(p, m). (moved (lit ''/data/local/tmp'') (lit ''/sdcard/t'') p, m)) small_world = after_rename"
    "world_lstat (lit ''/sdcard/t'') after_rename = Inr a_dir" "world_lstat (lit ''/data/local/tmp'') after_rename = Inl no_entry"
    "\<not> path_eq (lit ''/data/local/tmp'') (lit ''/sdcard/t'')"
  by (code_simp, simp_all add: after_rename_def world_lstat_def, code_simp)

lemma world_renames:
  "filesystem_handle (fs_logged world_env) (lit ''filesystem.rename'') rename_request idle_world =
     Some (Inr (rename_value (lit ''/data/local/tmp'') (lit ''/sdcard/t'') a_dir False),
       \<lparr>device = (after_rename, [Rename (lit ''/data/local/tmp'') (lit ''/sdcard/t'')]), ledger = []\<rparr>)"
proof -
  have "fs_rename_handler (fs_logged world_env) rename_request idle_world =
     Some (Inr (rename_value (lit ''/data/local/tmp'') (lit ''/sdcard/t'') a_dir False),
       \<lparr>device = (after_rename, [Rename (lit ''/data/local/tmp'') (lit ''/sdcard/t'')]), ledger = []\<rparr>)"
    by (simp add: fs_rename_handler_def fs_params_def requests_read abind_reading world_resolved rename_to_def idle_world_def metadata_of_def world_present
        world_writable sys_call_runs noting_def rename_runs asking_def read_back_def areturn_def del: lit_Cons)
  then show ?thesis by (simp add: filesystem_handle_def)
qed

section \<open>A listing and a preview\<close>

lemma world_valid: "validate_fs_path (lit ''/data/local/tmp/d'') = Inr (lit ''/data/local/tmp/d'')" "validate_fs_path (lit ''/data/local/tmp/d/a'') = Inr (lit ''/data/local/tmp/d/a'')"
  by code_simp+

lemma world_canonical: "canonicalize world_env (lit ''/data/local/tmp/d'') small_world = Inr (lit ''/data/local/tmp/d'')"
    "canonicalize world_env (lit ''/data/local/tmp/d/a'') small_world = Inr (lit ''/data/local/tmp/d/a'')"
  by (simp_all add: canonicalize_def world_present check_allowed_roots_with_def allowed_roots_def parse_allowed_roots_def trim_defs
      starts_with_def del: lit_Cons)

lemma world_file_kind: "kind_of world_env (lit ''/data/local/tmp/d'') True small_world = Inr Kind_Dir"
    "kind_of world_env (lit ''/data/local/tmp/d/a'') True small_world = Inr Kind_File"
    "metadata_of world_env (lit ''/data/local/tmp/d/a'') True small_world = Inr (a_file 3)"
  by (simp_all add: kind_of_def metadata_of_def world_present a_dir_def a_file_def kind_from_mode_def S_IFMT_def S_IFDIR_def S_IFREG_def del: lit_Cons)

definition the_listing :: list_result where
  "the_listing = (case scan world_env (lit ''/data/local/tmp/d'') False small_world of (entries, truncated, unreadable) \<Rightarrow>
     \<lparr>lr_path = (lit ''/data/local/tmp/d''), lr_entries = entries, lr_truncated = truncated, lr_unreadable = unreadable\<rparr>)"

lemma world_lists: "fs_list_of world_env (lit ''/data/local/tmp/d'') False small_world = Inr the_listing"
    "lr_path the_listing = (lit ''/data/local/tmp/d'')"
  by (simp_all add: fs_list_of_def world_valid world_canonical world_file_kind the_listing_def del: lit_Cons split: prod.split)

lemma world_entry_names: "entry_names [Inr (lit ''b''), Inr (lit ''a'')] = [(lit ''b''), (lit ''a'')]" "entry_errors [Inr (lit ''b''), Inr (lit ''a'')] = []"
    "visible False (lit ''a'')" "visible False (lit ''b'')" "\<not> (lit ''b'') \<le> (lit ''a'')" "seen world_env (lit ''/data/local/tmp/d'') small_world (lit ''a'')"
    "seen world_env (lit ''/data/local/tmp/d'') small_world (lit ''b'')"
  by (simp_all add: entry_names_def entry_errors_def seen_def world_paths world_present del: lit_Cons) code_simp+

definition preview_request :: preview_params where
  "preview_request = \<lparr>pp_path = (lit ''/data/local/tmp/d/a''), max_bytes = None, from_end = False\<rparr>"

lemma world_previews: "preview_of world_env preview_request small_world =
    Inr \<lparr>pv_path = (lit ''/data/local/tmp/d/a''), pv_size = 3, pv_offset = 0, pv_returned = 3, pv_encoding = Enc_Hex, pv_text = None,
      pv_hex = Some (lit ''6869ff''), pv_truncated = False, pv_detail = None\<rparr>"
proof -
  have "read_slice world_env (lit ''/data/local/tmp/d/a'') 0 65536 small_world = Inr [0x68, 0x69, 0xff]"
    by (simp add: read_slice_def world_present del: lit_Cons)
  moreover have "preview_body [0x68, 0x69, 0xff] = (Enc_Hex, None, Some (lit ''6869ff''))" by code_simp
  moreover have "preview_limit preview_request = 65536"
    by (simp add: preview_limit_def preview_request_def or_default_def DEFAULT_PREVIEW_BYTES_def MAX_PREVIEW_BYTES_def)
  ultimately show ?thesis
    by (simp add: preview_of_def preview_request_def world_valid world_canonical world_file_kind preview_result_of_def world_sizes u32_max_def Let_def
        del: lit_Cons)
qed

end
