(* ===== verification/Agent_Workshop.thy ===== *)
theory Agent_Workshop
  imports Agent_Package Agent_Instances
begin

text \<open>
  A second concrete device: it counts the commands, has a third-party package \<open>com.x\<close> that is gone
  once three commands have run, and lets scripts through \<open>su\<close>. An uninstall and a replacement of a
  library succeed on it.
\<close>

definition digest :: ustring where "digest = replicate 64 48"

definition su_reply :: ustring where "su_reply = (lit ''BACKED_UP'' @ [10] @ lit ''INSTALLED'')"

definition shop_text :: "ustring \<Rightarrow> ustring list \<Rightarrow> nat \<Rightarrow> ustring" where
  "shop_text p args d =
     (if p = PM then
        (if 3 \<le> d then [] else (lit ''package:com.x''))
      else if p = DUMPSYS then (lit ''legacyNativeLibraryDir=/data/app/x/lib'')
      else if p = SU then su_reply
      else digest)"

definition shop_output :: "ustring \<Rightarrow> ustring list \<Rightarrow> nat \<Rightarrow> command_output" where
  "shop_output p args d = \<lparr>success = True, exit_code = Some 0, stdout = utf8 (shop_text p args d), stderr = []\<rparr>"

definition shop :: "nat device_env" where
  "shop = \<lparr>command = (\<lambda>p args d. (Inr (shop_output p args d), d)),
     timed_command = (\<lambda>t p args d. (Some (Inr (shop_output p args d)), d + 1)),
     read_file = (\<lambda>path d. Some [0x7f, 69, 76, 70, 2]), clock = (\<lambda>d. d), pause = (\<lambda>n d. d + n), entries_order = (\<lambda>es. es),
     de_text = (\<lambda>e. []), fmt_debug = (\<lambda>t. t)\<rparr>"

definition shop_idle :: "(nat \<times> log_entry list) agent_state" where
  "shop_idle = \<lparr>device = (0, []), ledger = []\<rparr>"

lemma shop_text_valid: "from_utf8_lossy (utf8 (shop_text p args d)) = shop_text p args d"
  by (rule from_utf8_lossy_utf8) (simp add: shop_text_def valid_string_def is_scalar_def digest_def su_reply_def list_all_iff)

abbreviation shop_entry :: "ustring \<Rightarrow> ustring list \<Rightarrow> nat \<Rightarrow> log_entry" where
  "shop_entry p args d \<equiv> (p, args, Some (Inr (shop_output p args d)))"

lemma shop_command:
  "on_device (timed_command (logged shop) t p args) \<lparr>device = (d, l), ledger = es\<rparr> =
     Some (Inr (Some (Inr (shop_output p args d))), \<lparr>device = (Suc d, l @ [shop_entry p args d]), ledger = es\<rparr>)"
  by (simp add: on_device_def logged_def shop_def)

lemma shop_run:
  "run (logged shop) p args \<lparr>device = (d, l), ledger = es\<rparr> =
     Some (Inr (shop_text p args d), \<lparr>device = (Suc d, l @ [shop_entry p args d]), ledger = es\<rparr>)"
  by (simp add: run_def abind_def shop_command areturn_def shop_output_def shop_text_valid)

lemma shop_answer [simp]: "success (shop_output p args d)" "from_utf8_lossy (stdout (shop_output p args d)) = shop_text p args d"
    "from_utf8_lossy (stderr (shop_output p args d)) = []" "exit_code (shop_output p args d) = Some 0"
  by (simp_all add: shop_output_def shop_text_valid lossy_Nil)

lemma shop_texts:
  "d < 3 \<Longrightarrow> shop_text PM args d = (lit ''package:com.x'')" "3 \<le> d \<Longrightarrow> shop_text PM args d = []"
  "shop_text DUMPSYS args d = (lit ''legacyNativeLibraryDir=/data/app/x/lib'')" "shop_text SU args d = su_reply"
  by (simp_all add: shop_text_def)

lemma shop_guard:
  "guard_writable_package (logged shop) (lit ''com.x'') \<lparr>device = (0, l), ledger = es\<rparr> =
     Some (Inr (), \<lparr>device = (2, l @ [shop_entry PM [(lit ''path''), (lit ''com.x'')] 0, shop_entry PM [(lit ''list''), (lit ''packages''), (lit ''-3''), (lit ''com.x'')] 1]), ledger = es\<rparr>)"
  using phone_lists phone_third_party
  by (simp add: guard_writable_package_def pm_path_present_def abind_def attempt_def shop_run areturn_def shop_texts phone_texts
      numeral_2_eq_2 del: lit_Cons)

lemma shop_ledger: "prune (entries_order (logged shop)) [] t = []" "lookup_at ([] :: avalue ledger) t k = None"
  by (simp_all add: prune_def lookup_at_def logged_def shop_def)

section \<open>Uninstalling\<close>

definition shop_uninstall :: avalue where
  "shop_uninstall = VObject [((lit ''operation_id''), VString (lit ''op-1'')), ((lit ''package''), VString (lit ''com.x''))]"

definition shop_uninstall_params :: uninstall_params where
  "shop_uninstall_params = \<lparr>up_package = (lit ''com.x''), up_operation = (lit ''op-1''), keep_data = False, up_user = None\<rparr>"

lemma shop_uninstall_read: "package_params (logged shop) uninstall_params_from shop_uninstall = Inr shop_uninstall_params"
  by code_simp

lemma shop_uninstall_begins: "begin_write (logged shop) (lit ''package.uninstall'') (lit ''com.x'') (lit ''op-1'') = Inr ()"
  by code_simp

lemma shop_accepts: "\<not> str_contains (shop_text PM args 2) (lit ''Failure'')" "\<not> str_contains (shop_text PM args 2) (lit ''DELETE_FAILED'')"
  by (simp_all add: shop_texts str_contains_def)

lemma shop_uninstall_runs:
  "\<exists>v s'. uninstall (logged shop) shop_uninstall shop_idle = Some (Inr v, s') \<and>
     snd (device s') = [shop_entry PM [(lit ''path''), (lit ''com.x'')] 0, shop_entry PM [(lit ''list''), (lit ''packages''), (lit ''-3''), (lit ''com.x'')] 1,
       shop_entry PM [(lit ''uninstall''), (lit ''com.x'')] 2, shop_entry PM [(lit ''path''), (lit ''com.x'')] 3]"
proof -
  have p: "up_package shop_uninstall_params = (lit ''com.x'')" "up_operation shop_uninstall_params = (lit ''op-1'')"
    "uninstall_args shop_uninstall_params = [(lit ''uninstall''), (lit ''com.x'')]"
    by (simp_all add: shop_uninstall_params_def uninstall_args_def user_args_def)
  have empty: "lines [] = []" by (simp add: lines_def)
  have "\<exists>v s'. uninstall_now (logged shop) shop_uninstall_params shop_idle = Some (Inr v, s') \<and>
     snd (device s') = [shop_entry PM [(lit ''path''), (lit ''com.x'')] 0, shop_entry PM [(lit ''list''), (lit ''packages''), (lit ''-3''), (lit ''com.x'')] 1,
       shop_entry PM [(lit ''uninstall''), (lit ''com.x'')] 2, shop_entry PM [(lit ''path''), (lit ''com.x'')] 3]"
    by (simp add: uninstall_now_def uninstall_verified_def pm_path_present_def Let_def p shop_idle_def abind_def attempt_def shop_guard shop_run
        shop_accepts areturn_def finish_write_def shop_texts(2) empty del: lit_Cons)
  then show ?thesis
    unfolding uninstall_def
    by (subst uninstall_write.proceeds [OF shop_uninstall_read])
      (simp_all add: p shop_uninstall_begins shop_idle_def Let_def shop_ledger del: lit_Cons)
qed

section \<open>Replacing a library\<close>

definition shop_replace :: avalue where
  "shop_replace = VObject [((lit ''abi''), VString (lit ''arm64'')), ((lit ''operation_id''), VString (lit ''op-2'')), ((lit ''package''), VString (lit ''com.x'')),
     ((lit ''so_name''), VString (lit ''libx.so'')), ((lit ''staged_path''), VString (lit ''/data/local/tmp/app-reverse-tools-so/a/libx.so''))]"

definition shop_replace_params :: replace_params where
  "shop_replace_params = \<lparr>rp_package = (lit ''com.x''), rp_abi = (lit ''arm64''), so_name = (lit ''libx.so''),
     staged_path = (lit ''/data/local/tmp/app-reverse-tools-so/a/libx.so''), rp_operation = (lit ''op-2'')\<rparr>"

definition shop_replacement :: replacement where
  "shop_replacement = \<lparr>asked = shop_replace_params, target_dir = (lit ''/data/app/x/lib/arm64''), target_path = (lit ''/data/app/x/lib/arm64/libx.so''),
     had_target = True, staged_sha = digest, backup_file = (lit ''/data/local/tmp/app-reverse-tools-so/a/libx.so.artbak'')\<rparr>"

definition shop_replace_log :: "log_entry list" where
  "shop_replace_log =
     [shop_entry PM [(lit ''path''), (lit ''com.x'')] 0, shop_entry PM [(lit ''list''), (lit ''packages''), (lit ''-3''), (lit ''com.x'')] 1,
      shop_entry DUMPSYS [(lit ''package''), (lit ''com.x'')] 2,
      shop_entry (lit ''/system/bin/sha256sum'') [(lit ''/data/local/tmp/app-reverse-tools-so/a/libx.so'')] 3,
      shop_entry SU [(lit ''-c''), backup_script (lit ''/data/app/x/lib/arm64/libx.so'') (lit ''/data/local/tmp/app-reverse-tools-so/a/libx.so.artbak'')] 4,
      shop_entry SU [(lit ''-c''), the_install shop_replacement] 5,
      shop_entry (lit ''/system/bin/sha256sum'') [(lit ''/data/app/x/lib/arm64/libx.so'')] 6]"

lemma shop_replace_read: "package_params (logged shop) replace_params_from shop_replace = Inr shop_replace_params"
  by code_simp

lemma shop_replace_begins: "begin_write (logged shop) (lit ''package.replace_native_library'') (lit ''com.x'') (lit ''op-2'') = Inr ()"
  by code_simp

lemma shop_checked: "replace_checked shop_replace_params = Inr ()"
  by code_simp

lemma shop_paths:
  "validate_path (lit ''/data/app/x/lib/arm64/libx.so'') = Inr ()" "validate_dir (lit ''/data/app/x/lib/arm64'') = Inr ()"
  "validate_path (lit ''/data/local/tmp/app-reverse-tools-so/a/libx.so.artbak'') = Inr ()"
  "backup_of shop_replace_params = (lit ''/data/local/tmp/app-reverse-tools-so/a/libx.so.artbak'')"
  by code_simp+

lemma shop_dump: "parse_package_dump (lit ''legacyNativeLibraryDir=/data/app/x/lib'') =
    (\<lparr>legacy_native_lib_dir = Some (lit ''/data/app/x/lib''), primary_cpu_abi = None, code_path = None, splits = []\<rparr>, 1)"
  by (simp add: parse_package_dump_def lines_def Let_def dump_line_def value_after_def trim_defs)

lemma shop_resolves:
  "resolve_native_lib_dir (logged shop) (lit ''com.x'') (Some (lit ''arm64'')) None \<lparr>device = (d, l), ledger = es\<rparr> =
    Some (Inr \<lparr>nd_package = (lit ''com.x''), nd_dir = (lit ''/data/app/x/lib/arm64''), nd_abi = (lit ''arm64''), nd_primary = None, nd_code_path = None,
      nd_splits = [], nd_user = None, nd_source = Framework_Field, nd_detail = None\<rparr>,
      \<lparr>device = (Suc d, l @ [shop_entry DUMPSYS [(lit ''package''), (lit ''com.x'')] d]), ledger = es\<rparr>)"
proof -
  have v: "validate_package (lit ''com.x'') = Inr ()" by code_simp
  have s: "substitute_abi (lit ''/data/app/x/lib'') (lit ''arm64'') = Exact (lit ''/data/app/x/lib/arm64'')" by code_simp
  show ?thesis
    by (simp add: resolve_native_lib_dir_def v ARM64_def dumpsys_package_def user_args_def shop_command abind_def alift_def
        Let_def areturn_def shop_texts shop_dump native_of_dump_def s del: lit_Cons)
qed

lemma digest_word: "split_whitespace digest = [digest]" "length (utf8 digest) = 64" "list_all is_ascii_hexdigit digest"
  "map to_ascii_lower digest = digest"
proof -
  have word: "is_word digest" by (simp add: is_word_def digest_def list_all_iff is_whitespace_def)
  show "split_whitespace digest = [digest]" using split_whitespace_join [of "[digest]" 32] word by (simp add: is_whitespace_def)
  show "length (utf8 digest) = 64" by (simp add: utf8_def utf8_char_def digest_def concat_replicate_trivial)
  show "list_all is_ascii_hexdigit digest" by (simp add: digest_def list_all_iff is_ascii_hexdigit_def is_ascii_digit_def)
  show "map to_ascii_lower digest = digest" by (simp add: digest_def to_ascii_lower_def is_ascii_upper_def)
qed

lemma shop_digest:
  "file_sha256 (logged shop) path \<lparr>device = (d, l), ledger = es\<rparr> =
     Some (Inr digest, \<lparr>device = (Suc d, l @ [shop_entry (lit ''/system/bin/sha256sum'') [path] d]), ledger = es\<rparr>)"
proof -
  have "shop_text (lit ''/system/bin/sha256sum'') args d = digest" for args by (simp add: shop_text_def PM_def DUMPSYS_def SU_def)
  then have "sha_answer (Some (Inr (shop_output (lit ''/system/bin/sha256sum'') args d))) = Some digest" for args
    by (simp add: sha_answer_def sha_of_output_def digest_word del: lit_Cons)
  then show ?thesis by (simp add: file_sha256_def sha_candidates_def abind_def shop_command areturn_def del: lit_Cons)
qed

lemma shop_answers: "expect \<in> {(lit ''BACKED_UP''), (lit ''INSTALLED'')} \<Longrightarrow> \<exists>out. su_answer step expect (shop_output SU args d) = Inr out"
proof -
  have t: "trim su_reply = su_reply" "trim (lit ''BACKED_UP'') = (lit ''BACKED_UP'')" "trim (lit ''INSTALLED'') = (lit ''INSTALLED'')"
    by (simp_all add: su_reply_def trim_ends is_whitespace_def)
  have "lines su_reply = [(lit ''BACKED_UP''), (lit ''INSTALLED'')]" by (simp add: su_reply_def lines_def Let_def strip_cr_def)
  moreover assume "expect \<in> {(lit ''BACKED_UP''), (lit ''INSTALLED'')}"
  ultimately show ?thesis by (auto simp: su_answer_def shop_texts(4) Let_def t simp del: lit_Cons)
qed

lemma shop_privileged:
  assumes "expect \<in> {(lit ''BACKED_UP''), (lit ''INSTALLED'')}"
  shows "\<exists>out. run_privileged (logged shop) step script expect \<lparr>device = (d, l), ledger = es\<rparr> =
     Some (Inr out, \<lparr>device = (Suc d, l @ [shop_entry SU [(lit ''-c''), script] d]), ledger = es\<rparr>)"
  using shop_answers [OF assms, of step "[(lit ''-c''), script]" d]
  by (auto simp: run_privileged_def abind_def shop_command alift_def simp del: lit_Cons)

lemma shop_elf: "is_elf_file (logged shop) path d"
  by (cases d) (simp add: is_elf_file_def logged_def shop_def)

lemma shop_installs:
  "\<exists>v s'. replace_install (logged shop) shop_replacement steps \<lparr>device = (5, l), ledger = es\<rparr> = Some (Inr v, s') \<and>
     snd (device s') = l @ [shop_entry SU [(lit ''-c''), the_install shop_replacement] 5,
       shop_entry (lit ''/system/bin/sha256sum'') [(lit ''/data/app/x/lib/arm64/libx.so'')] 6]"
proof -
  obtain out where i: "run_privileged (logged shop) (lit ''install'') (the_install shop_replacement) (lit ''INSTALLED'') \<lparr>device = (5, l), ledger = es\<rparr> =
     Some (Inr out, \<lparr>device = (6, l @ [shop_entry SU [(lit ''-c''), the_install shop_replacement] 5]), ledger = es\<rparr>)"
    using shop_privileged [of "(lit ''INSTALLED'')" "(lit ''install'')" "the_install shop_replacement" 5 l es] by (auto simp: numeral_eq_Suc simp del: lit_Cons)
  have x: "target_dir shop_replacement = (lit ''/data/app/x/lib/arm64'')" "target_path shop_replacement = (lit ''/data/app/x/lib/arm64/libx.so'')"
    "staged_sha shop_replacement = digest" by (simp_all add: shop_replacement_def)
  show ?thesis
    unfolding replace_install_def x(1) shop_paths sum.case
    by (simp add: abind_def attempt_def the_install_def i [unfolded the_install_def x] replace_verify_def shop_digest x Let_def areturn_def finish_write_def del: lit_Cons)
qed

lemma shop_backs_up:
  "\<exists>v s'. replace_backup (logged shop) shop_replacement steps \<lparr>device = (4, l), ledger = es\<rparr> = Some (Inr v, s') \<and>
     snd (device s') = l @ drop 4 shop_replace_log"
proof -
  have x: "backup_file shop_replacement = (lit ''/data/local/tmp/app-reverse-tools-so/a/libx.so.artbak'')" "had_target shop_replacement"
    "target_path shop_replacement = (lit ''/data/app/x/lib/arm64/libx.so'')"
    by (simp_all add: shop_replacement_def)
  let ?script = "backup_script (target_path shop_replacement) (backup_file shop_replacement)"
  obtain out where b: "run_privileged (logged shop) (lit ''backup_original'') ?script (lit ''BACKED_UP'') \<lparr>device = (4, l), ledger = es\<rparr> =
     Some (Inr out, \<lparr>device = (5, l @ [shop_entry SU [(lit ''-c''), ?script] 4]), ledger = es\<rparr>)"
    using shop_privileged [of "(lit ''BACKED_UP'')" "(lit ''backup_original'')" ?script 4 l es] by (auto simp: numeral_eq_Suc simp del: lit_Cons)
  obtain v s' where "replace_install (logged shop) shop_replacement
      (steps @ [step_of ''backup_original'' True (Some (backup_file shop_replacement))])
      \<lparr>device = (5, l @ [shop_entry SU [(lit ''-c''), ?script] 4]), ledger = es\<rparr> = Some (Inr v, s')"
    "snd (device s') = (l @ [shop_entry SU [(lit ''-c''), ?script] 4]) @ [shop_entry SU [(lit ''-c''), the_install shop_replacement] 5,
       shop_entry (lit ''/system/bin/sha256sum'') [(lit ''/data/app/x/lib/arm64/libx.so'')] 6]"
    using shop_installs by blast
  moreover have "validate_path (backup_file shop_replacement) = Inr ()" unfolding x(1) by (rule shop_paths)
  ultimately show ?thesis
    by (simp add: replace_backup_def x(2) abind_def attempt_def alift_def b del: lit_Cons)
      (simp add: shop_replace_log_def x(1,3) del: lit_Cons)
qed

lemma shop_replaces:
  "\<exists>v s'. replace_native_library (logged shop) (\<lambda>_ _. True) shop_replace shop_idle = Some (Inr v, s') \<and>
     snd (device s') = shop_replace_log"
proof -
  have p: "rp_package shop_replace_params = (lit ''com.x'')" "rp_abi shop_replace_params = (lit ''arm64'')" "so_name shop_replace_params = (lit ''libx.so'')"
    "rp_operation shop_replace_params = (lit ''op-2'')" "staged_path shop_replace_params = (lit ''/data/local/tmp/app-reverse-tools-so/a/libx.so'')"
    by (simp_all add: shop_replace_params_def)
  have dir: "\<not> ends_with (lit ''/data/app/x/lib/arm64'') (lit ''/lib'')" by code_simp
  have path: "(lit ''/data/app/x/lib/arm64'') @ (lit ''/libx.so'') = (lit ''/data/app/x/lib/arm64/libx.so'')" by simp
  have slash: "(lit ''/'') @ (lit ''libx.so'') = (lit ''/libx.so'')" by simp
  have r: "\<lparr>asked = shop_replace_params, target_dir = (lit ''/data/app/x/lib/arm64''), target_path = (lit ''/data/app/x/lib/arm64/libx.so''),
     had_target = True, staged_sha = digest, backup_file = (lit ''/data/local/tmp/app-reverse-tools-so/a/libx.so.artbak'')\<rparr> = shop_replacement"
    by (simp add: shop_replacement_def)
  have "\<exists>v s'. replace_now (logged shop) (\<lambda>_ _. True) shop_replace_params shop_idle = Some (Inr v, s') \<and>
     snd (device s') = take 4 shop_replace_log @ drop 4 shop_replace_log"
    using shop_backs_up [of _ "take 4 shop_replace_log" "[]"]
    by (simp add: replace_now_def abind_def alift_def attempt_def shop_checked p shop_idle_def shop_guard replace_resolve_def shop_resolves
        Let_def dir slash path shop_paths asking_def replace_staged_def shop_digest shop_elf r shop_replace_log_def del: lit_Cons)
  then show ?thesis
    unfolding replace_native_library_def
    by (subst replace_write.proceeds [OF shop_replace_read])
      (simp_all add: p shop_replace_begins shop_idle_def Let_def shop_ledger del: lit_Cons)
qed

end
