(* ===== verification/Instances.thy ===== *)
theory Instances
  imports Chef_Service
begin

text \<open>
  Concrete instances of the external libraries the algorithm centre is parameterised by: an engine
  that satisfies the Base64 laws, a block cipher that satisfies the block laws, and an environment
  built from them. They show that the hypotheses on the libraries can hold.
\<close>

section \<open>A Base64 engine\<close>

text \<open>It writes hexadecimal digits, which lie in both alphabets and need no padding.\<close>

definition hex_engine :: b64_engine where
  "hex_engine = \<lparr>b64_enc = \<lambda>url bs. hex_encode bs False [], b64_dec = \<lambda>url strict s. Inr (hex_pairs s)\<rparr>"

lemma hexdigit_classes:
  "is_ascii_hexdigit c \<Longrightarrow> is_ascii_alphanumeric c" "is_ascii_hexdigit c \<Longrightarrow> c \<noteq> 43 \<and> c \<noteq> 47 \<and> c \<noteq> 61"
  by (auto simp: char_class_defs)

lemma hex_engine_laws: "b64_laws hex_engine"
proof -
  have digits_of: "hex_encode bs False [] = concat (map (hex_byte False) bs)" for bs :: bytes
    by (simp add: hex_encode_bytes join_Nil_sep)
  have digits: "is_ascii_hexdigit c" if "c \<in> set (hex_encode bs False [])" for c and bs :: bytes
    using that hex_byte_props(2) unfolding digits_of by auto
  have chars: "list_all (b64_char url) (hex_encode bs False [])" for url and bs :: bytes
    using digits hexdigit_classes(1) by (auto simp: list_all_iff b64_char_def)
  have fold: "map (fold_alphabet True) (hex_encode bs False []) = hex_encode bs False []" for bs :: bytes
    by (rule map_idI) (use digits hexdigit_classes(2) in \<open>auto simp: fold_alphabet_def\<close>)
  have trim: "trim_end_with (\<lambda>c. c = 61) (hex_encode bs False []) = hex_encode bs False []" for bs :: bytes
    by (rule trim_end_with_none) (use digits hexdigit_classes(2) in blast)
  have ne: "hex_encode bs False [] = [] \<Longrightarrow> bs = []" for bs :: bytes
    by (cases bs) (auto simp: digits_of hex_byte_def)
  have shape: "\<exists>body pad. hex_encode bs False [] = body @ replicate pad 61 \<and> list_all (b64_char url) body \<and>
      (body = [] \<longrightarrow> bs = [] \<and> pad = 0)" for url and bs :: bytes
    using chars ne by (intro exI [of _ "hex_encode bs False []"] exI [of _ 0]) auto
  show ?thesis
    unfolding b64_laws_def hex_engine_def using shape fold trim by (simp add: digits_of hex_pairs_bytes)
qed

section \<open>A block cipher\<close>

definition reversing_of :: "nat \<Rightarrow> block_impl" where
  "reversing_of n = \<lparr>block_size = n, new_from_slice = \<lambda>key. Some \<lparr>encrypt_block = rev, decrypt_block = rev\<rparr>\<rparr>"

abbreviation reversing :: block_impl where
  "reversing \<equiv> reversing_of 4"

lemma reversing_block_laws: "0 < n \<Longrightarrow> n < 256 \<Longrightarrow> block_laws (reversing_of n)"
  by (simp add: block_laws_def reversing_of_def)

lemma reversing_laws: "block_laws reversing"
  by (rule reversing_block_laws) simp_all

lemma reversing_ecb: "run_block reversing (lit ''ecb'') (lit ''pkcs7'') [] [] [1, 2] False = Inr [2, 2, 2, 1]"
  by (simp add: run_block_def reversing_of_def pad_def require_whole_blocks_def chunks_short Let_def numeral_2_eq_2)

section \<open>An environment\<close>

definition toy_cipher :: cipher_ext where
  "toy_cipher = undefined\<lparr>cip_b64 := hex_engine, aes128 := reversing_of 16, aes192 := reversing_of 16, aes256 := reversing_of 16\<rparr>"

definition toy_ext :: chef_ext where
  "toy_ext = undefined\<lparr>ext_cipher := toy_cipher\<rparr>"

definition toy_args :: args where
  "toy_args = [lit ''mode'' \<mapsto> lit ''ctr'', lit ''key'' \<mapsto> replicate 32 48, lit ''iv'' \<mapsto> replicate 32 48]"

lemma toy_ext_laws:
  "ext_cipher toy_ext = toy_cipher" "b64_laws (cip_b64 toy_cipher)"
  "aes128 toy_cipher = reversing_of 16" "aes192 toy_cipher = reversing_of 16" "aes256 toy_cipher = reversing_of 16"
  "block_laws (reversing_of 16)" "block_size (reversing_of 16) = 16"
  by (simp_all add: toy_ext_def toy_cipher_def hex_engine_laws reversing_block_laws) (simp add: reversing_of_def)

lemma toy_mode:
  "choice_in (fill_defaults (aes_encrypt_entry toy_ext) toy_args) (lit ''mode'') (lit ''cbc'') MODES = Inr m \<longleftrightarrow> m = lit ''ctr''"
  by (auto simp: choice_in_def args_choice_def fill_defaults_def aes_encrypt_entry_def ENCRYPT_ARGS_def toy_args_def MODES_def)

lemma zeros_hex: "hex_decode (replicate 32 48) = Inr (replicate 16 0)"
proof -
  have "hex_encode (replicate 16 0) False [] = concat (replicate 16 [48, 48])"
    by (simp add: hex_encode_bytes join_Nil_sep hex_byte_def hex_char_def digit_char_def)
  also have "\<dots> = replicate 32 48" by code_simp
  finally show ?thesis using hex_decode_encode [of "[]" "replicate 16 0" False] by simp
qed

lemma toy_encrypts:
  "step_data (registry toy_ext) \<lparr>step_id = lit ''aesEncrypt'', step_args = toy_args\<rparr> (chef_new []) = Some (from_text [])"
proof -
  let ?ea = "fill_defaults (aes_encrypt_entry toy_ext) toy_args"
  have args: "?ea (lit ''mode'') = Some (lit ''ctr'')" "?ea (lit ''padding'') = Some (lit ''pkcs7'')"
    "?ea (lit ''key'') = Some (replicate 32 48)" "?ea (lit ''keyFormat'') = Some (lit ''hex'')"
    "?ea (lit ''iv'') = Some (replicate 32 48)" "?ea (lit ''ivFormat'') = Some (lit ''hex'')"
    "?ea (lit ''inputFormat'') = Some (lit ''utf8'')" "?ea (lit ''outputFormat'') = Some (lit ''base64'')"
    by (auto simp: fill_defaults_def aes_encrypt_entry_def ENCRYPT_ARGS_def toy_args_def)
  have choices: "choice_in ?ea (lit ''mode'') (lit ''cbc'') MODES = Inr (lit ''ctr'')"
    "choice_in ?ea (lit ''padding'') (lit ''pkcs7'') PADDINGS = Inr (lit ''pkcs7'')"
    "choice_in ?ea (lit ''keyFormat'') (lit ''hex'') FORMATS = Inr (lit ''hex'')"
    "choice_in ?ea (lit ''ivFormat'') (lit ''hex'') FORMATS = Inr (lit ''hex'')"
    "choice_in ?ea (lit ''inputFormat'') (lit ''utf8'') FORMATS = Inr (lit ''utf8'')"
    "choice_in ?ea (lit ''outputFormat'') (lit ''base64'') FORMATS = Inr (lit ''base64'')"
    by (simp_all add: choice_in_given args MODES_def PADDINGS_def FORMATS_def del: lit_Cons)
  have params: "param toy_cipher ?ea ''key'' ''keyFormat'' ''hex'' = Inr (replicate 16 0)"
    "param toy_cipher ?ea ''iv'' ''ivFormat'' ''hex'' = Inr (replicate 16 0)"
    by (simp_all add: param_def choices args args_text_def parse_param_bytes_def zeros_hex del: lit_Cons) (simp_all)
  have "read_input toy_cipher (chef_new []) ?ea ''utf8'' = Inr []"
    by (simp add: read_input_def choices read_by_format_def chef_text_def from_utf8_def del: lit_Cons)
  moreover have "aes_block toy_cipher (lit ''ctr'') (lit ''pkcs7'') (replicate 16 0) (replicate 16 0) [] False = Inr []"
    by (simp add: aes_block_def keyed_block_def toy_ext_laws run_block_def reversing_of_def Let_def)
  moreover have "emit_output toy_cipher [] ?ea ''base64'' = Inr (from_text [])"
    by (simp add: emit_output_def choices del: lit_Cons)
      (simp add: emit_by_format_def b64_encode_def toy_cipher_def hex_engine_def hex_encode_def)
  ultimately have "aes_encrypt toy_cipher (chef_new []) ?ea = Inr (from_text [])"
    by (simp add: aes_encrypt_def symmetric_def choices params del: lit_Cons)
  then show ?thesis
    by (simp add: step_data_def run_step_def aes_entries del: lit_Cons)
      (simp add: aes_encrypt_entry_def toy_ext_laws chef_len_def utf8_def)
qed

section \<open>Small inputs\<close>

lemma valid_two: "valid_string [0x4E2D, 37]"
  by (simp add: valid_string_def is_scalar_def)

lemma format_unix_epoch: "\<exists>t. format_unix 0 0 = Some t"
proof -
  have "i64_ok 0" by (simp add: i64_ok_def)
  moreover have "civil_from_days 0 = (1970, 1, 1)" by code_simp
  ultimately show ?thesis by (simp add: format_unix_def Let_def)
qed

lemma base85_one: "\<exists>e. base85_encode (chef_new [1]) Map.empty = Inr e"
  by (simp add: base85_encode_def choice_in_def args_choice_def BASE85_STYLES_def a85_encode_def base85_alphabet_def Let_def)

lemma html_default: "\<exists>e. html_entity_encode (from_text (lit ''a<b'')) Map.empty = Inr e"
  by (simp add: html_entity_encode_def args_choice_def Let_def html_char_def valid_string_def is_scalar_def)

end
