(* ===== verification/Further_Theorems.thy ===== *)
theory Further_Theorems
  imports Plugin_World Agent_Frida_World Agent_Fs_World Agent_Workshop Agent_Instances Agent_Auto Instances Chef_Service
begin

text \<open>
  Further theorems, most of them round trips of the operations of the algorithm centre, each with an
  instance at a concrete input.
\<close>

text \<open>When a run reports \<open>failed_at = Some k\<close>, exactly \<open>k + 1\<close> steps are recorded, the first \<open>k\<close> succeeded and the last did not, the kept data is the result of the first \<open>k\<close> steps, and one step more has no result.\<close>

theorem bake_stops_at_first_failure:
  assumes "run_recipe ops 0 seeded steps = Some (final, records, Some k)"
  shows "k < length steps \<and> length records = k + 1 \<and> list_all res_ok (butlast records) \<and> \<not> res_ok (last records) \<and>
    meaning ops (take k steps) seeded = Some final \<and> meaning ops (take (k + 1) steps) seeded = None"
  using run_recipe_failed [OF assms] by simp

theorem bake_stops_at_first_failure_witness:
  "\<exists>records. run_recipe [] 0 (chef_new [1]) [\<lparr>step_id = lit ''x'', step_args = Map.empty\<rparr>] = Some (chef_new [1], records, Some 0) \<and>
    length records = 1"
proof -
  have "run_recipe [] 0 (chef_new [1]) [\<lparr>step_id = lit ''x'', step_args = Map.empty\<rparr>] =
    Some (chef_new [1], [failed_step (lit ''x'') (chef_new [1]) (unknown_operation (lit ''x''))], Some 0)"
    by (simp add: run_step_def find_op_def)
  from this bake_stops_at_first_failure [OF this] show ?thesis by auto
qed

text \<open>The ids of the seven groups are pairwise different, so looking an id up finds the one operation registered under it.\<close>

theorem registry_ids_unique:
  "distinct (map op_id (registry ext)) \<and> length (registry ext) = 120 \<and> find_op (registry ext) (op_id (registry ext ! 37)) = Some (registry ext ! 37)"
proof -
  have n: "length (registry ext) = 120"
    using arg_cong [OF registry_ids [of ext], of length] by (simp add: operation_ids_def)
  then have "registry ext ! 37 \<in> set (registry ext)" by simp
  with n find_registered registry_distinct show ?thesis by blast
qed

text \<open>For any block cipher whose decryption undoes its encryption, \<open>run_block\<close> undoes itself in every mode: in CTR, CFB-8, CFB and OFB for all data, in ECB and CBC when the padding can be removed from the data.\<close>

theorem block_modes_undo:
  assumes "block_laws c" "run_block c mode padding key iv data False = Inr out"
    and "chain_mode mode \<Longrightarrow> recoverable padding (block_size c) data"
  shows "run_block c mode padding key iv out True = Inr data"
  using assms by (rule run_block_undo)

theorem block_modes_undo_witness:
  "run_block reversing (lit ''ecb'') (lit ''pkcs7'') [] [] [2, 2, 2, 1] True = Inr [1, 2]"
proof (rule block_modes_undo [OF reversing_laws])
  show "run_block reversing (lit ''ecb'') (lit ''pkcs7'') [] [] [1, 2] False = Inr [2, 2, 2, 1]"
    by (rule reversing_ecb)
qed (simp add: recoverable_def exact_padding_def)

text \<open>After the key schedule and any number of steps (the dropped ones and those that produce key stream) the RC4 state is a permutation of the 256 bytes, whatever the key.\<close>

theorem rc4_state_permutation:
  "mset (fst ((rc4_step ^^ n) (rc4_ksa key, 0, 0))) = mset (map of_nat [0..<256])"
  using rc4_run_perm [of n key] by (simp add: rc4_perm_def)

text \<open>The RC4 key stream added twice, with the same key and the same number of dropped bytes, cancels.\<close>

theorem rc4_undoes_itself:
  "rc4_keystream_xor key (rc4_keystream_xor key data dropped) dropped = data \<and> length (rc4_keystream_xor key data dropped) = length data"
  by (simp add: rc4_keystream_twice) (simp add: rc4_keystream_xor_def)

text \<open>Vigenere decryption with the key that encrypted gives the text back: the key index advances over the same letters on both sides, because shifting keeps letters letters.\<close>

theorem vigenere_undoes:
  assumes "chef_text data = Inr s" "vigenere data a False = Inr d"
  shows "vigenere d a True = Inr data"
  using assms by (rule vigenere_back)

theorem vigenere_undoes_witness:
  "vigenere (from_text (lit ''Bc d'')) [lit ''key'' \<mapsto> lit ''B''] True = Inr (from_text (lit ''Ab c''))"
proof (rule vigenere_undoes [where s = "lit ''Ab c''"])
  show "vigenere (from_text (lit ''Ab c'')) [lit ''key'' \<mapsto> lit ''B''] False = Inr (from_text (lit ''Bc d''))"
    by (simp add: vigenere_def Let_def args_text_def to_ascii_lower_def char_class_defs shift_letter_def w32_def valid_string_def is_scalar_def)
qed (simp add: valid_string_def is_scalar_def)

text \<open>Two messages that differ in one byte only never have the same CRC under any of the catalogue presets: a change confined to one byte is always detected.\<close>

theorem crc_detects_one_byte:
  assumes "(n, w, poly, init, refin, refout, xorout) \<in> set CRC_PRESETS"
    and "crc_compute (xs @ a # ys) w poly init refin refout xorout = crc_compute (xs @ b # ys) w poly init refin refout xorout"
  shows "a = b"
  using presets_odd [OF assms(1)] assms(2) by (auto intro: crc_one_byte)

theorem crc_detects_one_byte_witness:
  "crc_compute ([1] @ 7 # [2]) 16 0x8005 0 True True 0 \<noteq> crc_compute ([1] @ 9 # [2]) 16 0x8005 0 True True 0"
proof
  assume e: "crc_compute ([1] @ 7 # [2]) 16 0x8005 0 True True 0 = crc_compute ([1] @ 9 # [2]) 16 0x8005 0 True True 0"
  have "(lit ''crc16-ibm'', 16, 0x8005, 0, True, True, 0) \<in> set CRC_PRESETS" by (simp add: CRC_PRESETS_def)
  from crc_detects_one_byte [OF this e] show False by simp
qed

text \<open>The running sums of Adler-32 and Fletcher are the sum of the words and the sum weighted by the distance to the end, modulo the modulus, and both stay below it.\<close>

theorem checksum_sums_closed:
  assumes "0 < m"
  shows "running_sums m (s1 mod m, s2 mod m) ws = ((s1 + sum_list ws) mod m, (s2 + s1 * length ws + weighted ws) mod m)"
  using assms by (rule running_sums_closed)

theorem checksum_sums_closed_witness:
  "running_sums 65521 (1 mod 65521, 0 mod 65521) [97, 98, 99] = (295, 589)"
  using checksum_sums_closed [of 65521 1 0 "[97, 98, 99]"] by simp

text \<open>The closed formula of \<open>civil_from_days\<close> agrees with counting: the date it gives for a day number is reached from 1 January of a year divisible by 400 by that many steps to the next day of the Gregorian calendar.\<close>

theorem calendar_counts_days:
  assumes "\<bar>e\<bar> \<le> 10 ^ 12" "int n \<le> 10 ^ 14"
  shows "civil_from_days (e * 146097 - 719528 + int n) = (next_day ^^ n) (400 * e, 1, 1)"
  using assms by (rule civil_from_days_run)

theorem calendar_counts_days_witness:
  "civil_from_days (5 * 146097 - 719528 + int 59) = (2000, 2, 29)"
proof -
  have step: "(next_day ^^ 59) (2000, 1, 1) = (2000, 2, 29)"
    by (simp add: next_day_def next_date_def leap_def month_days_def eval_nat_numeral)
  show ?thesis using calendar_counts_days [of 5 59] step by simp
qed

text \<open>The seconds that \<open>format_unix\<close> turned into text with a zone offset are what \<open>date_to_unix\<close> reads from it.\<close>

theorem time_round_trip:
  assumes "format_unix seconds offset = Some t" "i64_ok seconds" "\<bar>offset\<bar> < 6000"
    and "offset = 0 \<Longrightarrow> args_number a (lit ''offsetMinutes'') 0 = Inr 0"
    and "choice_in a (lit ''unit'') (lit ''seconds'') DATE_TIME_UNITS = Inr (lit ''seconds'')"
  shows "date_to_unix (from_text t) a = Inr (from_text (show_int seconds))"
  using assms by (rule format_unix_read)

theorem time_round_trip_witness:
  "\<exists>t. format_unix 0 0 = Some t \<and> date_to_unix (from_text t) Map.empty = Inr (from_text (show_int 0))"
proof -
  have "choice_in Map.empty (lit ''unit'') (lit ''seconds'') DATE_TIME_UNITS = Inr (lit ''seconds'')"
    by (simp add: choice_in_def args_choice_def DATE_TIME_UNITS_def del: lit_Cons)
  moreover obtain t where "format_unix 0 0 = Some t" using format_unix_epoch by blast
  ultimately show ?thesis using time_round_trip [of 0 0 t Map.empty] by (auto simp: i64_ok_def args_number_def)
qed

text \<open>For inputs of at most half the limit, Base58 encoding returns and decoding its text with the same alphabet (bitcoin or flickr) gives the bytes back, leading zeros included.\<close>

theorem base58_round_trip:
  assumes "2 * chef_len d \<le> RADIX_MAX_INPUT" "a (lit ''alphabet'') = Some al" "b (lit ''alphabet'') = Some al"
    and "al = lit ''bitcoin'' \<or> al = lit ''flickr''"
  shows "\<exists>e. base58_encode d a = Returned (Inr e) \<and> base58_decode e b = Inr d"
  using assms by (rule base58_decode_encode)

theorem base58_round_trip_witness:
  "\<exists>e. base58_encode (chef_new [0, 255]) [lit ''alphabet'' \<mapsto> lit ''bitcoin''] = Returned (Inr e) \<and>
    base58_decode e [lit ''alphabet'' \<mapsto> lit ''bitcoin''] = Inr (chef_new [0, 255])"
  by (rule base58_round_trip [where al = "lit ''bitcoin''"])
    (simp_all add: chef_len_def RADIX_MAX_INPUT_def del: lit_Cons)

text \<open>In every style Base85 decodes what it encoded, with a partial last group and with delimiters; Z85 needs a multiple of four bytes.\<close>

theorem base85_round_trip:
  assumes "base85_encode d a = Inr e" "a (lit ''style'') = b (lit ''style'')"
    and "a (lit ''style'') = Some (lit ''z85'') \<Longrightarrow> 4 dvd chef_len d"
  shows "base85_decode e b = Inr d"
  using assms by (rule base85_decode_encode)

theorem base85_round_trip_witness:
  "\<exists>e. base85_encode (chef_new [1]) Map.empty = Inr e \<and> base85_decode e Map.empty = Inr (chef_new [1])"
proof -
  obtain e where "base85_encode (chef_new [1]) Map.empty = Inr e" using base85_one by blast
  then show ?thesis using base85_round_trip by fastforce
qed

text \<open>With a Base64 engine that obeys its laws, what the encoder wrote (either alphabet, wrapped at 76 characters or not) is decoded to the bytes, also with the other alphabet unless decoding is strict.\<close>

theorem base64_lenient_round_trip:
  assumes "b64_laws eng" "strict \<Longrightarrow> url' = url"
  shows "b64_decode eng (b64_encode eng bs url no_wrap) url' strict = Inr bs"
  using assms by (rule b64_decode_encode)

theorem base64_lenient_round_trip_witness:
  "b64_decode hex_engine (b64_encode hex_engine [255, 0] True False) False False = Inr [255, 0]"
  by (rule base64_lenient_round_trip [OF hex_engine_laws]) simp

text \<open>The bytes one step emits in a text format (hex, Base64, Base64url, decimal) are what the next step reads in that format.\<close>

theorem text_formats_round_trip:
  assumes "b64_laws eng" "format \<in> set text_formats" "emit_by_format eng bs format = Inr d"
  shows "read_by_format eng d format = Inr bs"
  using assms by (rule read_emit)

theorem text_formats_round_trip_witness:
  "\<exists>d. emit_by_format hex_engine [7, 255] (lit ''decimal'') = Inr d \<and> read_by_format hex_engine d (lit ''decimal'') = Inr [7, 255]"
proof -
  obtain d where d: "emit_by_format hex_engine [7, 255] (lit ''decimal'') = Inr d" by (auto simp: emit_by_format_def)
  moreover have "lit ''decimal'' \<in> set text_formats" by (simp add: text_formats_def)
  ultimately show ?thesis using text_formats_round_trip [OF hex_engine_laws _ d] by blast
qed

text \<open>On every UTF-8 text, URL decoding undoes URL encoding and Unicode unescaping undoes Unicode escaping, whatever the options of either side.\<close>

theorem escapes_round_trip:
  assumes "is_utf8 d"
  shows "rbind (url_encode d a) (\<lambda>e. url_decode e b) = Inr d \<and> rbind (unicode_escape d a) (\<lambda>e. unicode_unescape e b) = Inr d"
  using url_decode_encode [OF assms] unicode_decode_encode [OF assms] by blast

theorem escapes_round_trip_witness:
  "rbind (url_encode (from_text [0x4E2D, 37]) Map.empty) (\<lambda>e. url_decode e Map.empty) = Inr (from_text [0x4E2D, 37])"
  using escapes_round_trip [of "from_text [0x4E2D, 37]" Map.empty Map.empty]
  by (simp add: is_utf8_iff) (metis valid_two)

text \<open>HTML entity decoding gives back every text that was encoded, with named, decimal and hexadecimal entities.\<close>

theorem html_entities_round_trip:
  assumes "html_entity_encode d a = Inr e"
  shows "html_entity_decode e b = Inr d"
  using assms by (rule html_decode_encode)

theorem html_entities_round_trip_witness:
  "\<exists>e. html_entity_encode (from_text (lit ''a<b'')) Map.empty = Inr e \<and> html_entity_decode e Map.empty = Inr (from_text (lit ''a<b''))"
proof -
  obtain e where "html_entity_encode (from_text (lit ''a<b'')) Map.empty = Inr e" using html_default by blast
  then show ?thesis using html_entities_round_trip by blast
qed

text \<open>\<open>read_varint\<close> reads the documented encoding of every 64-bit value, however many bytes it takes, and stops right after it.\<close>

theorem protobuf_varints:
  "read_varint 0 0 (varint (unat v) @ rest) = Inr (v, rest)"
  by (rule read_varint_enc)

text \<open>In the ripple alphabet, which lists 64 characters with repetitions, Base58 does not decode what it encoded: the byte 27 becomes the text \<open>a\<close>, which decodes to 5.\<close>

theorem ripple_base58_loses:
  "encode_outcome [27] RIPPLE_ALPHABET = Returned (Inr (from_text (lit ''a''))) \<and> radix_decode (lit ''a'') RIPPLE_ALPHABET = Inr [5]"
  using ripple_loses by blast

text \<open>The ranking of \<open>word_frequency\<close> pairs every word with its number of occurrences, lists no word twice, is sorted by falling count and then by word, and its counts add up to the number of words.\<close>

theorem word_frequency_ranking:
  "set (ranked_words ws) = (\<lambda>w. (w, count_list ws w)) ` set ws \<and> distinct (map fst (ranked_words ws)) \<and>
    sorted (map (\<lambda>(w, n). (- int n, w)) (ranked_words ws)) \<and> sum_list (map snd (ranked_words ws)) = length ws"
  using ranked_words_set ranked_words_distinct ranked_words_sorted ranked_words_total by blast

text \<open>Looking an operation up reserves nothing: after the first submission has passed its lookup, the lookup of the second one finds nothing either, so both act. The ledger only protects a retry that comes after the first result.\<close>

theorem concurrent_duplicates_both_act:
  assumes "parse_params env write_params_from params = Inr (package, k)" "begin_write env m package k = Inr ()"
    and "lookup_at (ledger s) (clock env (device s)) k = None" "distinct (map fst (ledger s))"
  shows "\<exists>s1 s2. write_begin env m params s = Some (Inr (package, k, None), s1) \<and>
    write_begin env m params s1 = Some (Inr (package, k, None), s2)"
  using duplicates_both_act [OF assms] write_begin_looks_up [OF assms(1,2)] assms(3) by fastforce

theorem concurrent_duplicates_both_act_witness:
  "\<exists>s1 s2. write_begin phone (lit ''activity.launch'') phone_params \<lparr>device = 5, ledger = []\<rparr> = Some (Inr (lit ''com.x'', lit ''op-1'', None), s1) \<and>
    write_begin phone (lit ''activity.launch'') phone_params s1 = Some (Inr (lit ''com.x'', lit ''op-1'', None), s2)"
proof (rule concurrent_duplicates_both_act)
  show "parse_params phone write_params_from phone_params = Inr (lit ''com.x'', lit ''op-1'')" by code_simp
  show "begin_write phone (lit ''activity.launch'') (lit ''com.x'') (lit ''op-1'') = Inr ()" by code_simp
qed (simp_all add: lookup_at_def)

text \<open>When the consent of a serial without commas has been stored, a later question about that serial gives what was stored, and the answer for every other serial is unchanged.\<close>

theorem consent_is_remembered:
  assumes "set_consent db serial granted = (Inr (), db')" "44 \<notin> set serial"
  shows "has_consent db' other = (if trim other = trim serial then granted else has_consent db other)"
  using assms by (rule consent_set)

theorem consent_is_remembered_witness:
  "\<exists>db'. set_consent empty_db (lit '' ab:5 '') True = (Inr (), db') \<and> has_consent db' (lit ''ab:5'')"
proof -
  obtain db' where stored: "set_consent empty_db (lit '' ab:5 '') True = (Inr (), db')" using demo_consent by blast
  have "44 \<notin> set (lit '' ab:5 '')" by simp
  moreover have "trim (lit ''ab:5'') = trim (lit '' ab:5 '')" by (simp add: trim_defs)
  ultimately show ?thesis using consent_is_remembered [OF stored, of "lit ''ab:5''"] stored by (simp del: lit_Cons)
qed

text \<open>For a tree of \<open>n\<close> entries and \<open>b\<close> bytes, counted by recursion over its directories, the loop over a stack of directories returns \<open>b\<close> (saturated at 64 bits) and \<open>n\<close> when \<open>n\<close> is within the limit, and a number above the limit otherwise.\<close>

theorem removal_counts_the_tree:
  assumes "sized env d p b n"
  shows "(n \<le> MAX_REMOVE_ENTRIES \<longrightarrow> measure_tree env p d = Inr (min u64_max b, n)) \<and>
    (MAX_REMOVE_ENTRIES < n \<longrightarrow> (\<exists>c e. measure_tree env p d = Inr (c, e) \<and> MAX_REMOVE_ENTRIES < e))"
  using assms by (rule measure_tree_sized)

theorem removal_counts_the_tree_witness:
  "sized world_env small_world (lit ''/data/local/tmp/d'') 4104 3 \<and>
    measure_tree world_env (lit ''/data/local/tmp/d'') small_world = Inr (4104, 3)"
  using removal_counts_the_tree [OF world_sized] world_sized by (simp add: MAX_REMOVE_ENTRIES_def u64_max_def del: lit_Cons)

text \<open>The entries of a listing are, in order, those of the first 20,000 visible names in sorted order that can be looked at; \<open>truncated\<close> is set exactly when there are more visible names; entries and reports of unreadable ones together are as many as the names kept and the errors met.\<close>

theorem listings_lose_nothing:
  assumes "fs_list_of env path hidden d = Inr r" "fs_read_dir env (lr_path r) d = Inr items"
  shows "let names = filter (visible hidden) (entry_names items); kept = take MAX_LIST_ENTRIES (sort names) in
    map st_name (lr_entries r) = filter (seen env (lr_path r) d) kept \<and> sorted (map st_name (lr_entries r)) \<and>
    length (lr_entries r) \<le> MAX_LIST_ENTRIES \<and> (lr_truncated r \<longleftrightarrow> MAX_LIST_ENTRIES < length names) \<and>
    length (lr_entries r) + length (lr_unreadable r) = length (entry_errors items) + length kept"
  using listing_exact [OF assms] listing_sorted [OF assms(1)] by (simp add: Let_def min.commute)

theorem listings_lose_nothing_witness:
  "fs_list_of world_env (lit ''/data/local/tmp/d'') False small_world = Inr the_listing \<and>
    map st_name (lr_entries the_listing) = [lit ''a'', lit ''b''] \<and> \<not> lr_truncated the_listing"
  using listings_lose_nothing [OF world_lists(1), of "[Inr (lit ''b''), Inr (lit ''a'')]"] world_lists world_items
  by (simp add: Let_def world_entry_names MAX_LIST_ENTRIES_def del: lit_Cons)

text \<open>A preview reads at most the limit from the offset it reports, and its text encodes to, or its hexadecimal digits decode to, exactly the bytes read.\<close>

theorem previews_lose_nothing:
  assumes "preview_of env p d = Inr r"
  shows "\<exists>bytes. read_slice env (pv_path r) (pv_offset r) (preview_limit p) d = Inr bytes \<and> preview_limit p \<le> MAX_PREVIEW_BYTES \<and>
    (pv_encoding r = Enc_Utf8 \<and> (\<exists>t. pv_text r = Some t \<and> utf8 t = bytes) \<and> pv_hex r = None \<or>
     pv_encoding r = Enc_Hex \<and> pv_text r = None \<and> (\<exists>h. pv_hex r = Some h \<and> hex_decode h = Inr bytes))"
proof -
  from preview_exact [OF assms] obtain bytes where read: "read_slice env (pv_path r) (pv_offset r) (preview_limit p) d = Inr bytes"
    and body: "preview_body bytes = (pv_encoding r, pv_text r, pv_hex r)" by blast
  have "preview_limit p \<le> MAX_PREVIEW_BYTES" by (simp add: preview_limit_def)
  with read preview_body_exact [OF body] show ?thesis by (intro exI [of _ bytes] conjI)
qed

theorem previews_lose_nothing_witness:
  "\<exists>r. preview_of world_env preview_request small_world = Inr r \<and> pv_hex r = Some (lit ''6869ff'') \<and>
    hex_decode (lit ''6869ff'') = Inr [0x68, 0x69, 0xff]"
  using previews_lose_nothing [OF world_previews] world_previews
  by (auto simp: read_slice_def world_present preview_limit_def preview_request_def or_default_def DEFAULT_PREVIEW_BYTES_def MAX_PREVIEW_BYTES_def
      simp del: lit_Cons)

text \<open>Two files with the same text have the same kind and the same permission bits, set-user-id, set-group-id and sticky bit included.\<close>

theorem mode_text_determines_mode:
  assumes "render_mode_text kind mode = render_mode_text kind' mode'"
  shows "kind = kind' \<and> mode AND PERMISSION_BITS = mode' AND PERMISSION_BITS"
  using assms by (rule mode_text_says)

theorem mode_text_determines_mode_witness:
  "render_mode_text Kind_File 0x1a4 = render_mode_text Kind_File 0x81a4 \<and> (0x1a4 :: u32) AND PERMISSION_BITS = 0x81a4 AND PERMISSION_BITS"
proof -
  have "render_mode_text Kind_File 0x1a4 = render_mode_text Kind_File 0x81a4" by code_simp
  with mode_text_determines_mode [OF this] show ?thesis by simp
qed

text \<open>For every list of lines without line breaks or trailing blanks that does not end in an empty one, and every number of blank lines the script adds, parsing the answer gives the announced count and exactly these lines.\<close>

theorem proc_answers_are_read_back:
  assumes "ls \<noteq> []" "last ls \<noteq> []" "\<And>l. l \<in> set ls \<Longrightarrow> 10 \<notin> set l \<and> 13 \<notin> set l \<and> trim_end l = l" "n \<le> i64_max"
  shows "parse_proc_read_output env (join [10] ([lit ''ARTPROC_TOTAL'', show_dec n, lit ''ARTPROC_BODY''] @ ls @ replicate k [] @ [PROC_READ_SENTINEL])) =
    Inr \<lparr>pr_total = n, pr_body = join [10] ls, pr_body_truncated = False\<rparr>"
  by (rule proc_answer_read [OF assms])

theorem proc_answers_are_read_back_witness:
  "parse_proc_read_output little_env (join [10] ([lit ''ARTPROC_TOTAL'', show_dec 2, lit ''ARTPROC_BODY''] @ [lit ''ARTPROC_END'', lit ''x''] @
    replicate 1 [] @ [PROC_READ_SENTINEL])) = Inr \<lparr>pr_total = 2, pr_body = join [10] [lit ''ARTPROC_END'', lit ''x''], pr_body_truncated = False\<rparr>"
  by (rule proc_answers_are_read_back) (auto simp: i64_max_def trim_end_def trim_end_with_def is_whitespace_def)

end
