(* ===== verification/Fs_Policy.thy ===== *)
theory Fs_Policy
  imports Rust_Str "HOL-Library.Sublist"
begin

text \<open>
  Which device paths the desktop may change (\<open>src-tauri/src/services/fs_policy.rs\<close>): the path is
  normalised, and has to lie in one of the writable trees. The second half reads paths as lists of
  directory names, and states what the check lets through in those terms.
\<close>

datatype write_denied = Not_Absolute | Escapes_Root | Outside

definition WRITABLE_ROOTS :: "ustring list" where
  "WRITABLE_ROOTS = [lit ''/data/local/tmp'', lit ''/sdcard'', lit ''/storage/emulated/0'']"

definition denied_message :: "write_denied \<Rightarrow> ustring \<Rightarrow> ustring" where
  "denied_message d path =
     (case d of
        Not_Absolute \<Rightarrow> [35201, 25913, 30340, 36335, 24452, 24517, 39035, 26159, 32477, 23545, 36335, 24452]
      | Escapes_Root \<Rightarrow> [36335, 24452, 37324, 30340, 32, 46, 46, 32, 20250, 36339, 20986, 20801, 35768, 33539, 22260]
      | Outside \<Rightarrow> [36825, 37324, 19981, 22312, 20801, 35768, 30340, 33539, 22260, 20869, 65288, 114, 111, 111, 116, 32, 20063, 19968, 26679, 65289]) @ [65306] @ path @ [65307, 21482, 33021, 22312, 32] @ join (lit '' / '') WRITABLE_ROOTS @ [32, 36825, 20004, 22788, 20043, 20869]"

text \<open>The stack of the segments kept so far, innermost first.\<close>

fun fold_segments :: "ustring list \<Rightarrow> ustring list \<Rightarrow> write_denied + ustring list" where
  "fold_segments stack [] = Inr (rev stack)"
| "fold_segments stack (seg # segs) =
     (if seg = [] \<or> seg = lit ''.'' then fold_segments stack segs
      else if seg = lit ''..'' then
        (case stack of [] \<Rightarrow> Inl Escapes_Root | _ # stack' \<Rightarrow> fold_segments stack' segs)
      else fold_segments (seg # stack) segs)"

definition normalize_path :: "ustring \<Rightarrow> write_denied + ustring" where
  "normalize_path path =
     rbind (fold_segments [] (split_pred (\<lambda>c. c = 47) path)) (\<lambda>stack. Inr (47 # join [47] stack))"

definition check_writable :: "ustring \<Rightarrow> write_denied + ustring" where
  "check_writable path =
     (if \<not> starts_with path [47] then Inl Not_Absolute
      else rbind (normalize_path path) (\<lambda>clean.
        if list_ex (\<lambda>root. clean = root \<or> starts_with clean (root @ [47])) WRITABLE_ROOTS then Inr clean
        else Inl Outside))"

section \<open>Paths as lists of names\<close>

text \<open>A name a directory can have: not empty, no slash, neither the directory itself nor its parent.\<close>

definition is_name :: "ustring \<Rightarrow> bool" where
  "is_name s \<longleftrightarrow> s \<noteq> [] \<and> 47 \<notin> set s \<and> s \<noteq> lit ''.'' \<and> s \<noteq> lit ''..''"

text \<open>What a path denotes: walking its segments from the root, the parent of the root being an error.\<close>

fun walk :: "ustring list \<Rightarrow> ustring list \<Rightarrow> ustring list option" where
  "walk dir [] = Some dir"
| "walk dir (seg # segs) =
     (if seg = [] \<or> seg = lit ''.'' then walk dir segs
      else if seg = lit ''..'' then (if dir = [] then None else walk (butlast dir) segs)
      else walk (dir @ [seg]) segs)"

definition denotes :: "ustring \<Rightarrow> ustring list option" where
  "denotes path = walk [] (split_pred (\<lambda>c. c = 47) path)"

definition path_of :: "ustring list \<Rightarrow> ustring" where
  "path_of names = 47 # join [47] names"

definition writable_trees :: "ustring list list" where
  "writable_trees = [[lit ''data'', lit ''local'', lit ''tmp''], [lit ''sdcard''], [lit ''storage'', lit ''emulated'', lit ''0'']]"

lemma roots_are_trees: "WRITABLE_ROOTS = map path_of writable_trees"
  by (simp add: WRITABLE_ROOTS_def writable_trees_def path_of_def)

lemma fold_segments_walk:
  "fold_segments stack segs = (case walk (rev stack) segs of None \<Rightarrow> Inl Escapes_Root | Some names \<Rightarrow> Inr names)"
proof (induction stack segs rule: fold_segments.induct)
  case (2 stack seg segs)
  then show ?case by (cases stack) (auto simp del: lit_Cons)
qed simp

lemma normalize_denotes:
  "normalize_path path = (case denotes path of None \<Rightarrow> Inl Escapes_Root | Some names \<Rightarrow> Inr (path_of names))"
  by (auto simp: normalize_path_def denotes_def path_of_def fold_segments_walk split: option.splits)

lemma walk_names:
  "walk dir segs = Some names \<Longrightarrow> list_all is_name dir \<Longrightarrow> list_all (\<lambda>s. 47 \<notin> set s) segs \<Longrightarrow> list_all is_name names"
proof (induction dir segs rule: walk.induct)
  case (2 dir seg segs)
  have dots: "lit ''..'' \<noteq> []" "lit ''..'' \<noteq> lit ''.''" by simp_all
  have up: "list_all is_name (butlast dir)" using 2(5) by (auto simp: list_all_iff dest: in_set_butlastD)
  have down: "list_all is_name (dir @ [seg])" if "seg \<noteq> []" "seg \<noteq> lit ''.''" "seg \<noteq> lit ''..''"
    using 2(5,6) that by (simp add: is_name_def [of seg] del: lit_Cons)
  consider "seg = [] \<or> seg = lit ''.''" | "seg = lit ''..''" "dir \<noteq> []" | "seg \<noteq> []" "seg \<noteq> lit ''.''" "seg \<noteq> lit ''..''"
    using 2(4) dots by (cases "seg = lit ''..'' \<and> dir = []") (auto simp del: lit_Cons)
  then show ?case
  proof cases
    case 1
    with 2(1) [OF 1] 2(4-6) show ?thesis by (simp del: lit_Cons)
  next
    case c: 2
    with 2(2) up 2(4,6) dots show ?thesis by (simp del: lit_Cons)
  next
    case 3
    with 2(3) down 2(4,6) show ?thesis by (simp del: lit_Cons)
  qed
qed simp

lemma denotes_names: "denotes path = Some names \<Longrightarrow> list_all is_name names"
  unfolding denotes_def by (erule walk_names) (auto simp: list_all_iff dest: split_pred_pieces)

lemma walk_in: "list_all is_name names \<Longrightarrow> walk dir names = Some (dir @ names)"
  by (induction names arbitrary: dir) (auto simp: is_name_def simp del: lit_Cons)

lemma path_of_splits:
  assumes "list_all is_name names" "names \<noteq> []"
  shows "split_pred (\<lambda>c. c = 47) (path_of names) = [] # names"
  using split_pred_join [OF assms(2), of "\<lambda>c. c = 47" 47] assms(1)
  by (auto simp: path_of_def is_name_def list_all_iff)

lemma denotes_path_of: "list_all is_name names \<Longrightarrow> denotes (path_of names) = Some names"
  by (cases "names = []") (simp add: denotes_def path_of_def, simp add: denotes_def path_of_splits walk_in)

lemma path_of_inj: "list_all is_name names \<Longrightarrow> list_all is_name names' \<Longrightarrow> path_of names = path_of names' \<Longrightarrow> names = names'"
  by (metis denotes_path_of option.inject)

text \<open>A tree of paths is a tree of names: \<open>/sdcard2\<close> is not below \<open>/sdcard\<close>.\<close>

lemma join_append: "us \<noteq> [] \<Longrightarrow> vs \<noteq> [] \<Longrightarrow> join sep (us @ vs) = join sep us @ sep @ join sep vs"
proof (induction us)
  case (Cons u us)
  then show ?case by (cases "us = []") (simp_all add: join_Cons)
qed simp

lemma split_join_append:
  "us \<noteq> [] \<Longrightarrow> (\<And>u. u \<in> set us \<Longrightarrow> 47 \<notin> set u) \<Longrightarrow>
   split_pred (\<lambda>c. c = 47) (join [47] us @ 47 # rest) = us @ split_pred (\<lambda>c. c = 47) rest"
proof (induction us)
  case (Cons u us)
  show ?case
  proof (cases "us = []")
    case True
    with Cons.prems show ?thesis by (auto intro!: split_pred_append)
  next
    case False
    have "split_pred (\<lambda>c. c = 47) (u @ 47 # join [47] us @ 47 # rest) =
        u # split_pred (\<lambda>c. c = 47) (join [47] us @ 47 # rest)"
      using Cons.prems(2) by (intro split_pred_append) auto
    with Cons.IH False Cons.prems(2) show ?thesis by (simp add: join_Cons)
  qed
qed simp

lemma below_tree:
  assumes tree: "list_all is_name tree" "tree \<noteq> []" and names: "list_all is_name names"
  shows "path_of names = path_of tree \<or> starts_with (path_of names) (path_of tree @ [47]) \<longleftrightarrow> prefix tree names"
proof
  assume "path_of names = path_of tree \<or> starts_with (path_of names) (path_of tree @ [47])"
  then show "prefix tree names"
  proof
    assume "path_of names = path_of tree"
    with path_of_inj [OF names tree(1)] show ?thesis by simp
  next
    assume "starts_with (path_of names) (path_of tree @ [47])"
    then obtain rest where rest: "join [47] names = join [47] tree @ 47 # rest" by (auto simp: starts_with_iff path_of_def)
    then have ne: "names \<noteq> []" by auto
    have "names = split_pred (\<lambda>c. c = 47) (join [47] names)"
      by (rule sym, rule split_pred_join [OF ne]) (use names in \<open>auto simp: is_name_def list_all_iff\<close>)
    also have "\<dots> = tree @ split_pred (\<lambda>c. c = 47) rest"
      unfolding rest using tree by (intro split_join_append) (auto simp: is_name_def list_all_iff)
    finally show ?thesis by (rule prefixI)
  qed
next
  assume "prefix tree names"
  then obtain us where us: "names = tree @ us" by (auto elim: prefixE)
  show "path_of names = path_of tree \<or> starts_with (path_of names) (path_of tree @ [47])"
    using join_append [OF tree(2), of us "[47]"] by (cases "us = []") (auto simp: us path_of_def starts_with_iff)
qed

lemma trees_ok: "tree \<in> set writable_trees \<Longrightarrow> list_all is_name tree \<and> tree \<noteq> []"
  by (auto simp: writable_trees_def is_name_def)

text \<open>What the check lets through: absolute paths that denote a place in a writable tree.\<close>

lemma check_writable_iff:
  "check_writable path = Inr clean \<longleftrightarrow> starts_with path [47] \<and>
     (\<exists>names. denotes path = Some names \<and> clean = path_of names \<and> (\<exists>tree \<in> set writable_trees. prefix tree names))"
proof (cases "denotes path")
  case None
  then show ?thesis by (simp add: check_writable_def normalize_denotes)
next
  case (Some names)
  have "list_ex (\<lambda>root. path_of names = root \<or> starts_with (path_of names) (root @ [47])) WRITABLE_ROOTS \<longleftrightarrow>
      (\<exists>tree \<in> set writable_trees. prefix tree names)"
    unfolding roots_are_trees list_ex_iff using below_tree trees_ok denotes_names [OF Some] by fastforce
  with Some show ?thesis by (auto simp: check_writable_def normalize_denotes)
qed

lemma check_writable_again:
  assumes "check_writable path = Inr clean"
  shows "check_writable clean = Inr clean \<and> denotes clean = denotes path"
proof -
  obtain names where names: "denotes path = Some names" "clean = path_of names" "\<exists>tree \<in> set writable_trees. prefix tree names"
    using assms by (auto simp: check_writable_iff)
  have d: "denotes clean = Some names" using denotes_path_of [OF denotes_names [OF names(1)]] names(2) by simp
  moreover have "starts_with clean [47]" by (simp add: names(2) path_of_def starts_with_iff)
  ultimately show ?thesis using names by (auto simp: check_writable_iff)
qed

end
