(* ===== verification/Spec2Isabelle.thy ===== *)
theory Spec2Isabelle
  imports Chef_Service Further_Theorems Instances Agent_Instances Agent_Workshop Agent_Fs_World Fs_Policy Agent_Auto Agent_Frida_World Plugin_World
begin

text \<open>
  A verification library for androidRevBox, a desktop workbench for reversing Android applications
  (Tauri, Rust) with an agent that runs on the device. Paths below are relative to \<open>src/\<close>.

  The program. The desktop application (\<open>src-tauri\<close>) offers an algorithm centre, a bake of recipes made of
  encodings, ciphers, digests and parsers (\<open>src-tauri/src/services/chef\<close>), and drives devices: it decides
  whether to bring the agent up (\<open>services/agent_auto.rs\<close>), talks to it over one connection shared by many
  calls (\<open>services/agent_client.rs\<close>, \<open>adapters/agent_transport.rs\<close>), keeps its settings in a table
  (\<open>services/config_service.rs\<close>) and confines what it changes on a device to some trees
  (\<open>services/fs_policy.rs\<close>). The agent (\<open>android-agent\<close>) serves connections, authenticates them, routes
  requests to providers and ends itself when nobody uses it. Both sides share \<open>agent-protocol\<close>.

  Shared vocabulary. \<^theory_text>\<open>Prelude\<close> holds results as sums with their bind, the interfaces \<open>codec\<close>,
  \<open>prefix_code\<close> and \<open>self_inverse\<close> as locales, and the collections of hints; \<^theory_text>\<open>Rust_Str\<close> the string
  functions of the Rust library on lists of code points; \<^theory_text>\<open>Utf8\<close> the strict and the lossy decoder, with the
  proof that they undo the encoder.

  The algorithm centre.
  \<^item> \<open>data.rs\<close>: \<^theory_text>\<open>Chef_Data\<close> (the data that flows through a recipe, arguments, hexadecimal, Base64, reading
    and writing by format), \<^theory_text>\<open>Chef_Radix\<close> (big-integer radix conversion, with the value a numeral
    denotes), \<^theory_text>\<open>Chef_Base85\<close>.
  \<^item> \<open>spec.rs\<close>, \<open>models/chef.rs\<close>: \<^theory_text>\<open>Chef_Spec\<close>, the registry entries, the defaults and the records of a bake.
  \<^item> \<open>ops/encoding.rs\<close>: \<^theory_text>\<open>Chef_Encoding\<close>, \<^theory_text>\<open>Chef_Escapes\<close>; \<open>ops/text.rs\<close>: \<^theory_text>\<open>Chef_Time\<close> (the calendar, against
    the count of days since 1970), \<^theory_text>\<open>Chef_Text\<close>; \<open>ops/cipher.rs\<close>: \<^theory_text>\<open>Chef_Block\<close> (block modes over any block
    cipher), \<^theory_text>\<open>Chef_Cipher\<close> (RC4, XOR, the classical ciphers, the operations); \<open>ops/digest.rs\<close>: \<^theory_text>\<open>Chef_Digest\<close>
    (catalogue CRC, against a shift register of bits); \<open>ops/kdf.rs\<close>, \<open>ops/compression.rs\<close>: \<^theory_text>\<open>Chef_Kdf\<close>;
    \<open>ops/format.rs\<close>: \<^theory_text>\<open>Chef_Format\<close> (JSON printing, JWT, hex dumps, protobuf, DER, file types).
  \<^item> \<open>mod.rs\<close>, \<open>ops/mod.rs\<close>: \<^theory_text>\<open>Chef_Service\<close>, the bake loop with its limits over the whole registry, and its
    meaning, the composition of the steps.
  \<^item> \<^theory_text>\<open>Instances\<close>: libraries that satisfy the hypotheses.

  The agent and the desktop around it.
  \<^item> \<^theory_text>\<open>Agent_Frame\<close> (\<open>agent-protocol/src/frame.rs\<close>, both \<open>read_message\<close>): frames form a prefix code; the three
    readers are one reader.
  \<^item> \<^theory_text>\<open>Agent_Protocol\<close> (\<open>error.rs\<close>, \<open>envelope.rs\<close>, \<open>capability.rs\<close>): the messages and their JSON values.
  \<^item> \<^theory_text>\<open>Agent_Ledger\<close> (\<open>provider/operations.rs\<close>): the idempotence ledger and its histories.
  \<^item> \<^theory_text>\<open>Agent_Activity\<close> (\<open>provider/activity.rs\<close>): an action takes the device and the ledger and ends with a value
    or an agent error. The collections \<open>ending\<close> and \<open>sparing\<close> and the calculus \<open>emits\<close> over a device with a
    log carry the proofs that every action returns, what it leaves alone, and which commands it runs.
  \<^item> \<^theory_text>\<open>Rust_Path\<close>, \<^theory_text>\<open>Agent_Params\<close>: paths as texts, the readers of parameters and the case-split rules of the calculi.
  \<^item> \<^theory_text>\<open>Agent_Privileged\<close> (\<open>provider/privileged.rs\<close>): the checks and the script templates; an argument that
    passes a check adds no shell metacharacter to a template.
  \<^item> \<^theory_text>\<open>Agent_Package\<close> (\<open>provider/package.rs\<close>): the locale \<open>remembered_write\<close> of \<^theory_text>\<open>Agent_Activity\<close> is interpreted
    on uninstall and replacement as on launch and force-stop; \<open>uninstall_log\<close> and \<open>replace_log\<close> say which
    commands an operation runs, in which order, and with which outcome. \<^theory_text>\<open>Agent_Workshop\<close> runs both on a device.
  \<^item> \<^theory_text>\<open>Agent_Files\<close> (\<open>provider/filesystem.rs\<close>, file modes of \<open>methods.rs\<close>) and \<^theory_text>\<open>Agent_File_Writes\<close>
    (\<open>provider/filesystem_write.rs\<close>): reading and changing files over a record of system calls; a log of the
    changing calls shows what may be done where, and the count before a removal is compared with a recursion
    over the tree. \<^theory_text>\<open>Agent_Fs_World\<close> is a small file system.
  \<^item> \<^theory_text>\<open>Agent_Net\<close> and \<^theory_text>\<open>Agent_Processes\<close> (\<open>provider/process.rs\<close>): the socket tables of the kernel, read back from
    the form the kernel prints; who holds a socket, with soundness and completeness of the scan; reading a file
    of a process; ending one, where a log of signals and scripts shows what may be sent to whom and
    \<open>report_true\<close> what a report rests on. \<^theory_text>\<open>Agent_Process_World\<close> is a device with one process.
  \<^item> \<^theory_text>\<open>Agent_Frida\<close> (\<open>provider/frida.rs\<close>): finding the server of a name, exact up to the limit of the scan; starting
    it as root with its verification and clean-up, stopping it with confirmation; the calls a request may make,
    and what a success rests on. \<^theory_text>\<open>Agent_Frida_World\<close> is a device with root on which both are run.
  \<^item> \<^theory_text>\<open>Agent_Router\<close> (\<open>router.rs\<close>, \<open>provider/system.rs\<close>): the method table and the hello with its token.
  \<^item> \<^theory_text>\<open>Agent_Server\<close> (\<open>server.rs\<close>): any number of connections as a step relation, with the invariant of a
    connection (\<open>conn_ok\<close>) and of the presence count (\<open>agent_ok\<close>).
  \<^item> \<^theory_text>\<open>Agent_Presence\<close> (\<open>presence.rs\<close>): the idle machine against its specification \<open>should_exit\<close>, and the process
    that interleaves it with the connections.
  \<^item> \<^theory_text>\<open>Agent_Client\<close> (\<open>services/agent_client.rs\<close>): calls, reader, losses and deadlines as a step relation.
  \<^item> \<^theory_text>\<open>Fs_Policy\<close> (\<open>services/fs_policy.rs\<close>): the path check against a walk over directory names.
  \<^item> \<^theory_text>\<open>Config_Service\<close> (\<open>services/config_service.rs\<close>, \<open>db/config_repo.rs\<close>, \<open>core/error.rs\<close>): the settings.
  \<^item> \<^theory_text>\<open>Agent_Auto\<close> (\<open>services/agent_auto.rs\<close>, \<open>services/agent_artifact.rs\<close>): probe, decision, consent, connection.
  \<^item> \<^theory_text>\<open>Agent_Instances\<close>: a device, a server and settings on which the hypotheses hold.

  The plugins of the desktop.
  \<^item> \<^theory_text>\<open>Plugin_Tree\<close>: trees of directories and the calls of \<open>std::fs\<close> on them, each of which takes its delay
    and its failure from a schedule; \<open>keeps\<close> is the calculus of the paths that an action leaves alone.
  \<^item> \<^theory_text>\<open>Plugin_Manifest\<close> (\<open>plugins/manifest.rs\<close>, \<open>version_gt\<close> of \<open>plugins/install.rs\<close>): validation, and the loop over the
    parts of two versions against the lexicographic order of the padded parts.
  \<^item> \<^theory_text>\<open>Plugin_Install\<close> (\<open>plugins/install.rs\<close>): checking, staging, the swap, going back and removing; where the old
    tree, the backups and the new tree are after each of them, whichever call fails.
  \<^item> \<^theory_text>\<open>Plugin_Service\<close> (\<open>services/plugin_service.rs\<close>, \<open>plugins/loader.rs\<close>, \<open>plugins/plugin_repo.rs\<close>): a handle is a number,
    alive while the map, the quarantine or a call refers to it; a call is a step that takes the handle and one
    that ends it, so other operations come in between. \<^theory_text>\<open>Plugin_Safety\<close> has triples with a side for errors
    (\<open>valid\<close>) and the invariant \<open>held\<close> of the handles over all sequences of operations; \<^theory_text>\<open>Plugin_Upgrade\<close> what an
    installation does to the files; \<^theory_text>\<open>Plugin_World\<close> a directory with two versions of a plugin.

  Conventions. A string is the list of its code points, a byte an 8-bit word; machine integers keep their
  width where they can wrap and are bounded naturals where the code bounds them. Errors are the left side of
  a sum. A loop whose end depends on the outside is a \<open>partial_function\<close> into options (\<open>poll_pid\<close>, \<open>confirm_dead\<close>), and its
  returning is a theorem; the loops of the algorithm centre are structural or have a measure, the
  count before a removal has one in the entries left to the limit, and the nesting of protobuf and DER is bounded by the depth limits of the code. Concurrency is interleaving: a step of
  \<open>agent_step\<close> or \<open>client_step\<close> holds the lock of the shared state once.

  What the theorems rest on. External libraries (block ciphers, hashes, compression, serde_json, adb, the
  shell of the device, the order of a hash map) are arguments of the definitions. The laws used of them are
  named hypotheses: \<open>block_laws\<close>, \<open>b64_laws\<close>, \<open>rearranges\<close>, \<open>clock_ok\<close>.

  Bounds. Request ids come from a 64-bit counter, and the client is followed for fewer than \<open>2 ^ 64\<close> calls.
  A handler of the agent is one step of the server; what a handler has done when its deadline fires, or when
  its connection is closed, is whatever the server's \<open>srv_late\<close> and \<open>srv_abort\<close> say.

  Not modelled. The other providers of the agent (device properties, hosted programs,
  zygisk), the session manager and the adb adapter of the desktop, the bootstrap scripts, the pipes of plugins that
  are processes, the lock that serialises the calls of libraries, symbolic links below the plugin root,
  the tool market and the front end; cryptographic primitives and compression formats themselves; logging.
\<close>


text \<open>C2: an accepted request is baked to the composition of its steps: \<open>ok\<close> is set exactly when every step succeeds in turn, the steps are then all recorded as done, and the hexadecimal output is that of the composed data.\<close>

theorem bake_refines_meaning:
  assumes "bake eng ops request = Some (Inr r)"
  shows "\<exists>encoding seeded. seed_input eng (req_input request) encoding = Inr seeded \<and>
    (bake_ok r \<longleftrightarrow> meaning ops (recipe request) seeded \<noteq> None) \<and>
    (\<forall>final. meaning ops (recipe request) seeded = Some final \<longrightarrow>
       output_hex r = hex_encode (data_bytes final) False [] \<and> length (bake_steps r) = length (recipe request))"
proof -
  obtain encoding seeded final records failed where seed: "seed_input eng (req_input request) encoding = Inr seeded"
    and run: "run_recipe ops 0 seeded (recipe request) = Some (final, records, failed)"
    and r: "r = bake_result eng (chef_len seeded) (final, records, failed)"
    using bake_accepted [OF assms] by blast
  have "(bake_ok r \<longleftrightarrow> meaning ops (recipe request) seeded \<noteq> None) \<and>
    (\<forall>f. meaning ops (recipe request) seeded = Some f \<longrightarrow>
       output_hex r = hex_encode (data_bytes f) False [] \<and> length (bake_steps r) = length (recipe request))"
  proof (cases "meaning ops (recipe request) seeded")
    case None
    with run have "failed \<noteq> None" using run_recipe_ok_iff by fastforce
    with None r show ?thesis by simp
  next
    case (Some f)
    with run_recipe_complete [OF Some, of 0] run have "failed = None" "f = final" by auto
    with Some r run_recipe_records run show ?thesis by auto
  qed
  with seed show ?thesis by blast
qed

theorem bake_refines_meaning_witness:
  "\<exists>r. bake hex_engine [op ''rot13'' ''cipher'' [] rot13]
    \<lparr>req_input = lit ''ab'', input_encoding = None, recipe = [\<lparr>step_id = lit ''rot13'', step_args = Map.empty\<rparr>]\<rparr> = Some (Inr r) \<and>
  (\<exists>encoding seeded. seed_input hex_engine (lit ''ab'') encoding = Inr seeded \<and>
    (bake_ok r \<longleftrightarrow> meaning [op ''rot13'' ''cipher'' [] rot13] [\<lparr>step_id = lit ''rot13'', step_args = Map.empty\<rparr>] seeded \<noteq> None))"
proof -
  let ?ops = "[op ''rot13'' ''cipher'' [] rot13]"
  let ?req = "\<lparr>req_input = lit ''ab'', input_encoding = None, recipe = [\<lparr>step_id = lit ''rot13'', step_args = Map.empty\<rparr>]\<rparr>"
  have len: "chef_len (from_text (lit ''ab'')) = 2" by (simp add: chef_len_def utf8_def utf8_char_def)
  have "returns e" if "e \<in> set ?ops" for e using that by auto
  from run_recipe_total [of ?ops, OF this]
  obtain p where p: "run_recipe ?ops 0 (from_text (lit ''ab'')) (recipe ?req) = Some p" by blast
  then have b: "bake hex_engine ?ops ?req = Some (Inr (bake_result hex_engine 2 p))"
    by (simp add: bake_def Let_def INPUT_ENCODINGS_def seed_input_def MAX_STEPS_def len MAX_INPUT_BYTES_def del: run_recipe.simps lit_Cons)
  from bake_refines_meaning [OF b] show ?thesis using b by (auto simp del: lit_Cons meaning.simps)
qed

text \<open>C3: no recipe, however its operations inflate the data, makes the service hand out more than \<open>MAX_STEP_BYTES\<close> bytes.\<close>

theorem bake_output_bounded:
  assumes "bake eng ops request = Some (Inr r)"
  shows "output_bytes r \<le> MAX_STEP_BYTES \<and> length (bake_steps r) \<le> MAX_STEPS"
proof -
  obtain seeded final records failed where len: "chef_len seeded \<le> MAX_INPUT_BYTES" "length (recipe request) \<le> MAX_STEPS"
    and run: "run_recipe ops 0 seeded (recipe request) = Some (final, records, failed)"
    and r: "r = bake_result eng (chef_len seeded) (final, records, failed)"
    using bake_accepted [OF assms] by blast
  have seeded: "chef_len seeded \<le> MAX_STEP_BYTES" using len(1) by (simp add: MAX_INPUT_BYTES_def MAX_STEP_BYTES_def)
  show ?thesis
  proof (cases failed)
    case None
    with run have m: "meaning ops (recipe request) seeded = Some final" and n: "length records = length (recipe request)"
      by (auto intro: run_recipe_ok_iff dest: run_recipe_records)
    from meaning_bound [OF m seeded] n len(2) r show ?thesis by simp
  next
    case (Some k)
    from run_recipe_failed [OF run [unfolded Some]]
    have m: "meaning ops (take k (recipe request)) seeded = Some final" and n: "length records = k + 1" "k < length (recipe request)"
      by simp_all
    from meaning_bound [OF m seeded] n len(2) r show ?thesis by simp
  qed
qed

theorem bake_output_bounded_witness:
  "\<exists>r. bake hex_engine [] \<lparr>req_input = lit ''ab'', input_encoding = None, recipe = []\<rparr> = Some (Inr r) \<and> output_bytes r \<le> MAX_STEP_BYTES"
proof -
  have len: "chef_len (from_text (lit ''ab'')) = 2" by (simp add: chef_len_def utf8_def utf8_char_def)
  have b: "bake hex_engine [] \<lparr>req_input = lit ''ab'', input_encoding = None, recipe = []\<rparr> =
    Some (Inr (bake_result hex_engine 2 (from_text (lit ''ab''), [], None)))"
    by (simp add: bake_def Let_def INPUT_ENCODINGS_def seed_input_def MAX_STEPS_def len MAX_INPUT_BYTES_def del: lit_Cons)
  from bake_output_bounded [OF b] b show ?thesis by blast
qed



text \<open>C5: whatever the method and its parameters, every \<open>am\<close> or \<open>monkey\<close> command the activity provider runs names the package of the request, comes after a successful \<open>pm list packages -3\<close> that lists exactly that package, and belongs to a request whose package name and operation id are well formed.\<close>

theorem write_operations_are_guarded:
  assumes "activity_handle (logged env) m params s = Some (r, s')" "snd (device s') = snd (device s) @ u @ e # v"
    and "fst e \<in> {AM, MONKEY}"
  shows "\<exists>package k. parse_params (logged env) write_params_from params = Inr (package, k) \<and>
    is_safe_package_name package \<and> is_valid_operation_id k \<and> package \<in> set (fst (snd e)) \<and>
    (\<exists>x \<in> set u. shows_third_party package x)"
proof -
  from activity_guarded [of env m params] assms(1) obtain w where w: "snd (device s') = snd (device s) @ w"
    "quiet w \<or> (\<exists>package k. parse_params (logged env) write_params_from params = Inr (package, k) \<and>
        is_safe_package_name package \<and> is_valid_operation_id k \<and> writes_guarded package w)"
    unfolding emits_def by blast
  with assms(2) have w': "w = u @ e # v" by simp
  have "changes e" using assms(3) by (simp add: changes_def)
  then have "\<not> quiet w" unfolding w' by (simp add: quiet_def)
  with w(2) \<open>changes e\<close> w' show ?thesis unfolding writes_guarded_def by blast
qed

theorem write_operations_are_guarded_witness:
  "\<exists>v s'. activity_handle (logged phone) (lit ''activity.launch'') phone_params phone_start = Some (Inr v, s') \<and>
    snd (device s') = phone_log \<and> fst (phone_log ! 2) = MONKEY \<and> lit ''com.x'' \<in> set (fst (snd (phone_log ! 2))) \<and>
    (\<exists>x \<in> set (take 2 phone_log). shows_third_party (lit ''com.x'') x)"
proof -
  obtain v s' where go: "activity_handle (logged phone) (lit ''activity.launch'') phone_params phone_start = Some (Inr v, s')"
    and log: "snd (device s') = phone_log" using phone_activity by blast
  have monkey: "fst (phone_log ! 2) = MONKEY" by (simp add: phone_log_def)
  have "snd (device s') = snd (device phone_start) @ take 2 phone_log @ phone_log ! 2 # drop 3 phone_log"
    by (simp add: log phone_start_def) (simp add: phone_log_def)
  from write_operations_are_guarded [OF go this] monkey phone_submits
  have "lit ''com.x'' \<in> set (fst (snd (phone_log ! 2))) \<and> (\<exists>x \<in> set (take 2 phone_log). shows_third_party (lit ''com.x'') x)"
    by (auto simp del: lit_Cons)
  with go log monkey show ?thesis by blast
qed



text \<open>C7: every script run through \<open>su\<close> is the backup, the installation or the rollback template, filled with paths below the allowed prefixes without \<open>..\<close>; the characters a POSIX shell gives a meaning to are exactly those of the empty template, in the same order.\<close>

theorem scripts_keep_their_shape:
  assumes "package_handle (logged env) lstat m params s = Some (r, s')" "snd (device s') = snd (device s) @ w"
    and "script \<in> set (su_scripts w)"
  shows "checked_script script \<and> shell_frame script \<in> {shell_frame (backup_script [] []), shell_frame (install_script [] [] [] []),
    shell_frame (rollback_script [] [] True), shell_frame (rollback_script [] [] False)}"
proof -
  from package_scripts_checked [of env lstat m params] assms(1) obtain w' where w: "snd (device s') = snd (device s) @ w'"
    "\<forall>script \<in> set (su_scripts w'). checked_script script"
    unfolding emits_def by blast
  with assms(2,3) have "checked_script script" by simp
  then show ?thesis using checked_script_frame by simp
qed

theorem scripts_keep_their_shape_witness:
  "\<exists>result s'. package_handle (logged shop) (\<lambda>_ _. True) (lit ''package.replace_native_library'') shop_replace shop_idle = Some (Inr result, s') \<and>
    snd (device s') = shop_replace_log \<and> the_install shop_replacement \<in> set (su_scripts shop_replace_log) \<and>
    shell_frame (the_install shop_replacement) \<in> {shell_frame (backup_script [] []), shell_frame (install_script [] [] [] []),
      shell_frame (rollback_script [] [] True), shell_frame (rollback_script [] [] False)}"
proof -
  obtain result s' where go: "replace_native_library (logged shop) (\<lambda>_ _. True) shop_replace shop_idle = Some (Inr result, s')"
    and log: "snd (device s') = shop_replace_log" using shop_replaces by blast
  have handled: "package_handle (logged shop) (\<lambda>_ _. True) (lit ''package.replace_native_library'') shop_replace shop_idle = Some (Inr result, s')"
    using go by (simp add: package_handle_def)
  have "snd (device s') = snd (device shop_idle) @ shop_replace_log" by (simp add: log shop_idle_def)
  moreover have "the_install shop_replacement \<in> set (su_scripts shop_replace_log)" by (simp add: su_scripts_def shop_replace_log_def)
  ultimately show ?thesis using scripts_keep_their_shape [OF handled] handled log by blast
qed









text \<open>C12: whatever the method and its parameters, the provider sends nothing, or one signal or one script of the kill template to the process it was asked for, whose readable name or program is the expected one and which is neither 0, 1 nor the agent, or runs the fixed reading script with at most \<open>MAX_PROC_LINES\<close> lines. The script adds no character the shell gives a meaning to, and stands for a signal only when root was asked for and the agent is not root.\<close>

theorem process_calls_are_guarded:
  assumes "process_handle (proc_logged env) m params s = Some (r, s')"
  shows "\<exists>w. snd (device s') = snd (device s) @ w \<and>
    (w = [] \<or>
     (\<exists>p c. w = [c] \<and> m = lit ''process.kill'' \<and> process_params env kill_params_from params = Inr p \<and>
        allowed_kill env p (fst (device s)) c) \<or>
     (\<exists>pid f n. w = [Command_Call SU [lit ''-c'', proc_read_script pid (proc_file_name f) n MAX_PROC_BYTES]] \<and>
        m = lit ''process.proc_read'' \<and> pid \<noteq> 0 \<and> 1 \<le> n \<and> n \<le> MAX_PROC_LINES))"
proof -
  consider (kill) "m = lit ''process.kill''" "kill (proc_logged env) params s = Some (r, s')"
    | (read) "m = lit ''process.proc_read''" "proc_read (proc_logged env) params s = Some (r, s')"
    | (none) "device s' = device s"
    using assms by (auto simp: process_handle_def Agent_Params.reading_def athrow_def simp del: lit_Cons split: if_splits)
  then show ?thesis
  proof cases
    case kill
    from kill_calls [OF kill(2)] kill(1) show ?thesis by (auto simp del: lit_Cons)
  next
    case read
    from proc_read_calls [OF read(2)] read(1) show ?thesis by (metis append_Nil2)
  qed auto
qed

theorem process_calls_are_guarded_witness:
  "(\<exists>r s'. process_handle (proc_logged little_env) (lit ''process.kill'') little_kill little_idle = Some (r, s') \<and>
    snd (device s') = [Signal_Call 77 15]) \<and> allowed_kill little_env little_target (0, True) (Signal_Call 77 15)"
proof -
  obtain r s' where go: "process_handle (proc_logged little_env) (lit ''process.kill'') little_kill little_idle = Some (r, s')"
    and log: "snd (device s') = [Signal_Call 77 15]"
    using little_kills by (auto simp: process_handle_def)
  from process_calls_are_guarded [OF go] log have "allowed_kill little_env little_target (0, True) (Signal_Call 77 15)"
    by (auto simp: little_idle_def little_kill_parsed simp del: lit_Cons)
  with go log show ?thesis by blast
qed







text \<open>C16: whatever call fails at whatever point, an installation over an installed plugin does not lose the old version: when it succeeds, something is installed, the old tree is among the backups and the new version is greater than the old one; when it fails, the old tree is in its place or among the backups. The id has to name a directory below the root, and the old version may not contain a slash.\<close>

theorem upgrades_lose_nothing:
  assumes "validate_source env src (ph_platform env) (ps_world s) = (Inr m, w1)" "plugin_install env src s = (r, s')"
    "plain_id (pm_id m)" "node_at (ps_root s @ [pm_id m]) (w_tree (ps_world s)) = Some old"
    "\<forall>v. version_at env [] old = Some v \<longrightarrow> 47 \<notin> set v"
  shows "(case r of
      Inl _ \<Rightarrow> node_at (ps_root s @ [pm_id m]) (w_tree (ps_world s')) = Some old \<or>
        (\<exists>name. node_at (backup_at (ps_root s) (pm_id m) name) (w_tree (ps_world s')) = Some old)
    | Inr v \<Rightarrow> pv_id v = pm_id m \<and> node_at (ps_root s @ [pm_id m]) (w_tree (ps_world s')) \<noteq> None \<and>
        (\<exists>name. node_at (backup_at (ps_root s) (pm_id m) name) (w_tree (ps_world s')) = Some old) \<and>
        (\<exists>v. version_at env [] old = Some v \<and> version_gt (pm_version m) v))"
  using install_loses_nothing [OF assms] .

theorem upgrades_lose_nothing_witness:
  "case fst (plugin_install demo_env [lit ''src''] demo_service) of
    Inl _ \<Rightarrow> node_at [lit ''p'', lit ''tool.x''] (w_tree (ps_world (snd (plugin_install demo_env [lit ''src''] demo_service)))) = Some (demo_plugin (lit ''1'')) \<or>
      (\<exists>name. node_at (backup_at [lit ''p''] (lit ''tool.x'') name) (w_tree (ps_world (snd (plugin_install demo_env [lit ''src''] demo_service)))) = Some (demo_plugin (lit ''1'')))
  | Inr v \<Rightarrow> pv_id v = lit ''tool.x'' \<and> node_at [lit ''p'', lit ''tool.x''] (w_tree (ps_world (snd (plugin_install demo_env [lit ''src''] demo_service)))) \<noteq> None \<and>
      (\<exists>name. node_at (backup_at [lit ''p''] (lit ''tool.x'') name) (w_tree (ps_world (snd (plugin_install demo_env [lit ''src''] demo_service)))) = Some (demo_plugin (lit ''1''))) \<and>
      (\<exists>v. version_at demo_env [] (demo_plugin (lit ''1'')) = Some v \<and> version_gt (lit ''1.1.0'') v)"
proof -
  obtain r s' where go: "plugin_install demo_env [lit ''src''] demo_service = (r, s')" by fastforce
  have s: "ps_world demo_service = demo_world" "ps_root demo_service = [lit ''p'']" by (simp_all add: demo_service_def plugin_new_def)
  have old: "node_at (ps_root demo_service @ [pm_id demo_newer]) (w_tree (ps_world demo_service)) = Some (demo_plugin (lit ''1''))"
    using demo_installed by (simp add: s demo_entry del: lit_Cons)
  have v: "\<forall>v. version_at demo_env [] (demo_plugin (lit ''1'')) = Some v \<longrightarrow> 47 \<notin> set v"
  proof -
    have "47 \<notin> set (lit ''1.0.0'')" by simp
    with demo_version show ?thesis by (metis option.inject)
  qed
  from upgrades_lose_nothing [OF demo_source [folded s(1)] go _ old v] show ?thesis
    unfolding go by (cases r) (simp_all add: s demo_entry demo_plain del: lit_Cons)
qed

text \<open>C17: a rollback that succeeds has the tree of the greatest backup directory in place, and the manifest it returns is the one of that tree; one that fails, at whatever call, leaves what was installed in place or in the trash of the staging directory, and all backups but at most one untouched, that one being in place.\<close>

theorem rollback_is_exact:
  assumes "plugin_rollback host base k w = (r, w')" "plain_id k"
  shows "(\<forall>m. r = Inr m \<longrightarrow> (\<exists>es name. node_at (base @ [BACKUPS_DIR, k]) (w_tree w) = Some (Dir es) \<and> name \<in> fst ` set es \<and>
      (\<forall>n \<in> fst ` set es. dir_at (backup_at base k n) (w_tree w) \<longrightarrow> n \<le> name) \<and>
      node_at (base @ [k]) (w_tree w') = node_at (backup_at base k name) (w_tree w) \<and>
      version_at host (base @ [k]) (w_tree w') = Some (pm_version m))) \<and>
    (\<forall>e. r = Inl e \<longrightarrow>
      (\<forall>cur. node_at (base @ [k]) (w_tree w) = Some cur \<longrightarrow>
         node_at (base @ [k]) (w_tree w') = Some cur \<or> node_at (trash_at host base k) (w_tree w') = Some cur) \<and>
      (\<exists>b. \<forall>name. node_at (backup_at base k name) (w_tree w') = node_at (backup_at base k name) (w_tree w) \<or>
         name = b \<and> node_at (base @ [k]) (w_tree w') = node_at (backup_at base k name) (w_tree w)))"
  using rollback_result [OF assms] .

theorem rollback_is_exact_witness:
  "\<exists>w'. plugin_rollback demo_env [lit ''p''] (lit ''tool.x'') demo_upgraded = (Inr demo_manifest, w') \<and>
    version_at demo_env [lit ''p'', lit ''tool.x''] (w_tree w') = Some (lit ''1.0.0'')"
proof -
  obtain w' where go: "plugin_rollback demo_env [lit ''p''] (lit ''tool.x'') demo_upgraded = (Inr demo_manifest, w')"
    using demo_rolls_back by blast
  from rollback_is_exact [OF go demo_plain, THEN conjunct1, rule_format, OF refl]
  have "version_at demo_env ([lit ''p''] @ [lit ''tool.x'']) (w_tree w') = Some (pm_version demo_manifest)" by blast
  then have "version_at demo_env [lit ''p'', lit ''tool.x''] (w_tree w') = Some (pm_version demo_manifest)" by (simp del: lit_Cons)
  moreover have "pm_version demo_manifest = lit ''1.0.0''" by (simp add: demo_manifest_def)
  ultimately have "version_at demo_env [lit ''p'', lit ''tool.x''] (w_tree w') = Some (lit ''1.0.0'')" by metis
  with go show ?thesis by blast
qed





text \<open>C20: the answer lists every inode of the rows of that port once, owned or not; the process named for a socket holds it; and when nothing was skipped or cut off, no listed process holds a socket reported without an owner.\<close>

theorem port_holders_are_exact:
  assumes "by_port env params d = Inr v"
  shows "\<exists>port b. v = by_port_value b \<and> port \<noteq> 0 \<and> bp_port b = port \<and>
    distinct (map (ne_inode \<circ> ho_entry) (bp_sockets b @ bp_unowned b)) \<and>
    (ne_inode \<circ> ho_entry) ` set (bp_sockets b @ bp_unowned b) = ne_inode ` set (rows_of_port env port d) \<and>
    (\<forall>h \<in> set (bp_sockets b). ho_pid h \<noteq> 0 \<and> Agent_Net.holds env d (ho_pid h) (ne_inode (ho_entry h))) \<and>
    (bp_skipped b = [] \<and> \<not> bp_truncated b \<longrightarrow> (\<forall>h \<in> set (bp_unowned b). ne_inode (ho_entry h) \<noteq> 0 \<longrightarrow>
       (\<exists>names. p_dir env PROC d = Inr names \<and> (\<forall>pid. listed_pid names pid \<longrightarrow> \<not> Agent_Net.holds env d pid (ne_inode (ho_entry h))))))"
proof -
  from assms obtain port where port: "v = by_port_value (by_port_of env port d)" "port \<noteq> 0"
    by (cases "process_params env (one_uint_from ''port'' u16_max) params") (auto simp: by_port_def split: if_splits)
  have "bp_port (by_port_of env port d) = port" using by_port_parts [of env d port] by (metis by_port_result.select_convs(1) surj_pair)
  with port port_holders [where env = env and port = port and d = d] show ?thesis by (intro exI [of _ port] exI [of _ "by_port_of env port d"]) blast
qed

theorem port_holders_are_exact_witness:
  "by_port little_env little_by_port (0, True) = Inr (by_port_value (by_port_of little_env 27042 (0, True))) \<and>
    Agent_Net.holds little_env (0, True) 77 4242 \<and> (\<exists>port b. by_port_value (by_port_of little_env 27042 (0, True)) = by_port_value b \<and> port \<noteq> 0 \<and>
      (ne_inode \<circ> ho_entry) ` set (bp_sockets b @ bp_unowned b) = ne_inode ` set (rows_of_port little_env port (0, True)))"
proof -
  have go: "by_port little_env little_by_port (0, True) = Inr (by_port_value (by_port_of little_env 27042 (0, True)))"
    by (simp add: by_port_def little_port_parsed)
  have "Agent_Net.holds little_env (0, True) 77 4242" by (simp add: Agent_Net.holds_def little_sockets)
  with go port_holders_are_exact [OF go] show ?thesis by blast
qed

text \<open>C21: in a \<open>/proc\<close> of at most \<open>FRIDA_MAX_PIDS\<close> numbered entries the servers found are exactly the listed processes, other than the agent, whose first argument has the name as its file name, each with its arguments and its uid, by ascending process id; on a table whose rows are as the kernel writes them, a port counts as listening exactly when the process provider reads a row with that port in the state \<open>listen\<close>; and the address given to the start script is read back from the arguments of the server.\<close>

theorem frida_servers_are_exact:
  assumes "p_dir (f_proc env) PROC d = Inr names" "pid_count names \<le> FRIDA_MAX_PIDS"
    and "lines t = header # body" "\<And>row. row \<in> set body \<Longrightarrow> kernel_row family row" "port \<le> u16_max"
    and "validate_listen addr port = Inr ()" "gives_none args"
  shows "set (find_server env name d) = {sv. server_listed env name d names sv} \<and> sorted (map sv_pid (find_server env name d)) \<and>
    (text_has_listening_port t port \<longleftrightarrow>
      (\<exists>row e. row \<in> set body \<and> parse_net_line row family = Some e \<and> ne_port e = port \<and> ne_state e = lit ''listen'')) \<and>
    parse_listen (args @ [lit ''-l'', addr @ lit '':'' @ show_dec port]) = Some (addr, port)"
proof -
  from assms(6) have "addr \<noteq> []" "hd addr \<noteq> 45" by (auto simp: validate_listen_def split: if_splits)
  from started_arguments_read(1) [OF assms(7,5) this, of "[]"] show ?thesis
    using find_server_exact [OF assms(1,2)] find_server_sorted [of env name d] row_listens_entry [OF assms(4,5)]
    by (auto simp: text_listening_rows assms(3) simp del: lit_Cons) (simp_all del: lit_Cons add: lit_Cons [of _ "[]"])?
qed

theorem frida_servers_are_exact_witness:
  "set (find_server rooted DEFAULT_BINARY (0, True)) = {sv. server_listed rooted DEFAULT_BINARY (0, True) [lit ''self'', lit ''77''] sv} \<and>
    parse_listen [lit ''./frida-server'', lit ''-l'', lit ''127.0.0.1'' @ lit '':'' @ show_dec 27042] = Some (lit ''127.0.0.1'', 27042)"
proof -
  have names: "p_dir (f_proc rooted) PROC (0, True) = Inr [lit ''self'', lit ''77'']" by (simp add: PROC_def)
  have few: "pid_count [lit ''self'', lit ''77''] \<le> FRIDA_MAX_PIDS"
    by (simp add: pid_count_def little_parse_names FRIDA_MAX_PIDS_def del: lit_Cons)
  have row: "kernel_row Ipv4 row" if "row \<in> set [join [32] frida_words]" for row
    using that frida_kernel_row by simp
  have port: "27042 \<le> u16_max" by (simp add: u16_max_def)
  have listen: "validate_listen (lit ''127.0.0.1'') 27042 = Inr ()" by (simp add: validate_listen_def)
  have none: "gives_none [lit ''./frida-server'']" by (simp add: gives_none_def inline_listen_def)
  from frida_servers_are_exact [OF names few little_tcp_lines row port listen none]
  show ?thesis by simp
qed



text \<open>C23: when a launch, a force-stop, an uninstall or a replacement of a library has succeeded, the same request in the state it has left returns the same result with the outcome \<open>replayed\<close> and does not touch the device, as long as the ledger held only entries older than that moment.\<close>

theorem retry_replays:
  assumes "h = activity_handle env \<and> m \<in> {lit ''activity.launch'', lit ''activity.force_stop''} \<or>
      h = package_handle env lstat \<and> m \<in> {lit ''package.uninstall'', lit ''package.replace_native_library''}"
    and "rearranges (entries_order env)" "ledger_ok (ledger s)" "\<forall>e \<in> set (ledger s). at_of e < clock env (device s1)"
    and "h m params s = Some (Inr v, s1)"
  shows "\<exists>s2. h m params s1 = Some (Inr (mark_replayed v), s2) \<and> device s2 = device s1"
proof -
  have l: "activity_handle env (lit ''activity.launch'') params = launch env params" by (simp add: activity_handle_def)
  have f: "activity_handle env (lit ''activity.force_stop'') params = force_stop env params" by (simp add: activity_handle_def)
  have u: "package_handle env lstat (lit ''package.uninstall'') params = uninstall env params" by (simp add: package_handle_def)
  have n: "package_handle env lstat (lit ''package.replace_native_library'') params = replace_native_library env lstat params" by (simp add: package_handle_def)
  from assms(1) consider "h = activity_handle env" "m = lit ''activity.launch''" | "h = activity_handle env" "m = lit ''activity.force_stop''"
    | "h = package_handle env lstat" "m = lit ''package.uninstall''" | "h = package_handle env lstat" "m = lit ''package.replace_native_library''"
    by (auto simp del: lit_Cons)
  then show ?thesis
  proof cases
    case 1
    from launch_retried [OF assms(2-4)] assms(5) show ?thesis unfolding 1 l by blast
  next
    case 2
    from force_stop_retried [OF assms(2-4)] assms(5) show ?thesis unfolding 2 f by blast
  next
    case 3
    from uninstall_write.retried [OF assms(2-4)] assms(5) show ?thesis unfolding 3 u uninstall_def by blast
  next
    case 4
    from replace_write.retried [OF assms(2-4)] assms(5) show ?thesis unfolding 4 n replace_native_library_def by blast
  qed
qed

theorem retry_replays_witness:
  "\<exists>v s1 s2. activity_handle (logged phone) (lit ''activity.launch'') phone_params phone_start = Some (Inr v, s1) \<and>
    activity_handle (logged phone) (lit ''activity.launch'') phone_params s1 = Some (Inr (mark_replayed v), s2) \<and> device s2 = device s1"
proof -
  obtain v s1 where go: "activity_handle (logged phone) (lit ''activity.launch'') phone_params phone_start = Some (Inr v, s1)"
    using phone_activity by blast
  have order: "rearranges (entries_order (logged phone))" by (simp add: rearranges_def logged_def phone_def)
  have "ledger_ok (ledger phone_start)" "\<forall>e \<in> set (ledger phone_start). at_of e < clock (logged phone) (device s1)"
    by (simp_all add: phone_start_def ledger_ok_def)
  from retry_replays [where h = "activity_handle (logged phone)" and m = "lit ''activity.launch''", OF _ order this go] go show ?thesis by (auto simp del: lit_Cons)
qed

text \<open>C24: with a clock that does not run backwards and a sleep that lasts as long as asked, every method of the five providers returns a value or an error, whatever the device answers.\<close>

theorem write_operations_return:
  assumes "clock_ok env" "clock_ok (p_device pe)"
  shows "(\<exists>r s'. activity_handle env m params s = Some (r, s')) \<and> (\<exists>r s'. package_handle env lstat m params s = Some (r, s')) \<and>
    (\<exists>r t'. filesystem_handle fs m params t = Some (r, t')) \<and> (\<exists>r u'. process_handle pe m params u = Some (r, u')) \<and>
    (\<exists>r v'. frida_handle fe m params v = Some (r, v'))"
  using activity_returns [OF assms(1), of m params s] package_returns [of env lstat m params s] filesystem_returns [of fs m params t]
    process_returns [OF assms(2), of m params u] frida_returns [of fe m params v] by auto

theorem write_operations_return_witness:
  "clock_ok phone \<and> (\<exists>r s'. activity_handle phone (lit ''activity.launch'') phone_params phone_idle = Some (r, s'))"
  using phone_clock write_operations_return [OF phone_clock little_clock] by blast

text \<open>C25: in every state the agent can reach, the presence counter equals the number of authenticated connections; the ids a connection has answered, together with those of its running tasks, are among the ids it has received, each at most as often; and a connection that is not being served runs nothing.\<close>

theorem connections_accounted_for:
  assumes "server_ok srv" "reachable srv s0 a"
  shows "present a = card {i. \<exists>c. conns a i = Some c \<and> Agent_Server.phase c = Serving} \<and>
    (\<forall>i c. conns a i = Some c \<longrightarrow>
       image_mset response_id (mset (sent c)) + image_mset request_id (mset (active c)) \<subseteq># image_mset request_id (mset (received c)) \<and>
       (Agent_Server.phase c \<noteq> Serving \<longrightarrow> active c = []))"
  using reachable_ok [OF assms(2,1)]
  by (auto simp: agent_ok_def conn_ok_def serving_def answers_def running_def requests_def)

theorem connections_accounted_for_witness:
  "reachable demo_server phone_idle (agent_start phone_idle) \<and> present (agent_start phone_idle) =
    card {i. \<exists>c. conns (agent_start phone_idle) i = Some c \<and> Agent_Server.phase c = Serving}"
  using connections_accounted_for [OF demo_server_ok reachable.Start [of demo_server phone_idle]] by (blast intro: reachable.Start)

text \<open>C26: in every state the client can reach, a finished call that succeeded holds the payload of a received response that carried its request id; and a call that is still open either already holds its answer or the error, or the connection is up and the table of waiters leads from its id to it.\<close>

theorem calls_get_their_own_answers:
  assumes "client_reachable cl" "calls cl i = Some c"
  shows "(\<forall>v. stage c = Done (Inr v) \<longrightarrow> (\<exists>r \<in> set (arrived cl). response_id r = call_id c \<and> payload r = Success v)) \<and>
    (stage c \<in> {Registered, Waiting} \<longrightarrow> slot c \<noteq> None \<or> terminal_error cl = None \<and> pending cl (call_id c) = Some i)"
  using result_from_response [OF assms] no_lost_waiter [OF assms] by (auto simp: live_def)

theorem calls_get_their_own_answers_witness:
  "\<exists>cl. client_reachable cl \<and> calls cl 0 = Some demo_call \<and> (\<exists>r \<in> set (arrived cl). response_id r = id_of 1 \<and> payload r = Success VNull)"
proof -
  obtain cl where cl: "client_reachable cl" "calls cl 0 = Some demo_call" using demo_answered by blast
  with calls_get_their_own_answers [OF cl] show ?thesis by (auto simp: demo_call_def)
qed

text \<open>C27: \<open>auto_connect\<close> leaves the world as it is, or automatic connection is switched on, the device has been consented to, no session is up, no agent runs on it and no other attempt for it is under way; and it always gives back its claim on the device.\<close>

theorem nothing_written_without_consent:
  "case auto_connect env serial st of (res, st') \<Rightarrow>
    (world st' = world st \<or>
      auto_enabled (config st) \<and> has_consent (config st) serial \<and> is_running env serial (world st) = Inr False \<and>
      session_of env serial (world st) \<notin> {Session_Ready, Session_Degraded} \<and> serial \<notin> inflight st \<and>
      outcome res \<in> {Connected, Connect_Failed}) \<and>
    inflight st' = inflight st"
proof -
  obtain r st2 where run: "auto_connect env serial st = (r, st2)" by (cases "auto_connect env serial st")
  show ?thesis using auto_connect_writes [OF run] auto_connect_releases [OF run] by (auto simp: run)
qed

text \<open>C28: with a path read as a walk from the root over its segments, \<open>check_writable\<close> accepts exactly the absolute paths whose walk stays below the root and ends in one of the three writable trees; it returns the path of the names it ends at, and accepts its own result unchanged.\<close>

theorem writable_paths_are_exact:
  "(check_writable path = Inr clean \<longleftrightarrow> starts_with path [47] \<and>
      (\<exists>names. denotes path = Some names \<and> clean = path_of names \<and> (\<exists>tree \<in> set writable_trees. prefix tree names))) \<and>
    (check_writable path = Inr clean \<longrightarrow> check_writable clean = Inr clean \<and> denotes clean = denotes path)"
  using check_writable_iff [of path clean] check_writable_again [of path clean] by blast

theorem writable_paths_are_exact_witness:
  "check_writable (lit ''/sdcard/../sdcard/a//b/.'') = Inr (lit ''/sdcard/a/b'') \<and> check_writable (lit ''/sdcard/a/b'') = Inr (lit ''/sdcard/a/b'') \<and>
    check_writable (lit ''/sdcard/../data'') = Inl Outside"
proof -
  have "check_writable (lit ''/sdcard/../sdcard/a//b/.'') = Inr (lit ''/sdcard/a/b'')" by code_simp
  moreover have "check_writable (lit ''/sdcard/../data'') = Inl Outside" by code_simp
  ultimately show ?thesis using writable_paths_are_exact [of "lit ''/sdcard/../sdcard/a//b/.''" "lit ''/sdcard/a/b''"] by blast
qed

text \<open>C29: from a valid table, after any sequence of writes, API key changes, restarts and disk failures, the table is valid, and every pair a snapshot shows is an allowed key with a value its validator accepts; the API key is never among them.\<close>

theorem settings_stay_valid:
  assumes "settings_ok db"
  shows "settings_ok (foldl settings_step db history) \<and>
    (snapshot (foldl settings_step db history) = Inr shown \<longrightarrow>
      KEY_AI_API_KEY \<notin> fst ` set shown \<and> (\<forall>(key, v) \<in> set shown. \<exists>f. (key, f) \<in> set ALLOWED_KEYS \<and> f v))"
  using settings_calls_ok [OF assms, of history] snapshot_hides_key snapshot_values by fast

theorem settings_stay_valid_witness:
  "settings_ok empty_db \<and>
    snapshot (foldl settings_step empty_db [Write_Api_Key (lit ''k''), Write_Setting (lit ''app.settings.theme'') (lit ''dark'')]) =
      Inr [(lit ''app.settings.theme'', lit ''dark'')] \<and>
    KEY_AI_API_KEY \<notin> fst ` set [(lit ''app.settings.theme'', lit ''dark'')]"
  using settings_stay_valid [OF empty_db_ok, of "[Write_Api_Key (lit ''k''), Write_Setting (lit ''app.settings.theme'') (lit ''dark'')]"]
    demo_snapshot empty_db_ok by blast



text \<open>C31: with polls in the order of time, the loop returns at poll \<open>k\<close> exactly when \<open>k\<close> is the first poll such that, since some poll at least \<open>grace\<close> before it, every poll has seen nobody.\<close>

theorem idle_exit_is_exact:
  assumes "sorted (map snd polls)"
  shows "wait_until_should_exit grace None polls = Some k \<longleftrightarrow>
    should_exit grace polls k \<and> (\<forall>i < k. \<not> should_exit grace polls i)"
  using assms by (rule wait_until_first)

theorem idle_exit_is_exact_witness:
  "sorted (map snd [(1, 0), (0, 250), (0, 500 :: nat)]) \<and> should_exit 200 [(1, 0), (0, 250), (0, 500)] 2"
proof -
  have s: "sorted (map snd [(1 :: nat, 0), (0, 250), (0, 500 :: nat)])" by simp
  have "wait_until_should_exit 200 None [(1, 0), (0, 250), (0, 500)] = Some 2" by (simp add: observe_def)
  with idle_exit_is_exact [OF s, of 200 2] show ?thesis by simp
qed

text \<open>C32: when from poll \<open>j\<close> on nobody is seen and polls are at least \<open>IDLE_POLL\<close> apart, the loop returns by poll \<open>j + n\<close> for every \<open>n\<close> with \<open>grace \<le> n * IDLE_POLL\<close>.\<close>

theorem idle_exit_happens:
  assumes "sorted (map snd polls)" "\<forall>i \<in> {j..<length polls}. fst (polls ! i) = 0"
    and "\<forall>i. j \<le> i \<and> Suc i < length polls \<longrightarrow> snd (polls ! i) + IDLE_POLL \<le> snd (polls ! Suc i)"
    and "grace \<le> n * IDLE_POLL" "j + n < length polls"
  shows "\<exists>k \<le> j + n. wait_until_should_exit grace None polls = Some k"
  using assms by (rule wait_until_returns)

theorem idle_exit_happens_witness:
  "\<exists>k \<le> 2. wait_until_should_exit IDLE_POLL None [(1, 0), (0, IDLE_POLL), (0, 2 * IDLE_POLL)] = Some k"
proof -
  let ?polls = "[(1 :: nat, 0), (0, IDLE_POLL), (0, 2 * IDLE_POLL)]"
  have empty: "\<forall>i \<in> {1..<length ?polls}. fst (?polls ! i) = 0" by (auto simp: nth_Cons split: nat.split)
  have apart: "\<forall>i. 1 \<le> i \<and> Suc i < length ?polls \<longrightarrow> snd (?polls ! i) + IDLE_POLL \<le> snd (?polls ! Suc i)"
    by (auto simp: nth_Cons split: nat.split)
  from idle_exit_happens [OF _ empty apart, of IDLE_POLL 1] show ?thesis
    by (simp add: numeral_2_eq_2 del: wait_until_should_exit.simps)
qed

text \<open>C33: writing payloads within the size limit to a sink that takes everything succeeds, and reading as many frames from what was put on the wire gives exactly the payloads, leaving whatever follows untouched.\<close>

theorem frames_in_order:
  assumes "room k = None" "list_all (\<lambda>p. length p \<le> MAX_FRAME_SIZE) ps"
  shows "\<exists>k' wire. write_frames ps k = (Inr (), k') \<and> written k' = written k @ wire \<and>
    (\<forall>rest e. read_frames (length ps) (wire @ rest, e) = (Inr ps, rest, e))"
proof -
  have "frame_code.dec_seq (length ps) (concat (map frame_of ps) @ rest) = Inr (ps, rest)" for rest
    by (rule frame_code.dec_seq_concat) (use assms(2) in \<open>auto simp: list_all_iff\<close>)
  with write_frames_all [OF assms] read_frames_seq show ?thesis by fastforce
qed

theorem frames_in_order_witness:
  "\<exists>k' wire. write_frames [[7, 8], []] \<lparr>written = [], room = None, sink_error = Broken_Pipe\<rparr> = (Inr (), k') \<and> written k' = wire \<and>
    read_frames 2 (wire, Unexpected_Eof) = (Inr [[7, 8], []], [], Unexpected_Eof)"
proof -
  let ?k = "\<lparr>written = [], room = None, sink_error = Broken_Pipe\<rparr>"
  have small: "list_all (\<lambda>p. length p \<le> MAX_FRAME_SIZE) [[7, 8], [] :: bytes]" by (simp add: MAX_FRAME_SIZE_def)
  have room: "room ?k = None" by simp
  from frames_in_order [OF room small] obtain k' wire where k': "write_frames [[7, 8], []] ?k = (Inr (), k')" "written k' = written ?k @ wire"
    and r: "\<And>rest e. read_frames (length [[7, 8], [] :: bytes]) (wire @ rest, e) = (Inr [[7, 8], []], rest, e)" by blast
  from r [of "[]" Unexpected_Eof] have "read_frames 2 (wire, Unexpected_Eof) = (Inr [[7, 8], []], [], Unexpected_Eof)"
    by (simp add: numeral_2_eq_2 del: read_frames.simps)
  with k' show ?thesis by simp
qed

text \<open>C34: a frame cut short at any byte gives the error of the source; a length over \<open>MAX_FRAME_SIZE\<close> is refused with the rest of the stream unread; no reader returns more than the limit; and the readers of the server and of the desktop transport are \<open>read_json\<close> up to the names of the errors.\<close>

theorem damaged_frames_are_refused:
  "(length p \<le> MAX_FRAME_SIZE \<and> j < length (frame_of p) \<longrightarrow> fst (read_frame (take j (frame_of p), e)) = Inl (Frame_Io e)) \<and>
    (MAX_FRAME_SIZE < unat n \<longrightarrow> read_frame (to_be_bytes n @ rest, e) = (Inl (Frame_Too_Large (unat n) MAX_FRAME_SIZE), rest, e)) \<and>
    (fst (read_frame src) = Inr q \<longrightarrow> length q \<le> MAX_FRAME_SIZE) \<and>
    server_read_message dec src = apfst (rmap_err as_server_error) (read_json dec src) \<and>
    transport_read_message dec' src = apfst (rmap_err as_transport_error) (read_json dec' src)"
  using read_frame_cut [of p j e] read_frame_oversized [of n rest e] read_frame_bound [of src q] server_reads transport_reads by blast

theorem damaged_frames_are_refused_witness:
  "fst (read_frame (take 5 (frame_of [7, 8]), Connection_Reset)) = Inl (Frame_Io Connection_Reset) \<and>
    read_frame (to_be_bytes 9000000 @ [1], Broken_Pipe) = (Inl (Frame_Too_Large 9000000 MAX_FRAME_SIZE), [1], Broken_Pipe) \<and>
    length [7 :: u8] \<le> MAX_FRAME_SIZE"
proof -
  have cut: "length [7, 8 :: u8] \<le> MAX_FRAME_SIZE \<and> 5 < length (frame_of [7, 8])"
    by (simp add: MAX_FRAME_SIZE_def frame_of_def LENGTH_PREFIX_SIZE_def)
  have over: "MAX_FRAME_SIZE < unat (9000000 :: u32)" by (simp add: MAX_FRAME_SIZE_def)
  have read: "fst (read_frame (frame_of [7] @ [], Broken_Pipe)) = Inr [7]"
    using read_frame_encoded [of "[7]" "[]"] by (simp add: frame_of_def MAX_FRAME_SIZE_def)
  have "fst (read_frame (take 5 (frame_of [7, 8]), Connection_Reset)) = Inl (Frame_Io Connection_Reset)"
    using damaged_frames_are_refused [of "[7, 8]" 5 Connection_Reset 0 "[]" "([], Broken_Pipe)" "[]"] cut by blast
  moreover have "read_frame (to_be_bytes 9000000 @ [1], Broken_Pipe) = (Inl (Frame_Too_Large (unat (9000000 :: u32)) MAX_FRAME_SIZE), [1], Broken_Pipe)"
    using damaged_frames_are_refused [of "[]" 0 Broken_Pipe 9000000 "[1]" "([], Broken_Pipe)" "[]"] over by blast
  moreover have "length [7 :: u8] \<le> MAX_FRAME_SIZE"
    using damaged_frames_are_refused [of "[]" 0 Broken_Pipe 0 "[]" "(frame_of [7] @ [], Broken_Pipe)" "[7]"] read by blast
  ultimately show ?thesis by simp
qed

text \<open>C35: writing a response as a value and reading it gives it back exactly when its error code has its own name and its details are not an explicit null; whatever is read has this form; and an object with both or neither of \<open>result\<close> and \<open>error\<close> is refused.\<close>

theorem responses_survive_the_wire:
  "(response_from_value (response_to_value r) = Inr r \<longleftrightarrow> canonical_response r) \<and>
    (response_from_value v = Inr r' \<longrightarrow> response_from_value (response_to_value r') = Inr r') \<and>
    (response_from_value (VObject obj) = Inr r' \<longrightarrow> (map_of obj (lit ''result'') = None) \<noteq> (map_of obj (lit ''error'') = None))"
  using responses.dec_enc [of r] responses.dec_enc [of r'] response_from_canonical [of "response_to_value r" r] response_from_canonical [of v r']
    response_payload_exclusive [of obj r'] by argo

theorem responses_survive_the_wire_witness:
  "(response_from_value (VObject [(lit ''request_id'', VString (lit ''1'')), (lit ''result'', VNull :: nat jvalue)]) = Inr \<lparr>response_id = lit ''1'', payload = Success VNull\<rparr>) \<and>
    response_from_value (response_to_value \<lparr>response_id = lit ''1'', payload = Success (VNull :: nat jvalue)\<rparr>) = Inr \<lparr>response_id = lit ''1'', payload = Success VNull\<rparr>"
proof -
  have read: "response_from_value (VObject [(lit ''request_id'', VString (lit ''1'')), (lit ''result'', VNull :: nat jvalue)]) =
      Inr \<lparr>response_id = lit ''1'', payload = Success VNull\<rparr>" by code_simp
  with responses_survive_the_wire [of undefined _ "\<lparr>response_id = lit ''1'', payload = Success VNull\<rparr>"] show ?thesis by blast
qed

text \<open>C36: whatever calls are made to an empty ledger and in whatever order the hash map is walked, it never holds more than \<open>LEDGER_CAP\<close> entries, one per id; and a result remembered at a moment later than all others is found again by a lookup within \<open>LEDGER_TTL\<close> after fewer than \<open>LEDGER_CAP\<close> other operations.\<close>

theorem ledger_bounded_and_faithful:
  assumes "rearranges order"
  shows "length (foldl (ledger_step order) [] history) \<le> LEDGER_CAP \<and> distinct (map fst (foldl (ledger_step order) [] history)) \<and>
    ((\<forall>e \<in> set (foldl (ledger_step order) [] history). at_of e < t) \<and> list_all (call_within t) later \<and>
      k \<notin> \<Union> (remembered ` set later) \<and> card (\<Union> (remembered ` set later)) < LEDGER_CAP \<and> now \<le> t + LEDGER_TTL \<longrightarrow>
      lookup_at (foldl (ledger_step order) [] (history @ Remember t k v # later)) now k = Some v)"
proof -
  have ok: "ledger_ok (foldl (ledger_step order) [] history)" by (rule calls_ok [OF assms]) (simp add: ledger_ok_def)
  with remembered_result [OF assms ok, of t later k now v] show ?thesis by (auto simp: ledger_ok_def expired_def)
qed

theorem ledger_bounded_and_faithful_witness:
  "rearranges (\<lambda>es. es :: bool ledger) \<and>
    lookup_at (foldl (ledger_step (\<lambda>es. es)) [] [Remember 1 (lit ''a'') False, Remember 2 (lit ''b'') True, Lookup 3 3 (lit ''a'')]) 9 (lit ''b'') = Some True"
proof -
  have r: "rearranges (\<lambda>es. es :: bool ledger)" by (simp add: rearranges_def)
  have older: "\<forall>e \<in> set (foldl (ledger_step (\<lambda>es. es)) [] [Remember 1 (lit ''a'') False]). at_of e < 2"
    by (simp add: remember_def prune_def LEDGER_CAP_def expired_def)
  have fresh: "list_all (call_within 2) [Lookup 3 3 (lit ''a'') :: bool ledger_call]" by (simp add: expired_def LEDGER_TTL_def)
  from ledger_bounded_and_faithful [OF r, of "[Remember 1 (lit ''a'') False]" 2 "[Lookup 3 3 (lit ''a'')]" "lit ''b''" 9 True] r older fresh
  show ?thesis by (simp add: LEDGER_TTL_def LEDGER_CAP_def del: lit_Cons ledger_step.simps)
qed

text \<open>C37: for the router the agent builds, the announced methods are in ascending order without repetition; a method that is announced goes to a registered provider that lists it, and any other method is answered \<open>unsupported_method\<close> without touching anything.\<close>

theorem hello_announces_what_is_served:
  assumes "system_router_with env sys others = Some r" "\<forall>p \<in> set others. distinct (methods p)"
  shows "sorted (map cap_method (capabilities r s)) \<and> distinct (map cap_method (capabilities r s)) \<and>
    (\<forall>m params. if m \<in> set (map cap_method (capabilities r s))
       then \<exists>p \<in> set (providers r). m \<in> set (methods p) \<and> dispatch r m params s = handle p (context_of r s) m params s
       else dispatch r m params s = Some (Inl (agent_error_new Unsupported_Method (lit ''unsupported method: '' @ m)), s))"
proof -
  have "distinct (methods (system_as_provider env sys))"
    by (simp add: system_as_provider_def SYSTEM_HELLO_def SYSTEM_HEALTH_def CAPABILITY_LIST_def)
  then have "distinct (methods p)" if "p \<in> set (system_as_provider env sys # others)" for p using that assms(2) by auto
  from register_all_ok [OF router_new_ok this] assms(1) have ok: "router_ok r" by (simp only: system_router_with_def)
  have "if m \<in> set (map cap_method (capabilities r s))
       then \<exists>p \<in> set (providers r). m \<in> set (methods p) \<and> dispatch r m params s = handle p (context_of r s) m params s
       else dispatch r m params s = Some (Inl (agent_error_new Unsupported_Method (lit ''unsupported method: '' @ m)), s)" for m params
  proof (cases "table r m")
    case None
    then have "m \<notin> set (map cap_method (capabilities r s))" using announced_methods [OF ok, of s] by auto
    then show ?thesis using None by (simp add: dispatch_def athrow_def del: lit_Cons)
  next
    case (Some p)
    then have "m \<in> set (map cap_method (capabilities r s))" using announced_methods [OF ok, of s] by auto
    moreover have "p \<in> set (providers r) \<and> m \<in> set (methods p)" using ok Some by (simp add: router_ok_def)
    moreover have "dispatch r m params s = handle p (context_of r s) m params s" using Some by (simp add: dispatch_def)
    ultimately show ?thesis by auto
  qed
  with announced_methods [OF ok] show ?thesis by blast
qed

theorem hello_announces_what_is_served_witness:
  "system_router_with phone demo_system [activity_as_provider phone (lit ''1'')] = Some demo_router \<and>
    distinct (map cap_method (capabilities demo_router phone_idle))"
  using hello_announces_what_is_served [OF demo_router_built, of phone_idle] demo_methods_distinct demo_router_built
  by (simp del: lit_Cons)

text \<open>C38: with block ciphers that obey their laws, a recipe that encrypts with AES and decrypts with the same user arguments gives back the data it started with, through the registry, the defaults it fills in, the Base64 text in between and the padding; in the chaining modes the padding has to be one that can be removed.\<close>

theorem aes_recipe_round_trip:
  assumes "b64_laws (cip_b64 (ext_cipher ext))"
    and "\<And>c. c \<in> {aes128 (ext_cipher ext), aes192 (ext_cipher ext), aes256 (ext_cipher ext)} \<Longrightarrow> block_laws c \<and> block_size c = 16"
    and "g (lit ''inputFormat'') = None" "g (lit ''outputFormat'') = None"
    and "\<And>mode padding. choice_in (fill_defaults (aes_encrypt_entry ext) g) (lit ''mode'') (lit ''cbc'') MODES = Inr mode \<Longrightarrow>
      choice_in (fill_defaults (aes_encrypt_entry ext) g) (lit ''padding'') (lit ''pkcs7'') PADDINGS = Inr padding \<Longrightarrow>
      chain_mode mode \<Longrightarrow> recoverable padding 16 (data_bytes d)"
    and "step_data (registry ext) \<lparr>step_id = lit ''aesEncrypt'', step_args = g\<rparr> d = Some c"
    and "chef_len d \<le> MAX_STEP_BYTES"
  shows "meaning (registry ext) [\<lparr>step_id = lit ''aesEncrypt'', step_args = g\<rparr>,
    \<lparr>step_id = lit ''aesDecrypt'', step_args = g\<rparr>] d = Some d"
proof (rule aes_round_trip [OF assms(1) _ _ _ _ _ _ assms(3) assms(4) _ assms(6) assms(7)])
  show "recoverable padding 16 (data_bytes d)"
    if "choice_in (fill_defaults (aes_encrypt_entry ext) g) (lit ''mode'') (lit ''cbc'') MODES = Inr mode"
      "choice_in (fill_defaults (aes_encrypt_entry ext) g) (lit ''padding'') (lit ''pkcs7'') PADDINGS = Inr padding"
      "chain_mode mode" for mode padding using that by (rule assms(5))
qed (use assms(2) in blast)+

theorem aes_recipe_round_trip_witness:
  "meaning (registry toy_ext)
    [\<lparr>step_id = lit ''aesEncrypt'', step_args = toy_args\<rparr>, \<lparr>step_id = lit ''aesDecrypt'', step_args = toy_args\<rparr>] (chef_new []) = Some (chef_new [])"
proof (rule aes_recipe_round_trip [where c = "from_text []"])
  show "step_data (registry toy_ext) \<lparr>step_id = lit ''aesEncrypt'', step_args = toy_args\<rparr> (chef_new []) = Some (from_text [])"
    by (rule toy_encrypts)
  show "recoverable padding 16 (data_bytes (chef_new []))"
    if "choice_in (fill_defaults (aes_encrypt_entry toy_ext) toy_args) (lit ''mode'') (lit ''cbc'') MODES = Inr mode" "chain_mode mode"
    for mode padding using that unfolding toy_mode by (auto simp: chain_mode_def)
qed (use toy_ext_laws in \<open>auto simp: toy_args_def chef_len_def\<close>)





end
